(* ===== verification/Dc_Prelude.thy ===== *)
theory Dc_Prelude
  imports Main "HOL-Library.Word"
begin

text \<open>
  Shared vocabulary of the development: the fixed-width integers of the C sources, buffers as
  lists of bytes, C strings as lists of characters without their terminator, and the generic
  facts on words, lists and options that the component theories use. Nothing here models code
  of the repository; the few C library functions the sources call (\<open>memcpy\<close>, \<open>memcmp\<close>,
  \<open>strncmp\<close>, \<open>isspace\<close>, the rounding macros) are given their standard meaning.
\<close>

unbundle bit_operations_syntax

section \<open>Machine integers\<close>

type_synonym u8 = "8 word"
type_synonym u16 = "16 word"
type_synonym u32 = "32 word"
type_synonym u64 = "64 word"

named_theorems word_to_nat \<open>rules that read word comparisons and arithmetic on natural numbers\<close>

lemma unat_add_no_wrap [word_to_nat]:
  fixes a b :: "'a::len word"
  assumes "unat a + unat b < 2 ^ LENGTH('a)"
  shows "unat (a + b) = unat a + unat b"
  using assms by (simp add: unat_word_ariths)

lemma unat_diff_no_wrap [word_to_nat]:
  fixes a b :: "'a::len word"
  assumes "b \<le> a"
  shows "unat (a - b) = unat a - unat b"
  using assms by (simp add: unat_sub)

lemma unat_less_64 [simp]: "unat (x :: u64) < 18446744073709551616"
  using unsigned_less [of x, where ?'a = nat] by simp

lemma unat_less_32 [simp]: "unat (x :: u32) < 4294967296"
  using unsigned_less [of x, where ?'a = nat] by simp

lemma unat_less_8 [simp]: "unat (x :: u8) < 256"
  using unsigned_less [of x, where ?'a = nat] by simp

lemmas word_nat_cmp = word_less_nat_alt word_le_nat_alt

section \<open>Buffers\<close>

text \<open>
  \<open>memcpy_at buf off src\<close> is the buffer after copying the whole of \<open>src\<close> to offset \<open>off\<close>;
  the sources only call it where the copy is inside the buffer, which the theorems show.
\<close>

definition memcpy_at :: "'a list \<Rightarrow> nat \<Rightarrow> 'a list \<Rightarrow> 'a list" where
  "memcpy_at buf off src = take off buf @ src @ drop (off + length src) buf"

definition bslice :: "nat \<Rightarrow> nat \<Rightarrow> 'a list \<Rightarrow> 'a list" where
  "bslice off n buf = take n (drop off buf)"

lemma length_memcpy_at [simp]:
  "off + length src \<le> length buf \<Longrightarrow> length (memcpy_at buf off src) = length buf"
  by (simp add: memcpy_at_def)

lemma nth_memcpy_at:
  assumes "off + length src \<le> length buf" and "i < length buf"
  shows "memcpy_at buf off src ! i =
    (if i < off then buf ! i
     else if i < off + length src then src ! (i - off) else buf ! i)"
  using assms by (auto simp: memcpy_at_def nth_append)

lemma memcpy_at_Nil [simp]: "memcpy_at buf off [] = buf"
  by (simp add: memcpy_at_def)

lemma memcpy_at_append:
  assumes "off + length xs + length ys \<le> length buf"
  shows "memcpy_at (memcpy_at buf off xs) (off + length xs) ys = memcpy_at buf off (xs @ ys)"
  using assms by (simp add: memcpy_at_def ac_simps)

text \<open>Patching a part of a block and writing the block back patches the device.\<close>

lemma memcpy_at_block:
  assumes "p + b \<le> length c" and "off + length d \<le> b"
  shows "memcpy_at c p (memcpy_at (bslice p b c) off d) = memcpy_at c (p + off) d"
proof (rule nth_equalityI)
  have lb: "length (bslice p b c) = b" using assms by (simp add: bslice_def)
  have lm: "length (memcpy_at (bslice p b c) off d) = b"
    using assms lb by (simp add: memcpy_at_def)
  show "length (memcpy_at c p (memcpy_at (bslice p b c) off d)) = length (memcpy_at c (p + off) d)"
    using assms lm by simp
  fix i assume "i < length (memcpy_at c p (memcpy_at (bslice p b c) off d))"
  then have i: "i < length c" using assms lm by simp
  have "memcpy_at (bslice p b c) off d ! (i - p) =
      (if i - p < off then c ! i else if i - p < off + length d then d ! (i - p - off) else c ! i)"
    if "p \<le> i" "i < p + b"
    using that assms lb by (simp add: nth_memcpy_at) (auto simp: bslice_def)
  then show "memcpy_at c p (memcpy_at (bslice p b c) off d) ! i = memcpy_at c (p + off) d ! i"
    using i assms lm by (auto simp: nth_memcpy_at)
qed

lemma length_bslice [simp]: "length (bslice off n buf) = min n (length buf - off)"
  by (simp add: bslice_def)

lemma nth_bslice: "off + n \<le> length buf \<Longrightarrow> i < n \<Longrightarrow> bslice off n buf ! i = buf ! (off + i)"
  by (simp add: bslice_def)

lemma bslice_append: "bslice off m buf @ bslice (off + m) n buf = bslice off (m + n) buf"
  by (simp add: bslice_def take_add add.commute)

lemma bslice_mid: "length a = p \<Longrightarrow> length x = n \<Longrightarrow> bslice p n (a @ x @ c) = x"
  by (simp add: bslice_def)

lemma bslice_memcpy_at_same:
  "off + length src \<le> length buf \<Longrightarrow> bslice off (length src) (memcpy_at buf off src) = src"
  by (simp add: bslice_def memcpy_at_def)

lemma bslice_bslice: "p + n \<le> m \<Longrightarrow> bslice p n (bslice off m buf) = bslice (off + p) n buf"
  by (simp add: bslice_def drop_take add.commute min_def)

lemma memcpy_at_bslice:
  assumes "off + n \<le> length buf"
  shows "memcpy_at buf off (bslice off n buf) = buf"
  by (rule nth_equalityI) (use assms in \<open>simp_all add: nth_memcpy_at nth_bslice\<close>)

lemma bslice_memcpy_at_inside:
  assumes "off + m \<le> length buf" and "p + length src \<le> m"
  shows "bslice off m (memcpy_at buf (off + p) src) = memcpy_at (bslice off m buf) p src"
  by (rule nth_equalityI) (use assms in \<open>auto simp: nth_bslice nth_memcpy_at\<close>)

text \<open>\<open>isspace\<close> of the C library: space, \<open>\\t\<close>, \<open>\\n\<close>, \<open>\\v\<close>, \<open>\\f\<close> and \<open>\\r\<close>.\<close>

definition is_space :: "u8 \<Rightarrow> bool" where
  "is_space c \<longleftrightarrow> c = 32 \<or> (9 \<le> c \<and> c \<le> 13)"

section \<open>Rounding\<close>

definition align_down :: "nat \<Rightarrow> nat \<Rightarrow> nat" where
  "align_down x a = x - x mod a"

definition align_up :: "nat \<Rightarrow> nat \<Rightarrow> nat" where
  "align_up x a = align_down (x + (a - 1)) a"

definition div_round_up :: "nat \<Rightarrow> nat \<Rightarrow> nat" where
  "div_round_up x a = (x + (a - 1)) div a"

lemma align_down_le: "align_down x a \<le> x"
  by (simp add: align_down_def)

lemma align_up_ge: "0 < a \<Longrightarrow> x \<le> align_up x a"
proof -
  assume a: "0 < a"
  then have "(x + (a - 1)) mod a \<le> a - 1"
    using mod_less_divisor [of a "x + (a - 1)"] by linarith
  then show ?thesis by (simp add: align_up_def align_down_def)
qed

lemma align_up_id: "0 < a \<Longrightarrow> a dvd x \<Longrightarrow> align_up x a = x"
proof (elim dvdE)
  fix k assume a: "0 < a" and x: "x = a * k"
  have "(a - 1 + a * k) mod a = a - 1" unfolding mod_mult_self2 using a by simp
  then have "(a * k + (a - 1)) mod a = a - 1" by (simp only: add.commute)
  then show "align_up x a = x" by (simp add: align_up_def align_down_def x)
qed

lemma align_down_dvd: "a dvd align_down x a"
  by (metis align_down_def dvd_triv_left minus_mod_eq_mult_div)

section \<open>64-bit arithmetic on naturals\<close>

text \<open>The wrap-around of \<open>uint64_t\<close> and \<open>size_t\<close> arithmetic, for values kept as naturals.\<close>

definition add64 :: "nat \<Rightarrow> nat \<Rightarrow> nat" where
  "add64 a b = (a + b) mod 2 ^ 64"

definition sub64 :: "nat \<Rightarrow> nat \<Rightarrow> nat" where
  "sub64 a b = (a + 2 ^ 64 - b) mod 2 ^ 64"

definition mul64 :: "nat \<Rightarrow> nat \<Rightarrow> nat" where
  "mul64 a b = (a * b) mod 2 ^ 64"

lemma add64_id: "a + b < 2 ^ 64 \<Longrightarrow> add64 a b = a + b"
  by (simp add: add64_def)

lemma mul64_id: "a * b < 2 ^ 64 \<Longrightarrow> mul64 a b = a * b"
  by (simp add: mul64_def)

lemma sub64_id: "b \<le> a \<Longrightarrow> a < 2 ^ 64 \<Longrightarrow> sub64 a b = a - b"
proof -
  assume *: "b \<le> a" "a < 2 ^ 64"
  then have "a + 2 ^ 64 - b = (a - b) + 2 ^ 64" by linarith
  then have "sub64 a b = (a - b) mod 2 ^ 64" unfolding sub64_def by (simp only: mod_add_self2)
  with * show ?thesis by simp
qed

lemma add64_less: "add64 a b < 2 ^ 64"
  by (simp add: add64_def)

text \<open>The same for \<open>uint32_t\<close>.\<close>

definition add32 :: "nat \<Rightarrow> nat \<Rightarrow> nat" where
  "add32 a b = (a + b) mod 2 ^ 32"

definition sub32 :: "nat \<Rightarrow> nat \<Rightarrow> nat" where
  "sub32 a b = (a + 2 ^ 32 - b) mod 2 ^ 32"

section \<open>String literals as bytes\<close>

definition c_bytes :: "string \<Rightarrow> u8 list" where
  "c_bytes str = map (\<lambda>c. word_of_nat (of_char c)) str"

text \<open>The bytes of a C string before its terminator, and such bytes as a HOL string.\<close>

definition c_str :: "u8 list \<Rightarrow> u8 list" where
  "c_str b = takeWhile (\<lambda>c. c \<noteq> 0) b"

definition hol_string :: "u8 list \<Rightarrow> string" where
  "hol_string b = map (\<lambda>w. char_of (unat w)) b"

lemma c_str_no_nul [simp]: "0 \<notin> set (c_str b)"
  by (auto simp: c_str_def dest: set_takeWhileD)

lemma c_str_ident [simp]: "0 \<notin> set b \<Longrightarrow> c_str b = b"
  unfolding c_str_def by (rule takeWhile_eq_all_conv [THEN iffD2]) auto

lemma length_c_str: "length (c_str b) \<le> length b"
  by (simp add: c_str_def length_takeWhile_le)

text \<open>Numbers as \<open>printf\<close> writes them: \<open>%d\<close> and \<open>%x\<close>, and \<open>%08x\<close> with its leading zeros.\<close>

fun decimal :: "nat \<Rightarrow> string" where
  "decimal n = (if n < 10 then [char_of (48 + n)] else decimal (n div 10) @ [char_of (48 + n mod 10)])"

definition hex_digit :: "nat \<Rightarrow> char" where
  "hex_digit n = (if n < 10 then char_of (48 + n) else char_of (87 + n))"

fun hexadecimal :: "nat \<Rightarrow> string" where
  "hexadecimal n =
     (if n < 16 then [hex_digit n] else hexadecimal (n div 16) @ [hex_digit (n mod 16)])"

declare decimal.simps [simp del] hexadecimal.simps [simp del]

definition zero_pad :: "nat \<Rightarrow> string \<Rightarrow> string" where
  "zero_pad k str = replicate (k - length str) CHR ''0'' @ str"

section \<open>Little-endian words\<close>

definition le32_bytes :: "u32 \<Rightarrow> u8 list" where
  "le32_bytes w = [ucast w, ucast (drop_bit 8 w), ucast (drop_bit 16 w), ucast (drop_bit 24 w)]"

definition le16_dec :: "u8 list \<Rightarrow> nat \<Rightarrow> nat" where
  "le16_dec bs off = unat (bs ! off) + 256 * unat (bs ! (off + 1))"

definition le32_dec :: "u8 list \<Rightarrow> nat \<Rightarrow> nat" where
  "le32_dec bs off = le16_dec bs off + 65536 * le16_dec bs (off + 2)"

lemma length_le32_bytes [simp]: "length (le32_bytes w) = 4"
  by (simp add: le32_bytes_def)

lemma le16_dec_less: "le16_dec bs off < 65536"
  using unat_less_8 [of "bs ! off"] unat_less_8 [of "bs ! (off + 1)"]
  unfolding le16_dec_def by linarith

lemma le32_dec_less: "le32_dec bs off < 4294967296"
  using le16_dec_less [of bs off] le16_dec_less [of bs "off + 2"]
  unfolding le32_dec_def by linarith

definition le16_bytes :: "nat \<Rightarrow> u8 list" where
  "le16_bytes n = [word_of_nat n, word_of_nat (n div 256)]"

lemma length_le16_bytes [simp]: "length (le16_bytes n) = 2"
  by (simp add: le16_bytes_def)

lemma le16_dec_append:
  assumes "length xs = k" and "n < 65536"
  shows "le16_dec (xs @ le16_bytes n @ ys) k = n"
  using assms by (auto simp: le16_dec_def le16_bytes_def nth_append unat_of_nat)

lemma unat_byte: "unat (ucast (drop_bit k (w :: u32)) :: u8) = unat w div 2 ^ k mod 256"
proof -
  have "unat (drop_bit k w) = unat w div 2 ^ k" unfolding unat_drop_bit_eq by (rule drop_bit_eq_div)
  then show ?thesis by (simp add: unsigned_ucast_eq take_bit_eq_mod)
qed

lemma le32_dec_append:
  assumes "length xs = k"
  shows "le32_dec (xs @ le32_bytes w @ ys) k = unat w"
proof -
  have "(xs @ le32_bytes w @ ys) ! (k + i) = le32_bytes w ! i" if "i < 4" for i
    using assms that by (simp add: nth_append)
  from this [of 0] this [of 1] this [of 2] this [of "Suc (Suc (Suc 0))"]
  have "le32_dec (xs @ le32_bytes w @ ys) k = unat w mod 256 + 256 * (unat w div 256 mod 256) +
      65536 * (unat w div 65536 mod 256 + 256 * (unat w div 16777216 mod 256))"
    using unat_byte [of 0 w]
    by (simp add: le32_dec_def le16_dec_def le32_bytes_def unat_byte add.assoc)
  moreover have "x mod 256 + 256 * (x div 256 mod 256) = x mod 65536" for x :: nat
    using mod_mult2_eq [of x 256 256] by simp
  moreover have "unat w div 65536 mod 256 + 256 * (unat w div 16777216 mod 256) =
      unat w div 65536 mod 65536"
    using mod_mult2_eq [of "unat w div 65536" 256 256] div_mult2_eq [of "unat w" 65536 256] by simp
  moreover have "unat w div 65536 mod 65536 = unat w div 65536"
    using unat_less_32 [of w] by (simp add: less_mult_imp_div_less)
  ultimately show ?thesis by simp
qed

section \<open>Big-endian words\<close>

definition be16_bytes :: "nat \<Rightarrow> u8 list" where
  "be16_bytes n = [word_of_nat (n div 256), word_of_nat n]"

definition be16_dec :: "u8 list \<Rightarrow> nat \<Rightarrow> nat" where
  "be16_dec bs off = 256 * unat (bs ! off) + unat (bs ! (off + 1))"

lemma length_be16_bytes [simp]: "length (be16_bytes n) = 2"
  by (simp add: be16_bytes_def)

lemma be16_dec_append: "length xs = k \<Longrightarrow> be16_dec (xs @ be16_bytes n @ ys) k = n mod 65536"
  using mod_mult2_eq [of n 256 256] by (auto simp: be16_dec_def be16_bytes_def nth_append unat_of_nat)

end
