(* ===== verification/Ranges.thy ===== *)
theory Ranges
  imports Dc_Prelude
begin

text \<open>
  \<open>src/base/ranges.c\<close>: a set of 64-bit addresses kept as a linked list of edges.
  The list after the embedded head node is modelled as the list of the edges' positions.
\<close>

section \<open>Model\<close>

type_synonym ranges = "u64 list"

definition ranges_init :: ranges where
  "ranges_init = []"

definition ranges_teardown :: "ranges \<Rightarrow> ranges" where
  "ranges_teardown r = []"

text \<open>The first loop of \<open>ranges_set_region_to\<close>: everything before \<open>start\<close>, what follows,
  and whether the walk ends inside a range.\<close>

fun ranges_skip :: "u64 \<Rightarrow> u64 list \<Rightarrow> bool \<Rightarrow> u64 list \<times> u64 list \<times> bool" where
  "ranges_skip start [] included = ([], [], included)"
| "ranges_skip start (p # cur) included =
     (if p < start
      then (case ranges_skip start cur (\<not> included) of
              (before, rest, inc) \<Rightarrow> (p # before, rest, inc))
      else ([], p # cur, included))"

text \<open>The second loop: delete the edges that the new region obscures.\<close>

fun ranges_obscure :: "u64 \<Rightarrow> u64 list \<Rightarrow> bool \<Rightarrow> u64 list \<times> bool" where
  "ranges_obscure end_pos [] included = ([], included)"
| "ranges_obscure end_pos (p # cur) included =
     (if p \<le> end_pos then ranges_obscure end_pos cur (\<not> included) else (p # cur, included))"

text \<open>\<open>None\<close> is the failed \<open>assert(start != end)\<close>.\<close>

definition ranges_set_region_to ::
  "ranges \<Rightarrow> u64 \<Rightarrow> u64 \<Rightarrow> bool \<Rightarrow> ranges option" where
  "ranges_set_region_to r start end_pos new_included =
     (if start = end_pos then None
      else case ranges_skip start r False of (before, cur, included) \<Rightarrow>
        let start_edge = (if new_included \<noteq> included then [start] else [])
        in case ranges_obscure end_pos cur included of (rest, included') \<Rightarrow>
          let end_edge = (if included' \<noteq> new_included then [end_pos] else [])
          in Some (before @ start_edge @ end_edge @ rest))"

definition ranges_add :: "ranges \<Rightarrow> u64 \<Rightarrow> u64 \<Rightarrow> ranges option" where
  "ranges_add r start end_pos = ranges_set_region_to r start end_pos True"

definition ranges_sub :: "ranges \<Rightarrow> u64 \<Rightarrow> u64 \<Rightarrow> ranges option" where
  "ranges_sub r start end_pos = ranges_set_region_to r start end_pos False"

text \<open>The iteration stops at an edge without a partner (the "Odd number" message).\<close>

fun ranges_for_each :: "ranges \<Rightarrow> (u64 \<Rightarrow> u64 \<Rightarrow> 'd \<Rightarrow> 'd) \<Rightarrow> 'd \<Rightarrow> 'd" where
  "ranges_for_each [] f data = data"
| "ranges_for_each [p] f data = data"
| "ranges_for_each (p # q # r) f data = ranges_for_each r f (f p q data)"

definition ranges_sub_helper :: "u64 \<Rightarrow> u64 \<Rightarrow> ranges option \<Rightarrow> ranges option" where
  "ranges_sub_helper start end_pos data =
     (case data of None \<Rightarrow> None | Some d \<Rightarrow> ranges_sub d start end_pos)"

definition ranges_sub_from :: "ranges \<Rightarrow> ranges \<Rightarrow> ranges option" where
  "ranges_sub_from dest sub = ranges_for_each sub ranges_sub_helper (Some dest)"

section \<open>Abstraction and invariant\<close>

text \<open>An address is covered when an odd number of edges is at or below it.\<close>

fun in_ranges :: "ranges \<Rightarrow> u64 \<Rightarrow> bool" where
  "in_ranges [] x = False"
| "in_ranges (p # r) x = (if p \<le> x then \<not> in_ranges r x else in_ranges r x)"

definition ranges_inv :: "ranges \<Rightarrow> bool" where
  "ranges_inv r \<longleftrightarrow> sorted_wrt (<) r \<and> even (length r)"

lemma in_ranges_append: "in_ranges (xs @ ys) x = (in_ranges xs x \<noteq> in_ranges ys x)"
  by (induction xs) auto

lemma in_ranges_below: "\<forall>p\<in>set r. x < p \<Longrightarrow> \<not> in_ranges r x"
  by (induction r) auto

lemma in_ranges_above: "\<forall>p\<in>set r. p \<le> x \<Longrightarrow> in_ranges r x = odd (length r)"
  by (induction r) auto

lemma ranges_skip_spec:
  "ranges_skip s r inc = (before, cur, inc') \<Longrightarrow>
     r = before @ cur \<and> (\<forall>p\<in>set before. p < s) \<and> (cur \<noteq> [] \<longrightarrow> s \<le> hd cur) \<and>
     inc' = (inc \<noteq> odd (length before))"
proof (induction r arbitrary: inc before cur inc')
  case Nil
  then show ?case by simp
next
  case (Cons p r)
  show ?case
  proof (cases "p < s")
    case True
    with Cons.prems obtain before' where b: "before = p # before'"
      and "ranges_skip s r (\<not> inc) = (before', cur, inc')"
      by (auto split: prod.splits)
    with Cons.IH [of "\<not> inc" before' cur inc'] True show ?thesis by auto
  next
    case False
    with Cons.prems show ?thesis by auto
  qed
qed

lemma ranges_obscure_spec:
  "ranges_obscure e cur inc = (rest, inc') \<Longrightarrow>
     \<exists>gone. cur = gone @ rest \<and> (\<forall>p\<in>set gone. p \<le> e) \<and> (rest \<noteq> [] \<longrightarrow> e < hd rest) \<and>
       inc' = (inc \<noteq> odd (length gone))"
proof (induction cur arbitrary: inc)
  case Nil
  then show ?case by simp
next
  case (Cons p cur)
  show ?case
  proof (cases "p \<le> e")
    case True
    with Cons obtain gone where "cur = gone @ rest" "\<forall>p\<in>set gone. p \<le> e"
      "rest \<noteq> [] \<longrightarrow> e < hd rest" "inc' = ((\<not> inc) \<noteq> odd (length gone))"
      by fastforce
    with True show ?thesis by (intro exI [of _ "p # gone"]) auto
  next
    case False
    with Cons.prems show ?thesis by (intro exI [of _ "[]"]) auto
  qed
qed

lemma ranges_set_region_to_decompose:
  assumes "ranges_inv r" and "s < e"
  obtains before gone rest where
    "r = before @ gone @ rest"
    "\<forall>p\<in>set before. p < s" "\<forall>p\<in>set gone. s \<le> p \<and> p \<le> e" "\<forall>p\<in>set rest. e < p"
    "ranges_set_region_to r s e v = Some (before @
       (if v \<noteq> odd (length before) then [s] else []) @
       (if v \<noteq> odd (length before + length gone) then [e] else []) @ rest)"
proof -
  obtain before cur inc where skip: "ranges_skip s r False = (before, cur, inc)"
    by (metis prod_cases3)
  obtain rest inc' where obsc: "ranges_obscure e cur inc = (rest, inc')"
    by fastforce
  from ranges_skip_spec [OF skip]
  have r: "r = before @ cur" and lo: "\<forall>p\<in>set before. p < s"
    and hd: "cur \<noteq> [] \<longrightarrow> s \<le> hd cur" and inc: "inc = odd (length before)"
    by auto
  from ranges_obscure_spec [OF obsc] obtain gone where cur: "cur = gone @ rest"
    and gone: "\<forall>p\<in>set gone. p \<le> e" and rest: "rest \<noteq> [] \<longrightarrow> e < hd rest"
    and inc': "inc' = (inc \<noteq> odd (length gone))"
    by blast
  from assms(1) r cur have srt: "sorted_wrt (<) gone" "sorted_wrt (<) rest" "sorted_wrt (<) cur"
    by (auto simp: ranges_inv_def sorted_wrt_append)
  have "\<forall>p\<in>set cur. s \<le> p" using srt(3) hd by (cases cur) auto
  with cur gone have g: "\<forall>p\<in>set gone. s \<le> p \<and> p \<le> e" by auto
  have h: "\<forall>p\<in>set rest. e < p" using srt(2) rest by (cases rest) auto
  have eq: "ranges_set_region_to r s e v = Some (before @
       (if v \<noteq> odd (length before) then [s] else []) @
       (if v \<noteq> odd (length before + length gone) then [e] else []) @ rest)"
    using assms(2) skip obsc [unfolded inc]
    by (simp add: ranges_set_region_to_def inc inc' eq_commute) auto
  from that [OF _ lo g h eq] r cur show thesis by simp
qed

lemma ranges_set_region_to_inv:
  assumes "ranges_inv r" and "s < e" and "ranges_set_region_to r s e v = Some r'"
  shows "ranges_inv r'"
proof -
  from ranges_set_region_to_decompose [OF assms(1,2)] obtain before gone rest where
    d: "r = before @ gone @ rest" "\<forall>p\<in>set before. p < s"
      "\<forall>p\<in>set rest. e < p"
      "ranges_set_region_to r s e v = Some (before @
         (if v \<noteq> odd (length before) then [s] else []) @
         (if v \<noteq> odd (length before + length gone) then [e] else []) @ rest)" .
  from assms(1) d(1) have "sorted_wrt (<) before" "sorted_wrt (<) rest"
    and ev: "even (length before + length gone + length rest)"
    by (auto simp: ranges_inv_def sorted_wrt_append)
  with assms(2,3) d(2-4) show ?thesis
    by (auto simp: ranges_inv_def sorted_wrt_append split: if_splits)
      (meson order.strict_trans order.strict_trans2 dual_order.strict_trans)+
qed

lemma ranges_set_region_to_mem:
  assumes "ranges_inv r" and "s < e" and "ranges_set_region_to r s e v = Some r'"
  shows "in_ranges r' x = (if s \<le> x \<and> x < e then v else in_ranges r x)"
proof -
  from ranges_set_region_to_decompose [OF assms(1,2)] obtain before gone rest where
    d: "r = before @ gone @ rest" "\<forall>p\<in>set before. p < s"
      "\<forall>p\<in>set gone. s \<le> p \<and> p \<le> e" "\<forall>p\<in>set rest. e < p"
      "ranges_set_region_to r s e v = Some (before @
         (if v \<noteq> odd (length before) then [s] else []) @
         (if v \<noteq> odd (length before + length gone) then [e] else []) @ rest)" .
  consider "x < s" | "s \<le> x" "x < e" | "e \<le> x" by fastforce
  then show ?thesis
  proof cases
    case 1
    with assms(2) d(3,4) have "\<not> in_ranges gone x" "\<not> in_ranges rest x"
      by (auto intro!: in_ranges_below dest: order.strict_trans2 order.strict_trans)
    with 1 assms(2,3) d(1,5) show ?thesis by (auto simp: in_ranges_append split: if_splits)
  next
    case 2
    with d(2,4) have "in_ranges before x = odd (length before)" "\<not> in_ranges rest x"
      by (auto intro!: in_ranges_below in_ranges_above)
    with 2 assms(2,3) d(5) show ?thesis by (auto simp: in_ranges_append split: if_splits)
  next
    case 3
    with assms(2) d(2,3) have "in_ranges before x = odd (length before)"
      "in_ranges gone x = odd (length gone)"
      by (auto intro!: in_ranges_above)
    with 3 assms(2,3) d(1,5) show ?thesis by (auto simp: in_ranges_append split: if_splits)
  qed
qed

lemma ranges_set_region_to_some: "s \<noteq> e \<Longrightarrow> \<exists>r'. ranges_set_region_to r s e v = Some r'"
  by (auto simp: ranges_set_region_to_def Let_def split: prod.splits)

section \<open>The address-set interface\<close>

text \<open>
  What clients rely on: a set of addresses with an empty set and region updates that fail only
  on an empty region. \<open>update_all\<close> replays a list of updates; the last one that covers an
  address decides it.
\<close>

locale address_set =
  fixes empty :: "'r"
    and update :: "'r \<Rightarrow> u64 \<Rightarrow> u64 \<Rightarrow> bool \<Rightarrow> 'r option"
    and mem :: "'r \<Rightarrow> u64 \<Rightarrow> bool"
    and invar :: "'r \<Rightarrow> bool"
  assumes invar_empty: "invar empty"
    and mem_empty: "\<not> mem empty x"
    and update_some: "invar r \<Longrightarrow> s < e \<Longrightarrow> \<exists>r'. update r s e v = Some r'"
    and invar_update: "invar r \<Longrightarrow> s < e \<Longrightarrow> update r s e v = Some r' \<Longrightarrow> invar r'"
    and mem_update: "invar r \<Longrightarrow> s < e \<Longrightarrow> update r s e v = Some r' \<Longrightarrow>
      mem r' x = (if s \<le> x \<and> x < e then v else mem r x)"
begin

fun update_all :: "(u64 \<times> u64 \<times> bool) list \<Rightarrow> 'r \<Rightarrow> 'r option" where
  "update_all [] r = Some r"
| "update_all ((s, e, v) # us) r =
     (case update r s e v of None \<Rightarrow> None | Some r' \<Rightarrow> update_all us r')"

fun decide :: "(u64 \<times> u64 \<times> bool) list \<Rightarrow> u64 \<Rightarrow> bool \<Rightarrow> bool" where
  "decide [] x b = b"
| "decide ((s, e, v) # us) x b = decide us x (if s \<le> x \<and> x < e then v else b)"

lemma update_all_correct:
  assumes "invar r" and "\<forall>u\<in>set us. fst u < fst (snd u)"
  shows "\<exists>r'. update_all us r = Some r' \<and> invar r' \<and> (\<forall>x. mem r' x = decide us x (mem r x))"
  using assms
proof (induction us arbitrary: r)
  case Nil
  then show ?case by simp
next
  case (Cons u us)
  obtain s e v where u: "u = (s, e, v)" by (cases u)
  with Cons.prems obtain r' where r': "update r s e v = Some r'"
    using update_some by fastforce
  with Cons.prems u have "invar r'" and m: "\<And>x. mem r' x = (if s \<le> x \<and> x < e then v else mem r x)"
    using invar_update mem_update by fastforce+
  with Cons.IH [of r'] Cons.prems u r' show ?case by simp
qed

lemma decide_const:
  assumes "\<forall>u\<in>set us. snd (snd u) = v"
  shows "decide us x b = (if \<exists>u\<in>set us. fst u \<le> x \<and> x < fst (snd u) then v else b)"
  using assms
proof (induction us arbitrary: b)
  case (Cons u us)
  then show ?case by (cases u) auto
qed simp

end

interpretation rng: address_set ranges_init ranges_set_region_to in_ranges ranges_inv
proof unfold_locales
  show "ranges_inv ranges_init" by (simp add: ranges_inv_def ranges_init_def)
  show "\<not> in_ranges ranges_init x" for x by (simp add: ranges_init_def)
  show "\<exists>r'. ranges_set_region_to r s e v = Some r'" if "s < e" for r s e v
    using that by (intro ranges_set_region_to_some) simp
qed (fact ranges_set_region_to_inv ranges_set_region_to_mem)+

text \<open>The ranges as pairs, and iteration over them as a fold.\<close>

fun ranges_pairs :: "ranges \<Rightarrow> (u64 \<times> u64) list" where
  "ranges_pairs (p # q # r) = (p, q) # ranges_pairs r"
| "ranges_pairs r = []"

lemma ranges_for_each_fold:
  "ranges_for_each r f d = fold (\<lambda>p. f (fst p) (snd p)) (ranges_pairs r) d"
  by (induction r f d rule: ranges_for_each.induct) simp_all

lemma ranges_pairs_less:
  "ranges_inv r \<Longrightarrow> p \<in> set (ranges_pairs r) \<Longrightarrow> fst p < snd p"
  by (induction r rule: ranges_pairs.induct) (auto simp: ranges_inv_def)

lemma in_ranges_pairs:
  "ranges_inv r \<Longrightarrow> in_ranges r x \<longleftrightarrow> (\<exists>p\<in>set (ranges_pairs r). fst p \<le> x \<and> x < snd p)"
proof (induction r rule: ranges_pairs.induct)
  case (1 p q r)
  then have "ranges_inv r" "p < q" "\<forall>z\<in>set r. q < z" by (auto simp: ranges_inv_def)
  have "x < q \<Longrightarrow> \<not> in_ranges r x"
    using \<open>\<forall>z\<in>set r. q < z\<close> by (intro in_ranges_below) force
  with \<open>p < q\<close> have "in_ranges (p # q # r) x \<longleftrightarrow> p \<le> x \<and> x < q \<or> in_ranges r x"
    by auto
  with 1 \<open>ranges_inv r\<close> show ?case by simp
qed (auto simp: ranges_inv_def)

definition sub_updates :: "ranges \<Rightarrow> (u64 \<times> u64 \<times> bool) list" where
  "sub_updates r = map (\<lambda>p. (fst p, snd p, False)) (ranges_pairs r)"

text \<open>Subtracting one range set from another is a list of updates.\<close>

lemma ranges_sub_from_update_all:
  "ranges_sub_from d sub = rng.update_all (sub_updates sub) d"
proof -
  let ?f = "\<lambda>p. ranges_sub_helper (fst p) (snd p)"
  have none: "fold ?f ps None = None" for ps
    by (induction ps) (auto simp: ranges_sub_helper_def)
  have "fold ?f ps (Some d) = rng.update_all (map (\<lambda>p. (fst p, snd p, False)) ps) d" for ps
    by (induction ps arbitrary: d)
      (auto simp: ranges_sub_helper_def ranges_sub_def none split: option.splits)
  then show ?thesis
    by (simp add: ranges_sub_from_def ranges_for_each_fold sub_updates_def)
qed

lemma ranges_sub_from_correct:
  assumes "ranges_inv dest" and "ranges_inv sub"
  obtains r' where "ranges_sub_from dest sub = Some r'" and "ranges_inv r'"
    and "\<And>x. in_ranges r' x \<longleftrightarrow> in_ranges dest x \<and> \<not> in_ranges sub x"
proof -
  have "\<forall>u\<in>set (sub_updates sub). fst u < fst (snd u)"
    using assms(2) by (auto simp: sub_updates_def dest: ranges_pairs_less)
  from rng.update_all_correct [OF assms(1) this] obtain r' where
    r': "ranges_sub_from dest sub = Some r'" "ranges_inv r'"
    "\<forall>x. in_ranges r' x = rng.decide (sub_updates sub) x (in_ranges dest x)"
    by (auto simp: ranges_sub_from_update_all)
  have "rng.decide (sub_updates sub) x b = (b \<and> \<not> in_ranges sub x)" for x b
    by (subst rng.decide_const [where v = False])
      (auto simp: sub_updates_def in_ranges_pairs [OF assms(2)])
  with r' that show thesis by simp
qed

section \<open>Properties\<close>

text \<open>
  C1. \<open>ranges_add\<close> and \<open>ranges_sub\<close> on a well-formed edge list and a non-empty region never
  fail, keep the list well-formed (strictly increasing edges, an even number of them), and
  change the covered set exactly on the region: \<open>ranges_add\<close> makes it the union with
  \<open>[start, end)\<close> and \<open>ranges_sub\<close> the difference.
\<close>

theorem ranges_set_region_refines_set:
  assumes "ranges_inv r" and "s < e"
  shows "\<exists>a d. ranges_add r s e = Some a \<and> ranges_sub r s e = Some d \<and>
    ranges_inv a \<and> ranges_inv d \<and>
    {x. in_ranges a x} = {x. in_ranges r x} \<union> {s..<e} \<and>
    {x. in_ranges d x} = {x. in_ranges r x} - {s..<e}"
proof -
  from rng.update_some [OF assms] obtain a d where
    a: "ranges_set_region_to r s e True = Some a" and d: "ranges_set_region_to r s e False = Some d"
    by meson
  have "{x. in_ranges a x} = {x. in_ranges r x} \<union> {s..<e}"
    by (auto simp: rng.mem_update [OF assms a])
  moreover have "{x. in_ranges d x} = {x. in_ranges r x} - {s..<e}"
    by (auto simp: rng.mem_update [OF assms d])
  ultimately show ?thesis
    using a d rng.invar_update [OF assms a] rng.invar_update [OF assms d]
    by (simp add: ranges_add_def ranges_sub_def)
qed

theorem ranges_set_region_refines_set_witness:
  "\<exists>a d. ranges_add [10, 20] 15 30 = Some a \<and> ranges_sub [10, 20] 15 30 = Some d \<and>
    ranges_inv a \<and> ranges_inv d \<and>
    {x. in_ranges a x} = {x. in_ranges [10, 20] x} \<union> {15..<30} \<and>
    {x. in_ranges d x} = {x. in_ranges [10, 20] x} - {15..<30}"
  by (rule ranges_set_region_refines_set) (simp_all add: ranges_inv_def)

text \<open>
  \<open>ranges_sub_from\<close> subtracts every range of one well-formed set from another: it never hits
  the assertion, the result is well-formed, and it covers exactly the set difference.
\<close>

theorem ranges_sub_from_is_difference:
  assumes "ranges_inv dest" and "ranges_inv sub"
  shows "\<exists>r'. ranges_sub_from dest sub = Some r' \<and> ranges_inv r' \<and>
    {x. in_ranges r' x} = {x. in_ranges dest x} - {x. in_ranges sub x}"
  by (rule ranges_sub_from_correct [OF assms]) auto

theorem ranges_sub_from_is_difference_witness:
  "\<exists>r'. ranges_sub_from [10, 40] [5, 12, 20, 30] = Some r' \<and> ranges_inv r' \<and>
    {x. in_ranges r' x} = {x. in_ranges [10, 40] x} - {x. in_ranges [5, 12, 20, 30] x}"
  by (rule ranges_sub_from_is_difference) (simp_all add: ranges_inv_def)

end
