(* ===== verification/Memory_Map.thy ===== *)
theory Memory_Map
  imports Ranges
begin

text \<open>
  \<open>src/vboot/util/memory.c\<close> and \<open>src/vboot/util/physmem_64.c\<close>: which physical memory is
  unused, and wiping it before the kernel runs. The coreboot memory map and the MMU's list of
  used ranges come from libpayload and are arguments; the bounds of the payload image are the
  linker symbols \<open>_start\<close> and \<open>_end\<close>. Physical memory is a function from addresses to bytes,
  and \<open>None\<close> is a failed assertion.
\<close>

section \<open>Model\<close>

datatype cb_mem_type =
    CB_MEM_RAM | CB_MEM_RESERVED | CB_MEM_ACPI | CB_MEM_NVS | CB_MEM_UNUSABLE
  | CB_MEM_VENDOR_RSVD | CB_MEM_TABLE | CB_MEM_TAG | CB_MEM_OTHER u32

record memrange =
  mr_base :: u64
  mr_size :: u64
  mr_type :: cb_mem_type

datatype mmu_mem_type = TYPE_NORMAL_MEM | TYPE_DEV_MEM | TYPE_DMA_MEM | TYPE_OTHER u64

record mmu_memrange =
  mmu_base :: u64
  mmu_size :: u64
  mmu_type :: mmu_mem_type

record image_bounds =
  img_start :: u64
  img_end :: u64

record memory_state =
  used :: ranges
  initialized :: bool

definition used_list_initialize :: "image_bounds \<Rightarrow> memory_state \<Rightarrow> memory_state option" where
  "used_list_initialize img st =
     (if initialized st then Some st
      else case ranges_add ranges_init (img_start img) (img_end img) of
             None \<Rightarrow> None
           | Some r \<Rightarrow> Some (st\<lparr>used := r, initialized := True\<rparr>))"

definition memory_mark_used ::
  "image_bounds \<Rightarrow> memory_state \<Rightarrow> u64 \<Rightarrow> u64 \<Rightarrow> memory_state option" where
  "memory_mark_used img st start end_pos =
     (case used_list_initialize img st of
        None \<Rightarrow> None
      | Some st' \<Rightarrow> (case ranges_add (used st') start end_pos of
                       None \<Rightarrow> None
                     | Some r \<Rightarrow> Some (st'\<lparr>used := r\<rparr>)))"

definition phys_max_addr :: u64 where
  "phys_max_addr = push_bit 48 1 - 1"

definition arch_phys_map ::
  "u64 \<Rightarrow> u64 \<Rightarrow> (u64 \<Rightarrow> u64 \<Rightarrow> 'm \<Rightarrow> 'm) \<Rightarrow> 'm \<Rightarrow> 'm option" where
  "arch_phys_map start sz func m =
     (let end_pos = start + sz
      in if \<not> end_pos \<le> phys_max_addr then None
         else let sz' = (if end_pos < start \<or> end_pos > phys_max_addr
                           then phys_max_addr - start else sz)
              in Some (func start sz' m))"

definition arch_phys_memset_map_func ::
  "u8 \<Rightarrow> u64 \<Rightarrow> u64 \<Rightarrow> (u64 \<Rightarrow> u8) \<Rightarrow> (u64 \<Rightarrow> u8)" where
  "arch_phys_memset_map_func c s n m = (\<lambda>x. if x - s < n then c else m x)"

definition arch_phys_memset :: "(u64 \<Rightarrow> u8) \<Rightarrow> u64 \<Rightarrow> u8 \<Rightarrow> u64 \<Rightarrow> (u64 \<Rightarrow> u8) option" where
  "arch_phys_memset m s c n = arch_phys_map s n (arch_phys_memset_map_func c) m"

definition unused_memset :: "u64 \<Rightarrow> u64 \<Rightarrow> (u64 \<Rightarrow> u8) option \<Rightarrow> (u64 \<Rightarrow> u8) option" where
  "unused_memset start end_pos om =
     (case om of None \<Rightarrow> None | Some m \<Rightarrow> arch_phys_memset m start 0 (end_pos - start))"

text \<open>The loop of \<open>get_unused_memory\<close>: the return code and the ranges, \<open>None\<close> when a region
  update asserts.\<close>

fun process_memranges :: "memrange list \<Rightarrow> ranges \<Rightarrow> (int \<times> ranges) option" where
  "process_memranges [] r = Some (0, r)"
| "process_memranges (mrange # ms) r =
     (let start = mr_base mrange; end_pos = mr_base mrange + mr_size mrange
      in case mr_type mrange of
           CB_MEM_OTHER t \<Rightarrow> Some (1, r)
         | t \<Rightarrow> (case (if t = CB_MEM_RAM \<or> t = CB_MEM_TAG then ranges_add r start end_pos
                       else ranges_sub r start end_pos) of
                   None \<Rightarrow> None
                 | Some r' \<Rightarrow> process_memranges ms r'))"

definition get_unused_memory ::
  "image_bounds \<Rightarrow> memrange list \<Rightarrow> memory_state \<Rightarrow> ranges \<Rightarrow> (int \<times> ranges \<times> memory_state) option"
where
  "get_unused_memory img ms st r =
     (case process_memranges ms r of
        None \<Rightarrow> None
      | Some (rc, r') \<Rightarrow>
          if rc \<noteq> 0 then Some (rc, r', st)
          else case used_list_initialize img st of
                 None \<Rightarrow> None
               | Some st' \<Rightarrow> (case ranges_sub_from r' (used st') of
                                None \<Rightarrow> None
                              | Some r'' \<Rightarrow> Some (0, r'', st')))"

fun process_mmu_ranges :: "mmu_memrange list \<Rightarrow> ranges \<Rightarrow> (int \<times> ranges) option" where
  "process_mmu_ranges [] r = Some (0, r)"
| "process_mmu_ranges (entry # es) r =
     (let start = mmu_base entry; end_pos = mmu_base entry + mmu_size entry
      in case mmu_type entry of
           TYPE_OTHER t \<Rightarrow> Some (1, r)
         | t \<Rightarrow> (case ranges_add r start end_pos of
                   None \<Rightarrow> None
                 | Some r' \<Rightarrow> process_mmu_ranges es r'))"

definition get_mmu_used_memory ::
  "bool \<Rightarrow> mmu_memrange list \<Rightarrow> ranges \<Rightarrow> (int \<times> ranges) option" where
  "get_mmu_used_memory config_arm64 es r =
     (if config_arm64 then process_mmu_ranges es r else Some (0, r))"

definition memory_range_init_and_get_unused ::
  "bool \<Rightarrow> image_bounds \<Rightarrow> memrange list \<Rightarrow> mmu_memrange list \<Rightarrow> memory_state \<Rightarrow>
   (int \<times> ranges \<times> memory_state) option" where
  "memory_range_init_and_get_unused config_arm64 img ms es st =
     (case get_unused_memory img ms st ranges_init of
        None \<Rightarrow> None
      | Some (rc, r, st') \<Rightarrow>
          if rc \<noteq> 0 then Some (rc, r, st')
          else case get_mmu_used_memory config_arm64 es ranges_init of
                 None \<Rightarrow> None
               | Some (rc', payload_used) \<Rightarrow>
                   if rc' \<noteq> 0 then Some (rc', r, st')
                   else (case ranges_sub_from r payload_used of
                           None \<Rightarrow> None
                         | Some r' \<Rightarrow> Some (0, r', st')))"

definition memory_wipe_unused ::
  "image_bounds \<Rightarrow> memrange list \<Rightarrow> memory_state \<Rightarrow> (u64 \<Rightarrow> u8) \<Rightarrow>
   (int \<times> memory_state \<times> (u64 \<Rightarrow> u8)) option" where
  "memory_wipe_unused img ms st m =
     (case get_unused_memory img ms st ranges_init of
        None \<Rightarrow> None
      | Some (rc, r, st') \<Rightarrow>
          if rc \<noteq> 0 then Some (rc, st', m)
          else (case ranges_for_each r unused_memset (Some m) of
                  None \<Rightarrow> None
                | Some m' \<Rightarrow> Some (rc, st', m')))"

definition memory_has_tag_storage :: "memrange list \<Rightarrow> bool" where
  "memory_has_tag_storage ms = list_ex (\<lambda>mrange. mr_type mrange = CB_MEM_TAG) ms"

definition memory_free_tag_storage :: "memrange list \<Rightarrow> memrange list" where
  "memory_free_tag_storage ms =
     map (\<lambda>mrange. if mr_type mrange = CB_MEM_TAG then mrange\<lparr>mr_type := CB_MEM_RAM\<rparr> else mrange) ms"

section \<open>What the map means\<close>

text \<open>An address is RAM when the last entry of the memory map that covers it says so.\<close>

definition is_ram_type :: "cb_mem_type \<Rightarrow> bool" where
  "is_ram_type t \<longleftrightarrow> t = CB_MEM_RAM \<or> t = CB_MEM_TAG"

definition known_type :: "cb_mem_type \<Rightarrow> bool" where
  "known_type t \<longleftrightarrow> (case t of CB_MEM_OTHER _ \<Rightarrow> False | _ \<Rightarrow> True)"

definition mr_end :: "memrange \<Rightarrow> u64" where
  "mr_end mrange = mr_base mrange + mr_size mrange"

fun ram_at :: "memrange list \<Rightarrow> u64 \<Rightarrow> bool \<Rightarrow> bool" where
  "ram_at [] x b = b"
| "ram_at (mrange # ms) x b =
     ram_at ms x (if mr_base mrange \<le> x \<and> x < mr_end mrange then is_ram_type (mr_type mrange) else b)"

text \<open>A map the firmware can walk: known types, and no empty or wrapping entry.\<close>

definition memmap_ok :: "memrange list \<Rightarrow> bool" where
  "memmap_ok ms \<longleftrightarrow> (\<forall>mrange\<in>set ms. known_type (mr_type mrange) \<and> mr_base mrange < mr_end mrange)"

definition memory_state_inv :: "image_bounds \<Rightarrow> memory_state \<Rightarrow> bool" where
  "memory_state_inv img st \<longleftrightarrow> img_start img < img_end img \<and>
     (initialized st \<longrightarrow> ranges_inv (used st) \<and>
        (\<forall>x. img_start img \<le> x \<and> x < img_end img \<longrightarrow> in_ranges (used st) x))"

definition used_addr :: "image_bounds \<Rightarrow> memory_state \<Rightarrow> u64 \<Rightarrow> bool" where
  "used_addr img st x \<longleftrightarrow>
     (if initialized st then in_ranges (used st) x else img_start img \<le> x \<and> x < img_end img)"

definition map_updates :: "memrange list \<Rightarrow> (u64 \<times> u64 \<times> bool) list" where
  "map_updates ms = map (\<lambda>m. (mr_base m, mr_end m, is_ram_type (mr_type m))) ms"

lemma process_memranges_update_all:
  "\<forall>mrange\<in>set ms. known_type (mr_type mrange) \<Longrightarrow>
   process_memranges ms r = map_option (Pair 0) (rng.update_all (map_updates ms) r)"
proof (induction ms arbitrary: r)
  case (Cons m ms)
  then show ?case
    by (cases "mr_type m")
      (auto simp: Let_def known_type_def map_updates_def is_ram_type_def mr_end_def
        ranges_add_def ranges_sub_def split: option.splits)
qed (simp add: map_updates_def)

lemma decide_map_updates: "rng.decide (map_updates ms) x b = ram_at ms x b"
  by (induction ms arbitrary: b) (simp_all add: map_updates_def)

lemma process_memranges_correct:
  assumes "memmap_ok ms"
  obtains r where "process_memranges ms ranges_init = Some (0, r)" and "ranges_inv r"
    and "\<And>x. in_ranges r x = ram_at ms x False"
proof -
  from assms have k: "\<forall>mrange\<in>set ms. known_type (mr_type mrange)"
    and lt: "\<forall>u\<in>set (map_updates ms). fst u < fst (snd u)"
    by (auto simp: memmap_ok_def map_updates_def)
  from rng.update_all_correct [OF rng.invar_empty lt] obtain r where
    "rng.update_all (map_updates ms) ranges_init = Some r" "ranges_inv r"
    "\<forall>x. in_ranges r x = rng.decide (map_updates ms) x (in_ranges ranges_init x)" by blast
  then have "process_memranges ms ranges_init = Some (0, r)" "ranges_inv r"
    "\<And>x. in_ranges r x = ram_at ms x False"
    by (simp_all only: process_memranges_update_all [OF k] decide_map_updates rng.mem_empty
        option.map)
  then show thesis by (rule that)
qed

lemma used_list_initialize_correct:
  assumes "memory_state_inv img st"
  obtains st' where "used_list_initialize img st = Some st'" and "initialized st'"
    and "memory_state_inv img st'" and "ranges_inv (used st')"
    and "\<And>x. in_ranges (used st') x = used_addr img st x"
proof (cases "initialized st")
  case True
  with assms show thesis
    by (intro that [of st]) (simp_all add: used_list_initialize_def memory_state_inv_def used_addr_def)
next
  case False
  from assms have lt: "img_start img < img_end img" by (simp add: memory_state_inv_def)
  from rng.update_some [OF rng.invar_empty this] obtain r where
    r: "ranges_set_region_to ranges_init (img_start img) (img_end img) True = Some r" by blast
  with rng.invar_update [OF rng.invar_empty lt r] lt False show thesis
    by (intro that [of "st\<lparr>used := r, initialized := True\<rparr>"])
      (simp_all add: used_list_initialize_def ranges_add_def memory_state_inv_def used_addr_def
        rng.mem_empty rng.mem_update [OF rng.invar_empty lt r])
qed

lemma get_unused_memory_correct:
  assumes "memmap_ok ms" and "memory_state_inv img st"
  obtains r st' where "get_unused_memory img ms st ranges_init = Some (0, r, st')"
    and "ranges_inv r" and "memory_state_inv img st'"
    and "\<And>x. in_ranges r x \<longleftrightarrow> ram_at ms x False \<and> \<not> used_addr img st x"
proof -
  from process_memranges_correct [OF assms(1)] obtain r where
    r: "process_memranges ms ranges_init = Some (0, r)" "ranges_inv r"
      "\<And>x. in_ranges r x = ram_at ms x False" by blast
  from used_list_initialize_correct [OF assms(2)] obtain st' where
    st': "used_list_initialize img st = Some st'" "memory_state_inv img st'" "ranges_inv (used st')"
      "\<And>x. in_ranges (used st') x = used_addr img st x" by blast
  from ranges_sub_from_correct [OF r(2) st'(3)] obtain r' where
    r': "ranges_sub_from r (used st') = Some r'" "ranges_inv r'"
      "\<And>x. in_ranges r' x \<longleftrightarrow> in_ranges r x \<and> \<not> in_ranges (used st') x" by blast
  from that [of r' st'] r st' r' show thesis by (simp add: get_unused_memory_def)
qed

section \<open>Wiping\<close>

lemma sub_less_iff:
  fixes s e x :: u64
  assumes "s < e"
  shows "x - s < e - s \<longleftrightarrow> s \<le> x \<and> x < e"
  using assms by unat_arith

lemma unused_memset_fold:
  assumes "\<forall>p\<in>set ps. fst p < snd p \<and> snd p \<le> phys_max_addr"
  shows "fold (\<lambda>p. unused_memset (fst p) (snd p)) ps (Some m) =
    Some (\<lambda>x. if \<exists>p\<in>set ps. fst p \<le> x \<and> x < snd p then 0 else m x)"
  using assms
proof (induction ps arbitrary: m)
  case (Cons p ps)
  then have lt: "fst p < snd p" and le: "snd p \<le> phys_max_addr" by auto
  have "unused_memset (fst p) (snd p) (Some m) =
      Some (\<lambda>x. if fst p \<le> x \<and> x < snd p then 0 else m x)"
    using lt le by (auto simp: unused_memset_def arch_phys_memset_def arch_phys_map_def Let_def
        arch_phys_memset_map_func_def sub_less_iff)
  with Cons show ?case by (auto simp: fun_eq_iff)
qed simp

lemma ranges_for_each_unused_memset:
  assumes "ranges_inv r" and "\<And>x. in_ranges r x \<Longrightarrow> x < phys_max_addr"
  shows "ranges_for_each r unused_memset (Some m) = Some (\<lambda>x. if in_ranges r x then 0 else m x)"
proof -
  have "snd p \<le> phys_max_addr" if p: "p \<in> set (ranges_pairs r)" for p
  proof -
    have lt: "fst p < snd p" using ranges_pairs_less [OF assms(1) p] .
    then have "fst p \<le> snd p - 1" "snd p - 1 < snd p" by unat_arith+
    with p in_ranges_pairs [OF assms(1)] have "in_ranges r (snd p - 1)" by blast
    from assms(2) [OF this] lt show ?thesis by unat_arith
  qed
  with ranges_pairs_less [OF assms(1)] show ?thesis
    by (simp add: ranges_for_each_fold unused_memset_fold in_ranges_pairs [OF assms(1)])
qed

lemma process_mmu_ranges_correct:
  assumes "\<forall>e\<in>set es. (case mmu_type e of TYPE_OTHER _ \<Rightarrow> False | _ \<Rightarrow> True) \<and>
      mmu_base e < mmu_base e + mmu_size e"
    and "ranges_inv r"
  shows "\<exists>r'. process_mmu_ranges es r = Some (0, r') \<and> ranges_inv r' \<and>
    (\<forall>x. in_ranges r' x \<longleftrightarrow> in_ranges r x \<or>
       (\<exists>e\<in>set es. mmu_base e \<le> x \<and> x < mmu_base e + mmu_size e))"
  using assms
proof (induction es arbitrary: r)
  case (Cons e es)
  let ?s = "mmu_base e" and ?e = "mmu_base e + mmu_size e"
  from Cons.prems have lt: "?s < ?e" by simp
  from rng.update_some [OF Cons.prems(2) lt] obtain r1 where
    r1: "ranges_set_region_to r ?s ?e True = Some r1" by blast
  have inv: "ranges_inv r1" using rng.invar_update [OF Cons.prems(2) lt r1] .
  have eq: "process_mmu_ranges (e # es) r = process_mmu_ranges es r1"
    using Cons.prems(1) r1 by (cases "mmu_type e") (simp_all add: ranges_add_def)
  from Cons.IH [OF _ inv] Cons.prems(1) obtain r' where
    "process_mmu_ranges es r1 = Some (0, r')" "ranges_inv r'"
    "\<forall>x. in_ranges r' x \<longleftrightarrow> in_ranges r1 x \<or>
       (\<exists>e\<in>set es. mmu_base e \<le> x \<and> x < mmu_base e + mmu_size e)" by auto
  with eq rng.mem_update [OF Cons.prems(2) lt r1] show ?case by auto
qed simp

section \<open>Properties\<close>

text \<open>
  C3. \<open>memory_wipe_unused\<close> on a well-formed memory map whose RAM lies below the 48-bit limit
  succeeds, zeroes exactly the bytes that the last covering map entry declares RAM (or tag
  storage) and that are neither part of the payload image nor marked used, and leaves every
  other byte of physical memory as it was.
\<close>

theorem memory_wipe_unused_exact:
  assumes "memmap_ok ms" and "memory_state_inv img st"
    and "\<forall>x. ram_at ms x False \<longrightarrow> x < phys_max_addr"
  shows "\<exists>st'. memory_wipe_unused img ms st m =
    Some (0, st', \<lambda>x. if ram_at ms x False \<and> \<not> used_addr img st x then 0 else m x)"
proof -
  from get_unused_memory_correct [OF assms(1,2)] obtain r st' where
    r: "get_unused_memory img ms st ranges_init = Some (0, r, st')" "ranges_inv r"
      "\<And>x. in_ranges r x \<longleftrightarrow> ram_at ms x False \<and> \<not> used_addr img st x" by blast
  with assms(3) have "\<And>x. in_ranges r x \<Longrightarrow> x < phys_max_addr" by blast
  from ranges_for_each_unused_memset [OF r(2) this] r show ?thesis
    by (simp add: memory_wipe_unused_def)
qed

definition example_map :: "memrange list" where
  "example_map = [\<lparr>mr_base = 0, mr_size = 4096, mr_type = CB_MEM_RAM\<rparr>,
                  \<lparr>mr_base = 1024, mr_size = 1024, mr_type = CB_MEM_RESERVED\<rparr>]"

theorem memory_wipe_unused_exact_witness:
  "\<exists>st'. memory_wipe_unused \<lparr>img_start = 256, img_end = 512\<rparr> example_map
      \<lparr>used = [], initialized = False\<rparr> (\<lambda>x. 7) =
    Some (0, st', \<lambda>x. if ram_at example_map x False \<and>
      \<not> used_addr \<lparr>img_start = 256, img_end = 512\<rparr> \<lparr>used = [], initialized = False\<rparr> x
      then 0 else 7)"
proof (rule memory_wipe_unused_exact)
  show "memmap_ok example_map" by (simp add: memmap_ok_def example_map_def known_type_def mr_end_def)
  show "memory_state_inv \<lparr>img_start = 256, img_end = 512\<rparr> \<lparr>used = [], initialized = False\<rparr>"
    by (simp add: memory_state_inv_def)
  have "(x :: u64) < 4096 \<Longrightarrow> x < 281474976710655" for x
    by (simp add: word_less_nat_alt)
  then show "\<forall>x. ram_at example_map x False \<longrightarrow> x < phys_max_addr"
    by (auto simp: example_map_def mr_end_def is_ram_type_def phys_max_addr_def)
qed

text \<open>
  C4. \<open>memory_range_init_and_get_unused\<close> never hands out memory in use: with well-formed inputs it
  succeeds with a well-formed range set that covers exactly the RAM outside the payload image,
  the marked ranges and, on ARM64, the ranges the MMU setup uses.
\<close>

theorem memory_range_get_unused_exact:
  assumes "memmap_ok ms" and "memory_state_inv img st"
    and "\<forall>e\<in>set es. (case mmu_type e of TYPE_OTHER _ \<Rightarrow> False | _ \<Rightarrow> True) \<and>
      mmu_base e < mmu_base e + mmu_size e"
  shows "\<exists>r st'. memory_range_init_and_get_unused arm64 img ms es st = Some (0, r, st') \<and>
    ranges_inv r \<and> memory_state_inv img st' \<and>
    (\<forall>x. in_ranges r x \<longleftrightarrow> ram_at ms x False \<and> \<not> used_addr img st x \<and>
       \<not> (arm64 \<and> (\<exists>e\<in>set es. mmu_base e \<le> x \<and> x < mmu_base e + mmu_size e)))"
proof -
  from get_unused_memory_correct [OF assms(1,2)] obtain r st' where
    r: "get_unused_memory img ms st ranges_init = Some (0, r, st')" "ranges_inv r"
      "memory_state_inv img st'"
      "\<And>x. in_ranges r x \<longleftrightarrow> ram_at ms x False \<and> \<not> used_addr img st x" by blast
  obtain q where q: "get_mmu_used_memory arm64 es ranges_init = Some (0, q)" "ranges_inv q"
    "\<forall>x. in_ranges q x \<longleftrightarrow> arm64 \<and>
       (\<exists>e\<in>set es. mmu_base e \<le> x \<and> x < mmu_base e + mmu_size e)"
    using process_mmu_ranges_correct [OF assms(3) rng.invar_empty] rng.invar_empty
    by (cases arm64) (auto simp: get_mmu_used_memory_def rng.mem_empty)
  from ranges_sub_from_correct [OF r(2) q(2)] obtain r' where
    "ranges_sub_from r q = Some r'" "ranges_inv r'"
    "\<And>x. in_ranges r' x \<longleftrightarrow> in_ranges r x \<and> \<not> in_ranges q x" by blast
  with r q show ?thesis by (auto simp: memory_range_init_and_get_unused_def)
qed

theorem memory_range_get_unused_exact_witness:
  "\<exists>r st'. memory_range_init_and_get_unused True \<lparr>img_start = 256, img_end = 512\<rparr> example_map
      [\<lparr>mmu_base = 3000, mmu_size = 96, mmu_type = TYPE_DMA_MEM\<rparr>]
      \<lparr>used = [], initialized = False\<rparr> = Some (0, r, st') \<and>
    ranges_inv r \<and> memory_state_inv \<lparr>img_start = 256, img_end = 512\<rparr> st' \<and>
    (\<forall>x. in_ranges r x \<longleftrightarrow> ram_at example_map x False \<and>
       \<not> used_addr \<lparr>img_start = 256, img_end = 512\<rparr> \<lparr>used = [], initialized = False\<rparr> x \<and>
       \<not> (True \<and> (\<exists>e\<in>set [\<lparr>mmu_base = 3000, mmu_size = 96, mmu_type = TYPE_DMA_MEM\<rparr>].
            mmu_base e \<le> x \<and> x < mmu_base e + mmu_size e)))"
  by (rule memory_range_get_unused_exact)
    (simp_all add: memmap_ok_def example_map_def known_type_def mr_end_def memory_state_inv_def)

end
