(* ===== verification/State_Machine.thy ===== *)
theory State_Machine
  imports Dc_Prelude
begin

text \<open>
  \<open>src/base/state_machine.c\<close>: the table-driven state machine used by the input drivers. States
  live in the array \<open>arr\<close> and are never removed, so a \<open>struct sm_state *\<close> is modelled as an
  index into it and the \<open>used\<close> counter is the array's length. \<open>None\<close> is a failed assertion.
\<close>

section \<open>Model\<close>

record sm_transition =
  tr_input :: int
  tr_next :: nat

record sm_state =
  st_id :: int
  st_is_final :: bool
  st_transitions :: "sm_transition list"

record sm_data =
  start_state :: "nat option"
  curr_state :: "nat option"
  sm_max :: nat
  sm_arr :: "sm_state list"

datatype sm_result = STATE_FINAL | STATE_NOT_FINAL | STATE_NO_TRANSITION

definition sm_init :: "nat \<Rightarrow> sm_data" where
  "sm_init n = \<lparr>start_state = None, curr_state = None, sm_max = n, sm_arr = []\<rparr>"

fun find_id :: "sm_state list \<Rightarrow> int \<Rightarrow> nat option" where
  "find_id [] i = None"
| "find_id (s # ss) i = (if st_id s = i then Some 0 else map_option Suc (find_id ss i))"

definition sm_find_state :: "sm_data \<Rightarrow> int \<Rightarrow> nat option" where
  "sm_find_state sm i = find_id (sm_arr sm) i"

definition sm_reset_state :: "sm_data \<Rightarrow> sm_data" where
  "sm_reset_state sm = sm\<lparr>curr_state := start_state sm\<rparr>"

definition sm_set_start_state :: "sm_data \<Rightarrow> int \<Rightarrow> sm_data" where
  "sm_set_start_state sm i = sm_reset_state (sm\<lparr>start_state := sm_find_state sm i\<rparr>)"

definition sm_add_state :: "sm_data \<Rightarrow> int \<Rightarrow> bool \<Rightarrow> sm_data option" where
  "sm_add_state sm i is_final =
     (if \<not> length (sm_arr sm) < sm_max sm then None
      else if sm_find_state sm i \<noteq> None then Some sm
      else Some (sm\<lparr>sm_arr := sm_arr sm @
             [\<lparr>st_id = i, st_is_final = is_final, st_transitions = []\<rparr>]\<rparr>))"

definition sm_add_nonfinal_state :: "sm_data \<Rightarrow> int \<Rightarrow> sm_data option" where
  "sm_add_nonfinal_state sm i = sm_add_state sm i False"

definition sm_add_final_state :: "sm_data \<Rightarrow> int \<Rightarrow> sm_data option" where
  "sm_add_final_state sm i = sm_add_state sm i True"

definition sm_add_start_state :: "sm_data \<Rightarrow> int \<Rightarrow> sm_data option" where
  "sm_add_start_state sm i =
     map_option (\<lambda>sm'. sm_set_start_state sm' i) (sm_add_state sm i False)"

definition sm_add_transition :: "sm_data \<Rightarrow> int \<Rightarrow> int \<Rightarrow> int \<Rightarrow> sm_data option" where
  "sm_add_transition sm src_id input dst_id =
     (case (sm_find_state sm src_id, sm_find_state sm dst_id) of
        (Some src, Some dst) \<Rightarrow>
          Some (sm\<lparr>sm_arr := (sm_arr sm)[src := (sm_arr sm ! src)\<lparr>st_transitions :=
             \<lparr>tr_input = input, tr_next = dst\<rparr> # st_transitions (sm_arr sm ! src)\<rparr>]\<rparr>)
      | _ \<Rightarrow> None)"

fun find_transition :: "sm_transition list \<Rightarrow> int \<Rightarrow> nat option" where
  "find_transition [] input = None"
| "find_transition (t # ts) input =
     (if tr_input t \<noteq> input then find_transition ts input else Some (tr_next t))"

text \<open>The result code, the value stored through \<open>output\<close> (if any) and the machine.\<close>

definition sm_run :: "sm_data \<Rightarrow> int \<Rightarrow> (sm_result \<times> int option \<times> sm_data) option" where
  "sm_run sm input =
     (case (curr_state sm, start_state sm) of
        (Some cur, Some start) \<Rightarrow>
          (case find_transition (st_transitions (sm_arr sm ! cur)) input of
             None \<Rightarrow> Some (STATE_NO_TRANSITION, None, sm)
           | Some next \<Rightarrow>
               let sm' = sm\<lparr>curr_state := Some next\<rparr>;
                   output = st_id (sm_arr sm ! next)
               in if st_is_final (sm_arr sm ! next)
                  then Some (STATE_FINAL, Some output, sm_reset_state sm')
                  else Some (STATE_NOT_FINAL, Some output, sm'))
      | _ \<Rightarrow> None)"

section \<open>Invariant\<close>

definition sm_inv :: "sm_data \<Rightarrow> bool" where
  "sm_inv sm \<longleftrightarrow>
     length (sm_arr sm) \<le> sm_max sm \<and> distinct (map st_id (sm_arr sm)) \<and>
     (\<forall>s\<in>set (sm_arr sm). \<forall>t\<in>set (st_transitions s). tr_next t < length (sm_arr sm)) \<and>
     (\<forall>q. start_state sm = Some q \<longrightarrow> q < length (sm_arr sm)) \<and>
     (\<forall>q. curr_state sm = Some q \<longrightarrow> q < length (sm_arr sm)) \<and>
     (start_state sm = None \<longleftrightarrow> curr_state sm = None)"

lemma find_id_Some: "find_id ss i = Some k \<Longrightarrow> k < length ss \<and> st_id (ss ! k) = i"
  by (induction ss i arbitrary: k rule: find_id.induct) (auto split: if_splits)

lemma find_id_None: "find_id ss i = None \<longleftrightarrow> i \<notin> st_id ` set ss"
  by (induction ss i rule: find_id.induct) auto

lemma find_id_unique:
  "distinct (map st_id ss) \<Longrightarrow> k < length ss \<Longrightarrow> find_id ss (st_id (ss ! k)) = Some k"
  by (induction ss arbitrary: k) (auto simp: nth_Cons split: nat.splits)

lemma find_id_update:
  "k < length ss \<Longrightarrow> st_id s = st_id (ss ! k) \<Longrightarrow> find_id (ss[k := s]) i = find_id ss i"
  by (induction ss arbitrary: k) (auto split: nat.splits)

lemma find_transition_Some: "find_transition ts i = Some q \<Longrightarrow> \<exists>t\<in>set ts. tr_next t = q"
  by (induction ts i rule: find_transition.induct) (auto split: if_splits)

lemma map_st_id_update:
  "k < length ss \<Longrightarrow> st_id s = st_id (ss ! k) \<Longrightarrow> map st_id (ss[k := s]) = map st_id ss"
  by (simp add: map_update list_update_same_conv)

lemma sm_inv_init: "sm_inv (sm_init n)"
  by (simp add: sm_inv_def sm_init_def)

lemma sm_inv_reset: "sm_inv sm \<Longrightarrow> sm_inv (sm_reset_state sm)"
  by (simp add: sm_inv_def sm_reset_state_def)

lemma sm_inv_set_start: "sm_inv sm \<Longrightarrow> sm_inv (sm_set_start_state sm i)"
  by (auto simp: sm_inv_def sm_set_start_state_def sm_reset_state_def sm_find_state_def
      dest: find_id_Some)

lemma sm_inv_add_state:
  assumes "sm_inv sm" and "sm_add_state sm i f = Some sm'"
  shows "sm_inv sm'"
  using assms
  by (fastforce simp: sm_inv_def sm_add_state_def sm_find_state_def find_id_None
      split: if_splits intro: less_SucI)

lemma sm_inv_add_transition:
  assumes "sm_inv sm" and "sm_add_transition sm s i d = Some sm'"
  shows "sm_inv sm'"
proof -
  from assms(2) obtain src dst where f: "find_id (sm_arr sm) s = Some src" "find_id (sm_arr sm) d = Some dst"
    and sm': "sm' = sm\<lparr>sm_arr := (sm_arr sm)[src := (sm_arr sm ! src)\<lparr>st_transitions :=
      \<lparr>tr_input = i, tr_next = dst\<rparr> # st_transitions (sm_arr sm ! src)\<rparr>]\<rparr>"
    by (auto simp: sm_add_transition_def sm_find_state_def split: option.splits)
  from f have lt: "src < length (sm_arr sm)" "dst < length (sm_arr sm)"
    using find_id_Some by blast+
  with assms(1) have tr: "\<forall>t\<in>set (st_transitions (sm_arr sm ! src)). tr_next t < length (sm_arr sm)"
    by (auto simp: sm_inv_def)
  show ?thesis
    using assms(1) lt tr unfolding sm' sm_inv_def
    by (auto simp: map_st_id_update dest!: set_update_subset_insert [THEN subsetD])
qed

lemma sm_run_inv:
  assumes "sm_inv sm" and "sm_run sm i = Some (rc, out, sm')"
  shows "sm_inv sm'"
proof -
  have "q < length (sm_arr sm)"
    if "curr_state sm = Some c" "find_transition (st_transitions (sm_arr sm ! c)) i = Some q" for c q
    using assms(1) that find_transition_Some by (fastforce simp: sm_inv_def)
  with assms show ?thesis
    by (auto simp: sm_run_def sm_inv_def sm_reset_state_def Let_def split: option.splits if_splits)
qed

section \<open>The machine as an automaton\<close>

text \<open>\<open>sm_delta\<close> is the transition function over state ids that the table represents.\<close>

definition sm_delta :: "sm_data \<Rightarrow> int \<Rightarrow> int \<Rightarrow> int option" where
  "sm_delta sm q input =
     (case sm_find_state sm q of
        None \<Rightarrow> None
      | Some k \<Rightarrow> map_option (\<lambda>n. st_id (sm_arr sm ! n))
                   (find_transition (st_transitions (sm_arr sm ! k)) input))"

definition sm_final :: "sm_data \<Rightarrow> int \<Rightarrow> bool" where
  "sm_final sm q \<longleftrightarrow> (\<exists>s\<in>set (sm_arr sm). st_id s = q \<and> st_is_final s)"

definition sm_curr_id :: "sm_data \<Rightarrow> int option" where
  "sm_curr_id sm = map_option (\<lambda>k. st_id (sm_arr sm ! k)) (curr_state sm)"

definition sm_start_id :: "sm_data \<Rightarrow> int option" where
  "sm_start_id sm = map_option (\<lambda>k. st_id (sm_arr sm ! k)) (start_state sm)"

lemma sm_final_nth:
  assumes "sm_inv sm" and "k < length (sm_arr sm)"
  shows "sm_final sm (st_id (sm_arr sm ! k)) = st_is_final (sm_arr sm ! k)"
proof -
  have "s = sm_arr sm ! k" if "s \<in> set (sm_arr sm)" "st_id s = st_id (sm_arr sm ! k)" for s
    using assms that by (metis find_id_unique in_set_conv_nth option.inject sm_inv_def)
  with assms(2) show ?thesis by (auto simp: sm_final_def)
qed

lemma sm_delta_curr:
  assumes "sm_inv sm" and "curr_state sm = Some k"
  shows "sm_delta sm (st_id (sm_arr sm ! k)) i =
    map_option (\<lambda>n. st_id (sm_arr sm ! n)) (find_transition (st_transitions (sm_arr sm ! k)) i)"
  using assms by (auto simp: sm_delta_def sm_find_state_def sm_inv_def find_id_unique)

section \<open>Properties\<close>

text \<open>
  C5. Every operation that builds or runs a machine keeps it well-formed: the table never
  exceeds its capacity, ids stay unique, every transition and the start and current states
  point into the table.
\<close>

theorem sm_operations_keep_invariant:
  assumes "sm_inv sm"
  shows "sm_inv (sm_init n) \<and> sm_inv (sm_reset_state sm) \<and>
    (\<forall>sm'. sm_add_nonfinal_state sm q = Some sm' \<or> sm_add_final_state sm q = Some sm' \<or>
       sm_add_start_state sm q = Some sm' \<or> sm_add_transition sm q i d = Some sm' \<or>
       (\<exists>rc out. sm_run sm i = Some (rc, out, sm')) \<longrightarrow> sm_inv sm')"
  using assms sm_inv_init sm_inv_reset
  by (auto simp: sm_add_nonfinal_state_def sm_add_final_state_def sm_add_start_state_def
      intro: sm_inv_add_state sm_inv_set_start sm_inv_add_transition sm_run_inv)

definition example_sm :: sm_data where
  "example_sm = the (Option.bind (sm_add_start_state (sm_init 2) 0)
     (\<lambda>sm. Option.bind (sm_add_final_state sm 7) (\<lambda>sm. sm_add_transition sm 0 65 7)))"

lemma example_sm_eq:
  "example_sm = \<lparr>start_state = Some 0, curr_state = Some 0, sm_max = 2,
     sm_arr = [\<lparr>st_id = 0, st_is_final = False, st_transitions = [\<lparr>tr_input = 65, tr_next = 1\<rparr>]\<rparr>,
               \<lparr>st_id = 7, st_is_final = True, st_transitions = []\<rparr>]\<rparr>"
  by (simp add: example_sm_def sm_add_start_state_def sm_add_final_state_def sm_add_state_def
      sm_init_def sm_find_state_def sm_set_start_state_def sm_reset_state_def sm_add_transition_def)

theorem sm_operations_keep_invariant_witness:
  "\<exists>sm'. sm_run example_sm 65 = Some (STATE_FINAL, Some 7, sm') \<and> sm_inv sm'"
proof -
  have "sm_inv example_sm" by (simp add: example_sm_eq sm_inv_def)
  from sm_operations_keep_invariant [OF this, of 2 3 65 7]
  have "sm_inv sm'" if "sm_run example_sm 65 = Some (rc, out, sm')" for rc out sm'
    using that by blast
  moreover obtain sm' where "sm_run example_sm 65 = Some (STATE_FINAL, Some 7, sm')"
    by (simp add: sm_run_def example_sm_eq sm_reset_state_def Let_def)
  ultimately show ?thesis by blast
qed

text \<open>
  C6. \<open>sm_run\<close> steps the automaton given by the table: with a current state \<open>q\<close> and no
  transition for the input it reports \<open>STATE_NO_TRANSITION\<close> and changes nothing; otherwise it
  outputs the target's id, and either reports \<open>STATE_FINAL\<close> and is back in the start state (the
  target is final), or reports \<open>STATE_NOT_FINAL\<close> and is in the target.
\<close>

theorem sm_run_steps_automaton:
  assumes "sm_inv sm" and "sm_curr_id sm = Some q"
  shows "case sm_delta sm q i of
      None \<Rightarrow> sm_run sm i = Some (STATE_NO_TRANSITION, None, sm)
    | Some q' \<Rightarrow> (\<exists>sm'. sm_run sm i =
          Some (if sm_final sm q' then STATE_FINAL else STATE_NOT_FINAL, Some q', sm') \<and>
        sm_curr_id sm' = (if sm_final sm q' then sm_start_id sm else Some q') \<and>
        sm_arr sm' = sm_arr sm \<and> start_state sm' = start_state sm)"
proof -
  from assms(2) obtain k where k: "curr_state sm = Some k" and q: "q = st_id (sm_arr sm ! k)"
    by (auto simp: sm_curr_id_def)
  from assms(1) k obtain st where st: "start_state sm = Some st" and kl: "k < length (sm_arr sm)"
    by (auto simp: sm_inv_def)
  let ?t = "find_transition (st_transitions (sm_arr sm ! k)) i"
  show ?thesis
  proof (cases ?t)
    case None
    with k st show ?thesis by (simp add: q sm_delta_curr [OF assms(1) k] sm_run_def)
  next
    case (Some n)
    then have "n < length (sm_arr sm)"
      using assms(1) kl find_transition_Some by (fastforce simp: sm_inv_def)
    with Some k st show ?thesis
      by (simp add: q sm_delta_curr [OF assms(1) k] sm_run_def sm_final_nth [OF assms(1)]
          sm_reset_state_def sm_curr_id_def sm_start_id_def)
  qed
qed

theorem sm_run_steps_automaton_witness:
  "case sm_delta example_sm 0 65 of
      None \<Rightarrow> sm_run example_sm 65 = Some (STATE_NO_TRANSITION, None, example_sm)
    | Some q' \<Rightarrow> (\<exists>sm'. sm_run example_sm 65 =
          Some (if sm_final example_sm q' then STATE_FINAL else STATE_NOT_FINAL, Some q', sm') \<and>
        sm_curr_id sm' = (if sm_final example_sm q' then sm_start_id example_sm else Some q') \<and>
        sm_arr sm' = sm_arr example_sm \<and> start_state sm' = start_state example_sm)"
  by (rule sm_run_steps_automaton) (simp_all add: example_sm_eq sm_inv_def sm_curr_id_def)

text \<open>
  \<open>sm_add_transition\<close> between existing states updates the transition function at exactly
  one point; the newest transition for an input shadows the older ones.
\<close>

theorem sm_add_transition_updates_delta:
  assumes "sm_inv sm" and "sm_add_transition sm s i d = Some sm'"
  shows "sm_delta sm' q j = (if q = s \<and> j = i then Some d else sm_delta sm q j)"
proof -
  from assms(2) obtain src dst where f: "find_id (sm_arr sm) s = Some src" "find_id (sm_arr sm) d = Some dst"
    and sm': "sm' = sm\<lparr>sm_arr := (sm_arr sm)[src := (sm_arr sm ! src)\<lparr>st_transitions :=
      \<lparr>tr_input = i, tr_next = dst\<rparr> # st_transitions (sm_arr sm ! src)\<rparr>]\<rparr>"
    by (auto simp: sm_add_transition_def sm_find_state_def split: option.splits)
  from f have lt: "src < length (sm_arr sm)" "dst < length (sm_arr sm)"
    and ids: "st_id (sm_arr sm ! src) = s" "st_id (sm_arr sm ! dst) = d"
    using find_id_Some by blast+
  have fid: "find_id (sm_arr sm') q = find_id (sm_arr sm) q" for q
    using lt by (simp add: sm' find_id_update)
  have id: "st_id (sm_arr sm' ! n) = st_id (sm_arr sm ! n)" for n
    using lt by (simp add: sm' nth_list_update)
  show ?thesis
  proof (cases "find_id (sm_arr sm) q")
    case None
    with f show ?thesis by (auto simp: sm_delta_def sm_find_state_def fid)
  next
    case (Some k)
    then have qs: "q = s \<longleftrightarrow> k = src" using f(1) ids(1)
      by (metis find_id_Some option.inject)
    have "find_transition (st_transitions (sm_arr sm' ! k)) j =
        (if k = src \<and> j = i then Some dst else find_transition (st_transitions (sm_arr sm ! k)) j)"
      using lt by (simp add: sm' nth_list_update)
    with Some ids(2) show ?thesis
      by (simp add: sm_delta_def sm_find_state_def fid id qs)
  qed
qed

theorem sm_add_transition_updates_delta_witness:
  "sm_delta (the (sm_add_transition example_sm 7 66 0)) 7 66 =
     (if (7::int) = 7 \<and> (66::int) = 66 then Some 0 else sm_delta example_sm 7 66)"
  by (rule sm_add_transition_updates_delta [where sm = example_sm])
    (simp_all add: example_sm_eq sm_inv_def sm_add_transition_def sm_find_state_def)

end
