(* ===== verification/Fastboot_Log.thy ===== *)
theory Fastboot_Log
  imports Dc_Prelude
begin

text \<open>
  \<open>src/fastboot/log.c\<close>: the circular buffer that collects console output while fastboot serves
  a packet. \<open>idx\<close> and \<open>total_len\<close> are \<open>uint64_t\<close>; they are modelled as naturals with the one
  addition that can wrap taken modulo \<open>2 ^ 64\<close>. A pointer returned by \<open>fastboot_log_get_buf\<close>
  is modelled by the bytes it points to. \<open>active_fastboot_log_instance\<close> is either NULL or the
  session's log, hence a flag.
\<close>

section \<open>Model\<close>

definition FASTBOOT_LOG_BUF_SIZE :: nat where
  "FASTBOOT_LOG_BUF_SIZE = 32 * 1024"

definition UINT64_MAX :: nat where
  "UINT64_MAX = 2 ^ 64 - 1"

record fastboot_log =
  log_buf :: "char list"
  log_idx :: nat
  log_total_len :: nat

record fastboot_log_state =
  fb_log :: "fastboot_log option"
  log_is_active :: bool

definition log_write :: "fastboot_log \<Rightarrow> char list \<Rightarrow> fastboot_log" where
  "log_write log str =
     (let log = log\<lparr>log_total_len := (log_total_len log + length str) mod 2 ^ 64\<rparr>;
          str = (if length str > FASTBOOT_LOG_BUF_SIZE
                 then drop (length str - FASTBOOT_LOG_BUF_SIZE) str else str);
          to_copy = min (FASTBOOT_LOG_BUF_SIZE - log_idx log) (length str);
          log = log\<lparr>log_buf := memcpy_at (log_buf log) (log_idx log) (take to_copy str),
                    log_idx := log_idx log + to_copy\<rparr>
      in if log_idx log \<ge> FASTBOOT_LOG_BUF_SIZE
         then let str = drop to_copy str
              in log\<lparr>log_buf := memcpy_at (log_buf log) 0 str, log_idx := length str\<rparr>
         else log)"

definition fastboot_logger_write :: "fastboot_log_state \<Rightarrow> char list \<Rightarrow> fastboot_log_state" where
  "fastboot_logger_write st str =
     (if \<not> log_is_active st then st
      else case fb_log st of
             None \<Rightarrow> st
           | Some log \<Rightarrow> st\<lparr>fb_log := Some (log_write log str)\<rparr>)"

definition fastboot_log_get_total_bytes :: "fastboot_log \<Rightarrow> nat" where
  "fastboot_log_get_total_bytes log = log_total_len log"

definition fastboot_log_get_oldest_available_byte :: "fastboot_log \<Rightarrow> nat" where
  "fastboot_log_get_oldest_available_byte log =
     (if log_total_len log < FASTBOOT_LOG_BUF_SIZE then 0
      else log_total_len log - FASTBOOT_LOG_BUF_SIZE)"

definition fastboot_log_get_buf :: "bool \<Rightarrow> fastboot_log \<Rightarrow> nat \<Rightarrow> nat \<Rightarrow> char list option" where
  "fastboot_log_get_buf malloc_ok log start num =
     (let oldest = fastboot_log_get_oldest_available_byte log
      in if start < oldest \<or> start \<ge> log_total_len log then None
         else if log_idx log = log_total_len log
         then Some (bslice start (min (log_total_len log - start) num) (log_buf log))
         else let offset = start - oldest
              in if log_idx log + offset \<ge> FASTBOOT_LOG_BUF_SIZE
                 then Some (bslice ((log_idx log + offset) mod FASTBOOT_LOG_BUF_SIZE)
                              (min (log_total_len log - start) num) (log_buf log))
                 else let right_part_len = FASTBOOT_LOG_BUF_SIZE - log_idx log - offset
                      in if right_part_len \<ge> num
                         then Some (bslice (log_idx log + offset) num (log_buf log))
                         else if \<not> malloc_ok then None
                         else let num = min (right_part_len + log_idx log) num
                              in Some (bslice (log_idx log + offset) right_part_len (log_buf log) @
                                       bslice 0 (num - right_part_len) (log_buf log)))"

definition fastboot_log_get_iter :: "fastboot_log \<Rightarrow> nat \<Rightarrow> nat" where
  "fastboot_log_get_iter log byte =
     (let oldest = fastboot_log_get_oldest_available_byte log
      in if byte < oldest \<or> byte \<ge> log_total_len log then UINT64_MAX
         else if log_idx log = log_total_len log then byte
         else (log_idx log + byte - oldest) mod FASTBOOT_LOG_BUF_SIZE)"

text \<open>The moved iterator, or \<open>None\<close> where the C function returns false and leaves it.\<close>

definition fastboot_log_inc_iter :: "fastboot_log \<Rightarrow> nat \<Rightarrow> nat option" where
  "fastboot_log_inc_iter log iter =
     (let nxt = (iter + 1) mod FASTBOOT_LOG_BUF_SIZE
      in if nxt = log_idx log then None else Some nxt)"

definition fastboot_log_dec_iter :: "fastboot_log \<Rightarrow> nat \<Rightarrow> nat option" where
  "fastboot_log_dec_iter log iter =
     (let nxt = (iter + FASTBOOT_LOG_BUF_SIZE - 1) mod FASTBOOT_LOG_BUF_SIZE
      in if iter = log_idx log \<or> nxt \<ge> log_total_len log then None else Some nxt)"

definition fastboot_log_get_byte_at_iter :: "fastboot_log \<Rightarrow> nat \<Rightarrow> char" where
  "fastboot_log_get_byte_at_iter log iter = log_buf log ! iter"

definition fastboot_log_set_active :: "bool \<Rightarrow> fastboot_log_state \<Rightarrow> fastboot_log_state" where
  "fastboot_log_set_active own_log st = st\<lparr>log_is_active := own_log\<rparr>"

text \<open>\<open>xmalloc\<close> returns a block with unspecified contents, the argument \<open>garbage\<close>.\<close>

definition fastboot_log_init :: "char list \<Rightarrow> fastboot_log_state \<Rightarrow> fastboot_log_state" where
  "fastboot_log_init garbage st =
     fastboot_log_set_active False
       (st\<lparr>fb_log := Some \<lparr>log_buf = garbage, log_idx = 0, log_total_len = 0\<rparr>\<rparr>)"

definition fastboot_log_release :: "fastboot_log_state \<Rightarrow> fastboot_log_state" where
  "fastboot_log_release st = (fastboot_log_set_active False st)\<lparr>fb_log := None\<rparr>"

section \<open>The log as the recent end of a stream\<close>

text \<open>
  \<open>log_abs log h\<close>: the log has received the bytes \<open>h\<close>. The \<open>k\<close>-th most recent byte is \<open>k + 1\<close>
  positions before \<open>log_idx\<close>, going round; until the buffer has filled once the bytes start at 0.
\<close>

abbreviation LSZ :: nat where "LSZ \<equiv> FASTBOOT_LOG_BUF_SIZE"

definition log_abs :: "fastboot_log \<Rightarrow> char list \<Rightarrow> bool" where
  "log_abs log h \<longleftrightarrow>
     length (log_buf log) = LSZ \<and> log_total_len log = length h \<and> length h < 2 ^ 64 \<and>
     log_idx log < LSZ \<and> (length h < LSZ \<longrightarrow> log_idx log = length h) \<and>
     (\<forall>k<min LSZ (length h).
        log_buf log ! ((log_idx log + (LSZ - 1 - k)) mod LSZ) = h ! (length h - 1 - k))"

lemma N_pos: "0 < LSZ"
  by (simp add: FASTBOOT_LOG_BUF_SIZE_def)

lemma mod_N_less [simp]: "x mod LSZ < LSZ"
  by (simp add: N_pos)

text \<open>One wrap is all that sums of two offsets can need.\<close>

lemma mod_N_one_wrap: "a < 2 * LSZ \<Longrightarrow> a mod LSZ = (if a < LSZ then a else a - LSZ)"
  by (auto simp: mod_if)

lemma wrap_write_nth:
  assumes len: "length buf = LSZ" and i: "i < LSZ" and s: "length s \<le> LSZ" and p: "p < LSZ"
  defines "c \<equiv> min (LSZ - i) (length s)"
  defines "b1 \<equiv> memcpy_at buf i (take c s)"
  shows "(if i + c \<ge> LSZ then memcpy_at b1 0 (drop c s) else b1) ! p =
    (if (p + (LSZ - i)) mod LSZ < length s then s ! ((p + (LSZ - i)) mod LSZ) else buf ! p)"
proof -
  have cs: "c \<le> length s" "i + c \<le> LSZ" using i by (auto simp: c_def)
  have lb: "length b1 = LSZ" using len cs by (simp add: b1_def)
  have n1: "b1 ! p = (if p < i then buf ! p else if p < i + c then s ! (p - i) else buf ! p)"
    using len p cs nth_memcpy_at [of i "take c s" buf p] by (simp add: b1_def)
  have m: "(p + (LSZ - i)) mod LSZ = (if p < i then p + (LSZ - i) else p - i)"
    using p i by (auto simp: mod_N_one_wrap)
  show ?thesis
  proof (cases "i + c \<ge> LSZ")
    case True
    then have c: "c = LSZ - i" "LSZ - i \<le> length s" using i by (auto simp: c_def)
    have n2: "memcpy_at b1 0 (drop c s) ! p = (if p < length s - c then s ! (p + c) else b1 ! p)"
      using lb p s c by (simp add: nth_memcpy_at add.commute)
    show ?thesis using True n1 n2 c i p s m by auto
  next
    case False
    then have "c = length s" using i by (simp add: c_def)
    with False show ?thesis using n1 m p i by auto
  qed
qed

lemma log_write_unfold:
  fixes log str
  defines "s \<equiv> (if length str > LSZ then drop (length str - LSZ) str else str)"
  defines "c \<equiv> min (LSZ - log_idx log) (length s)"
  defines "b1 \<equiv> memcpy_at (log_buf log) (log_idx log) (take c s)"
  shows "log_buf (log_write log str) = (if log_idx log + c \<ge> LSZ then memcpy_at b1 0 (drop c s) else b1)"
    and "log_idx (log_write log str) = (if log_idx log + c \<ge> LSZ then length s - c else log_idx log + c)"
    and "log_total_len (log_write log str) = (log_total_len log + length str) mod 2 ^ 64"
  by (simp_all add: log_write_def Let_def s_def [symmetric] c_def [symmetric] b1_def)

lemma log_write_abs:
  assumes abs: "log_abs log h" and len: "length h + length str < 2 ^ 64"
  shows "log_abs (log_write log str) (h @ str)"
proof -
  define s where "s = (if length str > LSZ then drop (length str - LSZ) str else str)"
  define i where "i = log_idx log"
  define c where "c = min (LSZ - i) (length s)"
  let ?l = "log_write log str"
  from abs have buf: "length (log_buf log) = LSZ" and i: "i < LSZ" and small: "length h < LSZ \<longrightarrow> i = length h"
    and old: "\<And>k. k < min LSZ (length h) \<Longrightarrow>
      log_buf log ! ((i + (LSZ - 1 - k)) mod LSZ) = h ! (length h - 1 - k)"
    by (auto simp: log_abs_def i_def)
  have s: "length s \<le> LSZ" "length s = min LSZ (length str)" by (auto simp: s_def)
  have s_nth: "s ! (length s - 1 - k) = str ! (length str - 1 - k)" if "k < length s" for k
    using that by (auto simp: s_def)
  note u = log_write_unfold [of log str, folded s_def, folded i_def, folded c_def]
  have idx: "log_idx ?l = (i + length s) mod LSZ"
    using i s by (auto simp: u(2) c_def mod_N_one_wrap)
  have nth: "log_buf ?l ! p = (if (p + (LSZ - i)) mod LSZ < length s then s ! ((p + (LSZ - i)) mod LSZ)
      else log_buf log ! p)" if "p < LSZ" for p
    using wrap_write_nth [OF buf i s(1) that] unfolding u(1) c_def .
  have lbuf: "length (log_buf ?l) = LSZ"
    using buf i s by (auto simp: u(1) c_def)
  have pos: "log_buf ?l ! ((log_idx ?l + (LSZ - 1 - k)) mod LSZ) = (h @ str) ! (length (h @ str) - 1 - k)"
    if k: "k < min LSZ (length (h @ str))" for k
  proof (cases "k < length s")
    case True
    let ?p = "(log_idx ?l + (LSZ - 1 - k)) mod LSZ"
    have p: "?p = (i + (length s - 1 - k)) mod LSZ"
      using True k i s by (auto simp: idx mod_N_one_wrap)
    then have q: "(?p + (LSZ - i)) mod LSZ = length s - 1 - k"
      using True i s by (auto simp: mod_N_one_wrap)
    have "length s - 1 - k < length s" using True by linarith
    then have "log_buf ?l ! ?p = s ! (length s - 1 - k)"
      using nth [OF mod_N_less] by (simp only: q if_True)
    moreover have "(h @ str) ! (length (h @ str) - 1 - k) = str ! (length str - 1 - k)"
      using True s(2) by (auto simp: nth_append)
    ultimately show ?thesis using s_nth [OF True] by simp
  next
    case False
    with k s(2) have short: "length s = length str" "s = str" by (auto simp: s_def)
    let ?p = "(log_idx ?l + (LSZ - 1 - k)) mod LSZ"
    have p: "?p = (i + (LSZ - 1 - (k - length s))) mod LSZ"
      using False k i s by (auto simp: idx mod_N_one_wrap)
    then have "(?p + (LSZ - i)) mod LSZ = LSZ - 1 - (k - length s)"
      using False k i s by (auto simp: mod_N_one_wrap)
    moreover have "\<not> LSZ - 1 - (k - length s) < length s" using False k by auto
    ultimately have "log_buf ?l ! ?p = log_buf log ! ?p" using nth [of ?p] by simp
    also have "\<dots> = h ! (length h - 1 - (k - length s))"
      unfolding p using False k short by (intro old) auto
    finally show ?thesis using False k short by (auto simp: nth_append)
  qed
  have "log_total_len ?l = length (h @ str)"
    using abs len by (simp add: u(3) log_abs_def)
  moreover have "length (h @ str) < LSZ \<longrightarrow> log_idx ?l = length (h @ str)"
    using small s by (auto simp: idx)
  ultimately show ?thesis
    using lbuf idx pos len unfolding log_abs_def by simp
qed

text \<open>Where a byte that is still available is stored.\<close>

definition log_pos :: "fastboot_log \<Rightarrow> nat \<Rightarrow> nat" where
  "log_pos log b =
     (if log_idx log = log_total_len log then b
      else (log_idx log + (b - fastboot_log_get_oldest_available_byte log)) mod LSZ)"

abbreviation log_oldest :: "fastboot_log \<Rightarrow> nat" where
  "log_oldest \<equiv> fastboot_log_get_oldest_available_byte"

lemma log_pos_less:
  assumes "log_abs log h" and "b < length h"
  shows "log_pos log b < LSZ"
  using assms by (auto simp: log_pos_def log_abs_def)

lemma log_abs_nth:
  assumes abs: "log_abs log h" and b: "log_oldest log \<le> b" "b < length h"
  shows "log_buf log ! log_pos log b = h ! b"
proof -
  define k where "k = length h - 1 - b"
  from abs have i: "log_idx log < LSZ" and t: "log_total_len log = length h"
    and small: "length h < LSZ \<longrightarrow> log_idx log = length h"
    by (auto simp: log_abs_def)
  have k: "k < min LSZ (length h)"
    using b t N_pos by (auto simp: k_def fastboot_log_get_oldest_available_byte_def split: if_splits)
  have "log_pos log b = (log_idx log + (LSZ - 1 - k)) mod LSZ"
  proof (cases "length h < LSZ")
    case True
    with small b k t i show ?thesis by (auto simp: log_pos_def k_def mod_N_one_wrap)
  next
    case False
    with i t b show ?thesis
      by (auto simp: log_pos_def k_def fastboot_log_get_oldest_available_byte_def mod_N_one_wrap)
  qed
  with abs k have "log_buf log ! log_pos log b = h ! (length h - 1 - k)"
    by (simp add: log_abs_def)
  with b show ?thesis by (simp add: k_def)
qed

text \<open>Consecutive bytes are stored in consecutive cells, going round.\<close>

lemma log_pos_Suc:
  assumes "log_abs log h" and "log_oldest log \<le> b" and "Suc b < length h"
  shows "log_pos log (Suc b) = (log_pos log b + 1) mod LSZ"
  using assms
  by (auto simp: log_pos_def log_abs_def fastboot_log_get_oldest_available_byte_def mod_Suc_eq
      Suc_diff_le split: if_splits)

lemma fastboot_log_get_iter_pos:
  assumes "log_abs log h"
  shows "fastboot_log_get_iter log b =
    (if log_oldest log \<le> b \<and> b < length h then log_pos log b else UINT64_MAX)"
  using assms by (auto simp: fastboot_log_get_iter_def log_pos_def log_abs_def Let_def)

lemma fastboot_log_inc_iter_pos:
  assumes abs: "log_abs log h" and b: "log_oldest log \<le> b" "b < length h"
  shows "fastboot_log_inc_iter log (log_pos log b) =
    (if Suc b < length h then Some (log_pos log (Suc b)) else None)"
proof -
  from abs have i: "log_idx log < LSZ" "log_total_len log = length h"
    "length h < LSZ \<longrightarrow> log_idx log = length h" by (auto simp: log_abs_def)
  have "(log_pos log b + 1) mod LSZ = log_idx log \<longleftrightarrow> Suc b = length h"
    using i b by (auto simp: log_pos_def fastboot_log_get_oldest_available_byte_def mod_N_one_wrap
        split: if_splits)
  with b abs show ?thesis
    by (auto simp: fastboot_log_inc_iter_def Let_def log_pos_Suc)
qed

lemma fastboot_log_dec_iter_pos:
  assumes abs: "log_abs log h" and b: "log_oldest log \<le> b" "b < length h"
  shows "fastboot_log_dec_iter log (log_pos log b) =
    (if log_oldest log < b then Some (log_pos log (b - 1)) else None)"
proof -
  from abs have i: "log_idx log < LSZ" "log_total_len log = length h"
    "length h < LSZ \<longrightarrow> log_idx log = length h" by (auto simp: log_abs_def)
  show ?thesis
  proof (cases "length h < LSZ")
    case True
    then have "log_oldest log = 0" "log_pos log b = b" "log_pos log (b - 1) = b - 1"
      using i by (simp_all add: fastboot_log_get_oldest_available_byte_def log_pos_def)
    moreover have "(b + LSZ - 1) mod LSZ = (if b = 0 then LSZ - 1 else b - 1)"
      using True b N_pos by (auto simp: mod_N_one_wrap)
    ultimately show ?thesis
      using True i b by (auto simp: fastboot_log_dec_iter_def Let_def)
  next
    case False
    define d where "d = b - log_oldest log"
    have d: "d < LSZ" using False b i by (simp add: d_def fastboot_log_get_oldest_available_byte_def)
    have p: "log_pos log b = (log_idx log + d) mod LSZ"
      and p1: "0 < d \<Longrightarrow> log_pos log (b - 1) = (log_idx log + (d - 1)) mod LSZ"
      using False i by (simp_all add: log_pos_def d_def)
    have iff: "(log_idx log + d) mod LSZ = log_idx log \<longleftrightarrow> d = 0"
      using i d by (auto simp: mod_N_one_wrap)
    have nxt: "((log_idx log + d) mod LSZ + LSZ - 1) mod LSZ = (log_idx log + (d - 1)) mod LSZ" if "0 < d"
      using that i d by (cases "log_idx log + d < LSZ") (auto simp: mod_N_one_wrap)
    have "(log_idx log + (d - 1)) mod LSZ < length h"
      using mod_N_less [of "log_idx log + (d - 1)"] False by linarith
    moreover have "log_oldest log < b \<longleftrightarrow> 0 < d" using b by (simp add: d_def)
    ultimately show ?thesis
      using i(2) iff nxt p p1 by (auto simp: fastboot_log_dec_iter_def Let_def)
  qed
qed

lemma slice_log_buf:
  assumes abs: "log_abs log h" and b: "log_oldest log \<le> b" "b + n \<le> length h"
    and flat: "log_pos log b + n \<le> LSZ"
    and step: "\<And>j. j < n \<Longrightarrow> log_pos log (b + j) = log_pos log b + j"
  shows "bslice (log_pos log b) n (log_buf log) = take n (drop b h)"
proof (rule nth_equalityI)
  have len: "length (log_buf log) = LSZ" using abs by (simp add: log_abs_def)
  show "length (bslice (log_pos log b) n (log_buf log)) = length (take n (drop b h))"
    using len flat b by simp
  fix j assume "j < length (bslice (log_pos log b) n (log_buf log))"
  then have j: "j < n" by simp
  have "bslice (log_pos log b) n (log_buf log) ! j = log_buf log ! (log_pos log (b + j))"
    using nth_bslice [of "log_pos log b" n "log_buf log" j] len flat j by (simp add: step)
  also have "\<dots> = h ! (b + j)" using b j by (intro log_abs_nth [OF abs]) auto
  finally show "bslice (log_pos log b) n (log_buf log) ! j = take n (drop b h) ! j"
    using b j by simp
qed

lemma fastboot_log_get_buf_flat:
  assumes abs: "log_abs log h" and b: "log_oldest log \<le> start" "start < length h"
    and idx: "log_idx log = log_total_len log"
  shows "fastboot_log_get_buf ok log start num = Some (take num (drop start h))"
proof -
  let ?n = "min (length h - start) num"
  have t: "log_total_len log = length h" "log_idx log < LSZ" using abs by (auto simp: log_abs_def)
  have pos: "log_pos log x = x" for x using idx by (simp add: log_pos_def)
  have "bslice start ?n (log_buf log) = take ?n (drop start h)"
    using slice_log_buf [OF abs b(1), of ?n] t idx b by (simp add: pos)
  with b idx t show ?thesis
    by (simp add: fastboot_log_get_buf_def Let_def min_def)
qed

lemma fastboot_log_get_buf_wrapped:
  assumes abs: "log_abs log h" and b: "log_oldest log \<le> start" "start < length h"
    and idx: "log_idx log \<noteq> log_total_len log"
  shows "fastboot_log_get_buf True log start num = Some (take num (drop start h))"
proof -
  define i where "i = log_idx log"
  define d where "d = start - log_oldest log"
  have i: "i < LSZ" and t: "log_total_len log = length h" and big: "LSZ \<le> length h"
    using abs idx by (auto simp: log_abs_def i_def)
  then have d: "d < LSZ" "length h - start = LSZ - d"
    using b by (auto simp: d_def fastboot_log_get_oldest_available_byte_def)
  have pos: "log_pos log (start + j) = (i + (d + j)) mod LSZ" for j
    using idx b(1) by (simp add: log_pos_def i_def d_def)
  note sl = slice_log_buf [OF abs, unfolded i_def [symmetric]]
  have unfold: "fastboot_log_get_buf True log start num =
    (if i + d \<ge> LSZ then Some (bslice ((i + d) mod LSZ) (min (length h - start) num) (log_buf log))
     else if LSZ - i - d \<ge> num then Some (bslice (i + d) num (log_buf log))
     else Some (bslice (i + d) (LSZ - i - d) (log_buf log) @
            bslice 0 (min (LSZ - i - d + i) num - (LSZ - i - d)) (log_buf log)))"
    using b idx t by (simp add: fastboot_log_get_buf_def Let_def i_def d_def)
  consider "i + d \<ge> LSZ" | "i + d < LSZ" "LSZ - i - d \<ge> num" | "i + d < LSZ" "LSZ - i - d < num"
    by linarith
  then show ?thesis
  proof cases
    case 1
    let ?n = "min (LSZ - d) num"
    have p0: "log_pos log start = i + d - LSZ" using 1 i d pos [of 0] by (simp add: mod_N_one_wrap)
    have pj: "log_pos log (start + j) = i + d - LSZ + j" if "j < ?n" for j
      using 1 i d that mod_N_one_wrap [of "i + (d + j)"] by (auto simp: pos)
    have "bslice (i + d - LSZ) ?n (log_buf log) = take ?n (drop start h)"
    proof (rule sl [OF b(1), of ?n, unfolded p0])
      show "start + ?n \<le> length h" "i + d - LSZ + ?n \<le> LSZ" using 1 i d b by auto
    qed (rule pj)
    then have "bslice ((i + d) mod LSZ) ?n (log_buf log) = take ?n (drop start h)"
      using 1 i d by (simp add: mod_N_one_wrap)
    then show ?thesis using 1 d by (simp add: unfold min_def)
  next
    case 2
    then have "bslice (i + d) num (log_buf log) = take num (drop start h)"
      using sl [of start num] i d b pos [of 0] pos by (simp add: mod_N_one_wrap)
    then show ?thesis using 2 by (simp add: unfold)
  next
    case 3
    define n where "n = min (LSZ - d) num"
    define r0 where "r0 = LSZ - i - d"
    have one: "bslice (i + d) r0 (log_buf log) = take r0 (drop start h)"
      using sl [of start r0] 3 i d b pos [of 0] pos by (simp add: r0_def mod_N_one_wrap)
    have r: "r0 \<le> n" "r0 + i = LSZ - d" "i + d + r0 = LSZ" "n \<le> LSZ - d"
      using 3 i d by (auto simp: n_def r0_def)
    have two: "bslice 0 (n - r0) (log_buf log) = take (n - r0) (drop (start + r0) h)"
    proof (cases "n - r0 = 0")
      case True
      then show ?thesis by (simp add: bslice_def)
    next
      case False
      have pj: "log_pos log (start + r0 + j) = j" if "j < LSZ" for j
      proof -
        have "i + (d + (r0 + j)) = LSZ + j" using r(3) by linarith
        then show ?thesis using that by (simp only: pos add.assoc) simp
      qed
      have p0: "log_pos log (start + r0) = 0" using pj [of 0] N_pos by simp
      have "bslice 0 (n - r0) (log_buf log) = take (n - r0) (drop (start + r0) h)"
        if "log_oldest log \<le> start + r0"
      proof (rule sl [OF that, of "n - r0", unfolded p0])
        show "start + r0 + (n - r0) \<le> length h" "0 + (n - r0) \<le> LSZ"
          using r(1,4) d b by linarith+
        show "log_pos log (start + r0 + j) = 0 + j" if "j < n - r0" for j
          using that r(4) by (subst pj) auto
      qed
      with b(1) show ?thesis by linarith
    qed
    have "take r0 (drop start h) @ take (n - r0) (drop (start + r0) h) = take n (drop start h)"
      using r(1) by (metis drop_drop add.commute le_add_diff_inverse take_add)
    with one two have "bslice (i + d) r0 (log_buf log) @ bslice 0 (n - r0) (log_buf log) =
        take n (drop start h)" by simp
    moreover have "take n (drop start h) = take num (drop start h)"
      using d(2) by (simp add: n_def min_def)
    moreover have "fastboot_log_get_buf True log start num =
        Some (bslice (i + d) r0 (log_buf log) @ bslice 0 (n - r0) (log_buf log))"
      using 3 unfolding unfold r0_def [symmetric] r(2) n_def [symmetric] by simp
    ultimately show ?thesis by simp
  qed
qed

lemma log_abs_init:
  "length garbage = LSZ \<Longrightarrow> log_abs \<lparr>log_buf = garbage, log_idx = 0, log_total_len = 0\<rparr> []"
  by (simp add: log_abs_def N_pos)

section \<open>Properties\<close>

text \<open>
  C8. The log refines an unbounded stream: the log that \<open>fastboot_log_init\<close> puts in the session,
  whatever the new buffer holds, represents the empty stream, and
  writing while the session's log is active appends to the stream it represents, whatever the
  size of the write (a write longer than the buffer included), until \<open>2 ^ 64\<close> bytes.
\<close>

theorem fastboot_logger_write_refines_append:
  assumes "fb_log st = Some log" and "log_is_active st" and "log_abs log h"
    and "length h + length str < 2 ^ 64"
  shows "(\<forall>garbage st0. length garbage = LSZ \<longrightarrow>
      (\<exists>log0. fb_log (fastboot_log_init garbage st0) = Some log0 \<and> log_abs log0 [])) \<and>
    (\<exists>log'. fastboot_logger_write st str = st\<lparr>fb_log := Some log'\<rparr> \<and> log_abs log' (h @ str))"
  using assms log_write_abs log_abs_init
  by (auto simp: fastboot_logger_write_def fastboot_log_init_def fastboot_log_set_active_def)

theorem fastboot_logger_write_refines_append_witness:
  "\<exists>log'. fastboot_logger_write
       (fastboot_log_set_active True (fastboot_log_init (replicate LSZ CHR 0x00)
          \<lparr>fb_log = None, log_is_active = False\<rparr>)) ''INFO'' =
     (fastboot_log_set_active True (fastboot_log_init (replicate LSZ CHR 0x00)
          \<lparr>fb_log = None, log_is_active = False\<rparr>))\<lparr>fb_log := Some log'\<rparr> \<and> log_abs log' ([] @ ''INFO'')"
  by (rule fastboot_logger_write_refines_append [THEN conjunct2])
    (auto simp: fastboot_log_set_active_def fastboot_log_init_def intro!: log_abs_init)

text \<open>
  Reading back: for any start that is still available, \<open>fastboot_log_get_buf\<close> returns exactly
  the requested bytes of the stream (fewer only at its end), whether they lie in one piece of
  the buffer or wrap around its end.
\<close>

theorem fastboot_log_get_buf_reads_stream:
  assumes "log_abs log h" and "fastboot_log_get_oldest_available_byte log \<le> start"
    and "start < length h"
  shows "fastboot_log_get_buf True log start num = Some (take num (drop start h))"
  using assms fastboot_log_get_buf_flat fastboot_log_get_buf_wrapped by blast

lemma log_abs_example: "log_abs (log_write \<lparr>log_buf = replicate LSZ CHR 0x00, log_idx = 0,
   log_total_len = 0\<rparr> ''OKAY'') ''OKAY''"
  using log_write_abs [OF log_abs_init, of "replicate LSZ CHR 0x00" "''OKAY''"] by simp

theorem fastboot_log_get_buf_reads_stream_witness:
  "fastboot_log_get_buf True (log_write \<lparr>log_buf = replicate LSZ CHR 0x00, log_idx = 0,
     log_total_len = 0\<rparr> ''OKAY'') 1 2 = Some (take 2 (drop 1 ''OKAY''))"
  by (rule fastboot_log_get_buf_reads_stream [OF log_abs_example])
    (simp_all add: fastboot_log_get_oldest_available_byte_def log_write_unfold
      FASTBOOT_LOG_BUF_SIZE_def)

text \<open>
  Iterators walk the stream: \<open>fastboot_log_get_iter\<close> of an available byte points at it,
  \<open>fastboot_log_inc_iter\<close> moves to the following byte and stops exactly at the last one,
  \<open>fastboot_log_dec_iter\<close> moves to the preceding byte and stops exactly at the oldest one.
\<close>

theorem fastboot_log_iterators_walk_stream:
  assumes "log_abs log h" and "fastboot_log_get_oldest_available_byte log \<le> b" and "b < length h"
  shows "fastboot_log_get_byte_at_iter log (fastboot_log_get_iter log b) = h ! b \<and>
    fastboot_log_inc_iter log (fastboot_log_get_iter log b) =
      (if Suc b < length h then Some (fastboot_log_get_iter log (Suc b)) else None) \<and>
    fastboot_log_dec_iter log (fastboot_log_get_iter log b) =
      (if fastboot_log_get_oldest_available_byte log < b
       then Some (fastboot_log_get_iter log (b - 1)) else None)"
  using assms log_abs_nth [OF assms]
  by (auto simp: fastboot_log_get_iter_pos fastboot_log_inc_iter_pos fastboot_log_dec_iter_pos
      fastboot_log_get_byte_at_iter_def)

theorem fastboot_log_iterators_walk_stream_witness:
  "let log = log_write \<lparr>log_buf = replicate LSZ CHR 0x00, log_idx = 0, log_total_len = 0\<rparr> ''OKAY''
   in fastboot_log_get_byte_at_iter log (fastboot_log_get_iter log 3) = ''OKAY'' ! 3 \<and>
      fastboot_log_inc_iter log (fastboot_log_get_iter log 3) = None"
  using fastboot_log_iterators_walk_stream [OF log_abs_example, of 3]
  by (simp add: fastboot_log_get_oldest_available_byte_def log_write_unfold
      FASTBOOT_LOG_BUF_SIZE_def Let_def)

end
