(* ===== verification/Block_Dev.thy ===== *)
theory Block_Dev
  imports Dc_Prelude
begin

text \<open>
  \<open>src/drivers/storage/blockdev.c\<close>: byte-granular writes and the simple read stream on top of a
  block device. A \<open>BlockDev\<close> is a record of the driver's callbacks over an abstract device
  state and the device geometry; \<open>blockdev_ok\<close> is the driver contract of \<open>blockdev.h\<close>. Block
  and byte counts are \<open>uint64_t\<close>, kept as naturals with the wrap-around written where the
  arithmetic can wrap.
\<close>

section \<open>Model\<close>

record simple_stream =
  current_sector :: nat
  end_sector :: nat
  block_buf :: "u8 list"
  buf_used :: nat

record 's blockdev =
  bd_read :: "nat \<Rightarrow> nat \<Rightarrow> 's \<Rightarrow> nat \<times> u8 list \<times> 's"
  bd_write :: "nat \<Rightarrow> nat \<Rightarrow> u8 list \<Rightarrow> 's \<Rightarrow> nat \<times> 's"
  bd_erase :: "(nat \<Rightarrow> nat \<Rightarrow> 's \<Rightarrow> nat \<times> 's) option"
  bd_new_stream :: "(nat \<Rightarrow> nat \<Rightarrow> simple_stream option) option"
  bd_block_size :: nat
  bd_block_count :: nat

text \<open>The last part of \<open>simple_stream_read\<close>: fetch one block for the bytes that are left.\<close>

definition stream_read_tail ::
  "'s blockdev \<Rightarrow> bool \<Rightarrow> nat \<Rightarrow> nat \<Rightarrow> u8 list \<Rightarrow> simple_stream \<Rightarrow> 's \<Rightarrow>
   nat \<times> u8 list \<times> simple_stream \<times> 's" where
  "stream_read_tail dev has_buffer bytes_read count buffer st s =
     (if count = 0 then (bytes_read, buffer, st, s)
      else if current_sector st = end_sector st then (bytes_read, buffer, st, s)
      else case bd_read dev (current_sector st) 1 s of (n, blk, s') \<Rightarrow>
        if n \<noteq> 1 then (bytes_read, buffer, st, s')
        else (bytes_read + count, (if has_buffer then buffer @ take count blk else buffer),
              st\<lparr>block_buf := blk, buf_used := count\<rparr>, s'))"

text \<open>The bytes left from the previous partial block read.\<close>

definition stream_read_head ::
  "'s blockdev \<Rightarrow> bool \<Rightarrow> nat \<Rightarrow> simple_stream \<Rightarrow> nat \<times> u8 list \<times> simple_stream" where
  "stream_read_head dev has_buffer count st =
     (let bs = bd_block_size dev
      in if buf_used st < bs
         then let n = min count (bs - buf_used st);
                  used' = buf_used st + n
              in (n, (if has_buffer then bslice (buf_used st) n (block_buf st) else []),
                  st\<lparr>buf_used := used',
                     current_sector := (if used' = bs then add64 (current_sector st) 1
                                        else current_sector st)\<rparr>)
         else (0, [], st))"

text \<open>The sectors that are block aligned, then the rest.\<close>

definition stream_read_sectors ::
  "'s blockdev \<Rightarrow> bool \<Rightarrow> nat \<Rightarrow> nat \<Rightarrow> u8 list \<Rightarrow> simple_stream \<Rightarrow> 's \<Rightarrow>
   nat \<times> u8 list \<times> simple_stream \<times> 's" where
  "stream_read_sectors dev has_buffer bytes_read count buffer st s =
     (let bs = bd_block_size dev;
          sectors = count div bs
      in if sectors > sub64 (end_sector st) (current_sector st)
         then (bytes_read, buffer, st, s)
         else case (if has_buffer \<and> sectors > 0
                    then bd_read dev (current_sector st) sectors s
                    else (sectors, [], s)) of (n, data, s') \<Rightarrow>
           if n \<noteq> sectors then (bytes_read, buffer, st, s')
           else stream_read_tail dev has_buffer (bytes_read + sectors * bs)
                  (count - sectors * bs) (buffer @ data)
                  (st\<lparr>current_sector := add64 (current_sector st) sectors\<rparr>) s')"

text \<open>
  The number of bytes read, the bytes stored through \<open>buffer\<close> (none when it is NULL, that is when
  \<open>has_buffer\<close> is false), the stream and the device.
\<close>

definition simple_stream_read ::
  "'s blockdev \<Rightarrow> bool \<Rightarrow> nat \<Rightarrow> simple_stream \<Rightarrow> 's \<Rightarrow> nat \<times> u8 list \<times> simple_stream \<times> 's" where
  "simple_stream_read dev has_buffer count st s =
     (case stream_read_head dev has_buffer count st of (bytes_read, buffer, st') \<Rightarrow>
        if count - bytes_read = 0 then (bytes_read, buffer, st', s)
        else stream_read_sectors dev has_buffer bytes_read (count - bytes_read) buffer st' s)"

definition simple_stream_skip ::
  "'s blockdev \<Rightarrow> nat \<Rightarrow> simple_stream \<Rightarrow> 's \<Rightarrow> nat \<times> simple_stream \<times> 's" where
  "simple_stream_skip dev count st s =
     (case simple_stream_read dev False count st s of (n, _, st', s') \<Rightarrow> (n, st', s'))"

text \<open>\<open>None\<close> is the failed assertion that the block size is a power of two; \<open>garbage\<close> is the
  content of the freshly allocated block buffer.\<close>

definition new_simple_stream ::
  "'s blockdev \<Rightarrow> u8 list \<Rightarrow> nat \<Rightarrow> nat \<Rightarrow> simple_stream option" where
  "new_simple_stream dev garbage start count =
     (if and (bd_block_size dev) (bd_block_size dev - 1) = 0
      then Some \<lparr>current_sector = start, end_sector = add64 start count,
                 block_buf = garbage, buf_used = bd_block_size dev\<rparr>
      else None)"

text \<open>
  The numbers of bytes to write, in an \<open>int\<close> for a partial block, are naturals: they are at most a block,
  and no block has \<open>2 ^ 31\<close> bytes.
\<close>

definition blockdev_write_unaligned ::
  "'s blockdev \<Rightarrow> nat \<Rightarrow> nat \<Rightarrow> u8 list \<Rightarrow> nat \<Rightarrow> 's \<Rightarrow> nat \<times> 's" where
  "blockdev_write_unaligned dev lba offset data data_len s =
     (let to_write = min (bd_block_size dev - offset) data_len
      in case bd_read dev lba 1 s of (n, blk, s') \<Rightarrow>
           if n \<noteq> 1 then (0, s')
           else case bd_write dev lba 1 (memcpy_at blk offset (take to_write data)) s' of (m, s'') \<Rightarrow>
             (if m \<noteq> 1 then 0 else to_write, s''))"

definition MiB :: nat where "MiB = 1024 * 1024"

text \<open>
  The middle loop of \<open>blockdev_fill_write_bytes\<close>. A result \<open>(todo, start_block, ok, s)\<close> has \<open>ok\<close>
  false when the driver wrote fewer blocks than asked; no result means the loop does not end.
\<close>

partial_function (option) fill_write_loop ::
  "'s blockdev \<Rightarrow> u8 list \<Rightarrow> nat \<Rightarrow> nat \<Rightarrow> nat \<Rightarrow> 's \<Rightarrow> (nat \<times> nat \<times> bool \<times> 's) option" where
  "fill_write_loop dev buffer buffer_blocks todo start_block s =
     (if todo = 0 then Some (todo, start_block, True, s)
      else let blocks_to_write = min buffer_blocks todo
           in case bd_write dev start_block blocks_to_write buffer s of (done_blocks, s') \<Rightarrow>
             if done_blocks \<noteq> blocks_to_write
             then Some (sub64 todo done_blocks, add64 start_block done_blocks, False, s')
             else fill_write_loop dev buffer buffer_blocks (sub64 todo done_blocks)
                    (add64 start_block done_blocks) s')"

definition fill_buffer :: "nat \<Rightarrow> u32 \<Rightarrow> u8 list" where
  "fill_buffer buffer_words fill_pattern = concat (replicate buffer_words (le32_bytes fill_pattern))"

text \<open>The part of \<open>blockdev_fill_write_bytes\<close> after the unaligned head.\<close>

definition fill_whole_blocks ::
  "'s blockdev \<Rightarrow> u8 list \<Rightarrow> nat \<Rightarrow> nat \<Rightarrow> nat \<Rightarrow> nat \<Rightarrow> 's \<Rightarrow> (nat \<times> 's) option" where
  "fill_whole_blocks dev buffer buffer_blocks start_block written count s =
     (let bs = bd_block_size dev;
          todo = count div bs;
          written1 = written + todo * bs
      in case fill_write_loop dev buffer buffer_blocks todo start_block s of
           None \<Rightarrow> None
         | Some (todo', start_block', ok, s') \<Rightarrow>
             if \<not> ok then Some (sub64 written1 (mul64 todo' bs), s')
             else if count mod bs \<noteq> 0
             then (case blockdev_write_unaligned dev start_block' 0 buffer (count mod bs) s' of
                     (n, s'') \<Rightarrow> Some (written1 + n, s''))
             else Some (written1, s'))"

definition blockdev_fill_write_bytes ::
  "'s blockdev \<Rightarrow> nat \<Rightarrow> nat \<Rightarrow> u32 \<Rightarrow> 's \<Rightarrow> (nat \<times> 's) option" where
  "blockdev_fill_write_bytes dev start count fill_pattern s =
     (let bs = bd_block_size dev;
          offset = start mod bs;
          start_block = start div bs
      in if count = 0 then Some (0, s)
         else if start mod 4 \<noteq> 0 then Some (0, s)
         else let buffer_bytes = min (4 * MiB) (align_down (add64 count 3) 4);
                  buffer_blocks = buffer_bytes div bs;
                  buffer = fill_buffer (buffer_bytes div 4) fill_pattern
              in if offset \<noteq> 0
                 then case blockdev_write_unaligned dev start_block offset buffer count s of
                        (written, s1) \<Rightarrow>
                        if written = 0 \<or> count - written = 0 then Some (written, s1)
                        else fill_whole_blocks dev buffer buffer_blocks (start_block + 1) written
                               (count - written) s1
                 else fill_whole_blocks dev buffer buffer_blocks start_block 0 count s)"

text \<open>The part of \<open>blockdev_write_bytes\<close> after the unaligned head: whole blocks from \<open>start_block\<close>,
  then the rest of the last block.\<close>

definition write_whole_blocks ::
  "'s blockdev \<Rightarrow> nat \<Rightarrow> nat \<Rightarrow> u8 list \<Rightarrow> 's \<Rightarrow> nat \<times> 's" where
  "write_whole_blocks dev start_block written data s =
     (let bs = bd_block_size dev;
          data_blocks = length data div bs;
          (blocks_written, s2) = (if data_blocks \<noteq> 0
             then bd_write dev start_block data_blocks data s else (0, s));
          written1 = written + blocks_written * bs
      in if data_blocks \<noteq> 0 \<and> blocks_written \<noteq> data_blocks then (written1, s2)
         else if length data mod bs \<noteq> 0
         then (case blockdev_write_unaligned dev (start_block + data_blocks) 0
                      (drop (data_blocks * bs) data) (length data mod bs) s2 of
                 (n, s3) \<Rightarrow> (written1 + n, s3))
         else (written1, s2))"

definition blockdev_write_bytes ::
  "'s blockdev \<Rightarrow> nat \<Rightarrow> u8 list \<Rightarrow> 's \<Rightarrow> nat \<times> 's" where
  "blockdev_write_bytes dev addr data s =
     (let bs = bd_block_size dev;
          start_block = addr div bs;
          offset = addr mod bs
      in if offset \<noteq> 0
         then case blockdev_write_unaligned dev start_block offset data (length data) s of
                (written, s1) \<Rightarrow>
                if written = 0 \<or> length data - written = 0 then (written, s1)
                else write_whole_blocks dev (start_block + 1) written (drop written data) s1
         else write_whole_blocks dev start_block 0 data s)"

text \<open>
  The global lists of devices and of controllers. Both belong to the state \<open>'s\<close> that the drivers
  work on; a controller that needs it is asked to update the lists first.
\<close>

record 's blockdev_ctrlr =
  bc_update :: "('s \<Rightarrow> int \<times> 's) option"
  bc_need_update :: "'s \<Rightarrow> bool"

record 's blockdev_lists =
  block_devices :: "'s \<Rightarrow> 's blockdev list"
  block_dev_controllers :: "'s blockdev_ctrlr list"

definition update_ctrlr :: "'s blockdev_ctrlr \<Rightarrow> 's \<Rightarrow> 's" where
  "update_ctrlr ctrlr s =
     (case bc_update ctrlr of
        None \<Rightarrow> s
      | Some update \<Rightarrow> if bc_need_update ctrlr s then snd (update s) else s)"

definition get_all_bdevs :: "'s blockdev_lists \<Rightarrow> 's \<Rightarrow> nat \<times> 's blockdev list \<times> 's" where
  "get_all_bdevs bl s =
     (let s = fold update_ctrlr (block_dev_controllers bl) s
      in (length (block_devices bl s), block_devices bl s, s))"

section \<open>Slices of a block device (\<open>src/drivers/storage/slice.c\<close>)\<close>

definition is_out_of_bounds :: "nat \<Rightarrow> nat \<Rightarrow> nat \<Rightarrow> bool" where
  "is_out_of_bounds block_count start count \<longleftrightarrow> start > block_count \<or> count > block_count - start"

definition slice_read ::
  "'s blockdev \<Rightarrow> nat \<Rightarrow> nat \<Rightarrow> nat \<Rightarrow> nat \<Rightarrow> 's \<Rightarrow> nat \<times> u8 list \<times> 's" where
  "slice_read parent_dev offset block_count start count s =
     (if is_out_of_bounds block_count start count then (0, [], s)
      else bd_read parent_dev (add64 start offset) count s)"

definition slice_write ::
  "'s blockdev \<Rightarrow> nat \<Rightarrow> nat \<Rightarrow> nat \<Rightarrow> nat \<Rightarrow> u8 list \<Rightarrow> 's \<Rightarrow> nat \<times> 's" where
  "slice_write parent_dev offset block_count start count buffer s =
     (if is_out_of_bounds block_count start count then (0, s)
      else bd_write parent_dev (add64 start offset) count buffer s)"

definition slice_erase ::
  "(nat \<Rightarrow> nat \<Rightarrow> 's \<Rightarrow> nat \<times> 's) \<Rightarrow> nat \<Rightarrow> nat \<Rightarrow> nat \<Rightarrow> nat \<Rightarrow> 's \<Rightarrow> nat \<times> 's" where
  "slice_erase parent_erase offset block_count start count s =
     (if is_out_of_bounds block_count start count then (0, s)
      else parent_erase (add64 start offset) count s)"

definition slice_new_stream ::
  "(nat \<Rightarrow> nat \<Rightarrow> simple_stream option) \<Rightarrow> nat \<Rightarrow> nat \<Rightarrow> nat \<Rightarrow> nat \<Rightarrow> simple_stream option" where
  "slice_new_stream parent_new_stream offset block_count start count =
     (if is_out_of_bounds block_count start count then None
      else parent_new_stream (add64 start offset) count)"

definition new_blockdev_slice :: "'s blockdev \<Rightarrow> nat \<Rightarrow> nat \<Rightarrow> 's blockdev option" where
  "new_blockdev_slice parent offset sz =
     (if offset > bd_block_count parent \<or> sz > bd_block_count parent - offset then None
      else Some \<lparr>bd_read = slice_read parent offset sz,
                 bd_write = slice_write parent offset sz,
                 bd_erase = map_option (\<lambda>e. slice_erase e offset sz) (bd_erase parent),
                 bd_new_stream = map_option (\<lambda>n. slice_new_stream n offset sz) (bd_new_stream parent),
                 bd_block_size = bd_block_size parent,
                 bd_block_count = sz\<rparr>)"

section \<open>The driver contract\<close>

text \<open>The first \<open>n\<close> bytes of the little-endian fill pattern, repeated.\<close>

definition fill_bytes :: "nat \<Rightarrow> u32 \<Rightarrow> u8 list" where
  "fill_bytes n p = map (\<lambda>i. le32_bytes p ! (i mod 4)) [0..<n]"

lemma length_fill_bytes [simp]: "length (fill_bytes n p) = n"
  by (simp add: fill_bytes_def)

lemma fill_bytes_append: "4 dvd m \<Longrightarrow> fill_bytes (m + n) p = fill_bytes m p @ fill_bytes n p"
proof (rule nth_equalityI)
  fix i assume m: "4 dvd m" and i: "i < length (fill_bytes (m + n) p)"
  have "(i - m) mod 4 = i mod 4" if "m \<le> i"
    using m that by (metis add_diff_cancel_left' dvd_def le_Suc_ex mod_mult_self4)
  then show "fill_bytes (m + n) p ! i = (fill_bytes m p @ fill_bytes n p) ! i"
    using i by (auto simp: fill_bytes_def nth_append)
qed simp

lemma fill_buffer_bytes: "fill_buffer w p = fill_bytes (4 * w) p"
proof (induction w)
  case (Suc w)
  have "le32_bytes p = fill_bytes 4 p" by (simp add: fill_bytes_def le32_bytes_def upt_rec)
  then show ?case using Suc fill_bytes_append [of 4 "4 * w" p] by (simp add: fill_buffer_def)
qed (simp add: fill_buffer_def fill_bytes_def)

lemma length_fill_buffer [simp]: "length (fill_buffer w p) = 4 * w"
  by (simp add: fill_buffer_bytes)

lemma take_fill_buffer: "n \<le> 4 * w \<Longrightarrow> take n (fill_buffer w p) = fill_bytes n p"
  by (simp add: fill_buffer_bytes fill_bytes_def take_map)

definition blockdev_ok :: "'s blockdev \<Rightarrow> ('s \<Rightarrow> u8 list) \<Rightarrow> bool" where
  "blockdev_ok dev content \<longleftrightarrow>
     0 < bd_block_size dev \<and> bd_block_size dev * bd_block_count dev + bd_block_size dev \<le> 2 ^ 64 \<and>
     (\<forall>s. length (content s) = bd_block_size dev * bd_block_count dev) \<and>
     (\<forall>s start n. start + n \<le> bd_block_count dev \<longrightarrow>
        (\<exists>s'. bd_read dev start n s =
           (n, bslice (start * bd_block_size dev) (n * bd_block_size dev) (content s), s') \<and>
           content s' = content s)) \<and>
     (\<forall>s start n buf. start + n \<le> bd_block_count dev \<and> n * bd_block_size dev \<le> length buf \<longrightarrow>
        (\<exists>s'. bd_write dev start n buf s = (n, s') \<and>
           content s' = memcpy_at (content s) (start * bd_block_size dev)
                          (take (n * bd_block_size dev) buf)))"

text \<open>The byte position of a stream, and its invariant on a device with the given content: what is left
  in the block buffer is the rest of the current sector.\<close>

definition stream_pos :: "nat \<Rightarrow> simple_stream \<Rightarrow> nat" where
  "stream_pos bs st = current_sector st * bs + (if buf_used st < bs then buf_used st else 0)"

definition stream_inv :: "'s blockdev \<Rightarrow> u8 list \<Rightarrow> simple_stream \<Rightarrow> bool" where
  "stream_inv dev c st \<longleftrightarrow>
     current_sector st \<le> end_sector st \<and> end_sector st \<le> bd_block_count dev \<and>
     (buf_used st < bd_block_size dev \<longrightarrow> current_sector st < end_sector st \<and>
        block_buf st = bslice (current_sector st * bd_block_size dev) (bd_block_size dev) c)"

text \<open>The contract as an interface, with what the byte-granular operations rely on.\<close>

locale block_device =
  fixes dev :: "'s blockdev" and content :: "'s \<Rightarrow> u8 list"
  assumes ok: "blockdev_ok dev content"
begin

abbreviation "bs \<equiv> bd_block_size dev"
abbreviation "cap \<equiv> bd_block_size dev * bd_block_count dev"

lemma bs_pos: "0 < bs" and cap_bs_le: "cap + bs \<le> 2 ^ 64"
    and length_content [simp]: "length (content s) = cap"
  using ok by (auto simp: blockdev_ok_def)

lemma cap_less: "cap < 2 ^ 64"
  using bs_pos cap_bs_le by linarith

lemma read_ok:
  assumes "start + n \<le> bd_block_count dev"
  obtains s' where "bd_read dev start n s = (n, bslice (start * bs) (n * bs) (content s), s')"
    and "content s' = content s"
  using ok assms unfolding blockdev_ok_def by blast

lemma write_ok:
  assumes "start + n \<le> bd_block_count dev" and "n * bs \<le> length buf"
  obtains s' where "bd_write dev start n buf s = (n, s')"
    and "content s' = memcpy_at (content s) (start * bs) (take (n * bs) buf)"
  using ok assms unfolding blockdev_ok_def by blast

lemma block_end_le: "lba < bd_block_count dev \<Longrightarrow> lba * bs + bs \<le> cap"
  using mult_le_mono1 [of "Suc lba" "bd_block_count dev" bs] by (simp add: ac_simps)

lemma blocks_end_le: "a + n \<le> bd_block_count dev \<Longrightarrow> a * bs + n * bs \<le> cap"
  using mult_le_mono1 [of "a + n" "bd_block_count dev" bs] by (simp add: algebra_simps)

lemma block_less: "a + n \<le> cap \<Longrightarrow> 0 < n \<Longrightarrow> a div bs < bd_block_count dev"
  using bs_pos by (simp add: less_mult_imp_div_less mult.commute)

lemma write_unaligned_ok:
  assumes "lba < bd_block_count dev" and "off < bs" and "min (bs - off) len \<le> length data"
  obtains s' where
    "blockdev_write_unaligned dev lba off data len s = (min (bs - off) len, s')"
    and "content s' = memcpy_at (content s) (lba * bs + off) (take (min (bs - off) len) data)"
proof -
  let ?n = "min (bs - off) len"
  obtain s1 where r: "bd_read dev lba 1 s = (1, bslice (lba * bs) (1 * bs) (content s), s1)"
    and c1: "content s1 = content s"
    using read_ok [of lba 1 s] assms(1) by auto
  let ?blk = "memcpy_at (bslice (lba * bs) bs (content s)) off (take ?n data)"
  have e: "lba * bs + bs \<le> cap" using block_end_le assms(1) .
  then have lb: "length (bslice (lba * bs) bs (content s)) = bs" by (simp add: bslice_def)
  then have lblk: "length ?blk = bs" using assms(2) by (simp add: memcpy_at_def)
  obtain s2 where w: "bd_write dev lba 1 ?blk s1 = (1, s2)"
    and c2: "content s2 = memcpy_at (content s1) (lba * bs) (take (1 * bs) ?blk)"
    using write_ok [of lba 1 ?blk s1] assms(1) lblk by auto
  have "content s2 = memcpy_at (content s) (lba * bs + off) (take ?n data)"
    using c1 c2 lblk e assms(2,3) by (simp add: memcpy_at_block)
  with r w that show thesis by (simp add: blockdev_write_unaligned_def)
qed

lemma write_whole_blocks_ok:
  assumes "sb * bs + length data \<le> cap"
  obtains s' where "write_whole_blocks dev sb w data s = (w + length data, s')"
    and "content s' = memcpy_at (content s) (sb * bs) data"
proof -
  define k where "k = length data div bs"
  define m where "m = length data mod bs"
  have len: "length data = k * bs + m" by (simp add: k_def m_def)
  have m: "m < bs" using bs_pos by (simp add: m_def)
  have "(sb + k) * bs \<le> cap" using assms len by (simp add: algebra_simps)
  then have kc: "sb + k \<le> bd_block_count dev" using bs_pos by (simp add: mult.commute)
  have "\<exists>s2. (if k \<noteq> 0 then bd_write dev sb k data s else (0, s)) = (k, s2) \<and>
      content s2 = memcpy_at (content s) (sb * bs) (take (k * bs) data)"
  proof (cases "k = 0")
    case False
    have "k * bs \<le> length data" using len by simp
    then show ?thesis using write_ok [OF kc] False by (metis (full_types))
  qed simp
  then obtain s2 where s2: "(if k \<noteq> 0 then bd_write dev sb k data s else (0, s)) = (k, s2)"
    and c2: "content s2 = memcpy_at (content s) (sb * bs) (take (k * bs) data)" by blast
  have unf: "write_whole_blocks dev sb w data s =
      (if m \<noteq> 0 then case blockdev_write_unaligned dev (sb + k) 0 (drop (k * bs) data) m s2 of
                        (n, s3) \<Rightarrow> (w + k * bs + n, s3)
       else (w + k * bs, s2))"
    unfolding write_whole_blocks_def Let_def k_def [symmetric] m_def [symmetric] s2 by simp
  show thesis
  proof (cases "m = 0")
    case True
    with c2 len unf show ?thesis by (intro that [of s2]) simp_all
  next
    case False
    have "(sb + k) * bs + m \<le> cap" using assms len by (simp add: algebra_simps)
    then have lt: "sb + k < bd_block_count dev"
      using block_less [of "(sb + k) * bs" m] False bs_pos by simp
    have mle: "min (bs - 0) m \<le> length (drop (k * bs) data)" using len by simp
    obtain s3 where u: "blockdev_write_unaligned dev (sb + k) 0 (drop (k * bs) data) m s2
        = (min (bs - 0) m, s3)"
      and c3: "content s3 = memcpy_at (content s2) ((sb + k) * bs + 0)
        (take (min (bs - 0) m) (drop (k * bs) data))"
      by (rule write_unaligned_ok [OF lt bs_pos mle])
    have "memcpy_at (memcpy_at (content s) (sb * bs) (take (k * bs) data)) (sb * bs + k * bs)
        (drop (k * bs) data) = memcpy_at (content s) (sb * bs) data"
      using memcpy_at_append [of "sb * bs" "take (k * bs) data" "drop (k * bs) data" "content s"]
        assms len by simp
    with c2 c3 len m have "content s3 = memcpy_at (content s) (sb * bs) data"
      by (simp add: algebra_simps)
    with unf u False len m show ?thesis by (intro that [of s3]) simp_all
  qed
qed

lemma write_bytes_ok:
  assumes "addr + length data \<le> cap"
  obtains s' where "blockdev_write_bytes dev addr data s = (length data, s')"
    and "content s' = memcpy_at (content s) addr data"
proof (cases "addr mod bs = 0")
  case True
  then have a: "addr div bs * bs = addr" by auto
  obtain s' where "write_whole_blocks dev (addr div bs) 0 data s = (0 + length data, s')"
    and "content s' = memcpy_at (content s) (addr div bs * bs) data"
    using a assms by (auto intro: write_whole_blocks_ok [of "addr div bs" data 0 s])
  with True a show ?thesis
    by (intro that [of s']) (simp_all add: blockdev_write_bytes_def Let_def)
next
  case False
  let ?b = "addr div bs" and ?o = "addr mod bs"
  define n where "n = min (bs - ?o) (length data)"
  have addr: "addr = ?b * bs + ?o" by simp
  have o: "?o < bs" using bs_pos by simp
  have "addr \<noteq> cap" using False by auto
  with assms have "addr + 1 \<le> cap" by linarith
  then have lt: "?b < bd_block_count dev" using block_less [of addr 1] by simp
  obtain s1 where u: "blockdev_write_unaligned dev ?b ?o data (length data) s = (n, s1)"
    and c1: "content s1 = memcpy_at (content s) addr (take n data)"
    using write_unaligned_ok [OF lt o min.cobounded2, of data s] addr unfolding n_def by metis
  show ?thesis
  proof (cases "n = 0 \<or> length data - n = 0")
    case True
    with o have "n = length data" unfolding n_def by linarith
    with True u c1 False show ?thesis
      by (intro that [of s1]) (simp_all add: blockdev_write_bytes_def Let_def)
  next
    case rest: False
    then have n: "n = bs - ?o" "n < length data" by (auto simp: n_def)
    then have e: "(?b + 1) * bs = addr + n"
      using o addr unfolding add_mult_distrib by linarith
    then have le: "(?b + 1) * bs + length (drop n data) \<le> cap" using assms n by simp
    obtain s' where w: "write_whole_blocks dev (?b + 1) n (drop n data) s1
        = (n + length (drop n data), s')"
      and c: "content s' = memcpy_at (content s1) ((?b + 1) * bs) (drop n data)"
      by (rule write_whole_blocks_ok [OF le])
    have "content s' = memcpy_at (content s) addr data"
      using memcpy_at_append [of addr "take n data" "drop n data" "content s"] assms n
      unfolding c c1 e by simp
    with w n u False rest show ?thesis
      by (intro that [of s']) (simp_all add: blockdev_write_bytes_def Let_def)
  qed
qed

lemma fill_write_loop_ok:
  assumes "todo + sb \<le> bd_block_count dev" and "0 < nb" and "4 dvd bs" and "nb * bs \<le> 4 * w"
  obtains s' where "fill_write_loop dev (fill_buffer w p) nb todo sb s = Some (0, sb + todo, True, s')"
    and "content s' = memcpy_at (content s) (sb * bs) (fill_bytes (todo * bs) p)"
  using assms(1)
proof (induction todo arbitrary: sb s thesis rule: less_induct)
  case (less todo)
  show ?case
  proof (cases "todo = 0")
    case True
    then show ?thesis by (intro less.prems(1) [of s]) (simp_all add: fill_write_loop.simps fill_bytes_def)
  next
    case False
    define k where "k = min nb todo"
    have k: "0 < k" "k \<le> nb" "k \<le> todo" using False assms(2) by (auto simp: k_def)
    have kb: "k * bs \<le> 4 * w" using mult_le_mono1 [OF k(2)] assms(4) le_trans by blast
    have end_le: "sb + k \<le> bd_block_count dev" using less.prems(2) k by simp
    have buf_le: "k * bs \<le> length (fill_buffer w p)" using kb by simp
    obtain s1 where w1: "bd_write dev sb k (fill_buffer w p) s = (k, s1)"
      and c1: "content s1 = memcpy_at (content s) (sb * bs) (take (k * bs) (fill_buffer w p))"
      by (rule write_ok [OF end_le buf_le])
    have small: "bd_block_count dev < 2 ^ 64"
      using cap_less bs_pos by (cases bs) (auto simp: algebra_simps)
    obtain s' where w2: "fill_write_loop dev (fill_buffer w p) nb (todo - k) (sb + k) s1
        = Some (0, sb + k + (todo - k), True, s')"
      and c2: "content s' = memcpy_at (content s1) ((sb + k) * bs) (fill_bytes ((todo - k) * bs) p)"
      using less.IH [of "todo - k" "sb + k" s1] less.prems(2) k by auto
    have "sub64 todo k = todo - k" and "add64 sb k = sb + k"
      using small less.prems(2) k by (simp_all add: sub64_id add64_id)
    with w1 w2 False k have "fill_write_loop dev (fill_buffer w p) nb todo sb s =
        Some (0, sb + todo, True, s')"
      by (subst fill_write_loop.simps) (simp add: k_def [symmetric] Let_def)
    moreover have "content s' = memcpy_at (content s) (sb * bs) (fill_bytes (todo * bs) p)"
    proof -
      have "fill_bytes (todo * bs) p = fill_bytes (k * bs) p @ fill_bytes ((todo - k) * bs) p"
        using fill_bytes_append [of "k * bs" "(todo - k) * bs" p] assms(3) k
        by (simp add: add_mult_distrib [symmetric])
      moreover have "sb * bs + k * bs + (todo - k) * bs \<le> cap"
        using blocks_end_le [of sb todo] less.prems(2) k
        by (simp add: add_mult_distrib [symmetric] add.assoc add.commute)
      ultimately show ?thesis
        using memcpy_at_append [of "sb * bs" "fill_bytes (k * bs) p" "fill_bytes ((todo - k) * bs) p"
            "content s"] c1 c2 kb
        by (simp add: take_fill_buffer add_mult_distrib)
    qed
    ultimately show ?thesis by (rule less.prems(1))
  qed
qed

lemma fill_whole_blocks_ok:
  assumes le: "sb * bs + count \<le> cap" and bs4: "4 dvd bs"
    and buf: "min count bs \<le> 4 * w" and nb: "bs \<le> count \<longrightarrow> 0 < nb" and nbw: "nb * bs \<le> 4 * w"
  obtains s' where "fill_whole_blocks dev (fill_buffer w p) nb sb written count s
      = Some (written + count, s')"
    and "content s' = memcpy_at (content s) (sb * bs) (fill_bytes count p)"
proof -
  define k where "k = count div bs"
  define m where "m = count mod bs"
  have len: "count = k * bs + m" by (simp add: k_def m_def)
  have m: "m < bs" using bs_pos by (simp add: m_def)
  have "(sb + k) * bs \<le> cap" using le len by (simp add: algebra_simps)
  then have kc: "k + sb \<le> bd_block_count dev" using bs_pos by (simp add: mult.commute add.commute)
  obtain s2 where s2: "fill_write_loop dev (fill_buffer w p) nb k sb s = Some (0, sb + k, True, s2)"
    and c2: "content s2 = memcpy_at (content s) (sb * bs) (fill_bytes (k * bs) p)"
  proof (cases "k = 0")
    case True
    then show ?thesis by (intro that [of s]) (simp_all add: fill_write_loop.simps fill_bytes_def)
  next
    case False
    then have "0 < nb" using nb bs_pos by (simp add: k_def div_greater_zero_iff)
    then show ?thesis by (rule fill_write_loop_ok [OF kc _ bs4 nbw]) (rule that)
  qed
  have unf: "fill_whole_blocks dev (fill_buffer w p) nb sb written count s =
      (if m \<noteq> 0 then case blockdev_write_unaligned dev (sb + k) 0 (fill_buffer w p) m s2 of
                        (n, s3) \<Rightarrow> Some (written + k * bs + n, s3)
       else Some (written + k * bs, s2))"
    unfolding fill_whole_blocks_def Let_def k_def [symmetric] m_def [symmetric] s2 by simp
  show thesis
  proof (cases "m = 0")
    case True
    with c2 len unf show ?thesis by (intro that [of s2]) simp_all
  next
    case False
    have le': "(sb + k) * bs + m \<le> cap" using le len by (simp add: algebra_simps)
    then have lt: "sb + k < bd_block_count dev"
      using block_less [of "(sb + k) * bs" m] False bs_pos by simp
    have mw: "m \<le> 4 * w" using buf m len by linarith
    then have mle: "min (bs - 0) m \<le> length (fill_buffer w p)" by simp
    obtain s3 where u: "blockdev_write_unaligned dev (sb + k) 0 (fill_buffer w p) m s2
        = (min (bs - 0) m, s3)"
      and c3: "content s3 = memcpy_at (content s2) ((sb + k) * bs + 0)
        (take (min (bs - 0) m) (fill_buffer w p))"
      by (rule write_unaligned_ok [OF lt bs_pos mle])
    have "content s3 = memcpy_at (content s) (sb * bs) (fill_bytes count p)"
      using memcpy_at_append [of "sb * bs" "fill_bytes (k * bs) p" "fill_bytes m p" "content s"]
        fill_bytes_append [of "k * bs" m p] c2 c3 m mw le' len bs4
      by (simp add: take_fill_buffer add_mult_distrib)
    with unf u False len m show ?thesis by (intro that [of s3]) simp_all
  qed
qed

lemma fill_write_bytes_ok:
  assumes le: "start + count \<le> cap" and al: "start mod 4 = 0" and bs4: "4 dvd bs"
    and bs_le: "bs \<le> 4 * MiB"
  obtains s' where "blockdev_fill_write_bytes dev start count p s = Some (count, s')"
    and "content s' = memcpy_at (content s) start (fill_bytes count p)"
proof (cases "count = 0")
  case True
  then show ?thesis
    by (intro that [of s]) (simp_all add: blockdev_fill_write_bytes_def Let_def fill_bytes_def)
next
  case False
  define w where "w = min (4 * MiB) (align_down (add64 count 3) 4) div 4"
  obtain j where j: "bs = 4 * j" using bs4 by (elim dvdE)
  have "count + 3 < 2 ^ 64" using le cap_less j by simp
  then have a64: "add64 count 3 = count + 3" by (simp add: add64_def)
  have w4: "4 * w = min (4 * MiB) (align_down (count + 3) 4)"
    by (simp add: w_def a64 align_down_def MiB_def min_def)
  have cw: "min count bs \<le> 4 * w" "min count (4 * MiB) \<le> 4 * w"
    using bs_le align_up_ge [of 4 count] unfolding w4 align_up_def by (simp_all add: min_def)
  define nb where "nb = 4 * w div bs"
  have nbw: "nb * bs \<le> 4 * w" by (simp add: nb_def)
  have nb: "0 < nb" if "bs \<le> n" "n \<le> count" for n
    using that cw bs_pos by (simp add: nb_def div_greater_zero_iff)
  note unf = blockdev_fill_write_bytes_def [of dev start count p s, unfolded Let_def,
      unfolded a64 w4 [symmetric], folded nb_def] 
  show ?thesis
  proof (cases "start mod bs = 0")
    case True
    then have a: "start div bs * bs = start" by auto
    obtain s' where "fill_whole_blocks dev (fill_buffer w p) nb (start div bs) 0 count s
        = Some (0 + count, s')"
      and "content s' = memcpy_at (content s) (start div bs * bs) (fill_bytes count p)"
      using a le nb [OF _ order.refl]
      by (auto intro: fill_whole_blocks_ok [OF _ bs4 cw(1) _ nbw, of "start div bs" p 0 s])
    with True a False al show ?thesis by (intro that [of s']) (simp_all add: unf)
  next
    case off: False
    let ?b = "start div bs" and ?o = "start mod bs"
    define n where "n = min (bs - ?o) count"
    have addr: "start = ?b * bs + ?o" by simp
    have o: "?o < bs" using bs_pos by simp
    have lt: "?b < bd_block_count dev" using block_less [of start count] le False by simp
    have nw: "n \<le> 4 * w" using cw unfolding n_def by linarith
    then have "min (bs - ?o) count \<le> length (fill_buffer w p)" by (simp add: n_def)
    from write_unaligned_ok [OF lt o this, of s] obtain s1 where
      u: "blockdev_write_unaligned dev ?b ?o (fill_buffer w p) count s = (n, s1)"
      and c1: "content s1 = memcpy_at (content s) start (fill_bytes n p)"
      using addr nw unfolding n_def by (metis take_fill_buffer)
    have n0: "n \<noteq> 0" using False o by (simp add: n_def)
    show ?thesis
    proof (cases "count - n = 0")
      case True
      then have "n = count" unfolding n_def by linarith
      with True u c1 False off al show ?thesis by (intro that [of s1]) (simp_all add: unf)
    next
      case rest: False
      then have n: "n = bs - ?o" "n < count" unfolding n_def by linarith+
      then have e: "(?b + 1) * bs = start + n"
        using o addr unfolding add_mult_distrib by linarith
      have n4: "4 dvd n" using n(1) bs4 al by (auto simp: dvd_mod mod_eq_0_iff_dvd intro!: dvd_diff_nat)
      have le': "(?b + 1) * bs + (count - n) \<le> cap" using le n e by simp
      have b': "min (count - n) bs \<le> 4 * w" using cw(1) by linarith
      have nb': "bs \<le> count - n \<longrightarrow> 0 < nb" using nb [of "count - n"] by simp
      obtain s' where w: "fill_whole_blocks dev (fill_buffer w p) nb (?b + 1) n (count - n) s1
          = Some (n + (count - n), s')"
        and c: "content s' = memcpy_at (content s1) ((?b + 1) * bs) (fill_bytes (count - n) p)"
        by (rule fill_whole_blocks_ok [OF le' bs4 b' nb' nbw])
      have "content s' = memcpy_at (content s) start (fill_bytes count p)"
        using memcpy_at_append [of start "fill_bytes n p" "fill_bytes (count - n) p" "content s"]
          fill_bytes_append [OF n4, of "count - n" p] le n
        unfolding c c1 e by simp
      with w n n0 u off False rest al show ?thesis by (intro that [of s']) (simp_all add: unf)
    qed
  qed
qed

lemma count_small: "bd_block_count dev < 2 ^ 64"
  using cap_less bs_pos by (cases bs) (auto simp: algebra_simps)

lemma stream_read_head_ok:
  fixes count st
  defines "n \<equiv> (if buf_used st < bs then min count (bs - buf_used st) else 0)"
  assumes inv: "stream_inv dev c st"
  shows "\<exists>b st1. stream_read_head dev hb count st = (n, b, st1) \<and>
    b = (if hb then bslice (stream_pos bs st) n c else []) \<and> stream_inv dev c st1 \<and>
    stream_pos bs st1 = stream_pos bs st + n \<and> end_sector st1 = end_sector st \<and> n \<le> count \<and>
    (n < count \<longrightarrow> \<not> buf_used st1 < bs)"
proof (cases "buf_used st < bs")
  case True
  then have cs: "current_sector st < end_sector st" "current_sector st < bd_block_count dev"
    and bb: "block_buf st = bslice (current_sector st * bs) bs c"
    using inv by (auto simp: stream_inv_def)
  then have "add64 (current_sector st) 1 = current_sector st + 1"
    using count_small by (simp add: add64_id)
  moreover have "bslice (buf_used st) n (block_buf st) = bslice (stream_pos bs st) n c"
    using True bb by (simp add: n_def bslice_def stream_pos_def take_drop min_def)
       (simp add: take_drop add.commute)
  ultimately show ?thesis
    using True cs inv by (auto simp: stream_read_head_def Let_def n_def stream_inv_def stream_pos_def)
next
  case False
  with inv show ?thesis by (auto simp: stream_read_head_def n_def bslice_def)
qed

lemma stream_read_tail_ok:
  assumes inv: "stream_inv dev (content s) st" and used: "\<not> buf_used st < bs" and lt: "count < bs"
    and le: "current_sector st * bs + count \<le> end_sector st * bs"
  obtains st' s' where "stream_read_tail dev hb br count buf st s =
      (br + count, buf @ (if hb then bslice (current_sector st * bs) count (content s) else []), st', s')"
    and "content s' = content s" and "stream_inv dev (content s') st'"
    and "stream_pos bs st' = current_sector st * bs + count" and "end_sector st' = end_sector st"
proof (cases "count = 0")
  case True
  with inv used show ?thesis
    by (intro that [of st s]) (simp_all add: stream_read_tail_def stream_pos_def bslice_def)
next
  case False
  with le have "current_sector st * bs < end_sector st * bs" by linarith
  then have cs: "current_sector st < end_sector st" by simp
  with inv have bc: "current_sector st + 1 \<le> bd_block_count dev" by (simp add: stream_inv_def)
  obtain s' where r: "bd_read dev (current_sector st) 1 s
      = (1, bslice (current_sector st * bs) (1 * bs) (content s), s')"
    and c: "content s' = content s" by (rule read_ok [OF bc])
  show ?thesis
    using r c cs inv False lt
    by (intro that [of "st\<lparr>block_buf := bslice (current_sector st * bs) bs (content s),
          buf_used := count\<rparr>" s'])
       (auto simp: stream_read_tail_def stream_inv_def stream_pos_def bslice_def min_def)
qed

lemma stream_read_sectors_ok:
  assumes inv: "stream_inv dev (content s) st" and used: "\<not> buf_used st < bs"
    and le: "current_sector st * bs + count \<le> end_sector st * bs"
  obtains st' s' where "stream_read_sectors dev hb br count buf st s =
      (br + count, buf @ (if hb then bslice (current_sector st * bs) count (content s) else []), st', s')"
    and "content s' = content s" and "stream_inv dev (content s') st'"
    and "stream_pos bs st' = current_sector st * bs + count" and "end_sector st' = end_sector st"
proof -
  define k where "k = count div bs"
  define m where "m = count mod bs"
  have len: "count = k * bs + m" by (simp add: k_def m_def)
  have m: "m < bs" using bs_pos by (simp add: m_def)
  have "(current_sector st + k) * bs \<le> end_sector st * bs" using le len by (simp add: algebra_simps)
  then have ke: "current_sector st + k \<le> end_sector st" using bs_pos by simp
  then have kc: "current_sector st + k \<le> bd_block_count dev" using inv by (simp add: stream_inv_def)
  have w: "sub64 (end_sector st) (current_sector st) = end_sector st - current_sector st"
    "add64 (current_sector st) k = current_sector st + k"
    using inv ke kc count_small by (simp_all add: stream_inv_def sub64_id add64_id)
  let ?d = "if hb then bslice (current_sector st * bs) (k * bs) (content s) else []"
  have "\<exists>s1. (if hb \<and> k > 0 then bd_read dev (current_sector st) k s else (k, [], s)) = (k, ?d, s1)
      \<and> content s1 = content s"
  proof (cases "hb \<and> k > 0")
    case True
    then show ?thesis by (auto intro: read_ok [OF kc, of s])
  next
    case False
    then show ?thesis by (auto simp: bslice_def)
  qed
  then obtain s1 where r: "(if hb \<and> k > 0 then bd_read dev (current_sector st) k s else (k, [], s))
      = (k, ?d, s1)" and c1: "content s1 = content s" by blast
  let ?st = "st\<lparr>current_sector := current_sector st + k\<rparr>"
  have "\<not> end_sector st - current_sector st < k" using ke by linarith
  then have unf: "stream_read_sectors dev hb br count buf st s =
      stream_read_tail dev hb (br + k * bs) m (buf @ ?d) ?st s1"
    using len unfolding stream_read_sectors_def Let_def k_def [symmetric] w r by simp
  have inv1: "stream_inv dev (content s1) ?st" using inv used ke by (simp add: stream_inv_def)
  have le1: "current_sector ?st * bs + m \<le> end_sector ?st * bs" using le len by (simp add: algebra_simps)
  have used1: "\<not> buf_used ?st < bs" using used by simp
  obtain st' s' where t: "stream_read_tail dev hb (br + k * bs) m (buf @ ?d) ?st s1 =
      (br + k * bs + m, (buf @ ?d) @ (if hb then bslice (current_sector ?st * bs) m (content s1) else []), st', s')"
    and i: "content s' = content s1" "stream_inv dev (content s') st'"
    "stream_pos bs st' = current_sector ?st * bs + m" "end_sector st' = end_sector ?st"
    by (rule stream_read_tail_ok [OF inv1 used1 m le1])
  show thesis
    using t i c1 len unf
    by (intro that [of st' s']) (simp_all add: bslice_append add_mult_distrib)
qed

lemma stream_read_ok:
  assumes inv: "stream_inv dev (content s) st"
    and le: "stream_pos bs st + count \<le> end_sector st * bs"
  obtains st' s' where "simple_stream_read dev hb count st s =
      (count, (if hb then bslice (stream_pos bs st) count (content s) else []), st', s')"
    and "content s' = content s" and "stream_inv dev (content s') st'"
    and "stream_pos bs st' = stream_pos bs st + count" and "end_sector st' = end_sector st"
proof -
  define n where "n = (if buf_used st < bs then min count (bs - buf_used st) else 0)"
  obtain b st1 where h: "stream_read_head dev hb count st = (n, b, st1)"
    and b: "b = (if hb then bslice (stream_pos bs st) n (content s) else [])"
    and inv1: "stream_inv dev (content s) st1" and p1: "stream_pos bs st1 = stream_pos bs st + n"
    and e1: "end_sector st1 = end_sector st" and n: "n \<le> count"
    and u1: "n < count \<Longrightarrow> \<not> buf_used st1 < bs"
    using stream_read_head_ok [OF inv, of hb count] unfolding n_def by metis
  show thesis
  proof (cases "count - n = 0")
    case True
    with n have "n = count" by simp
    with h b inv1 p1 e1 show ?thesis by (intro that [of st1 s]) (simp_all add: simple_stream_read_def)
  next
    case False
    then have u: "\<not> buf_used st1 < bs" using u1 by simp
    then have p: "stream_pos bs st1 = current_sector st1 * bs" by (simp add: stream_pos_def)
    then have le1: "current_sector st1 * bs + (count - n) \<le> end_sector st1 * bs"
      using le p1 e1 n by simp
    obtain st' s' where t: "stream_read_sectors dev hb n (count - n) b st1 s = (n + (count - n),
        b @ (if hb then bslice (current_sector st1 * bs) (count - n) (content s) else []), st', s')"
      and i: "content s' = content s" "stream_inv dev (content s') st'"
      "stream_pos bs st' = current_sector st1 * bs + (count - n)" "end_sector st' = end_sector st1"
      by (rule stream_read_sectors_ok [OF inv1 u le1])
    have "bslice (stream_pos bs st) n (content s) @ bslice (stream_pos bs st + n) (count - n) (content s)
        = bslice (stream_pos bs st) count (content s)"
      using n by (simp add: bslice_append)
    with t i h b p p1 e1 n False show ?thesis
      by (intro that [of st' s']) (simp_all add: simple_stream_read_def)
  qed
qed

end

section \<open>A slice of a good device is a good device\<close>

definition slice_content :: "'s blockdev \<Rightarrow> ('s \<Rightarrow> u8 list) \<Rightarrow> nat \<Rightarrow> nat \<Rightarrow> 's \<Rightarrow> u8 list" where
  "slice_content parent content offset sz s =
     bslice (offset * bd_block_size parent) (sz * bd_block_size parent) (content s)"

locale device_slice = block_device +
  fixes offset sz :: nat and sl :: "'a blockdev"
  assumes slice: "new_blockdev_slice dev offset sz = Some sl"
begin

lemma slice_fits: "offset + sz \<le> bd_block_count dev"
  using slice by (auto simp: new_blockdev_slice_def split: if_splits)

lemma slice_fields:
  "bd_read sl = slice_read dev offset sz" "bd_write sl = slice_write dev offset sz"
  "bd_block_size sl = bs" "bd_block_count sl = sz"
  using slice by (auto simp: new_blockdev_slice_def split: if_splits)

lemma in_bounds_iff: "is_out_of_bounds sz start n \<longleftrightarrow> \<not> start + n \<le> sz"
  by (auto simp: is_out_of_bounds_def)

lemma slice_shift: "start + n \<le> sz \<Longrightarrow> add64 start offset = offset + start \<and>
    offset + start + n \<le> bd_block_count dev"
  using slice_fits count_small by (simp add: add64_id add.commute)

lemma slice_bytes: "start + n \<le> sz \<Longrightarrow> start * bs + n * bs \<le> sz * bs"
  by (metis add_mult_distrib mult_le_mono1)

lemma slice_bytes_fit: "offset * bs + sz * bs \<le> cap"
  using blocks_end_le [OF slice_fits] .

lemma slice_read_content:
  assumes "start + n \<le> sz"
  shows "\<exists>s'. bd_read sl start n s =
      (n, bslice (start * bs) (n * bs) (slice_content dev content offset sz s), s') \<and>
    slice_content dev content offset sz s' = slice_content dev content offset sz s"
proof -
  obtain s' where "bd_read dev (offset + start) n s
      = (n, bslice ((offset + start) * bs) (n * bs) (content s), s')" and "content s' = content s"
    using slice_shift [OF assms] by (auto intro: read_ok [of "offset + start" n s])
  moreover have "bslice ((offset + start) * bs) (n * bs) (content s)
      = bslice (start * bs) (n * bs) (slice_content dev content offset sz s)"
    using slice_bytes [OF assms] by (simp add: slice_content_def bslice_bslice add_mult_distrib)
  ultimately show ?thesis
    using slice_shift [OF assms] assms
    by (simp add: slice_fields slice_read_def in_bounds_iff slice_content_def)
qed

lemma slice_write_parent:
  assumes "start + n \<le> sz" and "n * bs \<le> length buf"
  obtains s' where "bd_write sl start n buf s = (n, s')"
    and "content s' = memcpy_at (content s) ((offset + start) * bs) (take (n * bs) buf)"
  using slice_shift [OF assms(1)] assms
  by (auto simp: slice_fields slice_write_def in_bounds_iff intro: write_ok [of "offset + start" n buf s])

lemma slice_write_content:
  assumes "start + n \<le> sz" and "n * bs \<le> length buf"
  shows "\<exists>s'. bd_write sl start n buf s = (n, s') \<and> slice_content dev content offset sz s' =
    memcpy_at (slice_content dev content offset sz s) (start * bs) (take (n * bs) buf)"
proof -
  obtain s' where w: "bd_write sl start n buf s = (n, s')"
    and c: "content s' = memcpy_at (content s) ((offset + start) * bs) (take (n * bs) buf)"
    by (rule slice_write_parent [OF assms])
  have "slice_content dev content offset sz s' =
      memcpy_at (slice_content dev content offset sz s) (start * bs) (take (n * bs) buf)"
    using slice_bytes [OF assms(1)] slice_bytes_fit assms(2)
    by (simp add: slice_content_def c add_mult_distrib bslice_memcpy_at_inside)
  with w show ?thesis by blast
qed

lemma slice_good: "blockdev_ok sl (slice_content dev content offset sz)"
proof -
  have "bs * sz \<le> cap" using slice_fits by simp
  then have "bs * sz + bs \<le> 2 ^ 64" using cap_bs_le by linarith
  moreover have "length (slice_content dev content offset sz s) = bs * sz" for s
  proof -
    have "sz * bs \<le> cap - offset * bs" using slice_bytes_fit by linarith
    then show ?thesis by (simp add: slice_content_def mult.commute min_absorb1)
  qed
  ultimately show ?thesis
    using bs_pos slice_read_content slice_write_content
    unfolding blockdev_ok_def slice_fields by blast
qed

end

sublocale device_slice \<subseteq> sub: block_device sl "slice_content dev content offset sz"
  by unfold_locales (rule slice_good)

section \<open>A memory-backed device\<close>

text \<open>Concrete devices that meet the contract: \<open>n\<close> blocks of \<open>b\<close> bytes held in a list.\<close>

definition mem_content :: "nat \<Rightarrow> u8 list \<Rightarrow> u8 list" where
  "mem_content k s = take k (s @ replicate k 0)"

definition mem_dev :: "nat \<Rightarrow> nat \<Rightarrow> u8 list blockdev" where
  "mem_dev b c = \<lparr>bd_read = (\<lambda>start n s. if start + n \<le> c
                   then (n, bslice (start * b) (n * b) (mem_content (b * c) s), s) else (0, [], s)),
                 bd_write = (\<lambda>start n buf s. if start + n \<le> c
                   then (n, memcpy_at (mem_content (b * c) s) (start * b) (take (n * b) buf))
                   else (0, s)),
                 bd_erase = None, bd_new_stream = None, bd_block_size = b, bd_block_count = c\<rparr>"

lemma length_mem_content [simp]: "length (mem_content k s) = k"
  by (simp add: mem_content_def)

lemma mem_content_id: "length s = k \<Longrightarrow> mem_content k s = s"
  by (simp add: mem_content_def)

lemma mem_dev_ok:
  assumes "0 < b" and "b * c + b \<le> 2 ^ 64"
  shows "blockdev_ok (mem_dev b c) (mem_content (b * c))"
proof -
  have "start * b + n * b \<le> b * c" if "start + n \<le> c" for start n
    using mult_le_mono1 [OF that, of b] by (simp add: algebra_simps)
  then have "mem_content (b * c) (memcpy_at (mem_content (b * c) s) (start * b) (take (n * b) buf)) =
      memcpy_at (mem_content (b * c) s) (start * b) (take (n * b) buf)"
    if "start + n \<le> c" "n * b \<le> length buf" for start n s buf
    using that by (intro mem_content_id) simp
  with assms show ?thesis by (simp add: blockdev_ok_def mem_dev_def)
qed

definition ram_content :: "u8 list \<Rightarrow> u8 list" where
  "ram_content = mem_content 16"

definition ram_dev :: "u8 list blockdev" where
  "ram_dev = mem_dev 4 4"

lemma ram_dev_ok: "blockdev_ok ram_dev ram_content"
  using mem_dev_ok [of 4 4] by (simp add: ram_dev_def ram_content_def)

lemma ram_dev_simps [simp]:
  "bd_block_size ram_dev = 4" "bd_block_count ram_dev = 4" "bd_erase ram_dev = None"
  "ram_content [] = [0, 0, 0, 0, 0, 0, 0, 0, 0, 0, 0, 0, 0, 0, 0, 0]"
  by (simp_all add: ram_dev_def mem_dev_def ram_content_def mem_content_def numeral_eq_Suc)

interpretation ram: block_device ram_dev ram_content
  by unfold_locales (rule ram_dev_ok)

interpretation ram_slice: device_slice ram_dev ram_content 1 2
  "the (new_blockdev_slice ram_dev 1 2)"
  by unfold_locales (simp add: new_blockdev_slice_def)

section \<open>Properties\<close>

text \<open>
  C11. On a device that meets the driver contract, with blocks of less than \<open>2 ^ 31\<close> bytes, \<open>blockdev_write_bytes\<close> with any byte range inside
  the device writes exactly the data at that address, keeps every other byte (the rest of the
  partial first and last blocks included) and reports the whole length.
\<close>

theorem blockdev_write_bytes_exact:
  assumes "blockdev_ok dev content"
    and "addr + length data \<le> bd_block_size dev * bd_block_count dev"
  shows "\<exists>s'. blockdev_write_bytes dev addr data s = (length data, s') \<and>
    content s' = memcpy_at (content s) addr data"
  by (rule block_device.write_bytes_ok [OF block_device.intro [OF assms(1)] assms(2)]) blast

theorem blockdev_write_bytes_exact_witness:
  "\<exists>s'. blockdev_write_bytes ram_dev 3 [1, 2, 3, 4, 5, 6] [] = (6, s') \<and>
    ram_content s' = [0, 0, 0, 1, 2, 3, 4, 5, 6, 0, 0, 0, 0, 0, 0, 0]"
  using blockdev_write_bytes_exact [OF ram_dev_ok, of 3 "[1, 2, 3, 4, 5, 6]" "[]"]
  by (simp add: memcpy_at_def eval_nat_numeral)

text \<open>
  C12. \<open>blockdev_fill_write_bytes\<close> on a 4-byte aligned range inside a device whose block size is a
  multiple of four and at most the 4 MiB fill buffer ends, reports the whole range, and leaves it
  filled with the repeated pattern and the rest of the device unchanged.
\<close>

theorem blockdev_fill_write_bytes_fills:
  assumes "blockdev_ok dev content"
    and "start + count \<le> bd_block_size dev * bd_block_count dev" and "start mod 4 = 0"
    and "4 dvd bd_block_size dev" and "bd_block_size dev \<le> 4 * MiB"
  shows "\<exists>s'. blockdev_fill_write_bytes dev start count p s = Some (count, s') \<and>
    content s' = memcpy_at (content s) start (map (\<lambda>i. le32_bytes p ! (i mod 4)) [0..<count])"
  using block_device.fill_write_bytes_ok [OF block_device.intro [OF assms(1)] assms(2-5), of p s]
  unfolding fill_bytes_def by blast

theorem blockdev_fill_write_bytes_fills_witness:
  "\<exists>s'. blockdev_fill_write_bytes ram_dev 4 7 0x04030201 [] = Some (7, s') \<and>
    ram_content s' = [0, 0, 0, 0, 1, 2, 3, 4, 1, 2, 3, 0, 0, 0, 0, 0]"
proof -
  have "le32_bytes 0x04030201 = [1, 2, 3, 4]" by code_simp
  then show ?thesis
    using blockdev_fill_write_bytes_fills [OF ram_dev_ok, of 4 7 "0x04030201" "[]"]
    by (simp add: memcpy_at_def MiB_def upt_rec)
qed

text \<open>
  A stream read of a number of bytes that the stream still has returns exactly the bytes of the
  device at the stream position, whatever blocks they span and whatever was left in the block
  buffer, advances the position by that number, and keeps the stream invariant; with no buffer
  (\<open>simple_stream_skip\<close>) it only advances.
\<close>

theorem simple_stream_read_is_sequential:
  assumes "blockdev_ok dev content" and "stream_inv dev (content s) st"
    and "stream_pos (bd_block_size dev) st + count \<le> end_sector st * bd_block_size dev"
  shows "\<exists>st' s'. simple_stream_read dev has_buffer count st s =
      (count, (if has_buffer then bslice (stream_pos (bd_block_size dev) st) count (content s)
               else []), st', s') \<and>
    content s' = content s \<and> stream_inv dev (content s') st' \<and>
    stream_pos (bd_block_size dev) st' = stream_pos (bd_block_size dev) st + count \<and>
    end_sector st' = end_sector st"
  by (rule block_device.stream_read_ok [OF block_device.intro [OF assms(1)] assms(2,3)]) blast

theorem simple_stream_read_is_sequential_witness:
  "\<exists>st' s'. simple_stream_read ram_dev True 7
      \<lparr>current_sector = 1, end_sector = 4, block_buf = [5, 6, 7, 8], buf_used = 1\<rparr>
      [1, 2, 3, 4, 5, 6, 7, 8, 9, 10, 11, 12, 13, 14, 15, 16] =
    (7, [6, 7, 8, 9, 10, 11, 12], st', s') \<and> stream_pos 4 st' = 12"
  using simple_stream_read_is_sequential [OF ram_dev_ok, of
      "[1, 2, 3, 4, 5, 6, 7, 8, 9, 10, 11, 12, 13, 14, 15, 16]"
      "\<lparr>current_sector = 1, end_sector = 4, block_buf = [5, 6, 7, 8], buf_used = 1\<rparr>" 7 True]
  by (auto simp: ram_content_def mem_content_id stream_inv_def stream_pos_def bslice_def)

text \<open>
  C14. A slice of a good device is itself a good device of the slice's size over the slice's bytes of
  the parent; a write through it changes only the parent blocks at the slice's offset, and a read
  or write that leaves the slice is refused without touching the parent.
\<close>

theorem blockdev_slice_confined:
  assumes "blockdev_ok dev content" and "new_blockdev_slice dev offset sz = Some sl"
    and "start < 2 ^ 64" and "n < 2 ^ 64" and "n * bd_block_size dev \<le> length buf"
  shows "blockdev_ok sl (slice_content dev content offset sz) \<and> bd_block_count sl = sz \<and>
    (if start + n \<le> sz
     then \<exists>s'. bd_write sl start n buf s = (n, s') \<and>
            content s' = memcpy_at (content s) ((offset + start) * bd_block_size dev)
                           (take (n * bd_block_size dev) buf)
     else bd_write sl start n buf s = (0, s) \<and> bd_read sl start n s = (0, [], s))"
proof -
  have sl: "device_slice dev content offset sz sl"
    using assms(1,2) by (simp add: device_slice_def block_device_def device_slice_axioms_def)
  note facts = device_slice.slice_good [OF sl] device_slice.slice_fields [OF sl]
    device_slice.in_bounds_iff [OF sl]
  show ?thesis
  proof (cases "start + n \<le> sz")
    case True
    obtain s' where "bd_write sl start n buf s = (n, s')"
      and "content s' = memcpy_at (content s) ((offset + start) * bd_block_size dev)
             (take (n * bd_block_size dev) buf)"
      by (rule device_slice.slice_write_parent [OF sl True assms(5)])
    with True facts show ?thesis by auto
  next
    case False
    then show ?thesis using facts by (simp add: slice_read_def slice_write_def)
  qed
qed

theorem blockdev_slice_confined_witness:
  "\<exists>s'. bd_write (the (new_blockdev_slice ram_dev 1 2)) 1 1 [7, 8, 9, 10] [] = (1, s') \<and>
    ram_content s' = [0, 0, 0, 0, 0, 0, 0, 0, 7, 8, 9, 10, 0, 0, 0, 0]"
proof -
  have "new_blockdev_slice ram_dev 1 2 = Some (the (new_blockdev_slice ram_dev 1 2))"
    by (simp add: new_blockdev_slice_def)
  from blockdev_slice_confined [OF ram_dev_ok this, of 1 1 "[7, 8, 9, 10]" "[]"]
  show ?thesis by (auto simp: memcpy_at_def)
qed

end
