(* ===== verification/Sparse.thy ===== *)
theory Sparse
  imports Block_Dev
begin

text \<open>
  \<open>src/base/sparse.c\<close>: unpacking an Android sparse image onto a partition. The image is a list of
  bytes (\<open>None\<close> for a NULL pointer), an \<open>img_buff\<close> is the part of it that is still to be read, and
  the header fields are decoded at the offsets of the two packed structures. The outer \<open>option\<close>
  of the results is \<open>None\<close> only where a fill would not end.
\<close>

section \<open>Model\<close>

datatype gpt_io_ret =
    GPT_IO_SUCCESS | GPT_IO_NO_STREAM | GPT_IO_STREAM_NO_SKIP_CB | GPT_IO_NO_PARTITION
  | GPT_IO_OUT_OF_RANGE | GPT_IO_TRANSFER_ERROR | GPT_IO_SPARSE_OFFSET_NOT_ALIGNED
  | GPT_IO_SPARSE_TOO_SMALL | GPT_IO_SPARSE_WRONG_HEADER_SIZE | GPT_IO_SPARSE_WRONG_CHUNK_SIZE
  | GPT_IO_SPARSE_WRONG_CHUNK_TYPE

text \<open>The structures' fields by their offsets in \<open>struct sparse_image_hdr\<close> (28 bytes) and
  \<open>struct sparse_chunk_hdr\<close> (12 bytes).\<close>

record sparse_image_hdr =
  magic :: nat
  major_version :: nat
  minor_version :: nat
  file_hdr_size :: nat
  chunk_hdr_size :: nat
  blk_size :: nat
  total_blks :: nat
  total_chunks :: nat
  image_checksum :: nat

record sparse_chunk_hdr =
  chunk_type :: nat
  size_in_blks :: nat
  total_size_bytes :: nat

definition image_hdr_at :: "u8 list \<Rightarrow> sparse_image_hdr" where
  "image_hdr_at b = \<lparr>magic = le32_dec b 0, major_version = le16_dec b 4, minor_version = le16_dec b 6,
     file_hdr_size = le16_dec b 8, chunk_hdr_size = le16_dec b 10, blk_size = le32_dec b 12,
     total_blks = le32_dec b 16, total_chunks = le32_dec b 20, image_checksum = le32_dec b 24\<rparr>"

definition chunk_hdr_at :: "u8 list \<Rightarrow> sparse_chunk_hdr" where
  "chunk_hdr_at b = \<lparr>chunk_type = le16_dec b 0, size_in_blks = le32_dec b 4,
     total_size_bytes = le32_dec b 8\<rparr>"

definition SPARSE_IMAGE_MAGIC :: nat where "SPARSE_IMAGE_MAGIC = 0xed26ff3a"
definition CHUNK_TYPE_RAW :: nat where "CHUNK_TYPE_RAW = 0xCAC1"
definition CHUNK_TYPE_FILL :: nat where "CHUNK_TYPE_FILL = 0xCAC2"
definition CHUNK_TYPE_DONT_CARE :: nat where "CHUNK_TYPE_DONT_CARE = 0xCAC3"
definition CHUNK_TYPE_CRC32 :: nat where "CHUNK_TYPE_CRC32 = 0xCAC4"

definition IMAGE_HDR_SIZE :: nat where "IMAGE_HDR_SIZE = 28"
definition CHUNK_HDR_SIZE :: nat where "CHUNK_HDR_SIZE = 12"

definition is_sparse_image :: "u8 list \<Rightarrow> bool" where
  "is_sparse_image image_addr \<longleftrightarrow>
     magic (image_hdr_at image_addr) = SPARSE_IMAGE_MAGIC \<and>
     major_version (image_hdr_at image_addr) = 1"

definition img_buff_init :: "u8 list option \<Rightarrow> u8 list option" where
  "img_buff_init data = data"

definition img_buff_advance :: "u8 list \<Rightarrow> nat \<Rightarrow> (u8 list \<times> u8 list) option" where
  "img_buff_advance buff n = (if length buff < n then None else Some (take n buff, drop n buff))"

text \<open>The cases of the \<open>switch\<close> on the chunk type: an error code, or the buffer after the chunk's
  data.\<close>

definition raw_chunk ::
  "'s blockdev \<Rightarrow> sparse_chunk_hdr \<Rightarrow> nat \<Rightarrow> nat \<Rightarrow> u8 list \<Rightarrow> 's \<Rightarrow> (gpt_io_ret + u8 list) \<times> 's"
where
  "raw_chunk disk hdr chunk_size part_start buff s =
     (if chunk_size + CHUNK_HDR_SIZE \<noteq> total_size_bytes hdr
      then (Inl GPT_IO_SPARSE_WRONG_CHUNK_SIZE, s)
      else case img_buff_advance buff chunk_size of
             None \<Rightarrow> (Inl GPT_IO_SPARSE_TOO_SMALL, s)
           | Some (data_ptr, buff') \<Rightarrow>
               (case blockdev_write_bytes disk part_start data_ptr s of (n, s') \<Rightarrow>
                  (if n \<noteq> chunk_size then Inl GPT_IO_TRANSFER_ERROR else Inr buff', s')))"

definition fill_chunk ::
  "'s blockdev \<Rightarrow> sparse_chunk_hdr \<Rightarrow> nat \<Rightarrow> nat \<Rightarrow> u8 list \<Rightarrow> 's \<Rightarrow>
   ((gpt_io_ret + u8 list) \<times> 's) option" where
  "fill_chunk disk hdr chunk_size part_start buff s =
     (if 4 + CHUNK_HDR_SIZE \<noteq> total_size_bytes hdr
      then Some (Inl GPT_IO_SPARSE_WRONG_CHUNK_SIZE, s)
      else case img_buff_advance buff 4 of
             None \<Rightarrow> Some (Inl GPT_IO_SPARSE_TOO_SMALL, s)
           | Some (data_fill, buff') \<Rightarrow>
               (case blockdev_fill_write_bytes disk part_start chunk_size
                       (word_of_nat (le32_dec data_fill 0)) s of
                  None \<Rightarrow> None
                | Some (n, s') \<Rightarrow>
                    Some (if n \<noteq> chunk_size then Inl GPT_IO_TRANSFER_ERROR else Inr buff', s')))"

definition dont_care_chunk :: "sparse_chunk_hdr \<Rightarrow> u8 list \<Rightarrow> gpt_io_ret + u8 list" where
  "dont_care_chunk hdr buff =
     (if CHUNK_HDR_SIZE \<noteq> total_size_bytes hdr then Inl GPT_IO_SPARSE_WRONG_CHUNK_SIZE
      else Inr buff)"

definition crc32_chunk :: "sparse_chunk_hdr \<Rightarrow> u8 list \<Rightarrow> gpt_io_ret + u8 list" where
  "crc32_chunk hdr buff =
     (if 4 + CHUNK_HDR_SIZE \<noteq> total_size_bytes hdr then Inl GPT_IO_SPARSE_WRONG_CHUNK_SIZE
      else case img_buff_advance buff 4 of
             None \<Rightarrow> Inl GPT_IO_SPARSE_TOO_SMALL
           | Some (_, buff') \<Rightarrow> Inr buff')"

definition sparse_chunk_data ::
  "'s blockdev \<Rightarrow> sparse_chunk_hdr \<Rightarrow> nat \<Rightarrow> nat \<Rightarrow> u8 list \<Rightarrow> 's \<Rightarrow>
   ((gpt_io_ret + u8 list) \<times> 's) option" where
  "sparse_chunk_data disk hdr chunk_size part_start buff s =
     (if chunk_type hdr = CHUNK_TYPE_RAW then Some (raw_chunk disk hdr chunk_size part_start buff s)
      else if chunk_type hdr = CHUNK_TYPE_FILL then fill_chunk disk hdr chunk_size part_start buff s
      else if chunk_type hdr = CHUNK_TYPE_DONT_CARE then Some (dont_care_chunk hdr buff, s)
      else if chunk_type hdr = CHUNK_TYPE_CRC32 then Some (crc32_chunk hdr buff, s)
      else Some (Inl GPT_IO_SPARSE_WRONG_CHUNK_TYPE, s))"

text \<open>The loop over the remaining \<open>n\<close> chunks.\<close>

fun sparse_chunks ::
  "'s blockdev \<Rightarrow> nat \<Rightarrow> nat \<Rightarrow> nat \<Rightarrow> nat \<Rightarrow> u8 list \<Rightarrow> 's \<Rightarrow> (gpt_io_ret \<times> 's) option" where
  "sparse_chunks disk blk 0 part_start part_size buff s = Some (GPT_IO_SUCCESS, s)"
| "sparse_chunks disk blk (Suc n) part_start part_size buff s =
     (case img_buff_advance buff CHUNK_HDR_SIZE of
        None \<Rightarrow> Some (GPT_IO_SPARSE_TOO_SMALL, s)
      | Some (hdr_bytes, buff') \<Rightarrow>
          let hdr = chunk_hdr_at hdr_bytes;
              chunk_size = size_in_blks hdr * blk
          in if part_size < chunk_size then Some (GPT_IO_OUT_OF_RANGE, s)
             else case sparse_chunk_data disk hdr chunk_size part_start buff' s of
                    None \<Rightarrow> None
                  | Some (Inl err, s') \<Rightarrow> Some (err, s')
                  | Some (Inr buff'', s') \<Rightarrow>
                      sparse_chunks disk blk n (add64 part_start chunk_size)
                        (part_size - chunk_size) buff'' s')"

definition write_sparse_image ::
  "'s blockdev \<Rightarrow> nat \<Rightarrow> nat \<Rightarrow> u8 list option \<Rightarrow> 's \<Rightarrow> (gpt_io_ret \<times> 's) option" where
  "write_sparse_image disk part_start part_size image_addr s =
     (case img_buff_init image_addr of
        None \<Rightarrow> Some (GPT_IO_SPARSE_TOO_SMALL, s)
      | Some buff \<Rightarrow>
          (case img_buff_advance buff IMAGE_HDR_SIZE of
             None \<Rightarrow> Some (GPT_IO_SPARSE_TOO_SMALL, s)
           | Some (hdr_bytes, buff') \<Rightarrow>
               let img_hdr = image_hdr_at hdr_bytes
               in if file_hdr_size img_hdr \<noteq> IMAGE_HDR_SIZE
                  then Some (GPT_IO_SPARSE_WRONG_HEADER_SIZE, s)
                  else if chunk_hdr_size img_hdr \<noteq> CHUNK_HDR_SIZE
                  then Some (GPT_IO_SPARSE_WRONG_HEADER_SIZE, s)
                  else sparse_chunks disk (blk_size img_hdr) (total_chunks img_hdr)
                         part_start part_size buff' s))"

section \<open>Writes stay inside the partition\<close>

definition same_outside :: "nat \<Rightarrow> nat \<Rightarrow> u8 list \<Rightarrow> u8 list \<Rightarrow> bool" where
  "same_outside a n c c' \<longleftrightarrow> length c' = length c \<and>
     (\<forall>i < length c. i < a \<or> a + n \<le> i \<longrightarrow> c' ! i = c ! i)"

lemma same_outside_refl [simp]: "same_outside a n c c"
  by (simp add: same_outside_def)

lemma same_outside_memcpy:
  "off + length d \<le> length c \<Longrightarrow> a \<le> off \<Longrightarrow> off + length d \<le> a + n \<Longrightarrow>
   same_outside a n c (memcpy_at c off d)"
  by (auto simp: same_outside_def nth_memcpy_at)

lemma same_outside_trans:
  "same_outside a n c c' \<Longrightarrow> same_outside b m c' c'' \<Longrightarrow> a \<le> b \<Longrightarrow> b + m \<le> a + n \<Longrightarrow>
   same_outside a n c c''"
  by (auto simp: same_outside_def)

lemma same_outside_mono: "same_outside a m c c' \<Longrightarrow> m \<le> n \<Longrightarrow> same_outside a n c c'"
  by (auto simp: same_outside_def)

lemma length_img_buff_advance:
  "img_buff_advance buff n = Some (x, rest) \<Longrightarrow> length x = n"
  by (auto simp: img_buff_advance_def split: if_splits)

context block_device
begin

lemma fill_write_bytes_unaligned:
  "start mod 4 \<noteq> 0 \<Longrightarrow> blockdev_fill_write_bytes dev start count p s = Some (0, s)"
  by (simp add: blockdev_fill_write_bytes_def Let_def)

lemma fill_write_bytes_confined:
  assumes "start + count \<le> cap" and "4 dvd bs" and "bs \<le> 4 * MiB"
  shows "\<exists>n s'. blockdev_fill_write_bytes dev start count p s = Some (n, s') \<and>
    same_outside start count (content s) (content s')"
proof (cases "start mod 4 = 0")
  case True
  show ?thesis
    by (rule fill_write_bytes_ok [OF assms(1) True assms(2,3), of p s])
       (use assms(1) in \<open>auto intro: same_outside_memcpy\<close>)
next
  case False
  then show ?thesis by (simp add: fill_write_bytes_unaligned)
qed

lemma raw_chunk_confined:
  assumes "part_start + chunk_size \<le> cap"
  shows "\<exists>r s'. raw_chunk dev hdr chunk_size part_start buff s = (r, s') \<and>
    same_outside part_start chunk_size (content s) (content s')"
proof (cases "img_buff_advance buff chunk_size")
  case None
  then show ?thesis by (simp add: raw_chunk_def)
next
  case (Some p)
  obtain d rest where p: "p = (d, rest)" by (cases p)
  with Some have len: "length d = chunk_size" by (simp add: length_img_buff_advance)
  obtain s' where "blockdev_write_bytes dev part_start d s = (length d, s')"
    and "content s' = memcpy_at (content s) part_start d"
    using assms len by (auto intro: write_bytes_ok [of part_start d s])
  with Some p len assms show ?thesis by (simp add: raw_chunk_def same_outside_memcpy)
qed

lemma fill_chunk_confined:
  assumes "part_start + chunk_size \<le> cap" and "4 dvd bs" and "bs \<le> 4 * MiB"
  shows "\<exists>r s'. fill_chunk dev hdr chunk_size part_start buff s = Some (r, s') \<and>
    same_outside part_start chunk_size (content s) (content s')"
proof (cases "img_buff_advance buff 4")
  case None
  then show ?thesis by (simp add: fill_chunk_def)
next
  case (Some p)
  obtain d rest where p: "p = (d, rest)" by (cases p)
  obtain n s' where "blockdev_fill_write_bytes dev part_start chunk_size
      (word_of_nat (le32_dec d 0)) s = Some (n, s')"
    and "same_outside part_start chunk_size (content s) (content s')"
    using fill_write_bytes_confined [OF assms] by blast
  with Some p show ?thesis by (simp add: fill_chunk_def)
qed

lemma sparse_chunk_data_confined:
  assumes "part_start + chunk_size \<le> cap" and "4 dvd bs" and "bs \<le> 4 * MiB"
  shows "\<exists>r s'. sparse_chunk_data dev hdr chunk_size part_start buff s = Some (r, s') \<and>
    same_outside part_start chunk_size (content s) (content s')"
  using raw_chunk_confined [OF assms(1), of hdr buff s]
    fill_chunk_confined [OF assms, of hdr buff s]
  by (auto simp: sparse_chunk_data_def)

lemma sparse_chunks_confined:
  assumes "part_start + part_size \<le> cap" and "4 dvd bs" and "bs \<le> 4 * MiB"
  shows "\<exists>r s'. sparse_chunks dev blk n part_start part_size buff s = Some (r, s') \<and>
    same_outside part_start part_size (content s) (content s')"
  using assms(1)
proof (induction n arbitrary: part_start part_size buff s)
  case (Suc n)
  show ?case
  proof (cases "img_buff_advance buff CHUNK_HDR_SIZE")
    case (Some p)
    obtain hb buff' where p: "p = (hb, buff')" by (cases p)
    define cs where "cs = size_in_blks (chunk_hdr_at hb) * blk"
    show ?thesis
    proof (cases "part_size < cs")
      case False
      then have le: "part_start + cs \<le> cap" using Suc.prems by simp
      obtain r s1 where d: "sparse_chunk_data dev (chunk_hdr_at hb) cs part_start buff' s = Some (r, s1)"
        and o1: "same_outside part_start cs (content s) (content s1)"
        using sparse_chunk_data_confined [OF le assms(2,3)] by blast
      have a: "add64 part_start cs = part_start + cs" using le cap_less by (simp add: add64_id)
      have le': "part_start + cs + (part_size - cs) \<le> cap" using Suc.prems False by simp
      obtain r' s2 where "sparse_chunks dev blk n (part_start + cs) (part_size - cs) (projr r) s1
          = Some (r', s2)"
        and o2: "same_outside (part_start + cs) (part_size - cs) (content s1) (content s2)"
        using Suc.IH [OF le'] by blast
      moreover have o3: "same_outside part_start part_size (content s) (content s1)"
        using same_outside_mono [OF o1] False by simp
      moreover have "same_outside part_start part_size (content s) (content s2)"
        using same_outside_trans [OF o3 o2] False by simp
      ultimately show ?thesis
        using Some p d a False by (cases r) (simp_all add: Let_def cs_def [symmetric])
    qed (use Some p in \<open>simp add: Let_def cs_def\<close>)
  qed simp
qed simp

lemma write_sparse_confined:
  assumes "part_start + part_size \<le> cap" and "4 dvd bs" and "bs \<le> 4 * MiB"
  shows "\<exists>r s'. write_sparse_image dev part_start part_size image_addr s = Some (r, s') \<and>
    same_outside part_start part_size (content s) (content s')"
  using sparse_chunks_confined [OF assms]
  by (auto simp: write_sparse_image_def Let_def split: option.split)

end

section \<open>Images that follow the format\<close>

text \<open>
  The chunks of a sparse image and their meaning: what each puts at the current position of the
  partition. \<open>enc_image\<close> lays an image out as \<open>libsparse\<close> documents it.
\<close>

datatype chunk = Raw "u8 list" | Fill u32 nat | Dont_care nat | Crc u32

fun chunk_blocks :: "nat \<Rightarrow> chunk \<Rightarrow> nat" where
  "chunk_blocks blk (Raw d) = length d div blk"
| "chunk_blocks blk (Fill p n) = n"
| "chunk_blocks blk (Dont_care n) = n"
| "chunk_blocks blk (Crc c) = 0"

fun chunk_payload :: "chunk \<Rightarrow> u8 list" where
  "chunk_payload (Raw d) = d"
| "chunk_payload (Fill p n) = le32_bytes p"
| "chunk_payload (Dont_care n) = []"
| "chunk_payload (Crc c) = le32_bytes c"

fun chunk_tag :: "chunk \<Rightarrow> nat" where
  "chunk_tag (Raw d) = CHUNK_TYPE_RAW"
| "chunk_tag (Fill p n) = CHUNK_TYPE_FILL"
| "chunk_tag (Dont_care n) = CHUNK_TYPE_DONT_CARE"
| "chunk_tag (Crc c) = CHUNK_TYPE_CRC32"

fun apply_chunk :: "nat \<Rightarrow> chunk \<Rightarrow> nat \<Rightarrow> u8 list \<Rightarrow> u8 list" where
  "apply_chunk blk (Raw d) pos c = memcpy_at c pos d"
| "apply_chunk blk (Fill p n) pos c = memcpy_at c pos (fill_bytes (n * blk) p)"
| "apply_chunk blk (Dont_care n) pos c = c"
| "apply_chunk blk (Crc k) pos c = c"

fun apply_chunks :: "nat \<Rightarrow> chunk list \<Rightarrow> nat \<Rightarrow> u8 list \<Rightarrow> u8 list" where
  "apply_chunks blk [] pos c = c"
| "apply_chunks blk (ch # chs) pos c =
     apply_chunks blk chs (pos + chunk_blocks blk ch * blk) (apply_chunk blk ch pos c)"

definition chunk_wf :: "nat \<Rightarrow> chunk \<Rightarrow> bool" where
  "chunk_wf blk ch \<longleftrightarrow> chunk_blocks blk ch < 2 ^ 32 \<and> 12 + length (chunk_payload ch) < 2 ^ 32 \<and>
     (case ch of Raw d \<Rightarrow> blk dvd length d | _ \<Rightarrow> True)"

definition enc_chunk :: "nat \<Rightarrow> chunk \<Rightarrow> u8 list" where
  "enc_chunk blk ch = (le16_bytes (chunk_tag ch) @ le16_bytes 0 @
     le32_bytes (word_of_nat (chunk_blocks blk ch)) @
     le32_bytes (word_of_nat (12 + length (chunk_payload ch)))) @ chunk_payload ch"

definition enc_image :: "nat \<Rightarrow> chunk list \<Rightarrow> u8 list" where
  "enc_image blk chs =
     (le32_bytes (word_of_nat SPARSE_IMAGE_MAGIC) @ le16_bytes 1 @ le16_bytes 0 @ le16_bytes 28 @
      le16_bytes 12 @ le32_bytes (word_of_nat blk) @
      le32_bytes (word_of_nat (sum_list (map (chunk_blocks blk) chs))) @
      le32_bytes (word_of_nat (length chs)) @ le32_bytes 0) @ concat (map (enc_chunk blk) chs)"

lemma chunk_hdr_enc:
  assumes "chunk_wf blk ch"
  shows "img_buff_advance (enc_chunk blk ch @ rest) CHUNK_HDR_SIZE =
      Some (take 12 (enc_chunk blk ch), chunk_payload ch @ rest)"
    and "chunk_hdr_at (take 12 (enc_chunk blk ch)) =
      \<lparr>chunk_type = chunk_tag ch, size_in_blks = chunk_blocks blk ch,
       total_size_bytes = 12 + length (chunk_payload ch)\<rparr>"
proof -
  let ?t = "le16_bytes (chunk_tag ch)" and ?z = "le16_bytes 0"
    and ?b = "le32_bytes (word_of_nat (chunk_blocks blk ch))"
    and ?l = "le32_bytes (word_of_nat (12 + length (chunk_payload ch)))"
  have h: "take 12 (enc_chunk blk ch) = ?t @ ?z @ ?b @ ?l"
    by (simp add: enc_chunk_def)
  show "img_buff_advance (enc_chunk blk ch @ rest) CHUNK_HDR_SIZE =
      Some (take 12 (enc_chunk blk ch), chunk_payload ch @ rest)"
    by (simp add: img_buff_advance_def CHUNK_HDR_SIZE_def enc_chunk_def)
  have "chunk_tag ch < 65536"
    by (cases ch) (simp_all add: CHUNK_TYPE_RAW_def CHUNK_TYPE_FILL_def CHUNK_TYPE_DONT_CARE_def
        CHUNK_TYPE_CRC32_def)
  then have "le16_dec (?t @ ?z @ ?b @ ?l) 0 = chunk_tag ch"
    using le16_dec_append [of "[]" 0 "chunk_tag ch"] by simp
  moreover have "le32_dec (?t @ ?z @ ?b @ ?l) 4 = chunk_blocks blk ch"
    using le32_dec_append [of "?t @ ?z" 4] assms by (simp add: chunk_wf_def unat_of_nat)
  moreover have "le32_dec (?t @ ?z @ ?b @ ?l) 8 = 12 + length (chunk_payload ch)"
    using le32_dec_append [of "?t @ ?z @ ?b" 8 _ "[]"] assms
    by (simp add: chunk_wf_def unat_word_ariths unat_of_nat)
  ultimately show "chunk_hdr_at (take 12 (enc_chunk blk ch)) =
      \<lparr>chunk_type = chunk_tag ch, size_in_blks = chunk_blocks blk ch,
       total_size_bytes = 12 + length (chunk_payload ch)\<rparr>"
    unfolding h chunk_hdr_at_def by simp
qed

lemma advance_append [simp]: "img_buff_advance (xs @ ys) (length xs) = Some (xs, ys)"
  by (simp add: img_buff_advance_def)

lemma advance_le32 [simp]: "img_buff_advance (le32_bytes w @ ys) 4 = Some (le32_bytes w, ys)"
  using advance_append [of "le32_bytes w" ys] by simp

lemma le32_dec_le32_bytes [simp]: "le32_dec (le32_bytes w) 0 = unat w"
  using le32_dec_append [of "[]" 0 w "[]"] by simp

lemmas chunk_type_defs = CHUNK_TYPE_RAW_def CHUNK_TYPE_FILL_def CHUNK_TYPE_DONT_CARE_def
  CHUNK_TYPE_CRC32_def

lemma image_hdr_enc:
  assumes "blk < 2 ^ 32" and "length chs < 2 ^ 32"
  shows "\<exists>h. img_buff_advance (enc_image blk chs) IMAGE_HDR_SIZE =
      Some (h, concat (map (enc_chunk blk) chs)) \<and> is_sparse_image (enc_image blk chs) \<and>
    file_hdr_size (image_hdr_at h) = 28 \<and> chunk_hdr_size (image_hdr_at h) = 12 \<and>
    blk_size (image_hdr_at h) = blk \<and> total_chunks (image_hdr_at h) = length chs"
proof -
  let ?m = "le32_bytes (word_of_nat SPARSE_IMAGE_MAGIC)" and ?b = "le32_bytes (word_of_nat blk)"
    and ?t = "le32_bytes (word_of_nat (sum_list (map (chunk_blocks blk) chs)))"
    and ?n = "le32_bytes (word_of_nat (length chs))"
  let ?h = "?m @ le16_bytes 1 @ le16_bytes 0 @ le16_bytes 28 @ le16_bytes 12 @ ?b @ ?t @ ?n @
    le32_bytes 0"
  let ?c = "concat (map (enc_chunk blk) chs)"
  have "img_buff_advance (enc_image blk chs) IMAGE_HDR_SIZE = Some (?h, ?c)"
    using advance_append [of ?h ?c] by (simp add: enc_image_def IMAGE_HDR_SIZE_def)
  moreover have "le32_dec (?h @ ?c) 0 = SPARSE_IMAGE_MAGIC"
    using le32_dec_append [of "[]" 0] by (simp add: SPARSE_IMAGE_MAGIC_def unat_of_nat)
  moreover have "le16_dec (?h @ ?c) 4 = 1"
    using le16_dec_append [of ?m 4 1] by simp
  moreover have "le16_dec ?h 8 = 28"
    using le16_dec_append [of "?m @ le16_bytes 1 @ le16_bytes 0" 8 28] by simp
  moreover have "le16_dec ?h 10 = 12"
    using le16_dec_append [of "?m @ le16_bytes 1 @ le16_bytes 0 @ le16_bytes 28" 10 12] by simp
  moreover have "le32_dec ?h 12 = blk"
    using le32_dec_append [of "?m @ le16_bytes 1 @ le16_bytes 0 @ le16_bytes 28 @ le16_bytes 12" 12]
      assms(1) by (simp add: unat_of_nat)
  moreover have "le32_dec ?h 20 = length chs"
    using le32_dec_append [of "?m @ le16_bytes 1 @ le16_bytes 0 @ le16_bytes 28 @ le16_bytes 12 @
      ?b @ ?t" 20] assms(2) by (simp add: unat_of_nat)
  ultimately show ?thesis
    by (simp add: image_hdr_at_def is_sparse_image_def enc_image_def)
qed

context block_device
begin

lemma sparse_chunk_data_enc:
  assumes wf: "chunk_wf blk ch" and le: "pos + chunk_blocks blk ch * blk \<le> cap"
    and al: "4 dvd pos" "4 dvd bs" "bs \<le> 4 * MiB"
  shows "\<exists>s'. sparse_chunk_data dev
      \<lparr>chunk_type = chunk_tag ch, size_in_blks = chunk_blocks blk ch,
       total_size_bytes = 12 + length (chunk_payload ch)\<rparr>
      (chunk_blocks blk ch * blk) pos (chunk_payload ch @ rest) s = Some (Inr rest, s') \<and>
    content s' = apply_chunk blk ch pos (content s)"
proof (cases ch)
  case (Raw d)
  with wf have len: "length d div blk * blk = length d" by (simp add: chunk_wf_def)
  obtain s' where "blockdev_write_bytes dev pos d s = (length d, s')"
    and "content s' = memcpy_at (content s) pos d"
    using le Raw len by (auto intro: write_bytes_ok [of pos d s])
  with Raw len show ?thesis
    by (simp add: sparse_chunk_data_def raw_chunk_def CHUNK_HDR_SIZE_def)
next
  case (Fill p n)
  have "pos mod 4 = 0" using al(1) by simp
  from fill_write_bytes_ok [OF _ this al(2,3), of "n * blk" p s] obtain s' where
    "blockdev_fill_write_bytes dev pos (n * blk) p s = Some (n * blk, s')"
    "content s' = memcpy_at (content s) pos (fill_bytes (n * blk) p)"
    using le Fill by auto
  with Fill show ?thesis
    by (simp add: sparse_chunk_data_def fill_chunk_def CHUNK_HDR_SIZE_def chunk_type_defs)
qed (simp_all add: sparse_chunk_data_def dont_care_chunk_def crc32_chunk_def CHUNK_HDR_SIZE_def
    chunk_type_defs)

lemma sparse_chunks_enc:
  assumes "list_all (chunk_wf blk) chs" and "4 dvd pos" "4 dvd blk" "4 dvd bs" "bs \<le> 4 * MiB"
    and "sum_list (map (chunk_blocks blk) chs) * blk \<le> part_size" "pos + part_size \<le> cap"
  shows "\<exists>s'. sparse_chunks dev blk (length chs) pos part_size
      (concat (map (enc_chunk blk) chs)) s = Some (GPT_IO_SUCCESS, s') \<and>
    content s' = apply_chunks blk chs pos (content s)"
  using assms
proof (induction chs arbitrary: pos part_size s)
  case (Cons ch chs)
  let ?cs = "chunk_blocks blk ch * blk"
  have wf: "chunk_wf blk ch" using Cons.prems by simp
  have fits: "?cs + sum_list (map (chunk_blocks blk) chs) * blk \<le> part_size"
    using Cons.prems by (simp add: add_mult_distrib)
  have le: "pos + ?cs \<le> cap" using Cons.prems fits by simp
  obtain s1 where d: "sparse_chunk_data dev
      \<lparr>chunk_type = chunk_tag ch, size_in_blks = chunk_blocks blk ch,
       total_size_bytes = 12 + length (chunk_payload ch)\<rparr> ?cs pos
      (chunk_payload ch @ concat (map (enc_chunk blk) chs)) s
        = Some (Inr (concat (map (enc_chunk blk) chs)), s1)"
    and c1: "content s1 = apply_chunk blk ch pos (content s)"
    using sparse_chunk_data_enc [OF wf le] Cons.prems by blast
  have a: "add64 pos ?cs = pos + ?cs" using le cap_less by (simp add: add64_id)
  have rest: "sum_list (map (chunk_blocks blk) chs) * blk \<le> part_size - ?cs" using fits by linarith
  obtain s2 where "sparse_chunks dev blk (length chs) (pos + ?cs) (part_size - ?cs)
      (concat (map (enc_chunk blk) chs)) s1 = Some (GPT_IO_SUCCESS, s2)"
    and "content s2 = apply_chunks blk chs (pos + ?cs) (content s1)"
    using Cons.IH [of "pos + ?cs" "part_size - ?cs" s1] Cons.prems fits rest by auto
  with d a c1 fits show ?case
    by (simp add: chunk_hdr_enc [OF wf] Let_def)
qed simp

end

section \<open>Only well-formed images are accepted\<close>

text \<open>
  What the format asks of an image for a partition of \<open>room\<close> bytes: header sizes of 28 and 12, and
  that many chunks of a known type, each inside the room that is left and with the number of bytes
  of data that its type calls for, there and in its total size.
\<close>

definition chunk_data :: "nat \<Rightarrow> nat \<Rightarrow> nat option" where
  "chunk_data ty n =
     (if ty = 0xCAC1 then Some n else if ty = 0xCAC2 \<or> ty = 0xCAC4 then Some 4
      else if ty = 0xCAC3 then Some 0 else None)"

fun chunks_wf :: "nat \<Rightarrow> nat \<Rightarrow> nat \<Rightarrow> u8 list \<Rightarrow> bool" where
  "chunks_wf blk 0 room b \<longleftrightarrow> True"
| "chunks_wf blk (Suc n) room b \<longleftrightarrow> 12 \<le> length b \<and> le32_dec b 4 * blk \<le> room \<and>
     (case chunk_data (le16_dec b 0) (le32_dec b 4 * blk) of
        None \<Rightarrow> False
      | Some d \<Rightarrow> le32_dec b 8 = d + 12 \<and> d + 12 \<le> length b \<and>
          chunks_wf blk n (room - le32_dec b 4 * blk) (drop (d + 12) b))"

definition image_wf :: "nat \<Rightarrow> u8 list \<Rightarrow> bool" where
  "image_wf room b \<longleftrightarrow> 28 \<le> length b \<and> le16_dec b 8 = 28 \<and> le16_dec b 10 = 12 \<and>
     chunks_wf (le32_dec b 12) (le32_dec b 20) room (drop 28 b)"

lemma dec_take: "i + 2 \<le> n \<Longrightarrow> le16_dec (take n b) i = le16_dec b i" "i + 4 \<le> n \<Longrightarrow> le32_dec (take n b) i = le32_dec b i"
  by (simp_all add: le16_dec_def le32_dec_def)

lemma chunk_data_accepted:
  assumes "sparse_chunk_data disk hdr len pos b s = Some (Inr b', s')"
  shows "\<exists>d. chunk_data (chunk_type hdr) len = Some d \<and> total_size_bytes hdr = d + 12 \<and> d \<le> length b \<and> b' = drop d b"
  using assms
  by (auto simp: sparse_chunk_data_def raw_chunk_def fill_chunk_def dont_care_chunk_def crc32_chunk_def chunk_data_def
      img_buff_advance_def CHUNK_HDR_SIZE_def CHUNK_TYPE_RAW_def CHUNK_TYPE_FILL_def CHUNK_TYPE_DONT_CARE_def
      CHUNK_TYPE_CRC32_def split: if_splits prod.splits option.splits)

lemma chunk_data_no_success:
  "sparse_chunk_data disk hdr len pos b s = Some (Inl e, s') \<Longrightarrow> e \<noteq> GPT_IO_SUCCESS"
  by (auto simp: sparse_chunk_data_def raw_chunk_def fill_chunk_def dont_care_chunk_def crc32_chunk_def
      split: if_splits prod.splits option.splits)

lemma sparse_chunks_accepted:
  "sparse_chunks disk blk n pos room b s = Some (GPT_IO_SUCCESS, s') \<Longrightarrow> chunks_wf blk n room b"
proof (induction n arbitrary: pos room b s)
  case (Suc n)
  have hdr: "12 \<le> length b" using Suc.prems by (auto simp: img_buff_advance_def CHUNK_HDR_SIZE_def split: if_splits)
  define h where "h = chunk_hdr_at (take 12 b)"
  have h: "chunk_type h = le16_dec b 0" "size_in_blks h = le32_dec b 4" "total_size_bytes h = le32_dec b 8"
    by (simp_all add: h_def chunk_hdr_at_def dec_take)
  have room: "size_in_blks h * blk \<le> room"
    using Suc.prems hdr by (auto simp: img_buff_advance_def CHUNK_HDR_SIZE_def Let_def h_def [symmetric] split: if_splits)
  obtain b' s1 where d: "sparse_chunk_data disk h (size_in_blks h * blk) pos (drop 12 b) s = Some (Inr b', s1)"
    and rest: "sparse_chunks disk blk n (add64 pos (size_in_blks h * blk)) (room - size_in_blks h * blk) b' s1 =
      Some (GPT_IO_SUCCESS, s')"
    using Suc.prems hdr room
    by (auto simp: img_buff_advance_def CHUNK_HDR_SIZE_def Let_def h_def [symmetric] dest: chunk_data_no_success
        split: option.splits sum.splits prod.splits)
  obtain k where k: "chunk_data (le16_dec b 0) (le32_dec b 4 * blk) = Some k" "le32_dec b 8 = k + 12"
    "k \<le> length (drop 12 b)" "b' = drop k (drop 12 b)"
    using chunk_data_accepted [OF d] unfolding h by blast
  then show ?case using Suc.IH [OF rest] hdr room by (simp add: h)
qed simp

lemma write_sparse_image_accepted:
  assumes "write_sparse_image disk part_start room image_addr s = Some (GPT_IO_SUCCESS, s')"
  shows "\<exists>b. image_addr = Some b \<and> image_wf room b"
proof -
  obtain b where b: "image_addr = Some b" "28 \<le> length b"
    using assms by (auto simp: write_sparse_image_def img_buff_init_def img_buff_advance_def IMAGE_HDR_SIZE_def
        split: option.splits if_splits)
  have h: "file_hdr_size (image_hdr_at (take 28 b)) = le16_dec b 8" "chunk_hdr_size (image_hdr_at (take 28 b)) = le16_dec b 10"
    "blk_size (image_hdr_at (take 28 b)) = le32_dec b 12" "total_chunks (image_hdr_at (take 28 b)) = le32_dec b 20"
    by (simp_all add: image_hdr_at_def dec_take)
  have adv: "img_buff_advance b 28 = Some (take 28 b, drop 28 b)"
    using b(2) by (simp add: img_buff_advance_def)
  have "le16_dec b 8 = 28 \<and> le16_dec b 10 = 12 \<and>
      sparse_chunks disk (le32_dec b 12) (le32_dec b 20) part_start room (drop 28 b) s = Some (GPT_IO_SUCCESS, s')"
  proof -
    have w: "write_sparse_image disk part_start room image_addr s =
      (if le16_dec b 8 \<noteq> 28 then Some (GPT_IO_SPARSE_WRONG_HEADER_SIZE, s)
       else if le16_dec b 10 \<noteq> 12 then Some (GPT_IO_SPARSE_WRONG_HEADER_SIZE, s)
       else sparse_chunks disk (le32_dec b 12) (le32_dec b 20) part_start room (drop 28 b) s)"
      by (simp only: write_sparse_image_def img_buff_init_def b(1) option.case IMAGE_HDR_SIZE_def CHUNK_HDR_SIZE_def
          adv prod.case Let_def h)
    show ?thesis
    proof (cases "le16_dec b 8 = 28")
      case True
      then show ?thesis using assms w by (cases "le16_dec b 10 = 12") simp_all
    next
      case False
      then show ?thesis using assms w by simp
    qed
  qed
  then have "image_wf room b" using b(2) by (auto simp: image_wf_def intro: sparse_chunks_accepted)
  then show ?thesis using b(1) by simp
qed

section \<open>Properties\<close>

text \<open>
  C15. Whatever bytes the sparse image holds, \<open>write_sparse_image\<close> on a partition inside a good
  device, whose block size is a multiple of 4 and at most 4 MiB, returns, and no byte of the device
  outside the partition is changed. Success is reported only for an image that the format allows and
  that fits the partition (\<open>image_wf\<close>): a missing image, a bad header, a truncated or unknown chunk and a wrong size
  end in an error code.
\<close>

theorem write_sparse_image_confined:
  assumes "blockdev_ok dev content"
    and "part_start + part_size \<le> bd_block_size dev * bd_block_count dev"
    and "4 dvd bd_block_size dev" and "bd_block_size dev \<le> 4 * MiB"
  shows "\<exists>r s'. write_sparse_image dev part_start part_size image_addr s = Some (r, s') \<and>
    length (content s') = length (content s) \<and>
    (\<forall>i < length (content s). i < part_start \<or> part_start + part_size \<le> i \<longrightarrow>
       content s' ! i = content s ! i) \<and>
    (r = GPT_IO_SUCCESS \<longrightarrow> (\<exists>b. image_addr = Some b \<and> image_wf part_size b))"
proof -
  obtain r s' where w: "write_sparse_image dev part_start part_size image_addr s = Some (r, s')"
    and o: "same_outside part_start part_size (content s) (content s')"
    using block_device.write_sparse_confined [OF block_device.intro [OF assms(1)] assms(2-4)] by blast
  have "r = GPT_IO_SUCCESS \<longrightarrow> (\<exists>b. image_addr = Some b \<and> image_wf part_size b)"
    using write_sparse_image_accepted [of dev part_start part_size image_addr s s'] w by blast
  then show ?thesis using w o by (simp add: same_outside_def)
qed

theorem write_sparse_image_confined_witness:
  "\<exists>r s'. write_sparse_image ram_dev 4 8 (Some [0x3a, 0xff]) [] = Some (r, s') \<and>
    ram_content s' ! 0 = 0 \<and> r \<noteq> GPT_IO_SUCCESS"
proof -
  obtain r s' where w: "write_sparse_image ram_dev 4 8 (Some [0x3a, 0xff]) [] = Some (r, s')"
    and o: "\<forall>i < length (ram_content []). i < 4 \<or> 4 + 8 \<le> i \<longrightarrow>
       ram_content s' ! i = ram_content [] ! i"
    and r: "r = GPT_IO_SUCCESS \<longrightarrow> (\<exists>b. Some [0x3a, 0xff] = Some b \<and> image_wf 8 b)"
    using write_sparse_image_confined [OF ram_dev_ok, of 4 8 "Some [0x3a, 0xff]" "[]"]
    by (auto simp: MiB_def)
  from o have "ram_content s' ! 0 = 0" by (auto dest: spec [of _ 0])
  moreover from r have "r \<noteq> GPT_IO_SUCCESS" by (auto simp: image_wf_def)
  ultimately show ?thesis using w by blast
qed

text \<open>
  C16. An image laid out as the sparse format prescribes, with any sequence of raw, fill, don't-care
  and CRC chunks that fits the partition, is recognised by \<open>is_sparse_image\<close> and unpacked to
  exactly the content its chunks describe, and the write reports success.
\<close>

theorem write_sparse_image_expands:
  assumes "blockdev_ok dev content" and "4 dvd bd_block_size dev" and "bd_block_size dev \<le> 4 * MiB"
    and "part_start + part_size \<le> bd_block_size dev * bd_block_count dev" and "4 dvd part_start"
    and "4 dvd blk" and "blk < 2 ^ 32" and "length chs < 2 ^ 32" and "list_all (chunk_wf blk) chs"
    and "sum_list (map (chunk_blocks blk) chs) * blk \<le> part_size"
  shows "is_sparse_image (enc_image blk chs) \<and>
    (\<exists>s'. write_sparse_image dev part_start part_size (Some (enc_image blk chs)) s
            = Some (GPT_IO_SUCCESS, s') \<and>
          content s' = apply_chunks blk chs part_start (content s))"
  using image_hdr_enc [OF assms(7,8)]
    block_device.sparse_chunks_enc [OF block_device.intro [OF assms(1)] assms(9,5,6,2,3,10,4), of s]
  by (auto simp: write_sparse_image_def img_buff_init_def Let_def IMAGE_HDR_SIZE_def
      CHUNK_HDR_SIZE_def)

theorem write_sparse_image_expands_witness:
  "\<exists>s'. write_sparse_image ram_dev 4 12
      (Some (enc_image 4 [Raw [1, 2, 3, 4], Dont_care 1, Fill 0x04030201 1])) []
        = Some (GPT_IO_SUCCESS, s') \<and>
    ram_content s' = [0, 0, 0, 0, 1, 2, 3, 4, 0, 0, 0, 0, 1, 2, 3, 4]"
proof -
  have "le32_bytes 0x04030201 = [1, 2, 3, 4]" by code_simp
  moreover have four: "Suc (Suc (Suc (Suc 0))) = 4" by simp
  ultimately have "apply_chunks 4 [Raw [1, 2, 3, 4], Dont_care 1, Fill 0x04030201 1] 4 (ram_content []) =
      [0, 0, 0, 0, 1, 2, 3, 4, 0, 0, 0, 0, 1, 2, 3, 4]"
    by (simp add: memcpy_at_def fill_bytes_def upt_rec)
  then show ?thesis
    using write_sparse_image_expands [OF ram_dev_ok, of 4 12 4
        "[Raw [1, 2, 3, 4], Dont_care 1, Fill 0x04030201 1]" "[]"]
    by (simp add: chunk_wf_def MiB_def four)
qed

end
