(* ===== verification/Gpt.thy ===== *)
theory Gpt
  imports Sparse
begin

text \<open>
  \<open>src/base/gpt.c\<close>: finding a partition by name and reading, writing and erasing it. The GPT
  parser itself is vboot's (\<open>vb2_gpt.h\<close>) and the UTF-16 conversion libpayload's; both are outside
  the repository and enter as the record \<open>vboot_gpt\<close> of the functions the code calls, over an
  arbitrary type of entries. The streams are the simple streams of \<open>blockdev.c\<close>, which always
  have a \<open>skip\<close> callback.
\<close>

section \<open>Model\<close>

record 'e vboot_gpt =
  IsUnusedEntry :: "'e \<Rightarrow> bool"
  utf16le_to_ascii :: "'e \<Rightarrow> string"
  starting_lba :: "'e \<Rightarrow> nat"
  GptGetEntrySizeLba :: "'e \<Rightarrow> nat"
  GptGetEntrySizeBytes :: "'e \<Rightarrow> nat"

text \<open>\<open>GptData\<close>: the entries at \<open>i * size_of_entry\<close> of the primary table, for
  \<open>i < number_of_entries\<close>.\<close>

record 'e gpt_data =
  sector_bytes :: nat
  drive_sectors :: nat
  entries :: "'e list"
  gpt_modified :: nat

text \<open>
  \<open>alloc_gpt\<close>: \<open>AllocAndReadGptData\<close> gives a return code and the entries, \<open>GptInit\<close> the verdict.
\<close>

definition alloc_gpt ::
  "(nat \<Rightarrow> nat \<Rightarrow> int \<times> 'e list) \<Rightarrow> ('e gpt_data \<Rightarrow> bool) \<Rightarrow> 's blockdev \<Rightarrow> 'e gpt_data option" where
  "alloc_gpt AllocAndReadGptData GptInit bdev =
     (case AllocAndReadGptData (bd_block_size bdev) (bd_block_count bdev) of (ret, es) \<Rightarrow>
        if ret \<noteq> 0 then None
        else let gpt = \<lparr>sector_bytes = bd_block_size bdev, drive_sectors = bd_block_count bdev,
                        entries = es, gpt_modified = 0\<rparr>
             in if \<not> GptInit gpt then None else Some gpt)"

definition free_gpt ::
  "('s blockdev \<Rightarrow> 'e gpt_data \<Rightarrow> 's \<Rightarrow> int \<times> 's) \<Rightarrow> 's blockdev \<Rightarrow> 'e gpt_data \<Rightarrow> 's \<Rightarrow> int \<times> 's" where
  "free_gpt WriteAndFreeGptData bdev gpt s = WriteAndFreeGptData bdev gpt s"

definition gpt_get_entry_name :: "'e vboot_gpt \<Rightarrow> 'e \<Rightarrow> string option" where
  "gpt_get_entry_name vb e = (if IsUnusedEntry vb e then None else Some (utf16le_to_ascii vb e))"

text \<open>The loop of \<open>gpt_foreach_partition\<close> from entry \<open>i\<close>; the callback returns whether to stop and
  its updated context.\<close>

fun foreach_from ::
  "'e vboot_gpt \<Rightarrow> ('c \<Rightarrow> nat \<Rightarrow> 'e \<Rightarrow> string \<Rightarrow> bool \<times> 'c) \<Rightarrow> nat \<Rightarrow> 'e list \<Rightarrow> 'c \<Rightarrow> bool \<times> 'c" where
  "foreach_from vb cb i [] ctx = (False, ctx)"
| "foreach_from vb cb i (e # es) ctx =
     (case gpt_get_entry_name vb e of
        None \<Rightarrow> foreach_from vb cb (i + 1) es ctx
      | Some name \<Rightarrow> (case cb ctx i e name of (stop, ctx') \<Rightarrow>
                        if stop then (True, ctx') else foreach_from vb cb (i + 1) es ctx'))"

definition gpt_foreach_partition ::
  "'e vboot_gpt \<Rightarrow> 'e gpt_data \<Rightarrow> ('c \<Rightarrow> nat \<Rightarrow> 'e \<Rightarrow> string \<Rightarrow> bool \<times> 'c) \<Rightarrow> 'c \<Rightarrow> bool \<times> 'c" where
  "gpt_foreach_partition vb gpt cb ctx = foreach_from vb cb 0 (entries gpt) ctx"

definition find_partition_callback ::
  "string \<Rightarrow> 'e option \<Rightarrow> nat \<Rightarrow> 'e \<Rightarrow> string \<Rightarrow> bool \<times> 'e option" where
  "find_partition_callback name result index e partition_name =
     (if name = partition_name then (True, Some e) else (False, result))"

definition gpt_find_partition :: "'e vboot_gpt \<Rightarrow> 'e gpt_data \<Rightarrow> string \<Rightarrow> 'e option" where
  "gpt_find_partition vb gpt partition_name =
     snd (gpt_foreach_partition vb gpt (find_partition_callback partition_name) None)"

definition gpt_get_number_of_partitions :: "'e gpt_data \<Rightarrow> nat" where
  "gpt_get_number_of_partitions gpt = length (entries gpt)"

definition gpt_get_partition :: "'e gpt_data \<Rightarrow> nat \<Rightarrow> 'e option" where
  "gpt_get_partition gpt index =
     (if index \<ge> length (entries gpt) then None else Some (entries gpt ! index))"

definition gpt_open_partition_stream ::
  "'e vboot_gpt \<Rightarrow> 's blockdev \<Rightarrow> 'e gpt_data \<Rightarrow> string option \<Rightarrow> nat \<Rightarrow> 's \<Rightarrow>
   (gpt_io_ret + simple_stream \<times> nat) \<times> 's" where
  "gpt_open_partition_stream vb disk gpt partition_name offset s =
     (case (case partition_name of
              Some name \<Rightarrow> (case gpt_find_partition vb gpt name of
                              None \<Rightarrow> None
                            | Some e \<Rightarrow> Some (GptGetEntrySizeBytes vb e, starting_lba vb e))
            | None \<Rightarrow> Some (mul64 (bd_block_count disk) (bd_block_size disk), 0)) of
        None \<Rightarrow> (Inl GPT_IO_NO_PARTITION, s)
      | Some (space, start_lba) \<Rightarrow>
          if offset > space then (Inl GPT_IO_OUT_OF_RANGE, s)
          else let space = space - offset;
                   start_lba = add64 start_lba (offset div bd_block_size disk);
                   offset = offset mod bd_block_size disk
               in case bd_new_stream disk of
                    None \<Rightarrow> (Inl GPT_IO_NO_STREAM, s)
                  | Some new_stream \<Rightarrow>
                      (case new_stream start_lba
                              (add64 space (bd_block_size disk - 1) div bd_block_size disk) of
                         None \<Rightarrow> (Inl GPT_IO_NO_STREAM, s)
                       | Some stream \<Rightarrow>
                           if offset \<noteq> 0
                           then (case simple_stream_skip disk offset stream s of (n, stream', s') \<Rightarrow>
                                   if n \<noteq> offset then (Inl GPT_IO_TRANSFER_ERROR, s')
                                   else (Inr (stream', space), s'))
                           else (Inr (stream, space), s)))"

text \<open>The return code, the bytes stored through \<open>data\<close> and the device.\<close>

definition gpt_read_partition ::
  "'e vboot_gpt \<Rightarrow> 's blockdev \<Rightarrow> 'e gpt_data \<Rightarrow> string option \<Rightarrow> nat \<Rightarrow> nat \<Rightarrow> 's \<Rightarrow>
   gpt_io_ret \<times> u8 list \<times> 's" where
  "gpt_read_partition vb disk gpt partition_name offset data_len s =
     (case gpt_open_partition_stream vb disk gpt partition_name offset s of
        (Inl ret, s') \<Rightarrow> (ret, [], s')
      | (Inr (stream, space), s') \<Rightarrow>
          if data_len > space then (GPT_IO_OUT_OF_RANGE, [], s')
          else case simple_stream_read disk True data_len stream s' of (n, data, _, s'') \<Rightarrow>
                 (if n \<noteq> data_len then GPT_IO_TRANSFER_ERROR else GPT_IO_SUCCESS, data, s''))"

text \<open>
  \<open>is_sparse_image\<close> reads the header fields whatever \<open>data_len\<close> is; \<open>beyond\<close> is what memory holds
  after the caller's buffer.
\<close>

definition gpt_write_partition ::
  "'e vboot_gpt \<Rightarrow> 's blockdev \<Rightarrow> 'e gpt_data \<Rightarrow> string \<Rightarrow> nat \<Rightarrow> u8 list \<Rightarrow> u8 list \<Rightarrow> 's \<Rightarrow>
   (gpt_io_ret \<times> 's) option" where
  "gpt_write_partition vb disk gpt partition_name offset data beyond s =
     (case gpt_find_partition vb gpt partition_name of
        None \<Rightarrow> Some (GPT_IO_NO_PARTITION, s)
      | Some e \<Rightarrow>
          let addr = add64 (mul64 (starting_lba vb e) (bd_block_size disk)) offset;
              space = GptGetEntrySizeBytes vb e
          in if space < offset \<or> space - offset < length data then Some (GPT_IO_OUT_OF_RANGE, s)
             else if is_sparse_image (data @ beyond)
             then write_sparse_image disk addr (space - offset) (Some data) s
             else case blockdev_write_bytes disk addr data s of (n, s') \<Rightarrow>
                    Some (if n \<noteq> length data then GPT_IO_TRANSFER_ERROR else GPT_IO_SUCCESS, s'))"

definition gpt_erase_partition ::
  "'e vboot_gpt \<Rightarrow> 's blockdev \<Rightarrow> 'e gpt_data \<Rightarrow> string \<Rightarrow> 's \<Rightarrow> (gpt_io_ret \<times> 's) option" where
  "gpt_erase_partition vb disk gpt partition_name s =
     (case gpt_find_partition vb gpt partition_name of
        None \<Rightarrow> Some (GPT_IO_NO_PARTITION, s)
      | Some e \<Rightarrow>
          let space = GptGetEntrySizeLba vb e;
              (erase_ret, s1) = (case bd_erase disk of
                                   None \<Rightarrow> (1, s)
                                 | Some erase \<Rightarrow> erase (starting_lba vb e) space s)
          in if erase_ret = 0 then Some (GPT_IO_SUCCESS, s1)
             else let space = min (mul64 space (bd_block_size disk)) (256 * MiB)
                  in case blockdev_fill_write_bytes disk
                            (mul64 (starting_lba vb e) (bd_block_size disk)) space 0xffffffff s1 of
                       None \<Rightarrow> None
                     | Some (n, s2) \<Rightarrow>
                         Some (if n \<noteq> space then GPT_IO_TRANSFER_ERROR else GPT_IO_SUCCESS, s2))"

section \<open>Finding a partition\<close>

lemma foreach_find:
  "foreach_from vb (find_partition_callback name) i es r =
     (case List.find (\<lambda>e. gpt_get_entry_name vb e = Some name) es of
        None \<Rightarrow> (False, r) | Some e \<Rightarrow> (True, Some e))"
  by (induction es arbitrary: i r)
     (auto simp: find_partition_callback_def split: option.splits)

lemma gpt_find_partition_eq:
  "gpt_find_partition vb gpt name =
     List.find (\<lambda>e. gpt_get_entry_name vb e = Some name) (entries gpt)"
  by (simp add: gpt_find_partition_def gpt_foreach_partition_def foreach_find split: option.split)

lemma gpt_find_partition_in:
  "gpt_find_partition vb gpt name = Some e \<Longrightarrow>
     e \<in> set (entries gpt) \<and> gpt_get_entry_name vb e = Some name"
  unfolding gpt_find_partition_eq find_Some_iff by auto

text \<open>
  What \<open>GptInit\<close> checks of the used entries: they lie inside the drive, and the size of an entry
  in bytes is its size in blocks times the block size.
\<close>

definition gpt_entries_ok :: "'e vboot_gpt \<Rightarrow> 's blockdev \<Rightarrow> 'e gpt_data \<Rightarrow> bool" where
  "gpt_entries_ok vb disk gpt \<longleftrightarrow> (\<forall>e \<in> set (entries gpt). \<not> IsUnusedEntry vb e \<longrightarrow>
     starting_lba vb e + GptGetEntrySizeLba vb e \<le> bd_block_count disk \<and>
     GptGetEntrySizeBytes vb e = GptGetEntrySizeLba vb e * bd_block_size disk)"

lemma gpt_entry_bounds:
  assumes "gpt_entries_ok vb disk gpt" and "gpt_find_partition vb gpt name = Some e"
  shows "starting_lba vb e + GptGetEntrySizeLba vb e \<le> bd_block_count disk"
    and "GptGetEntrySizeBytes vb e = GptGetEntrySizeLba vb e * bd_block_size disk"
    and "starting_lba vb e * bd_block_size disk + GptGetEntrySizeBytes vb e
      \<le> bd_block_size disk * bd_block_count disk"
proof -
  have "e \<in> set (entries gpt)" and "\<not> IsUnusedEntry vb e"
    using gpt_find_partition_in [OF assms(2)] by (auto simp: gpt_get_entry_name_def split: if_splits)
  with assms(1) show b: "starting_lba vb e + GptGetEntrySizeLba vb e \<le> bd_block_count disk"
    and "GptGetEntrySizeBytes vb e = GptGetEntrySizeLba vb e * bd_block_size disk"
    by (auto simp: gpt_entries_ok_def)
  then show "starting_lba vb e * bd_block_size disk + GptGetEntrySizeBytes vb e
      \<le> bd_block_size disk * bd_block_count disk"
    using mult_le_mono1 [OF b, of "bd_block_size disk"] by (simp add: algebra_simps)
qed

section \<open>Reading and writing\<close>

text \<open>The stream over the bytes from \<open>offset\<close> on of a partition, or of the whole disk.\<close>

definition stream_extent ::
  "'e vboot_gpt \<Rightarrow> 's blockdev \<Rightarrow> 'e gpt_data \<Rightarrow> string option \<Rightarrow> nat \<Rightarrow> nat \<Rightarrow> bool" where
  "stream_extent vb dev gpt partition_name lba n \<longleftrightarrow>
     (case partition_name of
        Some name \<Rightarrow> (\<exists>e. gpt_find_partition vb gpt name = Some e \<and> starting_lba vb e = lba \<and>
                       GptGetEntrySizeLba vb e = n)
      | None \<Rightarrow> lba = 0 \<and> n = bd_block_count dev)"

context block_device
begin

lemma partition_addr:
  assumes "gpt_entries_ok vb dev gpt" and "gpt_find_partition vb gpt name = Some e"
    and "offset \<le> GptGetEntrySizeBytes vb e"
  shows "add64 (mul64 (starting_lba vb e) bs) offset = starting_lba vb e * bs + offset"
    and "starting_lba vb e * bs + offset + (GptGetEntrySizeBytes vb e - offset) \<le> cap"
  using gpt_entry_bounds(3) [OF assms(1,2)] assms(3) cap_less
  by (simp_all add: mul64_id add64_id)

lemma gpt_write_confined:
  assumes "gpt_entries_ok vb dev gpt" and "gpt_find_partition vb gpt name = Some e"
    and "4 dvd bs" and "bs \<le> 4 * MiB"
  shows "\<exists>r s'. gpt_write_partition vb dev gpt name offset data beyond s = Some (r, s') \<and>
    same_outside (starting_lba vb e * bs) (GptGetEntrySizeBytes vb e) (content s) (content s')"
proof (cases "GptGetEntrySizeBytes vb e < offset \<or> GptGetEntrySizeBytes vb e - offset < length data")
  case True
  then show ?thesis using assms(2) by (auto simp: gpt_write_partition_def Let_def)
next
  case False
  let ?a = "starting_lba vb e * bs" and ?n = "GptGetEntrySizeBytes vb e"
  have le: "offset \<le> ?n" "length data \<le> ?n - offset" using False by simp_all
  note addr = partition_addr [OF assms(1,2) le(1)]
  have widen: "same_outside ?a ?n (content s) (content s')"
    if "same_outside (?a + offset) (?n - offset) (content s) (content s')" for s'
    using same_outside_trans [OF same_outside_refl that, of ?a ?n] le by simp
  show ?thesis
  proof (cases "is_sparse_image (data @ beyond)")
    case True
    obtain r s' where "write_sparse_image dev (?a + offset) (?n - offset) (Some data) s = Some (r, s')"
      and "same_outside (?a + offset) (?n - offset) (content s) (content s')"
      using write_sparse_confined [OF addr(2) assms(3,4)] by blast
    with widen True False assms(2) addr show ?thesis
      by (auto simp: gpt_write_partition_def Let_def)
  next
    case raw: False
    have fits: "?a + offset + length data \<le> cap" using addr(2) le by linarith
    obtain s' where w: "blockdev_write_bytes dev (?a + offset) data s = (length data, s')"
      and c: "content s' = memcpy_at (content s) (?a + offset) data"
      by (rule write_bytes_ok [OF fits])
    have "same_outside (?a + offset) (?n - offset) (content s) (content s')"
      using fits le unfolding c by (simp add: same_outside_memcpy)
    with widen w raw False assms(2) addr show ?thesis
      by (auto simp: gpt_write_partition_def Let_def)
  qed
qed

lemma open_stream_extent:
  assumes ok': "gpt_entries_ok vb dev gpt" and x: "stream_extent vb dev gpt partition_name lba L"
    and ns: "bd_new_stream dev = Some (new_simple_stream dev garbage)" and pow: "and bs (bs - 1) = 0"
    and off: "offset \<le> L * bs"
  obtains st s' where "gpt_open_partition_stream vb dev gpt partition_name offset s =
      (Inr (st, L * bs - offset), s')"
    and "content s' = content s" and "stream_inv dev (content s') st"
    and "stream_pos bs st = lba * bs + offset" and "end_sector st = lba + L"
proof -
  define q where "q = offset div bs"
  define r where "r = offset mod bs"
  have offs: "offset = q * bs + r" by (simp add: q_def r_def)
  have r: "r < bs" using bs_pos by (simp add: r_def)
  have part: "(case partition_name of
        Some name \<Rightarrow> (case gpt_find_partition vb gpt name of
                        None \<Rightarrow> None | Some e \<Rightarrow> Some (GptGetEntrySizeBytes vb e, starting_lba vb e))
      | None \<Rightarrow> Some (mul64 (bd_block_count dev) bs, 0)) = Some (L * bs, lba)"
    and bc: "lba + L \<le> bd_block_count dev"
    using x gpt_entry_bounds [OF ok'] cap_less
    by (auto simp: stream_extent_def mul64_id mult.commute split: option.splits)
  have b: "lba * bs + L * bs \<le> cap"
    using mult_le_mono1 [OF bc, of bs] by (simp add: algebra_simps)
  have "q * bs \<le> L * bs" using off offs by linarith
  then have q: "q \<le> L" using bs_pos by simp
  have up: "(L * bs - offset + (bs - 1)) div bs = L - q"
  proof -
    have "L * bs - offset + (bs - 1) = (L - q) * bs + (bs - 1 - r)"
      using off offs r by (simp add: diff_mult_distrib)
    also have "\<dots> div bs = (L - q) + (bs - 1 - r) div bs" using bs_pos by (intro div_mult_self3) simp
    finally show ?thesis using r by simp
  qed
  have a1: "add64 (L * bs - offset) (bs - 1) = L * bs - offset + (bs - 1)"
    using b cap_bs_le bs_pos by (intro add64_id) linarith
  have a2: "add64 lba q = lba + q" "add64 (lba + q) (L - q) = lba + L"
    using bc q count_small by (simp_all add: add64_id)
  define st0 where "st0 = \<lparr>current_sector = lba + q, end_sector = lba + L, block_buf = garbage,
    buf_used = bs\<rparr>"
  have ns0: "new_simple_stream dev garbage (lba + q) (L - q) = Some st0"
    using pow a2 by (simp add: new_simple_stream_def st0_def)
  have inv0: "stream_inv dev (content s) st0" using bc q by (simp add: st0_def stream_inv_def)
  have pos0: "stream_pos bs st0 = (lba + q) * bs" by (simp add: st0_def stream_pos_def)
  have open_eq: "gpt_open_partition_stream vb dev gpt partition_name offset s =
      (if r \<noteq> 0 then case simple_stream_skip dev r st0 s of (n, st', s') \<Rightarrow>
           if n \<noteq> r then (Inl GPT_IO_TRANSFER_ERROR, s') else (Inr (st', L * bs - offset), s')
       else (Inr (st0, L * bs - offset), s))"
    using part off ns a1 a2 up ns0
    by (simp add: gpt_open_partition_stream_def Let_def q_def [symmetric] r_def [symmetric])
  show thesis
  proof (cases "r = 0")
    case True
    with that [of st0 s] open_eq inv0 pos0 offs show ?thesis
      by (simp add: st0_def add_mult_distrib)
  next
    case False
    have "(lba + q) * bs + r \<le> (lba + L) * bs" using off offs by (simp add: add_mult_distrib)
    then have le: "stream_pos bs st0 + r \<le> end_sector st0 * bs" using pos0 by (simp add: st0_def)
    obtain st' s' where rd: "simple_stream_read dev False r st0 s =
        (r, (if False then bslice (stream_pos bs st0) r (content s) else []), st', s')"
      and i: "content s' = content s" "stream_inv dev (content s') st'"
      "stream_pos bs st' = stream_pos bs st0 + r" "end_sector st' = end_sector st0"
      by (rule stream_read_ok [OF inv0 le])
    with that [of st' s'] False open_eq pos0 offs show ?thesis
      by (simp add: simple_stream_skip_def st0_def add_mult_distrib)
  qed
qed

lemma open_stream_ok:
  assumes "gpt_entries_ok vb dev gpt" and e: "gpt_find_partition vb gpt name = Some e"
    and "bd_new_stream dev = Some (new_simple_stream dev garbage)" and "and bs (bs - 1) = 0"
    and off: "offset \<le> GptGetEntrySizeBytes vb e"
  obtains st s' where "gpt_open_partition_stream vb dev gpt (Some name) offset s =
      (Inr (st, GptGetEntrySizeBytes vb e - offset), s')"
    and "content s' = content s" and "stream_inv dev (content s') st"
    and "stream_pos bs st = starting_lba vb e * bs + offset"
    and "end_sector st = starting_lba vb e + GptGetEntrySizeLba vb e"
proof -
  have x: "stream_extent vb dev gpt (Some name) (starting_lba vb e) (GptGetEntrySizeLba vb e)"
    using e by (simp add: stream_extent_def)
  show thesis
    by (rule open_stream_extent [OF assms(1) x assms(3,4), of offset s])
       (use that off gpt_entry_bounds(2) [OF assms(1) e] in auto)
qed

lemma gpt_read_ok:
  assumes "gpt_entries_ok vb dev gpt" and e: "gpt_find_partition vb gpt name = Some e"
    and "bd_new_stream dev = Some (new_simple_stream dev garbage)" and "and bs (bs - 1) = 0"
    and le: "offset + data_len \<le> GptGetEntrySizeBytes vb e"
  shows "\<exists>s'. gpt_read_partition vb dev gpt (Some name) offset data_len s =
      (GPT_IO_SUCCESS, bslice (starting_lba vb e * bs + offset) data_len (content s), s') \<and>
    content s' = content s"
proof -
  have off: "offset \<le> GptGetEntrySizeBytes vb e" using le by simp
  obtain st s1 where o: "gpt_open_partition_stream vb dev gpt (Some name) offset s =
      (Inr (st, GptGetEntrySizeBytes vb e - offset), s1)"
    and c1: "content s1 = content s" and inv: "stream_inv dev (content s1) st"
    and pos: "stream_pos bs st = starting_lba vb e * bs + offset"
    and es: "end_sector st = starting_lba vb e + GptGetEntrySizeLba vb e"
    by (rule open_stream_ok [OF assms(1-4) off])
  have fits: "stream_pos bs st + data_len \<le> end_sector st * bs"
    using le pos es gpt_entry_bounds(2) [OF assms(1) e] by (simp add: add_mult_distrib)
  obtain st' s' where rd: "simple_stream_read dev True data_len st s1 =
      (data_len, (if True then bslice (stream_pos bs st) data_len (content s1) else []), st', s')"
    and c: "content s' = content s1"
    by (rule stream_read_ok [OF inv fits])
  with o c1 le pos show ?thesis by (auto simp: gpt_read_partition_def)
qed

lemma gpt_write_raw:
  assumes "gpt_entries_ok vb dev gpt" and "gpt_find_partition vb gpt name = Some e"
    and le: "offset + length data \<le> GptGetEntrySizeBytes vb e"
    and "\<not> is_sparse_image (data @ beyond)"
  shows "\<exists>s'. gpt_write_partition vb dev gpt name offset data beyond s = Some (GPT_IO_SUCCESS, s') \<and>
    content s' = memcpy_at (content s) (starting_lba vb e * bs + offset) data"
proof -
  have off: "offset \<le> GptGetEntrySizeBytes vb e" using le by simp
  note addr = partition_addr [OF assms(1,2) off]
  have fits: "starting_lba vb e * bs + offset + length data \<le> cap" using addr(2) le by linarith
  obtain s' where "blockdev_write_bytes dev (starting_lba vb e * bs + offset) data s = (length data, s')"
    and "content s' = memcpy_at (content s) (starting_lba vb e * bs + offset) data"
    by (rule write_bytes_ok [OF fits])
  with assms(2,4) addr le show ?thesis by (auto simp: gpt_write_partition_def Let_def)
qed

end

text \<open>Writing and erasing return on a device that meets the contract.\<close>

lemma gpt_write_returns:
  assumes "blockdev_ok dev content" and "gpt_entries_ok vb dev gpt"
    and "4 dvd bd_block_size dev" and "bd_block_size dev \<le> 4 * MiB"
  shows "\<exists>r s'. gpt_write_partition vb dev gpt name offset data beyond s = Some (r, s')"
proof (cases "gpt_find_partition vb gpt name")
  case None
  then show ?thesis by (simp add: gpt_write_partition_def)
next
  case (Some e)
  then show ?thesis
    using block_device.gpt_write_confined [OF block_device.intro [OF assms(1)] assms(2) Some assms(3,4)]
    by blast
qed

lemma gpt_erase_returns:
  assumes "blockdev_ok dev content" and "gpt_entries_ok vb dev gpt"
    and "4 dvd bd_block_size dev" and "bd_block_size dev \<le> 4 * MiB"
  shows "\<exists>r s'. gpt_erase_partition vb dev gpt name s = Some (r, s')"
proof (cases "gpt_find_partition vb gpt name")
  case None
  then show ?thesis by (simp add: gpt_erase_partition_def)
next
  case (Some e)
  note bd = block_device.intro [OF assms(1)] and b = gpt_entry_bounds [OF assms(2) Some]
  let ?a = "starting_lba vb e * bd_block_size dev" and ?n = "min (GptGetEntrySizeBytes vb e) (256 * MiB)"
  have m: "mul64 (starting_lba vb e) (bd_block_size dev) = ?a"
    "mul64 (GptGetEntrySizeLba vb e) (bd_block_size dev) = GptGetEntrySizeBytes vb e"
    using b(2,3) block_device.cap_less [OF bd] by (simp_all add: mul64_id)
  have le: "?a + ?n \<le> bd_block_size dev * bd_block_count dev" using b(3) by linarith
  have al: "?a mod 4 = 0" using assms(3) by simp
  have "\<exists>s2. blockdev_fill_write_bytes dev ?a ?n 0xffffffff s1 = Some (?n, s2)" for s1
    by (rule block_device.fill_write_bytes_ok [OF bd le al assms(3,4)]) blast
  then obtain w where w: "\<And>s1. blockdev_fill_write_bytes dev ?a ?n 0xffffffff s1 = Some (?n, w s1)"
    by metis
  obtain ret s1 where "(case bd_erase dev of None \<Rightarrow> (1, s)
      | Some erase \<Rightarrow> erase (starting_lba vb e) (GptGetEntrySizeLba vb e) s) = (ret, s1)"
    by fastforce
  with Some m w show ?thesis by (auto simp: gpt_erase_partition_def Let_def)
qed

section \<open>Properties\<close>

text \<open>A disk of four 4-byte blocks with one partition of two blocks, for the concrete instances.\<close>

definition ex_vboot :: "(string \<times> nat \<times> nat) vboot_gpt" where
  "ex_vboot = \<lparr>IsUnusedEntry = (\<lambda>e. snd (snd e) = 0), utf16le_to_ascii = fst,
     starting_lba = (\<lambda>e. fst (snd e)), GptGetEntrySizeLba = (\<lambda>e. snd (snd e)),
     GptGetEntrySizeBytes = (\<lambda>e. snd (snd e) * 4)\<rparr>"

definition ex_gpt :: "(string \<times> nat \<times> nat) gpt_data" where
  "ex_gpt = \<lparr>sector_bytes = 4, drive_sectors = 4, entries = [(''unused'', 0, 0), (''misc'', 1, 2)],
     gpt_modified = 0\<rparr>"

definition ex_disk :: "u8 list blockdev" where
  "ex_disk = ram_dev\<lparr>bd_new_stream := Some (new_simple_stream ram_dev [])\<rparr>"

lemma ex_disk_ok: "blockdev_ok ex_disk ram_content"
  using ram_dev_ok by (simp add: blockdev_ok_def ex_disk_def)

lemma ex_disk_simps [simp]:
  "bd_block_size ex_disk = 4" "bd_block_count ex_disk = 4"
  "bd_new_stream ex_disk = Some (new_simple_stream ex_disk [])"
  by (simp_all add: ex_disk_def new_simple_stream_def fun_eq_iff)

lemma ex_gpt_ok: "gpt_entries_ok ex_vboot ex_disk ex_gpt"
  by (simp add: gpt_entries_ok_def ex_vboot_def ex_gpt_def)

lemma ex_gpt_find: "gpt_find_partition ex_vboot ex_gpt ''misc'' = Some (''misc'', 1, 2)"
  by (simp add: gpt_find_partition_eq ex_gpt_def ex_vboot_def gpt_get_entry_name_def)

interpretation exd: block_device ex_disk ram_content
  by unfold_locales (rule ex_disk_ok)

text \<open>
  C17. Writing to a partition, with any offset and any data (sparse or not), returns and leaves
  every byte of the disk outside that partition as it was; a name that no used entry has, or
  data that does not fit, writes nothing.
\<close>

theorem gpt_write_partition_confined:
  assumes "blockdev_ok dev content" and "gpt_entries_ok vb dev gpt"
    and "4 dvd bd_block_size dev" and "bd_block_size dev \<le> 4 * MiB"
  shows "\<exists>r s'. gpt_write_partition vb dev gpt name offset data beyond s = Some (r, s') \<and>
    (case gpt_find_partition vb gpt name of
       None \<Rightarrow> r = GPT_IO_NO_PARTITION \<and> s' = s
     | Some e \<Rightarrow>
         (GptGetEntrySizeBytes vb e < offset + length data \<longrightarrow> r = GPT_IO_OUT_OF_RANGE \<and> s' = s) \<and>
         (\<forall>i < length (content s). i < starting_lba vb e * bd_block_size dev \<or>
            starting_lba vb e * bd_block_size dev + GptGetEntrySizeBytes vb e \<le> i \<longrightarrow>
            content s' ! i = content s ! i))"
proof (cases "gpt_find_partition vb gpt name")
  case None
  then show ?thesis by (simp add: gpt_write_partition_def)
next
  case (Some e)
  show ?thesis
  proof (cases "GptGetEntrySizeBytes vb e < offset + length data")
    case True
    with Some show ?thesis by (auto simp: gpt_write_partition_def Let_def)
  next
    case False
    obtain r s' where "gpt_write_partition vb dev gpt name offset data beyond s = Some (r, s')"
      and "same_outside (starting_lba vb e * bd_block_size dev) (GptGetEntrySizeBytes vb e)
             (content s) (content s')"
      using block_device.gpt_write_confined [OF block_device.intro [OF assms(1)] assms(2) Some
          assms(3,4)] by blast
    with False Some show ?thesis by (auto simp: same_outside_def)
  qed
qed

theorem gpt_write_partition_confined_witness:
  "\<exists>s'. gpt_write_partition ex_vboot ex_disk ex_gpt ''misc'' 7 [1, 2] [] [] =
    Some (GPT_IO_OUT_OF_RANGE, s')"
  using gpt_write_partition_confined [OF ex_disk_ok ex_gpt_ok, of "''misc''" 7 "[1, 2]" "[]" "[]"]
  by (auto simp: MiB_def ex_gpt_find) (simp add: ex_vboot_def)

text \<open>
  C18. What \<open>gpt_write_partition\<close> writes, \<open>gpt_read_partition\<close> reads back: plain data that fits at
  an offset of a partition, block aligned or not, is stored at exactly that place and the read of
  the same offset and length succeeds with the same bytes.
\<close>

theorem gpt_write_read_roundtrip:
  assumes "blockdev_ok dev content" and "gpt_entries_ok vb dev gpt"
    and "gpt_find_partition vb gpt name = Some e"
    and "bd_new_stream dev = Some (new_simple_stream dev garbage)"
    and "and (bd_block_size dev) (bd_block_size dev - 1) = 0"
    and "offset + length data \<le> GptGetEntrySizeBytes vb e"
    and "\<not> is_sparse_image (data @ beyond)"
  shows "\<exists>s' s''. gpt_write_partition vb dev gpt name offset data beyond s = Some (GPT_IO_SUCCESS, s') \<and>
    content s' = memcpy_at (content s) (starting_lba vb e * bd_block_size dev + offset) data \<and>
    gpt_read_partition vb dev gpt (Some name) offset (length data) s' = (GPT_IO_SUCCESS, data, s'') \<and>
    content s'' = content s'"
proof -
  note bd = block_device.intro [OF assms(1)]
  let ?a = "starting_lba vb e * bd_block_size dev + offset"
  obtain s' where w: "gpt_write_partition vb dev gpt name offset data beyond s = Some (GPT_IO_SUCCESS, s')"
    and c: "content s' = memcpy_at (content s) ?a data"
    using block_device.gpt_write_raw [OF bd assms(2,3,6,7), of s] by blast
  obtain s'' where r: "gpt_read_partition vb dev gpt (Some name) offset (length data) s' =
      (GPT_IO_SUCCESS, bslice ?a (length data) (content s'), s'')" and c': "content s'' = content s'"
    using block_device.gpt_read_ok [OF bd assms(2-6), of s'] by blast
  have "?a + length data \<le> length (content s)"
    using gpt_entry_bounds(3) [OF assms(2,3)] assms(6) block_device.length_content [OF bd, of s] by simp
  then have "bslice ?a (length data) (content s') = data"
    unfolding c by (rule bslice_memcpy_at_same)
  with w c r c' show ?thesis by auto
qed

theorem gpt_write_read_roundtrip_witness:
  "\<exists>s' s''. gpt_write_partition ex_vboot ex_disk ex_gpt ''misc'' 3 [1, 2] [0, 0, 0, 0] [] =
      Some (GPT_IO_SUCCESS, s') \<and>
    gpt_read_partition ex_vboot ex_disk ex_gpt (Some ''misc'') 3 2 s' = (GPT_IO_SUCCESS, [1, 2], s'')"
proof -
  have "\<not> is_sparse_image ([1, 2] @ [0, 0, 0, 0])"
    by (simp add: is_sparse_image_def image_hdr_at_def le16_dec_def)
  moreover have "and (4::nat) 3 = 0" by code_simp
  moreover have "GptGetEntrySizeBytes ex_vboot (''misc'', 1, 2) = 8" by (simp add: ex_vboot_def)
  ultimately show ?thesis
    using gpt_write_read_roundtrip [OF ex_disk_ok ex_gpt_ok ex_gpt_find, of "[]" 3 "[1, 2]"
        "[0, 0, 0, 0]" "[]"]
    by (auto simp: eval_nat_numeral)
qed

text \<open>
  The convention of the driver's \<open>erase\<close> differs between its implementations and its caller: the
  drivers return the number of blocks erased and zero for an error (\<open>block_mmc_erase\<close>), and
  \<open>gpt_erase_partition\<close> takes zero for success. A failed erase that leaves the device alone is
  reported as \<open>GPT_IO_SUCCESS\<close>.
\<close>

lemma gpt_erase_failure_reported_as_success:
  assumes "gpt_find_partition vb gpt name = Some e" and "bd_erase dev = Some (\<lambda>start n s. (0, s))"
  shows "gpt_erase_partition vb dev gpt name s = Some (GPT_IO_SUCCESS, s)"
  using assms by (simp add: gpt_erase_partition_def Let_def)

text \<open>
  On a device without an \<open>erase\<close> callback, \<open>gpt_erase_partition\<close> ends with success, the first
  \<open>min(partition size, 256 MiB)\<close> bytes of the partition are \<open>0xff\<close>, and nothing else of the
  device has changed.
\<close>

theorem gpt_erase_partition_fills_start:
  assumes "blockdev_ok dev content" and "gpt_entries_ok vb dev gpt"
    and "gpt_find_partition vb gpt name = Some e" and "bd_erase dev = None"
    and "4 dvd bd_block_size dev" and "bd_block_size dev \<le> 4 * MiB"
  shows "\<exists>s'. gpt_erase_partition vb dev gpt name s = Some (GPT_IO_SUCCESS, s') \<and>
    content s' = memcpy_at (content s) (starting_lba vb e * bd_block_size dev)
      (replicate (min (GptGetEntrySizeBytes vb e) (256 * MiB)) 0xff)"
proof -
  note bd = block_device.intro [OF assms(1)]
  let ?a = "starting_lba vb e * bd_block_size dev" and ?n = "min (GptGetEntrySizeBytes vb e) (256 * MiB)"
  note b = gpt_entry_bounds [OF assms(2,3)]
  have "?a + GptGetEntrySizeBytes vb e < 2 ^ 64"
    using b(3) block_device.cap_less [OF bd] by linarith
  then have m: "mul64 (starting_lba vb e) (bd_block_size dev) = ?a"
    "mul64 (GptGetEntrySizeLba vb e) (bd_block_size dev) = GptGetEntrySizeBytes vb e"
    using b(2) by (simp_all add: mul64_id)
  have le: "?a + ?n \<le> bd_block_size dev * bd_block_count dev" using b(3) by linarith
  have al: "?a mod 4 = 0" using assms(5) by simp
  have "le32_bytes 0xffffffff = replicate 4 0xff" by code_simp
  then have fill: "fill_bytes n 0xffffffff = replicate n 0xff" for n
    by (intro nth_equalityI) (simp_all add: fill_bytes_def)
  obtain s' where "blockdev_fill_write_bytes dev ?a ?n 0xffffffff s = Some (?n, s')"
    and "content s' = memcpy_at (content s) ?a (fill_bytes ?n 0xffffffff)"
    by (rule block_device.fill_write_bytes_ok [OF bd le al assms(5,6)])
  with assms(3,4) m fill show ?thesis by (simp add: gpt_erase_partition_def Let_def)
qed

theorem gpt_erase_partition_fills_start_witness:
  "\<exists>s'. gpt_erase_partition ex_vboot ex_disk ex_gpt ''misc'' [] = Some (GPT_IO_SUCCESS, s') \<and>
    ram_content s' = [0, 0, 0, 0, 0xff, 0xff, 0xff, 0xff, 0xff, 0xff, 0xff, 0xff, 0, 0, 0, 0]"
proof -
  have "bd_erase ex_disk = None" by (simp add: ex_disk_def)
  moreover have "starting_lba ex_vboot (''misc'', 1, 2) = 1"
    "GptGetEntrySizeBytes ex_vboot (''misc'', 1, 2) = 8" by (simp_all add: ex_vboot_def)
  moreover have "replicate 8 (0xff :: u8) = [0xff, 0xff, 0xff, 0xff, 0xff, 0xff, 0xff, 0xff]"
    by (simp add: numeral_eq_Suc)
  ultimately show ?thesis
    using gpt_erase_partition_fills_start [OF ex_disk_ok ex_gpt_ok ex_gpt_find, of "[]"]
    by (simp add: MiB_def memcpy_at_def)
qed

end
