(* ===== verification/Android_Misc.thy ===== *)
theory Android_Misc
  imports Gpt
begin

text \<open>
  \<open>src/base/android_misc.c\<close>: the OEM command line, the bootloader message and the virtual A/B
  message kept on the Android misc partition. Structures are records or byte lists in the packed
  layout of \<open>android_misc.h\<close> and \<open>android_misc_core.h\<close>; strings are byte lists without the NUL.
  The name of the misc partition, \<open>GptInit\<close> and \<open>GptNextKernelEntry\<close> are vboot's and \<open>ipchksum\<close> is
  commonlib's: they are arguments. Functions that write to the disk return \<open>None\<close> only where the
  write would not end.
\<close>

section \<open>Model: the OEM command line structure\<close>

record android_misc_oem_cmdline =
  oc_magic :: nat
  oc_version :: nat
  oc_reserved :: nat
  oc_chksum :: nat
  cmdline_len :: nat
  bootconfig_len :: nat
  oc_data :: "u8 list"

definition ANDROID_MISC_OEM_CMDLINE_MAGIC :: nat where
  "ANDROID_MISC_OEM_CMDLINE_MAGIC = 0x4c4d4346"

definition DATA_SIZE :: nat where "DATA_SIZE = 2036"

text \<open>The structure as it lies in memory, and read back from memory.\<close>

definition oem_bytes :: "android_misc_oem_cmdline \<Rightarrow> u8 list" where
  "oem_bytes cmd = le32_bytes (word_of_nat (oc_magic cmd)) @
     [word_of_nat (oc_version cmd), word_of_nat (oc_reserved cmd)] @ le16_bytes (oc_chksum cmd) @
     le16_bytes (cmdline_len cmd) @ le16_bytes (bootconfig_len cmd) @ oc_data cmd"

definition oem_of_bytes :: "u8 list \<Rightarrow> android_misc_oem_cmdline" where
  "oem_of_bytes b = \<lparr>oc_magic = le32_dec b 0, oc_version = unat (b ! 4), oc_reserved = unat (b ! 5),
     oc_chksum = le16_dec b 6, cmdline_len = le16_dec b 8, bootconfig_len = le16_dec b 10,
     oc_data = drop 12 b\<rparr>"

definition OEM_CMDLINE_CHECKSUM_SIZE :: "android_misc_oem_cmdline \<Rightarrow> nat" where
  "OEM_CMDLINE_CHECKSUM_SIZE cmd = 12 + cmdline_len cmd + bootconfig_len cmd"

definition is_android_misc_cmd_separator :: "u8 \<Rightarrow> bool \<Rightarrow> bool" where
  "is_android_misc_cmd_separator c bootconfig =
     (if bootconfig then c = 10 \<or> c = 59 else is_space c)"

text \<open>The offset in \<open>data\<close> that \<open>android_misc_get_oem_cmd\<close> points to.\<close>

definition android_misc_get_oem_cmd :: "android_misc_oem_cmdline \<Rightarrow> bool \<Rightarrow> nat" where
  "android_misc_get_oem_cmd cmd bootconfig = (if bootconfig then cmdline_len cmd else 0)"

definition is_android_misc_oem_cmdline_valid ::
  "(u8 list \<Rightarrow> nat) \<Rightarrow> android_misc_oem_cmdline \<Rightarrow> bool" where
  "is_android_misc_oem_cmdline_valid ipchksum cmd =
     (if oc_magic cmd \<noteq> ANDROID_MISC_OEM_CMDLINE_MAGIC then False
      else if oc_version cmd \<noteq> 0 then False
      else if cmdline_len cmd + bootconfig_len cmd > DATA_SIZE \<or>
              cmdline_len cmd < 1 \<or> bootconfig_len cmd < 1 then False
      else let cmdline_end = android_misc_get_oem_cmd cmd False + cmdline_len cmd - 1;
               bootcfg_end = android_misc_get_oem_cmd cmd True + bootconfig_len cmd - 1
           in if oc_data cmd ! cmdline_end \<noteq> 0 \<or> oc_data cmd ! bootcfg_end \<noteq> 0 \<or>
                 (cmdline_len cmd > 1 \<and>
                  \<not> is_android_misc_cmd_separator (oc_data cmd ! (cmdline_end - 1)) False) \<or>
                 (bootconfig_len cmd > 1 \<and>
                  \<not> is_android_misc_cmd_separator (oc_data cmd ! (bootcfg_end - 1)) True)
              then False
              else if ipchksum (take (OEM_CMDLINE_CHECKSUM_SIZE cmd) (oem_bytes cmd)) \<noteq> 0 then False
              else True)"

definition android_misc_oem_cmdline_update_checksum ::
  "(u8 list \<Rightarrow> nat) \<Rightarrow> android_misc_oem_cmdline \<Rightarrow> int \<times> android_misc_oem_cmdline" where
  "android_misc_oem_cmdline_update_checksum ipchksum cmd =
     (if cmdline_len cmd + bootconfig_len cmd > DATA_SIZE then (- 1, cmd)
      else let cmd = cmd\<lparr>oc_chksum := 0\<rparr>
           in (0, cmd\<lparr>oc_chksum :=
                 ipchksum (take (OEM_CMDLINE_CHECKSUM_SIZE cmd) (oem_bytes cmd))\<rparr>))"

definition android_misc_append_oem_cmd ::
  "android_misc_oem_cmdline \<Rightarrow> u8 list \<Rightarrow> bool \<Rightarrow> int \<times> android_misc_oem_cmdline" where
  "android_misc_append_oem_cmd cmd buf bootconfig =
     (let buf_len = length buf + 1
      in if buf_len = 1 then (0, cmd)
         else if buf_len > sub64 (sub64 DATA_SIZE (cmdline_len cmd)) (bootconfig_len cmd)
         then (- 1, cmd)
         else if bootconfig
         then let append_to = cmdline_len cmd + bootconfig_len cmd - 1;
                  data = (oc_data cmd)[append_to + (buf_len - 1) := 10];
                  data = memcpy_at data append_to buf;
                  data = data[append_to + buf_len := 0]
              in (0, cmd\<lparr>oc_data := data,
                         bootconfig_len := (bootconfig_len cmd + buf_len) mod 65536\<rparr>)
         else let append_to = cmdline_len cmd - 1;
                  data = memcpy_at (oc_data cmd) (append_to + buf_len + 1)
                           (bslice (android_misc_get_oem_cmd cmd True) (bootconfig_len cmd)
                              (oc_data cmd));
                  data = data[append_to + (buf_len - 1) := 32];
                  data = memcpy_at data append_to buf;
                  data = data[append_to + buf_len := 0]
              in (0, cmd\<lparr>oc_data := data,
                         cmdline_len := (cmdline_len cmd + buf_len) mod 65536\<rparr>))"

definition android_misc_del_oem_cmd ::
  "android_misc_oem_cmdline \<Rightarrow> nat \<Rightarrow> nat \<Rightarrow> bool \<Rightarrow> int \<times> android_misc_oem_cmdline" where
  "android_misc_del_oem_cmd cmd idx len bootconfig =
     (let to_del = android_misc_get_oem_cmd cmd bootconfig + idx
      in if bootconfig
         then if idx \<ge> bootconfig_len cmd \<or> bootconfig_len cmd - idx \<le> len then (- 1, cmd)
              else let bl = bootconfig_len cmd - len; following_data = bl - idx
                   in (0, cmd\<lparr>bootconfig_len := bl,
                              oc_data := memcpy_at (oc_data cmd) to_del
                                (bslice (to_del + len) following_data (oc_data cmd))\<rparr>)
         else if idx \<ge> cmdline_len cmd \<or> cmdline_len cmd - idx \<le> len then (- 1, cmd)
              else let cl = cmdline_len cmd - len; following_data = cl - idx + bootconfig_len cmd
                   in (0, cmd\<lparr>cmdline_len := cl,
                              oc_data := memcpy_at (oc_data cmd) to_del
                                (bslice (to_del + len) following_data (oc_data cmd))\<rparr>))"

definition android_misc_set_oem_cmd ::
  "android_misc_oem_cmdline \<Rightarrow> u8 list \<Rightarrow> bool \<Rightarrow> int \<times> android_misc_oem_cmdline" where
  "android_misc_set_oem_cmd cmd buf bootconfig =
     (if bootconfig
      then if length buf > sub64 (sub64 DATA_SIZE (cmdline_len cmd)) 1 then (- 1, cmd)
           else (case android_misc_del_oem_cmd cmd 0 (sub64 (bootconfig_len cmd) 1) True of
                   (rc, cmd') \<Rightarrow> if rc \<noteq> 0 then (- 1, cmd')
                                else android_misc_append_oem_cmd cmd' buf bootconfig)
      else if length buf > sub64 (sub64 DATA_SIZE (bootconfig_len cmd)) 1 then (- 1, cmd)
           else (case android_misc_del_oem_cmd cmd 0 (sub64 (cmdline_len cmd) 1) False of
                   (rc, cmd') \<Rightarrow> if rc \<noteq> 0 then (- 1, cmd')
                                else android_misc_append_oem_cmd cmd' buf bootconfig))"

definition android_misc_reset_oem_cmd ::
  "(u8 list \<Rightarrow> nat) \<Rightarrow> android_misc_oem_cmdline \<Rightarrow> android_misc_oem_cmdline" where
  "android_misc_reset_oem_cmd ipchksum cmd =
     snd (android_misc_oem_cmdline_update_checksum ipchksum
            (cmd\<lparr>oc_magic := ANDROID_MISC_OEM_CMDLINE_MAGIC, oc_version := 0, oc_reserved := 0,
                 oc_data := (oc_data cmd)[0 := 0, 1 := 0], cmdline_len := 1, bootconfig_len := 1\<rparr>))"

section \<open>Model: the misc partition\<close>

text \<open>
  The environment: the vboot functions of \<open>gpt.c\<close>, the name of the misc partition, the result of
  \<open>GptInit\<close> and of the first \<open>GptNextKernelEntry\<close> after it, and \<open>ipchksum\<close>.
\<close>

record 'e misc_env =
  env_vb :: "'e vboot_gpt"
  env_misc_name :: string
  env_gpt_init_ok :: bool
  env_next_kernel :: "'e option"
  env_ipchksum :: "u8 list \<Rightarrow> nat"

definition MISC_VENDOR_SPACE_OEM_CMDLINE_OFFSET :: nat where
  "MISC_VENDOR_SPACE_OEM_CMDLINE_OFFSET = 1024 * 4"
definition MISC_SYSTEM_SPACE_OFFSET :: nat where "MISC_SYSTEM_SPACE_OFFSET = 32 * 1024"
definition OEM_CMDLINE_SIZE :: nat where "OEM_CMDLINE_SIZE = 2048"
definition BCB_SIZE :: nat where "BCB_SIZE = 2048"
definition SYSTEM_SPACE_SIZE :: nat where "SYSTEM_SPACE_SIZE = 512"

definition android_misc_read ::
  "'e misc_env \<Rightarrow> 's blockdev \<Rightarrow> 'e gpt_data \<Rightarrow> nat \<Rightarrow> nat \<Rightarrow> 's \<Rightarrow> int \<times> u8 list \<times> 's" where
  "android_misc_read env disk gpt offset sz s =
     (case gpt_read_partition (env_vb env) disk gpt (Some (env_misc_name env)) offset sz s of
        (ret, buf, s') \<Rightarrow> (if ret \<noteq> GPT_IO_SUCCESS then - 1 else 0, buf, s'))"

text \<open>The structures written are longer than a sparse header, so nothing beyond them is read.\<close>

definition android_misc_write ::
  "'e misc_env \<Rightarrow> 's blockdev \<Rightarrow> 'e gpt_data \<Rightarrow> nat \<Rightarrow> u8 list \<Rightarrow> 's \<Rightarrow> (int \<times> 's) option" where
  "android_misc_write env disk gpt offset buf s =
     (case gpt_write_partition (env_vb env) disk gpt (env_misc_name env) offset buf [] s of
        None \<Rightarrow> None
      | Some (ret, s') \<Rightarrow> Some (if ret \<noteq> GPT_IO_SUCCESS then - 1 else 0, s'))"

definition android_misc_oem_cmdline_write ::
  "'e misc_env \<Rightarrow> 's blockdev \<Rightarrow> 'e gpt_data \<Rightarrow> android_misc_oem_cmdline \<Rightarrow> 's \<Rightarrow>
   (int \<times> android_misc_oem_cmdline \<times> 's) option" where
  "android_misc_oem_cmdline_write env disk gpt cmd s =
     (case android_misc_oem_cmdline_update_checksum (env_ipchksum env) cmd of (rc, cmd') \<Rightarrow>
        if rc \<noteq> 0 then Some (- 1, cmd', s)
        else case android_misc_write env disk gpt MISC_VENDOR_SPACE_OEM_CMDLINE_OFFSET
                    (oem_bytes cmd') s of
               None \<Rightarrow> None
             | Some (rc', s') \<Rightarrow> Some (rc', cmd', s'))"

definition android_misc_oem_cmdline_read ::
  "'e misc_env \<Rightarrow> 's blockdev \<Rightarrow> 'e gpt_data \<Rightarrow> 's \<Rightarrow> int \<times> android_misc_oem_cmdline \<times> 's" where
  "android_misc_oem_cmdline_read env disk gpt s =
     (case android_misc_read env disk gpt MISC_VENDOR_SPACE_OEM_CMDLINE_OFFSET OEM_CMDLINE_SIZE s of
        (rc, buf, s') \<Rightarrow>
          let cmd = oem_of_bytes buf
          in if rc \<noteq> 0 then (- 1, cmd, s')
             else if \<not> is_android_misc_oem_cmdline_valid (env_ipchksum env) cmd then (- 1, cmd, s')
             else (0, cmd, s'))"

definition android_misc_bcb_write ::
  "'e misc_env \<Rightarrow> 's blockdev \<Rightarrow> 'e gpt_data \<Rightarrow> u8 list \<Rightarrow> 's \<Rightarrow> (int \<times> 's) option" where
  "android_misc_bcb_write env disk gpt bcb s = android_misc_write env disk gpt 0 bcb s"

definition android_misc_bcb_read ::
  "'e misc_env \<Rightarrow> 's blockdev \<Rightarrow> 'e gpt_data \<Rightarrow> 's \<Rightarrow> int \<times> u8 list \<times> 's" where
  "android_misc_bcb_read env disk gpt s = android_misc_read env disk gpt 0 BCB_SIZE s"

datatype android_misc_bcb_command =
    MISC_BCB_NORMAL_BOOT | MISC_BCB_RECOVERY_BOOT | MISC_BCB_BOOTLOADER_BOOT
  | MISC_BCB_UNKNOWN | MISC_BCB_DISK_ERROR

text \<open>\<open>!strcmp(b, lit)\<close> for the bytes \<open>b\<close> in memory and a string literal.\<close>

definition strcmp_eq :: "u8 list \<Rightarrow> string \<Rightarrow> bool" where
  "strcmp_eq b lit \<longleftrightarrow> take (length lit + 1) b = c_bytes lit @ [0]"

definition BCB_CMD_BOOTONCE_BOOTLOADER :: string where
  "BCB_CMD_BOOTONCE_BOOTLOADER = ''bootonce-bootloader''"
definition BCB_CMD_BOOT_RECOVERY :: string where
  "BCB_CMD_BOOT_RECOVERY = ''boot-recovery''"

text \<open>The command is the first 32 bytes of \<open>struct bootloader_message\<close>.\<close>

definition android_misc_get_bcb_command ::
  "'e misc_env \<Rightarrow> 's blockdev \<Rightarrow> 'e gpt_data \<Rightarrow> 's \<Rightarrow> (android_misc_bcb_command \<times> 's) option" where
  "android_misc_get_bcb_command env disk gpt s =
     (case android_misc_bcb_read env disk gpt s of (rc, bcb, s') \<Rightarrow>
        if rc \<noteq> 0 then Some (MISC_BCB_DISK_ERROR, s')
        else if strcmp_eq bcb BCB_CMD_BOOT_RECOVERY then Some (MISC_BCB_RECOVERY_BOOT, s')
        else if strcmp_eq bcb BCB_CMD_BOOTONCE_BOOTLOADER
        then (case android_misc_bcb_write env disk gpt (memcpy_at bcb 0 (replicate 32 0)) s' of
                None \<Rightarrow> None
              | Some (_, s'') \<Rightarrow> Some (MISC_BCB_BOOTLOADER_BOOT, s''))
        else if bcb ! 0 = 0 then Some (MISC_BCB_NORMAL_BOOT, s')
        else Some (MISC_BCB_UNKNOWN, s'))"

definition android_misc_system_space_write ::
  "'e misc_env \<Rightarrow> 's blockdev \<Rightarrow> 'e gpt_data \<Rightarrow> u8 list \<Rightarrow> 's \<Rightarrow> (int \<times> 's) option" where
  "android_misc_system_space_write env disk gpt space s =
     android_misc_write env disk gpt MISC_SYSTEM_SPACE_OFFSET space s"

definition android_misc_system_space_read ::
  "'e misc_env \<Rightarrow> 's blockdev \<Rightarrow> 'e gpt_data \<Rightarrow> 's \<Rightarrow> int \<times> u8 list \<times> 's" where
  "android_misc_system_space_read env disk gpt s =
     android_misc_read env disk gpt MISC_SYSTEM_SPACE_OFFSET SYSTEM_SPACE_SIZE s"

text \<open>The slot character, 0 when there is none.\<close>

definition android_misc_get_active_slot :: "'e misc_env \<Rightarrow> nat" where
  "android_misc_get_active_slot env =
     (if \<not> env_gpt_init_ok env then 0
      else case env_next_kernel env of
             None \<Rightarrow> 0
           | Some part \<Rightarrow>
               (case gpt_get_entry_name (env_vb env) part of
                  None \<Rightarrow> 0
                | Some name \<Rightarrow> if name = [] then 0 else of_char (last name)))"

definition android_misc_slot_to_num :: "nat \<Rightarrow> int" where
  "android_misc_slot_to_num slot = int slot - 97"

text \<open>\<open>struct misc_virtual_ab_message\<close> at the start of the system space: version, magic, merge
  status and source slot at offsets 0, 1, 5 and 6.\<close>

definition is_virtual_ab_message_valid :: "u8 list \<Rightarrow> bool" where
  "is_virtual_ab_message_valid msg \<longleftrightarrow> unat (msg ! 0) = 2 \<and> le32_dec msg 1 = 0x56740AB0"

datatype virtual_ab_merge_status =
    MERGE_STATUS_NONE | MERGE_STATUS_SNAPSHOTTED | MERGE_STATUS_MERGING | MERGE_STATUS_DISK_ERROR

definition MISC_VIRTUAL_AB_MERGE_STATUS_SNAPSHOTTED :: u8 where
  "MISC_VIRTUAL_AB_MERGE_STATUS_SNAPSHOTTED = 2"
definition MISC_VIRTUAL_AB_MERGE_STATUS_MERGING :: u8 where
  "MISC_VIRTUAL_AB_MERGE_STATUS_MERGING = 3"
definition MISC_VIRTUAL_AB_MERGE_STATUS_CANCELLED :: u8 where
  "MISC_VIRTUAL_AB_MERGE_STATUS_CANCELLED = 4"

definition android_misc_get_virtual_ab_merge_status ::
  "'e misc_env \<Rightarrow> 's blockdev \<Rightarrow> 'e gpt_data \<Rightarrow> 's \<Rightarrow> virtual_ab_merge_status \<times> 's" where
  "android_misc_get_virtual_ab_merge_status env disk gpt s =
     (case android_misc_system_space_read env disk gpt s of (rc, space, s') \<Rightarrow>
        if rc \<noteq> 0 then (MERGE_STATUS_DISK_ERROR, s')
        else if \<not> is_virtual_ab_message_valid space then (MERGE_STATUS_NONE, s')
        else if space ! 5 = MISC_VIRTUAL_AB_MERGE_STATUS_MERGING then (MERGE_STATUS_MERGING, s')
        else if space ! 5 = MISC_VIRTUAL_AB_MERGE_STATUS_SNAPSHOTTED
        then (if int (unat (space ! 6)) \<noteq> android_misc_slot_to_num (android_misc_get_active_slot env)
              then MERGE_STATUS_SNAPSHOTTED else MERGE_STATUS_NONE, s')
        else (MERGE_STATUS_NONE, s'))"

definition android_misc_virtual_ab_cancel_update ::
  "'e misc_env \<Rightarrow> 's blockdev \<Rightarrow> 'e gpt_data \<Rightarrow> 's \<Rightarrow> (int \<times> 's) option" where
  "android_misc_virtual_ab_cancel_update env disk gpt s =
     (case android_misc_system_space_read env disk gpt s of (rc, space, s') \<Rightarrow>
        if rc \<noteq> 0 then Some (- 1, s')
        else if \<not> is_virtual_ab_message_valid space then Some (0, s')
        else if space ! 5 \<noteq> MISC_VIRTUAL_AB_MERGE_STATUS_MERGING \<and>
                space ! 5 \<noteq> MISC_VIRTUAL_AB_MERGE_STATUS_SNAPSHOTTED then Some (0, s')
        else let slot = android_misc_get_active_slot env
             in if slot = 0 then Some (- 1, s')
                else case android_misc_system_space_write env disk gpt
                            (space[5 := MISC_VIRTUAL_AB_MERGE_STATUS_CANCELLED,
                                   6 := word_of_int (android_misc_slot_to_num slot)]) s' of
                       None \<Rightarrow> None
                     | Some (rc', s'') \<Rightarrow> Some (if rc' \<noteq> 0 then - 1 else 1, s''))"

section \<open>The two strings it holds\<close>

definition oem_inv :: "android_misc_oem_cmdline \<Rightarrow> bool" where
  "oem_inv cmd \<longleftrightarrow> length (oc_data cmd) = DATA_SIZE \<and> 1 \<le> cmdline_len cmd \<and>
     1 \<le> bootconfig_len cmd \<and> cmdline_len cmd + bootconfig_len cmd \<le> DATA_SIZE \<and>
     oc_data cmd ! (cmdline_len cmd - 1) = 0 \<and>
     oc_data cmd ! (cmdline_len cmd + bootconfig_len cmd - 1) = 0"

definition oem_cmdline :: "android_misc_oem_cmdline \<Rightarrow> u8 list" where
  "oem_cmdline cmd = take (cmdline_len cmd - 1) (oc_data cmd)"

definition oem_bootconfig :: "android_misc_oem_cmdline \<Rightarrow> u8 list" where
  "oem_bootconfig cmd = bslice (cmdline_len cmd) (bootconfig_len cmd - 1) (oc_data cmd)"

definition oem_shape :: "android_misc_oem_cmdline \<Rightarrow> u8 list \<Rightarrow> u8 list \<Rightarrow> u8 list \<Rightarrow> bool" where
  "oem_shape cmd cl bc rest \<longleftrightarrow> oc_data cmd = cl @ 0 # bc @ 0 # rest \<and>
     cmdline_len cmd = length cl + 1 \<and> bootconfig_len cmd = length bc + 1 \<and>
     length cl + length bc + length rest + 2 = DATA_SIZE"

lemma oem_shapeI:
  assumes "oem_inv cmd"
  shows "\<exists>rest. oem_shape cmd (oem_cmdline cmd) (oem_bootconfig cmd) rest"
proof -
  let ?c = "cmdline_len cmd" and ?b = "bootconfig_len cmd" and ?d = "oc_data cmd"
  have l: "?c - 1 < length ?d" "?c + ?b - 1 < length ?d" "1 \<le> ?c" "1 \<le> ?b"
    using assms by (auto simp: oem_inv_def)
  have "?d = take (?c - 1) ?d @ 0 # drop ?c ?d"
    using id_take_nth_drop [OF l(1)] assms l(3) by (simp add: oem_inv_def)
  moreover have "drop ?c ?d = take (?b - 1) (drop ?c ?d) @ 0 # drop (?c + ?b) ?d"
    using id_take_nth_drop [of "?b - 1" "drop ?c ?d"] assms l by (simp add: oem_inv_def add.commute)
  ultimately have "?d = oem_cmdline cmd @ 0 # oem_bootconfig cmd @ 0 # drop (?c + ?b) ?d"
    by (simp add: oem_cmdline_def oem_bootconfig_def bslice_def)
  then show ?thesis
    using assms by (auto simp: oem_shape_def oem_inv_def oem_cmdline_def oem_bootconfig_def)
qed

lemma oem_shapeD:
  assumes "oem_shape cmd cl bc rest"
  shows "oem_inv cmd" and "oem_cmdline cmd = cl" and "oem_bootconfig cmd = bc"
  using assms by (auto simp: oem_shape_def oem_inv_def oem_cmdline_def oem_bootconfig_def
      bslice_def nth_append)

lemma append_string:
  assumes "p + length buf + 2 \<le> length d"
  shows "(memcpy_at (d[p + length buf := x]) p buf)[p + (length buf + 1) := y] =
    take p d @ buf @ x # y # drop (p + length buf + 2) d"
  by (rule nth_equalityI)
     (use assms in \<open>auto simp: nth_memcpy_at nth_list_update nth_append nth_Cons split: nat.split
       intro!: arg_cong [of _ _ "(!) d"]\<close>)

lemma space_left:
  assumes "oem_shape cmd cl bc rest"
  shows "sub64 (sub64 DATA_SIZE (cmdline_len cmd)) (bootconfig_len cmd) = length rest"
  using assms by (auto simp: oem_shape_def DATA_SIZE_def sub64_id)

lemma drop_past: "n = length xs + k \<Longrightarrow> drop n (xs @ ys) = drop k ys"
  by simp

lemma append_bootconfig_shape:
  assumes "oem_shape cmd cl bc rest" and "buf \<noteq> []" and "length buf + 1 \<le> length rest"
  shows "\<exists>cmd'. android_misc_append_oem_cmd cmd buf True = (0, cmd') \<and>
    oem_shape cmd' cl (bc @ buf @ [10]) (drop (length buf + 1) rest)"
proof -
  let ?p = "length cl + length bc + 1"
  have "length (oc_data cmd) = DATA_SIZE" "DATA_SIZE = length cl + length bc + length rest + 2"
    using assms(1) by (simp_all add: oem_shape_def)
  moreover have "take ?p (oc_data cmd) = cl @ 0 # bc"
    "drop (?p + length buf + 2) (oc_data cmd) = drop (length buf + 1) rest"
    using assms(1) drop_past [of _ "cl @ 0 # bc @ [0]" "length buf + 1" rest]
    by (simp_all add: oem_shape_def)
  ultimately have
    "(memcpy_at ((oc_data cmd)[?p + length buf := 10]) ?p buf)[?p + (length buf + 1) := 0] =
      cl @ 0 # (bc @ buf @ [10]) @ 0 # drop (length buf + 1) rest"
    using append_string [of ?p buf "oc_data cmd" 10 0] assms(3) by simp
  then show ?thesis
    using assms space_left [OF assms(1)]
    by (auto simp: android_misc_append_oem_cmd_def Let_def oem_shape_def DATA_SIZE_def)
qed

lemma append_cmdline_shape:
  assumes "oem_shape cmd cl bc rest" and "buf \<noteq> []" and "length buf + 1 \<le> length rest"
  shows "\<exists>cmd'. android_misc_append_oem_cmd cmd buf False = (0, cmd') \<and>
    oem_shape cmd' (cl @ buf @ [32]) bc (drop (length buf + 1) rest)"
proof -
  let ?p = "length cl" and ?d = "oc_data cmd"
  have len: "length ?d = DATA_SIZE" "DATA_SIZE = length cl + length bc + length rest + 2"
    using assms(1) by (simp_all add: oem_shape_def)
  let ?m = "memcpy_at ?d (?p + (length buf + 1) + 1) (bslice (length cl + 1) (length bc + 1) ?d)"
  have "bslice (length cl + 1) (length bc + 1) ?d = bc @ [0]"
    using assms(1) by (simp add: oem_shape_def bslice_def)
  moreover have "drop (?p + length buf + 2 + (length bc + 1)) ?d = drop (length buf + 1) rest"
    using assms(1) drop_past [of _ "cl @ 0 # bc @ [0]" "length buf + 1" rest]
    by (simp add: oem_shape_def add.commute [of "length buf"])
  ultimately have m: "?m = take (?p + length buf + 2) ?d @ bc @ 0 # drop (length buf + 1) rest"
    by (simp add: memcpy_at_def)
  have "(memcpy_at (?m[?p + length buf := 32]) ?p buf)[?p + (length buf + 1) := 0] =
      (cl @ buf @ [32]) @ 0 # bc @ 0 # drop (length buf + 1) rest"
    using append_string [of ?p buf ?m 32 0] assms len unfolding m
    by (simp add: oem_shape_def)
  then show ?thesis
    using assms space_left [OF assms(1)]
    by (auto simp: android_misc_append_oem_cmd_def Let_def oem_shape_def DATA_SIZE_def
        android_misc_get_oem_cmd_def)
qed

lemma del_bootconfig_shape:
  assumes "oem_shape cmd cl bc rest" and "idx + len \<le> length bc"
  shows "\<exists>cmd' rest'. android_misc_del_oem_cmd cmd idx len True = (0, cmd') \<and>
    oem_shape cmd' cl (take idx bc @ drop (idx + len) bc) rest'"
proof -
  have "oem_shape (snd (android_misc_del_oem_cmd cmd idx len True)) cl
      (take idx bc @ drop (idx + len) bc) (drop (length bc - len + 1) (bc @ 0 # rest))"
    using assms by (auto simp: oem_shape_def android_misc_del_oem_cmd_def Let_def
        android_misc_get_oem_cmd_def memcpy_at_def bslice_def)
  moreover have "fst (android_misc_del_oem_cmd cmd idx len True) = 0"
    using assms by (auto simp: oem_shape_def android_misc_del_oem_cmd_def Let_def)
  ultimately show ?thesis by (metis prod.collapse)
qed

lemma del_cmdline_shape:
  assumes "oem_shape cmd cl bc rest" and "idx + len \<le> length cl"
  shows "\<exists>cmd' rest'. android_misc_del_oem_cmd cmd idx len False = (0, cmd') \<and>
    oem_shape cmd' (take idx cl @ drop (idx + len) cl) bc rest'"
proof -
  have "oem_shape (snd (android_misc_del_oem_cmd cmd idx len False))
      (take idx cl @ drop (idx + len) cl) bc
      (drop (length cl - len + length bc + 2) (cl @ 0 # bc @ 0 # rest))"
    using assms by (auto simp: oem_shape_def android_misc_del_oem_cmd_def Let_def
        android_misc_get_oem_cmd_def memcpy_at_def bslice_def)
  moreover have "fst (android_misc_del_oem_cmd cmd idx len False) = 0"
    using assms by (auto simp: oem_shape_def android_misc_del_oem_cmd_def Let_def)
  ultimately show ?thesis by (metis prod.collapse)
qed

lemma append_oem_cmd_cases:
  assumes "oem_inv cmd"
  shows "android_misc_append_oem_cmd cmd [] bootconfig = (0, cmd)"
    and "buf \<noteq> [] \<Longrightarrow> DATA_SIZE - cmdline_len cmd - bootconfig_len cmd < length buf + 1 \<Longrightarrow>
      android_misc_append_oem_cmd cmd buf bootconfig = (- 1, cmd)"
    and "buf \<noteq> [] \<Longrightarrow> length buf + 1 \<le> DATA_SIZE - cmdline_len cmd - bootconfig_len cmd \<Longrightarrow>
      \<exists>cmd'. android_misc_append_oem_cmd cmd buf bootconfig = (0, cmd') \<and> oem_inv cmd' \<and>
        oem_cmdline cmd' = oem_cmdline cmd @ (if bootconfig then [] else buf @ [32]) \<and>
        oem_bootconfig cmd' = oem_bootconfig cmd @ (if bootconfig then buf @ [10] else [])"
proof -
  obtain rest where sh: "oem_shape cmd (oem_cmdline cmd) (oem_bootconfig cmd) rest"
    using oem_shapeI [OF assms] by blast
  have free: "DATA_SIZE - cmdline_len cmd - bootconfig_len cmd = length rest"
    using sh by (auto simp: oem_shape_def)
  show "android_misc_append_oem_cmd cmd [] bootconfig = (0, cmd)"
    by (simp add: android_misc_append_oem_cmd_def)
  show "android_misc_append_oem_cmd cmd buf bootconfig = (- 1, cmd)"
    if "buf \<noteq> []" "DATA_SIZE - cmdline_len cmd - bootconfig_len cmd < length buf + 1"
    using that free space_left [OF sh] by (simp add: android_misc_append_oem_cmd_def Let_def)
  show "\<exists>cmd'. android_misc_append_oem_cmd cmd buf bootconfig = (0, cmd') \<and> oem_inv cmd' \<and>
      oem_cmdline cmd' = oem_cmdline cmd @ (if bootconfig then [] else buf @ [32]) \<and>
      oem_bootconfig cmd' = oem_bootconfig cmd @ (if bootconfig then buf @ [10] else [])"
    if "buf \<noteq> []" "length buf + 1 \<le> DATA_SIZE - cmdline_len cmd - bootconfig_len cmd"
    using that free append_cmdline_shape [OF sh, of buf] append_bootconfig_shape [OF sh, of buf]
    by (cases bootconfig) (auto dest: oem_shapeD)
qed

lemma del_oem_cmd_ok:
  assumes "oem_inv cmd"
    and "idx + len < (if bootconfig then bootconfig_len cmd else cmdline_len cmd)"
  shows "\<exists>cmd'. android_misc_del_oem_cmd cmd idx len bootconfig = (0, cmd') \<and> oem_inv cmd' \<and>
    oem_cmdline cmd' = (if bootconfig then oem_cmdline cmd
      else take idx (oem_cmdline cmd) @ drop (idx + len) (oem_cmdline cmd)) \<and>
    oem_bootconfig cmd' = (if bootconfig
      then take idx (oem_bootconfig cmd) @ drop (idx + len) (oem_bootconfig cmd)
      else oem_bootconfig cmd)"
proof -
  obtain rest where sh: "oem_shape cmd (oem_cmdline cmd) (oem_bootconfig cmd) rest"
    using oem_shapeI [OF assms(1)] by blast
  show ?thesis
  proof (cases bootconfig)
    case True
    with assms(2) sh have "idx + len \<le> length (oem_bootconfig cmd)" by (simp add: oem_shape_def)
    from del_bootconfig_shape [OF sh this] True show ?thesis by (auto dest: oem_shapeD)
  next
    case False
    with assms(2) sh have "idx + len \<le> length (oem_cmdline cmd)" by (simp add: oem_shape_def)
    from del_cmdline_shape [OF sh this] False show ?thesis by (auto dest: oem_shapeD)
  qed
qed

lemma del_oem_cmd_out_of_range:
  assumes "\<not> idx + len < (if bootconfig then bootconfig_len cmd else cmdline_len cmd)"
  shows "android_misc_del_oem_cmd cmd idx len bootconfig = (- 1, cmd)"
  using assms by (cases bootconfig) (auto simp: android_misc_del_oem_cmd_def Let_def)

lemma oem_lengths:
  assumes "oem_inv cmd"
  shows "cmdline_len cmd = length (oem_cmdline cmd) + 1"
    and "bootconfig_len cmd = length (oem_bootconfig cmd) + 1"
  using oem_shapeI [OF assms] by (auto simp: oem_shape_def)

text \<open>
  The size check of \<open>android_misc_set_oem_cmd\<close> leaves out the separator that the append adds: a
  string that is one byte too long passes the check, the old value is deleted, and then the append
  fails. The caller sees -1 and the previous boot configuration is gone.
\<close>

lemma set_oem_cmd_loses_value:
  assumes "oem_inv cmd" and "buf \<noteq> []" and "length buf + 1 + cmdline_len cmd = DATA_SIZE"
  shows "\<exists>cmd'. android_misc_set_oem_cmd cmd buf True = (- 1, cmd') \<and> oem_bootconfig cmd' = []"
proof -
  let ?n = "bootconfig_len cmd - 1"
  have b: "1 \<le> bootconfig_len cmd" "bootconfig_len cmd < 2 ^ 64" "cmdline_len cmd \<le> DATA_SIZE"
    using assms(1) by (auto simp: oem_inv_def DATA_SIZE_def)
  obtain cmd' where d: "android_misc_del_oem_cmd cmd 0 ?n True = (0, cmd')" and i: "oem_inv cmd'"
    and c: "oem_cmdline cmd' = oem_cmdline cmd" and e: "oem_bootconfig cmd' = []"
    using del_oem_cmd_ok [OF assms(1), of 0 ?n True] b oem_lengths [OF assms(1)] by auto
  have "cmdline_len cmd' = cmdline_len cmd" "bootconfig_len cmd' = 1"
    using oem_lengths [OF i] oem_lengths [OF assms(1)] c e by simp_all
  then have "android_misc_append_oem_cmd cmd' buf True = (- 1, cmd')"
    using append_oem_cmd_cases(2) [OF i assms(2), of True] assms(3) by simp
  moreover have "sub64 (sub64 DATA_SIZE (cmdline_len cmd)) 1 = length buf"
    "sub64 (bootconfig_len cmd) 1 = ?n"
    using b assms(3) by (auto simp: DATA_SIZE_def sub64_id)
  ultimately show ?thesis using d e by (simp add: android_misc_set_oem_cmd_def)
qed

lemma set_oem_cmd_ok:
  assumes "oem_inv cmd" and "buf \<noteq> []"
    and "length buf + 2 + (if bootconfig then cmdline_len cmd else bootconfig_len cmd) \<le> DATA_SIZE"
  shows "\<exists>cmd'. android_misc_set_oem_cmd cmd buf bootconfig = (0, cmd') \<and> oem_inv cmd' \<and>
    oem_cmdline cmd' = (if bootconfig then oem_cmdline cmd else buf @ [32]) \<and>
    oem_bootconfig cmd' = (if bootconfig then buf @ [10] else oem_bootconfig cmd)"
proof -
  let ?n = "(if bootconfig then bootconfig_len cmd else cmdline_len cmd) - 1"
  have b: "1 \<le> bootconfig_len cmd" "1 \<le> cmdline_len cmd"
    "cmdline_len cmd + bootconfig_len cmd \<le> DATA_SIZE"
    using assms(1) by (auto simp: oem_inv_def)
  obtain cmd' where d: "android_misc_del_oem_cmd cmd 0 ?n bootconfig = (0, cmd')" and i: "oem_inv cmd'"
    and c: "oem_cmdline cmd' = (if bootconfig then oem_cmdline cmd else [])"
    and e: "oem_bootconfig cmd' = (if bootconfig then [] else oem_bootconfig cmd)"
    using del_oem_cmd_ok [OF assms(1), of 0 ?n bootconfig] b oem_lengths [OF assms(1)]
    by (cases bootconfig) auto
  have l: "cmdline_len cmd' = (if bootconfig then cmdline_len cmd else 1)"
    "bootconfig_len cmd' = (if bootconfig then 1 else bootconfig_len cmd)"
    using oem_lengths [OF i] oem_lengths [OF assms(1)] c e by (cases bootconfig; simp)+
  have "length buf + 1 \<le> DATA_SIZE - cmdline_len cmd' - bootconfig_len cmd'"
    using assms(3) l by (cases bootconfig) auto
  from append_oem_cmd_cases(3) [OF i assms(2) this, of bootconfig]
  have "\<exists>cmd''. android_misc_append_oem_cmd cmd' buf bootconfig = (0, cmd'') \<and> oem_inv cmd'' \<and>
      oem_cmdline cmd'' = (if bootconfig then oem_cmdline cmd else buf @ [32]) \<and>
      oem_bootconfig cmd'' = (if bootconfig then buf @ [10] else oem_bootconfig cmd)"
    using c e by (cases bootconfig) simp_all
  moreover have "android_misc_set_oem_cmd cmd buf bootconfig =
      android_misc_append_oem_cmd cmd' buf bootconfig"
    using d assms(3) b
    by (cases bootconfig) (auto simp: android_misc_set_oem_cmd_def DATA_SIZE_def sub64_id)
  ultimately show ?thesis by simp
qed

section \<open>The misc partition of a good disk\<close>

lemma sparse_first_byte: "is_sparse_image b \<Longrightarrow> b ! 0 = 0x3a"
proof -
  assume "is_sparse_image b"
  then have "le32_dec b 0 mod 256 = 0x3a"
    by (simp add: is_sparse_image_def image_hdr_at_def SPARSE_IMAGE_MAGIC_def)
  moreover have "le32_dec b 0 = unat (b ! 0) + 256 * (unat (b ! 1) + 256 * le16_dec b 2)"
    by (simp add: le32_dec_def le16_dec_def numeral_2_eq_2 numeral_3_eq_3)
  ultimately have "unat (b ! 0) mod 256 = 0x3a" by (simp only: mod_mult_self2)
  then have "unat (b ! 0) = unat (0x3a :: u8)" by simp
  then show ?thesis by (simp only: word_unat_eq_iff)
qed

lemma strcmp_eq_nth: "strcmp_eq b lit \<Longrightarrow> i \<le> length lit \<Longrightarrow> b ! i = (c_bytes lit @ [0]) ! i"
  unfolding strcmp_eq_def by (metis Suc_eq_plus1 le_imp_less_Suc nth_take)

lemma bootonce_not_recovery:
  assumes "strcmp_eq b BCB_CMD_BOOTONCE_BOOTLOADER"
  shows "\<not> strcmp_eq b BCB_CMD_BOOT_RECOVERY"
proof
  assume "strcmp_eq b BCB_CMD_BOOT_RECOVERY"
  from strcmp_eq_nth [OF this, of 4] strcmp_eq_nth [OF assms, of 4] show False
    by (simp add: BCB_CMD_BOOT_RECOVERY_def BCB_CMD_BOOTONCE_BOOTLOADER_def c_bytes_def)
qed

lemma empty_command:
  assumes "b ! 0 = 0"
  shows "\<not> strcmp_eq b BCB_CMD_BOOT_RECOVERY" and "\<not> strcmp_eq b BCB_CMD_BOOTONCE_BOOTLOADER"
  using strcmp_eq_nth [of b BCB_CMD_BOOT_RECOVERY 0] strcmp_eq_nth [of b BCB_CMD_BOOTONCE_BOOTLOADER 0]
    assms by (auto simp: BCB_CMD_BOOT_RECOVERY_def BCB_CMD_BOOTONCE_BOOTLOADER_def c_bytes_def)

text \<open>What the functions need: a good disk with simple streams and a misc partition on it.\<close>

definition misc_ok ::
  "'e misc_env \<Rightarrow> 's blockdev \<Rightarrow> ('s \<Rightarrow> u8 list) \<Rightarrow> 'e gpt_data \<Rightarrow> u8 list \<Rightarrow> 'e \<Rightarrow> bool" where
  "misc_ok env dev content gpt garbage e \<longleftrightarrow> blockdev_ok dev content \<and>
     gpt_entries_ok (env_vb env) dev gpt \<and>
     gpt_find_partition (env_vb env) gpt (env_misc_name env) = Some e \<and>
     bd_new_stream dev = Some (new_simple_stream dev garbage) \<and>
     and (bd_block_size dev) (bd_block_size dev - 1) = 0"

locale misc_partition =
  fixes env :: "'e misc_env" and dev :: "'s blockdev" and content :: "'s \<Rightarrow> u8 list"
    and gpt :: "'e gpt_data" and garbage :: "u8 list" and e :: 'e
  assumes misc: "misc_ok env dev content gpt garbage e"
begin

abbreviation "base \<equiv> starting_lba (env_vb env) e * bd_block_size dev"
abbreviation "psize \<equiv> GptGetEntrySizeBytes (env_vb env) e"

lemma bd: "block_device dev content"
  using misc by (simp add: misc_ok_def block_device_def)

lemma misc_fits: "offset + n \<le> psize \<Longrightarrow> base + offset + n \<le> length (content s)"
  using gpt_entry_bounds(3) [of "env_vb env" dev gpt "env_misc_name env" e] misc
    block_device.length_content [OF bd, of s] by (simp add: misc_ok_def)

lemma misc_read_ok:
  assumes "offset + sz \<le> psize"
  shows "\<exists>s'. android_misc_read env dev gpt offset sz s =
      (0, bslice (base + offset) sz (content s), s') \<and> content s' = content s"
  using block_device.gpt_read_ok [OF bd _ _ _ _ assms, of gpt "env_misc_name env" garbage s] misc
  by (auto simp: misc_ok_def android_misc_read_def)

lemma misc_write_ok:
  assumes "offset + length buf \<le> psize" and "buf ! 0 \<noteq> 0x3a"
  shows "\<exists>s'. android_misc_write env dev gpt offset buf s = Some (0, s') \<and>
    content s' = memcpy_at (content s) (base + offset) buf"
proof -
  have "\<not> is_sparse_image (buf @ [])" using assms(2) sparse_first_byte by auto
  from block_device.gpt_write_raw [OF bd _ _ assms(1) this, of gpt "env_misc_name env" s] misc
  show ?thesis by (auto simp: misc_ok_def android_misc_write_def)
qed

lemma bcb_oneshot:
  assumes "BCB_SIZE \<le> psize"
    and boot: "strcmp_eq (bslice base BCB_SIZE (content s)) BCB_CMD_BOOTONCE_BOOTLOADER"
  shows "\<exists>s'. android_misc_get_bcb_command env dev gpt s = Some (MISC_BCB_BOOTLOADER_BOOT, s') \<and>
    content s' = memcpy_at (content s) base (replicate 32 0) \<and>
    (\<exists>s''. android_misc_get_bcb_command env dev gpt s' = Some (MISC_BCB_NORMAL_BOOT, s'') \<and>
       content s'' = content s')"
proof -
  let ?b = "bslice base BCB_SIZE (content s)"
  have len: "base + BCB_SIZE \<le> length (content s)" using misc_fits [of 0 BCB_SIZE s] assms(1) by simp
  then have lb: "length ?b = BCB_SIZE" by simp
  obtain s1 where r1: "android_misc_read env dev gpt 0 BCB_SIZE s = (0, ?b, s1)"
    and c1: "content s1 = content s"
    using misc_read_ok [of 0 BCB_SIZE s] assms(1) by auto
  let ?w = "memcpy_at ?b 0 (replicate 32 0)"
  have lw: "length ?w = BCB_SIZE" and w0: "?w ! 0 = 0"
    using lb by (simp_all add: nth_memcpy_at BCB_SIZE_def)
  obtain s2 where w: "android_misc_write env dev gpt 0 ?w s1 = Some (0, s2)"
    and c2: "content s2 = memcpy_at (content s1) base ?w"
    using misc_write_ok [of 0 ?w s1] lw w0 assms(1) by auto
  have c2': "content s2 = memcpy_at (content s) base (replicate 32 0)"
    using memcpy_at_block [of base BCB_SIZE "content s" 0 "replicate 32 0"] len c1 c2
    by (simp add: BCB_SIZE_def)
  have one: "android_misc_get_bcb_command env dev gpt s = Some (MISC_BCB_BOOTLOADER_BOOT, s2)"
    using r1 w bootonce_not_recovery [OF boot] boot by (simp add: android_misc_get_bcb_command_def android_misc_bcb_read_def
        android_misc_bcb_write_def)
  obtain s3 where r3: "android_misc_read env dev gpt 0 BCB_SIZE s2
      = (0, bslice base BCB_SIZE (content s2), s3)" and c3: "content s3 = content s2"
    using misc_read_ok [of 0 BCB_SIZE s2] assms(1) by auto
  have "bslice base BCB_SIZE (content s2) = memcpy_at ?b 0 (replicate 32 0)"
    using bslice_memcpy_at_inside [of base BCB_SIZE "content s" 0 "replicate 32 0"] len c2'
    by (simp add: BCB_SIZE_def)
  then have z: "bslice base BCB_SIZE (content s2) ! 0 = 0" using w0 by simp
  have "android_misc_get_bcb_command env dev gpt s2 = Some (MISC_BCB_NORMAL_BOOT, s3)"
    using r3 z empty_command [OF z]
    by (simp add: android_misc_get_bcb_command_def android_misc_bcb_read_def)
  with one c2' c3 show ?thesis by blast
qed

lemma cancel_update_ok:
  fixes s
  defines "space \<equiv> bslice (base + MISC_SYSTEM_SPACE_OFFSET) SYSTEM_SPACE_SIZE (content s)"
  assumes sz: "MISC_SYSTEM_SPACE_OFFSET + SYSTEM_SPACE_SIZE \<le> psize"
    and valid: "is_virtual_ab_message_valid space"
    and st: "space ! 5 = MISC_VIRTUAL_AB_MERGE_STATUS_MERGING \<or>
      space ! 5 = MISC_VIRTUAL_AB_MERGE_STATUS_SNAPSHOTTED"
    and slot: "android_misc_get_active_slot env \<noteq> 0"
  shows "\<exists>s'. android_misc_virtual_ab_cancel_update env dev gpt s = Some (1, s') \<and>
    content s' = memcpy_at (content s) (base + MISC_SYSTEM_SPACE_OFFSET)
      (space[5 := MISC_VIRTUAL_AB_MERGE_STATUS_CANCELLED,
             6 := word_of_int (android_misc_slot_to_num (android_misc_get_active_slot env))]) \<and>
    fst (android_misc_get_virtual_ab_merge_status env dev gpt s') = MERGE_STATUS_NONE"
proof -
  let ?o = MISC_SYSTEM_SPACE_OFFSET and ?n = SYSTEM_SPACE_SIZE
  let ?new = "space[5 := MISC_VIRTUAL_AB_MERGE_STATUS_CANCELLED,
    6 := word_of_int (android_misc_slot_to_num (android_misc_get_active_slot env))]"
  have fits: "base + ?o + ?n \<le> length (content s)" using misc_fits [OF sz] .
  then have len: "length space = ?n" by (simp add: space_def)
  obtain s1 where r1: "android_misc_read env dev gpt ?o ?n s = (0, space, s1)"
    and c1: "content s1 = content s"
    using misc_read_ok [OF sz] unfolding space_def by blast
  have "unat (?new ! 0) = 2" using valid by (simp add: is_virtual_ab_message_valid_def)
  then have "?new ! 0 \<noteq> 0x3a" by auto
  moreover have "?o + length ?new \<le> psize" using sz len by simp
  ultimately obtain s2 where w: "android_misc_write env dev gpt ?o ?new s1 = Some (0, s2)"
    and c2: "content s2 = memcpy_at (content s1) (base + ?o) ?new"
    using misc_write_ok by blast
  have one: "android_misc_virtual_ab_cancel_update env dev gpt s = Some (1, s2)"
    using r1 w valid st slot
    by (auto simp: android_misc_virtual_ab_cancel_update_def android_misc_system_space_read_def
        android_misc_system_space_write_def Let_def)
  have rd: "bslice (base + ?o) ?n (content s2) = ?new"
    using bslice_memcpy_at_same [of "base + ?o" ?new "content s"] fits len c1 c2 by simp
  obtain s3 where r3: "android_misc_read env dev gpt ?o ?n s2 = (0, ?new, s3)"
    using misc_read_ok [OF sz, of s2] rd by auto
  have "?new ! 5 = MISC_VIRTUAL_AB_MERGE_STATUS_CANCELLED"
    using len by (simp add: SYSTEM_SPACE_SIZE_def)
  then have "fst (android_misc_get_virtual_ab_merge_status env dev gpt s2) = MERGE_STATUS_NONE"
    using r3 by (simp add: android_misc_get_virtual_ab_merge_status_def
        android_misc_system_space_read_def MISC_VIRTUAL_AB_MERGE_STATUS_CANCELLED_def
        MISC_VIRTUAL_AB_MERGE_STATUS_MERGING_def MISC_VIRTUAL_AB_MERGE_STATUS_SNAPSHOTTED_def)
  with one c1 c2 show ?thesis by auto
qed

end

section \<open>The command line structure on disk\<close>

definition oem_fields_ok :: "android_misc_oem_cmdline \<Rightarrow> bool" where
  "oem_fields_ok cmd \<longleftrightarrow> oc_magic cmd < 2 ^ 32 \<and> oc_version cmd < 256 \<and> oc_reserved cmd < 256 \<and>
     oc_chksum cmd < 65536 \<and> cmdline_len cmd < 65536 \<and> bootconfig_len cmd < 65536"

lemma oem_of_bytes_oem_bytes:
  assumes "oem_fields_ok cmd"
  shows "oem_of_bytes (oem_bytes cmd) = cmd"
proof -
  let ?m = "le32_bytes (word_of_nat (oc_magic cmd))"
  let ?v = "[word_of_nat (oc_version cmd), word_of_nat (oc_reserved cmd)] :: u8 list"
  have "le32_dec (oem_bytes cmd) 0 = oc_magic cmd"
    using le32_dec_append [of "[]" 0] assms by (simp add: oem_bytes_def oem_fields_ok_def unat_of_nat)
  moreover have "unat (oem_bytes cmd ! 4) = oc_version cmd" "unat (oem_bytes cmd ! 5) = oc_reserved cmd"
    using assms by (simp_all add: oem_bytes_def oem_fields_ok_def nth_append unat_of_nat)
  moreover have "le16_dec (oem_bytes cmd) 6 = oc_chksum cmd"
    using le16_dec_append [of "?m @ ?v" 6 "oc_chksum cmd"] assms
    by (simp add: oem_bytes_def oem_fields_ok_def)
  moreover have "le16_dec (oem_bytes cmd) 8 = cmdline_len cmd"
    using le16_dec_append [of "?m @ ?v @ le16_bytes (oc_chksum cmd)" 8 "cmdline_len cmd"] assms
    by (simp add: oem_bytes_def oem_fields_ok_def)
  moreover have "le16_dec (oem_bytes cmd) 10 = bootconfig_len cmd"
    using le16_dec_append [of "?m @ ?v @ le16_bytes (oc_chksum cmd) @ le16_bytes (cmdline_len cmd)" 10
        "bootconfig_len cmd"] assms
    by (simp add: oem_bytes_def oem_fields_ok_def)
  moreover have "drop 12 (oem_bytes cmd) = oc_data cmd" by (simp add: oem_bytes_def)
  ultimately show ?thesis by (simp add: oem_of_bytes_def)
qed

text \<open>
  What the code relies on of \<open>ipchksum\<close> (commonlib): a 16-bit result, and the checksum of a buffer
  that holds its own checksum at an even offset is zero.
\<close>

definition ipchksum_ok :: "(u8 list \<Rightarrow> nat) \<Rightarrow> bool" where
  "ipchksum_ok f \<longleftrightarrow> (\<forall>b. f b < 65536) \<and>
     (\<forall>a b. even (length a) \<longrightarrow> f (a @ le16_bytes (f (a @ le16_bytes 0 @ b)) @ b) = 0)"

text \<open>The strings end with a separator, as every append leaves them.\<close>

definition ends_ok :: "u8 list \<Rightarrow> bool \<Rightarrow> bool" where
  "ends_ok str bootconfig \<longleftrightarrow>
     str = [] \<or> is_android_misc_cmd_separator (last str) bootconfig"

lemma update_checksum_valid:
  assumes "oem_inv cmd" and "ipchksum_ok ipchksum" and "oc_magic cmd = ANDROID_MISC_OEM_CMDLINE_MAGIC"
    and "oc_version cmd = 0" and "ends_ok (oem_cmdline cmd) False" and "ends_ok (oem_bootconfig cmd) True"
  shows "\<exists>k. android_misc_oem_cmdline_update_checksum ipchksum cmd = (0, cmd\<lparr>oc_chksum := k\<rparr>) \<and>
    k < 65536 \<and> is_android_misc_oem_cmdline_valid ipchksum (cmd\<lparr>oc_chksum := k\<rparr>)"
proof -
  define n where "n = cmdline_len cmd + bootconfig_len cmd"
  let ?a = "le32_bytes (word_of_nat (oc_magic cmd)) @
    [word_of_nat (oc_version cmd), word_of_nat (oc_reserved cmd)]"
  let ?b = "le16_bytes (cmdline_len cmd) @ le16_bytes (bootconfig_len cmd) @ take n (oc_data cmd)"
  have tk: "take (OEM_CMDLINE_CHECKSUM_SIZE (cmd\<lparr>oc_chksum := j\<rparr>)) (oem_bytes (cmd\<lparr>oc_chksum := j\<rparr>)) =
      ?a @ le16_bytes j @ ?b" for j
    by (simp add: OEM_CMDLINE_CHECKSUM_SIZE_def oem_bytes_def n_def take_Cons')
  define k where "k = ipchksum (?a @ le16_bytes 0 @ ?b)"
  define cmd' where "cmd' = cmd\<lparr>oc_chksum := k\<rparr>"
  have up: "android_misc_oem_cmdline_update_checksum ipchksum cmd = (0, cmd')"
    using assms(1) tk [of 0]
    by (simp add: android_misc_oem_cmdline_update_checksum_def oem_inv_def Let_def cmd'_def k_def)
  have chk: "ipchksum (take (OEM_CMDLINE_CHECKSUM_SIZE cmd') (oem_bytes cmd')) = 0"
  proof -
    have "even (length ?a)" by simp
    then have "ipchksum (?a @ le16_bytes k @ ?b) = 0"
      using assms(2) unfolding ipchksum_ok_def k_def by blast
    then show ?thesis unfolding cmd'_def tk .
  qed
  obtain rest where sh: "oem_shape cmd (oem_cmdline cmd) (oem_bootconfig cmd) rest"
    using oem_shapeI [OF assms(1)] by blast
  let ?c = "oem_cmdline cmd" and ?f = "oem_bootconfig cmd"
  have d: "oc_data cmd = ?c @ 0 # ?f @ 0 # rest" "cmdline_len cmd = length ?c + 1"
    "bootconfig_len cmd = length ?f + 1" using sh by (simp_all add: oem_shape_def)
  have "is_android_misc_cmd_separator (oc_data cmd ! (length ?c - 1)) False" if "?c \<noteq> []"
  proof -
    have "oc_data cmd ! (length ?c - 1) = last ?c"
      unfolding d(1) using that by (simp add: nth_append last_conv_nth)
    with that assms(5) show ?thesis by (simp add: ends_ok_def)
  qed
  moreover have "is_android_misc_cmd_separator (oc_data cmd ! (length ?c + length ?f)) True" if "?f \<noteq> []"
  proof -
    have "oc_data cmd ! (length ?c + length ?f) = last ?f"
      unfolding d(1) using that by (simp add: nth_append last_conv_nth nth_Cons')
    with that assms(6) show ?thesis by (simp add: ends_ok_def)
  qed
  ultimately have "is_android_misc_oem_cmdline_valid ipchksum cmd'"
    using assms(1,3,4) chk d(2,3)
    by (auto simp: is_android_misc_oem_cmdline_valid_def Let_def cmd'_def oem_inv_def
        android_misc_get_oem_cmd_def)
  moreover have "k < 65536" using assms(2) by (simp add: ipchksum_ok_def k_def)
  ultimately show ?thesis using up by (auto simp: cmd'_def)
qed

context misc_partition
begin

lemma oem_cmdline_roundtrip:
  assumes sz: "MISC_VENDOR_SPACE_OEM_CMDLINE_OFFSET + OEM_CMDLINE_SIZE \<le> psize"
    and inv: "oem_inv cmd" and chk: "ipchksum_ok (env_ipchksum env)"
    and hdr: "oc_magic cmd = ANDROID_MISC_OEM_CMDLINE_MAGIC" "oc_version cmd = 0" "oc_reserved cmd < 256"
    and ends: "ends_ok (oem_cmdline cmd) False" "ends_ok (oem_bootconfig cmd) True"
  shows "\<exists>s' s'' cmd'. android_misc_oem_cmdline_write env dev gpt cmd s = Some (0, cmd', s') \<and>
    android_misc_oem_cmdline_read env dev gpt s' = (0, cmd', s'') \<and>
    oem_cmdline cmd' = oem_cmdline cmd \<and> oem_bootconfig cmd' = oem_bootconfig cmd"
proof -
  let ?o = MISC_VENDOR_SPACE_OEM_CMDLINE_OFFSET
  obtain k where up: "android_misc_oem_cmdline_update_checksum (env_ipchksum env) cmd
      = (0, cmd\<lparr>oc_chksum := k\<rparr>)" and k: "k < 65536"
    and valid: "is_android_misc_oem_cmdline_valid (env_ipchksum env) (cmd\<lparr>oc_chksum := k\<rparr>)"
    using update_checksum_valid [OF inv chk hdr(1,2) ends] by blast
  define cmd' where "cmd' = cmd\<lparr>oc_chksum := k\<rparr>"
  note up = up [folded cmd'_def] and valid = valid [folded cmd'_def]
  have same: "oc_magic cmd' = oc_magic cmd" "oc_version cmd' = oc_version cmd"
    "oc_reserved cmd' = oc_reserved cmd" "cmdline_len cmd' = cmdline_len cmd"
    "bootconfig_len cmd' = bootconfig_len cmd" "oc_data cmd' = oc_data cmd" "oc_chksum cmd' = k"
    by (simp_all add: cmd'_def)
  have len: "length (oem_bytes cmd') = OEM_CMDLINE_SIZE"
    using inv by (simp add: oem_bytes_def same oem_inv_def DATA_SIZE_def OEM_CMDLINE_SIZE_def)
  have "oem_bytes cmd' ! 0 = 0x46"
  proof -
    have "le32_bytes (word_of_nat ANDROID_MISC_OEM_CMDLINE_MAGIC) ! 0 = 0x46" 
      by (simp add: le32_bytes_def ANDROID_MISC_OEM_CMDLINE_MAGIC_def)
    then show ?thesis by (simp add: oem_bytes_def same hdr nth_append)
  qed
  then have "oem_bytes cmd' ! 0 \<noteq> 0x3a" by simp
  then obtain s' where w: "android_misc_write env dev gpt ?o (oem_bytes cmd') s = Some (0, s')"
    and c: "content s' = memcpy_at (content s) (base + ?o) (oem_bytes cmd')"
    using misc_write_ok [of ?o "oem_bytes cmd'" s] sz len by auto
  have "bslice (base + ?o) OEM_CMDLINE_SIZE (content s') = oem_bytes cmd'"
    using bslice_memcpy_at_same [of "base + ?o" "oem_bytes cmd'" "content s"] misc_fits [OF sz, of s]
      len c by simp
  then obtain s'' where r: "android_misc_read env dev gpt ?o OEM_CMDLINE_SIZE s'
      = (0, oem_bytes cmd', s'')"
    using misc_read_ok [OF sz, of s'] by auto
  have "oem_fields_ok cmd'"
    using k hdr inv by (simp add: oem_fields_ok_def same oem_inv_def DATA_SIZE_def
        ANDROID_MISC_OEM_CMDLINE_MAGIC_def)
  then have "oem_of_bytes (oem_bytes cmd') = cmd'" by (rule oem_of_bytes_oem_bytes)
  with up w r valid have
    "android_misc_oem_cmdline_write env dev gpt cmd s = Some (0, cmd', s')"
    "android_misc_oem_cmdline_read env dev gpt s' = (0, cmd', s'')"
    by (simp_all add: android_misc_oem_cmdline_write_def android_misc_oem_cmdline_read_def Let_def)
  then show ?thesis using same by (auto simp: oem_cmdline_def oem_bootconfig_def)
qed

end

section \<open>A concrete misc partition\<close>

text \<open>
  A disk of 256 blocks of 512 bytes with a misc partition of 200 blocks, slot \<open>a\<close> active, and the
  Internet checksum over little-endian words.
\<close>

fun sum16 :: "u8 list \<Rightarrow> nat" where
  "sum16 [] = 0"
| "sum16 [x] = unat x"
| "sum16 (x # y # r) = unat x + 256 * unat y + sum16 r"

definition internet_checksum :: "u8 list \<Rightarrow> nat" where
  "internet_checksum b = (if sum16 b = 0 then 65535 else 65535 - ((sum16 b - 1) mod 65535 + 1))"

lemma sum16_append: "even (length a) \<Longrightarrow> sum16 (a @ b) = sum16 a + sum16 b"
  by (induction a rule: sum16.induct) auto

lemma sum16_le16: "n < 65536 \<Longrightarrow> sum16 (le16_bytes n) = n"
  by (simp add: le16_bytes_def unat_of_nat)

lemma internet_checksum_ok: "ipchksum_ok internet_checksum"
proof -
  have less: "internet_checksum b < 65536" for b by (auto simp: internet_checksum_def)
  have "internet_checksum (a @ le16_bytes (internet_checksum (a @ le16_bytes 0 @ b)) @ b) = 0"
    if ev: "even (length a)" for a b
  proof -
    define S where "S = sum16 a + sum16 b"
    define k where "k = internet_checksum (a @ le16_bytes 0 @ b)"
    have S0: "sum16 (a @ le16_bytes 0 @ b) = S"
      using ev by (simp add: sum16_append sum16_le16 S_def)
    have Sk: "sum16 (a @ le16_bytes k @ b) = S + k"
      using ev less by (simp add: sum16_append sum16_le16 S_def k_def)
    have "S + k \<noteq> 0 \<and> (S + k - 1) mod 65535 = 65534"
    proof (cases "S = 0")
      case True
      then show ?thesis using S0 by (simp add: k_def internet_checksum_def)
    next
      case False
      then have k: "k = 65535 - ((S - 1) mod 65535 + 1)"
        using S0 by (simp add: k_def internet_checksum_def)
      have "(S - 1) mod 65535 \<le> 65534" by (simp add: less_Suc_eq_le [symmetric])
      then have "S + k - 1 = 65535 * ((S - 1) div 65535) + 65534"
        using False k div_mult_mod_eq [of "S - 1" 65535] by linarith
      then show ?thesis using False by simp
    qed
    then show ?thesis unfolding k_def [symmetric] by (simp add: internet_checksum_def Sk)
  qed
  with less show ?thesis by (simp add: ipchksum_ok_def)
qed

definition ex_misc_disk :: "u8 list blockdev" where
  "ex_misc_disk = (mem_dev 512 256)\<lparr>bd_new_stream := Some (new_simple_stream (mem_dev 512 256) [])\<rparr>"

definition ex_misc_vboot :: "(string \<times> nat \<times> nat) vboot_gpt" where
  "ex_misc_vboot = ex_vboot\<lparr>GptGetEntrySizeBytes := (\<lambda>e. snd (snd e) * 512)\<rparr>"

definition ex_misc_gpt :: "(string \<times> nat \<times> nat) gpt_data" where
  "ex_misc_gpt = \<lparr>sector_bytes = 512, drive_sectors = 256, entries = [(''misc'', 1, 200)],
     gpt_modified = 0\<rparr>"

definition ex_misc_env :: "(string \<times> nat \<times> nat) misc_env" where
  "ex_misc_env = \<lparr>env_vb = ex_misc_vboot, env_misc_name = ''misc'', env_gpt_init_ok = True,
     env_next_kernel = Some (''vbmeta_a'', 201, 1), env_ipchksum = internet_checksum\<rparr>"

lemma ex_misc_ok:
  "misc_ok ex_misc_env ex_misc_disk (mem_content 131072) ex_misc_gpt [] (''misc'', 1, 200)"
proof -
  have "blockdev_ok ex_misc_disk (mem_content (512 * 256))"
    using mem_dev_ok [of 512 256] by (simp add: ex_misc_disk_def blockdev_ok_def)
  moreover have "and (512::nat) 511 = 0" by code_simp
  moreover have "gpt_find_partition ex_misc_vboot ex_misc_gpt ''misc'' = Some (''misc'', 1, 200)"
    by (simp add: gpt_find_partition_eq ex_misc_gpt_def ex_misc_vboot_def ex_vboot_def
        gpt_get_entry_name_def)
  ultimately show ?thesis
    by (simp add: misc_ok_def ex_misc_env_def gpt_entries_ok_def ex_misc_gpt_def ex_misc_disk_def
        mem_dev_def ex_misc_vboot_def ex_vboot_def new_simple_stream_def fun_eq_iff)
qed

interpretation exm: misc_partition ex_misc_env ex_misc_disk "mem_content 131072" ex_misc_gpt "[]"
  "(''misc'', 1, 200)"
  by unfold_locales (rule ex_misc_ok)

section \<open>Properties\<close>

definition ex_oem :: android_misc_oem_cmdline where
  "ex_oem = \<lparr>oc_magic = ANDROID_MISC_OEM_CMDLINE_MAGIC, oc_version = 0, oc_reserved = 0, oc_chksum = 0,
     cmdline_len = 3, bootconfig_len = 1, oc_data = 97 # 32 # replicate 2034 0\<rparr>"

lemma ex_oem_facts:
  "oem_inv ex_oem" "oem_cmdline ex_oem = [97, 32]" "oem_bootconfig ex_oem = []"
  "cmdline_len ex_oem = 3" "bootconfig_len ex_oem = 1" "oc_version ex_oem = 0"
  "oc_magic ex_oem = ANDROID_MISC_OEM_CMDLINE_MAGIC" "oc_reserved ex_oem = 0"
  by (simp_all add: oem_inv_def ex_oem_def DATA_SIZE_def oem_cmdline_def oem_bootconfig_def bslice_def
      nth_Cons')

text \<open>
  C20. \<open>android_misc_append_oem_cmd\<close> on a well-formed structure appends the string and its separator
  to the chosen one of the two strings and keeps the other, although the two share one buffer; an
  empty string is a no-op and one that does not fit is refused with nothing changed.
\<close>

theorem android_misc_append_oem_cmd_appends:
  assumes "oem_inv cmd"
  shows "if buf = [] then android_misc_append_oem_cmd cmd buf bootconfig = (0, cmd)
    else if DATA_SIZE < cmdline_len cmd + bootconfig_len cmd + length buf + 1
    then android_misc_append_oem_cmd cmd buf bootconfig = (- 1, cmd)
    else \<exists>cmd'. android_misc_append_oem_cmd cmd buf bootconfig = (0, cmd') \<and> oem_inv cmd' \<and>
      oem_cmdline cmd' = oem_cmdline cmd @ (if bootconfig then [] else buf @ [32]) \<and>
      oem_bootconfig cmd' = oem_bootconfig cmd @ (if bootconfig then buf @ [10] else [])"
proof (cases "DATA_SIZE < cmdline_len cmd + bootconfig_len cmd + length buf + 1")
  case True
  then have "DATA_SIZE - cmdline_len cmd - bootconfig_len cmd < length buf + 1" by linarith
  then show ?thesis using True append_oem_cmd_cases(1,2) [OF assms] by simp
next
  case False
  then have "length buf + 1 \<le> DATA_SIZE - cmdline_len cmd - bootconfig_len cmd" by linarith
  then show ?thesis using False append_oem_cmd_cases(1,3) [OF assms] by simp
qed

theorem android_misc_append_oem_cmd_appends_witness:
  "\<exists>cmd'. android_misc_append_oem_cmd ex_oem [98] True = (0, cmd') \<and>
    oem_cmdline cmd' = [97, 32] \<and> oem_bootconfig cmd' = [98, 10]"
  using android_misc_append_oem_cmd_appends [OF ex_oem_facts(1), of "[98]" True]
  by (auto simp: ex_oem_facts DATA_SIZE_def)

text \<open>
  \<open>android_misc_del_oem_cmd\<close> cuts exactly the given range out of the chosen string and keeps
  the other string; a range that reaches the terminator or beyond is refused with nothing changed.
\<close>

theorem android_misc_del_oem_cmd_cuts:
  assumes "oem_inv cmd"
  shows "if idx + len < (if bootconfig then bootconfig_len cmd else cmdline_len cmd)
    then \<exists>cmd'. android_misc_del_oem_cmd cmd idx len bootconfig = (0, cmd') \<and> oem_inv cmd' \<and>
      oem_cmdline cmd' = (if bootconfig then oem_cmdline cmd
        else take idx (oem_cmdline cmd) @ drop (idx + len) (oem_cmdline cmd)) \<and>
      oem_bootconfig cmd' = (if bootconfig
        then take idx (oem_bootconfig cmd) @ drop (idx + len) (oem_bootconfig cmd)
        else oem_bootconfig cmd)
    else android_misc_del_oem_cmd cmd idx len bootconfig = (- 1, cmd)"
  using del_oem_cmd_ok [OF assms, of idx len bootconfig]
    del_oem_cmd_out_of_range [of idx len bootconfig cmd] by (cases bootconfig) auto

theorem android_misc_del_oem_cmd_cuts_witness:
  "\<exists>cmd'. android_misc_del_oem_cmd ex_oem 0 1 False = (0, cmd') \<and> oem_cmdline cmd' = [32]"
  using android_misc_del_oem_cmd_cuts [OF ex_oem_facts(1), of 0 1 False]
  by (auto simp: ex_oem_facts)

text \<open>
  \<open>android_misc_oem_cmdline_write\<close> followed by \<open>android_misc_oem_cmdline_read\<close> on a good disk
  gives back a valid structure with the same command line and boot configuration: the checksum
  that the write stores passes the validation of the read.
\<close>

theorem android_misc_oem_cmdline_write_read:
  assumes "misc_ok env dev content gpt garbage e"
    and "MISC_VENDOR_SPACE_OEM_CMDLINE_OFFSET + OEM_CMDLINE_SIZE \<le> GptGetEntrySizeBytes (env_vb env) e"
    and "oem_inv cmd" and "ipchksum_ok (env_ipchksum env)"
    and "oc_magic cmd = ANDROID_MISC_OEM_CMDLINE_MAGIC" "oc_version cmd = 0" "oc_reserved cmd < 256"
    and "ends_ok (oem_cmdline cmd) False" "ends_ok (oem_bootconfig cmd) True"
  shows "\<exists>s' s'' cmd'. android_misc_oem_cmdline_write env dev gpt cmd s = Some (0, cmd', s') \<and>
    android_misc_oem_cmdline_read env dev gpt s' = (0, cmd', s'') \<and>
    oem_cmdline cmd' = oem_cmdline cmd \<and> oem_bootconfig cmd' = oem_bootconfig cmd"
  using misc_partition.oem_cmdline_roundtrip [OF misc_partition.intro [OF assms(1)] assms(2-9)] .

theorem android_misc_oem_cmdline_write_read_witness:
  "\<exists>s' s'' cmd'. android_misc_oem_cmdline_write ex_misc_env ex_misc_disk ex_misc_gpt ex_oem []
      = Some (0, cmd', s') \<and>
    android_misc_oem_cmdline_read ex_misc_env ex_misc_disk ex_misc_gpt s' = (0, cmd', s'') \<and>
    oem_cmdline cmd' = [97, 32]"
proof -
  have "ends_ok [97, 32] False" "ends_ok [] True"
    by (simp_all add: ends_ok_def is_android_misc_cmd_separator_def is_space_def)
  moreover have "ipchksum_ok (env_ipchksum ex_misc_env)"
    using internet_checksum_ok by (simp add: ex_misc_env_def)
  moreover have "MISC_VENDOR_SPACE_OEM_CMDLINE_OFFSET + OEM_CMDLINE_SIZE
      \<le> GptGetEntrySizeBytes (env_vb ex_misc_env) (''misc'', 1, 200)"
    by (simp add: ex_misc_env_def ex_misc_vboot_def MISC_VENDOR_SPACE_OEM_CMDLINE_OFFSET_def
        OEM_CMDLINE_SIZE_def)
  ultimately show ?thesis
    using android_misc_oem_cmdline_write_read [OF ex_misc_ok, of ex_oem "[]"]
    by (simp add: ex_oem_facts) blast
qed

text \<open>
  The \<open>bootonce-bootloader\<close> command is one-shot: \<open>android_misc_get_bcb_command\<close> reports it once
  and clears exactly the 32 bytes of the command on the disk, and the next call reports a normal
  boot.
\<close>

theorem android_misc_bcb_command_one_shot:
  assumes "misc_ok env dev content gpt garbage e"
    and "BCB_SIZE \<le> GptGetEntrySizeBytes (env_vb env) e"
    and "strcmp_eq (bslice (starting_lba (env_vb env) e * bd_block_size dev) BCB_SIZE (content s))
      BCB_CMD_BOOTONCE_BOOTLOADER"
  shows "\<exists>s'. android_misc_get_bcb_command env dev gpt s = Some (MISC_BCB_BOOTLOADER_BOOT, s') \<and>
    content s' = memcpy_at (content s) (starting_lba (env_vb env) e * bd_block_size dev)
      (replicate 32 0) \<and>
    (\<exists>s''. android_misc_get_bcb_command env dev gpt s' = Some (MISC_BCB_NORMAL_BOOT, s'') \<and>
       content s'' = content s')"
  using misc_partition.bcb_oneshot [OF misc_partition.intro [OF assms(1)] assms(2,3)] .

theorem android_misc_bcb_command_one_shot_witness:
  "\<exists>s'. android_misc_get_bcb_command ex_misc_env ex_misc_disk ex_misc_gpt
      (replicate 512 0 @ c_bytes BCB_CMD_BOOTONCE_BOOTLOADER) = Some (MISC_BCB_BOOTLOADER_BOOT, s') \<and>
    (\<exists>s''. android_misc_get_bcb_command ex_misc_env ex_misc_disk ex_misc_gpt s'
       = Some (MISC_BCB_NORMAL_BOOT, s''))"
proof -
  let ?s = "replicate 512 0 @ c_bytes BCB_CMD_BOOTONCE_BOOTLOADER"
  have "strcmp_eq (bslice 512 BCB_SIZE (mem_content 131072 ?s)) BCB_CMD_BOOTONCE_BOOTLOADER"
    by (simp add: strcmp_eq_def bslice_def mem_content_def BCB_SIZE_def c_bytes_def
        BCB_CMD_BOOTONCE_BOOTLOADER_def)
  then have "strcmp_eq (bslice (starting_lba (env_vb ex_misc_env) (''misc'', 1, 200) *
      bd_block_size ex_misc_disk) BCB_SIZE (mem_content 131072 ?s)) BCB_CMD_BOOTONCE_BOOTLOADER"
    by (simp add: ex_misc_env_def ex_misc_vboot_def ex_vboot_def ex_misc_disk_def mem_dev_def)
  moreover have "BCB_SIZE \<le> GptGetEntrySizeBytes (env_vb ex_misc_env) (''misc'', 1, 200)"
    by (simp add: ex_misc_env_def ex_misc_vboot_def BCB_SIZE_def)
  ultimately show ?thesis
    using android_misc_bcb_command_one_shot [OF ex_misc_ok, of ?s] by blast
qed

text \<open>
  \<open>android_misc_virtual_ab_cancel_update\<close> on a disk whose system space holds a valid message
  with an update that is merging or snapshotted returns 1, changes only the merge status (to
  cancelled) and the source slot of that message, and the merge status read afterwards is none.
\<close>

theorem android_misc_virtual_ab_cancel_update_cancels:
  assumes "misc_ok env dev content gpt garbage e"
    and "MISC_SYSTEM_SPACE_OFFSET + SYSTEM_SPACE_SIZE \<le> GptGetEntrySizeBytes (env_vb env) e"
    and "space = bslice (starting_lba (env_vb env) e * bd_block_size dev + MISC_SYSTEM_SPACE_OFFSET)
      SYSTEM_SPACE_SIZE (content s)"
    and "is_virtual_ab_message_valid space"
    and "space ! 5 = MISC_VIRTUAL_AB_MERGE_STATUS_MERGING \<or>
      space ! 5 = MISC_VIRTUAL_AB_MERGE_STATUS_SNAPSHOTTED"
    and "android_misc_get_active_slot env \<noteq> 0"
  shows "\<exists>s'. android_misc_virtual_ab_cancel_update env dev gpt s = Some (1, s') \<and>
    content s' = memcpy_at (content s)
      (starting_lba (env_vb env) e * bd_block_size dev + MISC_SYSTEM_SPACE_OFFSET)
      (space[5 := MISC_VIRTUAL_AB_MERGE_STATUS_CANCELLED,
             6 := word_of_int (android_misc_slot_to_num (android_misc_get_active_slot env))]) \<and>
    fst (android_misc_get_virtual_ab_merge_status env dev gpt s') = MERGE_STATUS_NONE"
  using misc_partition.cancel_update_ok [OF misc_partition.intro [OF assms(1)] assms(2), of s]
    assms(3-6) by simp

theorem android_misc_virtual_ab_cancel_update_cancels_witness:
  "\<exists>s'. android_misc_virtual_ab_cancel_update ex_misc_env ex_misc_disk ex_misc_gpt
      (replicate 33280 0 @ [2, 0xB0, 0x0A, 0x74, 0x56, 3, 1]) = Some (1, s')"
proof -
  let ?s = "replicate 33280 0 @ [2, 0xB0, 0x0A, 0x74, 0x56, 3, 1]"
  let ?space = "bslice 33280 512 (mem_content 131072 ?s)"
  have sp: "?space = [2, 0xB0, 0x0A, 0x74, 0x56, 3, 1] @ replicate 505 0"
    by (simp add: bslice_def mem_content_def)
  have "is_virtual_ab_message_valid ?space"
    unfolding sp by (simp add: is_virtual_ab_message_valid_def le32_dec_def le16_dec_def)
  moreover have "?space ! 5 = MISC_VIRTUAL_AB_MERGE_STATUS_MERGING"
    unfolding sp by (simp add: MISC_VIRTUAL_AB_MERGE_STATUS_MERGING_def)
  moreover have "android_misc_get_active_slot ex_misc_env \<noteq> 0"
    by (simp add: android_misc_get_active_slot_def ex_misc_env_def ex_misc_vboot_def ex_vboot_def
        gpt_get_entry_name_def)
  moreover have "?space = bslice (starting_lba (env_vb ex_misc_env) (''misc'', 1, 200) *
      bd_block_size ex_misc_disk + MISC_SYSTEM_SPACE_OFFSET) SYSTEM_SPACE_SIZE (mem_content 131072 ?s)"
    by (simp add: ex_misc_env_def ex_misc_vboot_def ex_vboot_def ex_misc_disk_def mem_dev_def
        MISC_SYSTEM_SPACE_OFFSET_def SYSTEM_SPACE_SIZE_def)
  moreover have "MISC_SYSTEM_SPACE_OFFSET + SYSTEM_SPACE_SIZE
      \<le> GptGetEntrySizeBytes (env_vb ex_misc_env) (''misc'', 1, 200)"
    by (simp add: ex_misc_env_def ex_misc_vboot_def MISC_SYSTEM_SPACE_OFFSET_def SYSTEM_SPACE_SIZE_def)
  ultimately show ?thesis
    using android_misc_virtual_ab_cancel_update_cancels [OF ex_misc_ok, of ?space ?s] by blast
qed

end
