(* ===== verification/Bootconfig.thy ===== *)
theory Bootconfig
  imports Dc_Prelude
begin

text \<open>
  \<open>src/boot/bootconfig.c\<close>: the Android boot configuration that is built behind the ramdisk. The
  memory from \<open>bc->start\<close> on is a byte list; a pointer into it is an offset. \<open>None\<close> is a failed
  assertion. \<open>char\<close> is signed or not depending on the architecture, which only the checksum sees.
\<close>

section \<open>Model\<close>

definition BOOTCONFIG_DELIMITER :: u8 where "BOOTCONFIG_DELIMITER = 10"
definition BOOTCONFIG_MAGIC :: "u8 list" where
  "BOOTCONFIG_MAGIC = [35, 66, 79, 79, 84, 67, 79, 78, 70, 73, 71, 10]"
definition BOOTCONFIG_MAGIC_BYTES :: nat where "BOOTCONFIG_MAGIC_BYTES = 12"
definition TRAILER_SIZE :: nat where "TRAILER_SIZE = 20"

record bootconfig =
  bc_mem :: "u8 list"
  bc_size :: nat
  bc_limit :: nat

text \<open>\<open>mem\<close> is the reserved space, \<open>buffer_size\<close> its length.\<close>

definition bootconfig_init :: "u8 list \<Rightarrow> bootconfig option" where
  "bootconfig_init mem =
     (if \<not> length mem \<ge> TRAILER_SIZE + 1 then None
      else Some \<lparr>bc_mem = mem[0 := 0], bc_size = 0, bc_limit = length mem - TRAILER_SIZE - 1\<rparr>)"

fun strnlen :: "u8 list \<Rightarrow> nat \<Rightarrow> nat" where
  "strnlen [] n = 0"
| "strnlen (c # cs) 0 = 0"
| "strnlen (c # cs) (Suc n) = (if c = 0 then 0 else Suc (strnlen cs n))"

text \<open>The trailer at offset \<open>off\<close> of \<open>mem\<close>; the new \<open>start\<close> lies \<open>params_size\<close> bytes before it.\<close>

definition bootconfig_reinit :: "u8 list \<Rightarrow> nat \<Rightarrow> int \<times> bootconfig option" where
  "bootconfig_reinit mem off =
     (if bslice (off + 8) BOOTCONFIG_MAGIC_BYTES mem \<noteq> BOOTCONFIG_MAGIC then (- 1, None)
      else let params_size = le32_dec mem off;
               start = drop (off - params_size) mem;
               sz = strnlen start params_size;
               bc = \<lparr>bc_mem = start, bc_size = sz, bc_limit = params_size\<rparr>
           in if sz = params_size then (- 1, Some bc) else (0, Some bc))"

definition bootconfig_append_params :: "bootconfig \<Rightarrow> u8 list \<Rightarrow> int \<times> bootconfig" where
  "bootconfig_append_params bc params =
     (if length params = 0 then (0, bc)
      else if add64 (bc_size bc) (length params) > bc_limit bc then (- 1, bc)
      else let bc = bc\<lparr>bc_mem := memcpy_at (bc_mem bc) (bc_size bc) params,
                       bc_size := bc_size bc + length params\<rparr>
           in if bc_size bc > 0 \<and> bc_mem bc ! (bc_size bc - 1) \<noteq> BOOTCONFIG_DELIMITER
              then if bc_size bc + 1 > bc_limit bc then (- 1, bc)
                   else let bc = bc\<lparr>bc_mem := (bc_mem bc)[bc_size bc := BOOTCONFIG_DELIMITER],
                                    bc_size := bc_size bc + 1\<rparr>
                        in (0, bc\<lparr>bc_mem := (bc_mem bc)[bc_size bc := 0]\<rparr>)
              else (0, bc\<lparr>bc_mem := (bc_mem bc)[bc_size bc := 0]\<rparr>))"

text \<open>
  The loop of \<open>bootconfig_append_cmdline\<close> with the input from \<open>in\<close> on (a C string without its
  terminator) and the output offset; \<open>None\<close> is the jump to \<open>exit\<close> for lack of space, otherwise the
  final \<open>in_quote\<close> and output offset.
\<close>

function cmdline_loop :: "nat \<Rightarrow> u8 list \<Rightarrow> bool \<Rightarrow> nat \<Rightarrow> u8 list \<Rightarrow> u8 list \<times> (bool \<times> nat) option" where
  "cmdline_loop limit inp in_quote out mem =
     (if out \<ge> limit then (mem, None)
      else case inp of
             [] \<Rightarrow> (mem[out := BOOTCONFIG_DELIMITER], Some (in_quote, out + 1))
           | c # cs \<Rightarrow>
               if \<not> in_quote \<and> is_space c
               then cmdline_loop limit (dropWhile is_space cs) in_quote (out + 1)
                      (mem[out := BOOTCONFIG_DELIMITER])
               else cmdline_loop limit cs (if c = 34 then \<not> in_quote else in_quote) (out + 1)
                      (mem[out := c]))"
  by pat_completeness auto
termination
  by (relation "measure (\<lambda>(_, inp, _). length inp)")
     (auto simp: le_imp_less_Suc length_dropWhile_le)

declare cmdline_loop.simps [simp del]

definition bootconfig_append_cmdline :: "bootconfig \<Rightarrow> u8 list \<Rightarrow> int \<times> bootconfig" where
  "bootconfig_append_cmdline bc cmdline_string =
     (case cmdline_loop (bc_limit bc) cmdline_string False (bc_size bc) (bc_mem bc) of
        (mem, None) \<Rightarrow> (- 1, bc\<lparr>bc_mem := mem[bc_size bc := 0]\<rparr>)
      | (mem, Some (in_quote, out)) \<Rightarrow>
          if in_quote then (- 1, bc\<lparr>bc_mem := mem[bc_size bc := 0]\<rparr>)
          else (0, bc\<lparr>bc_mem := mem[out := 0], bc_size := out\<rparr>))"

text \<open>\<open>snprintf\<close> of the text \<open>str\<close> at \<open>off\<close> with \<open>space\<close> bytes; its result is \<open>length str\<close>.\<close>

definition snprintf_at :: "u8 list \<Rightarrow> nat \<Rightarrow> nat \<Rightarrow> u8 list \<Rightarrow> u8 list" where
  "snprintf_at mem off space str =
     (if space = 0 then mem else memcpy_at mem off (take (space - 1) str @ [0]))"

definition append_param :: "bootconfig \<Rightarrow> u8 list \<Rightarrow> u8 list \<Rightarrow> u8 list \<Rightarrow> int \<times> bootconfig" where
  "append_param bc key value op =
     (if list_ex (\<lambda>c. c = 39 \<or> c = 34 \<or> c = 92) value then (- 1, bc)
      else let space = bc_limit bc - bc_size bc;
               str = key @ op @ [34] @ value @ [34, BOOTCONFIG_DELIMITER];
               mem = snprintf_at (bc_mem bc) (bc_size bc) space str
           in if length str \<ge> space then (- 1, bc\<lparr>bc_mem := mem[bc_size bc := 0]\<rparr>)
              else (0, bc\<lparr>bc_mem := mem, bc_size := bc_size bc + length str\<rparr>))"

definition bootconfig_append :: "bootconfig \<Rightarrow> u8 list \<Rightarrow> u8 list \<Rightarrow> int \<times> bootconfig" where
  "bootconfig_append bc key value = append_param bc key value [61]"

definition bootconfig_update_value :: "bootconfig \<Rightarrow> u8 list \<Rightarrow> u8 list \<Rightarrow> int \<times> bootconfig" where
  "bootconfig_update_value bc key value = append_param bc key value [58, 61]"

definition char_to_u32 :: "bool \<Rightarrow> u8 \<Rightarrow> u32" where
  "char_to_u32 char_signed c = (if char_signed then signed c else ucast c)"

definition bootconfig_checksum :: "bool \<Rightarrow> u8 list \<Rightarrow> nat \<Rightarrow> u32" where
  "bootconfig_checksum char_signed mem n =
     foldl (\<lambda>sum c. sum + char_to_u32 char_signed c) 0 (take n mem)"

text \<open>The memory after storing the checksum in the trailer at offset \<open>off\<close>.\<close>

definition bootconfig_checksum_recalculate :: "bool \<Rightarrow> bootconfig \<Rightarrow> nat \<Rightarrow> bootconfig" where
  "bootconfig_checksum_recalculate char_signed bc off =
     bc\<lparr>bc_mem := memcpy_at (bc_mem bc) (off + 4)
          (le32_bytes (bootconfig_checksum char_signed (bc_mem bc) (le32_dec (bc_mem bc) off)))\<rparr>"

text \<open>The offset of the trailer, \<open>None\<close> for NULL.\<close>

definition bootconfig_finalize :: "bool \<Rightarrow> bootconfig \<Rightarrow> nat \<Rightarrow> nat option \<times> bootconfig" where
  "bootconfig_finalize char_signed bc reserved =
     (if bc_limit bc < add64 (add64 (bc_size bc) reserved) 1 then (None, bc)
      else let mem = memcpy_at (bc_mem bc) (bc_size bc) (replicate (reserved + 1) 0);
               full_size = bc_size bc + reserved + 1;
               mem = memcpy_at mem full_size (le32_bytes (word_of_nat full_size));
               sum = bootconfig_checksum char_signed mem (le32_dec mem full_size);
               mem = memcpy_at mem (full_size + 4) (le32_bytes sum);
               mem = memcpy_at mem (full_size + 8) BOOTCONFIG_MAGIC
           in (Some full_size, bc\<lparr>bc_mem := mem\<rparr>))"

section \<open>The text of a boot configuration\<close>

definition bc_text :: "bootconfig \<Rightarrow> u8 list" where
  "bc_text bc = take (bc_size bc) (bc_mem bc)"

definition bc_inv :: "bootconfig \<Rightarrow> bool" where
  "bc_inv bc \<longleftrightarrow> bc_size bc \<le> bc_limit bc \<and> bc_limit bc < length (bc_mem bc) \<and>
     length (bc_mem bc) < 2 ^ 63 \<and> bc_mem bc ! bc_size bc = 0"

text \<open>What a kernel command line becomes: unquoted white space separates lines.\<close>

function cmdline_lines :: "bool \<Rightarrow> u8 list \<Rightarrow> u8 list" where
  "cmdline_lines q [] = [BOOTCONFIG_DELIMITER]"
| "cmdline_lines q (c # cs) =
     (if \<not> q \<and> is_space c then BOOTCONFIG_DELIMITER # cmdline_lines q (dropWhile is_space cs)
      else c # cmdline_lines (if c = 34 then \<not> q else q) cs)"
  by pat_completeness auto
termination
  by (relation "measure (\<lambda>(_, inp). length inp)") (auto simp: le_imp_less_Suc length_dropWhile_le)

fun ends_in_quote :: "bool \<Rightarrow> u8 list \<Rightarrow> bool" where
  "ends_in_quote q [] = q"
| "ends_in_quote q (c # cs) = ends_in_quote (if c = 34 then \<not> q else q) cs"

lemma ends_in_quote_dropWhile: "ends_in_quote q (dropWhile is_space cs) = ends_in_quote q cs"
  by (induction cs arbitrary: q) (auto simp: is_space_def)

lemma cmdline_lines_nonempty: "cmdline_lines q s \<noteq> []"
  by (cases s) auto

lemma memcpy_at_Cons:
  "p < length m \<Longrightarrow> memcpy_at (m[p := x]) (Suc p) xs = memcpy_at m p (x # xs)"
  by (simp add: memcpy_at_def upd_conv_take_nth_drop add.commute)

lemma cmdline_loop_fits:
  assumes "limit \<le> length mem" and "out + length (cmdline_lines q s) \<le> limit"
  shows "cmdline_loop limit s q out mem =
    (memcpy_at mem out (cmdline_lines q s), Some (ends_in_quote q s, out + length (cmdline_lines q s)))"
  using assms
proof (induction limit s q out mem rule: cmdline_loop.induct)
  case (1 limit s q out mem)
  have lt: "out < limit" "out < length mem" using 1 cmdline_lines_nonempty [of q s] by (cases "cmdline_lines q s"; simp)+
  show ?case
  proof (cases s)
    case Nil
    with lt show ?thesis
      by (subst cmdline_loop.simps) (simp add: memcpy_at_def upd_conv_take_nth_drop)
  next
    case (Cons c cs)
    with 1 lt show ?thesis
      by (subst cmdline_loop.simps) (auto simp: memcpy_at_Cons ends_in_quote_dropWhile is_space_def)
  qed
qed

lemma cmdline_loop_overflow:
  assumes "limit \<le> length mem" and "limit < out + length (cmdline_lines q s)"
  shows "\<exists>mem'. cmdline_loop limit s q out mem = (mem', None) \<and> length mem' = length mem \<and>
    take out mem' = take out mem"
  using assms
proof (induction limit s q out mem rule: cmdline_loop.induct)
  case (1 limit s q out mem)
  show ?case
  proof (cases "out \<ge> limit")
    case True
    then show ?thesis by (subst cmdline_loop.simps) simp
  next
    case False
    show ?thesis
    proof (cases s)
      case Nil
      with False 1 show ?thesis by simp
    next
      case (Cons c cs)
      have pre: "take out m' = take out mem" if "take (Suc out) m' = take (Suc out) (mem[out := x])" for m' x
        using arg_cong [OF that, of "take out"] by (simp add: min_def)
      show ?thesis
      proof (cases "\<not> q \<and> is_space c")
        case True
        let ?m = "mem[out := BOOTCONFIG_DELIMITER]"
        obtain mem' where "cmdline_loop limit (dropWhile is_space cs) q (out + 1) ?m = (mem', None)"
          and "length mem' = length mem" and "take (Suc out) mem' = take (Suc out) ?m"
          using 1(1) [OF False Cons True] 1(3,4) Cons True by auto
        with True Cons False pre show ?thesis by (subst cmdline_loop.simps) simp
      next
        case nsp: False
        let ?m = "mem[out := c]" and ?q = "if c = 34 then \<not> q else q"
        obtain mem' where "cmdline_loop limit cs ?q (out + 1) ?m = (mem', None)"
          and "length mem' = length mem" and "take (Suc out) mem' = take (Suc out) ?m"
          using 1(2) [OF False Cons nsp] 1(3,4) Cons nsp by auto
        with nsp Cons False pre show ?thesis by (subst cmdline_loop.simps) auto
      qed
    qed
  qed
qed

lemma append_cmdline_fits:
  assumes "bc_inv bc" and "bc_size bc + length (cmdline_lines False s) \<le> bc_limit bc"
    and "\<not> ends_in_quote False s"
  shows "\<exists>bc'. bootconfig_append_cmdline bc s = (0, bc') \<and> bc_inv bc' \<and>
    bc_text bc' = bc_text bc @ cmdline_lines False s \<and> bc_limit bc' = bc_limit bc"
proof -
  have "bc_limit bc \<le> length (bc_mem bc)" using assms(1) by (simp add: bc_inv_def)
  from cmdline_loop_fits [OF this assms(2)] show ?thesis
    using assms by (auto simp: bootconfig_append_cmdline_def bc_inv_def bc_text_def memcpy_at_def)
qed

lemma append_cmdline_fails:
  assumes "bc_inv bc"
    and "bc_limit bc < bc_size bc + length (cmdline_lines False s) \<or> ends_in_quote False s"
  shows "\<exists>bc'. bootconfig_append_cmdline bc s = (- 1, bc') \<and> bc_inv bc' \<and> bc_text bc' = bc_text bc"
proof (cases "bc_limit bc < bc_size bc + length (cmdline_lines False s)")
  case True
  have l: "bc_limit bc \<le> length (bc_mem bc)" using assms(1) by (simp add: bc_inv_def)
  obtain mem' where "cmdline_loop (bc_limit bc) s False (bc_size bc) (bc_mem bc) = (mem', None)"
    and "length mem' = length (bc_mem bc)" and "take (bc_size bc) mem' = take (bc_size bc) (bc_mem bc)"
    using cmdline_loop_overflow [OF l True] by blast
  with assms(1) show ?thesis
    by (simp add: bootconfig_append_cmdline_def bc_inv_def bc_text_def)
next
  case False
  then have fits: "bc_size bc + length (cmdline_lines False s) \<le> bc_limit bc" by simp
  have l: "bc_limit bc \<le> length (bc_mem bc)" using assms(1) by (simp add: bc_inv_def)
  from cmdline_loop_fits [OF l fits] show ?thesis
    using assms False by (auto simp: bootconfig_append_cmdline_def bc_inv_def bc_text_def)
       (simp add: memcpy_at_def)
qed

definition param_text :: "u8 list \<Rightarrow> u8 list \<Rightarrow> u8 list \<Rightarrow> u8 list" where
  "param_text key op value = key @ op @ [34] @ value @ [34, BOOTCONFIG_DELIMITER]"

definition has_forbidden :: "u8 list \<Rightarrow> bool" where
  "has_forbidden value = list_ex (\<lambda>c. c = 39 \<or> c = 34 \<or> c = 92) value"

lemma append_param_ok:
  assumes "bc_inv bc" and "\<not> has_forbidden value"
    and "bc_size bc + length (param_text key op value) < bc_limit bc"
  shows "\<exists>bc'. append_param bc key value op = (0, bc') \<and> bc_inv bc' \<and>
    bc_text bc' = bc_text bc @ param_text key op value \<and> bc_limit bc' = bc_limit bc"
proof -
  let ?p = "param_text key op value"
  define sp where "sp = bc_limit bc - bc_size bc"
  have sp: "length ?p < sp" using assms(3) by (simp add: sp_def)
  then have "snprintf_at (bc_mem bc) (bc_size bc) sp ?p = memcpy_at (bc_mem bc) (bc_size bc) (?p @ [0])"
    by (simp add: snprintf_at_def)
  moreover have "append_param bc key value op = (0, bc\<lparr>bc_mem := snprintf_at (bc_mem bc) (bc_size bc) sp ?p,
      bc_size := bc_size bc + length ?p\<rparr>)"
    using sp assms(2) by (simp add: append_param_def param_text_def has_forbidden_def Let_def sp_def)
  ultimately show ?thesis
    using assms(1,3) by (auto simp: bc_inv_def bc_text_def memcpy_at_def nth_append)
qed

lemma append_param_fails:
  assumes "bc_inv bc"
    and "has_forbidden value \<or> bc_limit bc \<le> bc_size bc + length (param_text key op value)"
  shows "\<exists>bc'. append_param bc key value op = (- 1, bc') \<and> bc_inv bc' \<and> bc_text bc' = bc_text bc"
proof (cases "has_forbidden value")
  case True
  with assms(1) show ?thesis by (simp add: append_param_def has_forbidden_def)
next
  case False
  let ?p = "param_text key op value"
  define sp where "sp = bc_limit bc - bc_size bc"
  let ?m = "snprintf_at (bc_mem bc) (bc_size bc) sp ?p"
  have sp: "length ?p \<ge> sp" using assms False by (auto simp: sp_def)
  have a: "append_param bc key value op = (- 1, bc\<lparr>bc_mem := ?m[bc_size bc := 0]\<rparr>)"
    using sp False by (simp add: append_param_def param_text_def has_forbidden_def Let_def sp_def)
  have "length ?m = length (bc_mem bc) \<and> take (bc_size bc) ?m = take (bc_size bc) (bc_mem bc)"
  proof (cases "sp = 0")
    case False
    then have "bc_size bc + length (take (sp - 1) ?p @ [0]) \<le> length (bc_mem bc)"
      using assms(1) by (auto simp: bc_inv_def sp_def min_def)
    then show ?thesis using False assms(1) by (simp add: snprintf_at_def bc_inv_def memcpy_at_def)
  qed (simp add: snprintf_at_def)
  with a assms(1) show ?thesis by (auto simp: bc_inv_def bc_text_def)
qed

lemma append_params_ok:
  fixes params
  defines "t \<equiv> (if last params = BOOTCONFIG_DELIMITER then params else params @ [BOOTCONFIG_DELIMITER])"
  assumes "bc_inv bc" and "params \<noteq> []" and "bc_size bc + length t \<le> bc_limit bc"
  shows "\<exists>bc'. bootconfig_append_params bc params = (0, bc') \<and> bc_inv bc' \<and>
    bc_text bc' = bc_text bc @ t \<and> bc_limit bc' = bc_limit bc"
proof -
  have le: "bc_size bc + length params \<le> bc_limit bc"
    using assms(4) unfolding t_def by (simp split: if_splits)
  then have a: "add64 (bc_size bc) (length params) = bc_size bc + length params"
    using assms(2) by (simp add: add64_id bc_inv_def)
  let ?m = "memcpy_at (bc_mem bc) (bc_size bc) params" and ?n = "bc_size bc + length params"
  have lm: "?n \<le> length (bc_mem bc)" using assms(2) le by (simp add: bc_inv_def)
  have "?m ! (?n - 1) = last params"
    using nth_memcpy_at [OF lm, of "?n - 1"] lm assms(3) by (cases params rule: rev_cases) auto
  then have "bootconfig_append_params bc params =
      (if last params \<noteq> BOOTCONFIG_DELIMITER
       then (0, bc\<lparr>bc_mem := ?m[?n := BOOTCONFIG_DELIMITER, Suc ?n := 0], bc_size := Suc ?n\<rparr>)
       else (0, bc\<lparr>bc_mem := ?m[?n := 0], bc_size := ?n\<rparr>))"
    using a le assms(3,4) unfolding t_def
    by (cases "last params = BOOTCONFIG_DELIMITER") (auto simp: bootconfig_append_params_def Let_def)
  moreover have "take ?n ?m = bc_text bc @ params"
    using assms(2) le by (simp add: memcpy_at_def bc_text_def bc_inv_def)
  moreover have "length ?m = length (bc_mem bc)" using assms(2) le by (simp add: bc_inv_def)
  ultimately show ?thesis
    using assms(2,4) le unfolding t_def
    by (auto simp: bc_inv_def bc_text_def take_Suc_conv_app_nth)
qed

lemma memcpy_at_next:
  "length a = p \<Longrightarrow> length x = length b \<Longrightarrow> memcpy_at (a @ b @ c) p x = a @ x @ c"
  by (simp add: memcpy_at_def)

lemma checksum_prefix: "length p = n \<Longrightarrow> bootconfig_checksum cs (p @ r) n = bootconfig_checksum cs p n"
  by (simp add: bootconfig_checksum_def)

lemma finalize_mem:
  fixes bc reserved
  defines "full \<equiv> bc_size bc + reserved + 1"
  defines "params \<equiv> bc_text bc @ replicate (reserved + 1) 0"
  assumes "bc_inv bc" and "full \<le> bc_limit bc" and "bc_limit bc + TRAILER_SIZE + 1 \<le> length (bc_mem bc)"
    and "full < 2 ^ 32"
  shows "bootconfig_finalize cs bc reserved = (Some full, bc\<lparr>bc_mem := params @
    (le32_bytes (word_of_nat full) @ le32_bytes (bootconfig_checksum cs params full) @ BOOTCONFIG_MAGIC) @
    drop (full + TRAILER_SIZE) (bc_mem bc)\<rparr>)"
proof -
  let ?m = "bc_mem bc"
  let ?d = "drop full ?m" and ?l = "le32_bytes (word_of_nat full)"
    and ?s = "le32_bytes (bootconfig_checksum cs params full)"
  have lp: "length params = full"
    using assms(3-5) by (simp add: params_def bc_text_def full_def bc_inv_def)
  have ld: "TRAILER_SIZE \<le> length ?d" using assms(4,5) by simp
  have m1: "memcpy_at ?m (bc_size bc) (replicate (reserved + 1) 0) = params @ ?d"
    by (simp add: memcpy_at_def params_def bc_text_def full_def)
  have m2: "memcpy_at (params @ ?d) full ?l = params @ ?l @ drop 4 ?d"
    using lp ld by (simp add: memcpy_at_def TRAILER_SIZE_def)
  have dec: "le32_dec (params @ ?l @ drop 4 ?d) full = full"
    using le32_dec_append [OF lp] assms(6) by (simp add: unat_of_nat)
  have sum: "bootconfig_checksum cs (params @ ?l @ drop 4 ?d) full = bootconfig_checksum cs params full"
    by (rule checksum_prefix [OF lp])
  have m3: "memcpy_at (params @ ?l @ drop 4 ?d) (full + 4) ?s = params @ ?l @ ?s @ drop 8 ?d"
    using lp by (simp add: memcpy_at_def)
  have m4: "memcpy_at (params @ ?l @ ?s @ drop 8 ?d) (full + 8) BOOTCONFIG_MAGIC =
      params @ ?l @ ?s @ BOOTCONFIG_MAGIC @ drop 20 ?d"
    using lp by (simp add: memcpy_at_def BOOTCONFIG_MAGIC_def)
  have "add64 (add64 (bc_size bc) reserved) 1 = full"
    using assms(6) by (simp add: add64_id full_def)
  then show ?thesis
    using assms(4) m1 m2 m3 m4 dec sum
    by (simp add: bootconfig_finalize_def Let_def full_def [symmetric] TRAILER_SIZE_def)
       (simp add: full_def)
qed

lemma strnlen_text: "0 \<notin> set t \<Longrightarrow> length t < n \<Longrightarrow> strnlen (t @ 0 # rest) n = length t"
proof (induction t arbitrary: n)
  case Nil
  then show ?case by (cases n) auto
next
  case (Cons c t)
  then show ?case by (cases n) auto
qed

lemma init_inv:
  assumes "TRAILER_SIZE + 1 \<le> length mem" and "length mem < 2 ^ 63"
  shows "\<exists>bc. bootconfig_init mem = Some bc \<and> bc_inv bc \<and> bc_text bc = [] \<and>
    bc_limit bc + TRAILER_SIZE + 1 = length mem \<and> length (bc_mem bc) = length mem"
  using assms by (cases mem) (auto simp: bootconfig_init_def bc_inv_def bc_text_def TRAILER_SIZE_def)

text \<open>
  After \<open>bootconfig_reinit\<close> the limit is the offset of the trailer itself, and a
  \<open>bootconfig_append_params\<close> that fills the space up to the limit puts its terminator on the first
  byte of the trailer, the low byte of \<open>params_size\<close>.
\<close>

lemma append_params_after_reinit_hits_trailer:
  assumes "snd (bootconfig_reinit mem off) = Some bc" and "le32_dec mem off \<le> off" and "bc_inv bc"
    and "params \<noteq> []" and "last params = BOOTCONFIG_DELIMITER"
    and "bc_size bc + length params = bc_limit bc"
  shows "\<exists>bc'. bootconfig_append_params bc params = (0, bc') \<and>
    bc_mem bc' ! le32_dec mem off = 0 \<and> bc_limit bc = le32_dec mem off"
proof -
  have lim: "bc_limit bc = le32_dec mem off"
    using assms(1) by (auto simp: bootconfig_reinit_def Let_def split: if_splits)
  from append_params_ok [OF assms(3,4)] assms(5,6) obtain bc' where
    a: "bootconfig_append_params bc params = (0, bc')" "bc_inv bc'" "bc_text bc' = bc_text bc @ params"
    "bc_limit bc' = bc_limit bc" by auto
  have "length (bc_text b) = bc_size b" if "bc_inv b" for b
    using that by (simp add: bc_text_def bc_inv_def)
  then have "bc_size bc' = bc_limit bc"
    using a assms(3,6) by (metis length_append)
  with a lim show ?thesis by (auto simp: bc_inv_def)
qed

section \<open>Properties\<close>

text \<open>
  \<open>append_param\<close>, the body of \<open>bootconfig_append\<close> (operator \<open>=\<close>) and \<open>bootconfig_update_value\<close>
  (operator \<open>:=\<close>), adds exactly one line \<open>key op "value"\<close> at the end of the text when the value
  has no quote or backslash and the line fits; otherwise it returns -1 and the text is what it
  was, terminated where it was.
\<close>

theorem bootconfig_append_adds_line:
  assumes "bc_inv bc"
  shows "if \<not> has_forbidden value \<and> bc_size bc + length (param_text key op value) < bc_limit bc
    then \<exists>bc'. append_param bc key value op = (0, bc') \<and> bc_inv bc' \<and>
      bc_text bc' = bc_text bc @ param_text key op value \<and> bc_limit bc' = bc_limit bc
    else \<exists>bc'. append_param bc key value op = (- 1, bc') \<and> bc_inv bc' \<and> bc_text bc' = bc_text bc"
  using append_param_ok [OF assms] append_param_fails [OF assms] by auto

theorem bootconfig_append_adds_line_witness:
  "\<exists>bc'. bootconfig_append \<lparr>bc_mem = replicate 40 0, bc_size = 0, bc_limit = 19\<rparr> [97] [98] = (0, bc') \<and>
    bc_text bc' = [97, 61, 34, 98, 34, 10]"
  using bootconfig_append_adds_line [of "\<lparr>bc_mem = replicate 40 0, bc_size = 0, bc_limit = 19\<rparr>"
      "[98]" "[97]" "[61]"]
  by (simp add: bc_inv_def has_forbidden_def param_text_def bootconfig_append_def
      BOOTCONFIG_DELIMITER_def) (simp add: bc_text_def, blast)

text \<open>
  C26. \<open>bootconfig_append_cmdline\<close> appends the command line with every unquoted run of white space
  turned into one newline and a final newline, exactly when the result fits under the limit and
  the quotes are balanced; in every other case it returns -1 and leaves the text as it was.
\<close>

theorem bootconfig_append_cmdline_translates:
  assumes "bc_inv bc"
  shows "if bc_size bc + length (cmdline_lines False s) \<le> bc_limit bc \<and> \<not> ends_in_quote False s
    then \<exists>bc'. bootconfig_append_cmdline bc s = (0, bc') \<and> bc_inv bc' \<and>
      bc_text bc' = bc_text bc @ cmdline_lines False s \<and> bc_limit bc' = bc_limit bc
    else \<exists>bc'. bootconfig_append_cmdline bc s = (- 1, bc') \<and> bc_inv bc' \<and> bc_text bc' = bc_text bc"
  using append_cmdline_fits [OF assms, of s] append_cmdline_fails [OF assms, of s] by auto

theorem bootconfig_append_cmdline_translates_witness:
  "\<exists>bc'. bootconfig_append_cmdline \<lparr>bc_mem = replicate 40 0, bc_size = 0, bc_limit = 19\<rparr>
      [97, 32, 32, 34, 98, 32, 34] = (0, bc') \<and> bc_text bc' = [97, 10, 34, 98, 32, 34, 10]"
  using bootconfig_append_cmdline_translates [of
      "\<lparr>bc_mem = replicate 40 0, bc_size = 0, bc_limit = 19\<rparr>" "[97, 32, 32, 34, 98, 32, 34]"]
  by (simp add: bc_inv_def is_space_def BOOTCONFIG_DELIMITER_def) (simp add: bc_text_def, blast)

text \<open>
  C27. The trailer that \<open>bootconfig_finalize\<close> writes lets \<open>bootconfig_reinit\<close> recover the boot
  configuration: with any amount of reserved space that fits, the memory then holds the text, the
  reserve, all zero, and the trailer, which records the size of those two and their checksum; and
  reinitialising from it succeeds with the same text and the reserve as free space.
\<close>

theorem bootconfig_finalize_reinit:
  assumes "bc_inv bc" and "bc_size bc + reserved + 1 \<le> bc_limit bc"
    and "bc_limit bc + TRAILER_SIZE + 1 \<le> length (bc_mem bc)" and "length (bc_mem bc) < 2 ^ 32"
    and "0 \<notin> set (bc_text bc)"
  shows "\<exists>bc' bc''. bootconfig_finalize cs bc reserved = (Some (bc_size bc + reserved + 1), bc') \<and>
    bootconfig_reinit (bc_mem bc') (bc_size bc + reserved + 1) = (0, Some bc'') \<and>
    bc_text bc'' = bc_text bc \<and> bc_limit bc'' = bc_size bc'' + reserved + 1 \<and> bc_inv bc'' \<and>
    take (bc_size bc + reserved + 1) (bc_mem bc') = bc_text bc @ replicate (reserved + 1) 0 \<and>
    le32_dec (bc_mem bc') (bc_size bc + reserved + 1) = bc_size bc + reserved + 1 \<and>
    le32_dec (bc_mem bc') (bc_size bc + reserved + 1 + 4) =
      unat (bootconfig_checksum cs (bc_mem bc') (bc_size bc + reserved + 1))"
proof -
  define full where "full = bc_size bc + reserved + 1"
  let ?p = "bc_text bc @ replicate (reserved + 1) 0"
  define rest where "rest = drop (full + TRAILER_SIZE) (bc_mem bc)"
  define bc' where "bc' = bc\<lparr>bc_mem := ?p @ (le32_bytes (word_of_nat full) @
    le32_bytes (bootconfig_checksum cs ?p full) @ BOOTCONFIG_MAGIC) @ rest\<rparr>"
  have lt: "length (bc_text bc) = bc_size bc" using assms(1) by (simp add: bc_text_def bc_inv_def)
  then have lp: "length ?p = full" by (simp add: full_def)
  have f32: "full < 2 ^ 32" using assms(2-4) by (simp add: full_def)
  have fin: "bootconfig_finalize cs bc reserved = (Some full, bc')"
    using finalize_mem [OF assms(1), of reserved cs] assms(2,3) f32
    unfolding full_def bc'_def rest_def by blast
  have ps: "le32_dec (bc_mem bc') full = full"
    using le32_dec_append [OF lp] f32 by (simp add: bc'_def unat_of_nat)
  have magic: "bslice (full + 8) BOOTCONFIG_MAGIC_BYTES (bc_mem bc') = BOOTCONFIG_MAGIC"
    using bslice_mid [of "?p @ le32_bytes (word_of_nat full) @
        le32_bytes (bootconfig_checksum cs ?p full)" "full + 8" BOOTCONFIG_MAGIC
        BOOTCONFIG_MAGIC_BYTES rest] lp
    by (simp add: bc'_def BOOTCONFIG_MAGIC_BYTES_def BOOTCONFIG_MAGIC_def)
  have "bc_mem bc' = bc_text bc @ 0 # drop (bc_size bc + 1) (bc_mem bc')"
    using lt by (simp add: bc'_def)
  then have sl: "strnlen (bc_mem bc') full = bc_size bc"
    using strnlen_text [OF assms(5), of full "drop (bc_size bc + 1) (bc_mem bc')"] lt
    by (simp add: full_def)
  have re: "bootconfig_reinit (bc_mem bc') full =
      (0, Some \<lparr>bc_mem = bc_mem bc', bc_size = bc_size bc, bc_limit = full\<rparr>)"
    using magic ps sl by (simp add: bootconfig_reinit_def Let_def) (simp add: full_def)
  have "le32_dec (bc_mem bc') (full + 4) = unat (bootconfig_checksum cs ?p full)"
    using le32_dec_append [of "?p @ le32_bytes (word_of_nat full)" "full + 4"] lp
    by (simp add: bc'_def)
  moreover have "bootconfig_checksum cs (bc_mem bc') full = bootconfig_checksum cs ?p full"
    using checksum_prefix [OF lp] by (simp add: bc'_def)
  moreover have "length (bc_mem bc') < 2 ^ 63" "full < length (bc_mem bc')"
    using lp f32 assms(2-4) by (auto simp: bc'_def rest_def BOOTCONFIG_MAGIC_def TRAILER_SIZE_def)
  moreover have "bc_mem bc' ! bc_size bc = 0" using lt by (simp add: bc'_def nth_append)
  moreover have tk: "take full (bc_mem bc') = ?p"
  proof -
    have "take (length p) (p @ xs) = p" for p xs :: "u8 list" by simp
    moreover have "\<exists>xs. bc_mem bc' = ?p @ xs" unfolding bc'_def by (simp del: append_assoc)
    ultimately show ?thesis unfolding lp [symmetric] by metis
  qed
  ultimately have "bootconfig_finalize cs bc reserved = (Some full, bc') \<and>
    bootconfig_reinit (bc_mem bc') full = (0, Some \<lparr>bc_mem = bc_mem bc', bc_size = bc_size bc, bc_limit = full\<rparr>) \<and>
    take full (bc_mem bc') = ?p \<and> le32_dec (bc_mem bc') full = full \<and>
    le32_dec (bc_mem bc') (full + 4) = unat (bootconfig_checksum cs (bc_mem bc') full) \<and>
    bc_inv \<lparr>bc_mem = bc_mem bc', bc_size = bc_size bc, bc_limit = full\<rparr>"
    using fin re ps by (simp add: bc_inv_def) (simp add: full_def)
  moreover have "bc_text \<lparr>bc_mem = bc_mem bc', bc_size = bc_size bc, bc_limit = full\<rparr> = bc_text bc"
    using lt by (simp add: bc_text_def bc'_def)
  ultimately show ?thesis unfolding full_def
    by (intro exI [of _ bc'] exI [of _ "\<lparr>bc_mem = bc_mem bc', bc_size = bc_size bc, bc_limit = full\<rparr>"])
      (simp add: full_def)
qed

theorem bootconfig_finalize_reinit_witness:
  "\<exists>bc' bc''. bootconfig_finalize True \<lparr>bc_mem = [97, 10] @ replicate 40 0, bc_size = 2, bc_limit = 20\<rparr> 4
      = (Some 7, bc') \<and> bootconfig_reinit (bc_mem bc') 7 = (0, Some bc'') \<and> bc_text bc'' = [97, 10]"
  using bootconfig_finalize_reinit [of
      "\<lparr>bc_mem = [97, 10] @ replicate 40 0, bc_size = 2, bc_limit = 20\<rparr>" 4 True]
  by (simp add: bc_inv_def bc_text_def TRAILER_SIZE_def) blast

end
