(* ===== verification/Commandline.thy ===== *)
theory Commandline
  imports Dc_Prelude
begin

text \<open>
  \<open>src/boot/commandline.c\<close>: expanding the kernel command line and reading values from it. Strings
  are byte lists without the terminator; \<open>dest\<close> is the memory from the destination pointer on, with
  the pointer as an offset. \<open>GptGuidToStr\<close> is vboot's and \<open>strtoul\<close> libpayload's: the GUID's text and
  the conversion function are arguments.
\<close>

section \<open>Model\<close>

text \<open>The list of appended parameters; \<open>list_insert_after\<close> puts the newest first.\<close>

type_synonym param_list = "u8 list list"

definition commandline_append :: "u8 list \<Rightarrow> param_list \<Rightarrow> param_list" where
  "commandline_append param ps = param # ps"

definition GUID_STRLEN :: nat where "GUID_STRLEN = 37"

text \<open>
  The first loop of \<open>commandline_subst\<close> from \<open>src\<close> with the destination offset; \<open>None\<close> is an early
  \<open>return 1\<close>, together with the memory at that point.
\<close>

fun subst_loop :: "u8 list \<Rightarrow> nat \<Rightarrow> u8 list \<Rightarrow> nat \<Rightarrow> u8 list \<Rightarrow> u8 list \<times> nat option" where
  "subst_loop guid dest_size [] dest mem = (mem, Some dest)"
| "subst_loop guid dest_size (c # src) dest mem =
     (if c \<noteq> 37
      then if \<not> dest + 2 \<le> dest_size then (mem, None)
           else subst_loop guid dest_size src (dest + 1) (mem[dest := c])
      else case src of
             [] \<Rightarrow> (mem, None)
           | c' # src' \<Rightarrow>
               if c' = 85
               then if \<not> dest + GUID_STRLEN \<le> dest_size then (mem, None)
                    else subst_loop guid dest_size src' (dest + (GUID_STRLEN - 1))
                           (memcpy_at mem dest (guid @ [0]))
               else if \<not> dest + 3 \<le> dest_size then (mem, None)
                    else subst_loop guid dest_size src' (dest + 2) (mem[dest := 37, dest + 1 := c']))"

text \<open>\<open>snprintf(dest, space, " %s", param)\<close>: the memory; the result is \<open>1 + length param\<close>.\<close>

definition snprintf_param :: "u8 list \<Rightarrow> nat \<Rightarrow> nat \<Rightarrow> u8 list \<Rightarrow> u8 list" where
  "snprintf_param mem dest space param =
     (if space = 0 then mem else memcpy_at mem dest (take (space - 1) (32 # param) @ [0]))"

fun param_loop :: "nat \<Rightarrow> param_list \<Rightarrow> nat \<Rightarrow> u8 list \<Rightarrow> u8 list \<times> nat option" where
  "param_loop dest_size [] dest mem = (mem, Some dest)"
| "param_loop dest_size (p # ps) dest mem =
     (let mem = snprintf_param mem dest (dest_size - dest) p;
          dest = dest + (1 + length p)
      in if \<not> dest \<le> dest_size then (mem, None) else param_loop dest_size ps dest mem)"

definition commandline_subst ::
  "u8 list \<Rightarrow> param_list \<Rightarrow> u8 list \<Rightarrow> u8 list \<Rightarrow> nat \<Rightarrow> int \<times> u8 list" where
  "commandline_subst guid ps src mem dest_size =
     (if dest_size > 10000 then (1, mem)
      else case subst_loop guid dest_size src 0 mem of
             (mem, None) \<Rightarrow> (1, mem)
           | (mem, Some dest) \<Rightarrow>
               (case param_loop dest_size ps dest mem of
                  (mem, None) \<Rightarrow> (1, mem)
                | (mem, Some dest) \<Rightarrow> (0, mem[dest := 0])))"

text \<open>Skipping the rest of an argument.\<close>

fun skip_arg :: "bool \<Rightarrow> u8 list \<Rightarrow> u8 list" where
  "skip_arg in_quote [] = []"
| "skip_arg in_quote (c # cs) =
     (if in_quote \<or> \<not> is_space c then skip_arg (if c = 34 then \<not> in_quote else in_quote) cs
      else c # cs)"

lemma length_skip_arg: "length (skip_arg q s) \<le> length s"
  by (induction q s rule: skip_arg.induct) auto

text \<open>\<open>strncmp(pos, key, key_len) == 0\<close> and the \<open>=\<close> after it.\<close>

definition key_at :: "u8 list \<Rightarrow> u8 list \<Rightarrow> bool" where
  "key_at key pos \<longleftrightarrow> take (length key + 1) pos = key @ [61]"

function get_cmdline_value :: "u8 list \<Rightarrow> u8 list \<Rightarrow> u8 list option" where
  "get_cmdline_value pos key =
     (case dropWhile is_space pos of
        [] \<Rightarrow> None
      | c # cs \<Rightarrow> if key_at key (c # cs) then Some (drop (length key + 1) (c # cs))
                 else get_cmdline_value (skip_arg False (c # cs)) key)"
  by pat_completeness auto
termination
proof (relation "measure (\<lambda>(pos, key). length pos)")
  fix pos key :: "u8 list" and c cs
  assume d: "dropWhile is_space pos = c # cs"
  then have "\<not> is_space c" by (metis hd_dropWhile list.distinct(1) list.sel(1))
  then have "length (skip_arg False (c # cs)) \<le> length cs"
    using length_skip_arg [of _ cs] by simp
  also have "\<dots> < length pos" using d length_dropWhile_le [of is_space pos] by simp
  finally show "((skip_arg False (c # cs), key), pos, key) \<in> measure (\<lambda>(pos, key). length pos)" by simp
qed simp

declare get_cmdline_value.simps [simp del]

text \<open>
  \<open>strtoul\<close> gives the value and the rest of the string; the result is the value stored through
  \<open>out\<close>, \<open>None\<close> for -1.
\<close>

definition get_cmdline_uint32_value ::
  "(u8 list \<Rightarrow> nat \<times> u8 list) \<Rightarrow> u8 list \<Rightarrow> u8 list \<Rightarrow> nat option" where
  "get_cmdline_uint32_value strtoul cmdline key =
     (case get_cmdline_value cmdline key of
        None \<Rightarrow> None
      | Some value_start \<Rightarrow>
          let quoted = (value_start \<noteq> [] \<and> hd value_start = 34);
              value_start = (if quoted then tl value_start else value_start);
              (val, endptr) = strtoul value_start
          in if value_start = endptr then None
             else if quoted \<and> \<not> (endptr \<noteq> [] \<and> hd endptr = 34) then None
             else let endptr = (if quoted then tl endptr else endptr)
                  in if endptr \<noteq> [] \<and> \<not> is_space (hd endptr) then None
                     else if val > 2 ^ 32 - 1 then None else Some val)"

section \<open>What the substitution produces\<close>

fun expand :: "u8 list \<Rightarrow> u8 list \<Rightarrow> u8 list option" where
  "expand guid [] = Some []"
| "expand guid (c # src) =
     (if c \<noteq> 37 then map_option ((#) c) (expand guid src)
      else case src of
             [] \<Rightarrow> None
           | c' # src' \<Rightarrow> if c' = 85 then map_option ((@) guid) (expand guid src')
                         else map_option (\<lambda>r. 37 # c' # r) (expand guid src'))"

definition param_text_list :: "param_list \<Rightarrow> u8 list" where
  "param_text_list ps = concat (map ((#) 32) ps)"

lemma take_memcpy_at:
  "p + length x \<le> length m \<Longrightarrow> take (p + length x) (memcpy_at m p x) = take p m @ x"
  by (simp add: memcpy_at_def)

lemma drop_memcpy_at: "p + length x \<le> n \<Longrightarrow> p \<le> length m \<Longrightarrow> drop n (memcpy_at m p x) = drop n m"
  by (simp add: memcpy_at_def)

text \<open>\<open>mem'\<close> is \<open>mem\<close> with \<open>tx\<close> written at \<open>d\<close> and at most one byte after it touched.\<close>

definition wrote :: "u8 list \<Rightarrow> nat \<Rightarrow> u8 list \<Rightarrow> u8 list \<Rightarrow> bool" where
  "wrote mem d tx mem' \<longleftrightarrow> length mem' = length mem \<and>
     take (d + length tx) mem' = take d mem @ tx \<and>
     drop (d + length tx + 1) mem' = drop (d + length tx + 1) mem"

lemma wrote_step:
  assumes "wrote mem d x m1" and "wrote m1 (d + length x) y m2"
  shows "wrote mem d (x @ y) m2"
proof -
  have "drop (length y) (drop (d + length x + 1) m1) = drop (length y) (drop (d + length x + 1) mem)"
    using assms(1) by (simp add: wrote_def)
  then have "drop (d + length x + length y + 1) m1 = drop (d + length x + length y + 1) mem"
    by (simp add: ac_simps)
  with assms show ?thesis by (simp add: wrote_def add.assoc)
qed

lemma wrote_update: "d + 1 \<le> length mem \<Longrightarrow> wrote mem d [c] (mem[d := c])"
  by (simp add: wrote_def take_Suc_conv_app_nth)

lemma wrote_memcpy:
  "d + length x + 1 \<le> length mem \<Longrightarrow> wrote mem d x (memcpy_at mem d (x @ [z]))"
  using take_memcpy_at [of d "x @ [z]" mem]
  by (auto simp: wrote_def drop_memcpy_at memcpy_at_def)

lemma subst_loop_ok:
  assumes "length guid = 36" and "expand guid src = Some tx" and "d + length tx + 1 \<le> dest_size"
    and "dest_size \<le> length mem"
  shows "\<exists>mem'. subst_loop guid dest_size src d mem = (mem', Some (d + length tx)) \<and>
    wrote mem d tx mem'"
  using assms
proof (induction guid src arbitrary: tx d mem rule: expand.induct)
  case (2 guid c src)
  show ?case
  proof (cases "c = 37")
    case False
    then obtain t where t: "expand guid src = Some t" "tx = c # t" using 2 by auto
    obtain mem' where "subst_loop guid dest_size src (d + 1) (mem[d := c]) = (mem', Some (d + 1 + length t))"
      and w: "wrote (mem[d := c]) (d + 1) t mem'"
      using 2(1) [OF False, of t "d + 1" "mem[d := c]"] 2(4-7) t by auto
    moreover have "wrote mem d (c # t) mem'"
      using wrote_step [OF wrote_update] w 2(6,7) by fastforce
    ultimately show ?thesis using False t 2(6) by auto
  next
    case True
    with 2 obtain c' src' where src: "src = c' # src'" by (cases src) auto
    show ?thesis
    proof (cases "c' = 85")
      case U: True
      then obtain t where t: "expand guid src' = Some t" "tx = guid @ t" using 2 True src by auto
      let ?m = "memcpy_at mem d (guid @ [0])"
      have lm: "length ?m = length mem" using 2(4,6,7) t by simp
      obtain mem' where "subst_loop guid dest_size src' (d + 36) ?m = (mem', Some (d + 36 + length t))"
        and w: "wrote ?m (d + 36) t mem'"
        using 2(2) [of c' src' t "d + 36" ?m] 2(4-7) t True U src lm by auto
      moreover have "wrote mem d (guid @ t) mem'"
        using wrote_step [OF wrote_memcpy] w 2(4,6,7) t by fastforce
      ultimately show ?thesis using True U src t 2(4,6) by (auto simp: GUID_STRLEN_def)
    next
      case nU: False
      then obtain t where t: "expand guid src' = Some t" "tx = 37 # c' # t" using 2 True src by auto
      let ?m = "mem[d := 37, d + 1 := c']"
      obtain mem' where "subst_loop guid dest_size src' (d + 2) ?m = (mem', Some (d + 2 + length t))"
        and w: "wrote ?m (d + 2) t mem'"
        using 2(3) [of c' src' t "d + 2" ?m] 2(4-7) t True nU src by auto
      moreover have "wrote mem d [37, c'] ?m"
        using wrote_step [OF wrote_update wrote_update, of d mem 37 c'] 2(6,7) t by simp
      then have "wrote mem d ([37, c'] @ t) mem'"
        using wrote_step [of mem d "[37, c']" ?m t mem'] w by simp
      ultimately show ?thesis using True nU src t 2(6) by auto
    qed
  qed
qed (simp add: wrote_def)

lemma param_loop_ok:
  assumes "d + length (param_text_list ps) + 1 \<le> dest_size" and "dest_size \<le> length mem"
  shows "\<exists>mem'. param_loop dest_size ps d mem = (mem', Some (d + length (param_text_list ps))) \<and>
    wrote mem d (param_text_list ps) mem'"
  using assms
proof (induction ps arbitrary: d mem)
  case (Cons p ps)
  let ?m = "memcpy_at mem d ((32 # p) @ [0])" and ?d = "d + (1 + length p)"
  have fits: "d + length (32 # p) + 1 \<le> length mem" "d + length p + 2 \<le> dest_size"
    "?d + length (param_text_list ps) + 1 \<le> dest_size"
    using Cons.prems by (simp_all add: param_text_list_def)
  have s: "snprintf_param mem d (dest_size - d) p = ?m"
    using fits(2) by (simp add: snprintf_param_def take_Cons')
  obtain mem' where l: "param_loop dest_size ps ?d ?m = (mem', Some (?d + length (param_text_list ps)))"
    and w: "wrote ?m ?d (param_text_list ps) mem'"
    using Cons.IH [of ?d ?m] fits Cons.prems(2) by auto
  have "wrote mem d ((32 # p) @ param_text_list ps) mem'"
    using wrote_step [OF wrote_memcpy [OF fits(1), of 0], of "param_text_list ps" mem'] w by simp
  then show ?case using l s fits by (simp add: Let_def param_text_list_def)
qed (simp add: wrote_def param_text_list_def)

lemma param_loop_overflow:
  "dest_size < d + length (param_text_list ps) \<Longrightarrow> d \<le> dest_size \<Longrightarrow>
   snd (param_loop dest_size ps d mem) = None"
  by (induction ps arbitrary: d mem) (auto simp: Let_def param_text_list_def)

lemma subst_loop_bad_input: "expand guid src = None \<Longrightarrow> snd (subst_loop guid dest_size src d mem) = None"
proof (induction guid src arbitrary: d mem rule: expand.induct)
  case (2 guid c src)
  show ?case
  proof (cases "c = 37")
    case False
    with 2(1) [OF False] 2(4) show ?thesis by simp
  next
    case True
    show ?thesis
    proof (cases src)
      case (Cons c' src')
      show ?thesis
      proof (cases "c' = 85")
        case U: True
        with True Cons 2(2) [of c' src'] 2(4) show ?thesis by simp
      next
        case nU: False
        with True Cons 2(3) [of c' src'] 2(4) show ?thesis by simp
      qed
    qed (simp add: True)
  qed
qed simp

lemma subst_loop_overflow:
  assumes "length guid = 36"
  shows "expand guid src = Some tx \<Longrightarrow> tx \<noteq> [] \<Longrightarrow> dest_size < d + length tx + 1 \<Longrightarrow>
    snd (subst_loop guid dest_size src d mem) = None"
  using assms
proof (induction guid src arbitrary: tx d mem rule: expand.induct)
  case (2 guid c src)
  show ?case
  proof (cases "c = 37")
    case False
    then obtain t where "expand guid src = Some t" "tx = c # t" using 2(4) by auto
    with False 2(1) [OF False, of t "d + 1" "mem[d := c]"] 2(6,7) show ?thesis
      by (cases "t = []") auto
  next
    case True
    with 2(4) obtain c' src' where src: "src = c' # src'" by (cases src) auto
    show ?thesis
    proof (cases "c' = 85")
      case U: True
      then obtain t where "expand guid src' = Some t" "tx = guid @ t" using 2(4) True src by auto
      with True U src 2(2) [of c' src' t "d + 36" "memcpy_at mem d (guid @ [0])"] 2(6,7) show ?thesis
        by (cases "t = []") (auto simp: GUID_STRLEN_def)
    next
      case nU: False
      then obtain t where "expand guid src' = Some t" "tx = 37 # c' # t" using 2(4) True src by auto
      with True nU src 2(3) [of c' src' t "d + 2" "mem[d := 37, d + 1 := c']"] 2(6,7) show ?thesis
        by (cases "t = []") auto
    qed
  qed
qed simp

text \<open>
  The check after \<open>snprintf\<close> is \<open>CHECK_SPACE(0)\<close>: a command line whose length with the appended
  parameters is exactly the size of the destination is accepted. \<open>snprintf\<close> had no room for the last
  character, and the final \<open>*dest = 0\<close> is the byte after the destination.
\<close>

lemma param_loop_full:
  assumes "ps \<noteq> []" and "d + length (param_text_list ps) = dest_size" and "dest_size \<le> length mem"
  shows "\<exists>mem'. param_loop dest_size ps d mem = (mem', Some dest_size) \<and>
    wrote mem d (butlast (param_text_list ps)) mem' \<and> mem' ! (dest_size - 1) = 0"
  using assms
proof (induction ps arbitrary: d mem)
  case (Cons p ps)
  let ?d = "d + (1 + length p)"
  show ?case
  proof (cases "ps = []")
    case True
    let ?m = "memcpy_at mem d (butlast (32 # p) @ [0])"
    have d: "dest_size = ?d" using Cons.prems(2) True by (simp add: param_text_list_def)
    have s: "snprintf_param mem d (dest_size - d) p = ?m"
      by (simp add: snprintf_param_def d butlast_conv_take)
    have "wrote mem d (butlast (32 # p)) ?m" by (rule wrote_memcpy) (use Cons.prems(3) d in simp)
    moreover have "?m ! (dest_size - 1) = 0"
      using Cons.prems(3) by (simp add: d memcpy_at_def nth_append)
    moreover have "param_loop dest_size (p # ps) d mem = (?m, Some dest_size)"
      using s True by (simp add: Let_def d)
    ultimately show ?thesis using True by (simp add: param_text_list_def)
  next
    case False
    let ?m = "memcpy_at mem d ((32 # p) @ [0])"
    have ne: "param_text_list ps \<noteq> []" using False by (cases ps) (simp_all add: param_text_list_def)
    have split: "param_text_list (p # ps) = (32 # p) @ param_text_list ps" by (simp add: param_text_list_def)
    have len: "?d + length (param_text_list ps) = dest_size" using Cons.prems(2) by (simp add: split)
    moreover have "1 \<le> length (param_text_list ps)" using ne by (simp add: Suc_le_eq)
    ultimately have "d + length p + 2 \<le> dest_size" by linarith
    then have fits: "d + length (32 # p) + 1 \<le> length mem" "d + length p + 2 \<le> dest_size" "?d \<le> dest_size"
      using Cons.prems(3) by simp_all
    have s: "snprintf_param mem d (dest_size - d) p = ?m"
      using fits(2) by (simp add: snprintf_param_def take_Cons')
    have "dest_size \<le> length ?m" using Cons.prems(3) fits(1) by simp
    from Cons.IH [OF False len this] obtain mem' where
      l: "param_loop dest_size ps ?d ?m = (mem', Some dest_size)" "mem' ! (dest_size - 1) = 0"
      and w: "wrote ?m ?d (butlast (param_text_list ps)) mem'" by blast
    have "wrote mem d ((32 # p) @ butlast (param_text_list ps)) mem'"
      using wrote_step [OF wrote_memcpy [OF fits(1), of 0], of "butlast (param_text_list ps)" mem'] w by simp
    then show ?thesis using l s fits(3) ne by (simp add: Let_def split butlast_append)
  qed
qed simp

lemma commandline_subst_writes_past_end:
  assumes "length guid = 36" and "expand guid src = Some tx" and "dest_size \<le> 10000" and "ps \<noteq> []"
    and "length tx + length (param_text_list ps) = dest_size" and "dest_size < length mem"
  shows "commandline_subst guid ps src mem dest_size =
    (0, butlast (tx @ param_text_list ps) @ [0, 0] @ drop (dest_size + 1) mem)"
proof -
  let ?p = "param_text_list ps"
  have ne: "0 < length ?p" using assms(4) by (cases ps) (simp_all add: param_text_list_def)
  obtain m1 where s: "subst_loop guid dest_size src 0 mem = (m1, Some (length tx))" and w1: "wrote mem 0 tx m1"
    using subst_loop_ok [OF assms(1,2), of 0 dest_size mem] assms(5,6) ne by auto
  have "dest_size \<le> length m1" using w1 assms(6) by (simp add: wrote_def)
  from param_loop_full [OF assms(4) assms(5) this] obtain m2 where
    p: "param_loop dest_size ps (length tx) m1 = (m2, Some dest_size)" "m2 ! (dest_size - 1) = 0"
    and w2: "wrote m1 (length tx) (butlast ?p) m2" by blast
  have "wrote mem 0 (tx @ butlast ?p) m2" using wrote_step [OF w1] w2 by simp
  moreover obtain k where k: "dest_size = Suc k" "length (tx @ butlast ?p) = k" using assms(5) ne by (cases dest_size) auto
  ultimately have w: "length m2 = length mem" "take k m2 = tx @ butlast ?p" "drop (Suc k) m2 = drop (Suc k) mem"
    by (simp_all add: wrote_def)
  have "m2[Suc k := 0] = take (Suc k) m2 @ 0 # drop (Suc (Suc k)) m2"
    using w(1) assms(6) k(1) by (simp add: upd_conv_take_nth_drop)
  also have "take (Suc k) m2 = (tx @ butlast ?p) @ [0]"
    using w(1,2) assms(6) k(1) p(2) by (simp add: take_Suc_conv_app_nth)
  also have "drop (Suc (Suc k)) m2 = drop (Suc (Suc k)) mem"
    using arg_cong [OF w(3), of "drop 1"] by simp
  finally have "m2[Suc k := 0] = butlast (tx @ ?p) @ [0, 0] @ drop (Suc (Suc k)) mem"
    using ne by (simp add: butlast_append)
  then show ?thesis using s p(1) assms(3) k(1) by (simp add: commandline_subst_def)
qed

section \<open>What a lookup finds\<close>

text \<open>An argument: not empty, white space only inside its balanced quotes.\<close>

fun token_ok :: "bool \<Rightarrow> u8 list \<Rightarrow> bool" where
  "token_ok q [] = (\<not> q)"
| "token_ok q (c # cs) = ((q \<or> \<not> is_space c) \<and> token_ok (if c = 34 then \<not> q else q) cs)"

fun join_args :: "u8 list list \<Rightarrow> u8 list" where
  "join_args [] = []"
| "join_args (a # as) = a @ 32 # join_args as"

lemma is_space_32 [simp]: "is_space 32"
  by (simp add: is_space_def)

lemma skip_arg_token: "token_ok q a \<Longrightarrow> skip_arg q (a @ 32 # r) = 32 # r"
  by (induction q a rule: token_ok.induct) auto

lemma key_at_arg:
  assumes "list_all (\<lambda>c. \<not> is_space c) key"
  shows "key_at key (a @ 32 # r) \<longleftrightarrow> take (length key + 1) a = key @ [61]"
proof (cases "length key + 1 \<le> length a")
  case True
  then show ?thesis by (simp add: key_at_def)
next
  case False
  have "\<not> key_at key (a @ 32 # r)"
  proof
    assume "key_at key (a @ 32 # r)"
    then have "take (length key + 1) (a @ 32 # r) ! length a = (key @ [61]) ! length a"
      by (simp add: key_at_def)
    moreover have "take (length key + 1) (a @ 32 # r) ! length a = (a @ 32 # r) ! length a"
      using False by (intro nth_take) simp
    ultimately have "(key @ [61]) ! length a = 32" by simp
    then show False
      using False assms by (auto simp: nth_append list_all_length is_space_def split: if_splits)
  qed
  moreover have "take (length key + 1) a \<noteq> key @ [61]"
  proof
    assume "take (length key + 1) a = key @ [61]"
    then have "length (take (length key + 1) a) = length (key @ [61])" by simp
    with False show False by simp
  qed
  ultimately show ?thesis by blast
qed

lemma get_value_skip_space: "get_cmdline_value (32 # r) key = get_cmdline_value r key"
  by (subst (1 2) get_cmdline_value.simps) simp

lemma get_value_join:
  assumes "list_all (\<lambda>a. a \<noteq> [] \<and> token_ok False a) args" and "list_all (\<lambda>c. \<not> is_space c) key"
  shows "get_cmdline_value (join_args args) key =
    (case dropWhile (\<lambda>a. take (length key + 1) a \<noteq> key @ [61]) args of
       [] \<Rightarrow> None | a # as \<Rightarrow> Some (drop (length key + 1) a @ 32 # join_args as))"
  using assms(1)
proof (induction args)
  case (Cons a as)
  then obtain c cs where a: "a = c # cs" and tok: "token_ok False a" by (cases a) auto
  then have nsp: "\<not> is_space c" by simp
  have "get_cmdline_value (join_args (a # as)) key =
      (if take (length key + 1) a = key @ [61] then Some (drop (length key + 1) (a @ 32 # join_args as))
       else get_cmdline_value (skip_arg False (a @ 32 # join_args as)) key)"
    using key_at_arg [OF assms(2), of a "join_args as"] nsp unfolding a
    by (subst get_cmdline_value.simps) simp
  moreover have "length key + 1 \<le> length a" if "take (length key + 1) a = key @ [61]"
    using arg_cong [OF that, of length] by simp
  ultimately show ?case
    using Cons skip_arg_token [OF tok] by (auto simp: get_value_skip_space)
qed (simp add: get_cmdline_value.simps)

lemma subst_expands_case:
  assumes "length guid = 36" and "dest_size \<le> 10000" and "dest_size < length mem"
  shows "case expand guid src of
      None \<Rightarrow> fst (commandline_subst guid ps src mem dest_size) = 1
    | Some tx \<Rightarrow>
        let n = length tx + length (param_text_list ps)
        in if n < dest_size
           then commandline_subst guid ps src mem dest_size = (0, tx @ param_text_list ps @ 0 # drop (n + 1) mem)
           else if n = dest_size \<and> ps \<noteq> []
           then commandline_subst guid ps src mem dest_size =
                  (0, butlast (tx @ param_text_list ps) @ [0, 0] @ drop (n + 1) mem)
           else if n = dest_size \<and> tx = []
           then commandline_subst guid ps src mem dest_size = (0, 0 # drop 1 mem)
           else fst (commandline_subst guid ps src mem dest_size) = 1"
proof (cases "expand guid src")
  case None
  with subst_loop_bad_input [OF None, of dest_size 0 mem] assms(2) show ?thesis
    by (auto simp: commandline_subst_def split: prod.split)
next
  case (Some tx)
  let ?p = "param_text_list ps"
  show ?thesis
  proof (cases "length tx + length ?p < dest_size")
    case True
    obtain m1 where s: "subst_loop guid dest_size src 0 mem = (m1, Some (length tx))"
      and w1: "wrote mem 0 tx m1"
      using subst_loop_ok [OF assms(1) Some, of 0 dest_size mem] True assms(3) by auto
    have "dest_size \<le> length m1" using w1 assms(3) by (simp add: wrote_def)
    then obtain m2 where p: "param_loop dest_size ps (length tx) m1 = (m2, Some (length tx + length ?p))"
      and w2: "wrote m1 (length tx) ?p m2"
      using param_loop_ok [of "length tx" ps dest_size m1] True by auto
    have w: "wrote mem 0 (tx @ ?p) m2" using wrote_step [OF w1] w2 by simp
    let ?n = "length tx + length ?p"
    have "m2[?n := 0] = take ?n m2 @ 0 # drop (?n + 1) m2"
      using w True assms(3) by (simp add: wrote_def upd_conv_take_nth_drop)
    also have "\<dots> = tx @ ?p @ 0 # drop (?n + 1) mem" using w by (simp add: wrote_def)
    finally show ?thesis using Some True s p assms(2) by (simp add: commandline_subst_def)
  next
    case False
    have fail: "fst (commandline_subst guid ps src mem dest_size) = 1" if "tx \<noteq> []" "dest_size < length tx + 1"
    proof -
      have "snd (subst_loop guid dest_size src 0 mem) = None"
        using subst_loop_overflow [OF assms(1) Some, of dest_size 0 mem] that by simp
      with assms(2) show ?thesis by (auto simp: commandline_subst_def split: prod.split)
    qed
    have start: "\<exists>m1. subst_loop guid dest_size src 0 mem = (m1, Some (length tx)) \<and> (tx = [] \<longrightarrow> m1 = mem)"
      if "tx = [] \<or> length tx + 1 \<le> dest_size"
    proof (cases "tx = []")
      case True
      then have "src = []"
        using Some assms(1) by (cases src) (auto split: if_splits list.splits)
      with True show ?thesis by simp
    next
      case False
      then show ?thesis
        using subst_loop_ok [OF assms(1) Some, of 0 dest_size mem] that assms(3) by auto
    qed
    have big: "fst (commandline_subst guid ps src mem dest_size) = 1" if over: "dest_size < length tx + length ?p"
    proof (cases "tx \<noteq> [] \<and> dest_size < length tx + 1")
      case True
      then show ?thesis using fail by blast
    next
      case fits: False
      then obtain m1 where m1: "subst_loop guid dest_size src 0 mem = (m1, Some (length tx))" using start by force
      have "length tx \<le> dest_size" using fits by (cases "tx = []") simp_all
      then obtain m2 where "param_loop dest_size ps (length tx) m1 = (m2, None)"
        using param_loop_overflow [OF over, of m1] by (cases "param_loop dest_size ps (length tx) m1") simp
      then show ?thesis using assms(2) m1 by (simp add: commandline_subst_def)
    qed
    show ?thesis
    proof (cases "dest_size < length tx + length ?p")
      case True
      then show ?thesis using big Some by (simp add: Let_def)
    next
      case nbig: False
      with False have n: "length tx + length ?p = dest_size" by simp
      consider "ps \<noteq> []" | "ps = []" "tx = []" | "ps = []" "tx \<noteq> []" by blast
      then show ?thesis
      proof cases
        case 1
        then show ?thesis using commandline_subst_writes_past_end [OF assms(1) Some assms(2) 1 n assms(3)] Some n
          by (simp add: Let_def)
      next
        case 2
        then have "dest_size = 0" using n by (simp add: param_text_list_def)
        moreover have "mem[0 := 0] = 0 # drop 1 mem" using assms(3) by (cases mem) simp_all
        ultimately show ?thesis using 2 Some n start by (auto simp: Let_def commandline_subst_def)
      next
        case 3
        then show ?thesis using fail n Some by (simp add: param_text_list_def)
      qed
    qed
  qed
qed

section \<open>Properties\<close>

text \<open>
  C28. \<open>commandline_subst\<close> fails when the template ends with a percent sign. Otherwise let \<open>tx\<close> be its
  expansion (each \<open>%U\<close> replaced by the GUID, every other escape kept). When \<open>tx\<close> and the appended
  parameters, each after a space, fit into the destination with a terminator, exactly that is written and the memory behind is not
  touched. When they are longer than the destination, it fails. When they fill it exactly, it fails if
  nothing was appended and \<open>tx\<close> is not empty; otherwise it reports success, but the last character is
  lost and a terminator is written one byte past the end (recorded as a bug). The parameters
  come in the order of the list, and \<open>commandline_append\<close> puts one at its front.
\<close>

theorem commandline_subst_expands:
  assumes "length guid = 36" and "dest_size \<le> 10000" and "dest_size < length mem"
  shows "(case expand guid src of
      None \<Rightarrow> fst (commandline_subst guid ps src mem dest_size) = 1
    | Some tx \<Rightarrow>
        let n = length tx + length (param_text_list ps)
        in if n < dest_size
           then commandline_subst guid ps src mem dest_size = (0, tx @ param_text_list ps @ 0 # drop (n + 1) mem)
           else if n = dest_size \<and> ps \<noteq> []
           then commandline_subst guid ps src mem dest_size =
                  (0, butlast (tx @ param_text_list ps) @ [0, 0] @ drop (n + 1) mem)
           else if n = dest_size \<and> tx = []
           then commandline_subst guid ps src mem dest_size = (0, 0 # drop 1 mem)
           else fst (commandline_subst guid ps src mem dest_size) = 1) \<and>
    param_text_list (commandline_append q ps) = 32 # q @ param_text_list ps"
  using subst_expands_case [OF assms] by (simp add: param_text_list_def commandline_append_def)

theorem commandline_subst_expands_witness:
  "commandline_subst (replicate 36 48) [[112]] [97, 37, 98] [7, 7, 7, 7, 7, 7, 7, 7, 7, 7] 8 =
     (0, [97, 37, 98, 32, 112, 0, 7, 7, 7, 7])"
  using commandline_subst_expands [of "replicate 36 48" 8 "[7, 7, 7, 7, 7, 7, 7, 7, 7, 7]" "[[112]]" "[97, 37, 98]"]
  by (simp add: param_text_list_def)

text \<open>
  On a command line made of arguments whose white space is quoted, \<open>get_cmdline_value\<close> finds
  the first argument that begins with the key and an equals sign, whole arguments only (never a
  match inside a quoted string or across arguments), and points behind the equals sign; it returns
  NULL exactly when no argument matches.
\<close>

theorem get_cmdline_value_finds_first:
  assumes "list_all (\<lambda>a. a \<noteq> [] \<and> token_ok False a) args" and "list_all (\<lambda>c. \<not> is_space c) key"
  shows "get_cmdline_value (join_args args) key =
    (case dropWhile (\<lambda>a. take (length key + 1) a \<noteq> key @ [61]) args of
       [] \<Rightarrow> None | a # as \<Rightarrow> Some (drop (length key + 1) a @ 32 # join_args as))"
  using get_value_join [OF assms] .

theorem get_cmdline_value_finds_first_witness:
  "get_cmdline_value (join_args [[98, 61, 34, 32, 97, 61, 34], [97, 61, 53]]) [97] = Some [53, 32]"
  using get_cmdline_value_finds_first [of "[[98, 61, 34, 32, 97, 61, 34], [97, 61, 53]]" "[97]"]
  by (simp add: is_space_def)

end
