(* ===== verification/Flash.thy ===== *)
theory Flash
  imports Block_Dev
begin

text \<open>
  \<open>src/drivers/flash/flash.c\<close>, \<open>memmapped.c\<close> and \<open>block_flash.c\<close>: the flash interface, reads through
  memory-mapped windows, and the block device on top of a NOR flash. \<open>FlashOps\<close> is a record of the
  driver's callbacks over an abstract device state. Offsets and sizes are \<open>uint32_t\<close>, kept as
  naturals with the wrap-around written out. \<open>None\<close> in the functions on the global \<open>flash_ops\<close> is
  \<open>die_if\<close>; a buffer argument is the memory from the pointer on.
\<close>

section \<open>Model\<close>

text \<open>
  The comparison of an \<open>int\<close> result with an unsigned 32- or 64-bit value, which converts the
  result first. Results are kept as the number returned; no flash is so large that a length does
  not fit an \<open>int\<close>.
\<close>

definition eq_u32 :: "int \<Rightarrow> nat \<Rightarrow> bool" where
  "eq_u32 ret n \<longleftrightarrow> ret mod 2 ^ 32 = int n"

definition eq_u64 :: "int \<Rightarrow> nat \<Rightarrow> bool" where
  "eq_u64 ret n \<longleftrightarrow> ret mod 2 ^ 64 = int n"

lemma eq_u32_int [simp]: "n < 4294967296 \<Longrightarrow> eq_u32 (int n) n"
  by (simp add: eq_u32_def)

lemma eq_u64_int [simp]: "n < 18446744073709551616 \<Longrightarrow> eq_u64 (int n) n"
  by (simp add: eq_u64_def)

record JedecFlashId =
  vendor :: nat
  model :: nat

record FlashProtectionMapping =
  fp_id :: JedecFlashId
  wp_status_value :: u8

record 's flash_ops =
  fl_read :: "nat \<Rightarrow> nat \<Rightarrow> 's \<Rightarrow> int \<times> u8 list \<times> 's"
  fl_write :: "(u8 list \<Rightarrow> nat \<Rightarrow> nat \<Rightarrow> 's \<Rightarrow> int \<times> 's) option"
  fl_erase :: "(nat \<Rightarrow> nat \<Rightarrow> 's \<Rightarrow> int \<times> 's) option"
  fl_write_status :: "(u8 \<Rightarrow> 's \<Rightarrow> int \<times> 's) option"
  fl_read_status :: "('s \<Rightarrow> int \<times> 's) option"
  fl_read_id :: "('s \<Rightarrow> JedecFlashId \<times> 's) option"
  sector_size :: nat
  sector_count :: nat

definition flash_read_ops :: "'s flash_ops \<Rightarrow> nat \<Rightarrow> nat \<Rightarrow> 's \<Rightarrow> int \<times> u8 list \<times> 's" where
  "flash_read_ops ops offset n s = fl_read ops offset n s"

definition flash_write_ops :: "'s flash_ops \<Rightarrow> u8 list \<Rightarrow> nat \<Rightarrow> nat \<Rightarrow> 's \<Rightarrow> int \<times> 's" where
  "flash_write_ops ops buffer offset n s =
     (case fl_write ops of Some write \<Rightarrow> write buffer offset n s | None \<Rightarrow> (0, s))"

definition flash_erase_ops :: "'s flash_ops \<Rightarrow> nat \<Rightarrow> nat \<Rightarrow> 's \<Rightarrow> int \<times> 's" where
  "flash_erase_ops ops offset n s =
     (case fl_erase ops of Some erase \<Rightarrow> erase offset n s | None \<Rightarrow> (0, s))"

definition flash_write_status_ops :: "'s flash_ops \<Rightarrow> u8 \<Rightarrow> 's \<Rightarrow> int \<times> 's" where
  "flash_write_status_ops ops status s =
     (case fl_write_status ops of Some ws \<Rightarrow> ws status s | None \<Rightarrow> (0, s))"

definition flash_read_status_ops :: "'s flash_ops \<Rightarrow> 's \<Rightarrow> int \<times> 's" where
  "flash_read_status_ops ops s =
     (case fl_read_status ops of Some rs \<Rightarrow> rs s | None \<Rightarrow> (- 1, s))"

definition flash_is_wp_enabled_ops :: "'s flash_ops \<Rightarrow> 's \<Rightarrow> int \<times> 's" where
  "flash_is_wp_enabled_ops ops s =
     (case flash_read_status_ops ops s of (value, s') \<Rightarrow> (if bit value 7 then 1 else 0, s'))"

text \<open>libpayload's rounding macros: bit masks, the result cut to the \<open>uint32_t\<close> it is stored in.\<close>

definition ALIGN_DOWN :: "nat \<Rightarrow> nat \<Rightarrow> nat" where
  "ALIGN_DOWN x a = unat (and (word_of_nat x :: u32) (not (word_of_nat a - 1)))"

definition ALIGN_UP :: "nat \<Rightarrow> nat \<Rightarrow> nat" where
  "ALIGN_UP x a = unat (and (word_of_nat x + (word_of_nat a - 1) :: u32) (not (word_of_nat a - 1)))"

definition flash_rewrite_ops :: "'s flash_ops \<Rightarrow> u8 list \<Rightarrow> nat \<Rightarrow> nat \<Rightarrow> 's \<Rightarrow> int \<times> 's" where
  "flash_rewrite_ops ops buffer start len s =
     (let ss = sector_size ops;
          initial_start = ALIGN_DOWN start ss;
          final_end = ALIGN_UP (add32 start len) ss;
          full_length = sub32 final_end initial_start;
          (readback, buffer, s1) =
            (if initial_start \<noteq> start \<or> final_end \<noteq> full_length
             then case flash_read_ops ops initial_start full_length s of (ret, dev_buffer, s1) \<Rightarrow>
                    (eq_u32 ret full_length,
                     memcpy_at dev_buffer (start - initial_start) (take len buffer), s1)
             else (True, buffer, s))
      in if \<not> readback then (- 1, s1)
         else case flash_erase_ops ops initial_start full_length s1 of (ret, s2) \<Rightarrow>
           if \<not> eq_u32 ret full_length then (- 1, s2)
           else case flash_write_ops ops buffer initial_start full_length s2 of (ret, s3) \<Rightarrow>
             if \<not> eq_u32 ret full_length then (- 1, s3) else (int len, s3))"

text \<open>The functions on the global \<open>flash_ops\<close>.\<close>

definition flash_set_ops :: "'s flash_ops option \<Rightarrow> 's flash_ops \<Rightarrow> 's flash_ops option option" where
  "flash_set_ops flash_ops ops = (if flash_ops \<noteq> None then None else Some (Some ops))"

definition flash_read :: "'s flash_ops option \<Rightarrow> nat \<Rightarrow> nat \<Rightarrow> 's \<Rightarrow> (int \<times> u8 list \<times> 's) option" where
  "flash_read flash_ops offset n s = map_option (\<lambda>ops. flash_read_ops ops offset n s) flash_ops"

definition flash_write :: "'s flash_ops option \<Rightarrow> u8 list \<Rightarrow> nat \<Rightarrow> nat \<Rightarrow> 's \<Rightarrow> (int \<times> 's) option" where
  "flash_write flash_ops buffer offset n s =
     map_option (\<lambda>ops. flash_write_ops ops buffer offset n s) flash_ops"

definition flash_erase :: "'s flash_ops option \<Rightarrow> nat \<Rightarrow> nat \<Rightarrow> 's \<Rightarrow> (int \<times> 's) option" where
  "flash_erase flash_ops offset n s = map_option (\<lambda>ops. flash_erase_ops ops offset n s) flash_ops"

definition flash_rewrite :: "'s flash_ops option \<Rightarrow> u8 list \<Rightarrow> nat \<Rightarrow> nat \<Rightarrow> 's \<Rightarrow> (int \<times> 's) option" where
  "flash_rewrite flash_ops buffer start len s =
     map_option (\<lambda>ops. flash_rewrite_ops ops buffer start len s) flash_ops"

definition flash_write_status :: "'s flash_ops option \<Rightarrow> u8 \<Rightarrow> 's \<Rightarrow> (int \<times> 's) option" where
  "flash_write_status flash_ops status s =
     map_option (\<lambda>ops. flash_write_status_ops ops status s) flash_ops"

definition flash_read_status :: "'s flash_ops option \<Rightarrow> 's \<Rightarrow> (int \<times> 's) option" where
  "flash_read_status flash_ops s = map_option (\<lambda>ops. flash_read_status_ops ops s) flash_ops"

definition flash_is_wp_enabled :: "'s flash_ops option \<Rightarrow> 's \<Rightarrow> (int \<times> 's) option" where
  "flash_is_wp_enabled flash_ops s = map_option (\<lambda>ops. flash_is_wp_enabled_ops ops s) flash_ops"

definition flash_read_id :: "'s flash_ops option \<Rightarrow> 's \<Rightarrow> (JedecFlashId \<times> 's) option" where
  "flash_read_id flash_ops s =
     map_option (\<lambda>ops. case fl_read_id ops of
                         Some rid \<Rightarrow> rid s | None \<Rightarrow> (\<lparr>vendor = 0, model = 0\<rparr>, s)) flash_ops"

text \<open>The scan of the board's \<open>flash_protection_list\<close> (without its terminating element).\<close>

fun find_protection :: "FlashProtectionMapping list \<Rightarrow> JedecFlashId \<Rightarrow> u8 option" where
  "find_protection [] i = None"
| "find_protection (m # ms) i =
     (if vendor (fp_id m) \<noteq> vendor i \<or> model (fp_id m) \<noteq> model i then find_protection ms i
      else Some (wp_status_value m))"

definition flash_set_wp_enabled ::
  "FlashProtectionMapping list \<Rightarrow> 's flash_ops option \<Rightarrow> 's \<Rightarrow> (int \<times> 's) option" where
  "flash_set_wp_enabled flash_protection_list flash_ops s =
     (case flash_read_id flash_ops s of
        None \<Rightarrow> None
      | Some (i, s') \<Rightarrow>
          (case find_protection flash_protection_list i of
             None \<Rightarrow> Some (- 1, s')
           | Some v \<Rightarrow> flash_write_status flash_ops v s'))"

section \<open>Model: memory-mapped flash\<close>

record flash_mmap_window =
  flash_base :: nat
  host_base :: nat
  win_size :: nat

fun find_mmap_window :: "flash_mmap_window list \<Rightarrow> nat \<Rightarrow> nat \<Rightarrow> flash_mmap_window option" where
  "find_mmap_window [] offset n = None"
| "find_mmap_window (w # ws) offset n =
     (if offset \<ge> flash_base w \<and> add32 offset n \<le> add32 (flash_base w) (win_size w) then Some w
      else find_mmap_window ws offset n)"

text \<open>\<open>mem\<close> is the host memory.\<close>

definition mmap_flash_read :: "(nat \<Rightarrow> u8) \<Rightarrow> nat \<Rightarrow> nat \<Rightarrow> flash_mmap_window \<Rightarrow> int \<times> u8 list" where
  "mmap_flash_read mem offset n window =
     (let rel_offset = sub32 offset (flash_base window)
      in (int n, map (\<lambda>i. mem (add32 (host_base window) rel_offset + i)) [0..<n]))"

definition mmap_backed_flash_read ::
  "(nat \<Rightarrow> u8) \<Rightarrow> flash_mmap_window list \<Rightarrow> 's flash_ops option \<Rightarrow> nat \<Rightarrow> nat \<Rightarrow> 's \<Rightarrow>
   int \<times> u8 list \<times> 's" where
  "mmap_backed_flash_read mem windows base_ops offset n s =
     (case find_mmap_window windows offset n of
        Some window \<Rightarrow> (case mmap_flash_read mem offset n window of (ret, data) \<Rightarrow> (ret, data, s))
      | None \<Rightarrow> (case base_ops of
                   None \<Rightarrow> (- 1, [], s)
                 | Some ops \<Rightarrow> flash_read_ops ops offset n s))"

definition mmap_backed_flash_write :: "'s flash_ops \<Rightarrow> u8 list \<Rightarrow> nat \<Rightarrow> nat \<Rightarrow> 's \<Rightarrow> int \<times> 's" where
  "mmap_backed_flash_write base_ops buffer offset n s = flash_write_ops base_ops buffer offset n s"

definition mmap_backed_flash_erase :: "'s flash_ops \<Rightarrow> nat \<Rightarrow> nat \<Rightarrow> 's \<Rightarrow> int \<times> 's" where
  "mmap_backed_flash_erase base_ops offset n s = flash_erase_ops base_ops offset n s"

definition new_mmap_backed_flash ::
  "(nat \<Rightarrow> u8) \<Rightarrow> flash_mmap_window list \<Rightarrow> 's flash_ops option \<Rightarrow> 's flash_ops option" where
  "new_mmap_backed_flash mem windows base_ops =
     (if windows = [] then None
      else Some \<lparr>fl_read = mmap_backed_flash_read mem windows base_ops,
                 fl_write = map_option mmap_backed_flash_write base_ops,
                 fl_erase = map_option mmap_backed_flash_erase base_ops,
                 fl_write_status = None, fl_read_status = None, fl_read_id = None,
                 sector_size = 0, sector_count = 0\<rparr>)"

section \<open>Model: the block device of a NOR flash\<close>

definition block_flash_read :: "'s flash_ops \<Rightarrow> nat \<Rightarrow> nat \<Rightarrow> 's \<Rightarrow> nat \<times> u8 list \<times> 's" where
  "block_flash_read ops start count s =
     (let block_size = sector_size ops;
          size_bytes = mul64 count block_size
      in case flash_read_ops ops (mul64 start block_size mod 2 ^ 32) (size_bytes mod 2 ^ 32) s of
           (rv, data, s') \<Rightarrow> if rv < 0 then (0, data, s') else (nat rv, data, s'))"

definition block_flash_write :: "'s flash_ops \<Rightarrow> nat \<Rightarrow> nat \<Rightarrow> u8 list \<Rightarrow> 's \<Rightarrow> nat \<times> 's" where
  "block_flash_write ops start count buffer s =
     (let block_size = sector_size ops;
          todo = mul64 count block_size;
          curr_ptr = mul64 start block_size
      in case flash_rewrite_ops ops buffer (curr_ptr mod 2 ^ 32) (todo mod 2 ^ 32) s of
           (rv, s') \<Rightarrow> if \<not> eq_u64 rv todo then (0, s') else (count, s'))"

definition block_flash_erase :: "'s flash_ops \<Rightarrow> nat \<Rightarrow> nat \<Rightarrow> 's \<Rightarrow> nat \<times> 's" where
  "block_flash_erase ops start count s =
     (let block_size = sector_size ops;
          todo = mul64 count block_size;
          curr_ptr = mul64 start block_size
      in case flash_erase_ops ops (curr_ptr mod 2 ^ 32) (todo mod 2 ^ 32) s of
           (rv, s') \<Rightarrow> if \<not> eq_u64 rv todo then (0, s') else (count, s'))"

definition block_flash_register_nor :: "'s flash_ops \<Rightarrow> 's blockdev" where
  "block_flash_register_nor ops =
     \<lparr>bd_read = block_flash_read ops, bd_write = block_flash_write ops,
      bd_erase = Some (block_flash_erase ops), bd_new_stream = None,
      bd_block_size = sector_size ops, bd_block_count = sector_count ops\<rparr>"

section \<open>The driver contract of a NOR flash\<close>

text \<open>
  Reads return what is stored, an erase of whole sectors sets all bits, and a write can only
  clear bits. The size of a sector is a power of two.
\<close>

definition nor_write :: "u8 list \<Rightarrow> u8 list \<Rightarrow> u8 list" where
  "nor_write old new = map2 (\<lambda>a b. and a b) old new"

definition flash_ok :: "'s flash_ops \<Rightarrow> ('s \<Rightarrow> u8 list) \<Rightarrow> bool" where
  "flash_ok ops content \<longleftrightarrow>
     0 < sector_size ops \<and> 0 < sector_count ops \<and> sector_size ops * sector_count ops < 2 ^ 31 \<and>
     (\<exists>k. sector_size ops = 2 ^ k) \<and>
     (\<forall>s. length (content s) = sector_size ops * sector_count ops) \<and>
     (\<forall>s off n. off + n \<le> sector_size ops * sector_count ops \<longrightarrow>
        (\<exists>s'. fl_read ops off n s = (int n, bslice off n (content s), s') \<and> content s' = content s)) \<and>
     (\<exists>write. fl_write ops = Some write \<and>
        (\<forall>s off n buf. off + n \<le> sector_size ops * sector_count ops \<and> n \<le> length buf \<longrightarrow>
           (\<exists>s'. write buf off n s = (int n, s') \<and>
              content s' = memcpy_at (content s) off (nor_write (bslice off n (content s)) (take n buf))))) \<and>
     (\<exists>erase. fl_erase ops = Some erase \<and>
        (\<forall>s off n. off + n \<le> sector_size ops * sector_count ops \<and> sector_size ops dvd off \<and>
             sector_size ops dvd n \<longrightarrow>
           (\<exists>s'. erase off n s = (int n, s') \<and>
              content s' = memcpy_at (content s) off (replicate n 0xff))))"

text \<open>The masks of the rounding macros round to multiples of a power of two, and only of one.\<close>

lemma and_not_mask_div:
  assumes "k < 32"
  shows "unat (and (w :: u32) (not (2 ^ k - 1))) = align_down (unat w) (2 ^ k)"
proof -
  have "and w (not (2 ^ k - 1)) = push_bit k (drop_bit k w)"
    unfolding mask_eq_exp_minus_1 [symmetric] by (rule bit_eqI) (auto simp: bit_simps)
  moreover have "unat (push_bit k v) = take_bit 32 (push_bit k (unat v))" for v :: u32
    by (simp add: unsigned_push_bit_eq)
  then have "unat (push_bit k (drop_bit k w)) = take_bit 32 (unat w div 2 ^ k * 2 ^ k)"
    by (simp only: unat_drop_bit_eq drop_bit_eq_div [where ?'a = nat] push_bit_eq_mult [where ?'a = nat])
  moreover have "unat w div 2 ^ k * 2 ^ k < 2 ^ 32"
    by (rule le_less_trans [OF div_times_less_eq_dividend]) (use unsigned_less [of w] in simp)
  ultimately show ?thesis by (simp add: align_down_def take_bit_nat_eq_self minus_mod_eq_div_mult)
qed

lemma ALIGN_pow2:
  assumes "k < 32" and "x + (2 ^ k - 1) < 2 ^ 32"
  shows "ALIGN_DOWN x (2 ^ k) = align_down x (2 ^ k)" and "ALIGN_UP x (2 ^ k) = align_up x (2 ^ k)"
proof -
  have "x < 2 ^ 32" by (rule le_less_trans [OF le_add1 assms(2)])
  then have x: "unat (word_of_nat x :: u32) = x" by (simp add: unat_of_nat)
  have a: "word_of_nat (2 ^ k) - 1 = (2 ^ k - 1 :: u32)" by simp
  show "ALIGN_DOWN x (2 ^ k) = align_down x (2 ^ k)"
    unfolding ALIGN_DOWN_def a and_not_mask_div [OF assms(1)] x ..
  have "word_of_nat x + (2 ^ k - 1 :: u32) = word_of_nat (x + (2 ^ k - 1))"
    by (simp only: of_nat_add of_nat_diff [OF one_le_power [OF one_le_numeral]] of_nat_power of_nat_numeral of_nat_1)
  moreover have "unat (word_of_nat (x + (2 ^ k - 1)) :: u32) = x + (2 ^ k - 1)"
    using assms(2) by (simp only: unat_of_nat) simp
  ultimately show "ALIGN_UP x (2 ^ k) = align_up x (2 ^ k)"
    unfolding ALIGN_UP_def a and_not_mask_div [OF assms(1)] align_up_def by simp
qed

lemma ALIGN_not_pow2: "ALIGN_DOWN 100 12 = 100 \<and> align_down 100 12 = 96"
  by (simp add: ALIGN_DOWN_def align_down_def)

lemma length_nor_write [simp]: "length (nor_write a b) = min (length a) (length b)"
  by (simp add: nor_write_def)

lemma nor_write_erased: "length b = n \<Longrightarrow> nor_write (replicate n 0xff) b = b"
proof -
  assume "length b = n"
  moreover have "and (0xff :: u8) x = x" for x
  proof -
    have "(0xff :: u8) = - 1" by simp
    then show ?thesis by (simp only: and.left_neutral)
  qed
  ultimately show ?thesis by (intro nth_equalityI) (simp_all add: nor_write_def)
qed

locale nor_flash =
  fixes ops :: "'s flash_ops" and content :: "'s \<Rightarrow> u8 list"
  assumes ok: "flash_ok ops content"
begin

abbreviation "ss \<equiv> sector_size ops"
abbreviation "fsize \<equiv> sector_size ops * sector_count ops"

lemma ss_pos: "0 < ss" and sc_pos: "0 < sector_count ops" and fsize_less: "fsize < 2 ^ 31" and length_flash [simp]: "length (content s) = fsize"
  using ok by (auto simp: flash_ok_def)

lemma fsize_bound: "fsize < 2147483648"
  using fsize_less by simp

lemma flash_read_ok:
  assumes "off + n \<le> fsize"
  shows "\<exists>s'. flash_read_ops ops off n s = (int n, bslice off n (content s), s') \<and> content s' = content s"
  using ok assms by (simp add: flash_ok_def flash_read_ops_def)

lemma flash_write_ok:
  assumes "off + n \<le> fsize" and "n \<le> length buf"
  shows "\<exists>s'. flash_write_ops ops buf off n s = (int n, s') \<and>
    content s' = memcpy_at (content s) off (nor_write (bslice off n (content s)) (take n buf))"
  using ok assms by (auto simp: flash_ok_def flash_write_ops_def)

lemma flash_erase_ok:
  assumes "off + n \<le> fsize" and "ss dvd off" and "ss dvd n"
  shows "\<exists>s'. flash_erase_ops ops off n s = (int n, s') \<and>
    content s' = memcpy_at (content s) off (replicate n 0xff)"
  using ok assms by (auto simp: flash_ok_def flash_erase_ops_def)

lemma erase_write_ok:
  assumes "off + n \<le> fsize" and "ss dvd off" and "ss dvd n" and "n \<le> length buf"
  shows "\<exists>s1 s2. flash_erase_ops ops off n s = (int n, s1) \<and>
    flash_write_ops ops buf off n s1 = (int n, s2) \<and> content s2 = memcpy_at (content s) off (take n buf)"
proof -
  obtain s1 where e: "flash_erase_ops ops off n s = (int n, s1)"
    and c1: "content s1 = memcpy_at (content s) off (replicate n 0xff)"
    using flash_erase_ok [OF assms(1-3)] by blast
  obtain s2 where w: "flash_write_ops ops buf off n s1 = (int n, s2)"
    and c2: "content s2 = memcpy_at (content s1) off (nor_write (bslice off n (content s1)) (take n buf))"
    using flash_write_ok [OF assms(1,4)] by blast
  have "bslice off n (content s1) = replicate n 0xff"
    using bslice_memcpy_at_same [of off "replicate n 0xff" "content s"] assms(1) c1 by simp
  then have "content s2 = memcpy_at (memcpy_at (content s) off (replicate n 0xff)) off (take n buf)"
    using c2 c1 assms(4) by (simp add: nor_write_erased)
  also have "\<dots> = memcpy_at (content s) off (take n buf)"
    using assms(1,4) by (simp add: memcpy_at_def)
  finally show ?thesis using e w by blast
qed

lemma ss_le_fsize: "ss \<le> fsize"
  using sc_pos by simp

text \<open>The sector range \<open>flash_rewrite_ops\<close> works on.\<close>

lemma rewrite_range:
  assumes "start + len \<le> fsize"
  defines "lo \<equiv> align_down start ss" and "hi \<equiv> align_up (start + len) ss"
  shows "ALIGN_UP (add32 start len) ss = hi" and "ALIGN_DOWN start ss = lo" and "sub32 hi lo = hi - lo"
    and "lo \<le> start" and "start + len \<le> hi" and "hi \<le> fsize" and "ss dvd lo" and "ss dvd hi - lo"
    and "eq_u32 (int (hi - lo)) (hi - lo)"
proof -
  have p32: "(2 :: nat) ^ 32 = 2 ^ 31 + 2 ^ 31" by simp
  have b: "start + len + (ss - 1) < 2 ^ 32"
    unfolding p32 using assms(1) fsize_less ss_le_fsize by linarith
  obtain k where k: "ss = 2 ^ k" using ok by (auto simp: flash_ok_def)
  have "ss < 2 ^ 32" unfolding p32 using fsize_less ss_le_fsize by linarith
  then have k32: "k < 32" unfolding k by (rule power_less_imp_less_exp [rotated]) simp
  have "add32 start len = start + len" using b by (simp add: add32_def)
  then show "ALIGN_UP (add32 start len) ss = hi"
    using ALIGN_pow2(2) [OF k32, of "start + len"] b by (simp add: hi_def k)
  show "ALIGN_DOWN start ss = lo" using ALIGN_pow2(1) [OF k32, of start] b by (simp add: lo_def k)
  show lo: "lo \<le> start" by (simp add: lo_def align_down_le)
  show hi: "start + len \<le> hi" using align_up_ge [OF ss_pos] by (simp add: hi_def)
  show dl: "ss dvd lo" by (simp add: lo_def align_down_dvd)
  have dh: "ss dvd hi" by (simp add: hi_def align_up_def align_down_dvd)
  from dh dl show "ss dvd hi - lo" by (rule dvd_diff_nat)
  show hf: "hi \<le> fsize"
  proof (rule ccontr)
    assume "\<not> hi \<le> fsize"
    moreover obtain k where k: "hi = ss * k" using dh by (auto elim: dvdE)
    ultimately have "sector_count ops < k" by simp
    then have "ss * (sector_count ops + 1) \<le> hi" unfolding k by (intro mult_le_mono2) simp
    moreover have "hi \<le> start + len + (ss - 1)" by (simp add: hi_def align_up_def align_down_le)
    ultimately show False using assms(1) ss_pos by (simp add: algebra_simps)
  qed
  then have h32: "hi < 2 ^ 32" unfolding p32 using fsize_less by linarith
  then show "eq_u32 (int (hi - lo)) (hi - lo)" by simp
  have "hi + 2 ^ 32 - lo = (hi - lo) + 2 ^ 32" using lo hi by linarith
  with h32 show "sub32 hi lo = hi - lo" unfolding sub32_def by (simp only: mod_add_self2) simp
qed

lemma flash_rewrite_ok:
  assumes "start + len \<le> fsize" and "len \<le> length buf" and "start \<noteq> 0 \<or> ss dvd len"
  shows "\<exists>s'. flash_rewrite_ops ops buf start len s = (int len, s') \<and>
    content s' = memcpy_at (content s) start (take len buf)"
proof -
  define lo hi where "lo = align_down start ss" and "hi = align_up (start + len) ss"
  note r = rewrite_range [OF assms(1), folded lo_def hi_def]
  note unf = flash_rewrite_ops_def Let_def r(1) r(2) r(3)
  have in_dev: "lo + (hi - lo) \<le> fsize" using r(4-6) by linarith
  show ?thesis
  proof (cases "lo \<noteq> start \<or> hi \<noteq> hi - lo")
    case True
    obtain s1 where rd: "flash_read_ops ops lo (hi - lo) s = (int (hi - lo), bslice lo (hi - lo) (content s), s1)"
      and c1: "content s1 = content s" using flash_read_ok [OF in_dev] by blast
    define nb where "nb = memcpy_at (bslice lo (hi - lo) (content s)) (start - lo) (take len buf)"
    have len_nb: "length nb = hi - lo"
      unfolding nb_def using assms(2) r(4-6) by (subst length_memcpy_at) auto
    obtain s2 s3 where e: "flash_erase_ops ops lo (hi - lo) s1 = (int (hi - lo), s2)"
      and w: "flash_write_ops ops nb lo (hi - lo) s2 = (int (hi - lo), s3)"
      and c3: "content s3 = memcpy_at (content s1) lo (take (hi - lo) nb)"
      using erase_write_ok [OF in_dev r(7,8), of nb s1] len_nb by auto
    have "flash_rewrite_ops ops buf start len s = (int len, s3)"
      unfolding unf using True r(9) by (simp add: rd e w nb_def [symmetric])
    moreover have "content s3 = memcpy_at (content s) (lo + (start - lo)) (take len buf)"
      unfolding c3 c1 using len_nb in_dev r(4,5) assms(2) by (simp add: nb_def memcpy_at_block)
    ultimately show ?thesis using r(4) by simp
  next
    case False
    then have st: "start = lo" and "hi = hi - lo" by auto
    then have lo0: "lo = 0" using r(4,5) by (cases "hi = 0") auto
    then have "ss dvd len" using st assms(3) by simp
    then have hl: "hi = len"
      unfolding hi_def st lo0 using ss_pos by (simp add: align_up_id)
    obtain s2 s3 where e: "flash_erase_ops ops lo (hi - lo) s = (int (hi - lo), s2)"
      and w: "flash_write_ops ops buf lo (hi - lo) s2 = (int (hi - lo), s3)"
      and c3: "content s3 = memcpy_at (content s) lo (take (hi - lo) buf)"
      using erase_write_ok [OF in_dev r(7,8), of buf s] assms(2) hl
      by (metis diff_le_self le_trans)
    have "flash_rewrite_ops ops buf start len s = (int len, s3)"
      unfolding unf using False e w r(9) by (simp add: hl lo0)
    then show ?thesis using c3 st lo0 hl by auto
  qed
qed

text \<open>The block device on a good flash writes and erases whole sectors exactly.\<close>

lemma sectors_in_flash:
  assumes "start + count \<le> sector_count ops"
  shows "start * ss + count * ss \<le> fsize" and "mul64 start ss mod 2 ^ 32 = start * ss"
    and "mul64 count ss = count * ss" and "count * ss mod 2 ^ 32 = count * ss"
    and "eq_u64 (int (count * ss)) (count * ss)"
proof -
  show le: "start * ss + count * ss \<le> fsize"
    using mult_le_mono1 [OF assms, of ss] by (simp add: algebra_simps)
  with fsize_less have lt: "start * ss < 2 ^ 31" "count * ss < 2 ^ 31" by linarith+
  then show "mul64 start ss mod 2 ^ 32 = start * ss" and "mul64 count ss = count * ss"
    and "count * ss mod 2 ^ 32 = count * ss" by (simp_all add: mul64_def)
  from lt show "eq_u64 (int (count * ss)) (count * ss)" by (simp del: of_nat_mult)
qed

lemma block_write_ok:
  assumes "start + count \<le> sector_count ops" and "count * ss \<le> length buf"
  shows "\<exists>s'. bd_write (block_flash_register_nor ops) start count buf s = (count, s') \<and>
    content s' = memcpy_at (content s) (start * ss) (take (count * ss) buf)"
proof -
  note sec = sectors_in_flash [OF assms(1)]
  obtain s' where "flash_rewrite_ops ops buf (start * ss) (count * ss) s = (int (count * ss), s')"
    and "content s' = memcpy_at (content s) (start * ss) (take (count * ss) buf)"
    using flash_rewrite_ok [OF sec(1) assms(2)] by auto
  then show ?thesis
    unfolding block_flash_register_nor_def blockdev.select_convs block_flash_write_def Let_def sec
    using sec(5) by (simp del: of_nat_mult)
qed

lemma block_erase_ok:
  assumes "start + count \<le> sector_count ops"
  shows "\<exists>s'. block_flash_erase ops start count s = (count, s') \<and>
    content s' = memcpy_at (content s) (start * ss) (replicate (count * ss) 0xff)"
proof -
  note sec = sectors_in_flash [OF assms]
  obtain s' where "flash_erase_ops ops (start * ss) (count * ss) s = (int (count * ss), s')"
    and "content s' = memcpy_at (content s) (start * ss) (replicate (count * ss) 0xff)"
    using flash_erase_ok [OF sec(1)] by auto
  then show ?thesis unfolding block_flash_erase_def Let_def sec using sec(5) by (simp del: of_nat_mult)
qed

text \<open>
  The read reports bytes where the block device interface counts blocks, so a partial-block write
  through this device always gives up after its read.
\<close>

lemma block_read_counts_bytes:
  assumes "start + count \<le> sector_count ops"
  shows "\<exists>s'. bd_read (block_flash_register_nor ops) start count s =
    (count * ss, bslice (start * ss) (count * ss) (content s), s') \<and> content s' = content s"
proof -
  note sec = sectors_in_flash [OF assms]
  obtain s' where "flash_read_ops ops (start * ss) (count * ss) s =
      (int (count * ss), bslice (start * ss) (count * ss) (content s), s')" "content s' = content s"
    using flash_read_ok [OF sec(1)] by blast
  then show ?thesis
    unfolding block_flash_register_nor_def blockdev.select_convs block_flash_read_def Let_def sec
    by (simp flip: of_nat_mult)
qed

lemma partial_write_fails:
  assumes "lba < sector_count ops" and "ss \<noteq> 1"
  shows "\<exists>s'. blockdev_write_unaligned (block_flash_register_nor ops) lba off data n s = (0, s') \<and>
    content s' = content s"
  using block_read_counts_bytes [of lba 1 s] assms
  by (auto simp: blockdev_write_unaligned_def Let_def)

end

section \<open>A flash in memory\<close>

text \<open>A NOR flash kept in a byte list meets the contract.\<close>

definition mem_flash :: "nat \<Rightarrow> nat \<Rightarrow> u8 list flash_ops" where
  "mem_flash b c = \<lparr>
     fl_read = (\<lambda>off n s. (int n, bslice off n (mem_content (b * c) s), s)),
     fl_write = Some (\<lambda>buf off n s. (int n,
        memcpy_at (mem_content (b * c) s) off
          (nor_write (bslice off n (mem_content (b * c) s)) (take n buf)))),
     fl_erase = Some (\<lambda>off n s. (int n, memcpy_at (mem_content (b * c) s) off (replicate n 0xff))),
     fl_write_status = None, fl_read_status = None, fl_read_id = None,
     sector_size = b, sector_count = c\<rparr>"

lemma mem_flash_ok:
  assumes "\<exists>k. 2 ^ k = b" and "0 < c" and "b * c < 2 ^ 31"
  shows "flash_ok (mem_flash b c) (mem_content (b * c))"
proof -
  have len: "length (nor_write (bslice off n (mem_content (b * c) s)) (take n buf)) = n"
    if "off + n \<le> b * c" "n \<le> length buf" for off n s buf
    using that by simp
  have wr: "mem_content (b * c) (memcpy_at (mem_content (b * c) s) off
      (nor_write (bslice off n (mem_content (b * c) s)) (take n buf))) =
      memcpy_at (mem_content (b * c) s) off (nor_write (bslice off n (mem_content (b * c) s)) (take n buf))"
    if "off + n \<le> b * c" "n \<le> length buf" for off n s buf
    by (intro mem_content_id, subst length_memcpy_at) (use that len [OF that] in simp_all)
  from assms show ?thesis by (auto simp: flash_ok_def mem_flash_def mem_content_id wr)
qed

lemma flash_sizes [simp]: "\<exists>k. 2 ^ k = (4 :: nat)" "\<exists>k. 2 ^ k = (16 :: nat)"
  by (rule exI [of _ 2], simp, rule exI [of _ 4], simp)

definition small_flash :: "u8 list flash_ops" where
  "small_flash = mem_flash 4 3"

lemma small_flash_ok: "flash_ok small_flash (mem_content 12)"
  using mem_flash_ok [of 4 3] by (simp add: small_flash_def)

lemma small_flash_geometry [simp]: "sector_size small_flash = 4" "sector_count small_flash = 3"
  by (simp_all add: small_flash_def mem_flash_def)

interpretation small: nor_flash small_flash "mem_content 12"
  by unfold_locales (rule small_flash_ok)

section \<open>Properties\<close>

text \<open>
  C30. On a NOR flash whose sector size is a power of two (erase whole sectors to ones, writes only clear bits) \<open>flash_rewrite_ops\<close> at any
  byte range inside the flash reports the length, stores exactly the data there and keeps every
  other byte of the sectors it erases; the range starts past the first byte of the flash or ends
  on a sector boundary.
\<close>

theorem flash_rewrite_exact:
  assumes "flash_ok ops content" and "start + len \<le> sector_size ops * sector_count ops"
    and "len \<le> length buf" and "start \<noteq> 0 \<or> sector_size ops dvd len"
  shows "\<exists>s'. flash_rewrite_ops ops buf start len s = (int len, s') \<and>
    content s' = memcpy_at (content s) start (take len buf)"
  by (rule nor_flash.flash_rewrite_ok [OF nor_flash.intro [OF assms(1)] assms(2-4)])

theorem flash_rewrite_exact_witness:
  "\<exists>s'. flash_rewrite_ops small_flash [9, 8, 7, 6] 3 3 [1, 2, 3, 4, 5, 6, 7, 8, 9, 10, 11, 12] = (3, s') \<and>
    mem_content 12 s' = [1, 2, 3, 9, 8, 7, 7, 8, 9, 10, 11, 12]"
  using flash_rewrite_exact [OF small_flash_ok, of 3 3 "[9, 8, 7, 6]" "[1, 2, 3, 4, 5, 6, 7, 8, 9, 10, 11, 12]"]
  by (simp add: mem_content_id memcpy_at_def)

text \<open>
  At the start of the flash the comparison in \<open>flash_rewrite_ops\<close> skips the read-back, so a length
  that is not a multiple of the sector size overwrites the rest of the sector with whatever
  follows the caller's data in memory.
\<close>

lemma flash_rewrite_at_zero_writes_past_buffer:
  "flash_rewrite_ops small_flash ([9, 8] @ [0xaa, 0xbb]) 0 2 [1, 2, 3, 4, 5, 6, 7, 8, 9, 10, 11, 12] =
    (2, [9, 8, 0xaa, 0xbb, 5, 6, 7, 8, 9, 10, 11, 12])"
proof -
  have al: "ALIGN_DOWN 0 4 = 0" "ALIGN_UP (Suc (Suc 0)) 4 = 4" by code_simp+
  have "replicate 4 (0xff :: u8) = [0xff, 0xff, 0xff, 0xff]" by (simp add: numeral_eq_Suc)
  then show ?thesis using eq_u32_int [of 4]
    by (simp add: flash_rewrite_ops_def Let_def add32_def sub32_def al flash_erase_ops_def
        flash_write_ops_def small_flash_def mem_flash_def mem_content_id memcpy_at_def bslice_def
        nor_write_def)
qed

text \<open>A write of part of a sector through the flash block device writes nothing.\<close>

lemma block_flash_partial_write_fails:
  "\<exists>s'. blockdev_write_unaligned (block_flash_register_nor small_flash) 1 1 [9, 8] 2 s = (0, s') \<and>
    mem_content 12 s' = mem_content 12 s"
  by (rule small.partial_write_fails) simp_all

end
