(* ===== verification/Fmap.thy ===== *)
theory Fmap
  imports Flash
begin

text \<open>
  \<open>src/image/fmap.c\<close>: the flash map. The map is kept as the bytes the code holds, read with the
  offsets of the packed structs \<open>Fmap\<close> (56 bytes, \<open>nareas\<close> at 54) and \<open>FmapArea\<close> (42 bytes). The
  coreboot table entries \<open>fmap_cache\<close> (the memory it points to) and \<open>fmap_offset\<close> are arguments.
  \<open>None\<close> as a whole result is \<open>halt()\<close> or \<open>die_if\<close>.
\<close>

section \<open>Model\<close>

record FmapArea =
  fa_offset :: nat
  fa_size :: nat
  fa_name :: "u8 list"
  fa_flags :: nat

record fmap_sysinfo =
  fmap_cache :: "u8 list option"
  fmap_offset :: nat

definition FMAP_SIGNATURE :: "u8 list" where
  "FMAP_SIGNATURE = [0x5f, 0x5f, 0x46, 0x4d, 0x41, 0x50, 0x5f, 0x5f]"

definition fmap_check_signature :: "u8 list \<Rightarrow> bool" where
  "fmap_check_signature fmap \<longleftrightarrow> take 8 fmap \<noteq> FMAP_SIGNATURE"

definition fmap_nareas :: "u8 list \<Rightarrow> nat" where
  "fmap_nareas fmap = le16_dec fmap 54"

definition fmap_area_at :: "u8 list \<Rightarrow> nat \<Rightarrow> FmapArea" where
  "fmap_area_at fmap i =
     (let cur = bslice (56 + 42 * i) 42 fmap
      in \<lparr>fa_offset = le32_dec cur 0, fa_size = le32_dec cur 4, fa_name = bslice 8 32 cur,
          fa_flags = le16_dec cur 40\<rparr>)"

definition get_fmap_cache :: "fmap_sysinfo \<Rightarrow> u8 list option" where
  "get_fmap_cache si =
     (case fmap_cache si of
        Some fmap \<Rightarrow> if fmap_check_signature fmap then None else Some fmap
      | None \<Rightarrow> None)"

definition read_fmap_from_flash ::
  "fmap_sysinfo \<Rightarrow> 's flash_ops option \<Rightarrow> 's \<Rightarrow> (u8 list option \<times> 's) option" where
  "read_fmap_from_flash si fo s =
     (case flash_read fo (fmap_offset si mod 2 ^ 32) 56 s of
        None \<Rightarrow> None
      | Some (ret, fmap, s1) \<Rightarrow>
          if \<not> eq_u64 ret 56 then Some (None, s1)
          else if fmap_check_signature fmap then Some (None, s1)
          else let remaining = fmap_nareas fmap * 42
               in case flash_read fo (add64 (fmap_offset si) 56 mod 2 ^ 32) remaining s1 of
                    None \<Rightarrow> None
                  | Some (ret, rest, s2) \<Rightarrow>
                      if \<not> eq_u32 ret remaining then Some (None, s2) else Some (Some (fmap @ rest), s2))"

text \<open>\<open>main_fmap\<close> is the static pointer; \<open>init_done\<close> is set exactly when it is not null.\<close>

definition fmap_init ::
  "fmap_sysinfo \<Rightarrow> 's flash_ops option \<Rightarrow> u8 list option \<Rightarrow> 's \<Rightarrow> (u8 list \<times> 's) option" where
  "fmap_init si fo main_fmap s =
     (case main_fmap of
        Some fmap \<Rightarrow> Some (fmap, s)
      | None \<Rightarrow>
          (case get_fmap_cache si of
             Some fmap \<Rightarrow> Some (fmap, s)
           | None \<Rightarrow>
               (case read_fmap_from_flash si fo s of
                  None \<Rightarrow> None
                | Some (None, s') \<Rightarrow> None
                | Some (Some fmap, s') \<Rightarrow> Some (fmap, s'))))"

definition fmap_base ::
  "fmap_sysinfo \<Rightarrow> 's flash_ops option \<Rightarrow> u8 list option \<Rightarrow> 's \<Rightarrow> (u8 list \<times> 's) option" where
  "fmap_base si fo main_fmap s = fmap_init si fo main_fmap s"

text \<open>
  \<open>strncmp (name, cur->name, 32) = 0\<close>: the strings agree up to their terminators or to 32 characters.
\<close>

definition cstr :: "u8 list \<Rightarrow> u8 list" where
  "cstr bs = takeWhile (\<lambda>c. c \<noteq> 0) bs"

definition same_area_name :: "u8 list \<Rightarrow> u8 list \<Rightarrow> bool" where
  "same_area_name name area_name \<longleftrightarrow> take 32 (cstr name) = take 32 (cstr area_name)"

function area_loop :: "u8 list \<Rightarrow> u8 list \<Rightarrow> nat \<Rightarrow> nat \<Rightarrow> FmapArea option" where
  "area_loop fmap name n i =
     (if i < n
      then let cur = fmap_area_at fmap i
           in if same_area_name name (fa_name cur) then Some cur else area_loop fmap name n (Suc i)
      else None)"
  by pat_completeness auto
termination by (relation "measure (\<lambda>(fmap, name, n, i). n - i)") simp_all

declare area_loop.simps [simp del]

text \<open>The area is copied out and 0 returned, or 1 is returned and the caller's area is untouched.\<close>

definition fmap_find_area ::
  "fmap_sysinfo \<Rightarrow> 's flash_ops option \<Rightarrow> u8 list \<Rightarrow> u8 list option \<Rightarrow> 's \<Rightarrow>
   (FmapArea option \<times> u8 list \<times> 's) option" where
  "fmap_find_area si fo name main_fmap s =
     (case fmap_init si fo main_fmap s of
        None \<Rightarrow> None
      | Some (fmap, s') \<Rightarrow> Some (area_loop fmap name (fmap_nareas fmap) 0, fmap, s'))"

definition fmap_find_string ::
  "fmap_sysinfo \<Rightarrow> 's flash_ops option \<Rightarrow> u8 list \<Rightarrow> u8 list option \<Rightarrow> 's \<Rightarrow>
   (u8 list option \<times> nat \<times> u8 list \<times> 's) option" where
  "fmap_find_string si fo name main_fmap s =
     (case fmap_find_area si fo name main_fmap s of
        None \<Rightarrow> None
      | Some (None, fmap, s1) \<Rightarrow> Some (None, 0, fmap, s1)
      | Some (Some area, fmap, s1) \<Rightarrow>
          (case flash_read fo (fa_offset area) (fa_size area) s1 of
             None \<Rightarrow> None
           | Some (ret, buffer, s2) \<Rightarrow>
               if \<not> eq_u32 ret (fa_size area) then Some (None, 0, fmap, s2)
               else Some (Some buffer, fa_size area, fmap, s2)))"

section \<open>The encoding of a flash map\<close>

definition area_bytes :: "FmapArea \<Rightarrow> u8 list" where
  "area_bytes a = le32_bytes (word_of_nat (fa_offset a)) @ le32_bytes (word_of_nat (fa_size a)) @
     fa_name a @ le16_bytes (fa_flags a)"

definition area_ok :: "FmapArea \<Rightarrow> bool" where
  "area_ok a \<longleftrightarrow> fa_offset a < 2 ^ 32 \<and> fa_size a < 2 ^ 32 \<and> length (fa_name a) = 32 \<and> fa_flags a < 2 ^ 16"

text \<open>\<open>meta\<close> is version, base, size and name of the map: 46 bytes the code does not read.\<close>

definition fmap_bytes :: "u8 list \<Rightarrow> FmapArea list \<Rightarrow> u8 list" where
  "fmap_bytes meta areas =
     FMAP_SIGNATURE @ meta @ le16_bytes (length areas) @ concat (map area_bytes areas)"

lemma length_area_bytes [simp]: "area_ok a \<Longrightarrow> length (area_bytes a) = 42"
  by (simp add: area_bytes_def area_ok_def)

lemma length_FMAP_SIGNATURE [simp]: "length FMAP_SIGNATURE = 8"
  by (simp add: FMAP_SIGNATURE_def)

lemma bslice_concat_block:
  assumes "list_all (\<lambda>x. length x = k) xs" and "i < length xs"
  shows "bslice (k * i) k (concat xs @ ys) = xs ! i"
  using assms
proof (induction xs arbitrary: i)
  case (Cons x xs)
  show ?case
  proof (cases i)
    case 0
    then show ?thesis using Cons.prems by (simp add: bslice_def)
  next
    case (Suc j)
    then have "bslice (k * i) k (concat (x # xs) @ ys) = bslice (k * j) k (concat xs @ ys)"
      using Cons.prems by (simp add: bslice_def)
    then show ?thesis using Cons Suc by simp
  qed
qed simp

lemma decode_area_bytes:
  assumes "area_ok a"
  shows "le32_dec (area_bytes a) 0 = fa_offset a" and "le32_dec (area_bytes a) 4 = fa_size a"
    and "bslice 8 32 (area_bytes a) = fa_name a" and "le16_dec (area_bytes a) 40 = fa_flags a"
proof -
  have u: "unat (word_of_nat n :: u32) = n" if "n < 2 ^ 32" for n
    using that by (simp add: unat_of_nat)
  from assms have ok: "fa_offset a < 2 ^ 32" "fa_size a < 2 ^ 32" "length (fa_name a) = 32"
    "fa_flags a < 65536" by (simp_all add: area_ok_def)
  show "le32_dec (area_bytes a) 0 = fa_offset a"
    using le32_dec_append [of "[]" 0] u [OF ok(1)] by (simp add: area_bytes_def)
  show "le32_dec (area_bytes a) 4 = fa_size a"
    using le32_dec_append [of "le32_bytes (word_of_nat (fa_offset a))" 4] u [OF ok(2)]
    by (simp add: area_bytes_def)
  show "bslice 8 32 (area_bytes a) = fa_name a"
    using ok(3) by (simp add: area_bytes_def bslice_def)
  show "le16_dec (area_bytes a) 40 = fa_flags a"
    using le16_dec_append [of "le32_bytes (word_of_nat (fa_offset a)) @
        le32_bytes (word_of_nat (fa_size a)) @ fa_name a" 40 "fa_flags a" "[]"] ok(3,4)
    by (simp add: area_bytes_def)
qed

lemma fmap_nareas_bytes:
  assumes "length meta = 46" and "length areas < 2 ^ 16"
  shows "fmap_nareas (fmap_bytes meta areas @ rest) = length areas"
  using le16_dec_append [of "FMAP_SIGNATURE @ meta" 54 "length areas" "concat (map area_bytes areas) @ rest"] assms
  by (simp add: fmap_nareas_def fmap_bytes_def)

lemma fmap_area_at_bytes:
  assumes "length meta = 46" and "list_all area_ok areas" and "i < length areas"
  shows "fmap_area_at (fmap_bytes meta areas @ rest) i = areas ! i"
proof -
  define hdr where "hdr = FMAP_SIGNATURE @ meta @ le16_bytes (length areas)"
  have "length hdr = 56" using assms(1) by (simp add: hdr_def)
  then have "bslice (56 + 42 * i) 42 (hdr @ concat (map area_bytes areas) @ rest) =
      bslice (42 * i) 42 (concat (map area_bytes areas) @ rest)"
    by (simp add: bslice_def)
  also have "\<dots> = map area_bytes areas ! i"
    by (rule bslice_concat_block) (use assms in \<open>auto simp: list_all_iff\<close>)
  finally have "bslice (56 + 42 * i) 42 (fmap_bytes meta areas @ rest) = area_bytes (areas ! i)"
    using assms(3) by (simp add: fmap_bytes_def hdr_def)
  moreover have "area_ok (areas ! i)" using assms(2,3) by (simp add: list_all_length)
  ultimately show ?thesis
    using decode_area_bytes [of "areas ! i"] by (simp add: fmap_area_at_def Let_def)
qed

lemma area_loop_find:
  assumes "\<And>i. i < length areas \<Longrightarrow> fmap_area_at fmap i = areas ! i" and "k \<le> length areas"
  shows "area_loop fmap name (length areas) k = find (\<lambda>a. same_area_name name (fa_name a)) (drop k areas)"
  using assms(2)
proof (induction "length areas - k" arbitrary: k)
  case 0
  then show ?case by (simp add: area_loop.simps)
next
  case (Suc n)
  then have "k < length areas" by simp
  then have "drop k areas = areas ! k # drop (Suc k) areas" by (simp add: Cons_nth_drop_Suc)
  moreover have "area_loop fmap name (length areas) (Suc k) =
      find (\<lambda>a. same_area_name name (fa_name a)) (drop (Suc k) areas)"
    by (rule Suc.hyps) (use Suc in simp_all)
  ultimately show ?case using \<open>k < length areas\<close> assms(1) [of k]
    by (simp add: area_loop.simps [of fmap name "length areas" k] Let_def)
qed

lemma area_loop_bytes:
  assumes "length meta = 46" and "list_all area_ok areas" and "length areas < 2 ^ 16"
  shows "area_loop (fmap_bytes meta areas @ rest) name (fmap_nareas (fmap_bytes meta areas @ rest)) 0 =
    find (\<lambda>a. same_area_name name (fa_name a)) areas"
  using area_loop_find [of areas "fmap_bytes meta areas @ rest" 0 name] assms
  by (simp add: fmap_area_at_bytes fmap_nareas_bytes)

lemma length_concat_areas [simp]:
  "list_all area_ok areas \<Longrightarrow> length (concat (map area_bytes areas)) = 42 * length areas"
  by (induction areas) auto

text \<open>Reading the map from a good flash gives the bytes stored there.\<close>

context nor_flash
begin

lemma read_fmap_ok:
  assumes "length meta = 46" and "list_all area_ok areas" and "length areas < 2 ^ 16"
    and "off + length (fmap_bytes meta areas) \<le> fsize"
    and "bslice off (length (fmap_bytes meta areas)) (content s) = fmap_bytes meta areas"
    and "fmap_offset si = off"
  shows "\<exists>s'. read_fmap_from_flash si (Some ops) s = Some (Some (fmap_bytes meta areas), s') \<and>
    content s' = content s"
proof -
  define fb where "fb = fmap_bytes meta areas"
  define n where "n = 42 * length areas"
  have len: "length fb = 56 + n" using assms(1,2) by (simp add: fb_def fmap_bytes_def n_def)
  have fits: "off + (56 + n) \<le> fsize" using assms(4) len by (simp add: fb_def)
  have lt: "off + 56 + n < 2 ^ 31" using fits fsize_less by linarith
  have n32: "n < 4294967296" using assms(3) by (simp add: n_def)
  have sl: "fb = bslice off (56 + n) (content s)" using assms(5) len by (simp add: fb_def)
  have hd: "bslice off 56 (content s) = take 56 fb"
    unfolding sl by (simp add: bslice_def)
  have tl: "bslice (off + 56) n (content s) = drop 56 fb"
    unfolding sl by (simp add: bslice_def drop_take add.commute)
  have sig: "\<not> fmap_check_signature (take 56 fb)"
    by (simp add: fmap_check_signature_def fb_def fmap_bytes_def)
  have "fmap_nareas (take 56 fb) = fmap_nareas fb"
    using len by (simp add: fmap_nareas_def le16_dec_def)
  then have na: "fmap_nareas (take 56 fb) * 42 = n"
    using fmap_nareas_bytes [OF assms(1,3), of "[]"] by (simp add: fb_def n_def)
  obtain s1 where r1: "flash_read_ops ops off 56 s = (int 56, bslice off 56 (content s), s1)"
    and c1: "content s1 = content s" using flash_read_ok [of off 56 s] fits by auto
  obtain s2 where r2: "flash_read_ops ops (off + 56) n s1 = (int n, bslice (off + 56) n (content s1), s2)"
    and c2: "content s2 = content s1" using flash_read_ok [of "off + 56" n s1] fits by auto
  have m: "off mod 2 ^ 32 = off" "add64 off 56 mod 2 ^ 32 = off + 56"
    using lt by (simp_all add: add64_def)
  have e: "eq_u64 (int 56) 56" by (rule eq_u64_int) simp
  have "read_fmap_from_flash si (Some ops) s = Some (Some fb, s2)"
    unfolding read_fmap_from_flash_def assms(6) m flash_read_def Let_def
    using r1 r2 sig na n32 e by (simp add: hd tl c1)
  then show ?thesis using c1 c2 by (simp add: fb_def)
qed

lemma find_area_ok:
  assumes "length meta = 46" and "list_all area_ok areas" and "length areas < 2 ^ 16"
    and "off + length (fmap_bytes meta areas) \<le> fsize"
    and "bslice off (length (fmap_bytes meta areas)) (content s) = fmap_bytes meta areas"
    and "fmap_offset si = off" and "get_fmap_cache si = None"
  shows "\<exists>s'. fmap_find_area si (Some ops) name None s =
    Some (find (\<lambda>a. same_area_name name (fa_name a)) areas, fmap_bytes meta areas, s') \<and>
    content s' = content s"
  using read_fmap_ok [OF assms(1-6)] area_loop_bytes [OF assms(1-3), of "[]"] assms(7)
  by (auto simp: fmap_find_area_def fmap_init_def)

lemma find_string_ok:
  assumes "fmap_find_area si (Some ops) name m s = Some (Some a, fmap, s1)"
    and "fa_offset a + fa_size a \<le> fsize"
  shows "\<exists>s'. fmap_find_string si (Some ops) name m s =
    Some (Some (bslice (fa_offset a) (fa_size a) (content s1)), fa_size a, fmap, s') \<and>
    content s' = content s1"
proof -
  have "fa_size a < 4294967296" using assms(2) fsize_bound by linarith
  moreover obtain s' where "flash_read_ops ops (fa_offset a) (fa_size a) s1 =
      (int (fa_size a), bslice (fa_offset a) (fa_size a) (content s1), s')" "content s' = content s1"
    using flash_read_ok [OF assms(2)] by blast
  ultimately show ?thesis by (simp add: fmap_find_string_def assms(1) flash_read_def)
qed

end

section \<open>Properties\<close>

text \<open>
  When a flash map is stored at the offset the coreboot table gives and there is no cached one,
  \<open>fmap_find_area\<close> returns the first area of the map whose name is the one asked for (or reports
  that there is none), and \<open>fmap_find_string\<close> returns exactly the bytes of that area; the flash is
  left as it was.
\<close>

theorem fmap_find_area_finds_first:
  assumes "flash_ok ops content" and "length meta = 46" and "list_all area_ok areas"
    and "length areas < 2 ^ 16"
    and "fmap_offset si + length (fmap_bytes meta areas) \<le> sector_size ops * sector_count ops"
    and "bslice (fmap_offset si) (length (fmap_bytes meta areas)) (content s) = fmap_bytes meta areas"
    and "fmap_cache si = None"
  shows "\<exists>s'. fmap_find_area si (Some ops) name None s =
      Some (find (\<lambda>a. same_area_name name (fa_name a)) areas, fmap_bytes meta areas, s') \<and>
    content s' = content s \<and>
    (case find (\<lambda>a. same_area_name name (fa_name a)) areas of
       None \<Rightarrow> fmap_find_string si (Some ops) name None s = Some (None, 0, fmap_bytes meta areas, s')
     | Some a \<Rightarrow> fa_offset a + fa_size a \<le> sector_size ops * sector_count ops \<longrightarrow>
         (\<exists>s''. fmap_find_string si (Some ops) name None s =
            Some (Some (bslice (fa_offset a) (fa_size a) (content s)), fa_size a, fmap_bytes meta areas, s'') \<and>
          content s'' = content s))"
proof -
  have nf: "nor_flash ops content" using assms(1) by (rule nor_flash.intro)
  obtain s' where fa: "fmap_find_area si (Some ops) name None s =
      Some (find (\<lambda>a. same_area_name name (fa_name a)) areas, fmap_bytes meta areas, s')"
    and c: "content s' = content s"
    using nor_flash.find_area_ok [OF nf assms(2-6), of si name] assms(7)
    by (auto simp: get_fmap_cache_def)
  show ?thesis
  proof (cases "find (\<lambda>a. same_area_name name (fa_name a)) areas")
    case None
    then show ?thesis using fa c by (simp add: fmap_find_string_def)
  next
    case (Some a)
    then show ?thesis using fa c nor_flash.find_string_ok [OF nf fa [unfolded Some]] by simp
  qed
qed

text \<open>A flash of 128 bytes with a map of one area, \<open>RW\<close>, over its last sector.\<close>

definition ex_area :: FmapArea where
  "ex_area = \<lparr>fa_offset = 112, fa_size = 16, fa_name = [0x52, 0x57] @ replicate 30 0, fa_flags = 0\<rparr>"

definition ex_map :: "u8 list" where
  "ex_map = fmap_bytes (replicate 46 0) [ex_area]"

definition ex_store :: "u8 list" where
  "ex_store = ex_map @ replicate 14 0 @ replicate 16 7"

lemma ex_area_ok: "area_ok ex_area"
  by (simp add: area_ok_def ex_area_def)

lemma length_ex_map: "length ex_map = 98"
  using ex_area_ok by (simp add: ex_map_def fmap_bytes_def)

lemma ex_store_content: "mem_content 128 ex_store = ex_store"
  by (rule mem_content_id) (simp add: ex_store_def length_ex_map)

lemma ex_flash_ok: "flash_ok (mem_flash 16 8) (mem_content 128)"
  using mem_flash_ok [of 16 8] by simp

interpretation map_flash: nor_flash "mem_flash 16 8" "mem_content 128"
  by unfold_locales (rule ex_flash_ok)

theorem fmap_find_area_finds_first_witness:
  "\<exists>s'. fmap_find_string \<lparr>fmap_cache = None, fmap_offset = 0\<rparr> (Some (mem_flash 16 8)) [0x52, 0x57] None ex_store =
    Some (Some (replicate 16 7), 16, ex_map, s')"
proof -
  have same: "same_area_name [0x52, 0x57] (fa_name ex_area)"
    by (simp add: same_area_name_def cstr_def ex_area_def)
  have "bslice 0 (length ex_map) (mem_content 128 ex_store) = ex_map"
    by (simp add: ex_store_content) (simp add: bslice_def ex_store_def)
  moreover have "bslice 112 16 (mem_content 128 ex_store) = replicate 16 7"
    by (simp add: ex_store_content) (simp add: bslice_def ex_store_def length_ex_map)
  ultimately show ?thesis
    using fmap_find_area_finds_first [OF ex_flash_ok, of "replicate 46 0" "[ex_area]"
        "\<lparr>fmap_cache = None, fmap_offset = 0\<rparr>" ex_store "[0x52, 0x57]"] ex_area_ok length_ex_map same
    by (simp add: mem_flash_def ex_map_def [symmetric]) (auto simp: ex_area_def)
qed

end
