(* ===== verification/Nvdata_Flash.thy ===== *)
theory Nvdata_Flash
  imports Fmap
begin

text \<open>
  \<open>src/vboot/nvdata/flash.c\<close>: the non-volatile data of verified boot, kept as a log of blobs in the
  flash area \<open>RW_NVRAM\<close>. \<open>VB2_NVDATA_SIZE\<close>, the size of a blob, comes from vboot and is the argument
  \<open>N\<close>. The record holds the static variables of the file, the cached flash map and the device.
  Blob offsets are \<open>int\<close> in the code and stay inside an area of a flash below 2 GiB. \<open>None\<close> is
  \<open>die_if\<close> or \<open>halt()\<close>.
\<close>

section \<open>Model\<close>

datatype vb2_error = VB2_SUCCESS | VB2_ERROR_NV_READ | VB2_ERROR_NV_WRITE

record 's nvdata =
  main_fmap :: "u8 list option"
  nvdata_area_descriptor :: FmapArea
  nvdata_blob_offset :: nat
  nvdata_cache :: "u8 list"
  nvdata_flash_is_initialized :: bool
  nv_dev :: 's

definition RW_NVRAM :: "u8 list" where
  "RW_NVRAM = [0x52, 0x57, 0x5f, 0x4e, 0x56, 0x52, 0x41, 0x4d]"

text \<open>The binary search; no blob when a read fails.\<close>

function nv_search ::
  "nat \<Rightarrow> 's flash_ops option \<Rightarrow> nat \<Rightarrow> nat \<Rightarrow> nat \<Rightarrow> 's \<Rightarrow> (nat option \<times> 's) option" where
  "nv_search N fo base used_below empty_above s =
     (if used_below + 1 < empty_above
      then let guess = (used_below + empty_above) div 2
           in case flash_read fo (add64 base (mul64 guess N) mod 2 ^ 32) N s of
                None \<Rightarrow> None
              | Some (ret, block, s') \<Rightarrow>
                  if \<not> eq_u64 ret N then Some (None, s')
                  else if take N block = replicate N 0xff
                  then nv_search N fo base used_below guess s'
                  else nv_search N fo base guess empty_above s'
      else Some (Some used_below, s))"
  by pat_completeness auto
termination
  by (relation "measure (\<lambda>(N, fo, base, used_below, empty_above, s). empty_above - used_below)") auto

declare nv_search.simps [simp del]

definition flash_nvdata_init ::
  "nat \<Rightarrow> fmap_sysinfo \<Rightarrow> 's flash_ops option \<Rightarrow> 's nvdata \<Rightarrow> (int \<times> 's nvdata) option" where
  "flash_nvdata_init N si fo st =
     (if nvdata_flash_is_initialized st then Some (0, st)
      else case fmap_find_area si fo RW_NVRAM (main_fmap st) (nv_dev st) of
        None \<Rightarrow> None
      | Some (None, fmap, s) \<Rightarrow> Some (- 1, st\<lparr>main_fmap := Some fmap, nv_dev := s\<rparr>)
      | Some (Some area, fmap, s) \<Rightarrow>
          let st1 = st\<lparr>main_fmap := Some fmap, nvdata_area_descriptor := area\<rparr>
          in case nv_search N fo (fa_offset area) 0 (fa_size area div N) s of
               None \<Rightarrow> None
             | Some (None, s) \<Rightarrow> Some (- 1, st1\<lparr>nv_dev := s\<rparr>)
             | Some (Some used_below, s) \<Rightarrow>
                 let st2 = st1\<lparr>nvdata_blob_offset := used_below * N\<rparr>
                 in case flash_read fo (add32 (fa_offset area) (used_below * N)) N s of
                      None \<Rightarrow> None
                    | Some (ret, block, s) \<Rightarrow>
                        if \<not> eq_u64 ret N then Some (- 1, st2\<lparr>nv_dev := s\<rparr>)
                        else Some (0, st2\<lparr>nvdata_cache := take N block,
                                          nvdata_flash_is_initialized := True, nv_dev := s\<rparr>))"

definition nvdata_flash_read ::
  "nat \<Rightarrow> fmap_sysinfo \<Rightarrow> 's flash_ops option \<Rightarrow> 's nvdata \<Rightarrow>
   (vb2_error \<times> u8 list \<times> 's nvdata) option" where
  "nvdata_flash_read N si fo st =
     (case flash_nvdata_init N si fo st of
        None \<Rightarrow> None
      | Some (r, st') \<Rightarrow> if r \<noteq> 0 then Some (VB2_ERROR_NV_READ, [], st')
                         else Some (VB2_SUCCESS, nvdata_cache st', st'))"

definition erase_nvdata ::
  "nat \<Rightarrow> fmap_sysinfo \<Rightarrow> 's flash_ops option \<Rightarrow> 's nvdata \<Rightarrow> (int \<times> 's nvdata) option" where
  "erase_nvdata N si fo st =
     (case flash_nvdata_init N si fo st of
        None \<Rightarrow> None
      | Some (r, st') \<Rightarrow>
          if r \<noteq> 0 then Some (- 1, st')
          else let area = nvdata_area_descriptor st'
               in case flash_erase fo (fa_offset area) (fa_size area) (nv_dev st') of
                    None \<Rightarrow> None
                  | Some (ret, s) \<Rightarrow>
                      Some (if \<not> eq_u32 ret (fa_size area) then - 1 else 0, st'\<lparr>nv_dev := s\<rparr>))"

definition can_overwrite :: "u8 list \<Rightarrow> u8 list \<Rightarrow> bool" where
  "can_overwrite cache buf \<longleftrightarrow> list_all2 (\<lambda>c b. and c b = b) cache buf"

text \<open>The choice of the blob to write, from the loop on.\<close>

definition nv_choose_blob ::
  "nat \<Rightarrow> fmap_sysinfo \<Rightarrow> 's flash_ops option \<Rightarrow> u8 list \<Rightarrow> 's nvdata \<Rightarrow> (bool \<times> 's nvdata) option" where
  "nv_choose_blob N si fo buf st =
     (if can_overwrite (nvdata_cache st) (take N buf) then Some (True, st)
      else let new_blob_offset = nvdata_blob_offset st + N
           in if new_blob_offset \<ge> fa_size (nvdata_area_descriptor st)
              then case erase_nvdata N si fo st of
                     None \<Rightarrow> None
                   | Some (r, st') \<Rightarrow> if r \<noteq> 0 then Some (False, st')
                                      else Some (True, st'\<lparr>nvdata_blob_offset := 0\<rparr>)
              else Some (True, st\<lparr>nvdata_blob_offset := new_blob_offset\<rparr>))"

definition nvdata_flash_write ::
  "nat \<Rightarrow> fmap_sysinfo \<Rightarrow> 's flash_ops option \<Rightarrow> u8 list \<Rightarrow> 's nvdata \<Rightarrow> (vb2_error \<times> 's nvdata) option" where
  "nvdata_flash_write N si fo buf st =
     (case flash_nvdata_init N si fo st of
        None \<Rightarrow> None
      | Some (r, st1) \<Rightarrow>
          if r \<noteq> 0 then Some (VB2_ERROR_NV_WRITE, st1)
          else if take N buf = nvdata_cache st1 then Some (VB2_SUCCESS, st1)
          else case nv_choose_blob N si fo buf st1 of
            None \<Rightarrow> None
          | Some (ok, st2) \<Rightarrow>
              if \<not> ok then Some (VB2_ERROR_NV_WRITE, st2)
              else case flash_write fo buf
                          (add32 (fa_offset (nvdata_area_descriptor st2)) (nvdata_blob_offset st2)) N
                          (nv_dev st2) of
                None \<Rightarrow> None
              | Some (ret, s) \<Rightarrow>
                  if \<not> eq_u64 ret N then Some (VB2_ERROR_NV_WRITE, st2\<lparr>nv_dev := s\<rparr>)
                  else Some (VB2_SUCCESS, st2\<lparr>nvdata_cache := take N buf, nv_dev := s\<rparr>))"

definition nvdata_flash_get_offset :: "'s nvdata \<Rightarrow> nat" where
  "nvdata_flash_get_offset st = nvdata_blob_offset st"

definition nvdata_flash_get_blob_size :: "nat \<Rightarrow> nat" where
  "nvdata_flash_get_blob_size N = N"

section \<open>The log of blobs\<close>

definition blob :: "nat \<Rightarrow> u8 list \<Rightarrow> nat \<Rightarrow> u8 list" where
  "blob N area i = bslice (i * N) N area"

text \<open>
  \<open>log_at N area k\<close>: blob \<open>k\<close> is the current one. All blobs above it are erased, all below it but
  the first are in use, and so is it unless it is the first.
\<close>

definition log_at :: "nat \<Rightarrow> u8 list \<Rightarrow> nat \<Rightarrow> bool" where
  "log_at N area k \<longleftrightarrow> k < length area div N \<and>
     (\<forall>i. 0 < i \<and> i \<le> k \<longrightarrow> blob N area i \<noteq> replicate N 0xff) \<and>
     (\<forall>i. k < i \<and> i < length area div N \<longrightarrow> blob N area i = replicate N 0xff)"

lemma blob_memcpy:
  assumes "length d = N" and "(k + 1) * N \<le> length area" and "(i + 1) * N \<le> length area"
  shows "blob N (memcpy_at area (k * N) d) i = (if i = k then d else blob N area i)"
proof (cases "i = k")
  case True
  then show ?thesis
    using bslice_memcpy_at_same [of "k * N" d area] assms by (simp add: blob_def algebra_simps)
next
  case False
  then have "(i + 1) * N \<le> k * N \<or> (k + 1) * N \<le> i * N"
    using mult_le_mono1 [of "i + 1" k N] mult_le_mono1 [of "k + 1" i N] by linarith
  then show ?thesis
    unfolding blob_def using assms False
    by (intro nth_equalityI) (auto simp: nth_bslice nth_memcpy_at algebra_simps)
qed

lemma blob_replicate: "(i + 1) * N \<le> n \<Longrightarrow> blob N (replicate n x) i = replicate N x"
  by (simp add: blob_def bslice_def min_def algebra_simps)

lemma div_blob_le: "i < n div N \<Longrightarrow> (i + 1) * N \<le> (n :: nat)"
  by (metis Suc_eq_plus1 Suc_leI div_times_less_eq_dividend le_trans mult_le_mono1)

text \<open>Appending a blob, overwriting the current one, and starting over.\<close>

lemma log_at_next:
  assumes "log_at N area k" and "k + 1 < length area div N" and "length d = N" and "d \<noteq> replicate N 0xff"
  shows "log_at N (memcpy_at area ((k + 1) * N) d) (k + 1)"
proof -
  have le: "(i + 1) * N \<le> length area" if "i < length area div N" for i
    using that by (rule div_blob_le)
  have b: "blob N (memcpy_at area ((k + 1) * N) d) i = (if i = k + 1 then d else blob N area i)"
    if "i < length area div N" for i
    using blob_memcpy [OF assms(3) le [OF assms(2)] le [OF that]] .
  have "length (memcpy_at area ((k + 1) * N) d) = length area"
    using le [OF assms(2)] assms(3) by (intro length_memcpy_at) (simp add: algebra_simps)
  then show ?thesis using assms b unfolding log_at_def by (auto simp: le_Suc_eq)
qed

lemma log_at_over:
  assumes "log_at N area k" and "length d = N" and "d \<noteq> replicate N 0xff"
  shows "log_at N (memcpy_at area (k * N) d) k"
proof -
  have k: "k < length area div N" using assms(1) by (simp add: log_at_def)
  have b: "blob N (memcpy_at area (k * N) d) i = (if i = k then d else blob N area i)"
    if "i < length area div N" for i
    using blob_memcpy [OF assms(2) div_blob_le [OF k] div_blob_le [OF that]] .
  have "length (memcpy_at area (k * N) d) = length area"
    using div_blob_le [OF k] assms(2) by (intro length_memcpy_at) (simp add: algebra_simps)
  then show ?thesis using assms b unfolding log_at_def by auto
qed

lemma log_at_erased: "0 < N \<Longrightarrow> N \<le> n \<Longrightarrow> log_at N (replicate n 0xff) 0"
  unfolding log_at_def by (auto simp: div_greater_zero_iff intro!: blob_replicate div_blob_le)

lemma can_overwrite_nor_write: "can_overwrite c b \<Longrightarrow> nor_write c b = b"
  unfolding can_overwrite_def nor_write_def
  by (intro nth_equalityI) (auto simp: list_all2_conv_all_nth)

text \<open>The area is made of whole sectors and whole blobs.\<close>

definition nv_layout :: "nat \<Rightarrow> 's flash_ops \<Rightarrow> FmapArea \<Rightarrow> bool" where
  "nv_layout N ops area \<longleftrightarrow> 0 < N \<and> N dvd fa_size area \<and> 0 < fa_size area \<and>
     fa_offset area + fa_size area \<le> sector_size ops * sector_count ops \<and>
     sector_size ops dvd fa_offset area \<and> sector_size ops dvd fa_size area"

definition nv_bytes :: "('s \<Rightarrow> u8 list) \<Rightarrow> FmapArea \<Rightarrow> 's \<Rightarrow> u8 list" where
  "nv_bytes content area s = bslice (fa_offset area) (fa_size area) (content s)"

definition nv_inv :: "nat \<Rightarrow> ('s \<Rightarrow> u8 list) \<Rightarrow> FmapArea \<Rightarrow> 's nvdata \<Rightarrow> bool" where
  "nv_inv N content area st \<longleftrightarrow>
     nvdata_flash_is_initialized st \<and> nvdata_area_descriptor st = area \<and>
     (\<exists>k. nvdata_blob_offset st = k * N \<and> log_at N (nv_bytes content area (nv_dev st)) k \<and>
          nvdata_cache st = blob N (nv_bytes content area (nv_dev st)) k)"

definition nv_boot :: "u8 list \<Rightarrow> FmapArea \<Rightarrow> nat \<Rightarrow> 's \<Rightarrow> 's nvdata" where
  "nv_boot fmap area N s =
     \<lparr>main_fmap = Some fmap, nvdata_area_descriptor = area, nvdata_blob_offset = 0,
      nvdata_cache = replicate N 0, nvdata_flash_is_initialized = False, nv_dev = s\<rparr>"

context nor_flash
begin

lemma nv_bounds:
  assumes "nv_layout N ops area"
  shows "length (nv_bytes content area s) = fa_size area" and "N < 18446744073709551616"
    and "N \<le> fa_size area" and "fa_size area < 4294967296"
proof -
  have le: "fa_offset area + fa_size area \<le> fsize" and "N \<le> fa_size area"
    using assms by (auto simp: nv_layout_def intro: dvd_imp_le)
  then show "length (nv_bytes content area s) = fa_size area" and "N < 18446744073709551616"
    and "N \<le> fa_size area" and "fa_size area < 4294967296"
    using fsize_bound by (simp_all add: nv_bytes_def)
qed

lemma blob_in_flash:
  assumes "nv_layout N ops area" and "i < fa_size area div N"
  shows "fa_offset area + i * N + N \<le> fsize" and "add32 (fa_offset area) (i * N) = fa_offset area + i * N"
    and "add64 (fa_offset area) (mul64 i N) mod 2 ^ 32 = fa_offset area + i * N"
proof -
  show le: "fa_offset area + i * N + N \<le> fsize"
    using assms(1) div_blob_le [OF assms(2)] by (simp add: nv_layout_def)
  then have "fa_offset area + i * N < 4294967296" and "i * N < 4294967296"
    using fsize_bound by linarith+
  then show "add32 (fa_offset area) (i * N) = fa_offset area + i * N"
    and "add64 (fa_offset area) (mul64 i N) mod 2 ^ 32 = fa_offset area + i * N"
    by (simp_all add: add32_def add64_def mul64_def)
qed

lemma read_blob:
  assumes "nv_layout N ops area" and "i < fa_size area div N"
  shows "\<exists>s'. flash_read (Some ops) (fa_offset area + i * N) N s =
    Some (int N, blob N (nv_bytes content area s) i, s') \<and> content s' = content s"
proof -
  have "blob N (nv_bytes content area s) i = bslice (fa_offset area + i * N) N (content s)"
    unfolding blob_def nv_bytes_def by (rule bslice_bslice) (use div_blob_le [OF assms(2)] in simp)
  then show ?thesis
    using flash_read_ok [OF blob_in_flash(1) [OF assms], of s] by (auto simp: flash_read_def)
qed

lemma length_blob:
  assumes "nv_layout N ops area" and "i < fa_size area div N"
  shows "length (blob N (nv_bytes content area s) i) = N"
  using nv_bounds(1) [OF assms(1)] div_blob_le [OF assms(2)] by (simp add: blob_def)

lemma nv_search_ok:
  assumes "nv_layout N ops area"
    and "log_at N (nv_bytes content area s) k" and "u \<le> k" and "k < e" and "e \<le> fa_size area div N"
  shows "\<exists>s'. nv_search N (Some ops) (fa_offset area) u e s = Some (Some k, s') \<and> content s' = content s"
  using assms(2-5)
proof (induction "e - u" arbitrary: u e s rule: less_induct)
  case less
  show ?case
  proof (cases "u + 1 < e")
    case False
    then show ?thesis using less.prems by (simp add: nv_search.simps)
  next
    case True
    define g where "g = (u + e) div 2"
    have g: "u < g" "g < e" using True by (auto simp: g_def)
    then have gl: "g < fa_size area div N" using less.prems(4) by simp
    obtain s1 where rd: "flash_read (Some ops) (fa_offset area + g * N) N s =
        Some (int N, blob N (nv_bytes content area s) g, s1)" and c1: "content s1 = content s"
      using read_blob [OF assms(1) gl] by blast
    note unf = nv_search.simps [of N "Some ops" "fa_offset area" u e s] Let_def g_def [symmetric]
      blob_in_flash(3) [OF assms(1) gl] rd
    have same: "nv_bytes content area s1 = nv_bytes content area s" using c1 by (simp add: nv_bytes_def)
    have emp: "blob N (nv_bytes content area s) g = replicate N 0xff \<longleftrightarrow> k < g"
      using less.prems(1) g gl nv_bounds(1) [OF assms(1)] unfolding log_at_def
      by (metis gr_zeroI not_less not_less_zero)
    show ?thesis
    proof (cases "k < g")
      case True
      have "\<exists>s'. nv_search N (Some ops) (fa_offset area) u g s1 = Some (Some k, s') \<and> content s' = content s1"
        by (rule less.hyps) (use g True less.prems gl same in simp_all)
      then show ?thesis
        unfolding unf using \<open>u + 1 < e\<close> True emp c1 nv_bounds(2) [OF assms(1)] by simp
    next
      case False
      have "\<exists>s'. nv_search N (Some ops) (fa_offset area) g e s1 = Some (Some k, s') \<and> content s' = content s1"
        by (rule less.hyps) (use g False less.prems same in simp_all)
      then show ?thesis
        unfolding unf
        using \<open>u + 1 < e\<close> False emp c1 nv_bounds(2) [OF assms(1)] length_blob [OF assms(1) gl] by simp
    qed
  qed
qed

text \<open>A fresh start finds the current blob of the log.\<close>

lemma nv_boot_read:
  assumes "nv_layout N ops area" and "area_loop fmap RW_NVRAM (fmap_nareas fmap) 0 = Some area"
    and "log_at N (nv_bytes content area s) k"
  shows "\<exists>st. nvdata_flash_read N si (Some ops) (nv_boot fmap d N s) =
      Some (VB2_SUCCESS, blob N (nv_bytes content area s) k, st) \<and>
    nv_inv N content area st \<and> content (nv_dev st) = content s"
proof -
  have k: "k < fa_size area div N" using assms(3) nv_bounds(1) [OF assms(1)] by (simp add: log_at_def)
  obtain s1 where se: "nv_search N (Some ops) (fa_offset area) 0 (fa_size area div N) s = Some (Some k, s1)"
    and c1: "content s1 = content s" using nv_search_ok [OF assms(1,3) _ k] by auto
  obtain s2 where rd: "flash_read (Some ops) (fa_offset area + k * N) N s1 =
      Some (int N, blob N (nv_bytes content area s1) k, s2)" and c2: "content s2 = content s1"
    using read_blob [OF assms(1) k] by blast
  have "nv_bytes content area s1 = nv_bytes content area s" "nv_bytes content area s2 = nv_bytes content area s"
    using c1 c2 by (simp_all add: nv_bytes_def)
  then show ?thesis
    using c1 c2 rd se k assms nv_bounds(2) [OF assms(1)] length_blob [OF assms(1) k]
    by (simp add: nvdata_flash_read_def flash_nvdata_init_def nv_boot_def fmap_find_area_def fmap_init_def
        Let_def blob_in_flash(2) [OF assms(1) k] nv_inv_def) blast
qed

text \<open>Writing a blob over erased or overwritable bytes makes it the current one.\<close>

lemma nv_store:
  fixes st :: "'s nvdata"
  assumes lay: "nv_layout N ops area" and i: "i < fa_size area div N" and len: "length buf = N"
    and st: "nvdata_flash_is_initialized st" "nvdata_area_descriptor st = area" "nvdata_blob_offset st = i * N"
    and nor: "nor_write (blob N (nv_bytes content area (nv_dev st)) i) buf = buf"
    and log: "log_at N (memcpy_at (nv_bytes content area (nv_dev st)) (i * N) buf) i"
  shows "\<exists>s'. flash_write (Some ops) buf (fa_offset area + i * N) N (nv_dev st) = Some (int N, s') \<and>
    nv_inv N content area (st\<lparr>nvdata_cache := buf, nv_dev := s'\<rparr>) \<and>
    content s' = memcpy_at (content (nv_dev st)) (fa_offset area) (nv_bytes content area s')"
proof -
  define s where "s = nv_dev st"
  have fits: "i * N + N \<le> fa_size area" "fa_offset area + fa_size area \<le> length (content s)"
    using div_blob_le [OF i] lay by (simp_all add: nv_layout_def)
  have "blob N (nv_bytes content area s) i = bslice (fa_offset area + i * N) N (content s)"
    unfolding blob_def nv_bytes_def by (rule bslice_bslice) (use fits in simp)
  then obtain s' where w: "flash_write (Some ops) buf (fa_offset area + i * N) N s = Some (int N, s')"
    and c: "content s' = memcpy_at (content s) (fa_offset area + i * N) buf"
    using flash_write_ok [OF blob_in_flash(1) [OF lay i], of buf s] len nor
    by (auto simp: flash_write_def s_def)
  have nb: "nv_bytes content area s' = memcpy_at (nv_bytes content area s) (i * N) buf"
    unfolding nv_bytes_def c using fits len by (intro bslice_memcpy_at_inside) simp_all
  have "blob N (nv_bytes content area s') i = buf"
    unfolding nb using fits len nv_bounds(1) [OF lay] by (subst blob_memcpy) simp_all
  moreover have "content s' = memcpy_at (content s) (fa_offset area) (nv_bytes content area s')"
    unfolding nb unfolding c nv_bytes_def using fits len by (simp add: memcpy_at_block)
  ultimately show ?thesis
    using w st log nb by (auto simp: nv_inv_def s_def)
qed

lemma nv_erase:
  assumes lay: "nv_layout N ops area" and "nvdata_flash_is_initialized st" and "nvdata_area_descriptor st = area"
  shows "\<exists>s'. erase_nvdata N si (Some ops) st = Some (0, st\<lparr>nv_dev := s'\<rparr>) \<and>
    content s' = memcpy_at (content (nv_dev st)) (fa_offset area) (replicate (fa_size area) 0xff) \<and>
    nv_bytes content area s' = replicate (fa_size area) 0xff"
proof -
  have fits: "fa_offset area + fa_size area \<le> fsize" "ss dvd fa_offset area" "ss dvd fa_size area"
    using lay by (simp_all add: nv_layout_def)
  obtain s' where e: "flash_erase_ops ops (fa_offset area) (fa_size area) (nv_dev st) = (int (fa_size area), s')"
    and c: "content s' = memcpy_at (content (nv_dev st)) (fa_offset area) (replicate (fa_size area) 0xff)"
    using flash_erase_ok [OF fits] by blast
  have "nv_bytes content area s' = replicate (fa_size area) 0xff"
    unfolding nv_bytes_def c
    using bslice_memcpy_at_same [of "fa_offset area" "replicate (fa_size area) 0xff" "content (nv_dev st)"] fits
    by simp
  then show ?thesis
    using e c assms nv_bounds(4) [OF lay]
    by (auto simp: erase_nvdata_def flash_nvdata_init_def flash_erase_def Let_def)
qed

lemma nv_choose_ok:
  fixes st :: "'s nvdata"
  assumes lay: "nv_layout N ops area" and inv: "nv_inv N content area st" and len: "length buf = N"
    and ne: "buf \<noteq> replicate N 0xff"
  shows "\<exists>st2 i. nv_choose_blob N si (Some ops) buf st = Some (True, st2) \<and> i < fa_size area div N \<and>
    nvdata_flash_is_initialized st2 \<and> nvdata_area_descriptor st2 = area \<and> nvdata_blob_offset st2 = i * N \<and>
    nor_write (blob N (nv_bytes content area (nv_dev st2)) i) buf = buf \<and>
    log_at N (memcpy_at (nv_bytes content area (nv_dev st2)) (i * N) buf) i \<and>
    content (nv_dev st2) = memcpy_at (content (nv_dev st)) (fa_offset area) (nv_bytes content area (nv_dev st2))"
proof -
  define A where "A = nv_bytes content area (nv_dev st)"
  have lA: "length A = fa_size area" by (simp add: A_def nv_bounds(1) [OF lay])
  obtain k where k: "nvdata_blob_offset st = k * N" "log_at N A k" "nvdata_cache st = blob N A k"
    and st: "nvdata_flash_is_initialized st" "nvdata_area_descriptor st = area"
    using inv by (auto simp: nv_inv_def A_def)
  have same: "content (nv_dev st) = memcpy_at (content (nv_dev st)) (fa_offset area) A"
    using lay by (simp add: A_def nv_bytes_def memcpy_at_bslice nv_layout_def)
  have km: "k < fa_size area div N" using k(2) lA by (simp add: log_at_def)
  consider (over) "can_overwrite (nvdata_cache st) buf"
    | (erase) "\<not> can_overwrite (nvdata_cache st) buf" "k * N + N \<ge> fa_size area"
    | (append) "\<not> can_overwrite (nvdata_cache st) buf" "k * N + N < fa_size area" by linarith
  then show ?thesis
  proof cases
    case over
    then have "nv_choose_blob N si (Some ops) buf st = Some (True, st)"
      using len by (simp add: nv_choose_blob_def)
    moreover have "nor_write (blob N A k) buf = buf"
      using over k(3) by (simp add: can_overwrite_nor_write)
    ultimately show ?thesis
      using k st km log_at_over [OF k(2) len ne] same by (auto simp: A_def)
  next
    case append
    have "(k + 1) * N < (fa_size area div N) * N"
      using append(2) lay by (simp add: nv_layout_def)
    then have k1: "k + 1 < fa_size area div N" by (simp only: mult_less_cancel2)
    have "nv_choose_blob N si (Some ops) buf st = Some (True, st\<lparr>nvdata_blob_offset := (k + 1) * N\<rparr>)"
      using append len k(1) st by (simp add: nv_choose_blob_def Let_def algebra_simps)
    moreover have "nor_write (blob N A (k + 1)) buf = buf"
      using k(2) k1 lA len by (simp add: log_at_def nor_write_erased)
    ultimately show ?thesis
      using k1 st same log_at_next [OF k(2) _ len ne] lA by (auto simp: A_def)
  next
    case erase
    obtain s' where e: "erase_nvdata N si (Some ops) st = Some (0, st\<lparr>nv_dev := s'\<rparr>)"
      and c: "content s' = memcpy_at (content (nv_dev st)) (fa_offset area) (replicate (fa_size area) 0xff)"
      and nb: "nv_bytes content area s' = replicate (fa_size area) 0xff"
      using nv_erase [OF lay st] by blast
    have N: "0 < N" "N \<le> fa_size area" using lay nv_bounds(3) [OF lay] by (simp_all add: nv_layout_def)
    have "nv_choose_blob N si (Some ops) buf st =
        Some (True, st\<lparr>nv_dev := s', nvdata_blob_offset := 0 * N\<rparr>)"
      using erase len k(1) st e by (simp add: nv_choose_blob_def Let_def)
    moreover have "nor_write (blob N (replicate (fa_size area) 0xff) 0) buf = buf"
      using N len by (simp add: blob_replicate nor_write_erased)
    moreover have "0 < fa_size area div N" using km by simp
    ultimately show ?thesis
      using st c nb log_at_over [OF log_at_erased [OF N] len ne]
      by (intro exI [of _ "st\<lparr>nv_dev := s', nvdata_blob_offset := 0 * N\<rparr>"] exI [of _ 0]) simp
  qed
qed

lemma nv_write_ok:
  fixes st :: "'s nvdata"
  assumes lay: "nv_layout N ops area" and inv: "nv_inv N content area st" and len: "length buf = N"
    and ne: "buf \<noteq> replicate N 0xff"
  shows "\<exists>st'. nvdata_flash_write N si (Some ops) buf st = Some (VB2_SUCCESS, st') \<and>
    nv_inv N content area st' \<and> nvdata_cache st' = buf \<and>
    content (nv_dev st') = memcpy_at (content (nv_dev st)) (fa_offset area) (nv_bytes content area (nv_dev st'))"
proof (cases "buf = nvdata_cache st")
  case True
  have "content (nv_dev st) =
      memcpy_at (content (nv_dev st)) (fa_offset area) (nv_bytes content area (nv_dev st))"
    using lay by (simp add: nv_bytes_def memcpy_at_bslice nv_layout_def)
  with True inv len show ?thesis
    by (simp add: nvdata_flash_write_def flash_nvdata_init_def nv_inv_def)
next
  case False
  obtain st2 i where ch: "nv_choose_blob N si (Some ops) buf st = Some (True, st2)"
    and i: "i < fa_size area div N" and s2: "nvdata_flash_is_initialized st2"
      "nvdata_area_descriptor st2 = area" "nvdata_blob_offset st2 = i * N"
    and w: "nor_write (blob N (nv_bytes content area (nv_dev st2)) i) buf = buf"
      "log_at N (memcpy_at (nv_bytes content area (nv_dev st2)) (i * N) buf) i"
    and c2: "content (nv_dev st2) =
      memcpy_at (content (nv_dev st)) (fa_offset area) (nv_bytes content area (nv_dev st2))"
    using nv_choose_ok [OF lay inv len ne] by blast
  obtain s' where wr: "flash_write (Some ops) buf (fa_offset area + i * N) N (nv_dev st2) = Some (int N, s')"
    and inv': "nv_inv N content area (st2\<lparr>nvdata_cache := buf, nv_dev := s'\<rparr>)"
    and c': "content s' = memcpy_at (content (nv_dev st2)) (fa_offset area) (nv_bytes content area s')"
    using nv_store [OF lay i len s2 w] by blast
  have "content s' = memcpy_at (content (nv_dev st)) (fa_offset area) (nv_bytes content area s')"
    unfolding c' c2 using nv_bounds(1) [OF lay] lay
    by (simp add: memcpy_at_def nv_layout_def)
  moreover have "nvdata_flash_write N si (Some ops) buf st =
      Some (VB2_SUCCESS, st2\<lparr>nvdata_cache := buf, nv_dev := s'\<rparr>)"
    using False inv len ch s2 wr nv_bounds(2) [OF lay]
    by (simp add: nvdata_flash_write_def flash_nvdata_init_def nv_inv_def blob_in_flash(2) [OF lay i])
  ultimately show ?thesis using inv' by (intro exI [of _ "st2\<lparr>nvdata_cache := buf, nv_dev := s'\<rparr>"]) simp
qed

end

section \<open>Properties\<close>

text \<open>
  C32. On a NOR flash with an area of whole sectors and whole blobs, writing a blob that is not all
  ones succeeds in every case (no change, overwriting by clearing bits, appending, erasing a full
  area), keeps the invariant of the log, changes no byte outside the area, and is durable: a
  restarted driver, which finds the current blob by its binary search, reads exactly the data
  written.
\<close>

theorem nvdata_flash_write_durable:
  assumes "flash_ok ops content" and "nv_layout N ops area" and "nv_inv N content area st"
    and "length buf = N" and "buf \<noteq> replicate N 0xff"
    and "area_loop fmap RW_NVRAM (fmap_nareas fmap) 0 = Some area"
  shows "\<exists>st'. nvdata_flash_write N si (Some ops) buf st = Some (VB2_SUCCESS, st') \<and>
    nv_inv N content area st' \<and>
    content (nv_dev st') =
      memcpy_at (content (nv_dev st)) (fa_offset area) (nv_bytes content area (nv_dev st')) \<and>
    (\<exists>st''. nvdata_flash_read N si (Some ops) (nv_boot fmap d N (nv_dev st')) = Some (VB2_SUCCESS, buf, st'') \<and>
       nv_inv N content area st'')"
proof -
  have nf: "nor_flash ops content" using assms(1) by (rule nor_flash.intro)
  obtain st' where w: "nvdata_flash_write N si (Some ops) buf st = Some (VB2_SUCCESS, st')"
    and inv: "nv_inv N content area st'" and cache: "nvdata_cache st' = buf"
    and c: "content (nv_dev st') =
      memcpy_at (content (nv_dev st)) (fa_offset area) (nv_bytes content area (nv_dev st'))"
    using nor_flash.nv_write_ok [OF nf assms(2-5)] by blast
  obtain k where "log_at N (nv_bytes content area (nv_dev st')) k"
    and "buf = blob N (nv_bytes content area (nv_dev st')) k"
    using inv cache by (auto simp: nv_inv_def)
  then show ?thesis using w inv c nor_flash.nv_boot_read [OF nf assms(2,6), of "nv_dev st'" k] by blast
qed

text \<open>A 128-byte flash whose last sector is the area, holding one blob of four bytes.\<close>

definition nv_ex_area :: FmapArea where
  "nv_ex_area = \<lparr>fa_offset = 112, fa_size = 16, fa_name = RW_NVRAM @ replicate 24 0, fa_flags = 0\<rparr>"

definition nv_ex_state :: "u8 list nvdata" where
  "nv_ex_state =
     \<lparr>main_fmap = Some (fmap_bytes (replicate 46 0) [nv_ex_area]), nvdata_area_descriptor = nv_ex_area,
      nvdata_blob_offset = 0, nvdata_cache = [1, 2, 3, 4], nvdata_flash_is_initialized = True,
      nv_dev = replicate 112 0 @ [1, 2, 3, 4] @ replicate 12 0xff\<rparr>"

lemma nv_ex_layout: "nv_layout 4 (mem_flash 16 8) nv_ex_area"
  by (simp add: nv_layout_def mem_flash_def nv_ex_area_def)

lemma nv_ex_inv: "nv_inv 4 (mem_content 128) nv_ex_area nv_ex_state"
proof -
  have nb: "nv_bytes (mem_content 128) nv_ex_area (nv_dev nv_ex_state) = [1, 2, 3, 4] @ replicate 12 0xff"
    by (simp add: nv_bytes_def nv_ex_state_def nv_ex_area_def mem_content_id bslice_def)
  have "blob 4 ([1, 2, 3, 4] @ replicate 12 0xff) i = replicate 4 (0xff :: u8)" if "0 < i" "i < 4" for i
  proof -
    have "i = 1 \<or> i = 2 \<or> i = 3" using that by linarith
    then show ?thesis by (elim disjE) (simp_all add: blob_def bslice_def)
  qed
  then have "log_at 4 ([1, 2, 3, 4] @ replicate 12 0xff) 0" by (simp add: log_at_def)
  moreover have "blob 4 ([1, 2, 3, 4] @ replicate 12 0xff) 0 = [1, 2, 3, 4 :: u8]"
    by (simp add: blob_def bslice_def)
  ultimately show ?thesis
    unfolding nv_inv_def nb by (intro conjI exI [of _ 0]) (simp_all add: nv_ex_state_def)
qed

lemma nv_ex_area_found:
  "area_loop (fmap_bytes (replicate 46 0) [nv_ex_area]) RW_NVRAM
     (fmap_nareas (fmap_bytes (replicate 46 0) [nv_ex_area])) 0 = Some nv_ex_area"
proof -
  have "area_ok nv_ex_area" by (simp add: area_ok_def nv_ex_area_def RW_NVRAM_def)
  moreover have "same_area_name RW_NVRAM (fa_name nv_ex_area)"
    by (simp add: same_area_name_def cstr_def nv_ex_area_def RW_NVRAM_def)
  ultimately show ?thesis using area_loop_bytes [of "replicate 46 0" "[nv_ex_area]" "[]"] by simp
qed

theorem nvdata_flash_write_durable_witness:
  "\<exists>st' st''. nvdata_flash_write 4 \<lparr>fmap_cache = None, fmap_offset = 0\<rparr> (Some (mem_flash 16 8))
      [9, 2, 3, 4] nv_ex_state = Some (VB2_SUCCESS, st') \<and>
    nvdata_flash_read 4 \<lparr>fmap_cache = None, fmap_offset = 0\<rparr> (Some (mem_flash 16 8))
      (nv_boot (fmap_bytes (replicate 46 0) [nv_ex_area]) nv_ex_area 4 (nv_dev st')) =
    Some (VB2_SUCCESS, [9, 2, 3, 4], st'')"
proof -
  have "[9, 2, 3, 4] \<noteq> replicate 4 (0xff :: u8)" by code_simp
  from nvdata_flash_write_durable [OF ex_flash_ok nv_ex_layout nv_ex_inv _ this nv_ex_area_found,
      of "\<lparr>fmap_cache = None, fmap_offset = 0\<rparr>" nv_ex_area]
  show ?thesis by auto
qed

end
