(* ===== verification/Vpd.thy ===== *)
theory Vpd
  imports Dc_Prelude
begin

text \<open>
  \<open>src/base/vpd_decode.c\<close> and \<open>src/base/vpd_util.c\<close>: the vital product data, a sequence of key/value
  entries with variable-length sizes. A buffer is the list of bytes from its pointer on, and the
  pointers handed to the callback are offsets into it. A callback works on an argument that it
  returns updated, and says whether to go on (\<open>VPD_DECODE_OK\<close>, here \<open>True\<close>). \<open>consumed\<close> never passes
  \<open>max_len\<close> (lemma \<open>decode_string_bounds\<close>), so the \<open>u32\<close> arithmetic on it does not wrap; the
  decoded length does, and is reduced.
\<close>

section \<open>Model: decoding\<close>

definition VPD_TYPE_STRING :: u8 where "VPD_TYPE_STRING = 1"
definition VPD_TYPE_INFO :: u8 where "VPD_TYPE_INFO = 0xfe"

text \<open>The loop of \<open>vpd_decode_len\<close>, at byte \<open>i\<close> with the length so far.\<close>

function decode_len_loop :: "nat \<Rightarrow> u8 list \<Rightarrow> nat \<Rightarrow> nat \<Rightarrow> (nat \<times> nat) option" where
  "decode_len_loop max_len inp i len =
     (if i \<ge> max_len then None
      else let b = unat (inp ! i);
               more = b div 128 \<noteq> 0;
               len' = len * 128 mod 2 ^ 32 + b mod 128
           in if more then decode_len_loop max_len inp (i + 1) len' else Some (len', i + 1))"
  by pat_completeness auto
termination by (relation "measure (\<lambda>(max_len, inp, i, len). max_len - i)") auto

declare decode_len_loop.simps [simp del]

definition vpd_decode_len :: "nat \<Rightarrow> u8 list \<Rightarrow> (nat \<times> nat) option" where
  "vpd_decode_len max_len inp = decode_len_loop max_len inp 0 0"

text \<open>The result has the new \<open>consumed\<close> and, when it succeeds, the entry's offset and length.\<close>

definition vpd_decode_entry :: "nat \<Rightarrow> u8 list \<Rightarrow> nat \<Rightarrow> nat \<times> (nat \<times> nat) option" where
  "vpd_decode_entry max_len input_buf consumed =
     (case vpd_decode_len (max_len - consumed) (drop consumed input_buf) of
        None \<Rightarrow> (consumed, None)
      | Some (entry_len, decoded_len) \<Rightarrow>
          if max_len - consumed < decoded_len then (consumed, None)
          else let consumed = consumed + decoded_len;
                   entry = consumed
               in if max_len - consumed < entry_len then (consumed, None)
                  else (consumed + entry_len, Some (entry, entry_len)))"

type_synonym 'a vpd_decode_callback = "nat \<Rightarrow> nat \<Rightarrow> nat \<Rightarrow> nat \<Rightarrow> 'a \<Rightarrow> bool \<times> 'a"

definition vpd_decode_string ::
  "nat \<Rightarrow> u8 list \<Rightarrow> 'a vpd_decode_callback \<Rightarrow> nat \<Rightarrow> 'a \<Rightarrow> bool \<times> nat \<times> 'a" where
  "vpd_decode_string max_len input_buf callback consumed arg =
     (if consumed \<ge> max_len then (False, consumed, arg)
      else let type = input_buf ! consumed
           in if type = VPD_TYPE_INFO \<or> type = VPD_TYPE_STRING
              then case vpd_decode_entry max_len input_buf (consumed + 1) of
                (consumed, None) \<Rightarrow> (False, consumed, arg)
              | (consumed, Some (key, key_len)) \<Rightarrow>
                  (case vpd_decode_entry max_len input_buf consumed of
                     (consumed, None) \<Rightarrow> (False, consumed, arg)
                   | (consumed, Some (value, value_len)) \<Rightarrow>
                       if type = VPD_TYPE_STRING
                       then (case callback key key_len value value_len arg of
                               (ok, arg') \<Rightarrow> (ok, consumed, arg'))
                       else (True, consumed, arg))
              else (False, consumed, arg))"

lemma decode_entry_bounds:
  assumes "vpd_decode_entry max_len buf c = (c', r)" and "c \<le> max_len"
  shows "c \<le> c' \<and> c' \<le> max_len"
  using assms unfolding vpd_decode_entry_def Let_def
  by (auto split: option.splits prod.splits if_splits)

lemma decode_string_bounds:
  assumes "vpd_decode_string max_len buf cb c a = (ok, c', a')" and "c \<le> max_len"
  shows "c' \<le> max_len \<and> (ok \<longrightarrow> c < c')"
proof (cases "c \<ge> max_len \<or> \<not> (buf ! c = VPD_TYPE_INFO \<or> buf ! c = VPD_TYPE_STRING)")
  case True
  then have "vpd_decode_string max_len buf cb c a = (False, c, a)"
    by (auto simp: vpd_decode_string_def Let_def)
  then show ?thesis using assms by simp
next
  case False
  obtain c1 r1 where e1: "vpd_decode_entry max_len buf (c + 1) = (c1, r1)" by force
  obtain c2 r2 where e2: "vpd_decode_entry max_len buf c1 = (c2, r2)" by force
  have "c + 1 \<le> c1 \<and> c1 \<le> max_len" using decode_entry_bounds [OF e1] False by simp
  moreover from this have "c1 \<le> c2 \<and> c2 \<le> max_len" using decode_entry_bounds [OF e2] by simp
  ultimately show ?thesis
    using assms False e1 e2
    by (auto simp: vpd_decode_string_def Let_def split: option.splits prod.splits if_splits)
qed

lemma decode_string_advances:
  assumes "vpd_decode_string max_len buf cb c a = (True, c', a')"
  shows "c < c' \<and> c' \<le> max_len"
proof -
  have "c < max_len" using assms by (auto simp: vpd_decode_string_def split: if_splits)
  then show ?thesis using decode_string_bounds [OF assms] by simp
qed

section \<open>Model: lookup\<close>

definition GOOGLE_VPD_2_0_OFFSET :: nat where "GOOGLE_VPD_2_0_OFFSET = 0x600"

definition VPD_INFO_MAGIC :: "u8 list" where
  "VPD_INFO_MAGIC = [0xfe, 0x09, 0x01, 0x67, 0x56, 0x70, 0x64, 0x49, 0x6e, 0x66, 0x6f, 0x04]"

record vpd_cbmem =
  ro_size :: nat
  vpd_blob :: "u8 list"

record vpd_gets_arg =
  arg_key :: "u8 list"
  arg_value :: nat
  arg_value_len :: nat
  matched :: bool

definition vpd_gets_callback :: "u8 list \<Rightarrow> vpd_gets_arg vpd_decode_callback" where
  "vpd_gets_callback buf key key_len value value_len result =
     (if key_len \<noteq> length (arg_key result) \<or> bslice key key_len buf \<noteq> arg_key result then (True, result)
      else (False, result\<lparr>matched := True, arg_value := value, arg_value_len := value_len\<rparr>))"

function vpd_find_loop :: "nat \<Rightarrow> u8 list \<Rightarrow> nat \<Rightarrow> vpd_gets_arg \<Rightarrow> vpd_gets_arg" where
  "vpd_find_loop vpd_size vpd_data consumed arg =
     (case vpd_decode_string vpd_size vpd_data (vpd_gets_callback vpd_data) consumed arg of
        (ok, consumed', arg') \<Rightarrow>
          if ok then vpd_find_loop vpd_size vpd_data consumed' arg' else arg')"
  by pat_completeness auto
termination
proof (relation "measure (\<lambda>(vpd_size, vpd_data, consumed, arg). vpd_size - consumed)", goal_cases)
  case (2 vpd_size vpd_data consumed arg x y xa ya)
  then have "vpd_decode_string vpd_size vpd_data (vpd_gets_callback vpd_data) consumed arg = (True, xa, ya)"
    by simp
  from decode_string_advances [OF this] show ?case by auto
qed simp

declare vpd_find_loop.simps [simp del]

text \<open>
  The blob that is searched, the offset of its data and the size of that; \<open>chromeos_vpd\<close> is the
  coreboot table entry.
\<close>

definition vpd_source ::
  "vpd_cbmem option \<Rightarrow> u8 list option \<Rightarrow> (u8 list \<times> nat \<times> nat) option" where
  "vpd_source chromeos_vpd blob =
     (case blob of
        Some b \<Rightarrow>
          let vpd_info = bslice GOOGLE_VPD_2_0_OFFSET 16 b
          in if take 12 vpd_info \<noteq> VPD_INFO_MAGIC then None
             else Some (b, GOOGLE_VPD_2_0_OFFSET + 16, le32_dec vpd_info 12)
      | None \<Rightarrow>
          (case chromeos_vpd of
             None \<Rightarrow> None
           | Some vpd \<Rightarrow> if ro_size vpd = 0 then None else Some (vpd_blob vpd, 0, ro_size vpd)))"

text \<open>The offset of the value from the start of the blob, and its size.\<close>

definition vpd_find ::
  "vpd_cbmem option \<Rightarrow> u8 list \<Rightarrow> u8 list option \<Rightarrow> (nat \<times> nat) option" where
  "vpd_find chromeos_vpd key blob =
     (case vpd_source chromeos_vpd blob of
        None \<Rightarrow> None
      | Some (b, off, vpd_size) \<Rightarrow>
          let arg = vpd_find_loop vpd_size (drop off b) 0
                      \<lparr>arg_key = key, arg_value = 0, arg_value_len = 0, matched = False\<rparr>
          in if \<not> matched arg then None else Some (off + arg_value arg, arg_value_len arg))"

definition vpd_gets :: "vpd_cbmem option \<Rightarrow> u8 list \<Rightarrow> u8 list \<Rightarrow> nat \<Rightarrow> u8 list option" where
  "vpd_gets chromeos_vpd key buffer n =
     (case vpd_find chromeos_vpd key None of
        None \<Rightarrow> None
      | Some (offset, string_size) \<Rightarrow>
          let str = drop offset (case chromeos_vpd of Some vpd \<Rightarrow> vpd_blob vpd | None \<Rightarrow> [])
          in Some (if n > add32 string_size 1
                   then memcpy_at buffer 0 (take string_size str @ [0])
                   else memcpy_at buffer 0 (take (sub32 n 1) str @ [0])))"

section \<open>The encoding\<close>

fun enc_hi :: "nat \<Rightarrow> u8 list" where
  "enc_hi n = (if n = 0 then [] else enc_hi (n div 128) @ [word_of_nat (128 + n mod 128)])"

declare enc_hi.simps [simp del]

definition enc_len :: "nat \<Rightarrow> u8 list" where
  "enc_len n = enc_hi (n div 128) @ [word_of_nat (n mod 128)]"

definition enc_entry :: "bool \<times> u8 list \<times> u8 list \<Rightarrow> u8 list" where
  "enc_entry e = (case e of (is_string, k, v) \<Rightarrow>
     (if is_string then VPD_TYPE_STRING else VPD_TYPE_INFO) # enc_len (length k) @ k @ enc_len (length v) @ v)"

lemma decode_hi:
  assumes "n < 2 ^ 25" and "length (enc_hi n) < max_len"
  shows "decode_len_loop max_len (enc_hi n @ rest) 0 0 =
    decode_len_loop max_len (enc_hi n @ rest) (length (enc_hi n)) n"
  using assms
proof (induction n arbitrary: rest rule: enc_hi.induct)
  case (1 n)
  show ?case
  proof (cases "n = 0")
    case True
    then show ?thesis by (simp add: enc_hi.simps)
  next
    case False
    define r where "r = [word_of_nat (128 + n mod 128)] @ rest"
    define m where "m = length (enc_hi (n div 128))"
    have e: "enc_hi n = enc_hi (n div 128) @ [word_of_nat (128 + n mod 128)]"
      using False by (subst enc_hi.simps) simp
    have ih: "decode_len_loop max_len (enc_hi (n div 128) @ r) 0 0 =
        decode_len_loop max_len (enc_hi (n div 128) @ r) m (n div 128)"
      unfolding m_def by (rule "1.IH") (use False "1.prems" e in auto)
    have at: "unat ((enc_hi (n div 128) @ r) ! m) = 128 + n mod 128"
      unfolding m_def r_def nth_append by (simp add: unat_of_nat del: of_nat_add)
    have "(128 + n mod 128) div 128 = Suc 0" "(128 + n mod 128) mod 128 = n mod 128" by simp_all
    moreover have "m < max_len" using "1.prems"(2) e by (simp add: m_def)
    moreover have "n div 128 * 128 mod 2 ^ 32 + n mod 128 = n" using "1.prems"(1) by simp
    ultimately have step: "decode_len_loop max_len (enc_hi (n div 128) @ r) m (n div 128) =
        decode_len_loop max_len (enc_hi (n div 128) @ r) (m + 1) n"
      by (subst decode_len_loop.simps) (simp only: at Let_def, simp)
    show ?thesis using ih step by (simp add: e r_def m_def)
  qed
qed

lemma decode_len_enc:
  assumes "n < 2 ^ 32" and "length (enc_len n) \<le> max_len"
  shows "vpd_decode_len max_len (enc_len n @ rest) = Some (n, length (enc_len n))"
proof -
  define h where "h = enc_hi (n div 128)"
  have en: "enc_len n @ rest = h @ ([word_of_nat (n mod 128)] @ rest)" by (simp add: enc_len_def h_def)
  have l: "length h < max_len" using assms(2) by (simp add: enc_len_def h_def)
  have at: "unat ((h @ ([word_of_nat (n mod 128)] @ rest)) ! length h) = n mod 128"
    by (simp add: nth_append unat_of_nat)
  have "n div 128 * 128 mod 2 ^ 32 + n mod 128 = n" using assms(1) by simp
  then have "decode_len_loop max_len (enc_len n @ rest) (length h) (n div 128) = Some (n, Suc (length h))"
    unfolding en using l by (subst decode_len_loop.simps) (simp only: at Let_def, simp)
  moreover have "vpd_decode_len max_len (enc_len n @ rest) =
      decode_len_loop max_len (enc_len n @ rest) (length h) (n div 128)"
    unfolding vpd_decode_len_def en h_def using assms(1) l by (intro decode_hi) (simp_all add: h_def)
  ultimately show ?thesis by (simp add: enc_len_def h_def)
qed

lemma decode_entry_enc:
  assumes "c + length (enc_len (length d)) + length d \<le> max_len" and "length d < 2 ^ 32"
    and "drop c buf = enc_len (length d) @ d @ rest"
  shows "vpd_decode_entry max_len buf c =
    (c + length (enc_len (length d)) + length d,
     Some (c + length (enc_len (length d)), length d))"
proof -
  have "vpd_decode_len (max_len - c) (drop c buf) = Some (length d, length (enc_len (length d)))"
    unfolding assms(3) by (rule decode_len_enc) (use assms in simp_all)
  then show ?thesis using assms(1) by (auto simp: vpd_decode_entry_def Let_def)
qed

lemma drop_next: "drop c buf = xs @ ys \<Longrightarrow> drop (c + length xs) buf = ys"
  by (metis add.commute append_eq_conv_conj drop_drop)

lemma decode_string_enc:
  assumes "drop c buf = enc_entry (st, k, v) @ rest" and "c + length (enc_entry (st, k, v)) \<le> max_len"
    and "length k < 2 ^ 32" and "length v < 2 ^ 32"
  shows "\<exists>ko vo. bslice ko (length k) buf = k \<and> bslice vo (length v) buf = v \<and>
    vpd_decode_string max_len buf cb c a =
      (if st then (case cb ko (length k) vo (length v) a of
                     (ok, a') \<Rightarrow> (ok, c + length (enc_entry (st, k, v)), a'))
       else (True, c + length (enc_entry (st, k, v)), a))"
proof -
  define ty where "ty = (if st then VPD_TYPE_STRING else VPD_TYPE_INFO)"
  define lk lv where "lk = enc_len (length k)" and "lv = enc_len (length v)"
  have d0: "drop c buf = [ty] @ lk @ k @ lv @ v @ rest"
    using assms(1) by (simp add: enc_entry_def ty_def lk_def lv_def)
  have len: "length (enc_entry (b, k, v)) = 1 + length lk + length k + length lv + length v" for b
    by (simp add: enc_entry_def lk_def lv_def)
  have d1: "drop (c + 1) buf = lk @ k @ lv @ v @ rest" using drop_next [OF d0] by simp
  have dk: "drop (c + 1 + length lk) buf = k @ lv @ v @ rest" by (rule drop_next [OF d1])
  have d2: "drop (c + 1 + length lk + length k) buf = lv @ v @ rest" by (rule drop_next [OF dk])
  have dv: "drop (c + 1 + length lk + length k + length lv) buf = v @ rest" by (rule drop_next [OF d2])
  have "c < max_len" using assms(2) len by simp
  have ty: "buf ! c = ty" using d0 by (simp add: nth_via_drop)
  have e1: "vpd_decode_entry max_len buf (c + 1) =
      (c + 1 + length lk + length k, Some (c + 1 + length lk, length k))"
    unfolding lk_def by (rule decode_entry_enc) (use assms len d1 in \<open>simp_all add: lk_def\<close>)
  have e2: "vpd_decode_entry max_len buf (c + 1 + length lk + length k) =
      (c + 1 + length lk + length k + length lv + length v,
       Some (c + 1 + length lk + length k + length lv, length v))"
    unfolding lv_def by (rule decode_entry_enc) (use assms len d2 in \<open>simp_all add: lv_def\<close>)
  have "VPD_TYPE_INFO \<noteq> VPD_TYPE_STRING" by (simp add: VPD_TYPE_INFO_def VPD_TYPE_STRING_def)
  then have "vpd_decode_string max_len buf cb c a =
      (if st then (case cb (c + 1 + length lk) (length k) (c + 1 + length lk + length k + length lv) (length v) a of
                     (ok, a') \<Rightarrow> (ok, c + length (enc_entry (st, k, v)), a'))
       else (True, c + length (enc_entry (st, k, v)), a))"
    unfolding vpd_decode_string_def ty Let_def e1 using \<open>c < max_len\<close> e2 len by (simp add: ty_def add.assoc)
  moreover have "bslice (c + 1 + length lk) (length k) buf = k"
    "bslice (c + 1 + length lk + length k + length lv) (length v) buf = v"
    unfolding bslice_def dk dv by simp_all
  ultimately show ?thesis by blast
qed

definition entry_ok :: "bool \<times> u8 list \<times> u8 list \<Rightarrow> bool" where
  "entry_ok e \<longleftrightarrow> length (fst (snd e)) < 2 ^ 32 \<and> length (snd (snd e)) < 2 ^ 32"

definition entry_matches :: "u8 list \<Rightarrow> bool \<times> u8 list \<times> u8 list \<Rightarrow> bool" where
  "entry_matches key e \<longleftrightarrow> fst e \<and> fst (snd e) = key"

text \<open>Where the entries stop: at the end of the data or before a byte that is no entry type.\<close>

definition vpd_stops :: "nat \<Rightarrow> u8 list \<Rightarrow> nat \<Rightarrow> bool" where
  "vpd_stops max_len buf c \<longleftrightarrow> c \<ge> max_len \<or> buf ! c \<noteq> VPD_TYPE_INFO \<and> buf ! c \<noteq> VPD_TYPE_STRING"

lemma vpd_find_loop_enc:
  assumes "drop c buf = concat (map enc_entry es) @ rest"
    and "c + length (concat (map enc_entry es)) \<le> max_len" and "list_all entry_ok es"
    and "vpd_stops max_len buf (c + length (concat (map enc_entry es)))"
  shows "case find (entry_matches (arg_key arg)) es of
      None \<Rightarrow> vpd_find_loop max_len buf c arg = arg
    | Some e \<Rightarrow> (\<exists>vo. bslice vo (length (snd (snd e))) buf = snd (snd e) \<and>
        vpd_find_loop max_len buf c arg =
          arg\<lparr>matched := True, arg_value := vo, arg_value_len := length (snd (snd e))\<rparr>)"
  using assms
proof (induction es arbitrary: c)
  case Nil
  then have "vpd_decode_string max_len buf cb c arg = (False, c, arg)" for cb :: "vpd_gets_arg vpd_decode_callback"
    by (auto simp: vpd_decode_string_def vpd_stops_def Let_def)
  then show ?case by (simp add: vpd_find_loop.simps)
next
  case (Cons e es)
  obtain st k v where e: "e = (st, k, v)" by (cases e)
  obtain ko vo where ko: "bslice ko (length k) buf = k" and vo: "bslice vo (length v) buf = v"
    and ds: "vpd_decode_string max_len buf (vpd_gets_callback buf) c arg =
      (if st then (case vpd_gets_callback buf ko (length k) vo (length v) arg of
                     (ok, a') \<Rightarrow> (ok, c + length (enc_entry (st, k, v)), a'))
       else (True, c + length (enc_entry (st, k, v)), arg))"
  proof -
    have "drop c buf = enc_entry (st, k, v) @ (concat (map enc_entry es) @ rest)"
      using Cons.prems(1) by (simp add: e)
    moreover have "c + length (enc_entry (st, k, v)) \<le> max_len" using Cons.prems(2) by (simp add: e)
    moreover have "length k < 2 ^ 32" "length v < 2 ^ 32"
      using Cons.prems(3) by (simp_all add: e entry_ok_def)
    ultimately show ?thesis
      using decode_string_enc [of c buf st k v _ max_len "vpd_gets_callback buf" arg] that by blast
  qed
  show ?case
  proof (cases "st \<and> k = arg_key arg")
    case True
    then have "vpd_decode_string max_len buf (vpd_gets_callback buf) c arg =
        (False, c + length (enc_entry (st, k, v)),
         arg\<lparr>matched := True, arg_value := vo, arg_value_len := length v\<rparr>)"
      using ds ko by (auto simp: vpd_gets_callback_def)
    then have "vpd_find_loop max_len buf c arg =
        arg\<lparr>matched := True, arg_value := vo, arg_value_len := length v\<rparr>"
      by (subst vpd_find_loop.simps) simp
    with True vo show ?thesis by (auto simp: e entry_matches_def)
  next
    case False
    then have nm: "\<not> entry_matches (arg_key arg) e" by (auto simp: entry_matches_def e)
    from False have "vpd_decode_string max_len buf (vpd_gets_callback buf) c arg =
        (True, c + length (enc_entry e), arg)"
      using ds ko by (auto simp: vpd_gets_callback_def e)
    then have step: "vpd_find_loop max_len buf c arg = vpd_find_loop max_len buf (c + length (enc_entry e)) arg"
      by (subst vpd_find_loop.simps) simp
    have "drop (c + length (enc_entry e)) buf = concat (map enc_entry es) @ rest"
      using Cons.prems(1) by (intro drop_next) simp
    then show ?thesis
      unfolding step using Cons.IH [of "c + length (enc_entry e)"] Cons.prems nm by (simp add: add.assoc)
  qed
qed

section \<open>Properties\<close>

lemma find_entry_length:
  assumes "find (entry_matches key) es = Some e"
  shows "length (snd (snd e)) + 2 \<le> length (concat (map enc_entry es))"
proof -
  have "e \<in> set es" using assms by (auto simp: find_Some_iff)
  then have "length (enc_entry e) \<le> length (concat (map enc_entry es))"
    by (auto simp: length_concat o_def intro: member_le_sum_list)
  moreover have "length (snd (snd e)) + 2 \<le> length (enc_entry e)"
    by (cases e) (auto simp: enc_entry_def enc_len_def)
  ultimately show ?thesis by simp
qed

text \<open>
  C33. On vital product data that holds a sequence of encoded entries up to the end of the data or a
  terminator, \<open>vpd_find\<close> terminates with the position and size of the value of the first string
  entry with the wanted key (information entries are skipped), or reports that there is none, and
  \<open>vpd_gets\<close> copies that value, cut to the buffer, with a terminating zero.
\<close>

theorem vpd_find_finds_first:
  assumes "vpd_blob vpd = concat (map enc_entry es) @ rest"
    and "length (concat (map enc_entry es)) \<le> ro_size vpd" and "ro_size vpd < 2 ^ 32"
    and "list_all entry_ok es"
    and "vpd_stops (ro_size vpd) (vpd_blob vpd) (length (concat (map enc_entry es)))"
    and "0 < n" and "n < 2 ^ 32"
  shows "case find (entry_matches key) es of
      None \<Rightarrow> vpd_find (Some vpd) key None = None \<and> vpd_gets (Some vpd) key buffer n = None
    | Some (_, _, v) \<Rightarrow>
        (\<exists>off. vpd_find (Some vpd) key None = Some (off, length v) \<and>
           bslice off (length v) (vpd_blob vpd) = v) \<and>
        vpd_gets (Some vpd) key buffer n = Some (memcpy_at buffer 0 (take (n - 1) v @ [0]))"
proof -
  define arg where "arg = \<lparr>arg_key = key, arg_value = 0, arg_value_len = 0, matched = False\<rparr>"
  note loop = vpd_find_loop_enc [of 0 "vpd_blob vpd" es rest "ro_size vpd" arg, simplified]
  have find: "vpd_find (Some vpd) key None =
      (if ro_size vpd = 0 then None
       else let a = vpd_find_loop (ro_size vpd) (vpd_blob vpd) 0 arg
            in if \<not> matched a then None else Some (arg_value a, arg_value_len a))"
    by (simp add: vpd_find_def vpd_source_def arg_def Let_def)
  show ?thesis
  proof (cases "find (entry_matches key) es")
    case None
    then have "vpd_find (Some vpd) key None = None"
      using loop assms by (simp add: find arg_def)
    with None show ?thesis by (simp add: vpd_gets_def)
  next
    case (Some e)
    obtain st k v where e: "e = (st, k, v)" by (cases e)
    have lv: "length v + 2 \<le> ro_size vpd" using find_entry_length [OF Some] assms(2) by (simp add: e)
    obtain off where off: "bslice off (length v) (vpd_blob vpd) = v"
      and vf: "vpd_find (Some vpd) key None = Some (off, length v)"
      using loop assms Some lv by (auto simp: find arg_def e)
    have "take i (drop off (vpd_blob vpd)) = take i v" if "i \<le> length v" for i
      using arg_cong [OF off, of "take i"] that by (simp add: bslice_def min_def)
    moreover have "add32 (length v) 1 = length v + 1" using lv assms(3) by (simp add: add32_def)
    moreover have "sub32 n 1 = n - 1" using assms(6,7) by (cases n) (simp_all add: sub32_def)
    ultimately have "vpd_gets (Some vpd) key buffer n = Some (memcpy_at buffer 0 (take (n - 1) v @ [0]))"
      using vf by (simp add: vpd_gets_def Let_def)
    with Some off vf show ?thesis by (simp add: e)
  qed
qed

theorem vpd_find_finds_first_witness:
  "vpd_gets (Some \<lparr>ro_size = 8, vpd_blob = [1, 1, 0x61, 2, 0x78, 0x79, 0, 0]\<rparr>) [0x61] [7, 7, 7] 2 =
    Some [0x78, 0, 7]"
proof -
  have hi: "enc_hi 0 = []" by (simp add: enc_hi.simps)
  have "vpd_stops 8 [1, 1, 0x61, 2, 0x78, 0x79, 0, 0] (length [1, 1, 0x61, 2, 0x78, 0x79 :: u8])"
    by (simp add: vpd_stops_def VPD_TYPE_INFO_def VPD_TYPE_STRING_def)
  moreover have "concat (map enc_entry [(True, [0x61], [0x78, 0x79])]) = [1, 1, 0x61, 2, 0x78, 0x79]"
    by (simp add: enc_entry_def enc_len_def hi VPD_TYPE_STRING_def)
  ultimately show ?thesis
    using vpd_find_finds_first [of "\<lparr>ro_size = 8, vpd_blob = [1, 1, 0x61, 2, 0x78, 0x79, 0, 0]\<rparr>"
        "[(True, [0x61], [0x78, 0x79])]" "[0, 0]" 2 "[0x61]" "[7, 7, 7]"]
    by (auto simp: entry_ok_def entry_matches_def memcpy_at_def)
qed

end
