(* ===== verification/Ui_Log.thy ===== *)
theory Ui_Log
  imports Dc_Prelude
begin

text \<open>
  \<open>src/vboot/ui/log.c\<close>: cutting a log text into lines and pages for the firmware screens, and the
  text of one page. A string is the list of its bytes without the terminator; \<open>page_start\<close> holds
  offsets into it. The counts of lines, pages and characters are naturals: a text of 4 GiB is out of reach. Allocation failures are boolean arguments. The text box dimensions come from
  the drawing code and are an argument.
\<close>

section \<open>Model\<close>

datatype vb2_rv =
    VB2_SUCCESS | VB2_REQUEST_UI_CONTINUE | VB2_REQUEST_SHUTDOWN | VB2_REQUEST_UI_EXIT
  | VB2_REQUEST_REBOOT | VB2_REQUEST_REBOOT_EC_TO_RO | VB2_REQUEST_OTHER nat
  | VB2_ERROR_UI_INVALID_SCREEN | VB2_ERROR_UI_INVALID_LOCALE | VB2_ERROR_UI_LOG_INIT
  | VB2_ERROR_UI_MEMORY_ALLOC | VB2_ERROR_LK_NO_DISK_FOUND | VB2_ERROR_LK_ROLLBACK
  | VB2_ERROR_ESCAPE_NO_BOOT | VB2_ERROR_OTHER nat

datatype ui_log_type = UI_LOG_TYPE_UNKNOWN | UI_LOG_TYPE_STATIC | UI_LOG_TYPE_FASTBOOT

record ui_static_log_info =
  log_str :: "u8 list"
  page_count :: nat
  page_start :: "nat list"
  anchor_total_count :: nat
  per_page_count :: "nat list"

record ui_fastboot_log_info =
  top_of_screen_byte_anchor :: nat
  bytes_on_screen :: nat
  total_bytes :: nat

record ui_log_info =
  log_type :: ui_log_type
  lines_per_page :: nat
  chars_per_line :: nat
  static_log :: ui_static_log_info
  fastboot_log_info :: ui_fastboot_log_info

definition empty_log :: ui_log_info where
  "empty_log = \<lparr>log_type = UI_LOG_TYPE_UNKNOWN, lines_per_page = 0, chars_per_line = 0,
     static_log = \<lparr>log_str = [], page_count = 0, page_start = [], anchor_total_count = 0,
                   per_page_count = []\<rparr>,
     fastboot_log_info = \<lparr>top_of_screen_byte_anchor = 0, bytes_on_screen = 0, total_bytes = 0\<rparr>\<rparr>"

abbreviation (input) NL :: u8 where "NL \<equiv> 10"

definition ui_log_common_init ::
  "vb2_rv \<times> nat \<times> nat \<Rightarrow> ui_log_info \<Rightarrow> ui_log_type \<Rightarrow> vb2_rv \<times> ui_log_info" where
  "ui_log_common_init dimensions log type =
     (case dimensions of (rv, lines, chars) \<Rightarrow>
        if rv \<noteq> VB2_SUCCESS then (rv, log)
        else if lines = 0 \<or> chars = 0 then (VB2_ERROR_UI_LOG_INIT, log)
        else (VB2_SUCCESS,
              empty_log\<lparr>log_type := type, lines_per_page := lines, chars_per_line := chars\<rparr>))"

text \<open>
  The inner loop of \<open>ui_log_init\<close>: how many characters the line that starts here takes, with \<open>n\<close>
  characters seen.
\<close>

fun line_len :: "nat \<Rightarrow> nat \<Rightarrow> u8 list \<Rightarrow> nat" where
  "line_len cpl n [] = 0"
| "line_len cpl n (c # cs) =
     (if c = NL then 1 else if n + 1 > cpl then 0 else Suc (line_len cpl (n + 1) cs))"

lemma line_len_pos: "cpl \<noteq> 0 \<Longrightarrow> s \<noteq> [] \<Longrightarrow> 0 < line_len cpl 0 s"
  by (cases s) auto

text \<open>The two outer loops; \<open>cpl = 0\<close> is excluded by \<open>ui_log_common_init\<close>.\<close>

function count_lines :: "nat \<Rightarrow> u8 list \<Rightarrow> nat" where
  "count_lines cpl s =
     (if s = [] \<or> cpl = 0 then 0 else Suc (count_lines cpl (drop (line_len cpl 0 s) s)))"
  by pat_completeness auto
termination by (relation "measure (\<lambda>(cpl, s). length s)") (auto simp: line_len_pos)

function page_starts :: "nat \<Rightarrow> nat \<Rightarrow> nat \<Rightarrow> nat \<Rightarrow> u8 list \<Rightarrow> nat list" where
  "page_starts lpp cpl lines pos s =
     (if s = [] \<or> cpl = 0 then [pos]
      else (if lines mod lpp = 0 then [pos] else []) @
           page_starts lpp cpl (lines + 1) (pos + line_len cpl 0 s) (drop (line_len cpl 0 s) s))"
  by pat_completeness auto
termination by (relation "measure (\<lambda>(lpp, cpl, lines, pos, s). length s)") (auto simp: line_len_pos)

declare count_lines.simps [simp del] page_starts.simps [simp del]

definition ui_log_init ::
  "vb2_rv \<times> nat \<times> nat \<Rightarrow> bool \<Rightarrow> u8 list option \<Rightarrow> ui_log_info \<Rightarrow> vb2_rv \<times> ui_log_info" where
  "ui_log_init dimensions malloc_ok str log =
     (case str of
        None \<Rightarrow> (VB2_ERROR_UI_LOG_INIT, log)
      | Some s \<Rightarrow>
          (case ui_log_common_init dimensions log UI_LOG_TYPE_STATIC of (rv, log) \<Rightarrow>
             if rv \<noteq> VB2_SUCCESS then (rv, log)
             else let lines = count_lines (chars_per_line log) s;
                      sl = (static_log log)\<lparr>log_str := s,
                              page_count := div_round_up lines (lines_per_page log)\<rparr>
                  in if \<not> malloc_ok then (VB2_ERROR_UI_MEMORY_ALLOC, log\<lparr>static_log := sl\<rparr>)
                     else (VB2_SUCCESS,
                           log\<lparr>static_log := sl\<lparr>page_start :=
                             page_starts (lines_per_page log) (chars_per_line log) 0 0 s\<rparr>\<rparr>)))"

text \<open>
  The inner loop of \<open>ui_log_get_page_content\<close>, with \<open>m\<close> the distance to the end of the page: the
  bytes appended to the buffer and the characters consumed. \<open>line\<close> is the text from the start of
  the line; the empty list stands for the terminator.
\<close>

fun page_line :: "nat \<Rightarrow> u8 list \<Rightarrow> nat \<Rightarrow> nat \<Rightarrow> u8 list \<Rightarrow> u8 list \<times> nat" where
  "page_line cpl line n m [] = (take n line @ [0], 0)"
| "page_line cpl line n m (c # cs) =
     (if c = NL then (take (n + 1) line, 1)
      else if n + 1 > cpl then (take cpl line @ [NL], 0)
      else if m = 0 then ([], 1)
      else (case page_line cpl line (n + 1) (m - 1) cs of (out, k) \<Rightarrow> (out, Suc k)))"

lemma page_line_pos: "cpl \<noteq> 0 \<Longrightarrow> s \<noteq> [] \<Longrightarrow> 0 < snd (page_line cpl line 0 m s)"
  by (cases s) (auto split: prod.splits)

text \<open>The outer loop: \<open>m\<close> is the number of characters left on the page.\<close>

function page_loop :: "nat \<Rightarrow> nat \<Rightarrow> u8 list \<Rightarrow> u8 list" where
  "page_loop cpl m s =
     (if m = 0 \<or> s = [] \<or> cpl = 0 then []
      else case page_line cpl s 0 m s of (out, k) \<Rightarrow> out @ page_loop cpl (m - k) (drop k s))"
  by pat_completeness auto
termination
proof (relation "measure (\<lambda>(cpl, m, s). length s)", goal_cases)
  case (2 cpl m s x y)
  then have "0 < y" using page_line_pos [of cpl s s m] by (metis snd_conv)
  then show ?case using 2 by simp
qed simp

declare page_loop.simps [simp del]

text \<open>The bytes stored in the buffer before its terminator; \<open>None\<close> is a null pointer.\<close>

definition ui_log_get_page_content :: "bool \<Rightarrow> ui_log_info \<Rightarrow> nat \<Rightarrow> u8 list option" where
  "ui_log_get_page_content malloc_ok log page =
     (let sl = static_log log
      in if page \<ge> page_count sl then None
         else if \<not> malloc_ok then None
         else let first = page_start sl ! page;
                  buf = page_loop (chars_per_line log) (page_start sl ! (page + 1) - first)
                          (drop first (log_str sl))
              in Some (if buf \<noteq> [] \<and> last buf = NL then butlast buf else buf))"

text \<open>The size given to \<open>malloc\<close> is computed in 32 bits.\<close>

definition page_buffer_size :: "ui_log_info \<Rightarrow> nat" where
  "page_buffer_size log = ((chars_per_line log + 1) * lines_per_page log + 1) mod 2 ^ 32"

lemma page_buffer_wraps: "page_buffer_size (empty_log\<lparr>chars_per_line := 65535, lines_per_page := 65536\<rparr>) = 1"
  by (simp add: page_buffer_size_def)

text \<open>
  \<open>ui_log_set_anchors\<close>. \<open>strstr\<close> from a position gives the position of the first occurrence at or
  after it. The anchor loop over the pages ends: every turn goes to the next page or restarts the
  search at the current one and finds no match before it.
\<close>

fun strstr_from :: "nat \<Rightarrow> u8 list \<Rightarrow> u8 list \<Rightarrow> nat option" where
  "strstr_from pos [] anchor = (if anchor = [] then Some pos else None)"
| "strstr_from pos (c # cs) anchor =
     (if take (length anchor) (c # cs) = anchor then Some pos else strstr_from (Suc pos) cs anchor)"

definition strstr_at :: "u8 list \<Rightarrow> nat \<Rightarrow> u8 list \<Rightarrow> nat option" where
  "strstr_at s pos anchor = strstr_from pos (drop pos s) anchor"

lemma strstr_from_ge: "strstr_from pos s anchor = Some p \<Longrightarrow> pos \<le> p"
  by (induction pos s anchor rule: strstr_from.induct) (auto split: if_splits)

lemma strstr_at_ge: "strstr_at s pos anchor = Some p \<Longrightarrow> pos \<le> p"
  unfolding strstr_at_def by (rule strstr_from_ge)

type_synonym anchor_counts = "nat \<times> nat list"

definition count_anchor :: "nat \<Rightarrow> anchor_counts \<Rightarrow> anchor_counts" where
  "count_anchor page cnt = (case cnt of (n, per_page) \<Rightarrow>
     (n + 1, per_page[page := per_page ! page + 1]))"

function anchor_loop ::
  "ui_static_log_info \<Rightarrow> u8 list \<Rightarrow> nat \<Rightarrow> nat option \<Rightarrow> anchor_counts \<Rightarrow> anchor_counts" where
  "anchor_loop sl anchor j pos cnt =
     (case pos of
        None \<Rightarrow> cnt
      | Some p \<Rightarrow>
          if j < page_count sl
          then if p \<ge> page_start sl ! j then anchor_loop sl anchor (j + 1) pos cnt
               else anchor_loop sl anchor j (strstr_at (log_str sl) (page_start sl ! j) anchor)
                      (count_anchor (j - 1) cnt)
          else count_anchor (j - 1) cnt)"
  by pat_completeness auto
termination
proof (relation "measure (\<lambda>(sl, anchor, j, pos, cnt). 2 * (page_count sl - j) +
    (case pos of Some p \<Rightarrow> if p < page_start sl ! j then 1 else 0 | None \<Rightarrow> 0))", goal_cases)
  case (3 sl anchor j pos cnt p)
  then show ?case
    by (cases "strstr_at (log_str sl) (page_start sl ! j) anchor") (auto dest: strstr_at_ge)
qed auto

declare anchor_loop.simps [simp del]

definition ui_log_set_anchors :: "bool \<Rightarrow> u8 list list \<Rightarrow> ui_log_info \<Rightarrow> vb2_rv \<times> ui_log_info" where
  "ui_log_set_anchors malloc_ok anchors log =
     (let sl = static_log log
      in if anchors = [] then (VB2_SUCCESS, log)
         else if \<not> malloc_ok
         then (VB2_ERROR_UI_MEMORY_ALLOC,
               log\<lparr>static_log := sl\<lparr>anchor_total_count := 0, per_page_count := []\<rparr>\<rparr>)
         else case fold (\<lambda>anchor. anchor_loop sl anchor 0 (strstr_at (log_str sl) (page_start sl ! 0) anchor))
                     anchors (0, replicate (page_count sl) 0) of (n, per_page) \<Rightarrow>
           (VB2_SUCCESS,
            log\<lparr>static_log := sl\<lparr>anchor_total_count := n, per_page_count := per_page\<rparr>\<rparr>))"

section \<open>Lines and pages\<close>

text \<open>The lines the text is cut into, and what a line looks like on the screen.\<close>

function log_lines :: "nat \<Rightarrow> u8 list \<Rightarrow> u8 list list" where
  "log_lines cpl s =
     (if s = [] \<or> cpl = 0 then []
      else take (line_len cpl 0 s) s # log_lines cpl (drop (line_len cpl 0 s) s))"
  by pat_completeness auto
termination by (relation "measure (\<lambda>(cpl, s). length s)") (auto simp: line_len_pos)

declare log_lines.simps [simp del]

definition shown_line :: "u8 list \<Rightarrow> u8 list" where
  "shown_line l = (if NL \<in> set l then l else l @ [NL])"

lemma count_lines_log_lines: "count_lines cpl s = length (log_lines cpl s)"
  by (induction cpl s rule: log_lines.induct) (subst count_lines.simps, subst log_lines.simps, simp)

lemma concat_log_lines: "cpl \<noteq> 0 \<Longrightarrow> concat (log_lines cpl s) = s"
  by (induction cpl s rule: log_lines.induct) (subst log_lines.simps, simp)

lemma line_len_le: "line_len cpl n s \<le> length s"
  by (induction cpl n s rule: line_len.induct) auto

text \<open>A line has at most \<open>cpl\<close> characters before its newline.\<close>

lemma line_len_bound: "n \<le> cpl \<Longrightarrow> n + line_len cpl n s \<le> Suc cpl \<and>
   (n + line_len cpl n s = Suc cpl \<longrightarrow> s ! (cpl - n) = NL)"
  by (induction cpl n s rule: line_len.induct) (auto simp: nth_Cons' Suc_diff_le)

lemma page_line_eq:
  assumes "length pre = n" and "n \<le> cpl" and "line_len cpl n s \<le> m" and "NL \<notin> set pre"
  shows "page_line cpl (pre @ s) n m s =
    (let k = line_len cpl n s; l = pre @ take k s
     in (if NL \<in> set l then l else if k = length s then l @ [0] else l @ [NL], k))"
  using assms
proof (induction s arbitrary: pre n m)
  case (Cons c s)
  consider "c = NL" | "c \<noteq> NL" "n + 1 > cpl" | "c \<noteq> NL" "n + 1 \<le> cpl" by linarith
  then show ?case
  proof cases
    case 3
    have "page_line cpl ((pre @ [c]) @ s) (n + 1) (m - 1) s =
        (let k = line_len cpl (n + 1) s; l = (pre @ [c]) @ take k s
         in (if NL \<in> set l then l else if k = length s then l @ [0] else l @ [NL], k))"
      by (rule Cons.IH) (use Cons.prems 3 in auto)
    then show ?thesis using Cons.prems 3 by (simp add: Let_def)
  qed (use Cons.prems in \<open>auto simp: Let_def\<close>)
qed simp

lemma page_line_shown:
  assumes "s \<noteq> []" and "line_len cpl 0 s \<le> m"
  defines "k \<equiv> line_len cpl 0 s"
  shows "page_line cpl s 0 m s =
    (if k = length s \<and> NL \<notin> set s then s @ [0] else shown_line (take k s), k)"
  using page_line_eq [of "[]" 0 cpl s m] assms by (auto simp: Let_def shown_line_def)

text \<open>The bytes of a page that ends in the middle of the text, and of one that ends with it.\<close>

definition page_bytes :: "bool \<Rightarrow> u8 list list \<Rightarrow> u8 list" where
  "page_bytes at_end ls =
     (let t = concat (map shown_line ls)
      in if at_end \<and> ls \<noteq> [] \<and> NL \<notin> set (last ls) then butlast t @ [0] else t)"

lemma page_bytes_Cons:
  "page_bytes e (l # ls) =
    (if ls = [] then (if e \<and> NL \<notin> set l then l @ [0] else shown_line l)
     else shown_line l @ page_bytes e ls)"
proof (cases "ls = []")
  case False
  then have "concat (map shown_line ls) \<noteq> []" by (cases ls) (auto simp: shown_line_def)
  then show ?thesis using False by (auto simp: page_bytes_def Let_def butlast_append)
qed (auto simp: page_bytes_def Let_def shown_line_def butlast_append)

lemma log_lines_nonempty: "l \<in> set (log_lines cpl s) \<Longrightarrow> l \<noteq> []"
proof (induction cpl s rule: log_lines.induct)
  case (1 cpl s)
  then show ?case using line_len_pos [of cpl s]
    by (subst (asm) log_lines.simps) (auto split: if_splits)
qed

lemma log_lines_Nil [simp]: "log_lines cpl [] = []"
  by (subst log_lines.simps) simp

lemma page_loop_0 [simp]: "page_loop cpl 0 s = []" and page_loop_Nil [simp]: "page_loop cpl m [] = []"
  by (subst page_loop.simps, simp)+

lemma page_loop_eq:
  assumes "cpl \<noteq> 0" and "j \<le> length (log_lines cpl s)"
  shows "page_loop cpl (length (concat (take j (log_lines cpl s)))) s =
    page_bytes (j = length (log_lines cpl s)) (take j (log_lines cpl s))"
  using assms
proof (induction cpl s arbitrary: j rule: log_lines.induct)
  case (1 cpl s)
  show ?case
  proof (cases "s = [] \<or> j = 0")
    case True
    then show ?thesis by (auto simp: page_bytes_def)
  next
    case False
    define k where "k = line_len cpl 0 s"
    define m where "m = length (concat (take (j - 1) (log_lines cpl (drop k s))))"
    have L: "log_lines cpl s = take k s # log_lines cpl (drop k s)"
      using False 1(2) by (subst log_lines.simps) (simp add: k_def)
    have k: "0 < k" "k \<le> length s" using line_len_pos [of cpl s] line_len_le 1(2) False by (auto simp: k_def)
    obtain j' where j: "j = Suc j'" using False by (cases j) auto
    have len: "length (concat (take j (log_lines cpl s))) = k + m"
      using k by (simp add: L j m_def)
    have pl: "page_line cpl s 0 (k + m) s =
        (if k = length s \<and> NL \<notin> set s then s @ [0] else shown_line (take k s), k)"
      using page_line_shown [of s cpl "k + m"] False by (simp add: k_def)
    have ih: "page_loop cpl m (drop k s) =
        page_bytes (j' = length (log_lines cpl (drop k s))) (take j' (log_lines cpl (drop k s)))"
      using 1(1) [of j'] 1(2,3) False by (simp add: m_def j k_def L)
    have unf: "page_loop cpl (k + m) s = fst (page_line cpl s 0 (k + m) s) @ page_loop cpl m (drop k s)"
      using False 1(2) k pl by (subst page_loop.simps) simp
    show ?thesis
    proof (cases "k = length s")
      case True
      then have "log_lines cpl (drop k s) = []" by simp
      then show ?thesis using True len unf pl ih 1(3) by (auto simp: L j page_bytes_Cons page_bytes_def shown_line_def)
    next
      case ne: False
      then have ne': "log_lines cpl (drop k s) \<noteq> []" using k 1(2) by (subst log_lines.simps) simp
      show ?thesis
      proof (cases "j' = 0")
        case True
        then show ?thesis using ne ne' len unf pl ih by (simp add: L j page_bytes_Cons page_bytes_def)
      next
        case False
        then show ?thesis using ne ne' len unf pl ih by (simp add: L j page_bytes_Cons)
      qed
    qed
  qed
qed

text \<open>Where the pages start.\<close>

lemma page_starts_eq:
  assumes "cpl \<noteq> 0"
  shows "page_starts lpp cpl k pos s =
    map (\<lambda>j. pos + length (concat (take j (log_lines cpl s))))
      (filter (\<lambda>j. (k + j) mod lpp = 0) [0..<length (log_lines cpl s)]) @ [pos + length s]"
  using assms
proof (induction lpp cpl k pos s rule: page_starts.induct)
  case (1 lpp cpl k pos s)
  show ?case
  proof (cases "s = []")
    case True
    then show ?thesis by (subst page_starts.simps) simp
  next
    case False
    define l where "l = line_len cpl 0 s"
    define L where "L = log_lines cpl (drop l s)"
    have s: "log_lines cpl s = take l s # L"
      using False 1(2) by (subst log_lines.simps) (simp add: l_def L_def)
    have l: "l \<le> length s" by (simp add: l_def line_len_le)
    have up: "[0..<Suc (length L)] = 0 # map Suc [0..<length L]"
      by (simp only: map_Suc_upt upt_conv_Cons zero_less_Suc)
    have ih: "page_starts lpp cpl (k + 1) (pos + l) (drop l s) =
        map (\<lambda>j. pos + l + length (concat (take j L)))
          (filter (\<lambda>j. (k + 1 + j) mod lpp = 0) [0..<length L]) @ [pos + l + length (drop l s)]"
      using 1 False by (simp add: l_def L_def)
    have "page_starts lpp cpl k pos s =
        (if k mod lpp = 0 then [pos] else []) @ page_starts lpp cpl (k + 1) (pos + l) (drop l s)"
      using False 1(2) by (subst page_starts.simps) (simp add: l_def)
    also have "\<dots> = map (\<lambda>j. pos + length (concat (take j (take l s # L))))
          (filter (\<lambda>j. (k + j) mod lpp = 0) (0 # map Suc [0..<length L])) @ [pos + length s]"
      unfolding ih using l by (simp add: filter_map o_def add.assoc)
    finally show ?thesis by (simp add: s up del: upt_Suc)
  qed
qed

lemma filter_multiples:
  assumes "0 < lpp"
  shows "filter (\<lambda>j. j mod lpp = 0) [0..<n] = map (\<lambda>p. p * lpp) [0..<div_round_up n lpp]"
proof (induction n)
  case 0
  then show ?case using assms by (simp add: div_round_up_def)
next
  case (Suc n)
  have n: "n = n div lpp * lpp + n mod lpp" by simp
  have up: "div_round_up n lpp = (if n mod lpp = 0 then n div lpp else Suc (n div lpp))"
  proof (cases "n mod lpp = 0")
    case True
    have "(n + (lpp - 1)) div lpp = n div lpp + (lpp - 1) div lpp"
      by (subst div_add1_eq) (use True assms in simp)
    then show ?thesis using True assms by (simp add: div_round_up_def)
  next
    case False
    have "n + (lpp - 1) = n div lpp * lpp + (n mod lpp + (lpp - 1))" using n by linarith
    also have "\<dots> = (n mod lpp - 1) + (n div lpp + 1) * lpp" using False assms by simp
    finally have "(n + (lpp - 1)) div lpp = (n div lpp + 1) + (n mod lpp - 1) div lpp"
      using assms by (simp only: div_mult_self1)
    moreover have "n mod lpp - 1 < lpp" using assms by (simp add: less_imp_diff_less)
    ultimately show ?thesis using False by (simp add: div_round_up_def)
  qed
  have up': "div_round_up (Suc n) lpp = Suc (n div lpp)"
    using assms div_add_self2 [of lpp n] by (simp add: div_round_up_def)
  show ?case
  proof (cases "n mod lpp = 0")
    case True
    then have "n div lpp * lpp = n" using n by simp
    then show ?thesis using Suc True up up' by simp
  next
    case False
    then show ?thesis using Suc up up' by simp
  qed
qed

lemma drop_log_lines:
  assumes "cpl \<noteq> 0"
  shows "log_lines cpl (drop (length (concat (take j (log_lines cpl s)))) s) = drop j (log_lines cpl s)"
  using assms
proof (induction cpl s arbitrary: j rule: log_lines.induct)
  case (1 cpl s)
  show ?case
  proof (cases "s = [] \<or> j = 0")
    case True
    then show ?thesis by auto
  next
    case False
    define k where "k = line_len cpl 0 s"
    have L: "log_lines cpl s = take k s # log_lines cpl (drop k s)"
      using False 1(2) by (subst log_lines.simps) (simp add: k_def)
    have k: "k \<le> length s" by (simp add: k_def line_len_le)
    obtain j' where j: "j = Suc j'" using False by (cases j) auto
    have "length (concat (take j (log_lines cpl s))) =
        length (concat (take j' (log_lines cpl (drop k s)))) + k"
      using k by (simp add: L j)
    then have "drop (length (concat (take j (log_lines cpl s)))) s =
        drop (length (concat (take j' (log_lines cpl (drop k s))))) (drop k s)"
      by (simp only: drop_drop)
    then show ?thesis using 1(1) [of j'] 1(2) False by (simp only: L j k_def) simp
  qed
qed

lemma log_line_length: "l \<in> set (log_lines cpl s) \<Longrightarrow> length (shown_line l) \<le> cpl + 1"
proof (induction cpl s rule: log_lines.induct)
  case (1 cpl s)
  show ?case
  proof (cases "s = [] \<or> cpl = 0")
    case True
    then have "log_lines cpl s = []" by (subst log_lines.simps) simp
    then show ?thesis using 1(2) by simp
  next
    case False
    define k where "k = line_len cpl 0 s"
    have k: "k \<le> length s" "k \<le> Suc cpl" "k = Suc cpl \<Longrightarrow> s ! cpl = NL"
      using line_len_le [of cpl 0 s] line_len_bound [of 0 cpl s] by (auto simp: k_def)
    have "k = Suc cpl \<Longrightarrow> NL \<in> set (take k s)"
      using k by (metis in_set_conv_nth length_take lessI min.absorb2 nth_take)
    then have "length (shown_line (take k s)) \<le> cpl + 1"
      using k by (cases "k = Suc cpl") (auto simp: shown_line_def)
    moreover have "l = take k s \<or> l \<in> set (log_lines cpl (drop k s))"
      using 1(2) False log_lines.simps [of cpl s] by (simp add: k_def)
    ultimately show ?thesis using 1(1) False by (auto simp: k_def)
  qed
qed

text \<open>The offsets and the lines of page \<open>p\<close> of an initialised log.\<close>

lemma page_offsets:
  assumes "0 < lpp" and "cpl \<noteq> 0" and "p < div_round_up (length (log_lines cpl s)) lpp"
  defines "L \<equiv> log_lines cpl s"
  shows "page_starts lpp cpl 0 0 s ! p = length (concat (take (p * lpp) L))"
    and "page_starts lpp cpl 0 0 s ! (p + 1) =
      length (concat (take (p * lpp) L)) + length (concat (take lpp (drop (p * lpp) L)))"
proof -
  define n where "n = div_round_up (length L) lpp"
  have ps: "page_starts lpp cpl 0 0 s = map (\<lambda>q. length (concat (take (q * lpp) L))) [0..<n] @ [length s]"
    using page_starts_eq [OF assms(2), of lpp 0 0 s] filter_multiples [OF assms(1)]
    by (simp add: L_def n_def o_def)
  have p: "p < n" using assms(3) by (simp add: n_def L_def)
  then show "page_starts lpp cpl 0 0 s ! p = length (concat (take (p * lpp) L))"
    by (simp add: ps nth_append)
  have sum: "length (concat (take (p * lpp) L)) + length (concat (take lpp (drop (p * lpp) L))) =
      length (concat (take (p * lpp + lpp) L))" by (simp add: take_add)
  show "page_starts lpp cpl 0 0 s ! (p + 1) =
      length (concat (take (p * lpp) L)) + length (concat (take lpp (drop (p * lpp) L)))"
  proof (cases "p + 1 < n")
    case True
    then show ?thesis unfolding sum by (simp add: ps nth_append add.commute)
  next
    case False
    then have "n = p + 1" using p by simp
    then have "length L \<le> (p + 1) * lpp"
      using div_le_dividend assms(1) dividend_less_times_div [of lpp "length L + (lpp - 1)"]
      unfolding n_def div_round_up_def by (simp add: algebra_simps)
    then have "concat (take (p * lpp + lpp) L) = s"
      using concat_log_lines [OF assms(2), of s] by (simp add: L_def algebra_simps)
    then show ?thesis unfolding sum using \<open>n = p + 1\<close> by (simp add: ps nth_append)
  qed
qed

lemma page_content_eq:
  assumes "ui_log_init (VB2_SUCCESS, lpp, cpl) True (Some s) log0 = (VB2_SUCCESS, log)"
    and "p < page_count (static_log log)"
  defines "L \<equiv> log_lines cpl s"
  shows "ui_log_get_page_content True log p =
    (let b = page_bytes (length L \<le> p * lpp + lpp) (take lpp (drop (p * lpp) L))
     in Some (if b \<noteq> [] \<and> last b = NL then butlast b else b))"
    and "page_buffer_size log = ((cpl + 1) * lpp + 1) mod 2 ^ 32" and "p * lpp < length L" and "0 < lpp" and "cpl \<noteq> 0"
proof -
  have z: "0 < lpp" "cpl \<noteq> 0"
    using assms(1) by (auto simp: ui_log_init_def ui_log_common_init_def split: if_splits)
  have log: "lines_per_page log = lpp" "chars_per_line log = cpl" "log_str (static_log log) = s"
    "page_count (static_log log) = div_round_up (length L) lpp"
    "page_start (static_log log) = page_starts lpp cpl 0 0 s"
    using assms(1) z
    by (auto simp: ui_log_init_def ui_log_common_init_def Let_def count_lines_log_lines L_def)
  then show "page_buffer_size log = ((cpl + 1) * lpp + 1) mod 2 ^ 32" by (simp add: page_buffer_size_def)
  have p: "p < div_round_up (length L) lpp" using assms(2) log by simp
  have "\<not> length L \<le> p * lpp"
  proof
    assume "length L \<le> p * lpp"
    then have "length L + (lpp - 1) < (p + 1) * lpp" using z by (simp add: algebra_simps)
    then have "div_round_up (length L) lpp < p + 1"
      unfolding div_round_up_def by (simp add: div_less_iff_less_mult z)
    with p show False by simp
  qed
  then show pL: "p * lpp < length L" by simp
  have rest: "log_lines cpl (drop (length (concat (take (p * lpp) L))) s) = drop (p * lpp) L"
    using drop_log_lines [OF z(2)] by (simp add: L_def)
  define j where "j = min lpp (length L - p * lpp)"
  have j: "take lpp (drop (p * lpp) L) = take j (drop (p * lpp) L)" "j \<le> length (drop (p * lpp) L)"
    "j = length (drop (p * lpp) L) \<longleftrightarrow> length L \<le> p * lpp + lpp"
    using pL by (auto simp: j_def min_def)
  have "page_loop cpl (length (concat (take lpp (drop (p * lpp) L))))
      (drop (length (concat (take (p * lpp) L))) s) =
      page_bytes (length L \<le> p * lpp + lpp) (take lpp (drop (p * lpp) L))"
    using page_loop_eq [OF z(2), of j "drop (length (concat (take (p * lpp) L))) s"] j by (simp add: rest)
  then show "ui_log_get_page_content True log p =
    (let b = page_bytes (length L \<le> p * lpp + lpp) (take lpp (drop (p * lpp) L))
     in Some (if b \<noteq> [] \<and> last b = NL then butlast b else b))"
    using page_offsets [OF z(1,2), of p s] p
    by (simp add: ui_log_get_page_content_def Let_def log L_def)
  show "0 < lpp" "cpl \<noteq> 0" by (fact z)+
qed

lemma shown_line_ends: "l \<noteq> [] \<Longrightarrow> shown_line l \<noteq> []"
  by (simp add: shown_line_def)

lemma length_page_bytes:
  assumes "list_all (\<lambda>l. length (shown_line l) \<le> n) ls"
  shows "length (page_bytes e ls) \<le> n * length ls"
proof -
  have t: "length (concat (map shown_line ls)) \<le> n * length ls"
    using assms by (induction ls) auto
  show ?thesis
  proof (cases "ls = []")
    case False
    then have "concat (map shown_line ls) \<noteq> []" by (cases ls) (auto simp: shown_line_def)
    then have "0 < length (concat (map shown_line ls))" by blast
    then show ?thesis using t by (simp add: page_bytes_def Let_def)
  qed (simp add: page_bytes_def)
qed

lemma line_len_newline: "NL \<in> set (take (line_len cpl n s) s) \<Longrightarrow> last (take (line_len cpl n s) s) = NL"
  by (induction cpl n s rule: line_len.induct) (auto split: if_splits intro: gr0I)

lemma log_line_newline: "l \<in> set (log_lines cpl s) \<Longrightarrow> NL \<in> set l \<Longrightarrow> last l = NL"
proof (induction cpl s rule: log_lines.induct)
  case (1 cpl s)
  then show ?case
    using log_lines.simps [of cpl s] line_len_newline [of cpl 0 s] by (auto split: if_splits)
qed

lemma last_shown:
  assumes "ls \<noteq> []" and "\<And>l. l \<in> set ls \<Longrightarrow> NL \<in> set l \<Longrightarrow> last l = NL"
  shows "concat (map shown_line ls) \<noteq> []" and "last (concat (map shown_line ls)) = NL"
proof -
  obtain ks l where ls: "ls = ks @ [l]" using assms(1) by (cases ls rule: rev_cases) auto
  have "shown_line l \<noteq> []" "last (shown_line l) = NL"
    using assms(2) [of l] by (auto simp: shown_line_def ls)
  then show "concat (map shown_line ls) \<noteq> []" and "last (concat (map shown_line ls)) = NL"
    by (simp_all add: ls)
qed

section \<open>Properties\<close>

text \<open>
  C34. After \<open>ui_log_init\<close> of a text, the text of every page that \<open>ui_log_get_page_content\<close> returns is
  exactly the page's lines (at most \<open>lines_per_page\<close> of them, each cut after \<open>chars_per_line\<close>
  characters or its newline) separated by newlines, no character of the text is lost between
  lines and pages, and what is stored, its terminator included, fits the buffer that is allocated
  for it. The text box must be small enough for the size of that buffer, which is computed in 32 bits,
  not to wrap around.
\<close>

theorem ui_log_pages_fit:
  assumes "ui_log_init (VB2_SUCCESS, lpp, cpl) True (Some s) log0 = (VB2_SUCCESS, log)"
    and "p < page_count (static_log log)" and "0 \<notin> set s" and "(cpl + 1) * lpp + 1 < 2 ^ 32"
  shows "\<exists>b. ui_log_get_page_content True log p = Some b \<and> length b + 1 \<le> page_buffer_size log \<and>
    takeWhile (\<lambda>c. c \<noteq> 0) b =
      butlast (concat (map shown_line (take lpp (drop (p * lpp) (log_lines cpl s))))) \<and>
    concat (log_lines cpl s) = s"
proof -
  define L where "L = log_lines cpl s"
  define ls where "ls = take lpp (drop (p * lpp) L)"
  define t where "t = concat (map shown_line ls)"
  define e where "e = (length L \<le> p * lpp + lpp)"
  note c = page_content_eq [OF assms(1,2), folded L_def]
  have sub: "l \<in> set L" if "l \<in> set ls" for l
    using that by (auto simp: ls_def dest: in_set_takeD in_set_dropD)
  have ne: "ls \<noteq> []" using c(3,4) by (simp add: ls_def)
  have nl: "last l = NL" if "l \<in> set ls" "NL \<in> set l" for l
    using log_line_newline [of l cpl s] sub that by (simp add: L_def)
  have lt: "t \<noteq> []" "last t = NL"
    unfolding t_def by (rule last_shown [OF ne nl], assumption+)+
  have "x \<in> set (concat L)" if "x \<in> set t" "x \<noteq> NL" for x
    using that sub by (auto simp: t_def shown_line_def split: if_splits)
  then have z: "0 \<notin> set t"
    using assms(3) concat_log_lines [OF c(5), of s] by (fastforce simp: L_def)
  have sz: "length (page_bytes e ls) \<le> (cpl + 1) * lpp"
  proof -
    have "list_all (\<lambda>l. length (shown_line l) \<le> cpl + 1) ls"
      using sub log_line_length by (fastforce simp: list_all_iff L_def)
    then have "length (page_bytes e ls) \<le> (cpl + 1) * length ls" by (rule length_page_bytes)
    also have "\<dots> \<le> (cpl + 1) * lpp" by (rule mult_le_mono2) (simp add: ls_def)
    finally show ?thesis .
  qed
  define b where "b = (if page_bytes e ls \<noteq> [] \<and> last (page_bytes e ls) = NL
    then butlast (page_bytes e ls) else page_bytes e ls)"
  have content: "ui_log_get_page_content True log p = Some b"
    using c(1) by (simp add: Let_def b_def ls_def e_def)
  have tb: "takeWhile (\<lambda>c. c \<noteq> 0) (butlast t) = butlast t"
    using z by (auto simp: takeWhile_eq_all_conv dest: in_set_butlastD)
  have "page_bytes e ls = t \<or> page_bytes e ls = butlast t @ [0]"
    by (simp add: page_bytes_def t_def Let_def)
  then have "takeWhile (\<lambda>c. c \<noteq> 0) b = butlast t"
  proof
    assume "page_bytes e ls = t"
    then show ?thesis using lt tb by (simp add: b_def)
  next
    assume "page_bytes e ls = butlast t @ [0]"
    then have "b = butlast t @ [0]" by (simp add: b_def)
    moreover have "c \<noteq> 0" if "c \<in> set (butlast t)" for c
      using z in_set_butlastD [OF that] by blast
    ultimately show ?thesis by (simp add: takeWhile_append2)
  qed
  moreover have "page_buffer_size log = (cpl + 1) * lpp + 1" unfolding c(2) by (rule mod_less) (rule assms(4))
  then have "length b + 1 \<le> page_buffer_size log" using sz by (simp add: b_def) linarith
  ultimately show ?thesis
    using content concat_log_lines [OF c(5), of s] by (simp add: t_def ls_def L_def)
qed

theorem ui_log_pages_fit_witness:
  "\<exists>log b. ui_log_init (VB2_SUCCESS, 2, 3) True (Some [1, 2, 10, 3, 4, 5, 6, 10, 7]) empty_log =
      (VB2_SUCCESS, log) \<and>
    ui_log_get_page_content True log 0 = Some b \<and> takeWhile (\<lambda>c. c \<noteq> 0) b = [1, 2, 10, 3, 4, 5]"
proof -
  let ?s = "[1, 2, 10, 3, 4, 5, 6, 10, 7] :: u8 list"
  let ?log = "snd (ui_log_init (VB2_SUCCESS, 2, 3) True (Some ?s) empty_log)"
  have i: "ui_log_init (VB2_SUCCESS, 2, 3) True (Some ?s) empty_log = (VB2_SUCCESS, ?log)"
    by (simp add: ui_log_init_def ui_log_common_init_def Let_def)
  have l: "log_lines 3 ?s = [[1, 2, 10], [3, 4, 5], [6, 10], [7]]" by code_simp
  have "0 < page_count (static_log ?log)"
    by (simp add: ui_log_init_def ui_log_common_init_def Let_def count_lines_log_lines l div_round_up_def)
  from ui_log_pages_fit [OF i this] obtain b where "ui_log_get_page_content True ?log 0 = Some b"
    and "takeWhile (\<lambda>c. c \<noteq> 0) b = butlast (concat (map shown_line (take 2 (log_lines 3 ?s))))"
    by auto
  moreover have "butlast (concat (map shown_line (take 2 (log_lines 3 ?s)))) = [1, 2, 10, 3, 4, 5]"
    by (simp add: l shown_line_def)
  ultimately show ?thesis using i by (intro exI [of _ ?log] exI [of _ b]) simp
qed

text \<open>\<open>total_count\<close> counts a page once per anchor string, however often the anchor occurs on it.\<close>

lemma anchors_counted_once_per_page:
  "anchor_total_count (static_log (snd (ui_log_set_anchors True [[1]]
     (snd (ui_log_init (VB2_SUCCESS, 2, 3) True (Some [1, 1, 1]) empty_log))))) = 1"
  by code_simp

end
