(* ===== verification/Ui_Fastboot_Log.thy ===== *)
theory Ui_Fastboot_Log
  imports Ui_Log Fastboot_Log
begin

text \<open>
  \<open>src/vboot/ui/fastboot_log.c\<close>: choosing the part of the fastboot log that the fastboot screen
  shows. An iterator is a position in the circular buffer of \<open>Fastboot_Log\<close>, and \<open>UINT64_MAX\<close> an
  invalid one. The functions that move an iterator return the length of the line and the moved
  iterator.
\<close>

section \<open>Model\<close>

abbreviation (input) LF :: char where "LF \<equiv> CHR 0x0A"

definition SIZE_MAX :: nat where
  "SIZE_MAX = 2 ^ 64 - 1"

text \<open>
  The loop of \<open>get_next_fastboot_log_line\<close>, with \<open>n\<close> turns to go from \<open>i\<close>; \<open>Inl\<close> is a return from
  it.
\<close>

fun next_line_loop :: "fastboot_log \<Rightarrow> nat \<Rightarrow> nat \<Rightarrow> nat \<Rightarrow> (nat \<times> nat) + nat" where
  "next_line_loop log 0 i iter = Inr iter"
| "next_line_loop log (Suc n) i iter =
     (let c = fastboot_log_get_byte_at_iter log iter
      in case fastboot_log_inc_iter log iter of
           None \<Rightarrow> Inl (i, UINT64_MAX)
         | Some iter \<Rightarrow> if c = LF then Inl (i, iter) else next_line_loop log n (i + 1) iter)"

definition get_next_fastboot_log_line :: "fastboot_log \<Rightarrow> nat \<Rightarrow> nat \<Rightarrow> nat \<times> nat" where
  "get_next_fastboot_log_line log cpl iter =
     (if iter = UINT64_MAX then (0, iter)
      else case next_line_loop log cpl 1 iter of
             Inl r \<Rightarrow> r
           | Inr iter \<Rightarrow>
               if fastboot_log_get_byte_at_iter log iter = LF
               then (cpl + 1, case fastboot_log_inc_iter log iter of Some iter \<Rightarrow> iter | None \<Rightarrow> UINT64_MAX)
               else (cpl, iter))"

fun prev_line_loop :: "fastboot_log \<Rightarrow> nat \<Rightarrow> nat \<Rightarrow> nat \<Rightarrow> nat \<times> nat" where
  "prev_line_loop log 0 i iter = (i, iter)"
| "prev_line_loop log (Suc n) i iter =
     (if fastboot_log_get_byte_at_iter log iter = LF then (i, iter)
      else case fastboot_log_dec_iter log iter of
             None \<Rightarrow> (i, UINT64_MAX)
           | Some iter \<Rightarrow> prev_line_loop log n (i + 1) iter)"

text \<open>
  A line that ends in a newline starts counting at 1 and may be one longer, so the loop has
  \<open>cpl\<close> turns in both cases.
\<close>

definition get_prev_fastboot_log_line :: "fastboot_log \<Rightarrow> nat \<Rightarrow> nat \<Rightarrow> nat \<times> nat" where
  "get_prev_fastboot_log_line log cpl iter =
     (if iter = UINT64_MAX then (0, iter)
      else if fastboot_log_get_byte_at_iter log iter = LF
      then (case fastboot_log_dec_iter log iter of
              None \<Rightarrow> (1, UINT64_MAX)
            | Some iter \<Rightarrow> prev_line_loop log cpl 1 iter)
      else prev_line_loop log cpl 0 iter)"

fun next_page_loop :: "fastboot_log \<Rightarrow> nat \<Rightarrow> nat \<Rightarrow> nat \<Rightarrow> nat \<Rightarrow> nat" where
  "next_page_loop log cpl 0 iter page_len = page_len"
| "next_page_loop log cpl (Suc lines) iter page_len =
     (case get_next_fastboot_log_line log cpl iter of (len, iter) \<Rightarrow>
        if len = 0 then 0 else next_page_loop log cpl lines iter (page_len + len))"

definition get_next_fastboot_log_page_len :: "fastboot_log \<Rightarrow> nat \<Rightarrow> nat \<Rightarrow> nat \<Rightarrow> nat" where
  "get_next_fastboot_log_page_len log start cpl lpp =
     next_page_loop log cpl lpp (fastboot_log_get_iter log start) 0"

text \<open>The first loop of \<open>get_prev_fastboot_log_page_len\<close>; \<open>None\<close> is its early \<open>return 0\<close>.\<close>

fun prev_page_loop :: "fastboot_log \<Rightarrow> nat \<Rightarrow> nat \<Rightarrow> nat \<Rightarrow> nat \<Rightarrow> (nat \<times> nat) option" where
  "prev_page_loop log cpl 0 iter page_len = Some (page_len, iter)"
| "prev_page_loop log cpl (Suc lines) iter page_len =
     (case get_prev_fastboot_log_line log cpl iter of (len, iter) \<Rightarrow>
        if len = 0 then None else prev_page_loop log cpl lines iter (page_len + len))"

text \<open>Its second loop, back to the start of a split line; no result means that it does not end.\<close>

partial_function (option) split_line_loop :: "fastboot_log \<Rightarrow> nat \<Rightarrow> nat \<Rightarrow> nat \<Rightarrow> nat option" where
  "split_line_loop log cpl iter len =
     (if iter \<noteq> UINT64_MAX \<and> fastboot_log_get_byte_at_iter log iter \<noteq> LF
      then case get_prev_fastboot_log_line log cpl iter of (len, iter) \<Rightarrow> split_line_loop log cpl iter len
      else Some len)"

definition get_prev_fastboot_log_page_len :: "fastboot_log \<Rightarrow> nat \<Rightarrow> nat \<Rightarrow> nat \<Rightarrow> nat option" where
  "get_prev_fastboot_log_page_len log end_byte cpl lpp =
     (case prev_page_loop log cpl lpp (fastboot_log_get_iter log (sub64 end_byte 1)) 0 of
        None \<Rightarrow> Some 0
      | Some (page_len, iter) \<Rightarrow>
          (case split_line_loop log cpl iter 0 of
             None \<Rightarrow> None
           | Some len \<Rightarrow> Some (if len \<noteq> 0 then sub64 page_len (sub64 cpl len) else page_len)))"

definition set_page :: "nat \<Rightarrow> nat \<Rightarrow> ui_log_info \<Rightarrow> ui_log_info" where
  "set_page first bytes ui_log =
     ui_log\<lparr>fastboot_log_info := (fastboot_log_info ui_log)
       \<lparr>top_of_screen_byte_anchor := first, bytes_on_screen := bytes\<rparr>\<rparr>"

definition ui_fb_log_set_first_page :: "ui_log_info \<Rightarrow> fastboot_log \<Rightarrow> ui_log_info" where
  "ui_fb_log_set_first_page ui_log log =
     (let oldest_byte = fastboot_log_get_oldest_available_byte log;
          page_len = get_next_fastboot_log_page_len log oldest_byte (chars_per_line ui_log) (lines_per_page ui_log)
      in set_page oldest_byte (if page_len = 0 then SIZE_MAX else page_len) ui_log)"

definition ui_fb_log_set_last_page :: "ui_log_info \<Rightarrow> fastboot_log \<Rightarrow> ui_log_info option" where
  "ui_fb_log_set_last_page ui_log log =
     (let total_bytes = fastboot_log_get_total_bytes log
      in case get_prev_fastboot_log_page_len log total_bytes (chars_per_line ui_log) (lines_per_page ui_log) of
           None \<Rightarrow> None
         | Some page_len \<Rightarrow>
             let page_len = (if page_len = 0
                             then sub64 total_bytes (fastboot_log_get_oldest_available_byte log)
                             else page_len)
             in Some (set_page (sub64 total_bytes page_len) page_len ui_log))"

definition ui_fb_log_set_next_page :: "ui_log_info \<Rightarrow> fastboot_log \<Rightarrow> ui_log_info option" where
  "ui_fb_log_set_next_page ui_log log =
     (let start = add64 (top_of_screen_byte_anchor (fastboot_log_info ui_log))
                    (bytes_on_screen (fastboot_log_info ui_log));
          page_len = get_next_fastboot_log_page_len log start (chars_per_line ui_log) (lines_per_page ui_log)
      in if page_len = 0 then ui_fb_log_set_last_page ui_log log
         else Some (set_page start page_len ui_log))"

definition ui_fb_log_set_prev_page :: "ui_log_info \<Rightarrow> fastboot_log \<Rightarrow> ui_log_info option" where
  "ui_fb_log_set_prev_page ui_log log =
     (let end_byte = top_of_screen_byte_anchor (fastboot_log_info ui_log)
      in case get_prev_fastboot_log_page_len log end_byte (chars_per_line ui_log) (lines_per_page ui_log) of
           None \<Rightarrow> None
         | Some page_len \<Rightarrow>
             Some (if page_len = 0 then ui_fb_log_set_first_page ui_log log
                   else set_page (sub64 end_byte page_len) page_len ui_log))"

definition ui_fb_log_init :: "vb2_rv \<times> nat \<times> nat \<Rightarrow> ui_log_info \<Rightarrow> vb2_rv \<times> ui_log_info" where
  "ui_fb_log_init dimensions log =
     (case ui_log_common_init dimensions log UI_LOG_TYPE_FASTBOOT of (rv, log) \<Rightarrow>
        if rv \<noteq> VB2_SUCCESS then (rv, log)
        else (VB2_SUCCESS,
              log\<lparr>fastboot_log_info := \<lparr>top_of_screen_byte_anchor = UINT64_MAX, bytes_on_screen = 0,
                                        total_bytes = UINT64_MAX\<rparr>\<rparr>))"

section \<open>Lines and pages of the stream\<close>

text \<open>Below, an iterator is the position of the stream's byte \<open>p\<close>, or invalid.\<close>

lemma log_pos_valid: "log_abs log h \<Longrightarrow> p < length h \<Longrightarrow> log_pos log p \<noteq> UINT64_MAX"
  using log_pos_less [of log h p] by (simp add: FASTBOOT_LOG_BUF_SIZE_def UINT64_MAX_def)

lemma byte_at_pos:
  "log_abs log h \<Longrightarrow> log_oldest log \<le> p \<Longrightarrow> p < length h \<Longrightarrow>
   fastboot_log_get_byte_at_iter log (log_pos log p) = h ! p"
  by (simp add: fastboot_log_get_byte_at_iter_def log_abs_nth)

lemmas iter_pos = byte_at_pos fastboot_log_inc_iter_pos fastboot_log_dec_iter_pos log_pos_valid

lemma next_line_loop_pos:
  assumes "log_abs log h" and "log_oldest log \<le> p" and "p < length h"
  shows "case next_line_loop log n i (log_pos log p) of
      Inl (r, it) \<Rightarrow> \<exists>k. 0 < k \<and> r + 1 = i + k \<and> p + k \<le> length h \<and>
        (it = UINT64_MAX \<or> it = log_pos log (p + k) \<and> p + k < length h)
    | Inr it \<Rightarrow> it = log_pos log (p + n) \<and> p + n < length h"
  using assms(2,3)
proof (induction n arbitrary: i p)
  case (Suc n)
  show ?case
  proof (cases "Suc p < length h \<and> h ! p \<noteq> LF")
    case True
    have "next_line_loop log (Suc n) i (log_pos log p) = next_line_loop log n (i + 1) (log_pos log (Suc p))"
      using Suc.prems assms(1) True by (simp add: iter_pos)
    moreover have "case next_line_loop log n (i + 1) (log_pos log (Suc p)) of
        Inl (r, it) \<Rightarrow> \<exists>k. 0 < k \<and> r + 1 = i + 1 + k \<and> Suc p + k \<le> length h \<and>
          (it = UINT64_MAX \<or> it = log_pos log (Suc p + k) \<and> Suc p + k < length h)
      | Inr it \<Rightarrow> it = log_pos log (Suc p + n) \<and> Suc p + n < length h"
      using Suc.IH [of "Suc p" "i + 1"] Suc.prems True by simp
    ultimately show ?thesis
      by (auto split: sum.splits)
  next
    case False
    then show ?thesis using Suc.prems assms(1) by (auto simp: iter_pos intro!: exI [of _ 1])
  qed
qed simp

lemma next_line_pos:
  assumes "log_abs log h" and "log_oldest log \<le> p" and "p < length h"
    and "get_next_fastboot_log_line log cpl (log_pos log p) = (r, it)"
  shows "p + r \<le> length h \<and> (it = UINT64_MAX \<or> it = log_pos log (p + r) \<and> p + r < length h)"
proof (cases "next_line_loop log cpl 1 (log_pos log p)")
  case (Inl a)
  then show ?thesis
    using next_line_loop_pos [OF assms(1-3), where n = cpl and i = 1] assms(4) log_pos_valid [OF assms(1,3)]
    by (cases a) (auto simp: get_next_fastboot_log_line_def)
next
  case (Inr a)
  then have "a = log_pos log (p + cpl)" "p + cpl < length h"
    using next_line_loop_pos [OF assms(1-3), where n = cpl and i = 1] by simp_all
  then show ?thesis
    using Inr assms log_pos_valid [OF assms(1,3)]
    by (auto simp: get_next_fastboot_log_line_def iter_pos split: if_splits option.splits)
qed

lemma next_page_loop_pos:
  assumes "log_abs log h" and "log_oldest log \<le> p" and "p < length h"
    and "next_page_loop log cpl lines (log_pos log p) acc = n" and "n \<noteq> 0"
  shows "p + n \<le> length h + acc"
  using assms(2-5)
proof (induction lines arbitrary: p acc)
  case (Suc lines)
  obtain r it where l: "get_next_fastboot_log_line log cpl (log_pos log p) = (r, it)" by force
  note s = next_line_pos [OF assms(1) Suc.prems(1,2) l]
  show ?case
  proof (cases "r = 0 \<or> it = UINT64_MAX")
    case True
    then show ?thesis using s Suc.prems l by (cases lines) (auto simp: get_next_fastboot_log_line_def)
  next
    case False
    then have "next_page_loop log cpl lines (log_pos log (p + r)) (acc + r) = n" "p + r < length h"
      using s l Suc.prems(3) by auto
    then show ?thesis using Suc.IH [of "p + r" "acc + r"] Suc.prems by simp
  qed
qed simp

lemma next_page_len_bounds:
  assumes "log_abs log h" and "0 < lpp" and "get_next_fastboot_log_page_len log start cpl lpp \<noteq> 0"
  shows "log_oldest log \<le> start \<and> start + get_next_fastboot_log_page_len log start cpl lpp \<le> length h"
proof (cases "log_oldest log \<le> start \<and> start < length h")
  case True
  then show ?thesis
    using next_page_loop_pos [OF assms(1), of start cpl lpp 0] assms(3)
    by (simp add: get_next_fastboot_log_page_len_def fastboot_log_get_iter_pos [OF assms(1)])
next
  case False
  then show ?thesis
    using assms by (cases lpp) (auto simp: get_next_fastboot_log_page_len_def
      fastboot_log_get_iter_pos [OF assms(1)] get_next_fastboot_log_line_def)
qed

text \<open>
  Going back from byte \<open>p\<close>: \<open>k\<close> bytes are passed, and the iterator is at the byte before them or
  has run off the oldest one. It stops only at a newline or after \<open>n\<close> bytes.
\<close>

lemma prev_line_loop_pos:
  assumes "log_abs log h" and "log_oldest log \<le> p" and "p < length h"
  shows "\<exists>k it. prev_line_loop log n i (log_pos log p) = (i + k, it) \<and> k \<le> n \<and> log_oldest log + k \<le> p \<and>
    (it = UINT64_MAX \<or> it = log_pos log (p - k) \<and> (k = n \<or> h ! (p - k) = LF))"
  using assms(2,3)
proof (induction n arbitrary: i p)
  case (Suc n)
  show ?case
  proof (cases "h ! p \<noteq> LF \<and> log_oldest log < p")
    case True
    have eq: "prev_line_loop log (Suc n) i (log_pos log p) = prev_line_loop log n (i + 1) (log_pos log (p - 1))"
      using Suc.prems assms(1) True by (simp add: iter_pos)
    obtain k it where k: "prev_line_loop log n (i + 1) (log_pos log (p - 1)) = (i + 1 + k, it)" "k \<le> n"
      "log_oldest log + k \<le> p - 1"
      "it = UINT64_MAX \<or> it = log_pos log (p - 1 - k) \<and> (k = n \<or> h ! (p - 1 - k) = LF)"
      using Suc.IH [of "p - 1" "i + 1"] Suc.prems True by fastforce
    show ?thesis
      using k True eq by (intro exI [of _ "Suc k"] exI [of _ it]) auto
  next
    case False
    then show ?thesis using Suc.prems assms(1) by (auto simp: iter_pos)
  qed
qed simp

lemma prev_line_pos:
  assumes "log_abs log h" and "log_oldest log \<le> p" and "p < length h"
    and "get_prev_fastboot_log_line log cpl (log_pos log p) = (r, it)"
  shows "log_oldest log + r \<le> p + 1 \<and> (h ! p \<noteq> LF \<longrightarrow> r \<le> cpl) \<and>
    (it = UINT64_MAX \<or> it = log_pos log (p - r) \<and> log_oldest log + r \<le> p \<and>
       (cpl \<le> r \<or> h ! (p - r) = LF))"
proof (cases "h ! p = LF")
  case False
  then show ?thesis
    using prev_line_loop_pos [OF assms(1-3), where n = cpl and i = 0] assms
    by (auto simp: get_prev_fastboot_log_line_def iter_pos)
next
  case True
  show ?thesis
  proof (cases "log_oldest log < p")
    case False
    then show ?thesis
      using True assms by (auto simp: get_prev_fastboot_log_line_def iter_pos)
  next
    case less: True
    have "log_oldest log \<le> p - 1" "p - 1 < length h" using less assms(3) by auto
    from prev_line_loop_pos [OF assms(1) this, where n = cpl and i = 1]
    show ?thesis
      using True less assms by (auto simp: get_prev_fastboot_log_line_def iter_pos)
  qed
qed

lemma split_line_loop_returns:
  assumes "log_abs log h" and "0 < cpl" and "log_oldest log \<le> p" and "p < length h" and "len \<le> cpl"
  shows "\<exists>r. split_line_loop log cpl (log_pos log p) len = Some r \<and> r \<le> cpl \<and> (h ! p = LF \<longrightarrow> r = len)"
  using assms(3-5)
proof (induction p arbitrary: len rule: less_induct)
  case (less p)
  show ?case
  proof (cases "h ! p = LF")
    case True
    then show ?thesis
      using less.prems assms(1) split_line_loop.simps [of log cpl "log_pos log p" len] by (simp add: iter_pos)
  next
    case False
    obtain r it where l: "get_prev_fastboot_log_line log cpl (log_pos log p) = (r, it)" by force
    have eq: "split_line_loop log cpl (log_pos log p) len = split_line_loop log cpl it r"
      using split_line_loop.simps [of log cpl "log_pos log p" len] False less.prems assms(1) l
      by (simp add: iter_pos)
    have s: "r \<le> cpl" "it = UINT64_MAX \<or> it = log_pos log (p - r) \<and> log_oldest log + r \<le> p \<and>
       (cpl \<le> r \<or> h ! (p - r) = LF)"
      using prev_line_pos [OF assms(1) less.prems(1,2) l] False by auto
    show ?thesis
    proof (cases "it = UINT64_MAX")
      case True
      then show ?thesis using False s(1) unfolding eq by (simp add: split_line_loop.simps)
    next
      case valid: False
      then have "r \<noteq> 0" using s(2) assms(2) False by (cases "r = 0") auto
      then have "\<exists>v. split_line_loop log cpl (log_pos log (p - r)) r = Some v \<and> v \<le> cpl \<and>
          (h ! (p - r) = LF \<longrightarrow> v = r)"
        using valid s less.prems by (intro less.IH) auto
      then show ?thesis using eq valid s(2) False by auto
    qed
  qed
qed

lemma prev_page_loop_pos:
  assumes "log_abs log h" and "log_oldest log \<le> p" and "p < length h"
    and "prev_page_loop log cpl lines (log_pos log p) acc = Some (n, it)" and "0 < lines"
  shows "\<exists>k. n = acc + k \<and> log_oldest log + k \<le> p + 1 \<and>
    (it = UINT64_MAX \<or> it = log_pos log (p - k) \<and> log_oldest log + k \<le> p \<and> (cpl \<le> k \<or> h ! (p - k) = LF))"
  using assms(2-5)
proof (induction lines arbitrary: p acc)
  case (Suc lines)
  obtain r it' where l: "get_prev_fastboot_log_line log cpl (log_pos log p) = (r, it')" by force
  have s: "log_oldest log + r \<le> p + 1"
    "it' = UINT64_MAX \<or> it' = log_pos log (p - r) \<and> log_oldest log + r \<le> p \<and> (cpl \<le> r \<or> h ! (p - r) = LF)"
    using prev_line_pos [OF assms(1) Suc.prems(1,2) l] by auto
  have rest: "prev_page_loop log cpl lines it' (acc + r) = Some (n, it)"
    using Suc.prems(3) l by (auto split: if_splits)
  show ?case
  proof (cases "lines = 0 \<or> it' = UINT64_MAX")
    case True
    then have "n = acc + r" "it = it'"
      using rest by (cases lines; auto simp: get_prev_fastboot_log_line_def)+
    then show ?thesis using s by auto
  next
    case False
    then have p: "it' = log_pos log (p - r)" "log_oldest log + r \<le> p" using s(2) by auto
    then have q: "log_oldest log \<le> p - r" "p - r < length h" using Suc.prems(2) by auto
    obtain k where "n = acc + r + k" "log_oldest log + k \<le> p - r + 1"
      "it = UINT64_MAX \<or> it = log_pos log (p - r - k) \<and> log_oldest log + k \<le> p - r \<and>
        (cpl \<le> k \<or> h ! (p - r - k) = LF)"
      using Suc.IH [OF q, of "acc + r"] p(1) False rest by auto
    then show ?thesis using p by (intro exI [of _ "r + k"]) auto
  qed
qed simp

lemma prev_page_len_bounds:
  assumes "log_abs log h" and "0 < cpl" "cpl < 2 ^ 32" and "0 < lpp" and "e < 2 ^ 64"
  shows "\<exists>n. get_prev_fastboot_log_page_len log e cpl lpp = Some n \<and>
    (n \<noteq> 0 \<longrightarrow> log_oldest log + n \<le> e \<and> e \<le> length h)"
proof (cases "log_oldest log \<le> sub64 e 1 \<and> sub64 e 1 < length h \<and>
    prev_page_loop log cpl lpp (log_pos log (sub64 e 1)) 0 \<noteq> None")
  case False
  then have "prev_page_loop log cpl lpp (fastboot_log_get_iter log (sub64 e 1)) 0 = None"
  proof (cases "log_oldest log \<le> sub64 e 1 \<and> sub64 e 1 < length h")
    case True
    with False have "prev_page_loop log cpl lpp (log_pos log (sub64 e 1)) 0 = None" by blast
    with True show ?thesis by (simp add: fastboot_log_get_iter_pos [OF assms(1)])
  next
    case False
    then have "fastboot_log_get_iter log (sub64 e 1) = UINT64_MAX"
      by (auto simp: fastboot_log_get_iter_pos [OF assms(1)])
    then show ?thesis
      using assms(4) by (cases lpp) (simp_all add: get_prev_fastboot_log_line_def)
  qed
  then show ?thesis by (simp add: get_prev_fastboot_log_page_len_def)
next
  case True
  have len: "length h < 2 ^ 64" using assms(1) by (simp add: log_abs_def)
  then have "e \<noteq> 0" using True by (cases "e = 0") (auto simp: sub64_def)
  then have p: "sub64 e 1 = e - 1" using assms(5) by (simp add: sub64_id)
  define p where "p = e - 1"
  obtain n it where l: "prev_page_loop log cpl lpp (log_pos log p) 0 = Some (n, it)" using True p p_def by auto
  have s: "log_oldest log + n \<le> p + 1" "it = UINT64_MAX \<or> it = log_pos log (p - n) \<and> log_oldest log + n \<le> p \<and>
      (cpl \<le> n \<or> h ! (p - n) = LF)"
    using prev_page_loop_pos [OF assms(1) _ _ l assms(4)] True p by (auto simp: p_def)
  have eq: "get_prev_fastboot_log_page_len log e cpl lpp =
      (case split_line_loop log cpl it 0 of None \<Rightarrow> None
       | Some len \<Rightarrow> Some (if len \<noteq> 0 then sub64 n (sub64 cpl len) else n))"
    using True p l by (simp add: get_prev_fastboot_log_page_len_def fastboot_log_get_iter_pos [OF assms(1)] p_def)
  have e: "log_oldest log + n \<le> e" "e \<le> length h" using s(1) True p \<open>e \<noteq> 0\<close> by (auto simp: p_def)
  obtain r where r: "split_line_loop log cpl it 0 = Some r" "r \<le> cpl" "r = 0 \<or> cpl \<le> n"
  proof (cases "it = UINT64_MAX")
    case True
    then show ?thesis using that [of 0] by (simp add: split_line_loop.simps)
  next
    case False
    then show ?thesis
      using s(2) split_line_loop_returns [OF assms(1,2), of "p - n" 0] that True p by (fastforce simp: p_def)
  qed
  have "sub64 n (sub64 cpl r) = n - (cpl - r)" if "cpl \<le> n"
    using that r(2) assms(3) e len by (simp add: sub64_id)
  then show ?thesis unfolding eq using r e by auto
qed

section \<open>Properties\<close>

text \<open>
  The page on the screen lies inside the bytes the log still has. \<open>SIZE_MAX\<close> is the page of a log
  that does not fill the screen: everything from its first byte.
\<close>

definition page_in_log :: "fastboot_log \<Rightarrow> ui_log_info \<Rightarrow> bool" where
  "page_in_log log ui_log \<longleftrightarrow>
     (let top_byte = top_of_screen_byte_anchor (fastboot_log_info ui_log);
          bytes = bytes_on_screen (fastboot_log_info ui_log)
      in fastboot_log_get_oldest_available_byte log \<le> top_byte \<and>
         (top_byte + bytes \<le> fastboot_log_get_total_bytes log \<or>
          top_byte = fastboot_log_get_oldest_available_byte log \<and> bytes = SIZE_MAX))"

definition page_top :: "ui_log_info \<Rightarrow> nat" where
  "page_top ui_log = top_of_screen_byte_anchor (fastboot_log_info ui_log)"

definition page_end :: "ui_log_info \<Rightarrow> nat" where
  "page_end ui_log =
     top_of_screen_byte_anchor (fastboot_log_info ui_log) + bytes_on_screen (fastboot_log_info ui_log)"

lemma set_page_simps [simp]:
  "page_top (set_page t n l) = t" "page_end (set_page t n l) = t + n"
  "page_in_log log (set_page t n l) \<longleftrightarrow> log_oldest log \<le> t \<and>
     (t + n \<le> log_total_len log \<or> t = log_oldest log \<and> n = SIZE_MAX)"
  by (simp_all add: page_in_log_def set_page_def page_top_def page_end_def fastboot_log_get_total_bytes_def Let_def)

lemma total_of_abs:
  "log_abs log h \<Longrightarrow> log_total_len log = length h" "log_abs log h \<Longrightarrow> log_oldest log \<le> length h"
  "log_abs log h \<Longrightarrow> length h < 2 ^ 64"
  by (auto simp: log_abs_def fastboot_log_get_oldest_available_byte_def)

lemma first_page_in_log:
  assumes "log_abs log h" and "0 < lines_per_page l"
  shows "page_in_log log (ui_fb_log_set_first_page l log) \<and>
    page_top (ui_fb_log_set_first_page l log) = log_oldest log"
  using next_page_len_bounds [OF assms, of "log_oldest log" "chars_per_line l"] total_of_abs [OF assms(1)]
  by (simp add: ui_fb_log_set_first_page_def Let_def)

lemma last_page_in_log:
  assumes "log_abs log h" and "0 < lines_per_page l" and "0 < chars_per_line l" "chars_per_line l < 2 ^ 32"
  shows "\<exists>l'. ui_fb_log_set_last_page l log = Some l' \<and> page_in_log log l' \<and> page_end l' = length h"
proof -
  note t = total_of_abs [OF assms(1)]
  obtain n where n: "get_prev_fastboot_log_page_len log (length h) (chars_per_line l) (lines_per_page l) = Some n"
    "n \<noteq> 0 \<longrightarrow> log_oldest log + n \<le> length h"
    using prev_page_len_bounds [OF assms(1,3,4,2) t(3)] by blast
  define m where "m = (if n = 0 then length h - log_oldest log else n)"
  have m: "log_oldest log + m \<le> length h" using n(2) t by (auto simp: m_def)
  have "sub64 (length h) m = length h - m" "sub64 (length h) (log_oldest log) = length h - log_oldest log"
    using m t by (simp_all add: sub64_id)
  then have "ui_fb_log_set_last_page l log = Some (set_page (length h - m) m l)"
    using n t m unfolding ui_fb_log_set_last_page_def fastboot_log_get_total_bytes_def t(1)
    by (auto simp: Let_def m_def)
  then show ?thesis using m t by auto
qed

text \<open>
  C35. Paging through the fastboot log always ends, and always shows bytes that the log still
  has: on a log that has received a stream of bytes, with a text box of at least one line and
  column, each of the four page operations returns a page inside the available bytes. The next
  page starts right after the current one or is the page that ends with the newest byte; the
  previous page ends right before the current one or is the page that starts with the oldest byte.
\<close>

theorem ui_fb_log_pages_stay_in_log:
  assumes "log_abs log h" and "0 < lines_per_page l" and "0 < chars_per_line l" "chars_per_line l < 2 ^ 32"
    and "page_top l < 2 ^ 64"
  shows "page_in_log log (ui_fb_log_set_first_page l log) \<and>
    (\<exists>l'. ui_fb_log_set_last_page l log = Some l' \<and> page_in_log log l' \<and> page_end l' = length h) \<and>
    (\<exists>l'. ui_fb_log_set_next_page l log = Some l' \<and> page_in_log log l' \<and>
       (page_top l' = page_end l mod 2 ^ 64 \<or> page_end l' = length h)) \<and>
    (\<exists>l'. ui_fb_log_set_prev_page l log = Some l' \<and> page_in_log log l' \<and>
       (page_end l' = page_top l \<or> page_top l' = fastboot_log_get_oldest_available_byte log))"
proof (intro conjI)
  note t = total_of_abs [OF assms(1)]
  show "page_in_log log (ui_fb_log_set_first_page l log)" using first_page_in_log [OF assms(1,2)] by simp
  show last: "\<exists>l'. ui_fb_log_set_last_page l log = Some l' \<and> page_in_log log l' \<and> page_end l' = length h"
    by (rule last_page_in_log [OF assms(1-4)])
  show "\<exists>l'. ui_fb_log_set_next_page l log = Some l' \<and> page_in_log log l' \<and>
       (page_top l' = page_end l mod 2 ^ 64 \<or> page_end l' = length h)"
    using last next_page_len_bounds [OF assms(1,2), of "page_end l mod 2 ^ 64" "chars_per_line l"] t
    by (auto simp: ui_fb_log_set_next_page_def Let_def add64_def page_end_def)
  obtain n where n: "get_prev_fastboot_log_page_len log (page_top l) (chars_per_line l) (lines_per_page l) = Some n"
    "n \<noteq> 0 \<longrightarrow> log_oldest log + n \<le> page_top l \<and> page_top l \<le> length h"
    using prev_page_len_bounds [OF assms(1,3,4,2,5)] by blast
  show "\<exists>l'. ui_fb_log_set_prev_page l log = Some l' \<and> page_in_log log l' \<and>
       (page_end l' = page_top l \<or> page_top l' = fastboot_log_get_oldest_available_byte log)"
    using n first_page_in_log [OF assms(1,2)] assms(5) t
    by (auto simp: ui_fb_log_set_prev_page_def Let_def page_top_def [symmetric] sub64_id)
qed

definition ex_fb_log :: fastboot_log where
  "ex_fb_log = log_write \<lparr>log_buf = replicate LSZ CHR 0x00, log_idx = 0, log_total_len = 0\<rparr>
     (''ab'' @ [LF] @ ''cd'')"

definition ex_fb_page :: ui_log_info where
  "ex_fb_page = set_page 3 2 (empty_log\<lparr>lines_per_page := 1, chars_per_line := 10\<rparr>)"

lemma ex_fb_log_abs: "log_abs ex_fb_log (''ab'' @ [LF] @ ''cd'')"
  unfolding ex_fb_log_def
  using log_write_abs [OF log_abs_init, of "replicate LSZ CHR 0x00" "''ab'' @ [LF] @ ''cd''"] by simp

theorem ui_fb_log_pages_stay_in_log_witness:
  "\<exists>l'. ui_fb_log_set_prev_page ex_fb_page ex_fb_log = Some l' \<and> page_in_log ex_fb_log l' \<and>
     (page_end l' = page_top ex_fb_page \<or> page_top l' = fastboot_log_get_oldest_available_byte ex_fb_log)"
  using ui_fb_log_pages_stay_in_log [OF ex_fb_log_abs, of ex_fb_page]
  by (simp add: ex_fb_page_def set_page_def page_top_def)

text \<open>
  The first line of the log is counted one byte short by \<open>get_prev_fastboot_log_line\<close>: when it is
  the first line of the last page, the page starts at byte 1 and the byte 0 is not shown.
\<close>

lemma last_page_misses_first_byte:
  assumes "l = empty_log\<lparr>lines_per_page := 2, chars_per_line := 10\<rparr>"
  shows "\<exists>l'. ui_fb_log_set_last_page l ex_fb_log = Some l' \<and> page_top l' = 1 \<and>
    fastboot_log_get_oldest_available_byte ex_fb_log = 0"
proof -
  define h where "h = ''ab'' @ [LF] @ ''cd''"
  have abs: "log_abs ex_fb_log h" using ex_fb_log_abs by (simp add: h_def)
  have len: "length h = 5" by (simp add: h_def)
  have old: "log_oldest ex_fb_log = 0"
    using total_of_abs(1) [OF abs] len by (simp add: fastboot_log_get_oldest_available_byte_def FASTBOOT_LOG_BUF_SIZE_def)
  have nth: "h ! 0 \<noteq> LF" "h ! 1 \<noteq> LF" "h ! 2 = LF" "h ! 3 \<noteq> LF" "h ! 4 \<noteq> LF" by (simp_all add: h_def)
  note w = iter_pos [OF abs, unfolded old len]
  have l1: "get_prev_fastboot_log_line ex_fb_log 10 (log_pos ex_fb_log 4) = (2, log_pos ex_fb_log 2)"
    using w nth by (simp add: get_prev_fastboot_log_line_def eval_nat_numeral(3) numeral_eq_Suc)
  have l2: "get_prev_fastboot_log_line ex_fb_log 10 (log_pos ex_fb_log 2) = (2, UINT64_MAX)"
    using w nth by (simp add: get_prev_fastboot_log_line_def eval_nat_numeral(3) numeral_eq_Suc)
  have "prev_page_loop ex_fb_log 10 2 (log_pos ex_fb_log 4) 0 = Some (4, UINT64_MAX)"
    by (simp add: numeral_2_eq_2 l1 [unfolded numeral_2_eq_2] l2 [unfolded numeral_2_eq_2])
  then have "get_prev_fastboot_log_page_len ex_fb_log 5 10 2 = Some 4"
    using len old by (simp add: get_prev_fastboot_log_page_len_def sub64_def
        fastboot_log_get_iter_pos [OF abs] split_line_loop.simps)
  then show ?thesis
    using total_of_abs(1) [OF abs] len old assms
    by (simp add: ui_fb_log_set_last_page_def fastboot_log_get_total_bytes_def sub64_def)
qed

end
