(* ===== verification/Ui.thy ===== *)
theory Ui
  imports Ui_Fastboot_Log
begin

text \<open>
  \<open>src/vboot/ui/menu.c\<close>, \<open>navigation.c\<close> and \<open>loop.c\<close>: the menus, the history stack of screens and the
  main loop of the firmware screens.

  \<open>ui->state\<close> and its \<open>prev\<close> chain are the list \<open>ui_states\<close>, the current state first. A screen in a
  state is its identifier, looked up in the table of screens; the callbacks of a screen and of its
  menu items are functions on the context. Calls out of the screens' code (vboot, storage, the
  embedded controller, diagnostics, fastboot, allocation) are events: each is recorded in the
  \<open>ui_trace\<close>, newest first, and answered by the oracle \<open>ui_board\<close>, an arbitrary function of the calls
  so far. Drawing is not modelled; the two flags it resets are.
\<close>

section \<open>Types\<close>

datatype ui_screen =
    UI_SCREEN_FIRMWARE_SYNC | UI_SCREEN_RECOVERY_BROKEN | UI_SCREEN_ADVANCED_OPTIONS
  | UI_SCREEN_LANGUAGE_SELECT | UI_SCREEN_DEBUG_INFO | UI_SCREEN_FIRMWARE_LOG | UI_SCREEN_FASTBOOT
  | UI_SCREEN_RECOVERY_SELECT | UI_SCREEN_RECOVERY_INVALID | UI_SCREEN_RECOVERY_TO_DEV
  | UI_SCREEN_RECOVERY_ROLLBACK_ERROR | UI_SCREEN_DEPRECATED_RECOVERY_PHONE_STEP1
  | UI_SCREEN_DEPRECATED_RECOVERY_PHONE_STEP2 | UI_SCREEN_RECOVERY_DISK_STEP1
  | UI_SCREEN_RECOVERY_DISK_STEP2 | UI_SCREEN_RECOVERY_DISK_STEP3 | UI_SCREEN_DEVELOPER_MODE
  | UI_SCREEN_DEVELOPER_TO_NORM | UI_SCREEN_DEVELOPER_BOOT_EXTERNAL | UI_SCREEN_DEVELOPER_INVALID_DISK
  | UI_SCREEN_DEVELOPER_SELECT_ALTFW | UI_SCREEN_DIAGNOSTICS | UI_SCREEN_DIAGNOSTICS_STORAGE_HEALTH
  | UI_SCREEN_DIAGNOSTICS_STORAGE_TEST_SHORT | UI_SCREEN_DIAGNOSTICS_STORAGE_TEST_EXTENDED
  | UI_SCREEN_DIAGNOSTICS_MEMORY_QUICK | UI_SCREEN_DIAGNOSTICS_MEMORY_FULL

datatype ui_error =
    UI_ERROR_NONE | UI_ERROR_NBR_BOOT_FAILED | UI_ERROR_DEV_MODE_ALREADY_ENABLED
  | UI_ERROR_UNTRUSTED_CONFIRMATION | UI_ERROR_TO_NORM_NOT_ALLOWED | UI_ERROR_DEV_BOOT_NOT_ALLOWED
  | UI_ERROR_INTERNAL_BOOT_FAILED | UI_ERROR_EXTERNAL_BOOT_DISABLED | UI_ERROR_ALTFW_DISABLED
  | UI_ERROR_ALTFW_EMPTY | UI_ERROR_ALTFW_FAILED | UI_ERROR_DEBUG_LOG | UI_ERROR_FIRMWARE_LOG
  | UI_ERROR_DIAGNOSTICS | UI_ERROR_DEV_MODE_OEM_LOCK

datatype ui_test_state = UI_TEST_STATE_NONE | UI_TEST_STATE_RUNNING | UI_TEST_STATE_FINISHED

datatype ui_power_button =
    UI_POWER_BUTTON_HELD_SINCE_BOOT | UI_POWER_BUTTON_RELEASED | UI_POWER_BUTTON_PRESSED

datatype ui_dcache_state =
    UI_DCACHE_STATE_CLEANED | UI_DCACHE_STATE_NEED_CLEAN_AFTER_UI_DISPLAY
  | UI_DCACHE_STATE_SCHEDULE_CLEAN

datatype ui_menu_item_type =
    UI_MENU_ITEM_TYPE_PRIMARY | UI_MENU_ITEM_TYPE_SECONDARY | UI_MENU_ITEM_TYPE_LANGUAGE

datatype diag_type = Diag_storage_health | Diag_storage_short | Diag_storage_extended
  | Diag_memory_quick | Diag_memory_full

datatype diag_result = Diag_aborted | Diag_error | Diag_failed | Diag_passed

datatype diag_test_result = DIAG_TEST_ERROR | DIAG_TEST_FAILED | DIAG_TEST_PASSED
  | DIAG_TEST_UNIMPLEMENTED | DIAG_TEST_RUNNING | DIAG_TEST_UPDATED

datatype blockdev_type = BLOCKDEV_FIXED | BLOCKDEV_REMOVABLE

datatype storage_test_op = BLOCKDEV_TEST_OPS_TYPE_STOP | BLOCKDEV_TEST_OPS_TYPE_SHORT
  | BLOCKDEV_TEST_OPS_TYPE_EXTENDED

text \<open>The calls that leave the screens' code.\<close>

datatype ui_event =
    Ev_malloc | Ev_mtime | Ev_get_locale_id | Ev_locale_count | Ev_get_locale_info nat
  | Ev_set_locale_id nat | Ev_commit_data
  | Ev_load_nbr_kernel bool | Ev_load_kernel blockdev_type | Ev_run_altfw nat
  | Ev_enable_developer_mode | Ev_disable_developer_mode | Ev_request_diagnostics
  | Ev_physical_presence_pressed | Ev_firmware_shell_enabled | Ev_enter_firmware_shell
  | Ev_debug_info | Ev_vpd_gets string | Ev_read_hwid | Ev_tpm_report_state | Ev_read_batt | Ev_ro_fw_id
  | Ev_active_fw_id | Ev_cbmem_console | Ev_diagnostic_ui_enabled | Ev_altfw_seqnums
  | Ev_get_all_bdevs blockdev_type | Ev_alloc_gpt nat | Ev_bcb_bootloader_boot nat | Ev_free_gpt nat
  | Ev_fastboot_init | Ev_fastboot_finished nat | Ev_fastboot_release nat | Ev_fastboot_poll nat
  | Ev_storage_test_supported | Ev_storage_test_control storage_test_op
  | Ev_storage_test_log | Ev_storage_health | Ev_memory_test_init bool | Ev_memory_test_run
  | Ev_report_start diag_type | Ev_report_end diag_result | Ev_report_elog | Ev_dcache_clean | Ev_beep

record ui_locale =
  loc_id :: nat
  loc_rtl :: bool

datatype default_boot_target = Boot_internal | Boot_external | Boot_altfw

datatype vb2_boot_mode =
    VB2_BOOT_MODE_UNDEFINED | VB2_BOOT_MODE_MANUAL_RECOVERY | VB2_BOOT_MODE_BROKEN_SCREEN
  | VB2_BOOT_MODE_DIAGNOSTICS | VB2_BOOT_MODE_DEVELOPER | VB2_BOOT_MODE_NORMAL

record vb2_context =
  developer_mode :: bool
  boot_mode :: vb2_boot_mode
  recovery_mode :: bool
  fastboot_allowed :: bool
  dev_boot_allowed :: bool
  dev_boot_external_allowed :: bool
  dev_boot_altfw_allowed :: bool
  oem_lock_enabled :: bool
  default_boot :: default_boot_target
  gbb_disable_lid_shutdown :: bool
  gbb_dev_screen_short_delay :: bool
  gbb_force_dev_switch_on :: bool

abbreviation manual_recovery :: "vb2_context \<Rightarrow> bool" where
  "manual_recovery ctx \<equiv> boot_mode ctx = VB2_BOOT_MODE_MANUAL_RECOVERY"

record ui_state =
  st_locale :: ui_locale
  timer_disabled :: bool
  error_code :: ui_error
  st_screen :: ui_screen
  focused_item :: nat
  disabled_item_mask :: u32
  hidden_item_mask :: u32
  st_log :: ui_log_info
  current_page :: nat
  test_state :: ui_test_state
  fb_session :: "nat option"

record ui_context =
  ui_ctx :: vb2_context
  ui_states :: "ui_state list"
  ui_key :: nat
  key_trusted :: bool
  power_button :: ui_power_button
  start_time_ms :: nat
  beep_count :: nat
  physical_presence_button_pressed :: bool
  language_menu :: nat
  bootloader_menu :: nat
  debug_info_str :: "u8 list option"
  firmware_log_str :: "u8 list option"
  storage_health_str :: "u8 list option"
  storage_test_log_str :: "u8 list option"
  recovery_rv :: vb2_rv
  error_beep :: bool
  force_display :: bool
  dcache_state :: ui_dcache_state
  ui_trace :: "ui_event list"

type_synonym ui_callback = "ui_context \<Rightarrow> vb2_rv \<times> ui_context"

record ui_menu_item =
  mi_type :: ui_menu_item_type
  mi_target :: "ui_screen option"
  mi_action :: "ui_callback option"

record ui_screen_info =
  si_id :: ui_screen
  si_menu :: "ui_menu_item list"
  si_init :: "ui_callback option"
  si_reinit :: "ui_callback option"
  si_exit :: "ui_callback option"
  si_action :: "ui_callback option"
  si_get_menu :: "(ui_context \<Rightarrow> ui_menu_item list option \<times> ui_context) option"
  page_up_item :: nat
  page_down_item :: nat
  back_item :: nat

text \<open>The build configuration and the answers of the calls, given the calls before.\<close>

record ui_board =
  cfg_detachable :: bool
  cfg_physical_presence_keyboard :: bool
  cfg_mock_tpm :: bool
  cfg_driver_tpm :: bool
  cfg_driver_ec_cros :: bool
  ans_rv :: "ui_event list \<Rightarrow> ui_event \<Rightarrow> vb2_rv"
  ans_bool :: "ui_event list \<Rightarrow> ui_event \<Rightarrow> bool"
  ans_nat :: "ui_event list \<Rightarrow> ui_event \<Rightarrow> nat"
  ans_str :: "ui_event list \<Rightarrow> ui_event \<Rightarrow> u8 list option"
  ans_nats :: "ui_event list \<Rightarrow> ui_event \<Rightarrow> nat list option"
  ans_locale :: "ui_event list \<Rightarrow> ui_event \<Rightarrow> ui_locale"
  ans_diag :: "ui_event list \<Rightarrow> ui_event \<Rightarrow> diag_test_result"
  ans_fb_log :: "ui_event list \<Rightarrow> nat \<Rightarrow> fastboot_log"
  log_dimensions :: "ui_screen \<Rightarrow> ui_locale \<Rightarrow> vb2_rv \<times> nat \<times> nat"

definition ext :: "ui_event \<Rightarrow> ui_context \<Rightarrow> ui_context" where
  "ext e ui = ui\<lparr>ui_trace := e # ui_trace ui\<rparr>"

definition ext_rv :: "ui_board \<Rightarrow> ui_event \<Rightarrow> ui_callback" where
  "ext_rv b e ui = (ans_rv b (ui_trace ui) e, ext e ui)"

definition ext_bool :: "ui_board \<Rightarrow> ui_event \<Rightarrow> ui_context \<Rightarrow> bool \<times> ui_context" where
  "ext_bool b e ui = (ans_bool b (ui_trace ui) e, ext e ui)"

definition ext_nat :: "ui_board \<Rightarrow> ui_event \<Rightarrow> ui_context \<Rightarrow> nat \<times> ui_context" where
  "ext_nat b e ui = (ans_nat b (ui_trace ui) e, ext e ui)"

definition ext_str :: "ui_board \<Rightarrow> ui_event \<Rightarrow> ui_context \<Rightarrow> u8 list option \<times> ui_context" where
  "ext_str b e ui = (ans_str b (ui_trace ui) e, ext e ui)"

text \<open>\<open>VB2_TRY\<close>: go on only on success.\<close>

definition vb2_try :: "vb2_rv \<times> ui_context \<Rightarrow> ui_callback \<Rightarrow> vb2_rv \<times> ui_context" where
  "vb2_try r k = (case r of (rv, ui) \<Rightarrow> if rv \<noteq> VB2_SUCCESS then (rv, ui) else k ui)"

definition run_opt :: "ui_callback option \<Rightarrow> ui_callback" where
  "run_opt c ui = (case c of Some f \<Rightarrow> f ui | None \<Rightarrow> (VB2_SUCCESS, ui))"

text \<open>The current state; the functions below are called with one.\<close>

definition cur :: "ui_context \<Rightarrow> ui_state" where
  "cur ui = hd (ui_states ui)"

definition set_cur :: "(ui_state \<Rightarrow> ui_state) \<Rightarrow> ui_context \<Rightarrow> ui_context" where
  "set_cur f ui = ui\<lparr>ui_states := (case ui_states ui of [] \<Rightarrow> [] | s # r \<Rightarrow> f s # r)\<rparr>"

section \<open>Model: menus\<close>

definition ui_get_screen_info :: "ui_screen_info list \<Rightarrow> ui_screen \<Rightarrow> ui_screen_info option" where
  "ui_get_screen_info screens screen_id = find (\<lambda>s. si_id s = screen_id) screens"

definition screen_of :: "ui_screen_info list \<Rightarrow> ui_context \<Rightarrow> ui_screen_info" where
  "screen_of screens ui = the (ui_get_screen_info screens (st_screen (cur ui)))"

definition ui_get_menu :: "ui_screen_info list \<Rightarrow> ui_context \<Rightarrow> ui_menu_item list \<times> ui_context" where
  "ui_get_menu screens ui =
     (case si_get_menu (screen_of screens ui) of
        Some g \<Rightarrow> (case g ui of (menu, ui') \<Rightarrow> (case menu of Some m \<Rightarrow> m | None \<Rightarrow> [], ui'))
      | None \<Rightarrow> (si_menu (screen_of screens ui), ui))"

text \<open>The loops of \<open>ui_menu_prev\<close> (from the item below \<open>n\<close> down) and \<open>ui_menu_next\<close>.\<close>

fun prev_visible :: "u32 \<Rightarrow> nat \<Rightarrow> nat option" where
  "prev_visible hidden 0 = None"
| "prev_visible hidden (Suc item) = (if bit hidden item then prev_visible hidden item else Some item)"

function next_visible :: "u32 \<Rightarrow> nat \<Rightarrow> nat \<Rightarrow> nat option" where
  "next_visible hidden num_items item =
     (if item < num_items
      then if bit hidden item then next_visible hidden num_items (item + 1) else Some item
      else None)"
  by pat_completeness auto
termination by (relation "measure (\<lambda>(hidden, n, item). n - item)") auto

declare next_visible.simps [simp del]

definition ui_menu_prev :: ui_callback where
  "ui_menu_prev ui =
     (VB2_SUCCESS,
      case prev_visible (hidden_item_mask (cur ui)) (focused_item (cur ui)) of
        Some item \<Rightarrow> set_cur (\<lambda>s. s\<lparr>focused_item := item\<rparr>) ui
      | None \<Rightarrow> ui)"

definition ui_menu_next :: "ui_screen_info list \<Rightarrow> ui_callback" where
  "ui_menu_next screens ui =
     (case ui_get_menu screens ui of (menu, ui) \<Rightarrow>
       (VB2_SUCCESS,
        case next_visible (hidden_item_mask (cur ui)) (length menu) (focused_item (cur ui) + 1) of
          Some item \<Rightarrow> set_cur (\<lambda>s. s\<lparr>focused_item := item\<rparr>) ui
        | None \<Rightarrow> ui))"

section \<open>Model: navigation\<close>

definition ui_screen_init :: "ui_screen_info list \<Rightarrow> ui_callback" where
  "ui_screen_init screens ui =
     (case si_init (screen_of screens ui) of
        Some f \<Rightarrow> f ui
      | None \<Rightarrow>
          (case ui_get_menu screens ui of (menu, ui) \<Rightarrow>
            (VB2_SUCCESS,
             set_cur (\<lambda>s. s\<lparr>focused_item :=
               (if length menu > 1 \<and> mi_type (hd menu) = UI_MENU_ITEM_TYPE_LANGUAGE then 1 else 0)\<rparr>) ui)))"

definition preserve_state :: "ui_state \<Rightarrow> ui_state \<Rightarrow> ui_state" where
  "preserve_state new_state old_state =
     new_state\<lparr>st_locale := st_locale old_state, timer_disabled := timer_disabled old_state,
               error_code := error_code old_state\<rparr>"

text \<open>A zeroed state; its locale is set by \<open>preserve_state\<close> or by \<open>ui_init_context\<close>.\<close>

definition new_state :: "ui_screen \<Rightarrow> ui_state" where
  "new_state screen =
     \<lparr>st_locale = \<lparr>loc_id = 0, loc_rtl = False\<rparr>, timer_disabled = False, error_code = UI_ERROR_NONE,
      st_screen = screen, focused_item = 0, disabled_item_mask = 0, hidden_item_mask = 0,
      st_log = empty_log, current_page = 0, test_state = UI_TEST_STATE_NONE, fb_session = None\<rparr>"

definition push_state :: "ui_state \<Rightarrow> ui_context \<Rightarrow> ui_context" where
  "push_state state ui =
     ui\<lparr>ui_states := (case ui_states ui of
                        [] \<Rightarrow> state | s # r \<Rightarrow> preserve_state state s) # ui_states ui\<rparr>"

text \<open>Called with a previous state.\<close>

fun pop_states :: "ui_state list \<Rightarrow> ui_state list" where
  "pop_states (s # p # r) = preserve_state p s # r"
| "pop_states ss = ss"

definition pop_state :: "ui_context \<Rightarrow> ui_context" where
  "pop_state ui = ui\<lparr>ui_states := pop_states (ui_states ui)\<rparr>"

fun pop_until :: "ui_screen \<Rightarrow> ui_state list \<Rightarrow> ui_state list" where
  "pop_until sid (s # p # r) =
     (if st_screen s \<noteq> sid then pop_until sid (preserve_state p s # r) else s # p # r)"
| "pop_until sid ss = ss"

definition ui_screen_change :: "ui_board \<Rightarrow> ui_screen_info list \<Rightarrow> ui_screen \<Rightarrow> ui_callback" where
  "ui_screen_change b screens sid ui =
     (if ui_states ui \<noteq> [] \<and> st_screen (cur ui) = sid then (VB2_REQUEST_UI_CONTINUE, ui)
      else if ui_get_screen_info screens sid = None then (VB2_REQUEST_UI_CONTINUE, ui)
      else if sid \<in> st_screen ` set (ui_states ui)
      then let ui = ui\<lparr>ui_states := pop_until sid (ui_states ui)\<rparr>
           in vb2_try (run_opt (si_reinit (screen_of screens ui)) ui)
                (\<lambda>ui. (VB2_REQUEST_UI_CONTINUE, ui))
      else case ext_bool b Ev_malloc ui of (ok, ui) \<Rightarrow>
             if \<not> ok then (VB2_REQUEST_UI_CONTINUE, ui)
             else vb2_try (ui_screen_init screens (push_state (new_state sid) ui))
                    (\<lambda>ui. (VB2_REQUEST_UI_CONTINUE, ui)))"

definition ui_screen_back :: "ui_screen_info list \<Rightarrow> ui_callback" where
  "ui_screen_back screens ui =
     (if length (ui_states ui) > 1
      then vb2_try (run_opt (si_exit (screen_of screens ui)) ui) (\<lambda>ui.
             let ui = pop_state ui
             in vb2_try (run_opt (si_reinit (screen_of screens ui)) ui)
                  (\<lambda>ui. (VB2_REQUEST_UI_CONTINUE, ui)))
      else (VB2_REQUEST_UI_CONTINUE, ui))"

definition ui_menu_select :: "ui_board \<Rightarrow> ui_screen_info list \<Rightarrow> ui_callback" where
  "ui_menu_select b screens ui =
     (case ui_get_menu screens ui of (menu, ui) \<Rightarrow>
        if menu = [] then (VB2_SUCCESS, ui)
        else let menu_item = menu ! focused_item (cur ui)
             in if bit (disabled_item_mask (cur ui)) (focused_item (cur ui)) then (VB2_SUCCESS, ui)
                else case mi_action menu_item of
                       Some action \<Rightarrow> action ui
                     | None \<Rightarrow>
                         (case mi_target menu_item of
                            Some target \<Rightarrow> ui_screen_change b screens target ui
                          | None \<Rightarrow> (VB2_SUCCESS, ui)))"

text \<open>No result means that the loop does not end (the exit callbacks could grow the stack).\<close>

partial_function (option) cleanup_loop ::
  "ui_screen_info list \<Rightarrow> ui_context \<Rightarrow> (vb2_rv \<times> ui_context) option" where
  "cleanup_loop screens ui =
     (if length (ui_states ui) > 1
      then case run_opt (si_exit (screen_of screens ui)) ui of (rv, ui') \<Rightarrow>
             if rv \<noteq> VB2_SUCCESS then Some (rv, ui') else cleanup_loop screens (pop_state ui')
      else Some (VB2_SUCCESS, ui))"

definition ui_screen_cleanup ::
  "ui_screen_info list \<Rightarrow> ui_context \<Rightarrow> (vb2_rv \<times> ui_context) option" where
  "ui_screen_cleanup screens ui =
     (case cleanup_loop screens ui of
        None \<Rightarrow> None
      | Some (rv, ui) \<Rightarrow>
          if rv \<noteq> VB2_SUCCESS then Some (rv, ui)
          else if ui_states ui \<noteq> [] then Some (run_opt (si_exit (screen_of screens ui)) ui)
          else Some (VB2_SUCCESS, ui))"

section \<open>Model: the loop\<close>

abbreviation (input) "UI_KEY_ENTER \<equiv> (0x0d :: nat)"
abbreviation (input) "UI_KEY_ESC \<equiv> (0x1b :: nat)"
abbreviation (input) "UI_KEY_UP \<equiv> (0x100 :: nat)"
abbreviation (input) "UI_KEY_DOWN \<equiv> (0x101 :: nat)"
abbreviation (input) "UI_KEY_LEFT \<equiv> (0x102 :: nat)"
abbreviation (input) "UI_KEY_RIGHT \<equiv> (0x103 :: nat)"
abbreviation (input) "UI_BUTTON_VOL_UP_SHORT_PRESS \<equiv> (0x62 :: nat)"
abbreviation (input) "UI_BUTTON_VOL_DOWN_SHORT_PRESS \<equiv> (0x63 :: nat)"
abbreviation (input) "UI_BUTTON_POWER_SHORT_PRESS \<equiv> (0x90 :: nat)"

definition ui_error_exit_action :: ui_callback where
  "ui_error_exit_action ui =
     (VB2_SUCCESS,
      if ui_key ui \<noteq> 0 \<and> error_code (cur ui) \<noteq> UI_ERROR_NONE
      then (set_cur (\<lambda>s. s\<lparr>error_code := UI_ERROR_NONE\<rparr>) ui)\<lparr>ui_key := 0\<rparr>
      else ui)"

text \<open>The detachable's buttons as keys; the same mapping is used by the log screens.\<close>

definition map_buttons :: "ui_board \<Rightarrow> nat \<Rightarrow> nat" where
  "map_buttons b key =
     (if cfg_detachable b
      then if key = UI_BUTTON_VOL_UP_SHORT_PRESS then UI_KEY_UP
           else if key = UI_BUTTON_VOL_DOWN_SHORT_PRESS then UI_KEY_DOWN
           else if key = UI_BUTTON_POWER_SHORT_PRESS then UI_KEY_ENTER else key
      else key)"

definition ui_menu_navigation_action :: "ui_board \<Rightarrow> ui_screen_info list \<Rightarrow> ui_callback" where
  "ui_menu_navigation_action b screens ui =
     (let key = map_buttons b (ui_key ui)
      in if key = UI_KEY_UP then ui_menu_prev (ui\<lparr>ui_key := 0\<rparr>)
         else if key = UI_KEY_DOWN then ui_menu_next screens (ui\<lparr>ui_key := 0\<rparr>)
         else if key = UI_KEY_ENTER then ui_menu_select b screens (ui\<lparr>ui_key := 0\<rparr>)
         else if key = UI_KEY_ESC then ui_screen_back screens (ui\<lparr>ui_key := 0\<rparr>)
         else (VB2_SUCCESS, ui))"

text \<open>What one turn of the loop reads from the hardware.\<close>

record ui_input =
  in_key :: nat
  in_key_trusted :: bool
  in_lid_open :: bool
  in_external_display :: bool
  in_power_pressed :: bool

definition check_shutdown_request :: "ui_board \<Rightarrow> ui_input \<Rightarrow> ui_callback" where
  "check_shutdown_request b inp ui =
     (if \<not> gbb_disable_lid_shutdown (ui_ctx ui) \<and> \<not> in_lid_open inp \<and> \<not> in_external_display inp
      then (VB2_REQUEST_SHUTDOWN, ui)
      else if cfg_detachable b then (VB2_SUCCESS, ui)
      else let (shutdown_power, ui) =
                 (if in_power_pressed inp
                  then (False, if power_button ui = UI_POWER_BUTTON_RELEASED
                               then ui\<lparr>power_button := UI_POWER_BUTTON_PRESSED\<rparr> else ui)
                  else (power_button ui = UI_POWER_BUTTON_PRESSED,
                        ui\<lparr>power_button := UI_POWER_BUTTON_RELEASED\<rparr>))
           in (if shutdown_power \<or> ui_key ui = UI_BUTTON_POWER_SHORT_PRESS
               then VB2_REQUEST_SHUTDOWN else VB2_SUCCESS, ui))"

text \<open>
  One turn of \<open>ui_loop_impl\<close>: the value the loop returns, if it does, and the context. Each step
  runs only when the one before did not end the loop.
\<close>

definition loop_step :: "vb2_rv option \<times> ui_context \<Rightarrow> ui_callback \<Rightarrow> vb2_rv option \<times> ui_context" where
  "loop_step r f =
     (case r of
        (Some rv, ui) \<Rightarrow> (Some rv, ui)
      | (None, ui) \<Rightarrow>
          (case f ui of (rv, ui') \<Rightarrow>
             (if rv \<noteq> VB2_SUCCESS \<and> rv \<noteq> VB2_REQUEST_UI_CONTINUE then Some rv else None, ui')))"

definition ui_loop_turn ::
  "ui_board \<Rightarrow> ui_screen_info list \<Rightarrow> ui_callback option \<Rightarrow> ui_input \<Rightarrow> ui_context \<Rightarrow>
   vb2_rv option \<times> ui_context" where
  "ui_loop_turn b screens global_action inp ui =
     (let ui = ui\<lparr>error_beep := False, force_display := False\<rparr>;
          ui = ui\<lparr>ui_key := in_key inp, key_trusted := in_key_trusted inp\<rparr>;
          r = loop_step (None, ui) (check_shutdown_request b inp);
          r = loop_step r ui_error_exit_action;
          r = loop_step r (\<lambda>ui. run_opt (si_action (screen_of screens ui)) ui);
          r = loop_step r (ui_menu_navigation_action b screens)
      in loop_step r (run_opt global_action))"

fun ui_loop_impl ::
  "ui_board \<Rightarrow> ui_screen_info list \<Rightarrow> ui_callback option \<Rightarrow> ui_input list \<Rightarrow> ui_context \<Rightarrow>
   vb2_rv option \<times> ui_context" where
  "ui_loop_impl b screens global_action [] ui = (None, ui)"
| "ui_loop_impl b screens global_action (inp # inps) ui =
     (case ui_loop_turn b screens global_action inp ui of
        (Some rv, ui') \<Rightarrow> (Some rv, ui')
      | (None, ui') \<Rightarrow> ui_loop_impl b screens global_action inps ui')"

definition en_locale :: ui_locale where
  "en_locale = \<lparr>loc_id = 0, loc_rtl = False\<rparr>"

definition get_locale_info :: "ui_board \<Rightarrow> nat \<Rightarrow> ui_context \<Rightarrow> vb2_rv \<times> ui_locale \<times> ui_context" where
  "get_locale_info b i ui =
     (ans_rv b (ui_trace ui) (Ev_get_locale_info i), ans_locale b (ui_trace ui) (Ev_get_locale_info i),
      ext (Ev_get_locale_info i) ui)"

text \<open>The context is zeroed before it is filled in; \<open>ui0\<close> carries the calls made so far.\<close>

definition zero_context :: "vb2_context \<Rightarrow> ui_state \<Rightarrow> ui_event list \<Rightarrow> ui_context" where
  "zero_context ctx state tr =
     \<lparr>ui_ctx = ctx, ui_states = [state], ui_key = 0, key_trusted = False,
      power_button = UI_POWER_BUTTON_HELD_SINCE_BOOT, start_time_ms = 0, beep_count = 0,
      physical_presence_button_pressed = False, language_menu = 0, bootloader_menu = 0,
      debug_info_str = None, firmware_log_str = None, storage_health_str = None,
      storage_test_log_str = None, recovery_rv = VB2_SUCCESS, error_beep = False, force_display = False,
      dcache_state = UI_DCACHE_STATE_CLEANED, ui_trace = tr\<rparr>"

definition ui_init_context ::
  "ui_board \<Rightarrow> ui_screen_info list \<Rightarrow> vb2_context \<Rightarrow> ui_screen \<Rightarrow> ui_context \<Rightarrow> vb2_rv \<times> ui_context" where
  "ui_init_context b screens ctx screen_id ui =
     (if ui_get_screen_info screens screen_id = None then (VB2_ERROR_UI_INVALID_SCREEN, ui)
      else case ext_nat b Ev_get_locale_id ui of (locale_id, ui) \<Rightarrow>
        case get_locale_info b locale_id ui of (rv, locale, ui) \<Rightarrow>
        case (if rv = VB2_ERROR_UI_INVALID_LOCALE \<and> locale_id \<noteq> 0
              then get_locale_info b 0 ui else (rv, locale, ui)) of (rv, locale, ui) \<Rightarrow>
          ui_screen_init screens
            (zero_context ctx
              ((new_state screen_id)\<lparr>st_locale := (if rv \<noteq> VB2_SUCCESS then en_locale else locale)\<rparr>)
              (ui_trace ui)))"

text \<open>\<open>None\<close> is \<open>die\<close>, or a cleanup that does not end; \<open>(None, ui)\<close> is a loop still running.\<close>

definition ui_loop ::
  "ui_board \<Rightarrow> ui_screen_info list \<Rightarrow> vb2_context \<Rightarrow> ui_screen \<Rightarrow> ui_callback option \<Rightarrow> ui_input list \<Rightarrow>
   ui_context \<Rightarrow> (vb2_rv option \<times> ui_context) option" where
  "ui_loop b screens ctx root_screen_id global_action inps ui =
     (case ui_init_context b screens ctx root_screen_id ui of (rv, ui) \<Rightarrow>
        if rv \<noteq> VB2_SUCCESS then None
        else case ui_loop_impl b screens global_action inps ui of
          (None, ui) \<Rightarrow> Some (None, ui)
        | (Some rv, ui) \<Rightarrow>
            (case ui_screen_cleanup screens ui of
               None \<Rightarrow> None
             | Some (_, ui) \<Rightarrow>
                 Some (Some (if rv = VB2_REQUEST_UI_EXIT then VB2_SUCCESS else rv), ui)))"

section \<open>The invariant of the screens\<close>

text \<open>The screens of the table in \<open>screens.c\<close> and the sizes of their static menus.\<close>

definition ui_screen_ids :: "ui_screen list" where
  "ui_screen_ids =
     [UI_SCREEN_FIRMWARE_SYNC, UI_SCREEN_LANGUAGE_SELECT, UI_SCREEN_RECOVERY_BROKEN,
      UI_SCREEN_ADVANCED_OPTIONS, UI_SCREEN_DEBUG_INFO, UI_SCREEN_FIRMWARE_LOG, UI_SCREEN_FASTBOOT,
      UI_SCREEN_RECOVERY_TO_DEV, UI_SCREEN_RECOVERY_SELECT, UI_SCREEN_RECOVERY_DISK_STEP1,
      UI_SCREEN_RECOVERY_DISK_STEP2, UI_SCREEN_RECOVERY_INVALID, UI_SCREEN_RECOVERY_ROLLBACK_ERROR,
      UI_SCREEN_DEVELOPER_MODE, UI_SCREEN_DEVELOPER_TO_NORM, UI_SCREEN_DEVELOPER_BOOT_EXTERNAL,
      UI_SCREEN_DEVELOPER_INVALID_DISK, UI_SCREEN_DEVELOPER_SELECT_ALTFW, UI_SCREEN_DIAGNOSTICS,
      UI_SCREEN_DIAGNOSTICS_STORAGE_HEALTH, UI_SCREEN_DIAGNOSTICS_STORAGE_TEST_SHORT,
      UI_SCREEN_DIAGNOSTICS_STORAGE_TEST_EXTENDED, UI_SCREEN_DIAGNOSTICS_MEMORY_QUICK,
      UI_SCREEN_DIAGNOSTICS_MEMORY_FULL]"

fun static_menu_size :: "ui_screen \<Rightarrow> nat" where
  "static_menu_size UI_SCREEN_RECOVERY_BROKEN = 3"
| "static_menu_size UI_SCREEN_ADVANCED_OPTIONS = 9"
| "static_menu_size UI_SCREEN_RECOVERY_TO_DEV = 4"
| "static_menu_size UI_SCREEN_RECOVERY_SELECT = 6"
| "static_menu_size UI_SCREEN_RECOVERY_DISK_STEP1 = 4"
| "static_menu_size UI_SCREEN_RECOVERY_DISK_STEP2 = 3"
| "static_menu_size UI_SCREEN_RECOVERY_INVALID = 2"
| "static_menu_size UI_SCREEN_RECOVERY_ROLLBACK_ERROR = 2"
| "static_menu_size UI_SCREEN_DEVELOPER_MODE = 7"
| "static_menu_size UI_SCREEN_DEVELOPER_TO_NORM = 4"
| "static_menu_size UI_SCREEN_DEVELOPER_BOOT_EXTERNAL = 3"
| "static_menu_size UI_SCREEN_DEVELOPER_INVALID_DISK = 3"
| "static_menu_size UI_SCREEN_DIAGNOSTICS = 7"
| "static_menu_size UI_SCREEN_DIAGNOSTICS_STORAGE_TEST_SHORT = 4"
| "static_menu_size UI_SCREEN_DIAGNOSTICS_STORAGE_TEST_EXTENDED = 4"
| "static_menu_size UI_SCREEN_DIAGNOSTICS_MEMORY_QUICK = 4"
| "static_menu_size UI_SCREEN_DIAGNOSTICS_MEMORY_FULL = 4"
| "static_menu_size _ = 0"

text \<open>
  The items a screen has; the two generated menus are kept once they are built, and the first
  item is the focus until then.
\<close>

definition menu_size :: "nat \<Rightarrow> nat \<Rightarrow> ui_screen \<Rightarrow> nat" where
  "menu_size lang boot sid =
     (if sid = UI_SCREEN_LANGUAGE_SELECT then max 1 lang
      else if sid = UI_SCREEN_DEVELOPER_SELECT_ALTFW then max 1 boot
      else static_menu_size sid)"

definition focus_ok :: "nat \<Rightarrow> nat \<Rightarrow> ui_state \<Rightarrow> bool" where
  "focus_ok lang boot s \<longleftrightarrow>
     menu_size lang boot (st_screen s) = 0 \<or> focused_item s < menu_size lang boot (st_screen s)"

text \<open>The presence button was read as pressed at some time.\<close>

definition presence_seen :: "ui_board \<Rightarrow> ui_event list \<Rightarrow> bool" where
  "presence_seen b tr \<longleftrightarrow>
     (\<exists>newer older. tr = newer @ Ev_physical_presence_pressed # older \<and>
        ans_bool b older Ev_physical_presence_pressed)"

definition ui_inv :: "ui_board \<Rightarrow> ui_context \<Rightarrow> bool" where
  "ui_inv b ui \<longleftrightarrow> ui_states ui \<noteq> [] \<and> distinct (map st_screen (ui_states ui)) \<and>
     st_screen ` set (ui_states ui) \<subseteq> set ui_screen_ids \<and>
     list_all (focus_ok (language_menu ui) (bootloader_menu ui)) (ui_states ui) \<and>
     (bootloader_menu ui = 0 \<or> 3 < bootloader_menu ui) \<and>
     (physical_presence_button_pressed ui \<longrightarrow> presence_seen b (ui_trace ui))"

text \<open>No call to enable developer mode between two contexts.\<close>

definition quiet :: "ui_context \<Rightarrow> ui_context \<Rightarrow> bool" where
  "quiet ui ui' \<longleftrightarrow>
     (\<exists>es. ui_trace ui' = es @ ui_trace ui \<and> Ev_enable_developer_mode \<notin> set es)"

text \<open>
  \<open>ok_from b a ui\<close>: from \<open>a\<close> the code got to \<open>ui\<close> keeping the invariant and quietly. \<open>ok_at b P f\<close>: the
  callback \<open>f\<close> does so on the screens in \<open>P\<close>.
\<close>

definition ok_from :: "ui_board \<Rightarrow> ui_context \<Rightarrow> ui_context \<Rightarrow> bool" where
  "ok_from b a ui \<longleftrightarrow> ui_inv b ui \<and> quiet a ui"

definition ok_at :: "ui_board \<Rightarrow> ui_screen set \<Rightarrow> ui_callback \<Rightarrow> bool" where
  "ok_at b P f \<longleftrightarrow> (\<forall>ui. ui_inv b ui \<and> st_screen (cur ui) \<in> P \<longrightarrow> ok_from b ui (snd (f ui)))"

named_theorems ui_ok \<open>introduction rules for \<open>ok_from\<close>\<close>

lemma quiet_refl [simp]: "quiet ui ui"
  by (simp add: quiet_def)

lemma quiet_trans: "quiet a u \<Longrightarrow> quiet u v \<Longrightarrow> quiet a v"
  by (auto simp: quiet_def)

lemma quiet_trace_eq: "ui_trace u = ui_trace v \<Longrightarrow> quiet a v \<Longrightarrow> quiet a u"
  by (simp add: quiet_def)

lemma quiet_ext: "quiet a ui \<Longrightarrow> e \<noteq> Ev_enable_developer_mode \<Longrightarrow> quiet a (ext e ui)"
  by (auto simp: quiet_def ext_def)

lemma presence_seen_Cons: "presence_seen b tr \<Longrightarrow> presence_seen b (e # tr)"
  by (auto simp: presence_seen_def) (metis append_Cons)

lemma ok_inv: "ok_from b a ui \<Longrightarrow> ui_inv b ui"
  by (simp add: ok_from_def)

lemma ok_refl [ui_ok]: "ui_inv b ui \<Longrightarrow> ok_from b ui ui"
  by (simp add: ok_from_def)

lemma ok_pair [ui_ok]: "ok_from b a ui \<Longrightarrow> ok_from b a (snd (rv, ui))"
  by simp

lemma ok_if [ui_ok]:
  "(c \<Longrightarrow> ok_from b a (snd x)) \<Longrightarrow> (\<not> c \<Longrightarrow> ok_from b a (snd y)) \<Longrightarrow> ok_from b a (snd (if c then x else y))"
  by simp

lemma ok_run:
  "ok_from b a ui \<Longrightarrow> ok_at b P f \<Longrightarrow> st_screen (cur ui) \<in> P \<Longrightarrow> ok_from b a (snd (f ui))"
  by (auto simp: ok_from_def ok_at_def intro: quiet_trans)

lemma ok_try:
  assumes "ok_from b a (snd r)" and "\<And>ui. ok_from b a ui \<Longrightarrow> ok_from b a (snd (k ui))"
  shows "ok_from b a (snd (vb2_try r k))"
  using assms by (cases r) (simp add: vb2_try_def)

lemma ok_ext [ui_ok]: "ok_from b a ui \<Longrightarrow> e \<noteq> Ev_enable_developer_mode \<Longrightarrow> ok_from b a (ext e ui)"
  by (auto simp: ok_from_def ui_inv_def ext_def quiet_ext presence_seen_Cons
      intro: quiet_ext [unfolded ext_def])

lemma cur_ext [simp]: "cur (ext e ui) = cur ui" and states_ext [simp]: "ui_states (ext e ui) = ui_states ui"
  by (simp_all add: cur_def ext_def)

lemma ext_fields [simp]:
  "ui_ctx (ext e ui) = ui_ctx ui" "ui_key (ext e ui) = ui_key ui" "key_trusted (ext e ui) = key_trusted ui"
  "physical_presence_button_pressed (ext e ui) = physical_presence_button_pressed ui"
  "language_menu (ext e ui) = language_menu ui" "bootloader_menu (ext e ui) = bootloader_menu ui"
  "ui_trace (ext e ui) = e # ui_trace ui"
  by (simp_all add: ext_def)

lemma cur_set_cur: "ui_states ui \<noteq> [] \<Longrightarrow> cur (set_cur f ui) = f (cur ui)"
  by (cases "ui_states ui") (simp_all add: cur_def set_cur_def)

lemma set_cur_fields [simp]:
  "ui_ctx (set_cur f ui) = ui_ctx ui" "ui_key (set_cur f ui) = ui_key ui"
  "key_trusted (set_cur f ui) = key_trusted ui" "language_menu (set_cur f ui) = language_menu ui"
  "bootloader_menu (set_cur f ui) = bootloader_menu ui"
  "ui_trace (set_cur f ui) = ui_trace ui"
  by (simp_all add: set_cur_def)

lemma ui_inv_cong:
  assumes "ui_states u = ui_states v" "language_menu u = language_menu v" "bootloader_menu u = bootloader_menu v"
    "physical_presence_button_pressed u = physical_presence_button_pressed v" "ui_trace u = ui_trace v"
  shows "ui_inv b u \<longleftrightarrow> ui_inv b v"
  using assms by (simp add: ui_inv_def)

lemma ok_fields [ui_ok]:
  assumes "ok_from b a ui"
  shows "ok_from b a (ui\<lparr>ui_key := k\<rparr>)" "ok_from b a (ui\<lparr>key_trusted := t\<rparr>)"
    "ok_from b a (ui\<lparr>power_button := p\<rparr>)" "ok_from b a (ui\<lparr>start_time_ms := n\<rparr>)"
    "ok_from b a (ui\<lparr>beep_count := n\<rparr>)" "ok_from b a (ui\<lparr>debug_info_str := d\<rparr>)"
    "ok_from b a (ui\<lparr>firmware_log_str := d\<rparr>)" "ok_from b a (ui\<lparr>error_beep := e\<rparr>)"
    "ok_from b a (ui\<lparr>force_display := e\<rparr>)" "ok_from b a (ui\<lparr>dcache_state := c\<rparr>)"
    "ok_from b a (ui\<lparr>physical_presence_button_pressed := False\<rparr>)"
    "ok_from b a (ui\<lparr>storage_health_str := d\<rparr>)" "ok_from b a (ui\<lparr>storage_test_log_str := d\<rparr>)"
    "ok_from b a (ui\<lparr>recovery_rv := rv\<rparr>)"
  using assms by (simp_all add: ok_from_def quiet_def ui_inv_def)

lemma ok_set_cur:
  assumes "ok_from b a ui" and "st_screen (f (cur ui)) = st_screen (cur ui)"
    and "focused_item (f (cur ui)) = focused_item (cur ui) \<or>
      focus_ok (language_menu ui) (bootloader_menu ui) (f (cur ui))"
  shows "ok_from b a (set_cur f ui)"
  using assms
  by (cases "ui_states ui")
    (auto simp: ok_from_def quiet_def ui_inv_def set_cur_def cur_def focus_ok_def)

text \<open>An update that touches neither the screen nor the focus.\<close>

lemma ok_set_cur_keep [ui_ok]:
  assumes "ok_from b a ui" and "\<And>s. st_screen (f s) = st_screen s" and "\<And>s. focused_item (f s) = focused_item s"
  shows "ok_from b a (set_cur f ui)"
  using assms by (intro ok_set_cur) simp_all

lemma cur_in: "ui_inv b ui \<Longrightarrow> cur ui \<in> set (ui_states ui)"
  by (simp add: ui_inv_def cur_def)

lemma cur_focus_ok: "ui_inv b ui \<Longrightarrow> focus_ok (language_menu ui) (bootloader_menu ui) (cur ui)"
  using cur_in [of b ui] by (auto simp: ui_inv_def list_all_iff)

lemma cur_known: "ui_inv b ui \<Longrightarrow> st_screen (cur ui) \<in> set ui_screen_ids"
  using cur_in [of b ui] by (auto simp: ui_inv_def)

lemma ok_set_focus:
  assumes "ok_from b a ui"
    and "menu_size (language_menu ui) (bootloader_menu ui) (st_screen (cur ui)) = 0 \<or>
      k < menu_size (language_menu ui) (bootloader_menu ui) (st_screen (cur ui))"
  shows "ok_from b a (set_cur (\<lambda>s. s\<lparr>focused_item := k\<rparr>) ui)"
  using assms by (intro ok_set_cur) (auto simp: focus_ok_def)

lemma preserve_state_simps [simp]:
  "st_screen (preserve_state p s) = st_screen p" "focused_item (preserve_state p s) = focused_item p"
  by (simp_all add: preserve_state_def)

lemma map_screen_pop_states: "map st_screen (pop_states ss) = (if length ss > 1 then tl (map st_screen ss) else map st_screen ss)"
  by (induction ss rule: pop_states.induct) simp_all

lemma focus_ok_preserve [simp]: "focus_ok l m (preserve_state p s) = focus_ok l m p"
  by (simp add: focus_ok_def)

lemma inv_pop_states:
  "ss \<noteq> [] \<Longrightarrow> pop_states ss \<noteq> []"
  "list_all (focus_ok l m) ss \<Longrightarrow> list_all (focus_ok l m) (pop_states ss)"
  "distinct (map st_screen ss) \<Longrightarrow> distinct (map st_screen (pop_states ss))"
  "st_screen ` set (pop_states ss) \<subseteq> st_screen ` set ss"
  by (induction ss rule: pop_states.induct) auto

lemma ok_states:
  assumes "ok_from b a ui" and "ss \<noteq> []" and "list_all (focus_ok (language_menu ui) (bootloader_menu ui)) ss"
    and "distinct (map st_screen ss)" and "st_screen ` set ss \<subseteq> set ui_screen_ids"
  shows "ok_from b a (ui\<lparr>ui_states := ss\<rparr>)"
  using assms by (simp add: ok_from_def quiet_def ui_inv_def)

lemma ok_fewer_states:
  assumes "ok_from b a ui" and "ui_states ui \<noteq> [] \<Longrightarrow> ss \<noteq> []"
    and "\<And>l m. list_all (focus_ok l m) (ui_states ui) \<Longrightarrow> list_all (focus_ok l m) ss"
    and "distinct (map st_screen (ui_states ui)) \<Longrightarrow> distinct (map st_screen ss)"
    and "st_screen ` set ss \<subseteq> st_screen ` set (ui_states ui)"
  shows "ok_from b a (ui\<lparr>ui_states := ss\<rparr>)"
proof -
  have "ui_inv b ui" using assms(1) by (rule ok_inv)
  then have "st_screen ` set (ui_states ui) \<subseteq> set ui_screen_ids" by (simp add: ui_inv_def)
  with assms(5) have "st_screen ` set ss \<subseteq> set ui_screen_ids" by (rule order.trans)
  then show ?thesis using assms \<open>ui_inv b ui\<close> by (intro ok_states) (simp_all add: ui_inv_def)
qed

lemma ok_pop_state [ui_ok]: "ok_from b a ui \<Longrightarrow> ok_from b a (pop_state ui)"
  unfolding pop_state_def by (erule ok_fewer_states) (fact inv_pop_states)+

lemma inv_pop_until:
  "ss \<noteq> [] \<Longrightarrow> pop_until i ss \<noteq> []"
  "list_all (focus_ok l m) ss \<Longrightarrow> list_all (focus_ok l m) (pop_until i ss)"
  "distinct (map st_screen ss) \<Longrightarrow> distinct (map st_screen (pop_until i ss))"
  "st_screen ` set (pop_until i ss) \<subseteq> st_screen ` set ss"
proof -
  show "ss \<noteq> [] \<Longrightarrow> pop_until i ss \<noteq> []" by (induction i ss rule: pop_until.induct) auto
  show "list_all (focus_ok l m) ss \<Longrightarrow> list_all (focus_ok l m) (pop_until i ss)"
    by (induction i ss rule: pop_until.induct) auto
  show "distinct (map st_screen ss) \<Longrightarrow> distinct (map st_screen (pop_until i ss))"
    by (induction i ss rule: pop_until.induct) auto
  show "st_screen ` set (pop_until i ss) \<subseteq> st_screen ` set ss"
    by (induction i ss rule: pop_until.induct) (auto split: if_splits)
qed

lemma pop_until_screens:
  "i \<in> st_screen ` set ss \<Longrightarrow> map st_screen (pop_until i ss) = dropWhile (\<lambda>x. x \<noteq> i) (map st_screen ss)"
  by (induction i ss rule: pop_until.induct) auto

lemma ok_pop_until [ui_ok]:
  "ok_from b a ui \<Longrightarrow> ok_from b a (ui\<lparr>ui_states := pop_until i (ui_states ui)\<rparr>)"
  by (erule ok_fewer_states) (fact inv_pop_until)+

lemma ok_push_state:
  assumes "ok_from b a ui" and "i \<in> set ui_screen_ids" and "i \<notin> st_screen ` set (ui_states ui)"
  shows "ok_from b a (push_state (new_state i) ui)"
proof -
  define s where "s = (case ui_states ui of [] \<Rightarrow> new_state i | s # r \<Rightarrow> preserve_state (new_state i) s)"
  have s: "st_screen s = i" "focused_item s = 0"
    by (simp_all add: s_def new_state_def split: list.splits)
  then have "focus_ok l m s" for l m by (auto simp: focus_ok_def)
  then show ?thesis
    unfolding push_state_def s_def [symmetric] using assms s ok_inv [OF assms(1)]
    by (intro ok_states) (simp_all add: ui_inv_def)
qed

section \<open>The table of screens as an interface\<close>

text \<open>
  What the code of this file relies on: every screen of the table is known, its menu has the
  stated size, and its callbacks keep the invariant and call for developer mode only from the
  action of the one screen made for it, once confirmed.
\<close>

definition dev_confirmed :: "ui_board \<Rightarrow> ui_context \<Rightarrow> bool" where
  "dev_confirmed b ui \<longleftrightarrow>
     st_screen (cur ui) = UI_SCREEN_RECOVERY_TO_DEV \<and> \<not> developer_mode (ui_ctx ui) \<and>
     manual_recovery (ui_ctx ui) \<and>
     (key_trusted ui \<and> (ui_key ui = UI_KEY_ENTER \<or> cfg_detachable b \<and> ui_key ui = UI_BUTTON_POWER_SHORT_PRESS) \<or>
      \<not> cfg_physical_presence_keyboard b \<and> physical_presence_button_pressed ui)"

definition menu_ok :: "ui_board \<Rightarrow> ui_screen \<Rightarrow> ui_menu_item list \<Rightarrow> bool" where
  "menu_ok b sid menu \<longleftrightarrow> (\<forall>item \<in> set menu. \<forall>f. mi_action item = Some f \<longrightarrow> ok_at b {sid} f)"

definition get_menu_ok ::
  "ui_board \<Rightarrow> ui_screen \<Rightarrow> (ui_context \<Rightarrow> ui_menu_item list option \<times> ui_context) \<Rightarrow> bool" where
  "get_menu_ok b sid g \<longleftrightarrow>
     (\<forall>ui. ui_inv b ui \<and> st_screen (cur ui) = sid \<longrightarrow>
        ok_from b ui (snd (g ui)) \<and> ui_states (snd (g ui)) = ui_states ui \<and>
        (\<forall>menu. fst (g ui) = Some menu \<longrightarrow> menu_ok b sid menu \<and>
           length menu = menu_size (language_menu (snd (g ui))) (bootloader_menu (snd (g ui))) sid \<and>
           (sid = UI_SCREEN_DEVELOPER_SELECT_ALTFW \<longrightarrow> bootloader_menu (snd (g ui)) \<noteq> 0)))"

definition opt_ok :: "ui_board \<Rightarrow> ui_screen \<Rightarrow> ui_callback option \<Rightarrow> bool" where
  "opt_ok b sid c \<longleftrightarrow> (\<forall>f. c = Some f \<longrightarrow> ok_at b {sid} f)"

definition action_ok :: "ui_board \<Rightarrow> ui_screen \<Rightarrow> ui_callback option \<Rightarrow> bool" where
  "action_ok b sid c \<longleftrightarrow>
     (\<forall>f ui. c = Some f \<and> ui_inv b ui \<and> st_screen (cur ui) = sid \<longrightarrow>
        ui_inv b (snd (f ui)) \<and> (quiet ui (snd (f ui)) \<or> dev_confirmed b ui))"

definition screen_ok :: "ui_board \<Rightarrow> ui_screen_info \<Rightarrow> bool" where
  "screen_ok b s \<longleftrightarrow>
     opt_ok b (si_id s) (si_init s) \<and> opt_ok b (si_id s) (si_reinit s) \<and> opt_ok b (si_id s) (si_exit s) \<and>
     action_ok b (si_id s) (si_action s) \<and>
     (case si_get_menu s of
        Some g \<Rightarrow> get_menu_ok b (si_id s) g
      | None \<Rightarrow> menu_ok b (si_id s) (si_menu s) \<and>
          si_id s \<noteq> UI_SCREEN_LANGUAGE_SELECT \<and> si_id s \<noteq> UI_SCREEN_DEVELOPER_SELECT_ALTFW \<and>
          length (si_menu s) = static_menu_size (si_id s)) \<and>
     page_down_item s < max 1 (static_menu_size (si_id s)) \<and> back_item s < max 1 (static_menu_size (si_id s))"

text \<open>What a turn of the loop must have seen to call for developer mode.\<close>

definition dev_request_ok :: "ui_board \<Rightarrow> ui_input \<Rightarrow> ui_context \<Rightarrow> bool" where
  "dev_request_ok b inp ui \<longleftrightarrow>
     st_screen (cur ui) = UI_SCREEN_RECOVERY_TO_DEV \<and> \<not> developer_mode (ui_ctx ui) \<and>
     manual_recovery (ui_ctx ui) \<and>
     (in_key_trusted inp \<and>
        (in_key inp = UI_KEY_ENTER \<or> cfg_detachable b \<and> in_key inp = UI_BUTTON_POWER_SHORT_PRESS) \<or>
      \<not> cfg_physical_presence_keyboard b \<and> presence_seen b (ui_trace ui))"

lemma loop_step_ind:
  assumes "P (snd r)" and "\<And>u. P u \<Longrightarrow> P (snd (f u))"
  shows "P (snd (loop_step r f))"
  using assms by (cases r) (auto simp: loop_step_def split: option.splits prod.splits, (metis snd_conv)+)

definition before_action :: "ui_board \<Rightarrow> ui_input \<Rightarrow> ui_context \<Rightarrow> ui_context \<Rightarrow> bool" where
  "before_action b inp ui u \<longleftrightarrow> ok_from b ui u \<and> st_screen (cur u) = st_screen (cur ui) \<and>
     ui_ctx u = ui_ctx ui \<and> key_trusted u = in_key_trusted inp \<and>
     (ui_key u = in_key inp \<or> ui_key u = 0) \<and>
     physical_presence_button_pressed u = physical_presence_button_pressed ui"

lemma presence_set_cur [simp]:
  "physical_presence_button_pressed (set_cur f ui) = physical_presence_button_pressed ui"
  by (simp add: set_cur_def)

lemma cur_fields [simp]:
  "cur (ui\<lparr>ui_key := k\<rparr>) = cur ui" "cur (ui\<lparr>key_trusted := t\<rparr>) = cur ui"
  "cur (ui\<lparr>power_button := p\<rparr>) = cur ui" "cur (ui\<lparr>error_beep := e\<rparr>) = cur ui"
  "cur (ui\<lparr>force_display := e\<rparr>) = cur ui"
  "cur (ui\<lparr>physical_presence_button_pressed := x\<rparr>) = cur ui" "cur (ui\<lparr>start_time_ms := n\<rparr>) = cur ui"
  "cur (ui\<lparr>beep_count := n\<rparr>) = cur ui" "cur (ui\<lparr>debug_info_str := d\<rparr>) = cur ui"
  "cur (ui\<lparr>firmware_log_str := d\<rparr>) = cur ui" "cur (ui\<lparr>dcache_state := c\<rparr>) = cur ui"
  "cur (ui\<lparr>language_menu := n\<rparr>) = cur ui" "cur (ui\<lparr>bootloader_menu := n\<rparr>) = cur ui"
  "cur (ui\<lparr>storage_health_str := d\<rparr>) = cur ui" "cur (ui\<lparr>storage_test_log_str := d\<rparr>) = cur ui"
  "cur (ui\<lparr>recovery_rv := rv\<rparr>) = cur ui"
  by (simp_all add: cur_def)

lemma before_shutdown_check:
  "before_action b inp ui u \<Longrightarrow> before_action b inp ui (snd (check_shutdown_request b inp u))"
  by (auto simp: before_action_def check_shutdown_request_def Let_def split: prod.splits if_splits
      intro!: ui_ok)

lemma before_error_exit:
  assumes "before_action b inp ui u"
  shows "before_action b inp ui (snd (ui_error_exit_action u))"
proof -
  have "ui_states u \<noteq> []" using assms by (auto simp: before_action_def ok_from_def ui_inv_def)
  moreover have "ok_from b ui ((set_cur (\<lambda>s. s\<lparr>error_code := UI_ERROR_NONE\<rparr>) u)\<lparr>ui_key := 0\<rparr>)"
    using assms by (intro ui_ok) (simp_all add: before_action_def)
  ultimately show ?thesis
    using assms by (simp add: before_action_def ui_error_exit_action_def cur_set_cur)
qed

locale ui_table =
  fixes b :: ui_board and screens :: "ui_screen_info list"
  assumes ids: "map si_id screens = ui_screen_ids"
    and all_ok: "list_all (screen_ok b) screens"
begin

lemma screen_of_ok:
  assumes "ui_inv b ui"
  shows "screen_ok b (screen_of screens ui)" and "si_id (screen_of screens ui) = st_screen (cur ui)"
proof -
  have "st_screen (cur ui) \<in> si_id ` set screens" using cur_known [OF assms] ids by (metis list.set_map)
  then obtain s where "ui_get_screen_info screens (st_screen (cur ui)) = Some s"
    unfolding ui_get_screen_info_def
    by (cases "find (\<lambda>s. si_id s = st_screen (cur ui)) screens") (auto simp: find_None_iff)
  moreover from this have "s \<in> set screens" "si_id s = st_screen (cur ui)"
    by (auto simp: ui_get_screen_info_def find_Some_iff)
  ultimately show "screen_ok b (screen_of screens ui)" and "si_id (screen_of screens ui) = st_screen (cur ui)"
    using all_ok by (auto simp: screen_of_def list_all_iff)
qed

lemma screen_known: "ui_get_screen_info screens i \<noteq> None \<longleftrightarrow> i \<in> set ui_screen_ids"
  unfolding ids [symmetric] by (auto simp: ui_get_screen_info_def find_None_iff)

lemma run_opt_ok:
  assumes "ok_from b a ui"
    and "c = si_init (screen_of screens ui) \<or> c = si_reinit (screen_of screens ui) \<or> c = si_exit (screen_of screens ui)"
  shows "ok_from b a (snd (run_opt c ui))"
proof (cases c)
  case (Some f)
  then have "ok_at b {st_screen (cur ui)} f"
    using screen_of_ok [OF ok_inv [OF assms(1)]] assms(2) by (auto simp: screen_ok_def opt_ok_def)
  then show ?thesis using ok_run [OF assms(1)] Some by (simp add: run_opt_def)
qed (use assms in \<open>simp add: run_opt_def\<close>)

lemma get_menu_ok':
  assumes "ok_from b a ui" and "ui_get_menu screens ui = (menu, ui')"
  shows "ok_from b a ui'" and "ui_states ui' = ui_states ui" and "menu_ok b (st_screen (cur ui)) menu"
    and "menu \<noteq> [] \<Longrightarrow> length menu = menu_size (language_menu ui') (bootloader_menu ui') (st_screen (cur ui))"
    and "menu \<noteq> [] \<Longrightarrow> st_screen (cur ui) = UI_SCREEN_DEVELOPER_SELECT_ALTFW \<Longrightarrow> bootloader_menu ui' \<noteq> 0"
proof -
  note s = screen_of_ok [OF ok_inv [OF assms(1)]]
  have inv: "ui_inv b ui" using assms(1) by (rule ok_inv)
  have "ok_from b a ui' \<and> ui_states ui' = ui_states ui \<and> menu_ok b (st_screen (cur ui)) menu \<and>
    (menu \<noteq> [] \<longrightarrow> length menu = menu_size (language_menu ui') (bootloader_menu ui') (st_screen (cur ui)) \<and>
      (st_screen (cur ui) = UI_SCREEN_DEVELOPER_SELECT_ALTFW \<longrightarrow> bootloader_menu ui' \<noteq> 0))"
  proof (cases "si_get_menu (screen_of screens ui)")
    case None
    then show ?thesis using s assms by (auto simp: ui_get_menu_def screen_ok_def menu_size_def)
  next
    case (Some g)
    have "get_menu_ok b (st_screen (cur ui)) g" using s Some by (simp add: screen_ok_def)
    then have g: "ok_from b ui (snd (g ui))" "ui_states (snd (g ui)) = ui_states ui"
      "\<And>m. fst (g ui) = Some m \<Longrightarrow> menu_ok b (st_screen (cur ui)) m \<and>
        length m = menu_size (language_menu (snd (g ui))) (bootloader_menu (snd (g ui))) (st_screen (cur ui)) \<and>
        (st_screen (cur ui) = UI_SCREEN_DEVELOPER_SELECT_ALTFW \<longrightarrow> bootloader_menu (snd (g ui)) \<noteq> 0)"
      using inv by (simp_all add: get_menu_ok_def)
    have "ui' = snd (g ui)" "menu = (case fst (g ui) of Some m \<Rightarrow> m | None \<Rightarrow> [])"
      using assms(2) Some by (auto simp: ui_get_menu_def split: prod.splits)
    moreover have "ok_from b a (snd (g ui))"
      using g(1) assms(1) by (auto simp: ok_from_def intro: quiet_trans)
    ultimately show ?thesis using g(2,3) by (auto simp: menu_ok_def split: option.splits)
  qed
  then show "ok_from b a ui'" and "ui_states ui' = ui_states ui" and "menu_ok b (st_screen (cur ui)) menu"
    and "menu \<noteq> [] \<Longrightarrow> length menu = menu_size (language_menu ui') (bootloader_menu ui') (st_screen (cur ui))"
    and "menu \<noteq> [] \<Longrightarrow> st_screen (cur ui) = UI_SCREEN_DEVELOPER_SELECT_ALTFW \<Longrightarrow> bootloader_menu ui' \<noteq> 0"
    by auto
qed

lemma screen_back_ok [ui_ok]:
  assumes "ok_from b a ui"
  shows "ok_from b a (snd (ui_screen_back screens ui))"
  unfolding ui_screen_back_def Let_def
  by (intro ui_ok ok_try run_opt_ok assms) simp_all

lemma screen_init_ok:
  assumes "ok_from b a ui"
  shows "ok_from b a (snd (ui_screen_init screens ui))"
proof (cases "si_init (screen_of screens ui)")
  case (Some f)
  then show ?thesis
    using run_opt_ok [OF assms, of "Some f"] by (simp add: ui_screen_init_def run_opt_def)
next
  case None
  obtain menu ui' where m: "ui_get_menu screens ui = (menu, ui')" by force
  note g = get_menu_ok' [OF assms m]
  have c: "st_screen (cur ui') = st_screen (cur ui)" using g(2) by (simp add: cur_def)
  define k :: nat where "k = (if length menu > 1 \<and> mi_type (hd menu) = UI_MENU_ITEM_TYPE_LANGUAGE then 1 else 0)"
  have "menu_size (language_menu ui') (bootloader_menu ui') (st_screen (cur ui')) = 0 \<or>
      k < menu_size (language_menu ui') (bootloader_menu ui') (st_screen (cur ui'))"
    using g(4) c by (cases "menu = []") (auto simp: k_def)
  then show ?thesis
    using ok_set_focus [OF g(1)] None by (simp add: ui_screen_init_def m k_def)
qed

lemma screen_change_ok [ui_ok]:
  assumes "ok_from b a ui"
  shows "ok_from b a (snd (ui_screen_change b screens i ui))"
proof -
  have "ok_from b a (snd (ui_screen_init screens (push_state (new_state i) (ext Ev_malloc ui))))"
    if "ui_get_screen_info screens i \<noteq> None" "i \<notin> st_screen ` set (ui_states ui)"
    using that assms screen_known [of i] by (intro screen_init_ok ok_push_state ui_ok) simp_all
  then show ?thesis
    unfolding ui_screen_change_def Let_def ext_bool_def
    using assms by (auto intro!: ui_ok ok_try run_opt_ok)
qed

lemma focus_less:
  assumes "ui_inv b ui" and "menu \<noteq> []"
    and "length menu = menu_size (language_menu ui) (bootloader_menu ui) (st_screen (cur ui))"
  shows "focused_item (cur ui) < length menu"
  using cur_focus_ok [OF assms(1)] assms(2,3) by (auto simp: focus_ok_def)

lemma menu_select_ok:
  assumes "ok_from b a ui"
  shows "ok_from b a (snd (ui_menu_select b screens ui))"
proof -
  obtain menu ui' where m: "ui_get_menu screens ui = (menu, ui')" by force
  note g = get_menu_ok' [OF assms m]
  have c: "cur ui' = cur ui" using g(2) by (simp add: cur_def)
  show ?thesis
  proof (cases "menu = [] \<or> bit (disabled_item_mask (cur ui')) (focused_item (cur ui'))")
    case True
    then show ?thesis using g(1) by (auto simp: ui_menu_select_def m Let_def)
  next
    case False
    define item where "item = menu ! focused_item (cur ui')"
    have "focused_item (cur ui') < length menu"
      using False g(4) c by (intro focus_less ok_inv [OF g(1)]) auto
    then have it: "item \<in> set menu" by (simp add: item_def)
    have sel: "ui_menu_select b screens ui =
        (case mi_action item of Some action \<Rightarrow> action ui'
         | None \<Rightarrow> (case mi_target item of Some target \<Rightarrow> ui_screen_change b screens target ui'
                    | None \<Rightarrow> (VB2_SUCCESS, ui')))"
      unfolding item_def using False by (simp add: ui_menu_select_def m Let_def)
    have "ok_from b a (snd (f ui'))" if "mi_action item = Some f" for f
      using ok_run [OF g(1), of "{st_screen (cur ui)}" f] g(3) it that c by (auto simp: menu_ok_def)
    then show ?thesis
      unfolding sel using screen_change_ok [OF g(1)] g(1) by (auto split: option.splits)
  qed
qed

lemma prev_visible_less: "prev_visible h n = Some k \<Longrightarrow> k < n"
  by (induction h n rule: prev_visible.induct) (auto split: if_splits simp: less_Suc_eq)

lemma next_visible_less: "next_visible h n i = Some k \<Longrightarrow> k < n"
proof (induction h n i rule: next_visible.induct)
  case (1 h n i)
  then show ?case using next_visible.simps [of h n i] by (auto split: if_splits)
qed

lemma menu_prev_ok [ui_ok]:
  assumes "ok_from b a ui"
  shows "ok_from b a (snd (ui_menu_prev ui))"
proof (cases "prev_visible (hidden_item_mask (cur ui)) (focused_item (cur ui))")
  case (Some k)
  then show ?thesis
    using prev_visible_less [OF Some] cur_focus_ok [OF ok_inv [OF assms]] ok_set_focus [OF assms, of k]
    by (auto simp: ui_menu_prev_def focus_ok_def)
qed (use assms in \<open>simp add: ui_menu_prev_def\<close>)

lemma menu_next_ok [ui_ok]:
  assumes "ok_from b a ui"
  shows "ok_from b a (snd (ui_menu_next screens ui))"
proof -
  obtain menu ui' where m: "ui_get_menu screens ui = (menu, ui')" by force
  note g = get_menu_ok' [OF assms m]
  have c: "cur ui' = cur ui" using g(2) by (simp add: cur_def)
  show ?thesis
  proof (cases "next_visible (hidden_item_mask (cur ui')) (length menu) (focused_item (cur ui') + 1)")
    case (Some k)
    have k: "k < length menu" using next_visible_less [OF Some] .
    then have "menu \<noteq> []" by auto
    then have "ok_from b a (set_cur (\<lambda>s. s\<lparr>focused_item := k\<rparr>) ui')"
      using g(4) k c by (intro ok_set_focus [OF g(1)]) simp
    then show ?thesis using Some by (simp add: ui_menu_next_def m)
  qed (use g(1) in \<open>simp add: ui_menu_next_def m\<close>)
qed

lemma navigation_ok:
  assumes "ok_from b a ui"
  shows "ok_from b a (snd (ui_menu_navigation_action b screens ui))"
  unfolding ui_menu_navigation_action_def Let_def
  by (intro ui_ok menu_select_ok assms)

lemma action_dev:
  assumes "before_action b inp ui u" and "ui_inv b ui"
  defines "u' \<equiv> snd (run_opt (si_action (screen_of screens u)) u)"
  shows "ui_inv b u' \<and> (quiet ui u' \<or> dev_request_ok b inp ui)"
proof (cases "si_action (screen_of screens u)")
  case None
  then show ?thesis using assms(1) by (simp add: u'_def run_opt_def before_action_def ok_from_def)
next
  case (Some f)
  have u: "ok_from b ui u" and inv: "ui_inv b u"
    using assms(1) by (auto simp: before_action_def ok_from_def)
  have "action_ok b (st_screen (cur u)) (Some f)"
    using screen_of_ok [OF inv] Some by (simp add: screen_ok_def)
  then have r: "ui_inv b (snd (f u))" "quiet u (snd (f u)) \<or> dev_confirmed b u"
    using inv by (auto simp: action_ok_def)
  have "dev_request_ok b inp ui" if "dev_confirmed b u"
    using that assms(1,2) by (auto simp: dev_confirmed_def dev_request_ok_def before_action_def ui_inv_def)
  then show ?thesis
    using r u by (auto simp: u'_def run_opt_def Some ok_from_def intro: quiet_trans)
qed

lemma turn_ok:
  fixes inp :: ui_input
  assumes "ui_inv b ui" and "\<And>f. ga = Some f \<Longrightarrow> ok_at b UNIV f"
  defines "u' \<equiv> snd (ui_loop_turn b screens ga inp ui)"
  shows "ui_inv b u' \<and> (quiet ui u' \<or> dev_request_ok b inp ui)"
proof -
  define u0 where "u0 = ui\<lparr>error_beep := False, force_display := False,
    ui_key := in_key inp, key_trusted := in_key_trusted inp\<rparr>"
  define P where "P u \<longleftrightarrow> ui_inv b u \<and> (quiet ui u \<or> dev_request_ok b inp ui)" for u
  define r1 where "r1 = loop_step (loop_step (None, u0) (check_shutdown_request b inp)) ui_error_exit_action"
  have "before_action b inp ui u0"
    using ok_refl [OF assms(1)] unfolding before_action_def u0_def by (auto intro!: ui_ok)
  then have b1: "before_action b inp ui (snd r1)"
    unfolding r1_def
    by (intro loop_step_ind [where P = "before_action b inp ui"] before_shutdown_check before_error_exit)
      simp_all
  define r2 where "r2 = loop_step r1 (\<lambda>u. run_opt (si_action (screen_of screens u)) u)"
  have P1: "P (snd r1)" using b1 by (simp add: P_def before_action_def ok_from_def)
  have P2: "P (snd r2)"
  proof (cases "fst r1")
    case None
    then show ?thesis
      using action_dev [OF b1 assms(1)]
      by (cases r1) (auto simp: r2_def loop_step_def P_def split: prod.splits)
  next
    case (Some rv)
    then show ?thesis using P1 by (cases r1) (simp add: r2_def loop_step_def)
  qed
  have keep: "P (snd (f u))" if "P u" "ok_from b u (snd (f u))" for f :: ui_callback and u
    using that by (auto simp: P_def ok_from_def intro: quiet_trans)
  have nav: "P (snd (ui_menu_navigation_action b screens u))" if "P u" for u
    using that navigation_ok [OF ok_refl, of u] by (intro keep) (simp_all add: P_def)
  have glob: "P (snd (run_opt ga u))" if "P u" for u
  proof (cases ga)
    case (Some f)
    then have "ok_from b u (snd (f u))" using assms(2) that by (simp add: ok_at_def P_def)
    then show ?thesis using keep [OF that, of f] Some by (simp add: run_opt_def)
  qed (use that in \<open>simp add: run_opt_def\<close>)
  have "u' = snd (loop_step (loop_step r2 (ui_menu_navigation_action b screens)) (run_opt ga))"
    by (simp add: u'_def ui_loop_turn_def Let_def r2_def r1_def u0_def)
  also have "P \<dots>" by (intro loop_step_ind [where P = P] P2 nav glob)
  finally show ?thesis by (simp add: P_def)
qed

lemma loop_impl_ok:
  assumes "ui_inv b ui" and "\<And>f. ga = Some f \<Longrightarrow> ok_at b UNIV f"
  shows "ui_inv b (snd (ui_loop_impl b screens ga inps ui)) \<and>
    (quiet ui (snd (ui_loop_impl b screens ga inps ui)) \<or>
     (\<exists>before inp rest u. inps = before @ inp # rest \<and>
        ui_loop_impl b screens ga before ui = (None, u) \<and> dev_request_ok b inp u))"
  using assms(1)
proof (induction inps arbitrary: ui)
  case Nil
  then show ?case by simp
next
  case (Cons inp inps)
  obtain r u where t: "ui_loop_turn b screens ga inp ui = (r, u)" by force
  have step: "ui_inv b u" "quiet ui u \<or> dev_request_ok b inp ui"
    using turn_ok [where ga = ga and inp = inp, OF Cons.prems assms(2)] t by auto
  show ?case
  proof (cases "dev_request_ok b inp ui")
    case True
    have "ui_inv b (snd (ui_loop_impl b screens ga (inp # inps) ui))"
      using step(1) Cons.IH [of u] t by (auto split: option.splits)
    moreover have "ui_loop_impl b screens ga [] ui = (None, ui)" by simp
    ultimately show ?thesis using True by (metis append_Nil)
  next
    case False
    then have q: "quiet ui u" using step(2) by simp
    show ?thesis
    proof (cases r)
      case (Some rv)
      then show ?thesis using t step(1) q by simp
    next
      case None
      then have eq: "ui_loop_impl b screens ga (inp # is) ui = ui_loop_impl b screens ga is u" for "is"
        using t by simp
      from Cons.IH [OF step(1)] show ?thesis unfolding eq
        using q quiet_trans eq by (metis append_Cons)
    qed
  qed
qed

end

end
