(* ===== verification/Ui_Screens.thy ===== *)
theory Ui_Screens
  imports Ui
begin

text \<open>
  \<open>src/vboot/ui/screens.c\<close>: the callbacks of the firmware screens, their menus and the table of
  screens; the drawing functions are not modelled.

  The callbacks that go to other screens take the table \<open>scr\<close> they look screens up in. The real table
  refers to itself: its callbacks look up in it. \<open>screens b n\<close> unrolls it \<open>n\<close> times; \<open>screens b 0\<close> has no
  callbacks.
\<close>

section \<open>Model: helpers\<close>

fun vb2_is_error :: "vb2_rv \<Rightarrow> bool" where
  "vb2_is_error VB2_SUCCESS = False"
| "vb2_is_error VB2_REQUEST_UI_CONTINUE = False"
| "vb2_is_error VB2_REQUEST_SHUTDOWN = False"
| "vb2_is_error VB2_REQUEST_UI_EXIT = False"
| "vb2_is_error VB2_REQUEST_REBOOT = False"
| "vb2_is_error VB2_REQUEST_REBOOT_EC_TO_RO = False"
| "vb2_is_error (VB2_REQUEST_OTHER n) = False"
| "vb2_is_error _ = True"

abbreviation set_hidden :: "nat \<Rightarrow> ui_context \<Rightarrow> ui_context" where
  "set_hidden i \<equiv> set_cur (\<lambda>s. s\<lparr>hidden_item_mask := set_bit i (hidden_item_mask s)\<rparr>)"

abbreviation set_disabled :: "nat \<Rightarrow> ui_context \<Rightarrow> ui_context" where
  "set_disabled i \<equiv> set_cur (\<lambda>s. s\<lparr>disabled_item_mask := set_bit i (disabled_item_mask s)\<rparr>)"

abbreviation clear_disabled :: "nat \<Rightarrow> ui_context \<Rightarrow> ui_context" where
  "clear_disabled i \<equiv> set_cur (\<lambda>s. s\<lparr>disabled_item_mask := unset_bit i (disabled_item_mask s)\<rparr>)"

abbreviation set_focus :: "nat \<Rightarrow> ui_context \<Rightarrow> ui_context" where
  "set_focus i \<equiv> set_cur (\<lambda>s. s\<lparr>focused_item := i\<rparr>)"

abbreviation set_page_no :: "nat \<Rightarrow> ui_context \<Rightarrow> ui_context" where
  "set_page_no p \<equiv> set_cur (\<lambda>s. s\<lparr>current_page := p\<rparr>)"

definition power_off_action :: ui_callback where
  "power_off_action ui = (VB2_REQUEST_SHUTDOWN, ui)"

definition set_ui_error :: "ui_error \<Rightarrow> ui_callback" where
  "set_ui_error code ui =
     (VB2_REQUEST_UI_CONTINUE,
      if error_code (cur ui) \<noteq> UI_ERROR_NONE then ui else set_cur (\<lambda>s. s\<lparr>error_code := code\<rparr>) ui)"

definition set_ui_error_and_go_back :: "ui_screen_info list \<Rightarrow> ui_error \<Rightarrow> ui_callback" where
  "set_ui_error_and_go_back scr code ui = ui_screen_back scr (snd (set_ui_error code ui))"

section \<open>Model: log screens\<close>

text \<open>\<open>page_count - 1\<close> in \<open>uint32_t\<close>.\<close>

definition last_page :: "ui_state \<Rightarrow> nat" where
  "last_page s = sub32 (page_count (static_log (st_log s))) 1"

text \<open>The new text of the log, when there is one.\<close>

definition log_page_set_text :: "ui_board \<Rightarrow> u8 list option \<Rightarrow> ui_callback" where
  "log_page_set_text b new_log_string ui =
     (if new_log_string = None then (VB2_SUCCESS, ui)
      else case ext_bool b Ev_malloc ui of (malloc_ok, ui) \<Rightarrow>
           case ui_log_init (log_dimensions b (st_screen (cur ui)) (st_locale (cur ui))) malloc_ok
                  new_log_string (st_log (cur ui)) of (rv, log) \<Rightarrow>
             let ui = set_cur (\<lambda>s. s\<lparr>st_log := log\<rparr>) ui;
                 pages = page_count (static_log log)
             in if rv \<noteq> VB2_SUCCESS then (rv, ui)
                else if pages = 0 then (VB2_ERROR_UI_LOG_INIT, ui)
                else (VB2_SUCCESS,
                      set_cur (\<lambda>s. if current_page s \<ge> pages then s\<lparr>current_page := pages - 1\<rparr> else s)
                        (ui\<lparr>force_display := True\<rparr>)))"

definition log_page_update :: "ui_board \<Rightarrow> ui_screen_info list \<Rightarrow> u8 list option \<Rightarrow> ui_callback" where
  "log_page_update b scr new_log_string ui =
     vb2_try (log_page_set_text b new_log_string ui) (\<lambda>ui.
       case ui_get_menu scr ui of (menu, ui) \<Rightarrow>
         if menu = [] then (VB2_SUCCESS, ui)
         else let screen = screen_of scr ui;
                  ui = clear_disabled (page_up_item screen) ui;
                  ui = clear_disabled (page_down_item screen) ui;
                  ui = (if current_page (cur ui) = 0 then set_disabled (page_up_item screen) ui else ui);
                  ui = (if current_page (cur ui) = last_page (cur ui)
                        then set_disabled (page_down_item screen) ui else ui)
              in (VB2_SUCCESS, ui))"

definition log_page_reset_to_top :: "ui_board \<Rightarrow> ui_screen_info list \<Rightarrow> ui_callback" where
  "log_page_reset_to_top b scr ui =
     (let screen = screen_of scr ui;
          ui = set_page_no 0 ui;
          ui = set_focus (if test_state (cur ui) = UI_TEST_STATE_NONE
                          then if page_count (static_log (st_log (cur ui))) > 1
                               then page_down_item screen else back_item screen
                          else back_item screen) ui
      in log_page_update b scr None ui)"

text \<open>
  The four page actions differ in the fastboot page operation, the page at which they do nothing,
  and the page they go to. The log of a fastboot session is what the oracle says it holds now.
\<close>

definition log_page_action ::
  "ui_board \<Rightarrow> ui_screen_info list \<Rightarrow> (ui_log_info \<Rightarrow> fastboot_log \<Rightarrow> ui_log_info option) \<Rightarrow>
   (ui_state \<Rightarrow> nat) \<Rightarrow> (ui_state \<Rightarrow> nat) \<Rightarrow> ui_callback" where
  "log_page_action b scr fb_page stop next_page ui =
     (case log_type (st_log (cur ui)) of
        UI_LOG_TYPE_FASTBOOT \<Rightarrow>
          (VB2_SUCCESS,
           case fb_session (cur ui) of
             None \<Rightarrow> ui
           | Some fb \<Rightarrow>
               (case fb_page (st_log (cur ui)) (ans_fb_log b (ui_trace ui) fb) of
                  Some log \<Rightarrow> set_cur (\<lambda>s. s\<lparr>st_log := log\<rparr>) ui
                | None \<Rightarrow> ui))
      | UI_LOG_TYPE_STATIC \<Rightarrow>
          if current_page (cur ui) = stop (cur ui) then (VB2_SUCCESS, ui)
          else log_page_update b scr None (set_page_no (next_page (cur ui)) ui)
      | UI_LOG_TYPE_UNKNOWN \<Rightarrow> (VB2_SUCCESS, ui))"

definition log_page_prev_action :: "ui_board \<Rightarrow> ui_screen_info list \<Rightarrow> ui_callback" where
  "log_page_prev_action b scr =
     log_page_action b scr ui_fb_log_set_prev_page (\<lambda>s. 0) (\<lambda>s. current_page s - 1)"

definition log_page_next_action :: "ui_board \<Rightarrow> ui_screen_info list \<Rightarrow> ui_callback" where
  "log_page_next_action b scr =
     log_page_action b scr ui_fb_log_set_next_page last_page (\<lambda>s. current_page s + 1)"

definition log_page_first_action :: "ui_board \<Rightarrow> ui_screen_info list \<Rightarrow> ui_callback" where
  "log_page_first_action b scr =
     log_page_action b scr (\<lambda>l fb. Some (ui_fb_log_set_first_page l fb)) (\<lambda>s. 0) (\<lambda>s. 0)"

definition log_page_last_action :: "ui_board \<Rightarrow> ui_screen_info list \<Rightarrow> ui_callback" where
  "log_page_last_action b scr =
     log_page_action b scr ui_fb_log_set_last_page last_page
       (\<lambda>s. if page_count (static_log (st_log s)) \<noteq> 0 then page_count (static_log (st_log s)) - 1 else 0)"

text \<open>The pages the loop of \<open>log_page_anchor\<close> looks at, in its order.\<close>

definition anchor_candidates :: "bool \<Rightarrow> nat \<Rightarrow> nat \<Rightarrow> nat list" where
  "anchor_candidates forward page pages =
     (if forward then [page + 1..<pages] else if page \<le> pages then rev [0..<page] else [])"

definition log_page_anchor :: "ui_board \<Rightarrow> ui_screen_info list \<Rightarrow> bool \<Rightarrow> ui_callback" where
  "log_page_anchor b scr forward ui =
     (let s = cur ui; sl = static_log (st_log s)
      in if log_type (st_log s) \<noteq> UI_LOG_TYPE_STATIC \<or> anchor_total_count sl = 0 then (VB2_SUCCESS, ui)
         else case find (\<lambda>i. per_page_count sl ! i > 0)
                     (anchor_candidates forward (current_page s) (page_count sl)) of
                None \<Rightarrow> (VB2_SUCCESS, ui)
              | Some target_page \<Rightarrow> log_page_update b scr None (set_page_no target_page ui))"

definition log_page_next_anchor :: "ui_board \<Rightarrow> ui_screen_info list \<Rightarrow> ui_callback" where
  "log_page_next_anchor b scr = log_page_anchor b scr True"

definition log_page_prev_anchor :: "ui_board \<Rightarrow> ui_screen_info list \<Rightarrow> ui_callback" where
  "log_page_prev_anchor b scr = log_page_anchor b scr False"

abbreviation (input) "UI_KEY_PREV_ANCHOR \<equiv> (0x1a :: nat)"
abbreviation (input) "UI_KEY_NEXT_ANCHOR \<equiv> (0x18 :: nat)"

definition fullview_log_screen_action :: "ui_board \<Rightarrow> ui_screen_info list \<Rightarrow> ui_callback" where
  "fullview_log_screen_action b scr ui =
     (let key = map_buttons b (ui_key ui); ui0 = ui\<lparr>ui_key := 0\<rparr>
      in if key = UI_KEY_UP then log_page_prev_action b scr ui0
         else if key = UI_KEY_DOWN then log_page_next_action b scr ui0
         else if key = UI_KEY_LEFT then log_page_first_action b scr ui0
         else if key = UI_KEY_RIGHT then log_page_last_action b scr ui0
         else if key = UI_KEY_ENTER then ui_screen_back scr ui0
         else if key = UI_KEY_PREV_ANCHOR then log_page_prev_anchor b scr ui0
         else if key = UI_KEY_NEXT_ANCHOR then log_page_next_anchor b scr ui0
         else (VB2_SUCCESS, ui))"

section \<open>Model: menu items and screens\<close>

definition item_to :: "ui_screen \<Rightarrow> ui_menu_item" where
  "item_to sid = \<lparr>mi_type = UI_MENU_ITEM_TYPE_PRIMARY, mi_target = Some sid, mi_action = None\<rparr>"

definition item_do :: "ui_callback \<Rightarrow> ui_menu_item" where
  "item_do f = \<lparr>mi_type = UI_MENU_ITEM_TYPE_PRIMARY, mi_target = None, mi_action = Some f\<rparr>"

definition LANGUAGE_SELECT_ITEM :: ui_menu_item where
  "LANGUAGE_SELECT_ITEM = (item_to UI_SCREEN_LANGUAGE_SELECT)\<lparr>mi_type := UI_MENU_ITEM_TYPE_LANGUAGE\<rparr>"

definition PAGE_UP_ITEM :: "ui_board \<Rightarrow> ui_screen_info list \<Rightarrow> ui_menu_item" where
  "PAGE_UP_ITEM b scr = item_do (log_page_prev_action b scr)"

definition PAGE_DOWN_ITEM :: "ui_board \<Rightarrow> ui_screen_info list \<Rightarrow> ui_menu_item" where
  "PAGE_DOWN_ITEM b scr = item_do (log_page_next_action b scr)"

definition BACK_ITEM :: "ui_screen_info list \<Rightarrow> ui_menu_item" where
  "BACK_ITEM scr = item_do (ui_screen_back scr)"

definition NEXT_ITEM :: "ui_screen \<Rightarrow> ui_menu_item" where
  "NEXT_ITEM target_screen = item_to target_screen"

definition ADVANCED_OPTIONS_ITEM :: ui_menu_item where
  "ADVANCED_OPTIONS_ITEM = (item_to UI_SCREEN_ADVANCED_OPTIONS)\<lparr>mi_type := UI_MENU_ITEM_TYPE_SECONDARY\<rparr>"

definition POWER_OFF_ITEM :: ui_menu_item where
  "POWER_OFF_ITEM = (item_do power_off_action)\<lparr>mi_type := UI_MENU_ITEM_TYPE_SECONDARY\<rparr>"

text \<open>A screen with no field set but its identifier.\<close>

definition plain_screen :: "ui_screen \<Rightarrow> ui_screen_info" where
  "plain_screen sid =
     \<lparr>si_id = sid, si_menu = [], si_init = None, si_reinit = None, si_exit = None, si_action = None,
      si_get_menu = None, page_up_item = 0, page_down_item = 0, back_item = 0\<rparr>"

definition firmware_sync_screen :: ui_screen_info where
  "firmware_sync_screen = plain_screen UI_SCREEN_FIRMWARE_SYNC"

subsection \<open>Language selection\<close>

definition language_select_init :: "ui_screen_info list \<Rightarrow> ui_callback" where
  "language_select_init scr ui =
     (case ui_get_menu scr ui of (menu, ui) \<Rightarrow>
        if menu = [] then ui_screen_back scr ui
        else (VB2_SUCCESS,
              set_focus (if loc_id (st_locale (cur ui)) < length menu
                         then loc_id (st_locale (cur ui)) else 0) ui))"

definition language_select_action :: "ui_board \<Rightarrow> ui_screen_info list \<Rightarrow> ui_callback" where
  "language_select_action b scr ui =
     (let locale_id = focused_item (cur ui)
      in case get_locale_info b locale_id ui of (rv, locale, ui) \<Rightarrow>
           if rv \<noteq> VB2_SUCCESS then (rv, ui)
           else let ui = set_cur (\<lambda>s. s\<lparr>st_locale := locale\<rparr>) ui;
                    ui = ext (Ev_set_locale_id locale_id) ui
                in case ext_rv b Ev_commit_data ui of (rv, ui) \<Rightarrow>
                     if rv \<noteq> VB2_SUCCESS \<and> \<not> recovery_mode (ui_ctx ui) then (rv, ui)
                     else ui_screen_back scr ui)"

definition get_language_menu ::
  "ui_board \<Rightarrow> ui_screen_info list \<Rightarrow> ui_context \<Rightarrow> ui_menu_item list option \<times> ui_context" where
  "get_language_menu b scr ui =
     (let items = (\<lambda>n. replicate n (item_do (language_select_action b scr)))
      in if language_menu ui > 0 then (Some (items (language_menu ui)), ui)
         else case ext_nat b Ev_locale_count ui of (count, ui) \<Rightarrow>
              let num_locales = (if count = 0 then 1 else count)
              in case ext_bool b Ev_malloc ui of (malloc_ok, ui) \<Rightarrow>
                   if \<not> malloc_ok then (None, ui)
                   else (Some (items num_locales), ui\<lparr>language_menu := num_locales\<rparr>))"

definition language_select_screen :: "ui_board \<Rightarrow> ui_screen_info list \<Rightarrow> ui_screen_info" where
  "language_select_screen b scr =
     (plain_screen UI_SCREEN_LANGUAGE_SELECT)
       \<lparr>si_init := Some (language_select_init scr), si_get_menu := Some (get_language_menu b scr)\<rparr>"

definition broken_items :: "ui_menu_item list" where
  "broken_items = [LANGUAGE_SELECT_ITEM, ADVANCED_OPTIONS_ITEM, POWER_OFF_ITEM]"

definition broken_screen :: ui_screen_info where
  "broken_screen = (plain_screen UI_SCREEN_RECOVERY_BROKEN)\<lparr>si_menu := broken_items\<rparr>"

subsection \<open>Advanced options\<close>

definition boot_nbr_impl :: "ui_board \<Rightarrow> bool \<Rightarrow> ui_callback" where
  "boot_nbr_impl b non_active_only ui =
     (if \<not> manual_recovery (ui_ctx ui) then (VB2_REQUEST_UI_CONTINUE, ui)
      else case ext_rv b (Ev_load_nbr_kernel non_active_only) ui of (rv, ui) \<Rightarrow>
        if rv \<noteq> VB2_SUCCESS then set_ui_error UI_ERROR_NBR_BOOT_FAILED ui
        else (VB2_REQUEST_UI_EXIT, ui))"

definition boot_old_nbr_action :: "ui_board \<Rightarrow> ui_callback" where
  "boot_old_nbr_action b = boot_nbr_impl b True"

abbreviation (input) "ADVANCED_OPTIONS_ITEM_DEVELOPER_MODE \<equiv> 1 :: nat"
abbreviation (input) "ADVANCED_OPTIONS_ITEM_DEBUG_INFO \<equiv> 2 :: nat"
abbreviation (input) "ADVANCED_OPTIONS_ITEM_ENTER_FASTBOOT \<equiv> 3 :: nat"
abbreviation (input) "ADVANCED_OPTIONS_ITEM_INTERNET_RECOVERY \<equiv> 5 :: nat"
abbreviation (input) "ADVANCED_OPTIONS_ITEM_FIRMWARE_SHELL \<equiv> 6 :: nat"

definition advanced_options_init :: "ui_board \<Rightarrow> ui_callback" where
  "advanced_options_init b ui =
     (let ui = set_focus ADVANCED_OPTIONS_ITEM_DEVELOPER_MODE ui;
          ui = (if developer_mode (ui_ctx ui) \<or> \<not> manual_recovery (ui_ctx ui)
                then set_focus ADVANCED_OPTIONS_ITEM_DEBUG_INFO
                       (set_hidden ADVANCED_OPTIONS_ITEM_DEVELOPER_MODE ui)
                else ui);
          ui = (if \<not> fastboot_allowed (ui_ctx ui)
                then set_hidden ADVANCED_OPTIONS_ITEM_ENTER_FASTBOOT ui else ui);
          ui = (if \<not> manual_recovery (ui_ctx ui)
                then set_hidden ADVANCED_OPTIONS_ITEM_INTERNET_RECOVERY ui else ui)
      in case ext_bool b Ev_firmware_shell_enabled ui of (shell, ui) \<Rightarrow>
           (VB2_SUCCESS, if \<not> shell then set_hidden ADVANCED_OPTIONS_ITEM_FIRMWARE_SHELL ui else ui))"

definition ui_developer_mode_enter_fwshell_action :: "ui_board \<Rightarrow> ui_callback" where
  "ui_developer_mode_enter_fwshell_action b ui =
     (case ext_bool b Ev_firmware_shell_enabled ui of (shell, ui) \<Rightarrow>
        if \<not> shell then (VB2_SUCCESS, ui)
        else (VB2_SUCCESS, (ext Ev_enter_firmware_shell ui)\<lparr>force_display := True\<rparr>))"

definition advanced_options_items :: "ui_board \<Rightarrow> ui_screen_info list \<Rightarrow> ui_menu_item list" where
  "advanced_options_items b scr =
     [LANGUAGE_SELECT_ITEM, item_to UI_SCREEN_RECOVERY_TO_DEV, item_to UI_SCREEN_DEBUG_INFO,
      item_to UI_SCREEN_FASTBOOT, item_to UI_SCREEN_FIRMWARE_LOG, item_do (boot_old_nbr_action b),
      item_do (ui_developer_mode_enter_fwshell_action b), BACK_ITEM scr, POWER_OFF_ITEM]"

definition advanced_options_screen :: "ui_board \<Rightarrow> ui_screen_info list \<Rightarrow> ui_screen_info" where
  "advanced_options_screen b scr =
     (plain_screen UI_SCREEN_ADVANCED_OPTIONS)
       \<lparr>si_init := Some (advanced_options_init b), si_menu := advanced_options_items b scr\<rparr>"

subsection \<open>Debug info and firmware log\<close>

definition DEBUG_INFO_UNSUPPORTED :: "u8 list" where
  "DEBUG_INFO_UNSUPPORTED = c_bytes ''(unsupported)''"

definition str_or :: "u8 list \<Rightarrow> u8 list option \<Rightarrow> u8 list" where
  "str_or dflt s = (case s of Some x \<Rightarrow> x | None \<Rightarrow> dflt)"

text \<open>The answers of several calls, made in order, each with a default.\<close>

fun read_strings :: "ui_board \<Rightarrow> u8 list \<Rightarrow> ui_event list \<Rightarrow> ui_context \<Rightarrow> u8 list list \<times> ui_context" where
  "read_strings b dflt [] ui = ([], ui)"
| "read_strings b dflt (e # es) ui =
     (case ext_str b e ui of (s, ui) \<Rightarrow>
      case read_strings b dflt es ui of (ss, ui) \<Rightarrow> (str_or dflt s # ss, ui))"


definition tpm_state_str :: "ui_board \<Rightarrow> ui_context \<Rightarrow> u8 list \<times> ui_context" where
  "tpm_state_str b ui =
     (if cfg_mock_tpm b then (c_bytes ''MOCK TPM'', ui)
      else if cfg_driver_tpm b
      then (case ext_str b Ev_tpm_report_state ui of (s, ui) \<Rightarrow> (str_or DEBUG_INFO_UNSUPPORTED s, ui))
      else (DEBUG_INFO_UNSUPPORTED, ui))"

definition battery_str :: "ui_board \<Rightarrow> ui_context \<Rightarrow> u8 list \<times> ui_context" where
  "battery_str b ui =
     (if \<not> cfg_driver_ec_cros b then (DEBUG_INFO_UNSUPPORTED, ui)
      else (case ans_nats b (ui_trace ui) Ev_read_batt of
              Some (pct # _) \<Rightarrow> c_bytes (decimal pct @ ''%'')
            | _ \<Rightarrow> c_bytes ''(read failure)'', ext Ev_read_batt ui))"

definition debug_info_get_string :: "ui_board \<Rightarrow> ui_context \<Rightarrow> u8 list option \<times> ui_context" where
  "debug_info_get_string b ui =
     (case debug_info_str ui of
        Some s \<Rightarrow> (Some s, ui)
      | None \<Rightarrow>
          (case ext_str b Ev_debug_info ui of (vb, ui) \<Rightarrow>
           case ext_bool b Ev_malloc ui of (malloc_ok, ui) \<Rightarrow>
             if \<not> malloc_ok then (None, ui)
             else let vboot_buf = str_or [] vb; buf_size = length vboot_buf + 512 + 1
                  in case read_strings b DEBUG_INFO_UNSUPPORTED
                            [Ev_vpd_gets ''device'', Ev_vpd_gets ''product'',
                             Ev_vpd_gets ''hardware_descriptor'', Ev_read_hwid,
                             Ev_vpd_gets ''mfg_sku_id''] ui of (ids, ui) \<Rightarrow>
                     case tpm_state_str b ui of (tpm, ui) \<Rightarrow>
                     case battery_str b ui of (batt, ui) \<Rightarrow>
                     case read_strings b [] [Ev_ro_fw_id, Ev_active_fw_id] ui of (fws, ui) \<Rightarrow>
                     let line = (\<lambda>(name, v). c_bytes name @ v @ [NL]);
                         buf = take (buf_size - 1)
                           (concat (map line (zip
                              [''device: '', ''product: '', ''hardware descriptor: '', ''HWID: '',
                               ''MFG SKU ID: '', ''read-only firmware id: '', ''active firmware id: '',
                               ''battery level: '', ''TPM state: '']
                              (ids @ fws @ [batt, tpm]))) @ vboot_buf)
                     in (Some buf, ui\<lparr>debug_info_str := Some buf\<rparr>)))"

definition debug_info_set_content :: "ui_board \<Rightarrow> ui_screen_info list \<Rightarrow> ui_callback" where
  "debug_info_set_content b scr ui =
     (case debug_info_get_string b ui of (log_string, ui) \<Rightarrow>
        if log_string = None then set_ui_error_and_go_back scr UI_ERROR_DEBUG_LOG ui
        else case log_page_update b scr log_string ui of (rv, ui) \<Rightarrow>
          if vb2_is_error rv then set_ui_error_and_go_back scr UI_ERROR_DEBUG_LOG ui
          else (VB2_SUCCESS, ui))"

text \<open>The last step of the \<open>init\<close> functions of the log screens.\<close>

definition reset_or_go_back :: "ui_board \<Rightarrow> ui_screen_info list \<Rightarrow> ui_error \<Rightarrow> ui_callback" where
  "reset_or_go_back b scr err ui =
     (case log_page_reset_to_top b scr ui of (rv, ui) \<Rightarrow>
        if vb2_is_error rv then set_ui_error_and_go_back scr err ui else (VB2_SUCCESS, ui))"

definition debug_info_init :: "ui_board \<Rightarrow> ui_screen_info list \<Rightarrow> ui_callback" where
  "debug_info_init b scr ui =
     vb2_try (debug_info_set_content b scr ui) (reset_or_go_back b scr UI_ERROR_DEBUG_LOG)"

definition debug_info_screen :: "ui_board \<Rightarrow> ui_screen_info list \<Rightarrow> ui_screen_info" where
  "debug_info_screen b scr =
     (plain_screen UI_SCREEN_DEBUG_INFO)
       \<lparr>si_init := Some (debug_info_init b scr), si_action := Some (fullview_log_screen_action b scr)\<rparr>"

definition firmware_log_anchors :: "u8 list list" where
  "firmware_log_anchors = [c_bytes ''coreboot-'', c_bytes ''Starting depthcharge on'']"

definition firmware_log_set_content :: "ui_board \<Rightarrow> ui_screen_info list \<Rightarrow> bool \<Rightarrow> ui_callback" where
  "firmware_log_set_content b scr reset ui =
     (case (if firmware_log_str ui = None \<or> reset
            then ext_str b Ev_cbmem_console (ui\<lparr>firmware_log_str := None\<rparr>)
            else (firmware_log_str ui, ui)) of (str, ui) \<Rightarrow>
        case str of
          None \<Rightarrow> set_ui_error_and_go_back scr UI_ERROR_FIRMWARE_LOG ui
        | Some s \<Rightarrow>
            (case log_page_update b scr (Some (dropWhile (\<lambda>c. c = NL) s)) (ui\<lparr>firmware_log_str := Some s\<rparr>) of
               (rv, ui) \<Rightarrow>
                 if vb2_is_error rv then set_ui_error_and_go_back scr UI_ERROR_FIRMWARE_LOG ui
                 else case ext_bool b Ev_malloc ui of (malloc_ok, ui) \<Rightarrow>
                   case ui_log_set_anchors malloc_ok firmware_log_anchors (st_log (cur ui)) of (rv, log) \<Rightarrow>
                     let ui = set_cur (\<lambda>s. s\<lparr>st_log := log\<rparr>) ui
                     in if vb2_is_error rv then set_ui_error_and_go_back scr UI_ERROR_FIRMWARE_LOG ui
                        else (VB2_SUCCESS, ui)))"

definition firmware_log_init :: "ui_board \<Rightarrow> ui_screen_info list \<Rightarrow> ui_callback" where
  "firmware_log_init b scr ui =
     vb2_try (firmware_log_set_content b scr True ui) (reset_or_go_back b scr UI_ERROR_FIRMWARE_LOG)"

definition firmware_log_screen :: "ui_board \<Rightarrow> ui_screen_info list \<Rightarrow> ui_screen_info" where
  "firmware_log_screen b scr =
     (plain_screen UI_SCREEN_FIRMWARE_LOG)
       \<lparr>si_init := Some (firmware_log_init b scr), si_action := Some (fullview_log_screen_action b scr)\<rparr>"

subsection \<open>The transition to developer mode\<close>

abbreviation (input) "RECOVERY_TO_DEV_ITEM_CONFIRM \<equiv> 1 :: nat"
abbreviation (input) "RECOVERY_TO_DEV_ITEM_CANCEL \<equiv> 2 :: nat"

definition recovery_to_dev_init :: "ui_board \<Rightarrow> ui_screen_info list \<Rightarrow> ui_callback" where
  "recovery_to_dev_init b scr ui =
     (if developer_mode (ui_ctx ui)
      then set_ui_error_and_go_back scr UI_ERROR_DEV_MODE_ALREADY_ENABLED ui
      else case (if \<not> cfg_physical_presence_keyboard b
                 then ext_bool b Ev_physical_presence_pressed ui else (False, ui)) of (stuck, ui) \<Rightarrow>
        if stuck then ui_screen_back scr ui
        else let ui = (if cfg_physical_presence_keyboard b
                       then set_focus RECOVERY_TO_DEV_ITEM_CONFIRM ui
                       else set_focus RECOVERY_TO_DEV_ITEM_CANCEL
                              (set_hidden RECOVERY_TO_DEV_ITEM_CONFIRM ui))
             in (VB2_SUCCESS, ui\<lparr>physical_presence_button_pressed := False\<rparr>))"

definition recovery_to_dev_finalize :: "ui_board \<Rightarrow> ui_callback" where
  "recovery_to_dev_finalize b ui =
     (if st_screen (cur ui) \<noteq> UI_SCREEN_RECOVERY_TO_DEV \<or> developer_mode (ui_ctx ui) \<or>
         \<not> manual_recovery (ui_ctx ui)
      then (VB2_SUCCESS, ui)
      else case ext_rv b Ev_enable_developer_mode ui of (rv, ui) \<Rightarrow>
        if rv \<noteq> VB2_SUCCESS then (VB2_SUCCESS, ui) else (VB2_REQUEST_REBOOT_EC_TO_RO, ui))"

definition recovery_to_dev_confirm_action :: "ui_board \<Rightarrow> ui_callback" where
  "recovery_to_dev_confirm_action b ui =
     (let key = ui_key ui; ui = ui\<lparr>ui_key := 0\<rparr>
      in if \<not> key_trusted ui
         then if cfg_physical_presence_keyboard b \<and> key = UI_KEY_ENTER
              then set_ui_error UI_ERROR_UNTRUSTED_CONFIRMATION ui
              else (VB2_SUCCESS, ui)
         else recovery_to_dev_finalize b ui)"

definition recovery_to_dev_action :: "ui_board \<Rightarrow> ui_screen_info list \<Rightarrow> ui_callback" where
  "recovery_to_dev_action b scr ui =
     (if ui_key ui = 0x20 then ui_screen_back scr (ui\<lparr>ui_key := 0\<rparr>)
      else if focused_item (cur ui) = RECOVERY_TO_DEV_ITEM_CONFIRM \<and>
              (ui_key ui = UI_KEY_ENTER \<or> cfg_detachable b \<and> ui_key ui = UI_BUTTON_POWER_SHORT_PRESS)
      then recovery_to_dev_confirm_action b ui
      else if cfg_physical_presence_keyboard b then (VB2_SUCCESS, ui)
      else case ext_bool b Ev_physical_presence_pressed ui of (pressed, ui) \<Rightarrow>
        if pressed then (VB2_SUCCESS, ui\<lparr>physical_presence_button_pressed := True\<rparr>)
        else if \<not> physical_presence_button_pressed ui then (VB2_SUCCESS, ui)
        else recovery_to_dev_finalize b ui)"

text \<open>The confirm item has neither target nor action: the screen's action handles it.\<close>

definition recovery_to_dev_items :: "ui_screen_info list \<Rightarrow> ui_menu_item list" where
  "recovery_to_dev_items scr =
     [LANGUAGE_SELECT_ITEM,
      \<lparr>mi_type = UI_MENU_ITEM_TYPE_PRIMARY, mi_target = None, mi_action = None\<rparr>,
      item_do (ui_screen_back scr), POWER_OFF_ITEM]"

definition recovery_to_dev_screen :: "ui_board \<Rightarrow> ui_screen_info list \<Rightarrow> ui_screen_info" where
  "recovery_to_dev_screen b scr =
     (plain_screen UI_SCREEN_RECOVERY_TO_DEV)
       \<lparr>si_menu := recovery_to_dev_items scr, si_init := Some (recovery_to_dev_init b scr),
        si_action := Some (recovery_to_dev_action b scr)\<rparr>"

subsection \<open>Fastboot\<close>

definition fastboot_screen_init :: "ui_screen_info list \<Rightarrow> ui_callback" where
  "fastboot_screen_init scr ui =
     (if \<not> fastboot_allowed (ui_ctx ui) then ui_screen_back scr ui else (VB2_SUCCESS, ui))"

text \<open>
  After the poll: follow the log. \<open>total_bytes\<close> of the page is updated last, so the second test sees
  the old one.
\<close>

definition fastboot_follow_log :: "fastboot_log \<Rightarrow> ui_context \<Rightarrow> ui_context" where
  "fastboot_follow_log fb ui =
     (let log = st_log (cur ui); fi = fastboot_log_info log; new_total = fastboot_log_get_total_bytes fb
      in if total_bytes fi = new_total then ui
         else let page_start = top_of_screen_byte_anchor fi;
                  page_end = add64 page_start (bytes_on_screen fi);
                  log = (if page_start < fastboot_log_get_oldest_available_byte fb
                         then ui_fb_log_set_first_page log fb
                         else if total_bytes fi = page_end
                         then (case ui_fb_log_set_last_page log fb of Some l \<Rightarrow> l | None \<Rightarrow> log)
                         else log);
                  log = log\<lparr>fastboot_log_info := (fastboot_log_info log)\<lparr>total_bytes := new_total\<rparr>\<rparr>
              in set_cur (\<lambda>s. s\<lparr>st_log := log\<rparr>) (ui\<lparr>force_display := True\<rparr>))"

definition fastboot_serve :: "ui_board \<Rightarrow> ui_screen_info list \<Rightarrow> nat \<Rightarrow> ui_callback" where
  "fastboot_serve b scr fb ui =
     (case ext_bool b (Ev_fastboot_finished fb) ui of (finished, ui) \<Rightarrow>
        if finished
        then case ext_bool b (Ev_fastboot_release fb) ui of (disconnected, ui) \<Rightarrow>
               let ui = set_cur (\<lambda>s. s\<lparr>fb_session := None\<rparr>) ui
               in if disconnected then (VB2_SUCCESS, ui\<lparr>force_display := True\<rparr>)
                  else ui_screen_back scr ui
        else let ui = ext (Ev_fastboot_poll fb) ui
             in fullview_log_screen_action b scr
                  (fastboot_follow_log (ans_fb_log b (ui_trace ui) fb) ui))"

definition fastboot_action :: "ui_board \<Rightarrow> ui_screen_info list \<Rightarrow> ui_callback" where
  "fastboot_action b scr ui =
     (case fb_session (cur ui) of
        Some fb \<Rightarrow> fastboot_serve b scr fb ui
      | None \<Rightarrow>
          (case ext_nat b Ev_fastboot_init ui of (fb, ui) \<Rightarrow>
             if fb = 0 then fullview_log_screen_action b scr ui
             else let ui = (set_cur (\<lambda>s. s\<lparr>fb_session := Some fb\<rparr>) ui)\<lparr>force_display := True\<rparr>
                  in case ui_fb_log_init (log_dimensions b (st_screen (cur ui)) (st_locale (cur ui)))
                            (st_log (cur ui)) of (rv, log) \<Rightarrow>
                       let ui = set_cur (\<lambda>s. s\<lparr>st_log := log\<rparr>) ui
                       in if rv \<noteq> VB2_SUCCESS then (rv, ui) else fastboot_serve b scr fb ui))"

definition fastboot_exit :: "ui_board \<Rightarrow> ui_callback" where
  "fastboot_exit b ui =
     (let ui = (case fb_session (cur ui) of
                  Some fb \<Rightarrow> set_cur (\<lambda>s. s\<lparr>fb_session := None\<rparr>) (ext (Ev_fastboot_release fb) ui)
                | None \<Rightarrow> ui)
      in if timer_disabled (cur ui) then (VB2_SUCCESS, ui)
         else case ext_nat b Ev_mtime ui of (now, ui) \<Rightarrow> (VB2_SUCCESS, ui\<lparr>start_time_ms := now\<rparr>))"

definition fastboot_screen :: "ui_board \<Rightarrow> ui_screen_info list \<Rightarrow> ui_screen_info" where
  "fastboot_screen b scr =
     (plain_screen UI_SCREEN_FASTBOOT)
       \<lparr>si_init := Some (fastboot_screen_init scr), si_action := Some (fastboot_action b scr),
        si_exit := Some (fastboot_exit b)\<rparr>"

subsection \<open>Recovery\<close>

definition launch_diagnostics_action :: ui_callback where
  "launch_diagnostics_action ui = (VB2_REQUEST_REBOOT, ext Ev_request_diagnostics ui)"

definition ui_recovery_mode_boot_nbr_action :: "ui_board \<Rightarrow> ui_callback" where
  "ui_recovery_mode_boot_nbr_action b = boot_nbr_impl b False"

abbreviation (input) "RECOVERY_SELECT_ITEM_EXTERNAL_DISK \<equiv> 1 :: nat"
abbreviation (input) "RECOVERY_SELECT_ITEM_DIAGNOSTICS \<equiv> 3 :: nat"

definition recovery_select_init :: "ui_board \<Rightarrow> ui_callback" where
  "recovery_select_init b ui =
     (let ui = set_focus RECOVERY_SELECT_ITEM_EXTERNAL_DISK ui
      in case ext_bool b Ev_diagnostic_ui_enabled ui of (enabled, ui) \<Rightarrow>
           (VB2_SUCCESS, if \<not> enabled then set_hidden RECOVERY_SELECT_ITEM_DIAGNOSTICS ui else ui))"

definition recovery_select_items :: "ui_board \<Rightarrow> ui_menu_item list" where
  "recovery_select_items b =
     [LANGUAGE_SELECT_ITEM, item_to UI_SCREEN_RECOVERY_DISK_STEP1,
      item_do (ui_recovery_mode_boot_nbr_action b),
      (item_do launch_diagnostics_action)\<lparr>mi_type := UI_MENU_ITEM_TYPE_SECONDARY\<rparr>,
      ADVANCED_OPTIONS_ITEM, POWER_OFF_ITEM]"

definition recovery_select_screen :: "ui_board \<Rightarrow> ui_screen_info" where
  "recovery_select_screen b =
     (plain_screen UI_SCREEN_RECOVERY_SELECT)
       \<lparr>si_menu := recovery_select_items b, si_init := Some (recovery_select_init b)\<rparr>"

definition recovery_disk_step1_items :: "ui_screen_info list \<Rightarrow> ui_menu_item list" where
  "recovery_disk_step1_items scr =
     [LANGUAGE_SELECT_ITEM, NEXT_ITEM UI_SCREEN_RECOVERY_DISK_STEP2, BACK_ITEM scr, POWER_OFF_ITEM]"

definition recovery_disk_step1_screen :: "ui_screen_info list \<Rightarrow> ui_screen_info" where
  "recovery_disk_step1_screen scr =
     (plain_screen UI_SCREEN_RECOVERY_DISK_STEP1)\<lparr>si_menu := recovery_disk_step1_items scr\<rparr>"

definition recovery_disk_step2_items :: "ui_screen_info list \<Rightarrow> ui_menu_item list" where
  "recovery_disk_step2_items scr = [LANGUAGE_SELECT_ITEM, BACK_ITEM scr, POWER_OFF_ITEM]"

definition recovery_disk_step2_screen :: "ui_screen_info list \<Rightarrow> ui_screen_info" where
  "recovery_disk_step2_screen scr =
     (plain_screen UI_SCREEN_RECOVERY_DISK_STEP2)\<lparr>si_menu := recovery_disk_step2_items scr\<rparr>"

definition recovery_invalid_items :: "ui_menu_item list" where
  "recovery_invalid_items = [LANGUAGE_SELECT_ITEM, POWER_OFF_ITEM]"

definition recovery_invalid_screen :: ui_screen_info where
  "recovery_invalid_screen =
     (plain_screen UI_SCREEN_RECOVERY_INVALID)\<lparr>si_menu := recovery_invalid_items\<rparr>"

definition recovery_rollback_error_items :: "ui_menu_item list" where
  "recovery_rollback_error_items = [LANGUAGE_SELECT_ITEM, POWER_OFF_ITEM]"

definition recovery_rollback_error_screen :: ui_screen_info where
  "recovery_rollback_error_screen =
     (plain_screen UI_SCREEN_RECOVERY_ROLLBACK_ERROR)\<lparr>si_menu := recovery_rollback_error_items\<rparr>"

subsection \<open>Developer mode\<close>

text \<open>The loop over the fixed disks, with \<open>n\<close> of them left to look at, numbered from \<open>i\<close>.\<close>

fun bcb_requests_fastboot :: "ui_board \<Rightarrow> nat \<Rightarrow> nat \<Rightarrow> ui_context \<Rightarrow> bool \<times> ui_context" where
  "bcb_requests_fastboot b 0 i ui = (False, ui)"
| "bcb_requests_fastboot b (Suc n) i ui =
     (case ext_bool b (Ev_alloc_gpt i) ui of (gpt, ui) \<Rightarrow>
        if \<not> gpt then bcb_requests_fastboot b n (i + 1) ui
        else case ext_bool b (Ev_bcb_bootloader_boot i) ui of (bootloader, ui) \<Rightarrow>
          let ui = ext (Ev_free_gpt i) ui
          in if bootloader then (True, ui) else bcb_requests_fastboot b n (i + 1) ui)"

definition start_fastboot_if_requested :: "ui_board \<Rightarrow> ui_screen_info list \<Rightarrow> ui_callback" where
  "start_fastboot_if_requested b scr ui =
     (case ext_nat b (Ev_get_all_bdevs BLOCKDEV_FIXED) ui of (devs, ui) \<Rightarrow>
        if \<not> fastboot_allowed (ui_ctx ui) then (VB2_SUCCESS, ui)
        else case bcb_requests_fastboot b devs 0 ui of (requested, ui) \<Rightarrow>
          if requested then ui_screen_change b scr UI_SCREEN_FASTBOOT ui else (VB2_SUCCESS, ui))"

abbreviation (input) "DEVELOPER_MODE_ITEM_BOOT_INTERNAL \<equiv> 2 :: nat"
abbreviation (input) "DEVELOPER_MODE_ITEM_BOOT_EXTERNAL \<equiv> 3 :: nat"
abbreviation (input) "DEVELOPER_MODE_ITEM_SELECT_ALTFW \<equiv> 4 :: nat"

definition developer_mode_init :: "ui_board \<Rightarrow> ui_screen_info list \<Rightarrow> ui_callback" where
  "developer_mode_init b scr ui =
     (let ui = (if \<not> dev_boot_altfw_allowed (ui_ctx ui)
                then set_hidden DEVELOPER_MODE_ITEM_SELECT_ALTFW ui else ui);
          ui = set_focus (case default_boot (ui_ctx ui) of
                            Boot_external \<Rightarrow> DEVELOPER_MODE_ITEM_BOOT_EXTERNAL
                          | Boot_altfw \<Rightarrow> DEVELOPER_MODE_ITEM_SELECT_ALTFW
                          | Boot_internal \<Rightarrow> DEVELOPER_MODE_ITEM_BOOT_INTERNAL) ui;
          ui = snd (start_fastboot_if_requested b scr ui)
      in case ext_nat b Ev_mtime ui of (now, ui) \<Rightarrow> (VB2_SUCCESS, ui\<lparr>start_time_ms := now\<rparr>))"

definition ui_developer_mode_boot_internal_action :: "ui_board \<Rightarrow> ui_callback" where
  "ui_developer_mode_boot_internal_action b ui =
     (if \<not> developer_mode (ui_ctx ui) \<or> \<not> dev_boot_allowed (ui_ctx ui) then (VB2_SUCCESS, ui)
      else case ext_rv b (Ev_load_kernel BLOCKDEV_FIXED) ui of (rv, ui) \<Rightarrow>
        if rv = VB2_SUCCESS then (VB2_REQUEST_UI_EXIT, ui)
        else set_ui_error UI_ERROR_INTERNAL_BOOT_FAILED (ui\<lparr>error_beep := True\<rparr>))"

definition external_boot_allowed :: "vb2_context \<Rightarrow> bool" where
  "external_boot_allowed ctx \<longleftrightarrow>
     developer_mode ctx \<and> dev_boot_allowed ctx \<and> dev_boot_external_allowed ctx"

definition ui_developer_mode_boot_external_action :: "ui_board \<Rightarrow> ui_screen_info list \<Rightarrow> ui_callback" where
  "ui_developer_mode_boot_external_action b scr ui =
     (if \<not> external_boot_allowed (ui_ctx ui)
      then set_ui_error UI_ERROR_EXTERNAL_BOOT_DISABLED (ui\<lparr>error_beep := True\<rparr>)
      else case ext_rv b (Ev_load_kernel BLOCKDEV_REMOVABLE) ui of (rv, ui) \<Rightarrow>
        if rv = VB2_SUCCESS then (VB2_REQUEST_UI_EXIT, ui)
        else let target = (if rv = VB2_ERROR_LK_NO_DISK_FOUND then UI_SCREEN_DEVELOPER_BOOT_EXTERNAL
                           else UI_SCREEN_DEVELOPER_INVALID_DISK);
                 ui = (if st_screen (cur ui) \<noteq> target then ui\<lparr>error_beep := True\<rparr> else ui)
             in ui_screen_change b scr target ui)"

definition altfw_count :: "nat list option \<Rightarrow> nat" where
  "altfw_count seqnums = (case seqnums of None \<Rightarrow> 0 | Some ns \<Rightarrow> length (filter (\<lambda>n. n \<noteq> 0) ns))"

definition ext_nats :: "ui_board \<Rightarrow> ui_event \<Rightarrow> ui_context \<Rightarrow> nat list option \<times> ui_context" where
  "ext_nats b e ui = (ans_nats b (ui_trace ui) e, ext e ui)"

text \<open>\<open>payload_run_altfw\<close> comes back only when it failed.\<close>

definition developer_boot_altfw_impl :: "ui_board \<Rightarrow> nat \<Rightarrow> ui_callback" where
  "developer_boot_altfw_impl b altfw_id ui =
     (if \<not> developer_mode (ui_ctx ui) \<or> \<not> dev_boot_allowed (ui_ctx ui) \<or>
         \<not> dev_boot_altfw_allowed (ui_ctx ui)
      then set_ui_error UI_ERROR_ALTFW_DISABLED ui
      else case ext_nats b Ev_altfw_seqnums ui of (seqnums, ui) \<Rightarrow>
        if altfw_count seqnums = 0 then set_ui_error UI_ERROR_ALTFW_EMPTY ui
        else set_ui_error UI_ERROR_ALTFW_FAILED (ext (Ev_run_altfw altfw_id) ui))"

definition developer_boot_altfw_id_action :: "ui_board \<Rightarrow> ui_callback" where
  "developer_boot_altfw_id_action b ui =
     (if st_screen (cur ui) \<noteq> UI_SCREEN_DEVELOPER_SELECT_ALTFW then (VB2_SUCCESS, ui)
      else developer_boot_altfw_impl b (focused_item (cur ui) + 1 - 1) ui)"

definition ui_developer_mode_boot_altfw_action :: "ui_board \<Rightarrow> ui_callback" where
  "ui_developer_mode_boot_altfw_action b = developer_boot_altfw_impl b 0"

definition DEV_DELAY_SHORT_MS :: nat where "DEV_DELAY_SHORT_MS = 2000"
definition DEV_DELAY_NORMAL_MS :: nat where "DEV_DELAY_NORMAL_MS = 30000"
definition DEV_DELAY_BEEP1_MS :: nat where "DEV_DELAY_BEEP1_MS = 20000"
definition DEV_DELAY_BEEP2_MS :: nat where "DEV_DELAY_BEEP2_MS = 20500"

definition boot_default_target :: "ui_board \<Rightarrow> ui_screen_info list \<Rightarrow> ui_callback" where
  "boot_default_target b scr ui =
     (case default_boot (ui_ctx ui) of
        Boot_external \<Rightarrow> ui_developer_mode_boot_external_action b scr ui
      | Boot_altfw \<Rightarrow> ui_developer_mode_boot_altfw_action b ui
      | Boot_internal \<Rightarrow> ui_developer_mode_boot_internal_action b ui)"

definition developer_mode_action :: "ui_board \<Rightarrow> ui_screen_info list \<Rightarrow> ui_callback" where
  "developer_mode_action b scr ui =
     (let dev_delay_ms = (if gbb_dev_screen_short_delay (ui_ctx ui) then DEV_DELAY_SHORT_MS
                          else DEV_DELAY_NORMAL_MS);
          ui = (if ui_key ui \<noteq> 0 then set_cur (\<lambda>s. s\<lparr>timer_disabled := True\<rparr>) ui else ui)
      in if timer_disabled (cur ui) then (VB2_SUCCESS, ui)
         else case ext_nat b Ev_mtime ui of (now, ui) \<Rightarrow>
           let elapsed_ms = sub64 now (start_time_ms ui)
           in if elapsed_ms > dev_delay_ms
              then case boot_default_target b scr (set_cur (\<lambda>s. s\<lparr>timer_disabled := True\<rparr>) ui) of (ret, ui) \<Rightarrow>
                     if ret = VB2_REQUEST_UI_EXIT then (ret, ui)
                     else ui_screen_change b scr UI_SCREEN_FASTBOOT ui
              else if beep_count ui = 0 \<and> elapsed_ms > DEV_DELAY_BEEP1_MS \<or>
                      beep_count ui = 1 \<and> elapsed_ms > DEV_DELAY_BEEP2_MS
              then (VB2_SUCCESS, (ext Ev_beep ui)\<lparr>beep_count := beep_count ui + 1\<rparr>)
              else (VB2_SUCCESS, ui))"

definition developer_mode_items :: "ui_board \<Rightarrow> ui_screen_info list \<Rightarrow> ui_menu_item list" where
  "developer_mode_items b scr =
     [LANGUAGE_SELECT_ITEM, item_to UI_SCREEN_DEVELOPER_TO_NORM,
      item_do (ui_developer_mode_boot_internal_action b),
      item_do (ui_developer_mode_boot_external_action b scr),
      item_to UI_SCREEN_DEVELOPER_SELECT_ALTFW, ADVANCED_OPTIONS_ITEM, POWER_OFF_ITEM]"

definition developer_mode_screen :: "ui_board \<Rightarrow> ui_screen_info list \<Rightarrow> ui_screen_info" where
  "developer_mode_screen b scr =
     (plain_screen UI_SCREEN_DEVELOPER_MODE)
       \<lparr>si_menu := developer_mode_items b scr, si_init := Some (developer_mode_init b scr),
        si_action := Some (developer_mode_action b scr)\<rparr>"

abbreviation (input) "DEVELOPER_TO_NORM_ITEM_LOCK \<equiv> 1 :: nat"
abbreviation (input) "DEVELOPER_TO_NORM_ITEM_CANCEL \<equiv> 2 :: nat"

definition developer_to_norm_init :: "ui_screen_info list \<Rightarrow> ui_callback" where
  "developer_to_norm_init scr ui =
     (if gbb_force_dev_switch_on (ui_ctx ui)
      then set_ui_error_and_go_back scr UI_ERROR_TO_NORM_NOT_ALLOWED ui
      else let ui = set_focus DEVELOPER_TO_NORM_ITEM_LOCK ui
           in if \<not> dev_boot_allowed (ui_ctx ui)
              then (VB2_SUCCESS,
                    set_hidden DEVELOPER_TO_NORM_ITEM_CANCEL
                      (snd (set_ui_error (if oem_lock_enabled (ui_ctx ui) then UI_ERROR_DEV_MODE_OEM_LOCK
                                          else UI_ERROR_DEV_BOOT_NOT_ALLOWED) ui)))
              else (VB2_SUCCESS, ui))"

definition developer_to_norm_action :: "ui_board \<Rightarrow> ui_callback" where
  "developer_to_norm_action b ui =
     (case ext_rv b Ev_disable_developer_mode ui of (rv, ui) \<Rightarrow>
        if rv = VB2_SUCCESS then (VB2_REQUEST_REBOOT, ui) else (VB2_SUCCESS, ui))"

definition developer_to_norm_items :: "ui_board \<Rightarrow> ui_screen_info list \<Rightarrow> ui_menu_item list" where
  "developer_to_norm_items b scr =
     [LANGUAGE_SELECT_ITEM, item_do (developer_to_norm_action b), item_do (ui_screen_back scr), POWER_OFF_ITEM]"

definition developer_to_norm_screen :: "ui_board \<Rightarrow> ui_screen_info list \<Rightarrow> ui_screen_info" where
  "developer_to_norm_screen b scr =
     (plain_screen UI_SCREEN_DEVELOPER_TO_NORM)
       \<lparr>si_menu := developer_to_norm_items b scr, si_init := Some (developer_to_norm_init scr)\<rparr>"

abbreviation (input) "DEVELOPER_BOOT_EXTERNAL_ITEM_BACK \<equiv> 1 :: nat"

definition developer_boot_external_items :: "ui_screen_info list \<Rightarrow> ui_menu_item list" where
  "developer_boot_external_items scr = [LANGUAGE_SELECT_ITEM, BACK_ITEM scr, POWER_OFF_ITEM]"

definition developer_boot_external_check :: "ui_screen_info list \<Rightarrow> ui_callback" where
  "developer_boot_external_check scr ui =
     (if \<not> external_boot_allowed (ui_ctx ui)
      then set_ui_error_and_go_back scr UI_ERROR_EXTERNAL_BOOT_DISABLED (ui\<lparr>error_beep := True\<rparr>)
      else (VB2_SUCCESS, ui))"

definition developer_boot_external_init :: "ui_board \<Rightarrow> ui_screen_info list \<Rightarrow> ui_callback" where
  "developer_boot_external_init b scr ui =
     vb2_try (developer_boot_external_check scr (set_focus DEVELOPER_BOOT_EXTERNAL_ITEM_BACK ui)) (\<lambda>ui.
       case ext_rv b (Ev_load_kernel BLOCKDEV_REMOVABLE) ui of (rv, ui) \<Rightarrow>
         if rv \<noteq> VB2_ERROR_LK_NO_DISK_FOUND then ui_screen_back scr ui else (VB2_SUCCESS, ui))"

definition developer_boot_external_screen :: "ui_board \<Rightarrow> ui_screen_info list \<Rightarrow> ui_screen_info" where
  "developer_boot_external_screen b scr =
     (plain_screen UI_SCREEN_DEVELOPER_BOOT_EXTERNAL)
       \<lparr>si_menu := developer_boot_external_items scr,
        si_init := Some (developer_boot_external_init b scr),
        si_reinit := Some (developer_boot_external_init b scr),
        si_action := Some (ui_developer_mode_boot_external_action b scr)\<rparr>"

abbreviation (input) "DEVELOPER_INVALID_DISK_ITEM_BACK \<equiv> 1 :: nat"

definition developer_invalid_disk_items :: "ui_screen_info list \<Rightarrow> ui_menu_item list" where
  "developer_invalid_disk_items scr = [LANGUAGE_SELECT_ITEM, BACK_ITEM scr, POWER_OFF_ITEM]"

definition developer_invalid_disk_init :: "ui_board \<Rightarrow> ui_screen_info list \<Rightarrow> ui_callback" where
  "developer_invalid_disk_init b scr ui =
     vb2_try (developer_boot_external_check scr (set_focus DEVELOPER_INVALID_DISK_ITEM_BACK ui)) (\<lambda>ui.
       case ext_rv b (Ev_load_kernel BLOCKDEV_REMOVABLE) ui of (rv, ui) \<Rightarrow>
         if rv = VB2_SUCCESS \<or> rv = VB2_ERROR_LK_NO_DISK_FOUND then ui_screen_back scr ui
         else (VB2_SUCCESS, ui))"

definition developer_invalid_disk_screen :: "ui_board \<Rightarrow> ui_screen_info list \<Rightarrow> ui_screen_info" where
  "developer_invalid_disk_screen b scr =
     (plain_screen UI_SCREEN_DEVELOPER_INVALID_DISK)
       \<lparr>si_menu := developer_invalid_disk_items scr,
        si_init := Some (developer_invalid_disk_init b scr),
        si_reinit := Some (developer_invalid_disk_init b scr),
        si_action := Some (ui_developer_mode_boot_external_action b scr)\<rparr>"

definition developer_select_altfw_items_before :: "ui_menu_item list" where
  "developer_select_altfw_items_before = [LANGUAGE_SELECT_ITEM]"

definition developer_select_altfw_items_after :: "ui_screen_info list \<Rightarrow> ui_menu_item list" where
  "developer_select_altfw_items_after scr = [BACK_ITEM scr, POWER_OFF_ITEM]"

definition developer_select_bootloader_init :: "ui_screen_info list \<Rightarrow> ui_callback" where
  "developer_select_bootloader_init scr ui =
     (case ui_get_menu scr ui of (menu, ui) \<Rightarrow>
        if menu = [] then set_ui_error_and_go_back scr UI_ERROR_ALTFW_EMPTY ui
        else (VB2_SUCCESS, set_focus (length developer_select_altfw_items_before) ui))"

text \<open>The menu in memory is kept by its number of items; the items between the fixed ones are alike.\<close>

definition bootloader_items :: "ui_board \<Rightarrow> ui_screen_info list \<Rightarrow> nat \<Rightarrow> ui_menu_item list" where
  "bootloader_items b scr num_bootloaders =
     developer_select_altfw_items_before @
     replicate num_bootloaders (item_do (developer_boot_altfw_id_action b)) @
     developer_select_altfw_items_after scr"

definition get_bootloader_menu ::
  "ui_board \<Rightarrow> ui_screen_info list \<Rightarrow> ui_context \<Rightarrow> ui_menu_item list option \<times> ui_context" where
  "get_bootloader_menu b scr ui =
     (if bootloader_menu ui > 0 then (Some (bootloader_items b scr (bootloader_menu ui - 3)), ui)
      else case ext_nats b Ev_altfw_seqnums ui of (seqnums, ui) \<Rightarrow>
        let num_bootloaders = altfw_count seqnums
        in if num_bootloaders = 0 then (None, ui)
           else case ext_bool b Ev_malloc ui of (malloc_ok, ui) \<Rightarrow>
             if \<not> malloc_ok then (None, ui)
             else let items = bootloader_items b scr num_bootloaders
                  in (Some items, ui\<lparr>bootloader_menu := length items\<rparr>))"

definition developer_select_bootloader_screen :: "ui_board \<Rightarrow> ui_screen_info list \<Rightarrow> ui_screen_info" where
  "developer_select_bootloader_screen b scr =
     (plain_screen UI_SCREEN_DEVELOPER_SELECT_ALTFW)
       \<lparr>si_init := Some (developer_select_bootloader_init scr),
        si_get_menu := Some (get_bootloader_menu b scr)\<rparr>"

subsection \<open>Diagnostics\<close>

abbreviation (input) "DIAGNOSTICS_ITEM_STORAGE_HEALTH \<equiv> 1 :: nat"
abbreviation (input) "DIAGNOSTICS_ITEM_STORAGE_TEST_SHORT \<equiv> 2 :: nat"
abbreviation (input) "DIAGNOSTICS_ITEM_STORAGE_TEST_EXTENDED \<equiv> 3 :: nat"

text \<open>\<open>BLOCKDEV_TEST_OPS_TYPE_SHORT\<close> is bit 0 of the support mask and \<open>EXTENDED\<close> bit 1.\<close>

definition diagnostics_init :: "ui_board \<Rightarrow> ui_callback" where
  "diagnostics_init b ui =
     (case ext_nat b Ev_storage_test_supported ui of (support, ui) \<Rightarrow>
        let ui = (if \<not> bit support 0 then set_disabled DIAGNOSTICS_ITEM_STORAGE_TEST_SHORT ui else ui);
            ui = (if \<not> bit support 1 then set_disabled DIAGNOSTICS_ITEM_STORAGE_TEST_EXTENDED ui else ui)
        in (VB2_SUCCESS, set_focus DIAGNOSTICS_ITEM_STORAGE_HEALTH ui))"

definition diagnostics_reinit :: ui_callback where
  "diagnostics_reinit ui = (VB2_SUCCESS, ui\<lparr>dcache_state := UI_DCACHE_STATE_SCHEDULE_CLEAN\<rparr>)"

text \<open>The dump of the reports as one event log entry.\<close>

definition diagnostics_exit :: ui_callback where
  "diagnostics_exit ui = (VB2_SUCCESS, ext Ev_report_elog ui)"

definition diagnostics_action :: ui_callback where
  "diagnostics_action ui =
     (VB2_SUCCESS,
      case dcache_state ui of
        UI_DCACHE_STATE_SCHEDULE_CLEAN \<Rightarrow> ui\<lparr>dcache_state := UI_DCACHE_STATE_NEED_CLEAN_AFTER_UI_DISPLAY\<rparr>
      | UI_DCACHE_STATE_NEED_CLEAN_AFTER_UI_DISPLAY \<Rightarrow>
          (ext Ev_dcache_clean ui)\<lparr>dcache_state := UI_DCACHE_STATE_CLEANED\<rparr>
      | UI_DCACHE_STATE_CLEANED \<Rightarrow> ui)"

definition diagnostics_items :: "ui_menu_item list" where
  "diagnostics_items =
     [LANGUAGE_SELECT_ITEM, item_to UI_SCREEN_DIAGNOSTICS_STORAGE_HEALTH,
      item_to UI_SCREEN_DIAGNOSTICS_STORAGE_TEST_SHORT, item_to UI_SCREEN_DIAGNOSTICS_STORAGE_TEST_EXTENDED,
      item_to UI_SCREEN_DIAGNOSTICS_MEMORY_QUICK, item_to UI_SCREEN_DIAGNOSTICS_MEMORY_FULL, POWER_OFF_ITEM]"

definition diagnostics_screen :: "ui_board \<Rightarrow> ui_screen_info" where
  "diagnostics_screen b =
     (plain_screen UI_SCREEN_DIAGNOSTICS)
       \<lparr>si_menu := diagnostics_items, si_init := Some (diagnostics_init b),
        si_reinit := Some diagnostics_reinit, si_exit := Some diagnostics_exit,
        si_action := Some diagnostics_action\<rparr>"

definition diagnostics_test_exit :: ui_callback where
  "diagnostics_test_exit ui =
     (VB2_SUCCESS, ext Ev_dcache_clean (ext (Ev_report_end Diag_aborted) ui))"

text \<open>The text buffers are allocated once; their content is the answer of the dump.\<close>

definition diagnostics_storage_health_init_impl :: "ui_board \<Rightarrow> ui_screen_info list \<Rightarrow> ui_callback" where
  "diagnostics_storage_health_init_impl b scr ui =
     (case (if storage_health_str ui = None then ext_bool b Ev_malloc ui else (True, ui)) of (malloc_ok, ui) \<Rightarrow>
        if \<not> malloc_ok then (VB2_ERROR_UI_MEMORY_ALLOC, ui)
        else case ext_str b Ev_storage_health ui of (log, ui) \<Rightarrow>
          vb2_try (log_page_update b scr (Some (str_or [] log)) (ui\<lparr>storage_health_str := Some (str_or [] log)\<rparr>))
            (log_page_reset_to_top b scr))"

definition diagnostics_storage_health_init :: "ui_board \<Rightarrow> ui_screen_info list \<Rightarrow> ui_callback" where
  "diagnostics_storage_health_init b scr ui =
     (case diagnostics_storage_health_init_impl b scr (ext (Ev_report_start Diag_storage_health) ui) of (rv, ui) \<Rightarrow>
        if vb2_is_error rv
        then set_ui_error_and_go_back scr UI_ERROR_DIAGNOSTICS (ext (Ev_report_end Diag_error) ui)
        else (VB2_SUCCESS, ext (Ev_report_end Diag_passed) ui))"

definition diagnostics_storage_health_screen :: "ui_board \<Rightarrow> ui_screen_info list \<Rightarrow> ui_screen_info" where
  "diagnostics_storage_health_screen b scr =
     (plain_screen UI_SCREEN_DIAGNOSTICS_STORAGE_HEALTH)
       \<lparr>si_init := Some (diagnostics_storage_health_init b scr), si_exit := Some diagnostics_test_exit,
        si_action := Some (fullview_log_screen_action b scr)\<rparr>"

text \<open>The switch over the result of a test, shared by the storage and the memory tests.\<close>

abbreviation set_test_state :: "ui_test_state \<Rightarrow> ui_context \<Rightarrow> ui_context" where
  "set_test_state t \<equiv> set_cur (\<lambda>s. s\<lparr>test_state := t\<rparr>)"

definition diag_result_update ::
  "ui_board \<Rightarrow> ui_screen_info list \<Rightarrow> diag_test_result \<Rightarrow> u8 list option \<Rightarrow> ui_callback" where
  "diag_result_update b scr res log ui =
     (case res of
        DIAG_TEST_FAILED \<Rightarrow>
          log_page_update b scr log (ext (Ev_report_end Diag_failed) (set_test_state UI_TEST_STATE_FINISHED ui))
      | DIAG_TEST_PASSED \<Rightarrow>
          log_page_update b scr log (ext (Ev_report_end Diag_passed) (set_test_state UI_TEST_STATE_FINISHED ui))
      | DIAG_TEST_RUNNING \<Rightarrow> (VB2_SUCCESS, set_test_state UI_TEST_STATE_RUNNING ui)
      | DIAG_TEST_UPDATED \<Rightarrow> log_page_update b scr log (set_test_state UI_TEST_STATE_RUNNING ui)
      | _ \<Rightarrow> (VB2_ERROR_UI_LOG_INIT, ext (Ev_report_end Diag_error) ui))"

definition diagnostics_storage_test_update_impl :: "ui_board \<Rightarrow> ui_screen_info list \<Rightarrow> ui_callback" where
  "diagnostics_storage_test_update_impl b scr ui =
     (if test_state (cur ui) = UI_TEST_STATE_FINISHED then (VB2_SUCCESS, ui)
      else case (if storage_test_log_str ui = None then ext_bool b Ev_malloc ui else (True, ui)) of (malloc_ok, ui) \<Rightarrow>
        if \<not> malloc_ok then (VB2_ERROR_UI_MEMORY_ALLOC, ui)
        else let res = ans_diag b (ui_trace ui) Ev_storage_test_log;
                 log = str_or [] (ans_str b (ui_trace ui) Ev_storage_test_log)
             in diag_result_update b scr res (Some log)
                  ((ext Ev_storage_test_log ui)\<lparr>storage_test_log_str := Some log\<rparr>))"

definition diagnostics_storage_test_update :: "ui_board \<Rightarrow> ui_screen_info list \<Rightarrow> ui_callback" where
  "diagnostics_storage_test_update b scr ui =
     (case diagnostics_storage_test_update_impl b scr ui of (rv, ui) \<Rightarrow>
        if vb2_is_error rv then set_ui_error_and_go_back scr UI_ERROR_DIAGNOSTICS ui else (VB2_SUCCESS, ui))"

definition diagnostics_storage_test_control ::
  "ui_board \<Rightarrow> ui_screen_info list \<Rightarrow> storage_test_op \<Rightarrow> ui_callback" where
  "diagnostics_storage_test_control b scr test_op ui =
     (case ext_bool b (Ev_storage_test_control test_op) ui of (failed, ui) \<Rightarrow>
        if failed then set_ui_error_and_go_back scr UI_ERROR_DIAGNOSTICS ui else (VB2_SUCCESS, ui))"

definition diagnostics_storage_test_init :: "ui_board \<Rightarrow> ui_screen_info list \<Rightarrow> ui_callback" where
  "diagnostics_storage_test_init b scr ui =
     vb2_try (diagnostics_storage_test_update b scr ui) (reset_or_go_back b scr UI_ERROR_DIAGNOSTICS)"

definition diagnostics_storage_test_short_init :: "ui_board \<Rightarrow> ui_screen_info list \<Rightarrow> ui_callback" where
  "diagnostics_storage_test_short_init b scr ui =
     vb2_try (diagnostics_storage_test_control b scr BLOCKDEV_TEST_OPS_TYPE_STOP
                (ext (Ev_report_start Diag_storage_short) ui)) (\<lambda>ui.
       vb2_try (diagnostics_storage_test_control b scr BLOCKDEV_TEST_OPS_TYPE_SHORT ui)
         (diagnostics_storage_test_init b scr))"

definition diagnostics_storage_test_extended_init :: "ui_board \<Rightarrow> ui_screen_info list \<Rightarrow> ui_callback" where
  "diagnostics_storage_test_extended_init b scr ui =
     vb2_try (diagnostics_storage_test_control b scr BLOCKDEV_TEST_OPS_TYPE_STOP
                (ext (Ev_report_start Diag_storage_extended) ui)) (\<lambda>ui.
       vb2_try (diagnostics_storage_test_control b scr BLOCKDEV_TEST_OPS_TYPE_EXTENDED ui)
         (diagnostics_storage_test_init b scr))"

definition diagnostics_storage_test_cancel :: "ui_board \<Rightarrow> ui_screen_info list \<Rightarrow> ui_callback" where
  "diagnostics_storage_test_cancel b scr ui =
     vb2_try (diagnostics_storage_test_control b scr BLOCKDEV_TEST_OPS_TYPE_STOP ui) (ui_screen_back scr)"

definition diagnostics_storage_test_items :: "ui_board \<Rightarrow> ui_screen_info list \<Rightarrow> ui_menu_item list" where
  "diagnostics_storage_test_items b scr =
     [PAGE_UP_ITEM b scr, PAGE_DOWN_ITEM b scr, item_do (diagnostics_storage_test_cancel b scr), POWER_OFF_ITEM]"

definition diagnostics_storage_test_short_screen :: "ui_board \<Rightarrow> ui_screen_info list \<Rightarrow> ui_screen_info" where
  "diagnostics_storage_test_short_screen b scr =
     (plain_screen UI_SCREEN_DIAGNOSTICS_STORAGE_TEST_SHORT)
       \<lparr>si_menu := diagnostics_storage_test_items b scr,
        si_init := Some (diagnostics_storage_test_short_init b scr), si_exit := Some diagnostics_test_exit,
        si_action := Some (diagnostics_storage_test_update b scr),
        page_up_item := 0, page_down_item := 1, back_item := 2\<rparr>"

definition diagnostics_storage_test_extended_screen :: "ui_board \<Rightarrow> ui_screen_info list \<Rightarrow> ui_screen_info" where
  "diagnostics_storage_test_extended_screen b scr =
     (plain_screen UI_SCREEN_DIAGNOSTICS_STORAGE_TEST_EXTENDED)
       \<lparr>si_menu := diagnostics_storage_test_items b scr,
        si_init := Some (diagnostics_storage_test_extended_init b scr), si_exit := Some diagnostics_test_exit,
        si_action := Some (diagnostics_storage_test_update b scr),
        page_up_item := 0, page_down_item := 1, back_item := 2\<rparr>"

definition diagnostics_memory_update_screen_impl :: "ui_board \<Rightarrow> ui_screen_info list \<Rightarrow> bool \<Rightarrow> bool \<Rightarrow> ui_callback" where
  "diagnostics_memory_update_screen_impl b scr full reset ui =
     (if test_state (cur ui) = UI_TEST_STATE_FINISHED then (VB2_SUCCESS, ui)
      else case (if reset then ext_bool b (Ev_memory_test_init full) ui else (False, ui)) of (failed, ui) \<Rightarrow>
        if failed then (VB2_ERROR_UI_LOG_INIT, ui)
        else diag_result_update b scr (ans_diag b (ui_trace ui) Ev_memory_test_run)
               (ans_str b (ui_trace ui) Ev_memory_test_run) (ext Ev_memory_test_run ui))"

definition diagnostics_memory_update_screen :: "ui_board \<Rightarrow> ui_screen_info list \<Rightarrow> bool \<Rightarrow> bool \<Rightarrow> ui_callback" where
  "diagnostics_memory_update_screen b scr full reset ui =
     (case diagnostics_memory_update_screen_impl b scr full reset ui of (rv, ui) \<Rightarrow>
        if vb2_is_error rv then set_ui_error_and_go_back scr UI_ERROR_DIAGNOSTICS ui else (VB2_SUCCESS, ui))"

definition diagnostics_memory_init_quick :: "ui_board \<Rightarrow> ui_screen_info list \<Rightarrow> ui_callback" where
  "diagnostics_memory_init_quick b scr ui =
     vb2_try (diagnostics_memory_update_screen b scr False True (ext (Ev_report_start Diag_memory_quick) ui))
       (reset_or_go_back b scr UI_ERROR_DIAGNOSTICS)"

definition diagnostics_memory_init_full :: "ui_board \<Rightarrow> ui_screen_info list \<Rightarrow> ui_callback" where
  "diagnostics_memory_init_full b scr ui =
     vb2_try (diagnostics_memory_update_screen b scr True True (ext (Ev_report_start Diag_memory_full) ui))
       (reset_or_go_back b scr UI_ERROR_DIAGNOSTICS)"

definition diagnostics_memory_update_quick :: "ui_board \<Rightarrow> ui_screen_info list \<Rightarrow> ui_callback" where
  "diagnostics_memory_update_quick b scr = diagnostics_memory_update_screen b scr False False"

definition diagnostics_memory_update_full :: "ui_board \<Rightarrow> ui_screen_info list \<Rightarrow> ui_callback" where
  "diagnostics_memory_update_full b scr = diagnostics_memory_update_screen b scr True False"

definition diagnostics_memory_items :: "ui_board \<Rightarrow> ui_screen_info list \<Rightarrow> ui_menu_item list" where
  "diagnostics_memory_items b scr =
     [PAGE_UP_ITEM b scr, PAGE_DOWN_ITEM b scr, item_do (ui_screen_back scr), POWER_OFF_ITEM]"

definition diagnostics_memory_quick_screen :: "ui_board \<Rightarrow> ui_screen_info list \<Rightarrow> ui_screen_info" where
  "diagnostics_memory_quick_screen b scr =
     (plain_screen UI_SCREEN_DIAGNOSTICS_MEMORY_QUICK)
       \<lparr>si_menu := diagnostics_memory_items b scr, si_init := Some (diagnostics_memory_init_quick b scr),
        si_exit := Some diagnostics_test_exit, si_action := Some (diagnostics_memory_update_quick b scr),
        page_up_item := 0, page_down_item := 1, back_item := 2\<rparr>"

definition diagnostics_memory_full_screen :: "ui_board \<Rightarrow> ui_screen_info list \<Rightarrow> ui_screen_info" where
  "diagnostics_memory_full_screen b scr =
     (plain_screen UI_SCREEN_DIAGNOSTICS_MEMORY_FULL)
       \<lparr>si_menu := diagnostics_memory_items b scr, si_init := Some (diagnostics_memory_init_full b scr),
        si_exit := Some diagnostics_test_exit, si_action := Some (diagnostics_memory_update_full b scr),
        page_up_item := 0, page_down_item := 1, back_item := 2\<rparr>"

section \<open>Model: the table\<close>

definition screen_table :: "ui_board \<Rightarrow> ui_screen_info list \<Rightarrow> ui_screen_info list" where
  "screen_table b scr =
     [firmware_sync_screen, language_select_screen b scr, broken_screen, advanced_options_screen b scr,
      debug_info_screen b scr, firmware_log_screen b scr, fastboot_screen b scr, recovery_to_dev_screen b scr,
      recovery_select_screen b, recovery_disk_step1_screen scr, recovery_disk_step2_screen scr,
      recovery_invalid_screen, recovery_rollback_error_screen, developer_mode_screen b scr,
      developer_to_norm_screen b scr, developer_boot_external_screen b scr,
      developer_invalid_disk_screen b scr, developer_select_bootloader_screen b scr, diagnostics_screen b,
      diagnostics_storage_health_screen b scr, diagnostics_storage_test_short_screen b scr,
      diagnostics_storage_test_extended_screen b scr, diagnostics_memory_quick_screen b scr,
      diagnostics_memory_full_screen b scr]"

definition no_actions :: "ui_menu_item list \<Rightarrow> ui_menu_item list" where
  "no_actions = map (\<lambda>item. item\<lparr>mi_action := None\<rparr>)"

definition no_callbacks :: "ui_screen_info \<Rightarrow> ui_screen_info" where
  "no_callbacks s =
     s\<lparr>si_init := None, si_reinit := None, si_exit := None, si_action := None,
       si_menu := no_actions (si_menu s),
       si_get_menu := map_option (\<lambda>g ui. map_prod (map_option no_actions) id (g ui)) (si_get_menu s)\<rparr>"

primrec screens :: "ui_board \<Rightarrow> nat \<Rightarrow> ui_screen_info list" where
  "screens b 0 = map no_callbacks (screen_table b [])"
| "screens b (Suc n) = screen_table b (screens b n)"

section \<open>The callbacks keep the invariant\<close>

lemma ok_case_prod [ui_ok]:
  "ok_from b a (snd r) \<Longrightarrow> (\<And>x u. r = (x, u) \<Longrightarrow> ok_from b a u \<Longrightarrow> ok_from b a (snd (k x u))) \<Longrightarrow>
   ok_from b a (snd (case r of (x, u) \<Rightarrow> k x u))"
  by (cases r) simp

lemma ok_case_log [ui_ok]:
  fixes r :: "vb2_rv \<times> ui_log_info"
  shows "(\<And>x l. r = (x, l) \<Longrightarrow> ok_from b a (snd (k x l))) \<Longrightarrow> ok_from b a (snd (case r of (x, l) \<Rightarrow> k x l))"
  by (cases r) simp

lemma ok_if_ui [ui_ok]:
  "(c \<Longrightarrow> ok_from b a x) \<Longrightarrow> (\<not> c \<Longrightarrow> ok_from b a y) \<Longrightarrow> ok_from b a (if c then x else y)"
  by simp

lemma ok_case_option [ui_ok]:
  "(x = None \<Longrightarrow> ok_from b a n) \<Longrightarrow> (\<And>y. x = Some y \<Longrightarrow> ok_from b a (s y)) \<Longrightarrow>
   ok_from b a (case x of None \<Rightarrow> n | Some y \<Rightarrow> s y)"
  by (cases x) simp_all

lemma ok_case_option_snd [ui_ok]:
  "(x = None \<Longrightarrow> ok_from b a (snd n)) \<Longrightarrow> (\<And>y. x = Some y \<Longrightarrow> ok_from b a (snd (s y))) \<Longrightarrow>
   ok_from b a (snd (case x of None \<Rightarrow> n | Some y \<Rightarrow> s y))"
  by (cases x) simp_all

lemma ok_ext_calls [ui_ok]:
  assumes "ok_from b a ui" and "e \<noteq> Ev_enable_developer_mode"
  shows "ok_from b a (snd (ext_rv b e ui))" "ok_from b a (snd (ext_bool b e ui))"
    "ok_from b a (snd (ext_nat b e ui))" "ok_from b a (snd (ext_str b e ui))"
    "ok_from b a (snd (ext_nats b e ui))"
  using assms by (simp_all add: ext_rv_def ext_bool_def ext_nat_def ext_str_def ext_nats_def ok_ext)

lemma ext_calls_cur:
  "ext_rv b e ui = (x, u) \<Longrightarrow> cur u = cur ui" "ext_bool b e ui = (y, u) \<Longrightarrow> cur u = cur ui"
  "ext_nat b e ui = (n, u) \<Longrightarrow> cur u = cur ui" "ext_str b e ui = (s, u) \<Longrightarrow> cur u = cur ui"
  "ext_nats b e ui = (ns, u) \<Longrightarrow> cur u = cur ui"
  by (auto simp: ext_rv_def ext_bool_def ext_nat_def ext_str_def ext_nats_def)

lemma ok_nonempty: "ok_from b a ui \<Longrightarrow> ui_states ui \<noteq> []"
  by (simp add: ok_from_def ui_inv_def)

lemma states_set_cur [simp]: "ui_states (set_cur f ui) = [] \<longleftrightarrow> ui_states ui = []"
  by (simp add: set_cur_def split: list.splits)

lemma screen_set_cur:
  assumes "ui_states ui \<noteq> []" and "\<And>s. st_screen (f s) = st_screen s"
  shows "st_screen (cur (set_cur f ui)) = st_screen (cur ui)"
  using assms by (simp add: cur_set_cur)

lemma ok_set_ui_error [ui_ok]:
  assumes "ok_from b a ui"
  shows "ok_from b a (snd (set_ui_error code ui))"
  unfolding set_ui_error_def by (intro ui_ok assms) simp_all

lemma ok_power_off [ui_ok]: "ok_from b a ui \<Longrightarrow> ok_from b a (snd (power_off_action ui))"
  by (simp add: power_off_action_def)

lemma ok_log_page_set_text [ui_ok]:
  assumes "ok_from b a ui"
  shows "ok_from b a (snd (log_page_set_text b str ui))"
  unfolding log_page_set_text_def Let_def
  by (intro ui_ok assms) simp_all

context ui_table
begin

lemma ok_set_ui_error_and_go_back [ui_ok]:
  assumes "ok_from b a ui"
  shows "ok_from b a (snd (set_ui_error_and_go_back screens code ui))"
  unfolding set_ui_error_and_go_back_def by (intro ui_ok assms)

lemma ok_get_menu:
  assumes "ok_from b a ui" and "\<And>menu u. ui_get_menu screens ui = (menu, u) \<Longrightarrow> ok_from b a u \<Longrightarrow>
    cur u = cur ui \<Longrightarrow>
    (menu \<noteq> [] \<Longrightarrow> length menu = menu_size (language_menu u) (bootloader_menu u) (st_screen (cur ui))) \<Longrightarrow>
    (menu \<noteq> [] \<Longrightarrow> st_screen (cur ui) = UI_SCREEN_DEVELOPER_SELECT_ALTFW \<Longrightarrow> bootloader_menu u \<noteq> 0) \<Longrightarrow>
    ok_from b a (snd (k menu u))"
  shows "ok_from b a (snd (case ui_get_menu screens ui of (menu, u) \<Rightarrow> k menu u))"
proof -
  obtain menu u where m: "ui_get_menu screens ui = (menu, u)" by force
  show ?thesis using assms(2) [OF m] get_menu_ok' [OF assms(1) m] m by (simp add: cur_def)
qed

lemma ok_log_page_update [ui_ok]:
  assumes "ok_from b a ui"
  shows "ok_from b a (snd (log_page_update b screens str ui))"
  unfolding log_page_update_def Let_def
  by (intro ok_try ok_get_menu ui_ok assms) simp_all


lemma page_items_less:
  assumes "ok_from b a ui"
  shows "page_down_item (screen_of screens ui) < max 1 (static_menu_size (st_screen (cur ui)))"
    and "back_item (screen_of screens ui) < max 1 (static_menu_size (st_screen (cur ui)))"
  using screen_of_ok [OF ok_inv [OF assms]] by (auto simp: screen_ok_def)

lemma ok_log_page_reset_to_top [ui_ok]:
  assumes "ok_from b a ui"
  shows "ok_from b a (snd (log_page_reset_to_top b screens ui))"
  unfolding log_page_reset_to_top_def Let_def
  using page_items_less [OF assms(1)] assms
  by (intro ok_log_page_update ok_set_focus ui_ok) (auto simp: screen_set_cur ok_nonempty menu_size_def)

lemma ok_log_page_action [ui_ok]:
  assumes "ok_from b a ui"
  shows "ok_from b a (snd (log_page_action b screens f stop np ui))"
  unfolding log_page_action_def
  using assms by (cases "log_type (st_log (cur ui))") (auto intro!: ui_ok split: option.splits)

lemma ok_log_page_anchor [ui_ok]:
  assumes "ok_from b a ui"
  shows "ok_from b a (snd (log_page_anchor b screens fwd ui))"
  unfolding log_page_anchor_def Let_def by (intro ui_ok assms) simp_all

lemma ok_fullview_log_screen_action [ui_ok]:
  assumes "ok_from b a ui"
  shows "ok_from b a (snd (fullview_log_screen_action b screens ui))"
  unfolding fullview_log_screen_action_def Let_def log_page_prev_action_def log_page_next_action_def
    log_page_first_action_def log_page_last_action_def log_page_prev_anchor_def log_page_next_anchor_def
  by (intro ui_ok assms)

lemma ok_language_select_init:
  assumes "ok_from b a ui" and "st_screen (cur ui) = UI_SCREEN_LANGUAGE_SELECT"
  shows "ok_from b a (snd (language_select_init screens ui))"
  unfolding language_select_init_def
  using assms by (intro ok_get_menu ok_set_focus ui_ok) auto

lemma ok_language_select_action [ui_ok]:
  assumes "ok_from b a ui"
  shows "ok_from b a (snd (language_select_action b screens ui))"
  unfolding language_select_action_def get_locale_info_def Let_def using assms by (auto intro!: ui_ok)

end

lemma ok_boot_nbr_impl [ui_ok]:
  assumes "ok_from b a ui"
  shows "ok_from b a (snd (boot_nbr_impl b x ui))"
  unfolding boot_nbr_impl_def by (intro ui_ok assms) simp_all

lemma ok_advanced_options_init:
  assumes "ok_from b a ui" and "st_screen (cur ui) = UI_SCREEN_ADVANCED_OPTIONS"
  shows "ok_from b a (snd (advanced_options_init b ui))"
proof -
  have f: "ok_from b a (set_focus k u)" if "ok_from b a u" "st_screen (cur u) = UI_SCREEN_ADVANCED_OPTIONS" "k < 9" for k u
    using that by (intro ok_set_focus) (simp_all add: menu_size_def)
  show ?thesis
    unfolding advanced_options_init_def Let_def ext_bool_def
    using assms ok_nonempty [OF assms(1)]
    by (auto intro!: ok_pair ok_if_ui ok_set_cur_keep ok_ext f simp: screen_set_cur)
qed

lemma ok_enter_fwshell [ui_ok]:
  assumes "ok_from b a ui"
  shows "ok_from b a (snd (ui_developer_mode_enter_fwshell_action b ui))"
  unfolding ui_developer_mode_enter_fwshell_action_def by (intro ui_ok assms) simp_all

lemma ok_read_strings:
  "ok_from b a ui \<Longrightarrow> Ev_enable_developer_mode \<notin> set es \<Longrightarrow> ok_from b a (snd (read_strings b dflt es ui))"
proof (induction es arbitrary: ui)
  case (Cons e es)
  then have "ok_from b a (snd (ext_str b e ui))" by (intro ui_ok) auto
  with Cons show ?case by (auto split: prod.splits) (metis snd_conv)
qed simp

lemma ok_tpm_battery [ui_ok]:
  assumes "ok_from b a ui"
  shows "ok_from b a (snd (tpm_state_str b ui))" "ok_from b a (snd (battery_str b ui))"
  unfolding tpm_state_str_def battery_str_def by (intro ui_ok assms; simp)+

lemma ok_debug_info_get_string [ui_ok]:
  assumes "ok_from b a ui"
  shows "ok_from b a (snd (debug_info_get_string b ui))"
  unfolding debug_info_get_string_def Let_def by (intro ok_read_strings ui_ok assms) simp_all

lemma ok_recovery_to_dev_init:
  assumes "ui_table b scr" "ok_from b a ui" and "st_screen (cur ui) = UI_SCREEN_RECOVERY_TO_DEV"
  shows "ok_from b a (snd (recovery_to_dev_init b scr ui))"
proof -
  have f: "ok_from b a (set_focus k u)" if "ok_from b a u" "st_screen (cur u) = UI_SCREEN_RECOVERY_TO_DEV" "k < 4" for k u
    using that by (intro ok_set_focus) (simp_all add: menu_size_def)
  show ?thesis
    unfolding recovery_to_dev_init_def Let_def ext_bool_def
    using assms ok_nonempty [OF assms(2)]
    by (auto intro!: ui_table.ok_set_ui_error_and_go_back ui_table.screen_back_ok ok_fields ok_set_cur_keep
        ok_ext f simp: screen_set_cur)
qed

lemma ok_fastboot_follow_log [ui_ok]:
  assumes "ok_from b a ui"
  shows "ok_from b a (fastboot_follow_log fb ui)"
  unfolding fastboot_follow_log_def Let_def by (intro ui_ok assms) simp_all

lemma ok_fastboot_exit [ui_ok]:
  assumes "ok_from b a ui"
  shows "ok_from b a (snd (fastboot_exit b ui))"
  unfolding fastboot_exit_def Let_def by (intro ui_ok assms) simp_all

lemma ok_bcb_requests_fastboot [ui_ok]:
  "ok_from b a ui \<Longrightarrow> ok_from b a (snd (bcb_requests_fastboot b n i ui))"
proof (induction n arbitrary: i ui)
  case (Suc n)
  show ?case
    using Suc.prems unfolding bcb_requests_fastboot.simps Let_def by (intro ui_ok Suc.IH) simp_all
qed simp

lemma ok_simple_actions [ui_ok]:
  assumes "ok_from b a ui"
  shows "ok_from b a (snd (launch_diagnostics_action ui))"
    "ok_from b a (snd (ui_developer_mode_boot_internal_action b ui))"
    "ok_from b a (snd (developer_boot_altfw_impl b n ui))"
    "ok_from b a (snd (developer_to_norm_action b ui))"
    "ok_from b a (snd (diagnostics_reinit ui))" "ok_from b a (snd (diagnostics_exit ui))"
    "ok_from b a (snd (diagnostics_action ui))" "ok_from b a (snd (diagnostics_test_exit ui))"
proof -
  show "ok_from b a (snd (launch_diagnostics_action ui))" "ok_from b a (snd (diagnostics_exit ui))"
    "ok_from b a (snd (diagnostics_reinit ui))" "ok_from b a (snd (diagnostics_test_exit ui))"
    using assms by (auto simp: launch_diagnostics_action_def diagnostics_exit_def diagnostics_reinit_def
        diagnostics_test_exit_def intro!: ui_ok)
  show "ok_from b a (snd (ui_developer_mode_boot_internal_action b ui))"
    unfolding ui_developer_mode_boot_internal_action_def by (intro ui_ok assms) simp_all
  show "ok_from b a (snd (developer_boot_altfw_impl b n ui))"
    unfolding developer_boot_altfw_impl_def by (intro ui_ok assms) simp_all
  show "ok_from b a (snd (developer_to_norm_action b ui))"
    unfolding developer_to_norm_action_def by (intro ui_ok assms) simp_all
  show "ok_from b a (snd (diagnostics_action ui))"
    using assms by (cases "dcache_state ui") (auto simp: diagnostics_action_def intro!: ui_ok)
qed

lemma ok_recovery_select_init:
  assumes "ok_from b a ui" and "st_screen (cur ui) = UI_SCREEN_RECOVERY_SELECT"
  shows "ok_from b a (snd (recovery_select_init b ui))"
  unfolding recovery_select_init_def Let_def ext_bool_def
  using assms by (auto intro!: ok_set_cur_keep ok_ext ok_set_focus simp: menu_size_def)

lemma ok_diagnostics_init:
  assumes "ok_from b a ui" and "st_screen (cur ui) = UI_SCREEN_DIAGNOSTICS"
  shows "ok_from b a (snd (diagnostics_init b ui))"
  unfolding diagnostics_init_def Let_def ext_nat_def
  using assms ok_nonempty [OF assms(1)]
  by (auto intro!: ok_set_cur_keep ok_ext ok_set_focus simp: menu_size_def screen_set_cur)

context ui_table
begin

lemma ok_reset_or_go_back [ui_ok]:
  assumes "ok_from b a ui"
  shows "ok_from b a (snd (reset_or_go_back b screens err ui))"
  unfolding reset_or_go_back_def by (intro ui_ok assms)

lemma ok_debug_info_init:
  assumes "ok_from b a ui"
  shows "ok_from b a (snd (debug_info_init b screens ui))"
  unfolding debug_info_init_def debug_info_set_content_def by (intro ok_try ui_ok assms)

lemma ok_firmware_log_init:
  assumes "ok_from b a ui"
  shows "ok_from b a (snd (firmware_log_init b screens ui))"
proof -
  have "ok_from b a (snd (firmware_log_set_content b screens True ui))"
    unfolding firmware_log_set_content_def Let_def by (intro ui_ok assms) simp_all
  then show ?thesis unfolding firmware_log_init_def by (intro ok_try ui_ok)
qed

lemma ok_fastboot_screen_init [ui_ok]:
  assumes "ok_from b a ui"
  shows "ok_from b a (snd (fastboot_screen_init screens ui))"
  unfolding fastboot_screen_init_def by (intro ui_ok assms)

lemma ok_fastboot_serve [ui_ok]:
  assumes "ok_from b a ui"
  shows "ok_from b a (snd (fastboot_serve b screens fb ui))"
  unfolding fastboot_serve_def Let_def by (intro ui_ok assms) simp_all

lemma ok_fastboot_action [ui_ok]:
  assumes "ok_from b a ui"
  shows "ok_from b a (snd (fastboot_action b screens ui))"
  unfolding fastboot_action_def Let_def by (intro ui_ok assms) simp_all

lemma ok_start_fastboot_if_requested [ui_ok]:
  assumes "ok_from b a ui"
  shows "ok_from b a (snd (start_fastboot_if_requested b screens ui))"
  unfolding start_fastboot_if_requested_def by (intro ui_ok assms) simp_all

lemma ok_developer_mode_init:
  assumes "ok_from b a ui" and "st_screen (cur ui) = UI_SCREEN_DEVELOPER_MODE"
  shows "ok_from b a (snd (developer_mode_init b screens ui))"
proof -
  have f: "ok_from b a (set_focus k u)" if "ok_from b a u" "st_screen (cur u) = UI_SCREEN_DEVELOPER_MODE" "k < 7" for k u
    using that by (intro ok_set_focus) (simp_all add: menu_size_def)
  define u where "u = set_focus (case default_boot (ui_ctx ui) of Boot_external \<Rightarrow> 3 | Boot_altfw \<Rightarrow> 4 | Boot_internal \<Rightarrow> 2)
    (if \<not> dev_boot_altfw_allowed (ui_ctx ui) then set_hidden 4 ui else ui)"
  have "ok_from b a u"
    unfolding u_def using assms ok_nonempty [OF assms(1)]
    by (intro f ok_if_ui ok_set_cur_keep)
      (auto simp: screen_set_cur split: default_boot_target.splits)
  then have "ok_from b a ((ext Ev_mtime (snd (start_fastboot_if_requested b screens u)))\<lparr>start_time_ms := n\<rparr>)" for n
    by (intro ui_ok) simp_all
  then show ?thesis
    by (cases "dev_boot_altfw_allowed (ui_ctx ui)")
      (simp_all add: developer_mode_init_def Let_def ext_nat_def u_def)
qed

lemma ok_boot_external_action [ui_ok]:
  assumes "ok_from b a ui"
  shows "ok_from b a (snd (ui_developer_mode_boot_external_action b screens ui))"
  unfolding ui_developer_mode_boot_external_action_def Let_def by (intro ui_ok assms) simp_all

lemma ok_boot_default_target [ui_ok]:
  assumes "ok_from b a ui"
  shows "ok_from b a (snd (boot_default_target b screens ui))"
  using assms by (auto simp: boot_default_target_def ui_developer_mode_boot_altfw_action_def
      intro!: ui_ok split: default_boot_target.splits)

lemma ok_developer_mode_action [ui_ok]:
  assumes "ok_from b a ui"
  shows "ok_from b a (snd (developer_mode_action b screens ui))"
  unfolding developer_mode_action_def Let_def by (intro ui_ok assms) simp_all

lemma ok_developer_to_norm_init:
  assumes "ok_from b a ui" and "st_screen (cur ui) = UI_SCREEN_DEVELOPER_TO_NORM"
  shows "ok_from b a (snd (developer_to_norm_init screens ui))"
proof -
  have f: "ok_from b a (set_focus 1 ui)" using assms by (intro ok_set_focus) (simp_all add: menu_size_def)
  show ?thesis
    unfolding developer_to_norm_init_def Let_def
    by (intro ok_if ok_pair ok_set_ui_error_and_go_back ok_set_ui_error assms f
        ok_set_cur_keep [where f = "\<lambda>s. s\<lparr>hidden_item_mask := set_bit 2 (hidden_item_mask s)\<rparr>"]) simp_all
qed

lemma ok_external_disk_init:
  assumes "ok_from b a ui"
    and "st_screen (cur ui) = UI_SCREEN_DEVELOPER_BOOT_EXTERNAL \<or> st_screen (cur ui) = UI_SCREEN_DEVELOPER_INVALID_DISK"
  shows "ok_from b a (snd (developer_boot_external_init b screens ui))"
    and "ok_from b a (snd (developer_invalid_disk_init b screens ui))"
proof -
  define u where "u = set_focus 1 ui"
  have "ok_from b a u" unfolding u_def using assms by (intro ok_set_focus) (auto simp: menu_size_def)
  then have c: "ok_from b a (snd (developer_boot_external_check screens (set_focus 1 ui)))"
    unfolding developer_boot_external_check_def u_def [symmetric] by (intro ui_ok)
  show "ok_from b a (snd (developer_boot_external_init b screens ui))"
    unfolding developer_boot_external_init_def by (intro ok_try c ui_ok) simp_all
  show "ok_from b a (snd (developer_invalid_disk_init b screens ui))"
    unfolding developer_invalid_disk_init_def by (intro ok_try c ui_ok) simp_all
qed

lemma ok_select_bootloader_init:
  assumes "ok_from b a ui" and "st_screen (cur ui) = UI_SCREEN_DEVELOPER_SELECT_ALTFW"
  shows "ok_from b a (snd (developer_select_bootloader_init screens ui))"
  unfolding developer_select_bootloader_init_def
proof (intro ok_get_menu assms ok_if ok_pair ok_set_ui_error_and_go_back ok_set_focus)
  fix menu u
  assume "ok_from b a u" "cur u = cur ui" "menu \<noteq> []"
    "menu \<noteq> [] \<Longrightarrow> st_screen (cur ui) = UI_SCREEN_DEVELOPER_SELECT_ALTFW \<Longrightarrow> bootloader_menu u \<noteq> 0"
  then show "menu_size (language_menu u) (bootloader_menu u) (st_screen (cur u)) = 0 \<or>
    length developer_select_altfw_items_before < menu_size (language_menu u) (bootloader_menu u) (st_screen (cur u))"
    using assms(2) by (simp add: ok_from_def ui_inv_def menu_size_def developer_select_altfw_items_before_def)
qed

lemma ok_storage_health_init:
  assumes "ok_from b a ui"
  shows "ok_from b a (snd (diagnostics_storage_health_init b screens ui))"
proof -
  have "ok_from b a (snd (diagnostics_storage_health_init_impl b screens u))" if "ok_from b a u" for u
    unfolding diagnostics_storage_health_init_impl_def using that by (intro ok_try ui_ok) simp_all
  note impl = this
  show ?thesis
    unfolding diagnostics_storage_health_init_def by (intro ui_ok impl assms) simp_all
qed

lemma ok_diag_result_update [ui_ok]:
  assumes "ok_from b a ui"
  shows "ok_from b a (snd (diag_result_update b screens res log ui))"
  using assms by (cases res) (auto simp: diag_result_update_def intro!: ui_ok)

lemma ok_storage_test_update [ui_ok]:
  assumes "ok_from b a ui"
  shows "ok_from b a (snd (diagnostics_storage_test_update b screens ui))"
  unfolding diagnostics_storage_test_update_def diagnostics_storage_test_update_impl_def Let_def
  by (intro ui_ok assms) simp_all

lemma ok_storage_test_control [ui_ok]:
  assumes "ok_from b a ui"
  shows "ok_from b a (snd (diagnostics_storage_test_control b screens t ui))"
  unfolding diagnostics_storage_test_control_def by (intro ui_ok assms) simp_all

lemma ok_storage_test_inits:
  assumes "ok_from b a ui"
  shows "ok_from b a (snd (diagnostics_storage_test_short_init b screens ui))"
    and "ok_from b a (snd (diagnostics_storage_test_extended_init b screens ui))"
    and "ok_from b a (snd (diagnostics_storage_test_cancel b screens ui))"
  unfolding diagnostics_storage_test_short_init_def diagnostics_storage_test_extended_init_def
    diagnostics_storage_test_init_def diagnostics_storage_test_cancel_def
  by (intro ok_try ui_ok assms; simp)+

lemma ok_memory_update [ui_ok]:
  assumes "ok_from b a ui"
  shows "ok_from b a (snd (diagnostics_memory_update_screen b screens full reset ui))"
  unfolding diagnostics_memory_update_screen_def diagnostics_memory_update_screen_impl_def
  by (intro ui_ok assms) simp_all

lemma ok_memory_inits:
  assumes "ok_from b a ui"
  shows "ok_from b a (snd (diagnostics_memory_init_quick b screens ui))"
    and "ok_from b a (snd (diagnostics_memory_init_full b screens ui))"
  unfolding diagnostics_memory_init_quick_def diagnostics_memory_init_full_def
  by (intro ok_try ui_ok assms; simp)+

end
section \<open>Every screen of the table\<close>

lemmas menus = broken_items_def advanced_options_items_def recovery_to_dev_items_def recovery_select_items_def
  recovery_disk_step1_items_def recovery_disk_step2_items_def recovery_invalid_items_def
  recovery_rollback_error_items_def developer_mode_items_def developer_to_norm_items_def
  developer_boot_external_items_def developer_invalid_disk_items_def diagnostics_items_def
  diagnostics_storage_test_items_def diagnostics_memory_items_def

lemma opt_ok_None [simp]: "opt_ok b sid None"
  by (simp add: opt_ok_def)

lemma opt_okI:
  assumes "\<And>a ui. ok_from b a ui \<Longrightarrow> st_screen (cur ui) = sid \<Longrightarrow> ok_from b a (snd (f ui))"
  shows "opt_ok b sid (Some f)"
  using assms by (auto simp: opt_ok_def ok_at_def intro: ok_refl)

lemma action_ok_None [simp]: "action_ok b sid None"
  by (simp add: action_ok_def)

lemma action_okI:
  assumes "\<And>a ui. ok_from b a ui \<Longrightarrow> ok_from b a (snd (f ui))"
  shows "action_ok b sid (Some f)"
  using assms [OF ok_refl] by (auto simp: action_ok_def ok_from_def)

definition item_ok :: "ui_board \<Rightarrow> ui_screen \<Rightarrow> ui_menu_item \<Rightarrow> bool" where
  "item_ok b sid item \<longleftrightarrow> opt_ok b sid (mi_action item)"

lemma menu_ok_list: "menu_ok b sid menu \<longleftrightarrow> list_all (item_ok b sid) menu"
  by (auto simp: menu_ok_def list_all_iff item_ok_def opt_ok_def)

lemma item_ok_do: "item_ok b sid (item_do f) \<longleftrightarrow> opt_ok b sid (Some f)"
  by (simp add: item_ok_def item_do_def)

lemma item_ok_static [simp]:
  "item_ok b sid (item_to t)" "item_ok b sid LANGUAGE_SELECT_ITEM" "item_ok b sid (NEXT_ITEM t)"
  "item_ok b sid ADVANCED_OPTIONS_ITEM" "item_ok b sid POWER_OFF_ITEM"
  by (auto simp: item_ok_def item_to_def LANGUAGE_SELECT_ITEM_def NEXT_ITEM_def ADVANCED_OPTIONS_ITEM_def
      POWER_OFF_ITEM_def item_do_def intro!: opt_okI ui_ok)

lemma ok_language_menu:
  assumes "ok_from b a ui" and "language_menu ui = 0"
  shows "ok_from b a (ui\<lparr>language_menu := n\<rparr>)"
proof -
  have "focus_ok n m s" if "focus_ok 0 m s" for m s
    using that by (auto simp: focus_ok_def menu_size_def split: if_splits)
  then show ?thesis
    using assms by (auto simp: ok_from_def quiet_def ui_inv_def list_all_iff)
qed

lemma ok_bootloader_menu:
  assumes "ok_from b a ui" and "bootloader_menu ui = 0" and "3 < n"
  shows "ok_from b a (ui\<lparr>bootloader_menu := n\<rparr>)"
proof -
  have "focus_ok l n s" if "focus_ok l 0 s" for l s
    using that by (auto simp: focus_ok_def menu_size_def split: if_splits)
  then show ?thesis
    using assms by (auto simp: ok_from_def quiet_def ui_inv_def list_all_iff)
qed

text \<open>What the generated menus are; a menu is built once and then kept.\<close>

lemma language_menu_facts:
  fixes b scr ui
  assumes "ui_inv b ui"
  defines "g \<equiv> get_language_menu b scr ui"
  shows "ok_from b ui (snd g)" and "ui_states (snd g) = ui_states ui"
    and "fst g = Some m \<Longrightarrow> language_menu (snd g) > 0 \<and>
      m = replicate (language_menu (snd g)) (item_do (language_select_action b scr))"
  unfolding g_def get_language_menu_def Let_def ext_nat_def ext_bool_def
  using ok_refl [OF assms(1)] by (auto intro!: ok_language_menu ok_ext split: if_splits)

lemma length_bootloader_items: "length (bootloader_items b scr n) = n + 3"
  by (simp add: bootloader_items_def developer_select_altfw_items_before_def developer_select_altfw_items_after_def)

lemma bootloader_menu_facts:
  fixes b scr ui
  assumes "ui_inv b ui"
  defines "g \<equiv> get_bootloader_menu b scr ui"
  shows "ok_from b ui (snd g)" and "ui_states (snd g) = ui_states ui"
    and "fst g = Some m \<Longrightarrow> bootloader_menu (snd g) > 3 \<and> m = bootloader_items b scr (bootloader_menu (snd g) - 3)"
proof -
  have "bootloader_menu ui = 0 \<or> 3 < bootloader_menu ui" using assms(1) by (simp add: ui_inv_def)
  then show "ok_from b ui (snd g)" and "ui_states (snd g) = ui_states ui"
    and "fst g = Some m \<Longrightarrow> bootloader_menu (snd g) > 3 \<and> m = bootloader_items b scr (bootloader_menu (snd g) - 3)"
    unfolding g_def get_bootloader_menu_def Let_def ext_nats_def ext_bool_def
    using ok_refl [OF assms(1)]
    by (auto simp: length_bootloader_items intro!: ok_bootloader_menu ok_ext split: if_splits)
qed

lemma recovery_to_dev_finalize_ok:
  assumes "ui_inv b ui"
  shows "ui_inv b (snd (recovery_to_dev_finalize b ui)) \<and>
    (quiet ui (snd (recovery_to_dev_finalize b ui)) \<or>
     st_screen (cur ui) = UI_SCREEN_RECOVERY_TO_DEV \<and> \<not> developer_mode (ui_ctx ui) \<and> manual_recovery (ui_ctx ui))"
  using assms by (auto simp: recovery_to_dev_finalize_def ext_rv_def ui_inv_def ext_def presence_seen_Cons)

lemma quiet_cong: "ui_trace u = ui_trace u' \<Longrightarrow> quiet u v = quiet u' v"
  by (simp add: quiet_def)

lemma inv_presence:
  assumes "ui_inv b ui" and "ans_bool b (ui_trace ui) Ev_physical_presence_pressed"
  shows "ui_inv b ((ext Ev_physical_presence_pressed ui)\<lparr>physical_presence_button_pressed := True\<rparr>)"
proof -
  have "presence_seen b (Ev_physical_presence_pressed # ui_trace ui)"
    using assms(2) unfolding presence_seen_def by (metis append_Nil)
  then show ?thesis using assms(1) by (simp add: ui_inv_def)
qed

context ui_table
begin

lemma recovery_to_dev_action_ok: "action_ok b sid (Some (recovery_to_dev_action b screens))"
  unfolding action_ok_def
proof (intro allI impI, elim conjE)
  fix f ui
  assume f: "Some (recovery_to_dev_action b screens) = Some f" and inv: "ui_inv b ui"
  define key where "key \<longleftrightarrow> ui_key ui = UI_KEY_ENTER \<or> cfg_detachable b \<and> ui_key ui = UI_BUTTON_POWER_SHORT_PRESS"
  let ?p = "ext Ev_physical_presence_pressed ui"
  have bck: "ok_from b ui (snd (ui_screen_back screens (ui\<lparr>ui_key := 0\<rparr>)))"
    using inv by (intro ui_ok)
  have p: "ui_inv b ?p" "quiet ui ?p" using inv by (auto intro: ok_ext [OF ok_refl, unfolded ok_from_def, THEN conjunct1] quiet_ext)
  have conf: "ui_inv b (snd (recovery_to_dev_confirm_action b ui)) \<and>
      (quiet ui (snd (recovery_to_dev_confirm_action b ui)) \<or> dev_confirmed b ui)" if "key"
  proof (cases "key_trusted ui")
    case False
    have "ok_from b ui (snd (recovery_to_dev_confirm_action b ui))"
      using False inv by (auto simp: recovery_to_dev_confirm_action_def Let_def intro!: ui_ok)
    then show ?thesis by (simp add: ok_from_def)
  next
    case True
    have "ui_inv b (ui\<lparr>ui_key := 0\<rparr>)" using inv by (simp add: ui_inv_def)
    from recovery_to_dev_finalize_ok [OF this] show ?thesis
      using True that by (auto simp: recovery_to_dev_confirm_action_def Let_def dev_confirmed_def key_def quiet_def)
  qed
  have fin: "ui_inv b (snd (recovery_to_dev_finalize b ?p)) \<and>
      (quiet ui (snd (recovery_to_dev_finalize b ?p)) \<or> dev_confirmed b ui)"
    if "\<not> cfg_physical_presence_keyboard b" "physical_presence_button_pressed ui"
    using recovery_to_dev_finalize_ok [OF p(1)] that p(2) by (auto simp: dev_confirmed_def intro: quiet_trans)
  have "quiet ui (?p\<lparr>physical_presence_button_pressed := True\<rparr>)" using p(2) by (simp add: quiet_def)
  then show "ui_inv b (snd (f ui)) \<and> (quiet ui (snd (f ui)) \<or> dev_confirmed b ui)"
    using f inv p inv_presence [OF inv] conf fin bck
    by (auto simp: recovery_to_dev_action_def key_def ext_bool_def ok_from_def)
qed

lemma get_language_menu_ok:
  "get_menu_ok b UI_SCREEN_LANGUAGE_SELECT (get_language_menu b screens)"
proof -
  have "menu_ok b UI_SCREEN_LANGUAGE_SELECT (replicate n (item_do (language_select_action b screens)))" for n
    by (auto simp: menu_ok_list list_all_iff item_ok_do intro!: opt_okI ui_ok)
  then show ?thesis
    unfolding get_menu_ok_def using language_menu_facts(1,2)
    by (auto simp: menu_size_def dest!: language_menu_facts(3) [rotated])
qed

lemma get_bootloader_menu_ok:
  "get_menu_ok b UI_SCREEN_DEVELOPER_SELECT_ALTFW (get_bootloader_menu b screens)"
proof -
  have "menu_ok b UI_SCREEN_DEVELOPER_SELECT_ALTFW (bootloader_items b screens n)" for n
    by (auto simp: menu_ok_list list_all_iff item_ok_do bootloader_items_def BACK_ITEM_def
        developer_select_altfw_items_before_def developer_select_altfw_items_after_def
        developer_boot_altfw_id_action_def intro!: opt_okI ui_ok)
  then show ?thesis
    unfolding get_menu_ok_def using bootloader_menu_facts(1,2)
    by (auto simp: menu_size_def length_bootloader_items dest!: bootloader_menu_facts(3) [rotated])
qed

lemma back_item_ok [simp]: "item_ok b sid (BACK_ITEM screens)"
  by (auto simp: BACK_ITEM_def item_ok_do intro!: opt_okI ui_ok)

lemma page_item_ok [simp]: "item_ok b sid (PAGE_UP_ITEM b screens)" "item_ok b sid (PAGE_DOWN_ITEM b screens)"
  by (auto simp: PAGE_UP_ITEM_def PAGE_DOWN_ITEM_def log_page_prev_action_def log_page_next_action_def
      item_ok_do intro!: opt_okI ui_ok)

lemma secondary_item_ok [simp]: "item_ok b sid (i\<lparr>mi_type := t\<rparr>) = item_ok b sid i"
  by (simp add: item_ok_def)

lemma plain_item_ok [simp]: "item_ok b sid \<lparr>mi_type = t, mi_target = x, mi_action = None\<rparr>"
  by (simp add: item_ok_def)

lemma static_menus_ok:
  "list_all (item_ok b sid) broken_items" "list_all (item_ok b sid) (advanced_options_items b screens)"
  "list_all (item_ok b sid) (recovery_to_dev_items screens)" "list_all (item_ok b sid) (recovery_select_items b)"
  "list_all (item_ok b sid) (recovery_disk_step1_items screens)"
  "list_all (item_ok b sid) (recovery_disk_step2_items screens)"
  "list_all (item_ok b sid) recovery_invalid_items" "list_all (item_ok b sid) recovery_rollback_error_items"
  "list_all (item_ok b sid) (developer_mode_items b screens)"
  "list_all (item_ok b sid) (developer_to_norm_items b screens)"
  "list_all (item_ok b sid) (developer_boot_external_items screens)"
  "list_all (item_ok b sid) (developer_invalid_disk_items screens)"
  "list_all (item_ok b sid) diagnostics_items"
  "list_all (item_ok b sid) (diagnostics_storage_test_items b screens)"
  "list_all (item_ok b sid) (diagnostics_memory_items b screens)"
  by (simp_all add: menus item_ok_do boot_old_nbr_action_def ui_recovery_mode_boot_nbr_action_def;
      intro conjI opt_okI ui_ok ok_storage_test_inits; assumption)+

lemma screen_table_ok: "list_all (screen_ok b) (screen_table b screens)"
proof -
  note d = screen_ok_def plain_screen_def menu_ok_list static_menus_ok
  note i = opt_okI action_okI ui_ok
  have "screen_ok b firmware_sync_screen" "screen_ok b broken_screen" "screen_ok b recovery_invalid_screen"
    "screen_ok b recovery_rollback_error_screen" "screen_ok b (recovery_disk_step1_screen screens)"
    "screen_ok b (recovery_disk_step2_screen screens)"
    by (simp_all add: d firmware_sync_screen_def broken_screen_def recovery_invalid_screen_def
        recovery_rollback_error_screen_def recovery_disk_step1_screen_def recovery_disk_step2_screen_def menus)
  moreover have "screen_ok b (language_select_screen b screens)"
    by (auto simp: d language_select_screen_def get_language_menu_ok intro!: i ok_language_select_init)
  moreover have "screen_ok b (advanced_options_screen b screens)" "screen_ok b (recovery_select_screen b)"
    "screen_ok b (developer_to_norm_screen b screens)" "screen_ok b (diagnostics_screen b)"
    by (auto simp: d advanced_options_screen_def recovery_select_screen_def developer_to_norm_screen_def
        diagnostics_screen_def intro!: i ok_advanced_options_init ok_recovery_select_init
        ok_developer_to_norm_init ok_diagnostics_init) (simp_all add: menus)
  moreover have "screen_ok b (debug_info_screen b screens)" "screen_ok b (firmware_log_screen b screens)"
    "screen_ok b (fastboot_screen b screens)" "screen_ok b (diagnostics_storage_health_screen b screens)"
    by (auto simp: d debug_info_screen_def firmware_log_screen_def fastboot_screen_def
        diagnostics_storage_health_screen_def menu_ok_def
        intro!: i ok_debug_info_init ok_firmware_log_init ok_storage_health_init)
  moreover have "screen_ok b (recovery_to_dev_screen b screens)"
    by (auto simp: d recovery_to_dev_screen_def recovery_to_dev_action_ok
        intro!: opt_okI ok_recovery_to_dev_init ui_table_axioms) (simp add: menus)
  moreover have "screen_ok b (developer_mode_screen b screens)"
    by (auto simp: d developer_mode_screen_def intro!: i ok_developer_mode_init) (simp add: menus)
  moreover have "screen_ok b (developer_boot_external_screen b screens)"
    "screen_ok b (developer_invalid_disk_screen b screens)"
    by (auto simp: d developer_boot_external_screen_def developer_invalid_disk_screen_def
        intro!: i ok_external_disk_init) (simp_all add: menus)
  moreover have "screen_ok b (developer_select_bootloader_screen b screens)"
    by (auto simp: d developer_select_bootloader_screen_def get_bootloader_menu_ok
        intro!: i ok_select_bootloader_init)
  moreover have "screen_ok b (diagnostics_storage_test_short_screen b screens)"
    "screen_ok b (diagnostics_storage_test_extended_screen b screens)"
    by (auto simp: d diagnostics_storage_test_short_screen_def diagnostics_storage_test_extended_screen_def
        intro!: i ok_storage_test_inits) (simp_all add: menus)
  moreover have "screen_ok b (diagnostics_memory_quick_screen b screens)"
    "screen_ok b (diagnostics_memory_full_screen b screens)"
    by (auto simp: d diagnostics_memory_quick_screen_def diagnostics_memory_full_screen_def
        diagnostics_memory_update_quick_def diagnostics_memory_update_full_def
        intro!: i ok_memory_inits) (simp_all add: menus)
  ultimately show ?thesis by (simp add: screen_table_def)
qed

end

lemmas screen_defs = plain_screen_def firmware_sync_screen_def
      language_select_screen_def broken_screen_def advanced_options_screen_def debug_info_screen_def
      firmware_log_screen_def fastboot_screen_def recovery_to_dev_screen_def recovery_select_screen_def
      recovery_disk_step1_screen_def recovery_disk_step2_screen_def recovery_invalid_screen_def
      recovery_rollback_error_screen_def developer_mode_screen_def developer_to_norm_screen_def
      developer_boot_external_screen_def developer_invalid_disk_screen_def
      developer_select_bootloader_screen_def diagnostics_screen_def diagnostics_storage_health_screen_def
      diagnostics_storage_test_short_screen_def diagnostics_storage_test_extended_screen_def
      diagnostics_memory_quick_screen_def diagnostics_memory_full_screen_def

lemma screen_table_ids: "map si_id (screen_table b scr) = ui_screen_ids"
  by (simp add: screen_table_def ui_screen_ids_def screen_defs)

lemma no_actions_ok: "menu_ok b sid (no_actions menu)"
  by (auto simp: menu_ok_def no_actions_def)

lemma length_no_actions [simp]: "length (no_actions menu) = length menu"
  by (simp add: no_actions_def)

lemma no_callback_menus_ok:
  "get_menu_ok b UI_SCREEN_LANGUAGE_SELECT
     (\<lambda>ui. map_prod (map_option no_actions) id (get_language_menu b scr ui))"
  "get_menu_ok b UI_SCREEN_DEVELOPER_SELECT_ALTFW
     (\<lambda>ui. map_prod (map_option no_actions) id (get_bootloader_menu b scr ui))"
  unfolding get_menu_ok_def using language_menu_facts(1,2) bootloader_menu_facts(1,2)
  by (auto simp: no_actions_ok menu_size_def length_no_actions length_bootloader_items
      dest!: language_menu_facts(3) [rotated] bootloader_menu_facts(3) [rotated])

lemma no_callbacks_ok: "list_all (screen_ok b) (map no_callbacks (screen_table b scr))"
  by (simp add: screen_table_def screen_ok_def no_callbacks_def screen_defs no_actions_ok no_callback_menus_ok
      menus)

lemma screens_table: "ui_table b (screens b n)"
proof (induction n)
  case 0
  have "map si_id (screens b 0) = map si_id (screen_table b [])" by (simp add: no_callbacks_def)
  then show ?case
    using no_callbacks_ok [of b "[]"] screen_table_ids [of b "[]"] by (intro ui_table.intro) (simp_all del: list.map)
next
  case (Suc n)
  then show ?case
    using ui_table.screen_table_ok [OF Suc] screen_table_ids by (intro ui_table.intro) simp_all
qed

interpretation fw: ui_table b "screens b n" for b n
  by (rule screens_table)

end
