(* ===== verification/Ui_Modes.thy ===== *)
theory Ui_Modes
  imports Ui_Screens
begin

text \<open>
  \<open>src/vboot/ui.c\<close>: which screen each boot mode starts with, and the keyboard shortcuts and kernel
  loading that run in every turn of the loop. The properties of the screens as a whole are here.
\<close>

section \<open>Model\<close>

abbreviation (input) "UI_KEY_TAB \<equiv> (0x09 :: nat)"
abbreviation (input) "UI_KEY_INTERNET_RECOVERY \<equiv> (0x12 :: nat)"
abbreviation (input) "UI_KEY_REC_TO_DEV \<equiv> (0x04 :: nat)"
abbreviation (input) "UI_KEY_DEV_TO_NORM \<equiv> (0x13 :: nat)"
abbreviation (input) "UI_KEY_DEV_BOOT_INTERNAL \<equiv> (0x04 :: nat)"
abbreviation (input) "UI_KEY_DEV_BOOT_EXTERNAL \<equiv> (0x15 :: nat)"
abbreviation (input) "UI_KEY_DEV_BOOT_ALTFW \<equiv> (0x0c :: nat)"
abbreviation (input) "UI_KEY_DEV_ENTER_FWSHELL \<equiv> (0x03 :: nat)"
abbreviation (input) "UI_KEY_DEV_FASTBOOT \<equiv> (0x06 :: nat)"
abbreviation (input) "UI_BUTTON_VOL_UP_LONG_PRESS \<equiv> (0x91 :: nat)"
abbreviation (input) "UI_BUTTON_VOL_DOWN_LONG_PRESS \<equiv> (0x92 :: nat)"
abbreviation (input) "UI_BUTTON_VOL_UP_DOWN_COMBO_PRESS \<equiv> (0x93 :: nat)"

definition ui_broken_screen_action :: "ui_board \<Rightarrow> ui_screen_info list \<Rightarrow> ui_callback" where
  "ui_broken_screen_action b scr ui =
     (if ui_key ui = UI_KEY_TAB then ui_screen_change b scr UI_SCREEN_DEBUG_INFO (ui\<lparr>ui_key := 0\<rparr>)
      else (VB2_SUCCESS, ui))"

definition manual_recovery_shortcuts :: "ui_board \<Rightarrow> ui_screen_info list \<Rightarrow> ui_callback" where
  "manual_recovery_shortcuts b scr ui =
     (if ui_key ui = UI_KEY_REC_TO_DEV \<or>
         cfg_detachable b \<and> ui_key ui = UI_BUTTON_VOL_UP_DOWN_COMBO_PRESS
      then ui_screen_change b scr UI_SCREEN_RECOVERY_TO_DEV (ui\<lparr>ui_key := 0\<rparr>)
      else if ui_key ui = UI_KEY_INTERNET_RECOVERY
      then ui_recovery_mode_boot_nbr_action b (ui\<lparr>ui_key := 0\<rparr>)
      else if ui_key ui = UI_KEY_DEV_FASTBOOT \<and> fastboot_allowed (ui_ctx ui)
      then ui_screen_change b scr UI_SCREEN_FASTBOOT (ui\<lparr>ui_key := 0\<rparr>)
      else if ui_key ui = UI_KEY_TAB then ui_screen_change b scr UI_SCREEN_DEBUG_INFO (ui\<lparr>ui_key := 0\<rparr>)
      else (VB2_SUCCESS, ui))"

definition ui_manual_recovery_action :: "ui_board \<Rightarrow> ui_screen_info list \<Rightarrow> ui_callback" where
  "ui_manual_recovery_action b scr ui =
     (case ext_rv b (Ev_load_kernel BLOCKDEV_REMOVABLE) ui of (rv, ui) \<Rightarrow>
        if rv = VB2_SUCCESS then (VB2_REQUEST_UI_EXIT, ui)
        else if recovery_rv ui \<noteq> rv
        then ui_screen_change b scr
               (if rv = VB2_ERROR_LK_NO_DISK_FOUND then UI_SCREEN_RECOVERY_SELECT
                else if rv = VB2_ERROR_LK_ROLLBACK then UI_SCREEN_RECOVERY_ROLLBACK_ERROR
                else UI_SCREEN_RECOVERY_INVALID)
               (ui\<lparr>recovery_rv := rv\<rparr>)
        else manual_recovery_shortcuts b scr ui)"

definition developer_handler :: "ui_board \<Rightarrow> ui_screen_info list \<Rightarrow> nat \<Rightarrow> ui_callback option" where
  "developer_handler b scr key =
     (if key = UI_KEY_DEV_BOOT_EXTERNAL \<or> cfg_detachable b \<and> key = UI_BUTTON_VOL_UP_LONG_PRESS
      then Some (ui_developer_mode_boot_external_action b scr)
      else if key = UI_KEY_DEV_BOOT_INTERNAL \<or> cfg_detachable b \<and> key = UI_BUTTON_VOL_DOWN_LONG_PRESS
      then Some (ui_developer_mode_boot_internal_action b)
      else if key = UI_KEY_DEV_BOOT_ALTFW then Some (ui_developer_mode_boot_altfw_action b)
      else if key = UI_KEY_DEV_ENTER_FWSHELL then Some (ui_developer_mode_enter_fwshell_action b)
      else None)"

definition developer_action :: "ui_board \<Rightarrow> ui_screen_info list \<Rightarrow> ui_callback" where
  "developer_action b scr ui =
     (let ui = (if dev_boot_allowed (ui_ctx ui) then ext (Ev_get_all_bdevs BLOCKDEV_REMOVABLE) ui else ui)
      in if ui_key ui = UI_KEY_TAB then ui_screen_change b scr UI_SCREEN_DEBUG_INFO (ui\<lparr>ui_key := 0\<rparr>)
         else if \<not> dev_boot_allowed (ui_ctx ui) then (VB2_REQUEST_UI_CONTINUE, ui)
         else if ui_key ui = UI_KEY_DEV_TO_NORM
         then ui_screen_change b scr UI_SCREEN_DEVELOPER_TO_NORM (ui\<lparr>ui_key := 0\<rparr>)
         else if ui_key ui = UI_KEY_DEV_FASTBOOT
         then ui_screen_change b scr UI_SCREEN_FASTBOOT (ui\<lparr>ui_key := 0\<rparr>)
         else case developer_handler b scr (ui_key ui) of
                Some handler \<Rightarrow> handler (ui\<lparr>ui_key := 0\<rparr>)
              | None \<Rightarrow> (VB2_SUCCESS, ui))"

definition mode_root_screen :: "vb2_context \<Rightarrow> ui_screen" where
  "mode_root_screen ctx =
     (case boot_mode ctx of
        VB2_BOOT_MODE_MANUAL_RECOVERY \<Rightarrow> UI_SCREEN_RECOVERY_SELECT
      | VB2_BOOT_MODE_DIAGNOSTICS \<Rightarrow> UI_SCREEN_DIAGNOSTICS
      | VB2_BOOT_MODE_DEVELOPER \<Rightarrow>
          if dev_boot_allowed ctx then UI_SCREEN_DEVELOPER_MODE else UI_SCREEN_DEVELOPER_TO_NORM
      | _ \<Rightarrow> UI_SCREEN_RECOVERY_BROKEN)"

definition mode_global_action :: "ui_board \<Rightarrow> ui_screen_info list \<Rightarrow> vb2_context \<Rightarrow> ui_callback option" where
  "mode_global_action b scr ctx =
     (case boot_mode ctx of
        VB2_BOOT_MODE_MANUAL_RECOVERY \<Rightarrow> Some (ui_manual_recovery_action b scr)
      | VB2_BOOT_MODE_BROKEN_SCREEN \<Rightarrow> Some (ui_broken_screen_action b scr)
      | VB2_BOOT_MODE_DEVELOPER \<Rightarrow> Some (developer_action b scr)
      | _ \<Rightarrow> None)"

text \<open>
  As in \<open>ui_loop\<close>, \<open>None\<close> is a call to \<open>die\<close> and \<open>Some (None, ui)\<close> a loop that still waits for input
  when the given input is used up.
\<close>

definition vboot_select_and_load_kernel ::
  "ui_board \<Rightarrow> ui_screen_info list \<Rightarrow> vb2_context \<Rightarrow> ui_input list \<Rightarrow> ui_context \<Rightarrow>
   (vb2_rv option \<times> ui_context) option" where
  "vboot_select_and_load_kernel b scr ctx inps ui =
     (case boot_mode ctx of
        VB2_BOOT_MODE_NORMAL \<Rightarrow>
          (case ext_rv b (Ev_load_kernel BLOCKDEV_FIXED) ui of (rv, ui) \<Rightarrow> Some (Some rv, ui))
      | VB2_BOOT_MODE_UNDEFINED \<Rightarrow> Some (Some VB2_ERROR_ESCAPE_NO_BOOT, ui)
      | mode \<Rightarrow>
          (case ui_loop b scr ctx (mode_root_screen ctx) (mode_global_action b scr ctx) inps ui of
             Some (Some rv, ui) \<Rightarrow>
               Some (Some (if rv = VB2_SUCCESS \<and> mode = VB2_BOOT_MODE_DIAGNOSTICS then VB2_REQUEST_REBOOT else rv), ui)
           | r \<Rightarrow> r))"

section \<open>The screens as a whole\<close>

context ui_table
begin

lemma init_context_ok:
  assumes "sid \<in> set ui_screen_ids" and "ui_init_context b screens ctx sid ui0 = (rv, ui)"
  shows "ui_inv b ui \<and> quiet ui0 ui"
proof -
  have z: "ui_inv b ui \<and> quiet ui0 ui"
    if "ui_screen_init screens (zero_context ctx ((new_state sid)\<lparr>st_locale := loc\<rparr>) (ui_trace u)) = (rv, ui)"
      "quiet ui0 u" for loc u
  proof -
    define z where "z = zero_context ctx ((new_state sid)\<lparr>st_locale := loc\<rparr>) (ui_trace u)"
    have "ui_inv b z" using assms(1) by (auto simp: z_def ui_inv_def zero_context_def new_state_def focus_ok_def)
    moreover have "quiet ui0 z" using that(2) by (simp add: z_def quiet_def zero_context_def)
    ultimately have "ok_from b ui0 z" by (simp add: ok_from_def)
    then show ?thesis using screen_init_ok [of ui0 z] that(1) by (simp add: ok_from_def z_def)
  qed
  show ?thesis
    using assms screen_known [of sid]
    by (auto simp: ui_init_context_def ext_nat_def get_locale_info_def quiet_ext simp del: ext_fields
        split: if_splits dest!: z)
qed

lemma ok_manual_recovery_shortcuts [ui_ok]:
  assumes "ok_from b a ui"
  shows "ok_from b a (snd (manual_recovery_shortcuts b screens ui))"
  unfolding manual_recovery_shortcuts_def ui_recovery_mode_boot_nbr_action_def by (intro ui_ok assms)

lemma ok_developer_handler:
  assumes "developer_handler b screens key = Some h" and "ok_from b a ui"
  shows "ok_from b a (snd (h ui))"
  using assms by (auto simp: developer_handler_def ui_developer_mode_boot_altfw_action_def
      split: if_splits intro!: ui_ok)

lemma global_action_ok:
  assumes "mode_global_action b screens ctx = Some f"
  shows "ok_at b UNIV f"
proof -
  have "ok_from b a (snd (ui_broken_screen_action b screens ui))" if "ok_from b a ui" for a ui
    using that by (auto simp: ui_broken_screen_action_def intro!: ui_ok)
  moreover have "ok_from b a (snd (ui_manual_recovery_action b screens ui))" if "ok_from b a ui" for a ui
    unfolding ui_manual_recovery_action_def ext_rv_def using that by (auto intro!: ui_ok)
  moreover have "ok_from b a (snd (developer_action b screens ui))" if "ok_from b a ui" for a ui
  proof -
    have "ok_from b a (snd (case developer_handler b screens key of
        Some h \<Rightarrow> h (u\<lparr>ui_key := 0\<rparr>) | None \<Rightarrow> (VB2_SUCCESS, u)))" if "ok_from b a u" for key u
      using that ok_developer_handler [of key _ a "u\<lparr>ui_key := 0\<rparr>"] by (auto intro!: ui_ok split: option.splits)
    moreover define u where "u = (if dev_boot_allowed (ui_ctx ui) then ext (Ev_get_all_bdevs BLOCKDEV_REMOVABLE) ui else ui)"
    moreover have "ok_from b a u" unfolding u_def using that by (intro ok_if_ui ok_ext) simp_all
    ultimately show ?thesis
      unfolding developer_action_def Let_def u_def [symmetric]
      by (intro ok_if screen_change_ok ok_pair ok_fields) simp_all
  qed
  ultimately show ?thesis
    using assms by (auto simp: mode_global_action_def ok_at_def ok_refl split: vb2_boot_mode.splits)
qed

end

lemma mode_root_screen_known: "mode_root_screen ctx \<in> set ui_screen_ids"
  by (simp add: mode_root_screen_def ui_screen_ids_def split: vb2_boot_mode.splits)

text \<open>The loop that a boot mode runs, after its input \<open>inps\<close>.\<close>

definition mode_loop ::
  "ui_board \<Rightarrow> ui_screen_info list \<Rightarrow> vb2_context \<Rightarrow> ui_context \<Rightarrow> ui_input list \<Rightarrow> vb2_rv option \<times> ui_context" where
  "mode_loop b scr ctx ui inps = ui_loop_impl b scr (mode_global_action b scr ctx) inps ui"

definition mode_init :: "ui_board \<Rightarrow> ui_screen_info list \<Rightarrow> vb2_context \<Rightarrow> ui_context \<Rightarrow> vb2_rv \<times> ui_context" where
  "mode_init b scr ctx ui0 = ui_init_context b scr ctx (mode_root_screen ctx) ui0"

lemma mode_loop_ok:
  assumes "mode_init b (screens b n) ctx ui0 = (rv, ui1)" and "mode_loop b (screens b n) ctx ui1 inps = (r, ui)"
  shows "ui_inv b ui" and "quiet ui0 ui \<or>
     (\<exists>before inp rest u. inps = before @ inp # rest \<and>
        mode_loop b (screens b n) ctx ui1 before = (None, u) \<and> dev_request_ok b inp u)"
proof -
  have i: "ui_inv b ui1 \<and> quiet ui0 ui1"
    using fw.init_context_ok [OF mode_root_screen_known] assms(1) by (auto simp: mode_init_def)
  note l = fw.loop_impl_ok [where b = b and n = n and ui = ui1 and ga = "mode_global_action b (screens b n) ctx"
      and inps = inps, OF conjunct1 [OF i] fw.global_action_ok]
  then show "ui_inv b ui" using assms(2) by (simp add: mode_loop_def)
  show "quiet ui0 ui \<or> (\<exists>before inp rest u. inps = before @ inp # rest \<and>
        mode_loop b (screens b n) ctx ui1 before = (None, u) \<and> dev_request_ok b inp u)"
    using l assms(2) i by (auto simp: mode_loop_def intro: quiet_trans)
qed
text \<open>The exit callbacks leave the stack of screens alone, so the cleanup ends.\<close>

lemma set_cur_screens: "(\<And>s. st_screen (f s) = st_screen s) \<Longrightarrow> map st_screen (ui_states (set_cur f ui)) = map st_screen (ui_states ui)"
  by (simp add: set_cur_def split: list.splits)

lemma exit_keeps_screens:
  assumes "s \<in> set (screens b n)" and "si_exit s = Some f"
  shows "map st_screen (ui_states (snd (f ui))) = map st_screen (ui_states ui)"
proof (cases n)
  case 0
  then show ?thesis using assms by (auto simp: no_callbacks_def)
next
  case (Suc m)
  have "map st_screen (ui_states (snd (fastboot_exit b ui))) = map st_screen (ui_states ui)"
    by (auto simp: fastboot_exit_def Let_def ext_nat_def set_cur_screens split: option.splits)
  then have "list_all (\<lambda>s. \<forall>f. si_exit s = Some f \<longrightarrow>
      map st_screen (ui_states (snd (f ui))) = map st_screen (ui_states ui)) (screens b (Suc m))"
    by (simp add: screen_table_def screen_defs diagnostics_exit_def diagnostics_test_exit_def)
  then show ?thesis using assms Suc by (auto simp: list_all_iff)
qed

lemma exit_run_screens:
  assumes "st_screen (cur ui) \<in> set ui_screen_ids"
  shows "map st_screen (ui_states (snd (run_opt (si_exit (screen_of (screens b n) ui)) ui))) = map st_screen (ui_states ui)"
proof -
  have "ui_get_screen_info (screens b n) (st_screen (cur ui)) \<noteq> None"
    using assms fw.screen_known by blast
  then obtain s where "ui_get_screen_info (screens b n) (st_screen (cur ui)) = Some s" by blast
  moreover from this have "s \<in> set (screens b n)" by (auto simp: ui_get_screen_info_def find_Some_iff)
  ultimately show ?thesis
    using exit_keeps_screens by (auto simp: screen_of_def run_opt_def split: option.splits)
qed

lemma cleanup_loop_returns:
  assumes "ui_inv b ui"
  shows "\<exists>rv u. cleanup_loop (screens b n) ui = Some (rv, u) \<and> ui_inv b u"
  using assms
proof (induction "length (ui_states ui)" arbitrary: ui rule: less_induct)
  case less
  define r where "r = run_opt (si_exit (screen_of (screens b n) ui)) ui"
  have ok: "ok_from b ui (snd r)"
    unfolding r_def using ok_refl [OF less.prems] by (intro fw.run_opt_ok [where n = n]) simp_all
  have "map st_screen (ui_states (snd r)) = map st_screen (ui_states ui)"
    unfolding r_def by (rule exit_run_screens [OF cur_known [OF less.prems]])
  then have len: "length (ui_states (snd r)) = length (ui_states ui)" by (metis length_map)
  have "length (pop_states ss) < length ss" if "length ss > 1" for ss
    using that by (cases ss rule: pop_states.cases) auto
  from this [of "ui_states (snd r)"]
  have dec: "length (ui_states (pop_state (snd r))) < length (ui_states ui)" if "length (ui_states ui) > 1"
    using that len by (simp add: pop_state_def)
  have inv: "ui_inv b (pop_state (snd r))" using ok_pop_state [OF ok] by (rule ok_inv)
  show ?case
    using less.hyps [OF dec inv] ok_inv [OF ok] less.prems cleanup_loop.simps [of "screens b n" ui]
    by (cases r) (auto simp: r_def [symmetric])
qed

lemma ui_screen_cleanup_returns:
  "ui_inv b ui \<Longrightarrow> \<exists>r. ui_screen_cleanup (screens b n) ui = Some r"
  using cleanup_loop_returns [of b ui n] by (auto simp: ui_screen_cleanup_def)

section \<open>Nesting of the table\<close>

declare screens.simps [simp del]

text \<open>
  Going back nests at most as deep as the stack is: every nested call is made after a screen was
  popped. So unrolling the table once more than there are screens on the stack changes nothing.
\<close>

lemma length_set_cur [simp]: "length (ui_states (set_cur f ui)) = length (ui_states ui)"
  by (simp add: set_cur_def split: list.splits)

lemma back_not_success: "ui_screen_back scr ui = (rv, u) \<Longrightarrow> rv \<noteq> VB2_SUCCESS"
  by (auto simp: ui_screen_back_def vb2_try_def Let_def split: if_splits prod.splits)

lemma vb2_try_back: "vb2_try (ui_screen_back scr ui) k = ui_screen_back scr ui"
  using back_not_success by (auto simp: vb2_try_def split: prod.splits)

lemma reinit_cong:
  assumes "\<And>u. map st_screen (ui_states u) = map st_screen (ui_states ui) \<Longrightarrow> ui_screen_back scr u = ui_screen_back scr' u"
  shows "run_opt (si_reinit (screen_of (screen_table b scr) ui)) ui = run_opt (si_reinit (screen_of (screen_table b scr') ui)) ui"
proof -
  have "developer_boot_external_init b scr ui = developer_boot_external_init b scr' ui"
    "developer_invalid_disk_init b scr ui = developer_invalid_disk_init b scr' ui"
    using assms by (auto simp: set_cur_screens developer_boot_external_init_def developer_invalid_disk_init_def vb2_try_back
        developer_boot_external_check_def set_ui_error_and_go_back_def set_ui_error_def ext_rv_def vb2_try_def [of "(_, _)"])
  then show ?thesis
    by (cases "st_screen (cur ui)")
      (simp_all add: screen_of_def ui_get_screen_info_def screen_table_def screen_defs run_opt_def)
qed

lemma exit_cong:
  "si_exit (screen_of (screen_table b scr) ui) = si_exit (screen_of (screen_table b scr') ui)"
  by (cases "st_screen (cur ui)")
    (simp_all add: screen_of_def ui_get_screen_info_def screen_table_def screen_defs)

lemma back_depth:
  assumes "length (ui_states ui) \<le> Suc n" and "ui_states ui \<noteq> []" and "st_screen ` set (ui_states ui) \<subseteq> set ui_screen_ids"
  shows "ui_screen_back (screens b n) ui = ui_screen_back (screens b (Suc n)) ui"
  using assms
proof (induction n arbitrary: ui)
  case 0
  then show ?case by (simp add: ui_screen_back_def)
next
  case (Suc n)
  let ?scr = "screens b n" and ?scr' = "screens b (Suc n)"
  define r where "r = run_opt (si_exit (screen_of (screen_table b ?scr) ui)) ui"
  have r': "run_opt (si_exit (screen_of (screen_table b ?scr') ui)) ui = r"
    unfolding r_def by (simp add: exit_cong [of b ?scr ui ?scr'])
  have "st_screen (cur ui) \<in> set ui_screen_ids" using Suc.prems(2,3) by (auto simp: cur_def)
  then have m: "map st_screen (ui_states (snd r)) = map st_screen (ui_states ui)"
    unfolding r_def using exit_run_screens [of ui b "Suc n"] by (simp add: screens.simps)
  have reinit: "run_opt (si_reinit (screen_of (screen_table b ?scr) (pop_state (snd r)))) (pop_state (snd r)) =
      run_opt (si_reinit (screen_of (screen_table b ?scr') (pop_state (snd r)))) (pop_state (snd r))"
    if "length (ui_states ui) > 1"
  proof (rule reinit_cong)
    fix u :: ui_context
    assume "map st_screen (ui_states u) = map st_screen (ui_states (pop_state (snd r)))"
    then have u: "map st_screen (ui_states u) = tl (map st_screen (ui_states ui))"
      using that m by (simp add: pop_state_def map_screen_pop_states) (metis length_map)
    then have "length (ui_states u) = length (ui_states ui) - 1" by (metis length_map length_tl)
    moreover have "st_screen ` set (ui_states u) \<subseteq> st_screen ` set (ui_states ui)"
      using u by (metis image_set list.set_sel(2) subsetI tl_Nil)
    ultimately show "ui_screen_back ?scr u = ui_screen_back ?scr' u"
      using Suc.prems that by (intro Suc.IH) auto
  qed
  show ?case
    unfolding ui_screen_back_def screens.simps(2) r' r_def [symmetric] Let_def
    using reinit r' by (cases r) (simp add: vb2_try_def screens.simps(2))
qed
section \<open>The developer screen\<close>

lemma lookup_screen [simp]:
  "ui_get_screen_info (screens b (Suc n)) UI_SCREEN_RECOVERY_SELECT = Some (recovery_select_screen b)"
  "ui_get_screen_info (screens b (Suc n)) UI_SCREEN_RECOVERY_TO_DEV = Some (recovery_to_dev_screen b (screens b n))"
  "ui_get_screen_info (screens b (Suc n)) UI_SCREEN_DEVELOPER_MODE = Some (developer_mode_screen b (screens b n))"
  "ui_get_screen_info (screens b (Suc n)) UI_SCREEN_FASTBOOT = Some (fastboot_screen b (screens b n))"
  by (simp_all add: ui_get_screen_info_def screens.simps screen_table_def screen_defs)

definition idle :: "ui_input \<Rightarrow> ui_context \<Rightarrow> bool" where
  "idle inp ui \<longleftrightarrow> in_key inp = 0 \<and> in_lid_open inp \<and> \<not> in_power_pressed inp \<and> power_button ui \<noteq> UI_POWER_BUTTON_PRESSED"

definition dev_timeout :: "ui_board \<Rightarrow> ui_context \<Rightarrow> bool" where
  "dev_timeout b ui \<longleftrightarrow>
     sub64 (ans_nat b (ui_trace ui) Ev_mtime) (start_time_ms ui) >
     (if gbb_dev_screen_short_delay (ui_ctx ui) then DEV_DELAY_SHORT_MS else DEV_DELAY_NORMAL_MS)"

definition internal_boot :: "ui_board \<Rightarrow> ui_context \<Rightarrow> vb2_rv" where
  "internal_boot b ui = ans_rv b (Ev_mtime # ui_trace ui) (Ev_load_kernel BLOCKDEV_FIXED)"

text \<open>The context before the screen's action runs.\<close>

lemma idle_turn:
  assumes "idle inp ui"
  shows "\<exists>p. ui_loop_turn b scr ga inp ui =
    loop_step (loop_step (loop_step (None, ui\<lparr>error_beep := False, force_display := False, ui_key := 0,
        key_trusted := in_key_trusted inp, power_button := p\<rparr>)
      (\<lambda>ui. run_opt (si_action (screen_of scr ui)) ui)) (ui_menu_navigation_action b scr)) (run_opt ga)"
proof -
  have "\<exists>p. check_shutdown_request b inp (ui\<lparr>error_beep := False, force_display := False, ui_key := 0,
        key_trusted := in_key_trusted inp\<rparr>) = (VB2_SUCCESS, ui\<lparr>error_beep := False, force_display := False, ui_key := 0,
        key_trusted := in_key_trusted inp, power_button := p\<rparr>)"
  proof (cases "cfg_detachable b")
    case True
    then show ?thesis using assms by (intro exI [of _ "power_button ui"]) (simp add: check_shutdown_request_def idle_def)
  next
    case False
    then show ?thesis using assms by (intro exI [of _ UI_POWER_BUTTON_RELEASED]) (simp add: check_shutdown_request_def idle_def Let_def)
  qed
  then obtain p where "check_shutdown_request b inp (ui\<lparr>error_beep := False, force_display := False, ui_key := 0,
        key_trusted := in_key_trusted inp\<rparr>) = (VB2_SUCCESS, ui\<lparr>error_beep := False, force_display := False, ui_key := 0,
        key_trusted := in_key_trusted inp, power_button := p\<rparr>)" by blast
  then show ?thesis
    using assms by (intro exI [of _ p]) (simp add: ui_loop_turn_def Let_def idle_def loop_step_def ui_error_exit_action_def)
qed

lemma start_time_ext [simp]: "start_time_ms (ext e ui) = start_time_ms ui" "error_code (cur (ext e ui)) = error_code (cur ui)"
  by (simp_all add: ext_def cur_def)

lemma timeout_action:
  assumes "ui_states ui \<noteq> []" "\<not> timer_disabled (cur ui)" "error_code (cur ui) = UI_ERROR_NONE" "ui_key ui = 0"
    and "developer_mode (ui_ctx ui)" "dev_boot_allowed (ui_ctx ui)" "default_boot (ui_ctx ui) = Boot_internal"
    and "dev_timeout b ui"
  shows "developer_mode_action b scr ui =
    (let ui1 = ext (Ev_load_kernel BLOCKDEV_FIXED) (set_cur (\<lambda>s. s\<lparr>timer_disabled := True\<rparr>) (ext Ev_mtime ui))
     in if internal_boot b ui = VB2_SUCCESS then (VB2_REQUEST_UI_EXIT, ui1)
        else ui_screen_change b scr UI_SCREEN_FASTBOOT
          (set_cur (\<lambda>s. s\<lparr>error_code := UI_ERROR_INTERNAL_BOOT_FAILED\<rparr>) (ui1\<lparr>error_beep := True\<rparr>)))"
  using assms
  by (auto simp: developer_mode_action_def Let_def dev_timeout_def internal_boot_def ext_nat_def
      boot_default_target_def ui_developer_mode_boot_internal_action_def ext_rv_def set_ui_error_def
      cur_set_cur split: prod.splits)

lemma change_to_fastboot:
  assumes "ui_states ui \<noteq> []" "UI_SCREEN_FASTBOOT \<notin> st_screen ` set (ui_states ui)"
    and "fastboot_allowed (ui_ctx ui)" "ans_bool b (ui_trace ui) Ev_malloc"
  shows "ui_screen_change b (screens b (Suc n)) UI_SCREEN_FASTBOOT ui =
    (VB2_REQUEST_UI_CONTINUE, push_state (new_state UI_SCREEN_FASTBOOT) (ext Ev_malloc ui))"
proof -
  have "cur ui \<in> set (ui_states ui)" using assms(1) by (simp add: cur_def)
  then have "st_screen (cur ui) \<noteq> UI_SCREEN_FASTBOOT" using assms(2) by (metis imageI)
  moreover have "st_screen (cur (push_state (new_state UI_SCREEN_FASTBOOT) u)) = UI_SCREEN_FASTBOOT" for u
    by (simp add: push_state_def cur_def new_state_def split: list.splits)
  moreover have "ui_ctx (push_state s u) = ui_ctx u" for s u by (simp add: push_state_def)
  ultimately show ?thesis
    using assms by (simp add: ui_screen_change_def ext_bool_def ui_screen_init_def screen_of_def fastboot_screen_def
        plain_screen_def fastboot_screen_init_def vb2_try_def)
qed

text \<open>Where fastboot is not allowed, its screen goes back at once.\<close>

lemma change_to_fastboot_refused:
  assumes "ui_states ui \<noteq> []" "UI_SCREEN_FASTBOOT \<notin> st_screen ` set (ui_states ui)"
    and "\<not> fastboot_allowed (ui_ctx ui)" "ans_bool b (ui_trace ui) Ev_malloc"
    and "st_screen (cur ui) = UI_SCREEN_DEVELOPER_MODE" "timer_disabled (cur ui)"
  shows "ui_screen_change b (screens b (Suc (Suc n))) UI_SCREEN_FASTBOOT ui =
    (VB2_REQUEST_UI_CONTINUE, pop_state (push_state (new_state UI_SCREEN_FASTBOOT) (ext Ev_malloc ui)))"
proof -
  obtain s r where st: "ui_states ui = s # r" using assms(1) by (cases "ui_states ui") simp_all
  define v where "v = push_state (new_state UI_SCREEN_FASTBOOT) (ext Ev_malloc ui)"
  have v: "ui_ctx v = ui_ctx ui" "ui_states v = preserve_state (new_state UI_SCREEN_FASTBOOT) s # s # r"
    "st_screen (cur v) = UI_SCREEN_FASTBOOT" "fb_session (cur v) = None" "timer_disabled (cur v)"
    using assms(6) st by (simp_all add: v_def push_state_def cur_def preserve_state_def new_state_def)
  have w: "st_screen (cur (pop_state v)) = UI_SCREEN_DEVELOPER_MODE"
    using v(2) st assms(5) by (simp add: pop_state_def cur_def preserve_state_def)
  have "fastboot_exit b v = (VB2_SUCCESS, v)" using v by (simp add: fastboot_exit_def)
  then have "run_opt (si_exit (screen_of (screens b (Suc n)) v)) v = (VB2_SUCCESS, v)"
    using v(3) by (simp add: screen_of_def fastboot_screen_def plain_screen_def run_opt_def)
  moreover have "run_opt (si_reinit (screen_of (screens b (Suc n)) (pop_state v))) (pop_state v) = (VB2_SUCCESS, pop_state v)"
    using w by (simp add: screen_of_def developer_mode_screen_def plain_screen_def run_opt_def)
  ultimately have gone: "ui_screen_back (screens b (Suc n)) v = (VB2_REQUEST_UI_CONTINUE, pop_state v)"
    using v(2) by (simp add: ui_screen_back_def vb2_try_def Let_def)
  have "ui_screen_init (screens b (Suc (Suc n))) v = (VB2_REQUEST_UI_CONTINUE, pop_state v)"
    using v(1,3) assms(3) gone by (simp add: ui_screen_init_def screen_of_def fastboot_screen_def plain_screen_def
        fastboot_screen_init_def)
  then show ?thesis
    using assms(1,2,4,5) by (simp add: ui_screen_change_def ext_bool_def vb2_try_def v_def)
qed

lemma developer_action_idle:
  assumes "dev_boot_allowed (ui_ctx ui)" "ui_key ui = 0"
  shows "developer_action b scr ui = (VB2_SUCCESS, ext (Ev_get_all_bdevs BLOCKDEV_REMOVABLE) ui)"
  using assms by (simp add: developer_action_def developer_handler_def)

section \<open>Properties\<close>

text \<open>A board with a keyboard for presence, no disk with a kernel, and a clock that stands still.\<close>

definition ex_board :: ui_board where
  "ex_board =
     \<lparr>cfg_detachable = False, cfg_physical_presence_keyboard = True, cfg_mock_tpm = True,
      cfg_driver_tpm = False, cfg_driver_ec_cros = False, ans_rv = (\<lambda>_ _. VB2_ERROR_LK_NO_DISK_FOUND),
      ans_bool = (\<lambda>_ _. True), ans_nat = (\<lambda>_ _. 0), ans_str = (\<lambda>_ _. None), ans_nats = (\<lambda>_ _. None),
      ans_locale = (\<lambda>_ _. en_locale), ans_diag = (\<lambda>_ _. DIAG_TEST_PASSED),
      ans_fb_log = (\<lambda>_ _. \<lparr>log_buf = [], log_idx = 0, log_total_len = 0\<rparr>),
      log_dimensions = (\<lambda>_ _. (VB2_SUCCESS, 24, 80))\<rparr>"

definition ex_ctx :: vb2_context where
  "ex_ctx =
     \<lparr>developer_mode = False, boot_mode = VB2_BOOT_MODE_MANUAL_RECOVERY, recovery_mode = True,
      fastboot_allowed = False, dev_boot_allowed = False, dev_boot_external_allowed = False,
      dev_boot_altfw_allowed = False, oem_lock_enabled = False, default_boot = Boot_internal,
      gbb_disable_lid_shutdown = False, gbb_dev_screen_short_delay = False, gbb_force_dev_switch_on = False\<rparr>"

definition ex_key :: "nat \<Rightarrow> ui_input" where
  "ex_key k = \<lparr>in_key = k, in_key_trusted = True, in_lid_open = True, in_external_display = False,
     in_power_pressed = False\<rparr>"

definition ex_ui0 :: ui_context where
  "ex_ui0 = zero_context ex_ctx (new_state UI_SCREEN_FIRMWARE_SYNC) []"

abbreviation "ex_scr \<equiv> screens ex_board (Suc (Suc 0))"

definition ex_ui1 :: ui_context where
  "ex_ui1 = zero_context ex_ctx ((new_state UI_SCREEN_RECOVERY_SELECT)\<lparr>st_locale := en_locale, focused_item := 1\<rparr>)
     [Ev_diagnostic_ui_enabled, Ev_get_locale_info 0, Ev_get_locale_id]"

lemma ex_init: "mode_init ex_board ex_scr ex_ctx ex_ui0 = (VB2_SUCCESS, ex_ui1)"
  by (simp add: mode_init_def mode_root_screen_def ui_init_context_def ex_ctx_def ex_board_def ext_nat_def get_locale_info_def
     ui_screen_init_def screen_of_def cur_def zero_context_def new_state_def recovery_select_screen_def plain_screen_def
     recovery_select_init_def ext_bool_def ext_def set_cur_def ex_ui0_def ex_ui1_def)

lemmas run_defs = mode_loop_def ui_loop_turn_def loop_step_def check_shutdown_request_def ui_error_exit_action_def
  ui_menu_navigation_action_def map_buttons_def mode_global_action_def ui_manual_recovery_action_def
  manual_recovery_shortcuts_def ui_screen_change_def screen_of_def cur_def set_cur_def ext_def ext_rv_def ext_bool_def run_opt_def
  recovery_select_screen_def recovery_to_dev_screen_def plain_screen_def push_state_def new_state_def preserve_state_def
  ui_screen_init_def recovery_to_dev_init_def recovery_to_dev_action_def recovery_to_dev_confirm_action_def recovery_to_dev_finalize_def
  vb2_try_def zero_context_def Let_def

lemma ex_run_requests_dev: "Ev_enable_developer_mode \<in> set (ui_trace (snd (mode_loop ex_board ex_scr ex_ctx ex_ui1 [ex_key 4, ex_key 4, ex_key 13])))"
  by (simp add: run_defs ex_ctx_def ex_board_def ex_key_def ex_ui1_def)
text \<open>
  C36. The stack of screens is always well formed: after any input, in any boot mode and whatever
  the calls into the rest of the firmware answer, the screens on the stack are distinct entries
  of the table, and when the current screen has a menu then the focused item is one of its items.
  So \<open>ui_menu_select\<close> never reads past the end of a menu, and the stack is never deeper than the
  table of screens is long.
\<close>

theorem ui_stack_well_formed:
  assumes "mode_init b (screens b n) ctx ui0 = (rv, ui1)"
    and "mode_loop b (screens b n) ctx ui1 inps = (r, ui)"
  shows "ui_states ui \<noteq> [] \<and> distinct (map st_screen (ui_states ui)) \<and>
    (\<forall>s \<in> set (ui_states ui). ui_get_screen_info (screens b n) (st_screen s) \<noteq> None) \<and>
    length (ui_states ui) \<le> length (screens b n) \<and>
    (fst (ui_get_menu (screens b n) ui) \<noteq> [] \<longrightarrow>
       focused_item (cur ui) < length (fst (ui_get_menu (screens b n) ui)))"
proof -
  have inv: "ui_inv b ui" using mode_loop_ok [OF assms] by simp
  obtain menu u where m: "ui_get_menu (screens b n) ui = (menu, u)" by force
  note g = fw.get_menu_ok' [OF ok_refl [OF inv] m]
  have "focused_item (cur u) < length menu" if "menu \<noteq> []"
    using that g(4) g(2) by (intro fw.focus_less [OF ok_inv [OF g(1)]]) (auto simp: cur_def)
  moreover have "cur u = cur ui" using g(2) by (simp add: cur_def)
  moreover have "length (ui_states ui) \<le> length (screens b n)"
  proof -
    have "length (ui_states ui) = card (st_screen ` set (ui_states ui))"
      using inv by (metis distinct_card length_map list.set_map ui_inv_def)
    also have "\<dots> \<le> card (set ui_screen_ids)" using inv by (auto simp: ui_inv_def intro!: card_mono)
    also have "\<dots> \<le> length (screens b n)" by (metis card_length fw.ids length_map)
    finally show ?thesis .
  qed
  ultimately show ?thesis
    using inv m fw.screen_known [where b = b and n = n] by (auto simp: ui_inv_def)
qed

theorem ui_stack_well_formed_witness:
  "distinct (map st_screen (ui_states (snd (mode_loop ex_board ex_scr ex_ctx ex_ui1 [ex_key 4, ex_key 4, ex_key 13]))))"
  using ui_stack_well_formed [OF ex_init, of "[ex_key 4, ex_key 4, ex_key 13]"] by (metis surj_pair snd_conv)

text \<open>
  C37. Developer mode is only ever requested by someone who is present: if \<open>vb2api_enable_developer_mode\<close>
  was called while the screens ran, then in some turn of the loop the transition screen was shown, in
  manual recovery, developer mode was off, and either ENTER (or the power button of a detachable) came from
  a trusted keyboard, or the board confirms presence with a button and that button had been read as
  pressed before.
\<close>

theorem developer_mode_needs_confirmation:
  assumes "mode_init b (screens b n) ctx ui0 = (rv, ui1)"
    and "mode_loop b (screens b n) ctx ui1 inps = (r, ui)"
    and "Ev_enable_developer_mode \<notin> set (ui_trace ui0)" and "Ev_enable_developer_mode \<in> set (ui_trace ui)"
  shows "\<exists>before inp rest u. inps = before @ inp # rest \<and>
    mode_loop b (screens b n) ctx ui1 before = (None, u) \<and>
    st_screen (cur u) = UI_SCREEN_RECOVERY_TO_DEV \<and> \<not> developer_mode (ui_ctx u) \<and>
    boot_mode (ui_ctx u) = VB2_BOOT_MODE_MANUAL_RECOVERY \<and>
    (in_key_trusted inp \<and>
       (in_key inp = UI_KEY_ENTER \<or> cfg_detachable b \<and> in_key inp = UI_BUTTON_POWER_SHORT_PRESS) \<or>
     \<not> cfg_physical_presence_keyboard b \<and> presence_seen b (ui_trace u))"
proof -
  have "\<not> quiet ui0 ui" using assms(3,4) by (auto simp: quiet_def)
  then show ?thesis using mode_loop_ok(2) [OF assms(1,2)] by (auto simp: dev_request_ok_def)
qed

theorem developer_mode_needs_confirmation_witness:
  "\<exists>before inp rest u. [ex_key 4, ex_key 4, ex_key 13] = before @ inp # rest \<and>
     mode_loop ex_board ex_scr ex_ctx ex_ui1 before = (None, u) \<and> st_screen (cur u) = UI_SCREEN_RECOVERY_TO_DEV"
proof -
  have "mode_loop ex_board ex_scr ex_ctx ex_ui1 [ex_key 4, ex_key 4, ex_key 13] =
      (fst (mode_loop ex_board ex_scr ex_ctx ex_ui1 [ex_key 4, ex_key 4, ex_key 13]),
       snd (mode_loop ex_board ex_scr ex_ctx ex_ui1 [ex_key 4, ex_key 4, ex_key 13]))" by simp
  from developer_mode_needs_confirmation [OF ex_init this _ ex_run_requests_dev] show ?thesis
    by (fastforce simp: ex_ui0_def zero_context_def)
qed

text \<open>
  C38. Leaving the screens always ends: when the first screen could be shown, every boot mode with
  screens gives a result for every input, either still waiting for input or the value the loop
  was left with; the cleanup of the stack of screens in between always ends.
\<close>

theorem screens_always_return:
  assumes "mode_init b (screens b n) ctx ui0 = (VB2_SUCCESS, ui1)"
    and "boot_mode ctx \<noteq> VB2_BOOT_MODE_NORMAL" and "boot_mode ctx \<noteq> VB2_BOOT_MODE_UNDEFINED"
  shows "\<exists>r ui. vboot_select_and_load_kernel b (screens b n) ctx inps ui0 = Some (r, ui) \<and>
    (r = None \<longleftrightarrow> fst (mode_loop b (screens b n) ctx ui1 inps) = None)"
proof -
  obtain r u where l: "mode_loop b (screens b n) ctx ui1 inps = (r, u)" by force
  have "ui_inv b u" using mode_loop_ok [OF assms(1) l] by simp
  then obtain rv v where c: "ui_screen_cleanup (screens b n) u = Some (rv, v)"
    using ui_screen_cleanup_returns by (metis surj_pair)
  have "\<exists>v. ui_loop b (screens b n) ctx (mode_root_screen ctx) (mode_global_action b (screens b n) ctx) inps ui0 =
      Some (map_option (\<lambda>rv. if rv = VB2_REQUEST_UI_EXIT then VB2_SUCCESS else rv) r, v)"
    using assms(1) l c unfolding mode_init_def mode_loop_def
    by (cases r) (simp_all add: ui_loop_def)
  then show ?thesis
    using assms(2,3) l
    by (cases r) (auto simp: vboot_select_and_load_kernel_def split: vb2_boot_mode.splits)
qed

theorem screens_always_return_witness:
  "\<exists>r ui. vboot_select_and_load_kernel ex_board ex_scr ex_ctx [ex_key 4, ex_key 4, ex_key 13] ex_ui0 = Some (r, ui)"
  using screens_always_return [OF ex_init, of "[ex_key 4, ex_key 4, ex_key 13]"] by (auto simp: ex_ctx_def)

text \<open>
  C39. The developer screen does not wait forever: when the delay has passed and nobody has
  touched a key, a turn of the loop with no input tries to boot the default target, for a device whose
  default is the internal disk and on which developer boot is allowed. If a kernel was loaded the loop is left with
  it; if not, the loop goes on with the error shown, on the fastboot screen where fastboot is allowed and
  back on the developer screen where it is not. The fastboot screen must not be open yet, and the memory for
  its state must be there.
\<close>

theorem developer_mode_timeout:
  assumes "st_screen (cur ui) = UI_SCREEN_DEVELOPER_MODE" "ui_states ui \<noteq> []"
    and "\<not> timer_disabled (cur ui)" "error_code (cur ui) = UI_ERROR_NONE"
    and "boot_mode ctx = VB2_BOOT_MODE_DEVELOPER" "ui_ctx ui = ctx" "developer_mode ctx"
    and "dev_boot_allowed ctx" "default_boot ctx = Boot_internal"
    and "UI_SCREEN_FASTBOOT \<notin> st_screen ` set (ui_states ui)"
    and "ans_bool b (Ev_load_kernel BLOCKDEV_FIXED # Ev_mtime # ui_trace ui) Ev_malloc"
    and "idle inp ui" "dev_timeout b ui"
  shows "\<exists>r ui'. mode_loop b (screens b (Suc (Suc (Suc n)))) ctx ui [inp] = (r, ui') \<and>
    (internal_boot b ui = VB2_SUCCESS \<longrightarrow> r = Some VB2_REQUEST_UI_EXIT) \<and>
    (internal_boot b ui \<noteq> VB2_SUCCESS \<longrightarrow> r = None \<and>
       st_screen (cur ui') = (if fastboot_allowed ctx then UI_SCREEN_FASTBOOT else UI_SCREEN_DEVELOPER_MODE) \<and>
       error_code (cur ui') = UI_ERROR_INTERNAL_BOOT_FAILED)"
proof -
  let ?scr = "screens b (Suc (Suc (Suc n)))"
  obtain p where t: "ui_loop_turn b ?scr (mode_global_action b ?scr ctx) inp ui =
      loop_step (loop_step (loop_step (None, ui\<lparr>error_beep := False, force_display := False, ui_key := 0,
        key_trusted := in_key_trusted inp, power_button := p\<rparr>)
      (\<lambda>ui. run_opt (si_action (screen_of ?scr ui)) ui)) (ui_menu_navigation_action b ?scr))
      (run_opt (mode_global_action b ?scr ctx))"
    using idle_turn [OF assms(12)] by blast
  define u where "u = ui\<lparr>error_beep := False, force_display := False, ui_key := 0,
        key_trusted := in_key_trusted inp, power_button := p\<rparr>"
  have u: "ui_states u = ui_states ui" "ui_ctx u = ctx" "ui_key u = 0" "ui_trace u = ui_trace ui" "cur u = cur ui"
    "dev_timeout b u" "internal_boot b u = internal_boot b ui"
    using assms(6,13) by (simp_all add: u_def dev_timeout_def internal_boot_def)
  define u1 where "u1 = ext (Ev_load_kernel BLOCKDEV_FIXED) (set_cur (\<lambda>s. s\<lparr>timer_disabled := True\<rparr>) (ext Ev_mtime u))"
  have act: "run_opt (si_action (screen_of ?scr u)) u =
      (if internal_boot b ui = VB2_SUCCESS then (VB2_REQUEST_UI_EXIT, u1)
       else ui_screen_change b (screens b (Suc (Suc n))) UI_SCREEN_FASTBOOT
          (set_cur (\<lambda>s. s\<lparr>error_code := UI_ERROR_INTERNAL_BOOT_FAILED\<rparr>) (u1\<lparr>error_beep := True\<rparr>)))"
    using timeout_action [of u b "screens b (Suc (Suc n))"] assms u
    by (simp add: screen_of_def developer_mode_screen_def plain_screen_def run_opt_def u1_def Let_def)
  define v where "v = set_cur (\<lambda>s. s\<lparr>error_code := UI_ERROR_INTERNAL_BOOT_FAILED\<rparr>) (u1\<lparr>error_beep := True\<rparr>)"
  have "map st_screen (ui_states v) = map st_screen (ui_states ui)"
    by (simp add: v_def u1_def set_cur_screens u)
  then have v: "ui_states v \<noteq> []" "UI_SCREEN_FASTBOOT \<notin> st_screen ` set (ui_states v)"
    using assms(2,10) by (metis list.map_disc_iff, metis list.set_map)
  have v': "ui_ctx v = ctx" "ui_key v = 0" "ui_trace v = Ev_load_kernel BLOCKDEV_FIXED # Ev_mtime # ui_trace ui"
    "error_code (cur v) = UI_ERROR_INTERNAL_BOOT_FAILED"
    using assms(2) by (simp_all add: v_def u1_def u cur_set_cur)
  have v2: "st_screen (cur v) = UI_SCREEN_DEVELOPER_MODE" "timer_disabled (cur v)"
    using assms(1,2) by (simp_all add: v_def u1_def u cur_set_cur)
  define w where "w = (if fastboot_allowed ctx then push_state (new_state UI_SCREEN_FASTBOOT) (ext Ev_malloc v)
    else pop_state (push_state (new_state UI_SCREEN_FASTBOOT) (ext Ev_malloc v)))"
  have ch: "ui_screen_change b (screens b (Suc (Suc n))) UI_SCREEN_FASTBOOT v = (VB2_REQUEST_UI_CONTINUE, w)"
  proof (cases "fastboot_allowed ctx")
    case True
    then have "w = push_state (new_state UI_SCREEN_FASTBOOT) (ext Ev_malloc v)" by (simp add: w_def)
    then show ?thesis using True v v' assms(11) change_to_fastboot [of v b "Suc n"] by simp
  next
    case False
    then have "w = pop_state (push_state (new_state UI_SCREEN_FASTBOOT) (ext Ev_malloc v))" by (simp add: w_def)
    then show ?thesis using False v v' v2 assms(11) change_to_fastboot_refused [of v b n] by simp
  qed
  obtain s r where vs: "ui_states v = s # r" using v(1) by (cases "ui_states v") simp_all
  have w: "ui_ctx w = ctx" "ui_key w = 0" "error_code (cur w) = UI_ERROR_INTERNAL_BOOT_FAILED"
    "st_screen (cur w) = (if fastboot_allowed ctx then UI_SCREEN_FASTBOOT else UI_SCREEN_DEVELOPER_MODE)"
    using vs v' v2 by (simp_all add: w_def push_state_def pop_state_def cur_def new_state_def preserve_state_def)
  have nav: "ui_menu_navigation_action b ?scr w = (VB2_SUCCESS, w)"
    using w(2) by (simp add: ui_menu_navigation_action_def map_buttons_def)
  have glob: "run_opt (mode_global_action b ?scr ctx) w = (VB2_SUCCESS, ext (Ev_get_all_bdevs BLOCKDEV_REMOVABLE) w)"
    using assms(5,8) w(1,2) by (simp add: mode_global_action_def run_opt_def developer_action_idle)
  show ?thesis
  proof (cases "internal_boot b ui = VB2_SUCCESS")
    case True
    then show ?thesis
      using t act unfolding u_def [symmetric] by (simp add: mode_loop_def loop_step_def)
  next
    case False
    then show ?thesis
      using t act w unfolding u_def [symmetric] v_def [symmetric]
      by (simp add: mode_loop_def loop_step_def ch nav glob)
  qed
qed

definition ex_dev_ctx :: vb2_context where
  "ex_dev_ctx = ex_ctx\<lparr>developer_mode := True, boot_mode := VB2_BOOT_MODE_DEVELOPER, dev_boot_allowed := True,
     fastboot_allowed := True\<rparr>"

theorem developer_mode_timeout_witness:
  "\<exists>r ui'. mode_loop (ex_board\<lparr>ans_nat := \<lambda>_ _. 60000\<rparr>) (screens (ex_board\<lparr>ans_nat := \<lambda>_ _. 60000\<rparr>) (Suc (Suc (Suc 0))))
     ex_dev_ctx (zero_context ex_dev_ctx (new_state UI_SCREEN_DEVELOPER_MODE) []) [ex_key 0] = (r, ui') \<and>
     r = None \<and> st_screen (cur ui') = UI_SCREEN_FASTBOOT \<and>
     error_code (cur ui') = UI_ERROR_INTERNAL_BOOT_FAILED"
proof -
  let ?b = "ex_board\<lparr>ans_nat := \<lambda>_ _. 60000\<rparr>"
  let ?ui = "zero_context ex_dev_ctx (new_state UI_SCREEN_DEVELOPER_MODE) []"
  have "internal_boot ?b ?ui \<noteq> VB2_SUCCESS" by (simp add: internal_boot_def ex_board_def)
  moreover have "dev_timeout ?b ?ui"
    by (simp add: dev_timeout_def zero_context_def ex_dev_ctx_def ex_ctx_def DEV_DELAY_NORMAL_MS_def sub64_def)
  moreover have "idle (ex_key 0) ?ui" by (simp add: idle_def ex_key_def zero_context_def)
  ultimately show ?thesis
    using developer_mode_timeout [of ?ui ex_dev_ctx ?b "ex_key 0" 0]
    by (simp add: zero_context_def new_state_def cur_def ex_dev_ctx_def ex_ctx_def ex_board_def)
qed

end
