(* ===== verification/Fastboot.thy ===== *)
theory Fastboot
  imports Android_Misc Fastboot_Log Vpd
begin

text \<open>
  \<open>src/fastboot/fastboot.c\<close>: the transport-independent half of fastboot. A session
  (\<open>FastbootOps\<close>) waits for a command or for the bytes of a download, runs a command by its name
  and answers through the transport's \<open>send_packet\<close>. The model keeps in the same record what the
  handlers change outside the session: the transport's own data \<open>link\<close> (what \<open>container_of\<close>
  reaches), the staging memory from \<open>_kernel_start\<close> on, and the state \<open>world\<close> of disks and
  drivers. Commands are functions on that record; \<open>None\<close> is a command that does not return.
  What \<open>printf\<close> writes to the console is not recorded; a snapshot of the console is an answer of
  the environment. The formatted text of a message is an argument, \<open>None\<close> where \<open>vsnprintf\<close> fails.
\<close>

section \<open>Model\<close>

datatype fastboot_state = COMMAND | DOWNLOAD | FINISHED | REBOOT | DISCONNECTED

datatype fastboot_transport_state =
  FASTBOOT_TRANSPORT_IDLE | FASTBOOT_TRANSPORT_TX_IN_PROGRESS | FASTBOOT_TRANSPORT_RX_IN_PROGRESS

datatype fastboot_connection_type = FASTBOOT_NONE_CONN | FASTBOOT_TCP_CONN | FASTBOOT_USB_CONN

datatype fastboot_response_type =
  FASTBOOT_RES_OKAY | FASTBOOT_RES_FAIL | FASTBOOT_RES_DATA | FASTBOOT_RES_INFO | FASTBOOT_RES_TEXT

definition FASTBOOT_MSG_MAX :: nat where "FASTBOOT_MSG_MAX = 256"
definition FASTBOOT_PREFIX_LEN :: nat where "FASTBOOT_PREFIX_LEN = 4"
definition FASTBOOT_MSG_LEN_WO_PREFIX :: nat where
  "FASTBOOT_MSG_LEN_WO_PREFIX = FASTBOOT_MSG_MAX - FASTBOOT_PREFIX_LEN"

text \<open>The session. \<open>poll\<close> acts on the session itself and is an argument of \<open>fastboot_poll\<close>.\<close>

record ('e, 's, 't) FastbootOps =
  fb_state :: fastboot_state
  fb_disk :: "'s blockdev option"
  fb_gpt :: "'e gpt_data option"
  has_staged_data :: bool
  memory_buffer_len :: nat
  download_progress :: nat
  send_packet :: "u8 list \<Rightarrow> 't \<Rightarrow> 't"
  fb_reset :: "('t \<Rightarrow> 't) option"
  fb_release :: "('t \<Rightarrow> 't) option"
  conn_type :: fastboot_connection_type
  fb_serial :: "u8 list"
  fb_logger :: fastboot_log_state
  link :: 't
  world :: 's
  kernel_memory :: "u8 list"

text \<open>
  What \<open>fastboot.c\<close>, \<open>disk.c\<close>, \<open>vars.c\<close> and \<open>cmd.c\<close> use from outside: the configuration,
  libpayload, the GPT functions of the vboot library, and the drivers of EC and UFS.
\<close>

record ('e, 's) fb_env =
  CONFIG_KERNEL_SIZE :: nat
  CONFIG_UIP_TCP_MSS :: nat
  CONFIG_DRIVER_STORAGE_UFS :: bool
  CONFIG_DRIVER_EC_CROS :: bool
  cbmem_console_snapshot :: "'s \<Rightarrow> u8 list option"
  strtoul :: "u8 list \<Rightarrow> nat \<Rightarrow> nat \<times> nat"
  strtoull :: "u8 list \<Rightarrow> nat \<Rightarrow> nat \<times> nat"
  strtoll :: "u8 list \<Rightarrow> nat \<Rightarrow> int \<times> nat"
  strtol :: "u8 list \<Rightarrow> nat \<Rightarrow> int \<times> nat"
  fe_misc :: "'e misc_env"
  fixed_bdevs :: "'s blockdev_lists"
  AllocAndReadGptData :: "'s \<Rightarrow> nat \<Rightarrow> nat \<Rightarrow> int \<times> 'e list"
  GptInit :: "'e gpt_data \<Rightarrow> bool"
  WriteAndFreeGptData :: "'s blockdev \<Rightarrow> 'e gpt_data \<Rightarrow> 's \<Rightarrow> int \<times> 's"
  IsAndroid :: "'e \<Rightarrow> bool"
  IsBootableEntry :: "'e \<Rightarrow> bool"
  GetEntryPriority :: "'e \<Rightarrow> nat"
  GetEntrySuccessful :: "'e \<Rightarrow> bool"
  GetEntryTries :: "'e \<Rightarrow> nat"
  SetEntryPriority :: "nat \<Rightarrow> 'e \<Rightarrow> 'e"
  SetEntrySuccessful :: "nat \<Rightarrow> 'e \<Rightarrow> 'e"
  GptModified :: "'e gpt_data \<Rightarrow> 'e gpt_data"
  GptUpdateKernelWithEntry :: "bool \<Rightarrow> nat \<Rightarrow> 'e gpt_data \<Rightarrow> 'e gpt_data"
  GPTENTRY_NAME_LEN :: nat
  sha256 :: "u8 list \<Rightarrow> u8 list"
  ufs_ctlr_present :: "'s \<Rightarrow> bool"
  ufs_read_descriptor :: "u8 \<Rightarrow> u8 \<Rightarrow> nat \<Rightarrow> 's \<Rightarrow> (u8 list option) \<times> 's"
  ufs_write_descriptor :: "u8 \<Rightarrow> u8 \<Rightarrow> u8 list \<Rightarrow> 's \<Rightarrow> bool \<times> 's"
  mb_part_string :: "u8 list"
  active_fw_id :: "u8 list option"
  chromeos_vpd :: "vpd_cbmem option"
  cros_ec_cbi_get_sku_id :: "'s \<Rightarrow> nat + nat"
  cros_ec_cbi_get_oem_id :: "'s \<Rightarrow> nat + nat"

definition FASTBOOT_MAX_DOWNLOAD_SIZE :: "('e, 's) fb_env \<Rightarrow> nat" where
  "FASTBOOT_MAX_DOWNLOAD_SIZE env = CONFIG_KERNEL_SIZE env"

fun response_prefix :: "fastboot_response_type \<Rightarrow> u8 list" where
  "response_prefix FASTBOOT_RES_OKAY = c_bytes ''OKAY''"
| "response_prefix FASTBOOT_RES_FAIL = c_bytes ''FAIL''"
| "response_prefix FASTBOOT_RES_DATA = c_bytes ''DATA''"
| "response_prefix FASTBOOT_RES_INFO = c_bytes ''INFO''"
| "response_prefix FASTBOOT_RES_TEXT = c_bytes ''TEXT''"

definition send_raw :: "u8 list \<Rightarrow> ('e, 's, 't) FastbootOps \<Rightarrow> ('e, 's, 't) FastbootOps" where
  "send_raw p fb = fb\<lparr>link := send_packet fb p (link fb)\<rparr>"

definition fastboot_send_v ::
  "fastboot_response_type \<Rightarrow> u8 list option \<Rightarrow> ('e, 's, 't) FastbootOps \<Rightarrow> ('e, 's, 't) FastbootOps" where
  "fastboot_send_v t formatted fb =
     send_raw (response_prefix t @
       (case formatted of
          None \<Rightarrow> []
        | Some txt \<Rightarrow> take (FASTBOOT_MSG_LEN_WO_PREFIX - 1) txt) @ [0]) fb"

definition fastboot_send_fmt ::
  "fastboot_response_type \<Rightarrow> u8 list \<Rightarrow> ('e, 's, 't) FastbootOps \<Rightarrow> ('e, 's, 't) FastbootOps" where
  "fastboot_send_fmt t txt fb = fastboot_send_v t (Some txt) fb"

definition fastboot_okay :: "u8 list \<Rightarrow> ('e, 's, 't) FastbootOps \<Rightarrow> ('e, 's, 't) FastbootOps" where
  "fastboot_okay txt = fastboot_send_fmt FASTBOOT_RES_OKAY txt"

definition fastboot_fail :: "u8 list \<Rightarrow> ('e, 's, 't) FastbootOps \<Rightarrow> ('e, 's, 't) FastbootOps" where
  "fastboot_fail txt = fastboot_send_fmt FASTBOOT_RES_FAIL txt"

definition fastboot_info :: "u8 list \<Rightarrow> ('e, 's, 't) FastbootOps \<Rightarrow> ('e, 's, 't) FastbootOps" where
  "fastboot_info txt = fastboot_send_fmt FASTBOOT_RES_INFO txt"

definition fastboot_succeed :: "('e, 's, 't) FastbootOps \<Rightarrow> ('e, 's, 't) FastbootOps" where
  "fastboot_succeed = fastboot_send_fmt FASTBOOT_RES_OKAY []"

definition fastboot_data :: "nat \<Rightarrow> ('e, 's, 't) FastbootOps \<Rightarrow> ('e, 's, 't) FastbootOps" where
  "fastboot_data len =
     fastboot_send_fmt FASTBOOT_RES_DATA (c_bytes (zero_pad 8 (hexadecimal len)))"

text \<open>\<open>fastboot_multiline_info\<close>: the inner loop over one line, and the loop over the lines.\<close>

function multiline_line :: "u8 list \<Rightarrow> ('e, 's, 't) FastbootOps \<Rightarrow> ('e, 's, 't) FastbootOps" where
  "multiline_line line fb =
     (let to_print = min (length line) (FASTBOOT_MSG_LEN_WO_PREFIX - 1);
          fb = fastboot_send_fmt FASTBOOT_RES_INFO (take to_print line) fb
      in if length line - to_print = 0 then fb else multiline_line (drop to_print line) fb)"
  by pat_completeness auto
termination
  by (relation "measure (\<lambda>(line, fb). length line)")
     (auto simp: FASTBOOT_MSG_LEN_WO_PREFIX_def FASTBOOT_MSG_MAX_def FASTBOOT_PREFIX_LEN_def)

function fastboot_multiline_info ::
  "u8 list \<Rightarrow> ('e, 's, 't) FastbootOps \<Rightarrow> ('e, 's, 't) FastbootOps" where
  "fastboot_multiline_info msg fb =
     (let fb = multiline_line (takeWhile (\<lambda>c. c \<noteq> 10) msg) fb
      in case dropWhile (\<lambda>c. c \<noteq> 10) msg of
           [] \<Rightarrow> fb
         | _ # rest \<Rightarrow> fastboot_multiline_info rest fb)"
  by pat_completeness auto
termination
proof (relation "measure (\<lambda>(msg, fb). length msg)", goal_cases)
  case (2 msg fb x c rest)
  then have "length (c # rest) \<le> length msg" by (metis length_dropWhile_le)
  then show ?case by simp
qed simp

declare multiline_line.simps [simp del] fastboot_multiline_info.simps [simp del]

definition CMD_LOG_PREFIX :: "u8 list" where "CMD_LOG_PREFIX = c_bytes ''FB recv CMD''"

fun strstr :: "u8 list \<Rightarrow> u8 list \<Rightarrow> u8 list option" where
  "strstr [] pat = (if pat = [] then Some [] else None)"
| "strstr (c # cs) pat = (if take (length pat) (c # cs) = pat then Some (c # cs) else strstr cs pat)"

lemma length_strstr: "strstr s pat = Some r \<Longrightarrow> length r \<le> length s"
  by (induction s pat rule: strstr.induct) (auto split: if_splits)

text \<open>The loop of \<open>fastboot_fail_with_logs\<close>: the last occurrence of the prefix behind the start of
  the text, or else the whole text.\<close>

function last_cmd_log :: "u8 list \<Rightarrow> u8 list" where
  "last_cmd_log str =
     (case strstr (tl str) CMD_LOG_PREFIX of None \<Rightarrow> str | Some str' \<Rightarrow> last_cmd_log str')"
  by pat_completeness auto
termination
proof (relation "measure length", goal_cases)
  case (2 str str')
  then have "str \<noteq> []" by (cases str) (auto simp: CMD_LOG_PREFIX_def c_bytes_def)
  with length_strstr [OF 2] show ?case by (cases str) simp_all
qed simp

declare last_cmd_log.simps [simp del]

definition fastboot_fail_with_logs ::
  "('e, 's) fb_env \<Rightarrow> u8 list \<Rightarrow> ('e, 's, 't) FastbootOps \<Rightarrow> ('e, 's, 't) FastbootOps" where
  "fastboot_fail_with_logs env txt fb =
     (let fb = (case cbmem_console_snapshot env (world fb) of
                  None \<Rightarrow> fb
                | Some snapshot \<Rightarrow>
                    if c_str snapshot = [] then fb
                    else fastboot_multiline_info (last_cmd_log (c_str snapshot)) fb)
      in fastboot_send_v FASTBOOT_RES_FAIL (Some txt) fb)"

definition fastboot_prepare_download ::
  "nat \<Rightarrow> ('e, 's, 't) FastbootOps \<Rightarrow> ('e, 's, 't) FastbootOps" where
  "fastboot_prepare_download bytes fb =
     fb\<lparr>memory_buffer_len := bytes, download_progress := 0, has_staged_data := False,
        fb_state := DOWNLOAD\<rparr>"

definition fastboot_is_finished :: "('e, 's, 't) FastbootOps \<Rightarrow> bool" where
  "fastboot_is_finished fb \<longleftrightarrow> fb_state fb \<in> {FINISHED, REBOOT, DISCONNECTED}"

text \<open>\<open>fastboot_get_memory_buffer\<close>: the bytes of the staging memory that are in use.\<close>

definition fastboot_get_memory_buffer :: "('e, 's, 't) FastbootOps \<Rightarrow> u8 list" where
  "fastboot_get_memory_buffer fb = take (memory_buffer_len fb) (kernel_memory fb)"

definition fastboot_handle_download ::
  "u8 list \<Rightarrow> ('e, 's, 't) FastbootOps \<Rightarrow> ('e, 's, 't) FastbootOps" where
  "fastboot_handle_download data fb =
     (let left = sub64 (memory_buffer_len fb) (download_progress fb)
      in if length data > left
         then (fastboot_fail (c_bytes ''Too much data'') fb)\<lparr>fb_state := COMMAND\<rparr>
         else let fb = fb\<lparr>kernel_memory := memcpy_at (kernel_memory fb) (download_progress fb) data,
                          download_progress := add64 (download_progress fb) (length data)\<rparr>
              in if length data = left
                 then fastboot_succeed (fb\<lparr>has_staged_data := True, download_progress := 0,
                                           fb_state := COMMAND\<rparr>)
                 else fb)"

record ('e, 's, 't) fastboot_cmd =
  cmd_name :: "u8 list"
  cmd_has_args :: bool
  cmd_sep :: u8
  cmd_fn :: "u8 list \<Rightarrow> ('e, 's, 't) FastbootOps \<Rightarrow> ('e, 's, 't) FastbootOps option"

text \<open>The loop of \<open>fastboot_handle_command\<close> over the table of commands.\<close>

fun fastboot_handle_command ::
  "('e, 's, 't) fastboot_cmd list \<Rightarrow> u8 list \<Rightarrow> ('e, 's, 't) FastbootOps \<Rightarrow> ('e, 's, 't) FastbootOps option"
where
  "fastboot_handle_command [] cmd fb = Some (fastboot_fail (c_bytes ''Unknown command'') fb)"
| "fastboot_handle_command (cur # cmds) cmd fb =
     (let n = length (cmd_name cur)
      in if n > length cmd then fastboot_handle_command cmds cmd fb
         else if take n cmd \<noteq> cmd_name cur then fastboot_handle_command cmds cmd fb
         else let args = drop n cmd
              in if cmd_has_args cur
                 then if args = [] \<or> hd args \<noteq> cmd_sep cur then fastboot_handle_command cmds cmd fb
                      else cmd_fn cur (c_str (tl args)) fb
                 else cmd_fn cur (c_str args) fb)"

definition fastboot_handle_packet ::
  "('e, 's, 't) fastboot_cmd list \<Rightarrow> u8 list \<Rightarrow> ('e, 's, 't) FastbootOps \<Rightarrow> ('e, 's, 't) FastbootOps option"
where
  "fastboot_handle_packet fastboot_cmds data fb =
     (case fb_state fb of
        COMMAND \<Rightarrow> fastboot_handle_command fastboot_cmds data fb
      | DOWNLOAD \<Rightarrow> Some (fastboot_handle_download data fb)
      | FINISHED \<Rightarrow> Some fb
      | REBOOT \<Rightarrow> Some fb
      | DISCONNECTED \<Rightarrow> Some fb)"

definition fastboot_reset_session :: "('e, 's, 't) FastbootOps \<Rightarrow> ('e, 's, 't) FastbootOps" where
  "fastboot_reset_session fb =
     (let fb = fb\<lparr>fb_state := COMMAND, download_progress := 0\<rparr>
      in case fb_reset fb of None \<Rightarrow> fb | Some reset \<Rightarrow> fb\<lparr>link := reset (link fb)\<rparr>)"

definition fastboot_reset_staging :: "('e, 's, 't) FastbootOps \<Rightarrow> ('e, 's, 't) FastbootOps" where
  "fastboot_reset_staging fb = fb\<lparr>has_staged_data := False, memory_buffer_len := 0\<rparr>"

section \<open>Model: starting, polling and ending a session\<close>

text \<open>
  The platform around the session: the setup of the transports (\<open>None\<close> when not configured), the
  keyboard, the clock, and the transport's \<open>poll\<close>, which may run handlers and so may not return.
\<close>

record ('e, 's, 't) fb_platform =
  setup_usb :: "('s \<Rightarrow> ('e, 's, 't) FastbootOps option \<times> 's) option"
  setup_tcp :: "('s \<Rightarrow> ('e, 's, 't) FastbootOps option \<times> 's) option"
  ui_keyboard_read :: "'s \<Rightarrow> nat \<times> 's"
  vb2ex_mtime :: "'s \<Rightarrow> nat \<times> 's"
  fb_poll :: "('e, 's, 't) FastbootOps \<Rightarrow> (fastboot_transport_state \<times> ('e, 's, 't) FastbootOps) option"
  fastboot_allowed :: bool
  UI_KEY_ENTER :: nat
  UI_BUTTON_POWER_SHORT_PRESS :: nat
  log_garbage :: "char list"

definition fastboot_init ::
  "('e, 's, 't) fb_platform \<Rightarrow> 's \<Rightarrow> ('e, 's, 't) FastbootOps option \<times> 's" where
  "fastboot_init p s =
     (case (case setup_usb p of None \<Rightarrow> (None, s) | Some setup \<Rightarrow> setup s) of (fb_session, s) \<Rightarrow>
      case (case setup_tcp p of
              None \<Rightarrow> (fb_session, s)
            | Some setup \<Rightarrow> (case fb_session of None \<Rightarrow> setup s | Some _ \<Rightarrow> (fb_session, s))) of
        (fb_session, s) \<Rightarrow>
        (case fb_session of
           None \<Rightarrow> (None, s)
         | Some fb \<Rightarrow>
             let fb = fastboot_reset_session (fastboot_reset_staging fb)
             in (Some (fb\<lparr>fb_logger := fastboot_log_init (log_garbage p) (fb_logger fb)\<rparr>), s)))"

text \<open>\<open>fastboot_release\<close>: the final state and the session; for \<open>REBOOT\<close> the C function does not
  return, which its caller in the model reads off the state.\<close>

definition fastboot_release ::
  "('e, 's, 't) FastbootOps \<Rightarrow> fastboot_state \<times> ('e, 's, 't) FastbootOps" where
  "fastboot_release fb =
     (let final_state = fb_state fb;
          fb = fb\<lparr>fb_logger := fastboot_log_release (fb_logger fb)\<rparr>
      in (final_state, case fb_release fb of None \<Rightarrow> fb | Some rel \<Rightarrow> fb\<lparr>link := rel (link fb)\<rparr>))"

text \<open>\<open>fastboot_poll\<close>: the loop, with the \<open>uint32_t\<close> difference of the clock readings.\<close>

partial_function (option) poll_loop ::
  "('e, 's, 't) fb_platform \<Rightarrow> nat \<Rightarrow> nat \<Rightarrow> ('e, 's, 't) FastbootOps \<Rightarrow> ('e, 's, 't) FastbootOps option"
where
  "poll_loop p start_time_ms timeout_ms fb =
     Option.bind (fb_poll p fb) (\<lambda>(transport_state, fb).
       if fastboot_is_finished fb \<or>
          transport_state = FASTBOOT_TRANSPORT_IDLE \<and> fb_state fb \<noteq> DOWNLOAD then Some fb
       else (case vb2ex_mtime p (world fb) of (now, s) \<Rightarrow>
               let fb = fb\<lparr>world := s\<rparr>
               in if sub32 now start_time_ms < timeout_ms
                  then poll_loop p start_time_ms timeout_ms fb else Some fb))"

definition fastboot_poll ::
  "('e, 's, 't) fb_platform \<Rightarrow> nat \<Rightarrow> ('e, 's, 't) FastbootOps \<Rightarrow> ('e, 's, 't) FastbootOps option" where
  "fastboot_poll p timeout_ms fb =
     (case vb2ex_mtime p (world fb) of (start_time_ms, s) \<Rightarrow>
        poll_loop p start_time_ms timeout_ms (fb\<lparr>world := s\<rparr>))"

definition fastboot_exit_on_key :: "('e, 's, 't) fb_platform \<Rightarrow> 's \<Rightarrow> bool \<times> 's" where
  "fastboot_exit_on_key p s =
     (case ui_keyboard_read p s of (ch, s) \<Rightarrow>
        (ch = UI_KEY_ENTER p \<or> ch = UI_BUTTON_POWER_SHORT_PRESS p, s))"

definition FASTBOOT_MIN_POLL_TIME_US :: nat where "FASTBOOT_MIN_POLL_TIME_US = 300 * 1000"

text \<open>The three loops of \<open>fastboot\<close>. It ends by a key, by a finished session, or by the reboot.\<close>

datatype 's fastboot_exit = Exit_key 's | Exit_finished 's | Exit_reboot 's

partial_function (option) wait_session ::
  "('e, 's, 't) fb_platform \<Rightarrow> 's \<Rightarrow> (('e, 's, 't) FastbootOps option \<times> 's) option" where
  "wait_session p s =
     (case fastboot_exit_on_key p s of (pressed, s) \<Rightarrow>
        if pressed then Some (None, s)
        else (case fastboot_init p s of
                (None, s) \<Rightarrow> wait_session p s
              | (Some fb, s) \<Rightarrow> Some (Some (fb\<lparr>world := s\<rparr>), s)))"

partial_function (option) serve_session ::
  "('e, 's, 't) fb_platform \<Rightarrow> ('e, 's, 't) FastbootOps \<Rightarrow> ('e, 's, 't) FastbootOps option" where
  "serve_session p fb =
     (if fastboot_is_finished fb then Some fb
      else (case fastboot_exit_on_key p (world fb) of (pressed, s) \<Rightarrow>
              let fb = fb\<lparr>world := s\<rparr>
              in if pressed then Some fb
                 else Option.bind (fastboot_poll p FASTBOOT_MIN_POLL_TIME_US fb) (serve_session p)))"

partial_function (option) fastboot_loop ::
  "('e, 's, 't) fb_platform \<Rightarrow> 's \<Rightarrow> 's fastboot_exit option" where
  "fastboot_loop p s =
     Option.bind (wait_session p s) (\<lambda>(session, s).
       case session of
         None \<Rightarrow> Some (Exit_key s)
       | Some fb \<Rightarrow>
           Option.bind (serve_session p fb) (\<lambda>fb.
             case fastboot_release fb of (final_state, fb) \<Rightarrow>
               if final_state = REBOOT then Some (Exit_reboot (world fb))
               else if final_state = DISCONNECTED then fastboot_loop p (world fb)
               else Some (Exit_finished (world fb))))"

definition fastboot :: "('e, 's, 't) fb_platform \<Rightarrow> 's \<Rightarrow> 's fastboot_exit option" where
  "fastboot p s = (if \<not> fastboot_allowed p then Some (Exit_finished s) else fastboot_loop p s)"

section \<open>Answers\<close>

text \<open>
  A packet is a response of a type when it starts with its prefix and ends with a NUL within the
  256 bytes of the protocol. A handler \<open>informs\<close> when all it sends are INFO responses, and
  \<open>answers\<close> when it sends INFO responses and then one that completes the command. The exception
  is an upload: DATA, the raw data, OKAY.
\<close>

definition is_response :: "fastboot_response_type \<Rightarrow> u8 list \<Rightarrow> bool" where
  "is_response t p \<longleftrightarrow> take 4 p = response_prefix t \<and> 5 \<le> length p \<and> length p \<le> FASTBOOT_MSG_MAX \<and>
     last p = 0"

definition sends :: "('e, 's, 't) FastbootOps \<Rightarrow> u8 list list \<Rightarrow> ('e, 's, 't) FastbootOps \<Rightarrow> bool" where
  "sends fb ps fb' \<longleftrightarrow> send_packet fb' = send_packet fb \<and> fb_reset fb' = fb_reset fb \<and>
     fb_release fb' = fb_release fb \<and> link fb' = fold (send_packet fb) ps (link fb)"

definition informs :: "('e, 's, 't) FastbootOps \<Rightarrow> ('e, 's, 't) FastbootOps \<Rightarrow> bool" where
  "informs fb fb' \<longleftrightarrow> (\<exists>ps. (\<forall>p \<in> set ps. is_response FASTBOOT_RES_INFO p) \<and> sends fb ps fb')"

definition complete_answer :: "u8 list list \<Rightarrow> bool" where
  "complete_answer ps \<longleftrightarrow>
     (\<exists>infos fin. ps = infos @ fin \<and> (\<forall>p \<in> set infos. is_response FASTBOOT_RES_INFO p) \<and>
        ((\<exists>p. fin = [p] \<and> (is_response FASTBOOT_RES_OKAY p \<or> is_response FASTBOOT_RES_FAIL p \<or>
           is_response FASTBOOT_RES_DATA p)) \<or>
         (\<exists>hdr raw p. fin = [hdr, raw, p] \<and> is_response FASTBOOT_RES_DATA hdr \<and>
           is_response FASTBOOT_RES_OKAY p)))"

definition answers :: "('e, 's, 't) FastbootOps \<Rightarrow> ('e, 's, 't) FastbootOps \<Rightarrow> bool" where
  "answers fb fb' \<longleftrightarrow> (\<exists>ps. complete_answer ps \<and> sends fb ps fb')"

named_theorems fb_answers \<open>introduction rules: what a handler sends\<close>

lemma length_response_prefix [simp]: "length (response_prefix t) = 4"
  by (cases t) (simp_all add: c_bytes_def)

definition message :: "fastboot_response_type \<Rightarrow> u8 list \<Rightarrow> u8 list" where
  "message t m = response_prefix t @ take (FASTBOOT_MSG_LEN_WO_PREFIX - 1) m @ [0]"

lemma is_response_message: "is_response t (message t m)"
  by (simp add: is_response_def message_def FASTBOOT_MSG_LEN_WO_PREFIX_def FASTBOOT_MSG_MAX_def
      FASTBOOT_PREFIX_LEN_def)

lemma sends_message: "sends fb [message t m] (fastboot_send_fmt t m fb)"
  by (simp add: sends_def message_def fastboot_send_fmt_def fastboot_send_v_def send_raw_def)

lemma sends_trans: "sends fb ps fb1 \<Longrightarrow> sends fb1 qs fb2 \<Longrightarrow> sends fb (ps @ qs) fb2"
  by (simp add: sends_def)

lemma informs_refl [intro, simp]: "informs fb fb"
  unfolding informs_def sends_def by (rule exI [of _ "[]"]) simp

lemma informs_trans: "informs fb fb1 \<Longrightarrow> informs fb1 fb2 \<Longrightarrow> informs fb fb2"
  unfolding informs_def by (metis (no_types, lifting) Un_iff set_append sends_trans)

lemma informs_answers:
  assumes "informs fb fb1" and "answers fb1 fb2"
  shows "answers fb fb2"
proof -
  from assms(1) obtain ps0 where i: "\<forall>p \<in> set ps0. is_response FASTBOOT_RES_INFO p" "sends fb ps0 fb1"
    by (auto simp: informs_def)
  from assms(2) obtain ps where p: "complete_answer ps" "sends fb1 ps fb2"
    by (auto simp: answers_def)
  from p(1) obtain infos fin where f: "ps = infos @ fin" "\<forall>p \<in> set infos. is_response FASTBOOT_RES_INFO p"
    "(\<exists>p. fin = [p] \<and> (is_response FASTBOOT_RES_OKAY p \<or> is_response FASTBOOT_RES_FAIL p \<or>
           is_response FASTBOOT_RES_DATA p)) \<or>
         (\<exists>hdr raw p. fin = [hdr, raw, p] \<and> is_response FASTBOOT_RES_DATA hdr \<and>
           is_response FASTBOOT_RES_OKAY p)"
    unfolding complete_answer_def by blast
  have "ps0 @ ps = (ps0 @ infos) @ fin" using f(1) by simp
  moreover have "\<forall>p \<in> set (ps0 @ infos). is_response FASTBOOT_RES_INFO p" using i(1) f(2) by auto
  ultimately have "complete_answer (ps0 @ ps)" unfolding complete_answer_def using f(3) by blast
  with sends_trans [OF i(2) p(2)] show ?thesis by (auto simp: answers_def)
qed

lemma sends_update [simp]:
  "sends fb ps (g\<lparr>fb_state := st\<rparr>) = sends fb ps g" "sends (fb\<lparr>fb_state := st\<rparr>) ps g = sends fb ps g"
  "sends fb ps (g\<lparr>fb_disk := d\<rparr>) = sends fb ps g" "sends (fb\<lparr>fb_disk := d\<rparr>) ps g = sends fb ps g"
  "sends fb ps (g\<lparr>fb_gpt := t\<rparr>) = sends fb ps g" "sends (fb\<lparr>fb_gpt := t\<rparr>) ps g = sends fb ps g"
  "sends fb ps (g\<lparr>has_staged_data := h\<rparr>) = sends fb ps g"
  "sends (fb\<lparr>has_staged_data := h\<rparr>) ps g = sends fb ps g"
  "sends fb ps (g\<lparr>memory_buffer_len := n\<rparr>) = sends fb ps g"
  "sends (fb\<lparr>memory_buffer_len := n\<rparr>) ps g = sends fb ps g"
  "sends fb ps (g\<lparr>download_progress := n\<rparr>) = sends fb ps g"
  "sends (fb\<lparr>download_progress := n\<rparr>) ps g = sends fb ps g"
  "sends fb ps (g\<lparr>world := s\<rparr>) = sends fb ps g" "sends (fb\<lparr>world := s\<rparr>) ps g = sends fb ps g"
  "sends fb ps (g\<lparr>kernel_memory := m\<rparr>) = sends fb ps g"
  "sends (fb\<lparr>kernel_memory := m\<rparr>) ps g = sends fb ps g"
  by (simp_all add: sends_def)

lemma informs_update [simp]:
  "informs fb (g\<lparr>fb_state := st\<rparr>) = informs fb g" "informs fb (g\<lparr>fb_disk := d\<rparr>) = informs fb g"
  "informs fb (g\<lparr>fb_gpt := t\<rparr>) = informs fb g" "informs fb (g\<lparr>has_staged_data := h\<rparr>) = informs fb g"
  "informs fb (g\<lparr>memory_buffer_len := n\<rparr>) = informs fb g"
  "informs fb (g\<lparr>download_progress := n\<rparr>) = informs fb g"
  "informs fb (g\<lparr>world := s\<rparr>) = informs fb g" "informs fb (g\<lparr>kernel_memory := m\<rparr>) = informs fb g"
  by (simp_all add: informs_def)

lemma answers_update [simp]:
  "answers fb (g\<lparr>fb_state := st\<rparr>) = answers fb g" "answers (fb\<lparr>fb_state := st\<rparr>) g = answers fb g"
  "answers (fb\<lparr>fb_disk := d\<rparr>) g = answers fb g" "answers (fb\<lparr>fb_gpt := t\<rparr>) g = answers fb g"
  "answers fb (g\<lparr>has_staged_data := h\<rparr>) = answers fb g"
  "answers (fb\<lparr>has_staged_data := h\<rparr>) g = answers fb g"
  "answers fb (g\<lparr>memory_buffer_len := n\<rparr>) = answers fb g"
  "answers (fb\<lparr>memory_buffer_len := n\<rparr>) g = answers fb g"
  "answers (fb\<lparr>download_progress := n\<rparr>) g = answers fb g"
  "answers (fb\<lparr>world := s\<rparr>) g = answers fb g" "answers (fb\<lparr>kernel_memory := m\<rparr>) g = answers fb g"
  by (simp_all add: answers_def)

lemma informs_info: "informs fb (fastboot_send_fmt FASTBOOT_RES_INFO m fb)"
  unfolding informs_def
  by (rule exI [of _ "[message FASTBOOT_RES_INFO m]"]) (simp add: is_response_message sends_message)

lemma answers_message:
  assumes "t = FASTBOOT_RES_OKAY \<or> t = FASTBOOT_RES_FAIL \<or> t = FASTBOOT_RES_DATA"
  shows "answers fb (fastboot_send_fmt t m fb)"
proof -
  have "complete_answer [message t m]" unfolding complete_answer_def
    by (rule exI [of _ "[]"], rule exI [of _ "[message t m]"])
       (use assms is_response_message [of t m] in auto)
  then show ?thesis unfolding answers_def using sends_message by blast
qed

lemma answers_final:
  "answers fb (fastboot_fail txt fb)" "answers fb (fastboot_okay txt fb)"
  "answers fb (fastboot_succeed fb)" "answers fb (fastboot_data n fb)"
  by (simp_all add: fastboot_fail_def fastboot_okay_def fastboot_succeed_def fastboot_data_def
      answers_message)

lemma informs_fastboot_info: "informs fb (fastboot_info txt fb)"
  by (simp add: fastboot_info_def informs_info)

lemma informs_multiline_line: "informs fb (multiline_line line fb)"
proof (induction line fb rule: multiline_line.induct)
  case (1 line fb)
  show ?case
    by (subst multiline_line.simps)
       (auto simp: Let_def intro: informs_info informs_trans [OF informs_info 1])
qed

lemma informs_multiline: "informs fb (fastboot_multiline_info msg fb)"
proof (induction msg fb rule: fastboot_multiline_info.induct)
  case (1 msg fb)
  show ?case
    by (subst fastboot_multiline_info.simps)
       (auto simp: Let_def split: list.split
          intro: informs_multiline_line informs_trans [OF informs_multiline_line 1])
qed

lemma answers_fail_with_logs: "answers fb (fastboot_fail_with_logs env txt fb)"
  unfolding fastboot_fail_with_logs_def Let_def fastboot_send_fmt_def [symmetric]
    fastboot_fail_def [symmetric]
  by (rule informs_answers [OF _ answers_final(1)]) (auto intro: informs_multiline split: option.split)

text \<open>The same after a part of the handler that informs.\<close>

lemmas informs_messages [fb_answers] = informs_trans [OF _ informs_fastboot_info]
  informs_trans [OF _ informs_multiline]
lemmas answers_messages [fb_answers] = answers_final [THEN [2] informs_answers]
  answers_fail_with_logs [THEN [2] informs_answers]

text \<open>A table of commands that answer answers every packet.\<close>

lemma handle_command_answers:
  assumes "\<And>c arg fb fb'. c \<in> set cmds \<Longrightarrow> cmd_fn c arg fb = Some fb' \<Longrightarrow> answers fb fb'"
    and "fastboot_handle_command cmds cmd fb = Some fb'"
  shows "answers fb fb'"
  using assms
proof (induction cmds)
  case (Cons cur cmds)
  from Cons.prems(2) consider "fastboot_handle_command cmds cmd fb = Some fb'"
    | arg where "cmd_fn cur arg fb = Some fb'"
    by (auto simp: Let_def split: if_splits)
  then show ?case
  proof cases
    case 1
    then show ?thesis using Cons.prems(1) by (intro Cons.IH) auto
  next
    case (2 arg)
    then show ?thesis using Cons.prems(1) by (metis list.set_intros(1))
  qed
qed (auto intro: answers_final)

section \<open>Long messages\<close>

fun join_lines :: "u8 list list \<Rightarrow> u8 list" where
  "join_lines [] = []"
| "join_lines [l] = l"
| "join_lines (l # ls) = l @ 10 # join_lines ls"

text \<open>\<open>cut_line\<close>: the pieces of one line, as \<open>fastboot_multiline_info\<close> sends them.\<close>

definition cut_of :: "u8 list \<Rightarrow> u8 list list \<Rightarrow> bool" where
  "cut_of line ts \<longleftrightarrow> concat ts = line \<and> ts \<noteq> [] \<and>
     (\<forall>t \<in> set ts. length t \<le> FASTBOOT_MSG_LEN_WO_PREFIX - 1)"

lemma multiline_line_sends:
  "\<exists>ts. cut_of line ts \<and> sends fb (map (message FASTBOOT_RES_INFO) ts) (multiline_line line fb)"
proof (induction line fb rule: multiline_line.induct)
  case (1 line fb)
  let ?n = "min (length line) (FASTBOOT_MSG_LEN_WO_PREFIX - 1)"
  let ?fb = "fastboot_send_fmt FASTBOOT_RES_INFO (take ?n line) fb"
  have s: "sends fb [message FASTBOOT_RES_INFO (take ?n line)] ?fb" by (rule sends_message)
  show ?case
  proof (cases "length line - ?n = 0")
    case True
    then have "cut_of line [take ?n line]" by (auto simp: cut_of_def)
    with True s show ?thesis by (subst multiline_line.simps) (fastforce simp: Let_def)
  next
    case False
    then obtain ts where t: "cut_of (drop ?n line) ts"
      "sends ?fb (map (message FASTBOOT_RES_INFO) ts) (multiline_line (drop ?n line) ?fb)"
      using 1 by auto
    have "cut_of line (take ?n line # ts)" using t(1) by (auto simp: cut_of_def)
    moreover have "sends fb (map (message FASTBOOT_RES_INFO) (take ?n line # ts)) (multiline_line line fb)"
      using sends_trans [OF s t(2)] False by (subst multiline_line.simps) (simp add: Let_def)
    ultimately show ?thesis by blast
  qed
qed

lemma multiline_info_sends:
  "\<exists>tss. sends fb (map (message FASTBOOT_RES_INFO) (concat tss)) (fastboot_multiline_info msg fb) \<and>
     join_lines (map concat tss) = msg \<and> tss \<noteq> [] \<and> (\<forall>ts \<in> set tss. cut_of (concat ts) ts)"
proof (induction msg fb rule: fastboot_multiline_info.induct)
  case (1 msg fb)
  let ?l = "takeWhile (\<lambda>c. c \<noteq> 10) msg"
  obtain ts where t: "cut_of ?l ts"
    "sends fb (map (message FASTBOOT_RES_INFO) ts) (multiline_line ?l fb)"
    using multiline_line_sends by blast
  have cl: "concat ts = ?l" using t(1) by (simp add: cut_of_def)
  show ?case
  proof (cases "dropWhile (\<lambda>c. c \<noteq> 10) msg")
    case Nil
    then have "?l = msg" by (metis append.right_neutral takeWhile_dropWhile_id)
    moreover have "fastboot_multiline_info msg fb = multiline_line ?l fb"
      by (subst fastboot_multiline_info.simps) (simp only: Nil Let_def list.case)
    ultimately show ?thesis using t cl by (intro exI [of _ "[ts]"]) simp
  next
    case (Cons c rest)
    then have c: "c = 10" by (metis (mono_tags, lifting) dropWhile_eq_Cons_conv)
    then have m: "?l @ 10 # rest = msg" using Cons by (metis takeWhile_dropWhile_id)
    obtain tss where s: "sends (multiline_line ?l fb) (map (message FASTBOOT_RES_INFO) (concat tss))
        (fastboot_multiline_info rest (multiline_line ?l fb))"
      "join_lines (map concat tss) = rest" "tss \<noteq> []" "\<forall>ts \<in> set tss. cut_of (concat ts) ts"
      using 1 [OF refl Cons] by blast
    have "join_lines (map concat (ts # tss)) = msg" using s(2,3) m cl by (cases tss) auto
    moreover have "sends fb (map (message FASTBOOT_RES_INFO) (concat (ts # tss)))
        (fastboot_multiline_info msg fb)"
      using sends_trans [OF t(2) s(1)] Cons by (subst fastboot_multiline_info.simps) (simp add: Let_def)
    ultimately show ?thesis using t(1) cl s(4) by (intro exI [of _ "ts # tss"]) auto
  qed
qed

section \<open>Downloads and the staging memory\<close>

text \<open>Sending changes nothing of a session but the data of the transport.\<close>

definition only_link :: "('e, 's, 't) FastbootOps \<Rightarrow> ('e, 's, 't) FastbootOps \<Rightarrow> bool" where
  "only_link fb fb' \<longleftrightarrow> fb' = fb\<lparr>link := link fb'\<rparr>"

lemma only_link_refl: "only_link fb fb"
  by (simp add: only_link_def)

lemma only_link_trans: "only_link fb fb1 \<Longrightarrow> only_link fb1 fb2 \<Longrightarrow> only_link fb fb2"
  unfolding only_link_def by (cases fb; cases fb1; cases fb2) simp

lemma only_link_send: "only_link fb (fastboot_send_fmt t m fb)"
  by (simp add: only_link_def fastboot_send_fmt_def fastboot_send_v_def send_raw_def)

lemma only_link_line: "only_link fb (multiline_line line fb)"
proof (induction line fb rule: multiline_line.induct)
  case (1 line fb)
  show ?case
    by (subst multiline_line.simps)
       (auto simp: Let_def intro: only_link_send only_link_trans [OF only_link_send 1])
qed

lemma only_link_multiline: "only_link fb (fastboot_multiline_info msg fb)"
proof (induction msg fb rule: fastboot_multiline_info.induct)
  case (1 msg fb)
  show ?case
    by (subst fastboot_multiline_info.simps)
       (auto simp: Let_def split: list.split intro: only_link_line only_link_trans [OF only_link_line 1])
qed

lemma only_link_fail_with_logs: "only_link fb (fastboot_fail_with_logs env m fb)"
  unfolding fastboot_fail_with_logs_def Let_def fastboot_send_fmt_def [symmetric]
  by (rule only_link_trans [OF _ only_link_send])
     (auto intro: only_link_refl only_link_multiline split: option.split)

lemma only_link_fields:
  assumes "only_link fb fb'"
  shows "fb_state fb' = fb_state fb" "fb_disk fb' = fb_disk fb" "fb_gpt fb' = fb_gpt fb"
    "has_staged_data fb' = has_staged_data fb" "memory_buffer_len fb' = memory_buffer_len fb"
    "download_progress fb' = download_progress fb" "world fb' = world fb"
    "kernel_memory fb' = kernel_memory fb"
  using assms by (cases fb; cases fb'; simp add: only_link_def)+

lemma only_link_messages:
  "only_link fb (fastboot_fail m fb)" "only_link fb (fastboot_okay m fb)"
  "only_link fb (fastboot_info m fb)" "only_link fb (fastboot_succeed fb)"
  "only_link fb (fastboot_data n fb)"
  by (simp_all add: fastboot_fail_def fastboot_okay_def fastboot_info_def fastboot_succeed_def
      fastboot_data_def only_link_send)

lemmas message_fields [simp] = only_link_messages [THEN only_link_fields(1)]
  only_link_messages [THEN only_link_fields(2)] only_link_messages [THEN only_link_fields(3)]
  only_link_messages [THEN only_link_fields(4)] only_link_messages [THEN only_link_fields(5)]
  only_link_messages [THEN only_link_fields(6)] only_link_messages [THEN only_link_fields(7)]
  only_link_messages [THEN only_link_fields(8)]
lemmas multiline_fields [simp] = only_link_fields [OF only_link_multiline]
lemmas fail_with_logs_fields [simp] = only_link_fields [OF only_link_fail_with_logs]

definition staging_ok :: "('e, 's) fb_env \<Rightarrow> nat \<Rightarrow> ('e, 's, 't) FastbootOps \<Rightarrow> bool" where
  "staging_ok env k fb \<longleftrightarrow> length (kernel_memory fb) = k \<and>
     memory_buffer_len fb \<le> FASTBOOT_MAX_DOWNLOAD_SIZE env \<and>
     (fb_state fb = DOWNLOAD \<longrightarrow> download_progress fb \<le> memory_buffer_len fb)"

text \<open>\<open>handle_packets\<close>: the packets of a list, one after the other.\<close>

fun handle_packets ::
  "('e, 's, 't) fastboot_cmd list \<Rightarrow> u8 list list \<Rightarrow> ('e, 's, 't) FastbootOps \<Rightarrow>
   ('e, 's, 't) FastbootOps option" where
  "handle_packets cmds [] fb = Some fb"
| "handle_packets cmds (d # ds) fb =
     Option.bind (fastboot_handle_packet cmds d fb) (handle_packets cmds ds)"

lemma download_step:
  assumes "fb_state fb = DOWNLOAD" and "download_progress fb + length d < memory_buffer_len fb"
    and "memory_buffer_len fb < 2 ^ 64"
  shows "fastboot_handle_packet cmds d fb =
    Some (fb\<lparr>kernel_memory := memcpy_at (kernel_memory fb) (download_progress fb) d,
             download_progress := download_progress fb + length d\<rparr>)"
  using assms by (simp add: fastboot_handle_packet_def fastboot_handle_download_def Let_def
      sub64_id add64_id)

lemma download_last:
  assumes "fb_state fb = DOWNLOAD" and "download_progress fb + length d = memory_buffer_len fb"
    and "memory_buffer_len fb < 2 ^ 64"
  shows "fastboot_handle_packet cmds d fb =
    Some (fastboot_succeed (fb\<lparr>kernel_memory := memcpy_at (kernel_memory fb) (download_progress fb) d,
             has_staged_data := True, download_progress := 0, fb_state := COMMAND\<rparr>))"
proof -
  have "length d = sub64 (memory_buffer_len fb) (download_progress fb)"
    using assms(2,3) by (simp add: sub64_id)
  then show ?thesis using assms(1)
    by (simp add: fastboot_handle_packet_def fastboot_handle_download_def Let_def)
qed

lemma handle_packets_download:
  assumes "fb_state fb = DOWNLOAD" and "memory_buffer_len fb < 2 ^ 64"
    and "download_progress fb + length (concat ds) = memory_buffer_len fb"
    and "memory_buffer_len fb \<le> length (kernel_memory fb)" and "ds \<noteq> []" and "[] \<notin> set ds"
  shows "handle_packets cmds ds fb =
    Some (fastboot_succeed
      (fb\<lparr>kernel_memory := memcpy_at (kernel_memory fb) (download_progress fb) (concat ds),
          has_staged_data := True, download_progress := 0, fb_state := COMMAND\<rparr>))"
  using assms
proof (induction ds arbitrary: fb)
  case (Cons d ds)
  show ?case
  proof (cases "ds = []")
    case True
    then show ?thesis using Cons.prems download_last [of fb d cmds] by simp
  next
    case False
    let ?fb = "fb\<lparr>kernel_memory := memcpy_at (kernel_memory fb) (download_progress fb) d,
             download_progress := download_progress fb + length d\<rparr>"
    have "0 < length (concat ds)" using False Cons.prems(6) by (cases ds) auto
    then have l: "download_progress fb + length d < memory_buffer_len fb"
      using Cons.prems(3) unfolding concat.simps length_append by linarith
    have "handle_packets cmds ds ?fb = Some (fastboot_succeed
      (?fb\<lparr>kernel_memory := memcpy_at (kernel_memory ?fb) (download_progress ?fb) (concat ds),
          has_staged_data := True, download_progress := 0, fb_state := COMMAND\<rparr>))"
      by (rule Cons.IH) (use Cons.prems False in \<open>simp_all add: length_memcpy_at\<close>)
    then show ?thesis using download_step [OF Cons.prems(1) l Cons.prems(2), of cmds] Cons.prems(3,4)
      by (simp add: memcpy_at_append)
  qed
qed simp

lemma staging_only_link: "only_link fb fb' \<Longrightarrow> staging_ok env k fb' = staging_ok env k fb"
  by (simp add: staging_ok_def only_link_fields)

lemmas staging_messages [simp] = only_link_messages [THEN staging_only_link]
  only_link_multiline [THEN staging_only_link] only_link_fail_with_logs [THEN staging_only_link]

lemma staging_update [simp]:
  "st \<noteq> DOWNLOAD \<Longrightarrow> staging_ok env k fb \<Longrightarrow> staging_ok env k (fb\<lparr>fb_state := st\<rparr>)"
  "staging_ok env k (fb\<lparr>fb_disk := d\<rparr>) = staging_ok env k fb"
  "staging_ok env k (fb\<lparr>fb_gpt := t\<rparr>) = staging_ok env k fb"
  "staging_ok env k (fb\<lparr>world := s\<rparr>) = staging_ok env k fb"
  "staging_ok env k (fb\<lparr>has_staged_data := h\<rparr>) = staging_ok env k fb"
  by (simp_all add: staging_ok_def)

lemma handle_download_staging:
  assumes "staging_ok env k fb" and "fb_state fb = DOWNLOAD"
    and "FASTBOOT_MAX_DOWNLOAD_SIZE env < 2 ^ 64" and "FASTBOOT_MAX_DOWNLOAD_SIZE env \<le> k"
  shows "staging_ok env k (fastboot_handle_download data fb)"
proof -
  have "sub64 (memory_buffer_len fb) (download_progress fb) = memory_buffer_len fb - download_progress fb"
    using assms by (intro sub64_id) (auto simp: staging_ok_def)
  moreover have "download_progress fb + length data < 2 ^ 64"
    if "length data \<le> memory_buffer_len fb - download_progress fb"
    using assms that by (auto simp: staging_ok_def)
  ultimately show ?thesis using assms
    by (auto simp: fastboot_handle_download_def Let_def staging_ok_def add64_id)
qed

end
