(* ===== verification/Fastboot_Disk.thy ===== *)
theory Fastboot_Disk
  imports Fastboot
begin

text \<open>
  \<open>src/fastboot/disk.c\<close>: the disk and its GPT as the fastboot commands use them, and the boot slots
  by the names of the partitions. A \<open>GptEntry *\<close> into the table is an index. Functions that return
  an error code and may already have answered give \<open>True\<close> for an error, as the C code tests it.
\<close>

section \<open>Model\<close>

definition fastboot_do_disk_init ::
  "('e, 's) fb_env \<Rightarrow> bool \<Rightarrow> ('e, 's, 't) FastbootOps \<Rightarrow> bool \<times> ('e, 's, 't) FastbootOps" where
  "fastboot_do_disk_init env send_fail fb =
     (case fb_disk fb of
        Some _ \<Rightarrow> (False, fb)
      | None \<Rightarrow>
          (case get_all_bdevs (fixed_bdevs env) (world fb) of (count, devs, s) \<Rightarrow>
             let fb = fb\<lparr>world := s\<rparr>
             in if count \<noteq> 1
                then (True, if send_fail
                            then fastboot_fail (c_bytes (''wrong number of fixed disks (found '' @
                                   decimal count @ '', wanted 1)'') @ [10]) fb
                            else fb)
                else (case devs of
                        [] \<Rightarrow> (True, if send_fail then fastboot_fail (c_bytes ''No disk found'') fb else fb)
                      | bdev # _ \<Rightarrow> (False, fb\<lparr>fb_disk := Some bdev\<rparr>))))"

definition fastboot_do_disk_gpt_init ::
  "('e, 's) fb_env \<Rightarrow> bool \<Rightarrow> ('e, 's, 't) FastbootOps \<Rightarrow> bool \<times> ('e, 's, 't) FastbootOps" where
  "fastboot_do_disk_gpt_init env send_fail fb =
     (case fastboot_do_disk_init env send_fail fb of (err, fb) \<Rightarrow>
        if err then (True, fb)
        else (case fb_gpt fb of
                Some _ \<Rightarrow> (False, fb)
              | None \<Rightarrow>
                  let fb = fb\<lparr>fb_gpt := (case fb_disk fb of
                                  None \<Rightarrow> None
                                | Some disk \<Rightarrow>
                                    alloc_gpt (AllocAndReadGptData env (world fb)) (GptInit env) disk)\<rparr>
                  in (case fb_gpt fb of
                        None \<Rightarrow> (True, if send_fail
                                      then fastboot_fail (c_bytes ''Invalid GPT on the disk'') fb else fb)
                      | Some _ \<Rightarrow> (False, fb))))"

definition fastboot_disk_init ::
  "('e, 's) fb_env \<Rightarrow> ('e, 's, 't) FastbootOps \<Rightarrow> bool \<times> ('e, 's, 't) FastbootOps" where
  "fastboot_disk_init env fb = fastboot_do_disk_init env True fb"

definition fastboot_disk_gpt_init ::
  "('e, 's) fb_env \<Rightarrow> ('e, 's, 't) FastbootOps \<Rightarrow> bool \<times> ('e, 's, 't) FastbootOps" where
  "fastboot_disk_gpt_init env fb = fastboot_do_disk_gpt_init env True fb"

definition fastboot_disk_init_no_fail ::
  "('e, 's) fb_env \<Rightarrow> ('e, 's, 't) FastbootOps \<Rightarrow> bool \<times> ('e, 's, 't) FastbootOps" where
  "fastboot_disk_init_no_fail env fb = fastboot_do_disk_init env False fb"

definition fastboot_disk_gpt_init_no_fail ::
  "('e, 's) fb_env \<Rightarrow> ('e, 's, 't) FastbootOps \<Rightarrow> bool \<times> ('e, 's, 't) FastbootOps" where
  "fastboot_disk_gpt_init_no_fail env fb = fastboot_do_disk_gpt_init env False fb"

text \<open>\<open>fastboot_save_gpt\<close>: \<open>None\<close> is the failed assertion of \<open>free_gpt\<close>.\<close>

definition fastboot_save_gpt ::
  "('e, 's) fb_env \<Rightarrow> ('e, 's, 't) FastbootOps \<Rightarrow> (bool \<times> ('e, 's, 't) FastbootOps) option" where
  "fastboot_save_gpt env fb =
     (case (fb_disk fb, fb_gpt fb) of
        (Some disk, Some gpt) \<Rightarrow>
          (case free_gpt (WriteAndFreeGptData env) disk gpt (world fb) of (ret, s) \<Rightarrow>
             Some (ret \<noteq> 0, fb\<lparr>world := s, fb_gpt := None\<rparr>))
      | _ \<Rightarrow> None)"

fun fastboot_handle_gpt_io_ret ::
  "('e, 's) fb_env \<Rightarrow> gpt_io_ret \<Rightarrow> u8 list \<Rightarrow> nat \<Rightarrow> ('e, 's, 't) FastbootOps \<Rightarrow> ('e, 's, 't) FastbootOps"
where
  "fastboot_handle_gpt_io_ret env GPT_IO_SUCCESS partition_name offset fb = fastboot_succeed fb"
| "fastboot_handle_gpt_io_ret env GPT_IO_NO_PARTITION partition_name offset fb =
     fastboot_fail (c_bytes ''Could not find partition '' @ [34] @ partition_name @ [34]) fb"
| "fastboot_handle_gpt_io_ret env GPT_IO_OUT_OF_RANGE partition_name offset fb =
     fastboot_fail (c_bytes ''Image is too big'') fb"
| "fastboot_handle_gpt_io_ret env GPT_IO_TRANSFER_ERROR partition_name offset fb =
     fastboot_fail_with_logs env (c_bytes ''Failed to write'') fb"
| "fastboot_handle_gpt_io_ret env GPT_IO_SPARSE_OFFSET_NOT_ALIGNED partition_name offset fb =
     fastboot_fail (c_bytes (''Offset '' @ decimal offset @ '' not aligned to block size ('' @
       (case fb_disk fb of None \<Rightarrow> [] | Some disk \<Rightarrow> decimal (bd_block_size disk)) @
       '') on sparse write'')) fb"
| "fastboot_handle_gpt_io_ret env GPT_IO_SPARSE_TOO_SMALL partition_name offset fb =
     fastboot_fail (c_bytes ''Sparse image ended abruptly'') fb"
| "fastboot_handle_gpt_io_ret env GPT_IO_SPARSE_WRONG_HEADER_SIZE partition_name offset fb =
     fastboot_fail (c_bytes ''Wrong size of sparse header/chunk header'') fb"
| "fastboot_handle_gpt_io_ret env GPT_IO_SPARSE_WRONG_CHUNK_SIZE partition_name offset fb =
     fastboot_fail (c_bytes ''Sparse chunk size is wrong'') fb"
| "fastboot_handle_gpt_io_ret env GPT_IO_SPARSE_WRONG_CHUNK_TYPE partition_name offset fb =
     fastboot_fail (c_bytes ''Unrecognised sparse chunk type'') fb"
| "fastboot_handle_gpt_io_ret env _ partition_name offset fb =
     fastboot_fail_with_logs env (c_bytes ''Unknown error while writing'') fb"

text \<open>The part of \<open>fastboot_write_raw\<close> after the disk is known.\<close>

definition write_raw_disk ::
  "('e, 's) fb_env \<Rightarrow> 's blockdev \<Rightarrow> nat \<Rightarrow> u8 list \<Rightarrow> u8 list \<Rightarrow> ('e, 's, 't) FastbootOps \<Rightarrow>
   ('e, 's, 't) FastbootOps option" where
  "write_raw_disk env disk start_block data beyond fb =
     (if start_block \<ge> bd_block_count disk
      then Some (fastboot_fail (c_bytes (''Start block '' @ decimal start_block @
             '' needs to be within '' @ decimal (bd_block_count disk) @ '' disk blocks'') @ [10]) fb)
      else let start_addr = mul64 start_block (bd_block_size disk);
               remaining_disk_size = mul64 (bd_block_count disk - start_block) (bd_block_size disk)
           in if is_sparse_image (data @ beyond)
              then Option.bind (write_sparse_image disk start_addr remaining_disk_size (Some data) (world fb))
                     (\<lambda>(ret, s). Some (fastboot_handle_gpt_io_ret env ret [] 0 (fb\<lparr>world := s\<rparr>)))
              else if length data > remaining_disk_size
              then Some (fastboot_fail (c_bytes ''Image is too big'') fb)
              else (case blockdev_write_bytes disk start_addr data (world fb) of (written, s) \<Rightarrow>
                      let fb = fb\<lparr>world := s\<rparr>
                      in Some (if written \<noteq> length data then fastboot_fail (c_bytes ''Failed to write'') fb
                               else fastboot_succeed fb)))"

definition fastboot_write_raw ::
  "('e, 's) fb_env \<Rightarrow> nat \<Rightarrow> u8 list \<Rightarrow> u8 list \<Rightarrow> ('e, 's, 't) FastbootOps \<Rightarrow>
   ('e, 's, 't) FastbootOps option" where
  "fastboot_write_raw env start_block data beyond fb =
     Option.bind (case fb_gpt fb of None \<Rightarrow> Some (False, fb) | Some _ \<Rightarrow> fastboot_save_gpt env fb)
       (\<lambda>(err, fb).
          if err then Some (fastboot_fail (c_bytes ''Failed to save GPT before write'') fb)
          else (case fastboot_disk_init env fb of (err, fb) \<Rightarrow>
                  if err then Some fb
                  else Option.bind (fb_disk fb)
                         (\<lambda>disk. write_raw_disk env disk start_block data beyond fb)))"

definition fastboot_write ::
  "('e, 's) fb_env \<Rightarrow> u8 list \<Rightarrow> nat \<Rightarrow> u8 list \<Rightarrow> u8 list \<Rightarrow> ('e, 's, 't) FastbootOps \<Rightarrow>
   ('e, 's, 't) FastbootOps option" where
  "fastboot_write env partition_name offset data beyond fb =
     (case fastboot_disk_gpt_init env fb of (err, fb) \<Rightarrow>
        if err then Some fb
        else Option.bind (fb_disk fb) (\<lambda>disk. Option.bind (fb_gpt fb) (\<lambda>gpt.
               Option.bind (gpt_write_partition (env_vb (fe_misc env)) disk gpt
                   (hol_string partition_name) offset data beyond (world fb))
                 (\<lambda>(ret, s). Some (fastboot_handle_gpt_io_ret env ret partition_name offset
                                     (fb\<lparr>world := s\<rparr>))))))"

definition fastboot_erase ::
  "('e, 's) fb_env \<Rightarrow> u8 list \<Rightarrow> ('e, 's, 't) FastbootOps \<Rightarrow> ('e, 's, 't) FastbootOps option" where
  "fastboot_erase env partition_name fb =
     (case fastboot_disk_gpt_init env fb of (err, fb) \<Rightarrow>
        if err then Some fb
        else Option.bind (fb_disk fb) (\<lambda>disk. Option.bind (fb_gpt fb) (\<lambda>gpt.
               Option.bind (gpt_erase_partition (env_vb (fe_misc env)) disk gpt
                   (hol_string partition_name) (world fb))
                 (\<lambda>(ret, s).
                    let fb = fb\<lparr>world := s\<rparr>
                    in Some (case ret of
                               GPT_IO_SUCCESS \<Rightarrow> fastboot_succeed fb
                             | GPT_IO_NO_PARTITION \<Rightarrow>
                                 fastboot_fail (c_bytes ''Could not find partition '' @ [34] @
                                   partition_name @ [34, 10]) fb
                             | GPT_IO_TRANSFER_ERROR \<Rightarrow>
                                 fastboot_fail_with_logs env (c_bytes ''Failed to erase'') fb
                             | _ \<Rightarrow> fastboot_fail_with_logs env
                                     (c_bytes ''Unknown error while writing'') fb)))))"

section \<open>Model: slots\<close>

definition islower :: "char \<Rightarrow> bool" where
  "islower c \<longleftrightarrow> (97 :: nat) \<le> of_char c \<and> of_char c \<le> (122 :: nat)"

definition isupper :: "char \<Rightarrow> bool" where
  "isupper c \<longleftrightarrow> (65 :: nat) \<le> of_char c \<and> of_char c \<le> (90 :: nat)"

definition tolower :: "char \<Rightarrow> char" where
  "tolower c = (if isupper c then char_of ((of_char c :: nat) + 32) else c)"

text \<open>\<open>fastboot_get_slot_for_partition_name\<close>: \<open>None\<close> is the result 0.\<close>

definition fastboot_get_slot_for_partition_name :: "string \<Rightarrow> char option" where
  "fastboot_get_slot_for_partition_name partition_name =
     (let len = length partition_name
      in if len < 2 then None
         else if partition_name ! (len - 2) = CHR ''_'' \<and> islower (partition_name ! (len - 1))
         then Some (partition_name ! (len - 1)) else None)"

record kpi_ctx =
  kernel_count :: nat
  present :: u32

definition slot_bit :: "char \<Rightarrow> u32" where
  "slot_bit slot = push_bit (of_char slot - 97) 1"

definition check_kernel_partition_info ::
  "('e, 's) fb_env \<Rightarrow> kpi_ctx \<Rightarrow> nat \<Rightarrow> 'e \<Rightarrow> string \<Rightarrow> bool \<times> kpi_ctx" where
  "check_kernel_partition_info env info index e partition_name =
     (if \<not> IsAndroid env e then (False, info)
      else (case fastboot_get_slot_for_partition_name partition_name of
              None \<Rightarrow> (False, info)
            | Some slot \<Rightarrow>
                (False, info\<lparr>present := or (present info) (slot_bit slot),
                             kernel_count := kernel_count info + 1\<rparr>)))"

definition fastboot_get_slot_count :: "('e, 's) fb_env \<Rightarrow> 'e gpt_data \<Rightarrow> nat" where
  "fastboot_get_slot_count env gpt =
     kernel_count (snd (gpt_foreach_partition (env_vb (fe_misc env)) gpt
       (check_kernel_partition_info env) \<lparr>kernel_count = 0, present = 0\<rparr>))"

definition find_slot_callback ::
  "('e, 's) fb_env \<Rightarrow> char \<Rightarrow> nat option \<Rightarrow> nat \<Rightarrow> 'e \<Rightarrow> string \<Rightarrow> bool \<times> nat option" where
  "find_slot_callback env desired_slot target_entry index e partition_name =
     (if \<not> IsAndroid env e then (False, target_entry)
      else (case fastboot_get_slot_for_partition_name partition_name of
              None \<Rightarrow> (False, target_entry)
            | Some slot \<Rightarrow>
                if slot = desired_slot then (True, Some index) else (False, target_entry)))"

definition fastboot_get_kernel_for_slot ::
  "('e, 's) fb_env \<Rightarrow> 'e gpt_data \<Rightarrow> char \<Rightarrow> nat option" where
  "fastboot_get_kernel_for_slot env gpt slot =
     (if \<not> (islower slot \<or> isupper slot) then None
      else (case gpt_foreach_partition (env_vb (fe_misc env)) gpt
                   (find_slot_callback env (tolower slot)) None of (stopped, target_entry) \<Rightarrow>
              if stopped then target_entry else None))"

text \<open>
  \<open>fastboot_slots_disable_all\<close>: the callback changes the table it is called for, so the loop of
  \<open>gpt_foreach_partition\<close> reads each entry from the current table.
\<close>

definition disable_all_callback :: "('e, 's) fb_env \<Rightarrow> nat \<Rightarrow> 'e gpt_data \<Rightarrow> 'e gpt_data" where
  "disable_all_callback env index gpt =
     (case gpt_get_entry_name (env_vb (fe_misc env)) (entries gpt ! index) of
        None \<Rightarrow> gpt
      | Some name \<Rightarrow>
          if \<not> IsBootableEntry env (entries gpt ! index) then gpt
          else GptUpdateKernelWithEntry env False index gpt)"

definition fastboot_slots_disable_all :: "('e, 's) fb_env \<Rightarrow> 'e gpt_data \<Rightarrow> 'e gpt_data" where
  "fastboot_slots_disable_all env gpt =
     fold (disable_all_callback env) [0..<gpt_get_number_of_partitions gpt] gpt"

text \<open>
  \<open>fastboot_get_slot_suffixes\<close>: the loop over the letters, with the text in the buffer, the room
  that is left and the length the whole text would have.
\<close>

fun suffixes_loop :: "u32 \<Rightarrow> char list \<Rightarrow> nat \<Rightarrow> u8 list \<Rightarrow> nat \<Rightarrow> nat \<times> u8 list" where
  "suffixes_loop pres [] outbuf_len outbuf n = (n, outbuf)"
| "suffixes_loop pres (slot # slots) outbuf_len outbuf n =
     (if and pres (slot_bit slot) \<noteq> 0
      then let outbuf = outbuf @ take (outbuf_len - 1) (c_bytes [slot, CHR '','']);
               outbuf_len = (if outbuf_len \<ge> 2 then outbuf_len - 2 else 0)
           in suffixes_loop pres slots outbuf_len outbuf (n + 2)
      else suffixes_loop pres slots outbuf_len outbuf n)"

definition letters :: string where "letters = ''abcdefghijklmnopqrstuvwxyz''"

definition fastboot_get_slot_suffixes ::
  "('e, 's) fb_env \<Rightarrow> 'e gpt_data \<Rightarrow> nat \<Rightarrow> nat \<times> u8 list" where
  "fastboot_get_slot_suffixes env gpt outbuf_len =
     (let result = snd (gpt_foreach_partition (env_vb (fe_misc env)) gpt
            (check_kernel_partition_info env) \<lparr>kernel_count = 0, present = 0\<rparr>)
      in suffixes_loop (present result) letters outbuf_len [] 0)"

section \<open>What the operations answer and keep\<close>

text \<open>
  The contract of the environment: a fixed disk meets the driver contract of \<open>blockdev.h\<close> with
  blocks of a power of two between 4 bytes and 4 MiB and has streams, and a GPT that \<open>GptInit\<close>
  accepts has its entries inside the disk. The session holds such a disk and such a GPT or none,
  and its staging memory stays what it is.
\<close>

definition disk_good :: "'s blockdev \<Rightarrow> ('s \<Rightarrow> u8 list) \<Rightarrow> bool" where
  "disk_good dev content \<longleftrightarrow> blockdev_ok dev content \<and> 4 dvd bd_block_size dev \<and>
     bd_block_size dev \<le> 4 * MiB \<and> and (bd_block_size dev) (bd_block_size dev - 1) = 0 \<and>
     (\<exists>garbage. bd_new_stream dev = Some (new_simple_stream dev garbage))"

definition fb_env_ok :: "('e, 's) fb_env \<Rightarrow> ('s blockdev \<Rightarrow> 's \<Rightarrow> u8 list) \<Rightarrow> nat \<Rightarrow> bool" where
  "fb_env_ok env content k \<longleftrightarrow>
     (\<forall>s. \<forall>dev \<in> set (block_devices (fixed_bdevs env) s). disk_good dev (content dev)) \<and>
     (\<forall>s (dev :: 's blockdev) gpt. alloc_gpt (AllocAndReadGptData env s) (GptInit env) dev = Some gpt \<longrightarrow>
        gpt_entries_ok (env_vb (fe_misc env)) dev gpt) \<and>
     0 < FASTBOOT_MAX_DOWNLOAD_SIZE env \<and> FASTBOOT_MAX_DOWNLOAD_SIZE env < 2 ^ 64 \<and>
     FASTBOOT_MAX_DOWNLOAD_SIZE env \<le> k"

definition disk_state_ok ::
  "('e, 's) fb_env \<Rightarrow> ('s blockdev \<Rightarrow> 's \<Rightarrow> u8 list) \<Rightarrow> 's blockdev option \<Rightarrow> 'e gpt_data option \<Rightarrow> bool"
where
  "disk_state_ok env content disk gpt \<longleftrightarrow>
     (case disk of
        None \<Rightarrow> gpt = None
      | Some dev \<Rightarrow> disk_good dev (content dev) \<and>
          (\<forall>g. gpt = Some g \<longrightarrow> gpt_entries_ok (env_vb (fe_misc env)) dev g))"

definition fb_inv ::
  "('e, 's) fb_env \<Rightarrow> ('s blockdev \<Rightarrow> 's \<Rightarrow> u8 list) \<Rightarrow> nat \<Rightarrow> ('e, 's, 't) FastbootOps \<Rightarrow> bool" where
  "fb_inv env content k fb \<longleftrightarrow>
     staging_ok env k fb \<and> disk_state_ok env content (fb_disk fb) (fb_gpt fb)"

text \<open>A command that returns, has answered and keeps the invariant.\<close>

definition runs ::
  "('e, 's) fb_env \<Rightarrow> ('s blockdev \<Rightarrow> 's \<Rightarrow> u8 list) \<Rightarrow> nat \<Rightarrow> ('e, 's, 't) FastbootOps \<Rightarrow>
   ('e, 's, 't) FastbootOps option \<Rightarrow> bool" where
  "runs env content k fb r \<longleftrightarrow> (\<exists>fb'. r = Some fb' \<and> answers fb fb' \<and> fb_inv env content k fb')"

lemma runsI: "answers fb fb' \<Longrightarrow> fb_inv env content k fb' \<Longrightarrow> runs env content k fb (Some fb')"
  by (simp add: runs_def)

lemma runs_after: "informs fb fb1 \<Longrightarrow> runs env content k fb1 r \<Longrightarrow> runs env content k fb r"
  unfolding runs_def using informs_answers by blast

lemma fb_inv_only_link: "only_link fb fb' \<Longrightarrow> fb_inv env content k fb' = fb_inv env content k fb"
  by (simp only: fb_inv_def staging_only_link only_link_fields)

lemmas fb_inv_messages [simp] = only_link_messages [THEN fb_inv_only_link]
  only_link_multiline [THEN fb_inv_only_link] only_link_fail_with_logs [THEN fb_inv_only_link]

lemma fb_inv_update [simp]:
  "st \<noteq> DOWNLOAD \<Longrightarrow> fb_inv env content k fb \<Longrightarrow> fb_inv env content k (fb\<lparr>fb_state := st\<rparr>)"
  "fb_inv env content k (fb\<lparr>world := s\<rparr>) = fb_inv env content k fb"
  "fb_inv env content k (fb\<lparr>has_staged_data := h\<rparr>) = fb_inv env content k fb"
  by (simp_all add: fb_inv_def)

lemma fb_env_okD:
  assumes "fb_env_ok env content k"
  shows "block_devices (fixed_bdevs env) s = dev # devs \<Longrightarrow> disk_good dev (content dev)"
    and "alloc_gpt (AllocAndReadGptData env s) (GptInit env) dev = Some gpt \<Longrightarrow>
      gpt_entries_ok (env_vb (fe_misc env)) dev gpt"
    and "0 < FASTBOOT_MAX_DOWNLOAD_SIZE env" and "FASTBOOT_MAX_DOWNLOAD_SIZE env < 2 ^ 64"
    and "FASTBOOT_MAX_DOWNLOAD_SIZE env \<le> k"
  using assms unfolding fb_env_ok_def by (metis list.set_intros(1), blast+)

lemma disk_init_runs:
  assumes "fb_env_ok env content k" and "fb_inv env content k fb"
    and "fastboot_do_disk_init env send_fail fb = (err, fb')"
  shows "fb_inv env content k fb'" "fb_state fb' = fb_state fb" "err \<Longrightarrow> send_fail \<Longrightarrow> answers fb fb'"
    "\<not> send_fail \<Longrightarrow> informs fb fb'" "\<not> err \<Longrightarrow> informs fb fb' \<and> (\<exists>dev. fb_disk fb' = Some dev)"
  using assms(2,3) unfolding fastboot_do_disk_init_def
  by (auto simp: Let_def get_all_bdevs_def fb_inv_def disk_state_ok_def
      split: option.splits prod.splits if_splits list.splits
      intro!: fb_answers dest: fb_env_okD(1) [OF assms(1)])

lemma disk_gpt_init_runs:
  assumes "fb_env_ok env content k" and "fb_inv env content k fb"
    and "fastboot_do_disk_gpt_init env send_fail fb = (err, fb')"
  shows "fb_inv env content k fb' \<and> fb_state fb' = fb_state fb \<and>
    (err \<longrightarrow> send_fail \<longrightarrow> answers fb fb') \<and>
    (\<not> send_fail \<longrightarrow> informs fb fb') \<and>
    (\<not> err \<longrightarrow> informs fb fb' \<and> (\<exists>dev gpt. fb_disk fb' = Some dev \<and> fb_gpt fb' = Some gpt))"
proof -
  obtain e fb1 where i: "fastboot_do_disk_init env send_fail fb = (e, fb1)" by fastforce
  note r = disk_init_runs [OF assms(1,2) i]
  show ?thesis
  proof (cases e)
    case True
    then show ?thesis using assms(3) i r by (auto simp: fastboot_do_disk_gpt_init_def)
  next
    case False
    then obtain dev where d: "fb_disk fb1 = Some dev" and inf: "informs fb fb1" using r(5) by blast
    show ?thesis using assms(3) i False d inf r(1,2)
      by (auto simp: fastboot_do_disk_gpt_init_def Let_def fb_inv_def disk_state_ok_def
          split: option.splits if_splits intro!: fb_answers dest: fb_env_okD(2) [OF assms(1)])
  qed
qed

text \<open>The two ways in which the handlers use the disk: without it the command is over.\<close>

lemma runs_disk_init:
  assumes "fb_env_ok env content k" and "fb_inv env content k fb"
    and "\<And>fb' dev. informs fb fb' \<Longrightarrow> fb_inv env content k fb' \<Longrightarrow> fb_state fb' = fb_state fb \<Longrightarrow>
      fb_disk fb' = Some dev \<Longrightarrow> runs env content k fb' (f fb')"
  shows "runs env content k fb (case fastboot_disk_init env fb of (err, fb) \<Rightarrow> if err then Some fb else f fb)"
proof -
  obtain err fb' where i: "fastboot_do_disk_init env True fb = (err, fb')" by fastforce
  note r = disk_init_runs [OF assms(1,2) i]
  show ?thesis
  proof (cases err)
    case True
    then show ?thesis using r(1,3) i by (simp add: fastboot_disk_init_def runs_def)
  next
    case False
    then obtain dev where "informs fb fb'" "fb_disk fb' = Some dev" using r(5) by blast
    then have "runs env content k fb (f fb')" using assms(3) r(1,2) by (blast intro: runs_after)
    then show ?thesis using False i by (simp add: fastboot_disk_init_def)
  qed
qed

lemma runs_gpt_init:
  assumes "fb_env_ok env content k" and "fb_inv env content k fb"
    and "\<And>fb' dev gpt. informs fb fb' \<Longrightarrow> fb_inv env content k fb' \<Longrightarrow> fb_state fb' = fb_state fb \<Longrightarrow>
      fb_disk fb' = Some dev \<Longrightarrow> fb_gpt fb' = Some gpt \<Longrightarrow> runs env content k fb' (f fb')"
  shows "runs env content k fb (case fastboot_disk_gpt_init env fb of (err, fb) \<Rightarrow> if err then Some fb else f fb)"
proof -
  obtain err fb' where i: "fastboot_do_disk_gpt_init env True fb = (err, fb')" by fastforce
  note r = disk_gpt_init_runs [OF assms(1,2) i]
  show ?thesis
  proof (cases err)
    case True
    then show ?thesis using r i by (simp add: fastboot_disk_gpt_init_def runs_def)
  next
    case False
    then obtain dev gpt where "informs fb fb'" "fb_disk fb' = Some dev" "fb_gpt fb' = Some gpt"
      using r by blast
    then have "runs env content k fb (f fb')" using assms(3) r by (blast intro: runs_after)
    then show ?thesis using False i by (simp add: fastboot_disk_gpt_init_def)
  qed
qed

lemma fb_invD:
  assumes "fb_inv env content k fb" and "fb_disk fb = Some dev"
  shows "blockdev_ok dev (content dev)" "4 dvd bd_block_size dev" "bd_block_size dev \<le> 4 * MiB"
    "and (bd_block_size dev) (bd_block_size dev - 1) = 0"
    "\<exists>garbage. bd_new_stream dev = Some (new_simple_stream dev garbage)"
    "fb_gpt fb = Some gpt \<Longrightarrow> gpt_entries_ok (env_vb (fe_misc env)) dev gpt"
  using assms by (simp_all add: fb_inv_def disk_state_ok_def disk_good_def)

lemma save_gpt_runs:
  assumes "fb_inv env content k (fb\<lparr>fb_gpt := None\<rparr>)" and "fb_disk fb = Some dev"
    and "fb_gpt fb = Some gpt"
  obtains err fb' where "fastboot_save_gpt env fb = Some (err, fb')" "fb_inv env content k fb'"
    "informs fb fb'" "fb_disk fb' = Some dev"
proof -
  obtain ret s where f: "free_gpt (WriteAndFreeGptData env) dev gpt (world fb) = (ret, s)" by fastforce
  have "fb_inv env content k (fb\<lparr>world := s, fb_gpt := None\<rparr>)"
    using assms(1) by (simp add: fb_inv_def)
  then show thesis using that [of "ret \<noteq> 0" "fb\<lparr>world := s, fb_gpt := None\<rparr>"] f assms(2,3)
    by (simp add: fastboot_save_gpt_def)
qed

lemma fb_inv_drop_gpt: "fb_inv env content k fb \<Longrightarrow> fb_inv env content k (fb\<lparr>fb_gpt := None\<rparr>)"
  by (auto simp: fb_inv_def disk_state_ok_def split: option.splits)

lemma only_link_io_ret: "only_link fb (fastboot_handle_gpt_io_ret env r name offset fb)"
  by (cases r) (simp_all add: only_link_messages only_link_fail_with_logs)

lemma answers_io_ret: "answers fb (fastboot_handle_gpt_io_ret env r name offset fb)"
  by (cases r) (simp_all add: answers_final answers_fail_with_logs)

lemmas fb_inv_io_ret [simp] = only_link_io_ret [THEN fb_inv_only_link]
lemmas answers_io_ret_after [fb_answers] = answers_io_ret [THEN [2] informs_answers]

lemma fastboot_write_runs:
  assumes "fb_env_ok env content k" and "fb_inv env content k fb"
  shows "runs env content k fb (fastboot_write env name offset data beyond fb)"
  unfolding fastboot_write_def
proof (rule runs_gpt_init [OF assms])
  fix fb1 dev gpt
  assume i: "fb_inv env content k fb1" and d: "fb_disk fb1 = Some dev" and g: "fb_gpt fb1 = Some gpt"
  obtain r s where "gpt_write_partition (env_vb (fe_misc env)) dev gpt (hol_string name) offset data
      beyond (world fb1) = Some (r, s)"
    using gpt_write_returns [OF fb_invD(1,6,2,3) [OF i d]] g by blast
  then show "runs env content k fb1 (Option.bind (fb_disk fb1) (\<lambda>disk. Option.bind (fb_gpt fb1)
      (\<lambda>gpt. Option.bind (gpt_write_partition (env_vb (fe_misc env)) disk gpt (hol_string name) offset
         data beyond (world fb1))
        (\<lambda>(ret, s). Some (fastboot_handle_gpt_io_ret env ret name offset (fb1\<lparr>world := s\<rparr>))))))"
    using d g i by (auto intro!: runsI fb_answers)
qed

lemma write_raw_disk_runs:
  assumes i: "fb_inv env content k fb" and d: "fb_disk fb = Some dev"
  shows "runs env content k fb (write_raw_disk env dev start data beyond fb)"
proof (cases "start \<ge> bd_block_count dev")
  case True
  then show ?thesis using i by (auto simp: write_raw_disk_def intro!: runsI fb_answers)
next
  case False
  let ?bs = "bd_block_size dev"
  let ?a = "start * ?bs" and ?n = "(bd_block_count dev - start) * ?bs"
  note bd = block_device.intro [OF fb_invD(1) [OF i d]]
  have "?a + ?n = (start + (bd_block_count dev - start)) * ?bs" by (simp only: add_mult_distrib)
  then have fits: "?a + ?n \<le> ?bs * bd_block_count dev" using False by (simp add: mult.commute)
  then have m: "mul64 start ?bs = ?a" "mul64 (bd_block_count dev - start) ?bs = ?n"
    using block_device.cap_less [OF bd] by (simp_all add: mul64_id)
  show ?thesis
  proof (cases "is_sparse_image (data @ beyond)")
    case True
    obtain r s where "write_sparse_image dev ?a ?n (Some data) (world fb) = Some (r, s)"
      using block_device.write_sparse_confined [OF bd fits fb_invD(2,3) [OF i d]] by blast
    then show ?thesis using True False m i
      by (auto simp: write_raw_disk_def Let_def intro!: runsI fb_answers)
  next
    case plain: False
    show ?thesis
    proof (cases "?n < length data")
      case True
      then show ?thesis using plain False m i
        by (auto simp: write_raw_disk_def Let_def intro!: runsI fb_answers)
    next
      case le: False
      then have "?a + length data \<le> ?bs * bd_block_count dev" using fits by linarith
      then obtain s where "blockdev_write_bytes dev ?a data (world fb) = (length data, s)"
        by (rule block_device.write_bytes_ok [OF bd])
      then show ?thesis using plain False m i le
        by (auto simp: write_raw_disk_def Let_def intro!: runsI fb_answers)
    qed
  qed
qed

lemma fastboot_write_raw_runs:
  assumes e: "fb_env_ok env content k" and i: "fb_inv env content k fb"
  shows "runs env content k fb (fastboot_write_raw env start data beyond fb)"
proof -
  have rest: "runs env content k fb1 (case fastboot_disk_init env fb1 of (err, fb) \<Rightarrow>
      if err then Some fb
      else Option.bind (fb_disk fb) (\<lambda>disk. write_raw_disk env disk start data beyond fb))"
    if "fb_inv env content k fb1" for fb1 :: "('a, 'b, 'c) FastbootOps"
    by (rule runs_disk_init [OF e that]) (simp add: write_raw_disk_runs)
  show ?thesis
  proof (cases "fb_gpt fb")
    case None
    then show ?thesis using rest [OF i] by (simp add: fastboot_write_raw_def)
  next
    case (Some gpt)
    then obtain dev where d: "fb_disk fb = Some dev"
      using i by (auto simp: fb_inv_def disk_state_ok_def split: option.splits)
    obtain err fb1 where "fastboot_save_gpt env fb = Some (err, fb1)" "fb_inv env content k fb1"
      "informs fb fb1"
      by (rule save_gpt_runs [OF fb_inv_drop_gpt [OF i] d Some])
    then show ?thesis using Some rest [of fb1]
      by (auto simp: fastboot_write_raw_def intro!: runsI fb_answers intro: runs_after)
  qed
qed

lemma fastboot_erase_runs:
  assumes "fb_env_ok env content k" and "fb_inv env content k fb"
  shows "runs env content k fb (fastboot_erase env name fb)"
  unfolding fastboot_erase_def
proof (rule runs_gpt_init [OF assms])
  fix fb1 dev gpt
  assume i: "fb_inv env content k fb1" and d: "fb_disk fb1 = Some dev" and g: "fb_gpt fb1 = Some gpt"
  obtain r s where e: "gpt_erase_partition (env_vb (fe_misc env)) dev gpt (hol_string name) (world fb1) =
      Some (r, s)"
    using gpt_erase_returns [OF fb_invD(1,6,2,3) [OF i d]] g by blast
  show "runs env content k fb1 (Option.bind (fb_disk fb1) (\<lambda>disk. Option.bind (fb_gpt fb1) (\<lambda>gpt.
      Option.bind (gpt_erase_partition (env_vb (fe_misc env)) disk gpt (hol_string name) (world fb1))
        (\<lambda>(ret, s).
          let fb = fb1\<lparr>world := s\<rparr>
          in Some (case ret of
               GPT_IO_SUCCESS \<Rightarrow> fastboot_succeed fb
             | GPT_IO_NO_PARTITION \<Rightarrow>
                 fastboot_fail (c_bytes ''Could not find partition '' @ [34] @ name @ [34, 10]) fb
             | GPT_IO_TRANSFER_ERROR \<Rightarrow> fastboot_fail_with_logs env (c_bytes ''Failed to erase'') fb
             | _ \<Rightarrow> fastboot_fail_with_logs env (c_bytes ''Unknown error while writing'') fb)))))"
    using d g i e by (cases r) (auto simp: Let_def intro!: runsI fb_answers)
qed

end
