(* ===== verification/Fastboot_Vars.thy ===== *)
theory Fastboot_Vars
  imports Fastboot_Disk
begin

text \<open>
  \<open>src/fastboot/vars.c\<close>: the variables that \<open>getvar\<close> reports. \<open>outbuf\<close> is modelled by the C
  string that it holds afterwards; a call of \<open>snprintf\<close> gives the length of the whole text and the
  part of it that fits.
\<close>

section \<open>Model\<close>

datatype fastboot_var =
    VAR_CURRENT_SLOT | VAR_TOTAL_BLOCK_COUNT | VAR_DOWNLOAD_SIZE | VAR_IS_USERSPACE
  | VAR_PARTITION_SIZE | VAR_PARTITION_TYPE | VAR_PRODUCT | VAR_SECURE | VAR_SLOT_COUNT | VAR_VERSION
  | VAR_VERSION_BOOTLOADER | VAR_SLOT_SUFFIXES | VAR_SLOT_SUCCESSFUL | VAR_SLOT_RETRY_COUNT
  | VAR_SLOT_UNBOOTABLE | VAR_LOGICAL_BLOCK_SIZE | VAR_SERIALNO | VAR_HAS_SLOT | VAR_MFG_SKU_ID
  | VAR_WIFI_MAC | VAR_HW_DESC | VAR_IMEI | VAR_SKU | VAR_OEM_ID | VAR_PARTNER_CUSTOM

datatype fastboot_getvar_result =
    STATE_OK | STATE_UNKNOWN_VAR | STATE_PARSING_ERROR | STATE_OVERFLOW | STATE_DISK_ERROR
  | STATE_TRY_NEXT | STATE_LAST | STATE_PROCESSING_ERROR

record fastboot_getvar_info =
  var_name :: "u8 list"
  var_has_args :: bool
  var_sep :: u8
  var_var :: fastboot_var

definition VAR_ARGS :: "string \<Rightarrow> u8 \<Rightarrow> fastboot_var \<Rightarrow> fastboot_getvar_info" where
  "VAR_ARGS name sep var =
     \<lparr>var_name = c_bytes name, var_has_args = True, var_sep = sep, var_var = var\<rparr>"

definition VAR_NO_ARGS :: "string \<Rightarrow> fastboot_var \<Rightarrow> fastboot_getvar_info" where
  "VAR_NO_ARGS name var =
     \<lparr>var_name = c_bytes name, var_has_args = False, var_sep = 0, var_var = var\<rparr>"

definition fastboot_vars :: "fastboot_getvar_info list" where
  "fastboot_vars =
    [VAR_NO_ARGS ''current-slot'' VAR_CURRENT_SLOT,
     VAR_NO_ARGS ''Total-block-count'' VAR_TOTAL_BLOCK_COUNT,
     VAR_NO_ARGS ''max-download-size'' VAR_DOWNLOAD_SIZE,
     VAR_NO_ARGS ''is-userspace'' VAR_IS_USERSPACE,
     VAR_ARGS ''partition-size'' 58 VAR_PARTITION_SIZE,
     VAR_ARGS ''partition-type'' 58 VAR_PARTITION_TYPE,
     VAR_NO_ARGS ''product'' VAR_PRODUCT,
     VAR_NO_ARGS ''secure'' VAR_SECURE,
     VAR_NO_ARGS ''slot-count'' VAR_SLOT_COUNT,
     VAR_NO_ARGS ''version'' VAR_VERSION,
     VAR_NO_ARGS ''version-bootloader'' VAR_VERSION_BOOTLOADER,
     VAR_NO_ARGS ''slot-suffixes'' VAR_SLOT_SUFFIXES,
     VAR_ARGS ''slot-successful'' 58 VAR_SLOT_SUCCESSFUL,
     VAR_ARGS ''slot-retry-count'' 58 VAR_SLOT_RETRY_COUNT,
     VAR_ARGS ''slot-unbootable'' 58 VAR_SLOT_UNBOOTABLE,
     VAR_NO_ARGS ''logical-block-size'' VAR_LOGICAL_BLOCK_SIZE,
     VAR_NO_ARGS ''serialno'' VAR_SERIALNO,
     VAR_ARGS ''has-slot'' 58 VAR_HAS_SLOT,
     VAR_NO_ARGS ''mfg-sku'' VAR_MFG_SKU_ID,
     VAR_ARGS ''mac'' 58 VAR_WIFI_MAC,
     VAR_NO_ARGS ''hw-desc'' VAR_HW_DESC,
     VAR_NO_ARGS ''imei'' VAR_IMEI,
     VAR_NO_ARGS ''sku'' VAR_SKU,
     VAR_NO_ARGS ''oem'' VAR_OEM_ID,
     VAR_NO_ARGS ''partner-custom'' VAR_PARTNER_CUSTOM]"

definition snprintf :: "nat \<Rightarrow> u8 list \<Rightarrow> nat \<times> u8 list" where
  "snprintf n formatted = (length formatted, take (n - 1) formatted)"

text \<open>The end of \<open>fastboot_getvar\<close>: the overflow check on the summed length.\<close>

definition getvar_end ::
  "nat \<Rightarrow> nat \<times> u8 list \<Rightarrow> ('e, 's, 't) FastbootOps \<Rightarrow>
   fastboot_getvar_result \<times> u8 list \<times> ('e, 's, 't) FastbootOps" where
  "getvar_end outbuf_len out fb =
     (case out of (used_len, outbuf) \<Rightarrow>
        (if used_len > outbuf_len then STATE_OVERFLOW else STATE_OK, outbuf, fb))"

text \<open>A text after a prefix that names the argument: the buffer is advanced behind the prefix.\<close>

definition print_after :: "nat \<Rightarrow> u8 list \<Rightarrow> u8 list \<Rightarrow> nat \<times> u8 list" where
  "print_after outbuf_len prefix value =
     (case snprintf outbuf_len prefix of (used_len, outbuf) \<Rightarrow>
        if used_len > outbuf_len then (used_len, outbuf)
        else (case snprintf (outbuf_len - used_len) value of (ret, rest) \<Rightarrow>
                (used_len + ret, outbuf @ rest)))"

definition fastboot_get_partition_name_by_index ::
  "('e, 's) fb_env \<Rightarrow> 'e gpt_data \<Rightarrow> nat \<Rightarrow> fastboot_getvar_result + string \<times> 'e" where
  "fastboot_get_partition_name_by_index env gpt index =
     (if gpt_get_number_of_partitions gpt \<le> index then Inl STATE_LAST
      else (case gpt_get_partition gpt index of
              None \<Rightarrow> Inl STATE_TRY_NEXT
            | Some part \<Rightarrow>
                (case gpt_get_entry_name (env_vb (fe_misc env)) part of
                   None \<Rightarrow> Inl STATE_TRY_NEXT
                 | Some name \<Rightarrow> Inr (name, part))))"

definition fastboot_get_kernel_slot_by_index ::
  "('e, 's) fb_env \<Rightarrow> 'e gpt_data \<Rightarrow> nat \<Rightarrow> fastboot_getvar_result + char \<times> 'e" where
  "fastboot_get_kernel_slot_by_index env gpt index =
     (case fastboot_get_partition_name_by_index env gpt index of
        Inl state \<Rightarrow> Inl state
      | Inr (name, part) \<Rightarrow>
          if \<not> IsAndroid env part then Inl STATE_TRY_NEXT
          else (case fastboot_get_slot_for_partition_name name of
                  None \<Rightarrow> Inl STATE_TRY_NEXT
                | Some slot \<Rightarrow> Inr (slot, part)))"

definition is_entry_unbootable :: "('e, 's) fb_env \<Rightarrow> 'e \<Rightarrow> bool" where
  "is_entry_unbootable env e \<longleftrightarrow> \<not> IsBootableEntry env e \<or> GetEntryPriority env e = 0 \<or>
     \<not> GetEntrySuccessful env e \<and> GetEntryTries env e = 0"

definition yes_no :: "bool \<Rightarrow> u8 list" where
  "yes_no b = c_bytes (if b then ''yes'' else ''no'')"

text \<open>The text of a slot variable and of a partition variable; other variables die.\<close>

fun get_slot_var :: "('e, 's) fb_env \<Rightarrow> fastboot_var \<Rightarrow> 'e \<Rightarrow> u8 list" where
  "get_slot_var env VAR_SLOT_SUCCESSFUL e = yes_no (GetEntrySuccessful env e)"
| "get_slot_var env VAR_SLOT_RETRY_COUNT e = c_bytes (decimal (GetEntryTries env e))"
| "get_slot_var env _ e = yes_no (is_entry_unbootable env e)"

definition get_partition_type_string :: "string \<Rightarrow> string" where
  "get_partition_type_string name =
     (if name = ''OEM'' then ''ext4'' else if name = ''EFI-SYSTEM'' then ''vfat''
      else if name = ''metadata'' then ''ext4'' else if name = ''userdata'' then ''ext4''
      else ''raw'')"

fun get_partition_var :: "('e, 's) fb_env \<Rightarrow> fastboot_var \<Rightarrow> 'e \<Rightarrow> string \<Rightarrow> u8 list" where
  "get_partition_var env VAR_PARTITION_SIZE e name =
     c_bytes (''0x'' @ hexadecimal (GptGetEntrySizeBytes (env_vb (fe_misc env)) e))"
| "get_partition_var env _ e name = c_bytes (get_partition_type_string name)"

text \<open>A \<open>long\<close> assigned to an \<open>int\<close>, and \<open>%d\<close> of it.\<close>

definition to_int :: "int \<Rightarrow> int" where
  "to_int v = (v + 2 ^ 31) mod 2 ^ 32 - 2 ^ 31"

definition decimal_int :: "int \<Rightarrow> string" where
  "decimal_int v = (if v < 0 then CHR ''-'' # decimal (nat (- v)) else decimal (nat v))"

definition fastboot_get_mac_id :: "('e, 's) fb_env \<Rightarrow> u8 list \<Rightarrow> int option" where
  "fastboot_get_mac_id env arg =
     (case strtol env arg 10 of (value, consumed) \<Rightarrow>
        if consumed = 0 then None else Some (to_int value))"

text \<open>\<open>vpd_find\<close> in the table of the coreboot tables, with the bytes it points to.\<close>

definition vpd_string :: "('e, 's) fb_env \<Rightarrow> u8 list \<Rightarrow> u8 list option" where
  "vpd_string env key =
     (case (chromeos_vpd env, vpd_find (chromeos_vpd env) key None) of
        (Some vpd, Some (off, vpd_size)) \<Rightarrow>
          if vpd_size > 0 then Some (c_str (bslice off vpd_size (vpd_blob vpd))) else None
      | _ \<Rightarrow> None)"

definition vpd_or_unknown :: "('e, 's) fb_env \<Rightarrow> string \<Rightarrow> u8 list" where
  "vpd_or_unknown env key =
     (case vpd_string env (c_bytes key) of None \<Rightarrow> c_bytes ''unknown'' | Some v \<Rightarrow> v)"

text \<open>The variables that need the GPT fail with a disk error when there is none.\<close>

definition with_gpt ::
  "('e, 's) fb_env \<Rightarrow>
   ('e gpt_data \<Rightarrow> ('e, 's, 't) FastbootOps \<Rightarrow> fastboot_getvar_result \<times> u8 list \<times> ('e, 's, 't) FastbootOps) \<Rightarrow>
   ('e, 's, 't) FastbootOps \<Rightarrow> fastboot_getvar_result \<times> u8 list \<times> ('e, 's, 't) FastbootOps" where
  "with_gpt env f fb =
     (case fastboot_disk_gpt_init_no_fail env fb of (err, fb) \<Rightarrow>
        if err then (STATE_DISK_ERROR, [], fb)
        else (case fb_gpt fb of None \<Rightarrow> (STATE_DISK_ERROR, [], fb) | Some gpt \<Rightarrow> f gpt fb))"

definition with_disk ::
  "('e, 's) fb_env \<Rightarrow> ('s blockdev \<Rightarrow> u8 list) \<Rightarrow> nat \<Rightarrow>
   ('e, 's, 't) FastbootOps \<Rightarrow> fastboot_getvar_result \<times> u8 list \<times> ('e, 's, 't) FastbootOps" where
  "with_disk env f outbuf_len fb =
     (case fastboot_disk_init_no_fail env fb of (err, fb) \<Rightarrow>
        if err then (STATE_DISK_ERROR, [], fb)
        else (case fb_disk fb of
                None \<Rightarrow> (STATE_DISK_ERROR, [], fb)
              | Some disk \<Rightarrow> getvar_end outbuf_len (snprintf outbuf_len (f disk)) fb))"

definition getvar_partition ::
  "('e, 's) fb_env \<Rightarrow> fastboot_var \<Rightarrow> u8 list option \<Rightarrow> nat \<Rightarrow> nat \<Rightarrow> 'e gpt_data \<Rightarrow>
   ('e, 's, 't) FastbootOps \<Rightarrow> fastboot_getvar_result \<times> u8 list \<times> ('e, 's, 't) FastbootOps" where
  "getvar_partition env var arg index outbuf_len gpt fb =
     (case arg of
        Some a \<Rightarrow>
          (case gpt_find_partition (env_vb (fe_misc env)) gpt (hol_string a) of
             None \<Rightarrow> (STATE_UNKNOWN_VAR, [], fb)
           | Some part \<Rightarrow>
               getvar_end outbuf_len
                 (snprintf outbuf_len (get_partition_var env var part (hol_string a))) fb)
      | None \<Rightarrow>
          (case fastboot_get_partition_name_by_index env gpt index of
             Inl state \<Rightarrow> (state, [], fb)
           | Inr (name, part) \<Rightarrow>
               getvar_end outbuf_len
                 (print_after outbuf_len (c_bytes (name @ '':'')) (get_partition_var env var part name))
                 fb))"

definition getvar_slot ::
  "('e, 's) fb_env \<Rightarrow> fastboot_var \<Rightarrow> u8 list option \<Rightarrow> nat \<Rightarrow> nat \<Rightarrow> 'e gpt_data \<Rightarrow>
   ('e, 's, 't) FastbootOps \<Rightarrow> fastboot_getvar_result \<times> u8 list \<times> ('e, 's, 't) FastbootOps" where
  "getvar_slot env var arg index outbuf_len gpt fb =
     (case arg of
        Some a \<Rightarrow>
          if length a \<noteq> 1 then (STATE_UNKNOWN_VAR, [], fb)
          else (case fastboot_get_kernel_for_slot env gpt (hd (hol_string a)) of
                  None \<Rightarrow> (STATE_UNKNOWN_VAR, [], fb)
                | Some part \<Rightarrow>
                    getvar_end outbuf_len
                      (snprintf outbuf_len (get_slot_var env var (entries gpt ! part))) fb)
      | None \<Rightarrow>
          (case fastboot_get_kernel_slot_by_index env gpt index of
             Inl state \<Rightarrow> (state, [], fb)
           | Inr (slot, part) \<Rightarrow>
               getvar_end outbuf_len
                 (print_after outbuf_len (c_bytes [slot, CHR '':'']) (get_slot_var env var part)) fb))"

definition getvar_has_slot ::
  "('e, 's) fb_env \<Rightarrow> u8 list option \<Rightarrow> nat \<Rightarrow> nat \<Rightarrow> 'e gpt_data \<Rightarrow>
   ('e, 's, 't) FastbootOps \<Rightarrow> fastboot_getvar_result \<times> u8 list \<times> ('e, 's, 't) FastbootOps" where
  "getvar_has_slot env arg index outbuf_len gpt fb =
     (let find = (\<lambda>name. gpt_find_partition (env_vb (fe_misc env)) gpt name)
      in case arg of
        Some a \<Rightarrow>
          if fastboot_get_slot_for_partition_name (hol_string a) \<noteq> None
          then (STATE_UNKNOWN_VAR, [], fb)
          else if find (hol_string a) \<noteq> None
          then getvar_end outbuf_len (snprintf outbuf_len (yes_no False)) fb
          else (case snprintf (GPTENTRY_NAME_LEN env + 1) (a @ c_bytes ''_a'') of (ret, name_a) \<Rightarrow>
                  if ret > GPTENTRY_NAME_LEN env + 1 then (STATE_UNKNOWN_VAR, [], fb)
                  else if find (hol_string name_a) = None then (STATE_UNKNOWN_VAR, [], fb)
                  else getvar_end outbuf_len (snprintf outbuf_len (yes_no True)) fb)
      | None \<Rightarrow>
          (case fastboot_get_partition_name_by_index env gpt index of
             Inl state \<Rightarrow> (state, [], fb)
           | Inr (name, part) \<Rightarrow>
               (case fastboot_get_slot_for_partition_name name of
                  None \<Rightarrow>
                    getvar_end outbuf_len
                      (print_after outbuf_len (c_bytes (name @ '':'')) (yes_no False)) fb
                | Some slot \<Rightarrow>
                    if slot \<noteq> CHR ''a'' then (STATE_TRY_NEXT, [], fb)
                    else getvar_end outbuf_len
                           (print_after outbuf_len (c_bytes (take (length name - 2) name @ '':''))
                              (yes_no True)) fb)))"

text \<open>
  The MAC addresses: without an argument the length of the prefix is overwritten by that of the value,
  so the check at the end sees only the value.
\<close>

definition getvar_wifi_mac ::
  "('e, 's) fb_env \<Rightarrow> u8 list option \<Rightarrow> nat \<Rightarrow> nat \<Rightarrow> ('e, 's, 't) FastbootOps \<Rightarrow>
   fastboot_getvar_result \<times> u8 list \<times> ('e, 's, 't) FastbootOps" where
  "getvar_wifi_mac env arg index outbuf_len fb =
     (case (case arg of
              Some a \<Rightarrow> (case fastboot_get_mac_id env a of
                           None \<Rightarrow> Inl (STATE_PARSING_ERROR, snd (snprintf outbuf_len (c_bytes ''Bad Number'')))
                         | Some value \<Rightarrow> Inr (value, (0, [])))
            | None \<Rightarrow> (let prefix = snprintf outbuf_len (c_bytes (decimal index @ '':''))
                       in if fst prefix > outbuf_len then Inl (STATE_OVERFLOW, snd prefix)
                          else Inr (to_int (int index), prefix))) of
        Inl (state, outbuf) \<Rightarrow> (state, outbuf, fb)
      | Inr (value, (used_len, outbuf)) \<Rightarrow>
          (case vpd_string env (take 63 (c_bytes (''wifi_mac'' @ decimal_int value))) of
             None \<Rightarrow>
               (STATE_LAST, outbuf @ snd (snprintf outbuf_len (c_bytes ''unknown'')), fb)
           | Some v \<Rightarrow>
               (case snprintf (outbuf_len - used_len) v of (ret, rest) \<Rightarrow>
                  getvar_end outbuf_len (ret, outbuf @ rest) fb)))"

definition getvar_cbi ::
  "('e, 's) fb_env \<Rightarrow> ('s \<Rightarrow> nat + nat) \<Rightarrow> nat \<Rightarrow> ('e, 's, 't) FastbootOps \<Rightarrow>
   fastboot_getvar_result \<times> u8 list \<times> ('e, 's, 't) FastbootOps" where
  "getvar_cbi env get outbuf_len fb =
     (if CONFIG_DRIVER_EC_CROS env
      then (case get (world fb) of
              Inl rv \<Rightarrow> (STATE_PROCESSING_ERROR,
                snd (snprintf outbuf_len (c_bytes (''ec_error_0x'' @ hexadecimal rv))), fb)
            | Inr v \<Rightarrow>
                getvar_end outbuf_len (snprintf outbuf_len (c_bytes (''0x'' @ hexadecimal v))) fb)
      else (STATE_UNKNOWN_VAR, [], fb))"

fun fastboot_getvar ::
  "('e, 's) fb_env \<Rightarrow> fastboot_var \<Rightarrow> u8 list option \<Rightarrow> nat \<Rightarrow> nat \<Rightarrow> ('e, 's, 't) FastbootOps \<Rightarrow>
   fastboot_getvar_result \<times> u8 list \<times> ('e, 's, 't) FastbootOps" where
  "fastboot_getvar env VAR_CURRENT_SLOT arg index outbuf_len fb =
     with_gpt env (\<lambda>gpt fb.
       let slot = android_misc_get_active_slot (fe_misc env)
       in if slot = 0 then (STATE_DISK_ERROR, [], fb)
          else getvar_end outbuf_len (snprintf outbuf_len [word_of_nat slot]) fb) fb"
| "fastboot_getvar env VAR_TOTAL_BLOCK_COUNT arg index outbuf_len fb =
     with_disk env (\<lambda>disk. c_bytes (''0x'' @ hexadecimal (bd_block_count disk))) outbuf_len fb"
| "fastboot_getvar env VAR_DOWNLOAD_SIZE arg index outbuf_len fb =
     getvar_end outbuf_len
       (snprintf outbuf_len (c_bytes (''0x'' @ hexadecimal (FASTBOOT_MAX_DOWNLOAD_SIZE env)))) fb"
| "fastboot_getvar env VAR_IS_USERSPACE arg index outbuf_len fb =
     getvar_end outbuf_len (snprintf outbuf_len (c_bytes ''no'')) fb"
| "fastboot_getvar env VAR_PARTITION_SIZE arg index outbuf_len fb =
     with_gpt env (getvar_partition env VAR_PARTITION_SIZE arg index outbuf_len) fb"
| "fastboot_getvar env VAR_PARTITION_TYPE arg index outbuf_len fb =
     with_gpt env (getvar_partition env VAR_PARTITION_TYPE arg index outbuf_len) fb"
| "fastboot_getvar env VAR_PRODUCT arg index outbuf_len fb =
     getvar_end outbuf_len (snprintf outbuf_len (c_str (mb_part_string env))) fb"
| "fastboot_getvar env VAR_SLOT_COUNT arg index outbuf_len fb =
     with_gpt env (\<lambda>gpt. getvar_end outbuf_len
       (snprintf outbuf_len (c_bytes (decimal (fastboot_get_slot_count env gpt))))) fb"
| "fastboot_getvar env VAR_SECURE arg index outbuf_len fb =
     getvar_end outbuf_len (snprintf outbuf_len (c_bytes ''no'')) fb"
| "fastboot_getvar env VAR_VERSION arg index outbuf_len fb =
     getvar_end outbuf_len (snprintf outbuf_len (c_bytes ''0.4'')) fb"
| "fastboot_getvar env VAR_VERSION_BOOTLOADER arg index outbuf_len fb =
     getvar_end outbuf_len (snprintf outbuf_len
       (case active_fw_id env of None \<Rightarrow> c_bytes ''unknown'' | Some fw_id \<Rightarrow> c_str fw_id)) fb"
| "fastboot_getvar env VAR_SLOT_SUFFIXES arg index outbuf_len fb =
     with_gpt env (\<lambda>gpt. getvar_end outbuf_len (fastboot_get_slot_suffixes env gpt outbuf_len)) fb"
| "fastboot_getvar env VAR_SLOT_SUCCESSFUL arg index outbuf_len fb =
     with_gpt env (getvar_slot env VAR_SLOT_SUCCESSFUL arg index outbuf_len) fb"
| "fastboot_getvar env VAR_SLOT_RETRY_COUNT arg index outbuf_len fb =
     with_gpt env (getvar_slot env VAR_SLOT_RETRY_COUNT arg index outbuf_len) fb"
| "fastboot_getvar env VAR_SLOT_UNBOOTABLE arg index outbuf_len fb =
     with_gpt env (getvar_slot env VAR_SLOT_UNBOOTABLE arg index outbuf_len) fb"
| "fastboot_getvar env VAR_LOGICAL_BLOCK_SIZE arg index outbuf_len fb =
     with_disk env (\<lambda>disk. c_bytes (''0x'' @ hexadecimal (bd_block_size disk))) outbuf_len fb"
| "fastboot_getvar env VAR_SERIALNO arg index outbuf_len fb =
     getvar_end outbuf_len (snprintf outbuf_len (vpd_or_unknown env ''serial_number'')) fb"
| "fastboot_getvar env VAR_HAS_SLOT arg index outbuf_len fb =
     with_gpt env (getvar_has_slot env arg index outbuf_len) fb"
| "fastboot_getvar env VAR_MFG_SKU_ID arg index outbuf_len fb =
     getvar_end outbuf_len (snprintf outbuf_len (vpd_or_unknown env ''mfg_sku_id'')) fb"
| "fastboot_getvar env VAR_WIFI_MAC arg index outbuf_len fb =
     getvar_wifi_mac env arg index outbuf_len fb"
| "fastboot_getvar env VAR_HW_DESC arg index outbuf_len fb =
     getvar_end outbuf_len (snprintf outbuf_len (vpd_or_unknown env ''hardware_descriptor'')) fb"
| "fastboot_getvar env VAR_IMEI arg index outbuf_len fb =
     getvar_end outbuf_len (snprintf outbuf_len (vpd_or_unknown env ''imei'')) fb"
| "fastboot_getvar env VAR_SKU arg index outbuf_len fb =
     getvar_cbi env (cros_ec_cbi_get_sku_id env) outbuf_len fb"
| "fastboot_getvar env VAR_OEM_ID arg index outbuf_len fb =
     getvar_cbi env (cros_ec_cbi_get_oem_id env) outbuf_len fb"
| "fastboot_getvar env VAR_PARTNER_CUSTOM arg index outbuf_len fb =
     getvar_end outbuf_len (snprintf outbuf_len (vpd_or_unknown env ''partner_customization'')) fb"

text \<open>The loop of \<open>fastboot_getvar_all\<close> over the arguments of one variable.\<close>

partial_function (option) getvar_all_args ::
  "('e, 's) fb_env \<Rightarrow> fastboot_getvar_info \<Rightarrow> nat \<Rightarrow> nat \<Rightarrow> ('e, 's, 't) FastbootOps \<Rightarrow>
   ('e, 's, 't) FastbootOps option" where
  "getvar_all_args env var val_max_len arg fb =
     (case fastboot_getvar env (var_var var) None arg val_max_len fb of (state, var_buf, fb) \<Rightarrow>
        let fb = (if state = STATE_OK then fastboot_info (var_name var @ [58] @ c_str var_buf) fb else fb)
        in if state = STATE_LAST \<or> state = STATE_DISK_ERROR then Some fb
           else getvar_all_args env var val_max_len (arg + 1) fb)"

definition getvar_all_step ::
  "('e, 's) fb_env \<Rightarrow> fastboot_getvar_info \<Rightarrow> ('e, 's, 't) FastbootOps \<Rightarrow>
   ('e, 's, 't) FastbootOps option" where
  "getvar_all_step env var fb =
     (let val_max_len = FASTBOOT_MSG_LEN_WO_PREFIX - length (var_name var) - 1
      in if var_has_args var then getvar_all_args env var val_max_len 0 fb
         else (case fastboot_getvar env (var_var var) None 0 val_max_len fb of (state, var_buf, fb) \<Rightarrow>
                 Some (if state = STATE_OK
                       then fastboot_info (var_name var @ [58] @ c_str var_buf) fb else fb)))"

fun getvar_all_loop ::
  "('e, 's) fb_env \<Rightarrow> fastboot_getvar_info list \<Rightarrow> ('e, 's, 't) FastbootOps \<Rightarrow>
   ('e, 's, 't) FastbootOps option" where
  "getvar_all_loop env [] fb = Some fb"
| "getvar_all_loop env (var # vars) fb =
     Option.bind (getvar_all_step env var fb) (getvar_all_loop env vars)"

definition fastboot_getvar_all ::
  "('e, 's) fb_env \<Rightarrow> ('e, 's, 't) FastbootOps \<Rightarrow> ('e, 's, 't) FastbootOps option" where
  "fastboot_getvar_all env fb =
     map_option fastboot_succeed (getvar_all_loop env fastboot_vars fb)"

text \<open>The reply to a single variable, and the search for its name.\<close>

definition getvar_reply ::
  "('e, 's) fb_env \<Rightarrow> fastboot_getvar_result \<Rightarrow> u8 list \<Rightarrow> ('e, 's, 't) FastbootOps \<Rightarrow>
   ('e, 's, 't) FastbootOps" where
  "getvar_reply env state var_buf fb =
     (case state of
        STATE_OK \<Rightarrow> fastboot_okay (c_str var_buf) fb
      | STATE_OVERFLOW \<Rightarrow> fastboot_fail (c_bytes ''getvar truncated: '' @ c_str var_buf) fb
      | STATE_UNKNOWN_VAR \<Rightarrow> fastboot_fail (c_bytes ''Unknown variable'') fb
      | STATE_PROCESSING_ERROR \<Rightarrow>
          fastboot_fail (c_bytes ''getvar failed - error: '' @ c_str var_buf) fb
      | _ \<Rightarrow> fastboot_fail_with_logs env (c_bytes ''getvar failed - internal error'') fb)"

fun getvar_search ::
  "('e, 's) fb_env \<Rightarrow> fastboot_getvar_info list \<Rightarrow> u8 list \<Rightarrow> ('e, 's, 't) FastbootOps \<Rightarrow>
   ('e, 's, 't) FastbootOps" where
  "getvar_search env [] args fb = fastboot_fail (c_bytes ''Unknown variable'') fb"
| "getvar_search env (var # vars) args fb =
     (let name_len = length (var_name var); rest = drop name_len args
      in if take name_len args \<noteq> var_name var then getvar_search env vars args fb
         else if var_has_args var \<and> (rest = [] \<or> hd rest \<noteq> var_sep var)
         then getvar_search env vars args fb
         else if \<not> var_has_args var \<and> rest \<noteq> [] then getvar_search env vars args fb
         else (case fastboot_getvar env (var_var var)
                      (Some (if var_has_args var then tl rest else rest)) 0
                      FASTBOOT_MSG_LEN_WO_PREFIX fb of (state, var_buf, fb) \<Rightarrow>
                 getvar_reply env state var_buf fb))"

definition fastboot_cmd_getvar ::
  "('e, 's) fb_env \<Rightarrow> u8 list \<Rightarrow> ('e, 's, 't) FastbootOps \<Rightarrow> ('e, 's, 't) FastbootOps option" where
  "fastboot_cmd_getvar env args fb =
     (if args = c_bytes ''all'' then fastboot_getvar_all env fb
      else Some (getvar_search env fastboot_vars args fb))"

section \<open>What the variables answer and keep\<close>

text \<open>Reading a variable sends nothing; it may find the disk and the GPT, and keeps them then.\<close>

definition getvar_keeps ::
  "('e, 's) fb_env \<Rightarrow> ('s blockdev \<Rightarrow> 's \<Rightarrow> u8 list) \<Rightarrow> nat \<Rightarrow> ('e, 's, 't) FastbootOps \<Rightarrow>
   fastboot_getvar_result \<times> u8 list \<times> ('e, 's, 't) FastbootOps \<Rightarrow> bool" where
  "getvar_keeps env content k fb r \<longleftrightarrow> (case r of (state, var_buf, fb') \<Rightarrow>
     fb_inv env content k fb' \<and> informs fb fb' \<and>
     (\<forall>gpt. fb_gpt fb = Some gpt \<longrightarrow> fb_gpt fb' = Some gpt))"

lemma getvar_keeps_same [simp]:
  "getvar_keeps env content k fb (state, buf, fb) = fb_inv env content k fb"
  by (simp add: getvar_keeps_def)

lemma getvar_keeps_end [simp]:
  "getvar_keeps env content k fb (getvar_end n out fb) = fb_inv env content k fb"
  by (simp add: getvar_keeps_def getvar_end_def split: prod.split)

lemma disk_init_keeps_gpt:
  "fastboot_do_disk_init env send_fail fb = (err, fb') \<Longrightarrow> fb_gpt fb' = fb_gpt fb"
  by (auto simp: fastboot_do_disk_init_def Let_def split: option.splits prod.splits if_splits list.splits)

lemma disk_gpt_init_keeps_gpt:
  "fastboot_do_disk_gpt_init env send_fail fb = (err, fb') \<Longrightarrow> fb_gpt fb = Some gpt \<Longrightarrow>
     fb_gpt fb' = Some gpt"
  by (auto simp: fastboot_do_disk_gpt_init_def Let_def disk_init_keeps_gpt
      split: option.splits prod.splits if_splits)

lemma with_gpt_keeps:
  assumes "fb_env_ok env content k" and "fb_inv env content k fb"
    and "\<And>gpt fb'. fb_gpt fb' = Some gpt \<Longrightarrow> fb_inv env content k fb' \<Longrightarrow>
      getvar_keeps env content k fb' (f gpt fb')"
  shows "getvar_keeps env content k fb (with_gpt env f fb)"
proof -
  obtain err fb1 where i: "fastboot_do_disk_gpt_init env False fb = (err, fb1)" by fastforce
  note r = disk_gpt_init_runs [OF assms(1,2) i] and g = disk_gpt_init_keeps_gpt [OF i]
  show ?thesis
  proof (cases err)
    case True
    then show ?thesis using i r g
      by (auto simp: with_gpt_def fastboot_disk_gpt_init_no_fail_def getvar_keeps_def)
  next
    case False
    then obtain gpt where gpt: "fb_gpt fb1 = Some gpt" using r by blast
    have "getvar_keeps env content k fb1 (f gpt fb1)" using assms(3) [OF gpt] r by blast
    then show ?thesis using False i r g gpt
      by (auto simp: with_gpt_def fastboot_disk_gpt_init_no_fail_def getvar_keeps_def
          intro: informs_trans)
  qed
qed

lemma with_disk_keeps:
  assumes "fb_env_ok env content k" and "fb_inv env content k fb"
  shows "getvar_keeps env content k fb (with_disk env f n fb)"
proof -
  obtain err fb1 where i: "fastboot_do_disk_init env False fb = (err, fb1)" by fastforce
  note r = disk_init_runs [OF assms(1,2) i] and g = disk_init_keeps_gpt [OF i]
  have "fb_gpt fb = Some gpt \<longrightarrow> fb_gpt fb1 = Some gpt" for gpt using g by simp
  then show ?thesis using i r
    by (auto simp: with_disk_def fastboot_disk_init_no_fail_def getvar_keeps_def getvar_end_def
        split: option.split prod.split)
qed

lemma getvar_parts_keep:
  assumes "fb_inv env content k fb"
  shows "getvar_keeps env content k fb (getvar_partition env var arg index n gpt fb)"
    "getvar_keeps env content k fb (getvar_slot env var arg index n gpt fb)"
    "getvar_keeps env content k fb (getvar_has_slot env arg index n gpt fb)"
    "getvar_keeps env content k fb (getvar_wifi_mac env arg index n fb)"
    "getvar_keeps env content k fb (getvar_cbi env get n fb)"
  using assms
  by (auto simp: getvar_partition_def getvar_slot_def getvar_has_slot_def getvar_wifi_mac_def
      getvar_cbi_def Let_def split: option.split sum.split prod.split)

lemma fastboot_getvar_keeps:
  assumes "fb_env_ok env content k" and "fb_inv env content k fb"
  shows "getvar_keeps env content k fb (fastboot_getvar env var arg index n fb)"
  using assms
  by (cases var)
     (simp_all add: with_disk_keeps with_gpt_keeps [OF assms] getvar_parts_keep Let_def)

lemma fastboot_getvar_snd:
  assumes "fb_env_ok env content k" and "fb_inv env content k fb"
  shows "fb_inv env content k (snd (snd (fastboot_getvar env var arg index n fb)))"
    "informs fb (snd (snd (fastboot_getvar env var arg index n fb)))"
    "fb_gpt fb = Some gpt \<Longrightarrow> fb_gpt (snd (snd (fastboot_getvar env var arg index n fb))) = Some gpt"
  using fastboot_getvar_keeps [OF assms, of var arg index n]
  by (simp_all add: getvar_keeps_def case_prod_beta del: fastboot_getvar.simps)

text \<open>
  \<open>getvar all\<close> ends: the arguments of a partition or slot variable are the entries of the GPT, and
  the vital product data name finitely many MAC addresses.
\<close>

definition mac_table_ends :: "('e, 's) fb_env \<Rightarrow> bool" where
  "mac_table_ends env \<longleftrightarrow>
     (\<exists>i < 10 ^ 9. vpd_string env (take 63 (c_bytes (''wifi_mac'' @ decimal i))) = None)"

lemma getvar_all_args_returns:
  assumes keeps: "\<And>fb i. Q fb \<Longrightarrow> Q (snd (snd (fastboot_getvar env (var_var var) None i n fb)))"
    and link: "\<And>fb i. Q fb \<Longrightarrow> informs fb (snd (snd (fastboot_getvar env (var_var var) None i n fb)))"
    and info: "\<And>fb m. Q fb \<Longrightarrow> Q (fastboot_info m fb)"
    and stop: "\<And>fb. Q fb \<Longrightarrow> fst (fastboot_getvar env (var_var var) None N n fb) \<in>
      {STATE_LAST, STATE_DISK_ERROR}"
  shows "Q fb \<Longrightarrow> i \<le> N \<Longrightarrow> \<exists>fb'. getvar_all_args env var n i fb = Some fb' \<and> Q fb' \<and> informs fb fb'"
proof (induction "N - i" arbitrary: i fb)
  case 0
  obtain st buf fb1 where g: "fastboot_getvar env (var_var var) None N n fb = (st, buf, fb1)"
    by (metis prod_cases3)
  have "i = N" using 0 by simp
  then show ?case
    using g stop [OF 0(2)] keeps [OF 0(2), of N] link [OF 0(2), of N]
    by (subst getvar_all_args.simps) auto
next
  case (Suc d)
  obtain st buf fb1 where g: "fastboot_getvar env (var_var var) None i n fb = (st, buf, fb1)"
    by (metis prod_cases3)
  define fb2 where "fb2 = (if st = STATE_OK then fastboot_info (var_name var @ [58] @ c_str buf) fb1 else fb1)"
  have Q1: "Q fb1" and l1: "informs fb fb1"
    using keeps [OF Suc.prems(1), of i] link [OF Suc.prems(1), of i] g by simp_all
  have Q2: "Q fb2" and l2: "informs fb fb2"
    using Q1 info l1 by (auto simp: fb2_def intro: fb_answers)
  show ?case
  proof (cases "st = STATE_LAST \<or> st = STATE_DISK_ERROR")
    case True
    then show ?thesis using g Q2 l2 by (subst getvar_all_args.simps) (auto simp: fb2_def Let_def)
  next
    case False
    obtain fb' where "getvar_all_args env var n (i + 1) fb2 = Some fb'" "Q fb'" "informs fb2 fb'"
      using Suc.hyps(1) [of "i + 1" fb2, OF _ Q2] Suc.hyps(2) by fastforce
    then show ?thesis using g False l2
      by (subst getvar_all_args.simps) (auto simp: fb2_def [symmetric] Let_def intro: informs_trans)
  qed
qed

lemma with_gpt_Some:
  "fb_disk fb = Some d \<Longrightarrow> fb_gpt fb = Some gpt \<Longrightarrow> with_gpt env f fb = f gpt fb"
  by (simp add: with_gpt_def fastboot_disk_gpt_init_no_fail_def fastboot_do_disk_gpt_init_def
      fastboot_do_disk_init_def)

lemma name_by_index_last:
  assumes "length (entries gpt) \<le> i"
  shows "fastboot_get_partition_name_by_index env gpt i = Inl STATE_LAST"
    "fastboot_get_kernel_slot_by_index env gpt i = Inl STATE_LAST"
  using assms by (simp_all add: fastboot_get_partition_name_by_index_def
      gpt_get_number_of_partitions_def fastboot_get_kernel_slot_by_index_def)

definition gpt_var :: "fastboot_var \<Rightarrow> bool" where
  "gpt_var var \<longleftrightarrow> var \<in> {VAR_PARTITION_SIZE, VAR_PARTITION_TYPE, VAR_SLOT_SUCCESSFUL,
     VAR_SLOT_RETRY_COUNT, VAR_SLOT_UNBOOTABLE, VAR_HAS_SLOT}"

lemma gpt_var_last:
  assumes "fb_inv env content k fb" and "fb_gpt fb = Some gpt" and "gpt_var var"
    and "length (entries gpt) \<le> i"
  shows "fst (fastboot_getvar env var None i n fb) = STATE_LAST"
proof -
  obtain d where d: "fb_disk fb = Some d"
    using assms(1,2) by (auto simp: fb_inv_def disk_state_ok_def split: option.splits)
  show ?thesis using assms(3)
    by (auto simp: gpt_var_def with_gpt_Some [OF d assms(2)] getvar_partition_def getvar_slot_def
        getvar_has_slot_def name_by_index_last [OF assms(4)] Let_def)
qed

lemma getvar_no_gpt:
  assumes "fb_env_ok env content k" and "fb_inv env content k fb" and "gpt_var var"
    and "fastboot_getvar env var None i n fb = (st, buf, fb')" and "fb_gpt fb' = None"
  shows "st = STATE_DISK_ERROR"
proof -
  obtain err fb1 where i: "fastboot_do_disk_gpt_init env False fb = (err, fb1)" by fastforce
  note r = disk_gpt_init_runs [OF assms(1,2) i]
  have k: "getvar_keeps env content k fb1 (getvar_partition env var None i n gpt fb1)"
    "getvar_keeps env content k fb1 (getvar_slot env var None i n gpt fb1)"
    "getvar_keeps env content k fb1 (getvar_has_slot env None i n gpt fb1)" for gpt
    using r by (simp_all add: getvar_parts_keep)
  show ?thesis
  proof (cases "fb_gpt fb1")
    case None
    then have err using r by auto
    then show ?thesis using assms(3,4) i
      by (auto simp: gpt_var_def with_gpt_def fastboot_disk_gpt_init_no_fail_def)
  next
    case (Some gpt)
    then show ?thesis using assms(3-5) i k [of gpt]
      by (auto simp: gpt_var_def with_gpt_def fastboot_disk_gpt_init_no_fail_def getvar_keeps_def
          split: if_splits)
  qed
qed

lemma mac_length: "i < 10 ^ 9 \<Longrightarrow> length (decimal i) \<le> 9"
proof -
  have step: "length (decimal j) \<le> Suc m" if "j < 10 ^ Suc m" for j m
    using that
  proof (induction m arbitrary: j)
    case (Suc m)
    show ?case
    proof (cases "j < 10")
      case False
      have "j div 10 < 10 ^ Suc m" using Suc.prems by (simp add: less_mult_imp_div_less)
      from Suc.IH [OF this] False show ?thesis by (subst decimal.simps) simp
    qed (subst decimal.simps, simp)
  qed (subst decimal.simps, simp)
  assume "i < 10 ^ 9"
  then show ?thesis using step [of i 8] by simp
qed

lemma mac_last:
  assumes "vpd_string env (take 63 (c_bytes (''wifi_mac'' @ decimal i))) = None" and "i < 10 ^ 9"
    and "10 \<le> n"
  shows "fst (fastboot_getvar env VAR_WIFI_MAC None i n fb) = STATE_LAST"
proof -
  have "to_int (int i) = int i" using assms(2) by (simp add: to_int_def)
  then have "decimal_int (to_int (int i)) = decimal i" by (simp add: decimal_int_def)
  moreover have "length (c_bytes (decimal i @ '':'')) \<le> n"
    using mac_length [OF assms(2)] assms(3) by (simp add: c_bytes_def)
  ultimately show ?thesis using assms(1)
    by (simp add: getvar_wifi_mac_def snprintf_def Let_def c_bytes_def)
qed

lemma fastboot_vars_kinds:
  "var \<in> set fastboot_vars \<Longrightarrow> var_has_args var \<Longrightarrow>
     (gpt_var (var_var var) \<or> var_var var = VAR_WIFI_MAC) \<and> length (var_name var) \<le> 20"
  by (auto simp: fastboot_vars_def VAR_ARGS_def VAR_NO_ARGS_def gpt_var_def c_bytes_def)

lemma getvar_all_step_returns:
  assumes e: "fb_env_ok env content k" and mac: "mac_table_ends env"
    and i: "fb_inv env content k fb" and var: "var \<in> set fastboot_vars"
  shows "\<exists>fb'. getvar_all_step env var fb = Some fb' \<and> fb_inv env content k fb' \<and> informs fb fb'"
proof (cases "var_has_args var")
  case False
  obtain st buf fb1 where "fastboot_getvar env (var_var var) None 0
      (FASTBOOT_MSG_LEN_WO_PREFIX - length (var_name var) - 1) fb = (st, buf, fb1)"
    by (metis prod_cases3)
  with False fastboot_getvar_keeps [OF e i, of "var_var var" None 0
      "FASTBOOT_MSG_LEN_WO_PREFIX - length (var_name var) - 1"]
  show ?thesis by (auto simp: getvar_all_step_def getvar_keeps_def Let_def intro: fb_answers)
next
  case True
  define n where "n = FASTBOOT_MSG_LEN_WO_PREFIX - length (var_name var) - 1"
  note kind = fastboot_vars_kinds [OF var True]
  have "length (var_name var) \<le> 20" using kind by blast
  then have n: "10 \<le> n"
    by (simp add: n_def FASTBOOT_MSG_LEN_WO_PREFIX_def FASTBOOT_MSG_MAX_def FASTBOOT_PREFIX_LEN_def)
  note keeps = fastboot_getvar_keeps [OF e, of _ "var_var var" None _ n]
  have "\<exists>fb'. getvar_all_args env var n 0 fb = Some fb' \<and> fb_inv env content k fb' \<and> informs fb fb'"
  proof (cases "var_var var = VAR_WIFI_MAC")
    case True
    obtain j where j: "vpd_string env (take 63 (c_bytes (''wifi_mac'' @ decimal j))) = None" "j < 10 ^ 9"
      using mac by (auto simp: mac_table_ends_def)
    show ?thesis
      by (rule getvar_all_args_returns [where Q = "fb_inv env content k" and N = j])
         (simp_all add: i True fastboot_getvar_snd [OF e] mac_last [OF j n] del: fastboot_getvar.simps)
  next
    case False
    then have gv: "gpt_var (var_var var)" using kind by blast
    obtain st buf fb1 where g: "fastboot_getvar env (var_var var) None 0 n fb = (st, buf, fb1)"
      by (metis prod_cases3)
    define fb2 where
      "fb2 = (if st = STATE_OK then fastboot_info (var_name var @ [58] @ c_str buf) fb1 else fb1)"
    have k1: "fb_inv env content k fb1" "informs fb fb1"
      using keeps [OF i, of 0] g by (simp_all add: getvar_keeps_def)
    then have k2: "fb_inv env content k fb2" "informs fb fb2" by (auto simp: fb2_def intro: fb_answers)
    show ?thesis
    proof (cases "st = STATE_LAST \<or> st = STATE_DISK_ERROR")
      case True
      then show ?thesis using g k2
        by (subst getvar_all_args.simps) (auto simp: fb2_def Let_def)
    next
      case go: False
      then obtain gpt where "fb_gpt fb1 = Some gpt"
        using getvar_no_gpt [OF e i gv g] by (cases "fb_gpt fb1") auto
      then have gpt: "fb_gpt fb2 = Some gpt" by (simp add: fb2_def)
      have "\<exists>fb'. getvar_all_args env var n 1 fb2 = Some fb' \<and>
          (fb_inv env content k fb' \<and> fb_gpt fb' = Some gpt) \<and> informs fb2 fb'"
        by (rule getvar_all_args_returns [where N = "length (entries gpt) + 1"])
           (simp_all add: k2 gpt fastboot_getvar_snd [OF e] gpt_var_last [of env content k, OF _ _ gv]
              del: fastboot_getvar.simps)
      then show ?thesis using g go k2
        by (subst getvar_all_args.simps) (auto simp: fb2_def [symmetric] Let_def intro: informs_trans)
    qed
  qed
  then show ?thesis using True by (simp add: getvar_all_step_def n_def Let_def)
qed

lemma getvar_all_loop_returns:
  assumes e: "fb_env_ok env content k" and mac: "mac_table_ends env"
  shows "fb_inv env content k fb \<Longrightarrow> set vars \<subseteq> set fastboot_vars \<Longrightarrow>
    \<exists>fb'. getvar_all_loop env vars fb = Some fb' \<and> fb_inv env content k fb' \<and> informs fb fb'"
proof (induction vars arbitrary: fb)
  case (Cons var vars)
  obtain fb1 where s: "getvar_all_step env var fb = Some fb1" "fb_inv env content k fb1" "informs fb fb1"
    using getvar_all_step_returns [OF e mac Cons.prems(1), of var] Cons.prems(2) by auto
  obtain fb' where "getvar_all_loop env vars fb1 = Some fb'" "fb_inv env content k fb'" "informs fb1 fb'"
    using Cons.IH [OF s(2)] Cons.prems(2) by auto
  with s show ?case by (auto intro: informs_trans)
qed auto

lemma answers_getvar_reply: "informs fb g \<Longrightarrow> answers fb (getvar_reply env state buf g)"
  by (cases state) (auto simp: getvar_reply_def intro: fb_answers)

lemma fb_inv_getvar_reply [simp]:
  "fb_inv env content k (getvar_reply env' state buf fb) = fb_inv env content k fb"
  by (cases state) (simp_all add: getvar_reply_def)

lemma getvar_search_runs:
  assumes e: "fb_env_ok env content k" and i: "fb_inv env content k fb"
  shows "runs env content k fb (Some (getvar_search env vars args fb))"
proof (induction vars)
  case (Cons var vars)
  have "runs env content k fb (Some (case fastboot_getvar env (var_var var) arg 0 n fb of
      (state, var_buf, fb) \<Rightarrow> getvar_reply env state var_buf fb))" for arg n
    using fastboot_getvar_keeps [OF e i, of "var_var var" arg 0 n]
    by (auto simp: getvar_keeps_def split: prod.splits intro!: runsI answers_getvar_reply)
  with Cons show ?case by (simp add: Let_def)
qed (auto intro!: runsI fb_answers simp: i)

lemma fastboot_cmd_getvar_runs:
  assumes e: "fb_env_ok env content k" and i: "fb_inv env content k fb" and mac: "mac_table_ends env"
  shows "runs env content k fb (fastboot_cmd_getvar env args fb)"
proof -
  obtain fb' where "getvar_all_loop env fastboot_vars fb = Some fb'" "fb_inv env content k fb'"
    "informs fb fb'"
    using getvar_all_loop_returns [OF e mac i order_refl] by blast
  then have "runs env content k fb (fastboot_getvar_all env fb)"
    by (auto simp: fastboot_getvar_all_def intro!: runsI fb_answers)
  then show ?thesis using getvar_search_runs [OF e i] by (simp add: fastboot_cmd_getvar_def)
qed

end
