(* ===== verification/Fastboot_Match.thy ===== *)
theory Fastboot_Match
  imports Fastboot_Vars
begin

text \<open>
  The text handling of \<open>src/fastboot/cmd.c\<close>: the parameters of the OEM command line, with their
  quotes and separators, and the patterns of \<open>oem cmdline del\<close>.
\<close>

section \<open>Model\<close>

definition is_cmd_quote :: "u8 \<Rightarrow> bool \<Rightarrow> bool" where
  "is_cmd_quote c bootconfig \<longleftrightarrow> c = 34 \<or> bootconfig \<and> c = 39"

text \<open>\<open>cmd_find_end\<close>: the number of characters before the end; \<open>in_quote\<close> is 0 outside quotes.\<close>

fun cmd_find_end :: "bool \<Rightarrow> u8 \<Rightarrow> u8 list \<Rightarrow> nat" where
  "cmd_find_end bootconfig in_quote [] = 0"
| "cmd_find_end bootconfig in_quote (c # cs) =
     (if c = 0 then 0
      else if is_cmd_quote c bootconfig
      then Suc (cmd_find_end bootconfig
                  (if in_quote = c then 0 else if in_quote = 0 then c else in_quote) cs)
      else if in_quote = 0 \<and> is_android_misc_cmd_separator c bootconfig then 0
      else Suc (cmd_find_end bootconfig in_quote cs))"

text \<open>
  The head of a pattern: whether it matches anywhere (\<open>wild_match\<close>), the literal text up to the next
  wild character (\<open>pattern\<close>, \<open>pattern_len\<close>), and the pattern from there (\<open>next_wild\<close>, empty for
  NULL).
\<close>

definition pattern_head :: "u8 list \<Rightarrow> bool \<times> u8 list \<times> u8 list" where
  "pattern_head pattern =
     (case pattern of
        [] \<Rightarrow> (False, [], [])
      | c # cs \<Rightarrow>
          if c = 42
          then if cs \<noteq> [] \<and> hd cs = 42
               then (False, 42 # takeWhile (\<lambda>d. d \<noteq> 42) (tl cs), dropWhile (\<lambda>d. d \<noteq> 42) (tl cs))
               else (True, takeWhile (\<lambda>d. d \<noteq> 42) cs, dropWhile (\<lambda>d. d \<noteq> 42) cs)
          else (False, takeWhile (\<lambda>d. d \<noteq> 42) pattern, dropWhile (\<lambda>d. d \<noteq> 42) pattern))"

text \<open>The loop of \<open>is_matching\<close>, with the test of what follows the literal text.\<close>

fun match_loop :: "bool \<Rightarrow> u8 list \<Rightarrow> (u8 list \<Rightarrow> bool) \<Rightarrow> u8 list \<Rightarrow> bool" where
  "match_loop wild lit follows [] = (lit = [] \<and> follows [])"
| "match_loop wild lit follows (c # cs) =
     (if length (c # cs) < length lit then False
      else if take (length lit) (c # cs) = lit \<and> follows (drop (length lit) (c # cs)) then True
      else if wild then match_loop wild lit follows cs else False)"

lemma pattern_head_less:
  assumes "pattern_head pattern = (wild, lit, next_wild)" and "next_wild \<noteq> []"
  shows "length next_wild < length pattern"
proof -
  have "length (dropWhile P xs) \<le> length xs" for P and xs :: "u8 list"
    by (rule length_dropWhile_le)
  then show ?thesis using assms
    by (cases pattern; cases "tl pattern")
       (auto simp: pattern_head_def less_Suc_eq_le le_SucI split: if_splits)
qed

function is_matching :: "u8 list \<Rightarrow> u8 list \<Rightarrow> bool" where
  "is_matching pattern =
     (if pattern = [42] then (\<lambda>param. True)
      else case pattern_head pattern of (wild, lit, next_wild) \<Rightarrow>
        match_loop wild lit (if next_wild = [] then (\<lambda>param. param = []) else is_matching next_wild))"
  by pat_completeness auto
termination
  by (relation "measure length") (auto dest: pattern_head_less [OF sym])

declare is_matching.simps [simp del]

section \<open>Patterns\<close>

text \<open>
  What a pattern means: a list of literal characters and wild ones, where \<open>**\<close> at the start or after
  a wild character stands for a literal \<open>*\<close>.
\<close>

datatype pattern_item = Any | Lit u8

fun parse_pattern :: "u8 list \<Rightarrow> pattern_item list" where
  "parse_pattern [] = []"
| "parse_pattern [c] = [if c = 42 then Any else Lit c]"
| "parse_pattern (c # d # cs) =
     (if c = 42 then if d = 42 then Lit 42 # parse_pattern cs else Any # parse_pattern (d # cs)
      else Lit c # parse_pattern (d # cs))"

fun glob :: "pattern_item list \<Rightarrow> u8 list \<Rightarrow> bool" where
  "glob [] s = (s = [])"
| "glob (Lit c # ps) s = (case s of [] \<Rightarrow> False | d # ds \<Rightarrow> c = d \<and> glob ps ds)"
| "glob (Any # ps) [] = glob ps []"
| "glob (Any # ps) (d # ds) = (glob ps (d # ds) \<or> glob (Any # ps) ds)"

lemma glob_Any: "glob (Any # ps) s \<longleftrightarrow> (\<exists>u t. s = u @ t \<and> glob ps t)"
proof (induction s)
  case (Cons d ds)
  show ?case
  proof
    assume "glob (Any # ps) (d # ds)"
    then show "\<exists>u t. d # ds = u @ t \<and> glob ps t"
      using Cons by (metis append_Cons append_Nil glob.simps(4))
  next
    assume "\<exists>u t. d # ds = u @ t \<and> glob ps t"
    then obtain u t where "d # ds = u @ t" "glob ps t" by blast
    with Cons show "glob (Any # ps) (d # ds)" by (cases u) auto
  qed
qed simp

lemma glob_Lits: "glob (map Lit lit @ ps) s \<longleftrightarrow> (\<exists>t. s = lit @ t \<and> glob ps t)"
  by (induction lit arbitrary: s) (auto split: list.split)

lemma match_loop_fixed: "match_loop False lit f s \<longleftrightarrow> (\<exists>t. s = lit @ t \<and> f t)"
proof (cases s)
  case (Cons c cs)
  have "(\<exists>t. s = lit @ t \<and> f t) \<longleftrightarrow> take (length lit) s = lit \<and> length lit \<le> length s \<and> f (drop (length lit) s)"
    by (metis append_eq_conv_conj append_take_drop_id length_append le_add1)
  then show ?thesis using Cons by auto
qed simp

lemma match_loop_wild:
  "lit \<noteq> [] \<Longrightarrow> match_loop True lit f s \<longleftrightarrow> (\<exists>u t. s = u @ lit @ t \<and> f t)"
proof (induction s)
  case (Cons c cs)
  have here: "match_loop False lit f (c # cs) \<longleftrightarrow> (\<exists>t. c # cs = lit @ t \<and> f t)"
    by (rule match_loop_fixed)
  have "match_loop True lit f (c # cs) \<longleftrightarrow>
      match_loop False lit f (c # cs) \<or> length lit \<le> length (c # cs) \<and> match_loop True lit f cs"
    by auto
  also have "\<dots> \<longleftrightarrow> (\<exists>t. c # cs = lit @ t \<and> f t) \<or> (\<exists>u t. cs = u @ lit @ t \<and> f t)"
    using here Cons by auto
  also have "\<dots> \<longleftrightarrow> (\<exists>u t. c # cs = u @ lit @ t \<and> f t)"
    by (auto simp: Cons_eq_append_conv)
  finally show ?case .
qed simp

lemma parse_Cons: "c \<noteq> 42 \<Longrightarrow> parse_pattern (c # cs) = Lit c # parse_pattern cs"
  by (cases cs) simp_all

lemma parse_lits: "42 \<notin> set lit \<Longrightarrow> parse_pattern (lit @ rest) = map Lit lit @ parse_pattern rest"
  by (induction lit) (simp_all add: parse_Cons)

lemma parse_split:
  "parse_pattern cs = map Lit (takeWhile (\<lambda>d. d \<noteq> 42) cs) @ parse_pattern (dropWhile (\<lambda>d. d \<noteq> 42) cs)"
proof -
  have "42 \<notin> set (takeWhile (\<lambda>d. d \<noteq> 42) cs)" by (auto dest: set_takeWhileD)
  from parse_lits [OF this, of "dropWhile (\<lambda>d. d \<noteq> 42) cs"] show ?thesis by simp
qed

lemma parse_head:
  assumes "pattern_head pattern = (wild, lit, next_wild)" and "pattern \<noteq> [42]"
  shows "parse_pattern pattern = (if wild then [Any] else []) @ map Lit lit @ parse_pattern next_wild"
    and "wild \<Longrightarrow> lit \<noteq> []"
proof -
  consider "pattern = []" | c cs where "pattern = c # cs" "c \<noteq> 42"
    | cs where "pattern = 42 # 42 # cs" | d cs where "pattern = 42 # d # cs" "d \<noteq> 42"
    using assms(2) by (metis list.exhaust)
  then have "parse_pattern pattern = (if wild then [Any] else []) @ map Lit lit @ parse_pattern next_wild
      \<and> (wild \<longrightarrow> lit \<noteq> [])"
  proof cases
    case (2 c cs)
    then show ?thesis using assms(1) parse_split [of "c # cs"] by (auto simp: pattern_head_def)
  next
    case (3 cs)
    then show ?thesis using assms(1) parse_split [of cs] by (auto simp: pattern_head_def)
  next
    case (4 d cs)
    then show ?thesis using assms(1) parse_split [of "d # cs"] by (auto simp: pattern_head_def)
  qed (use assms(1) in \<open>auto simp: pattern_head_def\<close>)
  then show "parse_pattern pattern = (if wild then [Any] else []) @ map Lit lit @ parse_pattern next_wild"
    and "wild \<Longrightarrow> lit \<noteq> []" by blast+
qed

lemma is_matching_glob: "is_matching pattern param = glob (parse_pattern pattern) param"
proof (induction pattern arbitrary: param rule: is_matching.induct)
  case (1 pattern)
  show ?case
  proof (cases "pattern = [42]")
    case True
    have "glob [Any] param" by (rule glob_Any [THEN iffD2]) auto
    with True show ?thesis by (subst is_matching.simps) simp
  next
    case False
    obtain wild lit next_wild where h: "pattern_head pattern = (wild, lit, next_wild)"
      by (metis prod_cases3)
    define f where "f = (if next_wild = [] then (\<lambda>param. param = []) else is_matching next_wild)"
    have f: "f t = glob (parse_pattern next_wild) t" for t
      using 1 [OF False h [symmetric] refl] by (simp add: f_def)
    have m: "is_matching pattern param = match_loop wild lit f param"
      using False h by (subst is_matching.simps) (simp add: f_def)
    note p = parse_head [OF h False]
    show ?thesis
    proof (cases wild)
      case True
      then show ?thesis using p by (simp add: m f match_loop_wild glob_Any glob_Lits) blast
    next
      case False
      then show ?thesis using p(1) by (simp add: m f match_loop_fixed glob_Lits)
    qed
  qed
qed

text \<open>
  C10. The matching of \<open>oem cmdline del\<close>, which cuts the pattern at its wild characters, searches for
  each literal part and recurses, is the matching of the pattern as a list of items: a literal
  character matches itself, \<open>*\<close> any characters (none too), and \<open>**\<close> stands for the character \<open>*\<close>.
\<close>

theorem is_matching_matches_items:
  "is_matching pattern param \<longleftrightarrow> glob (parse_pattern pattern) param"
  by (rule is_matching_glob)

lemma glob_Nil_items: "glob ps [] \<longleftrightarrow> set ps \<subseteq> {Any}"
  by (induction ps "[] :: u8 list" rule: glob.induct) auto

text \<open>Only the single \<open>*\<close> and the empty pattern match the empty parameter.\<close>

lemma is_matching_Nil: "is_matching pattern [] \<longleftrightarrow> pattern = [] \<or> pattern = [42]"
proof -
  have "set (parse_pattern pattern) \<subseteq> {Any} \<longleftrightarrow> pattern = [] \<or> pattern = [42]"
    by (induction pattern rule: parse_pattern.induct) (auto split: if_splits)
  then show ?thesis by (simp add: is_matching_glob glob_Nil_items)
qed

end
