(* ===== verification/Fastboot_Cmd.thy ===== *)
theory Fastboot_Cmd
  imports Fastboot_Match
begin

text \<open>
  \<open>src/fastboot/cmd.c\<close>: the commands of fastboot and their table. A command gets its argument as the
  bytes of a C string and returns the session, or \<open>None\<close> when it does not return or reads outside
  its memory. The numbers that libpayload's \<open>strtol\<close> family reads are arguments of the environment:
  the value and how many characters were used.
\<close>

section \<open>Model: session and staging commands\<close>

definition fastboot_cmd_continue ::
  "u8 list \<Rightarrow> ('e, 's, 't) FastbootOps \<Rightarrow> ('e, 's, 't) FastbootOps option" where
  "fastboot_cmd_continue arg fb =
     Some ((fastboot_okay (c_bytes ''Continuing boot'') fb)\<lparr>fb_state := FINISHED\<rparr>)"

definition fastboot_cmd_upload ::
  "('e, 's) fb_env \<Rightarrow> u8 list \<Rightarrow> ('e, 's, 't) FastbootOps \<Rightarrow> ('e, 's, 't) FastbootOps option" where
  "fastboot_cmd_upload env arg fb =
     (let len = memory_buffer_len fb
      in if \<not> has_staged_data fb \<or> len = 0
         then Some (fastboot_fail (c_bytes ''No staged data to upload'') fb)
         else if len > CONFIG_UIP_TCP_MSS env
         then Some (fastboot_fail (c_bytes ''b/430379190: staged buffer is too large'')
                (fastboot_info (c_bytes (''b/430379190: max upload bytes is '' @
                   decimal (CONFIG_UIP_TCP_MSS env) @ '', got '' @ decimal len)) fb))
         else let fb = fastboot_data (len mod 2 ^ 32) fb;
                  fb = send_raw (fastboot_get_memory_buffer fb) fb
              in Some (fastboot_reset_staging (fastboot_succeed fb)))"

definition fastboot_cmd_download ::
  "('e, 's) fb_env \<Rightarrow> u8 list \<Rightarrow> ('e, 's, 't) FastbootOps \<Rightarrow> ('e, 's, 't) FastbootOps option" where
  "fastboot_cmd_download env arg fb =
     (case strtoul env arg 16 of (value, consumed) \<Rightarrow>
        let sz = value mod 2 ^ 32
        in if consumed = 0 \<or> consumed < length arg
           then Some (fastboot_fail (c_bytes ''Invalid argument'') fb)
           else if sz > FASTBOOT_MAX_DOWNLOAD_SIZE env
           then Some (fastboot_fail (c_bytes ''File too big'') fb)
           else Some (fastboot_data sz (fastboot_prepare_download sz fb)))"

definition FASTBOOT_RAW_WRITE_ARG :: "u8 list" where
  "FASTBOOT_RAW_WRITE_ARG = c_bytes ''raw-sector:''"

definition fastboot_cmd_flash ::
  "('e, 's) fb_env \<Rightarrow> u8 list \<Rightarrow> ('e, 's, 't) FastbootOps \<Rightarrow> ('e, 's, 't) FastbootOps option" where
  "fastboot_cmd_flash env arg fb =
     (if \<not> has_staged_data fb then Some (fastboot_fail (c_bytes ''No data staged to flash'') fb)
      else let data = fastboot_get_memory_buffer fb;
               beyond = drop (memory_buffer_len fb) (kernel_memory fb);
               n = length FASTBOOT_RAW_WRITE_ARG
           in if take n arg = FASTBOOT_RAW_WRITE_ARG
              then (let start_block_str = drop n arg
                    in case strtoll env start_block_str 0 of (start_block, consumed) \<Rightarrow>
                      if start_block < 0 \<or> consumed = 0 \<or> consumed < length start_block_str
                      then Some (fastboot_fail (c_bytes ''Invalid start block for raw-sector ('' @ [34] @
                             start_block_str @ [34] @ c_bytes '')'') fb)
                      else fastboot_write_raw env (nat start_block) data beyond fb)
              else fastboot_write env arg 0 data beyond fb)"

definition fastboot_cmd_erase ::
  "('e, 's) fb_env \<Rightarrow> u8 list \<Rightarrow> ('e, 's, 't) FastbootOps \<Rightarrow> ('e, 's, 't) FastbootOps option" where
  "fastboot_cmd_erase env arg fb = fastboot_erase env arg fb"

definition fastboot_cmd_oem_logs ::
  "('e, 's) fb_env \<Rightarrow> u8 list \<Rightarrow> ('e, 's, 't) FastbootOps \<Rightarrow> ('e, 's, 't) FastbootOps option" where
  "fastboot_cmd_oem_logs env arg fb =
     (case cbmem_console_snapshot env (world fb) of
        None \<Rightarrow> Some (fastboot_fail (c_bytes ''Failed to read logs'') fb)
      | Some snapshot \<Rightarrow>
          Some (fastboot_succeed
            (fastboot_multiline_info (dropWhile (\<lambda>c. c = 10) (c_str snapshot)) fb)))"

definition fastboot_cmd_reboot ::
  "u8 list \<Rightarrow> ('e, 's, 't) FastbootOps \<Rightarrow> ('e, 's, 't) FastbootOps option" where
  "fastboot_cmd_reboot arg fb = Some ((fastboot_succeed fb)\<lparr>fb_state := REBOOT\<rparr>)"

section \<open>Model: hash of a partition\<close>

text \<open>\<open>strsep\<close>: the field before the delimiter and the rest, \<open>None\<close> where the pointer is NULL.\<close>

definition strsep :: "u8 list option \<Rightarrow> u8 \<Rightarrow> u8 list option \<times> u8 list option" where
  "strsep str delim =
     (case str of
        None \<Rightarrow> (None, None)
      | Some s \<Rightarrow>
          (Some (takeWhile (\<lambda>c. c \<noteq> delim) s),
           case dropWhile (\<lambda>c. c \<noteq> delim) s of [] \<Rightarrow> None | _ # rest \<Rightarrow> Some rest))"

text \<open>An optional number: \<open>None\<close> when the text is there and is not a number.\<close>

definition parse_optional :: "('e, 's) fb_env \<Rightarrow> u8 list option \<Rightarrow> nat option" where
  "parse_optional env str =
     (case str of
        None \<Rightarrow> Some 0
      | Some s \<Rightarrow>
          (case strtoull env s 0 of (value, consumed) \<Rightarrow>
             if consumed = 0 \<or> consumed < length s then None else Some value))"

text \<open>The loop over the stream; the data hashed so far is the argument of \<open>sha256\<close>.\<close>

partial_function (option) sha256_loop ::
  "('e, 's) fb_env \<Rightarrow> 's blockdev \<Rightarrow> nat \<Rightarrow> simple_stream \<Rightarrow> u8 list \<Rightarrow> ('e, 's, 't) FastbootOps \<Rightarrow>
   (u8 list option \<times> ('e, 's, 't) FastbootOps) option" where
  "sha256_loop env disk to_read stream hashed fb =
     (if to_read = 0 then Some (Some hashed, fb)
      else let chunk_len = min to_read (FASTBOOT_MAX_DOWNLOAD_SIZE env)
           in case simple_stream_read disk True chunk_len stream (world fb) of (n, buf, stream, s) \<Rightarrow>
                let fb = fb\<lparr>world := s, kernel_memory := memcpy_at (kernel_memory fb) 0 buf\<rparr>
                in if n \<noteq> chunk_len then Some (None, fb)
                   else sha256_loop env disk (to_read - chunk_len) stream
                          (hashed @ take chunk_len (kernel_memory fb)) fb)"

definition hex_bytes :: "u8 list \<Rightarrow> u8 list" where
  "hex_bytes digest = concat (map (\<lambda>b. c_bytes (zero_pad 2 (hexadecimal (unat b)))) digest)"

text \<open>What follows once the disk and, for a partition, the GPT are there.\<close>

definition sha256_stream ::
  "('e, 's) fb_env \<Rightarrow> u8 list option \<Rightarrow> nat \<Rightarrow> nat \<Rightarrow> ('e, 's, 't) FastbootOps \<Rightarrow>
   ('e, 's, 't) FastbootOps option" where
  "sha256_stream env part_name offset len fb =
     Option.bind (fb_disk fb) (\<lambda>disk.
       let gpt = (case fb_gpt fb of
                    Some gpt \<Rightarrow> gpt
                  | None \<Rightarrow> \<lparr>sector_bytes = 0, drive_sectors = 0, entries = [], gpt_modified = 0\<rparr>)
       in case gpt_open_partition_stream (env_vb (fe_misc env)) disk gpt
                 (map_option hol_string part_name) offset (world fb) of
            (Inl ret, s) \<Rightarrow>
              Some (fastboot_fail_with_logs env (c_bytes ''Failed to open stream'') (fb\<lparr>world := s\<rparr>))
          | (Inr (stream, to_read), s) \<Rightarrow>
              let fb = fb\<lparr>world := s\<rparr>
              in if len > to_read
                 then Some (fastboot_fail (c_bytes (''Length '' @ decimal len @
                        '' greater than partition size '' @ decimal to_read)) fb)
                 else let to_read = (if len \<noteq> 0 then len else to_read);
                          fb = fastboot_reset_staging fb
                      in Option.bind (sha256_loop env disk to_read stream [] fb) (\<lambda>(hashed, fb).
                           case hashed of
                             None \<Rightarrow> Some (fastboot_fail_with_logs env (c_bytes ''Failed to read stream'') fb)
                           | Some data \<Rightarrow>
                               Some (fastboot_succeed (fastboot_info (hex_bytes (sha256 env data)) fb))))"

definition fastboot_cmd_oem_sha256 ::
  "('e, 's) fb_env \<Rightarrow> u8 list \<Rightarrow> ('e, 's, 't) FastbootOps \<Rightarrow> ('e, 's, 't) FastbootOps option" where
  "fastboot_cmd_oem_sha256 env arg fb =
     (case strsep (Some arg) 58 of (part_name, arg) \<Rightarrow>
      case strsep arg 58 of (offset_str, arg) \<Rightarrow>
      case strsep arg 58 of (len_str, arg) \<Rightarrow>
        if part_name = None \<or> arg \<noteq> None
        then Some (fastboot_fail (c_bytes
               ''Invalid arguments. Use: oem sha256:<part_name>[:<offset>[:<len>]]'') fb)
        else (case parse_optional env offset_str of
                None \<Rightarrow> Some (fastboot_fail (c_bytes ''Cannot parse '' @ [34] @ the offset_str @ [34] @
                          c_bytes '' as offset'') fb)
              | Some offset \<Rightarrow>
                  (case parse_optional env len_str of
                     None \<Rightarrow> Some (fastboot_fail (c_bytes ''Cannot parse '' @ [34] @ the len_str @ [34] @
                               c_bytes '' as length'') fb)
                   | Some len \<Rightarrow>
                       let n = length FASTBOOT_RAW_WRITE_ARG - 1
                       in if take n (the part_name) = take n FASTBOOT_RAW_WRITE_ARG
                          then (case fastboot_disk_init env fb of (err, fb) \<Rightarrow>
                                  if err then Some fb else sha256_stream env None offset len fb)
                          else (case fastboot_disk_gpt_init env fb of (err, fb) \<Rightarrow>
                                  if err then Some fb
                                  else sha256_stream env part_name offset len fb))))"

section \<open>Model: the OEM command line\<close>

text \<open>
  The loop of \<open>fastboot_cmd_cmdline_get\<close> over the memory from \<open>cmdline\<close> on, to the end of the
  structure; a parameter that ends at the terminator is followed by whatever comes behind it.
\<close>

function cmdline_get_loop ::
  "bool \<Rightarrow> u8 list \<Rightarrow> ('e, 's, 't) FastbootOps \<Rightarrow> ('e, 's, 't) FastbootOps option" where
  "cmdline_get_loop bootconfig cmdline fb =
     (case cmdline of
        [] \<Rightarrow> None
      | c # _ \<Rightarrow>
          if c = 0 then Some fb
          else let n = cmd_find_end bootconfig 0 cmdline
               in if n \<ge> length cmdline then None
                  else cmdline_get_loop bootconfig
                         (dropWhile (\<lambda>c. is_android_misc_cmd_separator c bootconfig)
                            (drop (n + 1) cmdline))
                         (fastboot_info (take n cmdline) fb))"
  by pat_completeness auto
termination
proof (relation "measure (\<lambda>(bootconfig, cmdline, fb). length cmdline)", goal_cases)
  case (2 bootconfig cmdline fb c cs x)
  have "length (dropWhile (\<lambda>c. is_android_misc_cmd_separator c bootconfig) (drop (x + 1) cmdline)) \<le>
      length (drop (x + 1) cmdline)" by (rule length_dropWhile_le)
  with 2 show ?case by simp
qed simp

declare cmdline_get_loop.simps [simp del]

text \<open>The operations that need disk and GPT, which are there after \<open>fastboot_disk_gpt_init\<close>.\<close>

definition with_misc ::
  "('e, 's) fb_env \<Rightarrow>
   ('s blockdev \<Rightarrow> 'e gpt_data \<Rightarrow> ('e, 's, 't) FastbootOps \<Rightarrow> ('e, 's, 't) FastbootOps option) \<Rightarrow>
   ('e, 's, 't) FastbootOps \<Rightarrow> ('e, 's, 't) FastbootOps option" where
  "with_misc env f fb =
     (case fastboot_disk_gpt_init env fb of (err, fb) \<Rightarrow>
        if err then Some fb
        else Option.bind (fb_disk fb) (\<lambda>disk. Option.bind (fb_gpt fb) (\<lambda>gpt. f disk gpt fb)))"

definition fastboot_cmd_cmdline_get ::
  "('e, 's) fb_env \<Rightarrow> bool \<Rightarrow> u8 list \<Rightarrow> ('e, 's, 't) FastbootOps \<Rightarrow> ('e, 's, 't) FastbootOps option" where
  "fastboot_cmd_cmdline_get env bootconfig arg =
     with_misc env (\<lambda>disk gpt fb.
       case android_misc_oem_cmdline_read (fe_misc env) disk gpt (world fb) of (rc, cmd, s) \<Rightarrow>
         let fb = fb\<lparr>world := s\<rparr>;
             cmdline = (if rc \<noteq> 0 then [0, 0]
                        else drop (android_misc_get_oem_cmd cmd bootconfig) (oc_data cmd));
             fb = (if cmdline ! 0 = 0 then fastboot_info (c_bytes ''<empty>'') fb else fb)
         in map_option fastboot_succeed (cmdline_get_loop bootconfig cmdline fb))"

text \<open>The end of the commands that change it: write it back and answer.\<close>

definition cmdline_write_back ::
  "('e, 's) fb_env \<Rightarrow> 's blockdev \<Rightarrow> 'e gpt_data \<Rightarrow> android_misc_oem_cmdline \<Rightarrow>
   ('e, 's, 't) FastbootOps \<Rightarrow> ('e, 's, 't) FastbootOps option" where
  "cmdline_write_back env disk gpt cmd fb =
     Option.bind (android_misc_oem_cmdline_write (fe_misc env) disk gpt cmd (world fb))
       (\<lambda>(rc, cmd, s).
          let fb = fb\<lparr>world := s\<rparr>
          in Some (if rc \<noteq> 0
                   then fastboot_fail_with_logs env (c_bytes ''Failed to write cmdline to misc'') fb
                   else fastboot_succeed fb))"

definition read_or_fresh ::
  "('e, 's) fb_env \<Rightarrow> 's blockdev \<Rightarrow> 'e gpt_data \<Rightarrow> 's \<Rightarrow> android_misc_oem_cmdline \<times> 's" where
  "read_or_fresh env disk gpt s =
     (case android_misc_oem_cmdline_read (fe_misc env) disk gpt s of (rc, cmd, s) \<Rightarrow>
        (if rc \<noteq> 0 then android_misc_reset_oem_cmd (env_ipchksum (fe_misc env)) cmd else cmd, s))"

definition fastboot_cmd_cmdline_add ::
  "('e, 's) fb_env \<Rightarrow> bool \<Rightarrow> u8 list \<Rightarrow> ('e, 's, 't) FastbootOps \<Rightarrow> ('e, 's, 't) FastbootOps option" where
  "fastboot_cmd_cmdline_add env bootconfig arg fb =
     (if arg = [] then Some (fastboot_fail (c_bytes ''Missing argument'') fb)
      else with_misc env (\<lambda>disk gpt fb.
        case read_or_fresh env disk gpt (world fb) of (cmd, s) \<Rightarrow>
          let fb = fb\<lparr>world := s\<rparr>
          in case android_misc_append_oem_cmd cmd arg bootconfig of (rc, cmd) \<Rightarrow>
               if rc \<noteq> 0
               then Some (fastboot_fail_with_logs env (c_bytes ''Failed to append to cmdline'') fb)
               else cmdline_write_back env disk gpt cmd fb) fb)"

definition fastboot_cmd_cmdline_set ::
  "('e, 's) fb_env \<Rightarrow> bool \<Rightarrow> u8 list \<Rightarrow> ('e, 's, 't) FastbootOps \<Rightarrow> ('e, 's, 't) FastbootOps option" where
  "fastboot_cmd_cmdline_set env bootconfig arg =
     with_misc env (\<lambda>disk gpt fb.
       case read_or_fresh env disk gpt (world fb) of (cmd, s) \<Rightarrow>
         let fb = fb\<lparr>world := s\<rparr>
         in case android_misc_set_oem_cmd cmd arg bootconfig of (rc, cmd) \<Rightarrow>
              if rc \<noteq> 0
              then Some (fastboot_fail_with_logs env (c_bytes ''Failed to append to cmdline'') fb)
              else cmdline_write_back env disk gpt cmd fb)"

text \<open>
  The loop of \<open>fastboot_cmd_cmdline_del\<close>; \<open>pos\<close> is \<open>param_end - cmdline\<close>. It does not end when
  nothing is left to delete and the pattern matches the empty parameter.
\<close>

partial_function (option) cmdline_del_loop ::
  "('e, 's) fb_env \<Rightarrow> 's blockdev \<Rightarrow> 'e gpt_data \<Rightarrow> bool \<Rightarrow> u8 list \<Rightarrow> nat \<Rightarrow> nat \<Rightarrow> bool \<Rightarrow>
   android_misc_oem_cmdline \<Rightarrow> ('e, 's, 't) FastbootOps \<Rightarrow> ('e, 's, 't) FastbootOps option" where
  "cmdline_del_loop env disk gpt bootconfig arg cmdline pos modified_cmdline cmd fb =
     (let param = drop (cmdline + pos) (oc_data cmd);
          param_len = cmd_find_end bootconfig 0 param;
          at_end = (param ! param_len = 0)
      in if param_len \<ge> length param then None
         else if is_matching arg (take param_len param)
         then let del_len = (if at_end then param_len else param_len + 1)
              in case android_misc_del_oem_cmd cmd pos del_len bootconfig of (rc, cmd') \<Rightarrow>
                   if rc \<noteq> 0
                   then Some (fastboot_fail_with_logs env
                          (c_bytes ''Failed to delete '' @ [34] @ take del_len param @ [34] @
                           c_bytes '' from cmdline'') fb)
                   else cmdline_del_loop env disk gpt bootconfig arg cmdline pos True cmd' fb
         else if at_end
         then if modified_cmdline then cmdline_write_back env disk gpt cmd fb
              else Some (fastboot_succeed fb)
         else cmdline_del_loop env disk gpt bootconfig arg cmdline (pos + param_len + 1)
                modified_cmdline cmd fb)"

definition fastboot_cmd_cmdline_del ::
  "('e, 's) fb_env \<Rightarrow> bool \<Rightarrow> u8 list \<Rightarrow> ('e, 's, 't) FastbootOps \<Rightarrow> ('e, 's, 't) FastbootOps option" where
  "fastboot_cmd_cmdline_del env bootconfig arg fb =
     (if arg = [] then Some (fastboot_fail (c_bytes ''Missing argument'') fb)
      else with_misc env (\<lambda>disk gpt fb.
        case android_misc_oem_cmdline_read (fe_misc env) disk gpt (world fb) of (rc, cmd, s) \<Rightarrow>
          let fb = fb\<lparr>world := s\<rparr>
          in if rc \<noteq> 0
             then Some (fastboot_fail_with_logs env (c_bytes ''Failed to read cmdline from misc'') fb)
             else cmdline_del_loop env disk gpt bootconfig arg
                    (android_misc_get_oem_cmd cmd bootconfig) 0 False cmd fb) fb)"

section \<open>Model: UFS descriptors\<close>

definition fastboot_parse_ufs_desc_args ::
  "('e, 's) fb_env \<Rightarrow> u8 list \<Rightarrow> u8 list + nat \<times> nat" where
  "fastboot_parse_ufs_desc_args env arg =
     (case strtoul env arg 16 of (idn, consumed) \<Rightarrow>
        if consumed = 0 \<or> take 1 (drop consumed arg) \<noteq> [44]
        then Inl (c_bytes ''Invalid argument, should be '' @ [39] @ c_bytes ''%x,%x'' @
               [39])
        else let arg = drop (consumed + 1) arg
             in case strtoul env arg 16 of (idx, consumed) \<Rightarrow>
                  if consumed = 0 \<or> consumed < length arg
                  then Inl (c_bytes ''Invalid argument, should be '' @ [39] @
                         c_bytes ''%x,%x'' @ [39])
                  else if idn mod 2 ^ 32 > 255 \<or> idx mod 2 ^ 32 > 255
                  then Inl (c_bytes ''IDN and IDX must be in [0, 0x100] range'')
                  else Inr (idn mod 2 ^ 32, idx mod 2 ^ 32))"

definition UFS_DESCRIPTOR_MAX_SIZE :: nat where "UFS_DESCRIPTOR_MAX_SIZE = 255"

definition fastboot_cmd_oem_read_ufs_descriptor ::
  "('e, 's) fb_env \<Rightarrow> u8 list \<Rightarrow> ('e, 's, 't) FastbootOps \<Rightarrow> ('e, 's, 't) FastbootOps option" where
  "fastboot_cmd_oem_read_ufs_descriptor env arg fb =
     (if \<not> CONFIG_DRIVER_STORAGE_UFS env
      then Some (fastboot_fail (c_bytes ''UFS is not supported by the board'') fb)
      else if \<not> ufs_ctlr_present env (world fb)
      then Some (fastboot_fail (c_bytes ''Could not find UFS controller'') fb)
      else case fastboot_parse_ufs_desc_args env arg of
             Inl err \<Rightarrow> Some (fastboot_fail err fb)
           | Inr (idn, idx) \<Rightarrow>
               (case ufs_read_descriptor env (word_of_nat idn) (word_of_nat idx)
                       (FASTBOOT_MAX_DOWNLOAD_SIZE env) (world fb) of (ret, s) \<Rightarrow>
                  let fb = fb\<lparr>world := s\<rparr>
                  in case ret of
                       None \<Rightarrow> Some (fastboot_fail_with_logs env
                                 (c_bytes ''Failed to read UFS descriptor'') fb)
                     | Some buf \<Rightarrow>
                         Some (fastboot_succeed
                           (fb\<lparr>kernel_memory := memcpy_at (kernel_memory fb) 0 buf,
                               memory_buffer_len := length buf mod 256, has_staged_data := True\<rparr>))))"

definition fastboot_cmd_oem_write_ufs_descriptor ::
  "('e, 's) fb_env \<Rightarrow> u8 list \<Rightarrow> ('e, 's, 't) FastbootOps \<Rightarrow> ('e, 's, 't) FastbootOps option" where
  "fastboot_cmd_oem_write_ufs_descriptor env arg fb =
     (if \<not> CONFIG_DRIVER_STORAGE_UFS env
      then Some (fastboot_fail (c_bytes ''UFS is not supported by the board'') fb)
      else if \<not> has_staged_data fb
      then Some (fastboot_fail (c_bytes ''No staged data to write'') fb)
      else if memory_buffer_len fb > UFS_DESCRIPTOR_MAX_SIZE
      then Some (fastboot_fail (c_bytes ''Staged data is too big'') fb)
      else if \<not> ufs_ctlr_present env (world fb)
      then Some (fastboot_fail (c_bytes ''Could not find UFS controller'') fb)
      else case fastboot_parse_ufs_desc_args env arg of
             Inl err \<Rightarrow> Some (fastboot_fail err fb)
           | Inr (idn, idx) \<Rightarrow>
               (case ufs_write_descriptor env (word_of_nat idn) (word_of_nat idx)
                       (fastboot_get_memory_buffer fb) (world fb) of (failed, s) \<Rightarrow>
                  let fb = fb\<lparr>world := s\<rparr>
                  in if failed
                     then Some (fastboot_fail_with_logs env
                            (c_bytes ''Failed to write UFS descriptor'') fb)
                     else Some (fastboot_succeed (fastboot_info
                            (c_bytes ''Reboot when you'' @ [39] @
                             c_bytes ''re done writing descriptors.'') (fastboot_reset_staging fb)))))"

section \<open>Model: reboot targets and boot slots\<close>

definition BCB_RECOVERY_ARG0 :: string where "BCB_RECOVERY_ARG0 = ''recovery''"
definition BCB_RECOVERY_ARG_FASTBOOT :: string where
  "BCB_RECOVERY_ARG_FASTBOOT = ''--fastboot''"

text \<open>
  The fields \<open>command\<close> (bytes 0 to 31) and \<open>recovery\<close> (bytes 64 to 831) of the bootloader message,
  cleared and then set to a text.
\<close>

definition bcb_set_command :: "u8 list \<Rightarrow> string \<Rightarrow> u8 list" where
  "bcb_set_command bcb str = memcpy_at (memcpy_at bcb 0 (replicate 32 0)) 0 (c_bytes str @ [0])"

definition bcb_set_recovery :: "u8 list \<Rightarrow> u8 list \<Rightarrow> u8 list" where
  "bcb_set_recovery bcb args = memcpy_at (memcpy_at bcb 64 (replicate 768 0)) 64 (args @ [0])"

definition bcb_for_target :: "u8 list \<Rightarrow> u8 list \<Rightarrow> u8 list option" where
  "bcb_for_target arg bcb =
     (if arg = c_bytes ''fastboot''
      then Some (bcb_set_recovery (bcb_set_command bcb BCB_CMD_BOOT_RECOVERY)
             (c_bytes BCB_RECOVERY_ARG0 @ [10] @ c_bytes BCB_RECOVERY_ARG_FASTBOOT @ [10]))
      else if arg = c_bytes ''recovery''
      then Some (bcb_set_recovery (bcb_set_command bcb BCB_CMD_BOOT_RECOVERY)
             (c_bytes BCB_RECOVERY_ARG0 @ [10]))
      else if arg = c_bytes ''bootloader''
      then Some (bcb_set_command bcb BCB_CMD_BOOTONCE_BOOTLOADER)
      else None)"

definition fastboot_cmd_reboot_to_target ::
  "('e, 's) fb_env \<Rightarrow> u8 list \<Rightarrow> ('e, 's, 't) FastbootOps \<Rightarrow> ('e, 's, 't) FastbootOps option" where
  "fastboot_cmd_reboot_to_target env arg =
     with_misc env (\<lambda>disk gpt fb.
       case android_misc_bcb_read (fe_misc env) disk gpt (world fb) of (rc, bcb, s) \<Rightarrow>
         let fb = fb\<lparr>world := s\<rparr>;
             fb = (if rc \<noteq> 0
                   then fastboot_info (c_bytes
                          ''Failed to read BCB from misc, trying to initialize new one'') fb
                   else fb);
             bcb = (if rc \<noteq> 0 then replicate BCB_SIZE 0 else bcb)
         in case bcb_for_target arg bcb of
              None \<Rightarrow> Some (fastboot_fail (c_bytes ''Unknown reboot target'') fb)
            | Some bcb \<Rightarrow>
                Option.bind (android_misc_bcb_write (fe_misc env) disk gpt bcb (world fb))
                  (\<lambda>(rc, s).
                     let fb = fb\<lparr>world := s\<rparr>
                     in Some (if rc \<noteq> 0
                              then fastboot_fail_with_logs env
                                     (c_bytes ''Failed to write reboot command to misc'') fb
                              else (fastboot_succeed fb)\<lparr>fb_state := REBOOT\<rparr>)))"

text \<open>The end of the commands that change the GPT.\<close>

definition save_gpt_and_answer ::
  "('e, 's) fb_env \<Rightarrow> string \<Rightarrow> ('e, 's, 't) FastbootOps \<Rightarrow> ('e, 's, 't) FastbootOps option" where
  "save_gpt_and_answer env err_text fb =
     Option.bind (fastboot_save_gpt env fb)
       (\<lambda>(err, fb). Some (if err then fastboot_fail_with_logs env (c_bytes err_text) fb
                          else fastboot_succeed fb))"

definition fastboot_cmd_set_active ::
  "('e, 's) fb_env \<Rightarrow> u8 list \<Rightarrow> ('e, 's, 't) FastbootOps \<Rightarrow> ('e, 's, 't) FastbootOps option" where
  "fastboot_cmd_set_active env arg =
     with_misc env (\<lambda>disk gpt fb.
       case fastboot_get_kernel_for_slot env gpt (hd (hol_string (arg @ [0]))) of
         None \<Rightarrow> Some (fastboot_fail (c_bytes ''Could not find slot'') fb)
       | Some slot \<Rightarrow>
           let gpt = fastboot_slots_disable_all env gpt;
               gpt = GptUpdateKernelWithEntry env True slot gpt
           in save_gpt_and_answer env ''Could not save GPT to the disk'' (fb\<lparr>fb_gpt := Some gpt\<rparr>))"

text \<open>
  \<open>parse_partition_value\<close>: the value, the entry and the session, or the session after the failure was
  answered. \<open>usage\<close> is a format without conversions, \<open>val_parse_err\<close> the text for a value.
\<close>

definition entry_index :: "('e, 's) fb_env \<Rightarrow> 'e gpt_data \<Rightarrow> string \<Rightarrow> nat option" where
  "entry_index env gpt name =
     (case filter (\<lambda>i. gpt_get_entry_name (env_vb (fe_misc env)) (entries gpt ! i) = Some name)
             [0..<length (entries gpt)] of
        [] \<Rightarrow> None | i # _ \<Rightarrow> Some i)"

definition parse_partition_value ::
  "('e, 's) fb_env \<Rightarrow> u8 list \<Rightarrow> (int \<Rightarrow> u8 list) \<Rightarrow> u8 list \<Rightarrow> ('e, 's, 't) FastbootOps \<Rightarrow>
   (int \<times> nat) option \<times> ('e, 's, 't) FastbootOps" where
  "parse_partition_value env arg val_parse_err usage fb =
     (case strsep (Some arg) 58 of (part_name, arg) \<Rightarrow>
      case strsep arg 58 of (val_str, arg) \<Rightarrow>
        if part_name = None \<or> val_str = None \<or> arg \<noteq> None then (None, fastboot_fail usage fb)
        else (case strtol env (the val_str) 0 of (v, consumed) \<Rightarrow>
                let val = to_int v
                in if val < 0 \<or> consumed = 0 \<or> consumed < length (the val_str)
                   then (None, fastboot_fail (val_parse_err val) fb)
                   else (case fastboot_disk_gpt_init env fb of (err, fb) \<Rightarrow>
                           if err then (None, fb)
                           else (case Option.bind (fb_gpt fb) (\<lambda>gpt. entry_index env gpt
                                         (hol_string (the part_name))) of
                                   None \<Rightarrow> (None, fastboot_fail (c_bytes ''Could not find '' @ [39] @
                                              the part_name @ [39] @ c_bytes '' partition'') fb)
                                 | Some i \<Rightarrow>
                                     if \<not> IsBootableEntry env (entries (the (fb_gpt fb)) ! i)
                                     then (None, fastboot_fail (c_bytes ''Partition '' @ [39] @
                                             the part_name @ [39] @
                                             c_bytes '' is not a bootable entry type'') fb)
                                     else (Some (val, i), fb)))))"

definition update_entry ::
  "('e, 's) fb_env \<Rightarrow> ('e \<Rightarrow> 'e) \<Rightarrow> nat \<Rightarrow> ('e, 's, 't) FastbootOps \<Rightarrow> ('e, 's, 't) FastbootOps option"
where
  "update_entry env f i fb =
     (let fb = fb\<lparr>fb_gpt := map_option (\<lambda>gpt. GptModified env
                    (gpt\<lparr>entries := (entries gpt)[i := f (entries gpt ! i)]\<rparr>)) (fb_gpt fb)\<rparr>
      in save_gpt_and_answer env ''Failed to save GPT'' fb)"

definition fastboot_cmd_oem_set_priority ::
  "('e, 's) fb_env \<Rightarrow> u8 list \<Rightarrow> ('e, 's, 't) FastbootOps \<Rightarrow> ('e, 's, 't) FastbootOps option" where
  "fastboot_cmd_oem_set_priority env arg fb =
     (let priority_err = (\<lambda>v. c_bytes (''Invalid priority '' @ decimal_int v @ '' (valid range is 0-15)''))
      in case parse_partition_value env arg priority_err
                (c_bytes ''Invalid arguments. Use: oem set-priority:<partition>:<0-15>'') fb of
           (None, fb) \<Rightarrow> Some fb
         | (Some (priority, entry), fb) \<Rightarrow>
             if priority > 15 then Some (fastboot_fail (priority_err priority) fb)
             else update_entry env (SetEntryPriority env (nat priority)) entry fb)"

definition fastboot_cmd_oem_set_successful ::
  "('e, 's) fb_env \<Rightarrow> u8 list \<Rightarrow> ('e, 's, 't) FastbootOps \<Rightarrow> ('e, 's, 't) FastbootOps option" where
  "fastboot_cmd_oem_set_successful env arg fb =
     (let state_err = (\<lambda>v. c_bytes (''Invalid state '' @ decimal_int v @ ''. Must be 0 or 1''))
      in case parse_partition_value env arg state_err
                (c_bytes ''Invalid arguments. Use: oem set-successful:<partition>:<0|1>'') fb of
           (None, fb) \<Rightarrow> Some fb
         | (Some (state, entry), fb) \<Rightarrow>
             if state > 1 then Some (fastboot_fail (state_err state) fb)
             else update_entry env (SetEntrySuccessful env (nat state)) entry fb)"

section \<open>Model: snapshot updates and the table\<close>

definition fastboot_cmd_snapshot_update ::
  "('e, 's) fb_env \<Rightarrow> u8 list \<Rightarrow> ('e, 's, 't) FastbootOps \<Rightarrow> ('e, 's, 't) FastbootOps option" where
  "fastboot_cmd_snapshot_update env arg =
     with_misc env (\<lambda>disk gpt fb.
       if arg = []
       then (case android_misc_get_virtual_ab_merge_status (fe_misc env) disk gpt (world fb) of
               (status, s) \<Rightarrow>
                 let fb = fb\<lparr>world := s\<rparr>
                 in Some (case status of
                            MERGE_STATUS_DISK_ERROR \<Rightarrow>
                              fastboot_fail (c_bytes ''Failed to read virtual ab merge status from disk'') fb
                          | MERGE_STATUS_MERGING \<Rightarrow>
                              fastboot_succeed (fastboot_info (c_bytes ''merging'') fb)
                          | MERGE_STATUS_SNAPSHOTTED \<Rightarrow>
                              fastboot_succeed (fastboot_info (c_bytes ''snapshotted'') fb)
                          | MERGE_STATUS_NONE \<Rightarrow>
                              fastboot_succeed (fastboot_info (c_bytes ''none'') fb)))
       else if arg = c_bytes ''cancel''
       then Option.bind (android_misc_virtual_ab_cancel_update (fe_misc env) disk gpt (world fb))
              (\<lambda>(ret, s).
                 let fb = fb\<lparr>world := s\<rparr>
                 in Some (if ret < 0
                          then fastboot_fail (c_bytes ''Failed to write virtual ab merge status'') fb
                          else fastboot_succeed
                                 (if ret > 0 then fastboot_info (c_bytes ''update cancelled'') fb else fb)))
       else Some (fastboot_fail (c_bytes
              ''Invalid arguments. Use: snapshot-update[:cancel]'') fb))"

definition CMD_ARGS ::
  "string \<Rightarrow> u8 \<Rightarrow> (u8 list \<Rightarrow> ('e, 's, 't) FastbootOps \<Rightarrow> ('e, 's, 't) FastbootOps option) \<Rightarrow>
   ('e, 's, 't) fastboot_cmd" where
  "CMD_ARGS name sep fn =
     \<lparr>cmd_name = c_bytes name, cmd_has_args = True, cmd_sep = sep, cmd_fn = fn\<rparr>"

definition CMD_NO_ARGS ::
  "string \<Rightarrow> (u8 list \<Rightarrow> ('e, 's, 't) FastbootOps \<Rightarrow> ('e, 's, 't) FastbootOps option) \<Rightarrow>
   ('e, 's, 't) fastboot_cmd" where
  "CMD_NO_ARGS name fn =
     \<lparr>cmd_name = c_bytes name, cmd_has_args = False, cmd_sep = 0, cmd_fn = fn\<rparr>"

definition fastboot_cmds :: "('e, 's) fb_env \<Rightarrow> ('e, 's, 't) fastboot_cmd list" where
  "fastboot_cmds env =
    [CMD_NO_ARGS ''continue'' fastboot_cmd_continue,
     CMD_NO_ARGS ''upload'' (fastboot_cmd_upload env),
     CMD_ARGS ''download'' 58 (fastboot_cmd_download env),
     CMD_ARGS ''erase'' 58 (fastboot_cmd_erase env),
     CMD_ARGS ''flash'' 58 (fastboot_cmd_flash env),
     CMD_ARGS ''getvar'' 58 (fastboot_cmd_getvar env),
     CMD_ARGS ''oem cmdline add'' 32 (fastboot_cmd_cmdline_add env False),
     CMD_ARGS ''oem cmdline del'' 32 (fastboot_cmd_cmdline_del env False),
     CMD_ARGS ''oem cmdline set'' 32 (fastboot_cmd_cmdline_set env False),
     CMD_NO_ARGS ''oem cmdline'' (fastboot_cmd_cmdline_get env False),
     CMD_ARGS ''oem bootconfig add'' 32 (fastboot_cmd_cmdline_add env True),
     CMD_ARGS ''oem bootconfig del'' 32 (fastboot_cmd_cmdline_del env True),
     CMD_ARGS ''oem bootconfig set'' 32 (fastboot_cmd_cmdline_set env True),
     CMD_NO_ARGS ''oem bootconfig'' (fastboot_cmd_cmdline_get env True),
     CMD_NO_ARGS ''oem logs'' (fastboot_cmd_oem_logs env),
     CMD_ARGS ''oem read-ufs-descriptor'' 58 (fastboot_cmd_oem_read_ufs_descriptor env),
     CMD_ARGS ''oem write-ufs-descriptor'' 58 (fastboot_cmd_oem_write_ufs_descriptor env),
     CMD_ARGS ''oem set-successful'' 58 (fastboot_cmd_oem_set_successful env),
     CMD_ARGS ''oem set-priority'' 58 (fastboot_cmd_oem_set_priority env),
     CMD_ARGS ''oem sha256'' 58 (fastboot_cmd_oem_sha256 env),
     CMD_ARGS ''reboot'' 45 (fastboot_cmd_reboot_to_target env),
     CMD_NO_ARGS ''reboot'' fastboot_cmd_reboot,
     CMD_ARGS ''set_active'' 58 (fastboot_cmd_set_active env),
     CMD_ARGS ''snapshot-update'' 58 (fastboot_cmd_snapshot_update env)]"

end
