(* ===== verification/Fastboot_Service.thy ===== *)
theory Fastboot_Service
  imports Fastboot_Cmd
begin

text \<open>
  What the commands of \<open>src/fastboot/cmd.c\<close> answer: each of them, on a session that waits for a
  command, returns, sends one complete answer and keeps the disk, the GPT and the staging memory of the
  session well-formed (\<open>runs\<close>). The commands on the OEM command line are in \<open>Fastboot_Oem\<close>.
\<close>

section \<open>The misc partition\<close>

lemma open_stream_space:
  assumes "gpt_open_partition_stream vb dev gpt part offset s = (Inr (st, space), s1)"
    and "disk_good dev content" and "gpt_entries_ok vb dev gpt"
  obtains lba n where "stream_extent vb dev gpt part lba n" "offset \<le> n * bd_block_size dev"
    "space = n * bd_block_size dev - offset" "content s1 = content s" "stream_inv dev (content s1) st"
    "stream_pos (bd_block_size dev) st = lba * bd_block_size dev + offset" "end_sector st = lba + n"
proof -
  have bd: "block_device dev content" using assms(2) by (simp add: disk_good_def block_device_def)
  have "mul64 (bd_block_count dev) (bd_block_size dev) = bd_block_count dev * bd_block_size dev"
    using block_device.cap_less [OF bd] by (simp add: mul64_id mult.commute)
  then obtain lba n where x: "stream_extent vb dev gpt part lba n" "offset \<le> n * bd_block_size dev"
    using assms(1) gpt_entry_bounds(2) [OF assms(3)]
    by (auto simp: gpt_open_partition_stream_def stream_extent_def split: option.splits if_splits)
  obtain garbage where g: "bd_new_stream dev = Some (new_simple_stream dev garbage)"
    "and (bd_block_size dev) (bd_block_size dev - 1) = 0" using assms(2) by (auto simp: disk_good_def)
  show thesis
    by (rule block_device.open_stream_extent [OF bd assms(3) x(1) g x(2), of s])
       (use that x assms(1) in auto)
qed

lemma stream_reads:
  assumes "disk_good dev content" and "stream_inv dev (content s) st"
    and "stream_pos (bd_block_size dev) st + n \<le> end_sector st * bd_block_size dev"
  obtains st' s' where "simple_stream_read dev True n st s =
      (n, bslice (stream_pos (bd_block_size dev) st) n (content s), st', s')"
    and "content s' = content s" and "stream_inv dev (content s') st'"
    and "stream_pos (bd_block_size dev) st' = stream_pos (bd_block_size dev) st + n"
    and "end_sector st' = end_sector st"
proof -
  have bd: "block_device dev content" using assms(1) by (simp add: disk_good_def block_device_def)
  show thesis by (rule block_device.stream_read_ok [OF bd assms(2,3), of True]) (use that in simp)
qed

lemma disk_good_capacity:
  "disk_good dev content \<Longrightarrow> length (content s) = bd_block_size dev * bd_block_count dev"
  by (simp add: block_device.length_content block_device_def disk_good_def)

lemma stream_extent_bound:
  "stream_extent vb dev gpt part lba n \<Longrightarrow> gpt_entries_ok vb dev gpt \<Longrightarrow> lba + n \<le> bd_block_count dev"
  by (auto simp: stream_extent_def dest: gpt_entry_bounds(1) split: option.splits)

lemma extent_slice_length:
  assumes "disk_good dev content" and "lba + n \<le> bd_block_count dev"
    and "offset + m \<le> n * bd_block_size dev"
  shows "length (bslice (lba * bd_block_size dev + offset) m (content s)) = m"
proof -
  have "lba * bd_block_size dev + n * bd_block_size dev \<le> bd_block_count dev * bd_block_size dev"
    using mult_le_mono1 [OF assms(2), of "bd_block_size dev"] by (simp add: add_mult_distrib)
  then show ?thesis using assms(3) disk_good_capacity [OF assms(1), of s]
    by (simp add: bslice_def mult.commute)
qed

lemma open_stream_error: "gpt_open_partition_stream vb dev gpt part offset s \<noteq> (Inl GPT_IO_SUCCESS, s')"
  by (auto simp: gpt_open_partition_stream_def Let_def split: option.splits if_splits prod.splits)

lemma misc_read_length:
  assumes "android_misc_read menv dev gpt offset sz s = (0, buf, s')"
    and "disk_good dev content" and "gpt_entries_ok (env_vb menv) dev gpt"
  shows "length buf = sz"
proof -
  obtain st space s1 where o: "gpt_open_partition_stream (env_vb menv) dev gpt
      (Some (env_misc_name menv)) offset s = (Inr (st, space), s1)" "sz \<le> space"
    using assms(1) by (auto simp: android_misc_read_def gpt_read_partition_def open_stream_error
        split: prod.splits sum.splits if_splits)
  obtain lba n where x: "stream_extent (env_vb menv) dev gpt (Some (env_misc_name menv)) lba n"
    "offset \<le> n * bd_block_size dev" "space = n * bd_block_size dev - offset"
    "stream_inv dev (content s1) st"
    "stream_pos (bd_block_size dev) st = lba * bd_block_size dev + offset" "end_sector st = lba + n"
    by (rule open_stream_space [OF o(1) assms(2,3)])
  have le: "stream_pos (bd_block_size dev) st + sz \<le> end_sector st * bd_block_size dev"
    using x o(2) by (simp add: add_mult_distrib)
  have "buf = bslice (stream_pos (bd_block_size dev) st) sz (content s1)"
    by (rule stream_reads [OF assms(2) x(4) le])
       (use assms(1) o in \<open>auto simp: android_misc_read_def gpt_read_partition_def split: if_splits\<close>)
  moreover have "offset + sz \<le> n * bd_block_size dev" using x(2,3) o(2) by simp
  ultimately show ?thesis
    using extent_slice_length [OF assms(2) stream_extent_bound [OF x(1) assms(3)]] x(5) by metis
qed

lemma oem_read_inv:
  assumes "android_misc_oem_cmdline_read menv dev gpt s = (0, cmd, s')"
    and "disk_good dev content" and "gpt_entries_ok (env_vb menv) dev gpt"
  shows "oem_inv cmd" and "is_android_misc_oem_cmdline_valid (env_ipchksum menv) cmd"
proof -
  obtain buf where r: "android_misc_read menv dev gpt MISC_VENDOR_SPACE_OEM_CMDLINE_OFFSET
      OEM_CMDLINE_SIZE s = (0, buf, s')" and c: "cmd = oem_of_bytes buf"
    and v: "is_android_misc_oem_cmdline_valid (env_ipchksum menv) cmd"
    using assms(1) by (auto simp: android_misc_oem_cmdline_read_def Let_def split: prod.splits if_splits)
  have "length (oc_data cmd) = DATA_SIZE"
    using misc_read_length [OF r assms(2,3)] by (simp add: c oem_of_bytes_def OEM_CMDLINE_SIZE_def DATA_SIZE_def)
  then show "oem_inv cmd" using v
    by (auto simp: is_android_misc_oem_cmdline_valid_def oem_inv_def Let_def
        android_misc_get_oem_cmd_def split: if_splits)
  show "is_android_misc_oem_cmdline_valid (env_ipchksum menv) cmd" by (rule v)
qed

lemma misc_write_returns:
  assumes "disk_good dev content" and "gpt_entries_ok (env_vb menv) dev gpt"
  shows "android_misc_write menv dev gpt offset buf s \<noteq> None"
proof -
  obtain r s' where "gpt_write_partition (env_vb menv) dev gpt (env_misc_name menv) offset buf [] s =
      Some (r, s')"
    using gpt_write_returns [OF _ assms(2)] assms(1) unfolding disk_good_def by blast
  then show ?thesis by (simp add: android_misc_write_def)
qed

lemma oem_write_returns:
  assumes "disk_good dev content" and "gpt_entries_ok (env_vb menv) dev gpt"
  shows "\<exists>r cmd' s'. android_misc_oem_cmdline_write menv dev gpt cmd s = Some (r, cmd', s')"
  by (auto simp: android_misc_oem_cmdline_write_def misc_write_returns [OF assms]
      split: prod.split option.split)

lemma cancel_update_returns:
  assumes "disk_good dev content" and "gpt_entries_ok (env_vb menv) dev gpt"
  shows "\<exists>r s'. android_misc_virtual_ab_cancel_update menv dev gpt s = Some (r, s')"
  by (auto simp: android_misc_virtual_ab_cancel_update_def android_misc_system_space_write_def Let_def
      misc_write_returns [OF assms] split: prod.split option.split)

section \<open>Commands without the disk\<close>

lemma fb_inv_data:
  assumes "fb_inv env content k fb" and "n \<le> FASTBOOT_MAX_DOWNLOAD_SIZE env"
    and "length mem = k" and "fb_state fb \<noteq> DOWNLOAD"
  shows "fb_inv env content k (fb\<lparr>kernel_memory := mem, memory_buffer_len := n\<rparr>)"
    and "fb_inv env content k (fb\<lparr>kernel_memory := mem, memory_buffer_len := n, has_staged_data := h\<rparr>)"
  using assms by (simp_all add: fb_inv_def staging_ok_def)

lemma fb_inv_memory:
  "fb_inv env content k fb \<Longrightarrow> length mem = k \<Longrightarrow> fb_inv env content k (fb\<lparr>kernel_memory := mem\<rparr>)"
  by (simp add: fb_inv_def staging_ok_def)

lemma fb_inv_memory_length: "fb_inv env content k fb \<Longrightarrow> length (kernel_memory fb) = k"
  by (simp add: fb_inv_def staging_ok_def)

lemma fb_inv_reset_staging:
  "fb_inv env content k fb \<Longrightarrow> fb_state fb \<noteq> DOWNLOAD \<Longrightarrow>
   fb_inv env content k (fastboot_reset_staging fb)"
  by (simp add: fastboot_reset_staging_def fb_inv_def staging_ok_def)

lemma informs_reset_staging [simp]: "informs fb (fastboot_reset_staging g) = informs fb g"
  by (simp add: fastboot_reset_staging_def informs_def)

lemma fastboot_cmd_continue_runs:
  "fb_inv env content k fb \<Longrightarrow> runs env content k fb (fastboot_cmd_continue arg fb)"
  by (auto simp: fastboot_cmd_continue_def intro!: runsI fb_answers)

lemma fastboot_cmd_reboot_runs:
  "fb_inv env content k fb \<Longrightarrow> runs env content k fb (fastboot_cmd_reboot arg fb)"
  by (auto simp: fastboot_cmd_reboot_def intro!: runsI fb_answers)

lemma fastboot_cmd_oem_logs_runs:
  "fb_inv env content k fb \<Longrightarrow> runs env content k fb (fastboot_cmd_oem_logs env arg fb)"
  by (auto simp: fastboot_cmd_oem_logs_def split: option.split intro!: runsI fb_answers)

lemma sends_upload:
  "sends fb [message FASTBOOT_RES_DATA (c_bytes (zero_pad 8 (hexadecimal n))), raw, message FASTBOOT_RES_OKAY []]
     (fastboot_succeed (send_raw raw (fastboot_data n fb)))"
proof -
  have "sends g [raw] (send_raw raw g)" for g :: "('a, 'b, 'c) FastbootOps"
    by (simp add: sends_def send_raw_def)
  from sends_trans [OF sends_message sends_trans [OF this sends_message]] show ?thesis
    by (simp add: fastboot_data_def fastboot_succeed_def)
qed

lemma answers_upload: "answers fb (fastboot_succeed (send_raw raw (fastboot_data n fb)))"
proof -
  have "complete_answer [message FASTBOOT_RES_DATA m, raw, message FASTBOOT_RES_OKAY []]" for m
    unfolding complete_answer_def
    by (rule exI [of _ "[]"], rule exI, rule conjI, rule append_Nil [symmetric])
       (simp add: is_response_message)
  with sends_upload show ?thesis unfolding answers_def by blast
qed

lemma only_link_raw: "only_link fb (send_raw p fb)"
  by (simp add: only_link_def send_raw_def)

lemma fastboot_cmd_upload_runs:
  assumes "fb_inv env content k fb" and "fb_state fb \<noteq> DOWNLOAD"
  shows "runs env content k fb (fastboot_cmd_upload env arg fb)"
proof -
  have "answers fb (fastboot_reset_staging g) = answers fb g" for g
    by (simp add: fastboot_reset_staging_def)
  moreover have "fb_inv env content k (fastboot_reset_staging
      (fastboot_succeed (send_raw raw (fastboot_data n fb))))" for raw n
    using assms
    by (intro fb_inv_reset_staging)
       (simp_all add: fb_inv_only_link [OF only_link_raw] only_link_fields(1) [OF only_link_raw])
  ultimately show ?thesis using assms
    by (auto simp: fastboot_cmd_upload_def Let_def intro!: runsI fb_answers answers_upload)
qed

lemma fastboot_cmd_download_runs:
  assumes "fb_inv env content k fb"
  shows "runs env content k fb (fastboot_cmd_download env arg fb)"
proof -
  have "informs fb (fastboot_prepare_download n fb)" for n
    by (simp add: fastboot_prepare_download_def)
  moreover have "fb_inv env content k (fastboot_prepare_download n fb)"
    if "n \<le> FASTBOOT_MAX_DOWNLOAD_SIZE env" for n
    using assms that by (simp add: fastboot_prepare_download_def fb_inv_def staging_ok_def)
  ultimately show ?thesis using assms
    by (auto simp: fastboot_cmd_download_def Let_def split: prod.split intro!: runsI fb_answers)
qed

lemma fastboot_cmd_flash_runs:
  assumes "fb_env_ok env content k" and "fb_inv env content k fb"
  shows "runs env content k fb (fastboot_cmd_flash env arg fb)"
  using fastboot_write_runs [OF assms] fastboot_write_raw_runs [OF assms] assms(2)
  by (auto simp: fastboot_cmd_flash_def Let_def split: prod.split intro!: runsI fb_answers)

text \<open>The UFS driver returns no more bytes than the buffer holds.\<close>

definition ufs_ok :: "('e, 's) fb_env \<Rightarrow> bool" where
  "ufs_ok env \<longleftrightarrow> (\<forall>idn idx n s buf s'.
     ufs_read_descriptor env idn idx n s = (Some buf, s') \<longrightarrow> length buf \<le> n)"

lemma fastboot_cmd_oem_read_ufs_descriptor_runs:
  assumes e: "fb_env_ok env content k" and i: "fb_inv env content k fb" "fb_state fb \<noteq> DOWNLOAD"
    and u: "ufs_ok env"
  shows "runs env content k fb (fastboot_cmd_oem_read_ufs_descriptor env arg fb)"
proof -
  have staged: "fb_inv env content k (fastboot_succeed (fb\<lparr>world := s,
      kernel_memory := memcpy_at (kernel_memory fb) 0 buf, memory_buffer_len := length buf mod 256,
      has_staged_data := True\<rparr>))"
    if "ufs_read_descriptor env idn idx (FASTBOOT_MAX_DOWNLOAD_SIZE env) (world fb) = (Some buf, s)"
    for idn idx buf s
  proof -
    have "length buf \<le> FASTBOOT_MAX_DOWNLOAD_SIZE env" using u that unfolding ufs_ok_def by blast
    then have "length buf mod 256 \<le> FASTBOOT_MAX_DOWNLOAD_SIZE env" "length buf \<le> k"
      using mod_less_eq_dividend [of "length buf" 256] fb_env_okD(5) [OF e] by linarith+
    then show ?thesis using i fb_inv_memory_length [OF i(1)]
        fb_inv_data(2) [of env content k "fb\<lparr>world := s\<rparr>"] by simp
  qed
  have read: "runs env content k fb
      (let g = fb\<lparr>world := s\<rparr>
       in case ret of
            None \<Rightarrow> Some (fastboot_fail_with_logs env (c_bytes ''Failed to read UFS descriptor'') g)
          | Some buf \<Rightarrow> Some (fastboot_succeed
              (g\<lparr>kernel_memory := memcpy_at (kernel_memory g) 0 buf,
                 memory_buffer_len := length buf mod 256, has_staged_data := True\<rparr>)))"
    if "ufs_read_descriptor env idn idx (FASTBOOT_MAX_DOWNLOAD_SIZE env) (world fb) = (ret, s)"
    for idn idx ret s
    using that i(1) staged by (cases ret) (auto intro!: runsI fb_answers)
  show ?thesis using i(1) read unfolding fastboot_cmd_oem_read_ufs_descriptor_def
    by (auto split: sum.split prod.split intro!: runsI fb_answers)
qed

lemma fastboot_cmd_oem_write_ufs_descriptor_runs:
  assumes "fb_inv env content k fb" and "fb_state fb \<noteq> DOWNLOAD"
  shows "runs env content k fb (fastboot_cmd_oem_write_ufs_descriptor env arg fb)"
  using assms
  by (auto simp: fastboot_cmd_oem_write_ufs_descriptor_def Let_def split: sum.split prod.split
      intro!: runsI fb_answers fb_inv_reset_staging)

section \<open>Hashing\<close>

lemma stream_slice_length:
  assumes "disk_good dev content" and "stream_inv dev (content s) st"
    and "stream_pos (bd_block_size dev) st + n \<le> end_sector st * bd_block_size dev"
  shows "length (bslice (stream_pos (bd_block_size dev) st) n (content s)) = n"
proof -
  have "end_sector st \<le> bd_block_count dev" using assms(2) by (simp add: stream_inv_def)
  then have "end_sector st * bd_block_size dev \<le> bd_block_count dev * bd_block_size dev"
    by (rule mult_le_mono1)
  with assms(3) disk_good_capacity [OF assms(1), of s]
  have "stream_pos (bd_block_size dev) st + n \<le> length (content s)"
    unfolding mult.commute [of "bd_block_size dev" "bd_block_count dev"] by linarith
  then show ?thesis by simp
qed

lemma sha256_loop_reads:
  assumes "disk_good dev content" and "0 < FASTBOOT_MAX_DOWNLOAD_SIZE env"
    and "FASTBOOT_MAX_DOWNLOAD_SIZE env \<le> k"
  shows "length (kernel_memory fb) = k \<Longrightarrow> stream_inv dev (content (world fb)) st \<Longrightarrow>
    stream_pos (bd_block_size dev) st + to_read \<le> end_sector st * bd_block_size dev \<Longrightarrow>
    \<exists>s mem. sha256_loop env dev to_read st hashed fb =
        Some (Some (hashed @ bslice (stream_pos (bd_block_size dev) st) to_read (content (world fb))),
          fb\<lparr>world := s, kernel_memory := mem\<rparr>) \<and>
      length mem = k \<and> content s = content (world fb)"
proof (induction to_read arbitrary: st hashed fb rule: less_induct)
  case (less to_read)
  let ?bs = "bd_block_size dev" and ?p = "stream_pos (bd_block_size dev) st"
  let ?n = "min to_read (FASTBOOT_MAX_DOWNLOAD_SIZE env)"
  show ?case
  proof (cases "to_read = 0")
    case True
    have "fb = fb\<lparr>world := world fb, kernel_memory := kernel_memory fb\<rparr>" by simp
    moreover have "sha256_loop env dev 0 st hashed fb = Some (Some hashed, fb)"
      by (subst sha256_loop.simps) simp
    ultimately show ?thesis using True less.prems(1)
      by (intro exI [of _ "world fb"] exI [of _ "kernel_memory fb"]) (simp add: bslice_def)
  next
    case False
    have le: "?p + ?n \<le> end_sector st * ?bs" using less.prems(3) by linarith
    obtain st' s where r: "simple_stream_read dev True ?n st (world fb) =
        (?n, bslice ?p ?n (content (world fb)), st', s)"
      and c: "content s = content (world fb)" and i: "stream_inv dev (content s) st'"
      and p: "stream_pos ?bs st' = ?p + ?n" and en: "end_sector st' = end_sector st"
      by (rule stream_reads [OF assms(1) less.prems(2) le])
    define buf where "buf = bslice ?p ?n (content (world fb))"
    define fb1 where "fb1 = fb\<lparr>world := s, kernel_memory := memcpy_at (kernel_memory fb) 0 buf\<rparr>"
    have lb: "length buf = ?n" unfolding buf_def by (rule stream_slice_length [OF assms(1) less.prems(2) le])
    then have m: "length (kernel_memory fb1) = k" "take ?n (kernel_memory fb1) = buf"
      using less.prems(1) assms(3) by (simp_all add: fb1_def memcpy_at_def)
    have "\<exists>s' mem. sha256_loop env dev (to_read - ?n) st' (hashed @ buf) fb1 =
        Some (Some ((hashed @ buf) @ bslice (?p + ?n) (to_read - ?n) (content (world fb1))),
          fb1\<lparr>world := s', kernel_memory := mem\<rparr>) \<and>
      length mem = k \<and> content s' = content (world fb1)"
      using less.IH [of "to_read - ?n" fb1 st' "hashed @ buf"] m(1) i p en le less.prems(3) False assms(2)
      by (simp add: fb1_def c)
    then obtain s' mem where l: "sha256_loop env dev (to_read - ?n) st' (hashed @ buf) fb1 =
        Some (Some ((hashed @ buf) @ bslice (?p + ?n) (to_read - ?n) (content (world fb))),
          fb1\<lparr>world := s', kernel_memory := mem\<rparr>)" "length mem = k" "content s' = content (world fb)"
      using c by (auto simp: fb1_def)
    have "buf @ bslice (?p + ?n) (to_read - ?n) (content (world fb)) =
        bslice ?p to_read (content (world fb))"
      by (simp add: buf_def bslice_append)
    moreover have "sha256_loop env dev to_read st hashed fb =
        sha256_loop env dev (to_read - ?n) st' (hashed @ buf) fb1"
      by (subst sha256_loop.simps) (use False r m(2) in \<open>simp add: fb1_def buf_def Let_def\<close>)
    moreover have "fb1\<lparr>world := s', kernel_memory := mem\<rparr> = fb\<lparr>world := s', kernel_memory := mem\<rparr>"
      by (simp add: fb1_def)
    ultimately show ?thesis using l unfolding append_assoc by (metis (no_types))
  qed
qed

text \<open>What \<open>oem sha256\<close> computes: the hash of exactly the bytes of the partition, or the whole disk.\<close>

lemma sha256_stream_cases:
  assumes e: "fb_env_ok env content k" and i: "fb_inv env content k fb" and d: "fb_disk fb = Some dev"
    and c: "fb_state fb \<noteq> DOWNLOAD" and p: "part \<noteq> None \<Longrightarrow> \<exists>gpt. fb_gpt fb = Some gpt"
  obtains (failed) "runs env content k fb (sha256_stream env part offset len fb)"
      "\<nexists>lba n. stream_extent (env_vb (fe_misc env)) dev (the (fb_gpt fb)) (map_option hol_string part) lba n
         \<and> offset \<le> n * bd_block_size dev \<and> len \<le> n * bd_block_size dev - offset"
    | (hashed) lba n s mem where
      "stream_extent (env_vb (fe_misc env)) dev (the (fb_gpt fb)) (map_option hol_string part) lba n"
      "offset + (if len \<noteq> 0 then len else n * bd_block_size dev - offset) \<le> n * bd_block_size dev"
      "sha256_stream env part offset len fb = Some (fastboot_succeed (fastboot_info (hex_bytes (sha256 env
         (bslice (lba * bd_block_size dev + offset)
            (if len \<noteq> 0 then len else n * bd_block_size dev - offset) (content dev (world fb)))))
         ((fastboot_reset_staging fb)\<lparr>world := s, kernel_memory := mem\<rparr>)))"
      "length mem = k" "content dev s = content dev (world fb)"
proof -
  let ?vb = "env_vb (fe_misc env)" and ?part = "map_option hol_string part" and ?bs = "bd_block_size dev"
  define gpt where "gpt = (case fb_gpt fb of Some gpt \<Rightarrow> gpt
    | None \<Rightarrow> \<lparr>sector_bytes = 0, drive_sectors = 0, entries = [], gpt_modified = 0\<rparr>)"
  have g: "gpt_entries_ok ?vb dev gpt"
    using fb_invD(6) [OF i d] by (auto simp: gpt_def gpt_entries_ok_def split: option.split)
  have dg: "disk_good dev (content dev)" using i d by (simp add: fb_inv_def disk_state_ok_def)
  have x: "stream_extent ?vb dev gpt ?part = stream_extent ?vb dev (the (fb_gpt fb)) ?part"
    using p by (cases part) (auto simp: stream_extent_def gpt_def fun_eq_iff)
  obtain r s1 where o: "gpt_open_partition_stream ?vb dev gpt ?part offset (world fb) = (r, s1)" by fastforce
  show thesis
  proof (cases r)
    case (Inl err)
    have "runs env content k fb (sha256_stream env part offset len fb)"
      using i d o Inl unfolding sha256_stream_def gpt_def [symmetric]
      by (auto intro!: runsI fb_answers)
    moreover have "False" if y: "stream_extent ?vb dev gpt ?part lba n" "offset \<le> n * ?bs" for lba n
    proof -
      obtain garbage where gb: "bd_new_stream dev = Some (new_simple_stream dev garbage)"
        "and ?bs (?bs - 1) = 0" using dg by (auto simp: disk_good_def)
      have bd: "block_device dev (content dev)" using dg by (simp add: disk_good_def block_device_def)
      show False
        by (rule block_device.open_stream_extent [OF bd g y(1) gb y(2), of "world fb"]) (use o Inl in simp)
    qed
    ultimately show thesis using failed x by metis
  next
    case (Inr so)
    obtain st space where so: "so = (st, space)" by fastforce
    obtain lba n where e1: "stream_extent ?vb dev gpt ?part lba n" "offset \<le> n * ?bs"
      "space = n * ?bs - offset" "content dev s1 = content dev (world fb)"
      "stream_inv dev (content dev s1) st" "stream_pos ?bs st = lba * ?bs + offset" "end_sector st = lba + n"
      by (rule open_stream_space [OF o [unfolded Inr so] dg g])
    show thesis
    proof (cases "len > space")
      case True
      have "runs env content k fb (sha256_stream env part offset len fb)"
        using i d o Inr so True unfolding sha256_stream_def gpt_def [symmetric]
        by (auto intro!: runsI fb_answers simp: Let_def)
      moreover have "n' = n" if "stream_extent ?vb dev gpt ?part lba' n'" for lba' n'
        using that e1(1) by (cases ?part) (auto simp: stream_extent_def)
      ultimately show thesis using failed True e1(3) x by (metis leD)
    next
      case False
      let ?fb = "fastboot_reset_staging (fb\<lparr>world := s1\<rparr>)"
      let ?n = "if len \<noteq> 0 then len else space"
      have in_extent: "offset + ?n \<le> n * ?bs" using e1(2,3) False by (cases "len = 0") auto
      then have le: "stream_pos ?bs st + ?n \<le> end_sector st * ?bs"
        unfolding e1(6,7) by (simp only: add_mult_distrib)
      have "length (kernel_memory ?fb) = k" "stream_inv dev (content dev (world ?fb)) st"
        using fb_inv_memory_length [OF i] e1(5) by (simp_all add: fastboot_reset_staging_def)
      from sha256_loop_reads [OF dg fb_env_okD(3,5) [OF e] this le, of "[]"]
      obtain s mem where l: "sha256_loop env dev ?n st [] ?fb = Some (Some (bslice (lba * ?bs + offset) ?n
          (content dev (world fb))), ?fb\<lparr>world := s, kernel_memory := mem\<rparr>)" "length mem = k"
        "content dev s = content dev (world fb)"
        using e1(4,6) by (auto simp: fastboot_reset_staging_def)
      have "?fb\<lparr>world := s, kernel_memory := mem\<rparr> =
          (fastboot_reset_staging fb)\<lparr>world := s, kernel_memory := mem\<rparr>"
        by (simp add: fastboot_reset_staging_def)
      with l(1) have "sha256_stream env part offset len fb = Some (fastboot_succeed (fastboot_info
          (hex_bytes (sha256 env (bslice (lba * ?bs + offset) ?n (content dev (world fb)))))
          ((fastboot_reset_staging fb)\<lparr>world := s, kernel_memory := mem\<rparr>)))"
        using d o Inr so False unfolding sha256_stream_def gpt_def [symmetric] by (simp add: Let_def)
      then show thesis
        by (intro hashed [of lba n mem s])
           (use in_extent e1(1) l(2,3) in \<open>simp_all only: x [symmetric] e1(3) [symmetric]\<close>)
    qed
  qed
qed

lemma fastboot_cmd_oem_sha256_runs:
  assumes e: "fb_env_ok env content k" and i: "fb_inv env content k fb" "fb_state fb \<noteq> DOWNLOAD"
  shows "runs env content k fb (fastboot_cmd_oem_sha256 env arg fb)"
proof -
  have stream: "runs env content k fb1 (sha256_stream env part offset len fb1)"
    if "fb_inv env content k fb1" "fb_disk fb1 = Some dev" "fb_state fb1 = fb_state fb"
      "part \<noteq> None \<Longrightarrow> \<exists>gpt. fb_gpt fb1 = Some gpt"
    for fb1 :: "('a, 'b, 'c) FastbootOps" and dev part offset len
  proof (rule sha256_stream_cases [OF e that(1,2) _ that(4)])
    show "fb_state fb1 \<noteq> DOWNLOAD" using that(3) i(2) by simp
    fix lba n s mem
    assume "sha256_stream env part offset len fb1 = Some (fastboot_succeed (fastboot_info (hex_bytes
        (sha256 env (bslice (lba * bd_block_size dev + offset)
           (if len \<noteq> 0 then len else n * bd_block_size dev - offset) (content dev (world fb1)))))
        ((fastboot_reset_staging fb1)\<lparr>world := s, kernel_memory := mem\<rparr>)))" and m: "length mem = k"
    moreover have "fb_inv env content k ((fastboot_reset_staging fb1)\<lparr>world := s, kernel_memory := mem\<rparr>)"
      using that i(2) m by (intro fb_inv_memory) (simp_all add: fb_inv_reset_staging)
    ultimately show ?thesis by (auto intro!: runsI fb_answers)
  qed
  note raw = runs_disk_init [OF e i(1)] and named = runs_gpt_init [OF e i(1)]
  have parsed: "runs env content k fb
     (if name = take m FASTBOOT_RAW_WRITE_ARG
      then (case fastboot_disk_init env fb of (err, fb) \<Rightarrow>
              if err then Some fb else sha256_stream env None offset len fb)
      else (case fastboot_disk_gpt_init env fb of (err, fb) \<Rightarrow>
              if err then Some fb else sha256_stream env part offset len fb))" for name m part offset len
    by (auto intro!: raw named stream)
  show ?thesis using i(1) parsed
    unfolding fastboot_cmd_oem_sha256_def Let_def
    by (auto split: option.split prod.split intro!: runsI fb_answers)
qed

section \<open>Commands that need the GPT\<close>

lemma runs_bind:
  "r \<noteq> None \<Longrightarrow> (\<And>x. r = Some x \<Longrightarrow> runs env content k fb (g x)) \<Longrightarrow> runs env content k fb (Option.bind r g)"
  by auto

lemma runs_world: "runs env content k (fb\<lparr>world := s\<rparr>) r \<Longrightarrow> runs env content k fb r"
  by (auto simp: runs_def)

lemma runs_with_misc:
  fixes fb :: "('e, 's, 't) FastbootOps"
  assumes "fb_env_ok env content k" and "fb_inv env content k fb"
    and "\<And>dev gpt fb'. fb_inv env content k fb' \<Longrightarrow> fb_state fb' = fb_state fb \<Longrightarrow> fb_disk fb' = Some dev \<Longrightarrow>
      fb_gpt fb' = Some gpt \<Longrightarrow> disk_good dev (content dev) \<Longrightarrow>
      gpt_entries_ok (env_vb (fe_misc env)) dev gpt \<Longrightarrow> runs env content k fb' (f dev gpt fb')"
  shows "runs env content k fb (with_misc env f fb)"
  unfolding with_misc_def
proof (rule runs_gpt_init [OF assms(1,2)])
  fix fb' :: "('e, 's, 't) FastbootOps" and dev gpt
  assume i: "fb_inv env content k fb'" "fb_state fb' = fb_state fb" "fb_disk fb' = Some dev" "fb_gpt fb' = Some gpt"
  have "disk_good dev (content dev)" using i(1,3) by (simp add: fb_inv_def disk_state_ok_def)
  then show "runs env content k fb' (Option.bind (fb_disk fb') (\<lambda>disk. Option.bind (fb_gpt fb') (\<lambda>gpt. f disk gpt fb')))"
    using assms(3) [OF i] i fb_invD(6) [OF i(1,3,4)] by simp
qed

lemma save_gpt_and_answer_runs:
  assumes "fb_inv env content k (fb\<lparr>fb_gpt := None\<rparr>)" and "fb_disk fb = Some dev"
    and "fb_gpt fb = Some gpt"
  shows "runs env content k fb (save_gpt_and_answer env err_text fb)"
proof -
  obtain err fb' where "fastboot_save_gpt env fb = Some (err, fb')" "fb_inv env content k fb'"
    "informs fb fb'"
    by (rule save_gpt_runs [OF assms])
  then show ?thesis by (auto simp: save_gpt_and_answer_def intro!: runsI fb_answers)
qed

lemma fastboot_cmd_reboot_to_target_runs:
  assumes "fb_env_ok env content k" and "fb_inv env content k fb"
  shows "runs env content k fb (fastboot_cmd_reboot_to_target env arg fb)"
  unfolding fastboot_cmd_reboot_to_target_def
proof (rule runs_with_misc [OF assms], goal_cases)
  case (1 dev gpt fb1)
  then have "android_misc_bcb_write (fe_misc env) dev gpt bcb s \<noteq> None" for bcb s
    using misc_write_returns by (simp add: android_misc_bcb_write_def)
  with 1 show ?case
    by (auto simp: Let_def split: prod.split option.split intro!: runs_bind runsI fb_answers)
qed

lemma runs_new_gpt:
  assumes "fb_inv env content k fb" and "fb_disk fb = Some dev"
  shows "runs env content k fb (save_gpt_and_answer env err_text (fb\<lparr>fb_gpt := Some gpt\<rparr>))"
proof -
  have "informs fb (fb\<lparr>fb_gpt := Some gpt\<rparr>)" by simp
  moreover have "runs env content k (fb\<lparr>fb_gpt := Some gpt\<rparr>)
      (save_gpt_and_answer env err_text (fb\<lparr>fb_gpt := Some gpt\<rparr>))"
    using assms fb_inv_drop_gpt [OF assms(1)] by (intro save_gpt_and_answer_runs) simp_all
  ultimately show ?thesis by (rule runs_after)
qed

lemma fastboot_cmd_set_active_runs:
  assumes "fb_env_ok env content k" and "fb_inv env content k fb"
  shows "runs env content k fb (fastboot_cmd_set_active env arg fb)"
  unfolding fastboot_cmd_set_active_def
proof (rule runs_with_misc [OF assms], goal_cases)
  case (1 dev gpt fb1)
  then show ?case
    by (cases "fastboot_get_kernel_for_slot env gpt (hd (hol_string (arg @ [0])))")
       (auto simp: Let_def intro!: runs_new_gpt, auto intro!: runsI fb_answers)
qed

lemma parse_partition_value_cases:
  assumes "fb_env_ok env content k" and "fb_inv env content k fb"
    and "parse_partition_value env arg val_parse_err usage fb = (r, fb')"
  shows "fb_inv env content k fb' \<and> (r = None \<longrightarrow> answers fb fb') \<and>
    (r \<noteq> None \<longrightarrow> informs fb fb' \<and> (\<exists>dev gpt. fb_disk fb' = Some dev \<and> fb_gpt fb' = Some gpt))"
proof -
  obtain err fb1 where g: "fastboot_do_disk_gpt_init env True fb = (err, fb1)" by fastforce
  note r = disk_gpt_init_runs [OF assms(1,2) g]
  show ?thesis
  proof (cases err)
    case True
    then show ?thesis using assms(2,3) r g unfolding parse_partition_value_def fastboot_disk_gpt_init_def
      by (auto simp: Let_def split: prod.splits if_splits intro!: fb_answers)
  next
    case False
    then obtain dev gpt where "informs fb fb1" "fb_disk fb1 = Some dev" "fb_gpt fb1 = Some gpt"
      using r by blast
    then show ?thesis using assms(2,3) r g False
      unfolding parse_partition_value_def fastboot_disk_gpt_init_def
      by (auto simp: Let_def split: prod.splits if_splits option.splits intro!: fb_answers)
  qed
qed

lemma update_entry_runs:
  assumes "fb_inv env content k fb" and "fb_disk fb = Some dev" and "fb_gpt fb = Some gpt"
  shows "runs env content k fb (update_entry env f i fb)"
  using runs_new_gpt [OF assms(1,2)] assms(3) by (simp add: update_entry_def)

lemma runs_partition_value:
  assumes e: "fb_env_ok env content k" and i: "fb_inv env content k fb"
  shows "runs env content k fb
    (case parse_partition_value env arg val_parse_err usage fb of
       (None, fb) \<Rightarrow> Some fb
     | (Some (v, j), fb) \<Rightarrow>
         if v > limit then Some (fastboot_fail (val_parse_err v) fb) else update_entry env (f v) j fb)"
proof -
  obtain r fb1 where p: "parse_partition_value env arg val_parse_err usage fb = (r, fb1)" by fastforce
  note c = parse_partition_value_cases [OF e i p]
  show ?thesis
  proof (cases r)
    case None
    then show ?thesis using p c by (auto intro!: runsI)
  next
    case (Some vj)
    then obtain dev gpt where d: "informs fb fb1" "fb_disk fb1 = Some dev" "fb_gpt fb1 = Some gpt"
      using c by blast
    then have "runs env content k fb (update_entry env g j fb1)" for g j
      using c update_entry_runs runs_after by blast
    then show ?thesis using p c Some d by (auto split: prod.split intro!: runsI fb_answers)
  qed
qed

lemma fastboot_cmd_oem_set_priority_runs:
  assumes "fb_env_ok env content k" and "fb_inv env content k fb"
  shows "runs env content k fb (fastboot_cmd_oem_set_priority env arg fb)"
  unfolding fastboot_cmd_oem_set_priority_def Let_def by (rule runs_partition_value [OF assms])

lemma fastboot_cmd_oem_set_successful_runs:
  assumes "fb_env_ok env content k" and "fb_inv env content k fb"
  shows "runs env content k fb (fastboot_cmd_oem_set_successful env arg fb)"
  unfolding fastboot_cmd_oem_set_successful_def Let_def by (rule runs_partition_value [OF assms])

lemma fastboot_cmd_snapshot_update_runs:
  assumes "fb_env_ok env content k" and "fb_inv env content k fb"
  shows "runs env content k fb (fastboot_cmd_snapshot_update env arg fb)"
  unfolding fastboot_cmd_snapshot_update_def
proof (rule runs_with_misc [OF assms], goal_cases)
  case (1 dev gpt fb1)
  then have "android_misc_virtual_ab_cancel_update (fe_misc env) dev gpt s \<noteq> None" for s
    using cancel_update_returns by fastforce
  with 1 show ?case
    by (auto simp: Let_def split: prod.split virtual_ab_merge_status.split
        intro!: runs_bind runsI fb_answers)
qed

end
