(* ===== verification/Fastboot_Oem.thy ===== *)
theory Fastboot_Oem
  imports Fastboot_Service
begin

text \<open>
  The commands on the OEM command line of \<open>src/fastboot/cmd.c\<close>: a string is a sequence of parameters,
  each with the separator behind it (\<open>cmd_params\<close>). Deleting keeps the parameters that do not match,
  and for the pattern \<open>*\<close> never ends; reporting sends one line for each parameter.
\<close>

section \<open>Parameters\<close>

lemma cmd_find_end_le: "cmd_find_end b q s \<le> length s"
  by (induction b q s rule: cmd_find_end.induct) auto

lemma cmd_find_end_NUL: "cmd_find_end b q (s @ 0 # rest) = cmd_find_end b q s"
  by (induction b q s rule: cmd_find_end.induct) auto

function cmd_params :: "bool \<Rightarrow> u8 list \<Rightarrow> u8 list list" where
  "cmd_params b s =
     (let n = cmd_find_end b 0 s
      in if n \<ge> length s then [s] else take (n + 1) s # cmd_params b (drop (n + 1) s))"
  by pat_completeness auto
termination by (relation "measure (\<lambda>(b, s). length s)") auto

declare cmd_params.simps [simp del]

definition cmd_text :: "bool \<Rightarrow> u8 list \<Rightarrow> u8 list" where
  "cmd_text b p = take (cmd_find_end b 0 p) p"

lemma concat_cmd_params: "concat (cmd_params b s) = s"
proof (induction b s rule: cmd_params.induct)
  case (1 b s)
  then show ?case by (subst cmd_params.simps) (auto simp: Let_def)
qed

lemma cmd_find_end_take:
  "cmd_find_end b q s < length s \<Longrightarrow>
   cmd_find_end b q (take (Suc (cmd_find_end b q s)) s) = cmd_find_end b q s"
proof (induction s arbitrary: q)
  case (Cons c cs)
  then show ?case by (auto split: if_splits)
qed simp

lemma cmd_text_take:
  "cmd_find_end b 0 s < length s \<Longrightarrow>
   cmd_text b (take (cmd_find_end b 0 s + 1) s) = take (cmd_find_end b 0 s) s"
  by (simp add: cmd_text_def cmd_find_end_take min_def)

lemma cmd_params_end: "cmd_find_end b 0 s \<ge> length s \<Longrightarrow> cmd_params b s = [s]"
  by (subst cmd_params.simps) simp

lemma cmd_params_step:
  "cmd_find_end b 0 s < length s \<Longrightarrow>
   cmd_params b s = take (cmd_find_end b 0 s + 1) s # cmd_params b (drop (cmd_find_end b 0 s + 1) s)"
  by (subst cmd_params.simps) (simp add: Let_def)

lemma cmd_params_Nil [simp]: "cmd_params b [] = [[]]"
  by (simp add: cmd_params_end)

text \<open>Outside the last parameter, a parameter of a string without NUL ends with a separator.\<close>

lemma cmd_find_end_separator:
  "cmd_find_end b q s < length s \<Longrightarrow> 0 \<notin> set s \<Longrightarrow>
   is_android_misc_cmd_separator (s ! cmd_find_end b q s) b"
proof (induction s arbitrary: q)
  case (Cons c cs)
  then show ?case by (auto split: if_splits)
qed simp

lemma cmd_params_ends:
  "0 \<notin> set s \<Longrightarrow> p \<in> set (butlast (cmd_params b s)) \<Longrightarrow>
   p \<noteq> [] \<and> is_android_misc_cmd_separator (last p) b"
proof (induction b s rule: cmd_params.induct)
  case (1 b s)
  let ?n = "cmd_find_end b 0 s"
  show ?case
  proof (cases "?n < length s")
    case True
    have "last (take (?n + 1) s) = s ! ?n" "take (?n + 1) s \<noteq> []"
      using True by (auto simp: take_Suc_conv_app_nth)
    moreover have "0 \<notin> set (drop (?n + 1) s)" using 1(2) by (meson in_set_dropD)
    ultimately show ?thesis
      using 1 True cmd_find_end_separator [OF True 1(2)] by (auto simp: cmd_params_step split: if_splits)
  next
    case False
    then show ?thesis using 1(3) by (simp add: cmd_params_end)
  qed
qed

lemma last_cmd_params: "last (cmd_params b s) = [] \<or> (s \<noteq> [] \<and> last (last (cmd_params b s)) = last s)"
proof (induction b s rule: cmd_params.induct)
  case (1 b s)
  let ?n = "cmd_find_end b 0 s"
  show ?case
  proof (cases "?n < length s")
    case True
    have "cmd_params b t \<noteq> []" for t by (subst cmd_params.simps) (simp add: Let_def)
    then have "last (cmd_params b s) = last (cmd_params b (drop (?n + 1) s))"
      using True by (simp add: cmd_params_step)
    then show ?thesis using 1 True by (auto simp: last_drop split: if_splits)
  next
    case False
    then show ?thesis by (simp add: cmd_params_end)
  qed
qed

section \<open>The string in memory\<close>

definition oem_string :: "bool \<Rightarrow> android_misc_oem_cmdline \<Rightarrow> u8 list" where
  "oem_string b cmd = (if b then oem_bootconfig cmd else oem_cmdline cmd)"

lemma oem_memory:
  assumes "oem_inv cmd"
  obtains rest where "drop (android_misc_get_oem_cmd cmd b) (oc_data cmd) = oem_string b cmd @ 0 # rest"
proof -
  obtain rest where "oem_shape cmd (oem_cmdline cmd) (oem_bootconfig cmd) rest"
    using oem_shapeI [OF assms] by blast
  then show thesis using that
    by (cases b) (auto simp: oem_shape_def android_misc_get_oem_cmd_def oem_string_def)
qed

text \<open>The fields that the deletions keep.\<close>

definition same_header :: "android_misc_oem_cmdline \<Rightarrow> android_misc_oem_cmdline \<Rightarrow> bool" where
  "same_header cmd cmd' \<longleftrightarrow> oc_magic cmd' = oc_magic cmd \<and> oc_version cmd' = oc_version cmd \<and>
     oc_reserved cmd' = oc_reserved cmd"

lemma del_same_header: "android_misc_del_oem_cmd cmd idx len b = (0, cmd') \<Longrightarrow> same_header cmd cmd'"
  by (auto simp: android_misc_del_oem_cmd_def same_header_def Let_def split: if_splits)

lemma get_oem_cmd_other:
  assumes "oem_inv cmd" "oem_inv cmd'" and "oem_string (\<not> b) cmd' = oem_string (\<not> b) cmd"
  shows "android_misc_get_oem_cmd cmd' b = android_misc_get_oem_cmd cmd b"
  using assms oem_lengths(1) by (auto simp: android_misc_get_oem_cmd_def oem_string_def)

lemma del_string:
  assumes "oem_inv cmd" and "oem_string b cmd = xs @ ys @ zs"
  obtains cmd' where "android_misc_del_oem_cmd cmd (length xs) (length ys) b = (0, cmd')" "oem_inv cmd'"
    "oem_string b cmd' = xs @ zs" "oem_string (\<not> b) cmd' = oem_string (\<not> b) cmd" "same_header cmd cmd'"
    "android_misc_get_oem_cmd cmd' b = android_misc_get_oem_cmd cmd b"
proof -
  have "length xs + length ys < (if b then bootconfig_len cmd else cmdline_len cmd)"
    using assms(2) oem_lengths [OF assms(1)]
    by (auto simp: oem_string_def split: if_splits dest!: arg_cong [where f = length])
  then obtain cmd' where d: "android_misc_del_oem_cmd cmd (length xs) (length ys) b = (0, cmd')" "oem_inv cmd'"
    "oem_cmdline cmd' = (if b then oem_cmdline cmd
      else take (length xs) (oem_cmdline cmd) @ drop (length xs + length ys) (oem_cmdline cmd))"
    "oem_bootconfig cmd' = (if b
      then take (length xs) (oem_bootconfig cmd) @ drop (length xs + length ys) (oem_bootconfig cmd)
      else oem_bootconfig cmd)"
    using del_oem_cmd_ok [OF assms(1)] by blast
  have s: "oem_string b cmd' = xs @ zs" "oem_string (\<not> b) cmd' = oem_string (\<not> b) cmd"
    using d(3,4) assms(2) by (auto simp: oem_string_def split: if_splits)
  show thesis
    by (rule that [OF d(1,2) s del_same_header [OF d(1)] get_oem_cmd_other [OF assms(1) d(2) s(2)]])
qed

text \<open>One round of the loop, in terms of the string: \<open>us\<close> is what is left of it up to a NUL.\<close>

definition loop_state :: "bool \<Rightarrow> android_misc_oem_cmdline \<Rightarrow> u8 list \<Rightarrow> u8 list \<Rightarrow> u8 list \<Rightarrow> bool" where
  "loop_state b cmd xs us vs \<longleftrightarrow> oem_inv cmd \<and> oem_string b cmd = xs @ us @ vs \<and> 0 \<notin> set us \<and>
     (vs = [] \<or> hd vs = 0)"

lemma loop_memory:
  assumes "loop_state b cmd xs us vs"
  obtains ws where "drop (android_misc_get_oem_cmd cmd b + length xs) (oc_data cmd) = us @ 0 # ws"
proof -
  obtain rest where "drop (android_misc_get_oem_cmd cmd b) (oc_data cmd) = oem_string b cmd @ 0 # rest"
    using oem_memory assms unfolding loop_state_def by blast
  then have "drop (length xs) (drop (android_misc_get_oem_cmd cmd b) (oc_data cmd)) = us @ vs @ 0 # rest"
    using assms by (simp add: loop_state_def)
  then have "drop (android_misc_get_oem_cmd cmd b + length xs) (oc_data cmd) = us @ vs @ 0 # rest"
    by (simp add: add.commute)
  moreover have "\<exists>ws. vs @ 0 # rest = 0 # ws" using assms by (cases vs) (auto simp: loop_state_def)
  ultimately show thesis using that by auto
qed

lemma loop_end:
  assumes "loop_state b cmd xs us vs" and "n \<le> length us"
  shows "(us @ 0 # ws) ! n = 0 \<longleftrightarrow> n = length us"
  using assms by (auto simp: nth_append loop_state_def dest!: nth_mem [of n us])

lemma del_match_memory:
  assumes st: "loop_state b cmd xs us vs"
  obtains cmd' ws where "loop_state b cmd' xs (drop (cmd_find_end b 0 us + 1) us) vs"
    "oem_string (\<not> b) cmd' = oem_string (\<not> b) cmd" "same_header cmd cmd'"
    "android_misc_get_oem_cmd cmd' b = android_misc_get_oem_cmd cmd b"
    "drop (android_misc_get_oem_cmd cmd b + length xs) (oc_data cmd) = us @ 0 # ws"
    "android_misc_del_oem_cmd cmd (length xs)
       (if (us @ 0 # ws) ! cmd_find_end b 0 us = 0 then cmd_find_end b 0 us else cmd_find_end b 0 us + 1) b =
     (0, cmd')"
proof -
  let ?n = "cmd_find_end b 0 us"
  define ys where "ys = take (?n + 1) us"
  obtain ws where m: "drop (android_misc_get_oem_cmd cmd b + length xs) (oc_data cmd) = us @ 0 # ws"
    by (rule loop_memory [OF st])
  have l: "length ys = (if (us @ 0 # ws) ! ?n = 0 then ?n else ?n + 1)"
    unfolding loop_end [OF st cmd_find_end_le] using cmd_find_end_le [of b 0 us] by (auto simp: ys_def)
  have s: "oem_string b cmd = xs @ ys @ drop (?n + 1) us @ vs"
    using st unfolding loop_state_def ys_def by (metis append_take_drop_id append_assoc)
  have "oem_inv cmd" using st by (simp add: loop_state_def)
  from del_string [OF this s] obtain cmd' where
    d: "android_misc_del_oem_cmd cmd (length xs) (length ys) b = (0, cmd')" "oem_inv cmd'"
    "oem_string b cmd' = xs @ drop (?n + 1) us @ vs" "oem_string (\<not> b) cmd' = oem_string (\<not> b) cmd"
    "same_header cmd cmd'" "android_misc_get_oem_cmd cmd' b = android_misc_get_oem_cmd cmd b" by blast
  have "loop_state b cmd' xs (drop (?n + 1) us) vs"
    using st d(2,3) by (auto simp: loop_state_def dest: in_set_dropD)
  from that [OF this d(4-6) m d(1) [unfolded l]] show thesis .
qed

lemma del_loop_match:
  assumes st: "loop_state b cmd xs us vs" and "is_matching arg (take (cmd_find_end b 0 us) us)"
  obtains cmd' where "loop_state b cmd' xs (drop (cmd_find_end b 0 us + 1) us) vs"
    "oem_string (\<not> b) cmd' = oem_string (\<not> b) cmd" "same_header cmd cmd'"
    "android_misc_get_oem_cmd cmd' b = android_misc_get_oem_cmd cmd b"
    "cmdline_del_loop env dev gpt b arg (android_misc_get_oem_cmd cmd b) (length xs) modified cmd fb =
     cmdline_del_loop env dev gpt b arg (android_misc_get_oem_cmd cmd b) (length xs) True cmd' fb"
proof -
  obtain cmd' ws where d: "loop_state b cmd' xs (drop (cmd_find_end b 0 us + 1) us) vs"
    "oem_string (\<not> b) cmd' = oem_string (\<not> b) cmd" "same_header cmd cmd'"
    "android_misc_get_oem_cmd cmd' b = android_misc_get_oem_cmd cmd b"
    "drop (android_misc_get_oem_cmd cmd b + length xs) (oc_data cmd) = us @ 0 # ws"
    "android_misc_del_oem_cmd cmd (length xs)
       (if (us @ 0 # ws) ! cmd_find_end b 0 us = 0 then cmd_find_end b 0 us else cmd_find_end b 0 us + 1) b =
     (0, cmd')"
    by (rule del_match_memory [OF st])
  have "cmdline_del_loop env dev gpt b arg (android_misc_get_oem_cmd cmd b) (length xs) modified cmd fb =
      cmdline_del_loop env dev gpt b arg (android_misc_get_oem_cmd cmd b) (length xs) True cmd' fb"
    using assms(2) cmd_find_end_le [of b 0 us] d(6)
    by (subst cmdline_del_loop.simps, cases "(us @ 0 # ws) ! cmd_find_end b 0 us = 0")
       (simp_all add: d(5) cmd_find_end_NUL Let_def)
  from that [OF d(1-4) this] show thesis .
qed

lemma del_loop_keep:
  assumes st: "loop_state b cmd xs us vs" and "\<not> is_matching arg (take (cmd_find_end b 0 us) us)"
  shows "cmdline_del_loop env dev gpt b arg (android_misc_get_oem_cmd cmd b) (length xs) modified cmd fb =
    (if cmd_find_end b 0 us = length us
     then if modified then cmdline_write_back env dev gpt cmd fb else Some (fastboot_succeed fb)
     else cmdline_del_loop env dev gpt b arg (android_misc_get_oem_cmd cmd b)
            (length xs + cmd_find_end b 0 us + 1) modified cmd fb)"
proof -
  obtain ws where m: "drop (android_misc_get_oem_cmd cmd b + length xs) (oc_data cmd) = us @ 0 # ws"
    by (rule loop_memory [OF st])
  show ?thesis
    by (subst cmdline_del_loop.simps)
       (use assms(2) cmd_find_end_le [of b 0 us] loop_end [OF st cmd_find_end_le] in
         \<open>simp add: m cmd_find_end_NUL Let_def\<close>)
qed

definition kept_params :: "bool \<Rightarrow> u8 list \<Rightarrow> u8 list \<Rightarrow> u8 list" where
  "kept_params b arg s = concat (filter (\<lambda>p. \<not> is_matching arg (cmd_text b p)) (cmd_params b s))"

definition some_match :: "bool \<Rightarrow> u8 list \<Rightarrow> u8 list \<Rightarrow> bool" where
  "some_match b arg s \<longleftrightarrow> (\<exists>p \<in> set (cmd_params b s). is_matching arg (cmd_text b p))"

lemma cmd_text_whole: "cmd_find_end b 0 s \<ge> length s \<Longrightarrow> cmd_text b s = s"
  by (simp add: cmd_text_def)

text \<open>For a pattern that does not match the empty parameter the loop ends, with the others kept.\<close>

lemma cmdline_del_loop_keeps:
  assumes arg: "\<not> is_matching arg []"
  shows "loop_state b cmd xs us vs \<Longrightarrow>
    \<exists>cmd'. oem_inv cmd' \<and> same_header cmd cmd' \<and> oem_string b cmd' = xs @ kept_params b arg us @ vs \<and>
      oem_string (\<not> b) cmd' = oem_string (\<not> b) cmd \<and>
      cmdline_del_loop env dev gpt b arg (android_misc_get_oem_cmd cmd b) (length xs) modified cmd fb =
        (if modified \<or> some_match b arg us then cmdline_write_back env dev gpt cmd' fb
         else Some (fastboot_succeed fb))"
proof (induction "length us" arbitrary: cmd xs us modified rule: less_induct)
  case less
  let ?n = "cmd_find_end b 0 us"
  let ?loop = "cmdline_del_loop env dev gpt b arg (android_misc_get_oem_cmd cmd b)"
  note st = less.prems
  show ?case
  proof (cases "is_matching arg (take ?n us)")
    case True
    then have "us \<noteq> []" using arg by auto
    then have less': "length (drop (?n + 1) us) < length us" by simp
    obtain cmd1 where d: "loop_state b cmd1 xs (drop (?n + 1) us) vs"
      "oem_string (\<not> b) cmd1 = oem_string (\<not> b) cmd" "same_header cmd cmd1"
      "android_misc_get_oem_cmd cmd1 b = android_misc_get_oem_cmd cmd b"
      "?loop (length xs) modified cmd fb = ?loop (length xs) True cmd1 fb"
      by (rule del_loop_match [OF st True])
    have k: "kept_params b arg us = kept_params b arg (drop (?n + 1) us)" "some_match b arg us"
      using True arg cmd_params_step [of b us] cmd_params_end [of us b] cmd_text_whole [of us b]
        cmd_text_take [of b us]
      by (cases "?n < length us"; simp add: kept_params_def some_match_def cmd_text_def)+
    show ?thesis using less.hyps [OF less' d(1), of True] d(2-5) k
      by (auto simp: same_header_def)
  next
    case no: False
    show ?thesis
    proof (cases "?n = length us")
      case True
      then have "kept_params b arg us = us" "\<not> some_match b arg us"
        using no cmd_params_end [of us b] cmd_text_whole [of us b]
        by (simp_all add: kept_params_def some_match_def)
      moreover have "same_header cmd cmd" by (simp add: same_header_def)
      ultimately show ?thesis using st unfolding del_loop_keep [OF st no] loop_state_def
        by (intro exI [of _ cmd]) (simp only: True if_True, simp)
    next
      case False
      then have n: "?n < length us" using cmd_find_end_le [of b 0 us] by simp
      let ?xs = "xs @ take (?n + 1) us"
      have st': "loop_state b cmd ?xs (drop (?n + 1) us) vs"
        using st by (auto simp: loop_state_def dest: in_set_dropD)
      have k: "kept_params b arg us = take (?n + 1) us @ kept_params b arg (drop (?n + 1) us)"
        "some_match b arg us = some_match b arg (drop (?n + 1) us)"
        using no n cmd_text_take [OF n]
        by (simp_all add: kept_params_def some_match_def cmd_params_step)
      have eq: "?loop (length xs) modified cmd fb = ?loop (length ?xs) modified cmd fb"
      proof -
        have "length ?xs = length xs + ?n + 1" using n by simp
        then show ?thesis unfolding del_loop_keep [OF st no] using False by (simp only: if_False)
      qed
      have "length (drop (?n + 1) us) < length us" using n by simp
      from less.hyps [OF this st', of modified] show ?thesis unfolding eq k by (simp only: append_assoc)
    qed
  qed
qed

text \<open>For the pattern \<open>*\<close> the loop goes on for ever: it deletes nothing again and again.\<close>

lemma cmdline_del_loop_star:
  assumes "loop_state b cmd xs us vs"
  shows "cmdline_del_loop env dev gpt b [42] (android_misc_get_oem_cmd cmd b) (length xs) modified cmd fb = None"
proof -
  let ?hang = "\<lambda>b arg at pos cmd. \<exists>xs us vs. loop_state b cmd xs us vs \<and> arg = [42] \<and> pos = length xs \<and>
      at = android_misc_get_oem_cmd cmd b"
  have "\<not> ?hang b arg at pos cmd"
    if "cmdline_del_loop env dev gpt b arg at pos modified cmd fb = Some r"
    for env :: "('a, 'b) fb_env" and dev gpt b arg at pos modified cmd and fb r :: "('a, 'b, 'c) FastbootOps"
  proof (rule cmdline_del_loop.raw_induct [where P = "\<lambda>env dev gpt b arg at pos modified cmd fb r.
      \<not> ?hang b arg at pos cmd", OF _ that], rule notI, elim exE conjE, goal_cases)
    case (1 loop env dev gpt b arg at pos modified cmd fb r xs us vs)
    obtain cmd' ws where d: "loop_state b cmd' xs (drop (cmd_find_end b 0 us + 1) us) vs"
      "android_misc_get_oem_cmd cmd' b = android_misc_get_oem_cmd cmd b"
      "drop (android_misc_get_oem_cmd cmd b + length xs) (oc_data cmd) = us @ 0 # ws"
      "android_misc_del_oem_cmd cmd (length xs)
         (if (us @ 0 # ws) ! cmd_find_end b 0 us = 0 then cmd_find_end b 0 us else cmd_find_end b 0 us + 1) b =
       (0, cmd')"
      by (rule del_match_memory [OF 1(3)])
    have "is_matching [42] p" for p by (subst is_matching.simps) simp
    then have "loop env dev gpt b arg at pos True cmd' fb = Some r"
      using 1(2,4-6) d(4) cmd_find_end_le [of b 0 us]
      by (cases "(us @ 0 # ws) ! cmd_find_end b 0 us = 0") (simp_all add: d(3) cmd_find_end_NUL Let_def)
    from 1(1) [OF this] show False using d(1,2) 1(4-6) by metis
  qed
  then show ?thesis using assms
    by (cases "cmdline_del_loop env dev gpt b [42] (android_misc_get_oem_cmd cmd b) (length xs) modified cmd fb")
       blast+
qed

section \<open>Changing the string\<close>

lemma cmdline_write_back_runs:
  assumes "fb_inv env content k fb" and "disk_good dev (content dev)"
    and "gpt_entries_ok (env_vb (fe_misc env)) dev gpt"
  shows "runs env content k fb (cmdline_write_back env dev gpt cmd fb)"
  using assms(1) oem_write_returns [OF assms(2,3), of cmd "world fb"]
  by (auto simp: cmdline_write_back_def Let_def intro!: runsI fb_answers)

lemmas write_back_after = runs_world [OF cmdline_write_back_runs]

lemma fastboot_cmd_cmdline_add_runs:
  assumes "fb_env_ok env content k" and "fb_inv env content k fb"
  shows "runs env content k fb (fastboot_cmd_cmdline_add env b arg fb)"
proof (cases "arg = []")
  case True
  then show ?thesis using assms(2) by (auto simp: fastboot_cmd_cmdline_add_def intro!: runsI fb_answers)
next
  case False
  show ?thesis unfolding fastboot_cmd_cmdline_add_def if_not_P [OF False]
  proof (rule runs_with_misc [OF assms], goal_cases)
    case (1 dev gpt fb1)
    then show ?case
      by (auto simp: Let_def split: prod.split intro!: write_back_after runsI fb_answers)
  qed
qed

lemma fastboot_cmd_cmdline_set_runs:
  assumes "fb_env_ok env content k" and "fb_inv env content k fb"
  shows "runs env content k fb (fastboot_cmd_cmdline_set env b arg fb)"
  unfolding fastboot_cmd_cmdline_set_def
proof (rule runs_with_misc [OF assms], goal_cases)
  case (1 dev gpt fb1)
  then show ?case
    by (auto simp: Let_def split: prod.split intro!: write_back_after runsI fb_answers)
qed

lemma loop_state_start:
  assumes "oem_inv cmd"
  shows "loop_state b cmd [] (c_str (oem_string b cmd)) (drop (length (c_str (oem_string b cmd))) (oem_string b cmd))"
proof -
  let ?s = "oem_string b cmd"
  have d: "drop (length (c_str ?s)) ?s = dropWhile (\<lambda>c. c \<noteq> 0) ?s"
    by (simp add: c_str_def dropWhile_eq_drop)
  have "dropWhile (\<lambda>c. c \<noteq> 0) ?s = [] \<or> hd (dropWhile (\<lambda>c. c \<noteq> 0) ?s) = 0"
    using hd_dropWhile by blast
  moreover have "0 \<notin> set (c_str ?s)" by (auto simp: c_str_def dest: set_takeWhileD)
  ultimately show ?thesis using assms unfolding d loop_state_def by (simp add: c_str_def)
qed

lemma cmdline_del_loop_runs:
  assumes i: "fb_inv env content k fb" and g: "disk_good dev (content dev)"
    "gpt_entries_ok (env_vb (fe_misc env)) dev gpt" and c: "oem_inv cmd" and arg: "\<not> is_matching arg []"
  shows "runs env content k fb
    (cmdline_del_loop env dev gpt b arg (android_misc_get_oem_cmd cmd b) 0 False cmd fb)"
  using cmdline_del_loop_keeps [OF arg loop_state_start [OF c], of b env dev gpt False fb]
    cmdline_write_back_runs [OF i g] i
  by (auto intro!: runsI fb_answers)

lemmas del_loop_after = runs_world [OF cmdline_del_loop_runs]

lemma fastboot_cmd_cmdline_del_runs:
  assumes "fb_env_ok env content k" and "fb_inv env content k fb" and "arg \<noteq> [42]"
  shows "runs env content k fb (fastboot_cmd_cmdline_del env b arg fb)"
proof (cases "arg = []")
  case True
  then show ?thesis using assms(2) by (auto simp: fastboot_cmd_cmdline_del_def intro!: runsI fb_answers)
next
  case False
  then have arg: "\<not> is_matching arg []" using assms(3) by (simp add: is_matching_Nil)
  show ?thesis unfolding fastboot_cmd_cmdline_del_def if_not_P [OF False]
  proof (rule runs_with_misc [OF assms(1,2)], goal_cases)
    case (1 dev gpt fb1)
    obtain rc cmd s where r: "android_misc_oem_cmdline_read (fe_misc env) dev gpt (world fb1) = (rc, cmd, s)"
      by (metis prod_cases3)
    have "oem_inv cmd" if "rc = 0" using oem_read_inv(1) [OF r [unfolded that] 1(5,6)] .
    with 1 r arg show ?case
      by (auto simp: Let_def intro!: del_loop_after runsI fb_answers)
  qed
qed

text \<open>\<open>oem cmdline del *\<close> does not return.\<close>

lemma fastboot_cmd_cmdline_del_star:
  assumes "fastboot_disk_gpt_init env fb = (False, fb1)" and "fb_disk fb1 = Some dev" and "fb_gpt fb1 = Some gpt"
    and "disk_good dev content" and "gpt_entries_ok (env_vb (fe_misc env)) dev gpt"
    and "android_misc_oem_cmdline_read (fe_misc env) dev gpt (world fb1) = (0, cmd, s)"
  shows "fastboot_cmd_cmdline_del env b [42] fb = None"
proof -
  have "oem_inv cmd" by (rule oem_read_inv [OF assms(6,4,5)])
  from cmdline_del_loop_star [OF loop_state_start [OF this, of b], of env dev gpt False "fb1\<lparr>world := s\<rparr>"]
  show ?thesis using assms by (simp add: fastboot_cmd_cmdline_del_def with_misc_def Let_def)
qed

section \<open>Reporting the string\<close>

text \<open>A string is closed when every parameter of it ends with its separator.\<close>

definition closed_params :: "bool \<Rightarrow> u8 list \<Rightarrow> bool" where
  "closed_params b s \<longleftrightarrow> 0 \<notin> set s \<and> last (cmd_params b s) = []"

definition oem_lines :: "bool \<Rightarrow> u8 list \<Rightarrow> u8 list list" where
  "oem_lines b s =
     (case map (cmd_text b) (butlast (cmd_params b s)) of
        [] \<Rightarrow> [] | l # ls \<Rightarrow> l # filter (\<lambda>l. l \<noteq> []) ls)"

lemma separator_facts:
  assumes "is_android_misc_cmd_separator c b"
  shows "c \<noteq> 0" "\<not> is_cmd_quote c b"
  using assms by (auto simp: is_android_misc_cmd_separator_def is_cmd_quote_def is_space_def split: if_splits)

lemma cmd_find_end_sep: "is_android_misc_cmd_separator c b \<Longrightarrow> cmd_find_end b 0 (c # cs) = 0"
  using separator_facts [of c b] by simp

lemma closed_params_Cons:
  assumes "closed_params b s" and "s \<noteq> []"
  shows "cmd_find_end b 0 s < length s" "closed_params b (drop (cmd_find_end b 0 s + 1) s)"
    "butlast (cmd_params b s) = take (cmd_find_end b 0 s + 1) s #
       butlast (cmd_params b (drop (cmd_find_end b 0 s + 1) s))"
proof -
  show n: "cmd_find_end b 0 s < length s"
    using assms cmd_params_end [of s b] by (force simp: closed_params_def not_less)
  have ne: "cmd_params b t \<noteq> []" for t by (subst cmd_params.simps) (simp add: Let_def)
  show "closed_params b (drop (cmd_find_end b 0 s + 1) s)"
    using assms(1) ne unfolding closed_params_def cmd_params_step [OF n] by (auto dest: in_set_dropD)
  show "butlast (cmd_params b s) = take (cmd_find_end b 0 s + 1) s #
       butlast (cmd_params b (drop (cmd_find_end b 0 s + 1) s))"
    using ne by (simp add: cmd_params_step [OF n])
qed

lemma oem_lines_skip:
  "closed_params b s \<Longrightarrow>
   closed_params b (dropWhile (\<lambda>c. is_android_misc_cmd_separator c b) s) \<and>
   filter (\<lambda>l. l \<noteq> []) (map (cmd_text b) (butlast (cmd_params b s))) =
     oem_lines b (dropWhile (\<lambda>c. is_android_misc_cmd_separator c b) s)"
proof (induction s)
  case Nil
  then show ?case by (simp add: oem_lines_def)
next
  case (Cons c cs)
  note n = closed_params_Cons [OF Cons.prems list.distinct(2)]
  show ?case
  proof (cases "is_android_misc_cmd_separator c b")
    case True
    then have "cmd_find_end b 0 (c # cs) = 0" by (rule cmd_find_end_sep)
    moreover have "cmd_text b [c] = []" using cmd_find_end_sep [OF True, of "[]"] by (simp add: cmd_text_def)
    ultimately show ?thesis using Cons.IH n(2,3) True by (simp del: cmd_find_end.simps)
  next
    case False
    have "c \<noteq> 0" using Cons.prems by (auto simp: closed_params_def)
    then have "0 < cmd_find_end b 0 (c # cs)" using False by simp
    then have "cmd_text b (take (cmd_find_end b 0 (c # cs) + 1) (c # cs)) \<noteq> []"
      using n(1) by (subst cmd_text_take) (auto simp del: cmd_find_end.simps)
    then show ?thesis using n(3) False Cons.prems
      by (simp add: oem_lines_def del: cmd_find_end.simps)
  qed
qed

lemma cmdline_get_loop_reports:
  fixes fb :: "('e, 's, 't) FastbootOps"
  shows "closed_params b us \<Longrightarrow>
   cmdline_get_loop b (us @ 0 # ws) fb = Some (fold fastboot_info (oem_lines b us) fb)"
proof (induction "length us" arbitrary: us fb rule: less_induct)
  case less
  show ?case
  proof (cases us)
    case Nil
    then show ?thesis by (subst cmdline_get_loop.simps) (simp add: oem_lines_def)
  next
    case (Cons c cs)
    let ?n = "cmd_find_end b 0 us" and ?sep = "\<lambda>c. is_android_misc_cmd_separator c b"
    have "us \<noteq> []" using Cons by simp
    note n = closed_params_Cons [OF less.prems this]
    have c: "c \<noteq> 0" using less.prems Cons by (auto simp: closed_params_def)
    let ?rest = "dropWhile ?sep (drop (?n + 1) us)"
    have skip: "dropWhile ?sep (drop (?n + 1) (us @ 0 # ws)) = ?rest @ 0 # ws"
      using n(1) separator_facts(1) [of 0 b] by (auto simp: dropWhile_append)
    have tk: "take ?n (us @ 0 # ws) = take ?n us" using n(1) by simp
    note r = oem_lines_skip [OF n(2)]
    have "length ?rest < length us"
      using n(1) length_dropWhile_le [of ?sep "drop (?n + 1) us"] by (simp only: length_drop)
    then have ih: "cmdline_get_loop b (?rest @ 0 # ws) f = Some (fold fastboot_info (oem_lines b ?rest) f)"
      for f :: "('e, 's, 't) FastbootOps"
      using less.hyps r by blast
    have "oem_lines b us = take ?n us # oem_lines b ?rest"
      using n(3) r cmd_text_take [OF n(1)] by (simp add: oem_lines_def)
    moreover have "cmdline_get_loop b (us @ 0 # ws) fb = cmdline_get_loop b (?rest @ 0 # ws)
        (fastboot_info (take ?n us) fb)"
      unfolding skip [symmetric] using n(1) c Cons cmd_find_end_NUL [of b 0 us ws] tk
      by (subst cmdline_get_loop.simps) (simp add: Let_def del: cmd_find_end.simps)
    ultimately show ?thesis by (simp only: ih fold_simps(2))
  qed
qed

lemma oem_lines_Nil [simp]: "oem_lines b [] = []"
  by (simp add: oem_lines_def)

lemma disk_gpt_init_done:
  "fb_disk fb = Some dev \<Longrightarrow> fb_gpt fb = Some gpt \<Longrightarrow> fastboot_disk_gpt_init env fb = (False, fb)"
  by (simp add: fastboot_disk_gpt_init_def fastboot_do_disk_gpt_init_def fastboot_do_disk_init_def)

lemma with_misc_done:
  "fb_disk fb = Some dev \<Longrightarrow> fb_gpt fb = Some gpt \<Longrightarrow> with_misc env f fb = f dev gpt fb"
  by (simp add: with_misc_def disk_gpt_init_done)

lemma fastboot_cmd_cmdline_get_reports:
  assumes i: "fb_inv env content k fb" and d: "fb_disk fb = Some dev" "fb_gpt fb = Some gpt"
    and r: "android_misc_oem_cmdline_read (fe_misc env) dev gpt (world fb) = (0, cmd, s)"
    and c: "closed_params b (oem_string b cmd)"
  shows "fastboot_cmd_cmdline_get env b arg fb = Some (fastboot_succeed (fold fastboot_info
    (if oem_string b cmd = [] then [c_bytes ''<empty>''] else oem_lines b (oem_string b cmd)) (fb\<lparr>world := s\<rparr>)))"
proof -
  have g: "disk_good dev (content dev)" "gpt_entries_ok (env_vb (fe_misc env)) dev gpt"
    using i d fb_invD(6) [OF i d(1), of gpt] by (simp_all add: fb_inv_def disk_state_ok_def)
  obtain rest where m: "drop (android_misc_get_oem_cmd cmd b) (oc_data cmd) = oem_string b cmd @ 0 # rest"
    using oem_memory oem_read_inv(1) [OF r g] by blast
  have "(oem_string b cmd @ 0 # rest) ! 0 = 0 \<longleftrightarrow> oem_string b cmd = []"
    using c by (cases "oem_string b cmd") (auto simp: closed_params_def)
  moreover have "cmdline_get_loop b (0 # rest) f = Some f" for f :: "('a, 'b, 'c) FastbootOps"
    by (subst cmdline_get_loop.simps) simp
  ultimately show ?thesis using r
    by (cases "oem_string b cmd = []")
       (simp_all add: fastboot_cmd_cmdline_get_def with_misc_done [OF d] m cmdline_get_loop_reports [OF c])
qed

section \<open>Deletions on the disk\<close>

lemma kept_params_ends:
  assumes "0 \<notin> set us" and "ends_ok (us @ vs) b"
  shows "ends_ok (kept_params b arg us @ vs) b"
proof (cases "vs = []")
  case True
  let ?ps = "cmd_params b us"
  have "last p = last us \<or> is_android_misc_cmd_separator (last p) b" if "p \<in> set ?ps" "p \<noteq> []" for p
  proof -
    have "p \<in> set (butlast ?ps) \<or> p = last ?ps" using that(1) by (cases ?ps rule: rev_cases) auto
    then show ?thesis using cmd_params_ends [OF assms(1)] last_cmd_params [of b us] that(2) by auto
  qed
  moreover have "us \<noteq> []" if "p \<in> set ?ps" "p \<noteq> []" for p
    using concat_cmd_params [of b us] that by auto
  ultimately have sep: "is_android_misc_cmd_separator (last p) b" if "p \<in> set ?ps" "p \<noteq> []" for p
    using that assms(2) True unfolding ends_ok_def by force
  have l: "\<exists>p \<in> set ps. p \<noteq> [] \<and> last (concat ps) = last p" if "concat ps \<noteq> []" for ps :: "u8 list list"
    using that
  proof (induction ps rule: rev_induct)
    case (snoc x xs)
    then show ?case by (cases "x = []") auto
  qed simp
  show ?thesis
  proof (cases "kept_params b arg us = []")
    case False
    then obtain p where "p \<in> set ?ps" "p \<noteq> []" "last (kept_params b arg us) = last p"
      unfolding kept_params_def using l by (metis filter_is_subset subsetD)
    then show ?thesis using True sep by (simp add: ends_ok_def)
  qed (simp add: True ends_ok_def)
next
  case False
  then show ?thesis using assms(2) by (simp add: ends_ok_def)
qed

lemma kept_params_none: "\<not> some_match b arg s \<Longrightarrow> kept_params b arg s = s"
  using concat_cmd_params [of b s] by (simp add: kept_params_def some_match_def filter_True)

lemma oem_read_facts:
  assumes "android_misc_oem_cmdline_read menv dev gpt s = (0, cmd, s')"
    and "disk_good dev content" and "gpt_entries_ok (env_vb menv) dev gpt"
  shows "oc_magic cmd = ANDROID_MISC_OEM_CMDLINE_MAGIC" "oc_version cmd = 0" "oc_reserved cmd < 256"
    "ends_ok (oem_string b cmd) b"
proof -
  note inv = oem_read_inv [OF assms]
  show "oc_magic cmd = ANDROID_MISC_OEM_CMDLINE_MAGIC" "oc_version cmd = 0"
    using inv(2) by (auto simp: is_android_misc_oem_cmdline_valid_def split: if_splits)
  show "oc_reserved cmd < 256"
  proof -
    obtain buf where "cmd = oem_of_bytes buf"
      using assms(1) by (auto simp: android_misc_oem_cmdline_read_def Let_def split: prod.splits if_splits)
    then have "oc_reserved cmd = unat (buf ! 5)" by (simp add: oem_of_bytes_def)
    then show ?thesis by simp
  qed
  obtain rest where sh: "oem_shape cmd (oem_cmdline cmd) (oem_bootconfig cmd) rest"
    using oem_shapeI [OF inv(1)] by blast
  let ?c = "oem_cmdline cmd" and ?f = "oem_bootconfig cmd"
  have d: "oc_data cmd = ?c @ 0 # ?f @ 0 # rest" "cmdline_len cmd = length ?c + 1"
    "bootconfig_len cmd = length ?f + 1" using sh by (simp_all add: oem_shape_def)
  have c: "oc_data cmd ! (length ?c - 1) = last ?c" if "?c \<noteq> []"
    unfolding d(1) using that by (simp add: nth_append last_conv_nth)
  have f: "oc_data cmd ! (length ?c + length ?f) = last ?f" if "?f \<noteq> []"
    unfolding d(1) using that by (simp add: nth_append last_conv_nth nth_Cons')
  have "is_android_misc_cmd_separator (oc_data cmd ! (length ?c - 1)) False" if "?c \<noteq> []"
    using inv(2) d(2,3) that
    by (auto simp: is_android_misc_oem_cmdline_valid_def Let_def android_misc_get_oem_cmd_def split: if_splits)
  moreover have "is_android_misc_cmd_separator (oc_data cmd ! (length ?c + length ?f)) True" if "?f \<noteq> []"
    using inv(2) d(2,3) that
    by (auto simp: is_android_misc_oem_cmdline_valid_def Let_def android_misc_get_oem_cmd_def split: if_splits)
  ultimately show "ends_ok (oem_string b cmd) b"
    using c f by (cases b) (force simp: ends_ok_def oem_string_def)+
qed

context misc_partition
begin

lemma oem_read_same:
  assumes "MISC_VENDOR_SPACE_OEM_CMDLINE_OFFSET + OEM_CMDLINE_SIZE \<le> psize" and "content s' = content s"
    and "android_misc_oem_cmdline_read env dev gpt s = (rc, cmd, s1)"
  shows "content s1 = content s" "\<exists>s2. android_misc_oem_cmdline_read env dev gpt s' = (rc, cmd, s2)"
  using misc_read_ok [OF assms(1), of s] misc_read_ok [OF assms(1), of s'] assms(2,3)
  by (auto simp: android_misc_oem_cmdline_read_def Let_def split: if_splits)

end

lemma oem_del_on_disk:
  assumes m: "misc_partition (fe_misc env) dev (content dev) gpt garbage e"
    and sz: "MISC_VENDOR_SPACE_OEM_CMDLINE_OFFSET + OEM_CMDLINE_SIZE \<le>
      GptGetEntrySizeBytes (env_vb (fe_misc env)) e"
    and chk: "ipchksum_ok (env_ipchksum (fe_misc env))"
    and i: "fb_inv env content k fb" and d: "fb_disk fb = Some dev" "fb_gpt fb = Some gpt"
    and r: "android_misc_oem_cmdline_read (fe_misc env) dev gpt (world fb) = (0, cmd, s)"
    and arg: "arg \<noteq> []" "arg \<noteq> [42]"
  shows "\<exists>fb' cmd' s'. fastboot_cmd_cmdline_del env b arg fb = Some fb' \<and>
    sends fb [message FASTBOOT_RES_OKAY []] fb' \<and>
    android_misc_oem_cmdline_read (fe_misc env) dev gpt (world fb') = (0, cmd', s') \<and>
    oem_string b cmd' = kept_params b arg (c_str (oem_string b cmd)) @
      drop (length (c_str (oem_string b cmd))) (oem_string b cmd) \<and>
    oem_string (\<not> b) cmd' = oem_string (\<not> b) cmd"
proof -
  have g: "disk_good dev (content dev)" "gpt_entries_ok (env_vb (fe_misc env)) dev gpt"
    using i d fb_invD(6) [OF i d(1), of gpt] by (simp_all add: fb_inv_def disk_state_ok_def)
  let ?us = "c_str (oem_string b cmd)" let ?vs = "drop (length ?us) (oem_string b cmd)"
  note inv = oem_read_inv(1) [OF r g] and facts = oem_read_facts [OF r g]
  have st: "loop_state b cmd [] ?us ?vs" by (rule loop_state_start [OF inv])
  have na: "\<not> is_matching arg []" using arg by (simp add: is_matching_Nil)
  obtain cmd1 where c: "oem_inv cmd1" "same_header cmd cmd1" "oem_string b cmd1 = kept_params b arg ?us @ ?vs"
    "oem_string (\<not> b) cmd1 = oem_string (\<not> b) cmd"
    "cmdline_del_loop env dev gpt b arg (android_misc_get_oem_cmd cmd b) 0 False cmd (fb\<lparr>world := s\<rparr>) =
      (if some_match b arg ?us then cmdline_write_back env dev gpt cmd1 (fb\<lparr>world := s\<rparr>)
       else Some (fastboot_succeed (fb\<lparr>world := s\<rparr>)))"
    using cmdline_del_loop_keeps [OF na st, of env dev gpt False "fb\<lparr>world := s\<rparr>"] by auto
  have del: "fastboot_cmd_cmdline_del env b arg fb =
      (if some_match b arg ?us then cmdline_write_back env dev gpt cmd1 (fb\<lparr>world := s\<rparr>)
       else Some (fastboot_succeed (fb\<lparr>world := s\<rparr>)))"
    using arg(1) r c(5) by (simp add: fastboot_cmd_cmdline_del_def with_misc_done [OF d] Let_def)
  have okay: "sends fb [message FASTBOOT_RES_OKAY []] (fastboot_succeed (fb\<lparr>world := s1\<rparr>))" for s1
    using sends_message [of "fb\<lparr>world := s1\<rparr>" FASTBOOT_RES_OKAY "[]"] by (simp add: fastboot_succeed_def)
  show ?thesis
  proof (cases "some_match b arg ?us")
    case True
    have "ends_ok (oem_string b cmd1) b" unfolding c(3)
      using kept_params_ends [of ?us ?vs b arg] st facts(4) [of b] by (auto simp: loop_state_def)
    moreover have "ends_ok (oem_string (\<not> b) cmd1) (\<not> b)" unfolding c(4) by (rule facts(4))
    ultimately have ends: "ends_ok (oem_cmdline cmd1) False" "ends_ok (oem_bootconfig cmd1) True"
      by (cases b; simp add: oem_string_def)+
    obtain s' s'' cmd' where w: "android_misc_oem_cmdline_write (fe_misc env) dev gpt cmd1 s = Some (0, cmd', s')"
      "android_misc_oem_cmdline_read (fe_misc env) dev gpt s' = (0, cmd', s'')"
      "oem_cmdline cmd' = oem_cmdline cmd1" "oem_bootconfig cmd' = oem_bootconfig cmd1"
      using misc_partition.oem_cmdline_roundtrip [OF m sz c(1) chk _ _ _ ends, of s] c(2) facts(1-3)
      by (auto simp: same_header_def)
    have "fastboot_cmd_cmdline_del env b arg fb = Some (fastboot_succeed (fb\<lparr>world := s'\<rparr>))"
      using del True w(1) by (simp add: cmdline_write_back_def Let_def)
    moreover have "oem_string x cmd' = oem_string x cmd1" for x using w(3,4) by (simp add: oem_string_def)
    ultimately show ?thesis using okay w(2) c(3,4) by force
  next
    case False
    note same = misc_partition.oem_read_same [OF m sz _ r]
    obtain s2 where "android_misc_oem_cmdline_read (fe_misc env) dev gpt s = (0, cmd, s2)"
      using same(2) [OF same(1) [OF refl]] by blast
    moreover have "oem_string b cmd = kept_params b arg ?us @ ?vs"
      using st kept_params_none [OF False] by (simp add: loop_state_def)
    ultimately show ?thesis using del False okay by force
  qed
qed

section \<open>Commands that may not return\<close>

text \<open>Where a command returns, it has answered and kept the session well-formed.\<close>

definition safe ::
  "('e, 's) fb_env \<Rightarrow> ('s blockdev \<Rightarrow> 's \<Rightarrow> u8 list) \<Rightarrow> nat \<Rightarrow> ('e, 's, 't) FastbootOps \<Rightarrow>
   ('e, 's, 't) FastbootOps option \<Rightarrow> bool" where
  "safe env content k fb r \<longleftrightarrow> r = None \<or> runs env content k fb r"

lemma safe_runs: "runs env content k fb r \<Longrightarrow> safe env content k fb r"
  by (simp add: safe_def)

lemma safe_with_misc:
  fixes fb :: "('e, 's, 't) FastbootOps"
  assumes "fb_env_ok env content k" and "fb_inv env content k fb"
    and f: "\<And>dev gpt fb'. fb_inv env content k fb' \<Longrightarrow> disk_good dev (content dev) \<Longrightarrow>
      gpt_entries_ok (env_vb (fe_misc env)) dev gpt \<Longrightarrow> safe env content k fb' (f dev gpt fb')"
  shows "safe env content k fb (with_misc env f fb)"
proof -
  define g where "g = (\<lambda>dev gpt fb'. case f dev gpt fb' of None \<Rightarrow> Some (fastboot_fail [] fb') | Some r \<Rightarrow> Some r)"
  have "runs env content k fb' (g dev gpt fb')"
    if "fb_inv env content k fb'" "disk_good dev (content dev)" "gpt_entries_ok (env_vb (fe_misc env)) dev gpt"
    for fb' :: "('e, 's, 't) FastbootOps" and dev gpt
    using f [OF that] that(1) unfolding g_def safe_def
    by (cases "f dev gpt fb'") (auto intro!: runsI fb_answers)
  then have "runs env content k fb (with_misc env g fb)"
    by (intro runs_with_misc [OF assms(1,2)]) blast
  moreover have "with_misc env f fb = None \<or> with_misc env f fb = with_misc env g fb"
    by (auto simp: with_misc_def g_def split: prod.splits bind_splits option.splits)
  ultimately show ?thesis by (auto simp: safe_def)
qed

lemma cmdline_get_loop_informs:
  "cmdline_get_loop b m fb = Some fb' \<Longrightarrow> informs fb fb' \<and> only_link fb fb'"
proof (induction b m fb rule: cmdline_get_loop.induct)
  case (1 b m fb)
  show ?case
  proof (cases "m = [] \<or> hd m = 0 \<or> cmd_find_end b 0 m \<ge> length m")
    case True
    then show ?thesis using 1(2)
      by (subst (asm) cmdline_get_loop.simps) (auto simp: only_link_refl Let_def split: list.splits if_splits)
  next
    case False
    then obtain c cs where m: "m = c # cs" "c \<noteq> 0" "\<not> cmd_find_end b 0 m \<ge> length m" by (cases m) auto
    have "cmdline_get_loop b (dropWhile (\<lambda>c. is_android_misc_cmd_separator c b) (drop (cmd_find_end b 0 m + 1) m))
        (fastboot_info (take (cmd_find_end b 0 m) m) fb) = Some fb'"
      using 1(2) m by (subst (asm) cmdline_get_loop.simps) (simp add: Let_def)
    with 1(1) [OF m(1,2) refl m(3)] show ?thesis
      using informs_trans [OF informs_fastboot_info] only_link_trans [OF only_link_messages(3)]
      by blast
  qed
qed

lemma fastboot_cmd_cmdline_get_safe:
  assumes "fb_env_ok env content k" and "fb_inv env content k fb"
  shows "safe env content k fb (fastboot_cmd_cmdline_get env b arg fb)"
  unfolding fastboot_cmd_cmdline_get_def
proof (rule safe_with_misc [OF assms], goal_cases)
  case (1 dev gpt fb1)
  obtain rc cmd s where r: "android_misc_oem_cmdline_read (fe_misc env) dev gpt (world fb1) = (rc, cmd, s)"
    by (metis prod_cases3)
  define m where "m = (if rc \<noteq> 0 then [0, 0] else drop (android_misc_get_oem_cmd cmd b) (oc_data cmd))"
  define fb2 where "fb2 = (if m ! 0 = 0 then fastboot_info (c_bytes ''<empty>'') (fb1\<lparr>world := s\<rparr>) else fb1\<lparr>world := s\<rparr>)"
  have "informs fb1 (fastboot_info (c_bytes ''<empty>'') (fb1\<lparr>world := s\<rparr>))"
    using informs_fastboot_info [of "fb1\<lparr>world := s\<rparr>" "c_bytes ''<empty>''"] by (simp add: informs_def)
  then have 2: "informs fb1 fb2" "fb_inv env content k fb2" using 1(1) by (auto simp: fb2_def)
  have "runs env content k fb1 (Some (fastboot_succeed fb3))" if "cmdline_get_loop b m fb2 = Some fb3" for fb3
    using cmdline_get_loop_informs [OF that] 2 fb_inv_only_link [of fb2 fb3 env content k]
    by (auto intro!: runsI fb_answers intro: informs_trans)
  then show ?case using r
    by (cases "cmdline_get_loop b m fb2") (simp_all add: safe_def m_def fb2_def Let_def)
qed

lemma fastboot_cmd_cmdline_del_safe:
  assumes "fb_env_ok env content k" and "fb_inv env content k fb"
  shows "safe env content k fb (fastboot_cmd_cmdline_del env b arg fb)"
proof (cases "arg = [42]")
  case True
  then have "arg \<noteq> []" by simp
  show ?thesis unfolding fastboot_cmd_cmdline_del_def if_not_P [OF \<open>arg \<noteq> []\<close>]
  proof (rule safe_with_misc [OF assms], goal_cases)
    case (1 dev gpt fb1)
    obtain rc cmd s where r: "android_misc_oem_cmdline_read (fe_misc env) dev gpt (world fb1) = (rc, cmd, s)"
      by (metis prod_cases3)
    show ?case
    proof (cases "rc = 0")
      case True
      have c: "oem_inv cmd" using oem_read_inv(1) [OF r [unfolded True] 1(2,3)] .
      show ?thesis using r True \<open>arg = [42]\<close>
          cmdline_del_loop_star [OF loop_state_start [OF c, of b], of env dev gpt False "fb1\<lparr>world := s\<rparr>"]
        by (simp add: safe_def Let_def)
    next
      case False
      then show ?thesis using r 1(1) by (auto intro!: safe_runs runsI fb_answers)
    qed
  qed
qed (rule safe_runs [OF fastboot_cmd_cmdline_del_runs [OF assms]])

end
