(* ===== verification/Fastboot_Session.thy ===== *)
theory Fastboot_Session
  imports Fastboot_Oem
begin

text \<open>
  A fastboot session as a whole: which command a packet selects from the table of
  \<open>src/fastboot/cmd.c\<close>, what a packet does to a session, and the properties of the sessions.
\<close>

section \<open>The command of a packet\<close>

definition starts :: "string \<Rightarrow> u8 list \<Rightarrow> bool" where
  "starts p d \<longleftrightarrow> take (length p) d = c_bytes p"

text \<open>The argument with which the packet \<open>d\<close> selects a command, if it does.\<close>

definition cmd_arg :: "('e, 's, 't) fastboot_cmd \<Rightarrow> u8 list \<Rightarrow> u8 list option" where
  "cmd_arg c d =
     (let n = length (cmd_name c); args = drop n d
      in if take n d \<noteq> cmd_name c then None
         else if \<not> cmd_has_args c then Some (c_str args)
         else if args = [] \<or> hd args \<noteq> cmd_sep c then None else Some (c_str (tl args)))"

lemma handle_command_Cons:
  "fastboot_handle_command (c # cs) d fb =
     (case cmd_arg c d of Some arg \<Rightarrow> cmd_fn c arg fb | None \<Rightarrow> fastboot_handle_command cs d fb)"
proof (cases "length (cmd_name c) > length d")
  case True
  then have "take (length (cmd_name c)) d \<noteq> cmd_name c" by auto
  then show ?thesis using True by (simp add: cmd_arg_def)
qed (simp add: cmd_arg_def Let_def)

lemma runs_Cons:
  assumes "\<And>arg. cmd_arg c d = Some arg \<Longrightarrow> runs env content k fb (cmd_fn c arg fb)"
    and "cmd_arg c d = None \<Longrightarrow> runs env content k fb (fastboot_handle_command cs d fb)"
  shows "runs env content k fb (fastboot_handle_command (c # cs) d fb)"
  using assms by (cases "cmd_arg c d") (simp_all add: handle_command_Cons del: fastboot_handle_command.simps)

lemma starts_iff: "starts p d \<longleftrightarrow> (\<exists>r. d = c_bytes p @ r)"
proof
  assume "starts p d"
  then have "d = c_bytes p @ drop (length p) d" unfolding starts_def by (metis append_take_drop_id)
  then show "\<exists>r. d = c_bytes p @ r" by blast
qed (auto simp: starts_def c_bytes_def)

lemma cmd_arg_space:
  "cmd_arg (CMD_ARGS name 32 f) d =
     (if starts (name @ '' '') d then Some (c_str (drop (length name + 1) d)) else None)"
proof -
  have "starts (name @ '' '') d \<longleftrightarrow> take (length name) d = c_bytes name \<and>
      drop (length name) d \<noteq> [] \<and> hd (drop (length name) d) = 32"
  proof (cases "length name < length d")
    case True
    then show ?thesis by (auto simp: starts_def c_bytes_def take_Suc_conv_app_nth hd_drop_conv_nth)
  qed (auto simp: starts_def c_bytes_def dest: arg_cong [where f = length])
  then show ?thesis
    by (auto simp: cmd_arg_def CMD_ARGS_def Let_def c_bytes_def drop_Suc tl_drop)
qed

lemma cmd_arg_NO_ARGS:
  "cmd_arg (CMD_NO_ARGS name f) d = (if starts name d then Some (c_str (drop (length name) d)) else None)"
  by (auto simp: cmd_arg_def CMD_NO_ARGS_def c_bytes_def Let_def starts_def)

text \<open>
  The packets that \<open>always_answered\<close> leaves out: the two commands that report the OEM strings, which
  read past the end of a string whose last parameter has an open quote, and the deletion of \<open>*\<close>.
\<close>

definition always_answered :: "u8 list \<Rightarrow> bool" where
  "always_answered d \<longleftrightarrow> (\<forall>p \<in> {''oem cmdline'', ''oem bootconfig''}. starts p d \<longrightarrow>
     starts (p @ '' add '') d \<or> starts (p @ '' set '') d \<or>
     starts (p @ '' del '') d \<and> c_str (drop (length p + 5) d) \<noteq> [42])"

lemma cmd_fn_simps [simp]: "cmd_fn (CMD_ARGS name sep f) = f" "cmd_fn (CMD_NO_ARGS name f) = f"
  by (simp_all add: CMD_ARGS_def CMD_NO_ARGS_def)

lemma starts_same_length:
  assumes "starts (p @ q) d" and "starts (p @ r) d" and "length q = length r"
  shows "c_bytes q = c_bytes r"
proof -
  have "c_bytes p @ c_bytes q = c_bytes p @ c_bytes r"
    using assms by (simp add: starts_def c_bytes_def)
  then show ?thesis by simp
qed

lemma always_answered_del:
  assumes "always_answered d" and "p \<in> {''oem cmdline'', ''oem bootconfig''}"
    and "cmd_arg (CMD_ARGS (p @ '' del'') 32 f) d = Some arg"
  shows "arg \<noteq> [42]"
proof -
  have s: "starts (p @ '' del '') d" "arg = c_str (drop (length p + 5) d)"
    using assms(3) by (auto simp: cmd_arg_space numeral_eq_Suc split: if_splits)
  have ne: "c_bytes '' del '' \<noteq> c_bytes '' add ''" "c_bytes '' del '' \<noteq> c_bytes '' set ''"
    by (simp_all add: c_bytes_def)
  have "starts p d" using s(1) by (auto simp: starts_iff c_bytes_def)
  moreover have no: "\<not> starts (p @ q) d" if "c_bytes '' del '' \<noteq> c_bytes q" "length '' del '' = length q" for q
    using starts_same_length [OF s(1) _ that(2)] that(1) by blast
  have "length '' del '' = length '' add ''" "length '' del '' = length '' set ''" by simp_all
  note no [OF ne(1) this(1)] no [OF ne(2) this(2)]
  moreover note bspec [OF assms(1) [unfolded always_answered_def] assms(2)]
  ultimately show ?thesis using s(2) by metis
qed

lemma always_answered_get:
  assumes "always_answered d" and "p \<in> {''oem cmdline'', ''oem bootconfig''}"
    and "cmd_arg (CMD_ARGS (p @ '' add'') 32 f) d = None" "cmd_arg (CMD_ARGS (p @ '' del'') 32 g) d = None"
    and "cmd_arg (CMD_ARGS (p @ '' set'') 32 h) d = None"
  shows "cmd_arg (CMD_NO_ARGS p l) d = None"
  using assms by (auto simp: cmd_arg_space cmd_arg_NO_ARGS always_answered_def split: if_splits)

lemma commands_run:
  assumes e: "fb_env_ok env content k" and i: "fb_inv env content k fb" "fb_state fb \<noteq> DOWNLOAD"
    and x: "mac_table_ends env" "ufs_ok env" and d: "always_answered d"
  shows "runs env content k fb (fastboot_handle_command (fastboot_cmds env) d fb)"
proof -
  have unknown: "runs env content k fb (fastboot_handle_command [] d fb)"
    using i(1) by (auto intro!: runsI fb_answers)
  note del = always_answered_del [OF d, of "''oem cmdline''", simplified]
    always_answered_del [OF d, of "''oem bootconfig''", simplified]
  note no_get = always_answered_get [OF d, of "''oem cmdline''", simplified]
    always_answered_get [OF d, of "''oem bootconfig''", simplified]
  show ?thesis unfolding fastboot_cmds_def
  proof (intro runs_Cons, goal_cases)
    case (8 arg)
    show ?case unfolding cmd_fn_simps
      by (rule fastboot_cmd_cmdline_del_runs [OF e i(1) del(1) [OF 8(8)]])
  next
    case (10 arg)
    then show ?case by (simp add: no_get(1) [OF 10(7-9)])
  next
    case (12 arg)
    show ?case unfolding cmd_fn_simps
      by (rule fastboot_cmd_cmdline_del_runs [OF e i(1) del(2) [OF 12(12)]])
  next
    case (14 arg)
    then show ?case by (simp add: no_get(2) [OF 14(11-13)])
  qed (simp_all only: cmd_fn_simps unknown fastboot_cmd_continue_runs [OF i(1)] fastboot_cmd_upload_runs [OF i]
      fastboot_cmd_download_runs [OF i(1)] fastboot_cmd_flash_runs [OF e i(1)]
      fastboot_cmd_cmdline_add_runs [OF e i(1)] fastboot_cmd_cmdline_set_runs [OF e i(1)]
      fastboot_cmd_oem_logs_runs [OF i(1)] fastboot_cmd_reboot_runs [OF i(1)]
      fastboot_cmd_oem_read_ufs_descriptor_runs [OF e i x(2)]
      fastboot_cmd_oem_write_ufs_descriptor_runs [OF i] fastboot_cmd_oem_set_successful_runs [OF e i(1)]
      fastboot_cmd_oem_set_priority_runs [OF e i(1)] fastboot_cmd_oem_sha256_runs [OF e i]
      fastboot_cmd_reboot_to_target_runs [OF e i(1)] fastboot_cmd_set_active_runs [OF e i(1)]
      fastboot_cmd_snapshot_update_runs [OF e i(1)] fastboot_cmd_getvar_runs [OF e i(1) x(1)]
      fastboot_erase_runs [OF e i(1)] fastboot_cmd_erase_def)
qed

text \<open>Any packet: if its command returns, the session has been answered and is well-formed.\<close>

lemma safe_Cons:
  assumes "\<And>arg. cmd_arg c d = Some arg \<Longrightarrow> safe env content k fb (cmd_fn c arg fb)"
    and "safe env content k fb (fastboot_handle_command cs d fb)"
  shows "safe env content k fb (fastboot_handle_command (c # cs) d fb)"
  using assms by (cases "cmd_arg c d") (simp_all add: handle_command_Cons del: fastboot_handle_command.simps)

lemma commands_safe:
  assumes e: "fb_env_ok env content k" and i: "fb_inv env content k fb" "fb_state fb \<noteq> DOWNLOAD"
    and x: "mac_table_ends env" "ufs_ok env"
  shows "safe env content k fb (fastboot_handle_command (fastboot_cmds env) d fb)"
proof -
  have unknown: "safe env content k fb (fastboot_handle_command [] d fb)"
    using i(1) by (auto intro!: safe_runs runsI fb_answers)
  show ?thesis unfolding fastboot_cmds_def
    by (intro safe_Cons) (simp_all only: cmd_fn_simps unknown fastboot_cmd_cmdline_get_safe [OF e i(1)]
      fastboot_cmd_cmdline_del_safe [OF e i(1)] safe_runs [OF fastboot_cmd_continue_runs [OF i(1)]]
      safe_runs [OF fastboot_cmd_upload_runs [OF i]] safe_runs [OF fastboot_cmd_download_runs [OF i(1)]]
      safe_runs [OF fastboot_cmd_flash_runs [OF e i(1)]]
      safe_runs [OF fastboot_cmd_cmdline_add_runs [OF e i(1)]]
      safe_runs [OF fastboot_cmd_cmdline_set_runs [OF e i(1)]]
      safe_runs [OF fastboot_cmd_oem_logs_runs [OF i(1)]] safe_runs [OF fastboot_cmd_reboot_runs [OF i(1)]]
      safe_runs [OF fastboot_cmd_oem_read_ufs_descriptor_runs [OF e i x(2)]]
      safe_runs [OF fastboot_cmd_oem_write_ufs_descriptor_runs [OF i]]
      safe_runs [OF fastboot_cmd_oem_set_successful_runs [OF e i(1)]]
      safe_runs [OF fastboot_cmd_oem_set_priority_runs [OF e i(1)]]
      safe_runs [OF fastboot_cmd_oem_sha256_runs [OF e i]]
      safe_runs [OF fastboot_cmd_reboot_to_target_runs [OF e i(1)]]
      safe_runs [OF fastboot_cmd_set_active_runs [OF e i(1)]]
      safe_runs [OF fastboot_cmd_snapshot_update_runs [OF e i(1)]]
      safe_runs [OF fastboot_cmd_getvar_runs [OF e i(1) x(1)]]
      safe_runs [OF fastboot_erase_runs [OF e i(1)]] fastboot_cmd_erase_def)
qed

section \<open>The states of a session\<close>

text \<open>The states that a session gets to by packets, in any order.\<close>

inductive fb_reaches ::
  "('e, 's) fb_env \<Rightarrow> ('e, 's, 't) FastbootOps \<Rightarrow> ('e, 's, 't) FastbootOps \<Rightarrow> bool"
  for env :: "('e, 's) fb_env" and fb0 :: "('e, 's, 't) FastbootOps" where
  fb_start: "fb_reaches env fb0 fb0"
| fb_packet: "fb_reaches env fb0 fb \<Longrightarrow>
    fastboot_handle_packet (fastboot_cmds env) d fb = Some fb' \<Longrightarrow> fb_reaches env fb0 fb'"

lemma handle_download_sends: "\<exists>ps. sends fb ps (fastboot_handle_download d fb)"
proof -
  have "sends fb [message FASTBOOT_RES_FAIL (c_bytes ''Too much data'')]
      ((fastboot_fail (c_bytes ''Too much data'') fb)\<lparr>fb_state := COMMAND\<rparr>)"
    using sends_message [of fb FASTBOOT_RES_FAIL] by (simp add: fastboot_fail_def)
  moreover have "sends fb [message FASTBOOT_RES_OKAY []] (fastboot_succeed (fb\<lparr>kernel_memory := m,
      has_staged_data := True, download_progress := 0, fb_state := COMMAND\<rparr>))" for m
    using sends_message [of "fb\<lparr>kernel_memory := m, has_staged_data := True, download_progress := 0,
      fb_state := COMMAND\<rparr>" FASTBOOT_RES_OKAY "[]"] by (simp add: fastboot_succeed_def)
  moreover have "sends fb [] (fb\<lparr>kernel_memory := m, download_progress := n\<rparr>)" for m n
    by (simp add: sends_def)
  ultimately show ?thesis unfolding fastboot_handle_download_def Let_def by auto
qed

lemma packet_keeps:
  assumes e: "fb_env_ok env content k" "mac_table_ends env" "ufs_ok env"
    and i: "fb_inv env content k fb" and r: "fastboot_handle_packet (fastboot_cmds env) d fb = Some fb'"
  shows "fb_inv env content k fb' \<and> (\<exists>ps. sends fb ps fb')"
proof (cases "fb_state fb")
  case COMMAND
  then have "safe env content k fb (Some fb')"
    using commands_safe [OF e(1) i _ e(2,3), of d] r by (simp add: fastboot_handle_packet_def)
  then show ?thesis by (auto simp: safe_def runs_def answers_def)
next
  case DOWNLOAD
  have "disk_state_ok env content (fb_disk (fastboot_handle_download d fb)) (fb_gpt (fastboot_handle_download d fb))"
    using i by (simp add: fastboot_handle_download_def Let_def fb_inv_def)
  then have "fb_inv env content k (fastboot_handle_download d fb)"
    using handle_download_staging [OF _ DOWNLOAD fb_env_okD(4,5) [OF e(1)]] i by (simp add: fb_inv_def)
  moreover have "\<exists>ps. sends fb ps (fastboot_handle_download d fb)"
    by (rule handle_download_sends)
  ultimately show ?thesis using DOWNLOAD r by (simp add: fastboot_handle_packet_def)
qed (use i r in \<open>auto simp: fastboot_handle_packet_def sends_def intro!: exI [of _ "[]"]\<close>)

lemma packet_returns:
  assumes "fb_env_ok env content k" "mac_table_ends env" "ufs_ok env"
    and "fb_inv env content k fb" and "fb_state fb = COMMAND \<Longrightarrow> always_answered d"
  shows "fastboot_handle_packet (fastboot_cmds env) d fb \<noteq> None"
proof (cases "fb_state fb")
  case COMMAND
  then show ?thesis using commands_run [OF assms(1,4) _ assms(2,3,5)]
    by (auto simp: fastboot_handle_packet_def runs_def)
qed (simp_all add: fastboot_handle_packet_def)

lemma reaches_inv:
  assumes e: "fb_env_ok env content k" "mac_table_ends env" "ufs_ok env"
  shows "fb_reaches env fb0 fb \<Longrightarrow> fb_inv env content k fb0 \<Longrightarrow> fb_inv env content k fb"
  by (induction rule: fb_reaches.induct) (auto dest: packet_keeps [OF e])

section \<open>From the packets to the disk\<close>

lemma handle_packets_append:
  "handle_packets cmds (ds @ es) fb = Option.bind (handle_packets cmds ds fb) (handle_packets cmds es)"
  by (induction ds arbitrary: fb) (auto split: bind_split)

lemma cmd_arg_colon:
  "cmd_arg (CMD_ARGS name 58 f) (c_bytes name @ 58 # arg) = Some (c_str arg)"
  by (simp add: cmd_arg_def CMD_ARGS_def c_bytes_def)

lemma c_str_id: "0 \<notin> set s \<Longrightarrow> c_str s = s"
  by (auto simp: c_str_def takeWhile_eq_all_conv)

text \<open>The commands whose name is not the beginning of another one are found directly.\<close>

lemma table_download:
  assumes "0 \<notin> set arg"
  shows "fastboot_handle_command (fastboot_cmds env) (c_bytes ''download:'' @ arg) fb =
    fastboot_cmd_download env arg fb"
  using assms unfolding fastboot_cmds_def
  by (simp add: CMD_ARGS_def CMD_NO_ARGS_def c_bytes_def c_str_id)

lemma table_flash:
  assumes "0 \<notin> set arg"
  shows "fastboot_handle_command (fastboot_cmds env) (c_bytes ''flash:'' @ arg) fb =
    fastboot_cmd_flash env arg fb"
  using assms unfolding fastboot_cmds_def
  by (simp add: CMD_ARGS_def CMD_NO_ARGS_def c_bytes_def c_str_id)

lemma download_packets:
  assumes i: "fb_env_ok env content k" "fb_inv env content k fb" "fb_state fb = COMMAND"
    and arg: "0 \<notin> set arg" "arg \<noteq> []" "strtoul env arg 16 = (n, length arg)"
    and n: "n = length (concat ds)" "n < 2 ^ 32" "n \<le> FASTBOOT_MAX_DOWNLOAD_SIZE env"
    and ds: "ds \<noteq> []" "[] \<notin> set ds"
  shows "handle_packets (fastboot_cmds env) ((c_bytes ''download:'' @ arg) # ds) fb =
    Some (fastboot_succeed ((fastboot_data n (fastboot_prepare_download n fb))
      \<lparr>kernel_memory := memcpy_at (kernel_memory fb) 0 (concat ds), has_staged_data := True,
       download_progress := 0, fb_state := COMMAND\<rparr>))"
proof -
  let ?fb = "fastboot_data n (fastboot_prepare_download n fb)"
  have p: "memory_buffer_len ?fb = n" "download_progress ?fb = 0" "fb_state ?fb = DOWNLOAD"
    "kernel_memory ?fb = kernel_memory fb" by (simp_all add: fastboot_prepare_download_def)
  have "n \<le> length (kernel_memory fb)"
    using n(3) fb_env_okD(5) [OF i(1)] fb_inv_memory_length [OF i(2)] by simp
  then have "handle_packets (fastboot_cmds env) ds ?fb =
    Some (fastboot_succeed (?fb\<lparr>kernel_memory := memcpy_at (kernel_memory ?fb) (download_progress ?fb) (concat ds),
          has_staged_data := True, download_progress := 0, fb_state := COMMAND\<rparr>))"
    using n ds by (intro handle_packets_download) (simp_all add: fastboot_prepare_download_def)
  moreover have "fastboot_cmd_download env arg fb = Some ?fb"
    using arg n(2,3) by (simp add: fastboot_cmd_download_def)
  ultimately show ?thesis unfolding p(2,4)
    by (simp add: fastboot_handle_packet_def i(3) table_download [OF arg(1)])
qed

lemma sends_then_okay:
  assumes "sends fb ps g"
  shows "sends fb (ps @ [message FASTBOOT_RES_OKAY []]) (fastboot_succeed g)"
  using sends_trans [OF assms] sends_message unfolding fastboot_succeed_def by blast

lemma download_sends:
  "sends fb ([message FASTBOOT_RES_DATA (c_bytes (zero_pad 8 (hexadecimal n)))] @ [message FASTBOOT_RES_OKAY []])
     (fastboot_succeed ((fastboot_data n (fastboot_prepare_download n fb))
      \<lparr>kernel_memory := mem, has_staged_data := True, download_progress := 0, fb_state := COMMAND\<rparr>))"
  by (rule sends_then_okay)
     (use sends_message [of "fastboot_prepare_download n fb"] in
       \<open>simp add: fastboot_data_def fastboot_prepare_download_def\<close>)

lemma download_flash:
  assumes i: "fb_env_ok env content k" "fb_inv env content k fb" "fb_state fb = COMMAND"
    and d: "fb_disk fb = Some dev" "fb_gpt fb = Some gpt"
    and e: "gpt_find_partition (env_vb (fe_misc env)) gpt (hol_string name) = Some e"
    and name: "0 \<notin> set name" "take (length FASTBOOT_RAW_WRITE_ARG) name \<noteq> FASTBOOT_RAW_WRITE_ARG"
    and arg: "0 \<notin> set arg" "arg \<noteq> []" "strtoul env arg 16 = (length (concat ds), length arg)"
    and n: "length (concat ds) < 2 ^ 32" "length (concat ds) \<le> FASTBOOT_MAX_DOWNLOAD_SIZE env"
      "length (concat ds) \<le> GptGetEntrySizeBytes (env_vb (fe_misc env)) e"
    and ds: "ds \<noteq> []" "[] \<notin> set ds"
    and plain: "\<not> is_sparse_image (concat ds @ drop (length (concat ds)) (kernel_memory fb))"
  shows "\<exists>fb'. handle_packets (fastboot_cmds env)
      ((c_bytes ''download:'' @ arg) # ds @ [c_bytes ''flash:'' @ name]) fb = Some fb' \<and>
    content dev (world fb') = memcpy_at (content dev (world fb))
      (starting_lba (env_vb (fe_misc env)) e * bd_block_size dev) (concat ds) \<and>
    link fb' = fold (send_packet fb)
      [message FASTBOOT_RES_DATA (c_bytes (zero_pad 8 (hexadecimal (length (concat ds))))),
       message FASTBOOT_RES_OKAY [], message FASTBOOT_RES_OKAY []] (link fb) \<and>
    fb_state fb' = COMMAND"
proof -
  let ?data = "concat ds" and ?vb = "env_vb (fe_misc env)"
  define fb1 where "fb1 = fastboot_succeed ((fastboot_data (length ?data) (fastboot_prepare_download (length ?data) fb))
      \<lparr>kernel_memory := memcpy_at (kernel_memory fb) 0 ?data, has_staged_data := True,
       download_progress := 0, fb_state := COMMAND\<rparr>)"
  have down: "handle_packets (fastboot_cmds env) ((c_bytes ''download:'' @ arg) # ds) fb = Some fb1"
    unfolding fb1_def by (rule download_packets [OF i arg refl n(1,2) ds])
  have f: "fb_disk fb1 = Some dev" "fb_gpt fb1 = Some gpt" "world fb1 = world fb" "has_staged_data fb1"
    "memory_buffer_len fb1 = length ?data" "kernel_memory fb1 = memcpy_at (kernel_memory fb) 0 ?data"
    "fb_state fb1 = COMMAND"
    using d by (simp_all add: fb1_def fastboot_prepare_download_def)
  have "length ?data \<le> length (kernel_memory fb)"
    using n(2) fb_env_okD(5) [OF i(1)] fb_inv_memory_length [OF i(2)] by simp
  then have b: "fastboot_get_memory_buffer fb1 = ?data"
    "drop (memory_buffer_len fb1) (kernel_memory fb1) = drop (length ?data) (kernel_memory fb)"
    by (simp_all only: f fastboot_get_memory_buffer_def memcpy_at_def) simp_all
  have bd: "block_device dev (content dev)"
    using fb_invD(1) [OF i(2) d(1)] by (simp add: block_device_def)
  have "0 + length ?data \<le> GptGetEntrySizeBytes ?vb e" using n(3) by simp
  from block_device.gpt_write_raw [OF bd fb_invD(6) [OF i(2) d] e this plain, of "world fb"]
  obtain s where w: "gpt_write_partition ?vb dev gpt (hol_string name) 0 ?data
      (drop (length ?data) (kernel_memory fb)) (world fb) = Some (GPT_IO_SUCCESS, s)"
    "content dev s = memcpy_at (content dev (world fb)) (starting_lba ?vb e * bd_block_size dev) ?data"
    by auto
  have "fastboot_cmd_flash env name fb1 = Some (fastboot_succeed (fb1\<lparr>world := s\<rparr>))"
    unfolding fastboot_cmd_flash_def b Let_def
    using name(2) w(1) by (simp add: f fastboot_write_def disk_gpt_init_done [OF f(1,2)])
  then have "handle_packets (fastboot_cmds env) ((c_bytes ''download:'' @ arg) # ds @ [c_bytes ''flash:'' @ name]) fb =
      Some (fastboot_succeed (fb1\<lparr>world := s\<rparr>))"
    using down handle_packets_append [of "fastboot_cmds env" "(c_bytes ''download:'' @ arg) # ds" _ fb]
    by (simp add: fastboot_handle_packet_def f(7) table_flash [OF name(1)])
  moreover have "sends fb ([message FASTBOOT_RES_DATA (c_bytes (zero_pad 8 (hexadecimal (length ?data))))] @
      [message FASTBOOT_RES_OKAY []] @ [message FASTBOOT_RES_OKAY []]) (fastboot_succeed (fb1\<lparr>world := s\<rparr>))"
    unfolding append_assoc [symmetric]
    by (rule sends_then_okay) (simp add: fb1_def download_sends [simplified])
  ultimately show ?thesis using w(2) f(7) by (auto simp: sends_def)
qed

section \<open>Hashing part of a partition\<close>

lemma strsep_colon:
  "58 \<notin> set a \<Longrightarrow> strsep (Some (a @ 58 # rest)) 58 = (Some a, Some rest)"
  "58 \<notin> set a \<Longrightarrow> strsep (Some a) 58 = (Some a, None)"
  "strsep None 58 = (None, None)"
proof -
  assume a: "58 \<notin> set a"
  then have n: "dropWhile (\<lambda>c. c \<noteq> 58) a = []" "takeWhile (\<lambda>c. c \<noteq> 58) a = a"
    by (auto simp: dropWhile_eq_Nil_conv takeWhile_eq_all_conv)
  then have "dropWhile (\<lambda>c. c \<noteq> 58) (a @ 58 # rest) = 58 # rest"
    using a by (subst dropWhile_append2) auto
  moreover have "takeWhile (\<lambda>c. c \<noteq> 58) (a @ 58 # rest) = a"
    using a n(2) by (subst takeWhile_append2) auto
  ultimately show "strsep (Some (a @ 58 # rest)) 58 = (Some a, Some rest)" by (simp add: strsep_def)
  show "strsep (Some a) 58 = (Some a, None)"
    unfolding strsep_def option.case n by simp
qed (simp add: strsep_def)

lemma oem_sha256_part:
  assumes i: "fb_env_ok env content k" "fb_inv env content k fb" "fb_state fb \<noteq> DOWNLOAD"
    and d: "fb_disk fb = Some dev" "fb_gpt fb = Some gpt"
    and e: "gpt_find_partition (env_vb (fe_misc env)) gpt (hol_string name) = Some e"
    and name: "58 \<notin> set name" "take (length FASTBOOT_RAW_WRITE_ARG - 1) name \<noteq>
      take (length FASTBOOT_RAW_WRITE_ARG - 1) FASTBOOT_RAW_WRITE_ARG"
    and o: "58 \<notin> set ostr" "ostr \<noteq> []" "strtoull env ostr 0 = (offset, length ostr)"
    and l: "58 \<notin> set lstr" "lstr \<noteq> []" "strtoull env lstr 0 = (len, length lstr)"
    and le: "0 < len" "offset + len \<le> GptGetEntrySizeBytes (env_vb (fe_misc env)) e"
  shows "\<exists>fb'. fastboot_cmd_oem_sha256 env (name @ 58 # ostr @ 58 # lstr) fb = Some fb' \<and>
    link fb' = fold (send_packet fb)
      [message FASTBOOT_RES_INFO (hex_bytes (sha256 env
         (bslice (starting_lba (env_vb (fe_misc env)) e * bd_block_size dev + offset) len (content dev (world fb))))),
       message FASTBOOT_RES_OKAY []] (link fb) \<and>
    content dev (world fb') = content dev (world fb)"
proof -
  let ?vb = "env_vb (fe_misc env)" and ?bs = "bd_block_size dev"
  let ?L = "GptGetEntrySizeLba ?vb e"
  have cmd: "fastboot_cmd_oem_sha256 env (name @ 58 # ostr @ 58 # lstr) fb =
      sha256_stream env (Some name) offset len fb"
    unfolding fastboot_cmd_oem_sha256_def using name o l
    by (simp add: strsep_colon parse_optional_def disk_gpt_init_done [OF d] Let_def)
  have sz: "GptGetEntrySizeBytes ?vb e = ?L * ?bs"
    using gpt_entry_bounds(2) [OF fb_invD(6) [OF i(2) d] e] .
  have x: "stream_extent ?vb dev gpt (Some (hol_string name)) a n \<longleftrightarrow> a = starting_lba ?vb e \<and> n = ?L" for a n
    using e by (auto simp: stream_extent_def)
  have "offset \<le> ?L * ?bs" "len \<le> ?L * ?bs - offset" using le(2) unfolding sz by linarith+
  then have found: "\<exists>lba n. stream_extent ?vb dev (the (fb_gpt fb)) (map_option hol_string (Some name)) lba n
      \<and> offset \<le> n * ?bs \<and> len \<le> n * ?bs - offset"
    by (simp add: d x)
  show ?thesis
  proof (rule sha256_stream_cases [OF i(1,2) d(1) i(3), of "Some name" offset len])
    show "\<exists>gpt. fb_gpt fb = Some gpt" using d by simp
    fix lba n s mem
    assume a: "stream_extent ?vb dev (the (fb_gpt fb)) (map_option hol_string (Some name)) lba n"
      and r: "sha256_stream env (Some name) offset len fb = Some (fastboot_succeed (fastboot_info (hex_bytes (sha256 env
         (bslice (lba * ?bs + offset) (if len \<noteq> 0 then len else n * ?bs - offset) (content dev (world fb)))))
         ((fastboot_reset_staging fb)\<lparr>world := s, kernel_memory := mem\<rparr>)))"
      and c: "content dev s = content dev (world fb)"
    have lba: "lba = starting_lba ?vb e" using a by (simp add: d x)
    let ?fb = "(fastboot_reset_staging fb)\<lparr>world := s, kernel_memory := mem\<rparr>"
    have "sends fb ([message FASTBOOT_RES_INFO m] @ [message FASTBOOT_RES_OKAY []])
        (fastboot_succeed (fastboot_info m ?fb))" for m
      by (rule sends_then_okay)
         (use sends_message [of ?fb FASTBOOT_RES_INFO m] in \<open>simp add: fastboot_info_def fastboot_reset_staging_def\<close>)
    then show ?thesis using r c le(1) lba by (simp add: sends_def cmd)
  qed (use found in blast)
qed

section \<open>A concrete session\<close>

definition ex_number :: "u8 list \<Rightarrow> nat \<Rightarrow> nat \<times> nat" where
  "ex_number s base = (fold (\<lambda>c n. base * n + (unat c - 48)) s 0, length s)"

text \<open>The disk with the misc partition, a kernel area of 16 bytes, and numbers in digits only.\<close>

definition ex_fb_env :: "(string \<times> nat \<times> nat, u8 list) fb_env" where
  "ex_fb_env =
    \<lparr>CONFIG_KERNEL_SIZE = 16, CONFIG_UIP_TCP_MSS = 1460, CONFIG_DRIVER_STORAGE_UFS = False,
     CONFIG_DRIVER_EC_CROS = False, cbmem_console_snapshot = (\<lambda>s. None), strtoul = ex_number,
     strtoull = (\<lambda>s base. ex_number s 10), strtoll = (\<lambda>s base. (int (fst (ex_number s 10)), length s)),
     strtol = (\<lambda>s base. (int (fst (ex_number s 10)), length s)), fe_misc = ex_misc_env,
     fixed_bdevs = \<lparr>block_devices = (\<lambda>s. [ex_misc_disk]), block_dev_controllers = []\<rparr>,
     AllocAndReadGptData = (\<lambda>s size count. (0, entries ex_misc_gpt)),
     GptInit = (\<lambda>gpt. sector_bytes gpt = 512 \<and> drive_sectors gpt = 256),
     WriteAndFreeGptData = (\<lambda>disk gpt s. (0, s)), IsAndroid = (\<lambda>e. False), IsBootableEntry = (\<lambda>e. False),
     GetEntryPriority = (\<lambda>e. 0), GetEntrySuccessful = (\<lambda>e. False), GetEntryTries = (\<lambda>e. 0),
     SetEntryPriority = (\<lambda>p e. e), SetEntrySuccessful = (\<lambda>p e. e), GptModified = (\<lambda>gpt. gpt),
     GptUpdateKernelWithEntry = (\<lambda>b i gpt. gpt), GPTENTRY_NAME_LEN = 36, sha256 = (\<lambda>d. d),
     ufs_ctlr_present = (\<lambda>s. False), ufs_read_descriptor = (\<lambda>idn idx n s. (None, s)),
     ufs_write_descriptor = (\<lambda>idn idx d s. (True, s)), mb_part_string = [0], active_fw_id = None,
     chromeos_vpd = None, cros_ec_cbi_get_sku_id = (\<lambda>s. Inl 1), cros_ec_cbi_get_oem_id = (\<lambda>s. Inl 1)\<rparr>"

text \<open>A transport that collects what is sent.\<close>

definition ex_fb :: "(string \<times> nat \<times> nat, u8 list, u8 list list) FastbootOps" where
  "ex_fb =
    \<lparr>fb_state = COMMAND, fb_disk = Some ex_misc_disk, fb_gpt = Some ex_misc_gpt, has_staged_data = False,
     memory_buffer_len = 0, download_progress = 0, send_packet = (\<lambda>p l. l @ [p]), fb_reset = None,
     fb_release = None, conn_type = FASTBOOT_TCP_CONN, fb_serial = [],
     fb_logger = \<lparr>fb_log = None, log_is_active = False\<rparr>,
     link = [], world = [], kernel_memory = replicate 16 0\<rparr>"

definition ex_content :: "u8 list blockdev \<Rightarrow> u8 list \<Rightarrow> u8 list" where
  "ex_content dev = mem_content 131072"

lemma ex_disk_good: "disk_good ex_misc_disk (ex_content ex_misc_disk)"
proof -
  have "and (512::nat) 511 = 0" by code_simp
  then show ?thesis using ex_misc_ok
    by (simp add: disk_good_def misc_ok_def ex_content_def ex_misc_disk_def mem_dev_def MiB_def
        new_simple_stream_def fun_eq_iff)
qed

lemma ex_env_ok: "fb_env_ok ex_fb_env ex_content 16"
proof -
  have "gpt_entries_ok (env_vb (fe_misc ex_fb_env)) dev gpt"
    if "alloc_gpt (AllocAndReadGptData ex_fb_env s) (GptInit ex_fb_env) dev = Some gpt"
    for s and dev :: "u8 list blockdev" and gpt
    using that by (auto simp: alloc_gpt_def ex_fb_env_def gpt_entries_ok_def ex_misc_env_def
        ex_misc_vboot_def ex_vboot_def ex_misc_gpt_def Let_def split: if_splits)
  then show ?thesis using ex_disk_good
    by (simp add: fb_env_ok_def ex_fb_env_def FASTBOOT_MAX_DOWNLOAD_SIZE_def)
qed

lemma ex_fb_simps [simp]:
  "fb_state ex_fb = COMMAND" "fb_disk ex_fb = Some ex_misc_disk" "fb_gpt ex_fb = Some ex_misc_gpt"
  "link ex_fb = []" "world ex_fb = []" "kernel_memory ex_fb = replicate 16 0"
  "send_packet ex_fb = (\<lambda>p l. l @ [p])" "fe_misc ex_fb_env = ex_misc_env" "sha256 ex_fb_env = (\<lambda>d. d)"
  "strtoul ex_fb_env = ex_number" "strtoull ex_fb_env = (\<lambda>s base. ex_number s 10)"
  "FASTBOOT_MAX_DOWNLOAD_SIZE ex_fb_env = 16"
  by (simp_all add: ex_fb_def ex_fb_env_def FASTBOOT_MAX_DOWNLOAD_SIZE_def)

lemma ex_mac_ufs: "mac_table_ends ex_fb_env" "ufs_ok ex_fb_env"
  unfolding mac_table_ends_def
  by (rule exI [of _ 0], simp add: vpd_string_def ex_fb_env_def) (simp add: ufs_ok_def ex_fb_env_def)

lemma ex_fb_ok: "fb_inv ex_fb_env ex_content 16 ex_fb"
proof -
  have "gpt_entries_ok (env_vb (fe_misc ex_fb_env)) ex_misc_disk ex_misc_gpt"
    using ex_misc_ok by (simp add: misc_ok_def)
  then show ?thesis using ex_disk_good
    by (simp add: fb_inv_def staging_ok_def disk_state_ok_def) (simp add: ex_fb_def)
qed

section \<open>Properties\<close>

text \<open>
  C2. Every packet gets an answer. In the state that waits for a command, whatever the bytes of the
  packet, the handler returns and sends exactly one complete answer: INFO messages and then one OKAY,
  FAIL or DATA (for an upload DATA, the data and OKAY), each within the 256 bytes of the protocol; and
  the session stays well-formed. This covers unknown commands, malformed arguments, and missing disks
  and partitions. The transfers of a disk that is there are assumed to succeed (\<open>fb_env_ok\<close>), and
  the tables of MAC addresses and UFS descriptors to be well-formed. Left out are the packets that are not
  \<open>always_answered\<close>, which are those that begin with \<open>oem cmdline\<close> or \<open>oem bootconfig\<close> and go on
  with none of \<open>add\<close>, \<open>set\<close> and \<open>del\<close>, that is the reports of the stored strings, which can
  read past the end of a string with an open quote; and \<open>del *\<close>, which sends no answer.
\<close>

theorem fastboot_packet_answered:
  assumes "fb_env_ok env content k" and "mac_table_ends env" and "ufs_ok env"
    and "fb_inv env content k fb" and "fb_state fb = COMMAND" and "always_answered d"
  shows "\<exists>fb' ps. fastboot_handle_packet (fastboot_cmds env) d fb = Some fb' \<and> complete_answer ps \<and>
    link fb' = fold (send_packet fb) ps (link fb) \<and> send_packet fb' = send_packet fb \<and>
    fb_inv env content k fb'"
  using commands_run [OF assms(1,4) _ assms(2,3,6)] assms(5)
  by (auto simp: fastboot_handle_packet_def runs_def answers_def sends_def)

theorem fastboot_packet_answered_witness:
  "\<exists>fb' ps. fastboot_handle_packet (fastboot_cmds ex_fb_env) (c_bytes ''erase:misc'') ex_fb = Some fb' \<and>
    complete_answer ps \<and> link fb' = ps"
proof -
  have "always_answered (c_bytes ''erase:misc'')"
    by (simp add: always_answered_def starts_def c_bytes_def)
  moreover have "fold (\<lambda>p l. l @ [p]) ps l = l @ ps" for ps l :: "u8 list list"
    by (induction ps arbitrary: l) auto
  ultimately show ?thesis
    using fastboot_packet_answered [OF ex_env_ok ex_mac_ufs ex_fb_ok, of "c_bytes ''erase:misc''"] by force
qed

text \<open>
  C7. A session is well-formed in every state it can get to, by any sequence of packets, in
  any of its states: it holds a good disk and a
  GPT whose entries lie on that disk, or none; the staging memory keeps its size and what is staged, and
  what has arrived of a download, stay inside it. In each such state the next packet returns, unless it is one of the packets that
  \<open>always_answered\<close> leaves out: a report of the OEM strings, or their \<open>del *\<close>.
\<close>

theorem fastboot_session_well_formed:
  assumes "fb_env_ok env content k" and "mac_table_ends env" and "ufs_ok env"
    and "fb_inv env content k fb0" and "fb_reaches env fb0 fb"
  shows "fb_inv env content k fb \<and> length (kernel_memory fb) = k \<and>
    memory_buffer_len fb \<le> FASTBOOT_MAX_DOWNLOAD_SIZE env \<and>
    (fb_state fb = DOWNLOAD \<longrightarrow> download_progress fb \<le> memory_buffer_len fb) \<and>
    ((fb_state fb = COMMAND \<longrightarrow> always_answered d) \<longrightarrow>
      fastboot_handle_packet (fastboot_cmds env) d fb \<noteq> None)"
proof -
  have i: "fb_inv env content k fb" by (rule reaches_inv [OF assms(1-3,5,4)])
  then show ?thesis using packet_returns [OF assms(1-3) i, of d] by (auto simp: fb_inv_def staging_ok_def)
qed

theorem fastboot_session_well_formed_witness:
  "fastboot_handle_packet (fastboot_cmds ex_fb_env) (c_bytes ''reboot'') ex_fb \<noteq> None"
proof -
  have "always_answered (c_bytes ''reboot'')" by (simp add: always_answered_def starts_def c_bytes_def)
  then show ?thesis
    using fastboot_session_well_formed [OF ex_env_ok ex_mac_ufs ex_fb_ok fb_start, of "c_bytes ''reboot''"]
    by simp
qed

text \<open>
  C13. From the packets to the disk: a download, in any number of non-empty packets, and the command
  that flashes it to a partition store exactly the downloaded bytes at the start of that partition and
  change no other byte of the disk. The host sees DATA with the size, OKAY for the download and OKAY
  for the write. (The bytes are not a sparse image and fit; the size is at most the maximum and below
  2^32, as the command truncates it to 32 bits.)
\<close>

theorem fastboot_download_flash_stores:
  assumes "fb_env_ok env content k" and "fb_inv env content k fb" and "fb_state fb = COMMAND"
    and "fb_disk fb = Some dev" and "fb_gpt fb = Some gpt"
    and "gpt_find_partition (env_vb (fe_misc env)) gpt (hol_string name) = Some e"
    and "0 \<notin> set name" and "take (length FASTBOOT_RAW_WRITE_ARG) name \<noteq> FASTBOOT_RAW_WRITE_ARG"
    and "0 \<notin> set arg" and "arg \<noteq> []" and "strtoul env arg 16 = (length (concat ds), length arg)"
    and "length (concat ds) < 2 ^ 32" and "length (concat ds) \<le> FASTBOOT_MAX_DOWNLOAD_SIZE env"
    and "length (concat ds) \<le> GptGetEntrySizeBytes (env_vb (fe_misc env)) e"
    and "ds \<noteq> []" and "[] \<notin> set ds"
    and "\<not> is_sparse_image (concat ds @ drop (length (concat ds)) (kernel_memory fb))"
  shows "\<exists>fb'. handle_packets (fastboot_cmds env)
      ((c_bytes ''download:'' @ arg) # ds @ [c_bytes ''flash:'' @ name]) fb = Some fb' \<and>
    content dev (world fb') = memcpy_at (content dev (world fb))
      (starting_lba (env_vb (fe_misc env)) e * bd_block_size dev) (concat ds) \<and>
    link fb' = fold (send_packet fb)
      [message FASTBOOT_RES_DATA (c_bytes (zero_pad 8 (hexadecimal (length (concat ds))))),
       message FASTBOOT_RES_OKAY [], message FASTBOOT_RES_OKAY []] (link fb) \<and>
    fb_state fb' = COMMAND"
  by (rule download_flash [OF assms])

theorem fastboot_download_flash_stores_witness:
  "\<exists>fb'. handle_packets (fastboot_cmds ex_fb_env)
      [c_bytes ''download:3'', [7], [8, 9], c_bytes ''flash:misc''] ex_fb = Some fb' \<and>
    ex_content ex_misc_disk (world fb') = memcpy_at (ex_content ex_misc_disk []) 512 [7, 8, 9]"
proof -
  have n: "hol_string (c_bytes ''misc'') = ''misc''" by code_simp
  have "gpt_find_partition (env_vb (fe_misc ex_fb_env)) ex_misc_gpt (hol_string (c_bytes ''misc'')) =
      Some (''misc'', 1, 200)"
    using ex_misc_ok n by (simp add: misc_ok_def ex_misc_env_def)
  note t = fastboot_download_flash_stores [OF ex_env_ok ex_fb_ok ex_fb_simps(1-3) this, of "c_bytes ''3''" "[[7], [8, 9]]"]
  have "\<not> is_sparse_image ([7, 8, 9] @ drop 3 (replicate 16 0))"
    using sparse_first_byte [of "[7, 8, 9] @ drop 3 (replicate 16 0)"] by auto
  moreover have "starting_lba ex_misc_vboot (''misc'', 1, 200) = 1" "bd_block_size ex_misc_disk = 512"
    "GptGetEntrySizeBytes ex_misc_vboot (''misc'', 1, 200) = 102400"
    by (simp_all add: ex_misc_vboot_def ex_vboot_def ex_misc_disk_def mem_dev_def)
  moreover have "env_vb ex_misc_env = ex_misc_vboot" by (simp add: ex_misc_env_def)
  ultimately show ?thesis using t
    by (auto simp: c_bytes_def FASTBOOT_RAW_WRITE_ARG_def ex_number_def numeral_3_eq_3)
qed

text \<open>
  C19. \<open>oem sha256:<name>:<offset>:<length>\<close> with a length other than 0 (which stands for the rest of the
  partition) reports the hash of exactly those bytes of the partition, in
  two hexadecimal digits for each byte of the digest, and then OKAY, and changes nothing on the disk;
  it reads through the staging memory in chunks, whatever the size of that memory and of the blocks.
\<close>

theorem fastboot_oem_sha256_hashes:
  assumes "fb_env_ok env content k" and "fb_inv env content k fb" and "fb_state fb \<noteq> DOWNLOAD"
    and "fb_disk fb = Some dev" and "fb_gpt fb = Some gpt"
    and "gpt_find_partition (env_vb (fe_misc env)) gpt (hol_string name) = Some e"
    and "58 \<notin> set name" and "take (length FASTBOOT_RAW_WRITE_ARG - 1) name \<noteq>
      take (length FASTBOOT_RAW_WRITE_ARG - 1) FASTBOOT_RAW_WRITE_ARG"
    and "58 \<notin> set ostr" and "ostr \<noteq> []" and "strtoull env ostr 0 = (offset, length ostr)"
    and "58 \<notin> set lstr" and "lstr \<noteq> []" and "strtoull env lstr 0 = (len, length lstr)"
    and "0 < len" and "offset + len \<le> GptGetEntrySizeBytes (env_vb (fe_misc env)) e"
  shows "\<exists>fb'. fastboot_cmd_oem_sha256 env (name @ 58 # ostr @ 58 # lstr) fb = Some fb' \<and>
    link fb' = fold (send_packet fb)
      [message FASTBOOT_RES_INFO (hex_bytes (sha256 env
         (bslice (starting_lba (env_vb (fe_misc env)) e * bd_block_size dev + offset) len (content dev (world fb))))),
       message FASTBOOT_RES_OKAY []] (link fb) \<and>
    content dev (world fb') = content dev (world fb)"
  by (rule oem_sha256_part [OF assms])

theorem fastboot_oem_sha256_hashes_witness:
  "\<exists>fb'. fastboot_cmd_oem_sha256 ex_fb_env (c_bytes ''misc:4:2'') (ex_fb\<lparr>world := replicate 516 0 @ [18, 52]\<rparr>) = Some fb' \<and>
    link fb' = [message FASTBOOT_RES_INFO (c_bytes ''1234''), message FASTBOOT_RES_OKAY []]"
proof -
  have n: "hol_string (c_bytes ''misc'') = ''misc''" by code_simp
  have f: "gpt_find_partition (env_vb (fe_misc ex_fb_env)) ex_misc_gpt (hol_string (c_bytes ''misc'')) =
      Some (''misc'', 1, 200)"
    using ex_misc_ok n by (simp add: misc_ok_def ex_misc_env_def)
  let ?fb = "ex_fb\<lparr>world := replicate 516 0 @ [18, 52]\<rparr>"
  have i: "fb_inv ex_fb_env ex_content 16 ?fb" "fb_disk ?fb = Some ex_misc_disk" "fb_gpt ?fb = Some ex_misc_gpt"
    "fb_state ?fb \<noteq> DOWNLOAD"
    using ex_fb_ok by simp_all
  have h: "hex_bytes [18, 52] = c_bytes ''1234''" by code_simp
  have w: "bslice (512 + 4) 2 (ex_content ex_misc_disk (replicate 516 0 @ [18, 52])) = [18, 52]"
    by (simp add: ex_content_def mem_content_def bslice_def)
  have "starting_lba ex_misc_vboot (''misc'', 1, 200) = 1" "bd_block_size ex_misc_disk = 512"
    "GptGetEntrySizeBytes ex_misc_vboot (''misc'', 1, 200) = 102400" "env_vb ex_misc_env = ex_misc_vboot"
    by (simp_all add: ex_misc_vboot_def ex_vboot_def ex_misc_disk_def mem_dev_def ex_misc_env_def)
  with fastboot_oem_sha256_hashes [OF ex_env_ok i(1,4,2,3) f, of "c_bytes ''4''" 4 "c_bytes ''2''" 2] h w
  show ?thesis by (auto simp: c_bytes_def FASTBOOT_RAW_WRITE_ARG_def ex_number_def)
qed

text \<open>
  C21. \<open>oem cmdline del <pattern>\<close> and \<open>oem bootconfig del <pattern>\<close>: on a misc partition that holds a
  valid structure, the command answers OKAY, and what is read from the disk afterwards is the old string
  (up to a NUL inside it) without exactly those parameters that match the pattern, each with the
  separator behind it; the other string is the same. For the pattern \<open>*\<close> it does not return: when
  nothing is left, the empty parameter still matches and is deleted for ever.
\<close>

theorem fastboot_oem_del_removes_matching:
  assumes "misc_ok (fe_misc env) dev (content dev) gpt garbage e"
    and "MISC_VENDOR_SPACE_OEM_CMDLINE_OFFSET + OEM_CMDLINE_SIZE \<le>
      GptGetEntrySizeBytes (env_vb (fe_misc env)) e"
    and "ipchksum_ok (env_ipchksum (fe_misc env))"
    and "fb_inv env content k fb" and "fb_disk fb = Some dev" and "fb_gpt fb = Some gpt"
    and "android_misc_oem_cmdline_read (fe_misc env) dev gpt (world fb) = (0, cmd, s)"
    and "arg \<noteq> []"
  shows "if arg = c_bytes ''*'' then fastboot_cmd_cmdline_del env b arg fb = None
    else \<exists>fb' cmd' s'. fastboot_cmd_cmdline_del env b arg fb = Some fb' \<and>
      link fb' = send_packet fb (message FASTBOOT_RES_OKAY []) (link fb) \<and>
      android_misc_oem_cmdline_read (fe_misc env) dev gpt (world fb') = (0, cmd', s') \<and>
      oem_string b cmd' =
        concat (filter (\<lambda>p. \<not> is_matching arg (cmd_text b p)) (cmd_params b (c_str (oem_string b cmd)))) @
        drop (length (c_str (oem_string b cmd))) (oem_string b cmd) \<and>
      oem_string (\<not> b) cmd' = oem_string (\<not> b) cmd"
proof (cases "arg = c_bytes ''*''")
  case True
  have "disk_good dev (content dev)" "gpt_entries_ok (env_vb (fe_misc env)) dev gpt"
    using assms(4-6) fb_invD(6) [OF assms(4,5), of gpt] by (simp_all add: fb_inv_def disk_state_ok_def)
  then have "fastboot_cmd_cmdline_del env b [42] fb = None"
    using fastboot_cmd_cmdline_del_star [OF disk_gpt_init_done [OF assms(5,6)] assms(5,6) _ _ assms(7)] by blast
  then show ?thesis using True by (simp add: c_bytes_def)
next
  case False
  then have "arg \<noteq> [42]" by (simp add: c_bytes_def)
  from oem_del_on_disk [OF misc_partition.intro [OF assms(1)] assms(2-8) this, of b] False
  show ?thesis by (auto simp: sends_def kept_params_def)
qed

theorem fastboot_oem_del_removes_matching_witness:
  "\<exists>s fb' cmd' s'. fastboot_cmd_cmdline_del ex_fb_env False (c_bytes ''a*'') (ex_fb\<lparr>world := s\<rparr>) = Some fb' \<and>
    android_misc_oem_cmdline_read ex_misc_env ex_misc_disk ex_misc_gpt (world fb') = (0, cmd', s') \<and>
    oem_cmdline cmd' = []"
proof -
  have sz: "MISC_VENDOR_SPACE_OEM_CMDLINE_OFFSET + OEM_CMDLINE_SIZE
      \<le> GptGetEntrySizeBytes (env_vb (fe_misc ex_fb_env)) (''misc'', 1, 200)"
    by (simp add: ex_misc_env_def ex_misc_vboot_def MISC_VENDOR_SPACE_OEM_CMDLINE_OFFSET_def OEM_CMDLINE_SIZE_def)
  have chk: "ipchksum_ok (env_ipchksum (fe_misc ex_fb_env))"
    using internet_checksum_ok by (simp add: ex_misc_env_def)
  have "ends_ok [97, 32] False" "ends_ok [] True"
    by (simp_all add: ends_ok_def is_android_misc_cmd_separator_def is_space_def)
  then obtain s cmd s1 where r: "android_misc_oem_cmdline_read ex_misc_env ex_misc_disk ex_misc_gpt s = (0, cmd, s1)"
    "oem_cmdline cmd = [97, 32]"
    using exm.oem_cmdline_roundtrip [of ex_oem "[]"] sz chk by (auto simp: ex_oem_facts)
  let ?fb = "ex_fb\<lparr>world := s\<rparr>"
  have m: "misc_ok (fe_misc ex_fb_env) ex_misc_disk (ex_content ex_misc_disk) ex_misc_gpt [] (''misc'', 1, 200)"
    using ex_misc_ok by (simp add: ex_content_def)
  have i: "fb_inv ex_fb_env ex_content 16 ?fb" "fb_disk ?fb = Some ex_misc_disk" "fb_gpt ?fb = Some ex_misc_gpt"
    "android_misc_oem_cmdline_read (fe_misc ex_fb_env) ex_misc_disk ex_misc_gpt (world ?fb) = (0, cmd, s1)"
    using ex_fb_ok r by simp_all
  have str: "oem_string False cmd = [97, 32]" "c_str [97, 32 :: u8] = [97, 32]"
    using r(2) by (simp_all add: oem_string_def c_str_def)
  define kept where
    "kept = concat (filter (\<lambda>p. \<not> is_matching (c_bytes ''a*'') (cmd_text False p)) (cmd_params False [97, 32]))"
  have "kept = []" unfolding kept_def by code_simp
  moreover have "c_bytes ''a*'' \<noteq> c_bytes ''*''" "c_bytes ''a*'' \<noteq> []" by (simp_all add: c_bytes_def)
  moreover note fastboot_oem_del_removes_matching [OF m sz chk i this(2), of False,
      unfolded str, folded kept_def]
  ultimately show ?thesis by (auto simp: oem_string_def)
qed

end
