(* ===== verification/Fastboot_Tcp.thy ===== *)
theory Fastboot_Tcp
  imports Fastboot_Session
begin

text \<open>
  \<open>src/fastboot/tcp.c\<close>: fastboot over TCP. A connection starts with a handshake; after it both
  sides send packets, each behind its length in 8 bytes. The network stack hands over the bytes of a
  TCP segment at a time, so a packet may be spread over several segments. The main theorem is that
  the session then handles the packets that were sent, however the stream was cut into segments.

  The struct \<open>fastboot_tcp_session\<close> contains the \<open>FastbootOps\<close> of the session; what \<open>send_packet\<close>
  reaches from there by \<open>container_of\<close> is the queue \<open>txq\<close>, the \<open>link\<close> of the session. The union
  \<open>state_data\<close> is kept as separate fields: a state sets the fields it uses before it reads them. A
  buffer with its fill count is the list of the bytes collected. The globals of uIP that a callback
  sees (\<open>uip_conn\<close>, \<open>uip_flags\<close>, \<open>uip_appdata\<close>) are a record; \<open>None\<close> is a command that does not
  return or a dereferenced null pointer.
\<close>

section \<open>Model\<close>

datatype fastboot_tcp_state =
  WAIT_FOR_HANDSHAKE | WAIT_FOR_HEADER | WAIT_FOR_COMMAND | WAIT_FOR_COMMAND_SEGMENT | WAIT_FOR_DOWNLOAD

text \<open>uIP: the connection of the event (\<open>None\<close> for UDP) as address and port, the flags, the data
  received, the space for data to send, and what the callback asked to send.\<close>

record uip =
  uip_conn :: "(u32 \<times> u16) option"
  uip_flags :: u8
  uip_appdata :: "u8 list"
  uip_room :: nat
  uip_sent :: "u8 list option"

definition UIP_ACKDATA :: u8 where "UIP_ACKDATA = 1"
definition UIP_NEWDATA :: u8 where "UIP_NEWDATA = 2"
definition UIP_REXMIT :: u8 where "UIP_REXMIT = 4"
definition UIP_CLOSE :: u8 where "UIP_CLOSE = 16"
definition UIP_ABORT :: u8 where "UIP_ABORT = 32"
definition UIP_TIMEDOUT :: u8 where "UIP_TIMEDOUT = 128"

definition uip_flag :: "u8 \<Rightarrow> uip \<Rightarrow> bool" where
  "uip_flag f u \<longleftrightarrow> and (uip_flags u) f \<noteq> 0"

definition uip_close :: "uip \<Rightarrow> uip" where "uip_close u = u\<lparr>uip_flags := UIP_CLOSE\<rparr>"

definition uip_send :: "u8 list \<Rightarrow> uip \<Rightarrow> uip" where
  "uip_send data u =
     (let copylen = min (length data) (uip_room u)
      in if copylen > 0 then u\<lparr>uip_sent := Some (take copylen data)\<rparr> else u)"

record ('e, 's) fastboot_tcp_session =
  fb_session :: "('e, 's, u8 list list) FastbootOps"
  tcp_state :: fastboot_tcp_state
  link_state :: fastboot_transport_state
  header :: "u8 list"
  data_left_to_receive :: nat
  segment_buf :: "u8 list"
  ripaddr :: u32
  rport :: u16
  last_packet :: "u8 list option"

abbreviation txq :: "('e, 's) fastboot_tcp_session \<Rightarrow> u8 list list" where
  "txq tcp \<equiv> link (fb_session tcp)"

definition set_txq :: "u8 list list \<Rightarrow> ('e, 's) fastboot_tcp_session \<Rightarrow> ('e, 's) fastboot_tcp_session" where
  "set_txq q tcp = tcp\<lparr>fb_session := (fb_session tcp)\<lparr>link := q\<rparr>\<rparr>"

text \<open>Big-endian bytes: \<open>htobe64\<close> and \<open>be64dec\<close>.\<close>

fun be_bytes :: "nat \<Rightarrow> nat \<Rightarrow> u8 list" where
  "be_bytes 0 n = []"
| "be_bytes (Suc k) n = be_bytes k (n div 256) @ [word_of_nat n]"

definition be64dec :: "u8 list \<Rightarrow> nat" where
  "be64dec bs = foldl (\<lambda>a b. a * 256 + unat b) 0 (take 8 bs)"

definition fastboot_tcp_txq_append ::
  "u8 list \<Rightarrow> ('e, 's) fastboot_tcp_session \<Rightarrow> ('e, 's) fastboot_tcp_session" where
  "fastboot_tcp_txq_append p tcp = set_txq (txq tcp @ [p]) tcp"

definition fastboot_tcp_send_packet ::
  "uip \<Rightarrow> ('e, 's) fastboot_tcp_session \<Rightarrow> uip \<times> ('e, 's) fastboot_tcp_session" where
  "fastboot_tcp_send_packet u tcp =
     (if last_packet tcp \<noteq> None \<or> txq tcp = [] \<or> tcp_state tcp = WAIT_FOR_HANDSHAKE then (u, tcp)
      else let p = hd (txq tcp);
               tcp = (set_txq (tl (txq tcp)) tcp)\<lparr>last_packet := Some p\<rparr>
           in (uip_send p u, tcp))"

definition fastboot_tcp_is_valid_conn :: "uip \<Rightarrow> ('e, 's) fastboot_tcp_session \<Rightarrow> bool" where
  "fastboot_tcp_is_valid_conn u tcp \<longleftrightarrow>
     tcp_state tcp = WAIT_FOR_HANDSHAKE \<or> uip_conn u = Some (ripaddr tcp, rport tcp)"

text \<open>\<open>send_packet\<close> of the session: the size, then the data, to the end of the queue.\<close>

definition fastboot_tcp_send :: "u8 list \<Rightarrow> u8 list list \<Rightarrow> u8 list list" where
  "fastboot_tcp_send data q = q @ [be_bytes 8 (length data) @ data]"

fun fastboot_tcp_enter_state ::
  "fastboot_tcp_state \<Rightarrow> ('e, 's) fastboot_tcp_session \<Rightarrow> ('e, 's) fastboot_tcp_session" where
  "fastboot_tcp_enter_state WAIT_FOR_HANDSHAKE tcp =
     (set_txq [] tcp)\<lparr>last_packet := None, tcp_state := WAIT_FOR_HANDSHAKE\<rparr>"
| "fastboot_tcp_enter_state WAIT_FOR_HEADER tcp = tcp\<lparr>header := [], tcp_state := WAIT_FOR_HEADER\<rparr>"
| "fastboot_tcp_enter_state WAIT_FOR_COMMAND_SEGMENT tcp =
     tcp\<lparr>segment_buf := [], tcp_state := WAIT_FOR_COMMAND_SEGMENT\<rparr>"
| "fastboot_tcp_enter_state WAIT_FOR_COMMAND tcp = tcp\<lparr>tcp_state := WAIT_FOR_COMMAND\<rparr>"
| "fastboot_tcp_enter_state WAIT_FOR_DOWNLOAD tcp = tcp\<lparr>tcp_state := WAIT_FOR_DOWNLOAD\<rparr>"

definition fastboot_tcp_reset :: "('e, 's) fastboot_tcp_session \<Rightarrow> ('e, 's) fastboot_tcp_session" where
  "fastboot_tcp_reset tcp = fastboot_tcp_enter_state WAIT_FOR_HANDSHAKE tcp"

text \<open>\<open>fastboot_reset_session\<close> of \<open>fastboot.c\<close> with \<open>fastboot_tcp_reset\<close> as the \<open>reset\<close> of the session.\<close>

definition tcp_reset_session :: "('e, 's) fastboot_tcp_session \<Rightarrow> ('e, 's) fastboot_tcp_session" where
  "tcp_reset_session tcp =
     fastboot_tcp_reset (tcp\<lparr>fb_session := (fb_session tcp)\<lparr>fb_state := COMMAND, download_progress := 0\<rparr>\<rparr>)"

definition handshake :: "u8 list" where "handshake = c_bytes ''FB01''"

text \<open>The functions below return the number of bytes consumed.\<close>

definition fastboot_tcp_handshake ::
  "u8 list \<Rightarrow> uip \<Rightarrow> ('e, 's) fastboot_tcp_session \<Rightarrow> nat \<times> uip \<times> ('e, 's) fastboot_tcp_session" where
  "fastboot_tcp_handshake buf u tcp =
     (if length buf < length handshake then (0, uip_close u, tcp)
      else if take (length handshake) buf \<noteq> handshake then (0, uip_close u, tcp)
      else let tcp = fastboot_tcp_txq_append handshake tcp;
               (addr, port) = the (uip_conn u);
               tcp = tcp\<lparr>ripaddr := addr, rport := port\<rparr>
           in (length handshake, u, fastboot_tcp_enter_state WAIT_FOR_HEADER tcp))"

definition fastboot_tcp_recv_header ::
  "u8 list \<Rightarrow> ('e, 's) fastboot_tcp_session \<Rightarrow> nat \<times> ('e, 's) fastboot_tcp_session" where
  "fastboot_tcp_recv_header buf tcp =
     (let bytes_to_collect = min (length buf) (8 - length (header tcp));
          tcp = tcp\<lparr>header := header tcp @ take bytes_to_collect buf\<rparr>
      in if length (header tcp) = 8
         then let tcp = tcp\<lparr>data_left_to_receive := be64dec (header tcp)\<rparr>
              in (bytes_to_collect,
                  fastboot_tcp_enter_state
                    (if fb_state (fb_session tcp) = DOWNLOAD then WAIT_FOR_DOWNLOAD else WAIT_FOR_COMMAND) tcp)
         else (bytes_to_collect, tcp))"

definition fb_handle ::
  "('e, 's, u8 list list) fastboot_cmd list \<Rightarrow> u8 list \<Rightarrow> ('e, 's) fastboot_tcp_session \<Rightarrow>
   ('e, 's) fastboot_tcp_session option" where
  "fb_handle cmds p tcp =
     map_option (\<lambda>fb. tcp\<lparr>fb_session := fb\<rparr>) (fastboot_handle_packet cmds p (fb_session tcp))"

definition fastboot_tcp_recv_command ::
  "('e, 's, u8 list list) fastboot_cmd list \<Rightarrow> u8 list \<Rightarrow> uip \<Rightarrow> ('e, 's) fastboot_tcp_session \<Rightarrow>
   (nat \<times> uip \<times> ('e, 's) fastboot_tcp_session) option" where
  "fastboot_tcp_recv_command cmds buf u tcp =
     (if length buf \<ge> data_left_to_receive tcp
      then let packet_len = data_left_to_receive tcp
           in map_option (\<lambda>tcp. (packet_len, u, fastboot_tcp_enter_state WAIT_FOR_HEADER tcp))
                (fb_handle cmds (take packet_len buf) tcp)
      else if data_left_to_receive tcp \<le> FASTBOOT_MSG_MAX
      then Some (0, u, fastboot_tcp_enter_state WAIT_FOR_COMMAND_SEGMENT tcp)
      else Some (0, uip_close u, tcp_reset_session tcp))"

definition fastboot_tcp_recv_segment ::
  "('e, 's, u8 list list) fastboot_cmd list \<Rightarrow> u8 list \<Rightarrow> ('e, 's) fastboot_tcp_session \<Rightarrow>
   (nat \<times> ('e, 's) fastboot_tcp_session) option" where
  "fastboot_tcp_recv_segment cmds buf tcp =
     (let bytes_consumed = min (data_left_to_receive tcp) (length buf);
          tcp = tcp\<lparr>segment_buf := segment_buf tcp @ take bytes_consumed buf,
                    data_left_to_receive := data_left_to_receive tcp - bytes_consumed\<rparr>
      in if data_left_to_receive tcp = 0
         then map_option (\<lambda>tcp. (bytes_consumed, fastboot_tcp_enter_state WAIT_FOR_HEADER tcp))
                (fb_handle cmds (segment_buf tcp) tcp)
         else Some (bytes_consumed, tcp))"

definition fastboot_tcp_recv_download ::
  "('e, 's, u8 list list) fastboot_cmd list \<Rightarrow> u8 list \<Rightarrow> ('e, 's) fastboot_tcp_session \<Rightarrow>
   (nat \<times> ('e, 's) fastboot_tcp_session) option" where
  "fastboot_tcp_recv_download cmds buf tcp =
     (let bytes_consumed = min (data_left_to_receive tcp) (length buf);
          tcp = tcp\<lparr>data_left_to_receive := data_left_to_receive tcp - bytes_consumed\<rparr>
      in map_option (\<lambda>tcp. (bytes_consumed,
             if data_left_to_receive tcp = 0 then fastboot_tcp_enter_state WAIT_FOR_HEADER tcp else tcp))
           (fb_handle cmds (take bytes_consumed buf) tcp))"

text \<open>The \<open>switch\<close> in the loop of \<open>fastboot_tcp_recv\<close>, and the loop.\<close>

definition recv_step ::
  "('e, 's, u8 list list) fastboot_cmd list \<Rightarrow> u8 list \<Rightarrow> uip \<Rightarrow> ('e, 's) fastboot_tcp_session \<Rightarrow>
   (nat \<times> uip \<times> ('e, 's) fastboot_tcp_session) option" where
  "recv_step cmds buf u tcp =
     (case tcp_state tcp of
        WAIT_FOR_HANDSHAKE \<Rightarrow> Some (fastboot_tcp_handshake buf u tcp)
      | WAIT_FOR_HEADER \<Rightarrow> (case fastboot_tcp_recv_header buf tcp of (n, tcp) \<Rightarrow> Some (n, u, tcp))
      | WAIT_FOR_COMMAND \<Rightarrow> fastboot_tcp_recv_command cmds buf u tcp
      | WAIT_FOR_COMMAND_SEGMENT \<Rightarrow>
          map_option (\<lambda>(n, tcp). (n, u, tcp)) (fastboot_tcp_recv_segment cmds buf tcp)
      | WAIT_FOR_DOWNLOAD \<Rightarrow>
          map_option (\<lambda>(n, tcp). (n, u, tcp)) (fastboot_tcp_recv_download cmds buf tcp))"

partial_function (option) fastboot_tcp_recv ::
  "('e, 's, u8 list list) fastboot_cmd list \<Rightarrow> u8 list \<Rightarrow> uip \<Rightarrow> ('e, 's) fastboot_tcp_session \<Rightarrow>
   (uip \<times> ('e, 's) fastboot_tcp_session) option" where
  "fastboot_tcp_recv cmds buf u tcp =
     (if buf = [] \<or> uip_flag UIP_CLOSE u then Some (u, tcp)
      else Option.bind (recv_step cmds buf u tcp)
             (\<lambda>(consumed, u, tcp). fastboot_tcp_recv cmds (drop consumed buf) u tcp))"

definition fastboot_tcp_handle_session ::
  "('e, 's, u8 list list) fastboot_cmd list \<Rightarrow> uip \<Rightarrow> ('e, 's) fastboot_tcp_session \<Rightarrow>
   (fastboot_transport_state \<times> uip \<times> ('e, 's) fastboot_tcp_session) option" where
  "fastboot_tcp_handle_session cmds u tcp =
     (if uip_conn u = None then Some (FASTBOOT_TRANSPORT_IDLE, u, tcp)
      else if \<not> fastboot_tcp_is_valid_conn u tcp then Some (FASTBOOT_TRANSPORT_IDLE, uip_close u, tcp)
      else if uip_flag UIP_REXMIT u
      then (case last_packet tcp of
              None \<Rightarrow> None
            | Some p \<Rightarrow> Some (FASTBOOT_TRANSPORT_IDLE, uip_send p u, tcp))
      else if uip_flag UIP_CLOSE u \<or> uip_flag UIP_ABORT u \<or> uip_flag UIP_TIMEDOUT u
      then Some (FASTBOOT_TRANSPORT_IDLE, u, tcp_reset_session tcp)
      else if uip_flag UIP_ACKDATA u \<and> last_packet tcp = None then None
      else let tcp = (if uip_flag UIP_ACKDATA u then tcp\<lparr>last_packet := None\<rparr> else tcp)
           in if uip_flag UIP_NEWDATA u
              then Option.bind (fastboot_tcp_recv cmds (uip_appdata u) u tcp) (\<lambda>(u, tcp).
                     case fastboot_tcp_send_packet u tcp of
                       (u, tcp) \<Rightarrow> Some (FASTBOOT_TRANSPORT_RX_IN_PROGRESS, u, tcp))
              else (case fastboot_tcp_send_packet u tcp of
                      (u, tcp) \<Rightarrow> Some (FASTBOOT_TRANSPORT_IDLE, u, tcp)))"

definition fastboot_tcp_net_callback ::
  "('e, 's, u8 list list) fastboot_cmd list \<Rightarrow> uip \<Rightarrow> ('e, 's) fastboot_tcp_session \<Rightarrow>
   (uip \<times> ('e, 's) fastboot_tcp_session) option" where
  "fastboot_tcp_net_callback cmds u tcp =
     map_option (\<lambda>(st, u, tcp). (u, tcp\<lparr>link_state := st\<rparr>)) (fastboot_tcp_handle_session cmds u tcp)"

text \<open>
  \<open>fastboot_tcp_poll\<close>: during \<open>net_poll\<close> uIP runs the callback for some events, with one result of
  \<open>net_poll\<close>. The model takes both as arguments and also returns what each callback asked to send.
\<close>

datatype net_poll_status = NET_POLL_NO_DEV | NET_POLL_RX_ERR | NET_POLL_NO_RX | NET_POLL_RX

fun net_events ::
  "('e, 's, u8 list list) fastboot_cmd list \<Rightarrow> uip list \<Rightarrow> ('e, 's) fastboot_tcp_session \<Rightarrow>
   (uip list \<times> ('e, 's) fastboot_tcp_session) option" where
  "net_events cmds [] tcp = Some ([], tcp)"
| "net_events cmds (u # us) tcp =
     Option.bind (fastboot_tcp_net_callback cmds u tcp) (\<lambda>(u', tcp).
       map_option (\<lambda>(us', tcp). (u' # us', tcp)) (net_events cmds us tcp))"

definition fastboot_tcp_poll ::
  "('e, 's, u8 list list) fastboot_cmd list \<Rightarrow> uip list \<Rightarrow> net_poll_status \<Rightarrow> ('e, 's) fastboot_tcp_session \<Rightarrow>
   (fastboot_transport_state \<times> uip list \<times> ('e, 's) fastboot_tcp_session) option" where
  "fastboot_tcp_poll cmds us net_poll tcp =
     Option.bind (net_events cmds us (tcp\<lparr>link_state := FASTBOOT_TRANSPORT_IDLE\<rparr>)) (\<lambda>(us', tcp).
       let tcp = (case net_poll of
                    NET_POLL_NO_DEV \<Rightarrow> tcp\<lparr>fb_session := (fb_session tcp)\<lparr>fb_state := DISCONNECTED\<rparr>\<rparr>
                  | NET_POLL_RX \<Rightarrow> tcp\<lparr>link_state := FASTBOOT_TRANSPORT_RX_IN_PROGRESS\<rparr>
                  | _ \<Rightarrow> tcp);
           tcp = (if txq tcp \<noteq> [] then tcp\<lparr>link_state := FASTBOOT_TRANSPORT_TX_IN_PROGRESS\<rparr> else tcp)
       in Some (link_state tcp, us', tcp))"

text \<open>
  \<open>fastboot_setup_tcp\<close>: the link, DHCP and the address it gave (the four numbers of the quad) are
  answers of the environment.
\<close>

definition fastboot_tcp_setup_serial_string ::
  "nat list \<Rightarrow> ('e, 's, 't) FastbootOps \<Rightarrow> ('e, 's, 't) FastbootOps" where
  "fastboot_tcp_setup_serial_string ip fb =
     fb\<lparr>fb_serial := c_bytes (''IP: '' @ decimal (ip ! 0) @ ''.'' @ decimal (ip ! 1) @ ''.'' @
                               decimal (ip ! 2) @ ''.'' @ decimal (ip ! 3))\<rparr>"

definition fastboot_setup_tcp ::
  "bool \<Rightarrow> bool \<Rightarrow> nat list \<Rightarrow> ('e, 's) fastboot_tcp_session \<Rightarrow> ('e, 's) fastboot_tcp_session option" where
  "fastboot_setup_tcp net_wait_for_link dhcp_request uip_hostaddr tcp_session =
     (if net_wait_for_link then None
      else if dhcp_request then None
      else Some (tcp_session\<lparr>fb_session :=
             fastboot_tcp_setup_serial_string uip_hostaddr (fb_session tcp_session)\<rparr>))"

section \<open>The stream of packets\<close>

text \<open>Big-endian numbers of eight bytes.\<close>

lemma length_be_bytes [simp]: "length (be_bytes k n) = k"
  by (induction k n rule: be_bytes.induct) simp_all

lemma be_bytes_dec: "foldl (\<lambda>a b. a * 256 + unat b) 0 (be_bytes k n) = n mod 256 ^ k"
proof (induction k n rule: be_bytes.induct)
  case (2 k n)
  have "n mod 256 ^ Suc k = 256 * (n div 256 mod 256 ^ k) + n mod 256"
    by (simp add: mod_mult2_eq)
  with 2 show ?case by (simp add: unat_of_nat mult.commute)
qed simp

lemma be64dec_be_bytes: "n < 2 ^ 64 \<Longrightarrow> be64dec (be_bytes 8 n) = n"
  by (simp add: be64dec_def be_bytes_dec)

text \<open>
  A packet on the wire, and the packets that the transport passes on whatever the segments are:
  a command that fits the segment buffer, or data for a download that is not more than is left. The
  session must return from each of them.
\<close>

definition frame :: "u8 list \<Rightarrow> u8 list" where
  "frame p = be_bytes 8 (length p) @ p"

definition room_for :: "nat \<Rightarrow> ('e, 's, 't) FastbootOps \<Rightarrow> bool" where
  "room_for n fb \<longleftrightarrow> download_progress fb + n \<le> memory_buffer_len fb \<and>
     memory_buffer_len fb < 2 ^ 64 \<and> memory_buffer_len fb \<le> length (kernel_memory fb)"

fun packets_ok ::
  "('e, 's, 't) fastboot_cmd list \<Rightarrow> u8 list list \<Rightarrow> ('e, 's, 't) FastbootOps \<Rightarrow> bool" where
  "packets_ok cmds [] fb \<longleftrightarrow> True"
| "packets_ok cmds (p # ps) fb \<longleftrightarrow> p \<noteq> [] \<and>
     (if fb_state fb = DOWNLOAD then room_for (length p) fb else length p \<le> FASTBOOT_MSG_MAX) \<and>
     (case fastboot_handle_packet cmds p fb of None \<Rightarrow> False | Some fb' \<Rightarrow> packets_ok cmds ps fb')"

lemma packets_ok_length: "packets_ok cmds (p # ps) fb \<Longrightarrow> length p < 2 ^ 64"
  by (auto simp: room_for_def FASTBOOT_MSG_MAX_def split: if_splits)

lemma packets_ok_handled: "packets_ok cmds ps fb \<Longrightarrow> \<exists>fb'. handle_packets cmds ps fb = Some fb'"
  by (induction ps arbitrary: fb) (auto split: option.splits)

lemma length_frame [simp]: "length (frame p) = 8 + length p"
  by (simp add: frame_def)

text \<open>The data of a download may be split: the parts have the effect of the whole.\<close>

lemma download_split:
  assumes "fb_state fb = DOWNLOAD" and "room_for (length (p @ q)) fb" and "p \<noteq> []" and "q \<noteq> []"
  obtains fb1 where "fastboot_handle_packet cmds p fb = Some fb1" and "fb_state fb1 = DOWNLOAD"
    and "room_for (length q) fb1"
    and "fastboot_handle_packet cmds (p @ q) fb = fastboot_handle_packet cmds q fb1"
proof -
  let ?fb1 = "fb\<lparr>kernel_memory := memcpy_at (kernel_memory fb) (download_progress fb) p,
             download_progress := download_progress fb + length p\<rparr>"
  have m: "download_progress fb + length p + length q \<le> memory_buffer_len fb"
    "memory_buffer_len fb < 2 ^ 64" "memory_buffer_len fb \<le> length (kernel_memory fb)"
    using assms(2) by (simp_all add: room_for_def)
  have q: "0 < length q" using assms(4) by simp
  have 1: "fastboot_handle_packet cmds p fb = Some ?fb1"
  proof (rule download_step)
    show "download_progress fb + length p < memory_buffer_len fb" using m(1) q by linarith
  qed (use m assms(1) in simp_all)
  have 2: "room_for (length q) ?fb1" using m by (simp add: room_for_def length_memcpy_at)
  have a: "memcpy_at (kernel_memory fb) (download_progress fb) (p @ q) =
      memcpy_at (memcpy_at (kernel_memory fb) (download_progress fb) p) (download_progress fb + length p) q"
    using m by (simp add: memcpy_at_append)
  have 3: "fastboot_handle_packet cmds (p @ q) fb = fastboot_handle_packet cmds q ?fb1"
  proof (cases "download_progress fb + length p + length q = memory_buffer_len fb")
    case True
    then show ?thesis using m assms(1) by (simp add: download_last a)
  next
    case False
    with m have "download_progress fb + length p + length q < memory_buffer_len fb" by simp
    then show ?thesis using m assms(1) by (simp add: download_step a add.assoc)
  qed
  show thesis by (rule that [OF 1 _ 2 3]) (simp add: assms(1))
qed

text \<open>
  \<open>awaits cmds fb' tcp rest\<close>: once the bytes \<open>rest\<close> have come, the session has handled whole
  packets only and is \<open>fb'\<close>.
\<close>

definition awaits ::
  "('e, 's, u8 list list) fastboot_cmd list \<Rightarrow> ('e, 's, u8 list list) FastbootOps \<Rightarrow>
   ('e, 's) fastboot_tcp_session \<Rightarrow> u8 list \<Rightarrow> bool" where
  "awaits cmds fb' tcp rest \<longleftrightarrow>
     (case tcp_state tcp of
        WAIT_FOR_HANDSHAKE \<Rightarrow> False
      | WAIT_FOR_HEADER \<Rightarrow>
          \<exists>ps. length (header tcp) < 8 \<and> header tcp @ rest = concat (map frame ps) \<and>
            packets_ok cmds ps (fb_session tcp) \<and> handle_packets cmds ps (fb_session tcp) = Some fb'
      | WAIT_FOR_COMMAND \<Rightarrow>
          \<exists>p ps. fb_state (fb_session tcp) \<noteq> DOWNLOAD \<and> rest = p @ concat (map frame ps) \<and>
            data_left_to_receive tcp = length p \<and> packets_ok cmds (p # ps) (fb_session tcp) \<and>
            handle_packets cmds (p # ps) (fb_session tcp) = Some fb'
      | WAIT_FOR_COMMAND_SEGMENT \<Rightarrow>
          \<exists>p ps. fb_state (fb_session tcp) \<noteq> DOWNLOAD \<and>
            segment_buf tcp @ rest = p @ concat (map frame ps) \<and> 0 < data_left_to_receive tcp \<and>
            length (segment_buf tcp) + data_left_to_receive tcp = length p \<and>
            packets_ok cmds (p # ps) (fb_session tcp) \<and>
            handle_packets cmds (p # ps) (fb_session tcp) = Some fb'
      | WAIT_FOR_DOWNLOAD \<Rightarrow>
          \<exists>p ps. fb_state (fb_session tcp) = DOWNLOAD \<and> rest = p @ concat (map frame ps) \<and>
            data_left_to_receive tcp = length p \<and> packets_ok cmds (p # ps) (fb_session tcp) \<and>
            handle_packets cmds (p # ps) (fb_session tcp) = Some fb')"

definition step_ok ::
  "('e, 's, u8 list list) fastboot_cmd list \<Rightarrow> ('e, 's, u8 list list) FastbootOps \<Rightarrow> u8 list \<Rightarrow>
   u8 list \<Rightarrow> uip \<Rightarrow> ('e, 's) fastboot_tcp_session \<Rightarrow> bool" where
  "step_ok cmds fb' buf rest u tcp \<longleftrightarrow>
     (\<exists>n tcp'. recv_step cmds buf u tcp = Some (n, u, tcp') \<and> awaits cmds fb' tcp' (drop n buf @ rest) \<and>
        (0 < n \<or> tcp_state tcp = WAIT_FOR_COMMAND \<and> tcp_state tcp' = WAIT_FOR_COMMAND_SEGMENT))"

lemma step_header:
  assumes "awaits cmds fb' tcp (buf @ rest)" and "tcp_state tcp = WAIT_FOR_HEADER" and "buf \<noteq> []"
  shows "step_ok cmds fb' buf rest u tcp"
proof -
  from assms(1,2) obtain ps where h: "length (header tcp) < 8"
    and s: "header tcp @ buf @ rest = concat (map frame ps)"
    and ok: "packets_ok cmds ps (fb_session tcp)" "handle_packets cmds ps (fb_session tcp) = Some fb'"
    by (auto simp: awaits_def)
  let ?n = "min (length buf) (8 - length (header tcp))"
  have n: "0 < ?n" using h assms(3) by simp
  show ?thesis
  proof (cases "length (header tcp) + length buf < 8")
    case True
    then have "recv_step cmds buf u tcp = Some (?n, u, tcp\<lparr>header := header tcp @ buf\<rparr>)"
      using assms(2) by (simp add: recv_step_def fastboot_tcp_recv_header_def)
    moreover have "awaits cmds fb' (tcp\<lparr>header := header tcp @ buf\<rparr>) (drop ?n buf @ rest)"
      using True assms(2) s ok by (auto simp: awaits_def)
    ultimately show ?thesis using n unfolding step_ok_def by blast
  next
    case False
    obtain p qs where ps: "ps = p # qs" using s assms(3) by (cases ps) auto
    let ?hd = "header tcp @ take (8 - length (header tcp)) buf"
    have l: "length ?hd = 8" using h False by simp
    have "?hd @ (drop (8 - length (header tcp)) buf @ rest) =
        header tcp @ (take (8 - length (header tcp)) buf @ drop (8 - length (header tcp)) buf) @ rest"
      by (simp only: append_assoc)
    also have "\<dots> = be_bytes 8 (length p) @ (p @ concat (map frame qs))"
      unfolding append_take_drop_id s by (simp add: ps frame_def)
    finally have "?hd @ (drop (8 - length (header tcp)) buf @ rest) =
        be_bytes 8 (length p) @ (p @ concat (map frame qs))" .
    then have hd: "?hd = be_bytes 8 (length p)"
      and tl: "drop (8 - length (header tcp)) buf @ rest = p @ concat (map frame qs)"
      using l by (metis append_eq_append_conv length_be_bytes)+
    have d: "be64dec ?hd = length p"
      unfolding hd by (rule be64dec_be_bytes [OF packets_ok_length [OF ok(1) [unfolded ps]]])
    let ?t = "tcp\<lparr>header := ?hd, data_left_to_receive := length p,
       tcp_state := if fb_state (fb_session tcp) = DOWNLOAD then WAIT_FOR_DOWNLOAD else WAIT_FOR_COMMAND\<rparr>"
    have "?n = 8 - length (header tcp)" using False by simp
    then have "recv_step cmds buf u tcp = Some (?n, u, ?t)"
      using assms(2) l d by (simp add: recv_step_def fastboot_tcp_recv_header_def Let_def)
    moreover have "awaits cmds fb' ?t (drop ?n buf @ rest)"
      using ok tl False unfolding awaits_def ps by (auto intro!: exI [of _ p] exI [of _ qs])
    ultimately show ?thesis using n unfolding step_ok_def by blast
  qed
qed

lemma fb_handle_ok:
  assumes "packets_ok cmds (p # ps) (fb_session tcp)"
    and "handle_packets cmds (p # ps) (fb_session tcp) = Some fb'"
  obtains fb1 where "fb_handle cmds p tcp = Some (tcp\<lparr>fb_session := fb1\<rparr>)"
    and "packets_ok cmds ps fb1" and "handle_packets cmds ps fb1 = Some fb'"
  using assms by (auto simp: fb_handle_def split: option.splits)

lemma awaits_header:
  "packets_ok cmds ps (fb_session tcp) \<Longrightarrow> handle_packets cmds ps (fb_session tcp) = Some fb' \<Longrightarrow>
   awaits cmds fb' (fastboot_tcp_enter_state WAIT_FOR_HEADER tcp) (concat (map frame ps))"
  by (auto simp: awaits_def)

text \<open>Whole bytes of a packet at the front of a stream, or a part of them.\<close>

lemma front_cases:
  assumes "buf @ rest = p @ r"
  shows "(length p \<le> length buf \<and> take (length p) buf = p \<and> drop (length p) buf @ rest = r) \<or>
    (length buf < length p \<and> take (length buf) p = buf \<and> rest = drop (length buf) p @ r)"
proof (cases "length p \<le> length buf")
  case True
  have "take (length p) (buf @ rest) = p" "drop (length p) (buf @ rest) = r" using assms by simp_all
  with True show ?thesis by simp
next
  case False
  have "take (length buf) (p @ r) = buf" "drop (length buf) (p @ r) = rest" using assms [symmetric] by simp_all
  with False show ?thesis by simp
qed

lemma step_command:
  assumes "awaits cmds fb' tcp (buf @ rest)" and "tcp_state tcp = WAIT_FOR_COMMAND"
  shows "step_ok cmds fb' buf rest u tcp"
proof -
  from assms(1,2) obtain p ps where c: "fb_state (fb_session tcp) \<noteq> DOWNLOAD"
    and s: "buf @ rest = p @ concat (map frame ps)" and l: "data_left_to_receive tcp = length p"
    and ok: "packets_ok cmds (p # ps) (fb_session tcp)" "handle_packets cmds (p # ps) (fb_session tcp) = Some fb'"
    by (auto simp: awaits_def)
  have p: "0 < length p" "length p \<le> FASTBOOT_MSG_MAX" using ok(1) c by simp_all
  from front_cases [OF s] show ?thesis
  proof (elim disjE conjE)
    assume a: "length p \<le> length buf" "take (length p) buf = p"
      "drop (length p) buf @ rest = concat (map frame ps)"
    from fb_handle_ok [OF ok] obtain fb1 where h: "fb_handle cmds p tcp = Some (tcp\<lparr>fb_session := fb1\<rparr>)"
      "packets_ok cmds ps fb1" "handle_packets cmds ps fb1 = Some fb'" .
    let ?t = "fastboot_tcp_enter_state WAIT_FOR_HEADER (tcp\<lparr>fb_session := fb1\<rparr>)"
    have "recv_step cmds buf u tcp = Some (length p, u, ?t)"
      using assms(2) a h(1) l by (simp add: recv_step_def fastboot_tcp_recv_command_def)
    moreover have "awaits cmds fb' ?t (drop (length p) buf @ rest)"
      unfolding a(3) by (rule awaits_header) (use h in simp_all)
    ultimately show ?thesis using p(1) unfolding step_ok_def by blast
  next
    assume a: "length buf < length p"
    let ?t = "fastboot_tcp_enter_state WAIT_FOR_COMMAND_SEGMENT tcp"
    have "recv_step cmds buf u tcp = Some (0, u, ?t)"
      using assms(2) a l p(2) by (simp add: recv_step_def fastboot_tcp_recv_command_def)
    moreover have "awaits cmds fb' ?t (drop 0 buf @ rest)"
      using c s l p(1) ok unfolding awaits_def by (auto intro!: exI [of _ p])
    ultimately show ?thesis using assms(2) unfolding step_ok_def by fastforce
  qed
qed

lemma step_segment:
  assumes "awaits cmds fb' tcp (buf @ rest)" and "tcp_state tcp = WAIT_FOR_COMMAND_SEGMENT" and "buf \<noteq> []"
  shows "step_ok cmds fb' buf rest u tcp"
proof -
  from assms(1,2) obtain p ps where c: "fb_state (fb_session tcp) \<noteq> DOWNLOAD"
    and s: "segment_buf tcp @ buf @ rest = p @ concat (map frame ps)" and l: "0 < data_left_to_receive tcp"
    "length (segment_buf tcp) + data_left_to_receive tcp = length p"
    and ok: "packets_ok cmds (p # ps) (fb_session tcp)" "handle_packets cmds (p # ps) (fb_session tcp) = Some fb'"
    by (auto simp: awaits_def)
  let ?n = "min (data_left_to_receive tcp) (length buf)"
  have n: "0 < ?n" using l(1) assms(3) by simp
  from front_cases [OF s [folded append_assoc]] show ?thesis
  proof (elim disjE conjE)
    assume a: "length p \<le> length (segment_buf tcp @ buf)" "take (length p) (segment_buf tcp @ buf) = p"
      "drop (length p) (segment_buf tcp @ buf) @ rest = concat (map frame ps)"
    let ?t0 = "tcp\<lparr>segment_buf := p, data_left_to_receive := 0\<rparr>"
    have ok0: "packets_ok cmds (p # ps) (fb_session ?t0)" "handle_packets cmds (p # ps) (fb_session ?t0) = Some fb'"
      using ok by simp_all
    from fb_handle_ok [OF this] obtain fb1 where h: "fb_handle cmds p ?t0 = Some (?t0\<lparr>fb_session := fb1\<rparr>)"
      "packets_ok cmds ps fb1" "handle_packets cmds ps fb1 = Some fb'" .
    let ?t = "fastboot_tcp_enter_state WAIT_FOR_HEADER (?t0\<lparr>fb_session := fb1\<rparr>)"
    have m: "?n = data_left_to_receive tcp" "length p - length (segment_buf tcp) = data_left_to_receive tcp"
      using a(1) l(2) by simp_all
    have "segment_buf tcp @ take (data_left_to_receive tcp) buf = p"
      using a(2) m(2) l(2) by (simp add: take_append)
    then have "recv_step cmds buf u tcp = Some (?n, u, ?t)"
      using assms(2) h(1) m(1) by (simp add: recv_step_def fastboot_tcp_recv_segment_def Let_def)
    moreover have "drop ?n buf @ rest = concat (map frame ps)"
      using a(3) m l(2) by (simp add: drop_append)
    then have "awaits cmds fb' ?t (drop ?n buf @ rest)"
      using awaits_header [of cmds ps "?t0\<lparr>fb_session := fb1\<rparr>"] h by simp
    ultimately show ?thesis using n unfolding step_ok_def by blast
  next
    assume a: "length (segment_buf tcp @ buf) < length p"
    let ?t = "tcp\<lparr>segment_buf := segment_buf tcp @ buf,
       data_left_to_receive := data_left_to_receive tcp - length buf\<rparr>"
    have "?n = length buf" "length buf < data_left_to_receive tcp" using a l(2) by simp_all
    then have "recv_step cmds buf u tcp = Some (length buf, u, ?t)"
      using assms(2) by (simp add: recv_step_def fastboot_tcp_recv_segment_def Let_def)
    moreover have "awaits cmds fb' ?t (drop (length buf) buf @ rest)"
      using c s l ok a assms(2) unfolding awaits_def by (auto intro!: exI [of _ p])
    ultimately show ?thesis using assms(3) unfolding step_ok_def by blast
  qed
qed

lemma step_download:
  assumes "awaits cmds fb' tcp (buf @ rest)" and "tcp_state tcp = WAIT_FOR_DOWNLOAD" and "buf \<noteq> []"
  shows "step_ok cmds fb' buf rest u tcp"
proof -
  from assms(1,2) obtain p ps where c: "fb_state (fb_session tcp) = DOWNLOAD"
    and s: "buf @ rest = p @ concat (map frame ps)" and l: "data_left_to_receive tcp = length p"
    and ok: "packets_ok cmds (p # ps) (fb_session tcp)" "handle_packets cmds (p # ps) (fb_session tcp) = Some fb'"
    by (auto simp: awaits_def)
  from front_cases [OF s] show ?thesis
  proof (elim disjE conjE)
    assume a: "length p \<le> length buf" "take (length p) buf = p"
      "drop (length p) buf @ rest = concat (map frame ps)"
    let ?t0 = "tcp\<lparr>data_left_to_receive := 0\<rparr>"
    have ok0: "packets_ok cmds (p # ps) (fb_session ?t0)" "handle_packets cmds (p # ps) (fb_session ?t0) = Some fb'"
      using ok by simp_all
    from fb_handle_ok [OF this] obtain fb1 where h: "fb_handle cmds p ?t0 = Some (?t0\<lparr>fb_session := fb1\<rparr>)"
      "packets_ok cmds ps fb1" "handle_packets cmds ps fb1 = Some fb'" .
    let ?t = "fastboot_tcp_enter_state WAIT_FOR_HEADER (?t0\<lparr>fb_session := fb1\<rparr>)"
    have "recv_step cmds buf u tcp = Some (length p, u, ?t)"
      using assms(2) a h(1) l by (simp add: recv_step_def fastboot_tcp_recv_download_def Let_def)
    moreover have "awaits cmds fb' ?t (drop (length p) buf @ rest)"
      unfolding a(3) by (rule awaits_header) (use h in simp_all)
    moreover have "0 < length p" using ok(1) by simp
    ultimately show ?thesis unfolding step_ok_def by blast
  next
    assume a: "length buf < length p" "take (length buf) p = buf" "rest = drop (length buf) p @ concat (map frame ps)"
    let ?q = "drop (length buf) p"
    have p: "p = buf @ ?q" "?q \<noteq> []" using a(1,2) append_take_drop_id [of "length buf" p] by simp_all
    have "room_for (length (buf @ ?q)) (fb_session tcp)" using ok(1) c p(1) by simp
    from download_split [OF c this assms(3) p(2), of cmds] obtain fb1 where
      h: "fastboot_handle_packet cmds buf (fb_session tcp) = Some fb1" "fb_state fb1 = DOWNLOAD"
      "room_for (length ?q) fb1"
      "fastboot_handle_packet cmds p (fb_session tcp) = fastboot_handle_packet cmds ?q fb1"
      unfolding p(1) [symmetric] by metis
    let ?t = "tcp\<lparr>data_left_to_receive := length ?q, fb_session := fb1\<rparr>"
    have "recv_step cmds buf u tcp = Some (length buf, u, ?t)"
      using assms(2) a h(1) l by (simp add: recv_step_def fastboot_tcp_recv_download_def fb_handle_def Let_def)
    moreover have "awaits cmds fb' ?t (drop (length buf) buf @ rest)"
      using ok a(3) h p(2) assms(2) unfolding awaits_def by (auto intro!: exI [of _ ?q])
    ultimately show ?thesis using assms(3) unfolding step_ok_def by blast
  qed
qed

lemma awaits_step:
  assumes "awaits cmds fb' tcp (buf @ rest)" and "buf \<noteq> []"
  shows "step_ok cmds fb' buf rest u tcp"
proof (cases "tcp_state tcp")
  case WAIT_FOR_HANDSHAKE
  then show ?thesis using assms(1) by (simp add: awaits_def)
qed (use assms in \<open>blast intro: step_header step_command step_segment step_download\<close>)+

lemma recv_awaits:
  assumes "awaits cmds fb' tcp (buf @ rest)" and "\<not> uip_flag UIP_CLOSE u"
  shows "\<exists>tcp'. fastboot_tcp_recv cmds buf u tcp = Some (u, tcp') \<and> awaits cmds fb' tcp' rest"
  using assms(1)
proof (induction "2 * length buf + of_bool (tcp_state tcp = WAIT_FOR_COMMAND)"
    arbitrary: buf tcp rule: less_induct)
  case less
  show ?case
  proof (cases "buf = []")
    case True
    then show ?thesis using less.prems by (subst fastboot_tcp_recv.simps) simp
  next
    case False
    from awaits_step [OF less.prems this, of u] obtain n tcp1 where
      s: "recv_step cmds buf u tcp = Some (n, u, tcp1)" and a: "awaits cmds fb' tcp1 (drop n buf @ rest)"
      and n: "0 < n \<or> tcp_state tcp = WAIT_FOR_COMMAND \<and> tcp_state tcp1 = WAIT_FOR_COMMAND_SEGMENT"
      unfolding step_ok_def by blast
    have "2 * length (drop n buf) + of_bool (tcp_state tcp1 = WAIT_FOR_COMMAND)
        < 2 * length buf + of_bool (tcp_state tcp = WAIT_FOR_COMMAND)"
    proof (cases "n = 0")
      case False
      then have "2 * length (drop n buf) + 2 \<le> 2 * length buf" using \<open>buf \<noteq> []\<close> by (cases buf) auto
      then show ?thesis by (simp add: of_bool_def)
    qed (use n in simp)
    from less.hyps [OF this a] show ?thesis
      using False assms(2) s by (subst fastboot_tcp_recv.simps) simp
  qed
qed

text \<open>The segments of a connection, one after the other.\<close>

fun recv_segments ::
  "('e, 's, u8 list list) fastboot_cmd list \<Rightarrow> u8 list list \<Rightarrow> uip \<Rightarrow> ('e, 's) fastboot_tcp_session \<Rightarrow>
   (uip \<times> ('e, 's) fastboot_tcp_session) option" where
  "recv_segments cmds [] u tcp = Some (u, tcp)"
| "recv_segments cmds (b # bs) u tcp =
     Option.bind (fastboot_tcp_recv cmds b u tcp) (\<lambda>(u, tcp). recv_segments cmds bs u tcp)"

lemma recv_segments_awaits:
  assumes "awaits cmds fb' tcp (concat segs)" and "\<not> uip_flag UIP_CLOSE u"
  shows "\<exists>tcp'. recv_segments cmds segs u tcp = Some (u, tcp') \<and> awaits cmds fb' tcp' []"
  using assms(1)
proof (induction segs arbitrary: tcp)
  case (Cons b bs)
  from Cons.prems have "awaits cmds fb' tcp (b @ concat bs)" by simp
  from recv_awaits [OF this assms(2)] obtain tcp1 where
    "fastboot_tcp_recv cmds b u tcp = Some (u, tcp1)" "awaits cmds fb' tcp1 (concat bs)" by blast
  then show ?case using Cons.IH by simp
qed simp

lemma awaits_nothing:
  assumes "awaits cmds fb' tcp []"
  shows "fb_session tcp = fb' \<and> tcp_state tcp = WAIT_FOR_HEADER \<and> header tcp = []"
proof (cases "tcp_state tcp")
  case WAIT_FOR_HEADER
  then obtain ps where ps: "length (header tcp) < 8" "header tcp = concat (map frame ps)"
    "handle_packets cmds ps (fb_session tcp) = Some fb'"
    using assms by (auto simp: awaits_def)
  then have "ps = []" by (cases ps) auto
  with ps WAIT_FOR_HEADER show ?thesis by simp
next
  case WAIT_FOR_COMMAND_SEGMENT
  then obtain p ps where "segment_buf tcp = p @ concat (map frame ps)" "0 < data_left_to_receive tcp"
    "length (segment_buf tcp) + data_left_to_receive tcp = length p"
    using assms by (auto simp: awaits_def)
  then have False by simp
  then show ?thesis ..
qed (use assms in \<open>auto simp: awaits_def\<close>)

lemma recv_handshake:
  assumes "tcp_state tcp = WAIT_FOR_HANDSHAKE" and "uip_conn u = Some (a, q)" and "\<not> uip_flag UIP_CLOSE u"
  shows "fastboot_tcp_recv cmds (handshake @ b) u tcp = fastboot_tcp_recv cmds b u
    (fastboot_tcp_enter_state WAIT_FOR_HEADER
      ((fastboot_tcp_txq_append handshake tcp)\<lparr>ripaddr := a, rport := q\<rparr>))"
  using assms by (subst fastboot_tcp_recv.simps)
    (simp add: recv_step_def fastboot_tcp_handshake_def handshake_def c_bytes_def)

section \<open>Properties\<close>

text \<open>
  C40. Framing. A host connects, sends the handshake and then the packets \<open>ps\<close>, each behind its length.
  However the bytes behind the handshake are cut into TCP segments, the session ends up where handling
  the packets \<open>ps\<close> one after the other leaves it, with the handshake as first entry of the transmit
  queue, and the transport waits for the next header. The packets are not empty (an empty one
  at the end of a segment is handled only when more data come, which is recorded as a bug), and they are commands of at most
  \<open>FASTBOOT_MSG_MAX\<close> bytes, or data for a download that fits what is left of it.
\<close>
theorem fastboot_tcp_framing:
  assumes "tcp_state tcp = WAIT_FOR_HANDSHAKE" and "uip_conn u = Some (a, q)" and "\<not> uip_flag UIP_CLOSE u"
    and "packets_ok cmds ps ((fb_session tcp)\<lparr>link := txq tcp @ [handshake]\<rparr>)"
    and "b @ concat segs = concat (map frame ps)"
  shows "\<exists>tcp'. recv_segments cmds ((handshake @ b) # segs) u tcp = Some (u, tcp') \<and>
    handle_packets cmds ps ((fb_session tcp)\<lparr>link := txq tcp @ [handshake]\<rparr>) = Some (fb_session tcp') \<and>
    tcp_state tcp' = WAIT_FOR_HEADER \<and> header tcp' = []"
proof -
  let ?t = "fastboot_tcp_enter_state WAIT_FOR_HEADER
      ((fastboot_tcp_txq_append handshake tcp)\<lparr>ripaddr := a, rport := q\<rparr>)"
  have f: "fb_session ?t = (fb_session tcp)\<lparr>link := txq tcp @ [handshake]\<rparr>"
    by (simp add: fastboot_tcp_txq_append_def set_txq_def)
  from packets_ok_handled [OF assms(4)] obtain fb' where
    h: "handle_packets cmds ps ((fb_session tcp)\<lparr>link := txq tcp @ [handshake]\<rparr>) = Some fb'" by blast
  have "awaits cmds fb' ?t (concat (b # segs))"
    using assms(4,5) h f by (auto simp: awaits_def)
  from recv_segments_awaits [OF this assms(3)] obtain tcp' where
    r: "recv_segments cmds (b # segs) u ?t = Some (u, tcp')" "awaits cmds fb' tcp' []" by blast
  have "recv_segments cmds ((handshake @ b) # segs) u tcp = Some (u, tcp')"
    using r(1) recv_handshake [OF assms(1-3), of cmds b] by simp
  with h awaits_nothing [OF r(2)] show ?thesis by simp
qed

text \<open>A download of three bytes, over three segments: the second ends in the middle of the command.\<close>

definition ex_tcp :: "(string \<times> nat \<times> nat, u8 list) fastboot_tcp_session" where
  "ex_tcp =
    \<lparr>fb_session = ex_fb\<lparr>send_packet := fastboot_tcp_send\<rparr>, tcp_state = WAIT_FOR_HANDSHAKE,
     link_state = FASTBOOT_TRANSPORT_IDLE, header = [], data_left_to_receive = 0, segment_buf = [],
     ripaddr = 0, rport = 0, last_packet = None\<rparr>"

definition ex_uip :: uip where
  "ex_uip = \<lparr>uip_conn = Some (1, 5554), uip_flags = UIP_NEWDATA, uip_appdata = [], uip_room = 1000,
     uip_sent = None\<rparr>"

definition ex_packets :: "u8 list list" where
  "ex_packets = [c_bytes ''download:'' @ c_bytes ''3'', [7, 8, 9]]"

lemma ex_packets_handled:
  fixes fb :: "(string \<times> nat \<times> nat, u8 list, u8 list list) FastbootOps"
  assumes "fb_state fb = COMMAND" and "kernel_memory fb = replicate 16 0"
  shows "packets_ok (fastboot_cmds ex_fb_env) ex_packets fb \<and>
    (\<exists>fb'. handle_packets (fastboot_cmds ex_fb_env) ex_packets fb = Some fb' \<and> has_staged_data fb' \<and>
       fastboot_get_memory_buffer fb' = [7, 8, 9])"
proof -
  let ?fb = "fastboot_data 3 (fastboot_prepare_download 3 fb)"
  have n: "0 \<notin> set (c_bytes ''3'')" "ex_number (c_bytes ''3'') 16 = (3, length (c_bytes ''3''))"
    "c_bytes ''3'' \<noteq> []" by code_simp+
  have c: "fastboot_handle_packet (fastboot_cmds ex_fb_env) (c_bytes ''download:'' @ c_bytes ''3'') fb = Some ?fb"
    using n(2,3) by (simp add: fastboot_handle_packet_def assms(1) table_download [OF n(1)] fastboot_cmd_download_def)
  have s: "fb_state ?fb = DOWNLOAD" "download_progress ?fb = 0" "memory_buffer_len ?fb = 3"
    "kernel_memory ?fb = replicate 16 0" using assms(2) by (simp_all add: fastboot_prepare_download_def)
  have d: "fastboot_handle_packet (fastboot_cmds ex_fb_env) [7, 8, 9] ?fb =
    Some (fastboot_succeed (?fb\<lparr>kernel_memory := memcpy_at (kernel_memory ?fb) (download_progress ?fb) [7, 8, 9],
             has_staged_data := True, download_progress := 0, fb_state := COMMAND\<rparr>))"
    by (rule download_last) (simp_all add: s fastboot_prepare_download_def)
  have "length (c_bytes ''download:'' @ c_bytes ''3'') \<le> FASTBOOT_MSG_MAX" by code_simp
  moreover have "room_for (Suc (Suc (Suc 0))) ?fb" by (simp add: room_for_def s fastboot_prepare_download_def assms(2))
  ultimately show ?thesis using c d
    by (simp add: ex_packets_def assms s n(3) fastboot_get_memory_buffer_def fastboot_prepare_download_def
        memcpy_at_def)
qed

theorem fastboot_tcp_framing_witness:
  "\<exists>tcp'. recv_segments (fastboot_cmds ex_fb_env)
      [handshake, take 12 (concat (map frame ex_packets)), drop 12 (concat (map frame ex_packets))]
      ex_uip ex_tcp = Some (ex_uip, tcp') \<and>
    fastboot_get_memory_buffer (fb_session tcp') = [7, 8, 9] \<and> tcp_state tcp' = WAIT_FOR_HEADER"
proof -
  have t: "tcp_state ex_tcp = WAIT_FOR_HANDSHAKE" "uip_conn ex_uip = Some (1, 5554)"
    "\<not> uip_flag UIP_CLOSE ex_uip"
    by (simp_all add: ex_tcp_def ex_uip_def uip_flag_def UIP_CLOSE_def UIP_NEWDATA_def)
  let ?fb = "(fb_session ex_tcp)\<lparr>link := txq ex_tcp @ [handshake]\<rparr>"
  have f: "fb_state ?fb = COMMAND" "kernel_memory ?fb = replicate 16 0" by (simp_all add: ex_tcp_def)
  from ex_packets_handled [OF f] obtain fb' where p: "packets_ok (fastboot_cmds ex_fb_env) ex_packets ?fb"
    "handle_packets (fastboot_cmds ex_fb_env) ex_packets ?fb = Some fb'"
    "fastboot_get_memory_buffer fb' = [7, 8, 9]" by blast
  have s: "[] @ concat [take 12 (concat (map frame ex_packets)), drop 12 (concat (map frame ex_packets))] =
      concat (map frame ex_packets)" by simp
  from fastboot_tcp_framing [OF t p(1) s] p(2,3) show ?thesis by auto
qed

section \<open>Sending\<close>

text \<open>
  What is on its way to the host, in order: the packet that was handed to uIP and is not acknowledged,
  then the queue.
\<close>

definition outstanding :: "('e, 's) fastboot_tcp_session \<Rightarrow> u8 list list" where
  "outstanding tcp = (case last_packet tcp of None \<Rightarrow> [] | Some p \<Rightarrow> [p]) @ txq tcp"

lemma send_packet_keeps_order:
  assumes "fastboot_tcp_send_packet u tcp = (u', tcp')"
  shows "outstanding tcp' = outstanding tcp"
  using assms by (auto simp: fastboot_tcp_send_packet_def outstanding_def set_txq_def Let_def split: if_splits option.splits)

lemma send_packet_sends_first:
  assumes "fastboot_tcp_send_packet u tcp = (u', tcp')" and "uip_sent u = None"
    and "uip_sent u' = Some q" and "length (hd (outstanding tcp')) \<le> uip_room u"
  shows "q = hd (outstanding tcp') \<and> last_packet tcp' = Some q"
  using assms by (auto simp: fastboot_tcp_send_packet_def outstanding_def set_txq_def uip_send_def
      Let_def split: if_splits)

text \<open>
  What the transport relies on: whatever packet a good session handles, it stays good and sends by
  appending to the queue, and the reset of a connection and the transport itself keep it good.
\<close>

locale tcp_client =
  fixes cmds :: "('e, 's, u8 list list) fastboot_cmd list"
    and good :: "('e, 's, u8 list list) FastbootOps \<Rightarrow> bool"
  assumes handle_good: "good fb \<Longrightarrow> fastboot_handle_packet cmds p fb = Some fb' \<Longrightarrow>
      good fb' \<and> (\<exists>rs. link fb' = link fb @ map frame rs)"
    and link_good: "good fb \<Longrightarrow> good (fb\<lparr>link := q\<rparr>)"
    and reset_good: "good fb \<Longrightarrow> good (fb\<lparr>fb_state := COMMAND, download_progress := 0\<rparr>)"

text \<open>
  What the bytes of a connection mean, apart from the code that reads them: the host's hello, then
  headers and packets by turns. A packet has the length that its header gives, except that the data
  of a download may be handled in pieces. The hello is answered by the handshake, a packet by the
  frames of its answers, in the order in which they are made.
\<close>

datatype wire_item = Hello | Header "u8 list" | Packet "u8 list"

fun item_bytes :: "wire_item \<Rightarrow> u8 list" where
  "item_bytes Hello = handshake"
| "item_bytes (Header h) = h"
| "item_bytes (Packet p) = p"

text \<open>\<open>Inside n data\<close>: \<open>n\<close> bytes are still to come behind a header that came during a download, or not.\<close>

datatype wire_mode = Unconnected | Between | Inside nat bool

inductive wire_run ::
  "('e, 's, u8 list list) fastboot_cmd list \<Rightarrow> ('e, 's, u8 list list) FastbootOps \<Rightarrow> wire_mode \<Rightarrow>
   wire_item list \<Rightarrow> u8 list list \<Rightarrow> ('e, 's, u8 list list) FastbootOps \<Rightarrow> wire_mode \<Rightarrow> bool"
  for cmds where
  nothing: "wire_run cmds fb m [] [] fb m"
| hello: "wire_run cmds (fb\<lparr>link := link fb @ [handshake]\<rparr>) Between items out fb' m' \<Longrightarrow>
    wire_run cmds fb Unconnected (Hello # items) (handshake # out) fb' m'"
| header: "length h = 8 \<Longrightarrow> wire_run cmds fb (Inside (be64dec h) (fb_state fb = DOWNLOAD)) items out fb' m' \<Longrightarrow>
    wire_run cmds fb Between (Header h # items) out fb' m'"
| packet: "fastboot_handle_packet cmds p fb = Some fb1 \<Longrightarrow> link fb1 = link fb @ map frame rs \<Longrightarrow>
    length p = n \<or> length p < n \<and> data \<Longrightarrow>
    wire_run cmds fb1 (if length p = n then Between else Inside (n - length p) data) items out fb' m' \<Longrightarrow>
    wire_run cmds fb (Inside n data) (Packet p # items) (map frame rs @ out) fb' m'"

lemma wire_run_append:
  "wire_run cmds fb m is1 out1 fb1 m1 \<Longrightarrow> wire_run cmds fb1 m1 is2 out2 fb2 m2 \<Longrightarrow>
   wire_run cmds fb m (is1 @ is2) (out1 @ out2) fb2 m2"
  by (induction rule: wire_run.induct) (auto intro: wire_run.intros)

lemma wire_run_link: "wire_run cmds fb m items out fb' m' \<Longrightarrow> link fb' = link fb @ out"
  by (induction rule: wire_run.induct) auto

text \<open>Where a session is in the bytes, and the bytes that it keeps of a header or a command.\<close>

definition wire_mode :: "('e, 's) fastboot_tcp_session \<Rightarrow> wire_mode" where
  "wire_mode tcp =
     (case tcp_state tcp of
        WAIT_FOR_HANDSHAKE \<Rightarrow> Unconnected
      | WAIT_FOR_HEADER \<Rightarrow> Between
      | WAIT_FOR_COMMAND \<Rightarrow> Inside (data_left_to_receive tcp) False
      | WAIT_FOR_COMMAND_SEGMENT \<Rightarrow> Inside (length (segment_buf tcp) + data_left_to_receive tcp) False
      | WAIT_FOR_DOWNLOAD \<Rightarrow> Inside (data_left_to_receive tcp) True)"

definition kept :: "('e, 's) fastboot_tcp_session \<Rightarrow> u8 list" where
  "kept tcp = (case tcp_state tcp of WAIT_FOR_HEADER \<Rightarrow> header tcp | WAIT_FOR_COMMAND_SEGMENT \<Rightarrow> segment_buf tcp | _ \<Rightarrow> [])"

text \<open>
  \<open>reads cmds tcp buf out u' tcp'\<close>: from \<open>tcp\<close> to \<open>tcp'\<close> exactly the bytes \<open>buf\<close> were read, and \<open>out\<close>
  are the answers; only a wrong hello is left unread, with the connection closed. \<open>oversized\<close>: the
  connection was closed and reset by a command that is longer than the buffer for segments.
\<close>

definition reads ::
  "('e, 's, u8 list list) fastboot_cmd list \<Rightarrow> ('e, 's) fastboot_tcp_session \<Rightarrow> u8 list \<Rightarrow> u8 list list \<Rightarrow>
   uip \<Rightarrow> ('e, 's) fastboot_tcp_session \<Rightarrow> bool" where
  "reads cmds tcp buf out u' tcp' \<longleftrightarrow>
     (\<exists>items unread fb. kept tcp @ buf = concat (map item_bytes items) @ kept tcp' @ unread \<and>
        wire_run cmds (fb_session tcp) (wire_mode tcp) items out fb (wire_mode tcp') \<and>
        fb_session tcp' = fb\<lparr>link := txq tcp'\<rparr> \<and>
        (unread \<noteq> [] \<longrightarrow> uip_flag UIP_CLOSE u' \<and> tcp_state tcp' = WAIT_FOR_HANDSHAKE \<and> take 4 unread \<noteq> handshake))"

definition oversized :: "uip \<Rightarrow> ('e, 's) fastboot_tcp_session \<Rightarrow> bool" where
  "oversized u' tcp' \<longleftrightarrow> uip_flag UIP_CLOSE u' \<and> FASTBOOT_MSG_MAX < data_left_to_receive tcp' \<and>
     tcp_state tcp' = WAIT_FOR_HANDSHAKE \<and> outstanding tcp' = []"

lemma take_min: "take (min (length x) n) x = take n x"
  by (simp add: min_def)

lemma outstanding_fields [simp]:
  "outstanding (tcp\<lparr>tcp_state := st\<rparr>) = outstanding tcp"
  "outstanding (tcp\<lparr>header := h\<rparr>) = outstanding tcp"
  "outstanding (tcp\<lparr>data_left_to_receive := n\<rparr>) = outstanding tcp"
  "outstanding (tcp\<lparr>segment_buf := h\<rparr>) = outstanding tcp"
  "outstanding (tcp\<lparr>ripaddr := a\<rparr>) = outstanding tcp"
  "outstanding (tcp\<lparr>rport := q\<rparr>) = outstanding tcp"
  "outstanding (tcp\<lparr>link_state := ls\<rparr>) = outstanding tcp"
  "outstanding (set_txq (txq tcp @ new) tcp) = outstanding tcp @ new"
  "outstanding (fastboot_tcp_enter_state WAIT_FOR_HEADER tcp) = outstanding tcp"
  "outstanding (fastboot_tcp_enter_state WAIT_FOR_COMMAND tcp) = outstanding tcp"
  "outstanding (fastboot_tcp_enter_state WAIT_FOR_DOWNLOAD tcp) = outstanding tcp"
  "outstanding (tcp_reset_session tcp) = []"
  "tcp_state (tcp_reset_session tcp) = WAIT_FOR_HANDSHAKE"
  by (simp_all add: outstanding_def set_txq_def tcp_reset_session_def fastboot_tcp_reset_def)

lemma set_txq_fields [simp]:
  "tcp_state (set_txq q tcp) = tcp_state tcp" "last_packet (set_txq q tcp) = last_packet tcp"
  by (simp_all add: set_txq_def)

lemma kept_fields [simp]:
  "kept (tcp\<lparr>last_packet := l\<rparr>) = kept tcp" "wire_mode (tcp\<lparr>last_packet := l\<rparr>) = wire_mode tcp"
  "kept (set_txq q tcp) = kept tcp" "wire_mode (set_txq q tcp) = wire_mode tcp"
  by (cases "tcp_state tcp"; simp add: kept_def wire_mode_def set_txq_def)+

lemma fb_session_enter [simp]:
  "st \<noteq> WAIT_FOR_HANDSHAKE \<Longrightarrow> fb_session (fastboot_tcp_enter_state st tcp) = fb_session tcp"
  by (cases st) simp_all

lemma closed_uip_close [simp]: "uip_flag UIP_CLOSE (uip_close u)"
  by (simp add: uip_close_def uip_flag_def UIP_CLOSE_def)

lemma uip_sent_close [simp]: "uip_sent (uip_close u) = uip_sent u" "uip_room (uip_close u) = uip_room u"
  by (simp_all add: uip_close_def)

context tcp_client
begin

lemma good_reset: "good (fb_session tcp) \<Longrightarrow> good (fb_session (tcp_reset_session tcp))"
  by (simp add: tcp_reset_session_def fastboot_tcp_reset_def set_txq_def link_good reset_good)

lemma good_txq: "good (fb_session tcp) \<Longrightarrow> good (fb_session (set_txq q tcp))"
  by (simp add: set_txq_def link_good)

lemma fb_handle_packet:
  assumes "good (fb_session tcp)" and "fb_handle cmds p tcp = Some tcp'"
    and "length p = n \<or> length p < n \<and> data"
  obtains fb rs where "tcp' = tcp\<lparr>fb_session := fb\<rparr>" and "good fb"
    and "wire_run cmds (fb_session tcp) (Inside n data) [Packet p] (map frame rs) fb
      (if length p = n then Between else Inside (n - length p) data)"
proof -
  obtain fb where fb: "fastboot_handle_packet cmds p (fb_session tcp) = Some fb" "tcp' = tcp\<lparr>fb_session := fb\<rparr>"
    using assms(2) by (auto simp: fb_handle_def)
  obtain rs where "good fb" "link fb = txq tcp @ map frame rs" using handle_good [OF assms(1) fb(1)] by blast
  then show ?thesis
    using that [OF fb(2), of rs] wire_run.packet [OF fb(1) _ assms(3) wire_run.nothing] by simp
qed

text \<open>One step of the loop reads the bytes it consumes.\<close>

definition step_reads ::
  "u8 list \<Rightarrow> nat \<Rightarrow> ('e, 's) fastboot_tcp_session \<Rightarrow> ('e, 's) fastboot_tcp_session \<Rightarrow> bool" where
  "step_reads buf n tcp tcp' \<longleftrightarrow> last_packet tcp' = last_packet tcp \<and>
     (\<exists>items out. kept tcp @ take n buf = concat (map item_bytes items) @ kept tcp' \<and>
        wire_run cmds (fb_session tcp) (wire_mode tcp) items out (fb_session tcp') (wire_mode tcp'))"

lemma step_readsI:
  assumes "last_packet tcp' = last_packet tcp" and "kept tcp @ take n buf = concat (map item_bytes items) @ kept tcp'"
    and "wire_run cmds (fb_session tcp) (wire_mode tcp) items out (fb_session tcp') (wire_mode tcp')"
  shows "step_reads buf n tcp tcp'"
  using assms unfolding step_reads_def by blast

lemma step_reads_nothing:
  assumes "last_packet tcp' = last_packet tcp" and "kept tcp @ take n buf = kept tcp'"
    and "fb_session tcp' = fb_session tcp" and "wire_mode tcp' = wire_mode tcp"
  shows "step_reads buf n tcp tcp'"
  by (rule step_readsI [where items = "[]" and out = "[]"]) (use assms in \<open>simp_all add: wire_run.nothing\<close>)

lemma recv_step_reads:
  assumes "good (fb_session tcp)" and "recv_step cmds buf u tcp = Some (n, u', tcp')" and "\<not> uip_flag UIP_CLOSE u"
  shows "good (fb_session tcp') \<and> uip_sent u' = uip_sent u \<and> uip_room u' = uip_room u \<and>
    (u' = u \<and> step_reads buf n tcp tcp' \<or>
     u' = uip_close u \<and> tcp' = tcp \<and> tcp_state tcp = WAIT_FOR_HANDSHAKE \<and> take 4 buf \<noteq> handshake \<or>
     oversized u' tcp')"
proof (cases "tcp_state tcp")
  case WAIT_FOR_HANDSHAKE
  have h: "length handshake = 4" by (simp add: handshake_def c_bytes_def)
  show ?thesis
  proof (cases "take 4 buf = handshake")
    case False
    then have "u' = uip_close u \<and> tcp' = tcp" using assms(2) WAIT_FOR_HANDSHAKE h
      by (auto simp: recv_step_def fastboot_tcp_handshake_def Let_def split: if_splits)
    then show ?thesis using False WAIT_FOR_HANDSHAKE assms(1) by simp
  next
    case True
    then have l: "\<not> length buf < 4" using h by (auto dest: arg_cong [where f = length])
    obtain a q where "the (uip_conn u) = (a, q)" by fastforce
    then have t: "n = 4" "u' = u" "tcp' = fastboot_tcp_enter_state WAIT_FOR_HEADER
        ((fastboot_tcp_txq_append handshake tcp)\<lparr>ripaddr := a, rport := q\<rparr>)"
      using assms(2) WAIT_FOR_HANDSHAKE True l h
      by (auto simp: recv_step_def fastboot_tcp_handshake_def Let_def)
    have f: "fb_session tcp' = (fb_session tcp)\<lparr>link := txq tcp @ [handshake]\<rparr>"
      by (simp add: t fastboot_tcp_txq_append_def set_txq_def)
    have "step_reads buf n tcp tcp'"
    proof (rule step_readsI)
      show "kept tcp @ take n buf = concat (map item_bytes [Hello]) @ kept tcp'"
        using True WAIT_FOR_HANDSHAKE by (simp add: t kept_def)
      show "wire_run cmds (fb_session tcp) (wire_mode tcp) [Hello] [handshake] (fb_session tcp') (wire_mode tcp')"
        using WAIT_FOR_HANDSHAKE unfolding f by (auto simp: t wire_mode_def intro: wire_run.intros)
    qed (simp add: t fastboot_tcp_txq_append_def)
    then show ?thesis using assms(1) by (simp add: t(2) f link_good)
  qed
next
  case WAIT_FOR_HEADER
  let ?n = "min (length buf) (8 - length (header tcp))"
  let ?h = "header tcp @ take ?n buf"
  show ?thesis
  proof (cases "length ?h = 8")
    case False
    then have t: "n = ?n" "u' = u" "tcp' = tcp\<lparr>header := ?h\<rparr>"
      using assms(2) WAIT_FOR_HEADER by (auto simp: recv_step_def fastboot_tcp_recv_header_def Let_def)
    have "step_reads buf n tcp tcp'"
      by (rule step_reads_nothing) (use WAIT_FOR_HEADER in \<open>simp_all add: t kept_def wire_mode_def\<close>)
    then show ?thesis using assms(1) by (simp add: t)
  next
    case True
    then have t: "n = ?n" "u' = u" "tcp' = fastboot_tcp_enter_state
        (if fb_state (fb_session tcp) = DOWNLOAD then WAIT_FOR_DOWNLOAD else WAIT_FOR_COMMAND)
        (tcp\<lparr>header := ?h, data_left_to_receive := be64dec ?h\<rparr>)"
      using assms(2) WAIT_FOR_HEADER by (auto simp: recv_step_def fastboot_tcp_recv_header_def Let_def)
    have m: "wire_mode tcp' = Inside (be64dec ?h) (fb_state (fb_session tcp) = DOWNLOAD)" "kept tcp' = []"
      "fb_session tcp' = fb_session tcp" "last_packet tcp' = last_packet tcp"
      by (simp_all add: t(3) wire_mode_def kept_def)
    have "step_reads buf n tcp tcp'"
    proof (rule step_readsI)
      show "kept tcp @ take n buf = concat (map item_bytes [Header ?h]) @ kept tcp'"
        unfolding m(2) using WAIT_FOR_HEADER by (simp add: t(1) kept_def)
      show "wire_run cmds (fb_session tcp) (wire_mode tcp) [Header ?h] [] (fb_session tcp') (wire_mode tcp')"
        unfolding m using WAIT_FOR_HEADER wire_run.header [OF True wire_run.nothing] by (simp add: wire_mode_def)
    qed (simp add: m)
    then show ?thesis using assms(1) by (simp add: t(2) m)
  qed
next
  case WAIT_FOR_COMMAND
  consider "data_left_to_receive tcp \<le> length buf"
    | "length buf < data_left_to_receive tcp" "data_left_to_receive tcp \<le> FASTBOOT_MSG_MAX"
    | "length buf < data_left_to_receive tcp" "FASTBOOT_MSG_MAX < data_left_to_receive tcp" by linarith
  then show ?thesis
  proof cases
    case 1
    let ?p = "take (data_left_to_receive tcp) buf"
    obtain tcp1 where h: "fb_handle cmds ?p tcp = Some tcp1" and t: "n = data_left_to_receive tcp" "u' = u"
      "tcp' = fastboot_tcp_enter_state WAIT_FOR_HEADER tcp1"
      using assms(2) WAIT_FOR_COMMAND 1 by (auto simp: recv_step_def fastboot_tcp_recv_command_def Let_def)
    have l: "length ?p = data_left_to_receive tcp" using 1 by simp
    obtain fb rs where fb: "tcp1 = tcp\<lparr>fb_session := fb\<rparr>" "good fb"
      "wire_run cmds (fb_session tcp) (Inside (data_left_to_receive tcp) False) [Packet ?p] (map frame rs) fb Between"
      by (rule fb_handle_packet [OF assms(1) h, of "data_left_to_receive tcp" False]) (use l in simp_all)
    have "step_reads buf n tcp tcp'"
      by (rule step_readsI [where items = "[Packet ?p]" and out = "map frame rs"])
        (use fb WAIT_FOR_COMMAND in \<open>simp_all add: t kept_def wire_mode_def\<close>)
    then show ?thesis using fb by (simp add: t)
  next
    case 2
    then have t: "n = 0" "u' = u" "tcp' = fastboot_tcp_enter_state WAIT_FOR_COMMAND_SEGMENT tcp"
      using assms(2) WAIT_FOR_COMMAND by (auto simp: recv_step_def fastboot_tcp_recv_command_def)
    have "step_reads buf n tcp tcp'"
      by (rule step_reads_nothing) (use WAIT_FOR_COMMAND in \<open>simp_all add: t kept_def wire_mode_def\<close>)
    then show ?thesis using assms(1) by (simp add: t)
  next
    case 3
    then have t: "u' = uip_close u" "tcp' = tcp_reset_session tcp"
      using assms(2) WAIT_FOR_COMMAND by (auto simp: recv_step_def fastboot_tcp_recv_command_def)
    have "data_left_to_receive tcp' = data_left_to_receive tcp"
      by (simp add: t tcp_reset_session_def fastboot_tcp_reset_def set_txq_def)
    then show ?thesis using 3 assms(1) by (simp add: t oversized_def good_reset)
  qed
next
  case WAIT_FOR_COMMAND_SEGMENT
  let ?n = "min (data_left_to_receive tcp) (length buf)"
  let ?p = "segment_buf tcp @ take ?n buf"
  let ?t = "tcp\<lparr>segment_buf := ?p, data_left_to_receive := data_left_to_receive tcp - ?n\<rparr>"
  show ?thesis
  proof (cases "data_left_to_receive tcp - ?n = 0")
    case False
    then have t: "n = ?n" "u' = u" "tcp' = ?t"
      using assms(2) WAIT_FOR_COMMAND_SEGMENT by (auto simp: recv_step_def fastboot_tcp_recv_segment_def Let_def)
    have "step_reads buf n tcp tcp'"
      by (rule step_reads_nothing) (use WAIT_FOR_COMMAND_SEGMENT False in \<open>simp_all add: t kept_def wire_mode_def\<close>)
    then show ?thesis using assms(1) by (simp add: t)
  next
    case True
    obtain tcp1 where h: "fb_handle cmds ?p ?t = Some tcp1" and t: "n = ?n" "u' = u"
      "tcp' = fastboot_tcp_enter_state WAIT_FOR_HEADER tcp1"
      using assms(2) WAIT_FOR_COMMAND_SEGMENT True
      by (auto simp: recv_step_def fastboot_tcp_recv_segment_def Let_def)
    let ?l = "length (segment_buf tcp) + data_left_to_receive tcp"
    have l: "length ?p = ?l" using True by simp
    have g: "good (fb_session ?t)" using assms(1) by simp
    obtain fb rs where fb: "tcp1 = ?t\<lparr>fb_session := fb\<rparr>" "good fb"
      "wire_run cmds (fb_session tcp) (Inside ?l False) [Packet ?p] (map frame rs) fb Between"
      by (rule fb_handle_packet [OF g h, of ?l False]) (use l in simp_all)
    have "step_reads buf n tcp tcp'"
      by (rule step_readsI [where items = "[Packet ?p]" and out = "map frame rs"])
        (use fb WAIT_FOR_COMMAND_SEGMENT in \<open>simp_all add: t kept_def wire_mode_def\<close>)
    then show ?thesis using fb by (simp add: t)
  qed
next
  case WAIT_FOR_DOWNLOAD
  let ?n = "min (data_left_to_receive tcp) (length buf)"
  let ?p = "take ?n buf" and ?t = "tcp\<lparr>data_left_to_receive := data_left_to_receive tcp - ?n\<rparr>"
  obtain tcp1 where h: "fb_handle cmds ?p ?t = Some tcp1" and t: "n = ?n" "u' = u"
    "tcp' = (if data_left_to_receive tcp1 = 0 then fastboot_tcp_enter_state WAIT_FOR_HEADER tcp1 else tcp1)"
    using assms(2) WAIT_FOR_DOWNLOAD by (auto simp: recv_step_def fastboot_tcp_recv_download_def Let_def)
  have g: "good (fb_session ?t)" using assms(1) by simp
  have l: "length ?p = ?n" by simp
  obtain fb rs where fb: "tcp1 = ?t\<lparr>fb_session := fb\<rparr>" "good fb"
    "wire_run cmds (fb_session tcp) (Inside (data_left_to_receive tcp) True) [Packet ?p] (map frame rs) fb
       (if ?n = data_left_to_receive tcp then Between else Inside (data_left_to_receive tcp - ?n) True)"
    by (rule fb_handle_packet [OF g h, of "data_left_to_receive tcp" True, unfolded l]) auto
  have f: "fb_session tcp' = fb" "last_packet tcp' = last_packet tcp" "kept tcp' = []"
    "wire_mode tcp' = (if ?n = data_left_to_receive tcp then Between else Inside (data_left_to_receive tcp - ?n) True)"
    using WAIT_FOR_DOWNLOAD by (auto simp: t(3) fb(1) kept_def wire_mode_def)
  have "step_reads buf n tcp tcp'"
    by (rule step_readsI [where items = "[Packet ?p]" and out = "map frame rs"])
      (use fb(3) WAIT_FOR_DOWNLOAD in \<open>simp_all only: f t(1)\<close>, simp_all add: kept_def wire_mode_def)
  then show ?thesis using fb(2) f(1) by (simp add: t(2))
qed

text \<open>The whole buffer, up to a wrong hello or an oversized command.\<close>

definition buffer_reads :: "u8 list \<Rightarrow> ('e, 's) fastboot_tcp_session \<Rightarrow> uip \<Rightarrow> ('e, 's) fastboot_tcp_session \<Rightarrow> bool" where
  "buffer_reads buf tcp u' tcp' \<longleftrightarrow> last_packet tcp' = last_packet tcp \<and>
     (\<exists>items out unread. kept tcp @ buf = concat (map item_bytes items) @ kept tcp' @ unread \<and>
        wire_run cmds (fb_session tcp) (wire_mode tcp) items out (fb_session tcp') (wire_mode tcp') \<and>
        (unread \<noteq> [] \<longrightarrow> uip_flag UIP_CLOSE u' \<and> tcp_state tcp' = WAIT_FOR_HANDSHAKE \<and> take 4 unread \<noteq> handshake))"

lemma buffer_reads_step:
  assumes "step_reads buf n tcp tcp1" and "buffer_reads (drop n buf) tcp1 u' tcp'"
  shows "buffer_reads buf tcp u' tcp'"
proof -
  obtain is1 out1 where 1: "last_packet tcp1 = last_packet tcp" "kept tcp @ take n buf = concat (map item_bytes is1) @ kept tcp1"
    "wire_run cmds (fb_session tcp) (wire_mode tcp) is1 out1 (fb_session tcp1) (wire_mode tcp1)"
    using assms(1) unfolding step_reads_def by blast
  obtain is2 out2 unread where 2: "last_packet tcp' = last_packet tcp1"
    "kept tcp1 @ drop n buf = concat (map item_bytes is2) @ kept tcp' @ unread"
    "wire_run cmds (fb_session tcp1) (wire_mode tcp1) is2 out2 (fb_session tcp') (wire_mode tcp')"
    "unread \<noteq> [] \<longrightarrow> uip_flag UIP_CLOSE u' \<and> tcp_state tcp' = WAIT_FOR_HANDSHAKE \<and> take 4 unread \<noteq> handshake"
    using assms(2) unfolding buffer_reads_def by blast
  have "kept tcp @ buf = (kept tcp @ take n buf) @ drop n buf" by (simp only: append_assoc append_take_drop_id)
  also have "\<dots> = concat (map item_bytes is1) @ (kept tcp1 @ drop n buf)" unfolding 1(2) by (simp only: append_assoc)
  finally have "kept tcp @ buf = concat (map item_bytes (is1 @ is2)) @ kept tcp' @ unread" unfolding 2(2) by simp
  then show ?thesis using wire_run_append [OF 1(3) 2(3)] 1(1) 2(1,4) unfolding buffer_reads_def by metis
qed

lemma recv_reads:
  assumes "fastboot_tcp_recv cmds buf u tcp = Some r" and "good (fb_session tcp)" and "\<not> uip_flag UIP_CLOSE u"
  shows "good (fb_session (snd r)) \<and> uip_sent (fst r) = uip_sent u \<and> uip_room (fst r) = uip_room u \<and>
    (buffer_reads buf tcp (fst r) (snd r) \<or> oversized (fst r) (snd r))"
proof -
  let ?P = "\<lambda>buf u tcp r. good (fb_session tcp) \<longrightarrow> good (fb_session (snd r)) \<and> uip_sent (fst r) = uip_sent u \<and>
    uip_room (fst r) = uip_room u \<and> (\<not> uip_flag UIP_CLOSE u \<longrightarrow> buffer_reads buf tcp (fst r) (snd r) \<or>
      oversized (fst r) (snd r)) \<and> (uip_flag UIP_CLOSE u \<longrightarrow> r = (u, tcp))"
  have "?P buf u tcp r"
  proof (rule fastboot_tcp_recv.raw_induct [where P = "\<lambda>c buf u tcp r. c = cmds \<longrightarrow> ?P buf u tcp r", OF _ assms(1),
        THEN mp, OF _ refl], intro impI, goal_cases)
    case (1 loop c buf u tcp r)
    show ?case
    proof (cases "buf = [] \<or> uip_flag UIP_CLOSE u")
      case True
      then have r: "r = (u, tcp)" using 1(2) by auto
      have "buffer_reads [] tcp u tcp" unfolding buffer_reads_def
        by (intro conjI exI [of _ "[]"] wire_run.nothing) simp_all
      then show ?thesis using 1(4) True r by auto
    next
      case False
      then obtain n u1 tcp1 where s: "recv_step cmds buf u tcp = Some (n, u1, tcp1)"
        and l: "loop c (drop n buf) u1 tcp1 = Some r"
        using 1(2,3) by (auto split: bind_splits)
      have nc: "\<not> uip_flag UIP_CLOSE u" using False by simp
      note st = recv_step_reads [OF 1(4) s nc]
      then have g: "good (fb_session tcp1)" "uip_sent u1 = uip_sent u" "uip_room u1 = uip_room u" by simp_all
      note h = 1(1) [OF l, THEN mp, OF 1(3), THEN mp, OF g(1)]
      from st have "buffer_reads buf tcp (fst r) (snd r) \<or> oversized (fst r) (snd r)"
      proof (elim conjE disjE, goal_cases)
        case 1
        then show ?case using h nc buffer_reads_step by blast
      next
        case 2
        then have r: "r = (uip_close u, tcp)" using h by simp
        have "buffer_reads buf tcp (uip_close u) tcp" unfolding buffer_reads_def
          by (intro conjI exI [of _ "[]"] exI [of _ buf] wire_run.nothing) (use 2 in \<open>simp_all add: kept_def\<close>)
        then show ?case by (simp add: r)
      next
        case 3
        then have "r = (u1, tcp1)" using h by (simp add: oversized_def)
        then show ?case using 3 by simp
      qed
      then show ?thesis using h g nc by simp
    qed
  qed
  then show ?thesis using assms(2,3) by blast
qed

end

text \<open>The first packet that waits is handed to uIP, unless one is there, as far as there is room.\<close>

definition hands_over :: "uip \<Rightarrow> bool \<Rightarrow> uip \<Rightarrow> ('e, 's) fastboot_tcp_session \<Rightarrow> bool" where
  "hands_over u waiting u' tcp' \<longleftrightarrow>
     (if waiting \<or> outstanding tcp' = [] \<or> tcp_state tcp' = WAIT_FOR_HANDSHAKE then uip_sent u' = None
      else last_packet tcp' = Some (hd (outstanding tcp')) \<and>
        (let sent = take (uip_room u) (hd (outstanding tcp'))
         in uip_sent u' = (if sent = [] then None else Some sent)))"

definition event_ok ::
  "('e, 's, u8 list list) fastboot_cmd list \<Rightarrow> uip \<Rightarrow> ('e, 's) fastboot_tcp_session \<Rightarrow> uip \<Rightarrow>
   ('e, 's) fastboot_tcp_session \<Rightarrow> bool" where
  "event_ok cmds u tcp u' tcp' \<longleftrightarrow>
     (let acked = uip_flag UIP_ACKDATA u;
          before = (if acked then tl (outstanding tcp) else outstanding tcp)
      in hands_over u (last_packet tcp \<noteq> None \<and> \<not> acked) u' tcp' \<and>
        ((\<exists>out. outstanding tcp' = before @ out \<and>
            (if uip_flag UIP_NEWDATA u then reads cmds tcp (uip_appdata u) out u' tcp' else out = [])) \<or>
         uip_flag UIP_NEWDATA u \<and> oversized u' tcp'))"

lemma send_packet_hands_over:
  assumes "fastboot_tcp_send_packet u tcp = (u', tcp')" and "uip_sent u = None" and "last_packet tcp = None \<longleftrightarrow> \<not> waiting"
  shows "hands_over u waiting u' tcp'"
proof (cases "last_packet tcp \<noteq> None \<or> txq tcp = [] \<or> tcp_state tcp = WAIT_FOR_HANDSHAKE")
  case True
  then have "u' = u" "tcp' = tcp" using assms(1) by (auto simp: fastboot_tcp_send_packet_def)
  moreover have "waiting \<or> outstanding tcp = [] \<or> tcp_state tcp = WAIT_FOR_HANDSHAKE"
    using True assms(3) by (auto simp: outstanding_def)
  ultimately show ?thesis using assms(2) by (simp add: hands_over_def)
next
  case False
  then have t: "tcp' = (set_txq (tl (txq tcp)) tcp)\<lparr>last_packet := Some (hd (txq tcp))\<rparr>" "u' = uip_send (hd (txq tcp)) u"
    using assms(1) by (auto simp: fastboot_tcp_send_packet_def Let_def)
  have "hd (outstanding tcp') = hd (txq tcp)" "outstanding tcp' \<noteq> []" "last_packet tcp' = Some (hd (txq tcp))"
    "\<not> waiting" "tcp_state tcp' = tcp_state tcp"
    using assms(3) False by (simp_all add: t outstanding_def set_txq_def)
  then show ?thesis using False assms(2) by (auto simp: hands_over_def t(2) uip_send_def Let_def take_min)
qed

context tcp_client
begin

lemma send_packet_good:
  assumes "fastboot_tcp_send_packet u tcp = (u', tcp')" and "good (fb_session tcp)"
  shows "good (fb_session tcp')" and "fb_session tcp' = (fb_session tcp)\<lparr>link := txq tcp'\<rparr>"
    and "kept tcp' = kept tcp" and "wire_mode tcp' = wire_mode tcp" and "tcp_state tcp' = tcp_state tcp"
    and "data_left_to_receive tcp' = data_left_to_receive tcp"
    and "uip_flag f u' = uip_flag f u"
proof -
  have e: "tcp' = tcp \<and> u' = u \<or> (\<exists>q l. tcp' = (set_txq q tcp)\<lparr>last_packet := l\<rparr> \<and> uip_flags u' = uip_flags u)"
    using assms(1) by (auto simp: fastboot_tcp_send_packet_def Let_def uip_send_def split: if_splits)
  have s: "fb_session (set_txq q tcp) = (fb_session tcp)\<lparr>link := q\<rparr>" "data_left_to_receive (set_txq q tcp) = data_left_to_receive tcp" for q
    by (simp_all add: set_txq_def)
  show "good (fb_session tcp')" "fb_session tcp' = (fb_session tcp)\<lparr>link := txq tcp'\<rparr>"
    "kept tcp' = kept tcp" "wire_mode tcp' = wire_mode tcp" "tcp_state tcp' = tcp_state tcp"
    "data_left_to_receive tcp' = data_left_to_receive tcp" "uip_flag f u' = uip_flag f u"
    using e assms(2) s by (auto simp: link_good uip_flag_def)
qed

text \<open>
  One event of the connection. The packets on their way stay in order: an acknowledgement removes the
  first, the answers to the packets in new data go to the end, and what is given to uIP is the first of
  them, at most one at a time.
\<close>

lemma handle_session_event:
  assumes "fastboot_tcp_handle_session cmds u tcp = Some (st, u', tcp')" and "good (fb_session tcp)"
    and "uip_sent u = None"
    and "uip_conn u \<noteq> None" "fastboot_tcp_is_valid_conn u tcp" "\<not> uip_flag UIP_REXMIT u"
    and "\<not> uip_flag UIP_CLOSE u" "\<not> uip_flag UIP_ABORT u" "\<not> uip_flag UIP_TIMEDOUT u"
  shows "good (fb_session tcp') \<and> event_ok cmds u tcp u' tcp'"
proof -
  define t where "t = (if uip_flag UIP_ACKDATA u then tcp\<lparr>last_packet := None\<rparr> else tcp)"
  obtain u1 tcp1 st' where r: "(if uip_flag UIP_NEWDATA u
      then fastboot_tcp_recv cmds (uip_appdata u) u t else Some (u, t)) = Some (u1, tcp1)"
    and s: "fastboot_tcp_send_packet u1 tcp1 = (u', tcp')"
    and a: "uip_flag UIP_ACKDATA u \<Longrightarrow> last_packet tcp \<noteq> None"
    using assms unfolding t_def
    by (auto simp: fastboot_tcp_handle_session_def Let_def split: if_splits bind_splits prod.splits)
  have t: "fb_session t = fb_session tcp" "kept t = kept tcp" "wire_mode t = wire_mode tcp"
    "last_packet t = (if uip_flag UIP_ACKDATA u then None else last_packet tcp)"
    by (simp_all add: t_def)
  have o: "outstanding t = (if uip_flag UIP_ACKDATA u then tl (outstanding tcp) else outstanding tcp)"
    using a by (auto simp: outstanding_def t_def)
  have g: "good (fb_session t)" using assms(2) t(1) by simp
  have q: "good (fb_session tcp1) \<and> uip_sent u1 = None \<and> uip_room u1 = uip_room u"
    and rd: "if uip_flag UIP_NEWDATA u then buffer_reads (uip_appdata u) t u1 tcp1 \<or> oversized u1 tcp1 else tcp1 = t"
    using r recv_reads [OF _ g assms(7), of "uip_appdata u" "(u1, tcp1)"] g assms(3) by (auto split: if_splits)
  note k = send_packet_good [OF s conjunct1 [OF q]] and ord = send_packet_keeps_order [OF s]
  have h: "hands_over u1 (last_packet tcp1 \<noteq> None) u' tcp'"
    by (rule send_packet_hands_over [OF s]) (use q in simp_all)
  show ?thesis
  proof (cases "uip_flag UIP_NEWDATA u \<and> oversized u1 tcp1")
    case True
    then have ov: "oversized u' tcp'" using k ord by (simp add: oversized_def)
    then have "uip_sent u' = None" using h by (simp add: hands_over_def oversized_def)
    then have "hands_over u w u' tcp'" for w using ov by (simp add: hands_over_def oversized_def)
    then show ?thesis using True ov k(1) by (simp add: event_ok_def Let_def)
  next
    case False
    then have lp: "last_packet tcp1 = last_packet t" using rd by (auto simp: buffer_reads_def split: if_splits)
    then have w: "(last_packet tcp1 \<noteq> None) = (last_packet tcp \<noteq> None \<and> \<not> uip_flag UIP_ACKDATA u)" by (simp add: t(4))
    have ho: "hands_over u (last_packet tcp \<noteq> None \<and> \<not> uip_flag UIP_ACKDATA u) u' tcp'"
      using h unfolding w hands_over_def q [THEN conjunct2, THEN conjunct2] .
    have "\<exists>out. outstanding tcp' = outstanding t @ out \<and>
        (if uip_flag UIP_NEWDATA u then reads cmds tcp (uip_appdata u) out u' tcp' else out = [])"
    proof (cases "uip_flag UIP_NEWDATA u")
      case True
      then obtain items out unread where
        b: "kept tcp @ uip_appdata u = concat (map item_bytes items) @ kept tcp' @ unread"
          "wire_run cmds (fb_session tcp) (wire_mode tcp) items out (fb_session tcp1) (wire_mode tcp')"
          "unread \<noteq> [] \<longrightarrow> uip_flag UIP_CLOSE u' \<and> tcp_state tcp' = WAIT_FOR_HANDSHAKE \<and> take 4 unread \<noteq> handshake"
        using rd False unfolding buffer_reads_def t k by auto
      have "link (fb_session tcp1) = txq tcp @ out" by (rule wire_run_link [OF b(2)])
      then have "outstanding tcp' = outstanding t @ out" unfolding ord using lp t(1) by (simp add: outstanding_def)
      moreover have "reads cmds tcp (uip_appdata u) out u' tcp'" using b k(2) unfolding reads_def by blast
      ultimately show ?thesis using True by auto
    next
      case False
      then show ?thesis using rd ord by simp
    qed
    then show ?thesis using ho k(1) by (simp add: event_ok_def Let_def o)
  qed
qed

lemma handle_session_other:
  assumes "fastboot_tcp_handle_session cmds u tcp = Some (st, u', tcp')" and "good (fb_session tcp)"
  shows "uip_conn u = None \<or> \<not> fastboot_tcp_is_valid_conn u tcp \<or> uip_flag UIP_REXMIT u \<Longrightarrow> tcp' = tcp"
    and "uip_conn u \<noteq> None \<Longrightarrow> fastboot_tcp_is_valid_conn u tcp \<Longrightarrow> \<not> uip_flag UIP_REXMIT u \<Longrightarrow>
      uip_flag UIP_CLOSE u \<or> uip_flag UIP_ABORT u \<or> uip_flag UIP_TIMEDOUT u \<Longrightarrow> tcp' = tcp_reset_session tcp"
  using assms by (auto simp: fastboot_tcp_handle_session_def split: if_splits option.splits)

lemma handle_session_sent:
  assumes "fastboot_tcp_handle_session cmds u tcp = Some (st, u', tcp')" and "uip_sent u = None"
    and "good (fb_session tcp)" and "uip_sent u' = Some q"
  shows "\<exists>p. last_packet tcp' = Some p \<and> q = take (uip_room u) p"
proof (cases "uip_conn u = None \<or> \<not> fastboot_tcp_is_valid_conn u tcp \<or> uip_flag UIP_REXMIT u \<or>
      uip_flag UIP_CLOSE u \<or> uip_flag UIP_ABORT u \<or> uip_flag UIP_TIMEDOUT u")
  case True
  then show ?thesis using assms
    by (auto simp: fastboot_tcp_handle_session_def uip_send_def Let_def take_min split: if_splits option.splits)
next
  case False
  then have "hands_over u (last_packet tcp \<noteq> None \<and> \<not> uip_flag UIP_ACKDATA u) u' tcp'"
    using handle_session_event [OF assms(1,3,2)] by (simp add: event_ok_def Let_def)
  then show ?thesis using assms(4) by (auto simp: hands_over_def Let_def split: if_splits)
qed

end

text \<open>The commands of \<open>cmd.c\<close> on a session of this transport are such a client.\<close>

definition good_session ::
  "('e, 's) fb_env \<Rightarrow> ('s blockdev \<Rightarrow> 's \<Rightarrow> u8 list) \<Rightarrow> nat \<Rightarrow> ('e, 's, u8 list list) FastbootOps \<Rightarrow> bool" where
  "good_session env content k fb \<longleftrightarrow> fb_env_ok env content k \<and> mac_table_ends env \<and> ufs_ok env \<and>
     fb_inv env content k fb \<and> send_packet fb = fastboot_tcp_send"

lemma fold_tcp_send: "fold fastboot_tcp_send ps q = q @ map frame ps"
  by (induction ps arbitrary: q) (simp_all add: fastboot_tcp_send_def frame_def)

interpretation tcp: tcp_client "fastboot_cmds env" "good_session env content k" for env content k
proof (unfold_locales, goal_cases)
  case (1 fb p fb')
  then show ?case using packet_keeps [of env content k fb p fb']
    by (auto simp: good_session_def sends_def fold_tcp_send)
qed (auto simp: good_session_def fb_inv_def staging_ok_def)



end
