(* ===== verification/Fastboot_Usb.thy ===== *)
theory Fastboot_Usb
  imports Fastboot_Session
begin

text \<open>
  \<open>src/fastboot/usb.c\<close>: fastboot over an ALink USB cable. Every bulk transfer from the host is a packet,
  and the answers go out as bulk transfers. The devices that were probed are kept in a list; one whose
  endpoints are set is in use. The transfers themselves are the controller's: what a receive returns
  is an argument, and \<open>link\<close> is the list of packets sent.
\<close>

section \<open>Model\<close>

definition PL27A1_VID :: nat where "PL27A1_VID = 0x067b"
definition PL27A1_PID :: nat where "PL27A1_PID = 0x27a7"
definition GOOGLE_VID :: nat where "GOOGLE_VID = 0x18d1"
definition ALINK_CABLE_PID :: nat where "ALINK_CABLE_PID = 0x506d"
definition ALINK_DONGLE_PID :: nat where "ALINK_DONGLE_PID = 0x506e"
definition ALINKQ_DONGLE_PID :: nat where "ALINKQ_DONGLE_PID = 0x506f"
definition MAUI_PID :: nat where "MAUI_PID = 0x5084"
definition FB_EP_IN :: nat where "FB_EP_IN = 0x89"
definition FB_EP_OUT :: nat where "FB_EP_OUT = 0x08"
definition FASTBOOT_COMMAND_MAX :: nat where "FASTBOOT_COMMAND_MAX = 4096"

text \<open>libpayload's descriptions of a device: what the driver reads of them.\<close>

record endpoint_t =
  ep_endpoint :: nat
  ep_is_bulk :: bool
  ep_is_in :: bool

record usbdev_t =
  idVendor :: nat
  idProduct :: nat
  endpoints :: "endpoint_t list"

record ('e, 's) UsbFastbootDevice =
  usb_session :: "('e, 's, u8 list list) FastbootOps"
  bulk_in :: "endpoint_t option"
  bulk_out :: "endpoint_t option"
  usb_dev :: "usbdev_t option"
  usb_state :: fastboot_transport_state

definition is_usb_fastboot_in_use :: "('e, 's) UsbFastbootDevice \<Rightarrow> bool" where
  "is_usb_fastboot_in_use dev \<longleftrightarrow> bulk_in dev \<noteq> None \<and> bulk_out dev \<noteq> None"

text \<open>\<open>send_packet\<close> of the session: a bulk transfer, whose result \<open>fastboot.c\<close> ignores.\<close>

definition usb_fastboot_send :: "u8 list \<Rightarrow> u8 list list \<Rightarrow> u8 list list" where
  "usb_fastboot_send buf sent = sent @ [buf]"

text \<open>A bulk read returns \<open>USB_TIMEOUT\<close>, another negative error, or the data.\<close>

datatype bulk_result = USB_TIMEOUT | Bulk_error | Bulk_data "u8 list"

definition usb_fastboot_recv :: "bulk_result \<Rightarrow> u8 list option" where
  "usb_fastboot_recv r = (case r of Bulk_data d \<Rightarrow> Some (take FASTBOOT_COMMAND_MAX d) | _ \<Rightarrow> None)"

text \<open>\<open>usb_fastboot_release\<close>; \<open>None\<close> when the device is gone and its structure is freed.\<close>

definition usb_fastboot_release :: "('e, 's) UsbFastbootDevice \<Rightarrow> ('e, 's) UsbFastbootDevice option" where
  "usb_fastboot_release dev =
     (if usb_dev dev = None then None else Some (dev\<lparr>bulk_in := None, bulk_out := None\<rparr>))"

definition usb_fastboot_dev_poll ::
  "('e, 's, u8 list list) fastboot_cmd list \<Rightarrow> bulk_result \<Rightarrow> ('e, 's) UsbFastbootDevice \<Rightarrow>
   ('e, 's) UsbFastbootDevice option" where
  "usb_fastboot_dev_poll cmds bulk_timeout dev =
     (let dev = dev\<lparr>usb_state := FASTBOOT_TRANSPORT_IDLE\<rparr>
      in if \<not> is_usb_fastboot_in_use dev then Some dev
         else case usb_fastboot_recv bulk_timeout of
                None \<Rightarrow> Some dev
              | Some packet_buffer \<Rightarrow>
                  if packet_buffer = [] then Some dev
                  else map_option (\<lambda>fb. dev\<lparr>usb_session := fb, usb_state := FASTBOOT_TRANSPORT_RX_IN_PROGRESS\<rparr>)
                         (fastboot_handle_packet cmds packet_buffer (usb_session dev)))"

text \<open>\<open>usb_fastboot_poll\<close>: \<open>usb_poll\<close> polls the device, unless it was removed.\<close>

definition usb_fastboot_poll ::
  "('e, 's, u8 list list) fastboot_cmd list \<Rightarrow> bulk_result option \<Rightarrow> ('e, 's) UsbFastbootDevice \<Rightarrow>
   (fastboot_transport_state \<times> ('e, 's) UsbFastbootDevice) option" where
  "usb_fastboot_poll cmds polled dev =
     map_option (\<lambda>dev. (usb_state dev, dev))
       (case polled of None \<Rightarrow> Some dev | Some r \<Rightarrow> usb_fastboot_dev_poll cmds r dev)"

text \<open>The loop of \<open>usb_fastboot_init_endpoints\<close> over the endpoints, with the two found so far.\<close>

fun find_endpoints ::
  "endpoint_t list \<Rightarrow> endpoint_t option \<Rightarrow> endpoint_t option \<Rightarrow> (endpoint_t \<times> endpoint_t) option" where
  "find_endpoints [] i out = None"
| "find_endpoints (e # es) i out =
     (let (i, out) =
        (if i = None \<and> ep_endpoint e = FB_EP_IN \<and> ep_is_bulk e \<and> ep_is_in e then (Some e, out)
         else if out = None \<and> ep_endpoint e = FB_EP_OUT \<and> ep_is_bulk e \<and> \<not> ep_is_in e then (i, Some e)
         else (i, out))
      in case (i, out) of (Some a, Some b) \<Rightarrow> Some (a, b) | _ \<Rightarrow> find_endpoints es i out)"

definition usb_fastboot_init_endpoints ::
  "usbdev_t \<Rightarrow> ('e, 's) UsbFastbootDevice \<Rightarrow> bool \<times> ('e, 's) UsbFastbootDevice" where
  "usb_fastboot_init_endpoints d dev =
     (case find_endpoints (endpoints d) None None of
        Some (i, out) \<Rightarrow> (False, dev\<lparr>bulk_in := Some i, bulk_out := Some out\<rparr>)
      | None \<Rightarrow> (True, dev))"

text \<open>
  \<open>usb_fastboot_get_dev\<close>: the position of the device chosen and the devices. A device in the list
  has a \<open>usb_dev\<close>.
\<close>

fun usb_fastboot_get_dev ::
  "('e, 's) UsbFastbootDevice list \<Rightarrow> nat option \<times> ('e, 's) UsbFastbootDevice list" where
  "usb_fastboot_get_dev [] = (None, [])"
| "usb_fastboot_get_dev (dev # devs) =
     (let rest = (case usb_fastboot_get_dev devs of (n, devs) \<Rightarrow> (map_option Suc n, dev # devs))
      in if is_usb_fastboot_in_use dev then rest
         else case usb_fastboot_init_endpoints (the (usb_dev dev)) dev of
                (err, dev') \<Rightarrow> if \<not> err then (Some 0, dev' # devs) else rest)"

text \<open>\<open>usb_fastboot_probe\<close>: a supported device goes to the front of the list.\<close>

definition usb_supported :: "usbdev_t \<Rightarrow> bool" where
  "usb_supported dd \<longleftrightarrow> idVendor dd = PL27A1_VID \<and> idProduct dd = PL27A1_PID \<or>
     idVendor dd = GOOGLE_VID \<and>
       (idProduct dd = ALINK_CABLE_PID \<or> idProduct dd = ALINK_DONGLE_PID \<or>
        idProduct dd = ALINKQ_DONGLE_PID \<or> idProduct dd = PL27A1_PID \<or> idProduct dd = MAUI_PID)"

definition usb_fastboot_probe ::
  "('e, 's, u8 list list) FastbootOps \<Rightarrow> usbdev_t \<Rightarrow> ('e, 's) UsbFastbootDevice list \<Rightarrow>
   bool \<times> ('e, 's) UsbFastbootDevice list" where
  "usb_fastboot_probe zeroed d alink_devices =
     (if \<not> usb_supported d then (False, alink_devices)
      else (True,
        \<lparr>usb_session = zeroed\<lparr>send_packet := usb_fastboot_send, conn_type := FASTBOOT_USB_CONN,
           fb_serial := c_bytes ''USB''\<rparr>,
         bulk_in = None, bulk_out = None, usb_dev = Some d, usb_state = FASTBOOT_TRANSPORT_IDLE\<rparr>
        # alink_devices))"

text \<open>\<open>usb_fastboot_remove\<close> after the device has left the list: a session in use is disconnected and
  stays until it is released; otherwise the structure is freed.\<close>

definition usb_fastboot_remove :: "('e, 's) UsbFastbootDevice \<Rightarrow> ('e, 's) UsbFastbootDevice option" where
  "usb_fastboot_remove dev =
     (if is_usb_fastboot_in_use dev
      then Some (dev\<lparr>usb_session := (usb_session dev)\<lparr>fb_state := DISCONNECTED, fb_serial := []\<rparr>,
                     bulk_in := None, bulk_out := None, usb_dev := None\<rparr>)
      else None)"

text \<open>
  \<open>fastboot_setup_usb\<close>: up to four rounds. \<open>usb_poll\<close> may add devices; it is a function on the list
  for each round.
\<close>

fun setup_rounds ::
  "(('e, 's) UsbFastbootDevice list \<Rightarrow> ('e, 's) UsbFastbootDevice list) list \<Rightarrow>
   ('e, 's) UsbFastbootDevice list \<Rightarrow> nat option \<times> ('e, 's) UsbFastbootDevice list" where
  "setup_rounds [] devs = (None, devs)"
| "setup_rounds (usb_poll # polls) devs =
     (case usb_fastboot_get_dev (usb_poll devs) of
        (Some n, devs) \<Rightarrow> (Some n, devs)
      | (None, devs) \<Rightarrow> setup_rounds polls devs)"

definition fastboot_setup_usb ::
  "(nat \<Rightarrow> ('e, 's) UsbFastbootDevice list \<Rightarrow> ('e, 's) UsbFastbootDevice list) \<Rightarrow>
   ('e, 's) UsbFastbootDevice list \<Rightarrow> nat option \<times> ('e, 's) UsbFastbootDevice list" where
  "fastboot_setup_usb usb_poll devs = setup_rounds (map usb_poll [0..<4]) devs"

section \<open>Properties\<close>

text \<open>The device that is chosen was not in use, and then is; the others are as before.\<close>

lemma find_endpoints_some:
  "find_endpoints es i out = Some (a, b) \<Longrightarrow>
   (\<forall>x. i = Some x \<longrightarrow> ep_endpoint x = FB_EP_IN \<and> ep_is_bulk x \<and> ep_is_in x) \<Longrightarrow>
   (\<forall>x. out = Some x \<longrightarrow> ep_endpoint x = FB_EP_OUT \<and> ep_is_bulk x \<and> \<not> ep_is_in x) \<Longrightarrow>
   ep_endpoint a = FB_EP_IN \<and> ep_is_bulk a \<and> ep_is_in a \<and>
   ep_endpoint b = FB_EP_OUT \<and> ep_is_bulk b \<and> \<not> ep_is_in b"
  by (induction es i out rule: find_endpoints.induct)
    (auto simp: Let_def split: if_splits option.splits prod.splits)

lemma get_dev_chosen:
  "usb_fastboot_get_dev devs = (Some n, devs') \<Longrightarrow>
   n < length devs \<and> \<not> is_usb_fastboot_in_use (devs ! n) \<and> is_usb_fastboot_in_use (devs' ! n) \<and>
   usb_session (devs' ! n) = usb_session (devs ! n) \<and> devs' = devs[n := devs' ! n]"
proof (induction devs arbitrary: n devs')
  case (Cons d ds)
  obtain m es where r: "usb_fastboot_get_dev ds = (m, es)" by fastforce
  show ?case
  proof (cases "is_usb_fastboot_in_use d \<or> fst (usb_fastboot_init_endpoints (the (usb_dev d)) d)")
    case True
    then have "(map_option Suc m, d # es) = (Some n, devs')" using Cons.prems r
      by (auto simp: Let_def split: if_splits prod.splits)
    then obtain k where "m = Some k" "n = Suc k" "devs' = d # es" by auto
    then show ?thesis using Cons.IH [of k es] r by auto
  next
    case False
    then show ?thesis using Cons.prems
      by (auto simp: usb_fastboot_init_endpoints_def is_usb_fastboot_in_use_def Let_def
          split: if_splits option.splits prod.splits)
  qed
qed simp

text \<open>
  Polling a device in use handles the packets of the host, whole and in order: timeouts, errors and
  transfers without data change nothing.
\<close>

fun usb_polls ::
  "('e, 's, u8 list list) fastboot_cmd list \<Rightarrow> bulk_result list \<Rightarrow> ('e, 's) UsbFastbootDevice \<Rightarrow>
   ('e, 's) UsbFastbootDevice option" where
  "usb_polls cmds [] dev = Some dev"
| "usb_polls cmds (r # rs) dev = Option.bind (usb_fastboot_dev_poll cmds r dev) (usb_polls cmds rs)"

definition bulk_packets :: "bulk_result list \<Rightarrow> u8 list list" where
  "bulk_packets rs = filter (\<lambda>p. p \<noteq> []) (List.map_filter usb_fastboot_recv rs)"

lemma usb_polls_handle_packets:
  assumes "is_usb_fastboot_in_use dev"
  shows "map_option usb_session (usb_polls cmds rs dev) = handle_packets cmds (bulk_packets rs) (usb_session dev)"
  using assms
proof (induction rs arbitrary: dev)
  case (Cons r rs)
  have u: "is_usb_fastboot_in_use (dev\<lparr>usb_state := st\<rparr>)"
    "is_usb_fastboot_in_use (dev\<lparr>usb_session := fb, usb_state := st\<rparr>)" for st fb
    using Cons.prems by (simp_all add: is_usb_fastboot_in_use_def)
  show ?case
  proof (cases "usb_fastboot_recv r")
    case None
    then show ?thesis using Cons.IH [OF u(1)] u
      by (simp add: usb_fastboot_dev_poll_def bulk_packets_def map_filter_simps Let_def)
  next
    case (Some p)
    show ?thesis
    proof (cases "p = []")
      case True
      then show ?thesis using Some Cons.IH [OF u(1)] u
        by (simp add: usb_fastboot_dev_poll_def bulk_packets_def map_filter_simps Let_def)
    next
      case False
      then show ?thesis using Some Cons.IH [OF u(2)] u
        by (cases "fastboot_handle_packet cmds p (usb_session dev)")
          (simp_all add: usb_fastboot_dev_poll_def bulk_packets_def map_filter_simps Let_def)
    qed
  qed
qed (simp add: bulk_packets_def map_filter_simps)

text \<open>A device that is unplugged ends its session: it is disconnected and no packet reaches it.\<close>

lemma removed_device_ignores:
  assumes "usb_fastboot_remove dev = Some dev'"
  shows "fastboot_is_finished (usb_session dev') \<and> usb_fastboot_release dev' = None \<and>
    usb_fastboot_dev_poll cmds r dev' = Some (dev'\<lparr>usb_state := FASTBOOT_TRANSPORT_IDLE\<rparr>)"
  using assms by (auto simp: usb_fastboot_remove_def usb_fastboot_release_def usb_fastboot_dev_poll_def
      is_usb_fastboot_in_use_def fastboot_is_finished_def Let_def split: if_splits)

end
