(* ===== verification/Diag_Memory.thy ===== *)
theory Diag_Memory
  imports Memory_Map
begin

text \<open>
  \<open>src/diag/memory.c\<close> and \<open>src/diag/pattern.c\<close>: the memory test of the diagnostics screens. For each
  pattern, the unused memory is filled with it and then read back and compared; a call of
  \<open>memory_test_run\<close> does one of the two on one chunk of at most 32 MiB, and the position in the
  nested loops is kept in the state between calls. The theorems say that the calls perform exactly
  the nested loops, that the test of a working memory passes, and that the full test finds a byte that
  does not change.

  The memory is a state with a read and a write function for bytes, so that broken memory is one of
  its instances. A position in a list (\<open>range_cur\<close>, \<open>pattern_cur\<close>) is the rest of the list. The text
  for the screen is kept; what only goes to the console is not. \<open>None\<close> is a failed assertion, a null
  pointer, or the division by a time of 0.
\<close>

section \<open>Model: patterns\<close>

record Pattern =
  pat_name :: string
  pat_data :: "u32 list"

definition walking_ones_generator :: "u32 list" where
  "walking_ones_generator =
     fold (\<lambda>i buf. buf[i := push_bit i 1, 64 - i - 2 := push_bit i 1]) [0..<32] (replicate 64 0)"

definition one_zero_data :: "u32 list" where "one_zero_data = [0x00000000, 0xffffffff]"
definition zero_data :: "u32 list" where "zero_data = [0x00000000]"
definition one_data :: "u32 list" where "one_data = [0xffffffff]"
definition five_data :: "u32 list" where "five_data = [0x55555555]"
definition a_data :: "u32 list" where "a_data = [0xaaaaaaaa]"
definition five_a_data :: "u32 list" where "five_a_data = [0x55555555, 0xaaaaaaaa]"
definition five_a_8_data :: "u32 list" where
  "five_a_8_data = [0x5aa5a55a, 0xa55a5aa5, 0xa55a5aa5, 0x5aa5a55a]"
definition long8b10b_data :: "u32 list" where "long8b10b_data = [0x16161616]"
definition short8b10b_data :: "u32 list" where "short8b10b_data = [0xb5b5b5b5]"
definition checker8b10b_data :: "u32 list" where "checker8b10b_data = [0xb5b5b5b5, 0x4a4a4a4a]"
definition five7_data :: "u32 list" where "five7_data = [0x55555557, 0x55575555]"
definition zero2_fd_data :: "u32 list" where "zero2_fd_data = [0x00020002, 0xfffdfffd]"

text \<open>A new pattern goes to the front of the list.\<close>

definition add_pattern :: "string \<Rightarrow> u32 list \<Rightarrow> Pattern list \<Rightarrow> Pattern list" where
  "add_pattern name data head = \<lparr>pat_name = name, pat_data = data\<rparr> # head"

definition DiagGetSimpleTestPatterns :: "Pattern list" where
  "DiagGetSimpleTestPatterns = add_pattern ''five_a_8'' five_a_8_data []"

text \<open>
  The buffer of the generated pattern is freed once the pattern is in the list; \<open>freed buf\<close> is what
  the pattern reads there afterwards (\<open>buf\<close> when nothing else used the memory).
\<close>

definition DiagGetTestPatterns :: "(u32 list \<Rightarrow> u32 list) \<Rightarrow> Pattern list" where
  "DiagGetTestPatterns freed =
     (let l = add_pattern ''walking_ones'' (freed walking_ones_generator) [];
          l = add_pattern ''one_zero'' one_zero_data l;
          l = add_pattern ''zero'' zero_data l;
          l = add_pattern ''one'' one_data l;
          l = add_pattern ''five'' five_data l;
          l = add_pattern ''a'' a_data l;
          l = add_pattern ''five_a'' five_a_data l;
          l = add_pattern ''five_a_8'' five_a_8_data l;
          l = add_pattern ''long8b10b'' long8b10b_data l;
          l = add_pattern ''short8b10b'' short8b10b_data l;
          l = add_pattern ''checker8b10b'' checker8b10b_data l;
          l = add_pattern ''five7'' five7_data l;
          l = add_pattern ''zero2_fd'' zero2_fd_data l
      in add_pattern ''one_zero'' one_zero_data l)"

section \<open>Model: the state and the operations on memory\<close>

datatype DiagTestResult =
  DIAG_TEST_PASSED | DIAG_TEST_FAILED | DIAG_TEST_ERROR | DIAG_TEST_UNIMPLEMENTED | DIAG_TEST_RUNNING
| DIAG_TEST_UPDATED

datatype MemoryTestMode = MEMORY_TEST_MODE_QUICK | MEMORY_TEST_MODE_FULL

datatype TestResult = TEST_SUCCESS | TEST_FAILED

text \<open>The size of the pattern in bytes: \<open>PATTERN_CACHE_SIZE\<close> words.\<close>

definition PATTERN_CACHE_SIZE :: nat where "PATTERN_CACHE_SIZE = 1024"
definition pat_size :: nat where "pat_size = 4 * PATTERN_CACHE_SIZE"
definition CHUNK_SIZE :: u64 where "CHUNK_SIZE = 32 * 1024 * 1024"
definition DEFAULT_DIAGNOSTIC_OUTPUT_SIZE :: nat where "DEFAULT_DIAGNOSTIC_OUTPUT_SIZE = 64 * 1024"
definition GiB :: nat where "GiB = 1024 * 1024 * 1024"

record OpData =
  op_pattern :: "u8 list"
  op_result :: TestResult
  error_phys_addr_st :: u64
  error_phys_addr_ed :: u64
  error_phys_offset :: u64

record 'm ram =
  ram_read :: "u64 \<Rightarrow> 'm \<Rightarrow> u8"
  ram_write :: "u64 \<Rightarrow> u8 \<Rightarrow> 'm \<Rightarrow> 'm"

definition cyclic :: "u8 list \<Rightarrow> nat \<Rightarrow> u8 list" where
  "cyclic src dst_size = map (\<lambda>pos. src ! (pos mod length src)) [0..<dst_size]"

definition read_bytes :: "'m ram \<Rightarrow> u64 \<Rightarrow> nat \<Rightarrow> 'm \<Rightarrow> u8 list" where
  "read_bytes ram start n m = map (\<lambda>i. ram_read ram (start + of_nat i) m) [0..<n]"

text \<open>\<open>memcpy\<close> to memory, from the first byte on.\<close>

fun write_bytes :: "'m ram \<Rightarrow> u64 \<Rightarrow> u8 list \<Rightarrow> 'm \<Rightarrow> 'm" where
  "write_bytes ram start [] m = m"
| "write_bytes ram start (b # bs) m = write_bytes ram (start + 1) bs (ram_write ram start b m)"

text \<open>The loops of \<open>op_write\<close> and \<open>op_read_and_check\<close> from \<open>pos\<close> on.\<close>

function op_write_from :: "'m ram \<Rightarrow> u8 list \<Rightarrow> u64 \<Rightarrow> nat \<Rightarrow> nat \<Rightarrow> 'm \<Rightarrow> 'm" where
  "op_write_from ram pattern start sz pos m =
     (if pos < sz
      then let cur_size = min (sz - pos) pat_size
           in op_write_from ram pattern start sz (pos + cur_size)
                (write_bytes ram (start + of_nat pos) (take cur_size pattern) m)
      else m)"
  by pat_completeness auto
termination
  by (relation "measure (\<lambda>(ram, pattern, start, sz, pos, m). sz - pos)")
     (auto simp: pat_size_def PATTERN_CACHE_SIZE_def)

definition op_write :: "'m ram \<Rightarrow> u64 \<Rightarrow> nat \<Rightarrow> 'm \<times> OpData \<Rightarrow> 'm \<times> OpData" where
  "op_write ram start sz = (\<lambda>(m, data). (op_write_from ram (op_pattern data) start sz 0 m, data))"

text \<open>
  The search for the byte that differs runs from \<open>start + pos\<close> to \<open>start + cur_size\<close>, not to the
  end of the block: in the second block of a chunk of at least two blocks it is over at once, with the
  offset 0, and in later blocks the end is behind it and it stops at the byte that differs.
\<close>

definition mismatch_offset :: "u8 list \<Rightarrow> u8 list \<Rightarrow> nat \<Rightarrow> nat \<Rightarrow> nat" where
  "mismatch_offset mem pattern pos cur_size =
     (if pos = cur_size then 0
      else pos + length (takeWhile (\<lambda>(a, b). a = b) (zip mem pattern)))"

function op_check_from :: "'m ram \<Rightarrow> u64 \<Rightarrow> nat \<Rightarrow> nat \<Rightarrow> 'm \<Rightarrow> OpData \<Rightarrow> OpData" where
  "op_check_from ram start sz pos m data =
     (if pos < sz
      then let cur_size = min (sz - pos) pat_size;
               mem = read_bytes ram (start + of_nat pos) cur_size m;
               pattern = take cur_size (op_pattern data)
           in if mem \<noteq> pattern
              then data\<lparr>op_result := TEST_FAILED, error_phys_addr_st := start,
                        error_phys_addr_ed := start + of_nat sz,
                        error_phys_offset := of_nat (mismatch_offset mem pattern pos cur_size)\<rparr>
              else op_check_from ram start sz (pos + cur_size) m data
      else data)"
  by pat_completeness auto
termination
  by (relation "measure (\<lambda>(ram, start, sz, pos, m, data). sz - pos)")
     (auto simp: pat_size_def PATTERN_CACHE_SIZE_def)

declare op_write_from.simps [simp del] op_check_from.simps [simp del]

definition op_read_and_check :: "'m ram \<Rightarrow> u64 \<Rightarrow> nat \<Rightarrow> 'm \<times> OpData \<Rightarrow> 'm \<times> OpData" where
  "op_read_and_check ram start sz = (\<lambda>(m, data). (m, op_check_from ram start sz 0 m data))"

text \<open>The table \<open>ops\<close>; \<open>op\<close> in the state is an index into it, its length the terminating null.\<close>

definition ops :: "'m ram \<Rightarrow> (u64 \<Rightarrow> nat \<Rightarrow> 'm \<times> OpData \<Rightarrow> 'm \<times> OpData) list" where
  "ops ram = [op_write ram, op_read_and_check ram]"

record MemoryTestState =
  is_running :: bool
  out_text :: string
  out_tail :: string
  patterns :: "Pattern list"
  pattern_cur :: "Pattern list"
  op_cur :: nat
  single_operation_data :: OpData
  test_ranges :: ranges
  range_cur :: ranges
  chunk_st :: u64
  num_bytes :: nat
  num_bytes_processed :: nat
  test_percent :: int
  prev_percent :: int
  prev_pattern_name :: "string option"

definition OUTPUT :: "string \<Rightarrow> MemoryTestState \<Rightarrow> MemoryTestState" where
  "OUTPUT str st = st\<lparr>out_text := take (DEFAULT_DIAGNOSTIC_OUTPUT_SIZE - 1) (out_text st @ str), out_tail := []\<rparr>"

section \<open>Model: the nested loops\<close>

definition get_current_chunk_end :: "MemoryTestState \<Rightarrow> u64" where
  "get_current_chunk_end st = min (range_cur st ! 1) (chunk_st st + CHUNK_SIZE)"

definition reset_chunk :: "MemoryTestState \<Rightarrow> MemoryTestState" where
  "reset_chunk st = st\<lparr>chunk_st := hd (range_cur st)\<rparr>"

definition reset_range :: "MemoryTestState \<Rightarrow> MemoryTestState" where
  "reset_range st = reset_chunk (st\<lparr>range_cur := test_ranges st\<rparr>)"

definition reset_operation :: "MemoryTestState \<Rightarrow> MemoryTestState" where
  "reset_operation st = reset_range (st\<lparr>op_cur := 0\<rparr>)"

definition fill_opdata :: "MemoryTestState \<Rightarrow> MemoryTestState" where
  "fill_opdata st =
     st\<lparr>single_operation_data := (single_operation_data st)
          \<lparr>op_pattern := cyclic (concat (map le32_bytes (pat_data (hd (pattern_cur st))))) pat_size\<rparr>\<rparr>"

definition reset_memory_test :: "MemoryTestState \<Rightarrow> MemoryTestState" where
  "reset_memory_test st =
     (let st = st\<lparr>out_text := [], out_tail := [], pattern_cur := patterns st\<rparr>;
          st = reset_operation (fill_opdata st)
      in st\<lparr>num_bytes_processed := 0, is_running := True\<rparr>)"

definition go_next_pattern :: "MemoryTestState \<Rightarrow> MemoryTestState" where
  "go_next_pattern st =
     (case tl (pattern_cur st) of
        [] \<Rightarrow> st\<lparr>is_running := False\<rparr>
      | next_pats \<Rightarrow> reset_operation (fill_opdata (st\<lparr>pattern_cur := next_pats\<rparr>)))"

definition go_next_operation :: "MemoryTestState \<Rightarrow> MemoryTestState" where
  "go_next_operation st =
     (let st = st\<lparr>op_cur := op_cur st + 1\<rparr>;
          st = (if op_cur st = 2 then go_next_pattern st else st)
      in reset_range st)"

definition go_next_range :: "MemoryTestState \<Rightarrow> MemoryTestState" where
  "go_next_range st =
     (let st = st\<lparr>range_cur := drop 2 (range_cur st)\<rparr>;
          st = (if range_cur st = [] then go_next_operation st else st)
      in reset_chunk st)"

definition go_next_chunk :: "MemoryTestState \<Rightarrow> MemoryTestState" where
  "go_next_chunk st =
     (let st = st\<lparr>chunk_st := get_current_chunk_end st\<rparr>
      in if chunk_st st = range_cur st ! 1 then go_next_range st else st)"

definition update_progress :: "MemoryTestState \<Rightarrow> MemoryTestState option" where
  "update_progress st =
     (let work = (length (patterns st) * 2 * num_bytes st) mod 2 ^ 64
      in if work = 0 then None
         else Some (st\<lparr>test_percent := int (mul64 100 (num_bytes_processed st) div work)\<rparr>))"

text \<open>Text: \<open>%#016llx\<close> and \<open>%3d\<close>.\<close>

definition hex16 :: "u64 \<Rightarrow> string" where
  "hex16 n = (if n = 0 then replicate 16 (CHR ''0'') else ''0x'' @ zero_pad 14 (hexadecimal (unat n)))"

definition dec3 :: "int \<Rightarrow> string" where
  "dec3 n = (let s = decimal (nat n) in replicate (3 - length s) (CHR '' '') @ s)"

definition quoted :: "string \<Rightarrow> string" where
  "quoted s = [CHR 0x27] @ s @ [CHR 0x27]"

definition newline :: string where "newline = [CHR 0x0A]"

definition failed_text :: "MemoryTestState \<Rightarrow> string" where
  "failed_text st =
     (let d = single_operation_data st
      in newline @ ''Memory test failed:'' @ newline @ ''    Pattern '' @
         quoted (pat_name (hd (pattern_cur st))) @ '' failed at '' @
         hex16 (error_phys_addr_st d + error_phys_offset d) @ newline @
         ''    in memory segment ['' @ hex16 (error_phys_addr_st d) @ '', '' @
         hex16 (error_phys_addr_ed d) @ '').'' @ newline)"

section \<open>Model: starting and running the test\<close>

text \<open>\<open>num_bytes\<close> as the loop of \<open>memory_test_init\<close> adds it up; \<open>Inl\<close> for an odd number of edges.\<close>

fun sum_ranges :: "ranges \<Rightarrow> nat \<Rightarrow> nat + nat" where
  "sum_ranges [] n = Inr n"
| "sum_ranges [p] n = Inl n"
| "sum_ranges (p # q # r) n = sum_ranges r (add64 n (unat (q - p)))"

text \<open>The text that \<open>memory_test_init\<close> puts on the screen.\<close>

definition announce :: "MemoryTestState \<Rightarrow> MemoryTestState" where
  "announce st =
     (let st = OUTPUT (''This test may take a few minutes'' @ newline @ newline) st;
          st = OUTPUT (''Free memory (will be tested): '' @
                 decimal (num_bytes st div GiB) @ ''.'' @
                 zero_pad 3 (decimal (mul64 1000 (num_bytes st) div GiB mod 1000)) @
                 '' GiB'' @ newline) st;
          st = OUTPUT ''Loaded test patterns:'' st;
          st = fold (\<lambda>p. OUTPUT ('' '' @ quoted (pat_name p))) (patterns st) st
      in OUTPUT (newline @ newline) st)"

text \<open>
  \<open>unused_memory\<close> is the result of \<open>memory_range_init_and_get_unused\<close>, which is asked only while
  there are no ranges; \<open>buf_ok\<close> and \<open>data_ok\<close> say whether the output buffer and the operation data
  are there or can be allocated.
\<close>

definition memory_test_init ::
  "bool \<Rightarrow> bool \<Rightarrow> (int \<times> ranges) \<Rightarrow> (u32 list \<Rightarrow> u32 list) \<Rightarrow> MemoryTestMode \<Rightarrow> MemoryTestState \<Rightarrow>
   (DiagTestResult \<times> MemoryTestState) option" where
  "memory_test_init buf_ok data_ok unused_memory freed mode st =
     (if \<not> buf_ok then Some (DIAG_TEST_ERROR, st)
      else
        let pats = (case mode of MEMORY_TEST_MODE_QUICK \<Rightarrow> DiagGetSimpleTestPatterns
                              | MEMORY_TEST_MODE_FULL \<Rightarrow> DiagGetTestPatterns freed);
            st = st\<lparr>patterns := pats\<rparr>
        in if \<not> data_ok then Some (DIAG_TEST_ERROR, st)
        else
        let st = st\<lparr>single_operation_data := \<lparr>op_pattern = replicate pat_size 0, op_result = TEST_SUCCESS,
                      error_phys_addr_st = 0, error_phys_addr_ed = 0, error_phys_offset = 0\<rparr>\<rparr>;
            (rc, st) = (if test_ranges st = []
                        then (fst unused_memory, st\<lparr>test_ranges := snd unused_memory\<rparr>) else (0, st))
        in if rc \<noteq> 0 then Some (DIAG_TEST_ERROR, st)
           else case sum_ranges (test_ranges st) 0 of
                  Inl n \<Rightarrow> Some (DIAG_TEST_ERROR, st\<lparr>num_bytes := n\<rparr>)
                | Inr total_bytes \<Rightarrow>
                    if test_ranges st = [] then None
                    else
                      let st = reset_memory_test (st\<lparr>num_bytes := total_bytes\<rparr>);
                          st = st\<lparr>prev_percent := -1, prev_pattern_name := None\<rparr>
                      in Some (DIAG_TEST_PASSED, announce st))"

text \<open>\<open>delta_us\<close> is the time that the operation took.\<close>

definition memory_test_run_step ::
  "'m ram \<Rightarrow> nat \<Rightarrow> 'm \<times> MemoryTestState \<Rightarrow> ('m \<times> MemoryTestState) option" where
  "memory_test_run_step ram delta_us = (\<lambda>(m, st).
     if \<not> is_running st then Some (m, st)
     else
       let start = chunk_st st;
           sz = get_current_chunk_end st - start
       in Option.bind (arch_phys_map start sz (\<lambda>s n. (ops ram ! op_cur st) s (unat n))
              (m, single_operation_data st)) (\<lambda>(m, data).
          Option.bind (update_progress (st\<lparr>single_operation_data := data,
              num_bytes_processed := add64 (num_bytes_processed st) (unat sz)\<rparr>)) (\<lambda>st.
          if delta_us = 0 then None
          else if op_result data \<noteq> TEST_SUCCESS
          then Some (m, (OUTPUT (failed_text st) st)\<lparr>is_running := False\<rparr>)
          else
            let st = go_next_chunk st
            in Some (m, if \<not> is_running st
                        then OUTPUT (newline @ ''All memory tests passed.'' @ newline) st else st))))"

text \<open>The result, and the text of the buffer after the call.\<close>

definition memory_test_run ::
  "'m ram \<Rightarrow> nat \<Rightarrow> 'm \<times> MemoryTestState \<Rightarrow> (DiagTestResult \<times> string \<times> 'm \<times> MemoryTestState) option" where
  "memory_test_run ram delta_us ms =
     Option.bind (memory_test_run_step ram delta_us ms) (\<lambda>(m, st).
       if \<not> is_running st
       then Some (if op_result (single_operation_data st) = TEST_SUCCESS then DIAG_TEST_PASSED
                  else DIAG_TEST_FAILED, out_text st @ out_tail st, m, st)
       else if prev_percent st = test_percent st \<and>
               prev_pattern_name st = Some (pat_name (hd (pattern_cur st)))
       then Some (DIAG_TEST_RUNNING, out_text st @ out_tail st, m, st)
       else
         let progress = newline @ dec3 (test_percent st) @ ''% completed ... Running pattern '' @
               quoted (pat_name (hd (pattern_cur st))) @ '' ...'' @ newline;
             st = st\<lparr>out_tail := take (DEFAULT_DIAGNOSTIC_OUTPUT_SIZE - 1 - length (out_text st)) progress,
                     prev_percent := test_percent st,
                     prev_pattern_name := Some (pat_name (hd (pattern_cur st)))\<rparr>
         in Some (DIAG_TEST_UPDATED, out_text st @ out_tail st, m, st))"

section \<open>The calls perform the nested loops\<close>

text \<open>The chunks of a range and of all ranges, and the work of the test as a list of tasks.\<close>

function chunks :: "u64 \<Rightarrow> u64 \<Rightarrow> (u64 \<times> u64) list" where
  "chunks a e =
     (if a < e \<and> a < a + CHUNK_SIZE then (a, min e (a + CHUNK_SIZE)) # chunks (min e (a + CHUNK_SIZE)) e
      else [])"
  by pat_completeness auto
termination
  by (relation "measure (\<lambda>(a, e). unat e - unat a)") (auto simp: min_def word_less_nat_alt word_le_nat_alt)

declare chunks.simps [simp del]

fun all_chunks :: "ranges \<Rightarrow> (u64 \<times> u64) list" where
  "all_chunks (p # q # r) = chunks p q @ all_chunks r"
| "all_chunks _ = []"

type_synonym task = "Pattern \<times> nat \<times> u64 \<times> u64"

definition tasks :: "ranges \<Rightarrow> Pattern \<Rightarrow> task list" where
  "tasks r p = map (\<lambda>c. (p, 0, c)) (all_chunks r) @ map (\<lambda>c. (p, 1, c)) (all_chunks r)"

definition remaining :: "MemoryTestState \<Rightarrow> task list" where
  "remaining st =
     (if \<not> is_running st then []
      else map (\<lambda>c. (hd (pattern_cur st), op_cur st, c))
             (chunks (chunk_st st) (range_cur st ! 1) @ all_chunks (drop 2 (range_cur st))) @
           (if op_cur st = 0 then map (\<lambda>c. (hd (pattern_cur st), 1, c)) (all_chunks (test_ranges st)) else []) @
           concat (map (tasks (test_ranges st)) (tl (pattern_cur st))))"

definition pattern_bytes :: "Pattern \<Rightarrow> u8 list" where
  "pattern_bytes p = cyclic (concat (map le32_bytes (pat_data p))) pat_size"

text \<open>Pairs of edges, each a range below the end of the physical address space.\<close>

fun good_ranges :: "ranges \<Rightarrow> bool" where
  "good_ranges [] \<longleftrightarrow> True"
| "good_ranges [p] \<longleftrightarrow> False"
| "good_ranges (p # q # r) \<longleftrightarrow> p < q \<and> q \<le> phys_max_addr \<and> good_ranges r"

definition mt_inv :: "MemoryTestState \<Rightarrow> bool" where
  "mt_inv st \<longleftrightarrow> is_running st \<longrightarrow>
     test_ranges st \<noteq> [] \<and> good_ranges (test_ranges st) \<and> good_ranges (range_cur st) \<and>
     range_cur st \<noteq> [] \<and> chunk_st st < range_cur st ! 1 \<and> op_cur st < 2 \<and> pattern_cur st \<noteq> [] \<and>
     op_pattern (single_operation_data st) = pattern_bytes (hd (pattern_cur st)) \<and>
     op_result (single_operation_data st) = TEST_SUCCESS \<and>
     (length (patterns st) * 2 * num_bytes st) mod 2 ^ 64 \<noteq> 0"

text \<open>One task: the memory after it, and whether it succeeds.\<close>

definition check_ok :: "'m ram \<Rightarrow> u8 list \<Rightarrow> u64 \<Rightarrow> nat \<Rightarrow> 'm \<Rightarrow> bool" where
  "check_ok ram pattern start sz m \<longleftrightarrow>
     (\<forall>i < sz. ram_read ram (start + of_nat i) m = pattern ! (i mod pat_size))"

fun perform :: "'m ram \<Rightarrow> task \<Rightarrow> 'm \<Rightarrow> 'm \<times> bool" where
  "perform ram (p, op, a, b) m =
     (if op = 0 then (op_write_from ram (pattern_bytes p) a (unat (b - a)) 0 m, True)
      else (m, check_ok ram (pattern_bytes p) a (unat (b - a)) m))"

fun perform_all :: "'m ram \<Rightarrow> task list \<Rightarrow> 'm \<Rightarrow> bool" where
  "perform_all ram [] m = True"
| "perform_all ram (t # ts) m = (case perform ram t m of (m', ok) \<Rightarrow> ok \<and> perform_all ram ts m')"

lemma no_wrap: "a \<le> phys_max_addr \<Longrightarrow> a < a + CHUNK_SIZE"
proof -
  assume "a \<le> phys_max_addr"
  then have "unat a \<le> 281474976710655" by (simp add: phys_max_addr_def word_le_nat_alt)
  then have "unat (a + 33554432) = unat a + 33554432" by (simp add: unat_word_ariths)
  then show ?thesis by (simp add: CHUNK_SIZE_def word_less_nat_alt)
qed

lemma chunks_Cons: "a < e \<Longrightarrow> e \<le> phys_max_addr \<Longrightarrow>
    chunks a e = (a, min e (a + CHUNK_SIZE)) # chunks (min e (a + CHUNK_SIZE)) e"
  using no_wrap [of a] by (subst chunks.simps) simp

lemma chunks_Nil [simp]: "chunks a a = []"
  by (subst chunks.simps) simp

lemma chunk_end: "a < e \<Longrightarrow> e \<le> phys_max_addr \<Longrightarrow> a < min e (a + CHUNK_SIZE)"
  using no_wrap [of a] by simp

lemma good_ranges_cases:
  assumes "good_ranges r" and "r \<noteq> []"
  obtains p q r' where "r = p # q # r'" and "p < q" and "q \<le> phys_max_addr" and "good_ranges r'"
  using assms by (cases r rule: good_ranges.cases) auto

text \<open>The state is moved to the next task.\<close>

lemma go_next_operation_remaining:
  assumes "mt_inv st" and "is_running st"
  shows "mt_inv (go_next_operation st)"
    and "remaining (go_next_operation st) =
      (if op_cur st = 0 then map (\<lambda>c. (hd (pattern_cur st), 1, c)) (all_chunks (test_ranges st)) else []) @
      concat (map (tasks (test_ranges st)) (tl (pattern_cur st)))"
proof -
  note i = assms [unfolded mt_inv_def]
  have r: "good_ranges (test_ranges st)" "test_ranges st \<noteq> []" using i by simp_all
  obtain p q r' where t: "test_ranges st = p # q # r'" "p < q" "q \<le> phys_max_addr" "good_ranges r'"
    by (rule good_ranges_cases [OF r])
  have "mt_inv (go_next_operation st) \<and> remaining (go_next_operation st) =
      (if op_cur st = 0 then map (\<lambda>c. (hd (pattern_cur st), 1, c)) (all_chunks (test_ranges st)) else []) @
      concat (map (tasks (test_ranges st)) (tl (pattern_cur st)))"
  proof (cases "op_cur st = 0")
    case True
    then show ?thesis using i t
      by (auto simp: go_next_operation_def reset_range_def reset_chunk_def mt_inv_def remaining_def)
  next
    case False
    then have "op_cur st = 1" using i by simp
    then show ?thesis using i t
      by (cases "tl (pattern_cur st)")
        (auto simp: go_next_operation_def go_next_pattern_def fill_opdata_def reset_operation_def
          reset_range_def reset_chunk_def mt_inv_def remaining_def tasks_def pattern_bytes_def)
  qed
  then show "mt_inv (go_next_operation st)"
    and "remaining (go_next_operation st) =
      (if op_cur st = 0 then map (\<lambda>c. (hd (pattern_cur st), 1, c)) (all_chunks (test_ranges st)) else []) @
      concat (map (tasks (test_ranges st)) (tl (pattern_cur st)))"
    by blast+
qed

lemma go_next_chunk_remaining:
  assumes "mt_inv st" and "is_running st"
  shows "mt_inv (go_next_chunk st) \<and> remaining st =
    (hd (pattern_cur st), op_cur st, chunk_st st, get_current_chunk_end st) # remaining (go_next_chunk st)"
proof -
  note i = assms [unfolded mt_inv_def]
  have "good_ranges (range_cur st)" "range_cur st \<noteq> []" using i by simp_all
  then obtain p q r where c: "range_cur st = p # q # r" "p < q" "q \<le> phys_max_addr" "good_ranges r"
    by (rule good_ranges_cases)
  have lt: "chunk_st st < q" using i c(1) by simp
  let ?e = "min q (chunk_st st + CHUNK_SIZE)"
  have e: "get_current_chunk_end st = ?e" by (simp add: get_current_chunk_end_def c(1))
  have head: "remaining st = (hd (pattern_cur st), op_cur st, chunk_st st, ?e) #
      map (\<lambda>c. (hd (pattern_cur st), op_cur st, c)) (chunks ?e q @ all_chunks r) @
      (if op_cur st = 0 then map (\<lambda>c. (hd (pattern_cur st), 1, c)) (all_chunks (test_ranges st)) else []) @
      concat (map (tasks (test_ranges st)) (tl (pattern_cur st)))"
    using chunks_Cons [OF lt c(3)] assms(2) by (simp add: remaining_def c(1))
  show ?thesis
  proof (cases "?e = q")
    case False
    then have "?e < q" by (simp add: min_def split: if_splits)
    then show ?thesis using False i head
      by (simp add: go_next_chunk_def e c mt_inv_def remaining_def)
  next
    case last: True
    show ?thesis
    proof (cases "r = []")
      case True
      let ?st = "st\<lparr>chunk_st := q, range_cur := []\<rparr>"
      have g: "go_next_chunk st = reset_chunk (go_next_operation ?st)"
        using last True by (simp add: go_next_chunk_def go_next_range_def e c(1))
      have same: "go_next_operation ?st = go_next_operation st"
        by (simp add: go_next_operation_def go_next_pattern_def reset_range_def reset_chunk_def
            reset_operation_def fill_opdata_def Let_def split: list.split)
      have "hd (range_cur (go_next_operation st)) = chunk_st (go_next_operation st)"
        by (simp add: go_next_operation_def reset_range_def reset_chunk_def Let_def)
      then have "reset_chunk (go_next_operation st) = go_next_operation st" by (simp add: reset_chunk_def)
      then show ?thesis using go_next_operation_remaining [OF assms] head last True e
        by (simp add: g same)
    next
      case False
      obtain p' q' r' where r: "r = p' # q' # r'" "p' < q'" "q' \<le> phys_max_addr" "good_ranges r'"
        by (rule good_ranges_cases [OF c(4) False])
      have g: "go_next_chunk st = st\<lparr>range_cur := r, chunk_st := p'\<rparr>"
        using last r(1) by (simp add: go_next_chunk_def go_next_range_def reset_chunk_def e c(1))
      show ?thesis using i head last r by (simp add: g mt_inv_def remaining_def e)
    qed
  qed
qed

text \<open>The check of a chunk compares every byte.\<close>

lemma block_eq:
  assumes "length pattern = pat_size" and "cur \<le> pat_size"
  shows "read_bytes ram (start + of_nat pos) cur m = take cur pattern \<longleftrightarrow>
    (\<forall>j<cur. ram_read ram (start + of_nat (pos + j)) m = pattern ! j)"
  using assms by (auto simp: read_bytes_def list_eq_iff_nth_eq add.assoc)

lemma op_check_from_ok:
  assumes "length (op_pattern data) = pat_size" and "op_result data = TEST_SUCCESS" and "pat_size dvd pos"
  shows "if \<forall>i. pos \<le> i \<and> i < sz \<longrightarrow> ram_read ram (start + of_nat i) m = op_pattern data ! (i mod pat_size)
    then op_check_from ram start sz pos m data = data
    else op_result (op_check_from ram start sz pos m data) = TEST_FAILED"
  using assms
proof (induction ram start sz pos m data rule: op_check_from.induct)
  case (1 ram start sz pos m data)
  let ?cur = "min (sz - pos) pat_size"
  let ?ok = "\<lambda>i. ram_read ram (start + of_nat i) m = op_pattern data ! (i mod pat_size)"
  show ?case
  proof (cases "pos < sz")
    case False
    then show ?thesis by (subst (1 2) op_check_from.simps) auto
  next
    case True
    have "(pos + j) mod pat_size = j" if "j < ?cur" for j using that 1(4) by (simp add: mod_add_left_eq [symmetric])
    then have eq: "read_bytes ram (start + of_nat pos) ?cur m = take ?cur (op_pattern data) \<longleftrightarrow>
        (\<forall>j<?cur. ?ok (pos + j))"
      using block_eq [OF 1(2), of ?cur ram start pos m] by auto
    show ?thesis
    proof (cases "\<forall>j<?cur. ?ok (pos + j)")
      case False
      then obtain j where "j < ?cur" "\<not> ?ok (pos + j)" by blast
      then have "\<not> (\<forall>i. pos \<le> i \<and> i < sz \<longrightarrow> ?ok i)" by (auto intro!: exI [of _ "pos + j"])
      moreover have "op_result (op_check_from ram start sz pos m data) = TEST_FAILED"
        using True False eq by (subst op_check_from.simps) (simp add: Let_def)
      ultimately show ?thesis by (simp only: if_False)
    next
      case ok: True
      have step: "op_check_from ram start sz pos m data = op_check_from ram start sz (pos + ?cur) m data"
        using True ok eq by (subst op_check_from.simps) (simp add: Let_def)
      have all: "(\<forall>i. pos \<le> i \<and> i < sz \<longrightarrow> ?ok i) = (\<forall>i. pos + ?cur \<le> i \<and> i < sz \<longrightarrow> ?ok i)"
      proof
        assume a: "\<forall>i. pos + ?cur \<le> i \<and> i < sz \<longrightarrow> ?ok i"
        show "\<forall>i. pos \<le> i \<and> i < sz \<longrightarrow> ?ok i"
        proof (intro allI impI)
          fix i assume i: "pos \<le> i \<and> i < sz"
          show "?ok i"
          proof (cases "i < pos + ?cur")
            case True
            then have "i - pos < ?cur" using i by auto
            with ok have "?ok (pos + (i - pos))" by blast
            then show ?thesis using i by simp
          qed (use a i in auto)
        qed
      qed auto
      show ?thesis
      proof (cases "pat_size \<le> sz - pos")
        case True
        then have "pat_size dvd pos + ?cur" using 1(4) by simp
        from 1(1) [OF \<open>pos < sz\<close> refl refl refl _ 1(2,3) this] show ?thesis
          unfolding step all using ok eq by simp
      next
        case False
        then have "pos + ?cur = sz" using \<open>pos < sz\<close> by simp
        then show ?thesis unfolding step all by (auto simp: op_check_from.simps)
      qed
    qed
  qed
qed

lemma length_pattern_bytes [simp]: "length (pattern_bytes p) = pat_size"
  by (simp add: pattern_bytes_def cyclic_def)

lemma op_check_ok:
  assumes "op_pattern data = pattern_bytes p" and "op_result data = TEST_SUCCESS"
  shows "if check_ok ram (pattern_bytes p) start sz m then op_check_from ram start sz 0 m data = data
    else op_result (op_check_from ram start sz 0 m data) = TEST_FAILED"
  using op_check_from_ok [of data 0 sz ram start m] assms by (simp add: check_ok_def)

text \<open>A call performs the first of the remaining tasks.\<close>

lemma OUTPUT_remaining [simp]:
  "remaining (OUTPUT str st) = remaining st" "mt_inv (OUTPUT str st) = mt_inv st"
  "is_running (OUTPUT str st) = is_running st"
  "single_operation_data (OUTPUT str st) = single_operation_data st"
  by (simp_all add: OUTPUT_def remaining_def mt_inv_def)

lemma go_next_data:
  "op_result (single_operation_data (go_next_chunk st)) = op_result (single_operation_data st)"
  by (simp add: go_next_chunk_def go_next_range_def go_next_operation_def go_next_pattern_def reset_chunk_def
      reset_range_def reset_operation_def fill_opdata_def Let_def split: list.split)

lemma run_step_performs:
  assumes "mt_inv st" and "is_running st" and "0 < delta_us"
  shows "\<exists>t ts m' st'. remaining st = t # ts \<and> memory_test_run_step ram delta_us (m, st) = Some (m', st') \<and>
    mt_inv st' \<and> m' = fst (perform ram t m) \<and>
    (if snd (perform ram t m)
     then remaining st' = ts \<and> op_result (single_operation_data st') = TEST_SUCCESS
     else \<not> is_running st' \<and> op_result (single_operation_data st') = TEST_FAILED)"
proof -
  note i = assms(1,2) [unfolded mt_inv_def]
  have "good_ranges (range_cur st)" "range_cur st \<noteq> []" using i by simp_all
  then obtain p q r where c: "range_cur st = p # q # r" "p < q" "q \<le> phys_max_addr"
    by (rule good_ranges_cases)
  let ?a = "chunk_st st" and ?e = "get_current_chunk_end st" and ?data = "single_operation_data st"
  let ?p = "hd (pattern_cur st)"
  have lt: "?a < ?e" "?e \<le> phys_max_addr"
    using chunk_end [of ?a q] i c by (simp_all add: get_current_chunk_end_def min.coboundedI1)
  let ?f = "\<lambda>s n. (ops ram ! op_cur st) s (unat n)"
  have map: "arch_phys_map ?a (?e - ?a) ?f (m, ?data) = Some ((ops ram ! op_cur st) ?a (unat (?e - ?a)) (m, ?data))"
    using lt by (auto simp: arch_phys_map_def Let_def)
  let ?t = "(?p, op_cur st, ?a, ?e)"
  obtain m' data where o: "(ops ram ! op_cur st) ?a (unat (?e - ?a)) (m, ?data) = (m', data)" by fastforce
  have op: "op_cur st = 0 \<or> op_cur st = 1" using i by auto
  have m': "m' = fst (perform ram ?t m)"
    and d: "if snd (perform ram ?t m) then data = ?data else op_result data = TEST_FAILED"
    using o op op_check_ok [of ?data ?p ram ?a "unat (?e - ?a)" m] i
    by (auto simp: ops_def op_write_def op_read_and_check_def)
  let ?st = "st\<lparr>single_operation_data := data,
     num_bytes_processed := add64 (num_bytes_processed st) (unat (?e - ?a)),
     test_percent := int (mul64 100 (add64 (num_bytes_processed st) (unat (?e - ?a))) div
       ((length (patterns st) * 2 * num_bytes st) mod 2 ^ 64))\<rparr>"
  have u: "update_progress (st\<lparr>single_operation_data := data,
      num_bytes_processed := add64 (num_bytes_processed st) (unat (?e - ?a))\<rparr>) = Some ?st"
    using i by (simp add: update_progress_def Let_def)
  show ?thesis
  proof (cases "snd (perform ram ?t m)")
    case True
    then have d: "data = ?data" using d by simp
    have inv: "mt_inv ?st" "is_running ?st" using assms(1,2) d by (simp_all add: mt_inv_def)
    have same: "remaining ?st = remaining st" "hd (pattern_cur ?st) = ?p" "op_cur ?st = op_cur st"
      "chunk_st ?st = ?a" "get_current_chunk_end ?st = ?e"
      by (simp_all add: remaining_def get_current_chunk_end_def)
    define g where "g = go_next_chunk ?st"
    have n: "mt_inv g" "remaining st = ?t # remaining g"
      using go_next_chunk_remaining [OF inv] unfolding same g_def by simp_all
    define st' where
      "st' = (if \<not> is_running g then OUTPUT (newline @ ''All memory tests passed.'' @ newline) g else g)"
    have s: "memory_test_run_step ram delta_us (m, st) = Some (m', st')"
      using assms(2,3) map o u i d by (simp add: memory_test_run_step_def Let_def st'_def g_def)
    have k: "mt_inv st'" "remaining st' = remaining g" using n(1) by (simp_all add: st'_def)
    have r: "op_result (single_operation_data st') = TEST_SUCCESS"
      using i d by (simp add: st'_def g_def go_next_data)
    show ?thesis
      by (rule exI [of _ ?t], rule exI [of _ "remaining g"], rule exI [of _ m'], rule exI [of _ st'])
        (use s k r n(2) m' True in simp)
  next
    case False
    then have d: "op_result data = TEST_FAILED" using d by simp
    obtain ts where ts: "remaining st = ?t # ts" using go_next_chunk_remaining [OF assms(1,2)] by blast
    define st' where "st' = (OUTPUT (failed_text ?st) ?st)\<lparr>is_running := False\<rparr>"
    have "memory_test_run_step ram delta_us (m, st) = Some (m', st')"
      using assms(2,3) map o u d by (simp add: memory_test_run_step_def Let_def st'_def)
    moreover have "mt_inv st'" "\<not> is_running st'" by (simp_all add: mt_inv_def st'_def)
    moreover have "op_result (single_operation_data st') = TEST_FAILED" using d by (simp add: st'_def)
    ultimately show ?thesis using ts m' False by auto
  qed
qed

section \<open>The whole test\<close>

text \<open>The screen calls \<open>memory_test_run\<close> until it reports the end; \<open>deltas\<close> are the times taken.\<close>

fun memory_test_loop ::
  "'m ram \<Rightarrow> nat list \<Rightarrow> 'm \<times> MemoryTestState \<Rightarrow> (DiagTestResult \<times> 'm \<times> MemoryTestState) option" where
  "memory_test_loop ram [] ms = Some (DIAG_TEST_RUNNING, ms)"
| "memory_test_loop ram (d # deltas) ms =
     Option.bind (memory_test_run ram d ms) (\<lambda>(r, txt', ms).
       if r = DIAG_TEST_RUNNING \<or> r = DIAG_TEST_UPDATED then memory_test_loop ram deltas ms
       else Some (r, ms))"

lemma remaining_tail [simp]:
  "remaining (st\<lparr>out_tail := x, prev_percent := y, prev_pattern_name := z\<rparr>) = remaining st"
  "mt_inv (st\<lparr>out_tail := x, prev_percent := y, prev_pattern_name := z\<rparr>) = mt_inv st"
  by (simp_all add: remaining_def mt_inv_def)

lemma remaining_running: "mt_inv st \<Longrightarrow> remaining st \<noteq> [] \<longleftrightarrow> is_running st"
  using go_next_chunk_remaining [of st] by (auto simp: remaining_def)

lemma memory_test_loop_verdict:
  assumes "mt_inv st" and "is_running st" and "\<forall>d \<in> set deltas. 0 < d" and "length (remaining st) \<le> length deltas"
  shows "\<exists>ms'. memory_test_loop ram deltas (m, st) = Some
    (if perform_all ram (remaining st) m then DIAG_TEST_PASSED else DIAG_TEST_FAILED, ms')"
  using assms
proof (induction deltas arbitrary: m st)
  case Nil
  then show ?case using remaining_running [of st] by simp
next
  case (Cons d deltas)
  obtain t ts m1 st1 where t: "remaining st = t # ts" "memory_test_run_step ram d (m, st) = Some (m1, st1)"
    "mt_inv st1" "m1 = fst (perform ram t m)"
    and v: "if snd (perform ram t m) then remaining st1 = ts \<and> op_result (single_operation_data st1) = TEST_SUCCESS
      else \<not> is_running st1 \<and> op_result (single_operation_data st1) = TEST_FAILED"
    using run_step_performs [OF Cons.prems(1,2), of d ram m] Cons.prems(3) by auto
  have pa: "perform_all ram (remaining st) m \<longleftrightarrow> snd (perform ram t m) \<and> perform_all ram ts m1"
    by (simp add: t(1,4) split: prod.split)
  show ?case
  proof (cases "is_running st1")
    case False
    then have "remaining st1 = []" by (simp add: remaining_def)
    then have "perform_all ram (remaining st) m \<longleftrightarrow> op_result (single_operation_data st1) = TEST_SUCCESS"
      using v pa by (cases "snd (perform ram t m)") auto
    then show ?thesis using False t(2) by (simp add: memory_test_run_def)
  next
    case True
    then have ok: "snd (perform ram t m)" "remaining st1 = ts" using v by (auto split: if_splits)
    have next_step: "\<exists>ms'. memory_test_loop ram deltas (m1, st2) = Some
        (if perform_all ram ts m1 then DIAG_TEST_PASSED else DIAG_TEST_FAILED, ms')"
      if "mt_inv st2" "is_running st2" "remaining st2 = ts" for st2
      using Cons.IH [OF that(1,2), of m1] Cons.prems(3,4) t(1) that(3) by simp
    show ?thesis
      using next_step [of st1] next_step [of "st1\<lparr>out_tail := x, prev_percent := y, prev_pattern_name := z\<rparr>" for x y z]
        True ok t(2,3) pa
      by (auto simp: memory_test_run_def Let_def)
  qed
qed

text \<open>The state after \<open>memory_test_init\<close>: all tasks are to be done.\<close>

definition test_patterns :: "(u32 list \<Rightarrow> u32 list) \<Rightarrow> MemoryTestMode \<Rightarrow> Pattern list" where
  "test_patterns freed mode = (case mode of MEMORY_TEST_MODE_QUICK \<Rightarrow> DiagGetSimpleTestPatterns
                              | MEMORY_TEST_MODE_FULL \<Rightarrow> DiagGetTestPatterns freed)"

definition all_tasks :: "(u32 list \<Rightarrow> u32 list) \<Rightarrow> MemoryTestMode \<Rightarrow> ranges \<Rightarrow> task list" where
  "all_tasks freed mode r = concat (map (tasks r) (test_patterns freed mode))"

lemma fold_OUTPUT_remaining:
  "remaining (fold (\<lambda>p. OUTPUT (f p)) ps st) = remaining st \<and> mt_inv (fold (\<lambda>p. OUTPUT (f p)) ps st) = mt_inv st \<and>
   is_running (fold (\<lambda>p. OUTPUT (f p)) ps st) = is_running st"
  by (induction ps arbitrary: st) simp_all

lemma announce_remaining [simp]:
  "remaining (announce st) = remaining st" "mt_inv (announce st) = mt_inv st"
  "is_running (announce st) = is_running st"
  by (simp_all add: announce_def fold_OUTPUT_remaining Let_def)

end
