(* ===== verification/Diag_Verdict.thy ===== *)
theory Diag_Verdict
  imports Diag_Memory
begin

text \<open>
  What the memory test of \<open>src/diag/memory.c\<close> decides: from its start to its result, on memory that
  works and on memory with a bit that is stuck.
\<close>

section \<open>The chunks cover the ranges\<close>

lemma all_chunks_pairs: "all_chunks r = concat (map (\<lambda>(p, q). chunks p q) (ranges_pairs r))"
  by (induction r rule: ranges_pairs.induct) simp_all

lemma chunks_cover: "e \<le> phys_max_addr \<Longrightarrow> a \<le> x \<Longrightarrow> x < e \<Longrightarrow> \<exists>(c, d) \<in> set (chunks a e). c \<le> x \<and> x < d"
proof (induction a e rule: chunks.induct)
  case (1 a e)
  have lt: "a < e" using 1(3,4) by simp
  show ?case
  proof (cases "x < min e (a + CHUNK_SIZE)")
    case True
    then show ?thesis using 1(3) unfolding chunks_Cons [OF lt 1(2)] by auto
  next
    case False
    then have "min e (a + CHUNK_SIZE) \<le> x" by (rule leI)
    moreover have "a < e \<and> a < a + CHUNK_SIZE" using lt 1(2) no_wrap [of a] by simp
    ultimately have "\<exists>(c, d) \<in> set (chunks (min e (a + CHUNK_SIZE)) e). c \<le> x \<and> x < d"
      using 1(1) [OF _ 1(2) _ 1(4)] by blast
    then show ?thesis unfolding chunks_Cons [OF lt 1(2)] by auto
  qed
qed

text \<open>Chunks are in order, each behind the end of the one before.\<close>

definition ordered :: "(u64 \<times> u64) list \<Rightarrow> bool" where
  "ordered cs \<longleftrightarrow> sorted_wrt (\<lambda>c d. snd c \<le> fst d) cs \<and> (\<forall>c \<in> set cs. fst c < snd c)"

lemma chunks_within: "e \<le> phys_max_addr \<Longrightarrow> (c, d) \<in> set (chunks a e) \<Longrightarrow> a \<le> c \<and> c < d \<and> d \<le> e"
proof (induction a e rule: chunks.induct)
  case (1 a e)
  have g: "a < e \<and> a < a + CHUNK_SIZE" using 1(3) by (subst (asm) chunks.simps) (auto split: if_splits)
  have "(c, d) = (a, min e (a + CHUNK_SIZE)) \<or> (c, d) \<in> set (chunks (min e (a + CHUNK_SIZE)) e)"
    using 1(3) chunks_Cons [OF conjunct1 [OF g] 1(2)] by auto
  then show ?case
  proof
    assume "(c, d) \<in> set (chunks (min e (a + CHUNK_SIZE)) e)"
    from 1(1) [OF g 1(2) this] show ?thesis using g min.boundedI [of a e "a + CHUNK_SIZE"]
      by (meson less_imp_le order_trans)
  qed (use g in auto)
qed

lemma chunks_ordered: "e \<le> phys_max_addr \<Longrightarrow> ordered (chunks a e)"
proof (induction a e rule: chunks.induct)
  case (1 a e)
  show ?case
  proof (cases "a < e \<and> a < a + CHUNK_SIZE")
    case True
    have "ordered (chunks (min e (a + CHUNK_SIZE)) e)" by (rule 1(1) [OF True 1(2)])
    moreover have "min e (a + CHUNK_SIZE) \<le> c" if "(c, d) \<in> set (chunks (min e (a + CHUNK_SIZE)) e)" for c d
      using chunks_within [OF 1(2) that] by simp
    ultimately show ?thesis unfolding chunks_Cons [OF conjunct1 [OF True] 1(2)] using True
      by (fastforce simp: ordered_def)
  next
    case False
    then have "chunks a e = []" by (subst chunks.simps) simp
    then show ?thesis by (simp add: ordered_def)
  qed
qed

lemma ordered_append:
  "ordered (xs @ ys) \<longleftrightarrow> ordered xs \<and> ordered ys \<and> (\<forall>x \<in> set xs. \<forall>y \<in> set ys. snd x \<le> fst y)"
  by (auto simp: ordered_def sorted_wrt_append)

definition below_max :: "ranges \<Rightarrow> bool" where
  "below_max r \<longleftrightarrow> (\<forall>p \<in> set r. p \<le> phys_max_addr)"

lemma all_chunks_within:
  "below_max r \<Longrightarrow> c \<in> set (all_chunks r) \<Longrightarrow> \<exists>(p, q) \<in> set (ranges_pairs r). p \<le> fst c \<and> snd c \<le> q"
proof (induction r rule: all_chunks.induct)
  case (1 p q r)
  then have m: "q \<le> phys_max_addr" "below_max r" by (simp_all add: below_max_def)
  from 1(3) consider "c \<in> set (chunks p q)" | "c \<in> set (all_chunks r)" by auto
  then show ?case
  proof cases
    case 1
    then show ?thesis using chunks_within [OF m(1), of "fst c" "snd c" p] by auto
  next
    case 2
    then show ?thesis using "1.IH" [OF m(2)] by auto
  qed
qed simp_all

lemma ranges_pairs_set: "(p, q) \<in> set (ranges_pairs r) \<Longrightarrow> p \<in> set r \<and> q \<in> set r"
  by (induction r rule: ranges_pairs.induct) auto

lemma all_chunks_ordered: "ranges_inv r \<Longrightarrow> below_max r \<Longrightarrow> ordered (all_chunks r)"
proof (induction r rule: all_chunks.induct)
  case (1 p q r)
  have i: "ranges_inv r" "below_max r" "q \<le> phys_max_addr" "\<forall>x \<in> set r. q < x"
    using 1(2,3) by (auto simp: ranges_inv_def below_max_def)
  have "snd x \<le> fst y" if x: "x \<in> set (chunks p q)" and y: "y \<in> set (all_chunks r)" for x y
  proof -
    obtain p' q' where "(p', q') \<in> set (ranges_pairs r)" "p' \<le> fst y"
      using all_chunks_within [OF i(2) y] by auto
    then have "q < fst y" using ranges_pairs_set [of p' q' r] i(4) by (auto intro: less_le_trans)
    moreover have "snd x \<le> q" using chunks_within [OF i(3), of "fst x" "snd x" p] x by simp
    ultimately show ?thesis by (meson less_imp_le order_trans)
  qed
  then show ?case using 1(1) [OF i(1,2)] chunks_ordered [OF i(3)] by (simp add: ordered_append)
qed (simp_all add: ordered_def)

lemma all_chunks_cover:
  assumes "ranges_inv r" and "below_max r" and "in_ranges r x"
  shows "\<exists>(c, d) \<in> set (all_chunks r). c \<le> x \<and> x < d"
proof -
  obtain p q where p: "(p, q) \<in> set (ranges_pairs r)" "p \<le> x" "x < q"
    using assms(3) in_ranges_pairs [OF assms(1)] by auto
  have "q \<le> phys_max_addr" using ranges_pairs_set [OF p(1)] assms(2) by (simp add: below_max_def)
  from chunks_cover [OF this p(2,3)] p(1) show ?thesis unfolding all_chunks_pairs by fastforce
qed

section \<open>The start\<close>

lemma good_rangesI: "ranges_inv r \<Longrightarrow> below_max r \<Longrightarrow> good_ranges r"
  by (induction r rule: good_ranges.induct) (auto simp: ranges_inv_def below_max_def)

text \<open>The sum of the sizes does not wrap: it is below \<open>2 ^ 48\<close>, and positive.\<close>

lemma sum_ranges_total:
  assumes "ranges_inv r" and "below_max r" and "\<forall>p \<in> set r. n \<le> unat p"
  shows "\<exists>k. sum_ranges r n = Inr k \<and> n \<le> k \<and> (r \<noteq> [] \<longrightarrow> n < k \<and> k < 2 ^ 48) "
  using assms
proof (induction r n rule: sum_ranges.induct)
  case (3 p q r n)
  have q: "unat q < 2 ^ 48" using 3(3) by (simp add: below_max_def phys_max_addr_def word_le_nat_alt)
  have lt: "p < q" using 3(2) by (simp add: ranges_inv_def)
  then have s: "unat (q - p) = unat q - unat p" "unat p < unat q"
    by (simp_all add: unat_sub word_less_nat_alt less_imp_le)
  have n: "n \<le> unat p" using 3(4) by simp
  have a: "add64 n (unat (q - p)) = n + (unat q - unat p)" using n s q by (simp add: add64_def)
  have "\<forall>x \<in> set r. add64 n (unat (q - p)) \<le> unat x"
    using 3(2) n s unfolding a by (fastforce simp: ranges_inv_def word_less_nat_alt)
  moreover have "ranges_inv r" "below_max r" using 3(2,3) by (auto simp: ranges_inv_def below_max_def)
  ultimately obtain k where k: "sum_ranges r (add64 n (unat (q - p))) = Inr k"
    "add64 n (unat (q - p)) \<le> k" "r \<noteq> [] \<longrightarrow> k < 2 ^ 48"
    using 3(1) by blast
  have "n < k" using k(2) s(2) unfolding a by linarith
  moreover have "k < 2 ^ 48"
  proof (cases "r = []")
    case True
    then have "k = n + (unat q - unat p)" using k(1) a by simp
    then show ?thesis using n q s by linarith
  qed (use k in simp)
  ultimately show ?case using k(1) by simp
qed (auto simp: ranges_inv_def)

lemma patterns_length: "0 < length (test_patterns freed mode) \<and> length (test_patterns freed mode) \<le> 14"
  by (cases mode) (simp_all add: test_patterns_def DiagGetSimpleTestPatterns_def DiagGetTestPatterns_def
      add_pattern_def Let_def)

lemma memory_test_init_starts:
  assumes "R = (if test_ranges st = [] then snd unused_memory else test_ranges st)"
    and "test_ranges st = [] \<Longrightarrow> fst unused_memory = 0"
    and "ranges_inv R" and "below_max R" and "R \<noteq> []"
  shows "\<exists>st1. memory_test_init True True unused_memory freed mode st = Some (DIAG_TEST_PASSED, st1) \<and>
    mt_inv st1 \<and> is_running st1 \<and> remaining st1 = all_tasks freed mode R"
proof -
  obtain total_bytes where s: "sum_ranges R 0 = Inr total_bytes" "0 < total_bytes" "total_bytes < 2 ^ 48"
    using sum_ranges_total [OF assms(3,4), of 0] assms(5) by auto
  have g: "good_ranges R" by (rule good_rangesI [OF assms(3,4)])
  obtain p q r where r: "R = p # q # r" "p < q" "q \<le> phys_max_addr" "good_ranges r"
    by (rule good_ranges_cases [OF g assms(5)])
  let ?ps = "test_patterns freed mode"
  obtain p0 ps where ps: "?ps = p0 # ps" using patterns_length [of freed mode] by (cases ?ps) auto
  have "length ?ps * 2 * total_bytes \<le> 28 * total_bytes" using patterns_length [of freed mode] by simp
  also have "28 * total_bytes < 2 ^ 64" using s(3) by simp
  finally have "length ?ps * 2 * total_bytes < 2 ^ 64" .
  moreover have "0 < length ?ps * 2 * total_bytes" using s(2) patterns_length [of freed mode] by simp
  ultimately have nz: "(length ?ps * 2 * total_bytes) mod 2 ^ 64 \<noteq> 0" by simp
  define st0 where "st0 = st\<lparr>patterns := ?ps,
     single_operation_data := \<lparr>op_pattern = replicate pat_size 0, op_result = TEST_SUCCESS,
       error_phys_addr_st = 0, error_phys_addr_ed = 0, error_phys_offset = 0\<rparr>,
     test_ranges := R, num_bytes := total_bytes\<rparr>"
  let ?st1 = "(reset_memory_test st0)\<lparr>prev_percent := -1, prev_pattern_name := None\<rparr>"
  have "mt_inv ?st1 \<and> is_running ?st1 \<and> remaining ?st1 = all_tasks freed mode R"
    using r nz g by (simp add: st0_def ps mt_inv_def remaining_def reset_memory_test_def reset_operation_def
        reset_range_def reset_chunk_def fill_opdata_def pattern_bytes_def all_tasks_def tasks_def Let_def)
  moreover have "memory_test_init True True unused_memory freed mode st = Some (DIAG_TEST_PASSED, announce ?st1)"
    using assms(1,2,5) s(1)
    by (cases "test_ranges st = []") (simp_all add: memory_test_init_def st0_def test_patterns_def)
  ultimately show ?thesis by simp
qed

section \<open>Working memory\<close>

text \<open>A write changes the byte at its address and no other, and a read returns what was written.\<close>

definition good_ram :: "'m ram \<Rightarrow> bool" where
  "good_ram ram \<longleftrightarrow>
     (\<forall>a b v m. ram_read ram a (ram_write ram b v m) = (if a = b then v else ram_read ram a m))"

lemma offset_pred: "(x :: u64) \<noteq> a \<Longrightarrow> unat (x - a) = Suc (unat (x - (a + 1)))"
proof -
  assume "x \<noteq> a"
  then have n: "x - a \<noteq> 0" by simp
  then have "unat (x - a) \<noteq> 0" by (simp add: unat_eq_zero)
  moreover have "x - (a + 1) = x - a - 1" by (simp add: algebra_simps)
  ultimately show ?thesis by (simp only: unat_minus_one [OF n])
qed

lemma minus_one_u64: "unat (- 1 :: u64) = 2 ^ 64 - 1"
  by (simp add: unsigned_minus_1_eq_mask mask_eq_exp_minus_1)

lemma write_bytes_read:
  assumes "good_ram ram" and "length bs < 2 ^ 64"
  shows "ram_read ram x (write_bytes ram a bs m) =
    (if unat (x - a) < length bs then bs ! unat (x - a) else ram_read ram x m)"
  using assms(2)
proof (induction bs arbitrary: a m)
  case (Cons b bs)
  have IH: "ram_read ram x (write_bytes ram (a + 1) bs m') =
    (if unat (x - (a + 1)) < length bs then bs ! unat (x - (a + 1)) else ram_read ram x m')" for m'
    using Cons.IH Cons.prems by simp
  show ?case
  proof (cases "x = a")
    case True
    have "x - (a + 1) = - 1" using True by simp
    then have "unat (x - (a + 1)) = 2 ^ 64 - 1" by (simp add: minus_one_u64)
    then have "\<not> unat (x - (a + 1)) < length bs" using Cons.prems by simp
    then have "ram_read ram x (write_bytes ram (a + 1) bs m') = ram_read ram x m'" for m'
      using IH [of m'] by simp
    then show ?thesis using True assms(1) by (simp add: good_ram_def)
  next
    case False
    then show ?thesis using assms(1) by (simp add: IH good_ram_def offset_pred)
  qed
qed simp

text \<open>Writing a chunk, and all chunks in order.\<close>

lemma op_write_from_read:
  assumes "good_ram ram" and "length pattern = pat_size" and "sz < 2 ^ 64" and "pat_size dvd pos" and "pos \<le> sz"
  shows "ram_read ram x (op_write_from ram pattern start sz pos m) =
    (if pos \<le> unat (x - start) \<and> unat (x - start) < sz then pattern ! (unat (x - start) mod pat_size)
     else ram_read ram x m)"
  using assms
proof (induction ram pattern start sz pos m rule: op_write_from.induct)
  case (1 ram pattern start sz pos m)
  show ?case
  proof (cases "pos < sz")
    case False
    then show ?thesis by (subst op_write_from.simps) auto
  next
    case True
    let ?cur = "min (sz - pos) pat_size" and ?d = "unat (x - start)"
    let ?m = "write_bytes ram (start + of_nat pos) (take ?cur pattern) m"
    have len: "length (take ?cur pattern) = ?cur" using 1(3) by simp
    have p: "pos < 2 ^ 64" using 1(4) True by simp
    have o: "unat (x - (start + of_nat pos)) = (if pos \<le> ?d then ?d - pos else ?d + 2 ^ 64 - pos)"
    proof -
      have a: "x - (start + of_nat pos) = x - start - of_nat pos" by (simp add: algebra_simps)
      have b: "unat (of_nat pos :: u64) = pos" using p by (simp add: unat_of_nat)
      show ?thesis unfolding a unat_sub_if' b by simp
    qed
    have cur: "?cur \<le> sz - pos" "?cur \<le> pat_size" "0 < ?cur"
      using True by (simp_all add: pat_size_def PATTERN_CACHE_SIZE_def)
    have in_block: "unat (x - (start + of_nat pos)) < ?cur \<longleftrightarrow> pos \<le> ?d \<and> ?d < pos + ?cur"
      unfolding o using cur 1(4) p by auto
    have "ram_read ram x ?m = (if pos \<le> ?d \<and> ?d < pos + ?cur then take ?cur pattern ! (?d - pos) else ram_read ram x m)"
    proof -
      have "length (take ?cur pattern) < 2 ^ 64" unfolding len using cur(1) 1(4) by linarith
      from write_bytes_read [OF 1(2) this, of x "start + of_nat pos" m] show ?thesis
        unfolding len in_block by (simp only: o if_True cong: if_cong conj_cong)
    qed
    moreover have "?d - pos = ?d mod pat_size" if "pos \<le> ?d" "?d < pos + ?cur"
    proof -
      obtain k where k: "pos = pat_size * k" using 1(5) by blast
      have "?d = (?d - pos) + pat_size * k" using that k by simp
      then have "?d mod pat_size = (?d - pos) mod pat_size" by (metis mod_mult_self2)
      then show ?thesis using that cur(2) by simp
    qed
    ultimately have m: "ram_read ram x ?m =
        (if pos \<le> ?d \<and> ?d < pos + ?cur then pattern ! (?d mod pat_size) else ram_read ram x m)"
      using 1(3) by auto
    have step: "op_write_from ram pattern start sz pos m = op_write_from ram pattern start sz (pos + ?cur) ?m"
      using True by (subst op_write_from.simps) (simp add: Let_def)
    show ?thesis
    proof (cases "pat_size \<le> sz - pos")
      case big: True
      then have "pat_size dvd pos + ?cur" "pos + ?cur \<le> sz" using 1(5) True by simp_all
      from 1(1) [OF True refl 1(2-4) this] show ?thesis unfolding step using m cur(1,3) True by auto
    next
      case False
      then have "pos + ?cur = sz" using True by simp
      then show ?thesis unfolding step using m by (simp add: op_write_from.simps)
    qed
  qed
qed

lemma in_chunk: "(a :: u64) < b \<Longrightarrow> unat (x - a) < unat (b - a) \<longleftrightarrow> a \<le> x \<and> x < b"
proof -
  assume lt: "a < b"
  then have s: "unat (b - a) = unat b - unat a" "unat a < unat b"
    by (simp_all add: unat_sub word_less_nat_alt less_imp_le)
  have "unat (x - a) =
      (if unat a \<le> unat x then unat x - unat a else unat x + 18446744073709551616 - unat a)"
    by (simp add: unat_sub_if')
  moreover have "(d < unat b - unat a) \<longleftrightarrow> unat a \<le> unat x \<and> unat x < unat b"
    if "d = (if unat a \<le> unat x then unat x - unat a else unat x + 18446744073709551616 - unat a)" for d
  proof -
    define B where "B = unat b"
    have "B < 18446744073709551616" unfolding B_def by (rule unat_less_64)
    moreover have "unat a < B" using s(2) by (simp add: B_def)
    ultimately show ?thesis using that unfolding B_def [symmetric] by (auto split: if_splits)
  qed
  ultimately show ?thesis unfolding s(1) word_less_nat_alt word_le_nat_alt by blast
qed

definition after_writes :: "'m ram \<Rightarrow> Pattern \<Rightarrow> (u64 \<times> u64) list \<Rightarrow> 'm \<Rightarrow> 'm" where
  "after_writes ram p cs = fold (\<lambda>(a, b). op_write_from ram (pattern_bytes p) a (unat (b - a)) 0) cs"

lemma write_chunk_read:
  assumes "good_ram ram" and "a < b"
  shows "ram_read ram x (op_write_from ram (pattern_bytes p) a (unat (b - a)) 0 m) =
    (if a \<le> x \<and> x < b then pattern_bytes p ! (unat (x - a) mod pat_size) else ram_read ram x m)"
  using op_write_from_read [OF assms(1) length_pattern_bytes, of "unat (b - a)" 0 x p a m]
    unat_less_64 [of "b - a"] in_chunk [OF assms(2), of x] by simp

lemma after_writes_outside:
  "good_ram ram \<Longrightarrow> ordered cs \<Longrightarrow> \<forall>(a, b) \<in> set cs. \<not> (a \<le> x \<and> x < b) \<Longrightarrow>
   ram_read ram x (after_writes ram p cs m) = ram_read ram x m"
proof (induction cs arbitrary: m)
  case (Cons c cs)
  obtain a b where c: "c = (a, b)" by fastforce
  have "ordered cs" "a < b" using Cons.prems(2) by (auto simp: ordered_def c)
  then show ?case using Cons.IH [of "op_write_from ram (pattern_bytes p) a (unat (b - a)) 0 m"] Cons.prems(1,3)
      write_chunk_read [OF Cons.prems(1), of a b x p m] by (auto simp: after_writes_def c)
qed (simp add: after_writes_def)

lemma after_writes_inside:
  "good_ram ram \<Longrightarrow> ordered cs \<Longrightarrow> (a, b) \<in> set cs \<Longrightarrow> a \<le> x \<Longrightarrow> x < b \<Longrightarrow>
   ram_read ram x (after_writes ram p cs m) = pattern_bytes p ! (unat (x - a) mod pat_size)"
proof (induction cs arbitrary: m)
  case (Cons c cs)
  obtain a' b' where c: "c = (a', b')" by fastforce
  have o: "ordered cs" "a' < b'" using Cons.prems(2) by (auto simp: ordered_def c)
  let ?m = "op_write_from ram (pattern_bytes p) a' (unat (b' - a')) 0 m"
  have unf: "after_writes ram p (c # cs) m = after_writes ram p cs ?m" by (simp add: after_writes_def c)
  show ?case
  proof (cases "(a, b) \<in> set cs")
    case True
    then show ?thesis using Cons.IH [OF Cons.prems(1) o(1) True Cons.prems(4,5)] by (simp add: unf)
  next
    case False
    then have e: "a' = a" "b' = b" using Cons.prems(3) c by auto
    have "\<forall>(d, f) \<in> set cs. b \<le> d" using Cons.prems(2) by (auto simp: ordered_def c e)
    then have "\<forall>(d, f) \<in> set cs. \<not> (d \<le> x \<and> x < f)" using Cons.prems(5) by (force dest: leD)
    from after_writes_outside [OF Cons.prems(1) o(1) this] show ?thesis
      using write_chunk_read [OF Cons.prems(1), of a b x p m] o(2) Cons.prems(4,5) by (simp add: unf e)
  qed
qed simp

lemma perform_writes: "perform_all ram (map (\<lambda>c. (p, 0, c)) cs @ ts) m = perform_all ram ts (after_writes ram p cs m)"
proof (induction cs arbitrary: m)
  case (Cons c cs)
  obtain a b where c: "c = (a, b)" by fastforce
  show ?case unfolding c by (simp add: Cons.IH after_writes_def)
qed (simp add: after_writes_def)

lemma perform_checks:
  "perform_all ram (map (\<lambda>c. (p, Suc 0, c)) cs @ ts) m \<longleftrightarrow>
   (\<forall>(a, b) \<in> set cs. check_ok ram (pattern_bytes p) a (unat (b - a)) m) \<and> perform_all ram ts m"
  by (induction cs) auto

lemma perform_tasks:
  "perform_all ram (tasks r p @ ts) m \<longleftrightarrow>
   (\<forall>(a, b) \<in> set (all_chunks r). check_ok ram (pattern_bytes p) a (unat (b - a))
      (after_writes ram p (all_chunks r) m)) \<and> perform_all ram ts (after_writes ram p (all_chunks r) m)"
  by (simp add: tasks_def perform_writes perform_checks)

lemma good_ram_checks:
  assumes "good_ram ram" and "ordered cs" and "(a, b) \<in> set cs"
  shows "check_ok ram (pattern_bytes p) a (unat (b - a)) (after_writes ram p cs m)"
  unfolding check_ok_def
proof (intro allI impI)
  fix i assume i: "i < unat (b - a)"
  have lt: "a < b" using assms(2,3) by (auto simp: ordered_def)
  have "i < 18446744073709551616" using i unat_less_64 [of "b - a"] by linarith
  then have u: "unat (of_nat i :: u64) = i" by (simp add: unat_of_nat)
  then have "unat (a + of_nat i - a) < unat (b - a)" using i by simp
  then have "a \<le> a + of_nat i \<and> a + of_nat i < b" using in_chunk [OF lt] by blast
  with after_writes_inside [OF assms, of "a + of_nat i" p m] u
  show "ram_read ram (a + of_nat i) (after_writes ram p cs m) = pattern_bytes p ! (i mod pat_size)" by simp
qed

lemma good_ram_passes:
  assumes "good_ram ram" and "ordered (all_chunks r)"
  shows "perform_all ram (concat (map (tasks r) ps)) m"
proof (induction ps arbitrary: m)
  case (Cons p ps)
  then show ?case using good_ram_checks [OF assms] by (auto simp: perform_tasks)
qed simp

section \<open>Memory with a stuck bit\<close>

lemma all_patterns_checked:
  "perform_all ram (concat (map (tasks r) ps)) m \<Longrightarrow> p \<in> set ps \<Longrightarrow>
   \<exists>m'. \<forall>(a, b) \<in> set (all_chunks r). check_ok ram (pattern_bytes p) a (unat (b - a)) m'"
proof (induction ps arbitrary: m)
  case (Cons q ps)
  then show ?case by (cases "p = q") (auto simp: perform_tasks)
qed simp

lemma constant_pattern_bytes:
  assumes "pat_data p = [w]" and "le32_bytes w = [v, v, v, v]" and "i < pat_size"
  shows "pattern_bytes p ! i = v"
proof -
  have "i mod 4 < 4" by simp
  then have "i mod 4 \<in> {0, 1, 2, 3}" by auto
  then show ?thesis using assms by (auto simp: pattern_bytes_def cyclic_def)
qed

lemma stuck_bit_found:
  assumes "\<And>m. bit (ram_read ram x m) i = v" and "i < 8" and "(a, b) \<in> set (all_chunks r)" and "a \<le> x" "x < b"
  shows "\<not> perform_all ram (concat (map (tasks r) (test_patterns freed MEMORY_TEST_MODE_FULL))) m"
proof
  let ?ps = "test_patterns freed MEMORY_TEST_MODE_FULL"
  assume p: "perform_all ram (concat (map (tasks r) ?ps)) m"
  have byte: "\<exists>m'. ram_read ram x m' = w"
    if c: "\<lparr>pat_name = n, pat_data = [d]\<rparr> \<in> set ?ps" and d: "le32_bytes d = [w, w, w, w]" for n d w
  proof -
    let ?p = "\<lparr>pat_name = n, pat_data = [d]\<rparr>"
    obtain m' where "check_ok ram (pattern_bytes ?p) a (unat (b - a)) m'"
      using all_patterns_checked [OF p c] assms(3) by fast
    moreover have "unat (x - a) < unat (b - a)" using in_chunk [of a b x] assms(4,5) by simp
    ultimately have "ram_read ram (a + of_nat (unat (x - a))) m' = pattern_bytes ?p ! (unat (x - a) mod pat_size)"
      unfolding check_ok_def by blast
    also have "\<dots> = w"
      by (rule constant_pattern_bytes) (use d in \<open>simp_all add: pat_size_def PATTERN_CACHE_SIZE_def\<close>)
    finally show ?thesis by (auto simp: unat_of_nat)
  qed
  have "\<lparr>pat_name = ''zero'', pat_data = [0]\<rparr> \<in> set ?ps" "\<lparr>pat_name = ''one'', pat_data = [0xffffffff]\<rparr> \<in> set ?ps"
    by (simp_all add: test_patterns_def DiagGetTestPatterns_def add_pattern_def zero_data_def one_data_def Let_def)
  moreover have "le32_bytes 0 = [0, 0, 0, 0]" "le32_bytes 0xffffffff = [0xff, 0xff, 0xff, 0xff]" by code_simp+
  ultimately obtain m1 m2 where "ram_read ram x m1 = 0" "ram_read ram x m2 = 0xff" using byte by meson
  then have "v = bit (0 :: u8) i" "v = bit (0xff :: u8) i" using assms(1) by metis+
  moreover have "bit (0xff :: u8) i"
  proof -
    have "\<forall>i \<in> set [0..<8]. bit (0xff :: u8) i" by code_simp
    then show ?thesis using assms(2) by simp
  qed
  ultimately show False by simp
qed

section \<open>Properties\<close>

lemma length_all_tasks:
  "length (all_tasks freed mode r) = 2 * length (test_patterns freed mode) * length (all_chunks r)"
  by (simp add: all_tasks_def tasks_def length_concat o_def sum_list_triv mult.assoc mult.commute)

text \<open>
  C29. Started on ranges of memory in order and below the end of the physical address space, and called
  often enough (twice per pattern and chunk, no call taking no time), the memory test ends with a
  verdict: that the memory is good, if a byte reads as what was last written to it and writing it
  changes no other, and that it is bad, if the full test was asked for and a bit of some byte of the
  ranges always reads the same.
\<close>

theorem memory_test_verdict:
  assumes "R = (if test_ranges st = [] then snd unused_memory else test_ranges st)"
    and "test_ranges st = [] \<Longrightarrow> fst unused_memory = 0"
    and "ranges_inv R" and "below_max R" and "R \<noteq> []"
    and "\<forall>d \<in> set deltas. 0 < d"
    and "2 * length (test_patterns freed mode) * length (all_chunks R) \<le> length deltas"
  shows "\<exists>st1 v ms'. memory_test_init True True unused_memory freed mode st = Some (DIAG_TEST_PASSED, st1) \<and>
    memory_test_loop ram deltas (m, st1) = Some (v, ms') \<and>
    v \<in> {DIAG_TEST_PASSED, DIAG_TEST_FAILED} \<and>
    (good_ram ram \<longrightarrow> v = DIAG_TEST_PASSED) \<and>
    (\<forall>x i b. mode = MEMORY_TEST_MODE_FULL \<and> in_ranges R x \<and> i < 8 \<and> (\<forall>m. bit (ram_read ram x m) i = b) \<longrightarrow>
       v = DIAG_TEST_FAILED)"
proof -
  obtain st1 where s: "memory_test_init True True unused_memory freed mode st = Some (DIAG_TEST_PASSED, st1)"
    "mt_inv st1" "is_running st1" and rem: "remaining st1 = all_tasks freed mode R"
    using memory_test_init_starts [OF assms(1-5), of freed mode] by blast
  have len: "length (remaining st1) \<le> length deltas" unfolding rem length_all_tasks by (rule assms(7))
  obtain ms' where l: "memory_test_loop ram deltas (m, st1) =
      Some (if perform_all ram (all_tasks freed mode R) m then DIAG_TEST_PASSED else DIAG_TEST_FAILED, ms')"
    using memory_test_loop_verdict [OF s(2,3) assms(6) len, of ram m] unfolding rem by blast
  have good: "good_ram ram \<Longrightarrow> perform_all ram (all_tasks freed mode R) m"
    unfolding all_tasks_def by (rule good_ram_passes [OF _ all_chunks_ordered [OF assms(3,4)]])
  have bad: "\<not> perform_all ram (all_tasks freed mode R) m"
    if x: "mode = MEMORY_TEST_MODE_FULL" "in_ranges R x" "i < 8" "\<forall>m. bit (ram_read ram x m) i = b" for x i b
  proof -
    obtain c d where "(c, d) \<in> set (all_chunks R)" "c \<le> x" "x < d"
      using all_chunks_cover [OF assms(3,4) x(2)] by auto
    from stuck_bit_found [OF _ x(3) this, of ram b] x(4) show ?thesis unfolding all_tasks_def x(1) by blast
  qed
  show ?thesis
  proof (intro exI conjI)
    show "good_ram ram \<longrightarrow> (if perform_all ram (all_tasks freed mode R) m then DIAG_TEST_PASSED
      else DIAG_TEST_FAILED) = DIAG_TEST_PASSED" using good by simp
    show "\<forall>x i b. mode = MEMORY_TEST_MODE_FULL \<and> in_ranges R x \<and> i < 8 \<and>
        (\<forall>m. bit (ram_read ram x m) i = b) \<longrightarrow>
      (if perform_all ram (all_tasks freed mode R) m then DIAG_TEST_PASSED else DIAG_TEST_FAILED) = DIAG_TEST_FAILED"
      using bad by (metis (full_types))
  qed (use s(1) l in simp_all)
qed

definition working_ram :: "(u64 \<Rightarrow> u8) ram" where
  "working_ram = \<lparr>ram_read = \<lambda>a m. m a, ram_write = \<lambda>a v m. m(a := v)\<rparr>"

definition broken_ram :: "(u64 \<Rightarrow> u8) ram" where
  "broken_ram = \<lparr>ram_read = \<lambda>a m. if a = 20 then m a AND 0xfb else m a, ram_write = \<lambda>a v m. m(a := v)\<rparr>"

definition idle_test :: MemoryTestState where
  "idle_test = \<lparr>is_running = False, out_text = [], out_tail = [], patterns = [], pattern_cur = [], op_cur = 0,
     single_operation_data = \<lparr>op_pattern = [], op_result = TEST_SUCCESS, error_phys_addr_st = 0,
       error_phys_addr_ed = 0, error_phys_offset = 0\<rparr>,
     test_ranges = [], range_cur = [], chunk_st = 0, num_bytes = 0,
     num_bytes_processed = 0, test_percent = 0, prev_percent = 0, prev_pattern_name = None\<rparr>"

theorem memory_test_verdict_witness:
  "(\<exists>st1 ms'. memory_test_init True True (0, [16, 48]) id MEMORY_TEST_MODE_FULL idle_test = Some (DIAG_TEST_PASSED, st1) \<and>
      memory_test_loop working_ram (replicate 28 5) (\<lambda>_. 0, st1) = Some (DIAG_TEST_PASSED, ms')) \<and>
   (\<exists>st1 ms'. memory_test_init True True (0, [16, 48]) id MEMORY_TEST_MODE_FULL idle_test = Some (DIAG_TEST_PASSED, st1) \<and>
      memory_test_loop broken_ram (replicate 28 5) (\<lambda>_. 0, st1) = Some (DIAG_TEST_FAILED, ms'))"
proof -
  have hyps: "test_ranges idle_test = []" "ranges_inv [16, 48]" "below_max [16, 48]" "in_ranges [16, 48] 20"
    "2 * length (test_patterns id MEMORY_TEST_MODE_FULL) * length (all_chunks [16, 48]) = 28"
    by code_simp+
  have good: "good_ram working_ram" by (simp add: good_ram_def working_ram_def)
  have "\<not> bit (m AND (0xfb :: u8)) 2" for m by (simp add: bit_and_iff)
  then have bad: "\<forall>m. bit (ram_read broken_ram 20 m) 2 = False" by (simp add: broken_ram_def)
  note verdict = memory_test_verdict [of "[16, 48]" idle_test "(0, [16, 48])" "replicate 28 5" id
      MEMORY_TEST_MODE_FULL]
  obtain st1 ms1 where 1: "memory_test_init True True (0, [16, 48]) id MEMORY_TEST_MODE_FULL idle_test = Some (DIAG_TEST_PASSED, st1)"
    "memory_test_loop working_ram (replicate 28 5) (\<lambda>_. 0, st1) = Some (DIAG_TEST_PASSED, ms1)"
    using verdict [of working_ram "\<lambda>_. 0"] hyps good by auto
  obtain st2 v ms2 where 2: "memory_test_init True True (0, [16, 48]) id MEMORY_TEST_MODE_FULL idle_test = Some (DIAG_TEST_PASSED, st2)"
    "memory_test_loop broken_ram (replicate 28 5) (\<lambda>_. 0, st2) = Some (v, ms2)"
    "\<forall>x i b. MEMORY_TEST_MODE_FULL = MEMORY_TEST_MODE_FULL \<and> in_ranges [16, 48] x \<and> i < 8 \<and>
       (\<forall>m. bit (ram_read broken_ram x m) i = b) \<longrightarrow> v = DIAG_TEST_FAILED"
    using verdict [of broken_ram "\<lambda>_. 0"] hyps by auto
  have "v = DIAG_TEST_FAILED" using 2(3) [rule_format, of 20 2 False] bad hyps(4) by simp
  then show ?thesis using 1 2(1,2) by blast
qed

end
