(* ===== verification/Diag_Report.thy ===== *)
theory Diag_Report
  imports Dc_Prelude
begin

text \<open>
  \<open>src/diag/report.c\<close>: the report of the diagnostics, the last 50 events in a ring buffer. The layout of
  an event and the codes are in commonlib, which is not under \<open>src/\<close>: what an event holds after its
  fields are assigned, its bytes, and the codes are parameters. The theorems: the ring buffer holds the
  last 50 events, and a dump gives them, newest first, as far as the buffer goes.
\<close>

section \<open>Model\<close>

record 'e event_codes =
  TYPE_BITS :: nat
  TYPE_NONE :: u8
  RESULT_ERROR :: u8
  mk_event :: "u8 \<Rightarrow> u8 \<Rightarrow> nat \<Rightarrow> 'e"
  raw :: "'e \<Rightarrow> u8 list"
  raw_size :: nat

definition DIAG_REPORT_EVENT_MAX :: nat where "DIAG_REPORT_EVENT_MAX = 50"

text \<open>\<open>GENMASK(ELOG_CROS_DIAG_LOG_TYPE_BITS, 0)\<close>, for the type and for the result: one bit more than the field of the type.\<close>

definition DIAG_REPORT_EVENT_TYPE_MAX :: "'e event_codes \<Rightarrow> nat" where
  "DIAG_REPORT_EVENT_TYPE_MAX codes = 2 ^ (TYPE_BITS codes + 1) - 1"

definition DIAG_REPORT_EVENT_RESULT_MAX :: "'e event_codes \<Rightarrow> nat" where
  "DIAG_REPORT_EVENT_RESULT_MAX codes = 2 ^ (TYPE_BITS codes + 1) - 1"

definition EVENT_NEXT :: "nat \<Rightarrow> nat" where
  "EVENT_NEXT idx = (idx + 1) mod DIAG_REPORT_EVENT_MAX"

definition EVENT_PREV :: "nat \<Rightarrow> nat" where
  "EVENT_PREV idx = (idx + DIAG_REPORT_EVENT_MAX - 1) mod DIAG_REPORT_EVENT_MAX"

record 'e report =
  current_type :: u8
  current_start_time_us :: nat
  report_events :: "'e list"
  report_events_front :: nat
  report_events_rear :: nat
  report_events_count :: nat

definition reset_current :: "'e event_codes \<Rightarrow> 'e report \<Rightarrow> 'e report" where
  "reset_current codes r = r\<lparr>current_type := TYPE_NONE codes, current_start_time_us := 0\<rparr>"

definition diag_report_push_event ::
  "'e event_codes \<Rightarrow> u8 \<Rightarrow> u8 \<Rightarrow> nat \<Rightarrow> 'e report \<Rightarrow> int \<times> 'e report" where
  "diag_report_push_event codes type' result time_us r =
     (let time_s = min (time_us div 1000000) 65535
      in if DIAG_REPORT_EVENT_TYPE_MAX codes < unat type' \<or> DIAG_REPORT_EVENT_RESULT_MAX codes < unat result
         then (-1, r)
         else
           let r = (if report_events_count r = DIAG_REPORT_EVENT_MAX
                    then r\<lparr>report_events_front := EVENT_NEXT (report_events_front r),
                           report_events_count := report_events_count r - 1\<rparr> else r)
           in (0, r\<lparr>report_events := (report_events r)[report_events_rear r := mk_event codes type' result time_s],
                    report_events_rear := EVENT_NEXT (report_events_rear r),
                    report_events_count := report_events_count r + 1\<rparr>))"

text \<open>\<open>now\<close> is the time in microseconds.\<close>

definition diag_report_end_test :: "'e event_codes \<Rightarrow> nat \<Rightarrow> u8 \<Rightarrow> 'e report \<Rightarrow> int \<times> 'e report" where
  "diag_report_end_test codes now result r =
     (if current_type r = TYPE_NONE codes then (0, r)
      else if DIAG_REPORT_EVENT_RESULT_MAX codes < unat result then (-1, r)
      else case diag_report_push_event codes (current_type r) result (now - current_start_time_us r) r of
        (rv, r) \<Rightarrow> (rv, reset_current codes r))"

definition diag_report_start_test :: "'e event_codes \<Rightarrow> nat \<Rightarrow> u8 \<Rightarrow> 'e report \<Rightarrow> int \<times> 'e report" where
  "diag_report_start_test codes now type' r =
     (case diag_report_end_test codes now (RESULT_ERROR codes) r of (_, r) \<Rightarrow>
        if DIAG_REPORT_EVENT_TYPE_MAX codes < unat type' then (-1, r)
        else (0, r\<lparr>current_type := type', current_start_time_us := now\<rparr>))"

text \<open>The loop of \<open>diag_report_dump\<close> with \<open>n\<close> events to go: the bytes copied to the buffer.\<close>

fun dump_loop :: "'e event_codes \<Rightarrow> nat \<Rightarrow> 'e list \<Rightarrow> nat \<Rightarrow> nat \<Rightarrow> u8 list \<Rightarrow> u8 list" where
  "dump_loop codes len events now_idx 0 buf = buf"
| "dump_loop codes len events now_idx (Suc n) buf =
     (if len < length buf + raw_size codes then buf
      else dump_loop codes len events (EVENT_PREV now_idx) n (buf @ raw codes (events ! now_idx)))"

text \<open>The number of bytes written and the buffer, zero behind them.\<close>

definition diag_report_dump :: "'e event_codes \<Rightarrow> nat \<Rightarrow> nat \<Rightarrow> 'e report \<Rightarrow> nat \<times> u8 list \<times> 'e report" where
  "diag_report_dump codes now len r =
     (case diag_report_end_test codes now (RESULT_ERROR codes) r of (_, r) \<Rightarrow>
        let buf = dump_loop codes len (report_events r) (EVENT_PREV (report_events_rear r)) (report_events_count r) []
        in (length buf, buf @ replicate (len - length buf) 0, r))"

definition diag_report_clear :: "'e event_codes \<Rightarrow> 'e \<Rightarrow> 'e report \<Rightarrow> 'e report" where
  "diag_report_clear codes zero r =
     (reset_current codes r)\<lparr>report_events := replicate DIAG_REPORT_EVENT_MAX zero, report_events_front := 0,
       report_events_rear := 0, report_events_count := 0\<rparr>"

section \<open>The events that are held\<close>

definition report_inv :: "'e report \<Rightarrow> bool" where
  "report_inv r \<longleftrightarrow> length (report_events r) = 50 \<and> report_events_front r < 50 \<and> report_events_count r \<le> 50 \<and>
     report_events_rear r = (report_events_front r + report_events_count r) mod 50"

text \<open>From the oldest to the latest.\<close>

definition held :: "'e report \<Rightarrow> 'e list" where
  "held r = map (\<lambda>i. report_events r ! ((report_events_front r + i) mod 50)) [0..<report_events_count r]"

lemma length_held [simp]: "length (held r) = report_events_count r"
  by (simp add: held_def)

definition last_events :: "nat \<Rightarrow> 'e list \<Rightarrow> 'e list" where
  "last_events n es = drop (length es - n) es"

lemma mod_50_inj:
  assumes "(f + i) mod 50 = (f + j) mod 50" and "i < 50" and "j < 50"
  shows "i = (j :: nat)"
proof -
  have "a = b" if "a \<le> b" "(f + a) mod 50 = (f + b) mod 50" "b < 50" for a b :: nat
  proof -
    have "50 dvd (f + b) - (f + a)" using that by (metis mod_eq_dvd_iff_nat nat_add_left_cancel_le)
    then show ?thesis using that by (auto dest: dvd_imp_le)
  qed
  from this [of i j] this [of j i] show ?thesis using assms by (cases "i \<le> j") auto
qed

text \<open>An event is added at the end; the oldest one goes when there are 50.\<close>

lemma push_event_held:
  assumes "report_inv r" and "diag_report_push_event codes ty result t r = (0, r')"
  shows "report_inv r' \<and> held r' = last_events 50 (held r @ [mk_event codes ty result (min (t div 1000000) 65535)])"
proof -
  let ?e = "mk_event codes ty result (min (t div 1000000) 65535)"
  let ?f = "report_events_front r" and ?c = "report_events_count r" and ?ev = "report_events r"
  note inv = assms(1) [unfolded report_inv_def]
  have ok: "\<not> (DIAG_REPORT_EVENT_TYPE_MAX codes < unat ty \<or> DIAG_REPORT_EVENT_RESULT_MAX codes < unat result)"
    using assms(2) by (auto simp: diag_report_push_event_def Let_def)
  have next_mod: "EVENT_NEXT (i mod 50) = (i + 1) mod 50" "i < 50 \<Longrightarrow> EVENT_NEXT i = (i + 1) mod 50" for i
    by (simp_all only: EVENT_NEXT_def DIAG_REPORT_EVENT_MAX_def mod_add_left_eq)
  show ?thesis
  proof (cases "?c = 50")
    case False
    then have c: "?c < 50" using inv by simp
    have r': "r' = r\<lparr>report_events := ?ev[(?f + ?c) mod 50 := ?e], report_events_rear := (?f + ?c + 1) mod 50,
        report_events_count := ?c + 1\<rparr>"
      using assms(2) inv False ok
      by (simp add: diag_report_push_event_def DIAG_REPORT_EVENT_MAX_def Let_def next_mod)
    have "?ev[(?f + ?c) mod 50 := ?e] ! ((?f + i) mod 50) = ?ev ! ((?f + i) mod 50)" if "i < ?c" for i
    proof -
      have "(?f + i) mod 50 \<noteq> (?f + ?c) mod 50"
      proof
        assume "(?f + i) mod 50 = (?f + ?c) mod 50"
        then have "i = ?c" by (rule mod_50_inj) (use that c in auto)
        then show False using that by simp
      qed
      then show ?thesis by simp
    qed
    then have "held r' = held r @ [?e]" using inv by (simp add: r' held_def)
    then show ?thesis using inv c by (simp add: r' report_inv_def last_events_def)
  next
    case True
    have r': "r' = r\<lparr>report_events_front := (?f + 1) mod 50, report_events := ?ev[?f := ?e],
        report_events_rear := (?f + 1) mod 50, report_events_count := 50\<rparr>"
      using assms(2) inv True ok
      by (simp add: diag_report_push_event_def DIAG_REPORT_EVENT_MAX_def Let_def next_mod)
    have "held r' = tl (held r) @ [?e]"
    proof (rule nth_equalityI)
      show "length (held r') = length (tl (held r) @ [?e])" using True by (simp add: r')
      fix i assume "i < length (held r')"
      then have i: "i < 50" using True by (simp add: r')
      have a: "held r' ! i = ?ev[?f := ?e] ! ((?f + 1 + i) mod 50)"
        using i True by (simp add: held_def r' mod_add_left_eq)
      show "held r' ! i = (tl (held r) @ [?e]) ! i"
      proof (cases "i = 49")
        case True
        then show ?thesis using a inv \<open>?c = 50\<close> by (simp add: nth_append)
      next
        case False
        then have "Suc i < 50" using i by simp
        then have "(?f + Suc i) mod 50 \<noteq> (?f + 0) mod 50" using mod_50_inj [of ?f "Suc i" 0] by auto
        then have "(?f + 1 + i) mod 50 \<noteq> ?f" using inv by simp
        then show ?thesis using a \<open>Suc i < 50\<close> \<open>?c = 50\<close> by (simp add: nth_append nth_tl held_def)
      qed
    qed
    moreover have "tl (held r) @ [?e] = last_events 50 (held r @ [?e])"
      using True by (cases "held r") (simp_all add: last_events_def flip: length_held)
    ultimately show ?thesis using inv True by (simp add: r' report_inv_def)
  qed
qed

text \<open>What an operation adds: the test that was running, with its result.\<close>

definition end_events :: "'e event_codes \<Rightarrow> nat \<Rightarrow> u8 \<Rightarrow> 'e report \<Rightarrow> 'e list" where
  "end_events codes now result r =
     (if current_type r = TYPE_NONE codes \<or> DIAG_REPORT_EVENT_RESULT_MAX codes < unat result \<or>
         DIAG_REPORT_EVENT_TYPE_MAX codes < unat (current_type r) then []
      else [mk_event codes (current_type r) result (min ((now - current_start_time_us r) div 1000000) 65535)])"

lemma held_fields [simp]:
  "held (r\<lparr>current_type := a, current_start_time_us := b\<rparr>) = held r" "held (reset_current codes r) = held r"
  "report_inv (r\<lparr>current_type := a, current_start_time_us := b\<rparr>) = report_inv r"
  "report_inv (reset_current codes r) = report_inv r"
  by (simp_all add: held_def report_inv_def reset_current_def)

lemma last_events_id: "length es \<le> n \<Longrightarrow> last_events n es = es"
  by (simp add: last_events_def)

lemma end_test_held:
  assumes "report_inv r" and "diag_report_end_test codes now result r = (rv, r')"
  shows "report_inv r' \<and> held r' = last_events 50 (held r @ end_events codes now result r)"
proof -
  have c: "report_events_count r \<le> 50" using assms(1) by (simp add: report_inv_def)
  show ?thesis
  proof (cases "end_events codes now result r = []")
    case True
    then have "held r' = held r \<and> report_inv r'" using assms
      by (auto simp: end_events_def diag_report_end_test_def diag_report_push_event_def Let_def split: if_splits)
    then show ?thesis using c True by (simp add: last_events_id)
  next
    case False
    let ?p = "diag_report_push_event codes (current_type r) result (now - current_start_time_us r) r"
    have "fst ?p = 0" using False by (simp add: end_events_def diag_report_push_event_def Let_def split: if_splits)
    then obtain r1 where p: "?p = (0, r1)" by (metis prod.collapse)
    have "r' = reset_current codes r1"
      using assms(2) False p by (simp add: diag_report_end_test_def end_events_def split: if_splits)
    then show ?thesis using push_event_held [OF assms(1) p] False by (simp add: end_events_def split: if_splits)
  qed
qed

lemma start_test_held:
  assumes "report_inv r" and "diag_report_start_test codes now ty r = (rv, r')"
  shows "report_inv r' \<and> held r' = last_events 50 (held r @ end_events codes now (RESULT_ERROR codes) r)"
proof -
  obtain rv1 r1 where e: "diag_report_end_test codes now (RESULT_ERROR codes) r = (rv1, r1)" by fastforce
  show ?thesis using end_test_held [OF assms(1) e] assms(2) e by (auto simp: diag_report_start_test_def split: if_splits)
qed

text \<open>A dump copies the latest events first, and whole events only.\<close>

lemma prev_mod: "EVENT_PREV (i mod 50) = EVENT_PREV i" "EVENT_PREV (Suc i) = i mod 50"
proof -
  have "(i mod 50 + 49) mod 50 = (i + 49) mod 50" by (rule mod_add_left_eq)
  moreover have "j + 50 - 1 = j + 49" for j :: nat by simp
  ultimately show "EVENT_PREV (i mod 50) = EVENT_PREV i" unfolding EVENT_PREV_def DIAG_REPORT_EVENT_MAX_def by (simp only:)
  have "Suc i + 50 - 1 = i + 50" by simp
  then show "EVENT_PREV (Suc i) = i mod 50" unfolding EVENT_PREV_def DIAG_REPORT_EVENT_MAX_def by (simp only: mod_add_self2)
qed

lemma dump_loop_held:
  assumes "\<forall>e. length (raw codes e) = raw_size codes" and "0 < raw_size codes"
  shows "n \<le> report_events_count r \<Longrightarrow>
    dump_loop codes len (report_events r) (EVENT_PREV (report_events_front r + n)) n buf =
    buf @ concat (map (raw codes) (take ((len - length buf) div raw_size codes) (rev (take n (held r)))))"
proof (induction n arbitrary: buf)
  case (Suc n)
  let ?e = "held r ! n" and ?rs = "raw_size codes"
  have e: "report_events r ! ((report_events_front r + n) mod 50) = ?e" using Suc.prems by (simp add: held_def)
  have rev: "rev (take (Suc n) (held r)) = ?e # rev (take n (held r))"
    using Suc.prems by (simp add: take_Suc_conv_app_nth)
  show ?case
  proof (cases "len < length buf + ?rs")
    case True
    then have "(len - length buf) div ?rs = 0" using assms(2) by simp
    then show ?thesis using True by simp
  next
    case False
    have "(len - length buf) div ?rs = Suc ((len - (length buf + ?rs)) div ?rs)"
      using False assms(2) by (subst le_div_geq) (auto simp: diff_diff_left)
    then show ?thesis using False Suc.IH [of "buf @ raw codes ?e"] Suc.prems assms(1)
      unfolding rev by (simp add: prev_mod e)
  qed
qed simp

lemma report_dump_newest_first:
  assumes "report_inv r" and "\<forall>e. length (raw codes e) = raw_size codes" and "0 < raw_size codes"
    and "diag_report_dump codes now len r = (n, buf, r')"
  shows "report_inv r' \<and> held r' = last_events 50 (held r @ end_events codes now (RESULT_ERROR codes) r) \<and>
    take n buf = concat (map (raw codes) (take (len div raw_size codes) (rev (held r')))) \<and> n \<le> len \<and> length buf = len"
proof -
  obtain rv r1 where e: "diag_report_end_test codes now (RESULT_ERROR codes) r = (rv, r1)" by fastforce
  note h = end_test_held [OF assms(1) e]
  let ?dump = "dump_loop codes len (report_events r1) (EVENT_PREV (report_events_rear r1)) (report_events_count r1) []"
  have res: "n = length ?dump" "buf = ?dump @ replicate (len - length ?dump) 0" "r' = r1"
    using assms(4) unfolding diag_report_dump_def e by (auto simp: Let_def)
  have "EVENT_PREV (report_events_rear r1) = EVENT_PREV (report_events_front r1 + report_events_count r1)"
    using h by (simp add: report_inv_def prev_mod)
  then have d: "?dump = concat (map (raw codes) (take (len div raw_size codes) (rev (held r1))))"
    using dump_loop_held [OF assms(2,3), of "report_events_count r1" r1 len "[]"] by simp
  have "length (concat (map (raw codes) es)) = length es * raw_size codes" for es
    using assms(2) by (induction es) simp_all
  then have "length ?dump \<le> len div raw_size codes * raw_size codes" unfolding d by (simp add: min_le_iff_disj)
  also have "\<dots> \<le> len" by simp
  finally have "length ?dump \<le> len" .
  then show ?thesis using h res d by simp
qed

end
