(* ===== verification/Diag_Storage.thy ===== *)
theory Diag_Storage
  imports Diag_Memory Diag_Report
begin

text \<open>
  \<open>src/diag/storage_test.c\<close>, with the stopwatch of \<open>src/drivers/timer/timer.c\<close>: starting, polling and
  stopping the self-test of the first fixed disk, and the text of its log. The disk's callbacks act on a state
  \<open>'s\<close>; times are microseconds. \<open>None\<close> is \<open>die\<close>.
\<close>

section \<open>Model\<close>

text \<open>
  The text between the start of a buffer of \<open>cap\<close> bytes and the pointer that \<open>APPEND\<close> moves on. When a
  text does not fit the pointer goes to the end of the buffer and the terminator takes the last byte.
\<close>

definition APPEND :: "nat \<Rightarrow> string \<Rightarrow> string \<Rightarrow> string" where
  "APPEND cap s str = (if length s < cap then s @ take (cap - length s) str else s)"

definition shown :: "nat \<Rightarrow> string \<Rightarrow> string" where
  "shown cap s = take (cap - 1) s"

definition alt_hex :: "nat \<Rightarrow> string" where
  "alt_hex n = (if n = 0 then ''0'' else ''0x'' @ hexadecimal n)"

datatype BlockDevTestOpsType =
  BLOCKDEV_TEST_OPS_TYPE_STOP | BLOCKDEV_TEST_OPS_TYPE_SHORT | BLOCKDEV_TEST_OPS_TYPE_EXTENDED

record NvmeTestLogData =
  current_operation :: u8
  current_completion :: u8
  status :: u8
  segment_number :: u8
  valid_diag_info :: u8
  poh :: u64
  nsid :: u32
  failing_lba :: u64
  status_code_type :: u8
  status_code :: u8

record UfsTestLogData =
  return_code :: int
  sense_key :: u8

datatype StorageTestLog =
  STORAGE_INFO_TYPE_UNKNOWN
| STORAGE_INFO_TYPE_NVME NvmeTestLogData
| STORAGE_INFO_TYPE_MMC
| STORAGE_INFO_TYPE_UFS UfsTestLogData

record 's storage_dev =
  dev_name :: string
  get_test_log :: "(BlockDevTestOpsType \<Rightarrow> 's \<Rightarrow> int \<times> StorageTestLog \<times> 's) option"
  test_control :: "(BlockDevTestOpsType \<Rightarrow> 's \<Rightarrow> int \<times> 's) option"
  test_support :: "u32 option"

record stopwatch =
  sw_start :: u64
  sw_expires :: u64

definition stopwatch_init_usecs_expire :: "u64 \<Rightarrow> u64 \<Rightarrow> stopwatch" where
  "stopwatch_init_usecs_expire now us = \<lparr>sw_start = now, sw_expires = us\<rparr>"

definition stopwatch_init_msecs_expire :: "u64 \<Rightarrow> u64 \<Rightarrow> stopwatch" where
  "stopwatch_init_msecs_expire now ms = stopwatch_init_usecs_expire now (1000 * ms)"

definition stopwatch_expired :: "u64 \<Rightarrow> stopwatch \<Rightarrow> bool" where
  "stopwatch_expired now sw \<longleftrightarrow> sw_expires sw < now - sw_start sw"

text \<open>
  The static variables of the file: \<open>state\<close>, the cached disk and the two times of
  \<open>get_test_remain_time_seconds\<close>; and the report and the disks, which they work on.
\<close>

record ('s, 'e) storage_test_state =
  sw :: stopwatch
  test_type :: BlockDevTestOpsType
  is_first_dump :: bool
  test_result :: DiagTestResult
  bdev :: "'s storage_dev option"
  start_us :: u64
  now_us :: u64
  test_report :: "'e report"
  disks :: 's

definition get_test_log_delay :: "('s, 'e) storage_test_state \<Rightarrow> u64" where
  "get_test_log_delay st =
     (case test_type st of BLOCKDEV_TEST_OPS_TYPE_SHORT \<Rightarrow> 200 | BLOCKDEV_TEST_OPS_TYPE_EXTENDED \<Rightarrow> 3000 | _ \<Rightarrow> 1000)"

text \<open>\<open>devs\<close> is what \<open>get_all_bdevs\<close> gives.\<close>

definition get_first_fixed_block_device ::
  "'s storage_dev list \<Rightarrow> ('s, 'e) storage_test_state \<Rightarrow> 's storage_dev option \<times> ('s, 'e) storage_test_state" where
  "get_first_fixed_block_device devs st =
     (case bdev st of
        Some d \<Rightarrow> (Some d, st)
      | None \<Rightarrow> (case devs of [] \<Rightarrow> (None, st) | d # _ \<Rightarrow> (Some d, st\<lparr>bdev := Some d\<rparr>)))"

definition type_str :: "u8 \<Rightarrow> string" where
  "type_str ty = (if ty = 1 then ''Short device self-test'' else if ty = 2 then ''Extended device self-test''
                  else ''Unknown test type'')"

definition get_test_remain_time_seconds ::
  "u64 \<Rightarrow> u8 \<Rightarrow> bool \<Rightarrow> ('s, 'e) storage_test_state \<Rightarrow> int \<times> ('s, 'e) storage_test_state" where
  "get_test_remain_time_seconds now completion reset st =
     (if reset then (0, st\<lparr>start_us := now, now_us := now\<rparr>)
      else if completion = 0 then (- 1, st)
      else let st = (if 1000000 < now - now_us st then st\<lparr>now_us := now\<rparr> else st);
               passed_us = now_us st - start_us st;
               remain_percent = 100 - completion;
               remain_us = passed_us div ucast completion * ucast remain_percent
           in (sint (ucast (remain_us div 1000000) :: u32), st))"

definition print_test_completion ::
  "u64 \<Rightarrow> nat \<Rightarrow> u8 \<Rightarrow> string \<times> ('s, 'e) storage_test_state \<Rightarrow> string \<times> ('s, 'e) storage_test_state" where
  "print_test_completion now cap completion = (\<lambda>(buf, st).
     let buf = APPEND cap buf (''Completion: '' @ quoted (decimal (unat completion) @ ''%''))
     in case get_test_remain_time_seconds now completion False st of
          (remain_sec, st) \<Rightarrow>
            let buf = (if 0 < remain_sec
                       then if 60 < remain_sec
                            then APPEND cap buf ('', '' @ decimal (nat (remain_sec div 60)) @ '' minutes remaining'')
                            else APPEND cap buf ('', '' @ decimal (nat remain_sec) @ '' seconds remaining'')
                       else buf)
            in (APPEND cap buf (''...'' @ newline @ newline), st))"

definition HALF_BYTE_LOW :: "u8 \<Rightarrow> u8" where "HALF_BYTE_LOW x = x AND 0xf"
definition HALF_BYTE_HIGH :: "u8 \<Rightarrow> u8" where "HALF_BYTE_HIGH x = drop_bit 4 x"

definition nvme_test_result_str :: "u8 \<Rightarrow> string" where
  "nvme_test_result_str r =
     (if r = 0 then ''Test completed without error''
      else if r = 1 then ''Operation was aborted by a Device Self-test command''
      else if r = 2 then ''Operation was aborted by a Controller Level Reset''
      else if r = 3 then ''Operation was aborted due to a removal of a namespace from the namespace inventory''
      else if r = 4 then ''Operation was aborted due to the processing of a Format NVM command''
      else if r = 5 then ''A fatal error or unknown test error occurred while the controller was executing the device self-test operation and the operation did not complete''
      else if r = 6 then ''Operation completed with a segment that failed and the segment that failed is not known''
      else if r = 7 then ''Operation completed with one or more failed segments''
      else if r = 8 then ''Operation was aborted for unknown reason''
      else if r = 9 then ''Operation was aborted due to a sanitize operation''
      else ''Test result is unknown'')"

definition nvme_print_test_result_detail :: "nat \<Rightarrow> NvmeTestLogData \<Rightarrow> string \<Rightarrow> string" where
  "nvme_print_test_result_detail cap data buf =
     (let result = HALF_BYTE_LOW (status data);
          buf = APPEND cap buf (nvme_test_result_str result @ ''.'' @ newline);
          buf = (if result = 7
                 then APPEND cap buf (''Segment Number where the first self-test failure occurred: '' @
                        quoted (alt_hex (unat (segment_number data))) @ ''.'' @ newline)
                 else buf)
      in APPEND cap buf newline)"

definition nvme_print_test_result :: "nat \<Rightarrow> NvmeTestLogData \<Rightarrow> string \<Rightarrow> string" where
  "nvme_print_test_result cap data buf =
     (let buf = APPEND cap buf (''Test type: '' @ type_str (HALF_BYTE_HIGH (status data)) @ ''.'' @ newline @ newline);
          buf = nvme_print_test_result_detail cap data buf;
          buf = APPEND cap buf (''Power on hours(POH): '' @ decimal (unat (poh data)) @ newline);
          buf = (if bit (valid_diag_info data) 0
                 then APPEND cap buf (''Namespace Identifier (NSID) of Failing LBA: '' @
                        quoted (alt_hex (unat (nsid data))) @ newline) else buf);
          buf = (if bit (valid_diag_info data) 1
                 then APPEND cap buf (''Failing LBA: '' @ quoted (alt_hex (unat (failing_lba data))) @ newline) else buf);
          buf = (if bit (valid_diag_info data) 2
                 then APPEND cap buf (''Status code type (SCT): '' @ quoted (alt_hex (unat (status_code_type data))) @ newline)
                 else buf)
      in if bit (valid_diag_info data) 3
         then APPEND cap buf (''Status code (SC): '' @ quoted (alt_hex (unat (status_code data))) @ newline) else buf)"

definition stringify_nvme_test_status ::
  "u64 \<Rightarrow> nat \<Rightarrow> NvmeTestLogData \<Rightarrow> string \<times> ('s, 'e) storage_test_state \<Rightarrow> string \<times> ('s, 'e) storage_test_state" where
  "stringify_nvme_test_status now cap data = (\<lambda>(buf, st).
     let current_op = HALF_BYTE_LOW (current_operation data)
     in if current_op = 0 then (nvme_print_test_result cap data buf, st)
        else if current_op = 1 \<or> current_op = 2
        then print_test_completion now cap (current_completion data)
               (APPEND cap buf (''Test type: '' @ type_str current_op @ ''.'' @ newline @ newline), st)
        else (APPEND cap buf (''Unknown status, Current Device Self-Test Operation: '' @
                quoted (alt_hex (unat current_op)) @ newline), st))"

definition get_nvme_test_result :: "NvmeTestLogData \<Rightarrow> DiagTestResult" where
  "get_nvme_test_result data =
     (if HALF_BYTE_LOW (current_operation data) \<noteq> 0 then DIAG_TEST_UPDATED
      else if HALF_BYTE_LOW (status data) = 0 then DIAG_TEST_PASSED
      else DIAG_TEST_FAILED)"

definition SCSI_STATUS_GOOD :: int where "SCSI_STATUS_GOOD = 0"
definition SCSI_STATUS_CHK_COND :: int where "SCSI_STATUS_CHK_COND = 2"

definition ufs_sense_key_str :: "u8 \<Rightarrow> string" where
  "ufs_sense_key_str key =
     (if key = 5 then ''ILLEGAL REQUEST (range or CDB errors)''
      else if key = 3 then ''MEDIUM ERROR (medium failure, ECC, etc.)''
      else if key = 4 then ''HARDWARE ERROR (hardware failure)''
      else if key = 6 then ''UNIT ATTENTION (reset, power-on, etc.)''
      else ''UNKNOWN SENSE ERROR'')"

definition stringify_ufs_test_status :: "nat \<Rightarrow> UfsTestLogData \<Rightarrow> string \<Rightarrow> string" where
  "stringify_ufs_test_status cap data buf =
     (let buf = APPEND cap buf ''Self-test returned ''
      in if return_code data = SCSI_STATUS_GOOD then APPEND cap buf (''GOOD status'' @ newline)
         else if return_code data = SCSI_STATUS_CHK_COND
         then APPEND cap buf (''FAILED'' @ newline @ ''Sense key: '' @ ufs_sense_key_str (sense_key data) @ newline)
         else APPEND cap buf (''UNKNOWN status'' @ newline))"

definition get_ufs_test_result :: "UfsTestLogData \<Rightarrow> DiagTestResult" where
  "get_ufs_test_result data = (if return_code data = SCSI_STATUS_GOOD then DIAG_TEST_PASSED else DIAG_TEST_FAILED)"

text \<open>
  \<open>get_test_ops\<close> and the two calls through the table it gives: the text and the result. \<open>nvme\<close> and \<open>ufs\<close> say
  whether the drivers are configured.
\<close>

definition log_text_and_result ::
  "bool \<Rightarrow> bool \<Rightarrow> u64 \<Rightarrow> nat \<Rightarrow> StorageTestLog \<Rightarrow> string \<times> ('s, 'e) storage_test_state \<Rightarrow>
   ((string \<times> ('s, 'e) storage_test_state) \<times> DiagTestResult) option" where
  "log_text_and_result nvme ufs now cap log = (\<lambda>(buf, st).
     case log of
       STORAGE_INFO_TYPE_NVME data \<Rightarrow>
         if nvme then Some (stringify_nvme_test_status now cap data (buf, st), get_nvme_test_result data) else None
     | STORAGE_INFO_TYPE_MMC \<Rightarrow> Some ((APPEND cap buf (''UNSUPPORTED'' @ newline), st), DIAG_TEST_ERROR)
     | STORAGE_INFO_TYPE_UFS data \<Rightarrow>
         if ufs then Some ((stringify_ufs_test_status cap data buf, st), get_ufs_test_result data) else None
     | STORAGE_INFO_TYPE_UNKNOWN \<Rightarrow> None)"

definition diag_storage_test_supported ::
  "'s storage_dev list \<Rightarrow> ('s, 'e) storage_test_state \<Rightarrow> u32 \<times> ('s, 'e) storage_test_state" where
  "diag_storage_test_supported devs st =
     (case get_first_fixed_block_device devs st of
        (Some dev, st) \<Rightarrow>
          (if get_test_log dev \<noteq> None \<and> test_control dev \<noteq> None
           then (case test_support dev of Some types \<Rightarrow> types | None \<Rightarrow> 0) else 0, st)
      | (None, st) \<Rightarrow> (0, st))"

text \<open>The poll; \<open>t\<close> gives the times at the check of the stopwatch, at its restart and in the text.\<close>

definition diag_dump_storage_test_log ::
  "bool \<Rightarrow> bool \<Rightarrow> 's storage_dev list \<Rightarrow> u64 \<times> u64 \<times> u64 \<Rightarrow> nat \<Rightarrow> ('s, 'e) storage_test_state \<Rightarrow>
   (DiagTestResult \<times> string \<times> ('s, 'e) storage_test_state) option" where
  "diag_dump_storage_test_log nvme ufs devs t cap st =
     (case diag_storage_test_supported devs st of (supported, st) \<Rightarrow>
      case t of (t_check, t_restart, t_text) \<Rightarrow>
        if supported = 0 then Some (DIAG_TEST_UNIMPLEMENTED, [], st)
        else if test_type st = BLOCKDEV_TEST_OPS_TYPE_STOP then Some (test_result st, [], st)
        else if \<not> is_first_dump st \<and> \<not> stopwatch_expired t_check (sw st) then Some (DIAG_TEST_RUNNING, [], st)
        else let st = st\<lparr>sw := stopwatch_init_msecs_expire t_restart (get_test_log_delay st), is_first_dump := False\<rparr>
             in case bdev st of
                  None \<Rightarrow> None
                | Some dev \<Rightarrow>
                    case the (get_test_log dev) (test_type st) (disks st) of
                      (res, log, s) \<Rightarrow>
                        let st = st\<lparr>disks := s\<rparr>
                        in if res \<noteq> 0
                           then Some (DIAG_TEST_ERROR, APPEND cap [] (dev_name dev @ '': Get Test Result error: '' @
                                        (if res < 0 then ''-'' else []) @ decimal (nat \<bar>res\<bar>) @ newline), st)
                           else case log_text_and_result nvme ufs t_text cap log
                                       (APPEND cap [] (''Block device '' @ quoted (dev_name dev) @ '':'' @ newline), st) of
                                  None \<Rightarrow> None
                                | Some ((buf, st), result) \<Rightarrow>
                                    Some (result, buf,
                                      st\<lparr>test_result := result,
                                         test_type := (if result \<noteq> DIAG_TEST_UPDATED then BLOCKDEV_TEST_OPS_TYPE_STOP
                                                       else test_type st)\<rparr>))"

definition diag_storage_test_control ::
  "'e event_codes \<Rightarrow> 's storage_dev list \<Rightarrow> nat \<Rightarrow> u64 \<Rightarrow> BlockDevTestOpsType \<Rightarrow> ('s, 'e) storage_test_state \<Rightarrow>
   (DiagTestResult \<times> ('s, 'e) storage_test_state) option" where
  "diag_storage_test_control codes devs t_end now cmd st =
     (case diag_storage_test_supported devs st of (supported, st) \<Rightarrow>
        if supported = 0 then Some (DIAG_TEST_UNIMPLEMENTED, st)
        else case bdev st of
               None \<Rightarrow> None
             | Some dev \<Rightarrow>
                 case the (test_control dev) cmd (disks st) of
                   (r, s) \<Rightarrow>
                     let st = st\<lparr>disks := s\<rparr>
                     in if r \<noteq> 0
                        then Some (DIAG_TEST_ERROR,
                               st\<lparr>test_report := snd (diag_report_end_test codes t_end (RESULT_ERROR codes) (test_report st))\<rparr>)
                        else case get_test_remain_time_seconds now 0 True st of
                               (_, st) \<Rightarrow> Some (DIAG_TEST_PASSED,
                                 st\<lparr>test_type := cmd, is_first_dump := True, test_result := DIAG_TEST_UPDATED\<rparr>))"

section \<open>The text and the results\<close>

text \<open>What is shown of a sequence of appended texts is their concatenation, cut at the size of the buffer.\<close>

lemma APPEND_shown:
  assumes "0 < cap" and "shown cap s = take (cap - 1) full" and "length s = min cap (length full)"
  shows "shown cap (APPEND cap s str) = take (cap - 1) (full @ str) \<and>
    length (APPEND cap s str) = min cap (length (full @ str))"
proof (cases "length s < cap")
  case True
  then have "length full < cap" and "length s = length full" using assms(3) by (auto simp: min_def split: if_splits)
  then have "s = full" using assms(2) by (simp add: shown_def)
  then show ?thesis using True by (auto simp: APPEND_def shown_def min_def)
next
  case False
  then have "cap \<le> length full" using assms(3) by (auto simp: min_def split: if_splits)
  then show ?thesis using False assms by (simp add: APPEND_def)
qed

lemma fold_APPEND_shown:
  assumes "0 < cap"
  shows "shown cap (fold (\<lambda>str s. APPEND cap s str) strs []) = take (cap - 1) (concat strs)"
proof -
  have "shown cap (fold (\<lambda>str s. APPEND cap s str) strs s) = take (cap - 1) (full @ concat strs)"
    if "shown cap s = take (cap - 1) full" "length s = min cap (length full)" for s full
    using that
  proof (induction strs arbitrary: s full)
    case (Cons str strs)
    note a = APPEND_shown [OF assms Cons.prems, of str]
    show ?case using Cons.IH [OF a [THEN conjunct1] a [THEN conjunct2]] by simp
  qed simp
  from this [of "[]" "[]"] show ?thesis by (simp add: shown_def)
qed

text \<open>
  The comment at the state: while a test runs the result is \<open>DIAG_TEST_UPDATED\<close>. The other half of it, that a
  finished test has passed or failed, does not hold after a command to stop.
\<close>

definition storage_test_ok :: "('s, 'e) storage_test_state \<Rightarrow> bool" where
  "storage_test_ok st \<longleftrightarrow> (test_type st \<noteq> BLOCKDEV_TEST_OPS_TYPE_STOP \<longrightarrow> test_result st = DIAG_TEST_UPDATED)"

lemma supported_keeps:
  assumes "diag_storage_test_supported devs st = (n, st')"
  shows "test_type st' = test_type st" "test_result st' = test_result st" "is_first_dump st' = is_first_dump st"
    "sw st' = sw st" "disks st' = disks st" "n \<noteq> 0 \<Longrightarrow> bdev st' \<noteq> None" "bdev st = Some d \<Longrightarrow> st' = st"
  using assms
  by (auto simp: diag_storage_test_supported_def get_first_fixed_block_device_def split: option.splits list.splits prod.splits)

lemma remain_keeps:
  assumes "get_test_remain_time_seconds now c reset st = (r, st')"
  shows "test_type st' = test_type st" "test_result st' = test_result st" "is_first_dump st' = is_first_dump st"
    "sw st' = sw st" "disks st' = disks st" "bdev st' = bdev st"
  using assms by (auto simp: get_test_remain_time_seconds_def Let_def split: if_splits)

lemma control_ok:
  assumes "diag_storage_test_control codes devs t_end now cmd st = Some (r, st')" and "storage_test_ok st"
  shows "storage_test_ok st'"
    and "r = DIAG_TEST_PASSED \<Longrightarrow> test_type st' = cmd \<and> is_first_dump st' \<and> test_result st' = DIAG_TEST_UPDATED \<and> bdev st' \<noteq> None"
  using assms
  by (auto simp: diag_storage_test_control_def storage_test_ok_def get_test_remain_time_seconds_def Let_def
      dest: supported_keeps split: prod.splits if_splits option.splits)

lemma log_keeps:
  assumes "log_text_and_result nvme ufs now cap log (buf, st) = Some ((buf', st'), r)"
  shows "test_type st' = test_type st" "is_first_dump st' = is_first_dump st" "sw st' = sw st" "disks st' = disks st"
    "bdev st' = bdev st"
  using assms
  by (auto simp: log_text_and_result_def stringify_nvme_test_status_def print_test_completion_def Let_def
      dest: remain_keeps split: StorageTestLog.splits if_splits prod.splits)

text \<open>A disk with the NVMe self-test, whose logs are always read.\<close>

definition nvme_disk :: "'s storage_dev \<Rightarrow> bool" where
  "nvme_disk dev \<longleftrightarrow> test_control dev \<noteq> None \<and> (\<exists>m. test_support dev = Some m \<and> m \<noteq> 0) \<and>
     (\<exists>get. get_test_log dev = Some get \<and> (\<forall>cmd s. \<exists>data s'. get cmd s = (0, STORAGE_INFO_TYPE_NVME data, s')))"

text \<open>
  One poll: it answers \<open>DIAG_TEST_RUNNING\<close> without asking the disk when the last question is not old enough;
  otherwise the result is that of the log, and the test ends when the log says that no operation is running.
\<close>

lemma dump_nvme_cases:
  assumes "nvme_disk dev" and "bdev st = Some dev" and "test_type st \<noteq> BLOCKDEV_TEST_OPS_TYPE_STOP"
    and "diag_dump_storage_test_log True ufs devs (t1, t2, t3) cap st = Some (r, txt', st')"
  obtains (skip) "r = DIAG_TEST_RUNNING" "st' = st" "\<not> is_first_dump st" "t1 - sw_start (sw st) \<le> sw_expires (sw st)"
  | (asked) data where "fst (snd (the (get_test_log dev) (test_type st) (disks st))) = STORAGE_INFO_TYPE_NVME data"
      "r = get_nvme_test_result data" "test_result st' = r" "bdev st' = Some dev" "\<not> is_first_dump st'"
      "test_type st' = (if r = DIAG_TEST_UPDATED then test_type st else BLOCKDEV_TEST_OPS_TYPE_STOP)"
      "is_first_dump st \<or> sw_expires (sw st) < t1 - sw_start (sw st)"
proof -
  obtain get m where get: "get_test_log dev = Some get" "test_support dev = Some m" "m \<noteq> 0" "test_control dev \<noteq> None"
    and "\<forall>cmd s. \<exists>data s'. get cmd s = (0, STORAGE_INFO_TYPE_NVME data, s')"
    using assms(1) by (auto simp: nvme_disk_def)
  then obtain data s' where log: "get (test_type st) (disks st) = (0, STORAGE_INFO_TYPE_NVME data, s')" by blast
  have sup: "diag_storage_test_supported devs st = (m, st)"
    using get assms(2) by (simp add: diag_storage_test_supported_def get_first_fixed_block_device_def)
  show thesis
  proof (cases "\<not> is_first_dump st \<and> \<not> stopwatch_expired t1 (sw st)")
    case True
    then have "r = DIAG_TEST_RUNNING" "st' = st"
      using assms(3,4) get by (auto simp: diag_dump_storage_test_log_def sup)
    then show thesis using True skip by (simp add: stopwatch_expired_def not_less)
  next
    case False
    define st1 where "st1 = st\<lparr>sw := stopwatch_init_msecs_expire t2 (get_test_log_delay st), is_first_dump := False, disks := s'\<rparr>"
    obtain buf0 where "diag_dump_storage_test_log True ufs devs (t1, t2, t3) cap st =
        (case log_text_and_result True ufs t3 cap (STORAGE_INFO_TYPE_NVME data) (buf0, st1) of
           None \<Rightarrow> None
         | Some ((buf, st), result) \<Rightarrow> Some (result, buf, st\<lparr>test_result := result,
             test_type := (if result \<noteq> DIAG_TEST_UPDATED then BLOCKDEV_TEST_OPS_TYPE_STOP else test_type st)\<rparr>))"
      using False assms(2,3) get log by (simp add: diag_dump_storage_test_log_def sup Let_def st1_def)
    moreover obtain buf st2 where lt: "log_text_and_result True ufs t3 cap (STORAGE_INFO_TYPE_NVME data) (buf0, st1) =
        Some ((buf, st2), get_nvme_test_result data)"
      by (simp add: log_text_and_result_def) (metis surj_pair)
    ultimately have r: "r = get_nvme_test_result data" and st': "st' = st2\<lparr>test_result := r,
        test_type := (if r \<noteq> DIAG_TEST_UPDATED then BLOCKDEV_TEST_OPS_TYPE_STOP else test_type st2)\<rparr>"
      using assms(4) by auto
    show thesis
      by (rule asked [of data]) (use r st' log_keeps [OF lt] get log assms(2) False
        in \<open>auto simp: st1_def stopwatch_expired_def\<close>)
  qed
qed

lemma dump_nvme_returns:
  assumes "nvme_disk dev" and "bdev st = Some dev"
  shows "\<exists>r buf st'. diag_dump_storage_test_log True ufs devs (t1, t2, t3) cap st = Some (r, buf, st')"
proof -
  obtain get m where get: "get_test_log dev = Some get" "test_support dev = Some m" "m \<noteq> 0" "test_control dev \<noteq> None"
    and "\<forall>cmd s. \<exists>data s'. get cmd s = (0, STORAGE_INFO_TYPE_NVME data, s')"
    using assms(1) by (auto simp: nvme_disk_def)
  then obtain data s' where "get (test_type st) (disks st) = (0, STORAGE_INFO_TYPE_NVME data, s')" by blast
  moreover have "diag_storage_test_supported devs st = (m, st)"
    using get assms(2) by (simp add: diag_storage_test_supported_def get_first_fixed_block_device_def)
  ultimately show ?thesis using get assms(2)
    by (auto simp: diag_dump_storage_test_log_def log_text_and_result_def Let_def split: prod.splits)
qed

text \<open>The screen polls until the test is over: the results of polls at the given times.\<close>

fun poll_all ::
  "bool \<Rightarrow> 's storage_dev list \<Rightarrow> nat \<Rightarrow> (u64 \<times> u64 \<times> u64) list \<Rightarrow> ('s, 'e) storage_test_state \<Rightarrow>
   (DiagTestResult list \<times> ('s, 'e) storage_test_state) option" where
  "poll_all ufs devs cap [] st = Some ([], st)"
| "poll_all ufs devs cap (t # ts) st =
     (case diag_dump_storage_test_log True ufs devs t cap st of
        None \<Rightarrow> None
      | Some (r, _, st) \<Rightarrow> map_option (\<lambda>(rs, st). (r # rs, st)) (poll_all ufs devs cap ts st))"

lemma poll_finished:
  assumes "nvme_disk dev" and "bdev st = Some dev" and "test_type st = BLOCKDEV_TEST_OPS_TYPE_STOP"
  shows "poll_all ufs devs cap ts st = Some (replicate (length ts) (test_result st), st)"
proof (induction ts)
  case (Cons t ts)
  obtain t1 t2 t3 where t: "t = (t1, t2, t3)" by (cases t)
  obtain get m where get: "get_test_log dev = Some get" "test_support dev = Some m" "m \<noteq> 0" "test_control dev \<noteq> None"
    using assms(1) by (auto simp: nvme_disk_def)
  then have "diag_storage_test_supported devs st = (m, st)"
    using assms(2) by (simp add: diag_storage_test_supported_def get_first_fixed_block_device_def)
  then have "diag_dump_storage_test_log True ufs devs t cap st = Some (test_result st, [], st)"
    using get assms(3) by (simp add: diag_dump_storage_test_log_def t)
  then show ?case using Cons.IH by simp
qed simp

lemma nvme_result_cases:
  "get_nvme_test_result data \<in> {DIAG_TEST_UPDATED, DIAG_TEST_PASSED, DIAG_TEST_FAILED}"
  by (simp add: get_nvme_test_result_def)

text \<open>
  Every poll returns. The results are any number of "still running", then the verdict of the log that ended the
  test, the same at every later poll; the disk is not asked again.
\<close>

lemma storage_test_polls:
  assumes "nvme_disk dev" and "bdev st = Some dev" and "test_type st \<noteq> BLOCKDEV_TEST_OPS_TYPE_STOP"
  shows "\<exists>rs n v st'. poll_all ufs devs cap ts st = Some (rs @ replicate n v, st') \<and>
    set rs \<subseteq> {DIAG_TEST_UPDATED, DIAG_TEST_RUNNING} \<and> v \<in> {DIAG_TEST_PASSED, DIAG_TEST_FAILED} \<and>
    (0 < n \<longrightarrow> test_type st' = BLOCKDEV_TEST_OPS_TYPE_STOP \<and> test_result st' = v)"
  using assms(2,3)
proof (induction ts arbitrary: st)
  case Nil
  show ?case by (intro exI [of _ "[]"] exI [of _ 0] exI [of _ DIAG_TEST_PASSED] exI [of _ st]) simp
next
  case (Cons t ts)
  obtain t1 t2 t3 where t: "t = (t1, t2, t3)" by (cases t)
  obtain r buf st1 where d: "diag_dump_storage_test_log True ufs devs (t1, t2, t3) cap st = Some (r, buf, st1)"
    using dump_nvme_returns [OF assms(1) Cons.prems(1)] by blast
  consider (go) "r \<in> {DIAG_TEST_UPDATED, DIAG_TEST_RUNNING}" "bdev st1 = Some dev" "test_type st1 \<noteq> BLOCKDEV_TEST_OPS_TYPE_STOP"
    | (over) "r \<in> {DIAG_TEST_PASSED, DIAG_TEST_FAILED}" "bdev st1 = Some dev"
        "test_type st1 = BLOCKDEV_TEST_OPS_TYPE_STOP" "test_result st1 = r"
  proof (cases rule: dump_nvme_cases [OF assms(1) Cons.prems d])
    case 1
    then show thesis using go Cons.prems by simp
  next
    case (2 data)
    then show thesis using go over nvme_result_cases [of data] Cons.prems by (cases "r = DIAG_TEST_UPDATED") auto
  qed
  then show ?case
  proof cases
    case go
    obtain rs n v st' where "poll_all ufs devs cap ts st1 = Some (rs @ replicate n v, st')"
      and "set rs \<subseteq> {DIAG_TEST_UPDATED, DIAG_TEST_RUNNING}" "v \<in> {DIAG_TEST_PASSED, DIAG_TEST_FAILED}"
      and "0 < n \<longrightarrow> test_type st' = BLOCKDEV_TEST_OPS_TYPE_STOP \<and> test_result st' = v"
      using Cons.IH [OF go(2,3)] by blast
    then show ?thesis
      using go(1) d by (intro exI [of _ "r # rs"] exI [of _ n] exI [of _ v] exI [of _ st']) (simp add: t)
  next
    case over
    then show ?thesis
      using poll_finished [OF assms(1) over(2,3), of ufs devs cap ts] d
      by (intro exI [of _ "[]"] exI [of _ "Suc (length ts)"] exI [of _ r] exI [of _ st1]) (simp add: t)
  qed
qed

text \<open>After a stop the next polls report an update, without text and without a test.\<close>

lemma stop_leaves_updated:
  assumes "diag_storage_test_control codes devs t_end now BLOCKDEV_TEST_OPS_TYPE_STOP st = Some (DIAG_TEST_PASSED, st')"
    and "storage_test_ok st"
  shows "test_type st' = BLOCKDEV_TEST_OPS_TYPE_STOP \<and> test_result st' = DIAG_TEST_UPDATED"
  using control_ok(2) [OF assms] by simp

end
