(* ===== verification/Diag_Health.thy ===== *)
theory Diag_Health
  imports Diag_Storage
begin

text \<open>
  \<open>src/diag/health_info.c\<close>: the health of the fixed disks as text. NVMe disks count in 128-bit numbers, which are
  shown with the precision of 64 bits. \<open>clz\<close> and \<open>log2\<close> are libpayload's. \<open>None\<close> is \<open>die\<close>, a failed assertion or a
  shift by a negative number.
\<close>

section \<open>Model: 128-bit numbers\<close>

record u128 =
  lo :: u64
  hi :: u64

definition le64_dec :: "u8 list \<Rightarrow> u64" where
  "le64_dec b = word_of_nat (\<Sum>i<8. unat (b ! i) * 256 ^ i)"

definition le128_to_u128 :: "u8 list \<Rightarrow> u128" where
  "le128_to_u128 val = \<lparr>lo = le64_dec val, hi = le64_dec (drop 8 val)\<rparr>"

fun bit_length :: "nat \<Rightarrow> nat" where
  "bit_length n = (if n = 0 then 0 else Suc (bit_length (n div 2)))"

declare bit_length.simps [simp del]

definition clz :: "u32 \<Rightarrow> int" where
  "clz x = 32 - int (bit_length (unat x))"

definition log2 :: "u32 \<Rightarrow> int" where
  "log2 x = 31 - clz x"

definition round_up :: "int \<Rightarrow> int \<Rightarrow> int" where
  "round_up val base = (let diff = base - val mod base in if val mod base \<noteq> 0 then val + diff else val)"

definition u128_to_u64 :: "u128 \<Rightarrow> (u64 \<times> int) option" where
  "u128_to_u64 val =
     (let shift = (if drop_bit 32 (hi val) \<noteq> 0 then 64 - clz (ucast (drop_bit 32 (hi val))) else 32 - clz (ucast (hi val)));
          shift = round_up shift 10
      in if 64 < shift then None
         else let v = (if 0 < shift then push_bit (nat (64 - shift)) (hi val) else 0);
                  v = (if shift < 64 then v OR drop_bit (nat shift) (lo val) else v)
              in Some (v, shift))"

definition u128_to_str :: "u128 \<Rightarrow> string option" where
  "u128_to_str val =
     (case u128_to_u64 val of
        None \<Rightarrow> None
      | Some (v, shift) \<Rightarrow>
          let zeros = nat (shift div 10 * 3)
          in Some (if 0 < zeros then ''~'' @ decimal (unat v) @ replicate zeros CHR ''0'' else decimal (unat v)))"

fun reduce :: "nat \<Rightarrow> int \<Rightarrow> nat \<times> int" where
  "reduce v shift = (if 1024 * 1024 \<le> v then reduce (v div 1024) (shift + 10) else (v, shift))"

declare reduce.simps [simp del]

text \<open>The number shown is \<open>hi\<close> and \<open>lo\<close> thousandths of \<open>2 ^ shift\<close> bytes.\<close>

definition capacity :: "u128 \<Rightarrow> nat \<Rightarrow> (nat \<times> nat \<times> int) option" where
  "capacity unit_val bytes_per_unit =
     (case u128_to_u64 unit_val of
        None \<Rightarrow> None
      | Some (v, shift) \<Rightarrow>
          let need_adjust = log2 (word_of_nat bytes_per_unit) + 1 - clz (ucast (drop_bit 32 v));
              n = round_up need_adjust 10;
              (v, shift) = (if 0 < need_adjust then (drop_bit (nat n) v, shift + n) else (v, shift))
          in case reduce (mul64 (unat v) bytes_per_unit) shift of
               (v, shift) \<Rightarrow>
                 let (h, l, shift) = (if 1024 \<le> v then (v div 1024, v mod 1024 * 1000 div 1024, shift + 10) else (v, 0, shift))
                 in if shift mod 10 = 0 then Some (h, l, shift) else None)"

definition prefixes :: "string list" where
  "prefixes = [''B'', ''KiB'', ''MiB'', ''GiB'', ''TiB'', ''PiB'', ''EiB'', ''ZiB'', ''YiB'']"

definition u128_to_capacity_str :: "u128 \<Rightarrow> nat \<Rightarrow> string option" where
  "u128_to_capacity_str unit_val bytes_per_unit =
     map_option (\<lambda>(h, l, shift).
       if shift \<le> 80 then decimal h @ ''.'' @ zero_pad 3 (decimal l) @ '' '' @ prefixes ! nat (shift div 10)
       else decimal h @ ''.'' @ zero_pad 3 (decimal l) @ '' 2^'' @ decimal (nat shift) @ '' '' @ prefixes ! 0)
       (capacity unit_val bytes_per_unit)"

section \<open>Model: the text\<close>

text \<open>The texts of a sequence of \<open>APPEND\<close>s, none if one of them is undefined.\<close>

definition APPENDS :: "nat \<Rightarrow> string option list \<Rightarrow> string \<Rightarrow> string option" where
  "APPENDS cap strs buf = map_option (\<lambda>strs. fold (\<lambda>str s. APPEND cap s str) strs buf) (those strs)"

definition int_text :: "int \<Rightarrow> string" where
  "int_text n = (if n < 0 then ''-'' @ decimal (nat (- n)) else decimal (nat n))"

text \<open>\<open>%#02x\<close> and \<open>%#.02x\<close>; \<open>%d\<close> of a 32-bit word.\<close>

definition hex02 :: "u8 \<Rightarrow> string" where
  "hex02 x = (if x = 0 then ''00'' else ''0x'' @ hexadecimal (unat x))"

definition hex_02 :: "u8 \<Rightarrow> string" where
  "hex_02 x = (if x = 0 then ''00'' else ''0x'' @ zero_pad 2 (hexadecimal (unat x)))"

definition d32 :: "u32 \<Rightarrow> string" where
  "d32 x = int_text (sint x)"

record NvmeSmartLogData =
  critical_warning :: u8
  temperature :: u16
  avail_spare :: u8
  spare_thresh :: u8
  percent_used :: u8
  data_units_read :: "u8 list"
  data_units_written :: "u8 list"
  host_reads :: "u8 list"
  host_writes :: "u8 list"
  ctrl_busy_time :: "u8 list"
  power_cycles :: "u8 list"
  power_on_hours :: "u8 list"
  unsafe_shutdowns :: "u8 list"
  media_errors :: "u8 list"
  num_err_log_entries :: "u8 list"
  warning_temp_time :: u32
  critical_comp_time :: u32
  temp_sensor :: "u16 list"
  thm_temp1_trans_count :: u32
  thm_temp2_trans_count :: u32
  thm_temp1_total_time :: u32
  thm_temp2_total_time :: u32

definition kelvin_to_celsius :: "int \<Rightarrow> int" where
  "kelvin_to_celsius k = k - 273"

definition data_units :: "string \<Rightarrow> u8 list \<Rightarrow> string option" where
  "data_units label bytes =
     (let val = le128_to_u128 bytes
      in case (u128_to_str val, u128_to_capacity_str val (1000 * 512)) of
           (Some n, Some c) \<Rightarrow> Some (label @ n @ '' ['' @ c @ '']'' @ newline)
         | _ \<Rightarrow> None)"

definition count_line :: "string \<Rightarrow> u8 list \<Rightarrow> string option" where
  "count_line label bytes = map_option (\<lambda>n. label @ n @ newline) (u128_to_str (le128_to_u128 bytes))"

definition sensor_line :: "u16 list \<Rightarrow> nat \<Rightarrow> string option list" where
  "sensor_line sensors i =
     (let k = sensors ! i
      in if k \<noteq> 0 then [Some (''Temperature Sensor '' @ decimal (i + 1) @ '':               '' @
                              int_text (kelvin_to_celsius (int (unat k))) @ '' Celsius'' @ newline)] else [])"

definition stringify_nvme_smart :: "nat \<Rightarrow> NvmeSmartLogData \<Rightarrow> string \<Rightarrow> string option" where
  "stringify_nvme_smart cap d = APPENDS cap
     ([Some (''SMART/Health Information (NVMe Log 0x02)'' @ newline),
       Some (''Critical Warning:                   '' @ hex02 (critical_warning d) @ newline),
       Some (''Temperature:                        '' @
             int_text (kelvin_to_celsius (int (unat (temperature d)))) @ '' Celsius'' @ newline),
       Some (''Available Spare:                    '' @ decimal (unat (avail_spare d)) @ ''%'' @ newline),
       Some (''Available Spare Threshold:          '' @ decimal (unat (spare_thresh d)) @ ''%'' @ newline),
       Some (''Percentage Used:                    '' @ decimal (unat (percent_used d)) @ ''%'' @ newline),
       data_units ''Data Units Read:                    '' (data_units_read d),
       data_units ''Data Units Written:                 '' (data_units_written d),
       count_line ''Host Read Commands:                 '' (host_reads d),
       count_line ''Host Write Commands:                '' (host_writes d),
       count_line ''Controller Busy Time:               '' (ctrl_busy_time d),
       count_line ''Power Cycles:                       '' (power_cycles d),
       count_line ''Power On Hours:                     '' (power_on_hours d),
       count_line ''Unsafe Shutdowns:                   '' (unsafe_shutdowns d),
       count_line ''Media and Data Integrity Errors:    '' (media_errors d),
       count_line ''Error Information Log Entries:      '' (num_err_log_entries d)] @
      (if warning_temp_time d \<noteq> 0
       then [Some (''Warning  Comp. Temperature Time:    '' @ d32 (warning_temp_time d) @ newline)] else []) @
      (if critical_comp_time d \<noteq> 0
       then [Some (''Critical Comp. Temperature Time:    '' @ d32 (critical_comp_time d) @ newline)] else []) @
      concat (map (sensor_line (temp_sensor d)) [0..<8]) @
      [Some (''Thermal Temp. 1 Transition Count:   '' @ d32 (thm_temp1_trans_count d) @ newline),
       Some (''Thermal Temp. 2 Transition Count:   '' @ d32 (thm_temp2_trans_count d) @ newline),
       Some (''Thermal Temp. 1 Total Time:         '' @ d32 (thm_temp1_total_time d) @ newline),
       Some (''Thermal Temp. 2 Total Time:         '' @ d32 (thm_temp2_total_time d) @ newline)])"

record DeviceHealthReport =
  storage_type_name :: string
  life_time_est_a :: u8
  life_time_est_b :: u8
  eol_info :: u8
  life_time_est_prefix_name :: string
  eol_info_name :: string

definition stringify_device_lifetime :: "u8 \<Rightarrow> string" where
  "stringify_device_lifetime life_used =
     (let n = unat life_used
      in if n = 0 then ''Not defined''
         else if n \<le> 10 then decimal ((n - 1) * 10) @ ''% - '' @ decimal (n * 10) @ ''% device life time used''
         else if n = 11 then ''Exceeded its maximum estimated device life time''
         else ''Unknown'')"

definition eol_info_to_str :: "u8 \<Rightarrow> string" where
  "eol_info_to_str x =
     (if x = 0 then ''Not defined'' else if x = 1 then ''Normal''
      else if x = 2 then ''Warning (Consumed 80% of reserved blocks)''
      else if x = 3 then ''Urgent'' else ''Unknown'')"

definition stringify_device_health_report :: "DeviceHealthReport \<Rightarrow> string option list" where
  "stringify_device_health_report r =
     [Some (storage_type_name r @ '' Life Time Estimation A ['' @ life_time_est_prefix_name r @ ''A]: '' @
            hex02 (life_time_est_a r) @ newline @ ''  i.e. ''),
      Some (stringify_device_lifetime (life_time_est_a r)), Some newline,
      Some (storage_type_name r @ '' Life Time Estimation B ['' @ life_time_est_prefix_name r @ ''B]: '' @
            hex02 (life_time_est_b r) @ newline @ ''  i.e. ''),
      Some (stringify_device_lifetime (life_time_est_b r)), Some newline,
      Some (storage_type_name r @ '' Pre EOL information ['' @ eol_info_name r @ '']: '' @
            hex02 (eol_info r) @ newline @ ''  i.e. '' @ eol_info_to_str (eol_info r) @ newline)]"

record MmcHealthData =
  csd_rev :: u8
  device_life_time_est_type_a :: u8
  device_life_time_est_type_b :: u8
  pre_eol_info :: u8

definition ver_str :: "string list" where
  "ver_str = [''4.0'', ''4.1'', ''4.2'', ''4.3'', ''Obsolete'', ''4.41'', ''4.5'', ''5.0'', ''5.1'']"

definition stringify_mmc_health :: "nat \<Rightarrow> MmcHealthData \<Rightarrow> string \<Rightarrow> string option" where
  "stringify_mmc_health cap d = APPENDS cap
     (let rev = unat (csd_rev d)
      in if length ver_str \<le> rev \<or> rev = 4
         then [Some (''Unsupported Extended CSD rev 1.'' @ decimal rev @ newline)]
         else [Some (''Extended CSD rev 1.'' @ decimal rev @ '' (MMC '' @ ver_str ! rev @ '')'' @ newline)] @
              (if 7 \<le> rev
               then stringify_device_health_report
                      \<lparr>storage_type_name = ''eMMC'', life_time_est_a = device_life_time_est_type_a d,
                       life_time_est_b = device_life_time_est_type_b d, eol_info = pre_eol_info d,
                       life_time_est_prefix_name = ''EXT_CSD_DEVICE_LIFE_TIME_EST_TYPE_'',
                       eol_info_name = ''EXT_CSD_PRE_EOL_INFO''\<rparr>
               else []))"

record UfsDescHealth =
  bPreEOLInfo :: u8
  bDeviceLifeTimeEstA :: u8
  bDeviceLifeTimeEstB :: u8
  rsrvd :: "u8 list"

definition stringify_ufs_health :: "nat \<Rightarrow> UfsDescHealth \<Rightarrow> string \<Rightarrow> string option" where
  "stringify_ufs_health cap d = APPENDS cap
     (stringify_device_health_report
        \<lparr>storage_type_name = ''UFS'', life_time_est_a = bDeviceLifeTimeEstA d, life_time_est_b = bDeviceLifeTimeEstB d,
         eol_info = bPreEOLInfo d, life_time_est_prefix_name = ''bDeviceLifeTimeEst'', eol_info_name = ''bPreEOLInfo''\<rparr> @
      [Some (''Vendor proprietary health report [VendorPropInfo]:'' @ newline)] @
      concat (map (\<lambda>i. Some (''  '' @ hex_02 (rsrvd d ! i)) # (if i mod 8 = 7 then [Some newline] else [])) [0..<32]))"

datatype HealthInfo =
  HEALTH_INFO_UNKNOWN
| HEALTH_INFO_NVME NvmeSmartLogData
| HEALTH_INFO_MMC MmcHealthData
| HEALTH_INFO_UFS UfsDescHealth

text \<open>\<open>nvme\<close>, \<open>mmc\<close> and \<open>ufs\<close> say whether the drivers are configured.\<close>

definition stringify_health_info :: "bool \<Rightarrow> bool \<Rightarrow> bool \<Rightarrow> nat \<Rightarrow> HealthInfo \<Rightarrow> string \<Rightarrow> string option" where
  "stringify_health_info nvme mmc ufs cap info buf =
     (case info of
        HEALTH_INFO_NVME d \<Rightarrow> if nvme then stringify_nvme_smart cap d buf else None
      | HEALTH_INFO_MMC d \<Rightarrow> if mmc then stringify_mmc_health cap d buf else None
      | HEALTH_INFO_UFS d \<Rightarrow> if ufs then stringify_ufs_health cap d buf else None
      | HEALTH_INFO_UNKNOWN \<Rightarrow> None)"

text \<open>A disk: its name, and what its \<open>get_health_info\<close> gives, if it has one. \<open>n\<close> is the number of disks.\<close>

record health_dev =
  hd_name :: string
  get_health_info :: "(int \<times> HealthInfo) option"

fun health_loop :: "(nat \<Rightarrow> HealthInfo \<Rightarrow> string \<Rightarrow> string option) \<Rightarrow> nat \<Rightarrow> nat \<Rightarrow> health_dev list \<Rightarrow> nat \<Rightarrow> string \<Rightarrow>
    string option" where
  "health_loop stringify cap n [] idx buf = Some buf"
| "health_loop stringify cap n (dev # devs) idx buf =
     (let number = ''('' @ decimal idx @ ''/'' @ decimal n @ '') Block device '' @ quoted (hd_name dev)
      in case get_health_info dev of
           Some (res, info) \<Rightarrow>
             (if res \<noteq> 0
              then health_loop stringify cap n devs idx
                     (APPEND cap buf (hd_name dev @ '': Get Health info error: '' @ int_text res @ newline))
              else case stringify cap info (APPEND cap buf (number @ '':'' @ newline)) of
                     None \<Rightarrow> None
                   | Some buf \<Rightarrow> health_loop stringify cap n devs (idx + 1) (if idx < n then APPEND cap buf newline else buf))
         | None \<Rightarrow> health_loop stringify cap n devs idx
                     (APPEND cap buf (number @ '' does not provide health info.'' @ newline)))"

definition dump_all_health_info :: "bool \<Rightarrow> bool \<Rightarrow> bool \<Rightarrow> nat \<Rightarrow> health_dev list \<Rightarrow> string \<Rightarrow> string option" where
  "dump_all_health_info nvme mmc ufs cap devs buf =
     (let n = length devs
      in if n = 0 then Some (APPEND cap buf (''No storage device found'' @ newline @ newline))
         else health_loop (stringify_health_info nvme mmc ufs) cap n devs 1
                (APPEND cap buf (''Total '' @ decimal n @ '' storage device'' @ (if 1 < n then ''s'' else []) @ newline @ newline)))"

section \<open>The number of bytes shown\<close>

definition u128_nat :: "u128 \<Rightarrow> nat" where
  "u128_nat v = unat (hi v) * 2 ^ 64 + unat (lo v)"

lemma bit_length_less: "n < 2 ^ bit_length n"
proof (induction n rule: bit_length.induct)
  case (1 n)
  show ?case
  proof (cases "n = 0")
    case False
    then have "n div 2 < 2 ^ bit_length (n div 2)" by (rule 1)
    then have "n < 2 * 2 ^ bit_length (n div 2)" by linarith
    then show ?thesis using False by (subst bit_length.simps) simp
  qed (simp add: bit_length.simps)
qed

lemma bit_length_le: "n < 2 ^ k \<Longrightarrow> bit_length n \<le> k"
proof (induction k arbitrary: n)
  case (Suc k)
  then have "n div 2 < 2 ^ k" by simp
  then show ?case using Suc.IH by (subst bit_length.simps) simp
qed (simp add: bit_length.simps)

lemma bit_length_ge: "n \<noteq> 0 \<Longrightarrow> 2 ^ (bit_length n - 1) \<le> n"
proof (induction n rule: bit_length.induct)
  case (1 n)
  show ?case
  proof (cases "n div 2 = 0")
    case True
    then have "bit_length n = 1" using 1 by (subst bit_length.simps) (simp add: bit_length.simps)
    then show ?thesis using 1 by simp
  next
    case False
    then have ih: "2 ^ (bit_length (n div 2) - 1) \<le> n div 2" using 1 by simp
    have "bit_length (n div 2) \<noteq> 0" using False by (subst bit_length.simps) simp
    then obtain k where k: "bit_length (n div 2) = Suc k" using not0_implies_Suc by blast
    have "bit_length n = Suc (Suc k)" using 1 k by (subst bit_length.simps) simp
    then show ?thesis using ih k by simp
  qed
qed

lemma bit_length_half: "bit_length (n div 2 ^ k) = bit_length n - k"
proof (induction k arbitrary: n)
  case (Suc k)
  have "n div 2 ^ Suc k = (n div 2) div 2 ^ k" by (simp add: div_mult2_eq)
  then have "bit_length (n div 2 ^ Suc k) = bit_length (n div 2) - k" by (simp add: Suc.IH)
  also have "bit_length (n div 2) = bit_length n - 1" by (subst (2) bit_length.simps) (simp add: bit_length.simps)
  finally show ?case by simp
qed simp

lemma round_up_10:
  assumes "0 \<le> v"
  shows "v \<le> round_up v 10" and "round_up v 10 < v + 10" and "round_up v 10 mod 10 = 0"
proof -
  have "0 \<le> v mod 10" "v mod 10 < 10" by simp_all
  then show "v \<le> round_up v 10" and "round_up v 10 < v + 10" by (auto simp: round_up_def Let_def)
  have "(v + (10 - v mod 10)) mod 10 = 0" by presburger
  then show "round_up v 10 mod 10 = 0" by (simp add: round_up_def Let_def)
qed

lemma unat_drop: "unat (drop_bit n (x :: u64)) = unat x div 2 ^ n"
  by (simp only: unat_drop_bit_eq drop_bit_eq_div [where ?'a = nat])

lemma unat_push:
  assumes "unat (x :: u64) * 2 ^ n < 2 ^ 64"
  shows "unat (push_bit n x) = unat x * 2 ^ n"
proof -
  have "unat (push_bit n x) = take_bit 64 (push_bit n (unat x))" by (simp only: unsigned_push_bit_eq) simp
  also have "\<dots> = unat x * 2 ^ n mod 2 ^ 64" by (simp only: take_bit_eq_mod [where ?'a = nat] push_bit_eq_mult [where ?'a = nat])
  also have "\<dots> = unat x * 2 ^ n" using assms by (rule mod_less)
  finally show ?thesis .
qed

lemma high_half: "unat (drop_bit 32 (x :: u64)) = unat x div 2 ^ 32"
  by (rule unat_drop)

lemma high_half_less: "unat (x :: u64) div 2 ^ 32 < 4294967296"
  by (rule less_mult_imp_div_less) (use unat_less_64 [of x] in simp)

lemma raw_shift:
  "(if drop_bit 32 h \<noteq> 0 then 64 - clz (ucast (drop_bit 32 h)) else 32 - clz (ucast h)) = int (bit_length (unat (h :: u64)))"
proof (cases "drop_bit 32 h = 0")
  case True
  then have "unat h div 2 ^ 32 = 0" unfolding high_half [symmetric] by simp
  then have "unat h < 4294967296" by simp
  then have "unat (ucast h :: u32) = unat h" by (simp add: unsigned_ucast_eq take_bit_eq_mod)
  then show ?thesis using True by (simp add: clz_def)
next
  case False
  have "unat (ucast (drop_bit 32 h) :: u32) = unat h div 2 ^ 32"
    using high_half_less [of h] by (simp add: unsigned_ucast_eq take_bit_eq_mod high_half)
  moreover have "bit_length (unat h div 2 ^ 32) = bit_length (unat h) - 32" by (rule bit_length_half)
  moreover have "32 < bit_length (unat h)"
  proof (rule ccontr)
    assume "\<not> 32 < bit_length (unat h)"
    then have "bit_length (unat h div 2 ^ 32) = 0" unfolding bit_length_half by simp
    then have "unat h div 2 ^ 32 = 0" using bit_length_less [of "unat h div 2 ^ 32"] by simp
    then show False using False high_half [of h] by (simp add: unat_eq_zero)
  qed
  ultimately show ?thesis using False by (simp add: clz_def)
qed

lemma or_no_overlap:
  fixes a b :: u64
  assumes "unat a < 2 ^ s" and "s \<le> 64" and "0 < s"
  shows "unat (push_bit (64 - s) a OR drop_bit s b) = unat a * 2 ^ (64 - s) + unat b div 2 ^ s"
proof -
  have split: "(2 :: nat) ^ s * 2 ^ (64 - s) = 2 ^ 64" using assms(2) by (simp flip: power_add)
  have p: "unat (push_bit (64 - s) a) = unat a * 2 ^ (64 - s)"
  proof -
    have "unat a * 2 ^ (64 - s) < 2 ^ s * 2 ^ (64 - s)" using assms(1) by simp
    then show ?thesis unfolding split by (rule unat_push)
  qed
  have d: "unat (drop_bit s b) = unat b div 2 ^ s"
    by (rule unat_drop)
  have "unat b div 2 ^ s < 2 ^ (64 - s)"
    using unat_less_64 [of b] split by (simp add: less_mult_imp_div_less mult.commute)
  then have dl: "unat (drop_bit s b) < 2 ^ (64 - s)" by (simp add: d)
  have "push_bit (64 - s) a OR drop_bit s b = push_bit (64 - s) a + drop_bit s b"
  proof (rule disjunctive_add_eq_or [symmetric], rule bit_eqI)
    fix n
    show "bit (push_bit (64 - s) a AND drop_bit s b) n = bit (0 :: u64) n"
    proof (cases "n < 64 - s")
      case True
      then show ?thesis by (simp add: bit_simps)
    next
      case False
      then show ?thesis using assms by (auto simp: bit_simps dest: bit_imp_le_length)
    qed
  qed
  moreover have "unat a * 2 ^ (64 - s) + 2 ^ (64 - s) \<le> 2 ^ 64"
  proof -
    have "(unat a + 1) * 2 ^ (64 - s) \<le> 2 ^ s * 2 ^ (64 - s)" using assms(1) by (intro mult_le_mono1) simp
    then show ?thesis unfolding split by simp
  qed
  ultimately show ?thesis using p d dl by (simp add: unat_add_no_wrap)
qed

lemma u128_to_u64_exact:
  assumes "unat (hi val) < 2 ^ 60"
  shows "\<exists>v s. u128_to_u64 val = Some (v, int s) \<and> s mod 10 = 0 \<and> s \<le> 60 \<and> unat v = u128_nat val div 2 ^ s \<and>
    (0 < s \<longrightarrow> 2 ^ 54 \<le> unat v)"
proof -
  let ?B = "bit_length (unat (hi val))"
  have B: "?B \<le> 60" using bit_length_le [OF assms] .
  define s where "s = nat (round_up (int ?B) 10)"
  have r1: "int s = round_up (int ?B) 10" using round_up_10(1) [of "int ?B"] by (simp add: s_def)
  have r: "int s = round_up (int ?B) 10" "?B \<le> s" "s < ?B + 10" "s mod 10 = 0"
    using round_up_10 [of "int ?B", folded r1] r1 by simp_all presburger
  have s60: "s \<le> 60" using r B by presburger
  have h: "unat (hi val) < 2 ^ s"
    using bit_length_less [of "unat (hi val)"] r(2) by (meson le_trans less_le_trans one_le_numeral power_increasing)
  define v where "v = (if 0 < s then push_bit (64 - s) (hi val) OR drop_bit s (lo val) else lo val)"
  have "u128_to_u64 val = Some (v, int s)"
    using s60 unfolding u128_to_u64_def raw_shift Let_def r(1) [symmetric]
    by (auto simp: v_def nat_diff_distrib' drop_bit_0)
  moreover have ex: "unat v = u128_nat val div 2 ^ s"
  proof (cases "0 < s")
    case True
    have "(2 :: nat) ^ (64 - s) * 2 ^ s = 2 ^ 64" using s60 by (simp flip: power_add)
    then have "u128_nat val = unat (lo val) + (unat (hi val) * 2 ^ (64 - s)) * 2 ^ s"
      unfolding u128_nat_def by (simp only: mult.assoc add.commute)
    then have "u128_nat val div 2 ^ s = unat (hi val) * 2 ^ (64 - s) + unat (lo val) div 2 ^ s"
      using div_mult_self1 [of "2 ^ s" "unat (lo val)" "unat (hi val) * 2 ^ (64 - s)"] by simp
    then show ?thesis using or_no_overlap [OF h] True s60 by (simp add: v_def)
  next
    case False
    then show ?thesis using h by (simp add: v_def u128_nat_def)
  qed
  moreover have "2 ^ 54 \<le> unat v" if "0 < s"
  proof -
    have "unat (hi val) \<noteq> 0"
    proof
      assume "unat (hi val) = 0"
      then have "?B = 0" by (simp only: bit_length.simps [of 0]) simp
      then have "s < 10" using r(3) by simp
      then show False using r(4) that by simp
    qed
    then have "2 ^ (?B - 1) \<le> unat (hi val)" by (rule bit_length_ge)
    then have "2 ^ (?B - 1) * 2 ^ 64 \<le> u128_nat val" unfolding u128_nat_def by (simp add: trans_le_add1)
    then have "2 ^ (?B - 1) * 2 ^ 64 div 2 ^ s \<le> u128_nat val div 2 ^ s" by (rule div_le_mono)
    moreover have "(2 :: nat) ^ (?B - 1) * 2 ^ 64 div 2 ^ s = 2 ^ (?B - 1 + 64 - s)"
      unfolding power_add [symmetric] by (rule power_diff [symmetric]) (use s60 in simp_all)
    moreover have "(2 :: nat) ^ 54 \<le> 2 ^ (?B - 1 + 64 - s)" using r(3) that by (intro power_increasing) auto
    ultimately show ?thesis using ex by linarith
  qed
  ultimately show ?thesis using s60 r(4) by (intro exI [of _ v] exI [of _ s]) simp
qed


text \<open>The exponent grows with each division by 1024; what is shown is the number of bytes, rounded down.\<close>

lemma reduce_spec:
  assumes "reduce v s = (w, t)"
  shows "\<exists>k. t = s + 10 * int k \<and> w = v div 1024 ^ k \<and> w < 1024 * 1024"
  using assms
proof (induction v s rule: reduce.induct)
  case (1 v s)
  show ?case
  proof (cases "1024 * 1024 \<le> v")
    case True
    then have "reduce (v div 1024) (s + 10) = (w, t)" using "1.prems" by (subst (asm) reduce.simps) simp
    from "1.IH" [OF True this] obtain k where "t = s + 10 + 10 * int k" "w = v div 1024 div 1024 ^ k" "w < 1024 * 1024" by blast
    then show ?thesis by (intro exI [of _ "Suc k"]) (simp add: div_mult2_eq)
  next
    case False
    then show ?thesis using "1.prems" by (subst (asm) reduce.simps) (auto intro: exI [of _ 0])
  qed
qed

lemma div_mult_le: "n div a * (b :: nat) * a \<le> n * b"
  by (metis div_times_less_eq_dividend mult.assoc mult.commute mult_le_mono1)

lemma log2_less:
  assumes "0 < b" and "b < 2 ^ 31"
  shows "b < 2 ^ nat (log2 (word_of_nat b) + 1)" and "0 \<le> log2 (word_of_nat b)" and "log2 (word_of_nat b) < 31"
proof -
  have b: "unat (word_of_nat b :: u32) = b" using assms(2) by (simp add: unat_of_nat)
  have l: "log2 (word_of_nat b) + 1 = int (bit_length b)" by (simp add: log2_def clz_def b)
  show "b < 2 ^ nat (log2 (word_of_nat b) + 1)" unfolding l using bit_length_less [of b] by simp
  have "bit_length b \<noteq> 0" using assms(1) by (subst bit_length.simps) simp
  then show "0 \<le> log2 (word_of_nat b)" using l by linarith
  show "log2 (word_of_nat b) < 31" using l bit_length_le [OF assms(2)] by linarith
qed

text \<open>
  No overflow in the multiplication: the number is first made small enough. What is shown never
  exceeds the true number of bytes.
\<close>

lemma capacity_no_overflow:
  fixes v :: u64
  assumes "0 < b" and "b < 2 ^ 31" and "n = round_up (log2 (word_of_nat b) + 1 - clz (ucast (drop_bit 32 v))) 10"
    and "w = (if 0 < log2 (word_of_nat b) + 1 - clz (ucast (drop_bit 32 v)) then drop_bit (nat n) v else v)"
  shows "unat w * b < 2 ^ 64"
proof -
  let ?L = "nat (log2 (word_of_nat b) + 1)" and ?V = "bit_length (unat v div 2 ^ 32)"
  note L = log2_less [OF assms(1,2)]
  have c: "clz (ucast (drop_bit 32 v)) = 32 - int ?V"
    using high_half_less [of v] by (simp add: clz_def unsigned_ucast_eq take_bit_eq_mod high_half)
  have V32: "?V \<le> 32" using high_half_less [of v] by (intro bit_length_le) simp
  have v: "unat v < 2 ^ (32 + ?V)"
  proof -
    have "unat v div 2 ^ 32 < 2 ^ ?V" by (rule bit_length_less)
    then have "unat v < 2 ^ ?V * 2 ^ 32" by (subst (asm) div_less_iff_less_mult) simp_all
    then show ?thesis by (simp only: power_add mult.commute)
  qed
  have "unat w < 2 ^ (64 - ?L)"
  proof (cases "0 < log2 (word_of_nat b) + 1 - clz (ucast (drop_bit 32 v))")
    case False
    then have "32 + ?V \<le> 64 - ?L" using L c V32 by linarith
    then have "(2 :: nat) ^ (32 + ?V) \<le> 2 ^ (64 - ?L)" by (rule power_increasing) simp
    then have "unat v < 2 ^ (64 - ?L)" using v by (rule order_less_le_trans [rotated])
    then show ?thesis using False assms(4) by simp
  next
    case True
    have n: "?L + ?V - 32 \<le> nat n" using round_up_10(1) [OF less_imp_le [OF True]] assms(3) c L by linarith
    have "32 + ?V \<le> 64 - ?L + nat n" using n L V32 by linarith
    then have "(2 :: nat) ^ (32 + ?V) \<le> 2 ^ (64 - ?L + nat n)" by (rule power_increasing) simp
    then have "unat v < 2 ^ (64 - ?L) * 2 ^ nat n" using v unfolding power_add [of _ "64 - ?L"] by linarith
    then have "unat v div 2 ^ nat n < 2 ^ (64 - ?L)" by (rule less_mult_imp_div_less)
    then show ?thesis using True assms(4) by (simp add: unat_drop)
  qed
  then have "unat w * b < 2 ^ (64 - ?L) * 2 ^ ?L" using L(1) by (intro mult_strict_mono) auto
  also have "\<dots> = 2 ^ 64" using L by (simp flip: power_add)
  finally show ?thesis .
qed


lemma capacity_shown:
  assumes "unat (hi val) < 2 ^ 60" and "0 < b" and "b < 2 ^ 31"
  shows "\<exists>h l e. capacity val b = Some (h, l, int e) \<and> h < 1024 \<and> l < 1000 \<and> e mod 10 = 0 \<and>
    (1000 * h + l) * 2 ^ e \<le> 1000 * (u128_nat val * b)"
proof -
  obtain v s where v: "u128_to_u64 val = Some (v, int s)" "s mod 10 = 0" "unat v = u128_nat val div 2 ^ s"
    using u128_to_u64_exact [OF assms(1)] by (elim exE conjE)
  define a where "a = log2 (word_of_nat b) + 1 - clz (ucast (drop_bit 32 v))"
  define n where "n = (if 0 < a then nat (round_up a 10) else 0)"
  define w where "w = drop_bit n v"
  have n: "n mod 10 = 0" "0 < a \<Longrightarrow> int n = round_up a 10"
  proof -
    show i: "int n = round_up a 10" if "0 < a" using round_up_10(1) [of a] that by (simp add: n_def)
    show "n mod 10 = 0"
    proof (cases "0 < a")
      case True
      then have "int n mod 10 = 0" using round_up_10(3) [of a] i by simp
      then show ?thesis by presburger
    qed (simp add: n_def)
  qed
  have w_if: "w = (if 0 < a then drop_bit (nat (round_up a 10)) v else v)" by (simp add: w_def n_def)
  have P: "unat w * b < 2 ^ 64"
    by (rule capacity_no_overflow [OF assms(2,3) refl w_if [unfolded a_def]])
  obtain x t where red: "reduce (unat w * b) (int (s + n)) = (x, t)" by fastforce
  obtain k where k: "t = int (s + n) + 10 * int k" "x = unat w * b div 1024 ^ k" "x < 1024 * 1024"
    using reduce_spec [OF red] by blast
  define e0 where "e0 = s + n + 10 * k"
  have t: "t = int e0" and e0: "e0 mod 10 = 0" using k(1) v(2) n(1) by (simp_all add: e0_def mod_add_eq [symmetric])
  have ie0: "int e0 mod 10 = 0" using e0 by presburger
  have le: "x * 2 ^ e0 \<le> u128_nat val * b"
  proof -
    have "x * 2 ^ e0 = unat w * b div 1024 ^ k * 1024 ^ k * 2 ^ n * 2 ^ s"
      by (simp add: k(2) e0_def power_add power_mult)
    also have "\<dots> \<le> unat w * b * 2 ^ n * 2 ^ s" by (simp add: div_times_less_eq_dividend)
    also have "\<dots> = unat v div 2 ^ n * 2 ^ n * (b * 2 ^ s)" by (simp add: w_def unat_drop ac_simps)
    also have "\<dots> \<le> unat v * (b * 2 ^ s)" by (rule mult_le_mono1 [OF div_times_less_eq_dividend])
    also have "\<dots> = u128_nat val div 2 ^ s * 2 ^ s * b" by (simp add: v(3) ac_simps)
    also have "\<dots> \<le> u128_nat val * b" by (rule mult_le_mono1 [OF div_times_less_eq_dividend])
    finally show ?thesis .
  qed
  have cap: "capacity val b = (let (h, l, shift) =
      (if 1024 \<le> x then (x div 1024, x mod 1024 * 1000 div 1024, t + 10) else (x, 0, t))
      in if shift mod 10 = 0 then Some (h, l, shift) else None)"
  proof -
    have pr: "(if 0 < a then (drop_bit (nat (round_up a 10)) v, int s + round_up a 10) else (v, int s)) = (w, int (s + n))"
      using n(2) by (simp add: w_if n_def)
    show ?thesis
      unfolding capacity_def v(1) option.case prod.case Let_def a_def [symmetric] pr mul64_id [OF P] red by (rule refl)
  qed
  show ?thesis
  proof (cases "1024 \<le> x")
    case True
    define h l where "h = x div 1024" and "l = x mod 1024 * 1000 div 1024"
    define m where "m = x mod 1024"
    have lm: "l * 1024 \<le> m * 1000" unfolding l_def m_def by (rule div_times_less_eq_dividend)
    have hm: "h * 1024 + m = x" unfolding h_def m_def by (rule div_mult_mod_eq)
    have "(1000 * h + l) * 1024 \<le> 1000 * x" unfolding hm [symmetric] using lm by simp
    then have "(1000 * h + l) * 1024 * 2 ^ e0 \<le> 1000 * x * 2 ^ e0" by (rule mult_le_mono1)
    also have "\<dots> \<le> 1000 * (u128_nat val * b)" using le by simp
    finally have sc: "(1000 * h + l) * 1024 * 2 ^ e0 \<le> 1000 * (u128_nat val * b)" .
    have "(2 :: nat) ^ (e0 + 10) = 1024 * 2 ^ e0" by (simp add: power_add)
    then have "(1000 * h + l) * 2 ^ (e0 + 10) \<le> 1000 * (u128_nat val * b)" using sc by (simp only: mult.assoc)
    moreover have "h < 1024" using k(3) by (simp add: h_def less_mult_imp_div_less)
    moreover have "l < 1000"
    proof -
      have "x mod 1024 * 1000 < 1000 * 1024" using mod_less_divisor [of 1024 x] by simp
      then show ?thesis unfolding l_def by (rule less_mult_imp_div_less)
    qed
    moreover have "capacity val b = Some (h, l, int (e0 + 10))"
      using True ie0 unfolding cap t h_def l_def by (simp add: Let_def)
    moreover have "(e0 + 10) mod 10 = 0" using e0 by simp
    ultimately show ?thesis by (intro exI [of _ h] exI [of _ l] exI [of _ "e0 + 10"]) simp
  next
    case False
    then have "capacity val b = Some (x, 0, int e0)" using ie0 unfolding cap t by (simp add: Let_def)
    then show ?thesis using False le e0 by (intro exI [of _ x] exI [of _ 0] exI [of _ e0]) simp
  qed
qed

text \<open>From \<open>2 ^ 124\<close> on the shift is 70, and the upper half would be shifted by -6.\<close>

lemma u128_too_large: "u128_to_u64 \<lparr>lo = 0, hi = 2 ^ 60\<rparr> = None"
proof -
  have "bit_length (2 ^ 60) = 61"
    using bit_length_half [of "2 ^ 60" 60] bit_length_le [of "2 ^ 60" 61] by (simp add: bit_length.simps)
  moreover have "unat (2 ^ 60 :: u64) = 2 ^ 60" by simp
  ultimately show ?thesis
    unfolding u128_to_u64_def Let_def by (simp only: raw_shift u128.simps) (simp add: round_up_def)
qed


text \<open>What is shown of a sequence of texts is the whole text, cut at the end of the buffer.\<close>

lemma APPENDS_shown:
  assumes "0 < cap" and "APPENDS cap strs [] = Some buf"
  shows "\<exists>ts. those strs = Some ts \<and> shown cap buf = take (cap - 1) (concat ts)"
  using assms fold_APPEND_shown [OF assms(1)] by (auto simp: APPENDS_def)

text \<open>The number of a disk is not counted on for one without health information: the next has the same number.\<close>

lemma same_number_twice:
  assumes "get_health_info d1 = None" and "get_health_info d2 = None"
  shows "health_loop stringify cap 2 [d1, d2] 1 buf = Some (APPEND cap (APPEND cap buf
      (''(1/2) Block device '' @ quoted (hd_name d1) @ '' does not provide health info.'' @ newline))
      (''(1/2) Block device '' @ quoted (hd_name d2) @ '' does not provide health info.'' @ newline))"
proof -
  have "decimal 1 = ''1''" "decimal 2 = ''2''" by code_simp+
  then show ?thesis using assms by (simp add: Let_def)
qed

end
