(* ===== verification/Elog.thy ===== *)
theory Elog
  imports Fmap
begin

text \<open>
  \<open>src/base/elog.c\<close>: the event log in flash. The whole area is mirrored in memory; an event is sealed
  there and written to flash behind the last one. The layout of the log and of an event, and the
  functions on one event, are in coreboot's commonlib, which is not under \<open>src/\<close>: they are the argument
  \<open>F\<close>, and \<open>elog_format_ok\<close> is what they promise. \<open>None\<close> is a copy out of the bounds of the mirror, a
  flash that is not there, or a scan that never ends.
\<close>

section \<open>Model\<close>

record elog_format =
  log_header_size :: nat
  event_header_size :: nat
  type_at :: nat
  length_at :: nat
  day_at :: nat
  ELOG_TYPE_EOL :: u8
  ELOG_MAX_EVENT_SIZE :: nat
  ELOG_RW_REGION_NAME :: "u8 list"
  elog_verify_header :: "u8 list \<Rightarrow> bool"
  elog_checksum_event :: "u8 list \<Rightarrow> u8"
  elog_update_checksum :: "u8 list \<Rightarrow> nat \<Rightarrow> u8 \<Rightarrow> u8 list"
  elog_get_next_event :: "u8 list \<Rightarrow> nat"

datatype elog_error = ELOG_SUCCESS | ELOG_ERR_BROKEN | ELOG_ERR_NOT_IMPLEMENTED | ELOG_ERR_EX | ELOG_ERR_CONTENT

datatype elog_init_state = ELOG_INIT_UNINITIALIZED | ELOG_INIT_INITIALIZED | ELOG_INIT_BROKEN

text \<open>\<open>last_rtc_event\<close> is an offset in the mirror. The last two fields are the cached flash map and the flash.\<close>

record 's elog_state =
  last_write :: nat
  nv_last_write :: nat
  nv_area :: FmapArea
  elog_mirror_buf :: "u8 list"
  elog_size :: nat
  last_rtc_event :: "nat option"
  elog_initialized :: elog_init_state
  elog_fmap :: "u8 list option"
  elog_dev :: 's

definition ELOG_SIZE :: nat where "ELOG_SIZE = 4096"

definition elog_events_start :: "elog_format \<Rightarrow> nat" where
  "elog_events_start F = log_header_size F"

definition elog_is_buffer_clear :: "elog_format \<Rightarrow> 's elog_state \<Rightarrow> nat \<Rightarrow> bool" where
  "elog_is_buffer_clear F st offset \<longleftrightarrow>
     list_all (\<lambda>b. b = ELOG_TYPE_EOL F) (bslice offset (elog_size st - offset) (elog_mirror_buf st))"

definition elog_is_event_valid :: "elog_format \<Rightarrow> u8 list \<Rightarrow> nat \<Rightarrow> bool" where
  "elog_is_event_valid F event size_limit =
     (let len = unat (event ! length_at F)
      in if len < event_header_size F + 1 then False
         else if ELOG_MAX_EVENT_SIZE F < len \<or> size_limit < len then False
         else if elog_checksum_event F event \<noteq> 0 then False else True)"

text \<open>The loop of the scan: whether every event was good, the offset it stopped at, the last event with a time.\<close>

partial_function (option) elog_scan ::
  "elog_format \<Rightarrow> u8 list \<Rightarrow> nat \<Rightarrow> nat \<Rightarrow> nat option \<Rightarrow> (bool \<times> nat \<times> nat option) option" where
  "elog_scan F data n offset rtc =
     (if offset + event_header_size F < n
      then let event = drop offset data
           in if event ! type_at F = ELOG_TYPE_EOL F then Some (True, offset, rtc)
              else if \<not> elog_is_event_valid F event (n - offset) then Some (False, offset, rtc)
              else elog_scan F data n (offset + elog_get_next_event F event)
                     (if event ! day_at F \<noteq> 0 then Some offset else rtc)
      else Some (True, offset, rtc))"

definition elog_update_event_buffer_state ::
  "elog_format \<Rightarrow> nat \<Rightarrow> 's elog_state \<Rightarrow> (elog_error \<times> 's elog_state) option" where
  "elog_update_event_buffer_state F start_offset st =
     (case elog_scan F (elog_mirror_buf st) (elog_size st) start_offset None of
        None \<Rightarrow> None
      | Some (ok, offset, rtc) \<Rightarrow>
          let st = st\<lparr>last_write := offset, last_rtc_event := rtc\<rparr>
          in if \<not> ok then Some (ELOG_ERR_CONTENT, st)
             else if \<not> elog_is_buffer_clear F st offset then Some (ELOG_ERR_CONTENT, st)
             else Some (ELOG_SUCCESS, st))"

definition elog_init ::
  "elog_format \<Rightarrow> fmap_sysinfo \<Rightarrow> 's flash_ops option \<Rightarrow> 's elog_state \<Rightarrow> (elog_error \<times> 's elog_state) option" where
  "elog_init F si fo st =
     (case elog_initialized st of
        ELOG_INIT_INITIALIZED \<Rightarrow> Some (ELOG_SUCCESS, st)
      | ELOG_INIT_BROKEN \<Rightarrow> Some (ELOG_ERR_BROKEN, st)
      | ELOG_INIT_UNINITIALIZED \<Rightarrow>
          let st = st\<lparr>elog_initialized := ELOG_INIT_BROKEN\<rparr>
          in case fmap_find_area si fo (ELOG_RW_REGION_NAME F) (elog_fmap st) (elog_dev st) of
               None \<Rightarrow> None
             | Some (None, fmap, s) \<Rightarrow> Some (ELOG_ERR_EX, st\<lparr>elog_fmap := Some fmap, elog_dev := s\<rparr>)
             | Some (Some area, fmap, s) \<Rightarrow>
                 let n = min (fa_size area) ELOG_SIZE
                 in case flash_read fo (fa_offset area) n s of
                      None \<Rightarrow> None
                    | Some (ret, data, s) \<Rightarrow>
                        let st = st\<lparr>elog_fmap := Some fmap, elog_dev := s, nv_area := area, elog_size := n,
                                    elog_mirror_buf := memcpy_at (elog_mirror_buf st) 0 (take n data)\<rparr>
                        in if \<not> eq_u64 ret n then Some (ELOG_ERR_EX, st)
                           else if \<not> elog_verify_header F (take (log_header_size F) (elog_mirror_buf st))
                           then Some (ELOG_ERR_CONTENT, st)
                           else case elog_update_event_buffer_state F (elog_events_start F) st of
                                  None \<Rightarrow> None
                                | Some (rv, st) \<Rightarrow>
                                    if rv \<noteq> ELOG_SUCCESS then Some (ELOG_ERR_CONTENT, st)
                                    else Some (ELOG_SUCCESS, st\<lparr>nv_last_write := last_write st,
                                                              elog_initialized := ELOG_INIT_INITIALIZED\<rparr>))"

definition elog_sync_to_flash ::
  "'s flash_ops option \<Rightarrow> 's elog_state \<Rightarrow> (elog_error \<times> 's elog_state) option" where
  "elog_sync_to_flash fo st =
     (if last_write st \<le> nv_last_write st then Some (ELOG_SUCCESS, st)
      else let write_size = last_write st - nv_last_write st
           in case flash_write fo (drop (nv_last_write st) (elog_mirror_buf st))
                     (add64 (fa_offset (nv_area st)) (nv_last_write st) mod 2 ^ 32) write_size (elog_dev st) of
                None \<Rightarrow> None
              | Some (rv, s) \<Rightarrow>
                  let st = st\<lparr>elog_dev := s\<rparr>
                  in if \<not> eq_u64 rv write_size then Some (ELOG_ERR_EX, st)
                     else Some (ELOG_SUCCESS, st\<lparr>nv_last_write := last_write st\<rparr>))"

text \<open>The event in the mirror at \<open>pos\<close>: the time of the last dated event, type, length, data and checksum.\<close>

definition fill_event ::
  "elog_format \<Rightarrow> nat option \<Rightarrow> u8 \<Rightarrow> u8 \<Rightarrow> u8 list \<Rightarrow> nat \<Rightarrow> u8 list \<Rightarrow> u8 list" where
  "fill_event F rtc event_type len data pos buf =
     (let buf = (case rtc of Some r \<Rightarrow> memcpy_at buf pos (bslice r (event_header_size F) buf) | None \<Rightarrow> buf);
          buf = buf[pos + type_at F := event_type];
          buf = buf[pos + length_at F := len];
          buf = memcpy_at buf (pos + event_header_size F) data;
          buf = elog_update_checksum F buf pos 0
      in elog_update_checksum F buf pos (- elog_checksum_event F (drop pos buf)))"

definition elog_add_event_raw ::
  "elog_format \<Rightarrow> fmap_sysinfo \<Rightarrow> 's flash_ops option \<Rightarrow> u8 \<Rightarrow> u8 list \<Rightarrow> u8 \<Rightarrow> 's elog_state \<Rightarrow>
   (elog_error \<times> 's elog_state) option" where
  "elog_add_event_raw F si fo event_type data data_size st =
     (case elog_init F si fo st of
        None \<Rightarrow> None
      | Some (rv, st) \<Rightarrow>
          if rv \<noteq> ELOG_SUCCESS then Some (rv, st)
          else let size8 = word_of_nat (event_header_size F + unat data_size + 1) :: u8
               in if ELOG_MAX_EVENT_SIZE F < unat size8 then Some (ELOG_ERR_CONTENT, st)
                  else if elog_size st < last_write st + unat size8 then Some (ELOG_ERR_CONTENT, st)
                  else if length (elog_mirror_buf st) < last_write st + event_header_size F + unat data_size \<or>
                          length data < unat data_size then None
                  else elog_sync_to_flash fo
                         (st\<lparr>elog_mirror_buf := fill_event F (last_rtc_event st) event_type size8
                                                 (take (unat data_size) data) (last_write st) (elog_mirror_buf st),
                             last_write := last_write st + unat size8\<rparr>))"

definition elog_add_event where
  "elog_add_event F si fo event_type st = elog_add_event_raw F si fo event_type [] 0 st"

definition elog_add_event_byte where
  "elog_add_event_byte F si fo event_type (d :: u8) st = elog_add_event_raw F si fo event_type [d] 1 st"

definition elog_add_event_word where
  "elog_add_event_word F si fo event_type (d :: u16) st =
     elog_add_event_raw F si fo event_type (le16_bytes (unat d)) 2 st"

definition elog_add_event_dword where
  "elog_add_event_dword F si fo event_type (d :: u32) st =
     elog_add_event_raw F si fo event_type (le32_bytes d) 4 st"

text \<open>vboot's boot information: its bytes, none without a context, and where the recovery reason starts.\<close>

definition elog_add_vboot_info ::
  "elog_format \<Rightarrow> fmap_sysinfo \<Rightarrow> 's flash_ops option \<Rightarrow> u8 \<Rightarrow> u8 list option \<Rightarrow> u8 \<Rightarrow> bool \<Rightarrow> 's elog_state \<Rightarrow>
   (elog_error \<times> 's elog_state) option" where
  "elog_add_vboot_info F si fo ELOG_TYPE_FW_VBOOT_INFO info reason_offset recovery st =
     (case info of
        None \<Rightarrow> Some (ELOG_ERR_EX, st)
      | Some data \<Rightarrow>
          elog_add_event_raw F si fo ELOG_TYPE_FW_VBOOT_INFO data
            (if recovery then word_of_nat (length data) else reason_offset) st)"

section \<open>The log as a list of events\<close>

text \<open>What commonlib promises of its functions.\<close>

definition elog_format_ok :: "elog_format \<Rightarrow> bool" where
  "elog_format_ok F \<longleftrightarrow>
     type_at F < event_header_size F \<and> length_at F < event_header_size F \<and> day_at F < event_header_size F \<and>
     type_at F \<noteq> length_at F \<and> type_at F \<noteq> day_at F \<and> length_at F \<noteq> day_at F \<and>
     ELOG_TYPE_EOL F = 0xff \<and> ELOG_MAX_EVENT_SIZE F < 256 \<and>
     (\<forall>ev. unat (ev ! length_at F) \<le> length ev \<longrightarrow>
        elog_checksum_event F ev = sum_list (take (unat (ev ! length_at F)) ev)) \<and>
     (\<forall>buf pos c. 0 < unat (buf ! (pos + length_at F)) \<and> pos + unat (buf ! (pos + length_at F)) \<le> length buf \<longrightarrow>
        elog_update_checksum F buf pos c = buf[pos + unat (buf ! (pos + length_at F)) - 1 := c]) \<and>
     (\<forall>ev. elog_get_next_event F ev = unat (ev ! length_at F))"

definition event_ok :: "elog_format \<Rightarrow> u8 list \<Rightarrow> bool" where
  "event_ok F ev \<longleftrightarrow> length ev = unat (ev ! length_at F) \<and> event_header_size F + 1 \<le> length ev \<and>
     length ev \<le> ELOG_MAX_EVENT_SIZE F \<and> sum_list ev = 0 \<and> ev ! type_at F \<noteq> ELOG_TYPE_EOL F"

definition rtc_below :: "elog_format \<Rightarrow> nat option \<Rightarrow> nat \<Rightarrow> bool" where
  "rtc_below F rtc n \<longleftrightarrow> (case rtc of None \<Rightarrow> True | Some r \<Rightarrow> r + event_header_size F \<le> n)"

definition elog_holds :: "elog_format \<Rightarrow> u8 list \<Rightarrow> u8 list list \<Rightarrow> u8 list \<Rightarrow> bool" where
  "elog_holds F hdr es bs \<longleftrightarrow> length hdr = log_header_size F \<and> elog_verify_header F hdr \<and> (\<forall>ev\<in>set es. event_ok F ev) \<and>
     (\<exists>k. bs = hdr @ concat es @ replicate k (ELOG_TYPE_EOL F))"

lemma elog_scan_holds:
  assumes "elog_format_ok F" and "\<forall>ev\<in>set es. event_ok F ev" and "rtc_below F rtc (length pre)"
    and "n = length pre + length (concat es) + k"
  shows "\<exists>rtc'. elog_scan F (pre @ concat es @ replicate k (ELOG_TYPE_EOL F) @ rest) n (length pre) rtc =
      Some (True, length pre + length (concat es), rtc') \<and>
    rtc_below F rtc' (length pre + length (concat es))"
  using assms(2-4)
proof (induction es arbitrary: pre rtc)
  case Nil
  have "type_at F < event_header_size F" using assms(1) by (simp add: elog_format_ok_def)
  then have "elog_scan F (pre @ concat [] @ replicate k (ELOG_TYPE_EOL F) @ rest) n (length pre) rtc =
      Some (True, length pre + length (concat ([] :: u8 list list)), rtc)"
    using Nil by (subst elog_scan.simps) (auto simp: Let_def nth_append)
  then show ?case using Nil by simp
next
  case (Cons ev es)
  let ?tail = "concat es @ replicate k (ELOG_TYPE_EOL F) @ rest"
  have ev: "event_ok F ev" using Cons.prems(1) by simp
  note e = ev [unfolded event_ok_def] and f = assms(1) [unfolded elog_format_ok_def]
  have at: "(ev @ ?tail) ! type_at F = ev ! type_at F" "(ev @ ?tail) ! length_at F = ev ! length_at F"
    using e f by (simp_all add: nth_append)
  have valid: "elog_is_event_valid F (ev @ ?tail) (n - length pre)"
    using e f at Cons.prems(3) by (simp add: elog_is_event_valid_def Let_def)
  have nxt: "elog_get_next_event F (ev @ ?tail) = length ev" using e f at by simp
  define rtc1 where "rtc1 = (if (ev @ ?tail) ! day_at F \<noteq> 0 then Some (length pre) else rtc)"
  have "length pre + event_header_size F < n" using e Cons.prems(3) by simp
  then have "elog_scan F (pre @ concat (ev # es) @ replicate k (ELOG_TYPE_EOL F) @ rest) n (length pre) rtc =
      elog_scan F ((pre @ ev) @ ?tail) n (length (pre @ ev)) rtc1"
    using valid at nxt e by (subst elog_scan.simps) (simp add: Let_def rtc1_def)
  moreover have "rtc_below F rtc1 (length (pre @ ev))"
    using Cons.prems(2) e by (auto simp: rtc1_def rtc_below_def split: option.splits)
  ultimately show ?case using Cons.IH [of rtc1 "pre @ ev"] Cons.prems(1,3) by (simp add: add.assoc)
qed

text \<open>What is in the mirror and in flash between two operations.\<close>

definition elog_area :: "('s \<Rightarrow> u8 list) \<Rightarrow> FmapArea \<Rightarrow> 's \<Rightarrow> u8 list" where
  "elog_area content area s = bslice (fa_offset area) (min (fa_size area) ELOG_SIZE) (content s)"

definition elog_inv ::
  "elog_format \<Rightarrow> ('s \<Rightarrow> u8 list) \<Rightarrow> FmapArea \<Rightarrow> u8 list \<Rightarrow> u8 list list \<Rightarrow> 's elog_state \<Rightarrow> bool" where
  "elog_inv F content area hdr es st \<longleftrightarrow>
     elog_initialized st = ELOG_INIT_INITIALIZED \<and> nv_area st = area \<and>
     elog_size st = min (fa_size area) ELOG_SIZE \<and> length (elog_mirror_buf st) = ELOG_SIZE \<and>
     last_write st = length hdr + length (concat es) \<and> nv_last_write st = last_write st \<and>
     take (elog_size st) (elog_mirror_buf st) = elog_area content area (elog_dev st) \<and>
     elog_holds F hdr es (elog_area content area (elog_dev st)) \<and>
     rtc_below F (last_rtc_event st) (last_write st)"

text \<open>The event that is written.\<close>

definition new_event :: "elog_format \<Rightarrow> 's elog_state \<Rightarrow> u8 \<Rightarrow> u8 list \<Rightarrow> u8 list" where
  "new_event F st event_type data =
     (let time = (case last_rtc_event st of Some r \<Rightarrow> bslice r (event_header_size F) (elog_mirror_buf st)
                                          | None \<Rightarrow> replicate (event_header_size F) (ELOG_TYPE_EOL F));
          ev = time[type_at F := event_type, length_at F := word_of_nat (event_header_size F + length data + 1)] @ data
      in ev @ [- sum_list ev])"

lemma sum_list_sealed: "sum_list (ev @ [- sum_list (ev :: u8 list)]) = 0"
  by simp

lemma fill_event_sealed:
  assumes "elog_format_ok F" and "length h = event_header_size F" and "length d = length data" and "0 < unat len"
    and "unat len = event_header_size F + length data + 1"
    and "case rtc of None \<Rightarrow> t = h | Some r \<Rightarrow> r + event_header_size F \<le> length pre \<and> t = bslice r (event_header_size F) pre"
  shows "fill_event F rtc event_type len data (length pre) (pre @ h @ d @ c # rest) =
    (let ev = t[type_at F := event_type, length_at F := len] @ data in pre @ ev @ (- sum_list ev) # rest)"
proof -
  note f = assms(1) [unfolded elog_format_ok_def]
  let ?hd = "t[type_at F := event_type, length_at F := len]"
  let ?ev = "?hd @ data"
  have t: "length t = event_header_size F" using assms(2,6) by (auto split: option.splits)
  have time: "(case rtc of Some r \<Rightarrow> memcpy_at (pre @ h @ d @ c # rest) (length pre)
        (bslice r (event_header_size F) (pre @ h @ d @ c # rest)) | None \<Rightarrow> pre @ h @ d @ c # rest) = pre @ t @ d @ c # rest"
    using assms(2,6) by (auto simp: memcpy_at_def bslice_def split: option.splits)
  have upd: "(pre @ t @ d @ c # rest)[length pre + type_at F := event_type, length pre + length_at F := len] =
      pre @ ?hd @ d @ c # rest"
    using f t by (simp add: list_update_append)
  have cp: "memcpy_at (pre @ ?hd @ d @ c # rest) (length pre + event_header_size F) data = pre @ ?ev @ c # rest"
    using t assms(3) by (simp add: memcpy_at_def)
  have at: "(pre @ ?ev @ x # rest) ! (length pre + length_at F) = len" "(?ev @ x # rest) ! length_at F = len" for x
    using f t by (simp_all add: nth_append)
  have lev: "length ?ev + 1 = unat len" using assms(5) t by simp
  have seal: "elog_update_checksum F (pre @ ?ev @ x # rest) (length pre) y = pre @ ?ev @ y # rest" for x y
  proof -
    have "elog_update_checksum F (pre @ ?ev @ x # rest) (length pre) y =
        (pre @ ?ev @ x # rest)[length pre + unat len - 1 := y]"
      using f at [of x] assms(4) lev by simp
    also have "length pre + unat len - 1 = length pre + length ?ev" using lev by simp
    finally show ?thesis by (simp add: list_update_append)
  qed
  have "elog_checksum_event F (?ev @ 0 # rest) = sum_list (take (unat len) (?ev @ 0 # rest))"
    using f at(2) [of 0] lev by simp
  also have "take (unat len) (?ev @ 0 # rest) = ?ev @ [0]" unfolding lev [symmetric] by simp
  finally have "elog_checksum_event F (?ev @ 0 # rest) = sum_list ?ev" by simp
  then show ?thesis unfolding fill_event_def Let_def time upd cp seal by simp
qed

lemma elog_holds_append:
  assumes "elog_holds F hdr es bs" and "event_ok F ev" and "length hdr + length (concat es) + length ev \<le> length bs"
  shows "elog_holds F hdr (es @ [ev]) (memcpy_at bs (length hdr + length (concat es)) ev)"
proof -
  obtain k where bs: "bs = hdr @ concat es @ replicate k (ELOG_TYPE_EOL F)" using assms(1) by (auto simp: elog_holds_def)
  have "memcpy_at bs (length hdr + length (concat es)) ev =
      hdr @ concat (es @ [ev]) @ replicate (k - length ev) (ELOG_TYPE_EOL F)"
    by (simp add: memcpy_at_def bs)
  then show ?thesis using assms(1,2) by (auto simp: elog_holds_def)
qed

lemma unat_of_u8: "n < 256 \<Longrightarrow> unat (word_of_nat n :: u8) = n"
  by (simp add: unat_of_nat)

lemma new_event_ok:
  assumes "elog_format_ok F" and "event_header_size F + length data + 1 \<le> ELOG_MAX_EVENT_SIZE F"
    and "event_type \<noteq> ELOG_TYPE_EOL F" and "length (elog_mirror_buf st) = ELOG_SIZE" and "last_write st \<le> ELOG_SIZE"
    and "rtc_below F (last_rtc_event st) (last_write st)"
  shows "event_ok F (new_event F st event_type data)"
    and "length (new_event F st event_type data) = event_header_size F + length data + 1"
    and "new_event F st event_type data ! type_at F = event_type"
    and "bslice (event_header_size F) (length data) (new_event F st event_type data) = data"
proof -
  note f = assms(1) [unfolded elog_format_ok_def]
  define t where "t = (case last_rtc_event st of Some r \<Rightarrow> bslice r (event_header_size F) (elog_mirror_buf st)
                                       | None \<Rightarrow> replicate (event_header_size F) (ELOG_TYPE_EOL F))"
  define len :: u8 where "len = word_of_nat (event_header_size F + length data + 1)"
  define h where "h = t[type_at F := event_type, length_at F := len]"
  have t: "length t = event_header_size F" using assms(4-6) by (auto simp: t_def rtc_below_def split: option.splits)
  have len: "unat len = event_header_size F + length data + 1" unfolding len_def by (rule unat_of_u8) (use f assms(2) in simp)
  have ev: "new_event F st event_type data = h @ data @ [- sum_list (h @ data)]"
    by (simp add: new_event_def t_def h_def len_def Let_def)
  have h: "length h = event_header_size F" "h ! type_at F = event_type" "h ! length_at F = len"
    using f t by (simp_all add: h_def)
  show "length (new_event F st event_type data) = event_header_size F + length data + 1"
    and "new_event F st event_type data ! type_at F = event_type"
    and "bslice (event_header_size F) (length data) (new_event F st event_type data) = data"
    using f h by (simp_all add: ev nth_append bslice_def)
  moreover have "sum_list (new_event F st event_type data) = 0"
    using sum_list_sealed [of "h @ data"] by (simp add: ev)
  moreover have "new_event F st event_type data ! length_at F = len" using f h by (simp add: ev nth_append)
  ultimately show "event_ok F (new_event F st event_type data)"
    using assms(2,3) len by (simp add: event_ok_def)
qed

lemma fill_event_new:
  assumes "elog_format_ok F" and "event_header_size F + length data + 1 \<le> ELOG_MAX_EVENT_SIZE F"
    and "length (elog_mirror_buf st) = ELOG_SIZE" and "last_write st + event_header_size F + length data + 1 \<le> ELOG_SIZE"
    and "bslice (last_write st) (event_header_size F) (elog_mirror_buf st) = replicate (event_header_size F) (ELOG_TYPE_EOL F)"
    and "rtc_below F (last_rtc_event st) (last_write st)"
  shows "fill_event F (last_rtc_event st) event_type (word_of_nat (event_header_size F + length data + 1)) data (last_write st)
      (elog_mirror_buf st) = memcpy_at (elog_mirror_buf st) (last_write st) (new_event F st event_type data)"
proof -
  note f = assms(1) [unfolded elog_format_ok_def]
  let ?m = "elog_mirror_buf st" and ?lw = "last_write st" and ?es = "event_header_size F" and ?n = "length data"
  define pre h d c rest where "pre = take ?lw ?m" and "h = bslice ?lw ?es ?m" and "d = bslice (?lw + ?es) ?n ?m"
    and "c = ?m ! (?lw + ?es + ?n)" and "rest = drop (?lw + ?es + ?n + 1) ?m"
  define t where "t = (case last_rtc_event st of Some r \<Rightarrow> bslice r ?es ?m | None \<Rightarrow> replicate ?es (ELOG_TYPE_EOL F))"
  have tail: "drop (?lw + ?es + ?n) ?m = c # rest"
    using assms(3,4) by (simp add: c_def rest_def Cons_nth_drop_Suc flip: Suc_eq_plus1)
  have m: "?m = pre @ h @ d @ c # rest"
    unfolding tail [symmetric] pre_def h_def d_def bslice_def
    by (metis (no_types, lifting) append_take_drop_id drop_drop add.commute)
  have len: "length pre = ?lw" "length h = ?es" "length d = ?n" using assms(3,4) by (simp_all add: pre_def h_def d_def)
  have len8: "unat (word_of_nat (?es + ?n + 1) :: u8) = ?es + ?n + 1" by (rule unat_of_u8) (use f assms(2) in simp)
  have "case last_rtc_event st of None \<Rightarrow> t = h | Some r \<Rightarrow> r + ?es \<le> length pre \<and> t = bslice r ?es pre"
    using assms(5,6) len by (auto simp: t_def h_def pre_def bslice_def drop_take rtc_below_def split: option.splits)
  moreover have "new_event F st event_type data =
      (let ev = t[type_at F := event_type, length_at F := word_of_nat (?es + ?n + 1)] @ data in ev @ [- sum_list ev])"
    by (simp add: new_event_def t_def Let_def)
  moreover have "length t = ?es" using assms(3-6) by (auto simp: t_def rtc_below_def split: option.splits)
  ultimately show ?thesis
    using fill_event_sealed [OF assms(1) len(2,3), of "word_of_nat (?es + ?n + 1)" t pre "last_rtc_event st" event_type c rest]
      len8 len by (subst (1 2) m) (simp add: Let_def memcpy_at_def del: of_nat_add)
qed

section \<open>The log survives the next boot\<close>

definition elog_boot :: "u8 list \<Rightarrow> FmapArea \<Rightarrow> u8 list \<Rightarrow> 's \<Rightarrow> 's elog_state" where
  "elog_boot fmap area mirror s =
     \<lparr>last_write = 0, nv_last_write = 0, nv_area = area, elog_mirror_buf = mirror, elog_size = 0, last_rtc_event = None,
      elog_initialized = ELOG_INIT_UNINITIALIZED, elog_fmap = Some fmap, elog_dev = s\<rparr>"

lemma bslice_0: "bslice 0 n xs = take n xs"
  by (simp add: bslice_def)

lemma min_area_bound: "min (fa_size area) ELOG_SIZE < 18446744073709551616"
  by (simp add: ELOG_SIZE_def min_def)

context nor_flash
begin

lemma elog_init_ok:
  assumes F: "elog_format_ok F" and fit: "fa_offset area + fa_size area \<le> fsize"
    and fm: "area_loop fmap (ELOG_RW_REGION_NAME F) (fmap_nareas fmap) 0 = Some area"
    and mir: "length mirror = ELOG_SIZE" and holds: "elog_holds F hdr es (elog_area content area s)"
  shows "\<exists>st. elog_init F si (Some ops) (elog_boot fmap any_area mirror s) = Some (ELOG_SUCCESS, st) \<and>
    elog_inv F content area hdr es st \<and> content (elog_dev st) = content s"
proof -
  define n where "n = min (fa_size area) ELOG_SIZE"
  define A where "A = elog_area content area s"
  have lA: "length A = n" using fit by (simp add: A_def elog_area_def n_def)
  have "fa_offset area + n \<le> fsize" using fit by (simp add: n_def)
  from flash_read_ok [OF this, of s] obtain s' where
    r: "flash_read (Some ops) (fa_offset area) n s = Some (int n, A, s')" and c: "content s' = content s"
    by (auto simp: flash_read_def A_def elog_area_def n_def)
  have fa: "fmap_find_area si (Some ops) (ELOG_RW_REGION_NAME F) (Some fmap) s = Some (Some area, fmap, s)"
    by (simp add: fmap_find_area_def fmap_init_def fm)
  obtain k where A: "A = hdr @ concat es @ replicate k (ELOG_TYPE_EOL F)" and hdr: "length hdr = log_header_size F"
    "elog_verify_header F hdr" and es: "\<forall>ev\<in>set es. event_ok F ev"
    using holds by (auto simp: elog_holds_def A_def)
  define rest where "rest = drop n mirror"
  have nS: "n \<le> ELOG_SIZE" by (simp add: n_def)
  have m: "memcpy_at mirror 0 (take n A) = A @ rest" using lA by (simp add: memcpy_at_def rest_def)
  have nk: "n = length hdr + length (concat es) + k" using lA by (simp add: A)
  obtain rtc where sc: "elog_scan F (A @ rest) n (length hdr) None = Some (True, length hdr + length (concat es), rtc)"
    and rtc: "rtc_below F rtc (length hdr + length (concat es))"
    using elog_scan_holds [OF F es, of None hdr n k rest] nk by (auto simp: A rtc_below_def)
  have clear: "bslice (length hdr + length (concat es)) (n - (length hdr + length (concat es))) (A @ rest) =
      replicate k (ELOG_TYPE_EOL F)"
    by (simp add: bslice_def A nk)
  have eq: "eq_u64 (int n) n" using min_area_bound [of area] by (simp add: n_def)
  have mn: "min (fa_size area) ELOG_SIZE = n" by (simp add: n_def)
  define st where "st = (elog_boot fmap any_area mirror s)\<lparr>elog_initialized := ELOG_INIT_INITIALIZED, elog_dev := s',
    nv_area := area, elog_size := n, elog_mirror_buf := A @ rest, last_write := length hdr + length (concat es),
    last_rtc_event := rtc, nv_last_write := length hdr + length (concat es)\<rparr>"
  have "elog_init F si (Some ops) (elog_boot fmap any_area mirror s) = Some (ELOG_SUCCESS, st)"
    using hdr(2)
    by (simp add: elog_init_def elog_boot_def fa mn r m eq Let_def elog_update_event_buffer_state_def elog_events_start_def
        hdr(1) [symmetric] sc elog_is_buffer_clear_def clear st_def)
       (simp add: A list_all_iff)
  moreover have "elog_inv F content area hdr es st"
    using holds rtc lA mir nS c
    by (simp add: elog_inv_def st_def n_def [symmetric] rest_def A_def elog_area_def elog_boot_def)
  moreover have "content (elog_dev st) = content s" using c by (simp add: st_def)
  ultimately show ?thesis by blast
qed

lemma elog_add_ok:
  assumes F: "elog_format_ok F" and fit: "fa_offset area + fa_size area \<le> fsize"
    and inv: "elog_inv F content area hdr es st" and ty: "event_type \<noteq> ELOG_TYPE_EOL F"
    and ds: "unat data_size \<le> length data"
    and small: "event_header_size F + unat data_size + 1 \<le> ELOG_MAX_EVENT_SIZE F"
    and room: "last_write st + event_header_size F + unat data_size + 1 \<le> elog_size st"
  shows "\<exists>st'. elog_add_event_raw F si (Some ops) event_type data data_size st = Some (ELOG_SUCCESS, st') \<and>
    elog_inv F content area hdr (es @ [new_event F st event_type (take (unat data_size) data)]) st' \<and>
    content (elog_dev st') = memcpy_at (content (elog_dev st)) (fa_offset area) (elog_area content area (elog_dev st'))"
proof -
  note i = inv [unfolded elog_inv_def]
  define d where "d = take (unat data_size) data"
  define ev where "ev = new_event F st event_type d"
  define n where "n = elog_size st"
  define A where "A = elog_area content area (elog_dev st)"
  let ?lw = "last_write st" and ?m = "elog_mirror_buf st" and ?off = "fa_offset area"
  have dl: "length d = unat data_size" using ds by (simp add: d_def)
  have n: "n = min (fa_size area) ELOG_SIZE" "n \<le> ELOG_SIZE" and fn: "?off + n \<le> fsize" using i fit by (auto simp: n_def)
  have lA: "length A = n" using fn by (simp add: A_def elog_area_def n)
  have tm: "take n ?m = A" unfolding n_def A_def using i by (elim conjE)
  obtain k where A: "A = hdr @ concat es @ replicate k (ELOG_TYPE_EOL F)" using i by (auto simp: elog_holds_def A_def)
  have lw: "?lw = length hdr + length (concat es)" and nk: "n = ?lw + k" using i lA by (simp_all add: A)
  have lm: "length ?m = ELOG_SIZE" using i by simp
  have erased: "bslice ?lw l A = replicate l (ELOG_TYPE_EOL F)" if "?lw + l \<le> n" for l
    using that nk by (simp add: bslice_def A lw)
  have room': "?lw + (event_header_size F + length d + 1) \<le> n" using room by (simp add: n_def dl)
  have "bslice ?lw (event_header_size F) ?m = bslice ?lw (event_header_size F) (take n ?m)"
    using room' by (simp add: bslice_def drop_take min_def)
  then have free: "bslice ?lw (event_header_size F) ?m = replicate (event_header_size F) (ELOG_TYPE_EOL F)"
    using erased [of "event_header_size F"] room' by (simp add: tm)
  have rtc: "rtc_below F (last_rtc_event st) ?lw" using i by (elim conjE)
  have lwS: "?lw \<le> ELOG_SIZE" and S: "?lw + event_header_size F + length d + 1 \<le> ELOG_SIZE" using room' n(2) by simp_all
  note small' = small [folded dl]
  note ne = new_event_ok [OF F small' ty lm lwS rtc, folded ev_def]
  note fill = fill_event_new [OF F small' lm S free rtc, of event_type, folded ev_def]
  let ?l = "length ev"
  have l: "?l = event_header_size F + length d + 1" by (rule ne(2))
  have l8: "unat (word_of_nat ?l :: u8) = ?l"
    by (rule unat_of_u8) (use F small' in \<open>simp add: l elog_format_ok_def\<close>)
  define m' where "m' = memcpy_at ?m ?lw ev"
  have lm': "length m' = ELOG_SIZE" using S lm by (simp add: m'_def l)
  have tm': "take n m' = memcpy_at A ?lw ev"
    using bslice_memcpy_at_inside [of 0 n ?m ?lw ev] room' n(2) lm by (simp add: m'_def bslice_0 tm l)
  have fl: "?off + ?lw + ?l \<le> fsize" using fn room' by (simp add: l)
  have off: "add64 ?off ?lw mod 4294967296 = ?off + ?lw" using fl fsize_bound by (simp add: add64_def)
  have data: "take ?l (drop ?lw m') = ev"
    using bslice_memcpy_at_same [of ?lw ev ?m] S lm by (simp add: m'_def bslice_def l)
  have old: "bslice (?off + ?lw) ?l (content (elog_dev st)) = replicate ?l 0xff"
  proof -
    have "bslice ?lw ?l (bslice ?off n (content (elog_dev st))) = bslice (?off + ?lw) ?l (content (elog_dev st))"
      by (rule bslice_bslice) (use room' l in simp)
    then show ?thesis using erased [of ?l] room' F by (simp add: A_def elog_area_def n(1) [symmetric] l elog_format_ok_def)
  qed
  have "?l \<le> length (drop ?lw m')" using S lm' by (simp add: l)
  from flash_write_ok [OF fl this, of "elog_dev st"] obtain s' where
    w: "flash_write (Some ops) (drop ?lw m') (?off + ?lw) ?l (elog_dev st) = Some (int ?l, s')"
    and c: "content s' = memcpy_at (content (elog_dev st)) (?off + ?lw) ev"
    by (auto simp: flash_write_def data old nor_write_erased)
  have A': "elog_area content area s' = memcpy_at A ?lw ev"
    unfolding elog_area_def c A_def n(1) [symmetric]
    by (rule bslice_memcpy_at_inside) (use fn room' l in simp_all)
  define st' where "st' = st\<lparr>elog_mirror_buf := m', last_write := ?lw + ?l, elog_dev := s', nv_last_write := ?lw + ?l\<rparr>"
  have nv: "nv_last_write st = ?lw" "nv_area st = area" "elog_initialized st = ELOG_INIT_INITIALIZED" using i by simp_all
  have eq: "eq_u64 (int ?l) ?l" by (rule eq_u64_int) (use S in \<open>simp add: l ELOG_SIZE_def\<close>)
  have td: "take (length d) data = d" by (simp add: d_def min_def)
  have lp: "0 < ?l" by (simp add: l)
  have sync: "elog_sync_to_flash (Some ops) (st\<lparr>elog_mirror_buf := m', last_write := ?lw + ?l\<rparr>) = Some (ELOG_SUCCESS, st')"
    using w eq lp by (simp add: elog_sync_to_flash_def nv off Let_def st'_def)
  have "elog_add_event_raw F si (Some ops) event_type data data_size st = Some (ELOG_SUCCESS, st')"
    using sync small room ds S lm fill l8 td
    by (simp add: elog_add_event_raw_def elog_init_def nv Let_def dl [symmetric] d_def [symmetric] l m'_def del: of_nat_add)
  moreover have inv': "elog_inv F content area hdr (es @ [ev]) st'"
    using i elog_holds_append [of F hdr es A ev] ne(1) lA room' l lw tm' lm' A' rtc
    by (simp add: elog_inv_def st'_def A_def [symmetric] n_def [symmetric] rtc_below_def split: option.splits)
  moreover have "content (elog_dev st') = memcpy_at (content (elog_dev st)) ?off (elog_area content area (elog_dev st'))"
  proof -
    have "memcpy_at (content (elog_dev st)) ?off (memcpy_at A ?lw ev) = memcpy_at (content (elog_dev st)) (?off + ?lw) ev"
      unfolding A_def elog_area_def n(1) [symmetric]
      by (rule memcpy_at_block) (use fn room' l in simp_all)
    then show ?thesis by (simp add: st'_def A' c)
  qed
  ultimately show ?thesis unfolding ev_def d_def by blast
qed

end

lemma nor_flash_of: "flash_ok ops content \<Longrightarrow> nor_flash ops content"
  by (rule nor_flash.intro)

text \<open>
  C31. Adding an event to the event log (\<open>elog_add_event_raw\<close>) on a NOR flash. When the log holds the events
  \<open>es\<close> and there is room for one more, the call succeeds, and mirror and flash hold \<open>es\<close> followed by one sealed
  event: the type and the data asked for, the time of the last dated event, bytes that sum to zero. Nothing
  outside of the log's area changes, and at the next boot \<open>elog_init\<close> accepts the log and finds the same events.
\<close>

theorem elog_add_event_durable:
  assumes "flash_ok ops content" and "elog_format_ok F"
    and "fa_offset area + fa_size area \<le> sector_size ops * sector_count ops"
    and "elog_inv F content area hdr es st" and "event_type \<noteq> ELOG_TYPE_EOL F" and "unat data_size \<le> length data"
    and "event_header_size F + unat data_size + 1 \<le> ELOG_MAX_EVENT_SIZE F"
    and "last_write st + event_header_size F + unat data_size + 1 \<le> elog_size st"
    and "area_loop fmap (ELOG_RW_REGION_NAME F) (fmap_nareas fmap) 0 = Some area" and "length mirror = ELOG_SIZE"
  shows "\<exists>st' st'' ev. elog_add_event_raw F si (Some ops) event_type data data_size st = Some (ELOG_SUCCESS, st') \<and>
    ev = new_event F st event_type (take (unat data_size) data) \<and> event_ok F ev \<and>
    ev ! type_at F = event_type \<and> bslice (event_header_size F) (unat data_size) ev = take (unat data_size) data \<and>
    elog_inv F content area hdr (es @ [ev]) st' \<and>
    content (elog_dev st') = memcpy_at (content (elog_dev st)) (fa_offset area) (elog_area content area (elog_dev st')) \<and>
    elog_init F si (Some ops) (elog_boot fmap any_area mirror (elog_dev st')) = Some (ELOG_SUCCESS, st'') \<and>
    elog_inv F content area hdr (es @ [ev]) st''"
proof -
  let ?ev = "new_event F st event_type (take (unat data_size) data)"
  note nf = nor_flash_of [OF assms(1)]
  obtain st' where add: "elog_add_event_raw F si (Some ops) event_type data data_size st = Some (ELOG_SUCCESS, st')"
    and inv: "elog_inv F content area hdr (es @ [?ev]) st'"
    and c: "content (elog_dev st') = memcpy_at (content (elog_dev st)) (fa_offset area) (elog_area content area (elog_dev st'))"
    using nor_flash.elog_add_ok [OF nf assms(2-8)] by blast
  have holds: "elog_holds F hdr (es @ [?ev]) (elog_area content area (elog_dev st'))" using inv by (simp add: elog_inv_def)
  obtain st'' where init: "elog_init F si (Some ops) (elog_boot fmap any_area mirror (elog_dev st')) = Some (ELOG_SUCCESS, st'')"
    and inv'': "elog_inv F content area hdr (es @ [?ev]) st''"
    using nor_flash.elog_init_ok [OF nf assms(2,3,9,10) holds] by blast
  have ds: "length (take (unat data_size) data) = unat data_size" using assms(6) by simp
  have len: "length (elog_mirror_buf st) = ELOG_SIZE" and lw: "last_write st \<le> ELOG_SIZE"
    and rtc: "rtc_below F (last_rtc_event st) (last_write st)"
    using assms(4,8) by (auto simp: elog_inv_def)
  have small: "event_header_size F + length (take (unat data_size) data) + 1 \<le> ELOG_MAX_EVENT_SIZE F"
    unfolding ds by (rule assms(7))
  note ev = new_event_ok [OF assms(2) small assms(5) len lw rtc]
  show ?thesis
    using add inv c init inv'' ev(1,3) ev(4) [unfolded ds] by blast
qed

text \<open>
  The layout of commonlib's first version of the log, and a flash of 128 bytes whose upper half is the log with
  one event: type 22, of the 3rd of a month, without data.
\<close>

definition ex_format :: elog_format where
  "ex_format = \<lparr>log_header_size = 8, event_header_size = 8, type_at = 0, length_at = 1, day_at = 4, ELOG_TYPE_EOL = 0xff,
     ELOG_MAX_EVENT_SIZE = 127, ELOG_RW_REGION_NAME = [0x52, 0x57, 0x5f, 0x45, 0x4c, 0x4f, 0x47],
     elog_verify_header = (\<lambda>h. take 4 h = [0x45, 0x4c, 0x4f, 0x47]),
     elog_checksum_event = (\<lambda>ev. sum_list (take (unat (ev ! 1)) ev)),
     elog_update_checksum = (\<lambda>buf pos c. buf[pos + unat (buf ! (pos + 1)) - 1 := c]),
     elog_get_next_event = (\<lambda>ev. unat (ev ! 1))\<rparr>"

definition ex_hdr :: "u8 list" where
  "ex_hdr = [0x45, 0x4c, 0x4f, 0x47, 1, 8, 0xff, 0xff]"

definition ex_event :: "u8 list" where
  "ex_event = [22, 9, 0x24, 5, 3, 0, 0, 0, 181]"

definition ex_elog_area :: FmapArea where
  "ex_elog_area = \<lparr>fa_offset = 64, fa_size = 64,
     fa_name = [0x52, 0x57, 0x5f, 0x45, 0x4c, 0x4f, 0x47] @ replicate 25 0, fa_flags = 0\<rparr>"

definition ex_elog_state :: "u8 list elog_state" where
  "ex_elog_state =
     \<lparr>last_write = 17, nv_last_write = 17, nv_area = ex_elog_area,
      elog_mirror_buf = (ex_hdr @ ex_event @ replicate 47 0xff) @ replicate 4032 0, elog_size = 64,
      last_rtc_event = Some 8, elog_initialized = ELOG_INIT_INITIALIZED,
      elog_fmap = Some (fmap_bytes (replicate 46 0) [ex_elog_area]),
      elog_dev = replicate 64 0 @ ex_hdr @ ex_event @ replicate 47 0xff\<rparr>"

lemma ex_format_ok: "elog_format_ok ex_format"
  by (simp add: elog_format_ok_def ex_format_def)

lemma ex_elog_inv: "elog_inv ex_format (mem_content 128) ex_elog_area ex_hdr [ex_event] ex_elog_state"
proof -
  let ?log = "ex_hdr @ ex_event @ replicate 47 0xff :: u8 list"
  have len: "length ex_hdr = 8" "length ex_event = 9" by (simp_all add: ex_hdr_def ex_event_def)
  have a: "elog_area (mem_content 128) ex_elog_area (elog_dev ex_elog_state) = ?log"
    by (simp add: elog_area_def ex_elog_state_def ex_elog_area_def mem_content_id bslice_def ELOG_SIZE_def len)
  have "event_ok ex_format ex_event" by (simp add: event_ok_def ex_event_def ex_format_def)
  then have "elog_holds ex_format ex_hdr [ex_event] ?log"
    unfolding elog_holds_def by (intro conjI exI [of _ 47]) (simp_all add: ex_format_def ex_hdr_def)
  moreover have "take (elog_size ex_elog_state) (elog_mirror_buf ex_elog_state) = ?log"
    by (simp add: ex_elog_state_def len)
  ultimately show ?thesis
    unfolding elog_inv_def a
    by (simp add: ex_elog_state_def len ELOG_SIZE_def ex_elog_area_def rtc_below_def ex_format_def)
qed

lemma ex_elog_area_found:
  "area_loop (fmap_bytes (replicate 46 0) [ex_elog_area]) (ELOG_RW_REGION_NAME ex_format)
     (fmap_nareas (fmap_bytes (replicate 46 0) [ex_elog_area])) 0 = Some ex_elog_area"
proof -
  have "area_ok ex_elog_area" by (simp add: area_ok_def ex_elog_area_def)
  moreover have "same_area_name (ELOG_RW_REGION_NAME ex_format) (fa_name ex_elog_area)"
    by (simp add: same_area_name_def cstr_def ex_elog_area_def ex_format_def)
  ultimately show ?thesis using area_loop_bytes [of "replicate 46 0" "[ex_elog_area]" "[]"] by simp
qed

theorem elog_add_event_durable_witness:
  "\<exists>st' st''. elog_add_event_raw ex_format \<lparr>fmap_cache = None, fmap_offset = 0\<rparr> (Some (mem_flash 16 8)) 0xa1 [7] 1
      ex_elog_state = Some (ELOG_SUCCESS, st') \<and>
    elog_init ex_format \<lparr>fmap_cache = None, fmap_offset = 0\<rparr> (Some (mem_flash 16 8))
      (elog_boot (fmap_bytes (replicate 46 0) [ex_elog_area]) ex_elog_area (replicate 4096 0) (elog_dev st')) =
      Some (ELOG_SUCCESS, st'') \<and>
    elog_inv ex_format (mem_content 128) ex_elog_area ex_hdr
      [ex_event, [0xa1, 10, 0x24, 5, 3, 0, 0, 0, 7, 34]] st''"
proof -
  have fl: "flash_ok (mem_flash 16 8) (mem_content 128)" using mem_flash_ok [of 16 8] by simp
  have fit: "fa_offset ex_elog_area + fa_size ex_elog_area \<le> sector_size (mem_flash 16 8) * sector_count (mem_flash 16 8)"
    by (simp add: ex_elog_area_def mem_flash_def)
  have ty: "(0xa1 :: u8) \<noteq> ELOG_TYPE_EOL ex_format" by (simp add: ex_format_def)
  have ds: "unat (1 :: u8) \<le> length [7 :: u8]" by simp
  have small: "event_header_size ex_format + unat (1 :: u8) + 1 \<le> ELOG_MAX_EVENT_SIZE ex_format"
    by (simp add: ex_format_def)
  have room: "last_write ex_elog_state + event_header_size ex_format + unat (1 :: u8) + 1 \<le> elog_size ex_elog_state"
    by (simp add: ex_format_def ex_elog_state_def)
  have mir: "length (replicate 4096 (0 :: u8)) = ELOG_SIZE" by (simp add: ELOG_SIZE_def)
  have ev: "new_event ex_format ex_elog_state 0xa1 (take (unat (1 :: u8)) [7]) = [0xa1, 10, 0x24, 5, 3, 0, 0, 0, 7, 34]"
    by (simp add: new_event_def ex_format_def ex_elog_state_def ex_hdr_def ex_event_def bslice_def Let_def)
  from elog_add_event_durable [OF fl ex_format_ok fit ex_elog_inv ty ds small room ex_elog_area_found mir,
      of "\<lparr>fmap_cache = None, fmap_offset = 0\<rparr>" ex_elog_area]
  show ?thesis unfolding ev by auto
qed

text \<open>
  The size of an event is kept in eight bits before it is compared with the maximum: 250 bytes of data
  give an event of size 3, and the data is copied over what lies behind it in the mirror.
\<close>

lemma large_event_is_accepted:
  assumes "elog_initialized st = ELOG_INIT_INITIALIZED" and "event_header_size F = 8" and "3 \<le> ELOG_MAX_EVENT_SIZE F"
    and "last_write st + 3 \<le> elog_size st" and "last_write st + 258 \<le> length (elog_mirror_buf st)" and "length data = 250"
  shows "elog_add_event_raw F si fo event_type data 250 st =
    elog_sync_to_flash fo (st\<lparr>elog_mirror_buf := fill_event F (last_rtc_event st) event_type 3 data (last_write st)
                                                  (elog_mirror_buf st), last_write := last_write st + 3\<rparr>)"
proof -
  have wrap: "(259 :: u8) = 3" by simp
  show ?thesis using assms by (simp add: elog_add_event_raw_def elog_init_def Let_def wrap)
qed

text \<open>Without a dated event the header of a new one is left erased, so its day is not 0: it counts as dated at the next scan.\<close>

lemma undated_event_looks_dated:
  assumes "elog_format_ok F" and "last_rtc_event st = None"
  shows "new_event F st event_type data ! day_at F \<noteq> 0"
  using assms by (simp add: elog_format_ok_def new_event_def Let_def nth_append)

end
