(* ===== verification/Tftp.thy ===== *)
theory Tftp
  imports Dc_Prelude
begin

text \<open>
  \<open>src/netboot/tftp.c\<close>: the TFTP client of netboot. A transfer is a loop that polls the network; a
  datagram that arrives runs \<open>tftp_callback\<close>. The state holds the static variables of the file, the
  memory at the destination, the remote port of the UDP connection and the datagrams sent. What the
  network delivers and the time are arguments: one entry for each turn of the loop. The text on the
  console is not modelled.

  The theorem: whatever blocks the network loses, repeats or delays (by less than the 65536 numbers
  of blocks), a file that fits is received byte for byte.
\<close>

section \<open>Model\<close>

datatype TftpStatus = TftpPending | TftpSuccess | TftpFailure

definition TftpReadReq :: nat where "TftpReadReq = 1"
definition TftpData :: nat where "TftpData = 3"
definition TftpAck :: nat where "TftpAck = 4"
definition TftpError :: nat where "TftpError = 5"
definition TftpPort :: nat where "TftpPort = 69"
definition TftpMaxBlockSize :: nat where "TftpMaxBlockSize = 512"
definition TfTpRespTimeoutUs :: nat where "TfTpRespTimeoutUs = 200 * 1000"

record tftp_state =
  tftp_status :: TftpStatus
  tftp_mem :: "u8 list"
  tftp_dest :: nat
  tftp_got_response :: bool
  tftp_blocknum :: nat
  tftp_total_size :: nat
  tftp_max_size :: nat
  conn_rport :: nat
  sent :: "(nat \<times> u8 list) list"

definition TftpAckPacket :: "nat \<Rightarrow> u8 list" where
  "TftpAckPacket block = be16_bytes TftpAck @ be16_bytes block"

definition udp_send :: "u8 list \<Rightarrow> tftp_state \<Rightarrow> tftp_state" where
  "udp_send data t = t\<lparr>sent := sent t @ [(conn_rport t, data)]\<rparr>"

text \<open>The data is copied in and counted.\<close>

definition store_block :: "u8 list \<Rightarrow> tftp_state \<Rightarrow> tftp_state" where
  "store_block new_data t =
     t\<lparr>tftp_mem := memcpy_at (tftp_mem t) (tftp_dest t) new_data,
       tftp_dest := tftp_dest t + length new_data,
       tftp_total_size := add32 (tftp_total_size t) (length new_data)\<rparr>"

text \<open>\<open>tftp_callback\<close> for a datagram \<open>appdata\<close> from the port \<open>srcport\<close>.\<close>

definition tftp_callback :: "nat \<Rightarrow> u8 list \<Rightarrow> tftp_state \<Rightarrow> tftp_state" where
  "tftp_callback srcport appdata t =
     (if length appdata < 2 then t
      else
        let t = (if conn_rport t = 0 then t\<lparr>conn_rport := srcport\<rparr> else t);
            opcode = be16_dec appdata 0
        in if opcode = TftpError then t\<lparr>tftp_status := TftpFailure\<rparr>
        else if opcode \<noteq> TftpData \<or> length appdata < 4 then t
        else
          let blocknum = be16_dec appdata 2
          in if blocknum \<noteq> tftp_blocknum t mod 65536 then t
          else
            let new_data = drop 4 appdata; new_data_len = length new_data
            in if TftpMaxBlockSize < new_data_len then t
            else if sub32 (tftp_max_size t) (tftp_total_size t) < new_data_len
            then t\<lparr>tftp_status := TftpFailure\<rparr>
            else
              let t = store_block new_data t;
                  t = udp_send (TftpAckPacket (tftp_blocknum t)) t;
                  t = t\<lparr>tftp_got_response := True\<rparr>
              in if new_data_len < TftpMaxBlockSize then t\<lparr>tftp_status := TftpSuccess\<rparr>
                 else t\<lparr>tftp_blocknum := tftp_blocknum t + 1\<rparr>)"

text \<open>
  \<open>net_poll\<close>: uIP gives the callback the datagrams from the remote port of the connection, or from
  any port while that is 0.
\<close>

fun net_poll :: "(nat \<times> u8 list) option \<Rightarrow> tftp_state \<Rightarrow> tftp_state" where
  "net_poll None t = t"
| "net_poll (Some (srcport, appdata)) t =
     (if conn_rport t = 0 \<or> conn_rport t = srcport then tftp_callback srcport appdata t else t)"

definition tftp_resend :: "u8 list \<Rightarrow> tftp_state \<Rightarrow> tftp_state" where
  "tftp_resend read_req t =
     (if tftp_blocknum t = 1 then (udp_send read_req (t\<lparr>conn_rport := TftpPort\<rparr>))\<lparr>conn_rport := 0\<rparr>
      else udp_send (TftpAckPacket (tftp_blocknum t - 1)) t)"

text \<open>
  The loop of \<open>tftp_read\<close>: for each turn, what arrives and the time after the poll. The timer is
  started again only when a packet is resent, not when a response arrives.
\<close>

fun tftp_loop ::
  "u8 list \<Rightarrow> nat \<Rightarrow> ((nat \<times> u8 list) option \<times> nat) list \<Rightarrow> tftp_state \<Rightarrow> tftp_state" where
  "tftp_loop read_req resend_timer [] t = t"
| "tftp_loop read_req resend_timer ((event, now) # polls) t =
     (if tftp_status t \<noteq> TftpPending then t
      else
        let t = net_poll event (t\<lparr>tftp_got_response := False\<rparr>)
        in if tftp_got_response t then tftp_loop read_req resend_timer polls t
        else if now - resend_timer < TfTpRespTimeoutUs then tftp_loop read_req resend_timer polls t
        else tftp_loop read_req now polls (tftp_resend read_req t))"

definition read_request :: "u8 list \<Rightarrow> u8 list" where
  "read_request bootfile = be16_bytes TftpReadReq @ c_str bootfile @ [0] @ c_bytes ''Octet'' @ [0]"

text \<open>
  \<open>tftp_read\<close>: its result, the size it stores and the state. \<open>mem\<close> is the memory from \<open>dest\<close> on,
  \<open>conn_ok\<close> says whether a UDP connection is free. \<open>None\<close>: still polling after the last entry.
\<close>

definition tftp_read ::
  "bool \<Rightarrow> u8 list \<Rightarrow> u8 list \<Rightarrow> nat \<Rightarrow> nat \<Rightarrow> ((nat \<times> u8 list) option \<times> nat) list \<Rightarrow>
   (int \<times> nat option \<times> tftp_state) option" where
  "tftp_read conn_ok mem bootfile max_size start polls =
     (let read_req = read_request bootfile;
          t = \<lparr>tftp_status = TftpPending, tftp_mem = mem, tftp_dest = 0, tftp_got_response = False,
               tftp_blocknum = 1, tftp_total_size = 0, tftp_max_size = max_size, conn_rport = TftpPort,
               sent = []\<rparr>
      in if \<not> conn_ok then Some (-1, None, t)
         else
           let t = (udp_send read_req t)\<lparr>conn_rport := 0\<rparr>;
               t = tftp_loop read_req start polls t
           in case tftp_status t of
                TftpPending \<Rightarrow> None
              | TftpFailure \<Rightarrow> Some (-1, None, t)
              | TftpSuccess \<Rightarrow> Some (0, Some (tftp_total_size t), t))"

section \<open>Only the destination is written\<close>

text \<open>Whatever arrives, the bytes stored are counted and stay within the maximum size.\<close>

definition tftp_inv :: "u8 list \<Rightarrow> tftp_state \<Rightarrow> bool" where
  "tftp_inv mem t \<longleftrightarrow>
     tftp_dest t = tftp_total_size t \<and> tftp_total_size t \<le> tftp_max_size t \<and> tftp_max_size t < 2 ^ 32 \<and>
     tftp_max_size t \<le> length mem \<and> length (tftp_mem t) = length mem \<and>
     drop (tftp_max_size t) (tftp_mem t) = drop (tftp_max_size t) mem"

lemma sub32_id: "b \<le> a \<Longrightarrow> a < 2 ^ 32 \<Longrightarrow> sub32 a b = a - b"
proof -
  assume *: "b \<le> a" "a < 2 ^ 32"
  then have "a + 2 ^ 32 - b = (a - b) + 2 ^ 32" by linarith
  then have "sub32 a b = (a - b) mod 2 ^ 32" unfolding sub32_def by (simp only: mod_add_self2)
  with * show ?thesis by simp
qed

lemma add32_id: "a + b < 2 ^ 32 \<Longrightarrow> add32 a b = a + b"
  by (simp add: add32_def)

lemma drop_memcpy_before: "off + length src \<le> k \<Longrightarrow> k \<le> length buf \<Longrightarrow> drop k (memcpy_at buf off src) = drop k buf"
  by (rule nth_equalityI) (auto simp: nth_memcpy_at)

lemma tftp_inv_fields [simp]:
  "tftp_inv mem (t\<lparr>tftp_status := a\<rparr>) = tftp_inv mem t" "tftp_inv mem (t\<lparr>tftp_got_response := b\<rparr>) = tftp_inv mem t"
  "tftp_inv mem (t\<lparr>conn_rport := c\<rparr>) = tftp_inv mem t" "tftp_inv mem (udp_send d t) = tftp_inv mem t"
  "tftp_inv mem (t\<lparr>tftp_blocknum := e\<rparr>) = tftp_inv mem t"
  by (simp_all add: tftp_inv_def udp_send_def)

lemma tftp_inv_store:
  assumes "tftp_inv mem t" and "length d \<le> sub32 (tftp_max_size t) (tftp_total_size t)"
  shows "tftp_inv mem (store_block d t)"
  using assms by (auto simp: tftp_inv_def store_block_def sub32_id add32_id drop_memcpy_before)

lemma tftp_callback_inv: "tftp_inv mem t \<Longrightarrow> tftp_inv mem (tftp_callback srcport appdata t)"
proof -
  assume i: "tftp_inv mem t"
  define t1 where "t1 = (if conn_rport t = 0 then t\<lparr>conn_rport := srcport\<rparr> else t)"
  have i1: "tftp_inv mem t1" using i by (simp add: t1_def)
  define d where "d = drop 4 appdata"
  have "tftp_inv mem (store_block d t1)" if "\<not> sub32 (tftp_max_size t1) (tftp_total_size t1) < length d"
    by (rule tftp_inv_store [OF i1]) (use that in simp)
  then show ?thesis using i i1 unfolding tftp_callback_def Let_def t1_def [symmetric] d_def [symmetric] by simp
qed

lemma net_poll_inv: "tftp_inv mem t \<Longrightarrow> tftp_inv mem (net_poll event t)"
  by (cases "(event, t)" rule: net_poll.cases) (auto simp: tftp_callback_inv)

lemma tftp_loop_inv: "tftp_inv mem t \<Longrightarrow> tftp_inv mem (tftp_loop read_req timer polls t)"
proof (induction read_req timer polls t rule: tftp_loop.induct)
  case (2 read_req timer event now polls t)
  have "tftp_inv mem (net_poll event (t\<lparr>tftp_got_response := False\<rparr>))" using 2(4) by (simp add: net_poll_inv)
  then show ?case using 2 by (auto simp: Let_def tftp_resend_def)
qed simp

section \<open>A file is received\<close>

text \<open>
  The blocks of a file are numbered from 1; the last is shorter than the maximum. An entry \<open>Some k\<close> of
  \<open>ks\<close> says that the datagram with block \<open>k\<close> arrives. A server sends block \<open>n\<close> only after block
  \<open>n - 1\<close> was acknowledged; the network may drop, repeat and delay what it sends.
\<close>

definition nblocks :: "u8 list \<Rightarrow> nat" where
  "nblocks file = length file div TftpMaxBlockSize + 1"

definition block :: "u8 list \<Rightarrow> nat \<Rightarrow> u8 list" where
  "block file k = take TftpMaxBlockSize (drop (TftpMaxBlockSize * (k - 1)) file)"

definition data_packet :: "nat \<Rightarrow> u8 list \<Rightarrow> u8 list" where
  "data_packet k d = be16_bytes TftpData @ be16_bytes k @ d"

definition server_event :: "u8 list \<Rightarrow> nat \<Rightarrow> nat option \<Rightarrow> (nat \<times> u8 list) option" where
  "server_event file port = map_option (\<lambda>k. (port, data_packet k (block file k)))"

definition server_polls ::
  "u8 list \<Rightarrow> nat \<Rightarrow> (nat option \<times> nat) list \<Rightarrow> ((nat \<times> u8 list) option \<times> nat) list" where
  "server_polls file port = map (\<lambda>(e, now). (server_event file port e, now))"

fun in_lockstep :: "nat \<Rightarrow> nat \<Rightarrow> (nat option \<times> nat) list \<Rightarrow> bool" where
  "in_lockstep m n [] \<longleftrightarrow> True"
| "in_lockstep m n ((None, now) # ks) \<longleftrightarrow> in_lockstep m n ks"
| "in_lockstep m n ((Some k, now) # ks) \<longleftrightarrow>
     m < n \<or> (1 \<le> k \<and> k \<le> n \<and> n < k + 65536 \<and> in_lockstep m (if k = n then n + 1 else n) ks)"

text \<open>The number of the block awaited after these.\<close>

fun next_block :: "nat \<Rightarrow> nat \<Rightarrow> (nat option \<times> nat) list \<Rightarrow> nat" where
  "next_block m n [] = n"
| "next_block m n ((None, now) # ks) = next_block m n ks"
| "next_block m n ((Some k, now) # ks) =
     (if m < n then n else next_block m (if k = n then n + 1 else n) ks)"

lemma next_block_bounds: "n \<le> m + 1 \<Longrightarrow> n \<le> next_block m n ks \<and> next_block m n ks \<le> m + 1"
  by (induction m n ks rule: next_block.induct) (auto simp: not_less dest: Suc_leD)

lemma next_block_done: "m < n \<Longrightarrow> next_block m n ks = n"
  by (induction m n ks rule: next_block.induct) auto

lemma same_number: "k \<le> n \<Longrightarrow> n < k + 65536 \<Longrightarrow> k mod 65536 = n mod 65536 \<Longrightarrow> k = (n :: nat)"
proof -
  assume *: "k \<le> n" "n < k + 65536" "k mod 65536 = n mod 65536"
  then have "(65536 :: nat) dvd n - k" by (metis mod_eq_dvd_iff_nat)
  moreover have "n - k < 65536" using * by linarith
  ultimately show "k = n" using * by (auto dest: dvd_imp_le)
qed

lemma block_length:
  "1 \<le> k \<Longrightarrow> k \<le> nblocks file \<Longrightarrow>
   length (block file k) = (if k < nblocks file then TftpMaxBlockSize else length file mod TftpMaxBlockSize)"
proof -
  assume k: "1 \<le> k" "k \<le> nblocks file"
  have e: "length file = 512 * (length file div 512) + length file mod 512" by simp
  have m: "length file mod 512 < 512" by simp
  show ?thesis
  proof (cases "k < nblocks file")
    case True
    then have "k \<le> length file div 512" by (simp add: nblocks_def TftpMaxBlockSize_def)
    then have "512 * k \<le> length file" using e by linarith
    then have "512 \<le> length file - 512 * (k - 1)" using k(1) by (simp add: algebra_simps)
    then show ?thesis using True by (simp add: block_def TftpMaxBlockSize_def)
  next
    case False
    then have "k - 1 = length file div 512" using k by (simp add: nblocks_def TftpMaxBlockSize_def)
    then have "length file - 512 * (k - 1) = length file mod 512" by (simp only: minus_mult_div_eq_mod)
    then show ?thesis using False m by (simp add: block_def TftpMaxBlockSize_def)
  qed
qed

lemma take_blocks:
  assumes "1 \<le> n"
  shows "take (TftpMaxBlockSize * (n - 1)) file @ block file n = take (TftpMaxBlockSize * n) file"
proof -
  have "TftpMaxBlockSize * n = TftpMaxBlockSize * (n - 1) + TftpMaxBlockSize"
    using assms by (cases n) simp_all
  then show ?thesis by (simp only: block_def take_add)
qed

text \<open>
  What the client sends while it awaits block \<open>n\<close> of \<open>m\<close>, by the number of the block that is
  acknowledged; 0 is the request. A block is acknowledged when it arrives, and when the time since
  the last repetition is over, without the block awaited, the last packet is sent again.
\<close>

fun client_sends :: "nat \<Rightarrow> nat \<Rightarrow> nat \<Rightarrow> (nat option \<times> nat) list \<Rightarrow> nat list" where
  "client_sends m n timer [] = []"
| "client_sends m n timer ((e, now) # ks) =
     (if m < n then []
      else if e = Some n then n # client_sends m (n + 1) timer ks
      else if now - timer < TfTpRespTimeoutUs then client_sends m n timer ks
      else (n - 1) # client_sends m n now ks)"

definition client_packet :: "u8 list \<Rightarrow> nat \<Rightarrow> nat \<Rightarrow> nat \<times> u8 list" where
  "client_packet req port k = (if k = 0 then (TftpPort, req) else (port, TftpAckPacket k))"

text \<open>The state while block \<open>n\<close> is awaited, and when the last block was received; \<open>ss\<close> was sent.\<close>

definition holds_file :: "u8 list \<Rightarrow> u8 list \<Rightarrow> nat \<Rightarrow> tftp_state \<Rightarrow> bool" where
  "holds_file mem file n t \<longleftrightarrow>
     (let d = take (TftpMaxBlockSize * (n - 1)) file
      in tftp_mem t = memcpy_at mem 0 d \<and> tftp_dest t = length d \<and> tftp_total_size t = length d)"

definition receiving ::
  "(nat \<times> u8 list) list \<Rightarrow> nat \<Rightarrow> u8 list \<Rightarrow> u8 list \<Rightarrow> nat \<Rightarrow> nat \<Rightarrow> tftp_state \<Rightarrow> bool" where
  "receiving ss port mem file sz n t \<longleftrightarrow>
     1 \<le> n \<and> holds_file mem file n t \<and> sent t = ss \<and> tftp_max_size t = sz \<and>
     (if n \<le> nblocks file
      then tftp_status t = TftpPending \<and> tftp_blocknum t = n \<and>
        (if n = 1 then conn_rport t \<in> {0, port} else conn_rport t = port)
      else tftp_status t = TftpSuccess)"

lemma holds_fields [simp]:
  "holds_file mem file n (t\<lparr>tftp_status := a\<rparr>) = holds_file mem file n t"
  "holds_file mem file n (t\<lparr>tftp_blocknum := b\<rparr>) = holds_file mem file n t"
  by (simp_all add: holds_file_def)

lemma receiving_fields [simp]:
  "receiving ss port mem file sz n (t\<lparr>tftp_got_response := b\<rparr>) = receiving ss port mem file sz n t"
  by (simp add: receiving_def holds_file_def Let_def)

lemma data_packet_facts:
  "length (data_packet k d) = 4 + length d" "be16_dec (data_packet k d) 0 = TftpData"
  "be16_dec (data_packet k d) 2 = k mod 65536" "drop 4 (data_packet k d) = d"
proof -
  show "be16_dec (data_packet k d) 0 = TftpData"
    using be16_dec_append [of "[]" 0 TftpData "be16_bytes k @ d"] by (simp add: data_packet_def TftpData_def)
  show "be16_dec (data_packet k d) 2 = k mod 65536"
    using be16_dec_append [of "be16_bytes TftpData" 2 k d] by (simp add: data_packet_def)
qed (simp_all add: data_packet_def)

text \<open>The block awaited is stored and acknowledged; any other is ignored.\<close>

lemma receive_block:
  assumes "receiving ss port mem file sz n t" and "n \<le> nblocks file" and "conn_rport t = port"
    and "length file \<le> sz" and "sz \<le> length mem" and "sz < 2 ^ 32"
  shows "receiving (ss @ [(port, TftpAckPacket n)]) port mem file sz (n + 1)
      (tftp_callback port (data_packet n (block file n)) t) \<and>
    tftp_got_response (tftp_callback port (data_packet n (block file n)) t)"
proof -
  note r = assms(1) [unfolded receiving_def holds_file_def Let_def]
  let ?b = "block file n" and ?d = "take (TftpMaxBlockSize * (n - 1)) file"
  have n: "1 \<le> n" "n \<le> nblocks file" using r assms(2) by simp_all
  have bl: "length ?b = (if n < nblocks file then TftpMaxBlockSize else length file mod TftpMaxBlockSize)"
    by (rule block_length [OF n])
  then have short: "length ?b \<le> TftpMaxBlockSize" "length ?b < TftpMaxBlockSize \<longleftrightarrow> n = nblocks file"
    using n by (auto simp: TftpMaxBlockSize_def)
  have app: "?d @ ?b = take (TftpMaxBlockSize * n) file" by (rule take_blocks [OF n(1)])
  then have tot: "length ?d + length ?b \<le> length file" by (metis length_append length_take min.cobounded1)
  have room: "\<not> sub32 (tftp_max_size t) (tftp_total_size t) < length ?b"
    using r tot assms(4,6) by (simp add: sub32_id)
  have sum: "add32 (length ?d) (length ?b) = length (?d @ ?b)"
    using tot assms(4,6) by (simp add: add32_id)
  have mem: "memcpy_at (tftp_mem t) (tftp_dest t) ?b = memcpy_at mem 0 (?d @ ?b)"
    using memcpy_at_append [of 0 ?d ?b mem] r tot assms(4,5) by simp
  define t1 where "t1 = (udp_send (TftpAckPacket n) (store_block ?b t))\<lparr>tftp_got_response := True\<rparr>"
  have cb: "tftp_callback port (data_packet n ?b) t =
      (if length ?b < TftpMaxBlockSize then t1\<lparr>tftp_status := TftpSuccess\<rparr> else t1\<lparr>tftp_blocknum := n + 1\<rparr>)"
    using r n short(1) room assms(3)
    by (simp add: tftp_callback_def data_packet_facts t1_def Let_def TftpData_def TftpError_def store_block_def udp_send_def)
  have "length ?d + length ?b = length (take (TftpMaxBlockSize * n) file)"
    using app by (metis length_append)
  then have holds: "holds_file mem file (n + 1) t1"
    using r sum mem unfolding app by (simp add: holds_file_def t1_def udp_send_def store_block_def Let_def)
  have acks: "sent t1 = ss @ [(port, TftpAckPacket n)]"
    using r assms(3) by (simp add: t1_def udp_send_def store_block_def)
  have same: "tftp_status t1 = TftpPending" "tftp_blocknum t1 = n" "conn_rport t1 = port" "tftp_max_size t1 = sz"
    "tftp_got_response t1"
    using r n assms(3) by (simp_all add: t1_def udp_send_def store_block_def)
  show ?thesis unfolding cb using holds acks same short(2) n by (auto simp: receiving_def)
qed

lemma receive_other:
  assumes "k mod 65536 \<noteq> tftp_blocknum t mod 65536" and "conn_rport t \<noteq> 0"
  shows "tftp_callback port (data_packet k d) t = t"
  using assms by (simp add: tftp_callback_def data_packet_facts Let_def TftpData_def TftpError_def)

lemma callback_sets_port:
  "length d \<ge> 2 \<Longrightarrow> port \<noteq> 0 \<Longrightarrow> conn_rport t = 0 \<Longrightarrow>
   tftp_callback port d t = tftp_callback port d (t\<lparr>conn_rport := port\<rparr>)"
  by (simp add: tftp_callback_def)

lemma poll_receives:
  assumes "receiving ss port mem file sz n t" and "n \<le> nblocks file"
    and "length file \<le> sz" and "sz \<le> length mem" and "sz < 2 ^ 32" and "port \<noteq> 0" and "\<not> tftp_got_response t"
    and "case e of None \<Rightarrow> True | Some k \<Rightarrow> 1 \<le> k \<and> k \<le> n \<and> n < k + 65536"
  shows "receiving (ss @ (if e = Some n then [(port, TftpAckPacket n)] else [])) port mem file sz
      (if e = Some n then n + 1 else n) (net_poll (server_event file port e) t) \<and>
    (tftp_got_response (net_poll (server_event file port e) t) \<longleftrightarrow> e = Some n)"
proof (cases e)
  case None
  then show ?thesis using assms(1,7) by (simp add: server_event_def)
next
  case (Some k)
  define t1 where "t1 = t\<lparr>conn_rport := port\<rparr>"
  have t1: "receiving ss port mem file sz n t1" "conn_rport t1 = port" "tftp_blocknum t1 = n"
      "\<not> tftp_got_response t1"
    using assms(1,2,7) by (auto simp: receiving_def holds_file_def Let_def t1_def)
  have rp: "conn_rport t \<in> {0, port}" using assms(1,2) by (auto simp: receiving_def split: if_splits)
  have p: "net_poll (server_event file port e) t = tftp_callback port (data_packet k (block file k)) t1"
  proof (cases "conn_rport t = 0")
    case True
    then show ?thesis using Some callback_sets_port [OF _ assms(6) True, of "data_packet k (block file k)"]
      by (simp add: server_event_def data_packet_facts t1_def)
  next
    case False
    then have "t1 = t" using rp by (simp add: t1_def)
    then show ?thesis using Some rp False by (simp add: server_event_def)
  qed
  show ?thesis
  proof (cases "k = n")
    case True
    then show ?thesis unfolding p using receive_block [OF t1(1) assms(2) t1(2) assms(3-5)] Some by simp
  next
    case False
    then have "k mod 65536 \<noteq> n mod 65536" using same_number [of k n] Some assms(8) by auto
    then have "tftp_callback port (data_packet k (block file k)) t1 = t1"
      using receive_other [of k t1] t1(2,3) assms(6) by simp
    then show ?thesis unfolding p using t1(1,4) Some False by simp
  qed
qed

lemma resend_receives:
  assumes "receiving ss port mem file sz n t" and "n \<le> nblocks file"
  shows "receiving (ss @ [client_packet req port (n - 1)]) port mem file sz n (tftp_resend req t)"
  using assms
  by (auto simp: receiving_def holds_file_def tftp_resend_def udp_send_def client_packet_def Let_def)

lemma tftp_loop_receives:
  assumes "receiving ss port mem file sz n t" and "length file \<le> sz" and "sz \<le> length mem" and "sz < 2 ^ 32"
    and "port \<noteq> 0" and "in_lockstep (nblocks file) n ks" and "n \<le> nblocks file + 1"
  shows "receiving (ss @ map (client_packet req port) (client_sends (nblocks file) n timer ks)) port mem file sz
    (next_block (nblocks file) n ks) (tftp_loop req timer (server_polls file port ks) t)"
  using assms
proof (induction ks arbitrary: n t timer ss)
  case Nil
  then show ?case by (simp add: server_polls_def)
next
  case (Cons c ks)
  obtain e now where c: "c = (e, now)" by fastforce
  let ?b = "nblocks file"
  have stop: "tftp_loop req timer (server_polls file port (c # ks)) t = t" if "\<not> n \<le> ?b"
    using Cons.prems(1) that by (simp add: receiving_def server_polls_def c)
  show ?case
  proof (cases "n \<le> ?b")
    case False
    then have "next_block ?b n (c # ks) = n" "client_sends ?b n timer (c # ks) = []" by (simp_all add: next_block_done c)
    then show ?thesis using stop [OF False] Cons.prems(1) by simp
  next
    case True
    let ?n = "if e = Some n then n + 1 else n" and ?ss = "ss @ (if e = Some n then [(port, TftpAckPacket n)] else [])"
    define t1 where "t1 = net_poll (server_event file port e) (t\<lparr>tftp_got_response := False\<rparr>)"
    have e: "case e of None \<Rightarrow> True | Some k \<Rightarrow> 1 \<le> k \<and> k \<le> n \<and> n < k + 65536"
      and rest: "in_lockstep ?b ?n ks" "next_block ?b n (c # ks) = next_block ?b ?n ks"
      using Cons.prems(6) True by (cases e; simp add: c)+
    have r1: "receiving ?ss port mem file sz ?n t1" "tftp_got_response t1 \<longleftrightarrow> e = Some n" unfolding t1_def
      using poll_receives [OF _ True Cons.prems(2-5) _ e, of ss "t\<lparr>tftp_got_response := False\<rparr>"] Cons.prems(1) by simp_all
    have n1: "?n \<le> ?b + 1" using True by simp
    have pend: "tftp_status t = TftpPending" using Cons.prems(1) True by (simp add: receiving_def)
    have go: "receiving (rs @ map (client_packet req port) (client_sends ?b ?n tm ks)) port mem file sz (next_block ?b ?n ks)
        (tftp_loop req tm (server_polls file port ks) t2)" if "receiving rs port mem file sz ?n t2" for t2 tm rs
      by (rule Cons.IH [OF that Cons.prems(2-5) rest(1) n1])
    have step: "tftp_loop req timer (server_polls file port (c # ks)) t =
        (if tftp_got_response t1 then tftp_loop req timer (server_polls file port ks) t1
         else if now - timer < TfTpRespTimeoutUs then tftp_loop req timer (server_polls file port ks) t1
         else tftp_loop req now (server_polls file port ks) (tftp_resend req t1))"
      using pend by (simp add: server_polls_def c t1_def Let_def)
    show ?thesis
    proof (cases "e = Some n")
      case got: True
      have "n \<noteq> 0" using Cons.prems(1) by (simp add: receiving_def)
      then have "client_packet req port n = (port, TftpAckPacket n)" by (simp add: client_packet_def)
      then show ?thesis unfolding step rest(2) using r1 go [of ?ss t1 timer] True got by (simp add: c)
    next
      case False
      then have r2: "receiving ss port mem file sz n t1" "\<not> tftp_got_response t1" using r1 by simp_all
      from False go [of ss t1 timer] go [of "ss @ [client_packet req port (n - 1)]" "tftp_resend req t1" now]
      show ?thesis
        unfolding step rest(2) using r2 resend_receives [OF r2(1) True, of req] True by (simp add: c)
    qed
  qed
qed

text \<open>
  The timer runs from the last resend, so an acknowledgement can be resent right after it was sent:
  here 10 ms later.
\<close>

lemma resend_after_response:
  "(let t = tftp_loop [] 0 [(Some (7, data_packet 1 (replicate 512 0)), 190000), (None, 200000)]
      \<lparr>tftp_status = TftpPending, tftp_mem = replicate 512 0, tftp_dest = 0, tftp_got_response = False,
       tftp_blocknum = 1, tftp_total_size = 0, tftp_max_size = 512, conn_rport = 7, sent = []\<rparr>
    in sent t = [(7, TftpAckPacket 1), (7, TftpAckPacket 1)] \<and> tftp_status t = TftpPending)"
  by (simp add: Let_def tftp_callback_def data_packet_facts TftpData_def TftpError_def TftpMaxBlockSize_def sub32_def
      store_block_def udp_send_def TfTpRespTimeoutUs_def tftp_resend_def)

section \<open>Properties\<close>

lemma tftp_read_received:
  assumes "length file \<le> max_size" and "max_size \<le> length mem" and "max_size < 2 ^ 32" and "port \<noteq> 0"
    and "in_lockstep (nblocks file) 1 ks"
  shows "case tftp_read True mem bootfile max_size start (server_polls file port ks) of
      None \<Rightarrow> next_block (nblocks file) 1 ks \<le> nblocks file
    | Some (rv, sz, t) \<Rightarrow> next_block (nblocks file) 1 ks = nblocks file + 1 \<and> rv = 0 \<and>
        sz = Some (length file) \<and> tftp_mem t = memcpy_at mem 0 file \<and>
        sent t = map (client_packet (read_request bootfile) port) (0 # client_sends (nblocks file) 1 start ks)"
proof -
  define req where "req = read_request bootfile"
  define t0 where "t0 = \<lparr>tftp_status = TftpPending, tftp_mem = mem, tftp_dest = 0, tftp_got_response = False,
    tftp_blocknum = 1, tftp_total_size = 0, tftp_max_size = max_size, conn_rport = 0, sent = [(TftpPort, req)]\<rparr>"
  have "receiving [client_packet req port 0] port mem file max_size 1 t0"
    by (simp add: t0_def receiving_def holds_file_def nblocks_def client_packet_def)
  then have r: "receiving (map (client_packet req port) (0 # client_sends (nblocks file) 1 start ks)) port mem file max_size (next_block (nblocks file) 1 ks)
      (tftp_loop req start (server_polls file port ks) t0)"
    using tftp_loop_receives [OF _ assms, of "[client_packet req port 0]" t0 req start] by simp
  have start_state: "(udp_send req \<lparr>tftp_status = TftpPending, tftp_mem = mem, tftp_dest = 0,
      tftp_got_response = False, tftp_blocknum = 1, tftp_total_size = 0, tftp_max_size = max_size,
      conn_rport = TftpPort, sent = []\<rparr>)\<lparr>conn_rport := 0\<rparr> = t0"
    by (simp add: udp_send_def t0_def)
  define t where "t = tftp_loop req start (server_polls file port ks) t0"
  have read: "tftp_read True mem bootfile max_size start (server_polls file port ks) =
      (case tftp_status t of TftpPending \<Rightarrow> None | TftpFailure \<Rightarrow> Some (-1, None, t)
       | TftpSuccess \<Rightarrow> Some (0, Some (tftp_total_size t), t))"
    unfolding tftp_read_def Let_def req_def [symmetric] start_state t_def [symmetric] by simp
  show ?thesis
  proof (cases "next_block (nblocks file) 1 ks \<le> nblocks file")
    case True
    then show ?thesis using r unfolding read by (simp add: receiving_def t_def)
  next
    case False
    then have n: "next_block (nblocks file) 1 ks = nblocks file + 1"
      using next_block_bounds [of 1 "nblocks file" ks] by simp
    have "TftpMaxBlockSize * (nblocks file) \<ge> length file"
      using mod_less_divisor [of TftpMaxBlockSize "length file"] div_mult_mod_eq [of "length file" TftpMaxBlockSize]
      by (simp add: nblocks_def TftpMaxBlockSize_def)
    then show ?thesis using r unfolding read n t_def [symmetric]
      by (auto simp: receiving_def holds_file_def req_def Let_def)
  qed
qed

text \<open>
  C9. A file is received byte for byte. While the server answers the acknowledgements of the client
  with the next block, and the network loses, repeats and delays blocks as it likes (not by as many
  as 65536 numbers), \<open>tftp_read\<close> of a file that fits goes on until the last block has arrived, and
  then returns 0 and its size, with the file at the destination and no other byte changed. What it sent is
  exactly the request, then for each block, when it arrived and not before, its acknowledgement to the
  server's port, and in between, whenever 200 ms have passed since the last repetition, the packet sent
  last once more. (A resend of the request goes to the port of the service.)
\<close>

theorem tftp_read_receives_file:
  assumes "length file \<le> max_size" and "max_size \<le> length mem" and "max_size < 2 ^ 32" and "port \<noteq> 0"
    and "in_lockstep (nblocks file) 1 ks"
  shows "case tftp_read True mem bootfile max_size start (server_polls file port ks) of
      None \<Rightarrow> next_block (nblocks file) 1 ks \<le> nblocks file
    | Some (rv, sz, t) \<Rightarrow> next_block (nblocks file) 1 ks = nblocks file + 1 \<and> rv = 0 \<and>
        sz = Some (length file) \<and> tftp_mem t = memcpy_at mem 0 file \<and>
        sent t = map (client_packet (read_request bootfile) port) (0 # client_sends (nblocks file) 1 start ks)"
  by (rule tftp_read_received [OF assms])

theorem tftp_read_receives_file_witness:
  "case tftp_read True (replicate 600 0) [97] 600 0 (server_polls (replicate 515 7) 3000
       [(None, 300000), (Some 1, 400000), (Some 1, 450000), (None, 700000), (Some 2, 710000)]) of
     None \<Rightarrow> False
   | Some (rv, sz, t) \<Rightarrow> rv = 0 \<and> sz = Some 515 \<and> tftp_mem t = memcpy_at (replicate 600 0) 0 (replicate 515 7)"
proof -
  let ?ks = "[(None, 300000), (Some 1, 400000), (Some 1, 450000), (None, 700000), (Some 2, 710000)]
    :: (nat option \<times> nat) list"
  have b: "nblocks (replicate 515 7) = 2" by (simp add: nblocks_def TftpMaxBlockSize_def)
  have "in_lockstep 2 1 ?ks" "next_block 2 1 ?ks = 3" by simp_all
  then show ?thesis
    using tftp_read_receives_file [of "replicate 515 7" 600 "replicate 600 0" 3000 ?ks "[97]" 0] b
    by (auto split: option.splits prod.splits)
qed

end
