(* ===== verification/Dhcp.thy ===== *)
theory Dhcp
  imports Tftp
begin

text \<open>
  \<open>src/net/dhcp.c\<close>: the DHCP client of netboot. The packets are records with the fields of
  \<open>DhcpPacket\<close>, laid out by \<open>DhcpPacket_bytes\<close>; a list of options is a list of bytes. \<open>dhcp_request\<close>
  asks for an offer and requests it, with a callback that takes one valid reply of each round. As in
  \<open>Tftp\<close>, what the network delivers and the time are arguments, one entry for each poll. The settings
  that uIP keeps are fields of the state, and of its UDP connections only the number that is free.
  \<open>None\<close> as the outer result: \<open>halt()\<close>, a failed assertion, or still polling after the last entry.
\<close>

section \<open>Model: packets\<close>

definition DhcpRequestOp :: u8 where "DhcpRequestOp = 1"
definition DhcpReplyOp :: u8 where "DhcpReplyOp = 2"
definition DhcpEthernet :: u8 where "DhcpEthernet = 1"
definition DhcpServerPort :: nat where "DhcpServerPort = 67"
definition DhcpClientPort :: nat where "DhcpClientPort = 68"
definition DhcpRespTimeoutUs :: nat where "DhcpRespTimeoutUs = 3 * 1000 * 1000"
definition DhcpCookie :: "u8 list" where "DhcpCookie = [99, 130, 83, 99]"

definition DhcpTagSubnetMask :: u8 where "DhcpTagSubnetMask = 1"
definition DhcpTagDefaultRouter :: u8 where "DhcpTagDefaultRouter = 3"
definition DhcpTagRequestedIpAddress :: u8 where "DhcpTagRequestedIpAddress = 50"
definition DhcpTagOptionOverload :: u8 where "DhcpTagOptionOverload = 52"
definition DhcpTagMessageType :: u8 where "DhcpTagMessageType = 53"
definition DhcpTagServerIdentifier :: u8 where "DhcpTagServerIdentifier = 54"
definition DhcpTagParameterRequestList :: u8 where "DhcpTagParameterRequestList = 55"
definition DhcpTagMaximumDhcpMessageSize :: u8 where "DhcpTagMaximumDhcpMessageSize = 57"
definition DhcpTagClientIdentifier :: u8 where "DhcpTagClientIdentifier = 61"
definition DhcpTagEndOfList :: u8 where "DhcpTagEndOfList = 255"

datatype DhcpState = DhcpInit | DhcpRequesting | DhcpBound

text \<open>Message types.\<close>

definition DhcpNoMessageType :: u8 where "DhcpNoMessageType = 0"
definition DhcpDiscover :: u8 where "DhcpDiscover = 1"
definition DhcpOffer :: u8 where "DhcpOffer = 2"
definition DhcpRequest :: u8 where "DhcpRequest = 3"
definition DhcpAck :: u8 where "DhcpAck = 5"
definition DhcpNak :: u8 where "DhcpNak = 6"
definition DhcpRelease :: u8 where "DhcpRelease = 7"

record DhcpPacket =
  opcode :: u8
  hw_type :: u8
  hw_length :: u8
  hops :: u8
  transaction_id :: u32
  seconds :: nat
  flags :: nat
  client_ip :: u32
  your_ip :: u32
  server_ip :: u32
  gateway_ip :: u32
  client_hw_addr :: "u8 list"
  server_name :: "u8 list"
  bootfile_name :: "u8 list"
  cookie :: "u8 list"
  options :: "u8 list"

text \<open>\<open>sizeof(DhcpPacket)\<close>, and with the headers of IP and UDP.\<close>

definition DhcpPacket_size :: nat where "DhcpPacket_size = 548"
definition DhcpMaxPacketSize :: nat where "DhcpMaxPacketSize = DhcpPacket_size + 20 + 8"

definition DhcpPacket_bytes :: "DhcpPacket \<Rightarrow> u8 list" where
  "DhcpPacket_bytes p =
     [opcode p, hw_type p, hw_length p, hops p] @ le32_bytes (transaction_id p) @ be16_bytes (seconds p) @
     be16_bytes (flags p) @ le32_bytes (client_ip p) @ le32_bytes (your_ip p) @ le32_bytes (server_ip p) @
     le32_bytes (gateway_ip p) @ client_hw_addr p @ server_name p @ bootfile_name p @ cookie p @ options p"

definition u32_at :: "u8 list \<Rightarrow> nat \<Rightarrow> u32" where
  "u32_at bs off = word_of_nat (le32_dec bs off)"

definition DhcpPacket_at :: "u8 list \<Rightarrow> DhcpPacket" where
  "DhcpPacket_at bs =
     \<lparr>opcode = bs ! 0, hw_type = bs ! 1, hw_length = bs ! 2, hops = bs ! 3, transaction_id = u32_at bs 4,
      seconds = be16_dec bs 8, flags = be16_dec bs 10, client_ip = u32_at bs 12, your_ip = u32_at bs 16,
      server_ip = u32_at bs 20, gateway_ip = u32_at bs 24, client_hw_addr = bslice 28 16 bs,
      server_name = bslice 44 64 bs, bootfile_name = bslice 108 128 bs, cookie = bslice 236 4 bs,
      options = bslice 240 308 bs\<rparr>"

section \<open>Model: options\<close>

text \<open>
  \<open>func\<close> gets the tag, the value and the data, and returns 0 and the new data, or an error. The loop
  of \<open>dhcp_process_options\<close> is on the bytes from \<open>pos\<close> on; the result is its error code, the value of
  \<open>new_overload\<close> and the data.
\<close>

type_synonym 'd option_func = "u8 \<Rightarrow> u8 list \<Rightarrow> 'd \<Rightarrow> int \<times> 'd"

fun options_loop :: "'d option_func \<Rightarrow> u8 list \<Rightarrow> u8 \<Rightarrow> 'd \<Rightarrow> int \<times> u8 \<times> 'd" where
  "options_loop func [] new_overload data = (0, new_overload, data)"
| "options_loop func [tag] new_overload data = (1, new_overload, data)"
| "options_loop func [tag, len] new_overload data = (1, new_overload, data)"
| "options_loop func (tag # len # b # rest) new_overload data =
     (let value = take (unat len) (b # rest)
      in if length (b # rest) \<le> unat len then (1, new_overload, data)
         else if tag = DhcpTagEndOfList then (0, new_overload, data)
         else if tag = DhcpTagOptionOverload
         then (if len < 1 then (1, new_overload, data)
               else options_loop func (drop (unat len) (b # rest)) (hd value) data)
         else case func tag value data of (rv, data) \<Rightarrow>
           if rv \<noteq> 0 then (1, new_overload, data)
           else options_loop func (drop (unat len) (b # rest)) new_overload data)"

text \<open>The bytes that hold options, for a value of the overload option.\<close>

definition overload_options :: "DhcpPacket \<Rightarrow> u8 \<Rightarrow> u8 list option" where
  "overload_options packet overload =
     (if overload = 0 then Some (options packet)
      else if overload = 1 then Some (bootfile_name packet)
      else if overload = 2 then Some (server_name packet)
      else if overload = 3 then Some (server_name packet @ bootfile_name packet)
      else None)"

text \<open>The call for \<open>new_overload\<close> is made only from the call with no overload.\<close>

definition dhcp_process_options :: "DhcpPacket \<Rightarrow> 'd option_func \<Rightarrow> 'd \<Rightarrow> int \<times> 'd" where
  "dhcp_process_options packet func data =
     (case options_loop func (options packet) 0 data of (rv, new_overload, data) \<Rightarrow>
        if rv \<noteq> 0 then (1, data)
        else if new_overload \<noteq> 0
        then (case overload_options packet new_overload of
                None \<Rightarrow> (1, data)
              | Some opts \<Rightarrow> (case options_loop func opts 0 data of (rv, _, data) \<Rightarrow> (rv, data)))
        else (0, data))"

definition dhcp_get_type :: "u8 option_func" where
  "dhcp_get_type tag value type' =
     (if tag \<noteq> DhcpTagMessageType then (0, type')
      else if length value < 1 then (1, type')
      else (0, hd value))"

definition dhcp_get_server :: "u32 option_func" where
  "dhcp_get_server tag value data =
     (if tag \<noteq> DhcpTagServerIdentifier then (0, data)
      else if length value < 4 then (1, data)
      else (0, u32_at value 0))"

text \<open>Options are added at the end of those there are, within the room of the packet.\<close>

definition dhcp_add_option :: "u8 \<Rightarrow> u8 list \<Rightarrow> u8 list \<times> nat \<Rightarrow> (u8 list \<times> nat) option" where
  "dhcp_add_option tag value = (\<lambda>(opts, remaining).
     if remaining < length value + 2 then None
     else Some (opts @ [tag, word_of_nat (length value)] @ value, remaining - (length value + 2)))"

section \<open>Model: the client\<close>

record dhcp_client =
  dhcp_state :: DhcpState
  dhcp_in :: DhcpPacket
  dhcp_in_ready :: bool
  dhcp_out :: DhcpPacket
  udp_free :: nat
  uip_ethaddr :: "u8 list"
  uip_hostaddr :: "u8 list"
  uip_netmask :: "u8 list"
  uip_draddr :: "u8 list"
  dhcp_sent :: "u8 list list"

definition dhcp_apply_options :: "dhcp_client option_func" where
  "dhcp_apply_options tag value c =
     (if tag = DhcpTagSubnetMask
      then (if length value < 4 then (1, c) else (0, c\<lparr>uip_netmask := take 4 value\<rparr>))
      else if tag = DhcpTagDefaultRouter
      then (if length value < 4 then (1, c) else (0, c\<lparr>uip_draddr := take 4 value\<rparr>))
      else (0, c))"

text \<open>The checks of a reply to \<open>out\<close>, and of its type in a state.\<close>

definition reply_ok :: "DhcpPacket \<Rightarrow> DhcpPacket \<Rightarrow> bool" where
  "reply_ok out reply \<longleftrightarrow>
     opcode reply = DhcpReplyOp \<and> hw_length reply = hw_length out \<and>
     take (unat (hw_length out)) (client_hw_addr reply) = take (unat (hw_length out)) (client_hw_addr out) \<and>
     transaction_id reply = transaction_id out \<and> cookie reply = DhcpCookie"

definition type_ok :: "DhcpState \<Rightarrow> u8 \<Rightarrow> bool" where
  "type_ok state type' =
     (case state of
        DhcpInit \<Rightarrow> type' = DhcpOffer
      | DhcpRequesting \<Rightarrow> type' = DhcpAck \<or> type' = DhcpNak
      | DhcpBound \<Rightarrow> True)"

definition dhcp_callback :: "u8 list \<Rightarrow> dhcp_client \<Rightarrow> dhcp_client" where
  "dhcp_callback appdata c =
     (if DhcpPacket_size < length appdata then c
      else
        let c = c\<lparr>dhcp_in := DhcpPacket_at (appdata @ replicate (DhcpPacket_size - length appdata) 0)\<rparr>
        in if \<not> reply_ok (dhcp_out c) (dhcp_in c) then c
        else case dhcp_process_options (dhcp_in c) dhcp_get_type DhcpNoMessageType of (rv, type') \<Rightarrow>
          if rv \<noteq> 0 then c
          else if \<not> type_ok (dhcp_state c) type' then c
          else c\<lparr>dhcp_in_ready := True\<rparr>)"

fun dhcp_poll :: "u8 list option \<Rightarrow> dhcp_client \<Rightarrow> dhcp_client" where
  "dhcp_poll None c = c"
| "dhcp_poll (Some appdata) c = dhcp_callback appdata c"

type_synonym polls = "(u8 list option \<times> nat) list"

text \<open>Polling for one period, and at most three periods, each but a successful one with a packet at its end.\<close>

fun dhcp_wait :: "polls \<Rightarrow> dhcp_client \<Rightarrow> (polls \<times> dhcp_client) option" where
  "dhcp_wait [] c = None"
| "dhcp_wait ((event, elapsed) # polls) c =
     (let c = dhcp_poll event c
      in if \<not> dhcp_in_ready c \<and> elapsed < DhcpRespTimeoutUs then dhcp_wait polls c else Some (polls, c))"

fun dhcp_rounds :: "nat \<Rightarrow> polls \<Rightarrow> dhcp_client \<Rightarrow> (polls \<times> dhcp_client) option" where
  "dhcp_rounds 0 polls c = Some (polls, c)"
| "dhcp_rounds (Suc i) polls c =
     Option.bind (dhcp_wait polls c) (\<lambda>(polls, c).
       if dhcp_in_ready c then Some (polls, c)
       else dhcp_rounds i polls (c\<lparr>dhcp_sent := dhcp_sent c @ [DhcpPacket_bytes (dhcp_out c)]\<rparr>))"

text \<open>The result says that there is no reply.\<close>

definition dhcp_send_packet :: "DhcpPacket \<Rightarrow> polls \<Rightarrow> dhcp_client \<Rightarrow> (bool \<times> polls \<times> dhcp_client) option" where
  "dhcp_send_packet out polls c =
     map_option (\<lambda>(polls, c). (\<not> dhcp_in_ready c, polls, c))
       (dhcp_rounds 3 polls (c\<lparr>dhcp_sent := dhcp_sent c @ [DhcpPacket_bytes out],
          dhcp_out := out, dhcp_in_ready := False\<rparr>))"

definition dhcp_prep_packet :: "u32 \<Rightarrow> dhcp_client \<Rightarrow> DhcpPacket" where
  "dhcp_prep_packet xid c =
     \<lparr>opcode = DhcpRequestOp, hw_type = DhcpEthernet, hw_length = 6, hops = 0, transaction_id = xid,
      seconds = 100, flags = 0, client_ip = 0, your_ip = 0, server_ip = 0, gateway_ip = 0,
      client_hw_addr = memcpy_at (replicate 16 0) 0 (uip_ethaddr c), server_name = replicate 64 0,
      bootfile_name = replicate 128 0, cookie = DhcpCookie, options = replicate 308 0\<rparr>"

text \<open>The options of a packet: \<open>dhcp_add_option\<close> for each, the last one the end of the list.\<close>

fun add_options :: "(u8 \<times> u8 list) list \<Rightarrow> u8 list \<times> nat \<Rightarrow> (u8 list \<times> nat) option" where
  "add_options [] acc = Some acc"
| "add_options ((tag, value) # os) acc = Option.bind (dhcp_add_option tag value acc) (add_options os)"

definition with_options :: "(u8 \<times> u8 list) list \<Rightarrow> DhcpPacket \<Rightarrow> DhcpPacket option" where
  "with_options os p =
     map_option (\<lambda>(opts, remaining). p\<lparr>options := memcpy_at (options p) 0 opts\<rparr>)
       (add_options (os @ [(DhcpTagEndOfList, [])]) ([], 308))"

definition client_id :: "dhcp_client \<Rightarrow> u8 list" where
  "client_id c = DhcpEthernet # uip_ethaddr c"

definition requested :: "u8 list" where
  "requested = [DhcpTagSubnetMask, DhcpTagDefaultRouter]"

definition discover_options :: "dhcp_client \<Rightarrow> (u8 \<times> u8 list) list" where
  "discover_options c =
     [(DhcpTagMessageType, [DhcpDiscover]), (DhcpTagClientIdentifier, client_id c),
      (DhcpTagParameterRequestList, requested), (DhcpTagMaximumDhcpMessageSize, be16_bytes DhcpMaxPacketSize)]"

definition request_options :: "u32 \<Rightarrow> u32 \<Rightarrow> dhcp_client \<Rightarrow> (u8 \<times> u8 list) list" where
  "request_options ip server_id c =
     [(DhcpTagMessageType, [DhcpRequest]), (DhcpTagClientIdentifier, client_id c),
      (DhcpTagRequestedIpAddress, le32_bytes ip), (DhcpTagParameterRequestList, requested),
      (DhcpTagMaximumDhcpMessageSize, be16_bytes DhcpMaxPacketSize),
      (DhcpTagServerIdentifier, le32_bytes server_id)]"

record dhcp_settings =
  next_ip :: "u8 list"
  dhcp_server_ip :: "u8 list"
  bootfile :: "u8 list"

text \<open>
  The part of \<open>dhcp_request\<close> after the acknowledgement, and the whole. \<open>junk\<close> is what the variable
  \<open>server_id\<close> holds before it is set; the settings are stored when 0 is returned. A failed exchange
  keeps the UDP connection, and one that fails for want of a reply keeps \<open>dhcp_state\<close> as well.
\<close>

definition apply_settings :: "u32 \<Rightarrow> dhcp_client \<Rightarrow> dhcp_settings option \<times> dhcp_client" where
  "apply_settings server_id c =
     (let c = c\<lparr>dhcp_state := DhcpBound, udp_free := udp_free c + 1\<rparr>
      in case dhcp_process_options (dhcp_in c) dhcp_apply_options c of (rv, c) \<Rightarrow>
        if rv \<noteq> 0 then (None, c\<lparr>dhcp_state := DhcpInit\<rparr>)
        else
          (Some \<lparr>next_ip = le32_bytes (server_ip (dhcp_in c)), dhcp_server_ip = le32_bytes server_id,
             bootfile = bootfile_name (dhcp_in c) @ [0]\<rparr>,
           c\<lparr>uip_hostaddr := le32_bytes (your_ip (dhcp_in c))\<rparr>))"

definition request_offer ::
  "u32 \<Rightarrow> u32 \<Rightarrow> polls \<Rightarrow> dhcp_client \<Rightarrow> (dhcp_settings option \<times> polls \<times> dhcp_client) option" where
  "request_offer server_id xid polls c =
     (let c = c\<lparr>dhcp_state := DhcpRequesting\<rparr>
      in Option.bind (with_options (request_options (your_ip (dhcp_in c)) server_id c) (dhcp_prep_packet xid c)) (\<lambda>out.
         Option.bind (dhcp_send_packet out polls c) (\<lambda>(no_reply, polls, c).
           if no_reply then Some (None, polls, c)
           else case dhcp_process_options (dhcp_in c) dhcp_get_type 0 of (rv, type') \<Rightarrow>
             if rv \<noteq> 0 \<or> type' = DhcpNak then Some (None, polls, c\<lparr>dhcp_state := DhcpInit\<rparr>)
             else case apply_settings server_id c of (settings, c) \<Rightarrow> Some (settings, polls, c))))"

definition dhcp_request ::
  "u8 list option \<Rightarrow> u32 \<Rightarrow> u32 \<Rightarrow> u32 \<Rightarrow> polls \<Rightarrow> dhcp_client \<Rightarrow>
   (dhcp_settings option \<times> polls \<times> dhcp_client) option" where
  "dhcp_request mac xid1 xid2 junk polls c =
     Option.bind mac (\<lambda>mac_addr.
       let c = c\<lparr>uip_ethaddr := mac_addr, uip_hostaddr := [0, 0, 0, 0]\<rparr>
       in if udp_free c = 0 then Some (None, polls, c)
       else
         let c = c\<lparr>udp_free := udp_free c - 1\<rparr>
         in Option.bind (with_options (discover_options c) (dhcp_prep_packet xid1 c)) (\<lambda>out.
            Option.bind (dhcp_send_packet out polls c) (\<lambda>(no_reply, polls, c).
              if no_reply then Some (None, polls, c)
              else case dhcp_process_options (dhcp_in c) dhcp_get_server junk of (rv, server_id) \<Rightarrow>
                if rv \<noteq> 0 then Some (None, polls, c)
                else request_offer server_id xid2 polls c)))"

text \<open>The result says that no UDP connection was free.\<close>

definition dhcp_release :: "u32 \<Rightarrow> dhcp_client \<Rightarrow> (bool \<times> dhcp_client) option" where
  "dhcp_release xid c =
     (if udp_free c = 0 then Some (True, c)
      else
        map_option (\<lambda>release. (False, c\<lparr>dhcp_sent := dhcp_sent c @ [DhcpPacket_bytes release], dhcp_state := DhcpInit\<rparr>))
          (with_options [(DhcpTagMessageType, [DhcpRelease])]
             ((dhcp_prep_packet xid c)\<lparr>client_ip := u32_at (uip_hostaddr c) 0\<rparr>)))"

section \<open>Packets and options read back\<close>

definition packet_wf :: "DhcpPacket \<Rightarrow> bool" where
  "packet_wf p \<longleftrightarrow> length (client_hw_addr p) = 16 \<and> length (server_name p) = 64 \<and>
     length (bootfile_name p) = 128 \<and> length (cookie p) = 4 \<and> length (options p) = 308 \<and>
     seconds p < 65536 \<and> flags p < 65536"

lemma length_DhcpPacket_bytes: "packet_wf p \<Longrightarrow> length (DhcpPacket_bytes p) = DhcpPacket_size"
  by (simp add: packet_wf_def DhcpPacket_bytes_def DhcpPacket_size_def)

lemma u32_at_append: "length xs = k \<Longrightarrow> u32_at (xs @ le32_bytes w @ ys) k = w"
  by (simp add: u32_at_def le32_dec_append)

lemma DhcpPacket_at_bytes:
  assumes "packet_wf p"
  shows "DhcpPacket_at (DhcpPacket_bytes p) = p"
proof -
  note wf = assms [unfolded packet_wf_def]
  let ?a = "[opcode p, hw_type p, hw_length p, hops p]"
  let ?b = "?a @ le32_bytes (transaction_id p) @ be16_bytes (seconds p) @ be16_bytes (flags p)"
  let ?c = "?b @ le32_bytes (client_ip p) @ le32_bytes (your_ip p) @ le32_bytes (server_ip p) @ le32_bytes (gateway_ip p)"
  let ?bs = "DhcpPacket_bytes p"
  have n: "?bs ! 0 = opcode p" "?bs ! 1 = hw_type p" "?bs ! 2 = hw_length p" "?bs ! 3 = hops p"
    by (simp_all add: DhcpPacket_bytes_def)
  have t: "u32_at ?bs 4 = transaction_id p" using u32_at_append [of ?a 4 "transaction_id p"]
    by (simp add: DhcpPacket_bytes_def)
  have s: "be16_dec ?bs 8 = seconds p"
    using be16_dec_append [of "?a @ le32_bytes (transaction_id p)" 8 "seconds p"] wf by (simp add: DhcpPacket_bytes_def)
  have f: "be16_dec ?bs 10 = flags p"
    using be16_dec_append [of "?a @ le32_bytes (transaction_id p) @ be16_bytes (seconds p)" 10 "flags p"] wf
    by (simp add: DhcpPacket_bytes_def)
  have i: "u32_at ?bs 12 = client_ip p" using u32_at_append [of ?b 12 "client_ip p"] by (simp add: DhcpPacket_bytes_def)
  have j: "u32_at ?bs 16 = your_ip p" using u32_at_append [of "?b @ le32_bytes (client_ip p)" 16 "your_ip p"]
    by (simp add: DhcpPacket_bytes_def)
  have k: "u32_at ?bs 20 = server_ip p"
    using u32_at_append [of "?b @ le32_bytes (client_ip p) @ le32_bytes (your_ip p)" 20 "server_ip p"]
    by (simp add: DhcpPacket_bytes_def)
  have l: "u32_at ?bs 24 = gateway_ip p"
    using u32_at_append [of "?b @ le32_bytes (client_ip p) @ le32_bytes (your_ip p) @ le32_bytes (server_ip p)" 24 "gateway_ip p"]
    by (simp add: DhcpPacket_bytes_def)
  have m: "bslice 28 16 ?bs = client_hw_addr p" "bslice 44 64 ?bs = server_name p"
    "bslice 108 128 ?bs = bootfile_name p" "bslice 236 4 ?bs = cookie p" "bslice 240 308 ?bs = options p"
    using bslice_mid [of ?c 28 "client_hw_addr p" 16] bslice_mid [of "?c @ client_hw_addr p" 44 "server_name p" 64]
      bslice_mid [of "?c @ client_hw_addr p @ server_name p" 108 "bootfile_name p" 128]
      bslice_mid [of "?c @ client_hw_addr p @ server_name p @ bootfile_name p" 236 "cookie p" 4]
      bslice_mid [of "?c @ client_hw_addr p @ server_name p @ bootfile_name p @ cookie p" 240 "options p" 308 "[]"] wf
    by (simp_all add: DhcpPacket_bytes_def)
  show ?thesis unfolding DhcpPacket_at_def n t s f i j k l m by simp
qed

text \<open>Options one after the other, and the callback on each.\<close>

definition option_bytes :: "(u8 \<times> u8 list) list \<Rightarrow> u8 list" where
  "option_bytes os = concat (map (\<lambda>(tag, value). [tag, word_of_nat (length value)] @ value) os)"

fun run_options :: "'d option_func \<Rightarrow> (u8 \<times> u8 list) list \<Rightarrow> 'd \<Rightarrow> int \<times> 'd" where
  "run_options func [] data = (0, data)"
| "run_options func ((tag, value) # os) data =
     (case func tag value data of (rv, data) \<Rightarrow> if rv \<noteq> 0 then (1, data) else run_options func os data)"

definition options_wf :: "(u8 \<times> u8 list) list \<Rightarrow> bool" where
  "options_wf os \<longleftrightarrow> (\<forall>(tag, value) \<in> set os.
     tag \<noteq> DhcpTagEndOfList \<and> tag \<noteq> DhcpTagOptionOverload \<and> length value < 256)"

lemma options_loop_bytes:
  assumes "options_wf os" and "rest \<noteq> []"
  shows "options_loop func (option_bytes os @ [DhcpTagEndOfList, 0] @ rest) ov data =
    (case run_options func os data of (rv, data) \<Rightarrow> (if rv \<noteq> 0 then 1 else 0, ov, data))"
  using assms(1)
proof (induction os arbitrary: data)
  case Nil
  then show ?case using assms(2) by (cases rest) (simp_all add: option_bytes_def)
next
  case (Cons c os)
  obtain tag "value" where c: "c = (tag, value)" by fastforce
  let ?more = "option_bytes os @ [DhcpTagEndOfList, 0] @ rest"
  have wf: "options_wf os" "tag \<noteq> DhcpTagEndOfList" "tag \<noteq> DhcpTagOptionOverload" "length value < 256"
    using Cons.prems by (simp_all add: options_wf_def c)
  have len: "unat (word_of_nat (length value) :: u8) = length value" using wf(4) by (simp add: unat_of_nat)
  obtain b bs where b: "value @ ?more = b # bs" by (cases "value @ ?more") simp_all
  have split: "option_bytes (c # os) @ [DhcpTagEndOfList, 0] @ rest = tag # word_of_nat (length value) # b # bs"
    using b by (simp add: option_bytes_def c)
  have parts: "take (length value) (b # bs) = value" "drop (length value) (b # bs) = ?more"
    "length value < length (b # bs)"
    unfolding b [symmetric] by simp_all
  show ?case unfolding split using Cons.IH [OF wf(1)] wf(2,3) parts
    by (simp add: len c Let_def split: prod.splits)
qed

lemma add_options_bytes:
  "add_options os (opts, remaining) =
    (if length (option_bytes os) \<le> remaining then Some (opts @ option_bytes os, remaining - length (option_bytes os))
     else None)"
proof (induction os arbitrary: opts remaining)
  case Nil
  then show ?case by (simp add: option_bytes_def)
next
  case (Cons c os)
  obtain tag "value" where c: "c = (tag, value)" by fastforce
  show ?case
  proof (cases "length value + 2 \<le> remaining")
    case True
    then show ?thesis by (auto simp: c dhcp_add_option_def Cons.IH option_bytes_def)
  next
    case False
    then show ?thesis by (simp add: c dhcp_add_option_def option_bytes_def)
  qed
qed

lemma with_options_some:
  "length (option_bytes os) + 2 \<le> 308 \<Longrightarrow>
   with_options os p = Some (p\<lparr>options := memcpy_at (options p) 0 (option_bytes os @ [DhcpTagEndOfList, 0])\<rparr>)"
  by (simp add: with_options_def add_options_bytes) (simp add: option_bytes_def)

lemma process_with_options:
  assumes "options_wf os" and "length (option_bytes os) + 2 < 308" and "with_options os p = Some q" "length (options p) = 308"
  shows "dhcp_process_options q func data = run_options func os data"
proof -
  have q: "options q = option_bytes os @ [DhcpTagEndOfList, 0] @ drop (length (option_bytes os) + 2) (options p)"
    using with_options_some [of os p] assms(2,3) by (auto simp: memcpy_at_def)
  have "drop (length (option_bytes os) + 2) (options p) \<noteq> []" using assms(2,4) by simp
  from options_loop_bytes [OF assms(1) this, of func 0 data] show ?thesis
  proof -
    have "rv = 0 \<or> rv = 1" if "run_options func os data = (rv, d)" for rv d
      using that by (induction func os data rule: run_options.induct) (auto split: prod.splits if_splits)
    then show ?thesis using options_loop_bytes [OF assms(1) \<open>drop (length (option_bytes os) + 2) (options p) \<noteq> []\<close>, of func 0 data]
      unfolding dhcp_process_options_def q by (auto split: prod.splits)
  qed
qed

text \<open>
  A pad option, a single zero byte before others, is taken for an option of the length that the next
  byte gives; and the end of the list is refused when it is in the last two bytes.
\<close>

lemma pad_option_refused: "options_loop dhcp_get_type ([0, DhcpTagMessageType, 1, DhcpOffer, 255] @ replicate 40 0) 0 ty = (1, 0, ty)"
  by (simp add: DhcpTagMessageType_def)

lemma end_option_refused: "options_loop dhcp_get_type [DhcpTagMessageType, 1, DhcpOffer, DhcpTagEndOfList, 0] 0 ty = (1, 0, DhcpOffer)"
  by (simp add: DhcpTagMessageType_def DhcpTagEndOfList_def DhcpTagOptionOverload_def dhcp_get_type_def)

section \<open>Replies\<close>

text \<open>A datagram that the callback takes, as the packet \<open>p\<close>, for a reply to \<open>out\<close>.\<close>

definition valid_reply :: "DhcpPacket \<Rightarrow> DhcpState \<Rightarrow> u8 list \<Rightarrow> DhcpPacket \<Rightarrow> bool" where
  "valid_reply out state d p \<longleftrightarrow>
     length d \<le> DhcpPacket_size \<and> p = DhcpPacket_at (d @ replicate (DhcpPacket_size - length d) 0) \<and>
     reply_ok out p \<and> fst (dhcp_process_options p dhcp_get_type DhcpNoMessageType) = 0 \<and>
     type_ok state (snd (dhcp_process_options p dhcp_get_type DhcpNoMessageType))"

lemma dhcp_callback_cases:
  "\<exists>p r. dhcp_callback d c = c\<lparr>dhcp_in := p, dhcp_in_ready := dhcp_in_ready c \<or> r\<rparr> \<and>
     (r \<longrightarrow> valid_reply (dhcp_out c) (dhcp_state c) d p) \<and> (\<forall>q. valid_reply (dhcp_out c) (dhcp_state c) d q \<longrightarrow> r)"
proof (cases "DhcpPacket_size < length d")
  case True
  then have "dhcp_callback d c = c\<lparr>dhcp_in := dhcp_in c, dhcp_in_ready := dhcp_in_ready c \<or> False\<rparr>"
    "\<not> valid_reply (dhcp_out c) (dhcp_state c) d q" for q
    by (simp_all add: dhcp_callback_def valid_reply_def)
  then show ?thesis by blast
next
  case False
  let ?p = "DhcpPacket_at (d @ replicate (DhcpPacket_size - length d) 0)"
  let ?r = "valid_reply (dhcp_out c) (dhcp_state c) d ?p"
  have "dhcp_callback d c = c\<lparr>dhcp_in := ?p, dhcp_in_ready := dhcp_in_ready c \<or> ?r\<rparr>"
    using False by (auto simp: dhcp_callback_def valid_reply_def Let_def split: prod.split)
  moreover have "\<forall>q. valid_reply (dhcp_out c) (dhcp_state c) d q \<longrightarrow> ?r" by (simp add: valid_reply_def)
  ultimately show ?thesis by blast
qed

definition delivers :: "polls \<Rightarrow> DhcpPacket \<Rightarrow> DhcpState \<Rightarrow> DhcpPacket \<Rightarrow> bool" where
  "delivers polls out state p \<longleftrightarrow> (\<exists>(e, _) \<in> set polls. \<exists>d. e = Some d \<and> valid_reply out state d p)"

lemma delivers_mono: "delivers polls out state p \<Longrightarrow> set polls \<subseteq> set polls' \<Longrightarrow> delivers polls' out state p"
  by (auto simp: delivers_def)

lemma dhcp_poll_result:
  "\<not> dhcp_in_ready c \<Longrightarrow> \<exists>p r. dhcp_poll event c = c\<lparr>dhcp_in := p, dhcp_in_ready := r\<rparr> \<and>
     (r \<longrightarrow> delivers ((event, elapsed) # polls) (dhcp_out c) (dhcp_state c) p)"
proof (cases event)
  case None
  assume "\<not> dhcp_in_ready c"
  then have "dhcp_poll event c = c\<lparr>dhcp_in := dhcp_in c, dhcp_in_ready := False\<rparr>" using None by simp
  then show ?thesis by blast
next
  case (Some d)
  assume "\<not> dhcp_in_ready c"
  with dhcp_callback_cases [of d c] show ?thesis unfolding Some delivers_def by auto
qed

lemma dhcp_wait_result:
  "dhcp_wait polls c = Some (polls', c') \<Longrightarrow> \<not> dhcp_in_ready c \<Longrightarrow>
   \<exists>p r. c' = c\<lparr>dhcp_in := p, dhcp_in_ready := r\<rparr> \<and> set polls' \<subseteq> set polls \<and>
     (r \<longrightarrow> delivers polls (dhcp_out c) (dhcp_state c) p)"
proof (induction polls c rule: dhcp_wait.induct)
  case (2 event elapsed polls c)
  let ?del = "delivers ((event, elapsed) # polls) (dhcp_out c) (dhcp_state c)"
  obtain p r where c1: "dhcp_poll event c = c\<lparr>dhcp_in := p, dhcp_in_ready := r\<rparr>" and v: "r \<longrightarrow> ?del p"
    using dhcp_poll_result [OF 2(3)] by blast
  show ?case
  proof (cases "\<not> r \<and> elapsed < DhcpRespTimeoutUs")
    case True
    let ?c = "c\<lparr>dhcp_in := p, dhcp_in_ready := False\<rparr>"
    have c2: "dhcp_poll event c = ?c" using c1 True by simp
    have w: "dhcp_wait polls ?c = Some (polls', c')" using 2(2) True unfolding dhcp_wait.simps c2 by simp
    have "\<exists>q r. c' = ?c\<lparr>dhcp_in := q, dhcp_in_ready := r\<rparr> \<and> set polls' \<subseteq> set polls \<and>
        (r \<longrightarrow> delivers polls (dhcp_out ?c) (dhcp_state ?c) q)"
      using 2(1) [of ?c] True w unfolding c2 by simp
    then obtain q r where q: "c' = c\<lparr>dhcp_in := q, dhcp_in_ready := r\<rparr>" "set polls' \<subseteq> set polls"
      "r \<longrightarrow> delivers polls (dhcp_out c) (dhcp_state c) q"
      by auto
    have "r \<longrightarrow> ?del q" using q(3) by (auto simp: delivers_def)
    then show ?thesis using q(1,2) by auto
  next
    case False
    then have "polls' = polls" "c' = c\<lparr>dhcp_in := p, dhcp_in_ready := r\<rparr>"
      using 2(2) unfolding dhcp_wait.simps c1 by (auto simp: Let_def split: if_splits)
    then show ?thesis using v by auto
  qed
qed simp

lemma dhcp_rounds_result:
  "dhcp_rounds i polls c = Some (polls', c') \<Longrightarrow> \<not> dhcp_in_ready c \<Longrightarrow>
   \<exists>p r j. c' = c\<lparr>dhcp_in := p, dhcp_in_ready := r,
       dhcp_sent := dhcp_sent c @ replicate j (DhcpPacket_bytes (dhcp_out c))\<rparr> \<and> set polls' \<subseteq> set polls \<and>
     (r \<longrightarrow> delivers polls (dhcp_out c) (dhcp_state c) p)"
proof (induction i polls c rule: dhcp_rounds.induct)
  case (1 polls c)
  then have "c' = c\<lparr>dhcp_in := dhcp_in c, dhcp_in_ready := False,
      dhcp_sent := dhcp_sent c @ replicate 0 (DhcpPacket_bytes (dhcp_out c))\<rparr>" "polls' = polls" by simp_all
  then show ?case by blast
next
  case (2 i polls c)
  obtain polls1 c1 where w: "dhcp_wait polls c = Some (polls1, c1)" using 2(2) by (auto simp: Option.bind_eq_Some_conv)
  obtain p r where c1: "c1 = c\<lparr>dhcp_in := p, dhcp_in_ready := r\<rparr>" "set polls1 \<subseteq> set polls"
    and v: "r \<longrightarrow> delivers polls (dhcp_out c) (dhcp_state c) p"
    using dhcp_wait_result [OF w 2(3)] by blast
  show ?case
  proof (cases r)
    case True
    then have a: "polls' = polls1" "c' = c\<lparr>dhcp_in := p, dhcp_in_ready := True\<rparr>"
      using 2(2) w c1 by auto
    have "c' = c\<lparr>dhcp_in := p, dhcp_in_ready := True,
        dhcp_sent := dhcp_sent c @ replicate 0 (DhcpPacket_bytes (dhcp_out c))\<rparr>"
      unfolding a by simp
    with a show ?thesis using c1 v True by blast
  next
    case False
    let ?c = "c\<lparr>dhcp_in := p, dhcp_in_ready := False, dhcp_sent := dhcp_sent c @ [DhcpPacket_bytes (dhcp_out c)]\<rparr>"
    have g: "dhcp_rounds i polls1 ?c = Some (polls', c')" using 2(2) w c1 False by simp
    have "\<exists>q r j. c' = ?c\<lparr>dhcp_in := q, dhcp_in_ready := r,
          dhcp_sent := dhcp_sent ?c @ replicate j (DhcpPacket_bytes (dhcp_out ?c))\<rparr> \<and> set polls' \<subseteq> set polls1 \<and>
        (r \<longrightarrow> delivers polls1 (dhcp_out ?c) (dhcp_state ?c) q)"
      using 2(1) [OF w refl] c1 False g by simp
    then obtain q r j where q: "c' = ?c\<lparr>dhcp_in := q, dhcp_in_ready := r,
          dhcp_sent := dhcp_sent ?c @ replicate j (DhcpPacket_bytes (dhcp_out ?c))\<rparr>" "set polls' \<subseteq> set polls1"
      "r \<longrightarrow> delivers polls1 (dhcp_out c) (dhcp_state c) q"
      by auto
    have "c' = c\<lparr>dhcp_in := q, dhcp_in_ready := r,
        dhcp_sent := dhcp_sent c @ replicate (Suc j) (DhcpPacket_bytes (dhcp_out c))\<rparr>"
      using q(1) by simp
    moreover have "set polls' \<subseteq> set polls" "r \<longrightarrow> delivers polls (dhcp_out c) (dhcp_state c) q"
      using q(2,3) c1(2) delivers_mono by blast+
    ultimately show ?thesis by blast
  qed
qed

lemma dhcp_send_packet_result:
  assumes "dhcp_send_packet out polls c = Some (no_reply, polls', c')"
  shows "\<exists>p j. c' = c\<lparr>dhcp_sent := dhcp_sent c @ replicate (Suc j) (DhcpPacket_bytes out), dhcp_out := out,
      dhcp_in := p, dhcp_in_ready := \<not> no_reply\<rparr> \<and> set polls' \<subseteq> set polls \<and>
    (\<not> no_reply \<longrightarrow> delivers polls out (dhcp_state c) p)"
proof -
  let ?c = "c\<lparr>dhcp_sent := dhcp_sent c @ [DhcpPacket_bytes out], dhcp_out := out, dhcp_in_ready := False\<rparr>"
  have r: "dhcp_rounds 3 polls ?c = Some (polls', c')" "no_reply = (\<not> dhcp_in_ready c')"
    using assms by (auto simp: dhcp_send_packet_def)
  have "\<exists>p r j. c' = ?c\<lparr>dhcp_in := p, dhcp_in_ready := r,
       dhcp_sent := dhcp_sent ?c @ replicate j (DhcpPacket_bytes (dhcp_out ?c))\<rparr> \<and> set polls' \<subseteq> set polls \<and>
     (r \<longrightarrow> delivers polls (dhcp_out ?c) (dhcp_state ?c) p)"
    by (rule dhcp_rounds_result [OF r(1)]) simp
  then obtain p r j where p: "c' = ?c\<lparr>dhcp_in := p, dhcp_in_ready := r,
       dhcp_sent := dhcp_sent ?c @ replicate j (DhcpPacket_bytes (dhcp_out ?c))\<rparr>" "set polls' \<subseteq> set polls"
     "r \<longrightarrow> delivers polls out (dhcp_state c) p"
    by auto
  have n: "r = (\<not> no_reply)" using p(1) r(2) by simp
  have "c' = c\<lparr>dhcp_sent := dhcp_sent c @ replicate (Suc j) (DhcpPacket_bytes out), dhcp_out := out,
      dhcp_in := p, dhcp_in_ready := \<not> no_reply\<rparr>"
    using p(1) n by simp
  then show ?thesis using p(2,3) n by blast
qed

section \<open>Properties\<close>

lemma options_loop_keeps:
  "P data \<Longrightarrow> (\<And>tag v d. P d \<Longrightarrow> P (snd (func tag v d))) \<Longrightarrow>
   options_loop func opts ov data = (rv, ov', data') \<Longrightarrow> P data'"
proof (induction func opts ov data arbitrary: rv ov' data' rule: options_loop.induct)
  case (4 func tag len b rest ov data)
  note prems = 4(3-5)
  obtain rv1 d1 where f: "func tag (take (unat len) (b # rest)) data = (rv1, d1)" by fastforce
  have d1: "P d1" using prems(2) [OF prems(1), of tag "take (unat len) (b # rest)"] f by simp
  show ?case using 4(1) [OF refl] 4(2) [OF refl] prems f d1
    by (auto simp: Let_def split: if_splits)
qed auto

lemma process_options_keeps:
  assumes "P data" and "\<And>tag v d. P d \<Longrightarrow> P (snd (func tag v d))"
    and "dhcp_process_options packet func data = (rv, data')"
  shows "P data'"
proof -
  obtain rv1 ov d1 where l: "options_loop func (options packet) 0 data = (rv1, ov, d1)"
    by (cases "options_loop func (options packet) 0 data") auto
  have d1: "P d1" by (rule options_loop_keeps [OF assms(1,2) l])
  show ?thesis
  proof (cases "rv1 = 0 \<and> ov \<noteq> 0")
    case False
    then show ?thesis using assms(3) d1 l by (auto simp: dhcp_process_options_def split: if_splits)
  next
    case True
    show ?thesis
    proof (cases "overload_options packet ov")
      case None
      then show ?thesis using assms(3) d1 l True by (simp add: dhcp_process_options_def)
    next
      case (Some opts)
      obtain rv2 ov2 d2 where l2: "options_loop func opts 0 d1 = (rv2, ov2, d2)"
        by (cases "options_loop func opts 0 d1") auto
      have "P d2" by (rule options_loop_keeps [OF d1 assms(2) l2])
      then show ?thesis using assms(3) l l2 True Some by (simp add: dhcp_process_options_def)
    qed
  qed
qed

lemma apply_options_result:
  assumes "dhcp_process_options packet dhcp_apply_options c = (rv, c')"
  shows "\<exists>m r. c' = c\<lparr>uip_netmask := m, uip_draddr := r\<rparr>"
proof (rule process_options_keeps [OF _ _ assms])
  have "c = c\<lparr>uip_netmask := uip_netmask c, uip_draddr := uip_draddr c\<rparr>" by simp
  then show "\<exists>m r. c = c\<lparr>uip_netmask := m, uip_draddr := r\<rparr>" by blast
next
  fix tag v d assume "\<exists>m r. d = c\<lparr>uip_netmask := m, uip_draddr := r\<rparr>"
  then obtain m r where d: "d = c\<lparr>uip_netmask := m, uip_draddr := r\<rparr>" by blast
  have "snd (dhcp_apply_options tag v d) = d \<or> snd (dhcp_apply_options tag v d) = d\<lparr>uip_netmask := take 4 v\<rparr> \<or>
      snd (dhcp_apply_options tag v d) = d\<lparr>uip_draddr := take 4 v\<rparr>"
    by (simp add: dhcp_apply_options_def)
  moreover have "d\<lparr>uip_netmask := x\<rparr> = c\<lparr>uip_netmask := x, uip_draddr := r\<rparr>"
    "d\<lparr>uip_draddr := x\<rparr> = c\<lparr>uip_netmask := m, uip_draddr := x\<rparr>" for x
    unfolding d by simp_all
  ultimately show "\<exists>m r. snd (dhcp_apply_options tag v d) = c\<lparr>uip_netmask := m, uip_draddr := r\<rparr>"
    using d by metis
qed

lemma apply_settings_some:
  assumes "apply_settings server_id c = (Some s, c')"
  shows "s = \<lparr>next_ip = le32_bytes (server_ip (dhcp_in c)), dhcp_server_ip = le32_bytes server_id,
      bootfile = bootfile_name (dhcp_in c) @ [0]\<rparr> \<and> uip_hostaddr c' = le32_bytes (your_ip (dhcp_in c)) \<and>
    dhcp_state c' = DhcpBound \<and> udp_free c' = udp_free c + 1 \<and> dhcp_sent c' = dhcp_sent c"
proof -
  let ?c = "c\<lparr>dhcp_state := DhcpBound, udp_free := udp_free c + 1\<rparr>"
  obtain rv c1 where p: "dhcp_process_options (dhcp_in ?c) dhcp_apply_options ?c = (rv, c1)" by fastforce
  obtain m r where c1: "c1 = ?c\<lparr>uip_netmask := m, uip_draddr := r\<rparr>" using apply_options_result [OF p] by blast
  show ?thesis using assms p unfolding apply_settings_def c1 by (auto simp: Let_def split: if_splits)
qed

text \<open>The packet that a datagram is read as, and one that the network delivers as a reply to a client.\<close>

definition received :: "u8 list \<Rightarrow> DhcpPacket" where
  "received d = DhcpPacket_at (d @ replicate (DhcpPacket_size - length d) 0)"

definition reply_to :: "u8 list \<Rightarrow> u32 \<Rightarrow> u8 \<Rightarrow> polls \<Rightarrow> DhcpPacket \<Rightarrow> bool" where
  "reply_to mac xid ty polls p \<longleftrightarrow>
     (\<exists>(e, _) \<in> set polls. \<exists>d. e = Some d \<and> p = received d) \<and>
     opcode p = 2 \<and> hw_length p = 6 \<and> take 6 (client_hw_addr p) = mac \<and> transaction_id p = xid \<and>
     cookie p = [99, 130, 83, 99] \<and> dhcp_process_options p dhcp_get_type 0 = (0, ty)"

lemma with_options_fields:
  assumes "with_options os (dhcp_prep_packet xid c) = Some out"
  shows "hw_length out = 6" "client_hw_addr out = memcpy_at (replicate 16 0) 0 (uip_ethaddr c)" "transaction_id out = xid"
  using assms by (auto simp: with_options_def dhcp_prep_packet_def)

lemma delivers_reply:
  assumes "delivers polls out state p" and "with_options os (dhcp_prep_packet xid c) = Some out" and "length (uip_ethaddr c) = 6"
  shows "\<exists>ty. type_ok state ty \<and> reply_to (uip_ethaddr c) xid ty polls p"
proof -
  obtain d t where d: "(Some d, t) \<in> set polls" "valid_reply out state d p" using assms(1) by (auto simp: delivers_def)
  let ?ty = "snd (dhcp_process_options p dhcp_get_type 0)"
  have f: "fst (dhcp_process_options p dhcp_get_type 0) = 0" "reply_ok out p" "type_ok state ?ty" "p = received d"
    using d(2) unfolding valid_reply_def DhcpNoMessageType_def received_def by blast+
  have "dhcp_process_options p dhcp_get_type 0 = (0, ?ty)" by (simp only: prod_eq_iff fst_conv snd_conv f(1))
  moreover note f(2-4)
  ultimately have "type_ok state ?ty \<and> reply_to (uip_ethaddr c) xid ?ty polls p"
    using d(1) with_options_fields [OF assms(2)] assms(3)
    by (auto simp: reply_to_def reply_ok_def DhcpReplyOp_def DhcpCookie_def memcpy_at_def)
  then show ?thesis by blast
qed

lemma reply_to_mono: "reply_to mac xid ty polls p \<Longrightarrow> set polls \<subseteq> set polls' \<Longrightarrow> reply_to mac xid ty polls' p"
  by (auto simp: reply_to_def)

text \<open>The exchange by which an address was bound.\<close>

definition type_due :: "DhcpState \<Rightarrow> u8 \<Rightarrow> bool" where
  "type_due state ty \<longleftrightarrow> (state = DhcpInit \<longrightarrow> ty = 2) \<and> (state = DhcpRequesting \<longrightarrow> ty = 5 \<or> ty = 6)"

definition bound_by ::
  "u8 list \<Rightarrow> u32 \<Rightarrow> u32 \<Rightarrow> u32 \<Rightarrow> polls \<Rightarrow> dhcp_client \<Rightarrow> dhcp_settings \<Rightarrow> dhcp_client \<Rightarrow>
   DhcpPacket \<Rightarrow> DhcpPacket \<Rightarrow> bool" where
  "bound_by mac xid1 xid2 junk polls c s c' offer ack \<longleftrightarrow>
     (let c0 = c\<lparr>uip_ethaddr := mac\<rparr>
      in case with_options (discover_options c0) (dhcp_prep_packet xid1 c0) of None \<Rightarrow> False | Some out1 \<Rightarrow>
         case dhcp_process_options offer dhcp_get_server junk of (rv, server_id) \<Rightarrow>
         case with_options (request_options (your_ip offer) server_id c0) (dhcp_prep_packet xid2 c0) of
           None \<Rightarrow> False | Some out2 \<Rightarrow>
         (\<exists>ty. reply_to mac xid1 ty polls offer \<and> type_due (dhcp_state c) ty) \<and> rv = 0 \<and>
         reply_to mac xid2 DhcpAck polls ack \<and>
         (\<exists>j k. dhcp_sent c' = dhcp_sent c @ replicate (Suc j) (DhcpPacket_bytes out1) @
            replicate (Suc k) (DhcpPacket_bytes out2)) \<and>
         s = \<lparr>next_ip = le32_bytes (server_ip ack), dhcp_server_ip = le32_bytes server_id,
              bootfile = bootfile_name ack @ [0]\<rparr> \<and>
         uip_hostaddr c' = le32_bytes (your_ip ack) \<and> dhcp_state c' = DhcpBound \<and> udp_free c' = udp_free c)"

lemma client_packets [simp]:
  "discover_options (c\<lparr>udp_free := a\<rparr>) = discover_options c" "discover_options (c\<lparr>uip_hostaddr := b\<rparr>) = discover_options c"
  "dhcp_prep_packet x (c\<lparr>udp_free := a\<rparr>) = dhcp_prep_packet x c"
  "dhcp_prep_packet x (c\<lparr>uip_hostaddr := b\<rparr>) = dhcp_prep_packet x c"
  by (simp_all add: discover_options_def client_id_def dhcp_prep_packet_def)

lemma same_ethaddr:
  assumes "uip_ethaddr c = uip_ethaddr c'"
  shows "discover_options c = discover_options c'" "request_options ip s c = request_options ip s c'"
    "dhcp_prep_packet x c = dhcp_prep_packet x c'"
  using assms by (simp_all add: discover_options_def request_options_def client_id_def dhcp_prep_packet_def)

lemma bindE: "Option.bind m f = Some y \<Longrightarrow> (\<And>x. m = Some x \<Longrightarrow> f x = Some y \<Longrightarrow> thesis) \<Longrightarrow> thesis"
  by (cases m) simp_all

lemma request_offer_some:
  assumes "request_offer server_id xid polls c = Some (Some s, polls', c')"
  shows "\<exists>out ack k. with_options (request_options (your_ip (dhcp_in c)) server_id c) (dhcp_prep_packet xid c) = Some out \<and>
    delivers polls out DhcpRequesting ack \<and> dhcp_process_options ack dhcp_get_type 0 = (0, DhcpAck) \<and>
    dhcp_sent c' = dhcp_sent c @ replicate (Suc k) (DhcpPacket_bytes out) \<and>
    s = \<lparr>next_ip = le32_bytes (server_ip ack), dhcp_server_ip = le32_bytes server_id,
      bootfile = bootfile_name ack @ [0]\<rparr> \<and>
    uip_hostaddr c' = le32_bytes (your_ip ack) \<and> dhcp_state c' = DhcpBound \<and> udp_free c' = udp_free c + 1"
proof -
  define c1 where "c1 = c\<lparr>dhcp_state := DhcpRequesting\<rparr>"
  note run = assms [unfolded request_offer_def Let_def, folded c1_def]
  from run obtain out where o: "with_options (request_options (your_ip (dhcp_in c1)) server_id c1) (dhcp_prep_packet xid c1) = Some out"
    by (elim bindE)
  obtain no_reply polls2 c2 where s: "dhcp_send_packet out polls c1 = Some (no_reply, polls2, c2)"
    using run unfolding o by (cases "dhcp_send_packet out polls c1") auto
  obtain rv ty where t: "dhcp_process_options (dhcp_in c2) dhcp_get_type 0 = (rv, ty)" by fastforce
  obtain set c3 where a: "apply_settings server_id c2 = (set, c3)" by fastforce
  have r: "\<not> no_reply" "rv = 0" "ty \<noteq> DhcpNak" "set = Some s" "c3 = c'"
    using run by (auto simp: o s t a split: if_splits)
  obtain p k where c2: "c2 = c1\<lparr>dhcp_sent := dhcp_sent c1 @ replicate (Suc k) (DhcpPacket_bytes out), dhcp_out := out,
      dhcp_in := p, dhcp_in_ready := True\<rparr>" and d: "delivers polls out DhcpRequesting p"
    using dhcp_send_packet_result [OF s] r(1) by (auto simp: c1_def)
  have p: "dhcp_in c2 = p" by (simp add: c2)
  have "ty = DhcpAck" using d t r unfolding p by (auto simp: delivers_def valid_reply_def type_ok_def DhcpNoMessageType_def)
  then have ty: "dhcp_process_options p dhcp_get_type 0 = (0, DhcpAck)" using t r unfolding p by simp
  have st: "dhcp_sent c2 = dhcp_sent c @ replicate (Suc k) (DhcpPacket_bytes out)" "udp_free c2 = udp_free c"
    by (simp_all add: c2 c1_def)
  have o': "with_options (request_options (your_ip (dhcp_in c)) server_id c) (dhcp_prep_packet xid c) = Some out"
    using o same_ethaddr [of c1 c] by (simp add: c1_def)
  have "apply_settings server_id c2 = (Some s, c')" using a r by simp
  from apply_settings_some [OF this] show ?thesis
    by (intro exI [of _ out] exI [of _ p] exI [of _ k]) (use o' d ty st in \<open>simp add: p\<close>)
qed

lemma dhcp_request_unfold:
  assumes "c1 = c\<lparr>uip_ethaddr := m, uip_hostaddr := [0, 0, 0, 0], udp_free := udp_free c - 1\<rparr>" and "udp_free c \<noteq> 0"
  shows "dhcp_request (Some m) xid1 xid2 junk polls c =
    Option.bind (with_options (discover_options c1) (dhcp_prep_packet xid1 c1)) (\<lambda>out.
      Option.bind (dhcp_send_packet out polls c1) (\<lambda>(no_reply, polls, c).
        if no_reply then Some (None, polls, c)
        else case dhcp_process_options (dhcp_in c) dhcp_get_server junk of (rv, server_id) \<Rightarrow>
          if rv \<noteq> 0 then Some (None, polls, c) else request_offer server_id xid2 polls c))"
  using assms by (simp add: dhcp_request_def)

lemma dhcp_request_bound:
  assumes "dhcp_request (Some mac) xid1 xid2 junk polls c = Some (Some s, polls', c')" and "length mac = 6"
  shows "\<exists>offer ack. bound_by mac xid1 xid2 junk polls c s c' offer ack"
proof -
  define c0 where "c0 = c\<lparr>uip_ethaddr := mac\<rparr>"
  define c1 where "c1 = c\<lparr>uip_ethaddr := mac, uip_hostaddr := [0, 0, 0, 0], udp_free := udp_free c - 1\<rparr>"
  have eth: "uip_ethaddr c1 = uip_ethaddr c0" by (simp add: c0_def c1_def)
  have free: "udp_free c \<noteq> 0" using assms(1) by (cases "udp_free c = 0") (simp_all add: dhcp_request_def)
  note run = assms(1) [unfolded dhcp_request_unfold [OF c1_def free]]
  from run obtain out1 where o1: "with_options (discover_options c1) (dhcp_prep_packet xid1 c1) = Some out1"
    by (elim bindE)
  obtain no_reply polls2 c2 where s1: "dhcp_send_packet out1 polls c1 = Some (no_reply, polls2, c2)"
    using run unfolding o1 by (cases "dhcp_send_packet out1 polls c1") auto
  obtain rv server_id where srv: "dhcp_process_options (dhcp_in c2) dhcp_get_server junk = (rv, server_id)" by fastforce
  have r: "\<not> no_reply" "rv = 0" "request_offer server_id xid2 polls2 c2 = Some (Some s, polls', c')"
    using run by (auto simp: o1 s1 srv split: if_splits)
  obtain offer j where c2: "c2 = c1\<lparr>dhcp_sent := dhcp_sent c1 @ replicate (Suc j) (DhcpPacket_bytes out1), dhcp_out := out1,
      dhcp_in := offer, dhcp_in_ready := True\<rparr>" and d1: "delivers polls out1 (dhcp_state c1) offer" and p2: "set polls2 \<subseteq> set polls"
    using dhcp_send_packet_result [OF s1] r(1) by auto
  obtain out2 ack k where o2: "with_options (request_options (your_ip (dhcp_in c2)) server_id c2) (dhcp_prep_packet xid2 c2) = Some out2"
    and d2: "delivers polls2 out2 DhcpRequesting ack" and ty: "dhcp_process_options ack dhcp_get_type 0 = (0, DhcpAck)"
    and st: "dhcp_sent c' = dhcp_sent c2 @ replicate (Suc k) (DhcpPacket_bytes out2)"
      "s = \<lparr>next_ip = le32_bytes (server_ip ack), dhcp_server_ip = le32_bytes server_id, bootfile = bootfile_name ack @ [0]\<rparr>"
      "uip_hostaddr c' = le32_bytes (your_ip ack)" "dhcp_state c' = DhcpBound" "udp_free c' = udp_free c2 + 1"
    using request_offer_some [OF r(3)] by blast
  have eth2: "uip_ethaddr c2 = uip_ethaddr c0" by (simp add: c2 eth)
  have in2: "dhcp_in c2 = offer" by (simp add: c2)
  have sent: "dhcp_sent c2 = dhcp_sent c @ replicate (Suc j) (DhcpPacket_bytes out1)" "udp_free c2 + 1 = udp_free c"
    using free by (simp_all add: c2 c1_def)
  have e: "uip_ethaddr c1 = mac" "uip_ethaddr c2 = mac" "dhcp_state c1 = dhcp_state c" by (simp_all add: c2 c1_def)
  have "type_ok state ty \<Longrightarrow> type_due state ty" for state ty
    by (cases state) (simp_all add: type_ok_def type_due_def DhcpOffer_def DhcpAck_def DhcpNak_def)
  then have ty1: "\<exists>ty. reply_to mac xid1 ty polls offer \<and> type_due (dhcp_state c) ty"
    using delivers_reply [OF d1 o1] assms(2) by (auto simp: e)
  have ty2: "reply_to mac xid2 DhcpAck polls ack"
    using delivers_reply [OF delivers_mono [OF d2 p2] o2] assms(2) ty by (auto simp: e reply_to_def)
  have "bound_by mac xid1 xid2 junk polls c s c' offer ack"
    unfolding bound_by_def c0_def [symmetric] Let_def
    using o1 o2 srv r(2) ty1 ty2 st sent
    unfolding same_ethaddr [OF eth] same_ethaddr [OF eth2] in2 by (auto simp: c1_def)
  then show ?thesis by blast
qed

text \<open>
  Once a REQUEST was not answered, \<open>dhcp_state\<close> stays \<open>DhcpRequesting\<close>: a later \<open>dhcp_request\<close>
  ignores every offer, fails, and each time keeps another UDP connection.
\<close>

lemma request_offer_no_reply:
  assumes "with_options (request_options (your_ip (dhcp_in c)) server_id c) (dhcp_prep_packet xid c) = Some out"
    and "dhcp_send_packet out polls (c\<lparr>dhcp_state := DhcpRequesting\<rparr>) = Some (True, polls', c')"
  shows "request_offer server_id xid polls c = Some (None, polls', c') \<and> dhcp_state c' = DhcpRequesting \<and>
    udp_free c' = udp_free c"
proof -
  have "with_options (request_options (your_ip (dhcp_in c)) server_id (c\<lparr>dhcp_state := DhcpRequesting\<rparr>))
      (dhcp_prep_packet xid (c\<lparr>dhcp_state := DhcpRequesting\<rparr>)) = Some out"
    using assms(1) same_ethaddr [of "c\<lparr>dhcp_state := DhcpRequesting\<rparr>" c] by simp
  then show ?thesis using dhcp_send_packet_result [OF assms(2)] assms(2) by (auto simp: request_offer_def)
qed

lemma dhcp_request_stuck:
  assumes "dhcp_request (Some mac) xid1 xid2 junk polls c = Some (r, polls', c')" and "dhcp_state c = DhcpRequesting"
    and "\<forall>(e, _) \<in> set polls. \<forall>d. e = Some d \<longrightarrow>
      snd (dhcp_process_options (received d) dhcp_get_type DhcpNoMessageType) \<notin> {DhcpAck, DhcpNak}"
  shows "r = None \<and> dhcp_state c' = DhcpRequesting \<and> udp_free c' = udp_free c - 1"
proof -
  define c1 where "c1 = c\<lparr>uip_ethaddr := mac, uip_hostaddr := [0, 0, 0, 0], udp_free := udp_free c - 1\<rparr>"
  show ?thesis
  proof (cases "udp_free c = 0")
    case True
    then show ?thesis using assms(1,2) by (auto simp: dhcp_request_def Let_def)
  next
    case False
    note run = assms(1) [unfolded dhcp_request_unfold [OF c1_def False]]
    from run obtain out where o: "with_options (discover_options c1) (dhcp_prep_packet xid1 c1) = Some out"
      by (elim bindE)
    obtain no_reply polls2 c2 where s: "dhcp_send_packet out polls c1 = Some (no_reply, polls2, c2)"
      using run unfolding o by (cases "dhcp_send_packet out polls c1") auto
    have r: "no_reply \<Longrightarrow> r = None \<and> c' = c2" using run by (simp add: o s)
    have "\<not> delivers polls out DhcpRequesting p" for p
      using assms(3) by (force simp: delivers_def valid_reply_def type_ok_def received_def)
    then have "no_reply" "dhcp_state c2 = DhcpRequesting" "udp_free c2 = udp_free c - 1"
      using dhcp_send_packet_result [OF s] assms(2) by (auto simp: c1_def)
    then show ?thesis using r by simp
  qed
qed

text \<open>What a poll can deliver while the client goes on waiting in the same period.\<close>

definition quiet :: "polls \<Rightarrow> DhcpPacket \<Rightarrow> DhcpState \<Rightarrow> bool" where
  "quiet polls out state \<longleftrightarrow> (\<forall>(e, elapsed) \<in> set polls. elapsed < DhcpRespTimeoutUs \<and>
     (case e of None \<Rightarrow> True | Some d \<Rightarrow> \<not> valid_reply out state d (received d)))"

lemma dhcp_wait_replied:
  "\<not> dhcp_in_ready c \<Longrightarrow> quiet ps (dhcp_out c) (dhcp_state c) \<Longrightarrow> valid_reply (dhcp_out c) (dhcp_state c) d p \<Longrightarrow>
   dhcp_wait (ps @ (Some d, t) # rest) c = Some (rest, c\<lparr>dhcp_in := p, dhcp_in_ready := True\<rparr>)"
proof (induction ps arbitrary: c)
  case Nil
  have "p = received d" using Nil(3) by (simp add: valid_reply_def received_def)
  then have "dhcp_callback d c = c\<lparr>dhcp_in := p, dhcp_in_ready := True\<rparr>"
    using Nil(3) by (auto simp: dhcp_callback_def valid_reply_def received_def Let_def split: prod.split)
  then show ?case by simp
next
  case (Cons x ps)
  obtain e elapsed where x: "x = (e, elapsed)" by fastforce
  have q: "quiet ps (dhcp_out c) (dhcp_state c)" "elapsed < DhcpRespTimeoutUs"
    and e: "e = None \<or> (\<exists>d. e = Some d \<and> \<not> valid_reply (dhcp_out c) (dhcp_state c) d (received d))"
    using Cons.prems(2) by (auto simp: quiet_def x split: option.splits)
  have "\<exists>q. dhcp_poll e c = c\<lparr>dhcp_in := q, dhcp_in_ready := False\<rparr>"
  proof (cases e)
    case None
    then have "dhcp_poll e c = c\<lparr>dhcp_in := dhcp_in c, dhcp_in_ready := False\<rparr>" using Cons.prems(1) by simp
    then show ?thesis by blast
  next
    case (Some d')
    obtain q r where "dhcp_callback d' c = c\<lparr>dhcp_in := q, dhcp_in_ready := dhcp_in_ready c \<or> r\<rparr>"
      "r \<longrightarrow> valid_reply (dhcp_out c) (dhcp_state c) d' q"
      using dhcp_callback_cases [of d' c] by blast
    moreover from this(2) have "\<not> r" using e Some by (auto simp: valid_reply_def received_def)
    ultimately show ?thesis using Some Cons.prems(1) by auto
  qed
  then obtain q where c1: "dhcp_poll e c = c\<lparr>dhcp_in := q, dhcp_in_ready := False\<rparr>" by blast
  have "dhcp_wait (ps @ (Some d, t) # rest) (c\<lparr>dhcp_in := q, dhcp_in_ready := False\<rparr>) =
      Some (rest, c\<lparr>dhcp_in := q, dhcp_in_ready := False\<rparr>\<lparr>dhcp_in := p, dhcp_in_ready := True\<rparr>)"
    by (rule Cons.IH) (use q Cons.prems(3) in simp_all)
  then show ?case using q(2) by (simp add: x c1)
qed

lemma dhcp_send_packet_replied:
  assumes "quiet ps out (dhcp_state c)" and "valid_reply out (dhcp_state c) d p"
  shows "dhcp_send_packet out (ps @ (Some d, t) # rest) c = Some (False, rest,
    c\<lparr>dhcp_sent := dhcp_sent c @ [DhcpPacket_bytes out], dhcp_out := out, dhcp_in := p, dhcp_in_ready := True\<rparr>)"
proof -
  let ?c = "c\<lparr>dhcp_sent := dhcp_sent c @ [DhcpPacket_bytes out], dhcp_out := out, dhcp_in_ready := False\<rparr>"
  have w: "dhcp_wait (ps @ (Some d, t) # rest) ?c = Some (rest, ?c\<lparr>dhcp_in := p, dhcp_in_ready := True\<rparr>)"
    by (rule dhcp_wait_replied) (use assms in simp_all)
  have "dhcp_rounds 3 (ps @ (Some d, t) # rest) ?c = Some (rest, ?c\<lparr>dhcp_in := p, dhcp_in_ready := True\<rparr>)"
    unfolding numeral_3_eq_3 dhcp_rounds.simps w by simp
  then show ?thesis by (simp add: dhcp_send_packet_def)
qed

lemma valid_replyI:
  assumes "packet_wf p" and "reply_ok out p" and "dhcp_process_options p dhcp_get_type 0 = (0, ty)" and "type_ok state ty"
  shows "valid_reply out state (DhcpPacket_bytes p) p"
  using assms by (simp add: valid_reply_def length_DhcpPacket_bytes DhcpPacket_at_bytes DhcpNoMessageType_def)

lemma dhcp_exchange_applies:
  assumes "c0 = c\<lparr>uip_ethaddr := mac\<rparr>" and "udp_free c \<noteq> 0" and "dhcp_state c = DhcpInit"
    and "with_options (discover_options c0) (dhcp_prep_packet xid1 c0) = Some out1"
    and "quiet ps1 out1 DhcpInit" and "valid_reply out1 DhcpInit d1 offer"
    and "dhcp_process_options offer dhcp_get_server junk = (0, server_id)"
    and "with_options (request_options (your_ip offer) server_id c0) (dhcp_prep_packet xid2 c0) = Some out2"
    and "quiet ps2 out2 DhcpRequesting" and "valid_reply out2 DhcpRequesting d2 ack"
    and "dhcp_process_options ack dhcp_get_type 0 = (0, DhcpAck)"
    and "\<And>c. fst (dhcp_process_options ack dhcp_apply_options c) = 0"
  shows "\<exists>c'. dhcp_request (Some mac) xid1 xid2 junk (ps1 @ (Some d1, t1) # ps2 @ (Some d2, t2) # rest) c =
      Some (Some \<lparr>next_ip = le32_bytes (server_ip ack), dhcp_server_ip = le32_bytes server_id,
        bootfile = bootfile_name ack @ [0]\<rparr>, rest, c') \<and>
    dhcp_sent c' = dhcp_sent c @ [DhcpPacket_bytes out1, DhcpPacket_bytes out2] \<and>
    uip_hostaddr c' = le32_bytes (your_ip ack) \<and> dhcp_state c' = DhcpBound \<and> udp_free c' = udp_free c \<and>
    (\<exists>c4 s. apply_settings server_id c4 = (Some s, c') \<and> dhcp_in c4 = ack \<and> uip_netmask c4 = uip_netmask c \<and>
       uip_draddr c4 = uip_draddr c)"
proof -
  let ?polls2 = "ps2 @ (Some d2, t2) # rest" and ?polls = "ps1 @ (Some d1, t1) # ps2 @ (Some d2, t2) # rest"
  define c1 where "c1 = c\<lparr>uip_ethaddr := mac, uip_hostaddr := [0, 0, 0, 0], udp_free := udp_free c - 1\<rparr>"
  have eth1: "uip_ethaddr c1 = uip_ethaddr c0" by (simp add: c1_def assms(1))
  define c2 where "c2 = c1\<lparr>dhcp_sent := dhcp_sent c1 @ [DhcpPacket_bytes out1], dhcp_out := out1,
    dhcp_in := offer, dhcp_in_ready := True\<rparr>"
  have s1: "dhcp_send_packet out1 ?polls c1 = Some (False, ?polls2, c2)" unfolding c2_def
    by (rule dhcp_send_packet_replied) (use assms(3,5,6) in \<open>simp_all add: c1_def\<close>)
  define c3 where "c3 = c2\<lparr>dhcp_state := DhcpRequesting\<rparr>"
  have eth3: "uip_ethaddr c3 = uip_ethaddr c0" by (simp add: c3_def c2_def eth1)
  have in3: "dhcp_in c2 = offer" "dhcp_in c3 = offer" by (simp_all add: c3_def c2_def)
  define c4 where "c4 = c3\<lparr>dhcp_sent := dhcp_sent c3 @ [DhcpPacket_bytes out2], dhcp_out := out2,
    dhcp_in := ack, dhcp_in_ready := True\<rparr>"
  have s2: "dhcp_send_packet out2 ?polls2 c3 = Some (False, rest, c4)" unfolding c4_def
    by (rule dhcp_send_packet_replied) (use assms(9,10) in \<open>simp_all add: c3_def\<close>)
  have in4: "dhcp_in c4 = ack" by (simp add: c4_def)
  obtain set c' where a: "apply_settings server_id c4 = (set, c')" by fastforce
  have "set \<noteq> None" using a assms(12) [of "c4\<lparr>dhcp_state := DhcpBound, udp_free := udp_free c4 + 1\<rparr>"]
    by (auto simp: apply_settings_def in4 Let_def split: prod.splits if_splits)
  then obtain s where set: "set = Some s" by blast
  have offer: "request_offer server_id xid2 ?polls2 c2 = Some (Some s, rest, c')"
    unfolding request_offer_def Let_def c3_def [symmetric] in3 same_ethaddr [OF eth3] assms(8)
    using assms(11) by (simp add: s2 in4 a set DhcpAck_def DhcpNak_def)
  have "dhcp_request (Some mac) xid1 xid2 junk ?polls c = Some (Some s, rest, c')"
    unfolding dhcp_request_unfold [OF c1_def assms(2)] same_ethaddr [OF eth1] assms(4)
    by (simp add: s1 in3 assms(7) offer)
  moreover have "dhcp_sent c4 = dhcp_sent c @ [DhcpPacket_bytes out1, DhcpPacket_bytes out2]" "udp_free c4 + 1 = udp_free c"
    using assms(2) by (simp_all add: c4_def c3_def c2_def c1_def)
  moreover have "uip_netmask c4 = uip_netmask c" "uip_draddr c4 = uip_draddr c"
    by (simp_all add: c4_def c3_def c2_def c1_def)
  moreover have "apply_settings server_id c4 = (Some s, c')" using a set by simp
  moreover note apply_settings_some [OF this] in4
  ultimately show ?thesis by (intro exI [of _ c'] conjI exI [of _ c4] exI [of _ s]) auto
qed

lemma dhcp_exchange:
  assumes "c0 = c\<lparr>uip_ethaddr := mac\<rparr>" and "udp_free c \<noteq> 0" and "dhcp_state c = DhcpInit"
    and "with_options (discover_options c0) (dhcp_prep_packet xid1 c0) = Some out1"
    and "quiet ps1 out1 DhcpInit" and "valid_reply out1 DhcpInit d1 offer"
    and "dhcp_process_options offer dhcp_get_server junk = (0, server_id)"
    and "with_options (request_options (your_ip offer) server_id c0) (dhcp_prep_packet xid2 c0) = Some out2"
    and "quiet ps2 out2 DhcpRequesting" and "valid_reply out2 DhcpRequesting d2 ack"
    and "dhcp_process_options ack dhcp_get_type 0 = (0, DhcpAck)"
    and "\<And>c. fst (dhcp_process_options ack dhcp_apply_options c) = 0"
  shows "\<exists>c'. dhcp_request (Some mac) xid1 xid2 junk (ps1 @ (Some d1, t1) # ps2 @ (Some d2, t2) # rest) c =
      Some (Some \<lparr>next_ip = le32_bytes (server_ip ack), dhcp_server_ip = le32_bytes server_id,
        bootfile = bootfile_name ack @ [0]\<rparr>, rest, c') \<and>
    dhcp_sent c' = dhcp_sent c @ [DhcpPacket_bytes out1, DhcpPacket_bytes out2] \<and>
    uip_hostaddr c' = le32_bytes (your_ip ack) \<and> dhcp_state c' = DhcpBound \<and> udp_free c' = udp_free c"
  using dhcp_exchange_applies [OF assms] by blast





















text \<open>An example: the replies of a server to a client with a given transaction number.\<close>

definition ex_mac :: "u8 list" where "ex_mac = [2, 0, 0, 0, 0, 1]"

definition ex_options :: "u8 \<Rightarrow> (u8 \<times> u8 list) list" where
  "ex_options ty = [(DhcpTagMessageType, [ty]), (DhcpTagServerIdentifier, [10, 0, 0, 1]),
     (DhcpTagSubnetMask, [255, 255, 255, 0])]"

definition ex_reply :: "u8 \<Rightarrow> u32 \<Rightarrow> DhcpPacket" where
  "ex_reply ty xid =
     \<lparr>opcode = DhcpReplyOp, hw_type = DhcpEthernet, hw_length = 6, hops = 0, transaction_id = xid,
      seconds = 0, flags = 0, client_ip = 0, your_ip = 0x0500000A, server_ip = 0x0100000A, gateway_ip = 0,
      client_hw_addr = ex_mac @ replicate 10 0, server_name = replicate 64 0,
      bootfile_name = 97 # replicate 127 0, cookie = DhcpCookie,
      options = memcpy_at (replicate 308 0) 0 (option_bytes (ex_options ty) @ [DhcpTagEndOfList, 0])\<rparr>"

definition ex_client :: dhcp_client where
  "ex_client = \<lparr>dhcp_state = DhcpInit, dhcp_in = ex_reply 0 0, dhcp_in_ready = False, dhcp_out = ex_reply 0 0,
     udp_free = 1, uip_ethaddr = [], uip_hostaddr = [], uip_netmask = [], uip_draddr = [], dhcp_sent = []\<rparr>"

definition ex_out :: "(u8 \<times> u8 list) list \<Rightarrow> u32 \<Rightarrow> DhcpPacket" where
  "ex_out os xid = (dhcp_prep_packet xid (ex_client\<lparr>uip_ethaddr := ex_mac\<rparr>))
     \<lparr>options := memcpy_at (replicate 308 0) 0 (option_bytes os @ [DhcpTagEndOfList, 0])\<rparr>"

lemma ex_reply_options:
  "dhcp_process_options (ex_reply ty xid) func data = run_options func (ex_options ty) data"
proof (rule process_with_options [where p = "(ex_reply ty xid)\<lparr>options := replicate 308 0\<rparr>"])
  show "options_wf (ex_options ty)"
    by (simp add: options_wf_def ex_options_def DhcpTagMessageType_def DhcpTagServerIdentifier_def DhcpTagSubnetMask_def
        DhcpTagEndOfList_def DhcpTagOptionOverload_def)
  show l: "length (option_bytes (ex_options ty)) + 2 < 308" by (simp add: ex_options_def option_bytes_def)
  show "with_options (ex_options ty) ((ex_reply ty xid)\<lparr>options := replicate 308 0\<rparr>) = Some (ex_reply ty xid)"
    using with_options_some [of "ex_options ty" "(ex_reply ty xid)\<lparr>options := replicate 308 0\<rparr>"] l
    by (simp add: ex_reply_def)
qed simp

lemma ex_reply_type: "dhcp_process_options (ex_reply ty xid) dhcp_get_type 0 = (0, ty)"
  by (simp add: ex_reply_options ex_options_def dhcp_get_type_def DhcpTagMessageType_def DhcpTagServerIdentifier_def
      DhcpTagSubnetMask_def)

lemma ex_reply_valid:
  assumes "type_ok state ty"
  shows "valid_reply (ex_out os xid) state (DhcpPacket_bytes (ex_reply ty xid)) (ex_reply ty xid)"
proof (rule valid_replyI [OF _ _ ex_reply_type assms])
  have "length (option_bytes (ex_options ty) @ [DhcpTagEndOfList, 0]) \<le> 308"
    by (simp add: ex_options_def option_bytes_def)
  then show "packet_wf (ex_reply ty xid)" by (simp add: packet_wf_def ex_reply_def ex_mac_def DhcpCookie_def)
  show "reply_ok (ex_out os xid) (ex_reply ty xid)"
    by (simp add: reply_ok_def ex_out_def ex_reply_def dhcp_prep_packet_def ex_client_def ex_mac_def memcpy_at_def)
qed

lemma ex_out_options:
  assumes "length (option_bytes os) + 2 \<le> 308"
  shows "with_options os (dhcp_prep_packet xid (ex_client\<lparr>uip_ethaddr := ex_mac\<rparr>)) = Some (ex_out os xid)"
  using with_options_some [OF assms, of "dhcp_prep_packet xid (ex_client\<lparr>uip_ethaddr := ex_mac\<rparr>)"]
  by (simp add: ex_out_def) (simp add: dhcp_prep_packet_def)

lemma ex_server: "dhcp_process_options (ex_reply ty xid) dhcp_get_server junk = (0, 0x0100000A)"
  by (simp add: ex_reply_options ex_options_def dhcp_get_server_def DhcpTagMessageType_def
      DhcpTagServerIdentifier_def DhcpTagSubnetMask_def u32_at_def le32_dec_def le16_dec_def)

lemma ex_apply: "fst (dhcp_process_options (ex_reply ty xid) dhcp_apply_options c) = 0"
  by (simp add: ex_reply_options ex_options_def dhcp_apply_options_def DhcpTagMessageType_def
      DhcpTagServerIdentifier_def DhcpTagSubnetMask_def DhcpTagDefaultRouter_def)

lemma ex_replies:
  fixes c0 defines "c0 \<equiv> ex_client\<lparr>uip_ethaddr := ex_mac\<rparr>"
  defines "out1 \<equiv> ex_out (discover_options c0) 7" and "out2 \<equiv> ex_out (request_options 0x0500000A 0x0100000A c0) 9"
  shows "with_options (discover_options c0) (dhcp_prep_packet 7 c0) = Some out1"
    and "with_options (request_options (your_ip (ex_reply DhcpOffer 7)) 0x0100000A c0) (dhcp_prep_packet 9 c0) = Some out2"
    and "quiet [(None, 2000000), (Some [1, 2], 2100000)] out1 DhcpInit" and "quiet [] out2 DhcpRequesting"
    and "valid_reply out1 DhcpInit (DhcpPacket_bytes (ex_reply DhcpOffer 7)) (ex_reply DhcpOffer 7)"
    and "valid_reply out2 DhcpRequesting (DhcpPacket_bytes (ex_reply DhcpAck 9)) (ex_reply DhcpAck 9)"
    and "udp_free ex_client \<noteq> 0" and "dhcp_state ex_client = DhcpInit"
proof -
  have "length (option_bytes (discover_options c0)) + 2 \<le> 308"
    "length (option_bytes (request_options 0x0500000A 0x0100000A c0)) + 2 \<le> 308"
    by (simp_all add: option_bytes_def discover_options_def request_options_def client_id_def requested_def ex_mac_def c0_def)
  from this [THEN ex_out_options, folded c0_def]
  show "with_options (discover_options c0) (dhcp_prep_packet 7 c0) = Some out1"
    and "with_options (request_options (your_ip (ex_reply DhcpOffer 7)) 0x0100000A c0) (dhcp_prep_packet 9 c0) = Some out2"
    unfolding out1_def out2_def by (simp_all add: ex_reply_def)
  show "valid_reply out1 DhcpInit (DhcpPacket_bytes (ex_reply DhcpOffer 7)) (ex_reply DhcpOffer 7)"
    and "valid_reply out2 DhcpRequesting (DhcpPacket_bytes (ex_reply DhcpAck 9)) (ex_reply DhcpAck 9)"
    unfolding out1_def out2_def by (rule ex_reply_valid, simp add: type_ok_def)+
qed (simp_all add: quiet_def DhcpRespTimeoutUs_def valid_reply_def reply_ok_def received_def DhcpPacket_at_def
       DhcpReplyOp_def ex_client_def)

text \<open>The packets of the client are the messages.\<close>

lemma option_bytes_Cons: "option_bytes ((tag, v) # os) = [tag, word_of_nat (length v)] @ v @ option_bytes os"
  by (simp add: option_bytes_def)








text \<open>
  C23. An address is only ever bound by a complete exchange. When \<open>dhcp_request\<close> returns 0, the network
  delivered a reply to the DISCOVER that was sent and a reply to the REQUEST that was sent, each with
  the transaction number and the hardware address of that packet. The first is an offer when the client was
  in its initial state; after a REQUEST that was never answered, which leaves the state at
  \<open>DhcpRequesting\<close>, it is an ACK or a NAK, and while an address is bound it may be of any type. The
  second is an acknowledgement. The REQUEST carries the address of the first reply and the server
  identifier of its options, or if they have none what the variable held before (\<open>junk\<close>), for the code does not set it; and the
  address, the next server and the boot file are those of the acknowledgement.
\<close>

theorem dhcp_request_binds:
  assumes "dhcp_request (Some mac) xid1 xid2 junk polls c = Some (Some s, polls', c')" and "length mac = 6"
  shows "\<exists>offer ack. bound_by mac xid1 xid2 junk polls c s c' offer ack"
  by (rule dhcp_request_bound [OF assms])

theorem dhcp_request_binds_witness:
  "\<exists>c' offer ack. bound_by ex_mac 7 9 0 ([(None, 2000000), (Some [1, 2], 2100000)] @ (Some (DhcpPacket_bytes (ex_reply DhcpOffer 7)), 0) #
         [] @ (Some (DhcpPacket_bytes (ex_reply DhcpAck 9)), 0) # [])
       ex_client \<lparr>next_ip = le32_bytes (server_ip (ex_reply DhcpAck 9)), dhcp_server_ip = le32_bytes 0x0100000A,
         bootfile = bootfile_name (ex_reply DhcpAck 9) @ [0]\<rparr> c' offer ack"
proof -
  note ex = dhcp_exchange [OF refl ex_replies(7,8) ex_replies(1,3,5) ex_server ex_replies(2,4,6) ex_reply_type ex_apply,
    where ?t1.0 = 0 and ?t2.0 = 0 and rest = "[]" and junk = 0]
  from ex obtain c' where "dhcp_request (Some ex_mac) 7 9 0 ([(None, 2000000), (Some [1, 2], 2100000)] @
      (Some (DhcpPacket_bytes (ex_reply DhcpOffer 7)), 0) # [] @ (Some (DhcpPacket_bytes (ex_reply DhcpAck 9)), 0) # []) ex_client =
    Some (Some \<lparr>next_ip = le32_bytes (server_ip (ex_reply DhcpAck 9)), dhcp_server_ip = le32_bytes 0x0100000A,
      bootfile = bootfile_name (ex_reply DhcpAck 9) @ [0]\<rparr>, [], c')"
    by blast
  from dhcp_request_binds [OF this] show ?thesis by (simp add: ex_mac_def) blast
qed

end
