(* ===== verification/Netboot.thy ===== *)
theory Netboot
  imports Dhcp
begin

text \<open>
  \<open>src/netboot/netboot.c\<close>: booting over the network. An address is asked for until there is one; the
  kernel, then a ram disk behind it, and then the command line are loaded from the TFTP server; the
  server's address is added to the command line, and the kernel is booted. The start of the program
  (\<open>netboot_entry\<close>: consoles, drivers, parameters in flash) is not modelled.

  Of what the kernel is given, the theorems say where the ram disk is and what the command line is.
\<close>

section \<open>Model\<close>

text \<open>The size of \<open>cmd_line\<close>.\<close>

definition CMD_LINE_SIZE :: nat where "CMD_LINE_SIZE = 4096"

text \<open>A \<open>char\<close> as a number; \<open>sg\<close>: it is signed, as on x86.\<close>

definition c_char :: "bool \<Rightarrow> u8 \<Rightarrow> int" where
  "c_char sg c = (if sg then sint c else uint c)"

text \<open>
  The loops over a command line that was loaded: the size without trailing white space and control
  characters, and the replacement of control characters. \<open>None\<close>: an empty file, for which the first
  loop reads in front of the buffer.
\<close>

fun strip_size :: "bool \<Rightarrow> u8 list \<Rightarrow> nat \<Rightarrow> nat option" where
  "strip_size sg buf 0 = None"
| "strip_size sg buf (Suc n) =
     (if c_char sg (buf ! n) \<le> 32 then (if n = 0 then Some 0 else strip_size sg buf n) else Some (Suc n))"

definition blank_controls :: "bool \<Rightarrow> u8 list \<Rightarrow> nat \<Rightarrow> u8 list" where
  "blank_controls sg buf sz = map (\<lambda>c. if c_char sg c < 32 then 32 else c) (take sz buf) @ drop sz buf"

definition clean_cmd_line :: "bool \<Rightarrow> u8 list \<Rightarrow> nat \<Rightarrow> u8 list option" where
  "clean_cmd_line sg buf sz =
     map_option (\<lambda>sz. blank_controls sg (buf[sz := 0]) sz) (strip_size sg buf sz)"

definition strncpy :: "u8 list \<Rightarrow> u8 list \<Rightarrow> nat \<Rightarrow> u8 list" where
  "strncpy dst src n = memcpy_at dst 0 (take n (c_str src @ replicate n 0))"

text \<open>The parameter \<open>args\<close>: null, \<open>cmd_line\<close> itself, or another string.\<close>

datatype args = No_args | Cmd_line | Args "u8 list"

text \<open>
  The transfers, in their order: whether a UDP connection is free, the time at the start, and what the
  network delivers. A transfer gives its result, the size, and the memory at the destination.
\<close>

type_synonym tftp_run = "bool \<times> nat \<times> ((nat \<times> u8 list) option \<times> nat) list"

fun next_tftp ::
  "tftp_run list \<Rightarrow> u8 list \<Rightarrow> u8 list \<Rightarrow> nat \<Rightarrow> ((int \<times> nat \<times> u8 list) \<times> tftp_run list) option" where
  "next_tftp [] mem file max_size = None"
| "next_tftp ((conn_ok, start, polls) # runs) mem file max_size =
     map_option (\<lambda>(rv, sz, t). ((rv, case sz of None \<Rightarrow> 0 | Some n \<Rightarrow> n, tftp_mem t), runs))
       (tftp_read conn_ok mem file max_size start polls)"

text \<open>\<open>while (dhcp_request(...))\<close>: each call takes two transaction numbers and finds some value in \<open>server_id\<close>.\<close>

fun dhcp_until_bound ::
  "u8 list option \<Rightarrow> (u32 \<times> u32 \<times> u32) list \<Rightarrow> polls \<Rightarrow> dhcp_client \<Rightarrow>
   (dhcp_settings \<times> polls \<times> dhcp_client) option" where
  "dhcp_until_bound mac [] polls c = None"
| "dhcp_until_bound mac ((xid1, xid2, junk) # tries) polls c =
     Option.bind (dhcp_request mac xid1 xid2 junk polls c) (\<lambda>(r, polls, c).
       case r of Some settings \<Rightarrow> Some (settings, polls, c) | None \<Rightarrow> dhcp_until_bound mac tries polls c)"

record netboot_env =
  char_signed :: bool
  kernel_start :: nat
  kernel_size :: nat
  mac :: "u8 list option"
  dhcp_tries :: "(u32 \<times> u32 \<times> u32) list"
  dhcp_polls :: polls
  client :: dhcp_client
  tftp_runs :: "tftp_run list"
  release_xid :: u32
  crossystem_ok :: bool

record boot_info =
  kernel_mem :: "u8 list"
  cmd_line :: "u8 list"
  ramdisk_addr :: "nat option"
  ramdisk_size :: nat

text \<open>
  The memory from \<open>CONFIG_KERNEL_START\<close> on is \<open>payload_mem\<close>, of \<open>CONFIG_KERNEL_SIZE\<close> bytes. Where the
  ram disk goes and whether it was loaded: the address, its size and the memory.
\<close>

definition load_ramdisk ::
  "netboot_env \<Rightarrow> u8 list option \<Rightarrow> tftp_run list \<Rightarrow> u8 list \<Rightarrow> nat \<Rightarrow>
   (nat option \<times> nat \<times> u8 list \<times> tftp_run list) option" where
  "load_ramdisk env ramdiskfile runs payload_mem sz =
     (case ramdiskfile of
        None \<Rightarrow> Some (None, 0, payload_mem, runs)
      | Some file \<Rightarrow>
          let ramdisk = align_up (kernel_start env + sz) 4096;
              sz = ramdisk - kernel_start env
          in if kernel_size env \<le> sz then Some (None, 0, payload_mem, runs)
             else map_option (\<lambda>((rv, n, mem), runs).
                    if rv \<noteq> 0 then (None, 0, take sz payload_mem @ mem, runs)
                    else (Some ramdisk, n, take sz payload_mem @ mem, runs))
                  (next_tftp runs (drop sz payload_mem) file (kernel_size env - sz)))"

definition load_cmd_line ::
  "netboot_env \<Rightarrow> u8 list option \<Rightarrow> args \<Rightarrow> tftp_run list \<Rightarrow> u8 list \<Rightarrow> (u8 list \<times> tftp_run list) option" where
  "load_cmd_line env argsfile args runs line =
     (let fall_back = (\<lambda>line. case args of No_args \<Rightarrow> line | Cmd_line \<Rightarrow> line
                              | Args a \<Rightarrow> strncpy line a (CMD_LINE_SIZE - 1))
      in case argsfile of
           None \<Rightarrow> Some (fall_back line, runs)
         | Some file \<Rightarrow> Option.bind (next_tftp runs line file (CMD_LINE_SIZE - 1)) (\<lambda>((rv, sz, line), runs).
             if rv = 0 then map_option (\<lambda>line. (line, runs)) (clean_cmd_line (char_signed env) line sz)
             else Some (fall_back line, runs)))"

definition tftpserverip :: "u8 list \<Rightarrow> u8 list" where
  "tftpserverip ip = c_bytes '' tftpserverip='' @ c_bytes (decimal (unat (ip ! 0))) @ [46] @
     c_bytes (decimal (unat (ip ! 1))) @ [46] @ c_bytes (decimal (unat (ip ! 2))) @ [46] @
     c_bytes (decimal (unat (ip ! 3)))"

text \<open>The length of \<open>" tftpserverip=xxx.xxx.xxx.xxx"\<close>.\<close>

definition def_tftp_cmdline_len :: nat where "def_tftp_cmdline_len = 29"

text \<open>
  \<open>netboot\<close>: \<open>Some None\<close> when it returns without booting; \<open>None\<close> when it halts, keeps waiting for the
  network, or fails in \<open>clean_cmd_line\<close>.
\<close>

definition netboot ::
  "netboot_env \<Rightarrow> u8 list option \<Rightarrow> u8 list option \<Rightarrow> u8 list option \<Rightarrow> args \<Rightarrow> u8 list option \<Rightarrow>
   u8 list \<Rightarrow> u8 list \<Rightarrow> boot_info option option" where
  "netboot env tftp_ip bootfile' argsfile args ramdiskfile payload_mem line =
     Option.bind (dhcp_until_bound (mac env) (dhcp_tries env) (dhcp_polls env) (client env)) (\<lambda>(settings, _, c).
     let ip = (case tftp_ip of None \<Rightarrow> next_ip settings | Some ip \<Rightarrow> ip);
         file = (case bootfile' of None \<Rightarrow> bootfile settings | Some f \<Rightarrow> f)
     in Option.bind (next_tftp (tftp_runs env) payload_mem file (kernel_size env)) (\<lambda>((rv, sz, payload_mem), runs).
     if rv \<noteq> 0 then None
     else Option.bind (load_ramdisk env ramdiskfile runs payload_mem sz) (\<lambda>(ramdisk, rd_size, payload_mem, runs).
     Option.bind (load_cmd_line env argsfile args runs line) (\<lambda>(line, runs).
     Option.bind (dhcp_release (release_xid env) c) (\<lambda>(failed, c).
     if failed then None
     else
       let len = length (c_str line)
       in if CMD_LINE_SIZE \<le> len + def_tftp_cmdline_len then Some None
          else
            let line = memcpy_at line len (tftpserverip ip @ [0])
            in if \<not> crossystem_ok env then Some None
               else Some (Some \<lparr>kernel_mem = payload_mem, cmd_line = line, ramdisk_addr = ramdisk,
                               ramdisk_size = rd_size\<rparr>))))))"

section \<open>The command line\<close>

lemma strip_size_text:
  "body \<noteq> [] \<Longrightarrow> \<not> c_char sg (last body) \<le> 32 \<Longrightarrow> \<forall>c \<in> set trail. c_char sg c \<le> 32 \<Longrightarrow>
   strip_size sg (body @ trail @ rest) (length body + length trail) = Some (length body)"
proof (induction trail arbitrary: rest rule: rev_induct)
  case Nil
  then obtain b bs where b: "body = bs @ [b]" by (metis append_butlast_last_id)
  then show ?case using Nil by simp
next
  case (snoc c trail)
  have "strip_size sg (body @ trail @ c # rest) (length body + length trail) = Some (length body)"
    by (rule snoc.IH) (use snoc.prems in simp_all)
  moreover have "(body @ (trail @ [c]) @ rest) ! (length body + length trail) = c"
    by (simp add: nth_append)
  ultimately show ?case using snoc.prems by simp
qed

definition blanked :: "bool \<Rightarrow> u8 list \<Rightarrow> u8 list" where
  "blanked sg = map (\<lambda>c. if c_char sg c < 32 then 32 else c)"

lemma blanked_no_nul: "0 \<notin> set (blanked sg t)"
  by (auto simp: blanked_def c_char_def split: if_splits)

lemma clean_cmd_line_text:
  assumes "body \<noteq> []" and "\<not> c_char sg (last body) \<le> 32" and "\<forall>c \<in> set trail. c_char sg c \<le> 32" and "rest \<noteq> []"
  shows "\<exists>l. clean_cmd_line sg (body @ trail @ rest) (length body + length trail) = Some l \<and>
    c_str l = blanked sg body \<and> length l = length (body @ trail @ rest)"
proof -
  let ?l = "blanked sg body @ drop (length body) ((body @ trail @ rest)[length body := 0])"
  have c: "clean_cmd_line sg (body @ trail @ rest) (length body + length trail) = Some ?l"
    using strip_size_text [OF assms(1-3), of rest] by (simp add: clean_cmd_line_def blank_controls_def blanked_def)
  obtain d ds where "trail @ rest = d # ds" using assms(4) by (cases "trail @ rest") simp_all
  then have "?l = blanked sg body @ 0 # ds" by (simp add: list_update_append)
  moreover have "c_str (blanked sg body @ 0 # ds) = blanked sg body"
    using blanked_no_nul [of sg body] by (auto simp: c_str_def takeWhile_append)
  moreover have "length ?l = length (body @ trail @ rest)" by (simp add: blanked_def)
  ultimately show ?thesis using c by metis
qed

lemma length_decimal_byte: "length (decimal (unat (b :: u8))) \<le> 3"
proof -
  have b: "unat b < 256" by simp
  have "length (decimal n) \<le> 3" if "n < 256" for n
  proof -
    have d: "decimal n = (if n < 10 then [char_of (48 + n)] else decimal (n div 10) @ [char_of (48 + n mod 10)])" for n
      by (rule decimal.simps)
    show ?thesis using that by (subst d, subst d, subst d) auto
  qed
  then show ?thesis using b .
qed

lemma decimal_digits: "c \<in> set (decimal n) \<Longrightarrow> \<exists>d < 10. c = char_of (48 + d :: nat)"
proof (induction n rule: decimal.induct)
  case (1 n)
  have d: "decimal n = (if n < 10 then [char_of (48 + n)] else decimal (n div 10) @ [char_of (48 + n mod 10)])"
    by (rule decimal.simps)
  have m: "n mod 10 < 10" by simp
  show ?case
  proof (cases "n < 10")
    case True
    then have "c = char_of (48 + n)" using 1(2) unfolding d by simp
    then show ?thesis using True by blast
  next
    case False
    then have "c \<in> set (decimal (n div 10)) \<or> c = char_of (48 + n mod 10)" using 1(2) unfolding d by auto
    then show ?thesis using 1(1) [OF False] m by blast
  qed
qed

lemma decimal_no_nul: "0 \<notin> set (c_bytes (decimal n))"
proof
  assume "0 \<in> set (c_bytes (decimal n))"
  then obtain c where c: "c \<in> set (decimal n)" "(word_of_nat (of_char c) :: u8) = 0" by (auto simp: c_bytes_def)
  obtain d where d: "d < 10" "c = char_of (48 + d :: nat)" using decimal_digits [OF c(1)] by blast
  have "of_char c = (48 + d) mod 256" unfolding d(2) by (rule of_char_of)
  then have e: "of_char c = 48 + d" using d(1) by simp
  have "unat (word_of_nat (of_char c) :: u8) = 48 + d" unfolding e unat_of_nat using d(1) by simp
  then show False using c(2) by simp
qed

lemma tftpserverip_facts: "length (tftpserverip ip) \<le> def_tftp_cmdline_len" "0 \<notin> set (tftpserverip ip)"
proof -
  have l: "length (c_bytes xs) = length xs" for xs by (simp add: c_bytes_def)
  show "length (tftpserverip ip) \<le> def_tftp_cmdline_len"
    using length_decimal_byte [of "ip ! 0"] length_decimal_byte [of "ip ! 1"] length_decimal_byte [of "ip ! 2"]
      length_decimal_byte [of "ip ! 3"]
    by (simp add: tftpserverip_def l def_tftp_cmdline_len_def)
  have "0 \<notin> set (c_bytes '' tftpserverip='')" by code_simp
  then show "0 \<notin> set (tftpserverip ip)" using decimal_no_nul by (simp add: tftpserverip_def)
qed

lemma empty_args_file_fails: "clean_cmd_line sg buf 0 = None"
  by (simp add: clean_cmd_line_def)

section \<open>Booting\<close>

definition served :: "u8 list \<Rightarrow> nat \<Rightarrow> nat \<Rightarrow> (nat option \<times> nat) list \<Rightarrow> tftp_run" where
  "served file port start ks = (True, start, server_polls file port ks)"

definition all_served :: "u8 list \<Rightarrow> nat \<Rightarrow> (nat option \<times> nat) list \<Rightarrow> bool" where
  "all_served file port ks \<longleftrightarrow>
     port \<noteq> 0 \<and> in_lockstep (nblocks file) 1 ks \<and> nblocks file < next_block (nblocks file) 1 ks"

lemma next_tftp_served:
  assumes "all_served file port ks" and "length file \<le> max_size" and "max_size \<le> length mem" and "max_size < 2 ^ 32"
  shows "next_tftp (served file port start ks # runs) mem name max_size =
    Some ((0, length file, memcpy_at mem 0 file), runs)"
proof -
  have "case tftp_read True mem name max_size start (server_polls file port ks) of
      None \<Rightarrow> False | Some (rv, sz, t) \<Rightarrow> rv = 0 \<and> sz = Some (length file) \<and> tftp_mem t = memcpy_at mem 0 file"
    using tftp_read_received [OF assms(2-4), of port ks name start] assms(1)
    by (auto simp: all_served_def split: option.splits prod.splits)
  then show ?thesis unfolding served_def by (auto split: option.splits)
qed

lemma dhcp_release_sends: "udp_free c \<noteq> 0 \<Longrightarrow> \<exists>c'. dhcp_release xid c = Some (False, c')"
  by (simp add: dhcp_release_def with_options_some option_bytes_def)

text \<open>The ram disk starts behind the kernel on a page boundary, and the kernel is left as it was loaded.\<close>

lemma load_ramdisk_served:
  assumes "all_served ramdisk port ks" and "length kern \<le> length mem"
    and "off = align_up (kernel_start env + length kern) 4096 - kernel_start env"
    and "off + length ramdisk \<le> kernel_size env" and "off < kernel_size env"
    and "kernel_size env = length mem" and "kernel_size env < 2 ^ 32"
  shows "\<exists>mem'. load_ramdisk env (Some name) (served ramdisk port start ks # runs) (memcpy_at mem 0 kern) (length kern) =
      Some (Some (kernel_start env + off), length ramdisk, mem', runs) \<and>
    length kern \<le> off \<and> length mem' = length mem \<and> take (length kern) mem' = kern \<and>
    bslice off (length ramdisk) mem' = ramdisk"
proof -
  let ?k = "memcpy_at mem 0 kern"
  have up: "kernel_start env + length kern \<le> align_up (kernel_start env + length kern) 4096" by (rule align_up_ge) simp
  then have k: "length kern \<le> off" and addr: "align_up (kernel_start env + length kern) 4096 = kernel_start env + off"
    using assms(3) by linarith+
  have len: "length ?k = length mem" using assms(2) by simp
  have t: "next_tftp (served ramdisk port start ks # runs) (drop off ?k) name (kernel_size env - off) =
      Some ((0, length ramdisk, memcpy_at (drop off ?k) 0 ramdisk), runs)"
    by (rule next_tftp_served [OF assms(1)]) (use assms(4-7) len in auto)
  let ?mem = "take off ?k @ memcpy_at (drop off ?k) 0 ramdisk"
  have "load_ramdisk env (Some name) (served ramdisk port start ks # runs) ?k (length kern) =
      Some (Some (kernel_start env + off), length ramdisk, ?mem, runs)"
    using assms(5) by (simp add: load_ramdisk_def addr t Let_def)
  moreover have "length ?mem = length mem" using len assms(4,6) by simp
  moreover have "take (length kern) ?mem = kern" using k assms(2,5,6) len by (simp add: memcpy_at_def)
  moreover have "bslice off (length ramdisk) ?mem = ramdisk"
    using len assms(5,6) by (simp add: bslice_def memcpy_at_def)
  ultimately show ?thesis using k by blast
qed

lemma load_cmd_line_served:
  assumes "all_served (body @ trail) port ks" and "length (body @ trail) \<le> CMD_LINE_SIZE - 1" and "length line = CMD_LINE_SIZE"
    and "body \<noteq> []" and "\<not> c_char (char_signed env) (last body) \<le> 32"
    and "\<forall>c \<in> set trail. c_char (char_signed env) c \<le> 32"
  shows "\<exists>l. load_cmd_line env (Some name) args (served (body @ trail) port start ks # runs) line = Some (l, runs) \<and>
    c_str l = blanked (char_signed env) body \<and> length l = CMD_LINE_SIZE"
proof -
  let ?rest = "drop (length (body @ trail)) line"
  have t: "next_tftp (served (body @ trail) port start ks # runs) line name (CMD_LINE_SIZE - 1) =
      Some ((0, length (body @ trail), memcpy_at line 0 (body @ trail)), runs)"
    by (rule next_tftp_served [OF assms(1,2)]) (simp_all add: assms(3) CMD_LINE_SIZE_def)
  have m: "memcpy_at line 0 (body @ trail) = body @ trail @ ?rest" by (simp add: memcpy_at_def)
  have "?rest \<noteq> []" using assms(2,3) by (simp add: CMD_LINE_SIZE_def)
  from clean_cmd_line_text [OF assms(4-6) this] obtain l where
    l: "clean_cmd_line (char_signed env) (body @ trail @ ?rest) (length body + length trail) = Some l"
      "c_str l = blanked (char_signed env) body" "length l = length (body @ trail @ ?rest)"
    by blast
  have "length l = CMD_LINE_SIZE" using l(3) assms(2,3) by (simp add: CMD_LINE_SIZE_def)
  then show ?thesis using t l(1,2) by (simp add: load_cmd_line_def m)
qed

lemma cmd_line_append:
  assumes "length l = n" and "length (c_str l) + length s < n" and "0 \<notin> set s"
  shows "c_str (memcpy_at l (length (c_str l)) (s @ [0])) = c_str l @ s"
proof -
  have "take (length (c_str l)) l = c_str l" by (simp add: c_str_def takeWhile_eq_take [symmetric])
  then have m: "memcpy_at l (length (c_str l)) (s @ [0]) = c_str l @ s @ 0 # drop (length (c_str l) + length (s @ [0])) l"
    by (simp add: memcpy_at_def)
  have "takeWhile (\<lambda>c. c \<noteq> 0) (c_str l @ s @ 0 # xs) = c_str l @ s" for xs
    using assms(3) c_str_no_nul [of l] by (subst takeWhile_append2) (auto simp: takeWhile_append)
  then show ?thesis unfolding m by (simp only: c_str_def [of "c_str l @ s @ _"])
qed

text \<open>
  C22. Booting over the network. When DHCP gives an address, the server and the network deliver the
  kernel, the ram disk and the file with the command line, which is not blank, and they fit, \<open>netboot\<close>
  boots, if a UDP connection is still free and \<open>crossystem_setup\<close> succeeds (\<open>crossystem_ok\<close>): the memory
  for the kernel starts with the kernel, the ram disk stands behind it on a page boundary, unharmed by
  the transfers before and after it, and the command line is the text of the file, without the white
  space at its end and with blanks for control characters, followed by the address of the server.
\<close>

theorem netboot_boots_served_files:
  assumes "dhcp_until_bound (mac env) (dhcp_tries env) (dhcp_polls env) (client env) = Some (settings, ps, c)"
    and "udp_free c \<noteq> 0" and "crossystem_ok env"
    and "tftp_runs env = [served kern p1 s1 ks1, served ramdisk p2 s2 ks2, served (body @ trail) p3 s3 ks3]"
    and "all_served kern p1 ks1" and "all_served ramdisk p2 ks2" and "all_served (body @ trail) p3 ks3"
    and "kernel_size env = length mem" and "kernel_size env < 2 ^ 32" and "length kern \<le> kernel_size env"
    and "off = align_up (kernel_start env + length kern) 4096 - kernel_start env"
    and "off + length ramdisk \<le> kernel_size env" and "off < kernel_size env"
    and "length line = CMD_LINE_SIZE" and "length (body @ trail) < CMD_LINE_SIZE"
    and "length body + def_tftp_cmdline_len < CMD_LINE_SIZE"
    and "body \<noteq> []" and "\<not> c_char (char_signed env) (last body) \<le> 32"
    and "\<forall>c \<in> set trail. c_char (char_signed env) c \<le> 32"
  shows "\<exists>bi. netboot env tftp_ip bootfile' (Some argsfile) args (Some rdname) mem line = Some (Some bi) \<and>
    take (length kern) (kernel_mem bi) = kern \<and>
    ramdisk_addr bi = Some (kernel_start env + off) \<and> ramdisk_size bi = length ramdisk \<and>
    bslice off (length ramdisk) (kernel_mem bi) = ramdisk \<and> length kern \<le> off \<and>
    c_str (cmd_line bi) = blanked (char_signed env) body @
      tftpserverip (case tftp_ip of None \<Rightarrow> next_ip settings | Some ip \<Rightarrow> ip)"
proof -
  let ?ip = "case tftp_ip of None \<Rightarrow> next_ip settings | Some ip \<Rightarrow> ip"
  let ?file = "case bootfile' of None \<Rightarrow> bootfile settings | Some f \<Rightarrow> f"
  let ?run2 = "served ramdisk p2 s2 ks2" and ?run3 = "served (body @ trail) p3 s3 ks3"
  have t1: "next_tftp (tftp_runs env) mem ?file (kernel_size env) =
      Some ((0, length kern, memcpy_at mem 0 kern), [?run2, ?run3])"
    unfolding assms(4) by (rule next_tftp_served [OF assms(5)]) (use assms(8-10) in auto)
  obtain mem' where rd: "load_ramdisk env (Some rdname) [?run2, ?run3] (memcpy_at mem 0 kern) (length kern) =
      Some (Some (kernel_start env + off), length ramdisk, mem', [?run3])"
    and mem': "length kern \<le> off" "take (length kern) mem' = kern" "bslice off (length ramdisk) mem' = ramdisk"
    using load_ramdisk_served [OF assms(6) _ assms(11-13,8,9), of rdname s2 "[?run3]"] assms(8,10) by auto
  have fits: "length (body @ trail) \<le> CMD_LINE_SIZE - 1" using assms(15) by (simp add: CMD_LINE_SIZE_def)
  obtain l where cl: "load_cmd_line env (Some argsfile) args [?run3] line = Some (l, [])"
    and l: "c_str l = blanked (char_signed env) body" "length l = CMD_LINE_SIZE"
    using load_cmd_line_served [OF assms(7) fits assms(14,17-19), of argsfile args s3 "[]"] by blast
  obtain c' where rel: "dhcp_release (release_xid env) c = Some (False, c')"
    using dhcp_release_sends [OF assms(2)] by blast
  have len: "length (c_str l) = length body" by (simp add: l(1) blanked_def)
  have appended: "c_str (memcpy_at l (length (c_str l)) (tftpserverip ?ip @ [0])) = c_str l @ tftpserverip ?ip"
    by (rule cmd_line_append [OF l(2)]) (use tftpserverip_facts [of ?ip] len assms(16) in auto)
  have "netboot env tftp_ip bootfile' (Some argsfile) args (Some rdname) mem line =
      Some (Some \<lparr>kernel_mem = mem', cmd_line = memcpy_at l (length (c_str l)) (tftpserverip ?ip @ [0]),
        ramdisk_addr = Some (kernel_start env + off), ramdisk_size = length ramdisk\<rparr>)"
    using assms(16) by (simp add: netboot_def assms(1,3) t1 rd cl rel len Let_def)
  then show ?thesis using mem' appended l(1) by simp
qed

definition ex_env :: netboot_env where
  "ex_env = \<lparr>char_signed = True, kernel_start = 0x100000, kernel_size = 8192, mac = Some ex_mac,
     dhcp_tries = [(7, 9, 0)],
     dhcp_polls = [(None, 2000000), (Some [1, 2], 2100000)] @
       (Some (DhcpPacket_bytes (ex_reply DhcpOffer 7)), 0) # [] @ (Some (DhcpPacket_bytes (ex_reply DhcpAck 9)), 0) # [],
     client = ex_client,
     tftp_runs = [served (replicate 600 1) 3000 0 [(Some 1, 0), (Some 1, 0), (Some 2, 0)],
       served [7, 8] 3000 0 [(Some 1, 0)], served ([97, 9, 98] @ [10]) 3000 0 [(None, 5), (Some 1, 6)]],
     release_xid = 1, crossystem_ok = True\<rparr>"

lemma ex_env_bound:
  "\<exists>settings c. dhcp_until_bound (mac ex_env) (dhcp_tries ex_env) (dhcp_polls ex_env) (client ex_env) =
     Some (settings, [], c) \<and> next_ip settings = le32_bytes 0x0100000A \<and> udp_free c \<noteq> 0"
proof -
  note ex = dhcp_exchange [OF refl ex_replies(7,8) ex_replies(1,3,5) ex_server ex_replies(2,4,6) ex_reply_type ex_apply,
    where ?t1.0 = 0 and ?t2.0 = 0 and rest = "[]" and junk = 0]
  have ip: "server_ip (ex_reply DhcpAck 9) = 0x0100000A" by (simp add: ex_reply_def)
  define settings where "settings = \<lparr>next_ip = le32_bytes 0x0100000A, dhcp_server_ip = le32_bytes 0x0100000A,
    bootfile = bootfile_name (ex_reply DhcpAck 9) @ [0]\<rparr>"
  from ex obtain c where "dhcp_request (Some ex_mac) 7 9 0 (dhcp_polls ex_env) ex_client = Some (Some settings, [], c)"
    and c: "udp_free c = udp_free ex_client"
    unfolding ex_env_def ip settings_def [symmetric] by auto
  then have "dhcp_until_bound (mac ex_env) (dhcp_tries ex_env) (dhcp_polls ex_env) (client ex_env) = Some (settings, [], c)"
    by (simp add: ex_env_def)
  then show ?thesis using c ex_replies(7) by (auto simp: settings_def)
qed

lemma ex_env_served:
  "all_served (replicate 600 1) 3000 [(Some 1, 0), (Some 1, 0), (Some 2, 0)]" "all_served [7, 8] 3000 [(Some 1, 0)]"
  "all_served ([97, 9, 98] @ [10]) 3000 [(None, 5), (Some 1, 6)]"
  by (simp_all add: all_served_def nblocks_def TftpMaxBlockSize_def)

theorem netboot_boots_served_files_witness:
  "\<exists>bi. netboot ex_env None None (Some [99]) No_args (Some [100]) (replicate 8192 0) (replicate 4096 0) = Some (Some bi) \<and>
     take 600 (kernel_mem bi) = replicate 600 1 \<and> ramdisk_addr bi = Some 0x101000 \<and>
     c_str (cmd_line bi) = [97, 32, 98] @ tftpserverip (le32_bytes 0x0100000A)"
proof -
  obtain settings c where d: "dhcp_until_bound (mac ex_env) (dhcp_tries ex_env) (dhcp_polls ex_env) (client ex_env) =
      Some (settings, [], c)" and s: "next_ip settings = le32_bytes 0x0100000A" "udp_free c \<noteq> 0"
    using ex_env_bound by blast
  have env: "kernel_start ex_env = 0x100000" "kernel_size ex_env = 8192" "char_signed ex_env = True" "crossystem_ok ex_env"
    "tftp_runs ex_env = [served (replicate 600 1) 3000 0 [(Some 1, 0), (Some 1, 0), (Some 2, 0)],
       served [7, 8] 3000 0 [(Some 1, 0)], served ([97, 9, 98] @ [10]) 3000 0 [(None, 5), (Some 1, 6)]]"
    by (simp_all add: ex_env_def)
  have off: "4096 = align_up (kernel_start ex_env + length (replicate 600 (1 :: u8))) 4096 - kernel_start ex_env"
    by (simp add: env align_up_def align_down_def)
  have b: "blanked True [97, 9, 98] = [97, 32, 98]" "\<not> c_char True (last [97, 9, 98]) \<le> 32" "\<forall>x \<in> set [10]. c_char True x \<le> 32"
    by (simp_all add: blanked_def c_char_def)
  have "\<exists>bi. netboot ex_env None None (Some [99]) No_args (Some [100]) (replicate 8192 0) (replicate 4096 0) = Some (Some bi) \<and>
      take (length (replicate 600 (1 :: u8))) (kernel_mem bi) = replicate 600 1 \<and>
      ramdisk_addr bi = Some (kernel_start ex_env + 4096) \<and> ramdisk_size bi = length [7 :: u8, 8] \<and>
      bslice 4096 (length [7 :: u8, 8]) (kernel_mem bi) = [7, 8] \<and> length (replicate 600 (1 :: u8)) \<le> 4096 \<and>
      c_str (cmd_line bi) = blanked (char_signed ex_env) [97, 9, 98] @
        tftpserverip (case None of None \<Rightarrow> next_ip settings | Some ip \<Rightarrow> ip)"
    by (rule netboot_boots_served_files [OF d s(2) env(4,5) ex_env_served _ _ _ off])
      (use b in \<open>simp_all add: env CMD_LINE_SIZE_def def_tftp_cmdline_len_def\<close>)
  then show ?thesis by (auto simp: env b s)
qed

end
