(* ===== verification/Spec2Isabelle.thy ===== *)
theory Spec2Isabelle
  imports Memory_Map State_Machine Fastboot_Log Android_Misc Bootconfig Commandline Nvdata_Flash Vpd Ui_Modes Fastboot_Tcp Fastboot_Usb Diag_Verdict Diag_Health Elog Netboot
begin

text \<open>
  A verification development of depthcharge, the bootloader that runs as the payload of coreboot on
  ChromeOS devices. All paths below are relative to the directory \<open>src/\<close> of the repository.

  \<^bold>\<open>The parts and how they interact.\<close> Depthcharge starts with the tables that coreboot leaves in
  memory. It works out which physical memory is unused and wipes it before a mode change
  (\<open>vboot/util/\<close>, with the range sets of \<open>base/ranges.c\<close>). It reads its own flash
  (\<open>drivers/flash/\<close>), finds areas there by the flash map (\<open>image/fmap.c\<close>), keeps the verified-boot
  data of the board in one of them (\<open>vboot/nvdata/flash.c\<close>) and reads the vital product data from
  another (\<open>base/vpd_decode.c\<close>). It chooses a boot mode; the modes with a user show the screens of
  \<open>vboot/ui/\<close>, a stack of menus driven by keys. A board built with fastboot answers fastboot
  commands (\<open>fastboot/\<close>) from a host while its screen shows the fastboot log: they download images,
  write them to partitions of the disk (\<open>base/gpt.c\<close>, \<open>base/sparse.c\<close>, \<open>drivers/storage/\<close>), and
  edit the Android message area (\<open>base/android_misc.c\<close>) from which \<open>boot/bootconfig.c\<close> and
  \<open>boot/commandline.c\<close> later build what the kernel is given. Commands and answers travel over TCP or
  USB. Developer builds can instead boot from the network: \<open>netboot/\<close> asks for an address by DHCP and
  fetches kernel, ram disk and arguments by TFTP. Events go to a log in flash (\<open>base/elog.c\<close>), and the
  diagnostics (\<open>diag/\<close>) test the unused memory and the disk and keep a report of what was tested.

  \<^bold>\<open>The theories.\<close>
  \<^item> \<open>Dc_Prelude\<close>: the fixed-width types, little-endian bytes, C strings, \<open>memcpy\<close> into a list of
    bytes, decimal and hexadecimal text, and 64-bit arithmetic on naturals with the wrap written out
    (\<open>add64\<close>, \<open>sub64\<close>, \<open>mul64\<close>); and the collections of rewrite rules the components share.
  \<^item> \<open>Ranges\<close>: \<open>base/ranges.c\<close>. The linked list of edges is a strictly sorted list of numbers.
    Interface \<open>address_set\<close>, interpreted on the operations of the file.
  \<^item> \<open>Memory_Map\<close>: \<open>vboot/util/memory.c\<close>, \<open>physmem_64.c\<close>.
  \<^item> \<open>State_Machine\<close>: \<open>base/state_machine.c\<close>, with an abstract automaton as its specification.
  \<^item> \<open>Fastboot_Log\<close>: the ring buffer of \<open>fastboot/log.c\<close>, with the stream of the last bytes
    written as its specification.
  \<^item> \<open>Block_Dev\<close>: \<open>drivers/storage/blockdev.c\<close> and \<open>slice.c\<close>. A driver is a record of callbacks
    over a state; the locale \<open>block_device\<close> says what the callbacks promise about the content of
    the device, \<open>device_slice\<close> that a slice keeps that promise, and both are interpreted.
  \<^item> \<open>Sparse\<close>: \<open>base/sparse.c\<close>; \<open>Gpt\<close>: \<open>base/gpt.c\<close>.
  \<^item> \<open>Android_Misc\<close>: \<open>base/android_misc.c\<close>; the locale \<open>misc_partition\<close> is a disk with a partition
    large enough for the message area.
  \<^item> \<open>Bootconfig\<close>, \<open>Commandline\<close>: \<open>boot/bootconfig.c\<close>, \<open>boot/commandline.c\<close>.
  \<^item> \<open>Flash\<close>: \<open>drivers/flash/flash.c\<close>, \<open>memmapped.c\<close>, \<open>block_flash.c\<close>; the locale \<open>nor_flash\<close> is the
    contract of a NOR flash, whose writes only clear bits. \<open>Fmap\<close>: \<open>image/fmap.c\<close>.
  \<^item> \<open>Nvdata_Flash\<close>: \<open>vboot/nvdata/flash.c\<close>, which logs blobs in an area of that flash.
  \<^item> \<open>Elog\<close>: \<open>base/elog.c\<close>, the event log in another area, mirrored in memory.
  \<^item> \<open>Vpd\<close>: \<open>base/vpd_decode.c\<close> and \<open>vpd_util.c\<close>.
  \<^item> \<open>Ui_Log\<close>, \<open>Ui_Fastboot_Log\<close>: \<open>vboot/ui/log.c\<close> (cutting text into pages) and
    \<open>fastboot_log.c\<close>. \<open>Ui\<close>: \<open>menu.c\<close>, \<open>navigation.c\<close> and \<open>loop.c\<close>, with the locale \<open>ui_table\<close> for
    what the table of screens promises the loop. \<open>Ui_Screens\<close>: \<open>screens.c\<close>, every screen with its
    menu items and callbacks, and the interpretation of \<open>ui_table\<close> on that table.
    \<open>Ui_Modes\<close>: \<open>vboot/ui.c\<close>.
  \<^item> \<open>Fastboot\<close>: the session of \<open>fastboot/fastboot.c\<close>: responses, downloads, the main loop.
    \<open>Fastboot_Disk\<close>: \<open>disk.c\<close>, the GPT and the boot slots. \<open>Fastboot_Vars\<close>: \<open>vars.c\<close>.
    \<open>Fastboot_Match\<close>: the patterns and the edits of the OEM command line in \<open>cmd.c\<close>.
    \<open>Fastboot_Cmd\<close>: the commands of \<open>cmd.c\<close> and their table. \<open>Fastboot_Service\<close>, \<open>Fastboot_Oem\<close>: what
    each command answers. \<open>Fastboot_Session\<close>: sessions over that table. \<open>Fastboot_Tcp\<close>, \<open>Fastboot_Usb\<close>:
    the transports \<open>tcp.c\<close> and \<open>usb.c\<close>; the locale \<open>tcp_client\<close> is the session as the transport sees it.
  \<^item> \<open>Diag_Memory\<close>: \<open>diag/memory.c\<close> and \<open>pattern.c\<close>; the memory under test is a state with functions to
    read and write a byte, so that broken memory is an instance. \<open>Diag_Verdict\<close>: its verdict.
    \<open>Diag_Report\<close>: \<open>diag/report.c\<close>. \<open>Diag_Storage\<close>: \<open>diag/storage_test.c\<close>. \<open>Diag_Health\<close>:
    \<open>diag/health_info.c\<close>.
  \<^item> \<open>Tftp\<close>: \<open>netboot/tftp.c\<close>; \<open>Dhcp\<close>: \<open>net/dhcp.c\<close>; \<open>Netboot\<close>: \<open>netboot/netboot.c\<close> over both.

  \<^bold>\<open>How states and operations correspond.\<close> A struct is a record with the fields of the code, an enum
  a datatype, an integer a word or a natural below its bound with the wrap-around written out where
  it can occur. An operation takes the state and returns it with its result. A buffer is the list of
  bytes from the pointer on. \<open>None\<close> as the outer result stands for a run with no C-level result: a
  failed assertion, \<open>halt()\<close>, a read outside of an object, or a loop that never ends; each definition
  says which. Errors that the code returns are values. Drivers, vboot (\<open>GptInit\<close>,
  \<open>GptNextKernelEntry\<close>, \<open>IsUnusedEntry\<close> and the other functions on GPT entries), libpayload
  (\<open>ipchksum\<close>, the \<open>strtoul\<close> family), the SHA-256 digest, the environment of a screen (keys, time,
  battery, TPM) and the world of a fastboot session (packets, disks, reboots) are parameters: records
  of functions over an abstract state, with named contracts (\<open>blockdev_ok\<close>, \<open>flash_ok\<close>, \<open>misc_ok\<close>,
  \<open>fb_env_ok\<close>, \<open>ufs_ok\<close>, \<open>mac_table_ends\<close>) which the witnesses discharge on concrete instances.
  A pointer to a GPT entry is its index. The network is a list of polls, each with the packet it delivered
  and the time; the end of the list is a run that still waits. The format of the event log is a record of
  functions with the contract \<open>elog_format_ok\<close>.

  \<^bold>\<open>What the lemmas show.\<close>
  \<^item> Memory: a range set holds exactly the addresses set and not cleared since; the unused ranges
    are the RAM outside of every reserved area, and the wipe touches these bytes and no others.
  \<^item> Storage: writing bytes and filling change exactly the bytes asked for, over any driver that
    keeps the contract; a slice never reaches outside of its range; a sparse image expands to the
    blocks it encodes and stays inside its partition; a partition write reads back.
  \<^item> Flash, with sectors of a power of two: a rewrite of a range keeps the other bytes of its sectors; the map lookup finds the
    first area of a name; the logged data survives the next boot.
  \<^item> Event log: a new event is sealed and written behind the others, and the next boot finds it.
  \<^item> Text formats: the OEM command line, boot configuration, kernel command line, vital product
    data and the pages of a log each against a specification on lists.
  \<^item> Screens: the history stack is well formed in every reachable state and never empty; leaving
    and entering developer mode need the confirmation the code asks for; the loop of the screens
    ends whenever the environment ends it, and developer mode times out into the default boot.
  \<^item> Fastboot: a session stays well formed over any sequence of packets; each packet is answered
    with exactly one OKAY, FAIL or DATA, after INFO lines only; a download followed by a flash
    stores the bytes that the host sent; a pattern matches as the list of items it parses to;
    deleting a parameter removes the parameters that match and keeps the others. Over TCP a stream of
    bytes is cut into the packets the host framed, however it was segmented, and the answers to these
    packets, and nothing else, go out in order.
  \<^item> Network: TFTP gives the file byte for byte through losses and repetitions; an address is bound only
    by a complete exchange with the one transaction, and is bound when a server sends the packets that the
    protocol asks for, laid out as the code can read them; netboot starts
    what was served, with the command line that was served.
  \<^item> Diagnostics: the memory test passes on working memory and stops at a bit that is stuck in the memory
    it tests; the report holds the last 50 events and dumps the newest first; a disk's self-test is polled
    until the log gives its verdict; the capacity in a health report is computed without overflow and is
    never more than the true one.

  \<^bold>\<open>Bounds and fuel.\<close> Recursion is structural or has a measure. Loops that can run for ever
  are \<open>partial_function (option)\<close>: the loop of the screens, whose return is a theorem
  (\<open>screens_always_return\<close>), and \<open>oem cmdline del\<close>, which really never returns for the pattern
  \<open>*\<close> (\<open>cmdline_del_loop_star\<close>). The table of screens refers to itself through its callbacks; it is
  unrolled as \<open>screens b n\<close>, and the theorems hold for every \<open>n\<close> (the timeout of developer mode, which
  changes the screen twice, for \<open>n\<close> from 3 on). The scan of the event log
  (\<open>elog_scan\<close>) ends because a good event is never empty. The run of the memory test takes
  the times of its steps as a list, and \<open>memory_test_verdict\<close> shows that it ends.

  \<^bold>\<open>Not modelled.\<close> Drawing of the screens and its bitmaps: a turn of the loop only
  resets the fields that drawing resets; the pause between turns is skipped. In the screen model
  \<open>payload_run_altfw\<close> returns only when it failed, and a text box is narrower than \<open>2 ^ 32 - 1\<close>.
  Console output is not recorded, apart from the log buffer itself. Commands that the answer theorem
  excludes are listed in \<open>always_answered\<close>: those read past the end of a stored string or do not
  return, as the lemmas beside them show. The network stack uIP is vendored, and what \<open>net/dhcp.c\<close> and
  the TCP transport see of it is an argument; the controller of the USB transport is one too. Of netboot
  the entry point, which starts consoles and drivers, is left out. The boot protocols of the kernel
  images, the verified-boot glue, the keyboard's key codes, the debug shell, the hardware drivers, boards and architectures are hardware access, vendored code or
  glue, and are left out of this development.
\<close>

end
